(* ===== verification/Scc_Prelude.thy ===== *)
theory Scc_Prelude
  imports Main "HOL-Library.Word" "HOL-Library.AList" "HOL-Library.Multiset"
    "HOL-Library.Char_ord" "HOL-Library.List_Lexorder"
begin

text \<open>
  Shared vocabulary of the development: the byte strings, hashes and machine-integer
  operations of the Rust sources, the two kinds of standard-library map they use, and the
  generic lemmas the component theories rely on.

  \<^item> A \<open>Vec<u8>\<close> is a \<open>char list\<close>: a HOL \<open>char\<close> is exactly one byte, so the
    byte-string literals of the sources are written as string literals, and the order of
    \<open>Vec<u8>\<close> is the lexicographic order of \<open>List_Lexorder\<close>.
  \<^item> A \<open>[u8; 32]\<close> (\<open>Hash\<close>, \<open>AgentId\<close>) is a \<open>256 word\<close>, read big-endian: equality
    and the array order of the sources are equality and the unsigned order of words.
  \<^item> Unsigned counters are \<open>nat\<close> and \<open>i128\<close> values are \<open>int\<close>; each operation of the
    sources that can leave the machine range (saturating, checked, wrapping) is written out.
  \<^item> A \<open>HashMap\<close> is an association list read with \<open>map_of\<close> and written with
    \<open>AList.update\<close>; the list order stands for the (unspecified) iteration order. A
    \<open>BTreeMap\<close> is an association list sorted by key.
\<close>

section \<open>Types\<close>

type_synonym bytes = "char list"
type_synonym hash = "256 word"
type_synonym agent_id = hash
type_synonym symbol_address = bytes
type_synonym ('k, 'v) hashmap = "('k \<times> 'v) list"
type_synonym ('k, 'v) btreemap = "('k \<times> 'v) list"

abbreviation ZERO_HASH :: hash where
  "ZERO_HASH \<equiv> 0"

section \<open>Machine integers\<close>

named_theorems machine_int \<open>bounds of the machine integer types and the operations on them\<close>

definition U32_MAX :: nat where [machine_int]: "U32_MAX = 4294967295"
definition U64_MAX :: nat where [machine_int]: "U64_MAX = 18446744073709551615"
definition U128_MAX :: int where
  [machine_int]: "U128_MAX = 340282366920938463463374607431768211455"
definition I128_MAX :: int where
  [machine_int]: "I128_MAX = 170141183460469231731687303715884105727"
definition I128_MIN :: int where
  [machine_int]: "I128_MIN = -170141183460469231731687303715884105728"

lemma machine_int_powers:
  "U32_MAX = 2 ^ 32 - 1" "U64_MAX = 2 ^ 64 - 1" "U128_MAX = 2 ^ 128 - 1"
  "I128_MAX = 2 ^ 127 - 1" "I128_MIN = - (2 ^ 127)"
  by (simp_all add: machine_int)

definition is_i128 :: "int \<Rightarrow> bool" where
  "is_i128 x \<longleftrightarrow> I128_MIN \<le> x \<and> x \<le> I128_MAX"

definition clamp_i128 :: "int \<Rightarrow> int" where
  "clamp_i128 x = max I128_MIN (min I128_MAX x)"

definition i128_saturating_add :: "int \<Rightarrow> int \<Rightarrow> int" where
  "i128_saturating_add a b = clamp_i128 (a + b)"

definition i128_saturating_sub :: "int \<Rightarrow> int \<Rightarrow> int" where
  "i128_saturating_sub a b = clamp_i128 (a - b)"

definition i128_saturating_mul :: "int \<Rightarrow> int \<Rightarrow> int" where
  "i128_saturating_mul a b = clamp_i128 (a * b)"

definition u128_saturating_add :: "int \<Rightarrow> int \<Rightarrow> int" where
  "u128_saturating_add a b = min (a + b) U128_MAX"

definition u128_saturating_mul :: "int \<Rightarrow> int \<Rightarrow> int" where
  "u128_saturating_mul a b = min (a * b) U128_MAX"

definition u64_saturating_add :: "nat \<Rightarrow> nat \<Rightarrow> nat" where
  "u64_saturating_add a b = min (a + b) U64_MAX"

definition u64_saturating_mul :: "nat \<Rightarrow> nat \<Rightarrow> nat" where
  "u64_saturating_mul a b = min (a * b) U64_MAX"

definition u64_checked_add :: "nat \<Rightarrow> nat \<Rightarrow> nat option" where
  "u64_checked_add a b = (if a + b \<le> U64_MAX then Some (a + b) else None)"

definition u64_wrapping_add :: "nat \<Rightarrow> nat \<Rightarrow> nat" where
  "u64_wrapping_add a b = (a + b) mod 2 ^ 64"

definition u32_saturating_add :: "nat \<Rightarrow> nat \<Rightarrow> nat" where
  "u32_saturating_add a b = min (a + b) U32_MAX"

definition u32_saturating_mul :: "nat \<Rightarrow> nat \<Rightarrow> nat" where
  "u32_saturating_mul a b = min (a * b) U32_MAX"

text \<open>Division and remainder of \<open>i128\<close> truncate towards zero.\<close>

definition i128_div :: "int \<Rightarrow> int \<Rightarrow> int" where
  "i128_div a b = sgn a * sgn b * (\<bar>a\<bar> div \<bar>b\<bar>)"

definition i128_rem :: "int \<Rightarrow> int \<Rightarrow> int" where
  "i128_rem a b = a - b * i128_div a b"

lemmas i128_ops = i128_saturating_add_def i128_saturating_sub_def i128_saturating_mul_def
  clamp_i128_def
lemmas u_ops = u128_saturating_add_def u128_saturating_mul_def u64_saturating_add_def
  u64_saturating_mul_def u64_checked_add_def u64_wrapping_add_def u32_saturating_add_def
  u32_saturating_mul_def

lemma I128_MIN_le_0 [simp]: "I128_MIN \<le> 0" "I128_MIN < 0"
  and I128_MAX_ge_0 [simp]: "0 \<le> I128_MAX" "0 < I128_MAX"
  and U128_MAX_ge_0 [simp]: "0 \<le> U128_MAX"
  and I128_le_U128 [simp]: "I128_MAX \<le> U128_MAX"
  by (simp_all add: machine_int)

lemma is_i128_clamp [simp]: "is_i128 (clamp_i128 x)"
  by (simp add: is_i128_def clamp_i128_def machine_int)

lemma clamp_i128_id [simp]: "is_i128 x \<Longrightarrow> clamp_i128 x = x"
  by (simp add: is_i128_def clamp_i128_def)

lemma is_i128_saturating [simp]:
  "is_i128 (i128_saturating_add a b)" "is_i128 (i128_saturating_sub a b)"
  "is_i128 (i128_saturating_mul a b)"
  by (simp_all add: i128_saturating_add_def i128_saturating_sub_def i128_saturating_mul_def)

lemma is_i128_nonneg: "0 \<le> x \<Longrightarrow> is_i128 x \<longleftrightarrow> x \<le> I128_MAX"
  by (auto simp: is_i128_def intro: order_trans [OF I128_MIN_le_0(1)])

lemma i128_saturating_add_nonneg:
  "0 \<le> a \<Longrightarrow> 0 \<le> b \<Longrightarrow> i128_saturating_add a b = min (a + b) I128_MAX"
  by (simp add: i128_ops machine_int)

lemma i128_saturating_add_exact:
  "0 \<le> a \<Longrightarrow> 0 \<le> b \<Longrightarrow> a + b \<le> I128_MAX \<Longrightarrow> i128_saturating_add a b = a + b"
  by (simp add: i128_saturating_add_nonneg)

lemma i128_saturating_mul_nonneg:
  "0 \<le> a \<Longrightarrow> 0 \<le> b \<Longrightarrow> i128_saturating_mul a b = min (a * b) I128_MAX"
proof -
  have clamp: "clamp_i128 p = min p I128_MAX" if "0 \<le> p" for p
    using that by (simp add: clamp_i128_def machine_int)
  assume "0 \<le> a" "0 \<le> b"
  then have "0 \<le> a * b" by (rule mult_nonneg_nonneg)
  from clamp [OF this] show ?thesis by (simp add: i128_saturating_mul_def)
qed

lemma i128_div_pos: "0 \<le> a \<Longrightarrow> 0 < b \<Longrightarrow> i128_div a b = a div b"
  by (cases "a = 0") (simp_all add: i128_div_def)

lemma i128_rem_pos: "0 \<le> a \<Longrightarrow> 0 < b \<Longrightarrow> i128_rem a b = a mod b"
  by (simp add: i128_rem_def i128_div_pos minus_mult_div_eq_mod)

lemma i128_saturating_sub_exact:
  "0 \<le> b \<Longrightarrow> b \<le> a \<Longrightarrow> a \<le> I128_MAX \<Longrightarrow> i128_saturating_sub a b = a - b"
  by (simp add: i128_ops machine_int)

lemma member_le_sum_list_int:
  fixes v :: int
  shows "v \<in> set vs \<Longrightarrow> \<forall>w \<in> set vs. 0 \<le> w \<Longrightarrow> v \<le> sum_list vs"
proof (induction vs)
  case (Cons w vs)
  then have "0 \<le> sum_list vs" by (auto intro: sum_list_nonneg)
  with Cons show ?case by auto
qed simp

text \<open>
  Folding a saturating addition over non-negative values is the exact sum, capped: the
  iteration order of the container does not matter.
\<close>

lemma fold_saturating_add_nonneg:
  assumes "0 \<le> acc" "acc \<le> I128_MAX" "\<forall>v \<in> set vs. 0 \<le> v"
  shows "fold (\<lambda>v a. i128_saturating_add a v) vs acc = min (acc + sum_list vs) I128_MAX"
  using assms
proof (induction vs arbitrary: acc)
  case (Cons v vs)
  have s: "0 \<le> sum_list vs"
    using Cons.prems(3) by (auto intro: sum_list_nonneg)
  have step: "i128_saturating_add acc v = min (acc + v) I128_MAX"
    using Cons.prems by (simp add: i128_saturating_add_nonneg)
  have "fold (\<lambda>v a. i128_saturating_add a v) vs (min (acc + v) I128_MAX) =
      min (min (acc + v) I128_MAX + sum_list vs) I128_MAX"
    using Cons.prems by (intro Cons.IH) auto
  with s step show ?case by (simp add: min_def)
qed simp

section \<open>Byte encodings\<close>

primrec le_bytes :: "nat \<Rightarrow> nat \<Rightarrow> bytes" where
  "le_bytes 0 x = []"
| "le_bytes (Suc n) x = char_of (x mod 256) # le_bytes n (x div 256)"

primrec of_le_bytes :: "bytes \<Rightarrow> nat" where
  "of_le_bytes [] = 0"
| "of_le_bytes (c # cs) = of_char c + 256 * of_le_bytes cs"

text \<open>\<open>u64::to_le_bytes\<close> and \<open>i128::to_le_bytes\<close> / \<open>from_le_bytes\<close>.\<close>

definition u64_to_le_bytes :: "nat \<Rightarrow> bytes" where
  "u64_to_le_bytes x = le_bytes 8 x"

definition i128_to_le_bytes :: "int \<Rightarrow> bytes" where
  "i128_to_le_bytes x = le_bytes 16 (nat (x mod 2 ^ 128))"

definition i128_from_le_bytes :: "bytes \<Rightarrow> int" where
  "i128_from_le_bytes bs =
     (let n = int (of_le_bytes bs) in if n \<le> I128_MAX then n else n - 2 ^ 128)"

definition hash_bytes :: "hash \<Rightarrow> bytes" where
  "hash_bytes h = rev (le_bytes 32 (unat h))"

lemma length_le_bytes [simp]: "length (le_bytes n x) = n"
  by (induction n arbitrary: x) auto

lemma length_to_le_bytes [simp]:
  "length (u64_to_le_bytes x) = 8" "length (i128_to_le_bytes v) = 16"
  "length (hash_bytes h) = 32"
  by (simp_all add: u64_to_le_bytes_def i128_to_le_bytes_def hash_bytes_def)

lemma of_le_bytes_le_bytes: "of_le_bytes (le_bytes n x) = x mod 256 ^ n"
proof (induction n arbitrary: x)
  case (Suc n)
  have "x mod (256 * 256 ^ n) = 256 * (x div 256 mod 256 ^ n) + x mod 256"
    by (rule mod_mult2_eq)
  with Suc show ?case by simp
qed simp

lemma of_le_bytes_u64: "x \<le> U64_MAX \<Longrightarrow> of_le_bytes (u64_to_le_bytes x) = x"
  by (simp add: u64_to_le_bytes_def of_le_bytes_le_bytes machine_int)

lemma i128_le_bytes_roundtrip:
  assumes "is_i128 x"
  shows "i128_from_le_bytes (i128_to_le_bytes x) = x"
proof -
  have m: "0 \<le> x mod 2 ^ 128" "x mod 2 ^ 128 < 2 ^ 128" by simp_all
  then have "nat (x mod 2 ^ 128) < 256 ^ 16" by (simp add: nat_less_iff)
  with m have n: "int (of_le_bytes (i128_to_le_bytes x)) = x mod 2 ^ 128"
    by (simp add: i128_to_le_bytes_def of_le_bytes_le_bytes)
  show ?thesis
  proof (cases "0 \<le> x")
    case True
    with assms have "x mod 2 ^ 128 = x" by (simp add: is_i128_def machine_int)
    with assms show ?thesis by (simp add: i128_from_le_bytes_def n is_i128_def)
  next
    case False
    have "x mod 2 ^ 128 = (x + 2 ^ 128) mod 2 ^ 128" by simp
    also have "\<dots> = x + 2 ^ 128"
      using False assms by (intro mod_pos_pos_trivial) (simp_all add: is_i128_def machine_int)
    finally show ?thesis
      using False assms
      by (simp add: i128_from_le_bytes_def n is_i128_def machine_int)
  qed
qed

lemma hash_bytes_inject [simp]: "hash_bytes h = hash_bytes h' \<longleftrightarrow> h = h'"
proof
  assume "hash_bytes h = hash_bytes h'"
  then have "of_le_bytes (le_bytes 32 (unat h)) = of_le_bytes (le_bytes 32 (unat h'))"
    by (simp add: hash_bytes_def)
  moreover have "unat w < 256 ^ 32" for w :: hash
    using unsigned_less [of w] by simp
  ultimately have "unat h = unat h'" by (simp add: of_le_bytes_le_bytes)
  then show "h = h'" by (simp add: word_unat_eq_iff)
qed simp

section \<open>Maps\<close>

text \<open>\<open>HashMap\<close>: the laws of update under distinct keys.\<close>

abbreviation keys_distinct :: "('k, 'v) hashmap \<Rightarrow> bool" where
  "keys_distinct m \<equiv> distinct (map fst m)"

lemma map_of_update [simp]: "map_of (AList.update k v m) k' = (if k' = k then Some v else map_of m k')"
  by (simp add: update_conv')

lemma keys_distinct_update [simp, intro]:
  "keys_distinct m \<Longrightarrow> keys_distinct (AList.update k v m)"
  by (rule distinct_update)

lemma map_of_rev_distinct: "keys_distinct m \<Longrightarrow> map_of (rev m) = map_of m"
proof (induction m)
  case (Cons e m)
  then have "map_of m (fst e) = None" by (simp add: map_of_eq_None_iff)
  with Cons show ?case by (auto simp: map_add_def split: option.splits)
qed simp

lemma sum_list_snd_update:
  fixes f :: "'v \<Rightarrow> int"
  assumes "keys_distinct m"
  shows "sum_list (map (f \<circ> snd) (AList.update k v m)) =
    sum_list (map (f \<circ> snd) m) - (case map_of m k of None \<Rightarrow> 0 | Some w \<Rightarrow> f w) + f v"
  using assms by (induction m) (auto simp: map_of_eq_None_iff split: option.splits)

lemma set_snd_update: "snd ` set (AList.update k v m) \<subseteq> insert v (snd ` set m)"
  by (induction m) auto

lemma ball_snd_update:
  "(\<forall>x \<in> snd ` set m. P x) \<Longrightarrow> P v \<Longrightarrow> (\<forall>x \<in> snd ` set (AList.update k v m). P x)"
  using set_snd_update [of k v m] by blast

text \<open>\<open>BTreeMap\<close>: insertion and removal on association lists kept sorted by key.\<close>

fun bt_insert :: "'k::linorder \<Rightarrow> 'v \<Rightarrow> ('k, 'v) btreemap \<Rightarrow> ('k, 'v) btreemap" where
  "bt_insert k v [] = [(k, v)]"
| "bt_insert k v (e # es) =
     (if k = fst e then (k, v) # es
      else if k < fst e then (k, v) # e # es
      else e # bt_insert k v es)"

definition bt_remove :: "'k \<Rightarrow> ('k, 'v) btreemap \<Rightarrow> ('k, 'v) btreemap" where
  "bt_remove k m = filter (\<lambda>e. fst e \<noteq> k) m"

abbreviation bt_sorted :: "('k::linorder, 'v) btreemap \<Rightarrow> bool" where
  "bt_sorted m \<equiv> sorted_wrt (<) (map fst m)"

lemma map_of_bt_insert [simp]:
  "map_of (bt_insert k v m) k' = (if k' = k then Some v else map_of m k')"
  by (induction m) auto

lemma map_of_bt_remove [simp]:
  "map_of (bt_remove k m) k' = (if k' = k then None else map_of m k')"
  unfolding bt_remove_def by (induction m) auto

lemma keys_bt_insert: "fst ` set (bt_insert k v m) = insert k (fst ` set m)"
  by (induction m) auto

lemma bt_sorted_insert [intro]: "bt_sorted m \<Longrightarrow> bt_sorted (bt_insert k v m)"
proof (induction m)
  case (Cons e es)
  have "set (map fst (bt_insert k v es)) = insert k (fst ` set es)"
    by (simp add: keys_bt_insert)
  with Cons show ?case by (auto simp: keys_bt_insert)
qed simp

lemma bt_sorted_remove [intro]: "bt_sorted m \<Longrightarrow> bt_sorted (bt_remove k m)"
  unfolding bt_remove_def by (simp add: sorted_wrt_map sorted_wrt_filter)

lemma bt_sorted_distinct: "bt_sorted m \<Longrightarrow> keys_distinct m"
  by (simp add: strict_sorted_iff)

text \<open>A sorted map is determined by its lookups.\<close>

lemma alist_from_keys:
  assumes "keys_distinct m"
  shows "map (\<lambda>k. (k, the (map_of m k))) (map fst m) = m"
proof -
  have "map (\<lambda>e. (fst e, the (map_of m (fst e)))) m = m"
    using assms by (intro map_idI) auto
  then show ?thesis by (simp add: comp_def)
qed

lemma bt_sorted_ext:
  assumes "bt_sorted m" "bt_sorted m'" "map_of m = map_of m'"
  shows "m = m'"
proof -
  have "set (map fst m) = set (map fst m')"
    using assms(3) by (metis dom_map_of_conv_image_fst set_map)
  then have "map fst m = map fst m'"
    using assms(1,2) by (metis strict_sorted_equal)
  then show ?thesis
    using assms alist_from_keys [of m] alist_from_keys [of m']
    by (simp add: bt_sorted_distinct)
qed

section \<open>Results\<close>

text \<open>\<open>Result<A, E>\<close> is \<open>'e + 'a\<close>; the \<open>?\<close> operator is the bind of the sum.\<close>

definition bind_result :: "'e + 'a \<Rightarrow> ('a \<Rightarrow> 'e + 'b) \<Rightarrow> 'e + 'b" where
  "bind_result r f = (case r of Inl e \<Rightarrow> Inl e | Inr a \<Rightarrow> f a)"

lemma bind_result_simps [simp]:
  "bind_result (Inl e) f = Inl e" "bind_result (Inr a) f = f a"
  by (simp_all add: bind_result_def)

lemma bind_result_Inr:
  "bind_result r f = Inr b \<longleftrightarrow> (\<exists>a. r = Inr a \<and> f a = Inr b)"
  by (cases r) simp_all

definition is_ok :: "'e + 'a \<Rightarrow> bool" where
  "is_ok r = (case r of Inl _ \<Rightarrow> False | Inr _ \<Rightarrow> True)"

lemma is_ok_simps [simp]: "\<not> is_ok (Inl e)" "is_ok (Inr a)"
  by (simp_all add: is_ok_def)

lemma is_ok_iff: "is_ok r \<longleftrightarrow> (\<exists>a. r = Inr a)"
  by (cases r) simp_all

text \<open>\<open>starts_with\<close> on byte strings.\<close>

definition starts_with :: "bytes \<Rightarrow> bytes \<Rightarrow> bool" where
  "starts_with bs p \<longleftrightarrow> take (length p) bs = p"

lemma starts_with_append [simp]: "starts_with (p @ s) p"
  by (simp add: starts_with_def)

lemma starts_with_iff: "starts_with bs p \<longleftrightarrow> (\<exists>s. bs = p @ s)"
  unfolding starts_with_def by (metis append_take_drop_id append_eq_conv_conj)

end
