(* ===== verification/Scc_Tension.thy ===== *)
theory Scc_Tension
  imports Scc_Prelude
begin

text \<open>
  The fixed-point values of the chain (\<open>crates/sccgub-types/src/tension.rs\<close>) and the
  tension field operations on them (\<open>crates/sccgub-state/src/tension.rs\<close>). A
  \<open>TensionValue\<close> is an \<open>i128\<close> holding \<open>raw / 10^18\<close>; it is an \<open>int\<close> here and every
  operation saturates as the code does. The lemmas give the range of every operation, the
  conditions under which fixed-point multiplication is exact, and a pair of values inside
  the everyday range on which it is not.
\<close>

section \<open>Fixed-point values\<close>

type_synonym tension_value = int

definition SCALE :: int where
  [machine_int]: "SCALE = 1000000000000000000"

definition from_integer :: "int \<Rightarrow> tension_value" where
  "from_integer n = i128_saturating_mul n SCALE"

definition mul_fp :: "tension_value \<Rightarrow> tension_value \<Rightarrow> tension_value" where
  "mul_fp a b =
     (let sign = (if (a < 0) \<noteq> (b < 0) then -1 else 1);
          a_abs = \<bar>a\<bar>; b_abs = \<bar>b\<bar>;
          whole = u128_saturating_mul (a_abs div SCALE) b_abs;
          frac = u128_saturating_mul (a_abs mod SCALE) b_abs div SCALE;
          result = min (u128_saturating_add whole frac) I128_MAX
      in i128_saturating_mul result sign)"

definition tension_saturating_add :: "tension_value \<Rightarrow> tension_value \<Rightarrow> tension_value" where
  "tension_saturating_add a b = i128_saturating_add a b"

definition tension_saturating_sub :: "tension_value \<Rightarrow> tension_value \<Rightarrow> tension_value" where
  "tension_saturating_sub a b = i128_saturating_sub a b"

definition tension_max :: "tension_value \<Rightarrow> tension_value \<Rightarrow> tension_value" where
  "tension_max a b = (if a \<ge> b then a else b)"

text \<open>The operators \<open>+\<close> and \<open>-\<close> of \<open>TensionValue\<close> saturate.\<close>

definition tension_add :: "tension_value \<Rightarrow> tension_value \<Rightarrow> tension_value" where
  "tension_add a b = i128_saturating_add a b"

definition tension_sub :: "tension_value \<Rightarrow> tension_value \<Rightarrow> tension_value" where
  "tension_sub a b = i128_saturating_sub a b"

datatype tension_budget_mode =
    Fixed
  | Governance
  | Adaptive (window: nat) (target_utilization: tension_value) (adjustment_rate: tension_value)

record tension_budget =
  current_budget :: tension_value
  mode :: tension_budget_mode
  min_budget :: tension_value
  max_budget :: tension_value

definition tension_budget_default :: tension_budget where
  "tension_budget_default =
     \<lparr>current_budget = from_integer 1000, mode = Fixed,
      min_budget = from_integer 100, max_budget = from_integer 10000\<rparr>"

record tension_field =
  total :: tension_value
  tf_map :: "(symbol_address, tension_value) hashmap"
  budget :: tension_budget

definition tension_field_default :: tension_field where
  "tension_field_default = \<lparr>total = 0, tf_map = [], budget = tension_budget_default\<rparr>"

record tension_components =
  tc_logic :: tension_value
  tc_grounding :: tension_value
  tc_value :: tension_value
  tc_resource :: tension_value

definition weighted_total ::
  "tension_components \<Rightarrow> tension_value \<Rightarrow> tension_value \<Rightarrow> tension_value \<Rightarrow> tension_value \<Rightarrow>
   tension_value" where
  "weighted_total c alpha beta gamma delta =
     tension_add
       (tension_add
         (tension_add (mul_fp alpha (tc_logic c)) (mul_fp beta (tc_grounding c)))
         (mul_fp gamma (tc_value c)))
       (mul_fp delta (tc_resource c))"

section \<open>The tension field of the state\<close>

definition is_within_budget :: "tension_value \<Rightarrow> tension_value \<Rightarrow> tension_budget \<Rightarrow> bool" where
  "is_within_budget before after b = (tension_sub after before \<le> current_budget b)"

definition apply_tension_delta ::
  "tension_field \<Rightarrow> symbol_address \<Rightarrow> tension_value \<Rightarrow> tension_field" where
  "apply_tension_delta f addr delta =
     (let current = (case map_of (tf_map f) addr of None \<Rightarrow> 0 | Some v \<Rightarrow> v)
      in f\<lparr>tf_map := AList.update addr (tension_add current delta) (tf_map f),
           total := tension_add (total f) delta\<rparr>)"

definition check_homeostasis :: "tension_field \<Rightarrow> bool" where
  "check_homeostasis f = is_within_budget 0 (total f) (budget f)"

section \<open>Lemmas\<close>

lemmas tension_ops = tension_add_def tension_sub_def tension_saturating_add_def
  tension_saturating_sub_def

lemma SCALE_pos [simp]: "0 < SCALE" "0 \<le> SCALE" "SCALE \<noteq> 0"
  by (simp_all add: SCALE_def)

lemma is_i128_tension [simp]:
  "is_i128 (tension_add a b)" "is_i128 (tension_sub a b)"
  "is_i128 (mul_fp a b)" "is_i128 (from_integer n)"
  by (simp_all add: tension_ops mul_fp_def from_integer_def Let_def)

lemma tension_add_exact:
  "0 \<le> a \<Longrightarrow> 0 \<le> b \<Longrightarrow> a + b \<le> I128_MAX \<Longrightarrow> tension_add a b = a + b"
  by (simp add: tension_ops i128_saturating_add_exact)

lemma tension_sub_exact:
  "0 \<le> b \<Longrightarrow> b \<le> a \<Longrightarrow> a \<le> I128_MAX \<Longrightarrow> tension_sub a b = a - b"
  by (simp add: tension_ops i128_saturating_sub_exact)

lemma tension_add_nonneg: "0 \<le> a \<Longrightarrow> 0 \<le> b \<Longrightarrow> tension_add a b = min (a + b) I128_MAX"
  by (simp add: tension_ops i128_saturating_add_nonneg)

lemma tension_add_0 [simp]: "is_i128 a \<Longrightarrow> tension_add a 0 = a" "is_i128 a \<Longrightarrow> tension_sub a 0 = a"
  by (simp_all add: tension_ops i128_saturating_add_def i128_saturating_sub_def)

text \<open>Splitting a factor at the scale loses nothing: the arithmetic core of \<open>mul_fp\<close>.\<close>

lemma split_scale_mult:
  fixes a b :: int
  assumes "0 < s"
  shows "a div s * b + (a mod s * b) div s = a * b div s"
proof -
  have "a * b = (a mod s * b) + s * (a div s * b)"
    by (metis (no_types) add.commute distrib_right mod_mult_div_eq mult.assoc)
  then have "a * b div s = ((a mod s * b) + s * (a div s * b)) div s" by simp
  also have "\<dots> = a div s * b + (a mod s * b) div s"
    using assms by simp
  finally show ?thesis by simp
qed

lemma u128_saturating_mul_exact: "a * b \<le> U128_MAX \<Longrightarrow> u128_saturating_mul a b = a * b"
  by (simp add: u128_saturating_mul_def)

lemma i128_saturating_mul_sign:
  assumes "0 \<le> x" "x \<le> I128_MAX"
  shows "i128_saturating_mul x 1 = x" "i128_saturating_mul x (-1) = - x"
proof -
  have "I128_MIN \<le> - x" "- x \<le> I128_MAX"
    using assms by (simp_all add: machine_int)
  with assms show "i128_saturating_mul x 1 = x" "i128_saturating_mul x (-1) = - x"
    by (simp_all add: i128_saturating_mul_def is_i128_def order_trans [OF I128_MIN_le_0(1)])
qed

lemma mul_fp_sum_exact:
  assumes "0 \<le> w" "0 \<le> r" "r \<le> U128_MAX" "w + r div SCALE \<le> I128_MAX"
  shows "min (u128_saturating_add (min w U128_MAX) (min r U128_MAX div SCALE)) I128_MAX =
    w + r div SCALE"
proof -
  have r: "min r U128_MAX = r" using assms(3) by simp
  have "0 \<le> r div SCALE" using assms(2) by (simp add: pos_imp_zdiv_nonneg_iff)
  with assms(4) I128_le_U128 have "w \<le> U128_MAX" "w + r div SCALE \<le> U128_MAX" by linarith+
  with assms(4) show ?thesis unfolding u128_saturating_add_def r by simp
qed

lemma mul_fp_abs_exact:
  assumes "\<bar>a\<bar> mod SCALE * \<bar>b\<bar> \<le> U128_MAX" "\<bar>a\<bar> * \<bar>b\<bar> div SCALE \<le> I128_MAX"
  shows "mul_fp a b = (if (a < 0) \<noteq> (b < 0) then -1 else 1) * (\<bar>a\<bar> * \<bar>b\<bar> div SCALE)"
proof -
  define P where "P = \<bar>a\<bar> * \<bar>b\<bar> div SCALE"
  have "0 \<le> \<bar>a\<bar> div SCALE * \<bar>b\<bar>" "0 \<le> \<bar>a\<bar> mod SCALE * \<bar>b\<bar>" "0 \<le> P"
    by (simp_all add: pos_imp_zdiv_nonneg_iff P_def)
  moreover have sum: "\<bar>a\<bar> div SCALE * \<bar>b\<bar> + \<bar>a\<bar> mod SCALE * \<bar>b\<bar> div SCALE = P"
    unfolding P_def by (rule split_scale_mult) simp
  ultimately have "min (u128_saturating_add (u128_saturating_mul (\<bar>a\<bar> div SCALE) \<bar>b\<bar>)
      (u128_saturating_mul (\<bar>a\<bar> mod SCALE) \<bar>b\<bar> div SCALE)) I128_MAX = P"
    using mul_fp_sum_exact [of "\<bar>a\<bar> div SCALE * \<bar>b\<bar>" "\<bar>a\<bar> mod SCALE * \<bar>b\<bar>"] assms
    unfolding u128_saturating_mul_def P_def by metis
  then have "mul_fp a b = i128_saturating_mul P (if (a < 0) \<noteq> (b < 0) then -1 else 1)"
    unfolding mul_fp_def Let_def by (rule arg_cong)
  then show ?thesis
    using i128_saturating_mul_sign [of P] \<open>0 \<le> P\<close> assms(2) unfolding P_def [symmetric]
    by presburger
qed

section \<open>Properties\<close>

text \<open>
  Fixed-point multiplication is exact up to truncation: whenever the fractional part of
  the first factor times the second factor fits in 128 unsigned bits and the product fits in
  an \<open>i128\<close>, \<open>mul_fp\<close> returns the product divided by the scale, rounded towards zero,
  with the sign of the product.
\<close>

theorem mul_fp_exact:
  assumes "\<bar>a\<bar> mod SCALE * \<bar>b\<bar> \<le> U128_MAX" "\<bar>a\<bar> * \<bar>b\<bar> div SCALE \<le> I128_MAX"
  shows "mul_fp a b = sgn a * sgn b * (\<bar>a\<bar> * \<bar>b\<bar> div SCALE)"
proof (cases "a = 0 \<or> b = 0")
  case True
  then show ?thesis using mul_fp_abs_exact [OF assms] by auto
next
  case False
  then have "(if (a < 0) \<noteq> (b < 0) then -1 else 1) = sgn a * sgn b"
    by (auto simp: sgn_if)
  then show ?thesis using mul_fp_abs_exact [OF assms] by simp
qed

theorem mul_fp_exact_witness:
  "mul_fp (from_integer 5) (- from_integer 3) = - from_integer 15"
proof -
  have "mul_fp (from_integer 5) (- from_integer 3) =
      sgn (from_integer 5) * sgn (- from_integer 3) *
      (\<bar>from_integer 5\<bar> * \<bar>- from_integer 3\<bar> div SCALE)"
    by (rule mul_fp_exact) (simp_all add: from_integer_def i128_ops machine_int)
  then show ?thesis by (simp add: from_integer_def i128_ops machine_int)
qed

text \<open>
  The split multiplication of \<open>mul_fp\<close> saturates its fractional part for ordinary
  values: one half times one thousand comes out as about 340.28, while one thousand times one
  half is five hundred. The fractional remainder of the first factor (below \<open>10^18\<close>) times
  the second factor overflows 128 bits as soon as the second factor exceeds about 340 units.
\<close>

theorem mul_fp_fraction_saturates:
  "mul_fp (SCALE div 2) (from_integer 1000) = 340282366920938463463 \<and>
   mul_fp (from_integer 1000) (SCALE div 2) = from_integer 500"
  by code_simp

end
