(* ===== verification/Scc_Types.thy ===== *)
theory Scc_Types
  imports Scc_Tension
begin

text \<open>
  The chain's shared data types (\<open>crates/sccgub-types/src\<close>): the Mfidel seal, governance
  precedence and governance state, agent identities, causal timestamps with their bounded
  vector clocks, transitions with their payloads and deltas, receipts and symbol states. Field
  names carry a short prefix where two records of the sources share a name. A \<open>BTreeSet\<close>
  that the code only stores is a \<open>set\<close>.
\<close>

section \<open>Mfidel seals\<close>

record mfidel_atomic_seal =
  row :: nat
  column :: nat

definition GRID_ROWS :: nat where "GRID_ROWS = 34"
definition GRID_COLS :: nat where "GRID_COLS = 8"
definition TOTAL_FIDELS :: nat where "TOTAL_FIDELS = 272"

definition seal_from_height :: "nat \<Rightarrow> mfidel_atomic_seal" where
  "seal_from_height height =
     (if height = 0 then \<lparr>row = 17, column = 8\<rparr>
      else let h = height - 1 in \<lparr>row = (h div 8) mod 34 + 1, column = h mod 8 + 1\<rparr>)"

text \<open>The grid cell picked by the first two bytes of a digest.\<close>

definition seal_of_digest :: "hash \<Rightarrow> mfidel_atomic_seal" where
  "seal_of_digest d =
     \<lparr>row = of_char (hash_bytes d ! 0) mod 34 + 1, column = of_char (hash_bytes d ! 1) mod 8 + 1\<rparr>"

definition seal_from_height_v4 :: "(bytes \<Rightarrow> hash) \<Rightarrow> nat \<Rightarrow> hash \<Rightarrow> mfidel_atomic_seal" where
  "seal_from_height_v4 blake3 height prior_block_hash =
     seal_of_digest
       (blake3 (''sccgub-mfidel-seal-v4'' @ hash_bytes prior_block_hash @ u64_to_le_bytes height))"

definition seal_from_block ::
  "(bytes \<Rightarrow> hash) \<Rightarrow> nat \<Rightarrow> hash \<Rightarrow> hash \<Rightarrow> hash \<Rightarrow> mfidel_atomic_seal" where
  "seal_from_block blake3 height state_root transition_root validator_id =
     seal_of_digest
       (blake3 (''sccgub-mfidel-seal-v1'' @ u64_to_le_bytes height @ hash_bytes state_root
          @ hash_bytes transition_root @ hash_bytes validator_id))"

definition seal_is_valid :: "mfidel_atomic_seal \<Rightarrow> bool" where
  "seal_is_valid s \<longleftrightarrow> row s \<ge> 1 \<and> row s \<le> GRID_ROWS \<and> column s \<ge> 1 \<and> column s \<le> GRID_COLS"

definition cycle_number :: "nat \<Rightarrow> nat" where
  "cycle_number height = (if height = 0 then 0 else (height - 1) div TOTAL_FIDELS)"

section \<open>Governance\<close>

datatype precedence_level = Genesis | Safety | Meaning | Emotion | Optimization

fun precedence_rank :: "precedence_level \<Rightarrow> nat" where
  "precedence_rank Genesis = 0"
| "precedence_rank Safety = 1"
| "precedence_rank Meaning = 2"
| "precedence_rank Emotion = 3"
| "precedence_rank Optimization = 4"

definition overrides :: "precedence_level \<Rightarrow> precedence_level \<Rightarrow> bool" where
  "overrides a b \<longleftrightarrow> precedence_rank a < precedence_rank b"

instantiation precedence_level :: linorder
begin

definition less_eq_precedence_level :: "precedence_level \<Rightarrow> precedence_level \<Rightarrow> bool" where
  "a \<le> b \<longleftrightarrow> precedence_rank a \<le> precedence_rank b"

definition less_precedence_level :: "precedence_level \<Rightarrow> precedence_level \<Rightarrow> bool" where
  "a < b \<longleftrightarrow> precedence_rank a < precedence_rank b"

instance
proof
  fix a b :: precedence_level
  show "a \<le> b \<Longrightarrow> b \<le> a \<Longrightarrow> a = b"
    by (cases a; cases b) (simp_all add: less_eq_precedence_level_def)
qed (auto simp: less_eq_precedence_level_def less_precedence_level_def)

end

definition GOVERNED_PARAMETER_KEYS :: "string list" where
  "GOVERNED_PARAMETER_KEYS =
     [''governance.max_consecutive_proposals'', ''governance.max_actions_per_agent_pct'',
      ''governance.safety_change_min_signers'', ''governance.genesis_change_min_signers'',
      ''governance.max_authority_term_epochs'', ''governance.authority_cooldown_epochs'',
      ''finality.confirmation_depth'', ''finality.max_finality_ms'',
      ''finality.target_block_time_ms'', ''finality.mode'']"

datatype finality_mode = Deterministic | BftCertified (quorum_threshold: nat)

definition finality_mode_validate :: "finality_mode \<Rightarrow> string + unit" where
  "finality_mode_validate m =
     (case m of
        BftCertified q \<Rightarrow> if q = 0 then Inl ''BFT quorum_threshold must be >= 1'' else Inr ()
      | Deterministic \<Rightarrow> Inr ())"

record authority_level =
  al_precedence :: precedence_level
  can_propose_norms :: bool
  can_validate :: bool
  can_govern :: bool

record norm_t =
  norm_id :: hash
  norm_name :: string
  norm_description :: string
  norm_precedence :: precedence_level
  population_share :: tension_value
  fitness :: tension_value
  enforcement_cost :: tension_value
  norm_active :: bool
  norm_created_at_height :: nat

record governance_state =
  active_norms :: "(hash, norm_t) hashmap"
  constraint_catalog :: "hash set"
  rule_catalog :: "hash set"
  authority_map :: "(agent_id, authority_level) hashmap"
  emergency_mode :: bool
  gov_finality_mode :: finality_mode

definition governance_state_default :: governance_state where
  "governance_state_default =
     \<lparr>active_norms = [], constraint_catalog = {}, rule_catalog = {}, authority_map = [],
      emergency_mode = False, gov_finality_mode = Deterministic\<rparr>"

section \<open>Agents\<close>

record responsibility_entry =
  re_transition_id :: hash
  r_value :: tension_value
  re_block_height :: nat

record responsibility_state =
  positive_contributions :: "responsibility_entry list"
  negative_contributions :: "responsibility_entry list"
  net_responsibility :: tension_value
  reliability_score :: tension_value
  norm_compliance_score :: tension_value
  decay_factor :: tension_value

definition responsibility_state_default :: responsibility_state where
  "responsibility_state_default =
     \<lparr>positive_contributions = [], negative_contributions = [], net_responsibility = 0,
      reliability_score = from_integer 1, norm_compliance_score = from_integer 1,
      decay_factor = SCALE div 10\<rparr>"

record agent_identity =
  agent_id_of :: agent_id
  public_key :: hash
  mfidel_seal :: mfidel_atomic_seal
  registration_block :: nat
  ag_governance_level :: precedence_level
  norm_set :: "hash set"
  responsibility :: responsibility_state

record validator_authority =
  va_node_id :: hash
  va_governance_level :: precedence_level
  norm_compliance :: tension_value
  causal_reliability :: tension_value
  va_active :: bool

section \<open>Causal timestamps\<close>

record vector_clock_entry =
  vc_counter :: nat
  last_active_epoch :: nat

record bounded_vector_clock =
  vc_entries :: "(hash \<times> vector_clock_entry) list"
  vc_max_size :: nat

definition vc_new :: "nat \<Rightarrow> bounded_vector_clock" where
  "vc_new n = \<lparr>vc_entries = [], vc_max_size = n\<rparr>"

text \<open>\<open>self.entries.len().min(u32::MAX as usize) as u32\<close>\<close>

definition len_u32 :: "'a list \<Rightarrow> nat" where
  "len_u32 xs = min (length xs) U32_MAX"

text \<open>A stable sort by descending activity epoch, as \<open>sort_by_key(Reverse(..))\<close>.\<close>

definition vc_prune :: "bounded_vector_clock \<Rightarrow> bounded_vector_clock" where
  "vc_prune vc =
     (if len_u32 (vc_entries vc) \<le> vc_max_size vc then vc
      else vc\<lparr>vc_entries :=
        take (vc_max_size vc)
          (sort_key (\<lambda>e. - int (last_active_epoch (snd e))) (vc_entries vc))\<rparr>)"

text \<open>Update the first entry of a node in place, as \<open>iter_mut().find\<close> does.\<close>

fun vc_update_first ::
  "hash \<Rightarrow> (vector_clock_entry \<Rightarrow> vector_clock_entry) \<Rightarrow>
   (hash \<times> vector_clock_entry) list \<Rightarrow> (hash \<times> vector_clock_entry) list option" where
  "vc_update_first n f [] = None"
| "vc_update_first n f ((i, e) # es) =
     (if i = n then Some ((i, f e) # es)
      else map_option (\<lambda>es'. (i, e) # es') (vc_update_first n f es))"

definition vc_upsert ::
  "hash \<Rightarrow> (vector_clock_entry \<Rightarrow> vector_clock_entry) \<Rightarrow> vector_clock_entry \<Rightarrow>
   (hash \<times> vector_clock_entry) list \<Rightarrow> (hash \<times> vector_clock_entry) list" where
  "vc_upsert n f new es =
     (case vc_update_first n f es of Some es' \<Rightarrow> es' | None \<Rightarrow> es @ [(n, new)])"

definition vc_prune_if_over :: "bounded_vector_clock \<Rightarrow> bounded_vector_clock" where
  "vc_prune_if_over vc =
     (if len_u32 (vc_entries vc) > vc_max_size vc then vc_prune vc else vc)"

definition vc_increment :: "bounded_vector_clock \<Rightarrow> hash \<Rightarrow> nat \<Rightarrow> bounded_vector_clock" where
  "vc_increment vc node_id epoch =
     vc_prune_if_over
       (vc\<lparr>vc_entries :=
          vc_upsert node_id
            (\<lambda>e. \<lparr>vc_counter = u64_saturating_add (vc_counter e) 1, last_active_epoch = epoch\<rparr>)
            \<lparr>vc_counter = 1, last_active_epoch = epoch\<rparr> (vc_entries vc)\<rparr>)"

definition vc_merge_entry ::
  "hash \<times> vector_clock_entry \<Rightarrow> (hash \<times> vector_clock_entry) list \<Rightarrow>
   (hash \<times> vector_clock_entry) list" where
  "vc_merge_entry p es =
     vc_upsert (fst p)
       (\<lambda>e. \<lparr>vc_counter = max (vc_counter e) (vc_counter (snd p)),
             last_active_epoch = max (last_active_epoch e) (last_active_epoch (snd p))\<rparr>)
       (snd p) es"

definition vc_merge :: "bounded_vector_clock \<Rightarrow> bounded_vector_clock \<Rightarrow> bounded_vector_clock" where
  "vc_merge vc other =
     vc_prune_if_over (vc\<lparr>vc_entries := fold vc_merge_entry (vc_entries other) (vc_entries vc)\<rparr>)"

record causal_timestamp =
  lamport_counter :: nat
  vector_clock :: bounded_vector_clock
  causal_depth :: nat
  wall_hint :: nat
  parent_timestamp_hash :: hash

definition timestamp_genesis :: causal_timestamp where
  "timestamp_genesis =
     \<lparr>lamport_counter = 0, vector_clock = vc_new 256, causal_depth = 0, wall_hint = 0,
      parent_timestamp_hash = ZERO_HASH\<rparr>"

definition timestamp_successor ::
  "causal_timestamp \<Rightarrow> hash \<Rightarrow> hash \<Rightarrow> nat \<Rightarrow> causal_timestamp" where
  "timestamp_successor ts node_id parent_hash wall =
     (let epoch = u64_saturating_add (lamport_counter ts) 1
      in \<lparr>lamport_counter = epoch,
          vector_clock = vc_increment (vector_clock ts) node_id epoch,
          causal_depth = u32_saturating_add (causal_depth ts) 1,
          wall_hint = wall,
          parent_timestamp_hash = parent_hash\<rparr>)"

section \<open>Transitions and receipts\<close>

datatype transition_kind =
    KStateWrite | KStateRead | KGovernanceUpdate | KNormProposal | KConstraintAddition
  | KAgentRegistration | KDisputeResolution | KAssetTransfer | KContractDeploy | KContractInvoke

record transition_intent =
  ti_kind :: transition_kind
  ti_target :: symbol_address
  declared_purpose :: string

record constraint_satisfaction =
  constraint_id :: hash
  satisfied :: bool
  evidence :: "string option"

record causal_justification =
  invoking_rule :: hash
  cj_precedence_level :: precedence_level
  causal_ancestors :: "hash list"
  constraint_proof :: "constraint_satisfaction list"

datatype transition_mechanism =
  DirectStateWrite | ContractExecution (ce_contract_id: hash) | GovernanceAction

record wh_binding_intent =
  who :: hash
  wh_when :: causal_timestamp
  wh_where :: symbol_address
  why :: causal_justification
  how :: transition_mechanism
  which :: "hash set"
  what_declared :: string

definition wh_is_complete :: "wh_binding_intent \<Rightarrow> bool" where
  "wh_is_complete w \<longleftrightarrow> who w \<noteq> ZERO_HASH \<and> wh_where w \<noteq> [] \<and> what_declared w \<noteq> []"

record tx_constraint =
  tc_id :: hash
  expression :: string

record state_write =
  address :: symbol_address
  sw_value :: bytes

record state_delta =
  writes :: "state_write list"
  deletes :: "symbol_address list"

definition state_delta_default :: state_delta where
  "state_delta_default = \<lparr>writes = [], deletes = []\<rparr>"

datatype validation_result = Valid | Invalid (invalid_reason: string)

record wh_binding_resolved =
  wr_intent :: wh_binding_intent
  what_actual :: state_delta
  whether :: validation_result

datatype operation_payload =
    PWrite (pw_key: symbol_address) (pw_value: bytes)
  | PAssetTransfer (pt_from: agent_id) (pt_to: agent_id) (pt_amount: int)
  | PRegisterAgent (pr_public_key: hash)
  | PProposeNorm (pn_name: string) (pn_description: string)
  | PDeployContract (pd_code: bytes)
  | PInvokeContract (pi_contract_id: hash) (pi_method: string) (pi_args: bytes)
  | PNoop

record symbolic_transition =
  tx_id :: hash
  actor :: agent_identity
  tx_intent :: transition_intent
  preconditions :: "tx_constraint list"
  postconditions :: "tx_constraint list"
  payload :: operation_payload
  causal_chain :: "hash list"
  wh_binding_intent_of :: wh_binding_intent
  nonce :: nat
  signature :: bytes

datatype verdict =
    Accept
  | Reject (reject_reason: string)
  | Defer (defer_condition: string)
  | Compensate (compensate_plan: string)
  | Escalate (escalate_level: nat)

definition is_accepted :: "verdict \<Rightarrow> bool" where
  "is_accepted v = (case v of Accept \<Rightarrow> True | _ \<Rightarrow> False)"

record resource_usage =
  compute_steps :: nat
  ru_state_reads :: nat
  ru_state_writes :: nat
  proof_size_bytes :: nat

section \<open>Contracts and symbols\<close>

record symbolic_causal_contract =
  scc_contract_id :: hash
  scc_name :: string
  laws :: "tx_constraint list"
  scc_state :: "(string, bytes) hashmap"
  history :: "hash list"
  deployer :: agent_id
  scc_governance_level :: precedence_level
  deployed_at :: nat

definition MAX_CAUSAL_HISTORY :: nat where "MAX_CAUSAL_HISTORY = 256"

record symbol_state =
  sym_address :: symbol_address
  sym_data :: bytes
  sym_owner :: agent_id
  version :: nat
  sym_constraints :: "hash set"
  causal_history :: "hash list"

definition symbol_state_new :: "symbol_address \<Rightarrow> bytes \<Rightarrow> agent_id \<Rightarrow> symbol_state" where
  "symbol_state_new addr d own =
     \<lparr>sym_address = addr, sym_data = d, sym_owner = own, version = 1, sym_constraints = {},
      causal_history = []\<rparr>"

definition push_history :: "symbol_state \<Rightarrow> hash \<Rightarrow> symbol_state" where
  "push_history s h =
     (let hist = (if length (causal_history s) \<ge> MAX_CAUSAL_HISTORY
                  then drop 1 (causal_history s) else causal_history s)
      in s\<lparr>causal_history := hist @ [h]\<rparr>)"

record world_state =
  symbol_store :: "(symbol_address, symbol_state) hashmap"
  agent_registry :: "(agent_id, agent_identity) hashmap"
  constraint_set :: "hash set"
  ws_tension_field :: tension_field
  ws_governance_state :: governance_state
  contract_registry :: "(hash, symbolic_causal_contract) hashmap"
  height :: nat

definition world_state_default :: world_state where
  "world_state_default =
     \<lparr>symbol_store = [], agent_registry = [], constraint_set = {},
      ws_tension_field = tension_field_default, ws_governance_state = governance_state_default,
      contract_registry = [], height = 0\<rparr>"

section \<open>Lemmas\<close>

lemma seal_is_valid_from_height: "seal_is_valid (seal_from_height h)"
  by (simp add: seal_from_height_def seal_is_valid_def GRID_ROWS_def GRID_COLS_def Let_def
      Suc_le_eq less_Suc_eq_le [symmetric])

lemma seal_is_valid_of_digest: "seal_is_valid (seal_of_digest d)"
  by (simp add: seal_of_digest_def seal_is_valid_def GRID_ROWS_def GRID_COLS_def
      Suc_le_eq less_Suc_eq_le [symmetric])

lemma length_push_history:
  "length (causal_history s) \<le> MAX_CAUSAL_HISTORY \<Longrightarrow>
     length (causal_history (push_history s h)) \<le> MAX_CAUSAL_HISTORY"
  by (auto simp: push_history_def MAX_CAUSAL_HISTORY_def Let_def)

text \<open>Vector clocks: an update keeps ids distinct, and adds at most one entry.\<close>

lemma vc_update_first_None: "vc_update_first n f es = None \<longleftrightarrow> n \<notin> fst ` set es"
  by (induction n f es rule: vc_update_first.induct) auto

lemma vc_update_first_keys: "vc_update_first n f es = Some es' \<Longrightarrow> map fst es' = map fst es"
  by (induction n f es arbitrary: es' rule: vc_update_first.induct) (auto split: if_splits)

lemma vc_upsert_keys:
  "map fst (vc_upsert n f new es) = (if n \<in> fst ` set es then map fst es else map fst es @ [n])"
proof (cases "vc_update_first n f es")
  case None
  then have "n \<notin> fst ` set es" by (simp add: vc_update_first_None)
  with None show ?thesis by (simp add: vc_upsert_def)
next
  case (Some es')
  then have "n \<in> fst ` set es" by (metis vc_update_first_None option.distinct(1))
  with Some vc_update_first_keys [OF Some] show ?thesis by (simp add: vc_upsert_def)
qed

lemma vc_upsert_distinct: "keys_distinct es \<Longrightarrow> keys_distinct (vc_upsert n f new es)"
  by (auto simp: vc_upsert_keys)

lemma vc_prune_if_over_bound:
  assumes "vc_max_size vc < U32_MAX"
  shows "length (vc_entries (vc_prune_if_over vc)) \<le> vc_max_size vc"
  using assms by (auto simp: vc_prune_if_over_def vc_prune_def len_u32_def min_def split: if_splits)

lemma vc_prune_if_over_distinct:
  assumes "keys_distinct (vc_entries vc)"
  shows "keys_distinct (vc_entries (vc_prune_if_over vc))"
proof -
  have "distinct (map fst (sort_key g (vc_entries vc)))" for g :: "_ \<Rightarrow> int"
    using assms by (metis distinct_map distinct_sort set_sort)
  then show ?thesis
    using assms by (simp add: vc_prune_if_over_def vc_prune_def take_map [symmetric] distinct_take)
qed

lemma fold_merge_distinct:
  "keys_distinct es \<Longrightarrow> keys_distinct (fold vc_merge_entry ps es)"
  by (induction ps arbitrary: es) (simp_all add: vc_merge_entry_def vc_upsert_distinct)

lemma vc_update_first_set:
  "keys_distinct es \<Longrightarrow> vc_update_first n f es = Some es' \<Longrightarrow>
     set es' = insert (n, f (the (map_of es n))) {p \<in> set es. fst p \<noteq> n}"
proof (induction n f es arbitrary: es' rule: vc_update_first.induct)
  case (2 n f i e es)
  show ?case
  proof (cases "i = n")
    case True
    with 2 have "{p \<in> set es. fst p \<noteq> n} = set es" by auto
    with True 2 show ?thesis by auto
  next
    case False
    with 2 obtain es'' where "vc_update_first n f es = Some es''" "es' = (i, e) # es''" by auto
    with 2 False show ?thesis by auto
  qed
qed simp

lemma vc_upsert_set:
  assumes "keys_distinct es"
  shows "set (vc_upsert n f new es) =
    insert (n, case map_of es n of None \<Rightarrow> new | Some e \<Rightarrow> f e) {p \<in> set es. fst p \<noteq> n}"
proof (cases "vc_update_first n f es")
  case None
  then have "n \<notin> fst ` set es" by (simp add: vc_update_first_None)
  then have "map_of es n = None" "{p \<in> set es. fst p \<noteq> n} = set es"
    by (auto simp: map_of_eq_None_iff)
  with None show ?thesis by (simp add: vc_upsert_def)
next
  case (Some es')
  then have "n \<in> fst ` set es" by (metis vc_update_first_None option.distinct(1))
  then obtain e where "map_of es n = Some e" by (metis map_of_eq_None_iff not_None_eq)
  with Some vc_update_first_set [OF assms Some] show ?thesis by (simp add: vc_upsert_def)
qed

text \<open>A unique least element heads the sorted list.\<close>

lemma hd_sort_key_least:
  fixes k :: "'a \<Rightarrow> int"
  assumes "x \<in> set xs" "\<And>y. y \<in> set xs \<Longrightarrow> y \<noteq> x \<Longrightarrow> k x < k y"
  shows "sort_key k xs \<noteq> [] \<and> hd (sort_key k xs) = x"
proof (cases "sort_key k xs")
  case Nil
  with assms(1) show ?thesis by (metis list.set(1) set_sort empty_iff)
next
  case (Cons y ys)
  have "sorted (map k (y # ys))" using sorted_sort_key [of k xs] Cons by simp
  moreover have "x \<in> set (y # ys)" "y \<in> set xs" using assms(1) Cons set_sort [of k xs] by auto
  ultimately have "k y \<le> k x" by auto
  with assms(2) [OF \<open>y \<in> set xs\<close>] have "y = x" by force
  with Cons show ?thesis by simp
qed

text \<open>What holds of every timestamp the chain derives from genesis.\<close>

definition timestamp_ok :: "causal_timestamp \<Rightarrow> bool" where
  "timestamp_ok ts \<longleftrightarrow>
     keys_distinct (vc_entries (vector_clock ts)) \<and>
     length (vc_entries (vector_clock ts)) \<le> vc_max_size (vector_clock ts) \<and>
     (\<forall>p \<in> set (vc_entries (vector_clock ts)). last_active_epoch (snd p) \<le> lamport_counter ts)"

lemma timestamp_genesis_ok: "timestamp_ok timestamp_genesis"
  by (simp add: timestamp_ok_def timestamp_genesis_def vc_new_def)

lemma vc_prune_keeps_newest:
  assumes "p \<in> set (vc_entries vc)" "0 < vc_max_size vc"
    and "\<And>q. q \<in> set (vc_entries vc) \<Longrightarrow> q \<noteq> p \<Longrightarrow>
      last_active_epoch (snd q) < last_active_epoch (snd p)"
  shows "p \<in> set (vc_entries (vc_prune_if_over vc))"
proof -
  let ?s = "sort_key (\<lambda>e. - int (last_active_epoch (snd e))) (vc_entries vc)"
  have "?s \<noteq> [] \<and> hd ?s = p"
    using assms(1,3) by (intro hd_sort_key_least) auto
  then obtain ys where "?s = p # ys" by (metis list.collapse)
  then have "p \<in> set (take (vc_max_size vc) ?s)"
    using assms(2) by (simp add: take_Cons')
  with assms(1) show ?thesis by (simp add: vc_prune_if_over_def vc_prune_def)
qed

lemma vc_prune_subset: "set (vc_entries (vc_prune_if_over vc)) \<subseteq> set (vc_entries vc)"
  by (auto simp: vc_prune_if_over_def vc_prune_def dest: in_set_takeD)

section \<open>Properties\<close>

text \<open>
  Deriving a successor timestamp keeps the vector clock bounded and useful: from a
  well-formed timestamp below the counter's limit, the successor's Lamport counter is one
  higher, its clock holds at most \<open>max_size\<close> distinct nodes, none active later than the new
  counter, and pruning never drops the producing node itself.
\<close>

theorem timestamp_successor_bounded:
  assumes "timestamp_ok ts" "lamport_counter ts < U64_MAX"
    and "0 < vc_max_size (vector_clock ts)" "vc_max_size (vector_clock ts) < U32_MAX"
  shows "timestamp_ok (timestamp_successor ts node parent wall) \<and>
    lamport_counter (timestamp_successor ts node parent wall) = lamport_counter ts + 1 \<and>
    node \<in> fst ` set (vc_entries (vector_clock (timestamp_successor ts node parent wall)))"
proof -
  let ?ep = "lamport_counter ts + 1" and ?vc = "vector_clock ts"
  let ?f = "\<lambda>e. \<lparr>vc_counter = u64_saturating_add (vc_counter e) 1, last_active_epoch = ?ep\<rparr>"
  let ?new = "\<lparr>vc_counter = 1, last_active_epoch = ?ep\<rparr>"
  let ?up = "?vc\<lparr>vc_entries := vc_upsert node ?f ?new (vc_entries ?vc)\<rparr>"
  let ?mine = "(node, case map_of (vc_entries ?vc) node of None \<Rightarrow> ?new | Some e \<Rightarrow> ?f e)"
  have ep: "u64_saturating_add (lamport_counter ts) 1 = ?ep"
    using assms(2) by (simp add: u_ops)
  have dist: "keys_distinct (vc_entries ?vc)" using assms(1) by (simp add: timestamp_ok_def)
  have up: "vc_entries ?up = vc_upsert node ?f ?new (vc_entries ?vc)" by simp
  have set: "set (vc_entries ?up) = insert ?mine {p \<in> set (vc_entries ?vc). fst p \<noteq> node}"
    unfolding up by (rule vc_upsert_set [OF dist])
  have mine: "last_active_epoch (snd ?mine) = ?ep" by (simp split: option.split)
  have old: "\<forall>p \<in> set (vc_entries ?vc). last_active_epoch (snd p) < ?ep"
    using assms(1) by (auto simp: timestamp_ok_def)
  define V where "V = vc_prune_if_over ?up"
  have "?mine \<in> set (vc_entries V)"
    unfolding V_def using assms(3) set mine old by (intro vc_prune_keeps_newest) auto
  then have node: "node \<in> fst ` set (vc_entries V)" by (metis fst_conv image_eqI)
  have keys: "keys_distinct (vc_entries V)"
    unfolding V_def using vc_upsert_distinct [OF dist] by (intro vc_prune_if_over_distinct) simp
  have size: "vc_max_size V = vc_max_size ?vc" "length (vc_entries V) \<le> vc_max_size ?vc"
    using vc_prune_if_over_bound [of ?up] assms(4)
    by (simp_all add: V_def) (simp add: vc_prune_if_over_def vc_prune_def)
  have newest: "\<forall>p \<in> set (vc_entries V). last_active_epoch (snd p) \<le> ?ep"
    unfolding V_def using vc_prune_subset [of ?up] set mine old by fastforce
  have "timestamp_successor ts node parent wall =
      \<lparr>lamport_counter = ?ep, vector_clock = V, causal_depth = u32_saturating_add (causal_depth ts) 1,
       wall_hint = wall, parent_timestamp_hash = parent\<rparr>"
    unfolding timestamp_successor_def vc_increment_def Let_def V_def ep by (rule refl)
  then show ?thesis using node keys size newest by (simp add: timestamp_ok_def)
qed

theorem timestamp_successor_bounded_witness:
  "timestamp_ok (timestamp_successor timestamp_genesis 7 0 1000) \<and>
   7 \<in> fst ` set (vc_entries (vector_clock (timestamp_successor timestamp_genesis 7 0 1000)))"
proof -
  have "lamport_counter timestamp_genesis < U64_MAX" "0 < vc_max_size (vector_clock timestamp_genesis)"
    "vc_max_size (vector_clock timestamp_genesis) < U32_MAX"
    by (simp_all add: timestamp_genesis_def vc_new_def machine_int)
  then show ?thesis
    using timestamp_successor_bounded [OF timestamp_genesis_ok, of 7 0 1000] by blast
qed

text \<open>
  Every seal the three derivations can produce (by height, by prior block hash, by block
  content) lies in the 34 by 8 grid, whatever the hash function, and the height-based seal
  repeats with period 272.
\<close>

theorem seals_in_grid:
  "seal_is_valid (seal_from_height h) \<and> seal_is_valid (seal_from_height_v4 B h prior) \<and>
   seal_is_valid (seal_from_block B h r t v) \<and>
   seal_from_height (Suc h + TOTAL_FIDELS) = seal_from_height (Suc h)"
proof -
  have "(272 + h) div 8 = h div 8 + 34" "(272 + h) mod 8 = h mod 8" by presburger+
  then have "seal_from_height (Suc h + TOTAL_FIDELS) = seal_from_height (Suc h)"
    by (simp add: seal_from_height_def TOTAL_FIDELS_def Let_def)
  then show ?thesis
    by (simp add: seal_is_valid_from_height seal_is_valid_of_digest seal_from_height_v4_def
        seal_from_block_def)
qed

end
