(* ===== verification/Scc_Params.thy ===== *)
theory Scc_Params
  imports Scc_Types
begin

text \<open>
  Consensus parameters (\<open>crates/sccgub-types/src/consensus_params.rs\<close>), the constitutional
  ceilings that bound them (\<open>constitutional_ceilings.rs\<close>), typed single-field updates
  (\<open>typed_params.rs\<close>) and the submission-time governance gate over the three
  (\<open>crates/sccgub-governance/src/patch_04.rs\<close>). The bincode decoders are parameters.
  Error values carry what the code puts in them: a \<open>CeilingViolation\<close> variant with the value
  and the ceiling, and for the bounds check of the parameters the message without its numbers.
\<close>

section \<open>Consensus parameters\<close>

record consensus_params =
  max_proof_depth :: nat
  max_constraint_propagation_depth :: nat
  max_constraint_propagation_steps :: nat
  max_activated_symbols :: nat
  max_scan_per_symbol :: nat
  max_constraints_per_symbol :: nat
  default_max_steps :: nat
  default_tx_gas_limit :: nat
  default_block_gas_limit :: nat
  gas_tx_base :: nat
  gas_compute_step :: nat
  gas_state_read :: nat
  gas_state_write :: nat
  gas_sig_verify :: nat
  gas_hash_op :: nat
  gas_proof_byte :: nat
  gas_payload_byte :: nat
  max_symbol_address_len :: nat
  max_state_entry_size :: nat
  max_tension_swing :: int
  view_change_base_timeout_ms :: nat
  view_change_max_timeout_ms :: nat
  max_block_bytes :: nat
  max_active_proposals :: nat
  max_validator_set_size :: nat
  max_validator_set_changes_per_block_param :: nat
  median_tension_window :: nat
  fee_tension_alpha :: int
  confirmation_depth :: nat
  max_equivocation_evidence_per_block_param :: nat
  max_forgery_vetoes_per_block_param :: nat

definition consensus_params_default :: consensus_params where
  "consensus_params_default =
     \<lparr>max_proof_depth = 256,
      max_constraint_propagation_depth = 32,
      max_constraint_propagation_steps = 10000,
      max_activated_symbols = 16,
      max_scan_per_symbol = 1000,
      max_constraints_per_symbol = 64,
      default_max_steps = 10000,
      default_tx_gas_limit = 1000000,
      default_block_gas_limit = 50000000,
      gas_tx_base = 1000,
      gas_compute_step = 10,
      gas_state_read = 100,
      gas_state_write = 500,
      gas_sig_verify = 3000,
      gas_hash_op = 50,
      gas_proof_byte = 5,
      gas_payload_byte = 2,
      max_symbol_address_len = 4096,
      max_state_entry_size = 1048576,
      max_tension_swing = 2000000,
      view_change_base_timeout_ms = 1000,
      view_change_max_timeout_ms = 60000,
      max_block_bytes = 2097152,
      max_active_proposals = 128,
      max_validator_set_size = 64,
      max_validator_set_changes_per_block_param = 4,
      median_tension_window = 7,
      fee_tension_alpha = SCALE div 2,
      confirmation_depth = 2,
      max_equivocation_evidence_per_block_param = 4,
      max_forgery_vetoes_per_block_param = 4\<rparr>"

definition pruning_depth :: "consensus_params \<Rightarrow> nat" where
  "pruning_depth p = u64_saturating_mul (confirmation_depth p) 16"

text \<open>The loop over the labelled gas costs: the first label out of bounds.\<close>

fun check_gas_costs :: "(string \<times> nat) list \<Rightarrow> string option" where
  "check_gas_costs [] = None"
| "check_gas_costs ((label, v) # rest) =
     (if v = 0 \<or> v > 1000000 then Some (label @ '' out of bounds (1..1000000)'')
      else check_gas_costs rest)"

definition consensus_params_validate :: "consensus_params \<Rightarrow> string + unit" where
  "consensus_params_validate p =
     (if max_proof_depth p = 0 \<or> max_proof_depth p > 100000
      then Inl ''max_proof_depth out of bounds (1..100000)''
      else if default_tx_gas_limit p = 0 \<or> default_tx_gas_limit p > 1000000000
      then Inl ''default_tx_gas_limit out of bounds (1..1000000000)''
      else if default_block_gas_limit p = 0 \<or> default_block_gas_limit p > 10000000000
      then Inl ''default_block_gas_limit out of bounds (1..10000000000)''
      else if default_block_gas_limit p < default_tx_gas_limit p
      then Inl ''default_block_gas_limit < default_tx_gas_limit''
      else if max_state_entry_size p = 0 \<or> max_state_entry_size p > 16 * 1024 * 1024
      then Inl ''max_state_entry_size out of bounds (1..16777216)''
      else if max_symbol_address_len p = 0 \<or> max_symbol_address_len p > 1048576
      then Inl ''max_symbol_address_len out of bounds (1..1048576)''
      else if max_tension_swing p \<le> 0 \<or> max_tension_swing p > 1000000000
      then Inl ''max_tension_swing out of bounds (1..1000000000)''
      else if max_constraint_propagation_depth p = 0 \<or> max_constraint_propagation_depth p > 1000
      then Inl ''max_constraint_propagation_depth out of bounds (1..1000)''
      else if max_constraint_propagation_steps p = 0 \<or> max_constraint_propagation_steps p > 10000000
      then Inl ''max_constraint_propagation_steps out of bounds (1..10000000)''
      else if max_activated_symbols p = 0 then Inl ''max_activated_symbols must be > 0''
      else if max_scan_per_symbol p = 0 then Inl ''max_scan_per_symbol must be > 0''
      else if max_constraints_per_symbol p = 0 then Inl ''max_constraints_per_symbol must be > 0''
      else if default_max_steps p = 0 \<or> default_max_steps p > 10000000
      then Inl ''default_max_steps out of bounds (1..10000000)''
      else
        (case check_gas_costs
           [(''gas_tx_base'', gas_tx_base p), (''gas_compute_step'', gas_compute_step p),
            (''gas_state_read'', gas_state_read p), (''gas_state_write'', gas_state_write p),
            (''gas_sig_verify'', gas_sig_verify p), (''gas_hash_op'', gas_hash_op p),
            (''gas_proof_byte'', gas_proof_byte p), (''gas_payload_byte'', gas_payload_byte p)] of
           Some e \<Rightarrow> Inl e
         | None \<Rightarrow>
      if view_change_base_timeout_ms p = 0 then Inl ''view_change_base_timeout_ms must be > 0''
      else if view_change_max_timeout_ms p < view_change_base_timeout_ms p
      then Inl ''view_change_max_timeout_ms < view_change_base_timeout_ms''
      else if max_block_bytes p < 1024 then Inl ''max_block_bytes below sane floor (1024)''
      else if max_active_proposals p = 0 then Inl ''max_active_proposals must be > 0''
      else if max_validator_set_size p = 0 then Inl ''max_validator_set_size must be > 0''
      else if max_validator_set_changes_per_block_param p = 0
      then Inl ''max_validator_set_changes_per_block_param must be > 0''
      else if median_tension_window p = 0 then Inl ''median_tension_window must be > 0''
      else if median_tension_window p mod 2 = 0
      then Inl ''median_tension_window must be odd (single-sample median)''
      else if fee_tension_alpha p < 0 then Inl ''fee_tension_alpha must be non-negative''
      else if confirmation_depth p = 0 then Inl ''confirmation_depth must be > 0''
      else if max_equivocation_evidence_per_block_param p = 0
      then Inl ''max_equivocation_evidence_per_block_param must be > 0''
      else if max_forgery_vetoes_per_block_param p = 0
      then Inl ''max_forgery_vetoes_per_block_param must be > 0''
      else Inr ()))"

section \<open>Legacy layouts\<close>

record legacy_consensus_params_v1 =
  l1_max_proof_depth :: nat
  l1_max_activated_symbols :: nat
  l1_max_scan_per_symbol :: nat
  l1_max_constraints_per_symbol :: nat
  l1_default_max_steps :: nat
  l1_default_tx_gas_limit :: nat
  l1_default_block_gas_limit :: nat
  l1_gas_tx_base :: nat
  l1_gas_compute_step :: nat
  l1_gas_state_read :: nat
  l1_gas_state_write :: nat
  l1_gas_sig_verify :: nat
  l1_gas_hash_op :: nat
  l1_gas_proof_byte :: nat
  l1_gas_payload_byte :: nat
  l1_max_symbol_address_len :: nat
  l1_max_state_entry_size :: nat

definition consensus_params_from_v1 :: "legacy_consensus_params_v1 \<Rightarrow> consensus_params" where
  "consensus_params_from_v1 v =
     \<lparr>max_proof_depth = l1_max_proof_depth v,
      max_constraint_propagation_depth = 32,
      max_constraint_propagation_steps = 10000,
      max_activated_symbols = l1_max_activated_symbols v,
      max_scan_per_symbol = l1_max_scan_per_symbol v,
      max_constraints_per_symbol = l1_max_constraints_per_symbol v,
      default_max_steps = l1_default_max_steps v,
      default_tx_gas_limit = l1_default_tx_gas_limit v,
      default_block_gas_limit = l1_default_block_gas_limit v,
      gas_tx_base = l1_gas_tx_base v,
      gas_compute_step = l1_gas_compute_step v,
      gas_state_read = l1_gas_state_read v,
      gas_state_write = l1_gas_state_write v,
      gas_sig_verify = l1_gas_sig_verify v,
      gas_hash_op = l1_gas_hash_op v,
      gas_proof_byte = l1_gas_proof_byte v,
      gas_payload_byte = l1_gas_payload_byte v,
      max_symbol_address_len = l1_max_symbol_address_len v,
      max_state_entry_size = l1_max_state_entry_size v,
      max_tension_swing = 2000000,
      view_change_base_timeout_ms = view_change_base_timeout_ms consensus_params_default,
      view_change_max_timeout_ms = view_change_max_timeout_ms consensus_params_default,
      max_block_bytes = max_block_bytes consensus_params_default,
      max_active_proposals = max_active_proposals consensus_params_default,
      max_validator_set_size = max_validator_set_size consensus_params_default,
      max_validator_set_changes_per_block_param = max_validator_set_changes_per_block_param consensus_params_default,
      median_tension_window = median_tension_window consensus_params_default,
      fee_tension_alpha = fee_tension_alpha consensus_params_default,
      confirmation_depth = confirmation_depth consensus_params_default,
      max_equivocation_evidence_per_block_param = max_equivocation_evidence_per_block_param consensus_params_default,
      max_forgery_vetoes_per_block_param = max_forgery_vetoes_per_block_param consensus_params_default\<rparr>"

record legacy_consensus_params_v2 =
  l2_max_proof_depth :: nat
  l2_max_constraint_propagation_depth :: nat
  l2_max_constraint_propagation_steps :: nat
  l2_max_activated_symbols :: nat
  l2_max_scan_per_symbol :: nat
  l2_max_constraints_per_symbol :: nat
  l2_default_max_steps :: nat
  l2_default_tx_gas_limit :: nat
  l2_default_block_gas_limit :: nat
  l2_gas_tx_base :: nat
  l2_gas_compute_step :: nat
  l2_gas_state_read :: nat
  l2_gas_state_write :: nat
  l2_gas_sig_verify :: nat
  l2_gas_hash_op :: nat
  l2_gas_proof_byte :: nat
  l2_gas_payload_byte :: nat
  l2_max_symbol_address_len :: nat
  l2_max_state_entry_size :: nat
  l2_max_tension_swing :: int

definition consensus_params_from_v2 :: "legacy_consensus_params_v2 \<Rightarrow> consensus_params" where
  "consensus_params_from_v2 v =
     \<lparr>max_proof_depth = l2_max_proof_depth v,
      max_constraint_propagation_depth = l2_max_constraint_propagation_depth v,
      max_constraint_propagation_steps = l2_max_constraint_propagation_steps v,
      max_activated_symbols = l2_max_activated_symbols v,
      max_scan_per_symbol = l2_max_scan_per_symbol v,
      max_constraints_per_symbol = l2_max_constraints_per_symbol v,
      default_max_steps = l2_default_max_steps v,
      default_tx_gas_limit = l2_default_tx_gas_limit v,
      default_block_gas_limit = l2_default_block_gas_limit v,
      gas_tx_base = l2_gas_tx_base v,
      gas_compute_step = l2_gas_compute_step v,
      gas_state_read = l2_gas_state_read v,
      gas_state_write = l2_gas_state_write v,
      gas_sig_verify = l2_gas_sig_verify v,
      gas_hash_op = l2_gas_hash_op v,
      gas_proof_byte = l2_gas_proof_byte v,
      gas_payload_byte = l2_gas_payload_byte v,
      max_symbol_address_len = l2_max_symbol_address_len v,
      max_state_entry_size = l2_max_state_entry_size v,
      max_tension_swing = l2_max_tension_swing v,
      view_change_base_timeout_ms = view_change_base_timeout_ms consensus_params_default,
      view_change_max_timeout_ms = view_change_max_timeout_ms consensus_params_default,
      max_block_bytes = max_block_bytes consensus_params_default,
      max_active_proposals = max_active_proposals consensus_params_default,
      max_validator_set_size = max_validator_set_size consensus_params_default,
      max_validator_set_changes_per_block_param = max_validator_set_changes_per_block_param consensus_params_default,
      median_tension_window = median_tension_window consensus_params_default,
      fee_tension_alpha = fee_tension_alpha consensus_params_default,
      confirmation_depth = confirmation_depth consensus_params_default,
      max_equivocation_evidence_per_block_param = max_equivocation_evidence_per_block_param consensus_params_default,
      max_forgery_vetoes_per_block_param = max_forgery_vetoes_per_block_param consensus_params_default\<rparr>"

record legacy_consensus_params_v3 =
  l3_max_proof_depth :: nat
  l3_max_constraint_propagation_depth :: nat
  l3_max_constraint_propagation_steps :: nat
  l3_max_activated_symbols :: nat
  l3_max_scan_per_symbol :: nat
  l3_max_constraints_per_symbol :: nat
  l3_default_max_steps :: nat
  l3_default_tx_gas_limit :: nat
  l3_default_block_gas_limit :: nat
  l3_gas_tx_base :: nat
  l3_gas_compute_step :: nat
  l3_gas_state_read :: nat
  l3_gas_state_write :: nat
  l3_gas_sig_verify :: nat
  l3_gas_hash_op :: nat
  l3_gas_proof_byte :: nat
  l3_gas_payload_byte :: nat
  l3_max_symbol_address_len :: nat
  l3_max_state_entry_size :: nat
  l3_max_tension_swing :: int
  l3_view_change_base_timeout_ms :: nat
  l3_view_change_max_timeout_ms :: nat
  l3_max_block_bytes :: nat
  l3_max_active_proposals :: nat
  l3_max_validator_set_size :: nat
  l3_max_validator_set_changes_per_block_param :: nat

definition consensus_params_from_v3 :: "legacy_consensus_params_v3 \<Rightarrow> consensus_params" where
  "consensus_params_from_v3 v =
     \<lparr>max_proof_depth = l3_max_proof_depth v,
      max_constraint_propagation_depth = l3_max_constraint_propagation_depth v,
      max_constraint_propagation_steps = l3_max_constraint_propagation_steps v,
      max_activated_symbols = l3_max_activated_symbols v,
      max_scan_per_symbol = l3_max_scan_per_symbol v,
      max_constraints_per_symbol = l3_max_constraints_per_symbol v,
      default_max_steps = l3_default_max_steps v,
      default_tx_gas_limit = l3_default_tx_gas_limit v,
      default_block_gas_limit = l3_default_block_gas_limit v,
      gas_tx_base = l3_gas_tx_base v,
      gas_compute_step = l3_gas_compute_step v,
      gas_state_read = l3_gas_state_read v,
      gas_state_write = l3_gas_state_write v,
      gas_sig_verify = l3_gas_sig_verify v,
      gas_hash_op = l3_gas_hash_op v,
      gas_proof_byte = l3_gas_proof_byte v,
      gas_payload_byte = l3_gas_payload_byte v,
      max_symbol_address_len = l3_max_symbol_address_len v,
      max_state_entry_size = l3_max_state_entry_size v,
      max_tension_swing = l3_max_tension_swing v,
      view_change_base_timeout_ms = l3_view_change_base_timeout_ms v,
      view_change_max_timeout_ms = l3_view_change_max_timeout_ms v,
      max_block_bytes = l3_max_block_bytes v,
      max_active_proposals = l3_max_active_proposals v,
      max_validator_set_size = l3_max_validator_set_size v,
      max_validator_set_changes_per_block_param = l3_max_validator_set_changes_per_block_param v,
      median_tension_window = median_tension_window consensus_params_default,
      fee_tension_alpha = fee_tension_alpha consensus_params_default,
      confirmation_depth = confirmation_depth consensus_params_default,
      max_equivocation_evidence_per_block_param = max_equivocation_evidence_per_block_param consensus_params_default,
      max_forgery_vetoes_per_block_param = max_forgery_vetoes_per_block_param consensus_params_default\<rparr>"

record legacy_consensus_params_v4 =
  l4_max_proof_depth :: nat
  l4_max_constraint_propagation_depth :: nat
  l4_max_constraint_propagation_steps :: nat
  l4_max_activated_symbols :: nat
  l4_max_scan_per_symbol :: nat
  l4_max_constraints_per_symbol :: nat
  l4_default_max_steps :: nat
  l4_default_tx_gas_limit :: nat
  l4_default_block_gas_limit :: nat
  l4_gas_tx_base :: nat
  l4_gas_compute_step :: nat
  l4_gas_state_read :: nat
  l4_gas_state_write :: nat
  l4_gas_sig_verify :: nat
  l4_gas_hash_op :: nat
  l4_gas_proof_byte :: nat
  l4_gas_payload_byte :: nat
  l4_max_symbol_address_len :: nat
  l4_max_state_entry_size :: nat
  l4_max_tension_swing :: int
  l4_view_change_base_timeout_ms :: nat
  l4_view_change_max_timeout_ms :: nat
  l4_max_block_bytes :: nat
  l4_max_active_proposals :: nat
  l4_max_validator_set_size :: nat
  l4_max_validator_set_changes_per_block_param :: nat
  l4_median_tension_window :: nat
  l4_fee_tension_alpha :: int
  l4_confirmation_depth :: nat
  l4_max_equivocation_evidence_per_block_param :: nat

definition consensus_params_from_v4 :: "legacy_consensus_params_v4 \<Rightarrow> consensus_params" where
  "consensus_params_from_v4 v =
     \<lparr>max_proof_depth = l4_max_proof_depth v,
      max_constraint_propagation_depth = l4_max_constraint_propagation_depth v,
      max_constraint_propagation_steps = l4_max_constraint_propagation_steps v,
      max_activated_symbols = l4_max_activated_symbols v,
      max_scan_per_symbol = l4_max_scan_per_symbol v,
      max_constraints_per_symbol = l4_max_constraints_per_symbol v,
      default_max_steps = l4_default_max_steps v,
      default_tx_gas_limit = l4_default_tx_gas_limit v,
      default_block_gas_limit = l4_default_block_gas_limit v,
      gas_tx_base = l4_gas_tx_base v,
      gas_compute_step = l4_gas_compute_step v,
      gas_state_read = l4_gas_state_read v,
      gas_state_write = l4_gas_state_write v,
      gas_sig_verify = l4_gas_sig_verify v,
      gas_hash_op = l4_gas_hash_op v,
      gas_proof_byte = l4_gas_proof_byte v,
      gas_payload_byte = l4_gas_payload_byte v,
      max_symbol_address_len = l4_max_symbol_address_len v,
      max_state_entry_size = l4_max_state_entry_size v,
      max_tension_swing = l4_max_tension_swing v,
      view_change_base_timeout_ms = l4_view_change_base_timeout_ms v,
      view_change_max_timeout_ms = l4_view_change_max_timeout_ms v,
      max_block_bytes = l4_max_block_bytes v,
      max_active_proposals = l4_max_active_proposals v,
      max_validator_set_size = l4_max_validator_set_size v,
      max_validator_set_changes_per_block_param = l4_max_validator_set_changes_per_block_param v,
      median_tension_window = l4_median_tension_window v,
      fee_tension_alpha = l4_fee_tension_alpha v,
      confirmation_depth = l4_confirmation_depth v,
      max_equivocation_evidence_per_block_param = l4_max_equivocation_evidence_per_block_param v,
      max_forgery_vetoes_per_block_param = max_forgery_vetoes_per_block_param consensus_params_default\<rparr>"

text \<open>
  Decoding: the current layout first, then the legacy layouts from the newest to the oldest;
  the bounds check runs on whatever was decoded. The five bincode decoders are parameters.
\<close>

record params_decoders =
  dec_current :: "bytes \<Rightarrow> consensus_params option"
  dec_v4 :: "bytes \<Rightarrow> legacy_consensus_params_v4 option"
  dec_v3 :: "bytes \<Rightarrow> legacy_consensus_params_v3 option"
  dec_v2 :: "bytes \<Rightarrow> legacy_consensus_params_v2 option"
  dec_v1 :: "bytes \<Rightarrow> legacy_consensus_params_v1 option"

definition params_decode :: "params_decoders \<Rightarrow> bytes \<Rightarrow> consensus_params option" where
  "params_decode D b =
     (case dec_current D b of Some p \<Rightarrow> Some p | None \<Rightarrow>
     (case dec_v4 D b of Some v \<Rightarrow> Some (consensus_params_from_v4 v) | None \<Rightarrow>
     (case dec_v3 D b of Some v \<Rightarrow> Some (consensus_params_from_v3 v) | None \<Rightarrow>
     (case dec_v2 D b of Some v \<Rightarrow> Some (consensus_params_from_v2 v) | None \<Rightarrow>
      map_option consensus_params_from_v1 (dec_v1 D b)))))"

definition consensus_params_from_canonical_bytes ::
  "params_decoders \<Rightarrow> bytes \<Rightarrow> string + consensus_params" where
  "consensus_params_from_canonical_bytes D b =
     (case params_decode D b of
        None \<Rightarrow> Inl ''ConsensusParams deserialization''
      | Some p \<Rightarrow> bind_result (consensus_params_validate p) (\<lambda>_. Inr p))"

section \<open>Constitutional ceilings\<close>

record constitutional_ceilings =
  max_proof_depth_ceiling :: nat
  max_tx_gas_ceiling :: nat
  max_block_gas_ceiling :: nat
  max_contract_steps_ceiling :: nat
  max_address_length_ceiling :: nat
  max_state_entry_size_ceiling :: nat
  max_tension_swing_ceiling :: int
  max_block_bytes_ceiling :: nat
  max_active_proposals_ceiling :: nat
  max_view_change_base_timeout_ms :: nat
  max_view_change_max_timeout_ms :: nat
  max_validator_set_size_ceiling :: nat
  max_validator_set_changes_per_block :: nat
  max_fee_tension_alpha_ceiling :: int
  max_median_tension_window_ceiling :: nat
  max_confirmation_depth_ceiling :: nat
  max_equivocation_evidence_per_block :: nat
  min_effective_fee_floor :: int
  max_forgery_vetoes_per_block_ceiling :: nat

definition constitutional_ceilings_default :: constitutional_ceilings where
  "constitutional_ceilings_default =
     \<lparr>max_proof_depth_ceiling = 512,
      max_tx_gas_ceiling = 16000000,
      max_block_gas_ceiling = 800000000,
      max_contract_steps_ceiling = 40000,
      max_address_length_ceiling = 4096,
      max_state_entry_size_ceiling = 4194304,
      max_tension_swing_ceiling = 4000000,
      max_block_bytes_ceiling = 8388608,
      max_active_proposals_ceiling = 256,
      max_view_change_base_timeout_ms = 60000,
      max_view_change_max_timeout_ms = 3600000,
      max_validator_set_size_ceiling = 128,
      max_validator_set_changes_per_block = 8,
      max_fee_tension_alpha_ceiling = SCALE,
      max_median_tension_window_ceiling = 64,
      max_confirmation_depth_ceiling = 8,
      max_equivocation_evidence_per_block = 16,
      min_effective_fee_floor = SCALE div 100,
      max_forgery_vetoes_per_block_ceiling = 8\<rparr>"

datatype ceiling_violation =
    CV_MaxProofDepth nat nat
  | CV_MaxTxGas nat nat
  | CV_MaxBlockGas nat nat
  | CV_MaxContractSteps nat nat
  | CV_MaxAddressLength nat nat
  | CV_MaxStateEntrySize nat nat
  | CV_MaxTensionSwing int int
  | CV_MaxBlockBytes nat nat
  | CV_MaxActiveProposals nat nat
  | CV_ViewChangeBaseTimeout nat nat
  | CV_ViewChangeMaxTimeout nat nat
  | CV_MaxValidatorSetSize nat nat
  | CV_MaxValidatorSetChangesPerBlock nat nat
  | CV_MaxFeeTensionAlpha int int
  | CV_MaxMedianTensionWindow nat nat
  | CV_MaxConfirmationDepth nat nat
  | CV_MaxEquivocationEvidencePerBlock nat nat
  | CV_MaxForgeryVetoesPerBlock nat nat

definition ceilings_validate ::
  "constitutional_ceilings \<Rightarrow> consensus_params \<Rightarrow> ceiling_violation + unit" where
  "ceilings_validate c p =
     (if max_proof_depth p > max_proof_depth_ceiling c
      then Inl (CV_MaxProofDepth (max_proof_depth p) (max_proof_depth_ceiling c))
      else if default_tx_gas_limit p > max_tx_gas_ceiling c
      then Inl (CV_MaxTxGas (default_tx_gas_limit p) (max_tx_gas_ceiling c))
      else if default_block_gas_limit p > max_block_gas_ceiling c
      then Inl (CV_MaxBlockGas (default_block_gas_limit p) (max_block_gas_ceiling c))
      else if default_max_steps p > max_contract_steps_ceiling c
      then Inl (CV_MaxContractSteps (default_max_steps p) (max_contract_steps_ceiling c))
      else if max_symbol_address_len p > max_address_length_ceiling c
      then Inl (CV_MaxAddressLength (max_symbol_address_len p) (max_address_length_ceiling c))
      else if max_state_entry_size p > max_state_entry_size_ceiling c
      then Inl (CV_MaxStateEntrySize (max_state_entry_size p) (max_state_entry_size_ceiling c))
      else if max_tension_swing p > max_tension_swing_ceiling c
      then Inl (CV_MaxTensionSwing (max_tension_swing p) (max_tension_swing_ceiling c))
      else if max_block_bytes p > max_block_bytes_ceiling c
      then Inl (CV_MaxBlockBytes (max_block_bytes p) (max_block_bytes_ceiling c))
      else if max_active_proposals p > max_active_proposals_ceiling c
      then Inl (CV_MaxActiveProposals (max_active_proposals p) (max_active_proposals_ceiling c))
      else if view_change_base_timeout_ms p > max_view_change_base_timeout_ms c
      then Inl (CV_ViewChangeBaseTimeout (view_change_base_timeout_ms p) (max_view_change_base_timeout_ms c))
      else if view_change_max_timeout_ms p > max_view_change_max_timeout_ms c
      then Inl (CV_ViewChangeMaxTimeout (view_change_max_timeout_ms p) (max_view_change_max_timeout_ms c))
      else if max_validator_set_size p > max_validator_set_size_ceiling c
      then Inl (CV_MaxValidatorSetSize (max_validator_set_size p) (max_validator_set_size_ceiling c))
      else if max_validator_set_changes_per_block_param p > max_validator_set_changes_per_block c
      then Inl (CV_MaxValidatorSetChangesPerBlock (max_validator_set_changes_per_block_param p) (max_validator_set_changes_per_block c))
      else if fee_tension_alpha p > max_fee_tension_alpha_ceiling c
      then Inl (CV_MaxFeeTensionAlpha (fee_tension_alpha p) (max_fee_tension_alpha_ceiling c))
      else if median_tension_window p > max_median_tension_window_ceiling c
      then Inl (CV_MaxMedianTensionWindow (median_tension_window p) (max_median_tension_window_ceiling c))
      else if confirmation_depth p > max_confirmation_depth_ceiling c
      then Inl (CV_MaxConfirmationDepth (confirmation_depth p) (max_confirmation_depth_ceiling c))
      else if max_equivocation_evidence_per_block_param p > max_equivocation_evidence_per_block c
      then Inl (CV_MaxEquivocationEvidencePerBlock (max_equivocation_evidence_per_block_param p) (max_equivocation_evidence_per_block c))
      else if max_forgery_vetoes_per_block_param p > max_forgery_vetoes_per_block_ceiling c
      then Inl (CV_MaxForgeryVetoesPerBlock (max_forgery_vetoes_per_block_param p) (max_forgery_vetoes_per_block_ceiling c))
      else Inr ())"

record legacy_constitutional_ceilings_v1 =
  lc1_max_proof_depth_ceiling :: nat
  lc1_max_tx_gas_ceiling :: nat
  lc1_max_block_gas_ceiling :: nat
  lc1_max_contract_steps_ceiling :: nat
  lc1_max_address_length_ceiling :: nat
  lc1_max_state_entry_size_ceiling :: nat
  lc1_max_tension_swing_ceiling :: int
  lc1_max_block_bytes_ceiling :: nat
  lc1_max_active_proposals_ceiling :: nat
  lc1_max_view_change_base_timeout_ms :: nat
  lc1_max_view_change_max_timeout_ms :: nat
  lc1_max_validator_set_size_ceiling :: nat
  lc1_max_validator_set_changes_per_block :: nat
  lc1_max_fee_tension_alpha_ceiling :: int
  lc1_max_median_tension_window_ceiling :: nat
  lc1_max_confirmation_depth_ceiling :: nat
  lc1_max_equivocation_evidence_per_block :: nat

definition ceilings_from_v1 :: "legacy_constitutional_ceilings_v1 \<Rightarrow> constitutional_ceilings" where
  "ceilings_from_v1 v =
     \<lparr>max_proof_depth_ceiling = lc1_max_proof_depth_ceiling v,
      max_tx_gas_ceiling = lc1_max_tx_gas_ceiling v,
      max_block_gas_ceiling = lc1_max_block_gas_ceiling v,
      max_contract_steps_ceiling = lc1_max_contract_steps_ceiling v,
      max_address_length_ceiling = lc1_max_address_length_ceiling v,
      max_state_entry_size_ceiling = lc1_max_state_entry_size_ceiling v,
      max_tension_swing_ceiling = lc1_max_tension_swing_ceiling v,
      max_block_bytes_ceiling = lc1_max_block_bytes_ceiling v,
      max_active_proposals_ceiling = lc1_max_active_proposals_ceiling v,
      max_view_change_base_timeout_ms = lc1_max_view_change_base_timeout_ms v,
      max_view_change_max_timeout_ms = lc1_max_view_change_max_timeout_ms v,
      max_validator_set_size_ceiling = lc1_max_validator_set_size_ceiling v,
      max_validator_set_changes_per_block = lc1_max_validator_set_changes_per_block v,
      max_fee_tension_alpha_ceiling = lc1_max_fee_tension_alpha_ceiling v,
      max_median_tension_window_ceiling = lc1_max_median_tension_window_ceiling v,
      max_confirmation_depth_ceiling = lc1_max_confirmation_depth_ceiling v,
      max_equivocation_evidence_per_block = lc1_max_equivocation_evidence_per_block v,
      min_effective_fee_floor = min_effective_fee_floor constitutional_ceilings_default,
      max_forgery_vetoes_per_block_ceiling = max_forgery_vetoes_per_block_ceiling constitutional_ceilings_default\<rparr>"

record legacy_constitutional_ceilings_v2 =
  lc2_max_proof_depth_ceiling :: nat
  lc2_max_tx_gas_ceiling :: nat
  lc2_max_block_gas_ceiling :: nat
  lc2_max_contract_steps_ceiling :: nat
  lc2_max_address_length_ceiling :: nat
  lc2_max_state_entry_size_ceiling :: nat
  lc2_max_tension_swing_ceiling :: int
  lc2_max_block_bytes_ceiling :: nat
  lc2_max_active_proposals_ceiling :: nat
  lc2_max_view_change_base_timeout_ms :: nat
  lc2_max_view_change_max_timeout_ms :: nat
  lc2_max_validator_set_size_ceiling :: nat
  lc2_max_validator_set_changes_per_block :: nat
  lc2_max_fee_tension_alpha_ceiling :: int
  lc2_max_median_tension_window_ceiling :: nat
  lc2_max_confirmation_depth_ceiling :: nat
  lc2_max_equivocation_evidence_per_block :: nat
  lc2_min_effective_fee_floor :: int

definition ceilings_from_v2 :: "legacy_constitutional_ceilings_v2 \<Rightarrow> constitutional_ceilings" where
  "ceilings_from_v2 v =
     \<lparr>max_proof_depth_ceiling = lc2_max_proof_depth_ceiling v,
      max_tx_gas_ceiling = lc2_max_tx_gas_ceiling v,
      max_block_gas_ceiling = lc2_max_block_gas_ceiling v,
      max_contract_steps_ceiling = lc2_max_contract_steps_ceiling v,
      max_address_length_ceiling = lc2_max_address_length_ceiling v,
      max_state_entry_size_ceiling = lc2_max_state_entry_size_ceiling v,
      max_tension_swing_ceiling = lc2_max_tension_swing_ceiling v,
      max_block_bytes_ceiling = lc2_max_block_bytes_ceiling v,
      max_active_proposals_ceiling = lc2_max_active_proposals_ceiling v,
      max_view_change_base_timeout_ms = lc2_max_view_change_base_timeout_ms v,
      max_view_change_max_timeout_ms = lc2_max_view_change_max_timeout_ms v,
      max_validator_set_size_ceiling = lc2_max_validator_set_size_ceiling v,
      max_validator_set_changes_per_block = lc2_max_validator_set_changes_per_block v,
      max_fee_tension_alpha_ceiling = lc2_max_fee_tension_alpha_ceiling v,
      max_median_tension_window_ceiling = lc2_max_median_tension_window_ceiling v,
      max_confirmation_depth_ceiling = lc2_max_confirmation_depth_ceiling v,
      max_equivocation_evidence_per_block = lc2_max_equivocation_evidence_per_block v,
      min_effective_fee_floor = lc2_min_effective_fee_floor v,
      max_forgery_vetoes_per_block_ceiling = max_forgery_vetoes_per_block_ceiling constitutional_ceilings_default\<rparr>"

record ceilings_decoders =
  cdec_current :: "bytes \<Rightarrow> constitutional_ceilings option"
  cdec_v2 :: "bytes \<Rightarrow> legacy_constitutional_ceilings_v2 option"
  cdec_v1 :: "bytes \<Rightarrow> legacy_constitutional_ceilings_v1 option"

definition ceilings_from_canonical_bytes ::
  "ceilings_decoders \<Rightarrow> bytes \<Rightarrow> string + constitutional_ceilings" where
  "ceilings_from_canonical_bytes D b =
     (case cdec_current D b of Some c \<Rightarrow> Inr c | None \<Rightarrow>
     (case cdec_v2 D b of Some v \<Rightarrow> Inr (ceilings_from_v2 v) | None \<Rightarrow>
     (case cdec_v1 D b of Some v \<Rightarrow> Inr (ceilings_from_v1 v) | None \<Rightarrow>
      Inl ''ConstitutionalCeilings deserialize'')))"

section \<open>Typed parameter updates\<close>

datatype consensus_param_field =
    MaxProofDepth | MaxConstraintPropagationDepth | MaxConstraintPropagationSteps | MaxActivatedSymbols
  | MaxScanPerSymbol | MaxConstraintsPerSymbol | DefaultMaxSteps
  | DefaultTxGasLimit | DefaultBlockGasLimit | GasTxBase
  | GasComputeStep | GasStateRead | GasStateWrite
  | GasSigVerify | GasHashOp | GasProofByte
  | GasPayloadByte | MaxSymbolAddressLen | MaxStateEntrySize
  | MaxTensionSwing | ViewChangeBaseTimeoutMs | ViewChangeMaxTimeoutMs
  | MaxBlockBytes | MaxActiveProposals | MaxValidatorSetSize
  | MaxValidatorSetChangesPerBlockParam | MedianTensionWindow | FeeTensionAlpha
  | ConfirmationDepth | MaxEquivocationEvidencePerBlockParam | MaxForgeryVetoesPerBlockParam

datatype consensus_param_value = VU32 nat | VU64 nat | VI64 int | VI128 int

fun type_name :: "consensus_param_value \<Rightarrow> string" where
  "type_name (VU32 _) = ''u32''"
| "type_name (VU64 _) = ''u64''"
| "type_name (VI64 _) = ''i64''"
| "type_name (VI128 _) = ''i128''"

datatype typed_param_apply_error =
  TypeMismatch (tm_field: consensus_param_field) (tm_expected: string) (tm_actual: string)

definition expect_u32 ::
  "consensus_param_field \<Rightarrow> consensus_param_value \<Rightarrow> (nat \<Rightarrow> consensus_params) \<Rightarrow>
   typed_param_apply_error + consensus_params" where
  "expect_u32 f x assign =
     (case x of VU32 v \<Rightarrow> Inr (assign v) | _ \<Rightarrow> Inl (TypeMismatch f ''u32'' (type_name x)))"

definition expect_u64 ::
  "consensus_param_field \<Rightarrow> consensus_param_value \<Rightarrow> (nat \<Rightarrow> consensus_params) \<Rightarrow>
   typed_param_apply_error + consensus_params" where
  "expect_u64 f x assign =
     (case x of VU64 v \<Rightarrow> Inr (assign v) | _ \<Rightarrow> Inl (TypeMismatch f ''u64'' (type_name x)))"

definition expect_i64 ::
  "consensus_param_field \<Rightarrow> consensus_param_value \<Rightarrow> (int \<Rightarrow> consensus_params) \<Rightarrow>
   typed_param_apply_error + consensus_params" where
  "expect_i64 f x assign =
     (case x of VI64 v \<Rightarrow> Inr (assign v) | _ \<Rightarrow> Inl (TypeMismatch f ''i64'' (type_name x)))"

definition expect_i128 ::
  "consensus_param_field \<Rightarrow> consensus_param_value \<Rightarrow> (int \<Rightarrow> consensus_params) \<Rightarrow>
   typed_param_apply_error + consensus_params" where
  "expect_i128 f x assign =
     (case x of VI128 v \<Rightarrow> Inr (assign v) | _ \<Rightarrow> Inl (TypeMismatch f ''i128'' (type_name x)))"

fun apply_typed_param ::
  "consensus_params \<Rightarrow> consensus_param_field \<Rightarrow> consensus_param_value \<Rightarrow>
   typed_param_apply_error + consensus_params" where
  "apply_typed_param b MaxProofDepth x = expect_u32 MaxProofDepth x (\<lambda>v. b\<lparr>max_proof_depth := v\<rparr>)"
| "apply_typed_param b MaxConstraintPropagationDepth x = expect_u32 MaxConstraintPropagationDepth x (\<lambda>v. b\<lparr>max_constraint_propagation_depth := v\<rparr>)"
| "apply_typed_param b MaxConstraintPropagationSteps x = expect_u64 MaxConstraintPropagationSteps x (\<lambda>v. b\<lparr>max_constraint_propagation_steps := v\<rparr>)"
| "apply_typed_param b MaxActivatedSymbols x = expect_u32 MaxActivatedSymbols x (\<lambda>v. b\<lparr>max_activated_symbols := v\<rparr>)"
| "apply_typed_param b MaxScanPerSymbol x = expect_u64 MaxScanPerSymbol x (\<lambda>v. b\<lparr>max_scan_per_symbol := v\<rparr>)"
| "apply_typed_param b MaxConstraintsPerSymbol x = expect_u64 MaxConstraintsPerSymbol x (\<lambda>v. b\<lparr>max_constraints_per_symbol := v\<rparr>)"
| "apply_typed_param b DefaultMaxSteps x = expect_u64 DefaultMaxSteps x (\<lambda>v. b\<lparr>default_max_steps := v\<rparr>)"
| "apply_typed_param b DefaultTxGasLimit x = expect_u64 DefaultTxGasLimit x (\<lambda>v. b\<lparr>default_tx_gas_limit := v\<rparr>)"
| "apply_typed_param b DefaultBlockGasLimit x = expect_u64 DefaultBlockGasLimit x (\<lambda>v. b\<lparr>default_block_gas_limit := v\<rparr>)"
| "apply_typed_param b GasTxBase x = expect_u64 GasTxBase x (\<lambda>v. b\<lparr>gas_tx_base := v\<rparr>)"
| "apply_typed_param b GasComputeStep x = expect_u64 GasComputeStep x (\<lambda>v. b\<lparr>gas_compute_step := v\<rparr>)"
| "apply_typed_param b GasStateRead x = expect_u64 GasStateRead x (\<lambda>v. b\<lparr>gas_state_read := v\<rparr>)"
| "apply_typed_param b GasStateWrite x = expect_u64 GasStateWrite x (\<lambda>v. b\<lparr>gas_state_write := v\<rparr>)"
| "apply_typed_param b GasSigVerify x = expect_u64 GasSigVerify x (\<lambda>v. b\<lparr>gas_sig_verify := v\<rparr>)"
| "apply_typed_param b GasHashOp x = expect_u64 GasHashOp x (\<lambda>v. b\<lparr>gas_hash_op := v\<rparr>)"
| "apply_typed_param b GasProofByte x = expect_u64 GasProofByte x (\<lambda>v. b\<lparr>gas_proof_byte := v\<rparr>)"
| "apply_typed_param b GasPayloadByte x = expect_u64 GasPayloadByte x (\<lambda>v. b\<lparr>gas_payload_byte := v\<rparr>)"
| "apply_typed_param b MaxSymbolAddressLen x = expect_u32 MaxSymbolAddressLen x (\<lambda>v. b\<lparr>max_symbol_address_len := v\<rparr>)"
| "apply_typed_param b MaxStateEntrySize x = expect_u32 MaxStateEntrySize x (\<lambda>v. b\<lparr>max_state_entry_size := v\<rparr>)"
| "apply_typed_param b MaxTensionSwing x = expect_i64 MaxTensionSwing x (\<lambda>v. b\<lparr>max_tension_swing := v\<rparr>)"
| "apply_typed_param b ViewChangeBaseTimeoutMs x = expect_u32 ViewChangeBaseTimeoutMs x (\<lambda>v. b\<lparr>view_change_base_timeout_ms := v\<rparr>)"
| "apply_typed_param b ViewChangeMaxTimeoutMs x = expect_u32 ViewChangeMaxTimeoutMs x (\<lambda>v. b\<lparr>view_change_max_timeout_ms := v\<rparr>)"
| "apply_typed_param b MaxBlockBytes x = expect_u32 MaxBlockBytes x (\<lambda>v. b\<lparr>max_block_bytes := v\<rparr>)"
| "apply_typed_param b MaxActiveProposals x = expect_u32 MaxActiveProposals x (\<lambda>v. b\<lparr>max_active_proposals := v\<rparr>)"
| "apply_typed_param b MaxValidatorSetSize x = expect_u32 MaxValidatorSetSize x (\<lambda>v. b\<lparr>max_validator_set_size := v\<rparr>)"
| "apply_typed_param b MaxValidatorSetChangesPerBlockParam x = expect_u32 MaxValidatorSetChangesPerBlockParam x (\<lambda>v. b\<lparr>max_validator_set_changes_per_block_param := v\<rparr>)"
| "apply_typed_param b MedianTensionWindow x = expect_u32 MedianTensionWindow x (\<lambda>v. b\<lparr>median_tension_window := v\<rparr>)"
| "apply_typed_param b FeeTensionAlpha x = expect_i128 FeeTensionAlpha x (\<lambda>v. b\<lparr>fee_tension_alpha := v\<rparr>)"
| "apply_typed_param b ConfirmationDepth x = expect_u64 ConfirmationDepth x (\<lambda>v. b\<lparr>confirmation_depth := v\<rparr>)"
| "apply_typed_param b MaxEquivocationEvidencePerBlockParam x = expect_u32 MaxEquivocationEvidencePerBlockParam x (\<lambda>v. b\<lparr>max_equivocation_evidence_per_block_param := v\<rparr>)"
| "apply_typed_param b MaxForgeryVetoesPerBlockParam x = expect_u32 MaxForgeryVetoesPerBlockParam x (\<lambda>v. b\<lparr>max_forgery_vetoes_per_block_param := v\<rparr>)"

text \<open>Reading a field as a typed value: the specification of the update.\<close>

fun param_value :: "consensus_params \<Rightarrow> consensus_param_field \<Rightarrow> consensus_param_value" where
  "param_value p MaxProofDepth = VU32 (max_proof_depth p)"
| "param_value p MaxConstraintPropagationDepth = VU32 (max_constraint_propagation_depth p)"
| "param_value p MaxConstraintPropagationSteps = VU64 (max_constraint_propagation_steps p)"
| "param_value p MaxActivatedSymbols = VU32 (max_activated_symbols p)"
| "param_value p MaxScanPerSymbol = VU64 (max_scan_per_symbol p)"
| "param_value p MaxConstraintsPerSymbol = VU64 (max_constraints_per_symbol p)"
| "param_value p DefaultMaxSteps = VU64 (default_max_steps p)"
| "param_value p DefaultTxGasLimit = VU64 (default_tx_gas_limit p)"
| "param_value p DefaultBlockGasLimit = VU64 (default_block_gas_limit p)"
| "param_value p GasTxBase = VU64 (gas_tx_base p)"
| "param_value p GasComputeStep = VU64 (gas_compute_step p)"
| "param_value p GasStateRead = VU64 (gas_state_read p)"
| "param_value p GasStateWrite = VU64 (gas_state_write p)"
| "param_value p GasSigVerify = VU64 (gas_sig_verify p)"
| "param_value p GasHashOp = VU64 (gas_hash_op p)"
| "param_value p GasProofByte = VU64 (gas_proof_byte p)"
| "param_value p GasPayloadByte = VU64 (gas_payload_byte p)"
| "param_value p MaxSymbolAddressLen = VU32 (max_symbol_address_len p)"
| "param_value p MaxStateEntrySize = VU32 (max_state_entry_size p)"
| "param_value p MaxTensionSwing = VI64 (max_tension_swing p)"
| "param_value p ViewChangeBaseTimeoutMs = VU32 (view_change_base_timeout_ms p)"
| "param_value p ViewChangeMaxTimeoutMs = VU32 (view_change_max_timeout_ms p)"
| "param_value p MaxBlockBytes = VU32 (max_block_bytes p)"
| "param_value p MaxActiveProposals = VU32 (max_active_proposals p)"
| "param_value p MaxValidatorSetSize = VU32 (max_validator_set_size p)"
| "param_value p MaxValidatorSetChangesPerBlockParam = VU32 (max_validator_set_changes_per_block_param p)"
| "param_value p MedianTensionWindow = VU32 (median_tension_window p)"
| "param_value p FeeTensionAlpha = VI128 (fee_tension_alpha p)"
| "param_value p ConfirmationDepth = VU64 (confirmation_depth p)"
| "param_value p MaxEquivocationEvidencePerBlockParam = VU32 (max_equivocation_evidence_per_block_param p)"
| "param_value p MaxForgeryVetoesPerBlockParam = VU32 (max_forgery_vetoes_per_block_param p)"

section \<open>The submission-time gate\<close>

datatype proposal_ceiling_rejection =
    CeilingModification string
  | RejectedCeilingViolation ceiling_violation

definition validate_consensus_params_proposal ::
  "consensus_params \<Rightarrow> constitutional_ceilings \<Rightarrow> proposal_ceiling_rejection + unit" where
  "validate_consensus_params_proposal proposed c =
     (case ceilings_validate c proposed of
        Inl v \<Rightarrow> Inl (RejectedCeilingViolation v)
      | Inr u \<Rightarrow> Inr u)"

definition validate_ceilings_immutable ::
  "constitutional_ceilings \<Rightarrow> constitutional_ceilings \<Rightarrow> proposal_ceiling_rejection + unit" where
  "validate_ceilings_immutable current proposed =
     (if max_proof_depth_ceiling current \<noteq> max_proof_depth_ceiling proposed
      then Inl (CeilingModification ''max_proof_depth_ceiling'')
      else if max_tx_gas_ceiling current \<noteq> max_tx_gas_ceiling proposed
      then Inl (CeilingModification ''max_tx_gas_ceiling'')
      else if max_block_gas_ceiling current \<noteq> max_block_gas_ceiling proposed
      then Inl (CeilingModification ''max_block_gas_ceiling'')
      else if max_contract_steps_ceiling current \<noteq> max_contract_steps_ceiling proposed
      then Inl (CeilingModification ''max_contract_steps_ceiling'')
      else if max_address_length_ceiling current \<noteq> max_address_length_ceiling proposed
      then Inl (CeilingModification ''max_address_length_ceiling'')
      else if max_state_entry_size_ceiling current \<noteq> max_state_entry_size_ceiling proposed
      then Inl (CeilingModification ''max_state_entry_size_ceiling'')
      else if max_tension_swing_ceiling current \<noteq> max_tension_swing_ceiling proposed
      then Inl (CeilingModification ''max_tension_swing_ceiling'')
      else if max_block_bytes_ceiling current \<noteq> max_block_bytes_ceiling proposed
      then Inl (CeilingModification ''max_block_bytes_ceiling'')
      else if max_active_proposals_ceiling current \<noteq> max_active_proposals_ceiling proposed
      then Inl (CeilingModification ''max_active_proposals_ceiling'')
      else if max_view_change_base_timeout_ms current \<noteq> max_view_change_base_timeout_ms proposed
      then Inl (CeilingModification ''max_view_change_base_timeout_ms'')
      else if max_view_change_max_timeout_ms current \<noteq> max_view_change_max_timeout_ms proposed
      then Inl (CeilingModification ''max_view_change_max_timeout_ms'')
      else if max_validator_set_size_ceiling current \<noteq> max_validator_set_size_ceiling proposed
      then Inl (CeilingModification ''max_validator_set_size_ceiling'')
      else if max_validator_set_changes_per_block current \<noteq> max_validator_set_changes_per_block proposed
      then Inl (CeilingModification ''max_validator_set_changes_per_block'')
      else Inr ())"

datatype typed_param_proposal_rejection =
    TPTypeMismatch typed_param_apply_error
  | TPCeilingViolation ceiling_violation
  | ActivationInPast nat nat
  | ParamBounds string
  | ActivationTooFarInFuture nat nat nat

definition TIMELOCK_ORDINARY :: nat where "TIMELOCK_ORDINARY = 50"
definition TIMELOCK_CONSTITUTIONAL :: nat where "TIMELOCK_CONSTITUTIONAL = 200"

definition MAX_ACTIVATION_HEIGHT_OFFSET :: nat where
  "MAX_ACTIVATION_HEIGHT_OFFSET = 10 * TIMELOCK_CONSTITUTIONAL"

definition validate_typed_param_proposal ::
  "consensus_params \<Rightarrow> constitutional_ceilings \<Rightarrow> consensus_param_field \<Rightarrow>
   consensus_param_value \<Rightarrow> nat \<Rightarrow> nat \<Rightarrow> typed_param_proposal_rejection + consensus_params" where
  "validate_typed_param_proposal current c f x activation_height current_height =
     (if activation_height \<le> current_height
      then Inl (ActivationInPast activation_height current_height)
      else if activation_height > u64_saturating_add current_height MAX_ACTIVATION_HEIGHT_OFFSET
      then Inl (ActivationTooFarInFuture activation_height current_height MAX_ACTIVATION_HEIGHT_OFFSET)
      else
        (case apply_typed_param current f x of
           Inl e \<Rightarrow> Inl (TPTypeMismatch e)
         | Inr hypothetical \<Rightarrow>
             (case ceilings_validate c hypothetical of
                Inl v \<Rightarrow> Inl (TPCeilingViolation v)
              | Inr _ \<Rightarrow>
                  (case consensus_params_validate hypothetical of
                     Inl m \<Rightarrow> Inl (ParamBounds m)
                   | Inr _ \<Rightarrow> Inr hypothetical))))"

section \<open>Lemmas\<close>

text \<open>The bound the ceilings express, as one predicate.\<close>

definition within_ceilings :: "constitutional_ceilings \<Rightarrow> consensus_params \<Rightarrow> bool" where
  "within_ceilings c p \<longleftrightarrow>
     max_proof_depth p \<le> max_proof_depth_ceiling c \<and>
     default_tx_gas_limit p \<le> max_tx_gas_ceiling c \<and>
     default_block_gas_limit p \<le> max_block_gas_ceiling c \<and>
     default_max_steps p \<le> max_contract_steps_ceiling c \<and>
     max_symbol_address_len p \<le> max_address_length_ceiling c \<and>
     max_state_entry_size p \<le> max_state_entry_size_ceiling c \<and>
     max_tension_swing p \<le> max_tension_swing_ceiling c \<and>
     max_block_bytes p \<le> max_block_bytes_ceiling c \<and>
     max_active_proposals p \<le> max_active_proposals_ceiling c \<and>
     view_change_base_timeout_ms p \<le> max_view_change_base_timeout_ms c \<and>
     view_change_max_timeout_ms p \<le> max_view_change_max_timeout_ms c \<and>
     max_validator_set_size p \<le> max_validator_set_size_ceiling c \<and>
     max_validator_set_changes_per_block_param p \<le> max_validator_set_changes_per_block c \<and>
     fee_tension_alpha p \<le> max_fee_tension_alpha_ceiling c \<and>
     median_tension_window p \<le> max_median_tension_window_ceiling c \<and>
     confirmation_depth p \<le> max_confirmation_depth_ceiling c \<and>
     max_equivocation_evidence_per_block_param p \<le> max_equivocation_evidence_per_block c \<and>
     max_forgery_vetoes_per_block_param p \<le> max_forgery_vetoes_per_block_ceiling c"

lemma ceilings_validate_iff: "ceilings_validate c p = Inr () \<longleftrightarrow> within_ceilings c p"
  unfolding ceilings_validate_def within_ceilings_def not_le [symmetric]
  by (simp split: if_split)

lemma ceilings_validate_cases: "is_ok (ceilings_validate c p) \<longleftrightarrow> within_ceilings c p"
  using ceilings_validate_iff by (metis (full_types) is_ok_iff old.unit.exhaust)

lemmas expect_defs = expect_u32_def expect_u64_def expect_i64_def expect_i128_def

end
