(* ===== verification/Scc_Param_Updates.thy ===== *)
theory Scc_Param_Updates
  imports Scc_Params
begin

text \<open>
  Properties of the consensus parameters, the constitutional ceilings and the typed parameter
  updates of \<open>Scc_Params\<close>: a typed update touches exactly the field it names, an admitted
  proposal leaves the chain within its ceilings, and the guard that is to keep the ceilings
  themselves fixed covers only part of them.
\<close>

section \<open>Typed updates\<close>

lemma apply_typed_param_Inl:
  "apply_typed_param p f x = Inl e \<longleftrightarrow>
     type_name x \<noteq> type_name (param_value p f) \<and>
     e = TypeMismatch f (type_name (param_value p f)) (type_name x)"
  by (cases f; cases x) (auto simp: expect_defs)

lemma apply_typed_param_type:
  "apply_typed_param p f x = Inr p' \<Longrightarrow> type_name x = type_name (param_value p f)"
  by (cases f; cases x) (simp_all add: expect_defs)

lemma apply_typed_param_same:
  "apply_typed_param p f x = Inr p' \<Longrightarrow> param_value p' f = x"
  by (cases f; cases x) (auto simp: expect_defs)

lemma apply_typed_param_other:
  assumes "apply_typed_param p f x = Inr p'" "g \<noteq> f"
  shows "param_value p' g = param_value p g"
proof (cases x)
  case (VU32 v)
  with assms show ?thesis by (cases f; simp add: expect_defs; cases g) auto
next
  case (VU64 v)
  with assms show ?thesis by (cases f; simp add: expect_defs; cases g) auto
next
  case (VI64 v)
  with assms show ?thesis by (cases f; simp add: expect_defs; cases g) auto
next
  case (VI128 v)
  with assms show ?thesis by (cases f; simp add: expect_defs; cases g) auto
qed

section \<open>Admission\<close>

lemma ceilings_validate_Inr [simp]:
  "ceilings_validate c p = Inr u \<longleftrightarrow> within_ceilings c p"
  by (cases u) (simp add: ceilings_validate_iff)

lemma ceilings_validate_Inl: "ceilings_validate c p = Inl e \<Longrightarrow> \<not> within_ceilings c p"
  unfolding ceilings_validate_iff [symmetric] by simp

lemma validate_typed_param_proposal_Inr:
  "validate_typed_param_proposal cur c f x a h = Inr p \<longleftrightarrow>
     h < a \<and> a \<le> u64_saturating_add h MAX_ACTIVATION_HEIGHT_OFFSET \<and>
     apply_typed_param cur f x = Inr p \<and> within_ceilings c p \<and>
     consensus_params_validate p = Inr ()"
  unfolding validate_typed_param_proposal_def
  by (auto split: sum.splits dest: ceilings_validate_Inl)

lemma defaults_within_ceilings:
  "within_ceilings constitutional_ceilings_default consensus_params_default"
  by (simp add: within_ceilings_def constitutional_ceilings_default_def
      consensus_params_default_def SCALE_def)

lemma defaults_valid: "consensus_params_validate consensus_params_default = Inr ()"
  by (simp add: consensus_params_validate_def consensus_params_default_def SCALE_def)

text \<open>
  A typed parameter update succeeds exactly when the carried value
  has the type of the field; it then sets that field to the value and leaves each of the other
  thirty fields as it was. Otherwise the error names the field, its type and the type given.
\<close>

theorem typed_update_exact:
  "case apply_typed_param p f x of
     Inr p' \<Rightarrow> type_name x = type_name (param_value p f) \<and> param_value p' f = x \<and>
               (\<forall>g. g \<noteq> f \<longrightarrow> param_value p' g = param_value p g)
   | Inl e \<Rightarrow> type_name x \<noteq> type_name (param_value p f) \<and>
              e = TypeMismatch f (type_name (param_value p f)) (type_name x)"
  by (auto split: sum.split dest: apply_typed_param_type apply_typed_param_same
      apply_typed_param_other simp: apply_typed_param_Inl)

theorem typed_update_exact_witness:
  "\<exists>p'. apply_typed_param consensus_params_default MaxProofDepth (VU32 7) = Inr p' \<and>
        max_proof_depth p' = 7 \<and>
        param_value p' GasTxBase = param_value consensus_params_default GasTxBase"
  using typed_update_exact [where p = consensus_params_default and f = MaxProofDepth and x = "VU32 7"]
  by (simp add: expect_defs)

text \<open>
  A typed parameter proposal passes the submission gate only if it
  activates strictly later than the current height and at most
  \<open>MAX_ACTIVATION_HEIGHT_OFFSET\<close> heights later, and the parameter set it produces is the
  typed update of the current one, lies within every constitutional ceiling and satisfies the
  parameter bounds. The update therefore takes the chain from the genesis parameters, which
  satisfy both, to parameters that satisfy both.
\<close>

theorem typed_proposal_gate:
  "(validate_typed_param_proposal cur c f x a h = Inr p \<longrightarrow>
      h < a \<and> a \<le> h + 2000 \<and> apply_typed_param cur f x = Inr p \<and> within_ceilings c p \<and>
      consensus_params_validate p = Inr ()) \<and>
   within_ceilings constitutional_ceilings_default consensus_params_default \<and>
   consensus_params_validate consensus_params_default = Inr ()"
  using defaults_within_ceilings defaults_valid
  by (auto simp: validate_typed_param_proposal_Inr u64_saturating_add_def
      MAX_ACTIVATION_HEIGHT_OFFSET_def TIMELOCK_CONSTITUTIONAL_def)

theorem typed_proposal_gate_witness:
  "(validate_typed_param_proposal consensus_params_default constitutional_ceilings_default
      MaxProofDepth (VU32 300) 150 100 = Inr (consensus_params_default\<lparr>max_proof_depth := 300\<rparr>)) \<and>
   within_ceilings constitutional_ceilings_default
     (consensus_params_default\<lparr>max_proof_depth := 300\<rparr>)"
proof -
  have ok: "validate_typed_param_proposal consensus_params_default constitutional_ceilings_default
      MaxProofDepth (VU32 300) 150 100 = Inr (consensus_params_default\<lparr>max_proof_depth := 300\<rparr>)"
    by (simp add: validate_typed_param_proposal_Inr expect_defs u64_saturating_add_def U64_MAX_def
        MAX_ACTIVATION_HEIGHT_OFFSET_def TIMELOCK_CONSTITUTIONAL_def within_ceilings_def
        constitutional_ceilings_default_def consensus_params_validate_def
        consensus_params_default_def SCALE_def)
  with typed_proposal_gate show ?thesis by blast
qed

text \<open>
  The guard documented to reject any modification of the constitutional
  ceilings fixes the first thirteen fields; it accepts a proposal that changes any of the other
  six. In particular the fee floor can be lowered to zero and the fee-tension and forgery-veto
  ceilings raised without being rejected.
\<close>

theorem ceilings_guard_incomplete:
  "validate_ceilings_immutable c
     (c\<lparr>max_fee_tension_alpha_ceiling := a, max_median_tension_window_ceiling := b,
        max_confirmation_depth_ceiling := d, max_equivocation_evidence_per_block := e,
        min_effective_fee_floor := g, max_forgery_vetoes_per_block_ceiling := h\<rparr>) = Inr ()"
  by (simp add: validate_ceilings_immutable_def)

end
