(* ===== verification/Scc_Balances.thy ===== *)
theory Scc_Balances
  imports Scc_Tension
begin

text \<open>
  The native balance ledger (\<open>crates/sccgub-state/src/balances.rs\<close>): balances by agent, with
  credit, debit, transfer and the aggregate reads. The theory also states the contract that
  the rest of the chain relies on as the locale \<open>value_ledger\<close> (debit and credit move exactly
  the amount asked for and nothing else, as long as the total fits an \<open>i128\<close>) and discharges
  it for this ledger.
\<close>

section \<open>The ledger\<close>

record balance_ledger =
  balances :: "(agent_id, tension_value) hashmap"

datatype ledger_error =
    InsufficientBalance (le_have: tension_value) (le_need: tension_value)
  | TransferAmountNotPositive
  | CannotTransferToSelf

definition ledger_new :: balance_ledger where
  "ledger_new = \<lparr>balances = []\<rparr>"

definition balance_of :: "balance_ledger \<Rightarrow> agent_id \<Rightarrow> tension_value" where
  "balance_of l agent = (case map_of (balances l) agent of None \<Rightarrow> 0 | Some v \<Rightarrow> v)"

definition credit :: "balance_ledger \<Rightarrow> agent_id \<Rightarrow> tension_value \<Rightarrow> balance_ledger" where
  "credit l agent amount =
     l\<lparr>balances := AList.update agent (tension_add (balance_of l agent) amount) (balances l)\<rparr>"

definition debit ::
  "balance_ledger \<Rightarrow> agent_id \<Rightarrow> tension_value \<Rightarrow> ledger_error + balance_ledger" where
  "debit l agent amount =
     (let current = balance_of l agent
      in if current < amount then Inl (InsufficientBalance current amount)
         else Inr (l\<lparr>balances :=
                AList.update agent (tension_sub current amount) (balances l)\<rparr>))"

definition transfer ::
  "balance_ledger \<Rightarrow> agent_id \<Rightarrow> agent_id \<Rightarrow> tension_value \<Rightarrow> ledger_error + balance_ledger" where
  "transfer l src dst amount =
     (if amount \<le> 0 then Inl TransferAmountNotPositive
      else if src = dst then Inl CannotTransferToSelf
      else bind_result (debit l src amount) (\<lambda>l'. Inr (credit l' dst amount)))"

definition total_supply :: "balance_ledger \<Rightarrow> tension_value" where
  "total_supply l = fold (\<lambda>v acc. tension_add acc v) (map snd (balances l)) 0"

definition account_count :: "balance_ledger \<Rightarrow> nat" where
  "account_count l = length (filter (\<lambda>v. v > 0) (map snd (balances l)))"

definition import_balance :: "balance_ledger \<Rightarrow> agent_id \<Rightarrow> tension_value \<Rightarrow> balance_ledger" where
  "import_balance l agent amount = l\<lparr>balances := AList.update agent amount (balances l)\<rparr>"

text \<open>
  The root over all balances: the entries sorted by agent, each as its 32 id bytes and the
  16 little-endian bytes of the balance. BLAKE3 is a parameter.
\<close>

definition balance_entry_bytes :: "agent_id \<times> tension_value \<Rightarrow> bytes" where
  "balance_entry_bytes e = hash_bytes (fst e) @ i128_to_le_bytes (snd e)"

definition balance_root :: "(bytes \<Rightarrow> hash) \<Rightarrow> balance_ledger \<Rightarrow> hash" where
  "balance_root blake3_hash l =
     (let entries = sort_key fst (balances l)
      in if entries = [] then ZERO_HASH
         else blake3_hash (concat (map balance_entry_bytes entries)))"

section \<open>Invariant and exact supply\<close>

definition ledger_sum :: "balance_ledger \<Rightarrow> int" where
  "ledger_sum l = sum_list (map snd (balances l))"

definition ledger_wf :: "balance_ledger \<Rightarrow> bool" where
  "ledger_wf l \<longleftrightarrow>
     keys_distinct (balances l) \<and> (\<forall>v \<in> snd ` set (balances l). 0 \<le> v \<and> v \<le> I128_MAX)"

text \<open>A ledger whose exact supply fits an \<open>i128\<close>.\<close>

definition ledger_ok :: "balance_ledger \<Rightarrow> bool" where
  "ledger_ok l \<longleftrightarrow> ledger_wf l \<and> ledger_sum l \<le> I128_MAX"

lemma ledger_new_ok [simp]: "ledger_wf ledger_new" "ledger_ok ledger_new" "ledger_sum ledger_new = 0"
  by (simp_all add: ledger_wf_def ledger_ok_def ledger_new_def ledger_sum_def)

lemma balance_of_update [simp]:
  "balance_of (l\<lparr>balances := AList.update a v (balances l)\<rparr>) b = (if b = a then v else balance_of l b)"
  by (simp add: balance_of_def)

lemma balance_of_range:
  assumes "ledger_wf l"
  shows "0 \<le> balance_of l a" "balance_of l a \<le> I128_MAX"
  using assms
  by (auto simp: balance_of_def ledger_wf_def split: option.splits dest!: map_of_SomeD)

lemma ledger_sum_update:
  assumes "ledger_wf l"
  shows "ledger_sum (l\<lparr>balances := AList.update a v (balances l)\<rparr>) = ledger_sum l - balance_of l a + v"
  using assms sum_list_snd_update [of "balances l" id a v]
  by (simp add: ledger_sum_def ledger_wf_def balance_of_def cong: option.case_cong)

lemma ledger_wf_update:
  assumes "ledger_wf l" "0 \<le> v" "v \<le> I128_MAX"
  shows "ledger_wf (l\<lparr>balances := AList.update a v (balances l)\<rparr>)"
proof -
  have "\<forall>x \<in> snd ` set (AList.update a v (balances l)). 0 \<le> x \<and> x \<le> I128_MAX"
    using assms by (intro ball_snd_update) (simp_all add: ledger_wf_def)
  with assms(1) show ?thesis by (simp add: ledger_wf_def)
qed

lemma balance_le_sum:
  assumes "ledger_wf l"
  shows "balance_of l a \<le> ledger_sum l"
proof (cases "map_of (balances l) a")
  case None
  then show ?thesis using assms
    by (auto simp: balance_of_def ledger_sum_def ledger_wf_def intro!: sum_list_nonneg)
next
  case (Some v)
  then have "v \<in> set (map snd (balances l))" by (auto dest!: map_of_SomeD intro: rev_image_eqI)
  moreover have "\<forall>w \<in> set (map snd (balances l)). 0 \<le> w"
    using assms by (auto simp: ledger_wf_def)
  ultimately have "v \<le> sum_list (map snd (balances l))" by (rule member_le_sum_list_int)
  with Some show ?thesis by (simp add: balance_of_def ledger_sum_def)
qed

lemma debit_Inr_iff:
  "debit l a x = Inr l' \<longleftrightarrow> x \<le> balance_of l a \<and>
     l' = l\<lparr>balances := AList.update a (tension_sub (balance_of l a) x) (balances l)\<rparr>"
  by (auto simp: debit_def Let_def)

lemma debit_Inl_iff:
  "debit l a x = Inl e \<longleftrightarrow> balance_of l a < x \<and> e = InsufficientBalance (balance_of l a) x"
  by (auto simp: debit_def Let_def)

section \<open>The contract of a value ledger\<close>

text \<open>
  What the escrow registry and the block economics rely on: within the \<open>ok\<close> states, a debit
  succeeds exactly when the balance covers the amount, and debits and credits move exactly
  that amount. \<open>total\<close> is the exact (unbounded) supply.
\<close>

locale value_ledger =
  fixes bal :: "'l \<Rightarrow> 'a \<Rightarrow> int"
    and cr :: "'l \<Rightarrow> 'a \<Rightarrow> int \<Rightarrow> 'l"
    and db :: "'l \<Rightarrow> 'a \<Rightarrow> int \<Rightarrow> 'e + 'l"
    and total :: "'l \<Rightarrow> int"
    and ok :: "'l \<Rightarrow> bool"
    and cap :: int
  assumes bal_nonneg: "ok l \<Longrightarrow> 0 \<le> bal l a"
    and bal_le_total: "ok l \<Longrightarrow> bal l a \<le> total l"
    and total_le_cap: "ok l \<Longrightarrow> total l \<le> cap"
    and db_succeeds: "is_ok (db l a x) \<longleftrightarrow> x \<le> bal l a"
    and db_ok: "ok l \<Longrightarrow> 0 \<le> x \<Longrightarrow> db l a x = Inr l' \<Longrightarrow> ok l'"
    and db_total: "ok l \<Longrightarrow> 0 \<le> x \<Longrightarrow> db l a x = Inr l' \<Longrightarrow> total l' = total l - x"
    and db_bal: "ok l \<Longrightarrow> 0 \<le> x \<Longrightarrow> db l a x = Inr l' \<Longrightarrow>
      bal l' b = (if b = a then bal l a - x else bal l b)"
    and cr_ok: "ok l \<Longrightarrow> 0 \<le> x \<Longrightarrow> total l + x \<le> cap \<Longrightarrow> ok (cr l a x)"
    and cr_total: "ok l \<Longrightarrow> 0 \<le> x \<Longrightarrow> total l + x \<le> cap \<Longrightarrow> total (cr l a x) = total l + x"
    and cr_bal: "ok l \<Longrightarrow> 0 \<le> x \<Longrightarrow> total l + x \<le> cap \<Longrightarrow>
      bal (cr l a x) b = (if b = a then bal l a + x else bal l b)"
begin

lemma total_nonneg: "ok l \<Longrightarrow> 0 \<le> total l"
  using bal_nonneg bal_le_total by (meson order_trans)

lemma db_then_cr_fits:
  assumes "ok l" "0 \<le> x" "db l a x = Inr l'"
  shows "total l' + x \<le> cap"
  using assms db_total total_le_cap by fastforce

text \<open>A debit followed by a credit of the same amount is a transfer.\<close>

lemma db_cr_total:
  assumes "ok l" "0 \<le> x" "db l a x = Inr l'"
  shows "ok (cr l' b x)" "total (cr l' b x) = total l"
proof -
  note ok' = db_ok [OF assms] and fits = db_then_cr_fits [OF assms]
  show "ok (cr l' b x)" using ok' assms(2) fits by (rule cr_ok)
  show "total (cr l' b x) = total l"
    using cr_total [OF ok' assms(2) fits] db_total [OF assms] by simp
qed

lemma db_cr_bal:
  assumes "ok l" "0 \<le> x" "db l a x = Inr l'" "a \<noteq> b"
  shows "bal (cr l' b x) c =
    (if c = a then bal l a - x else if c = b then bal l b + x else bal l c)"
  using assms db_ok db_then_cr_fits cr_bal db_bal by simp

text \<open>Amounts taken out earlier always fit back in.\<close>

lemma cr_after_hold:
  assumes "ok l" "0 \<le> x" "x \<le> held" "total l + held \<le> cap"
  shows "ok (cr l a x)" "total (cr l a x) + (held - x) = total l + held"
  using assms cr_ok cr_total by simp_all

end

lemma credit_exact:
  assumes "ledger_ok l" "0 \<le> x" "ledger_sum l + x \<le> I128_MAX"
  shows "credit l a x =
    l\<lparr>balances := AList.update a (balance_of l a + x) (balances l)\<rparr>"
    and "0 \<le> balance_of l a + x" "balance_of l a + x \<le> I128_MAX"
proof -
  have "0 \<le> balance_of l a" "balance_of l a \<le> ledger_sum l"
    using assms(1) by (simp_all add: ledger_ok_def balance_of_range balance_le_sum)
  with assms(2,3) show "0 \<le> balance_of l a + x" "balance_of l a + x \<le> I128_MAX" by simp_all
  with assms(2) \<open>0 \<le> balance_of l a\<close>
  show "credit l a x = l\<lparr>balances := AList.update a (balance_of l a + x) (balances l)\<rparr>"
    by (simp add: credit_def tension_add_exact)
qed

lemma debit_exact:
  assumes "ledger_ok l" "0 \<le> x" "debit l a x = Inr l'"
  shows "l' = l\<lparr>balances := AList.update a (balance_of l a - x) (balances l)\<rparr>"
    and "0 \<le> balance_of l a - x" "balance_of l a - x \<le> I128_MAX"
  using assms balance_of_range [of l a]
  by (simp_all add: debit_Inr_iff ledger_ok_def tension_sub_exact)

interpretation native: value_ledger balance_of credit debit ledger_sum ledger_ok I128_MAX
proof unfold_locales
  fix l a b x l'
  show "ledger_ok l \<Longrightarrow> 0 \<le> balance_of l a" by (simp add: ledger_ok_def balance_of_range)
  show "ledger_ok l \<Longrightarrow> balance_of l a \<le> ledger_sum l" by (simp add: ledger_ok_def balance_le_sum)
  show "ledger_ok l \<Longrightarrow> ledger_sum l \<le> I128_MAX" by (simp add: ledger_ok_def)
  show "is_ok (debit l a x) \<longleftrightarrow> x \<le> balance_of l a" by (simp add: debit_def Let_def)
  { assume d: "ledger_ok l" "0 \<le> x" "debit l a x = Inr l'"
    note e = debit_exact [OF d]
    from d(1) have w: "ledger_wf l" by (simp add: ledger_ok_def)
    show s: "ledger_sum l' = ledger_sum l - x" by (simp add: e(1) ledger_sum_update [OF w])
    show "ledger_ok l'"
      using ledger_wf_update [OF w e(2,3)] s d(1,2) by (simp add: ledger_ok_def e(1))
    show "balance_of l' b = (if b = a then balance_of l a - x else balance_of l b)"
      by (simp add: e(1)) }
  { assume c: "ledger_ok l" "0 \<le> x" "ledger_sum l + x \<le> I128_MAX"
    note e = credit_exact [OF c, of a]
    from c(1) have w: "ledger_wf l" by (simp add: ledger_ok_def)
    show s: "ledger_sum (credit l a x) = ledger_sum l + x"
      by (simp add: e(1) ledger_sum_update [OF w])
    show "ledger_ok (credit l a x)"
      using ledger_wf_update [OF w e(2,3)] s c(3) by (simp add: ledger_ok_def e(1))
    show "balance_of (credit l a x) b = (if b = a then balance_of l a + x else balance_of l b)"
      by (simp add: e(1)) }
qed

section \<open>Transfers\<close>

lemma transfer_Inr_iff:
  "transfer l src dst x = Inr l' \<longleftrightarrow>
     0 < x \<and> src \<noteq> dst \<and> (\<exists>m. debit l src x = Inr m \<and> l' = credit m dst x)"
  by (auto simp: transfer_def bind_result_Inr)

lemma is_ok_transfer: "is_ok (transfer l src dst x) \<longleftrightarrow> 0 < x \<and> src \<noteq> dst \<and> x \<le> balance_of l src"
  by (auto simp: is_ok_iff transfer_Inr_iff debit_Inr_iff)

lemma total_supply_capped:
  assumes "ledger_wf l"
  shows "total_supply l = min (ledger_sum l) I128_MAX"
  using assms fold_saturating_add_nonneg [of 0 "map snd (balances l)"]
  by (simp add: total_supply_def ledger_wf_def ledger_sum_def tension_add_def)

lemma total_supply_exact: "ledger_ok l \<Longrightarrow> total_supply l = ledger_sum l"
  by (simp add: total_supply_capped ledger_ok_def)

section \<open>The balance root\<close>

lemma length_balance_entry_bytes [simp]: "length (balance_entry_bytes e) = 48"
  by (simp add: balance_entry_bytes_def)

lemma balance_entry_bytes_not_Nil [simp]: "balance_entry_bytes e \<noteq> []"
  using length_balance_entry_bytes [of e] by (metis list.size(3) zero_neq_numeral)

lemma balance_entry_bytes_inject:
  assumes "is_i128 (snd e)" "is_i128 (snd e')"
  shows "balance_entry_bytes e = balance_entry_bytes e' \<longleftrightarrow> e = e'"
proof
  assume "balance_entry_bytes e = balance_entry_bytes e'"
  then have "hash_bytes (fst e) = hash_bytes (fst e')"
    and "i128_to_le_bytes (snd e) = i128_to_le_bytes (snd e')"
    by (simp_all add: balance_entry_bytes_def)
  then show "e = e'"
    using assms i128_le_bytes_roundtrip by (metis hash_bytes_inject prod.expand)
qed simp

lemma concat_entries_inject:
  assumes "\<forall>e \<in> set es. is_i128 (snd e)" "\<forall>e \<in> set es'. is_i128 (snd e)"
    and "concat (map balance_entry_bytes es) = concat (map balance_entry_bytes es')"
  shows "es = es'"
  using assms
proof (induction es arbitrary: es')
  case Nil
  then show ?case by (cases es') simp_all
next
  case (Cons e es)
  from Cons.prems(3) obtain e' fs where es': "es' = e' # fs" by (cases es') auto
  with Cons.prems(3) have "balance_entry_bytes e @ concat (map balance_entry_bytes es) =
      balance_entry_bytes e' @ concat (map balance_entry_bytes fs)" by simp
  then have "balance_entry_bytes e = balance_entry_bytes e'"
    and "concat (map balance_entry_bytes es) = concat (map balance_entry_bytes fs)"
    by (simp_all add: append_eq_append_conv)
  moreover have "is_i128 (snd e)" "is_i128 (snd e')" "\<forall>e \<in> set fs. is_i128 (snd e)"
    using Cons.prems(1,2) es' by simp_all
  ultimately show ?case
    using Cons.IH [of fs] Cons.prems(1) es' by (simp add: balance_entry_bytes_inject)
qed

lemma sort_key_balances_cong:
  assumes "ledger_wf l" "mset (balances l) = mset (balances l')"
  shows "sort_key fst (balances l) = sort_key fst (balances l')"
proof (rule sort_key_inj_key_eq)
  show "mset (balances l) = mset (sort_key fst (balances l'))" using assms(2) by simp
  show "inj_on fst (set (balances l))" using assms(1) by (simp add: ledger_wf_def distinct_map)
qed simp

section \<open>Properties\<close>

text \<open>
  A transfer conserves value: on a ledger whose supply fits an \<open>i128\<close>, a successful
  transfer moves exactly the amount from the source to the destination, leaves every other
  account and the reported total supply unchanged, and keeps the ledger invariant.
\<close>

theorem transfer_conserves:
  assumes "ledger_ok l" "transfer l src dst x = Inr l'"
  shows "ledger_ok l' \<and> total_supply l' = total_supply l \<and>
    (\<forall>c. balance_of l' c =
       (if c = src then balance_of l src - x
        else if c = dst then balance_of l dst + x else balance_of l c))"
proof -
  from assms(2) obtain m where m: "debit l src x = Inr m" "l' = credit m dst x" "0 < x" "src \<noteq> dst"
    by (auto simp: transfer_Inr_iff)
  from m(3) have "0 \<le> x" by simp
  note t = native.db_cr_total [OF assms(1) this m(1), of dst]
    and b = native.db_cr_bal [OF assms(1) this m(1,4)]
  from t assms(1) show ?thesis by (auto simp: m(2) b total_supply_exact)
qed

theorem transfer_conserves_witness:
  "total_supply \<lparr>balances = [(3, 70), (2, 30)]\<rparr> = total_supply \<lparr>balances = [(3, 100)]\<rparr>"
proof -
  have ok: "ledger_ok \<lparr>balances = [(3, 100)]\<rparr>"
    by (simp add: ledger_ok_def ledger_wf_def ledger_sum_def machine_int)
  have tr: "transfer \<lparr>balances = [(3, 100)]\<rparr> 3 2 30 = Inr \<lparr>balances = [(3, 70), (2, 30)]\<rparr>"
    by (simp add: transfer_def debit_def credit_def balance_of_def tension_ops i128_ops machine_int)
  show ?thesis using transfer_conserves [OF ok tr] by blast
qed

text \<open>
  A transfer is refused for exactly three reasons, checked in this order: a non-positive
  amount, equal source and destination, a source balance below the amount; otherwise it
  succeeds.
\<close>

theorem transfer_outcome:
  "transfer l src dst x =
     (if x \<le> 0 then Inl TransferAmountNotPositive
      else if src = dst then Inl CannotTransferToSelf
      else if balance_of l src < x then Inl (InsufficientBalance (balance_of l src) x)
      else Inr (credit (l\<lparr>balances :=
             AList.update src (tension_sub (balance_of l src) x) (balances l)\<rparr>) dst x))"
  by (simp add: transfer_def debit_def Let_def)

text \<open>
  The aggregate reads do not depend on the iteration order of the hash map: two ledgers
  holding the same entries in any order report the same total supply, which is the exact sum
  capped at \<open>i128::MAX\<close>, and have the same balance root for every hash function.
\<close>

theorem ledger_order_independent:
  assumes "ledger_wf l" "mset (balances l) = mset (balances l')"
  shows "total_supply l' = total_supply l \<and> total_supply l = min (ledger_sum l) I128_MAX \<and>
    balance_root blake3_hash l' = balance_root blake3_hash l"
proof -
  have "mset (map fst (balances l)) = mset (map fst (balances l'))"
    and sn: "mset (map snd (balances l)) = mset (map snd (balances l'))"
    and st: "set (balances l) = set (balances l')"
    using assms(2) by (auto dest: mset_eq_setD)
  then have "ledger_wf l'"
    using assms(1) unfolding ledger_wf_def by (metis mset_eq_imp_distinct_iff)
  moreover from sn have "ledger_sum l' = ledger_sum l"
    unfolding ledger_sum_def by (metis sum_mset_sum_list)
  ultimately show ?thesis
    using assms(1) sort_key_balances_cong [OF assms]
    by (simp add: total_supply_capped balance_root_def)
qed

theorem ledger_order_independent_witness:
  "total_supply \<lparr>balances = [(2, 30), (3, 70)]\<rparr> = total_supply \<lparr>balances = [(3, 70), (2, 30)]\<rparr>"
proof -
  have "ledger_wf \<lparr>balances = [(3, 70), (2, 30)]\<rparr>" by (simp add: ledger_wf_def machine_int)
  then show ?thesis
    using ledger_order_independent [of "\<lparr>balances = [(3, 70), (2, 30)]\<rparr>" "\<lparr>balances = [(2, 30), (3, 70)]\<rparr>"]
    by simp
qed

text \<open>
  The balance root commits to the balances: two well-formed ledgers with the same root
  hold the same entries, unless the hash function collides on their two encodings or maps one
  of them to the all-zero hash that stands for the empty ledger.
\<close>

theorem balance_root_binding:
  assumes "ledger_wf l" "ledger_wf l'" "balance_root blake3_hash l = balance_root blake3_hash l'"
    and "inj_on blake3_hash {concat (map balance_entry_bytes (sort_key fst (balances l))),
           concat (map balance_entry_bytes (sort_key fst (balances l')))}"
    and "\<forall>m \<in> {l, l'}. blake3_hash (concat (map balance_entry_bytes (sort_key fst (balances m)))) \<noteq> ZERO_HASH"
  shows "mset (balances l) = mset (balances l')"
proof -
  let ?enc = "\<lambda>l. concat (map balance_entry_bytes (sort_key fst (balances l)))"
  have rng: "\<forall>e \<in> set (sort_key fst (balances m)). is_i128 (snd e)" if "ledger_wf m" for m
    using that by (auto simp: ledger_wf_def is_i128_nonneg)
  have nil: "sort_key fst (balances m) = [] \<longleftrightarrow> balances m = []" for m
    by (metis length_0_conv length_sort)
  have "?enc l = ?enc l'"
  proof (cases "balances l = [] \<or> balances l' = []")
    case True
    with assms(3,5) have "balances l = []" "balances l' = []"
      by (auto simp: balance_root_def Let_def nil split: if_splits)
    then show ?thesis by simp
  next
    case False
    with assms(3) have "blake3_hash (?enc l) = blake3_hash (?enc l')"
      by (simp add: balance_root_def Let_def nil)
    with assms(4) show ?thesis by (rule inj_onD) simp_all
  qed
  then have "sort_key fst (balances l) = sort_key fst (balances l')"
    using assms(1,2) rng by (intro concat_entries_inject) blast+
  then show ?thesis by (metis mset_sort)
qed

theorem balance_root_binding_witness:
  "mset (balances \<lparr>balances = [(2, 30), (3, 70)]\<rparr>) = mset (balances \<lparr>balances = [(3, 70), (2, 30)]\<rparr>)"
proof (rule balance_root_binding [where blake3_hash = "\<lambda>b. of_nat (Suc (length b))"])
  show "ledger_wf \<lparr>balances = [(2, 30), (3, 70)]\<rparr>" "ledger_wf \<lparr>balances = [(3, 70), (2, 30)]\<rparr>"
    by (simp_all add: ledger_wf_def machine_int)
qed (simp_all add: balance_root_def)

end
