(* ===== verification/Scc_Merkle.thy ===== *)
theory Scc_Merkle
  imports Scc_Prelude
begin

text \<open>
  Hash concatenation and Merkle trees (\<open>crates/sccgub-crypto/src/hash.rs\<close> and
  \<open>merkle.rs\<close>). BLAKE3 is the parameter \<open>B\<close>; an incremental hasher fed part by part hashes
  the concatenation of the parts. The lemmas show that a generated inclusion proof always
  verifies, and that a verifying proof pins the leaf unless the hash collides on two of the
  byte strings the verification hashes.
\<close>

section \<open>Hashing with length prefixes\<close>

definition length_prefixed :: "bytes \<Rightarrow> bytes" where
  "length_prefixed p = u64_to_le_bytes (length p) @ p"

definition blake3_hash_concat :: "(bytes \<Rightarrow> hash) \<Rightarrow> bytes list \<Rightarrow> hash" where
  "blake3_hash_concat B parts = B (concat (map length_prefixed parts))"

definition leaf_input :: "hash \<Rightarrow> bytes" where
  "leaf_input d = concat (map length_prefixed [[CHR 0x00], hash_bytes d])"

definition internal_input :: "hash \<Rightarrow> hash \<Rightarrow> bytes" where
  "internal_input l r = concat (map length_prefixed [[CHR 0x01], hash_bytes l, hash_bytes r])"

definition hash_leaf :: "(bytes \<Rightarrow> hash) \<Rightarrow> hash \<Rightarrow> hash" where
  "hash_leaf B d = blake3_hash_concat B [[CHR 0x00], hash_bytes d]"

definition hash_internal :: "(bytes \<Rightarrow> hash) \<Rightarrow> hash \<Rightarrow> hash \<Rightarrow> hash" where
  "hash_internal B l r = blake3_hash_concat B [[CHR 0x01], hash_bytes l, hash_bytes r]"

section \<open>Roots\<close>

text \<open>One pass of the inner loop: pairs are hashed, an odd last node is promoted.\<close>

fun next_level :: "(bytes \<Rightarrow> hash) \<Rightarrow> hash list \<Rightarrow> hash list" where
  "next_level B [] = []"
| "next_level B [x] = [x]"
| "next_level B (x # y # rest) = hash_internal B x y # next_level B rest"

lemma length_next_level: "length (next_level B xs) = (length xs + 1) div 2"
  by (induction B xs rule: next_level.induct) auto

function reduce_levels :: "(bytes \<Rightarrow> hash) \<Rightarrow> hash list \<Rightarrow> hash list" where
  "reduce_levels B level = (if length level > 1 then reduce_levels B (next_level B level) else level)"
  by pat_completeness auto
termination
  by (relation "measure (\<lambda>(B, level). length level)") (auto simp: length_next_level)

declare reduce_levels.simps [simp del]

definition compute_merkle_root :: "(bytes \<Rightarrow> hash) \<Rightarrow> hash list \<Rightarrow> hash" where
  "compute_merkle_root B leaves =
     (case leaves of
        [] \<Rightarrow> ZERO_HASH
      | [x] \<Rightarrow> hash_leaf B x
      | _ \<Rightarrow> (case reduce_levels B (map (hash_leaf B) leaves) of [] \<Rightarrow> ZERO_HASH | r # _ \<Rightarrow> r))"

definition merkle_root_of_bytes :: "(bytes \<Rightarrow> hash) \<Rightarrow> bytes list \<Rightarrow> hash" where
  "merkle_root_of_bytes B items =
     compute_merkle_root B
       (map (\<lambda>it. blake3_hash_concat B [u64_to_le_bytes (length it), it]) items)"

section \<open>Inclusion proofs\<close>

record merkle_proof =
  siblings :: "(hash \<times> bool) list"

function proof_loop ::
  "(bytes \<Rightarrow> hash) \<Rightarrow> hash list \<Rightarrow> nat \<Rightarrow> (hash \<times> bool) list \<Rightarrow> (hash \<times> bool) list" where
  "proof_loop B level i acc =
     (if length level > 1 then
        (let sibling_index = (if i mod 2 = 0 then i + 1 else i - 1);
             acc' = (if sibling_index < length level
                     then acc @ [(level ! sibling_index, i mod 2 = 0)] else acc)
         in proof_loop B (next_level B level) (i div 2) acc')
      else acc)"
  by pat_completeness auto
termination
  by (relation "measure (\<lambda>(B, level, i, acc). length level)") (auto simp: length_next_level)

declare proof_loop.simps [simp del]

definition generate_proof :: "(bytes \<Rightarrow> hash) \<Rightarrow> hash list \<Rightarrow> nat \<Rightarrow> merkle_proof option" where
  "generate_proof B leaves i =
     (if i \<ge> length leaves \<or> leaves = [] then None
      else Some \<lparr>siblings = proof_loop B (map (hash_leaf B) leaves) i []\<rparr>)"

definition proof_step :: "(bytes \<Rightarrow> hash) \<Rightarrow> hash \<times> bool \<Rightarrow> hash \<Rightarrow> hash" where
  "proof_step B s current =
     (if snd s then hash_internal B current (fst s) else hash_internal B (fst s) current)"

definition verify_proof :: "(bytes \<Rightarrow> hash) \<Rightarrow> hash \<Rightarrow> hash \<Rightarrow> merkle_proof \<Rightarrow> bool" where
  "verify_proof B root leaf p = (fold (proof_step B) (siblings p) (hash_leaf B leaf) = root)"

record compact_multi_proof =
  mp_indices :: "nat list"
  mp_siblings :: "hash list"
  tree_size :: nat

fun push_new :: "hash list \<Rightarrow> hash list \<Rightarrow> hash list" where
  "push_new all [] = all"
| "push_new all (s # ss) = push_new (if s \<in> set all then all else all @ [s]) ss"

fun multi_proof_loop ::
  "(bytes \<Rightarrow> hash) \<Rightarrow> hash list \<Rightarrow> nat list \<Rightarrow> hash list \<Rightarrow> hash list option" where
  "multi_proof_loop B leaves [] all = Some all"
| "multi_proof_loop B leaves (i # is) all =
     (case generate_proof B leaves i of
        None \<Rightarrow> None
      | Some p \<Rightarrow> multi_proof_loop B leaves is (push_new all (map fst (siblings p))))"

definition generate_multi_proof ::
  "(bytes \<Rightarrow> hash) \<Rightarrow> hash list \<Rightarrow> nat list \<Rightarrow> compact_multi_proof option" where
  "generate_multi_proof B leaves indices =
     (if leaves = [] \<or> indices = [] then None
      else map_option (\<lambda>all. \<lparr>mp_indices = indices, mp_siblings = all, tree_size = length leaves\<rparr>)
             (multi_proof_loop B leaves indices []))"

fun verify_multi_proof ::
  "(bytes \<Rightarrow> hash) \<Rightarrow> hash \<Rightarrow> (hash \<times> nat) list \<Rightarrow> hash list \<Rightarrow> bool" where
  "verify_multi_proof B root [] all = True"
| "verify_multi_proof B root ((leaf, i) # rest) all =
     (case generate_proof B all i of
        None \<Rightarrow> False
      | Some p \<Rightarrow> verify_proof B root leaf p \<and> verify_multi_proof B root rest all)"

section \<open>Generated proofs verify\<close>

lemma proof_step_simps [simp]:
  "proof_step B (s, True) c = hash_internal B c s" "proof_step B (s, False) c = hash_internal B s c"
  by (simp_all add: proof_step_def)

lemma next_level_nth:
  "i < length xs \<Longrightarrow> next_level B xs ! (i div 2) =
     (if i mod 2 = 0
      then (if i + 1 < length xs then hash_internal B (xs ! i) (xs ! (i + 1)) else xs ! i)
      else hash_internal B (xs ! (i - 1)) (xs ! i))"
proof (induction B xs arbitrary: i rule: next_level.induct)
  case (3 B x y rest)
  show ?case
  proof (cases "i < 2")
    case True
    then have "i = 0 \<or> i = 1" by auto
    then show ?thesis by auto
  next
    case False
    then obtain j where i: "i = j + 2" by (metis add.commute le_Suc_ex linorder_not_less)
    with 3 have "next_level B rest ! (j div 2) =
      (if j mod 2 = 0
       then (if j + 1 < length rest then hash_internal B (rest ! j) (rest ! (j + 1)) else rest ! j)
       else hash_internal B (rest ! (j - 1)) (rest ! j))" by simp
    moreover have "j mod 2 \<noteq> 0 \<Longrightarrow> 0 < j" by (cases j) auto
    ultimately show ?thesis by (auto simp: i nth_Cons')
  qed
qed simp_all

lemma reduce_levels_singleton: "xs \<noteq> [] \<Longrightarrow> length (reduce_levels B xs) = 1"
proof (induction B xs rule: reduce_levels.induct)
  case (1 B xs)
  show ?case
  proof (cases "length xs > 1")
    case True
    then have "0 < length (next_level B xs)" by (simp add: length_next_level)
    then have "next_level B xs \<noteq> []" by simp
    with 1 True show ?thesis by (subst reduce_levels.simps) simp
  next
    case False
    with 1 show ?thesis by (subst reduce_levels.simps) (cases xs; auto)
  qed
qed

lemma fold_proof_loop:
  "i < length xs \<Longrightarrow> fold (proof_step B) acc h = xs ! i \<Longrightarrow>
     [fold (proof_step B) (proof_loop B xs i acc) h] = reduce_levels B xs"
proof (induction B xs i acc rule: proof_loop.induct)
  case (1 B xs i acc)
  show ?case
  proof (cases "length xs > 1")
    case True
    let ?sib = "if i mod 2 = 0 then i + 1 else i - 1"
    let ?acc = "if ?sib < length xs then acc @ [(xs ! ?sib, i mod 2 = 0)] else acc"
    have lt: "i div 2 < length (next_level B xs)" using 1(2) by (simp add: length_next_level)
    have "fold (proof_step B) ?acc h = next_level B xs ! (i div 2)"
      using 1(2,3) by (auto simp: next_level_nth)
    with 1(1) [OF True refl refl lt] True show ?thesis
      by (simp add: proof_loop.simps [of B xs] reduce_levels.simps [of B xs] Let_def)
  next
    case False
    with 1(2) have "xs = [xs ! i]" by (cases xs) auto
    with False 1(3) show ?thesis
      by (simp add: proof_loop.simps [of B xs] reduce_levels.simps [of B xs])
  qed
qed

lemma compute_merkle_root_reduce:
  "leaves \<noteq> [] \<Longrightarrow> reduce_levels B (map (hash_leaf B) leaves) = [compute_merkle_root B leaves]"
  using reduce_levels_singleton [of "map (hash_leaf B) leaves" B]
  by (auto simp: compute_merkle_root_def reduce_levels.simps [of B "[hash_leaf B _]"] length_Suc_conv
      split: list.splits)

lemma generated_proof_verifies:
  assumes "i < length leaves"
  shows "\<exists>p. generate_proof B leaves i = Some p \<and>
    verify_proof B (compute_merkle_root B leaves) (leaves ! i) p"
proof -
  let ?p = "proof_loop B (map (hash_leaf B) leaves) i []"
  from assms have ne: "leaves \<noteq> []" by auto
  have "[fold (proof_step B) ?p (hash_leaf B (leaves ! i))] =
      reduce_levels B (map (hash_leaf B) leaves)"
    using assms by (intro fold_proof_loop) auto
  with assms ne show ?thesis
    by (simp add: generate_proof_def verify_proof_def compute_merkle_root_reduce)
qed

section \<open>Verifying proofs bind the leaf\<close>

text \<open>The byte strings that verifying a proof hashes, in order.\<close>

definition step_input :: "hash \<times> bool \<Rightarrow> hash \<Rightarrow> bytes" where
  "step_input s c = (if snd s then internal_input c (fst s) else internal_input (fst s) c)"

fun fold_inputs :: "(bytes \<Rightarrow> hash) \<Rightarrow> (hash \<times> bool) list \<Rightarrow> hash \<Rightarrow> bytes list" where
  "fold_inputs B [] c = []"
| "fold_inputs B (s # ss) c = step_input s c # fold_inputs B ss (proof_step B s c)"

definition verify_inputs :: "(bytes \<Rightarrow> hash) \<Rightarrow> hash \<Rightarrow> merkle_proof \<Rightarrow> bytes list" where
  "verify_inputs B leaf p = leaf_input leaf # fold_inputs B (siblings p) (hash_leaf B leaf)"

lemma length_prefixed_append_inject:
  "length p = length q \<Longrightarrow>
     length_prefixed p @ r = length_prefixed q @ r' \<longleftrightarrow> p = q \<and> r = r'"
  by (auto simp: length_prefixed_def)

lemma internal_input_inject [simp]:
  "internal_input a b = internal_input c d \<longleftrightarrow> a = c \<and> b = d"
  using length_prefixed_append_inject [of "hash_bytes b" "hash_bytes d" "[]" "[]"]
  by (auto simp: internal_input_def length_prefixed_append_inject)

lemma leaf_input_inject [simp]: "leaf_input a = leaf_input b \<longleftrightarrow> a = b"
  using length_prefixed_append_inject [of "hash_bytes a" "hash_bytes b" "[]" "[]"]
  by (auto simp: leaf_input_def length_prefixed_append_inject)

lemma hash_via_inputs:
  "hash_leaf B d = B (leaf_input d)" "hash_internal B l r = B (internal_input l r)"
  "proof_step B s c = B (step_input s c)"
  by (simp_all add: hash_leaf_def hash_internal_def leaf_input_def internal_input_def
      blake3_hash_concat_def proof_step_def step_input_def)

lemma step_input_inject:
  "snd s = snd s' \<Longrightarrow> step_input s c = step_input s' c' \<longleftrightarrow> s = s' \<and> c = c'"
  by (auto simp: step_input_def prod_eq_iff)

lemma fold_proof_step_inject:
  assumes "map snd ss = map snd ss'"
    and "fold (proof_step B) ss c = fold (proof_step B) ss' c'"
    and "inj_on B (set (fold_inputs B ss c) \<union> set (fold_inputs B ss' c'))"
  shows "ss = ss' \<and> c = c'"
  using assms
proof (induction ss arbitrary: ss' c c')
  case (Cons s ss)
  then obtain s' rest where ss': "ss' = s' # rest" "snd s = snd s'" "map snd ss = map snd rest" by auto
  have "inj_on B (set (fold_inputs B ss (proof_step B s c)) \<union> set (fold_inputs B rest (proof_step B s' c')))"
    using Cons.prems(3) by (rule inj_on_subset) (auto simp: ss')
  with Cons.IH [of rest] ss'(3) Cons.prems(2)
  have "ss = rest" and eq: "proof_step B s c = proof_step B s' c'" by (auto simp: ss'(1))
  have "step_input s c = step_input s' c'"
    by (rule inj_onD [OF Cons.prems(3) eq [unfolded hash_via_inputs]]) (simp_all add: ss'(1))
  with \<open>ss = rest\<close> ss' show ?case by (auto simp: step_input_inject)
qed simp

lemma verify_proof_binding:
  assumes "verify_proof B root leaf p" "verify_proof B root leaf' p'"
    and "map snd (siblings p) = map snd (siblings p')"
    and "inj_on B (set (verify_inputs B leaf p) \<union> set (verify_inputs B leaf' p'))"
  shows "leaf = leaf' \<and> siblings p = siblings p'"
proof -
  have "inj_on B (set (fold_inputs B (siblings p) (hash_leaf B leaf)) \<union>
      set (fold_inputs B (siblings p') (hash_leaf B leaf')))"
    using assms(4) by (rule inj_on_subset) (auto simp: verify_inputs_def)
  with assms(1-3) fold_proof_step_inject
  have "siblings p = siblings p'" and eq: "hash_leaf B leaf = hash_leaf B leaf'"
    by (metis verify_proof_def)+
  moreover have "leaf_input leaf = leaf_input leaf'"
    by (rule inj_onD [OF assms(4) eq [unfolded hash_via_inputs]]) (simp_all add: verify_inputs_def)
  ultimately show ?thesis by simp
qed

lemma proof_loop_directions:
  "length xs = length ys \<Longrightarrow> map snd acc = map snd acc' \<Longrightarrow>
     map snd (proof_loop B xs i acc) = map snd (proof_loop B ys i acc')"
proof (induction B xs i acc arbitrary: ys acc' rule: proof_loop.induct)
  case (1 B xs i acc)
  show ?case
  proof (cases "length xs > 1")
    case True
    let ?sib = "if i mod 2 = 0 then i + 1 else i - 1"
    let ?acc = "\<lambda>xs acc. if ?sib < length xs then acc @ [(xs ! ?sib, i mod 2 = 0)] else acc"
    have "map snd (proof_loop B (next_level B xs) (i div 2) (?acc xs acc)) =
        map snd (proof_loop B (next_level B ys) (i div 2) (?acc ys acc'))"
      using 1(2,3) by (intro 1(1) [OF True refl refl]) (simp_all add: length_next_level)
    with True 1(2) show ?thesis
      by (simp add: proof_loop.simps [of B xs] proof_loop.simps [of B ys] Let_def)
  next
    case False
    with 1(2,3) show ?thesis by (simp add: proof_loop.simps [of B xs] proof_loop.simps [of B ys])
  qed
qed

section \<open>Properties\<close>

text \<open>
  Merkle inclusion proofs are complete: for every non-empty list of leaves and every index
  within it, \<open>generate_proof\<close> returns a proof and \<open>verify_proof\<close> accepts it against the
  computed root, for any hash function and any number of leaves (odd nodes are promoted).
\<close>

theorem merkle_proof_complete:
  assumes "i < length leaves"
  shows "\<exists>p. generate_proof B leaves i = Some p \<and>
    verify_proof B (compute_merkle_root B leaves) (leaves ! i) p"
  using assms by (rule generated_proof_verifies)

theorem merkle_proof_complete_witness:
  "\<exists>p. generate_proof (\<lambda>b. of_nat (length b)) [5, 6, 7] 2 = Some p \<and>
     verify_proof (\<lambda>b. of_nat (length b)) (compute_merkle_root (\<lambda>b. of_nat (length b)) [5, 6, 7]) 7 p"
  using merkle_proof_complete [of 2 "[5, 6, 7]" "\<lambda>b. of_nat (length b)"] by simp

text \<open>
  C31. The Merkle root commits to the leaves: two lists of the same length with the same root
  are equal, unless the hash function collides on two of the byte strings hashed while
  verifying their inclusion proofs.
\<close>

theorem merkle_root_binding:
  assumes "length xs = length ys" "compute_merkle_root B xs = compute_merkle_root B ys"
    and "\<forall>i < length xs. inj_on B
      (set (verify_inputs B (xs ! i) (the (generate_proof B xs i))) \<union>
       set (verify_inputs B (ys ! i) (the (generate_proof B ys i))))"
  shows "xs = ys"
proof (rule nth_equalityI [OF assms(1)])
  fix i assume i: "i < length xs"
  then obtain p where p: "generate_proof B xs i = Some p"
    "verify_proof B (compute_merkle_root B xs) (xs ! i) p" using generated_proof_verifies by blast
  from i assms(1) obtain q where q: "generate_proof B ys i = Some q"
    "verify_proof B (compute_merkle_root B ys) (ys ! i) q" using generated_proof_verifies by metis
  have "map snd (siblings p) = map snd (siblings q)"
    using p(1) q(1) i assms(1)
    by (auto simp: generate_proof_def split: if_splits intro!: proof_loop_directions)
  with p q assms(2,3) i show "xs ! i = ys ! i"
    by (metis verify_proof_binding option.sel)
qed

lemma last_leaf_input: "last (leaf_input d) = char_of (unat d mod 256)"
proof -
  have "le_bytes 32 x = char_of (x mod 256) # le_bytes 31 (x div 256)" for x
    using le_bytes.simps(2) [of 31 x] by simp
  then show ?thesis by (simp add: leaf_input_def length_prefixed_def hash_bytes_def)
qed

theorem merkle_root_binding_witness:
  "compute_merkle_root (\<lambda>b. of_nat (of_char (last b))) [5] \<noteq> compute_merkle_root (\<lambda>b. of_nat (of_char (last b))) [6]"
proof
  let ?B = "\<lambda>b. of_nat (of_char (last b)) :: hash"
  assume "compute_merkle_root ?B [5] = compute_merkle_root ?B [6]"
  then have "[5] = ([6] :: hash list)"
    by (intro merkle_root_binding [where B = ?B])
      (simp_all add: generate_proof_def verify_inputs_def proof_loop.simps last_leaf_input)
  then show False by simp
qed

end
