(* ===== verification/Scc_Trie.thy ===== *)
theory Scc_Trie
  imports Scc_Merkle
begin

text \<open>
  The state trie (\<open>crates/sccgub-state/src/trie.rs\<close>): an ordered byte-string map with a lazily
  cached Merkle root and an optional durable store behind it. The durable store is the trait
  \<open>StateStore\<close> of \<open>store.rs\<close>, implemented over a database engine that is not part of the
  sources: a handle records the calls issued to it and answers each call by a parameter
  function of the calls before it. A clone of a trie shares the handle's store, so the calls a
  clone issues reach the same store.

  The contract clients rely on is the locale \<open>kv_trie\<close> (lookup after insert and remove); the
  theory also shows the cache is never stale, prefix scans equal a filter of all entries, and
  the durable store mirrors the map as long as no durable error is recorded.
\<close>

section \<open>The durable store handle\<close>

datatype store_call = Put bytes bytes | Delete bytes | Flush

record durable_store =
  issued :: "store_call list"
  answer :: "store_call list \<Rightarrow> store_call \<Rightarrow> string option"
  iter_all :: "store_call list \<Rightarrow> string + (bytes \<times> bytes) list"

text \<open>Issue a call: the error the store reports, if any, and the handle after it.\<close>

definition issue :: "durable_store \<Rightarrow> store_call \<Rightarrow> string option \<times> durable_store" where
  "issue d c = (answer d (issued d) c, d\<lparr>issued := issued d @ [c]\<rparr>)"

section \<open>The trie\<close>

record state_trie =
  store :: "(symbol_address, bytes) btreemap"
  cached_root :: "hash option"
  durable :: "durable_store option"
  durable_error :: "string option"

definition trie_new :: state_trie where
  "trie_new = \<lparr>store = [], cached_root = Some ZERO_HASH, durable = None, durable_error = None\<rparr>"

definition trie_with_store :: "durable_store \<Rightarrow> string + state_trie" where
  "trie_with_store d =
     bind_result (iter_all d (issued d))
       (\<lambda>entries. Inr
          \<lparr>store = fold (\<lambda>(k, v). bt_insert k v) entries [],
           cached_root = None, durable = Some d, durable_error = None\<rparr>)"

text \<open>Issue a write to the durable store, if one is bound, and record a failure.\<close>

definition write_through :: "state_trie \<Rightarrow> store_call \<Rightarrow> state_trie" where
  "write_through t c =
     (case durable t of
        None \<Rightarrow> t
      | Some d \<Rightarrow>
          (case issue d c of
             (None, d') \<Rightarrow> t\<lparr>durable := Some d'\<rparr>
           | (Some err, d') \<Rightarrow> t\<lparr>durable := Some d', durable_error := Some err\<rparr>))"

definition take_durable_error :: "state_trie \<Rightarrow> string option \<times> state_trie" where
  "take_durable_error t = (durable_error t, t\<lparr>durable_error := None\<rparr>)"

definition flush_durable :: "state_trie \<Rightarrow> (string + unit) \<times> state_trie" where
  "flush_durable t =
     (case durable t of
        None \<Rightarrow> (Inr (), t)
      | Some d \<Rightarrow>
          (case issue d Flush of
             (None, d') \<Rightarrow> (Inr (), t\<lparr>durable := Some d'\<rparr>)
           | (Some err, d') \<Rightarrow> (Inl err, t\<lparr>durable := Some d', durable_error := Some err\<rparr>)))"

definition trie_get :: "state_trie \<Rightarrow> symbol_address \<Rightarrow> bytes option" where
  "trie_get t k = map_of (store t) k"

definition trie_insert :: "state_trie \<Rightarrow> symbol_address \<Rightarrow> bytes \<Rightarrow> state_trie" where
  "trie_insert t k v =
     write_through (t\<lparr>store := bt_insert k v (store t), cached_root := None\<rparr>) (Put k v)"

definition trie_remove :: "state_trie \<Rightarrow> symbol_address \<Rightarrow> bytes option \<times> state_trie" where
  "trie_remove t k =
     (let result = map_of (store t) k; t' = t\<lparr>store := bt_remove k (store t)\<rparr>
      in case result of
           None \<Rightarrow> (None, t')
         | Some v \<Rightarrow> (Some v, write_through (t'\<lparr>cached_root := None\<rparr>) (Delete k)))"

definition trie_contains :: "state_trie \<Rightarrow> symbol_address \<Rightarrow> bool" where
  "trie_contains t k = (map_of (store t) k \<noteq> None)"

definition trie_len :: "state_trie \<Rightarrow> nat" where
  "trie_len t = length (store t)"

definition trie_is_empty :: "state_trie \<Rightarrow> bool" where
  "trie_is_empty t = (store t = [])"

definition compute_root :: "(bytes \<Rightarrow> hash) \<Rightarrow> state_trie \<Rightarrow> hash" where
  "compute_root B t =
     (if store t = [] then ZERO_HASH
      else compute_merkle_root B (map (\<lambda>(k, v). blake3_hash_concat B [k, v]) (store t)))"

definition trie_root :: "(bytes \<Rightarrow> hash) \<Rightarrow> state_trie \<Rightarrow> hash \<times> state_trie" where
  "trie_root B t =
     (case cached_root t of
        Some r \<Rightarrow> (r, t)
      | None \<Rightarrow> (let r = compute_root B t in (r, t\<lparr>cached_root := Some r\<rparr>)))"

definition root_readonly :: "(bytes \<Rightarrow> hash) \<Rightarrow> state_trie \<Rightarrow> hash" where
  "root_readonly B t = (case cached_root t of Some r \<Rightarrow> r | None \<Rightarrow> compute_root B t)"

definition trie_iter :: "state_trie \<Rightarrow> (symbol_address \<times> bytes) list" where
  "trie_iter t = store t"

text \<open>\<open>range(prefix..)\<close> followed by \<open>take_while\<close>.\<close>

definition prefix_iter :: "state_trie \<Rightarrow> bytes \<Rightarrow> (symbol_address \<times> bytes) list" where
  "prefix_iter t p =
     takeWhile (\<lambda>e. starts_with (fst e) p) (dropWhile (\<lambda>e. fst e < p) (store t))"

definition count_prefix :: "state_trie \<Rightarrow> bytes \<Rightarrow> nat" where
  "count_prefix t p = length (prefix_iter t p)"

section \<open>Invariant\<close>

definition trie_ok :: "(bytes \<Rightarrow> hash) \<Rightarrow> state_trie \<Rightarrow> bool" where
  "trie_ok B t \<longleftrightarrow> bt_sorted (store t) \<and>
     (\<forall>r. cached_root t = Some r \<longrightarrow> r = compute_root B t)"

lemma write_through_frame [simp]:
  "store (write_through t c) = store t" "cached_root (write_through t c) = cached_root t"
  by (auto simp: write_through_def issue_def split: option.splits)

lemma store_insert [simp]: "store (trie_insert t k v) = bt_insert k v (store t)"
  and cache_insert [simp]: "cached_root (trie_insert t k v) = None"
  by (simp_all add: trie_insert_def)

lemma bt_remove_absent: "map_of m k = None \<Longrightarrow> bt_remove k m = m"
  by (auto simp: bt_remove_def filter_id_conv map_of_eq_None_iff)

lemma store_remove [simp]: "store (snd (trie_remove t k)) = bt_remove k (store t)"
  by (auto simp: trie_remove_def Let_def split: option.splits)

lemma trie_ok_new [simp]: "trie_ok B trie_new"
  by (simp add: trie_ok_def trie_new_def compute_root_def)

lemma trie_ok_insert [simp, intro]: "trie_ok B t \<Longrightarrow> trie_ok B (trie_insert t k v)"
  by (auto simp: trie_ok_def)

lemma trie_ok_remove [simp, intro]:
  assumes "trie_ok B t"
  shows "trie_ok B (snd (trie_remove t k))"
proof (cases "map_of (store t) k")
  case None
  with assms show ?thesis
    by (simp add: trie_remove_def trie_ok_def bt_remove_absent)
next
  case (Some v)
  with assms show ?thesis
    by (auto simp: trie_remove_def trie_ok_def)
qed

lemma trie_ok_root: "trie_ok B t \<Longrightarrow> trie_ok B (snd (trie_root B t))"
  by (auto simp: trie_root_def trie_ok_def compute_root_def Let_def split: option.splits)

lemma trie_ok_take_error: "trie_ok B t \<Longrightarrow> trie_ok B (snd (take_durable_error t))"
  by (auto simp: take_durable_error_def trie_ok_def compute_root_def)

lemma trie_ok_flush: "trie_ok B t \<Longrightarrow> trie_ok B (snd (flush_durable t))"
  by (auto simp: flush_durable_def issue_def trie_ok_def compute_root_def split: option.splits)

lemma fold_bt_insert_sorted:
  "bt_sorted m \<Longrightarrow> bt_sorted (fold (\<lambda>(k, v). bt_insert k v) es m)"
  by (induction es arbitrary: m) (auto intro: bt_sorted_insert)

lemma fold_bt_insert_map:
  "map_of (fold (\<lambda>(k, v). bt_insert k v) es m) = map_of m ++ map_of (rev es)"
proof (induction es arbitrary: m)
  case (Cons e es)
  have "map_of (bt_insert (fst e) (snd e) m) = (map_of m)(fst e \<mapsto> snd e)" by auto
  with Cons show ?case
    by (cases e) (auto simp: map_add_assoc map_add_def split: option.splits)
qed simp

lemma trie_ok_with_store: "trie_with_store d = Inr t \<Longrightarrow> trie_ok B t"
  using fold_bt_insert_sorted [of "[]"] by (auto simp: trie_with_store_def bind_result_Inr trie_ok_def)

section \<open>The key-value contract\<close>

locale kv_trie =
  fixes get :: "'t \<Rightarrow> 'k \<Rightarrow> 'v option"
    and ins :: "'t \<Rightarrow> 'k \<Rightarrow> 'v \<Rightarrow> 't"
    and del :: "'t \<Rightarrow> 'k \<Rightarrow> 't"
  assumes get_ins: "get (ins t k v) k' = (if k' = k then Some v else get t k')"
    and get_del: "get (del t k) k' = (if k' = k then None else get t k')"
begin

text \<open>A batch of writes: the last write to a key wins, other keys are untouched.\<close>

lemma get_fold_ins:
  "get (fold (\<lambda>(k, v) t. ins t k v) es t) k' =
     (case map_of (rev es) k' of Some v \<Rightarrow> Some v | None \<Rightarrow> get t k')"
proof (induction es arbitrary: t)
  case (Cons e es)
  then show ?case
    by (cases e) (auto simp: get_ins map_add_def split: option.splits)
qed simp

lemma get_fold_del: "get (fold (\<lambda>k t. del t k) ks t) k' = (if k' \<in> set ks then None else get t k')"
  by (induction ks arbitrary: t) (auto simp: get_del)

end

interpretation trie: kv_trie trie_get trie_insert "\<lambda>t k. snd (trie_remove t k)"
  by unfold_locales (simp_all add: trie_get_def)

section \<open>Prefix scans\<close>

lemma starts_with_ge: "starts_with k p \<Longrightarrow> p \<le> k"
proof (induction p arbitrary: k)
  case (Cons c p)
  then obtain k' where "k = c # k'" "starts_with k' p"
    by (cases k) (auto simp: starts_with_def)
  with Cons.IH show ?case by simp
qed simp

text \<open>Above \<open>p\<close>, the keys with prefix \<open>p\<close> come before all the others.\<close>

lemma prefix_block:
  "p \<le> k \<Longrightarrow> \<not> starts_with k p \<Longrightarrow> starts_with k' p \<Longrightarrow> k' < k"
proof (induction p arbitrary: k k')
  case Nil
  then show ?case by (simp add: starts_with_def)
next
  case (Cons c p)
  from Cons.prems obtain d ks where k: "k = d # ks" by (cases k) auto
  from Cons.prems obtain ks' where k': "k' = c # ks'" "starts_with ks' p"
    by (cases k') (auto simp: starts_with_def)
  show ?case
  proof (cases "d = c")
    case True
    with Cons.prems(1,2) k have "p \<le> ks" "\<not> starts_with ks p" by (auto simp: starts_with_def)
    with Cons.IH k' k True show ?thesis by simp
  next
    case False
    with Cons.prems(1) k k'(1) show ?thesis by auto
  qed
qed

lemma takeWhile_eq_filter:
  "sorted_wrt R xs \<Longrightarrow> (\<And>x y. x \<in> set xs \<Longrightarrow> y \<in> set xs \<Longrightarrow> R x y \<Longrightarrow> P y \<Longrightarrow> P x) \<Longrightarrow>
     takeWhile P xs = filter P xs"
proof (induction xs)
  case (Cons x xs)
  show ?case
  proof (cases "P x")
    case True
    have "takeWhile P xs = filter P xs"
      using Cons.prems(1) by (intro Cons.IH) (simp, metis Cons.prems(2) list.set_intros(2))
    with True show ?thesis by simp
  next
    case False
    with Cons.prems have "\<forall>y \<in> set xs. \<not> P y" by auto
    with False show ?thesis by (simp add: filter_False)
  qed
qed simp

lemma dropWhile_filter_sorted:
  "bt_sorted m \<Longrightarrow> dropWhile (\<lambda>e. fst e < p) m = filter (\<lambda>e. p \<le> fst e) m"
proof (induction m)
  case (Cons e m)
  show ?case
  proof (cases "fst e < p")
    case True
    with Cons show ?thesis by auto
  next
    case False
    with Cons.prems have "\<forall>x \<in> set m. p \<le> fst x" by force
    with False show ?thesis by (simp add: filter_id_conv)
  qed
qed simp

lemma prefix_iter_filter:
  assumes "bt_sorted (store t)"
  shows "prefix_iter t p = filter (\<lambda>e. starts_with (fst e) p) (store t)"
proof -
  let ?m = "filter (\<lambda>e. p \<le> fst e) (store t)"
  have "sorted_wrt (\<lambda>x y. fst x < fst y) ?m"
    using assms by (simp add: sorted_wrt_map sorted_wrt_filter)
  then have "takeWhile (\<lambda>e. starts_with (fst e) p) ?m = filter (\<lambda>e. starts_with (fst e) p) ?m"
    by (rule takeWhile_eq_filter) (auto dest: prefix_block)
  then show ?thesis
    using assms by (auto simp: prefix_iter_def dropWhile_filter_sorted intro!: filter_cong
        dest: starts_with_ge)
qed

section \<open>The durable mirror\<close>

fun apply_call :: "store_call \<Rightarrow> (bytes \<rightharpoonup> bytes) \<Rightarrow> (bytes \<rightharpoonup> bytes)" where
  "apply_call (Put k v) m = m(k \<mapsto> v)"
| "apply_call (Delete k) m = m(k := None)"
| "apply_call Flush m = m"

text \<open>The contents of the durable store: the acknowledged calls applied to what it held.\<close>

fun replay_calls ::
  "(store_call list \<Rightarrow> store_call \<Rightarrow> string option) \<Rightarrow> store_call list \<Rightarrow> store_call list \<Rightarrow>
   (bytes \<rightharpoonup> bytes) \<Rightarrow> (bytes \<rightharpoonup> bytes)" where
  "replay_calls ans hist [] m = m"
| "replay_calls ans hist (c # cs) m =
     replay_calls ans (hist @ [c]) cs (if ans hist c = None then apply_call c m else m)"

definition durable_view :: "(bytes \<rightharpoonup> bytes) \<Rightarrow> durable_store \<Rightarrow> (bytes \<rightharpoonup> bytes)" where
  "durable_view base d = replay_calls (answer d) [] (issued d) base"

lemma replay_calls_snoc:
  "replay_calls ans hist (cs @ [c]) m =
     (let m' = replay_calls ans hist cs m
      in if ans (hist @ cs) c = None then apply_call c m' else m')"
  by (induction cs arbitrary: hist m) (simp_all add: Let_def)

lemma durable_view_issue:
  "durable_view base (snd (issue d c)) =
     (if fst (issue d c) = None then apply_call c (durable_view base d) else durable_view base d)"
  by (simp add: durable_view_def issue_def replay_calls_snoc Let_def)

definition mirrored :: "(bytes \<rightharpoonup> bytes) \<Rightarrow> state_trie \<Rightarrow> bool" where
  "mirrored base t \<longleftrightarrow>
     (case durable t of
        None \<Rightarrow> False
      | Some d \<Rightarrow> durable_error t = None \<longrightarrow> durable_view base d = map_of (store t))"

lemma write_through_mirrored:
  assumes "durable t = Some d" "durable_error t = None \<Longrightarrow> durable_view base d = m"
    and "map_of (store t) = apply_call c m"
  shows "mirrored base (write_through t c)"
  using assms durable_view_issue [of base d c]
  by (auto simp: mirrored_def write_through_def issue_def split: option.splits)

lemma mirrored_insert:
  assumes "mirrored base t"
  shows "mirrored base (trie_insert t k v)"
proof -
  from assms obtain d where d: "durable t = Some d"
    "durable_error t = None \<Longrightarrow> durable_view base d = map_of (store t)"
    by (auto simp: mirrored_def split: option.splits)
  show ?thesis unfolding trie_insert_def
    by (rule write_through_mirrored [of _ d base "map_of (store t)"]) (use d in auto)
qed

lemma mirrored_remove:
  assumes "mirrored base t"
  shows "mirrored base (snd (trie_remove t k))"
proof -
  from assms obtain d where d: "durable t = Some d"
    "durable_error t = None \<Longrightarrow> durable_view base d = map_of (store t)"
    by (auto simp: mirrored_def split: option.splits)
  show ?thesis
  proof (cases "map_of (store t) k")
    case None
    with assms show ?thesis
      by (simp add: trie_remove_def mirrored_def bt_remove_absent)
  next
    case (Some v)
    have "mirrored base (write_through (t\<lparr>store := bt_remove k (store t), cached_root := None\<rparr>) (Delete k))"
      by (rule write_through_mirrored [of _ d base "map_of (store t)"]) (use d in auto)
    with Some show ?thesis by (simp add: trie_remove_def)
  qed
qed

section \<open>Reachable tries\<close>

inductive trie_step :: "(bytes \<Rightarrow> hash) \<Rightarrow> state_trie \<Rightarrow> state_trie \<Rightarrow> bool" for B where
  step_insert: "trie_step B t (trie_insert t k v)"
| step_remove: "trie_step B t (snd (trie_remove t k))"
| step_root: "trie_step B t (snd (trie_root B t))"
| step_flush: "trie_step B t (snd (flush_durable t))"
| step_take_error: "trie_step B t (snd (take_durable_error t))"

inductive trie_reachable :: "(bytes \<Rightarrow> hash) \<Rightarrow> state_trie \<Rightarrow> bool" for B where
  reach_new: "trie_reachable B trie_new"
| reach_with_store: "trie_with_store d = Inr t \<Longrightarrow> trie_reachable B t"
| reach_step: "trie_reachable B t \<Longrightarrow> trie_step B t t' \<Longrightarrow> trie_reachable B t'"

lemma trie_step_ok: "trie_step B t t' \<Longrightarrow> trie_ok B t \<Longrightarrow> trie_ok B t'"
  by (induction rule: trie_step.induct) (simp_all add: trie_ok_root trie_ok_flush trie_ok_take_error trie_ok_remove)

lemma trie_reachable_ok: "trie_reachable B t \<Longrightarrow> trie_ok B t"
  by (induction rule: trie_reachable.induct) (auto intro: trie_ok_with_store trie_step_ok)

lemma root_readonly_ok: "trie_ok B t \<Longrightarrow> root_readonly B t = compute_root B t"
  by (auto simp: root_readonly_def trie_ok_def split: option.splits)

lemma fst_trie_root: "fst (trie_root B t) = root_readonly B t"
  by (auto simp: trie_root_def root_readonly_def Let_def split: option.splits)

datatype trie_write = WInsert bytes bytes | WRemove bytes

fun run_write :: "trie_write \<Rightarrow> state_trie \<Rightarrow> state_trie" where
  "run_write (WInsert k v) t = trie_insert t k v"
| "run_write (WRemove k) t = snd (trie_remove t k)"

lemma mirrored_run: "mirrored base t \<Longrightarrow> mirrored base (fold run_write ws t)"
proof (induction ws arbitrary: t)
  case (Cons w ws)
  then have "mirrored base (run_write w t)"
    by (cases w) (auto intro: mirrored_insert mirrored_remove)
  with Cons.IH show ?case by simp
qed simp

section \<open>Properties\<close>

text \<open>
  The cached root is never stale: in every trie reachable through the public operations
  (insert, remove, root, flush, taking the error), from an empty trie or one loaded from a
  durable store, both root reads return the Merkle root of the current entries.
\<close>

theorem cached_root_coherent:
  assumes "trie_reachable B t"
  shows "root_readonly B t = compute_root B t \<and> fst (trie_root B t) = compute_root B t"
  using trie_reachable_ok [OF assms] by (simp add: fst_trie_root root_readonly_ok)

theorem cached_root_coherent_witness:
  "root_readonly (\<lambda>b. of_nat (length b)) (trie_insert trie_new ''a'' ''b'') =
   compute_root (\<lambda>b. of_nat (length b)) (trie_insert trie_new ''a'' ''b'')"
proof -
  have "trie_reachable (\<lambda>b. of_nat (length b)) (trie_insert trie_new ''a'' ''b'')"
    by (rule reach_step [OF reach_new step_insert])
  then show ?thesis using cached_root_coherent by blast
qed

text \<open>
  The range scan of \<open>prefix_iter\<close> returns exactly the entries whose key starts with the
  prefix, in key order: starting at the prefix and stopping at the first other key misses
  nothing, because byte strings sharing a prefix are contiguous in the lexicographic order.
\<close>

theorem prefix_iter_complete:
  assumes "trie_reachable B t"
  shows "prefix_iter t p = filter (\<lambda>e. starts_with (fst e) p) (trie_iter t) \<and>
    count_prefix t p = length (filter (\<lambda>e. starts_with (fst e) p) (trie_iter t))"
  using trie_reachable_ok [OF assms]
  by (simp add: prefix_iter_filter count_prefix_def trie_iter_def trie_ok_def)

theorem prefix_iter_complete_witness:
  "count_prefix (trie_insert (trie_insert trie_new ''data/a'' ''x'') ''norms/b'' ''y'') ''data/'' = 1"
proof -
  have "trie_reachable (\<lambda>_. 0) (trie_insert (trie_insert trie_new ''data/a'' ''x'') ''norms/b'' ''y'')"
    by (intro reach_step [OF _ step_insert] reach_new)
  from prefix_iter_complete [OF this, of "''data/''"] show ?thesis
    by (simp add: trie_iter_def trie_new_def starts_with_def)
qed

text \<open>
  C34. The durable store mirrors the trie: starting from a trie loaded from a store whose
  listing is faithful, after any sequence of inserts and removes either a durable error has
  been recorded or the acknowledged calls leave the store with exactly the trie's entries.
\<close>

theorem durable_store_mirrors:
  assumes "iter_all d (issued d) = Inr entries" "trie_with_store d = Inr t"
    and "durable_view base d = map_of (rev entries)"
    and "t' = fold run_write ws t"
  shows "durable_error t' \<noteq> None \<or>
    durable_view base (the (durable t')) = map_of (store t')"
proof -
  have "map_of (store t) = map_of (rev entries)"
    using assms(1,2) fold_bt_insert_map [of entries "[]"] by (auto simp: trie_with_store_def)
  moreover have "durable t = Some d" "durable_error t = None"
    using assms(1,2) by (auto simp: trie_with_store_def)
  ultimately have "mirrored base t" using assms(3) by (simp add: mirrored_def)
  then have "mirrored base t'" unfolding assms(4) by (rule mirrored_run)
  then show ?thesis by (auto simp: mirrored_def split: option.splits)
qed

theorem durable_store_mirrors_witness:
  "let d = \<lparr>issued = [], answer = (\<lambda>_ _. None), iter_all = (\<lambda>_. Inr [(''k'', ''v'')])\<rparr>;
       t = \<lparr>store = [(''k'', ''v'')], cached_root = None, durable = Some d, durable_error = None\<rparr>;
       t' = fold run_write [WInsert ''a'' ''b'', WRemove ''k''] t
   in durable_error t' \<noteq> None \<or> durable_view [''k'' \<mapsto> ''v''] (the (durable t')) = map_of (store t')"
proof -
  let ?d = "\<lparr>issued = [], answer = (\<lambda>_ _. None), iter_all = (\<lambda>_. Inr [(''k'', ''v'')])\<rparr> :: durable_store"
  let ?t = "\<lparr>store = [(''k'', ''v'')], cached_root = None, durable = Some ?d, durable_error = None\<rparr> :: state_trie"
  have "iter_all ?d (issued ?d) = Inr [(''k'', ''v'')]" "trie_with_store ?d = Inr ?t"
    "durable_view [''k'' \<mapsto> ''v''] ?d = map_of (rev [(''k'', ''v'')])"
    by (simp_all add: trie_with_store_def durable_view_def)
  from durable_store_mirrors [OF this refl, of "[WInsert ''a'' ''b'', WRemove ''k'']"]
  show ?thesis unfolding Let_def .
qed

end
