(* ===== verification/Scc_World.thy ===== *)
theory Scc_World
  imports Scc_Trie Scc_Types Scc_Params
begin

text \<open>
  The managed world state (\<open>crates/sccgub-state/src/world.rs\<close>): the symbol store, the state trie
  under it, the per-agent nonces and the consensus parameters; the keys of the trie
  namespaces (\<open>types/src/namespace.rs\<close>); the write-once constitutional ceilings
  (\<open>constitutional_ceilings_state.rs\<close>); the tension history (\<open>tension_history.rs\<close>) and the
  chain-version history (\<open>chain_version_history_state.rs\<close>).

  The canonical (bincode) encoders and decoders and \<open>hex::encode\<close> are parameters.
\<close>

section \<open>Namespace keys\<close>

definition NS_SYSTEM :: bytes where "NS_SYSTEM = ''system/''"
definition NS_BALANCE :: bytes where "NS_BALANCE = ''balance/''"
definition NS_ESCROW :: bytes where "NS_ESCROW = ''escrow/''"
definition NS_TREASURY :: bytes where "NS_TREASURY = ''treasury/''"
definition NS_AGENTS :: bytes where "NS_AGENTS = ''agents/''"
definition NS_NORMS :: bytes where "NS_NORMS = ''norms/''"
definition NS_CONSTRAINTS :: bytes where "NS_CONSTRAINTS = ''constraints/''"
definition NS_CONTRACT :: bytes where "NS_CONTRACT = ''contract/''"
definition NS_DISPUTES :: bytes where "NS_DISPUTES = ''disputes/''"
definition NS_DATA :: bytes where "NS_DATA = ''data/''"

type_synonym hex_encode = "hash \<Rightarrow> string"

definition balance_key :: "hex_encode \<Rightarrow> agent_id \<Rightarrow> bytes" where
  "balance_key hex agent = ''balance/'' @ hex agent"

definition data_key :: "bytes \<Rightarrow> bytes" where
  "data_key path = ''data/'' @ path"

definition norm_key :: "hex_encode \<Rightarrow> hash \<Rightarrow> bytes" where
  "norm_key hex norm = ''norms/'' @ hex norm"

definition agent_key :: "hex_encode \<Rightarrow> hash \<Rightarrow> bytes" where
  "agent_key hex pk = ''agents/'' @ hex pk"

definition contract_key :: "bytes \<Rightarrow> bytes" where
  "contract_key path = ''contract/'' @ path"

section \<open>The managed state\<close>

record managed_world_state =
  state :: world_state
  trie :: state_trie
  agent_nonces :: "(agent_id, nat) hashmap"
  consensus_params :: consensus_params

definition world_new :: managed_world_state where
  "world_new =
     \<lparr>state = world_state_default, trie = trie_new, agent_nonces = [],
      consensus_params = consensus_params_default\<rparr>"

definition with_consensus_params :: "consensus_params \<Rightarrow> managed_world_state" where
  "with_consensus_params p =
     \<lparr>state = world_state_default, trie = trie_new, agent_nonces = [], consensus_params = p\<rparr>"

definition with_store_and_params ::
  "durable_store \<Rightarrow> consensus_params \<Rightarrow> string + managed_world_state" where
  "with_store_and_params d p =
     bind_result (trie_with_store d)
       (\<lambda>t. Inr \<lparr>state = world_state_default, trie = t, agent_nonces = [], consensus_params = p\<rparr>)"

text \<open>Issue calls until one fails.\<close>

fun issue_all :: "durable_store \<Rightarrow> store_call list \<Rightarrow> string option \<times> durable_store" where
  "issue_all d [] = (None, d)"
| "issue_all d (c # cs) =
     (case issue d c of (None, d') \<Rightarrow> issue_all d' cs | (Some e, d') \<Rightarrow> (Some e, d'))"

text \<open>
  On failure the world keeps its trie; the calls already issued have reached the store.
\<close>

definition bind_store ::
  "managed_world_state \<Rightarrow> durable_store \<Rightarrow> (string + unit) \<times> managed_world_state \<times> durable_store" where
  "bind_store w d =
     (case issue_all d (map (\<lambda>(k, v). Put k v) (trie_iter (trie w)) @ [Flush]) of
        (Some e, d') \<Rightarrow> (Inl e, w, d')
      | (None, d') \<Rightarrow>
          (case trie_with_store d' of
             Inl e \<Rightarrow> (Inl e, w, d')
           | Inr t \<Rightarrow> (Inr (), w\<lparr>trie := t\<rparr>, d')))"

definition flush_store :: "managed_world_state \<Rightarrow> (string + unit) \<times> managed_world_state" where
  "flush_store w = (case flush_durable (trie w) of (r, t) \<Rightarrow> (r, w\<lparr>trie := t\<rparr>))"

definition apply_write :: "managed_world_state \<Rightarrow> state_write \<Rightarrow> managed_world_state" where
  "apply_write w sw =
     (let addr = address sw;
          symbol = (case map_of (symbol_store (state w)) addr of
                      Some s \<Rightarrow> s | None \<Rightarrow> symbol_state_new addr [] ZERO_HASH);
          symbol' = symbol\<lparr>sym_data := sw_value sw, version := u64_saturating_add (version symbol) 1\<rparr>
      in w\<lparr>trie := trie_insert (trie w) addr (sw_value sw),
           state := (state w)\<lparr>symbol_store := AList.update addr symbol' (symbol_store (state w))\<rparr>\<rparr>)"

fun apply_writes ::
  "managed_world_state \<Rightarrow> state_write list \<Rightarrow> symbol_address list \<times> managed_world_state" where
  "apply_writes w [] = ([], w)"
| "apply_writes w (sw # sws) =
     (let cap = max_state_entry_size (consensus_params w)
      in if length (address sw) > cap \<or> length (sw_value sw) > cap
         then (case apply_writes w sws of (rej, w') \<Rightarrow> (address sw # rej, w'))
         else apply_writes (apply_write w sw) sws)"

definition apply_delete :: "managed_world_state \<Rightarrow> symbol_address \<Rightarrow> managed_world_state" where
  "apply_delete w addr =
     w\<lparr>trie := snd (trie_remove (trie w) addr),
       state := (state w)\<lparr>symbol_store := AList.delete addr (symbol_store (state w))\<rparr>\<rparr>"

definition apply_delta ::
  "managed_world_state \<Rightarrow> state_delta \<Rightarrow> symbol_address list \<times> managed_world_state" where
  "apply_delta w delta =
     (case apply_writes w (writes delta) of
        (rejected, w') \<Rightarrow> (rejected, fold (\<lambda>a w. apply_delete w a) (deletes delta) w'))"

datatype nonce_error = NonceZero | NonceOverflow agent_id | NonceNotSequential nat nat agent_id

definition check_nonce ::
  "managed_world_state \<Rightarrow> agent_id \<Rightarrow> nat \<Rightarrow> nonce_error + managed_world_state" where
  "check_nonce w a n =
     (if n = 0 then Inl NonceZero
      else
        let last_n = (case map_of (agent_nonces w) a of Some k \<Rightarrow> k | None \<Rightarrow> 0)
        in if int (last_n + 1) > U128_MAX then Inl (NonceOverflow a)
           else if n \<noteq> last_n + 1 then Inl (NonceNotSequential (last_n + 1) n a)
           else Inr (w\<lparr>agent_nonces := AList.update a n (agent_nonces w)\<rparr>))"

fun nonce_loop ::
  "(agent_id, nat) hashmap \<Rightarrow> managed_world_state \<Rightarrow> symbolic_transition list \<Rightarrow>
   (nonce_error + unit) \<times> managed_world_state" where
  "nonce_loop snap w [] = (Inr (), w)"
| "nonce_loop snap w (tx # txs) =
     (case check_nonce w (agent_id_of (actor tx)) (nonce tx) of
        Inl e \<Rightarrow> (Inl e, w\<lparr>agent_nonces := snap\<rparr>)
      | Inr w' \<Rightarrow> nonce_loop snap w' txs)"

definition validate_nonces ::
  "managed_world_state \<Rightarrow> symbolic_transition list \<Rightarrow> (nonce_error + unit) \<times> managed_world_state" where
  "validate_nonces w txs = nonce_loop (agent_nonces w) w txs"

definition state_root :: "(bytes \<Rightarrow> hash) \<Rightarrow> managed_world_state \<Rightarrow> hash" where
  "state_root B w = root_readonly B (trie w)"

definition world_get :: "managed_world_state \<Rightarrow> symbol_address \<Rightarrow> bytes option" where
  "world_get w addr = trie_get (trie w) addr"

definition set_height :: "managed_world_state \<Rightarrow> nat \<Rightarrow> managed_world_state" where
  "set_height w h = w\<lparr>state := (state w)\<lparr>height := h\<rparr>\<rparr>"


section \<open>System records kept in the trie\<close>

definition PARAMS_TRIE_KEY :: bytes where "PARAMS_TRIE_KEY = ''system/consensus_params''"
definition CEILINGS_TRIE_KEY :: bytes where "CEILINGS_TRIE_KEY = ''system/constitutional_ceilings''"
definition TENSION_HISTORY_TRIE_KEY :: bytes where
  "TENSION_HISTORY_TRIE_KEY = ''system/tension_history''"
definition CHAIN_VERSION_TRIE_KEY :: bytes where
  "CHAIN_VERSION_TRIE_KEY = ''system/chain_version_history''"

text \<open>A delta of one write, as every system record is committed.\<close>

abbreviation single_write :: "bytes \<Rightarrow> bytes \<Rightarrow> state_delta" where
  "single_write k v \<equiv> \<lparr>writes = [\<lparr>address = k, sw_value = v\<rparr>], deletes = []\<rparr>"

definition commit_consensus_params ::
  "(consensus_params \<Rightarrow> bytes) \<Rightarrow> managed_world_state \<Rightarrow> managed_world_state" where
  "commit_consensus_params enc w =
     snd (apply_delta w (single_write PARAMS_TRIE_KEY (enc (consensus_params w))))"

definition consensus_params_from_trie ::
  "params_decoders \<Rightarrow> managed_world_state \<Rightarrow> string + consensus_params option" where
  "consensus_params_from_trie D w =
     (case world_get w PARAMS_TRIE_KEY of
        Some b \<Rightarrow> bind_result (consensus_params_from_canonical_bytes D b) (\<lambda>p. Inr (Some p))
      | None \<Rightarrow> Inr None)"

datatype ceilings_state_error = AlreadyCommitted

definition commit_constitutional_ceilings_at_genesis ::
  "(constitutional_ceilings \<Rightarrow> bytes) \<Rightarrow> managed_world_state \<Rightarrow> constitutional_ceilings \<Rightarrow>
   ceilings_state_error + managed_world_state" where
  "commit_constitutional_ceilings_at_genesis enc w c =
     (if world_get w CEILINGS_TRIE_KEY \<noteq> None then Inl AlreadyCommitted
      else Inr (snd (apply_delta w (single_write CEILINGS_TRIE_KEY (enc c)))))"

definition constitutional_ceilings_from_trie ::
  "ceilings_decoders \<Rightarrow> managed_world_state \<Rightarrow> string + constitutional_ceilings option" where
  "constitutional_ceilings_from_trie D w =
     (case world_get w CEILINGS_TRIE_KEY of
        Some b \<Rightarrow> bind_result (ceilings_from_canonical_bytes D b) (\<lambda>c. Inr (Some c))
      | None \<Rightarrow> Inr None)"

definition TENSION_HISTORY_MAX_LEN :: nat where "TENSION_HISTORY_MAX_LEN = 64"

definition tension_history_from_trie ::
  "(bytes \<Rightarrow> tension_value list option) \<Rightarrow> managed_world_state \<Rightarrow> string + tension_value list" where
  "tension_history_from_trie dec w =
     (case world_get w TENSION_HISTORY_TRIE_KEY of
        Some b \<Rightarrow> (case dec b of Some buf \<Rightarrow> Inr buf | None \<Rightarrow> Inl ''tension_history deserialize'')
      | None \<Rightarrow> Inr [])"

definition commit_tension_history ::
  "(tension_value list \<Rightarrow> bytes) \<Rightarrow> managed_world_state \<Rightarrow> tension_value list \<Rightarrow> managed_world_state" where
  "commit_tension_history enc w buf =
     snd (apply_delta w (single_write TENSION_HISTORY_TRIE_KEY (enc buf)))"

text \<open>The loop that drops the oldest entry while the buffer is over the cap.\<close>

function trim_oldest :: "tension_value list \<Rightarrow> tension_value list" where
  "trim_oldest buf = (if length buf > TENSION_HISTORY_MAX_LEN then trim_oldest (tl buf) else buf)"
  by pat_completeness auto
termination
  by (relation "measure length") (auto simp: TENSION_HISTORY_MAX_LEN_def)

declare trim_oldest.simps [simp del]

definition append_and_trim ::
  "(tension_value list \<Rightarrow> bytes) \<Rightarrow> (bytes \<Rightarrow> tension_value list option) \<Rightarrow>
   managed_world_state \<Rightarrow> tension_value \<Rightarrow> string + (tension_value list \<times> managed_world_state)" where
  "append_and_trim enc dec w t =
     bind_result (tension_history_from_trie dec w)
       (\<lambda>buf. let buf' = trim_oldest (buf @ [t])
               in Inr (buf', commit_tension_history enc w buf'))"

definition history_window :: "tension_value list \<Rightarrow> nat \<Rightarrow> tension_value list" where
  "history_window buf n = (if length buf \<le> n then buf else drop (length buf - n) buf)"

record chain_version_transition =
  cvt_activation_height :: nat
  from_version :: nat
  to_version :: nat
  cvt_upgrade_spec_hash :: hash
  cvt_proposal_id :: hash

definition chain_version_history_from_trie ::
  "(bytes \<Rightarrow> chain_version_transition list option) \<Rightarrow> managed_world_state \<Rightarrow>
   string + chain_version_transition list" where
  "chain_version_history_from_trie dec w =
     (case world_get w CHAIN_VERSION_TRIE_KEY of
        Some b \<Rightarrow> (case dec b of Some h \<Rightarrow> Inr h | None \<Rightarrow> Inl ''chain_version_history deserialize'')
      | None \<Rightarrow> Inr [])"

definition append_chain_version_transition ::
  "(chain_version_transition list \<Rightarrow> bytes) \<Rightarrow> (bytes \<Rightarrow> chain_version_transition list option) \<Rightarrow>
   managed_world_state \<Rightarrow> chain_version_transition \<Rightarrow> string + managed_world_state" where
  "append_chain_version_transition enc dec w tr =
     bind_result (chain_version_history_from_trie dec w)
       (\<lambda>h. Inr (snd (apply_delta w (single_write CHAIN_VERSION_TRIE_KEY (enc (h @ [tr]))))))"

section \<open>Deltas\<close>

text \<open>The writes of a delta that fit the entry-size limit, as key-value pairs.\<close>

definition fits :: "nat \<Rightarrow> state_write \<Rightarrow> bool" where
  "fits cap sw \<longleftrightarrow> length (address sw) \<le> cap \<and> length (sw_value sw) \<le> cap"

abbreviation entry_cap :: "managed_world_state \<Rightarrow> nat" where
  "entry_cap w \<equiv> max_state_entry_size (consensus_params w)"

abbreviation write_pair :: "state_write \<Rightarrow> bytes \<times> bytes" where
  "write_pair sw \<equiv> (address sw, sw_value sw)"

definition accepted_writes :: "nat \<Rightarrow> state_write list \<Rightarrow> (bytes \<times> bytes) list" where
  "accepted_writes cap sws = map write_pair (filter (fits cap) sws)"

lemma apply_write_frame [simp]:
  "consensus_params (apply_write w sw) = consensus_params w"
  "agent_nonces (apply_write w sw) = agent_nonces w"
  "trie (apply_write w sw) = trie_insert (trie w) (address sw) (sw_value sw)"
  by (simp_all add: apply_write_def Let_def)

lemma apply_delete_frame [simp]:
  "consensus_params (apply_delete w a) = consensus_params w"
  "agent_nonces (apply_delete w a) = agent_nonces w"
  "trie (apply_delete w a) = snd (trie_remove (trie w) a)"
  by (simp_all add: apply_delete_def)

lemma apply_writes_Cons:
  "apply_writes w (sw # sws) =
     (if fits (entry_cap w) sw then apply_writes (apply_write w sw) sws
      else (address sw # fst (apply_writes w sws), snd (apply_writes w sws)))"
  by (auto simp: fits_def Let_def split: prod.splits)

declare apply_writes.simps(2) [simp del]

lemma apply_writes_frame [simp]:
  "consensus_params (snd (apply_writes w sws)) = consensus_params w"
  "agent_nonces (snd (apply_writes w sws)) = agent_nonces w"
  by (induction sws arbitrary: w) (simp_all add: apply_writes_Cons)

lemma apply_writes_rejected:
  "fst (apply_writes w sws) = map address (filter (\<lambda>sw. \<not> fits (entry_cap w) sw) sws)"
  by (induction sws arbitrary: w) (simp_all add: apply_writes_Cons)

lemma apply_writes_trie:
  "trie (snd (apply_writes w sws)) =
     fold (\<lambda>(k, v) t. trie_insert t k v) (accepted_writes (entry_cap w) sws) (trie w)"
  by (induction sws arbitrary: w) (simp_all add: apply_writes_Cons accepted_writes_def)

lemma fold_apply_delete_frame [simp]:
  "consensus_params (fold (\<lambda>a w. apply_delete w a) ds w) = consensus_params w"
  "agent_nonces (fold (\<lambda>a w. apply_delete w a) ds w) = agent_nonces w"
  "trie (fold (\<lambda>a w. apply_delete w a) ds w) = fold (\<lambda>a t. snd (trie_remove t a)) ds (trie w)"
  by (induction ds arbitrary: w) simp_all

lemma apply_delta_frame [simp]:
  "consensus_params (snd (apply_delta w d)) = consensus_params w"
  "agent_nonces (snd (apply_delta w d)) = agent_nonces w"
  by (simp_all add: apply_delta_def split_beta)

text \<open>What a delta does to a lookup, from the laws of the trie contract.\<close>

lemma apply_delta_get:
  "world_get (snd (apply_delta w d)) k =
     (if k \<in> set (deletes d) then None
      else case map_of (rev (accepted_writes (entry_cap w) (writes d))) k of
             Some v \<Rightarrow> Some v | None \<Rightarrow> world_get w k)"
  unfolding world_get_def
  by (simp add: apply_delta_def split_beta apply_writes_trie trie.get_fold_del trie.get_fold_ins)

lemma apply_delta_single:
  "world_get (snd (apply_delta w (single_write k v))) k' =
     (if k' = k \<and> length k \<le> entry_cap w \<and> length v \<le> entry_cap w then Some v else world_get w k')"
  by (simp add: apply_delta_get accepted_writes_def fits_def)

lemma apply_delta_trie_ok: "trie_ok B (trie w) \<Longrightarrow> trie_ok B (trie (snd (apply_delta w d)))"
proof -
  have ins: "trie_ok B t \<Longrightarrow> trie_ok B (fold (\<lambda>(k, v) t. trie_insert t k v) es t)" for es t
    by (induction es arbitrary: t) auto
  have del: "trie_ok B t \<Longrightarrow> trie_ok B (fold (\<lambda>a t. snd (trie_remove t a)) ds t)" for ds t
    by (induction ds arbitrary: t) auto
  assume "trie_ok B (trie w)"
  then show ?thesis
    by (simp add: apply_delta_def split_beta apply_writes_trie ins del)
qed

text \<open>
  The symbol store and the trie hold the same data: the invariant of every world that was not
  loaded from a durable store (loading fills only the trie).
\<close>

definition world_ok :: "managed_world_state \<Rightarrow> bool" where
  "world_ok w \<longleftrightarrow> keys_distinct (symbol_store (state w)) \<and>
     (\<forall>k. map_option sym_data (map_of (symbol_store (state w)) k) = world_get w k)"

lemma world_ok_new [simp]: "world_ok world_new"
  by (simp add: world_ok_def world_new_def world_state_default_def world_get_def trie_get_def
      trie_new_def)

lemma world_ok_write: "world_ok w \<Longrightarrow> world_ok (apply_write w sw)"
  by (auto simp: world_ok_def world_get_def trie.get_ins apply_write_def Let_def)

lemma world_ok_delete: "world_ok w \<Longrightarrow> world_ok (apply_delete w a)"
  by (auto simp: world_ok_def world_get_def trie.get_del apply_delete_def distinct_delete
      delete_conv')

lemma world_ok_writes: "world_ok w \<Longrightarrow> world_ok (snd (apply_writes w sws))"
  by (induction sws arbitrary: w) (auto simp: apply_writes_Cons world_ok_write)

lemma world_ok_deletes: "world_ok w \<Longrightarrow> world_ok (fold (\<lambda>a w. apply_delete w a) ds w)"
  by (induction ds arbitrary: w) (auto simp: world_ok_delete)

lemma world_ok_apply_delta: "world_ok w \<Longrightarrow> world_ok (snd (apply_delta w d))"
  by (simp add: apply_delta_def split_beta world_ok_writes world_ok_deletes)

section \<open>Nonces\<close>

definition last_nonce :: "managed_world_state \<Rightarrow> agent_id \<Rightarrow> nat" where
  "last_nonce w a = (case map_of (agent_nonces w) a of Some k \<Rightarrow> k | None \<Rightarrow> 0)"

lemma check_nonce_Inr:
  "check_nonce w a n = Inr w' \<longleftrightarrow>
     n = last_nonce w a + 1 \<and> int n \<le> U128_MAX \<and>
     w' = w\<lparr>agent_nonces := AList.update a n (agent_nonces w)\<rparr>"
  by (auto simp: check_nonce_def last_nonce_def Let_def split: option.splits)

lemma last_nonce_update [simp]:
  "last_nonce (w\<lparr>agent_nonces := AList.update a n m\<rparr>) b =
     (if b = a then n else last_nonce (w\<lparr>agent_nonces := m\<rparr>) b)"
  by (simp add: last_nonce_def)

lemma world_nonce_surj [simp]: "w\<lparr>agent_nonces := agent_nonces w\<rparr> = w"
  by simp

abbreviation txs_of :: "agent_id \<Rightarrow> symbolic_transition list \<Rightarrow> symbolic_transition list" where
  "txs_of a txs \<equiv> filter (\<lambda>t. agent_id_of (actor t) = a) txs"

text \<open>Each agent's nonces in the block continue its last nonce without gap or repetition.\<close>

definition continues :: "nat \<Rightarrow> nat list \<Rightarrow> bool" where
  "continues k ns \<longleftrightarrow> ns = [k + 1 ..< k + 1 + length ns] \<and>
     (ns = [] \<or> int (k + length ns) \<le> U128_MAX)"

definition nonces_sequential :: "managed_world_state \<Rightarrow> symbolic_transition list \<Rightarrow> bool" where
  "nonces_sequential w txs \<longleftrightarrow> (\<forall>a. continues (last_nonce w a) (map nonce (txs_of a txs)))"

lemma continues_Nil [simp]: "continues k []"
  by (simp add: continues_def)

lemma continues_Cons [simp]:
  "continues k (n # ns) \<longleftrightarrow> n = k + 1 \<and> int n \<le> U128_MAX \<and> continues n ns"
proof -
  have "[k + 1 ..< k + 1 + length (n # ns)] = (k + 1) # [k + 2 ..< k + 2 + length ns]"
    by (subst upt_conv_Cons) simp_all
  then show ?thesis by (cases ns) (auto simp: continues_def)
qed

text \<open>One transition at the head of a sequence of transitions.\<close>

lemma nonces_sequential_Cons:
  "nonces_sequential w (tx # txs) \<longleftrightarrow>
     (\<exists>w'. check_nonce w (agent_id_of (actor tx)) (nonce tx) = Inr w' \<and> nonces_sequential w' txs)"
proof -
  let ?a = "agent_id_of (actor tx)" and ?n = "nonce tx"
  let ?w' = "w\<lparr>agent_nonces := AList.update ?a ?n (agent_nonces w)\<rparr>"
  have step: "continues (last_nonce w b) (map nonce (txs_of b (tx # txs))) \<longleftrightarrow>
      (b = ?a \<longrightarrow> ?n = last_nonce w ?a + 1 \<and> int ?n \<le> U128_MAX) \<and>
      continues (last_nonce ?w' b) (map nonce (txs_of b txs))" for b
    by (cases "b = ?a") auto
  have "nonces_sequential w (tx # txs) \<longleftrightarrow>
      ?n = last_nonce w ?a + 1 \<and> int ?n \<le> U128_MAX \<and> nonces_sequential ?w' txs"
    unfolding nonces_sequential_def step by blast
  then show ?thesis by (auto simp: check_nonce_Inr)
qed

lemma nonce_loop_outcome:
  "nonce_loop snap w txs =
     (if nonces_sequential w txs
      then (Inr (), snd (nonce_loop snap w txs))
      else (Inl (projl (fst (nonce_loop snap w txs))), w\<lparr>agent_nonces := snap\<rparr>))"
proof (induction txs arbitrary: w)
  case Nil
  then show ?case by (simp add: nonces_sequential_def)
next
  case (Cons tx txs)
  show ?case
  proof (cases "check_nonce w (agent_id_of (actor tx)) (nonce tx)")
    case (Inl e)
    then show ?thesis by (simp add: nonces_sequential_Cons)
  next
    case (Inr w')
    then have "w'\<lparr>agent_nonces := snap\<rparr> = w\<lparr>agent_nonces := snap\<rparr>"
      by (auto simp: check_nonce_Inr)
    with Inr Cons.IH [of w'] show ?thesis by (auto simp: nonces_sequential_Cons split: if_splits)
  qed
qed

lemma nonce_loop_frame:
  "nonce_loop snap w txs = (r, w') \<Longrightarrow>
     state w' = state w \<and> trie w' = trie w \<and> consensus_params w' = consensus_params w"
  by (induction txs arbitrary: w) (auto simp: check_nonce_Inr split: sum.splits)

lemma nonce_loop_last:
  assumes "nonces_sequential w txs"
  shows "last_nonce (snd (nonce_loop snap w txs)) a = last_nonce w a + length (txs_of a txs)"
  using assms
proof (induction txs arbitrary: w)
  case (Cons tx txs)
  then obtain w' where w': "check_nonce w (agent_id_of (actor tx)) (nonce tx) = Inr w'"
    "nonces_sequential w' txs"
    by (auto simp: nonces_sequential_Cons)
  then have "last_nonce w' a = last_nonce w a + (if agent_id_of (actor tx) = a then 1 else 0)"
    by (auto simp: check_nonce_Inr)
  with Cons.IH [OF w'(2)] w'(1) show ?case by simp
qed simp

lemma validate_nonces_failed:
  "\<not> nonces_sequential w txs \<Longrightarrow> \<exists>e. validate_nonces w txs = (Inl e, w)"
  using nonce_loop_outcome [of "agent_nonces w" w txs] by (auto simp: validate_nonces_def)

lemma validate_nonces_passed:
  "nonces_sequential w txs \<Longrightarrow> \<exists>w'. validate_nonces w txs = (Inr (), w')"
  using nonce_loop_outcome [of "agent_nonces w" w txs] by (auto simp: validate_nonces_def)

section \<open>Tension history\<close>

lemma trim_oldest_eq: "trim_oldest buf = drop (length buf - TENSION_HISTORY_MAX_LEN) buf"
proof (induction buf rule: trim_oldest.induct)
  case (1 buf)
  show ?case
  proof (cases "length buf > TENSION_HISTORY_MAX_LEN")
    case True
    then have "trim_oldest buf = drop (length (tl buf) - TENSION_HISTORY_MAX_LEN) (tl buf)"
      using 1 by (simp add: trim_oldest.simps [of buf])
    also have "\<dots> = drop (length buf - TENSION_HISTORY_MAX_LEN) buf"
      using True by (cases buf) (simp_all add: Suc_diff_le)
    finally show ?thesis .
  qed (simp add: trim_oldest.simps)
qed

lemma length_trim_oldest: "length (trim_oldest buf) \<le> TENSION_HISTORY_MAX_LEN"
  by (simp add: trim_oldest_eq)

section \<open>Properties\<close>

text \<open>
  Applying a delta rejects exactly the writes whose key or value exceeds the chain's entry
  limit, in order; afterwards a deleted key is absent, any other key holds the last accepted
  write to it, and keys the delta does not name keep their value. Nonces and parameters are
  untouched.
\<close>

theorem apply_delta_outcome:
  "case apply_delta w d of
     (rejected, w') \<Rightarrow>
       rejected = map address (filter (\<lambda>sw. \<not> fits (entry_cap w) sw) (writes d)) \<and>
       (\<forall>k. world_get w' k =
          (if k \<in> set (deletes d) then None
           else case map_of (rev (accepted_writes (entry_cap w) (writes d))) k of
                  Some v \<Rightarrow> Some v | None \<Rightarrow> world_get w k)) \<and>
       agent_nonces w' = agent_nonces w \<and> consensus_params w' = consensus_params w"
proof -
  obtain rej w' where d: "apply_delta w d = (rej, w')" by fastforce
  have "rej = map address (filter (\<lambda>sw. \<not> fits (entry_cap w) sw) (writes d))"
    using d by (auto simp: apply_delta_def apply_writes_rejected split_beta)
  with d apply_delta_get [of w d] apply_delta_frame [of w d] show ?thesis by simp
qed

text \<open>
  C12. The symbol store and the state trie never disagree: starting from a fresh world, after any
  sequence of deltas each symbol's data is the trie's value at its address, and an address has
  a symbol exactly when it has a trie entry. The state root is then the Merkle root of the
  current entries.
\<close>

theorem world_views_agree:
  assumes "w = fold (\<lambda>d w. snd (apply_delta w d)) ds world_new"
  shows "map_option sym_data (map_of (symbol_store (state w)) k) = world_get w k \<and>
    state_root B w = compute_root B (trie w)"
proof -
  have ok: "world_ok v \<and> trie_ok B (trie v) \<Longrightarrow>
      world_ok (fold (\<lambda>d w. snd (apply_delta w d)) ds v) \<and>
      trie_ok B (trie (fold (\<lambda>d w. snd (apply_delta w d)) ds v))" for v
    by (induction ds arbitrary: v) (auto simp: world_ok_apply_delta apply_delta_trie_ok)
  have "world_ok world_new \<and> trie_ok B (trie world_new)"
    using world_ok_new trie_ok_new by (simp add: world_new_def)
  from ok [OF this] assms show ?thesis
    by (simp add: world_ok_def state_root_def root_readonly_ok)
qed

theorem world_views_agree_witness:
  "world_get (snd (apply_delta world_new (single_write ''k'' ''v''))) ''k'' =
   map_option sym_data (map_of (symbol_store (state
     (snd (apply_delta world_new (single_write ''k'' ''v''))))) ''k'')"
  using world_views_agree [of _ "[single_write ''k'' ''v'']", OF refl] by simp

text \<open>
  Nonce validation is atomic and exact. A block's transitions are accepted exactly when the
  nonces of each agent continue its last nonce one by one (no gap, no replay, no overflow of
  the 128-bit counter); each agent's counter then advances by the number of its transitions.
  Otherwise the world is returned unchanged, whatever transitions came before the failing one.
\<close>

theorem validate_nonces_atomic:
  "if nonces_sequential w txs
   then (\<exists>w'. validate_nonces w txs = (Inr (), w') \<and> state w' = state w \<and> trie w' = trie w \<and>
           (\<forall>a. last_nonce w' a = last_nonce w a + length (txs_of a txs)))
   else (\<exists>e. validate_nonces w txs = (Inl e, w))"
proof (cases "nonces_sequential w txs")
  case True
  then obtain w' where w': "validate_nonces w txs = (Inr (), w')"
    using validate_nonces_passed by blast
  then have "state w' = state w \<and> trie w' = trie w"
    using nonce_loop_frame unfolding validate_nonces_def by blast
  moreover have "last_nonce w' a = last_nonce w a + length (txs_of a txs)" for a
    using nonce_loop_last [OF True, of "agent_nonces w" a] w' by (simp add: validate_nonces_def)
  ultimately show ?thesis using True w' by auto
qed (simp add: validate_nonces_failed)

text \<open>
  The constitutional ceilings are written once. When the record is absent and its encoding
  fits the entry limit, committing it stores it: it reads back as committed, and every later
  commit is refused. The hypotheses are that the decoder inverts the encoder on the record.
\<close>

theorem ceilings_write_once:
  assumes "world_get w CEILINGS_TRIE_KEY = None"
    and "length (enc c) \<le> entry_cap w" "length CEILINGS_TRIE_KEY \<le> entry_cap w"
    and "cdec_current D (enc c) = Some c"
  shows "\<exists>w'. commit_constitutional_ceilings_at_genesis enc w c = Inr w' \<and>
    constitutional_ceilings_from_trie D w' = Inr (Some c) \<and>
    commit_constitutional_ceilings_at_genesis enc w' c' = Inl AlreadyCommitted \<and>
    (\<forall>k. k \<noteq> CEILINGS_TRIE_KEY \<longrightarrow> world_get w' k = world_get w k)"
  using assms
  by (simp add: commit_constitutional_ceilings_at_genesis_def constitutional_ceilings_from_trie_def
      apply_delta_single ceilings_from_canonical_bytes_def)

theorem ceilings_write_once_witness:
  "\<exists>w'. commit_constitutional_ceilings_at_genesis (\<lambda>_. ''c'') world_new
          constitutional_ceilings_default = Inr w' \<and>
        commit_constitutional_ceilings_at_genesis (\<lambda>_. ''c'') w'
          constitutional_ceilings_default = Inl AlreadyCommitted"
proof -
  let ?D = "\<lparr>cdec_current = (\<lambda>_. Some constitutional_ceilings_default),
             cdec_v2 = (\<lambda>_. None), cdec_v1 = (\<lambda>_. None)\<rparr>"
  have "entry_cap world_new = 1048576"
    by (simp add: world_new_def consensus_params_default_def)
  then have "\<exists>w'. commit_constitutional_ceilings_at_genesis (\<lambda>_. ''c'') world_new
      constitutional_ceilings_default = Inr w' \<and>
    constitutional_ceilings_from_trie ?D w' = Inr (Some constitutional_ceilings_default) \<and>
    commit_constitutional_ceilings_at_genesis (\<lambda>_. ''c'') w'
      constitutional_ceilings_default = Inl AlreadyCommitted \<and>
    (\<forall>k. k \<noteq> CEILINGS_TRIE_KEY \<longrightarrow> world_get w' k = world_get world_new k)"
    by (intro ceilings_write_once)
      (simp_all add: world_new_def world_get_def trie_get_def trie_new_def CEILINGS_TRIE_KEY_def)
  then show ?thesis by blast
qed

text \<open>
  The tension history is a bounded window: appending keeps the most recent
  \<open>TENSION_HISTORY_MAX_LEN\<close> samples in order, never more, and the buffer reads back from the
  trie as returned; a consumer's window of \<open>n\<close> samples is the \<open>n\<close> most recent ones.
\<close>

theorem tension_history_bounded:
  assumes "tension_history_from_trie dec w = Inr buf" "append_and_trim enc dec w t = Inr (buf', w')"
    and "dec (enc buf') = Some buf'"
    and "length (enc buf') \<le> entry_cap w" "length TENSION_HISTORY_TRIE_KEY \<le> entry_cap w"
  shows "length buf' \<le> 64 \<and> last buf' = t \<and> (\<exists>dropped. buf @ [t] = dropped @ buf') \<and>
    tension_history_from_trie dec w' = Inr buf' \<and>
    history_window buf' n = drop (length buf' - n) buf'"
proof -
  have b: "buf' = trim_oldest (buf @ [t])" and w: "w' = commit_tension_history enc w buf'"
    using assms(1,2) by (auto simp: append_and_trim_def Let_def)
  have "length buf' \<le> 64"
    using length_trim_oldest [of "buf @ [t]"] b by (simp add: TENSION_HISTORY_MAX_LEN_def)
  moreover have "buf @ [t] = take (length (buf @ [t]) - TENSION_HISTORY_MAX_LEN) (buf @ [t]) @ buf'"
    unfolding b trim_oldest_eq by (simp only: append_take_drop_id)
  moreover have "last buf' = t"
    unfolding b trim_oldest_eq by (subst last_drop) (simp_all add: TENSION_HISTORY_MAX_LEN_def)
  moreover have "tension_history_from_trie dec w' = Inr buf'"
    using assms(3,4,5) unfolding w
    by (simp add: tension_history_from_trie_def commit_tension_history_def apply_delta_single)
  ultimately show ?thesis by (auto simp: history_window_def)
qed

theorem tension_history_bounded_witness:
  "\<exists>w'. append_and_trim (\<lambda>_. ''x'') (\<lambda>_. Some [5]) world_new 5 = Inr ([5], w') \<and>
        tension_history_from_trie (\<lambda>_. Some [5]) w' = Inr [5]"
proof -
  let ?w = "commit_tension_history (\<lambda>_. ''x'') world_new [5]"
  have e: "entry_cap world_new = 1048576"
    by (simp add: world_new_def consensus_params_default_def)
  have h: "tension_history_from_trie (\<lambda>_. Some [5]) world_new = Inr []"
    by (simp add: tension_history_from_trie_def world_new_def world_get_def trie_get_def trie_new_def)
  then have a: "append_and_trim (\<lambda>_. ''x'') (\<lambda>_. Some [5]) world_new 5 = Inr ([5], ?w)"
    by (simp add: append_and_trim_def trim_oldest.simps TENSION_HISTORY_MAX_LEN_def Let_def)
  from tension_history_bounded [OF h a refl] e show ?thesis
    using a by (simp add: TENSION_HISTORY_TRIE_KEY_def)
qed

end
