(* ===== verification/Scc_Escrow.thy ===== *)
theory Scc_Escrow
  imports Scc_Balances Scc_World
begin

text \<open>
  The escrow registry (\<open>crates/sccgub-state/src/escrow.rs\<close>): funds are debited from the sender
  into an append-only list of escrows and credited to the recipient (release, automatic
  release) or back to the sender (refund). The registry and the balance ledger it works on form
  one state; its operations are the steps of a transition relation. The lemmas use the ledger
  only through the contract \<open>value_ledger\<close> and show that no value is created or lost, that an
  escrow is settled at most once, and what happens when two escrows share an identifier.

  BLAKE3 and the canonical encoding of the identifying tuple are parameters. The entry lookup
  \<open>escrows[idx]\<close> panics out of range; the model has that as an error value.
\<close>

section \<open>The registry\<close>

datatype escrow_status = Active | Released | Refunded | Disputed

datatype escrow_condition =
    StateProof (sp_key: bytes) (expected_value: bytes) (required_authority: "agent_id option")
  | ArbiterApproval (arbiter: agent_id)
  | TimeLocked (release_at: nat)

record escrow =
  esc_id :: hash
  sender :: agent_id
  recipient :: agent_id
  amount :: tension_value
  status :: escrow_status
  created_at :: nat
  expires_at :: nat
  condition :: escrow_condition

record escrow_registry =
  escrows :: "escrow list"
  esc_index :: "(hash, nat) hashmap"

datatype escrow_error =
    EscrowAmountNotPositive
  | CannotEscrowToSelf
  | EscrowTimeoutZero
  | EscrowLedger ledger_error
  | EscrowNotFound
  | EscrowNotActive escrow_status
  | EscrowNotExpired nat
  | EscrowIndexPanic

type_synonym escrow_canon = "agent_id \<times> agent_id \<times> int \<times> nat \<Rightarrow> bytes"

definition escrow_registry_new :: escrow_registry where
  "escrow_registry_new = \<lparr>escrows = [], esc_index = []\<rparr>"

definition escrow_create ::
  "(bytes \<Rightarrow> hash) \<Rightarrow> escrow_canon \<Rightarrow> escrow_registry \<Rightarrow> agent_id \<Rightarrow> agent_id \<Rightarrow> tension_value \<Rightarrow>
   escrow_condition \<Rightarrow> nat \<Rightarrow> nat \<Rightarrow> balance_ledger \<Rightarrow>
   escrow_error + (hash \<times> escrow_registry \<times> balance_ledger)" where
  "escrow_create B canon r src rcp amt cond current_height timeout_blocks b =
     (if amt \<le> 0 then Inl EscrowAmountNotPositive
      else if src = rcp then Inl CannotEscrowToSelf
      else if timeout_blocks = 0 then Inl EscrowTimeoutZero
      else
        (case debit b src amt of
           Inl e \<Rightarrow> Inl (EscrowLedger e)
         | Inr b' \<Rightarrow>
             let eid = B (canon (src, rcp, amt, current_height));
                 new = \<lparr>esc_id = eid, sender = src, recipient = rcp, amount = amt,
                        status = Active, created_at = current_height,
                        expires_at = u64_saturating_add current_height timeout_blocks,
                        condition = cond\<rparr>
             in Inr (eid,
                  r\<lparr>escrows := escrows r @ [new],
                    esc_index := AList.update eid (length (escrows r)) (esc_index r)\<rparr>, b')))"

text \<open>The lookup shared by release and refund: an indexed, active escrow.\<close>

definition find_active :: "escrow_registry \<Rightarrow> hash \<Rightarrow> escrow_error + (nat \<times> escrow)" where
  "find_active r eid =
     (case map_of (esc_index r) eid of
        None \<Rightarrow> Inl EscrowNotFound
      | Some idx \<Rightarrow>
          if idx < length (escrows r) then
            (if status (escrows r ! idx) \<noteq> Active
             then Inl (EscrowNotActive (status (escrows r ! idx)))
             else Inr (idx, escrows r ! idx))
          else Inl EscrowIndexPanic)"

definition set_escrow_status :: "escrow_registry \<Rightarrow> nat \<Rightarrow> escrow_status \<Rightarrow> escrow_registry" where
  "set_escrow_status r i st = r\<lparr>escrows := (escrows r)[i := (escrows r ! i)\<lparr>status := st\<rparr>]\<rparr>"

definition escrow_release ::
  "escrow_registry \<Rightarrow> hash \<Rightarrow> balance_ledger \<Rightarrow> escrow_error + (escrow_registry \<times> balance_ledger)" where
  "escrow_release r eid b =
     bind_result (find_active r eid)
       (\<lambda>(idx, e). Inr (set_escrow_status r idx Released, credit b (recipient e) (amount e)))"

definition escrow_refund ::
  "escrow_registry \<Rightarrow> hash \<Rightarrow> nat \<Rightarrow> balance_ledger \<Rightarrow>
   escrow_error + (escrow_registry \<times> balance_ledger)" where
  "escrow_refund r eid current_height b =
     bind_result (find_active r eid)
       (\<lambda>(idx, e).
          if current_height < expires_at e then Inl (EscrowNotExpired (expires_at e))
          else Inr (set_escrow_status r idx Refunded, credit b (sender e) (amount e)))"

definition condition_met ::
  "managed_world_state \<Rightarrow> nat \<Rightarrow> (bytes, hash) hashmap \<Rightarrow> escrow_condition \<Rightarrow> bool" where
  "condition_met w current_height block_writers cond =
     (case cond of
        StateProof key expected required \<Rightarrow>
          (if trie_get (trie w) key \<noteq> Some expected then False
           else (case required of None \<Rightarrow> True | Some a \<Rightarrow> map_of block_writers key = Some a))
      | TimeLocked rel \<Rightarrow> rel \<le> current_height
      | ArbiterApproval _ \<Rightarrow> False)"

text \<open>The loop over the escrows: the list after it, the released ids, the ledger after it.\<close>

fun release_due ::
  "managed_world_state \<Rightarrow> nat \<Rightarrow> (bytes, hash) hashmap \<Rightarrow> escrow list \<Rightarrow> balance_ledger \<Rightarrow>
   escrow list \<times> hash list \<times> balance_ledger" where
  "release_due w h bw [] b = ([], [], b)"
| "release_due w h bw (e # es) b =
     (if status e = Active \<and> condition_met w h bw (condition e)
      then (case release_due w h bw es (credit b (recipient e) (amount e)) of
              (es', ids, b') \<Rightarrow> (e\<lparr>status := Released\<rparr> # es', esc_id e # ids, b'))
      else (case release_due w h bw es b of (es', ids, b') \<Rightarrow> (e # es', ids, b')))"

definition check_and_release ::
  "escrow_registry \<Rightarrow> managed_world_state \<Rightarrow> nat \<Rightarrow> balance_ledger \<Rightarrow> (bytes, hash) hashmap \<Rightarrow>
   hash list \<times> escrow_registry \<times> balance_ledger" where
  "check_and_release r w current_height b block_writers =
     (case release_due w current_height block_writers (escrows r) b of
        (es, ids, b') \<Rightarrow> (ids, r\<lparr>escrows := es\<rparr>, b'))"

definition escrow_get :: "escrow_registry \<Rightarrow> hash \<Rightarrow> escrow option" where
  "escrow_get r eid = map_option (\<lambda>idx. escrows r ! idx) (map_of (esc_index r) eid)"

definition active_count :: "escrow_registry \<Rightarrow> nat" where
  "active_count r = length (filter (\<lambda>e. status e = Active) (escrows r))"

definition total_locked :: "escrow_registry \<Rightarrow> tension_value" where
  "total_locked r =
     fold (\<lambda>e acc. tension_add acc (amount e)) (filter (\<lambda>e. status e = Active) (escrows r)) 0"

section \<open>Conservation\<close>

text \<open>The value an escrow holds, and the exact sum held by a list of escrows.\<close>

definition held :: "escrow \<Rightarrow> int" where
  "held e = (if status e = Active then amount e else 0)"

definition locked :: "escrow list \<Rightarrow> int" where
  "locked es = sum_list (map held es)"

definition escrow_ok :: "escrow_registry \<Rightarrow> balance_ledger \<Rightarrow> bool" where
  "escrow_ok r b \<longleftrightarrow> ledger_ok b \<and> (\<forall>e \<in> set (escrows r). 0 < amount e) \<and>
     ledger_sum b + locked (escrows r) \<le> I128_MAX \<and>
     (\<forall>i \<in> ran (map_of (esc_index r)). i < length (escrows r))"

lemma locked_simps [simp]:
  "locked [] = 0" "locked (e # es) = held e + locked es" "locked (es @ fs) = locked es + locked fs"
  by (simp_all add: locked_def)

lemma locked_nonneg: "\<forall>e \<in> set es. 0 < amount e \<Longrightarrow> 0 \<le> locked es"
  by (induction es) (auto simp: held_def)

lemma locked_update:
  "i < length es \<Longrightarrow> locked (es[i := e]) = locked es - held (es ! i) + held e"
  by (induction es arbitrary: i) (auto split: nat.splits)

lemma held_le_locked:
  "\<forall>e \<in> set es. 0 < amount e \<Longrightarrow> i < length es \<Longrightarrow> held (es ! i) \<le> locked es"
proof (induction es arbitrary: i)
  case (Cons e es)
  then have "0 \<le> locked es" "0 \<le> held e" using locked_nonneg by (auto simp: held_def)
  with Cons show ?case by (cases i) force+
qed simp

lemma find_active_Inr:
  "find_active r eid = Inr (i, e) \<longleftrightarrow>
     map_of (esc_index r) eid = Some i \<and> i < length (escrows r) \<and> e = escrows r ! i \<and>
     status e = Active"
  by (auto simp: find_active_def split: option.splits)

text \<open>Settling one active escrow moves exactly its amount back to the ledger.\<close>

lemma settle_conserves:
  assumes "escrow_ok r b" "find_active r eid = Inr (i, e)" "st \<noteq> Active"
  shows "escrow_ok (set_escrow_status r i st) (credit b a (amount e))"
    "ledger_sum (credit b a (amount e)) + locked (escrows (set_escrow_status r i st)) =
     ledger_sum b + locked (escrows r)"
proof -
  from assms have i: "i < length (escrows r)" "e = escrows r ! i" "status e = Active"
    by (auto simp: find_active_Inr)
  from assms(1) have pos: "\<forall>e \<in> set (escrows r). 0 < amount e"
    and idx: "\<forall>i \<in> ran (map_of (esc_index r)). i < length (escrows r)"
    and b: "ledger_ok b" "ledger_sum b + locked (escrows r) \<le> I128_MAX"
    by (auto simp: escrow_ok_def)
  have h: "held e = amount e" "amount e \<le> locked (escrows r)" "0 \<le> amount e"
    using i held_le_locked [OF pos i(1)] pos by (auto simp: held_def intro: less_imp_le)
  note c = native.cr_after_hold [OF b(1) h(3) h(2) b(2), of a]
  have l: "locked (escrows (set_escrow_status r i st)) = locked (escrows r) - amount e"
    using i h(1) assms(3) by (simp add: set_escrow_status_def locked_update) (simp add: held_def)
  show "ledger_sum (credit b a (amount e)) + locked (escrows (set_escrow_status r i st)) =
      ledger_sum b + locked (escrows r)"
    using c(2) l by simp
  moreover have "\<forall>x \<in> set (escrows (set_escrow_status r i st)). 0 < amount x"
    using pos i by (auto simp: set_escrow_status_def dest!: set_update_subset_insert [THEN subsetD])
  ultimately show "escrow_ok (set_escrow_status r i st) (credit b a (amount e))"
    using c(1) b(2) idx by (simp add: escrow_ok_def) (simp add: set_escrow_status_def)
qed

lemma release_due_conserves:
  assumes "release_due w h bw es b = (es', ids, b')" "ledger_ok b" "\<forall>e \<in> set es. 0 < amount e"
    and "ledger_sum b + locked es + rest \<le> I128_MAX" "0 \<le> rest"
  shows "ledger_ok b' \<and> (\<forall>e \<in> set es'. 0 < amount e) \<and> length es' = length es \<and>
    ledger_sum b' + locked es' = ledger_sum b + locked es"
  using assms
proof (induction es arbitrary: b es' ids b' rest)
  case (Cons e es)
  show ?case
  proof (cases "status e = Active \<and> condition_met w h bw (condition e)")
    case True
    let ?c = "credit b (recipient e) (amount e)"
    obtain fs js where r: "release_due w h bw es ?c = (fs, js, b')" "es' = e\<lparr>status := Released\<rparr> # fs"
      using Cons.prems(1) True by (auto split: prod.splits)
    have a: "0 \<le> amount e" "0 \<le> locked es" "held e = amount e"
      using Cons.prems(3) True locked_nonneg [of es] by (auto simp: held_def)
    then have "ledger_sum b + amount e \<le> I128_MAX" using Cons.prems(4,5) by simp
    with a Cons.prems(2) have "ledger_ok ?c" "ledger_sum ?c = ledger_sum b + amount e"
      by (simp_all add: native.cr_ok native.cr_total)
    with Cons.IH [OF r(1), of rest] Cons.prems(3,4,5) a r(2) show ?thesis
      by (auto simp: held_def)
  next
    case False
    then obtain fs js where r: "release_due w h bw es b = (fs, js, b')" "es' = e # fs"
      using Cons.prems(1) by (auto split: prod.splits)
    have "0 \<le> held e" using Cons.prems(3) by (auto simp: held_def)
    with Cons.IH [OF r(1), of "rest + held e"] Cons.prems r(2) show ?thesis by auto
  qed
qed simp

section \<open>The registry as a transition system\<close>

inductive escrow_step ::
  "(bytes \<Rightarrow> hash) \<Rightarrow> escrow_canon \<Rightarrow> escrow_registry \<times> balance_ledger \<Rightarrow>
   escrow_registry \<times> balance_ledger \<Rightarrow> bool" for B canon where
  step_create: "escrow_create B canon r s t a c h n b = Inr (eid, r', b') \<Longrightarrow>
     escrow_step B canon (r, b) (r', b')"
| step_release: "escrow_release r eid b = Inr (r', b') \<Longrightarrow> escrow_step B canon (r, b) (r', b')"
| step_refund: "escrow_refund r eid h b = Inr (r', b') \<Longrightarrow> escrow_step B canon (r, b) (r', b')"
| step_auto: "check_and_release r w h b bw = (ids, r', b') \<Longrightarrow> escrow_step B canon (r, b) (r', b')"

inductive_cases escrow_stepE: "escrow_step B canon (r, b) (r', b')"

lemma create_Inr:
  "escrow_create B canon r s t a c h n b = Inr (eid, r', b') \<longleftrightarrow>
     0 < a \<and> s \<noteq> t \<and> n \<noteq> 0 \<and> debit b s a = Inr b' \<and> eid = B (canon (s, t, a, h)) \<and>
     r' = r\<lparr>escrows := escrows r @
              [\<lparr>esc_id = eid, sender = s, recipient = t, amount = a, status = Active,
                created_at = h, expires_at = u64_saturating_add h n, condition = c\<rparr>],
            esc_index := AList.update eid (length (escrows r)) (esc_index r)\<rparr>"
  by (auto simp: escrow_create_def Let_def split: sum.splits)

lemma release_Inr:
  "escrow_release r eid b = Inr (r', b') \<longleftrightarrow>
     (\<exists>i e. find_active r eid = Inr (i, e) \<and> r' = set_escrow_status r i Released \<and>
        b' = credit b (recipient e) (amount e))"
  by (auto simp: escrow_release_def bind_result_Inr)

lemma refund_Inr:
  "escrow_refund r eid h b = Inr (r', b') \<longleftrightarrow>
     (\<exists>i e. find_active r eid = Inr (i, e) \<and> expires_at e \<le> h \<and>
        r' = set_escrow_status r i Refunded \<and> b' = credit b (sender e) (amount e))"
  by (auto simp: escrow_refund_def bind_result_Inr not_less split: if_splits)

lemma create_conserves:
  assumes "escrow_ok r b" "escrow_create B canon r s t a c h n b = Inr (eid, r', b')"
  shows "escrow_ok r' b' \<and> ledger_sum b' + locked (escrows r') = ledger_sum b + locked (escrows r)"
proof -
  from assms(2) have c: "0 < a" "debit b s a = Inr b'" by (simp_all add: create_Inr)
  from assms(1) have b: "ledger_ok b" by (simp add: escrow_ok_def)
  have "ledger_ok b'" "ledger_sum b' = ledger_sum b - a"
    using native.db_ok [OF b _ c(2)] native.db_total [OF b _ c(2)] c(1) by simp_all
  moreover have "ran (map_of (esc_index r')) \<subseteq> insert (length (escrows r)) (ran (map_of (esc_index r)))"
    using assms(2) by (auto simp: create_Inr ran_def split: if_splits)
  moreover have "escrows r' = escrows r @
      [\<lparr>esc_id = eid, sender = s, recipient = t, amount = a, status = Active,
        created_at = h, expires_at = u64_saturating_add h n, condition = c\<rparr>]"
    using assms(2) by (simp add: create_Inr)
  ultimately show ?thesis
    using assms(1) c(1) by (auto simp: escrow_ok_def held_def less_Suc_eq)
qed

lemma auto_conserves:
  assumes "escrow_ok r b" "check_and_release r w h b bw = (ids, r', b')"
  shows "escrow_ok r' b' \<and> ledger_sum b' + locked (escrows r') = ledger_sum b + locked (escrows r)"
proof -
  obtain es where es: "release_due w h bw (escrows r) b = (es, ids, b')" "r' = r\<lparr>escrows := es\<rparr>"
    using assms(2) by (auto simp: check_and_release_def split: prod.splits)
  from release_due_conserves [OF es(1), of 0] assms(1) es(2) show ?thesis
    by (simp add: escrow_ok_def)
qed

lemma release_conserves:
  assumes "escrow_ok r b" "escrow_release r eid b = Inr (r', b')"
  shows "escrow_ok r' b' \<and> ledger_sum b' + locked (escrows r') = ledger_sum b + locked (escrows r)"
  using assms settle_conserves unfolding release_Inr by (metis escrow_status.distinct(1))

lemma refund_conserves:
  assumes "escrow_ok r b" "escrow_refund r eid h b = Inr (r', b')"
  shows "escrow_ok r' b' \<and> ledger_sum b' + locked (escrows r') = ledger_sum b + locked (escrows r)"
  using assms settle_conserves unfolding refund_Inr by (metis escrow_status.distinct(3))

lemma escrow_step_conserves:
  assumes "escrow_step B canon (r, b) (r', b')" "escrow_ok r b"
  shows "escrow_ok r' b' \<and> ledger_sum b' + locked (escrows r') = ledger_sum b + locked (escrows r)"
  using assms
  by (elim escrow_stepE)
    (blast dest: create_conserves release_conserves refund_conserves auto_conserves)+

text \<open>
  What every step keeps of the escrows already there: nothing but the status of an active
  escrow changes.
\<close>

definition frozen_by :: "escrow list \<Rightarrow> escrow list \<Rightarrow> bool" where
  "frozen_by es es' \<longleftrightarrow> length es \<le> length es' \<and>
     (\<forall>i < length es. \<exists>st. es' ! i = (es ! i)\<lparr>status := st\<rparr> \<and>
        (status (es ! i) \<noteq> Active \<longrightarrow> st = status (es ! i)))"

lemma status_surj [simp]: "e\<lparr>status := status e\<rparr> = (e :: escrow)"
  by simp

lemma frozen_by_refl: "frozen_by es es"
  unfolding frozen_by_def by (metis order_refl status_surj)

lemma frozen_by_trans:
  assumes "frozen_by es fs" "frozen_by fs gs"
  shows "frozen_by es gs"
  unfolding frozen_by_def
proof (intro conjI allI impI)
  show "length es \<le> length gs" using assms by (simp add: frozen_by_def)
  fix i assume i: "i < length es"
  with assms(1) obtain s1 where 1: "fs ! i = (es ! i)\<lparr>status := s1\<rparr>"
    "status (es ! i) \<noteq> Active \<longrightarrow> s1 = status (es ! i)" by (auto simp: frozen_by_def)
  from i assms have "i < length fs" by (simp add: frozen_by_def)
  with assms(2) obtain s2 where 2: "gs ! i = (fs ! i)\<lparr>status := s2\<rparr>"
    "status (fs ! i) \<noteq> Active \<longrightarrow> s2 = status (fs ! i)" by (auto simp: frozen_by_def)
  from 1 2 show "\<exists>st. gs ! i = (es ! i)\<lparr>status := st\<rparr> \<and>
      (status (es ! i) \<noteq> Active \<longrightarrow> st = status (es ! i))" by auto
qed

lemma frozen_by_append: "frozen_by es (es @ fs)"
  unfolding frozen_by_def by (metis le_add1 length_append nth_append status_surj)

lemma frozen_by_set:
  assumes "status (es ! i) = Active"
  shows "frozen_by es (es[i := (es ! i)\<lparr>status := st\<rparr>])"
  unfolding frozen_by_def
proof (intro conjI allI impI)
  fix j assume "j < length es"
  then show "\<exists>st'. es[i := (es ! i)\<lparr>status := st\<rparr>] ! j = (es ! j)\<lparr>status := st'\<rparr> \<and>
      (status (es ! j) \<noteq> Active \<longrightarrow> st' = status (es ! j))"
    using assms by (cases "i = j") (auto intro: exI [of _ "status (es ! j)"])
qed simp

lemma release_due_frozen:
  "release_due w h bw es b = (es', ids, b') \<Longrightarrow> frozen_by es es'"
proof (induction es arbitrary: b es' ids b')
  case Nil
  then show ?case by (simp add: frozen_by_refl)
next
  case (Cons e es)
  then obtain e' fs js c b'' where r: "release_due w h bw es c = (fs, js, b'')" "es' = e' # fs"
    "e' = e \<or> (e' = e\<lparr>status := Released\<rparr> \<and> status e = Active)"
    by (auto split: if_splits prod.splits)
  with Cons.IH have f: "frozen_by es fs" by blast
  show ?case
    unfolding frozen_by_def
  proof (intro conjI allI impI)
    show "length (e # es) \<le> length es'" using f r(2) by (simp add: frozen_by_def)
    fix i assume "i < length (e # es)"
    then show "\<exists>st. es' ! i = ((e # es) ! i)\<lparr>status := st\<rparr> \<and>
        (status ((e # es) ! i) \<noteq> Active \<longrightarrow> st = status ((e # es) ! i))"
      using f r(2,3) by (cases i) (auto simp: frozen_by_def intro: exI [of _ "status e"])
  qed
qed

lemma escrow_step_frozen:
  assumes "escrow_step B canon (r, b) (r', b')"
  shows "frozen_by (escrows r) (escrows r')"
  using assms
  by (cases rule: escrow_stepE)
    (auto simp: create_Inr release_Inr refund_Inr check_and_release_def find_active_Inr
      set_escrow_status_def intro: frozen_by_append frozen_by_set release_due_frozen
      split: prod.splits)

section \<open>Runs\<close>

lemma escrow_run_conserves:
  assumes "(escrow_step B canon)\<^sup>*\<^sup>* (r, b) (r', b')" "escrow_ok r b"
  shows "escrow_ok r' b' \<and> ledger_sum b' + locked (escrows r') = ledger_sum b + locked (escrows r)"
  using assms
proof (induction rule: rtranclp_induct2)
  case (step r1 b1 r2 b2)
  then show ?case using escrow_step_conserves by metis
qed simp

lemma escrow_run_frozen:
  assumes "(escrow_step B canon)\<^sup>*\<^sup>* (r, b) (r', b')"
  shows "frozen_by (escrows r) (escrows r')"
  using assms
  by (induction rule: rtranclp_induct2)
    (auto intro: frozen_by_refl frozen_by_trans escrow_step_frozen)

lemma locked_filter: "sum_list (map amount (filter (\<lambda>e. status e = Active) es)) = locked es"
  by (induction es) (simp_all add: held_def)

lemma total_locked_exact:
  assumes "escrow_ok r b"
  shows "total_locked r = locked (escrows r)"
proof -
  let ?vs = "map amount (filter (\<lambda>e. status e = Active) (escrows r))"
  have pos: "\<forall>v \<in> set ?vs. 0 \<le> v" using assms by (auto simp: escrow_ok_def)
  have sum: "sum_list ?vs = locked (escrows r)"
    by (simp add: locked_filter)
  have "total_locked r = fold (\<lambda>v a. i128_saturating_add a v) ?vs 0"
    by (simp add: total_locked_def fold_map comp_def tension_add_def)
  also have "\<dots> = min (locked (escrows r)) I128_MAX"
    using fold_saturating_add_nonneg [OF _ _ pos, of 0] by (simp add: sum)
  also have "\<dots> = locked (escrows r)"
    using assms native.total_nonneg [of b] by (simp add: escrow_ok_def)
  finally show ?thesis .
qed

lemma escrow_ok_new: "ledger_ok b \<Longrightarrow> escrow_ok escrow_registry_new b"
  by (simp add: escrow_ok_def escrow_registry_new_def ledger_ok_def)

section \<open>Properties\<close>

text \<open>
  C14. Escrow conservation: over any interleaving of creations, releases, refunds and automatic
  releases starting from an empty registry, the free balances plus the value locked in active
  escrows stay equal to the initial supply, and \<open>total_locked\<close> reports that value exactly.
\<close>

theorem escrow_conservation:
  assumes "ledger_ok b0" "(escrow_step B canon)\<^sup>*\<^sup>* (escrow_registry_new, b0) (r, b)"
  shows "ledger_sum b + total_locked r = ledger_sum b0 \<and> ledger_ok b \<and> 0 \<le> total_locked r"
proof -
  have "escrow_ok r b" "ledger_sum b + locked (escrows r) = ledger_sum b0"
    using escrow_run_conserves [OF assms(2) escrow_ok_new [OF assms(1)]]
    by (simp_all add: escrow_registry_new_def)
  then show ?thesis
    using locked_nonneg [of "escrows r"] by (simp add: total_locked_exact) (simp add: escrow_ok_def)
qed

definition sample_ledger :: balance_ledger where
  "sample_ledger = credit ledger_new 2 100"

lemma sample_create:
  "\<exists>r b. escrow_create B canon escrow_registry_new 2 3 40 (TimeLocked 9) 5 10 sample_ledger =
     Inr (B (canon (2, 3, 40, 5)), r, b)"
  by (simp add: escrow_create_def sample_ledger_def credit_def debit_def ledger_new_def
      balance_of_def Let_def tension_ops i128_ops machine_int)

lemma sample_ledger_ok: "ledger_ok sample_ledger"
  unfolding sample_ledger_def by (rule native.cr_ok) (simp_all add: machine_int)

theorem escrow_conservation_witness:
  "\<exists>r b. escrow_create (\<lambda>_. 7) (\<lambda>_. []) escrow_registry_new 2 3 40 (TimeLocked 9) 5 10 sample_ledger
       = Inr (7, r, b) \<and> ledger_sum b + total_locked r = ledger_sum sample_ledger"
proof -
  obtain r b where c: "escrow_create (\<lambda>_. 7) (\<lambda>_. []) escrow_registry_new 2 3 40 (TimeLocked 9) 5 10
      sample_ledger = Inr (7, r, b)"
    using sample_create [of "\<lambda>_. 7" "\<lambda>_. []"] by auto
  then have "(escrow_step (\<lambda>_. 7) (\<lambda>_. []))\<^sup>*\<^sup>* (escrow_registry_new, sample_ledger) (r, b)"
    by (intro r_into_rtranclp step_create)
  from escrow_conservation [OF sample_ledger_ok this] c show ?thesis by blast
qed

text \<open>
  An escrow is settled at most once: when an escrow is no longer active, no later sequence
  of operations changes any of its fields, and a release or refund that reaches it is refused
  with its status.
\<close>

theorem escrow_settled_once:
  assumes "(escrow_step B canon)\<^sup>*\<^sup>* (r, b) (r', b')" "i < length (escrows r)"
    and "status (escrows r ! i) \<noteq> Active" "map_of (esc_index r') eid = Some i"
  shows "escrows r' ! i = escrows r ! i \<and>
    escrow_release r' eid b'' = Inl (EscrowNotActive (status (escrows r ! i))) \<and>
    escrow_refund r' eid h b'' = Inl (EscrowNotActive (status (escrows r ! i)))"
proof -
  have "frozen_by (escrows r) (escrows r')" using assms(1) by (rule escrow_run_frozen)
  with assms(2,3) have e: "escrows r' ! i = escrows r ! i" "i < length (escrows r')"
    unfolding frozen_by_def by (metis status_surj) (use \<open>frozen_by _ _\<close> assms(2) in \<open>simp add: frozen_by_def\<close>)
  then have "find_active r' eid = Inl (EscrowNotActive (status (escrows r ! i)))"
    using assms(3,4) by (simp add: find_active_def)
  with e show ?thesis by (simp add: escrow_release_def escrow_refund_def)
qed

theorem escrow_settled_once_witness:
  "let e = \<lparr>esc_id = 7, sender = 2, recipient = 3, amount = 40, status = Released, created_at = 5,
            expires_at = 15, condition = TimeLocked 9\<rparr>;
       r = \<lparr>escrows = [e], esc_index = [(7, 0)]\<rparr>
   in escrow_refund r 7 100 ledger_new = Inl (EscrowNotActive Released)"
proof -
  let ?e = "\<lparr>esc_id = 7, sender = 2, recipient = 3, amount = 40, status = Released, created_at = 5,
            expires_at = 15, condition = TimeLocked 9\<rparr> :: escrow"
  let ?r = "\<lparr>escrows = [?e], esc_index = [(7, 0)]\<rparr> :: escrow_registry"
  have "(escrow_step (\<lambda>_. 7) (\<lambda>_. []))\<^sup>*\<^sup>* (?r, ledger_new) (?r, ledger_new)" by simp
  from escrow_settled_once [OF this, of 0 7 ledger_new 100] show ?thesis by simp
qed

text \<open>
  Two escrows created at the same height by the same sender for the same recipient and
  amount get the same identifier, and the index keeps only the second. After the second is
  released, release and refund by that identifier are refused for ever, while the first escrow
  is still active with its funds locked: no identifier leads to it any more.
\<close>

theorem escrow_id_reuse_strands_funds:
  assumes "escrow_create B canon r s t a c h n b = Inr (eid, r1, b1)"
    and "escrow_create B canon r1 s t a c' h n' b1 = Inr (eid', r2, b2)"
    and "escrow_ok r b"
  shows "eid' = eid \<and> (\<exists>r3 b3. escrow_release r2 eid b2 = Inr (r3, b3) \<and>
    escrow_refund r3 eid h' b3 = Inl (EscrowNotActive Released) \<and>
    status (escrows r3 ! length (escrows r)) = Active \<and>
    amount (escrows r3 ! length (escrows r)) = a \<and>
    (\<forall>k. map_of (esc_index r3) k \<noteq> Some (length (escrows r))))"
proof -
  have idx: "map_of (esc_index r) k \<noteq> Some (length (escrows r))" for k
    using assms(3) by (auto simp: escrow_ok_def ran_def)
  have "find_active r2 eid = Inr (Suc (length (escrows r)), escrows r2 ! Suc (length (escrows r)))"
    using assms(1,2) by (auto simp: find_active_Inr create_Inr nth_append)
  then obtain r3 b3 where r3: "escrow_release r2 eid b2 = Inr (r3, b3)"
    "r3 = set_escrow_status r2 (Suc (length (escrows r))) Released"
    by (auto simp: escrow_release_def)
  have "eid' = eid" "escrow_refund r3 eid h' b3 = Inl (EscrowNotActive Released)"
    "status (escrows r3 ! length (escrows r)) = Active" "amount (escrows r3 ! length (escrows r)) = a"
    "\<forall>k. map_of (esc_index r3) k \<noteq> Some (length (escrows r))"
    using assms(1,2) r3(2) idx
    by (auto simp: create_Inr set_escrow_status_def escrow_refund_def find_active_def nth_append
        nth_list_update)
  with r3(1) show ?thesis by blast
qed

theorem escrow_id_reuse_witness:
  "\<exists>eid r1 b1 r2 b2.
     escrow_create (\<lambda>_. 7) (\<lambda>_. []) escrow_registry_new 2 3 40 (TimeLocked 9) 5 10 sample_ledger
       = Inr (eid, r1, b1) \<and>
     escrow_create (\<lambda>_. 7) (\<lambda>_. []) r1 2 3 40 (ArbiterApproval 4) 5 10 b1 = Inr (eid, r2, b2)"
proof -
  let ?mk = "\<lambda>r c b. escrow_create (\<lambda>_. 7) (\<lambda>_. []) r 2 3 40 c 5 10 b"
  obtain r1 b1 where c1: "?mk escrow_registry_new (TimeLocked 9) sample_ledger = Inr (7, r1, b1)"
    using sample_create [of "\<lambda>_. 7" "\<lambda>_. []"] by auto
  then have "debit sample_ledger 2 40 = Inr b1" by (simp add: create_Inr)
  then have "balance_of b1 2 = 60"
    using native.db_bal [OF sample_ledger_ok, of 40 2 b1 2]
    by (simp add: sample_ledger_def credit_def ledger_new_def balance_of_def tension_ops i128_ops
        machine_int)
  then obtain b2 where "debit b1 2 40 = Inr b2" by (auto simp: debit_def Let_def)
  then obtain eid' r2 where c2: "?mk r1 (ArbiterApproval 4) b1 = Inr (eid', r2, b2)"
    by (auto simp: escrow_create_def Let_def)
  have "eid' = 7"
    using escrow_id_reuse_strands_funds [OF c1 c2 escrow_ok_new [OF sample_ledger_ok]] by simp
  with c1 c2 show ?thesis by blast
qed

end
