(* ===== verification/Scc_Assets.thy ===== *)
theory Scc_Assets
  imports Scc_Tension
begin

text \<open>
  The multi-asset ledger (\<open>crates/sccgub-state/src/assets.rs\<close>): registered assets, balances per
  agent and asset, and a running supply per asset. The invariant is that the recorded supply of
  every asset is the sum of the balances held in it; every operation keeps it as long as no
  amount is negative and the supply fits the machine range. Burning lacks the sign check that
  minting and transferring have, and the last property shows what that allows.
\<close>

section \<open>The ledger\<close>

type_synonym asset_id = hash

datatype asset_type =
    NativeAsset
  | Stablecoin (currency: string)
  | Bond (maturity_height: nat)
  | RealEstate
  | Commodity (commodity: string)
  | CustomAsset (asset_domain: string)

record asset_info =
  ai_id :: asset_id
  ai_name :: string
  ai_asset_type :: asset_type
  issuer :: agent_id
  created_at_height :: nat
  frozen :: bool

record multi_asset_ledger =
  asset_balances :: "(agent_id \<times> asset_id, tension_value) hashmap"
  asset_supply :: "(asset_id, tension_value) hashmap"
  asset_infos :: "(asset_id, asset_info) hashmap"

datatype asset_error =
    AssetAlreadyRegistered | AssetNotRegistered | AssetFrozen | AmountNotPositive
  | InsufficientForBurn | InsufficientAssetBalance | AssetTransferToSelf | AssetNotFound

definition asset_ledger_new :: multi_asset_ledger where
  "asset_ledger_new = \<lparr>asset_balances = [], asset_supply = [], asset_infos = []\<rparr>"

definition asset_balance_of :: "multi_asset_ledger \<Rightarrow> agent_id \<Rightarrow> asset_id \<Rightarrow> tension_value" where
  "asset_balance_of l agent asset =
     (case map_of (asset_balances l) (agent, asset) of None \<Rightarrow> 0 | Some v \<Rightarrow> v)"

definition supply_of :: "multi_asset_ledger \<Rightarrow> asset_id \<Rightarrow> tension_value" where
  "supply_of l asset = (case map_of (asset_supply l) asset of None \<Rightarrow> 0 | Some v \<Rightarrow> v)"

definition register_asset :: "multi_asset_ledger \<Rightarrow> asset_info \<Rightarrow> asset_error + multi_asset_ledger" where
  "register_asset l info =
     (if map_of (asset_infos l) (ai_id info) \<noteq> None then Inl AssetAlreadyRegistered
      else Inr (l\<lparr>asset_supply := AList.update (ai_id info) 0 (asset_supply l),
                  asset_infos := AList.update (ai_id info) info (asset_infos l)\<rparr>))"

definition asset_mint ::
  "multi_asset_ledger \<Rightarrow> asset_id \<Rightarrow> agent_id \<Rightarrow> tension_value \<Rightarrow> asset_error + multi_asset_ledger" where
  "asset_mint l asset to amt =
     (case map_of (asset_infos l) asset of
        None \<Rightarrow> Inl AssetNotRegistered
      | Some info \<Rightarrow>
          if frozen info then Inl AssetFrozen
          else if amt \<le> 0 then Inl AmountNotPositive
          else Inr (l\<lparr>asset_balances :=
                        AList.update (to, asset) (tension_add (asset_balance_of l to asset) amt)
                          (asset_balances l),
                      asset_supply :=
                        AList.update asset (tension_add (supply_of l asset) amt) (asset_supply l)\<rparr>))"

definition asset_burn ::
  "multi_asset_ledger \<Rightarrow> asset_id \<Rightarrow> agent_id \<Rightarrow> tension_value \<Rightarrow> asset_error + multi_asset_ledger" where
  "asset_burn l asset src amt =
     (case map_of (asset_infos l) asset of
        None \<Rightarrow> Inl AssetNotRegistered
      | Some info \<Rightarrow>
          if frozen info then Inl AssetFrozen
          else if asset_balance_of l src asset < amt then Inl InsufficientForBurn
          else Inr (l\<lparr>asset_balances :=
                        AList.update (src, asset) (tension_sub (asset_balance_of l src asset) amt)
                          (asset_balances l),
                      asset_supply :=
                        AList.update asset (tension_sub (supply_of l asset) amt) (asset_supply l)\<rparr>))"

definition asset_transfer ::
  "multi_asset_ledger \<Rightarrow> asset_id \<Rightarrow> agent_id \<Rightarrow> agent_id \<Rightarrow> tension_value \<Rightarrow>
   asset_error + multi_asset_ledger" where
  "asset_transfer l asset src dst amt =
     (if amt \<le> 0 then Inl AmountNotPositive
      else if src = dst then Inl AssetTransferToSelf
      else
        (case map_of (asset_infos l) asset of
           None \<Rightarrow> Inl AssetNotRegistered
         | Some info \<Rightarrow>
             if frozen info then Inl AssetFrozen
             else if asset_balance_of l src asset < amt then Inl InsufficientAssetBalance
             else
               let l' = l\<lparr>asset_balances :=
                            AList.update (src, asset) (tension_sub (asset_balance_of l src asset) amt)
                              (asset_balances l)\<rparr>
               in Inr (l'\<lparr>asset_balances :=
                            AList.update (dst, asset) (tension_add (asset_balance_of l' dst asset) amt)
                              (asset_balances l')\<rparr>)))"

definition freeze_asset :: "multi_asset_ledger \<Rightarrow> asset_id \<Rightarrow> asset_error + multi_asset_ledger" where
  "freeze_asset l asset =
     (case map_of (asset_infos l) asset of
        None \<Rightarrow> Inl AssetNotFound
      | Some info \<Rightarrow>
          Inr (l\<lparr>asset_infos := AList.update asset (info\<lparr>frozen := True\<rparr>) (asset_infos l)\<rparr>))"

section \<open>Supply\<close>

text \<open>The exact amount of an asset in circulation.\<close>

definition holdings :: "((agent_id \<times> asset_id) \<times> tension_value) list \<Rightarrow> asset_id \<Rightarrow> int" where
  "holdings m asset = sum_list (map snd (filter (\<lambda>e. snd (fst e) = asset) m))"

definition assets_ok :: "multi_asset_ledger \<Rightarrow> bool" where
  "assets_ok l \<longleftrightarrow>
     keys_distinct (asset_balances l) \<and> (\<forall>v \<in> snd ` set (asset_balances l). 0 \<le> v) \<and>
     (\<forall>asset. supply_of l asset = holdings (asset_balances l) asset) \<and>
     (\<forall>asset. holdings (asset_balances l) asset \<le> I128_MAX) \<and>
     (\<forall>asset. map_of (asset_infos l) asset = None \<longrightarrow> holdings (asset_balances l) asset = 0)"

lemma holdings_update:
  assumes "keys_distinct m"
  shows "holdings (AList.update (a, x) v m) y =
    holdings m y + (if y = x then v - (case map_of m (a, x) of None \<Rightarrow> 0 | Some w \<Rightarrow> w) else 0)"
  using assms
proof (induction m)
  case (Cons e m)
  show ?case
  proof (cases "fst e = (a, x)")
    case True
    with Cons.prems show ?thesis by (cases e) (auto simp: holdings_def)
  next
    case False
    then have "holdings (AList.update (a, x) v (e # m)) y =
        (if snd (fst e) = y then snd e else 0) + holdings (AList.update (a, x) v m) y"
      by (cases e) (auto simp: holdings_def)
    moreover have "holdings (e # m) y = (if snd (fst e) = y then snd e else 0) + holdings m y"
      by (simp add: holdings_def)
    moreover have "map_of (e # m) (a, x) = map_of m (a, x)" using False by (cases e) auto
    ultimately show ?thesis using Cons by simp
  qed
qed (simp add: holdings_def)

lemma holding_le_holdings:
  assumes "\<forall>v \<in> snd ` set m. 0 \<le> v" "map_of m (a, x) = Some w"
  shows "w \<le> holdings m x"
proof -
  have "w \<in> set (map snd (filter (\<lambda>e. snd (fst e) = x) m))"
    using assms(2) by (force dest!: map_of_SomeD)
  then show ?thesis
    unfolding holdings_def by (rule member_le_sum_list_int) (use assms(1) in auto)
qed

lemma holdings_nonneg: "\<forall>v \<in> snd ` set m. 0 \<le> v \<Longrightarrow> 0 \<le> holdings m x"
  unfolding holdings_def by (rule sum_list_nonneg) auto

lemma asset_balance_range:
  assumes "assets_ok l"
  shows "0 \<le> asset_balance_of l a x" "asset_balance_of l a x \<le> supply_of l x"
proof -
  have p: "\<forall>v \<in> snd ` set (asset_balances l). 0 \<le> v"
    and s: "supply_of l x = holdings (asset_balances l) x"
    using assms by (simp_all add: assets_ok_def)
  show "0 \<le> asset_balance_of l a x"
    using p by (auto simp: asset_balance_of_def split: option.splits dest!: map_of_SomeD)
  show "asset_balance_of l a x \<le> supply_of l x"
    unfolding s using p holding_le_holdings [OF p] holdings_nonneg [OF p]
    by (auto simp: asset_balance_of_def split: option.splits)
qed

lemma holdings_set:
  assumes "assets_ok l"
  shows "holdings (AList.update (a, x) v (asset_balances l)) y =
    holdings (asset_balances l) y + (if y = x then v - asset_balance_of l a x else 0)"
  using assms by (simp add: assets_ok_def holdings_update asset_balance_of_def)

text \<open>Changing one balance and the supply of its asset by the same amount.\<close>

lemma assets_ok_adjust:
  assumes "assets_ok l" "map_of (asset_infos l) x \<noteq> None" "0 \<le> v"
    and "n = supply_of l x + (v - asset_balance_of l a x)" "n \<le> I128_MAX"
  shows "assets_ok (l\<lparr>asset_balances := AList.update (a, x) v (asset_balances l),
                      asset_supply := AList.update x n (asset_supply l)\<rparr>)" (is "assets_ok ?l'")
proof -
  have "supply_of ?l' y = (if y = x then n else supply_of l y)" for y
    by (simp add: supply_of_def)
  moreover have "\<forall>w \<in> snd ` set (AList.update (a, x) v (asset_balances l)). 0 \<le> w"
    using assms(1,3) by (intro ball_snd_update) (auto simp: assets_ok_def)
  ultimately show ?thesis
    using assms(1,2,4,5) holdings_set [OF assms(1), of a x v] by (auto simp: assets_ok_def)
qed

lemma mint_ok:
  assumes "assets_ok l" "asset_mint l x a amt = Inr l'" "supply_of l x + amt \<le> I128_MAX"
  shows "assets_ok l' \<and> supply_of l' x = supply_of l x + amt"
proof -
  have m: "0 < amt" "map_of (asset_infos l) x \<noteq> None"
    using assms(2) by (auto simp: asset_mint_def split: option.splits if_splits)
  note r = asset_balance_range [OF assms(1), of a x]
  have e: "tension_add (asset_balance_of l a x) amt = asset_balance_of l a x + amt"
    "tension_add (supply_of l x) amt = supply_of l x + amt"
    using m r assms(3) by (simp_all add: tension_add_exact)
  have l': "l' = l\<lparr>asset_balances := AList.update (a, x) (asset_balance_of l a x + amt) (asset_balances l),
      asset_supply := AList.update x (supply_of l x + amt) (asset_supply l)\<rparr>"
    using assms(2) e by (auto simp: asset_mint_def split: option.splits if_splits)
  have "assets_ok l'"
    unfolding l' by (rule assets_ok_adjust [OF assms(1) m(2)]) (use r m assms(3) in auto)
  then show ?thesis by (simp add: l' supply_of_def)
qed

lemma burn_ok:
  assumes "assets_ok l" "asset_burn l x a amt = Inr l'" "0 \<le> amt"
  shows "assets_ok l' \<and> supply_of l' x = supply_of l x - amt"
proof -
  have m: "amt \<le> asset_balance_of l a x" "map_of (asset_infos l) x \<noteq> None"
    using assms(2) by (auto simp: asset_burn_def split: option.splits if_splits)
  note r = asset_balance_range [OF assms(1), of a x]
  have c: "supply_of l x \<le> I128_MAX" using assms(1) by (simp add: assets_ok_def)
  have e: "tension_sub (asset_balance_of l a x) amt = asset_balance_of l a x - amt"
    "tension_sub (supply_of l x) amt = supply_of l x - amt"
    using m r c assms(3) by (simp_all add: tension_sub_exact)
  have l': "l' = l\<lparr>asset_balances := AList.update (a, x) (asset_balance_of l a x - amt) (asset_balances l),
      asset_supply := AList.update x (supply_of l x - amt) (asset_supply l)\<rparr>"
    using assms(2) e by (auto simp: asset_burn_def split: option.splits if_splits)
  have "assets_ok l'"
    unfolding l' by (rule assets_ok_adjust [OF assms(1) m(2)]) (use r m c assms(3) in auto)
  then show ?thesis by (simp add: l' supply_of_def)
qed

lemma transfer_ok:
  assumes "assets_ok l" "asset_transfer l x a b amt = Inr l'"
  shows "assets_ok l' \<and> supply_of l' x = supply_of l x \<and>
    asset_balance_of l' a x = asset_balance_of l a x - amt \<and>
    asset_balance_of l' b x = asset_balance_of l b x + amt"
proof -
  let ?d = "asset_balance_of l a x - amt" and ?c = "asset_balance_of l b x + amt"
  have m: "0 < amt" "a \<noteq> b" "amt \<le> asset_balance_of l a x" "map_of (asset_infos l) x \<noteq> None"
    using assms(2) by (auto simp: asset_transfer_def Let_def split: option.splits if_splits)
  note ra = asset_balance_range [OF assms(1), of a x] and rb = asset_balance_range [OF assms(1), of b x]
  have c: "supply_of l x \<le> I128_MAX" using assms(1) by (simp add: assets_ok_def)
  have "tension_sub (asset_balance_of l a x) amt = ?d"
    using m ra c by (simp add: tension_sub_exact)
  moreover define m1 where "m1 = AList.update (a, x) ?d (asset_balances l)"
  define l1 where "l1 = l\<lparr>asset_balances := m1, asset_supply := AList.update x (supply_of l x - amt) (asset_supply l)\<rparr>"
  have ok1: "assets_ok l1"
    unfolding l1_def m1_def by (rule assets_ok_adjust [OF assms(1) m(4)]) (use ra m c in auto)
  have b1: "asset_balance_of l1 b x = asset_balance_of l b x" "supply_of l1 x = supply_of l x - amt"
    "asset_infos l1 = asset_infos l"
    using m(2) by (simp_all add: l1_def m1_def asset_balance_of_def supply_of_def)
  have le: "?c \<le> I128_MAX" "tension_add (asset_balance_of l b x) amt = ?c"
    using asset_balance_range(2) [OF ok1, of b x] b1 rb m c by (auto simp: tension_add_exact)
  define l2 where "l2 = l1\<lparr>asset_balances := AList.update (b, x) ?c (asset_balances l1),
      asset_supply := AList.update x (supply_of l x) (asset_supply l1)\<rparr>"
  have ok2: "assets_ok l2"
    unfolding l2_def by (rule assets_ok_adjust [OF ok1]) (use b1 m(1,4) rb c in auto)
  have l': "l' = l\<lparr>asset_balances := AList.update (b, x) ?c m1\<rparr>"
    using assms(2) calculation le(2) m(2)
    by (auto simp: asset_transfer_def Let_def m1_def asset_balance_of_def
        split: option.splits if_splits)
  have "supply_of l' y = supply_of l2 y" for y
    by (simp add: l' l2_def l1_def supply_of_def split: option.split)
  moreover have "asset_balances l' = asset_balances l2" "asset_infos l' = asset_infos l2"
    by (simp_all add: l' l2_def l1_def)
  ultimately have "assets_ok l'" using ok2 by (simp add: assets_ok_def)
  then show ?thesis
    using m(2) by (simp add: l' m1_def asset_balance_of_def supply_of_def)
qed

lemma register_ok:
  assumes "assets_ok l" "register_asset l info = Inr l'"
  shows "assets_ok l'"
proof -
  have l': "l' = l\<lparr>asset_supply := AList.update (ai_id info) 0 (asset_supply l),
      asset_infos := AList.update (ai_id info) info (asset_infos l)\<rparr>"
    and n: "map_of (asset_infos l) (ai_id info) = None"
    using assms(2) by (auto simp: register_asset_def split: if_splits)
  have "supply_of l' y = supply_of l y" for y
    using assms(1) n by (auto simp: l' supply_of_def assets_ok_def)
  with assms(1) show ?thesis by (auto simp: assets_ok_def) (auto simp: l' split: if_splits)
qed

lemma freeze_ok:
  assumes "assets_ok l" "freeze_asset l x = Inr l'"
  shows "assets_ok l'"
proof -
  obtain info where l': "l' = l\<lparr>asset_infos := AList.update x info (asset_infos l)\<rparr>"
    using assms(2) by (auto simp: freeze_asset_def split: option.splits)
  have "supply_of l' y = supply_of l y" for y by (simp add: l' supply_of_def)
  with assms(1) show ?thesis by (auto simp: assets_ok_def) (auto simp: l' split: if_splits)
qed

section \<open>Runs\<close>

text \<open>
  The operations, with what callers must respect: a mint stays within the machine range and a
  burn is not negative.
\<close>

inductive asset_step :: "multi_asset_ledger \<Rightarrow> multi_asset_ledger \<Rightarrow> bool" where
  step_register: "register_asset l info = Inr l' \<Longrightarrow> asset_step l l'"
| step_mint: "asset_mint l x a amt = Inr l' \<Longrightarrow> supply_of l x + amt \<le> I128_MAX \<Longrightarrow> asset_step l l'"
| step_burn: "asset_burn l x a amt = Inr l' \<Longrightarrow> 0 \<le> amt \<Longrightarrow> asset_step l l'"
| step_transfer: "asset_transfer l x a b amt = Inr l' \<Longrightarrow> asset_step l l'"
| step_freeze: "freeze_asset l x = Inr l' \<Longrightarrow> asset_step l l'"

lemma asset_step_ok: "asset_step l l' \<Longrightarrow> assets_ok l \<Longrightarrow> assets_ok l'"
  by (elim asset_step.cases)
    (metis register_ok, metis mint_ok, metis burn_ok, metis transfer_ok, metis freeze_ok)

lemma asset_run_ok: "asset_step\<^sup>*\<^sup>* l l' \<Longrightarrow> assets_ok l \<Longrightarrow> assets_ok l'"
  by (induction rule: rtranclp_induct) (auto intro: asset_step_ok)

lemma assets_ok_new [simp]: "assets_ok asset_ledger_new"
  by (simp add: assets_ok_def asset_ledger_new_def supply_of_def holdings_def)

section \<open>Properties\<close>

text \<open>
  Supply conservation per asset: after any sequence of registrations, mints, burns of
  non-negative amounts, transfers and freezes from an empty ledger, the recorded supply of
  every asset is exactly the sum of all balances held in it, and no balance is negative or
  above that supply.
\<close>

theorem asset_supply_exact:
  assumes "asset_step\<^sup>*\<^sup>* asset_ledger_new l"
  shows "supply_of l asset = holdings (asset_balances l) asset \<and>
    0 \<le> asset_balance_of l agent asset \<and> asset_balance_of l agent asset \<le> supply_of l asset"
  using asset_run_ok [OF assms assets_ok_new] asset_balance_range [of l agent asset]
  by (simp add: assets_ok_def)

definition sample_asset :: asset_info where
  "sample_asset = \<lparr>ai_id = 9, ai_name = ''gold'', ai_asset_type = RealEstate, issuer = 2,
     created_at_height = 1, frozen = False\<rparr>"

lemma sample_registered:
  "register_asset asset_ledger_new sample_asset =
     Inr \<lparr>asset_balances = [], asset_supply = [(9, 0)], asset_infos = [(9, sample_asset)]\<rparr>"
  by (simp add: register_asset_def asset_ledger_new_def sample_asset_def)

theorem asset_supply_exact_witness:
  "\<exists>l. register_asset asset_ledger_new sample_asset = Inr l \<and>
       supply_of l 9 = holdings (asset_balances l) 9"
proof -
  obtain l where l: "register_asset asset_ledger_new sample_asset = Inr l"
    using sample_registered by blast
  then have "asset_step\<^sup>*\<^sup>* asset_ledger_new l" by (intro r_into_rtranclp step_register)
  from asset_supply_exact [OF this, of 9] l show ?thesis by blast
qed

text \<open>
  A burn of a negative amount is not refused: on any registered, unfrozen asset it
  succeeds for any agent, raising the agent's balance and the recorded supply by that amount.
  Minting and transferring refuse such amounts.
\<close>

theorem negative_burn_mints:
  assumes "assets_ok l" "map_of (asset_infos l) asset = Some info" "\<not> frozen info"
    and "0 < k" "supply_of l asset + k \<le> I128_MAX"
  shows "\<exists>l'. asset_burn l asset agent (- k) = Inr l' \<and>
    asset_balance_of l' agent asset = asset_balance_of l agent asset + k \<and>
    supply_of l' asset = supply_of l asset + k \<and>
    asset_mint l asset agent (- k) = Inl AmountNotPositive"
proof -
  note r = asset_balance_range [OF assms(1), of agent asset]
  have "tension_sub v (- k) = v + k" if "0 \<le> v" "v + k \<le> I128_MAX" for v
    using that assms(4) by (simp add: tension_sub_def i128_ops machine_int)
  with r assms show ?thesis
    by (auto simp: asset_burn_def asset_mint_def) (auto simp: asset_balance_of_def supply_of_def)
qed

theorem negative_burn_mints_witness:
  "\<exists>l l'. register_asset asset_ledger_new sample_asset = Inr l \<and>
     asset_burn l 9 5 (- 1000) = Inr l' \<and> asset_balance_of l' 5 9 = 1000 \<and> supply_of l' 9 = 1000"
proof -
  obtain l where l: "register_asset asset_ledger_new sample_asset = Inr l"
    "map_of (asset_infos l) 9 = Some sample_asset" "supply_of l 9 = 0" "asset_balance_of l 5 9 = 0"
    using sample_registered by (auto simp: supply_of_def asset_balance_of_def)
  have "assets_ok l" using register_ok [OF assets_ok_new l(1)] .
  from negative_burn_mints [OF this l(2), of 1000 5] l show ?thesis
    by (auto simp: sample_asset_def machine_int)
qed

end
