(* ===== verification/Scc_Treasury.thy ===== *)
theory Scc_Treasury
  imports Scc_World
begin

text \<open>
  The treasury (\<open>crates/sccgub-state/src/treasury.rs\<close>): fee collection, reward distribution,
  burning and epochs, and the commitment of its seven counters to the state trie. The lemmas
  show conservation (every collected unit is pending, distributed or burned) over every
  sequence of operations, and that the counters survive the round trip through the trie.
  The epoch counter wraps as a release build does.
\<close>

section \<open>The treasury\<close>

record treasury =
  pending_fees :: tension_value
  total_fees_collected :: tension_value
  total_rewards_distributed :: tension_value
  total_burned :: tension_value
  epoch :: nat
  epoch_fees :: tension_value
  epoch_rewards :: tension_value

record epoch_summary =
  es_epoch :: nat
  es_fees_collected :: tension_value
  es_rewards_distributed :: tension_value
  es_pending_balance :: tension_value

definition treasury_new :: treasury where
  "treasury_new =
     \<lparr>pending_fees = 0, total_fees_collected = 0, total_rewards_distributed = 0, total_burned = 0,
      epoch = 0, epoch_fees = 0, epoch_rewards = 0\<rparr>"

definition collect_fee :: "treasury \<Rightarrow> tension_value \<Rightarrow> treasury" where
  "collect_fee t amount =
     (let safe = max amount 0
      in t\<lparr>pending_fees := tension_add (pending_fees t) safe,
           total_fees_collected := tension_add (total_fees_collected t) safe,
           epoch_fees := tension_add (epoch_fees t) safe\<rparr>)"

definition distribute_reward :: "treasury \<Rightarrow> tension_value \<Rightarrow> tension_value \<times> treasury" where
  "distribute_reward t amount =
     (let safe_amount = max amount 0;
          actual = (if safe_amount > pending_fees t then pending_fees t else safe_amount)
      in (actual,
          t\<lparr>pending_fees := tension_sub (pending_fees t) actual,
            total_rewards_distributed := tension_add (total_rewards_distributed t) actual,
            epoch_rewards := tension_add (epoch_rewards t) actual\<rparr>))"

definition treasury_burn :: "treasury \<Rightarrow> tension_value \<Rightarrow> string + treasury" where
  "treasury_burn t amount =
     (if amount < 0 then Inl ''Cannot burn negative amount''
      else if amount > pending_fees t then Inl ''Cannot burn more than pending fees''
      else Inr (t\<lparr>pending_fees := tension_sub (pending_fees t) amount,
                  total_burned := tension_add (total_burned t) amount\<rparr>))"

definition advance_epoch :: "treasury \<Rightarrow> epoch_summary \<times> treasury" where
  "advance_epoch t =
     (\<lparr>es_epoch = epoch t, es_fees_collected = epoch_fees t,
       es_rewards_distributed = epoch_rewards t, es_pending_balance = pending_fees t\<rparr>,
      t\<lparr>epoch := u64_wrapping_add (epoch t) 1, epoch_fees := 0, epoch_rewards := 0\<rparr>)"

definition net_balance :: "treasury \<Rightarrow> tension_value" where
  "net_balance t = pending_fees t"

definition default_block_reward :: tension_value where
  "default_block_reward = from_integer 10"

section \<open>The counters in the trie\<close>

definition treasury_counter_key :: "bytes \<Rightarrow> bytes" where
  "treasury_counter_key suffix = NS_TREASURY @ suffix"

definition encode_tension :: "tension_value \<Rightarrow> bytes" where
  "encode_tension v = i128_to_le_bytes v"

definition decode_tension :: "bytes \<Rightarrow> bytes \<Rightarrow> string + tension_value" where
  "decode_tension key v =
     (if length v \<noteq> 16 then Inl ''Malformed treasury entry'' else Inr (i128_from_le_bytes v))"

definition decode_epoch :: "bytes \<Rightarrow> bytes \<Rightarrow> string + nat" where
  "decode_epoch key v =
     (if length v \<noteq> 8 then Inl ''Malformed treasury epoch entry'' else Inr (of_le_bytes v))"

definition treasury_state_writes :: "treasury \<Rightarrow> state_write list" where
  "treasury_state_writes t =
     [\<lparr>address = treasury_counter_key ''pending_fees'', sw_value = encode_tension (pending_fees t)\<rparr>,
      \<lparr>address = treasury_counter_key ''total_fees_collected'',
       sw_value = encode_tension (total_fees_collected t)\<rparr>,
      \<lparr>address = treasury_counter_key ''total_rewards_distributed'',
       sw_value = encode_tension (total_rewards_distributed t)\<rparr>,
      \<lparr>address = treasury_counter_key ''total_burned'', sw_value = encode_tension (total_burned t)\<rparr>,
      \<lparr>address = treasury_counter_key ''epoch'', sw_value = u64_to_le_bytes (epoch t)\<rparr>,
      \<lparr>address = treasury_counter_key ''epoch_fees'', sw_value = encode_tension (epoch_fees t)\<rparr>,
      \<lparr>address = treasury_counter_key ''epoch_rewards'',
       sw_value = encode_tension (epoch_rewards t)\<rparr>]"

definition state_has_treasury_keys :: "managed_world_state \<Rightarrow> bool" where
  "state_has_treasury_keys w \<longleftrightarrow> list_ex (\<lambda>e. starts_with (fst e) NS_TREASURY) (trie_iter (trie w))"

definition commit_treasury_state :: "managed_world_state \<Rightarrow> treasury \<Rightarrow> managed_world_state" where
  "commit_treasury_state w t =
     snd (apply_delta w \<lparr>writes = treasury_state_writes t, deletes = []\<rparr>)"

text \<open>The keys \<open>treasury_from_trie\<close> matches, byte for byte.\<close>

definition TK_PENDING :: bytes where "TK_PENDING = ''treasury/pending_fees''"
definition TK_COLLECTED :: bytes where "TK_COLLECTED = ''treasury/total_fees_collected''"
definition TK_DISTRIBUTED :: bytes where "TK_DISTRIBUTED = ''treasury/total_rewards_distributed''"
definition TK_BURNED :: bytes where "TK_BURNED = ''treasury/total_burned''"
definition TK_EPOCH :: bytes where "TK_EPOCH = ''treasury/epoch''"
definition TK_EPOCH_FEES :: bytes where "TK_EPOCH_FEES = ''treasury/epoch_fees''"
definition TK_EPOCH_REWARDS :: bytes where "TK_EPOCH_REWARDS = ''treasury/epoch_rewards''"

definition load_treasury_entry :: "treasury \<Rightarrow> bytes \<times> bytes \<Rightarrow> string + treasury" where
  "load_treasury_entry t e =
     (case e of (k, v) \<Rightarrow>
        if \<not> starts_with k NS_TREASURY then Inr t
        else if k = TK_PENDING
        then bind_result (decode_tension k v) (\<lambda>x. Inr (t\<lparr>pending_fees := x\<rparr>))
        else if k = TK_COLLECTED
        then bind_result (decode_tension k v) (\<lambda>x. Inr (t\<lparr>total_fees_collected := x\<rparr>))
        else if k = TK_DISTRIBUTED
        then bind_result (decode_tension k v) (\<lambda>x. Inr (t\<lparr>total_rewards_distributed := x\<rparr>))
        else if k = TK_BURNED
        then bind_result (decode_tension k v) (\<lambda>x. Inr (t\<lparr>total_burned := x\<rparr>))
        else if k = TK_EPOCH
        then bind_result (decode_epoch k v) (\<lambda>x. Inr (t\<lparr>epoch := x\<rparr>))
        else if k = TK_EPOCH_FEES
        then bind_result (decode_tension k v) (\<lambda>x. Inr (t\<lparr>epoch_fees := x\<rparr>))
        else if k = TK_EPOCH_REWARDS
        then bind_result (decode_tension k v) (\<lambda>x. Inr (t\<lparr>epoch_rewards := x\<rparr>))
        else Inl (''Unknown treasury key in trie: '' @ k))"

fun load_treasury :: "treasury \<Rightarrow> (bytes \<times> bytes) list \<Rightarrow> string + treasury" where
  "load_treasury t [] = Inr t"
| "load_treasury t (e # es) = bind_result (load_treasury_entry t e) (\<lambda>t'. load_treasury t' es)"

definition treasury_from_trie :: "managed_world_state \<Rightarrow> string + treasury" where
  "treasury_from_trie w = load_treasury treasury_new (trie_iter (trie w))"

section \<open>Conservation\<close>

definition treasury_ok :: "treasury \<Rightarrow> bool" where
  "treasury_ok t \<longleftrightarrow>
     0 \<le> pending_fees t \<and> 0 \<le> total_rewards_distributed t \<and> 0 \<le> total_burned t \<and>
     total_fees_collected t = pending_fees t + total_rewards_distributed t + total_burned t \<and>
     total_fees_collected t \<le> I128_MAX"

lemma treasury_ok_new [simp]: "treasury_ok treasury_new"
  by (simp add: treasury_ok_def treasury_new_def)

lemma treasury_ok_collect:
  assumes "treasury_ok t" "total_fees_collected t + max a 0 \<le> I128_MAX"
  shows "treasury_ok (collect_fee t a)"
    and "total_fees_collected (collect_fee t a) = total_fees_collected t + max a 0"
  using assms by (auto simp: treasury_ok_def collect_fee_def Let_def tension_add_exact)

lemma distribute_reward_exact:
  assumes "treasury_ok t"
  shows "fst (distribute_reward t a) = min (max a 0) (pending_fees t)"
    "treasury_ok (snd (distribute_reward t a))"
    "total_fees_collected (snd (distribute_reward t a)) = total_fees_collected t"
    "pending_fees (snd (distribute_reward t a)) = pending_fees t - min (max a 0) (pending_fees t)"
  using assms
  by (auto simp: treasury_ok_def distribute_reward_def Let_def tension_add_exact tension_sub_exact
      min_def max_def)

lemma treasury_burn_exact:
  assumes "treasury_ok t" "treasury_burn t a = Inr t'"
  shows "treasury_ok t'" "total_fees_collected t' = total_fees_collected t"
    "total_burned t' = total_burned t + a" "pending_fees t' = pending_fees t - a"
  using assms
  by (auto simp: treasury_ok_def treasury_burn_def tension_add_exact tension_sub_exact
      split: if_splits)

lemma treasury_ok_epoch: "treasury_ok t \<Longrightarrow> treasury_ok (snd (advance_epoch t))"
  "total_fees_collected (snd (advance_epoch t)) = total_fees_collected t"
  by (simp_all add: treasury_ok_def advance_epoch_def)

text \<open>A sequence of operations; a refused burn leaves the treasury as it was.\<close>

datatype treasury_op = OpFee tension_value | OpReward tension_value | OpBurn tension_value | OpEpoch

fun run_treasury_op :: "treasury_op \<Rightarrow> treasury \<Rightarrow> treasury" where
  "run_treasury_op (OpFee a) t = collect_fee t a"
| "run_treasury_op (OpReward a) t = snd (distribute_reward t a)"
| "run_treasury_op (OpBurn a) t = (case treasury_burn t a of Inl _ \<Rightarrow> t | Inr t' \<Rightarrow> t')"
| "run_treasury_op OpEpoch t = snd (advance_epoch t)"

fun fee_of_op :: "treasury_op \<Rightarrow> int" where
  "fee_of_op (OpFee a) = max a 0"
| "fee_of_op _ = 0"

lemma fee_of_op_nonneg [simp]: "0 \<le> fee_of_op p"
  by (cases p) simp_all

lemma run_treasury_op_ok:
  assumes "treasury_ok t" "total_fees_collected t + fee_of_op p \<le> I128_MAX"
  shows "treasury_ok (run_treasury_op p t) \<and>
    total_fees_collected (run_treasury_op p t) = total_fees_collected t + fee_of_op p"
proof (cases p)
  case (OpBurn a)
  with assms show ?thesis
    by (cases "treasury_burn t a") (auto simp: treasury_burn_exact)
qed (use assms in \<open>auto simp: treasury_ok_collect distribute_reward_exact treasury_ok_epoch\<close>)

lemma run_treasury_ops_ok:
  assumes "treasury_ok t" "total_fees_collected t + sum_list (map fee_of_op ps) \<le> I128_MAX"
  shows "treasury_ok (fold run_treasury_op ps t) \<and>
    total_fees_collected (fold run_treasury_op ps t) =
      total_fees_collected t + sum_list (map fee_of_op ps)"
  using assms
proof (induction ps arbitrary: t)
  case (Cons p ps)
  have "0 \<le> sum_list (map fee_of_op ps)" by (rule sum_list_nonneg) auto
  with Cons.prems run_treasury_op_ok [of t p]
  have "treasury_ok (run_treasury_op p t)"
    "total_fees_collected (run_treasury_op p t) = total_fees_collected t + fee_of_op p"
    by auto
  with Cons.IH [of "run_treasury_op p t"] Cons.prems show ?case by (simp add: add.assoc)
qed simp

section \<open>Round trip\<close>

abbreviation treasury_keys :: "bytes list" where
  "treasury_keys \<equiv>
     [TK_PENDING, TK_COLLECTED, TK_DISTRIBUTED, TK_BURNED, TK_EPOCH, TK_EPOCH_FEES,
      TK_EPOCH_REWARDS]"

lemmas TK_defs = TK_PENDING_def TK_COLLECTED_def TK_DISTRIBUTED_def TK_BURNED_def TK_EPOCH_def
  TK_EPOCH_FEES_def TK_EPOCH_REWARDS_def

lemma treasury_keys_written: "map address (treasury_state_writes t) = treasury_keys"
  by (simp add: treasury_state_writes_def treasury_counter_key_def NS_TREASURY_def TK_defs)

lemma treasury_keys_distinct: "distinct treasury_keys"
  by (simp add: TK_defs)

lemma treasury_keys_distinct_rev:
  "distinct [TK_EPOCH_REWARDS, TK_EPOCH_FEES, TK_EPOCH, TK_BURNED, TK_DISTRIBUTED, TK_COLLECTED,
     TK_PENDING]"
  using treasury_keys_distinct unfolding distinct_rev [of treasury_keys, symmetric] by simp

lemmas TK_neq [simp] = treasury_keys_distinct [simplified] treasury_keys_distinct_rev [simplified]

lemma TK_prefix: "list_all (\<lambda>k. starts_with k NS_TREASURY \<and> length k \<le> 34) treasury_keys"
  by code_simp

lemma treasury_keys_prefix: "k \<in> set treasury_keys \<Longrightarrow> starts_with k NS_TREASURY \<and> length k \<le> 34"
  using TK_prefix unfolding list_all_iff by blast

definition treasury_entry_ok :: "bytes \<times> bytes \<Rightarrow> bool" where
  "treasury_entry_ok e \<longleftrightarrow>
     (starts_with (fst e) NS_TREASURY \<longrightarrow>
        fst e \<in> set treasury_keys \<and>
        length (snd e) = (if fst e = TK_EPOCH then 8 else 16))"

definition counter_or :: "(bytes \<times> bytes) list \<Rightarrow> bytes \<Rightarrow> (bytes \<Rightarrow> 'a) \<Rightarrow> 'a \<Rightarrow> 'a" where
  "counter_or es k dec old = (case map_of es k of Some v \<Rightarrow> dec v | None \<Rightarrow> old)"

definition counters_from :: "(bytes \<times> bytes) list \<Rightarrow> treasury \<Rightarrow> treasury" where
  "counters_from es t =
     \<lparr>pending_fees = counter_or es TK_PENDING i128_from_le_bytes (pending_fees t),
      total_fees_collected =
        counter_or es TK_COLLECTED i128_from_le_bytes (total_fees_collected t),
      total_rewards_distributed =
        counter_or es TK_DISTRIBUTED i128_from_le_bytes
          (total_rewards_distributed t),
      total_burned = counter_or es TK_BURNED i128_from_le_bytes (total_burned t),
      epoch = counter_or es TK_EPOCH of_le_bytes (epoch t),
      epoch_fees = counter_or es TK_EPOCH_FEES i128_from_le_bytes (epoch_fees t),
      epoch_rewards = counter_or es TK_EPOCH_REWARDS i128_from_le_bytes (epoch_rewards t)\<rparr>"

lemma counter_or_Nil [simp]: "counter_or [] k d x = x"
  by (simp add: counter_or_def)

lemma counter_or_Cons_other [simp]: "k' \<noteq> k \<Longrightarrow> counter_or ((k', v) # es) k d x = counter_or es k d x"
  by (simp add: counter_or_def)

lemma counter_or_Cons_same [simp]: "counter_or ((k, v) # es) k d x = d v"
  by (simp add: counter_or_def)

lemma counter_or_absent: "k \<notin> fst ` set es \<Longrightarrow> counter_or es k d x = x"
  by (simp add: counter_or_def map_of_eq_None_iff split: option.split)
    (metis map_of_eq_None_iff option.distinct(1))

lemma load_treasury_counters:
  "keys_distinct es \<Longrightarrow> (\<forall>e \<in> set es. treasury_entry_ok e) \<Longrightarrow>
     load_treasury t es = Inr (counters_from es t)"
proof (induction es arbitrary: t)
  case Nil
  then show ?case by (simp add: counters_from_def)
next
  case (Cons e es)
  obtain k v where e: "e = (k, v)" by fastforce
  then have k: "k \<notin> fst ` set es" and ok: "treasury_entry_ok (k, v)"
    and IH: "load_treasury t' es = Inr (counters_from es t')" for t'
    using Cons by auto
  show ?case
  proof (cases "k \<in> set treasury_keys")
    case True
    then have pre: "starts_with k NS_TREASURY" using treasury_keys_prefix by blast
    with ok have len: "length v = (if k = TK_EPOCH then 8 else 16)"
      by (simp add: treasury_entry_ok_def)
    from True k len pre show ?thesis
      by (auto simp: e load_treasury_entry_def decode_tension_def decode_epoch_def IH
          counters_from_def counter_or_absent)
  next
    case False
    with ok have "\<not> starts_with k NS_TREASURY" by (auto simp: treasury_entry_ok_def)
    moreover have "counters_from ((k, v) # es) t = counters_from es t"
      using False by (auto simp: counters_from_def)
    ultimately show ?thesis by (simp add: e load_treasury_entry_def IH)
  qed
qed

text \<open>The counters a treasury may hold: the machine ranges of the fields.\<close>

definition treasury_machine :: "treasury \<Rightarrow> bool" where
  "treasury_machine t \<longleftrightarrow>
     is_i128 (pending_fees t) \<and> is_i128 (total_fees_collected t) \<and>
     is_i128 (total_rewards_distributed t) \<and> is_i128 (total_burned t) \<and>
     epoch t \<le> U64_MAX \<and> is_i128 (epoch_fees t) \<and> is_i128 (epoch_rewards t)"

abbreviation treasury_pairs :: "treasury \<Rightarrow> (bytes \<times> bytes) list" where
  "treasury_pairs t \<equiv> map write_pair (treasury_state_writes t)"

lemma treasury_pairs_eq:
  "treasury_pairs t =
     [(TK_PENDING, i128_to_le_bytes (pending_fees t)),
      (TK_COLLECTED, i128_to_le_bytes (total_fees_collected t)),
      (TK_DISTRIBUTED, i128_to_le_bytes (total_rewards_distributed t)),
      (TK_BURNED, i128_to_le_bytes (total_burned t)), (TK_EPOCH, u64_to_le_bytes (epoch t)),
      (TK_EPOCH_FEES, i128_to_le_bytes (epoch_fees t)),
      (TK_EPOCH_REWARDS, i128_to_le_bytes (epoch_rewards t))]"
  by (simp add: treasury_state_writes_def treasury_counter_key_def NS_TREASURY_def TK_defs
      encode_tension_def)

lemma treasury_writes_fit:
  assumes "34 \<le> entry_cap w"
  shows "accepted_writes (entry_cap w) (treasury_state_writes t) = treasury_pairs t"
proof -
  have "fits (entry_cap w) sw" if "sw \<in> set (treasury_state_writes t)" for sw
  proof -
    from that have "address sw \<in> set treasury_keys"
      using treasury_keys_written [of t] by (metis imageI list.set_map)
    then have "length (address sw) \<le> 34" using treasury_keys_prefix by blast
    moreover have "length (sw_value sw) \<le> 16"
      using that by (auto simp: treasury_state_writes_def encode_tension_def)
    ultimately show ?thesis using assms by (simp add: fits_def)
  qed
  then show ?thesis by (simp add: accepted_writes_def)
qed

lemma commit_treasury_get:
  assumes "34 \<le> entry_cap w"
  shows "world_get (commit_treasury_state w t) k =
    (case map_of (treasury_pairs t) k of Some v \<Rightarrow> Some v | None \<Rightarrow> world_get w k)"
proof -
  have "distinct (map fst (treasury_pairs t))"
    using treasury_keys_distinct treasury_keys_written [of t] by (simp add: comp_def)
  then have "map_of (rev (treasury_pairs t)) k = map_of (treasury_pairs t) k"
    by (simp only: map_of_rev_distinct)
  then show ?thesis
    using assms by (simp add: commit_treasury_state_def apply_delta_get treasury_writes_fit)
qed

lemma commit_treasury_sorted:
  "bt_sorted (store (trie w)) \<Longrightarrow> bt_sorted (store (trie (commit_treasury_state w t)))"
proof -
  have "bt_sorted (store v) \<Longrightarrow> bt_sorted (store (fold (\<lambda>(k, v) t. trie_insert t k v) es v))" for es v
  proof (induction es arbitrary: v)
    case (Cons e es)
    have "bt_sorted (store (trie_insert v (fst e) (snd e)))"
      unfolding store_insert using Cons.prems by (rule bt_sorted_insert)
    from Cons.IH [OF this] show ?case by (simp add: split_beta)
  qed simp
  then show "bt_sorted (store (trie w)) \<Longrightarrow> bt_sorted (store (trie (commit_treasury_state w t)))"
    by (simp add: commit_treasury_state_def apply_delta_def split_beta apply_writes_trie)
qed

lemma treasury_pairs_ok: "e \<in> set (treasury_pairs t) \<Longrightarrow> treasury_entry_ok e"
  unfolding treasury_pairs_eq by (auto simp: treasury_entry_ok_def)

lemma counters_from_pairs:
  assumes "treasury_machine t" "\<And>k. k \<in> set treasury_keys \<Longrightarrow> map_of es k = map_of (treasury_pairs t) k"
  shows "counters_from es t0 = t"
  using assms unfolding treasury_pairs_eq
  by (simp add: counters_from_def counter_or_def treasury_machine_def i128_le_bytes_roundtrip
      of_le_bytes_u64)

section \<open>Properties\<close>

text \<open>
  C13. Treasury conservation: from an empty treasury, after any sequence of fee collections,
  reward distributions, burns (accepted or refused) and epoch rollovers, the fees collected are
  exactly the fees paid in (negative ones counting as zero), and every collected unit is
  pending, distributed or burned, none of these being negative. The hypothesis keeps the total
  within the 128-bit range, beyond which the counters saturate.
\<close>

theorem treasury_conservation:
  assumes "sum_list (map fee_of_op ops) \<le> I128_MAX"
  shows "let t = fold run_treasury_op ops treasury_new in
    total_fees_collected t = sum_list (map fee_of_op ops) \<and>
    total_fees_collected t = pending_fees t + total_rewards_distributed t + total_burned t \<and>
    0 \<le> net_balance t \<and> 0 \<le> total_rewards_distributed t \<and> 0 \<le> total_burned t"
  using run_treasury_ops_ok [of treasury_new ops] assms
  by (simp add: treasury_ok_def Let_def net_balance_def treasury_new_def)

theorem treasury_conservation_witness:
  "let t = fold run_treasury_op [OpFee 100, OpReward 30, OpBurn 500, OpBurn 20, OpEpoch] treasury_new in
    total_fees_collected t = 100 \<and>
    total_fees_collected t = pending_fees t + total_rewards_distributed t + total_burned t \<and>
    pending_fees t = 50"
proof -
  let ?ops = "[OpFee 100, OpReward 30, OpBurn 500, OpBurn 20, OpEpoch]"
  have "sum_list (map fee_of_op ?ops) \<le> I128_MAX" by (simp add: I128_MAX_def)
  note treasury_conservation [OF this]
  moreover have "pending_fees (fold run_treasury_op ?ops treasury_new) = 50"
    by (simp add: treasury_new_def collect_fee_def distribute_reward_def treasury_burn_def
        advance_epoch_def Let_def tension_ops i128_ops machine_int)
  ultimately show ?thesis unfolding Let_def by simp
qed

text \<open>
  The treasury survives the trie: committing a treasury to a world whose trie holds no
  foreign treasury entries, and loading it again, gives the same seven counters, whatever the
  rest of the trie holds.
\<close>

theorem treasury_roundtrip:
  assumes "treasury_machine t" "34 \<le> entry_cap w" "bt_sorted (store (trie w))"
    and "\<forall>e \<in> set (trie_iter (trie w)). treasury_entry_ok e"
  shows "treasury_from_trie (commit_treasury_state w t) = Inr t"
proof -
  let ?es = "store (trie (commit_treasury_state w t))"
  have dist: "keys_distinct ?es"
    using commit_treasury_sorted [OF assms(3)] by (rule bt_sorted_distinct)
  have get: "map_of ?es k = (case map_of (treasury_pairs t) k of Some v \<Rightarrow> Some v
      | None \<Rightarrow> map_of (store (trie w)) k)" for k
    using commit_treasury_get [OF assms(2), of t k] unfolding world_get_def trie_get_def .
  have "treasury_entry_ok e" if "e \<in> set ?es" for e
  proof -
    from that dist have "map_of ?es (fst e) = Some (snd e)" by simp
    then have "e \<in> set (treasury_pairs t) \<or> e \<in> set (store (trie w))"
      unfolding get by (auto split: option.splits dest!: map_of_SomeD)
    with treasury_pairs_ok assms(4) show ?thesis unfolding trie_iter_def by blast
  qed
  then have "load_treasury treasury_new ?es = Inr (counters_from ?es treasury_new)"
    using dist by (intro load_treasury_counters) auto
  moreover have "counters_from ?es treasury_new = t"
    by (rule counters_from_pairs [OF assms(1)])
      (auto simp: get treasury_pairs_eq split: option.split)
  ultimately show ?thesis by (simp add: treasury_from_trie_def trie_iter_def)
qed

theorem treasury_roundtrip_witness:
  "treasury_from_trie (commit_treasury_state world_new (collect_fee treasury_new 100)) =
   Inr (collect_fee treasury_new 100)"
proof (rule treasury_roundtrip)
  show "treasury_machine (collect_fee treasury_new 100)"
    by (simp add: treasury_machine_def treasury_new_def collect_fee_def U64_MAX_def is_i128_nonneg)
  show "34 \<le> entry_cap world_new" by (simp add: world_new_def consensus_params_default_def)
qed (simp_all add: world_new_def trie_new_def trie_iter_def)

end
