(* ===== verification/Scc_Causal.thy ===== *)
theory Scc_Causal
  imports Scc_Tension "HOL-Library.Product_Lexorder"
begin

text \<open>
  The typed causal graph (\<open>crates/sccgub-types/src/causal.rs\<close>) and its cycle check: an iterative
  depth-first search with an explicit stack of frames and a colour map, over all declared
  vertices and all vertices that occur only in edges. The main result is that the search
  decides acyclicity of the edge relation; its termination is proved without any assumption.
\<close>

section \<open>The graph\<close>

datatype causal_vertex =
    VTransition hash
  | VReceipt hash
  | VObject hash
  | VProof hash
  | VActor agent_id
  | VPolicy hash
  | VGovernanceDecision hash
  | VNormMutation hash
  | VBlock hash

text \<open>The derived order of the enumeration: the constructor first, then its content.\<close>

fun vertex_key :: "causal_vertex \<Rightarrow> nat \<times> hash" where
  "vertex_key (VTransition h) = (0, h)"
| "vertex_key (VReceipt h) = (1, h)"
| "vertex_key (VObject h) = (2, h)"
| "vertex_key (VProof h) = (3, h)"
| "vertex_key (VActor h) = (4, h)"
| "vertex_key (VPolicy h) = (5, h)"
| "vertex_key (VGovernanceDecision h) = (6, h)"
| "vertex_key (VNormMutation h) = (7, h)"
| "vertex_key (VBlock h) = (8, h)"

lemma vertex_key_inject [simp]: "vertex_key u = vertex_key v \<longleftrightarrow> u = v"
  by (cases u; cases v) auto

instantiation causal_vertex :: linorder
begin

definition less_eq_causal_vertex :: "causal_vertex \<Rightarrow> causal_vertex \<Rightarrow> bool" where
  "less_eq_causal_vertex u v \<longleftrightarrow> vertex_key u \<le> vertex_key v"

definition less_causal_vertex :: "causal_vertex \<Rightarrow> causal_vertex \<Rightarrow> bool" where
  "less_causal_vertex u v \<longleftrightarrow> vertex_key u < vertex_key v"

instance
  by standard (auto simp: less_eq_causal_vertex_def less_causal_vertex_def not_less
      intro: order_trans dest: order.antisym)

end

datatype causal_edge =
    CausedBy causal_vertex causal_vertex
  | DependsOn causal_vertex causal_vertex
  | AuthorizedBy causal_vertex causal_vertex
  | Proves causal_vertex causal_vertex
  | Violates causal_vertex causal_vertex
  | Compensates causal_vertex causal_vertex
  | Amends causal_vertex causal_vertex
  | DerivedFrom causal_vertex causal_vertex
  | ObservedBy causal_vertex causal_vertex
  | GovernedBy causal_vertex causal_vertex
  | ContainedBy causal_vertex causal_vertex
  | TensionPropagates causal_vertex causal_vertex tension_value

fun endpoints :: "causal_edge \<Rightarrow> causal_vertex \<times> causal_vertex" where
  "endpoints (CausedBy s t) = (s, t)"
| "endpoints (DependsOn s t) = (s, t)"
| "endpoints (AuthorizedBy s t) = (s, t)"
| "endpoints (Proves s t) = (s, t)"
| "endpoints (Violates s t) = (s, t)"
| "endpoints (Compensates s t) = (s, t)"
| "endpoints (Amends s t) = (s, t)"
| "endpoints (DerivedFrom s t) = (s, t)"
| "endpoints (ObservedBy s t) = (s, t)"
| "endpoints (GovernedBy s t) = (s, t)"
| "endpoints (ContainedBy s t) = (s, t)"
| "endpoints (TensionPropagates s t _) = (s, t)"

record causal_graph =
  vertices :: "causal_vertex set"
  edges :: "causal_edge list"

record causal_graph_delta =
  new_vertices :: "causal_vertex list"
  new_edges :: "causal_edge list"
  causal_root :: hash

definition causal_graph_default :: causal_graph where
  "causal_graph_default = \<lparr>vertices = {}, edges = []\<rparr>"

definition add_vertex :: "causal_graph \<Rightarrow> causal_vertex \<Rightarrow> causal_graph" where
  "add_vertex g v = g\<lparr>vertices := insert v (vertices g)\<rparr>"

definition add_edge :: "causal_graph \<Rightarrow> causal_edge \<Rightarrow> causal_graph" where
  "add_edge g e = g\<lparr>edges := edges g @ [e]\<rparr>"

section \<open>The depth-first search\<close>

datatype color = White | Gray | Black

text \<open>The adjacency lists, in edge order, and the set of all vertices.\<close>

definition neighbors :: "('v, 'v list) hashmap \<Rightarrow> 'v \<Rightarrow> 'v list" where
  "neighbors adj v = (case map_of adj v of Some ns \<Rightarrow> ns | None \<Rightarrow> [])"

definition add_adj :: "'v \<times> 'v \<Rightarrow> ('v, 'v list) hashmap \<Rightarrow> ('v, 'v list) hashmap" where
  "add_adj e adj = AList.update (fst e) (neighbors adj (fst e) @ [snd e]) adj"

definition build_adj :: "('v \<times> 'v) list \<Rightarrow> ('v, 'v list) hashmap" where
  "build_adj es = fold add_adj es []"

definition all_vertices :: "causal_graph \<Rightarrow> causal_vertex set" where
  "all_vertices g =
     fold (\<lambda>e vs. insert (snd (endpoints e)) (insert (fst (endpoints e)) vs)) (edges g) (vertices g)"

text \<open>
  The loop on the stack of frames (vertex, next neighbour index), the top first. \<open>None\<close> is the
  early return on a back edge; otherwise the colours when the stack is empty.
\<close>

function dfs_loop ::
  "('v, 'v list) hashmap \<Rightarrow> ('v, color) hashmap \<Rightarrow> ('v \<times> nat) list \<Rightarrow> ('v, color) hashmap option" where
  "dfs_loop adj color [] = Some color"
| "dfs_loop adj color ((v, i) # stack) =
     (if i < length (neighbors adj v) then
        (let neighbor = neighbors adj v ! i
         in case map_of color neighbor of
              Some Gray \<Rightarrow> None
            | Some White \<Rightarrow>
                dfs_loop adj (AList.update neighbor Gray color) ((neighbor, 0) # (v, i + 1) # stack)
            | _ \<Rightarrow> dfs_loop adj color ((v, i + 1) # stack))
      else dfs_loop adj (AList.update v Black color) stack)"
  by pat_completeness auto

definition whites :: "('v, color) hashmap \<Rightarrow> nat" where
  "whites c = length (filter (\<lambda>e. snd e = White) c)"

definition todo :: "('v, 'v list) hashmap \<Rightarrow> ('v \<times> nat) list \<Rightarrow> nat" where
  "todo adj st = sum_list (map (\<lambda>(v, i). 1 + (length (neighbors adj v) - i)) st)"

lemma whites_update: "x \<noteq> White \<Longrightarrow> whites (AList.update v x c) \<le> whites c"
  by (induction c) (auto simp: whites_def)

lemma whites_update_white:
  "map_of c v = Some White \<Longrightarrow> x \<noteq> White \<Longrightarrow> whites (AList.update v x c) < whites c"
  by (induction c) (auto simp: whites_def split: if_splits)

lemma whites_update_black:
  "whites (AList.update v Black c) \<noteq> whites c \<Longrightarrow> whites (AList.update v Black c) < whites c"
  using whites_update [of Black v c] by auto

termination dfs_loop
  by (relation "measures [\<lambda>(adj, c, st). whites c, \<lambda>(adj, c, st). todo adj st]")
    (auto simp: todo_def whites_update_white whites_update_black)

declare dfs_loop.simps(2) [simp del]

lemma dfs_loop_steps:
  "i < length (neighbors adj v) \<Longrightarrow> map_of c (neighbors adj v ! i) = Some Gray \<Longrightarrow>
     dfs_loop adj c ((v, i) # st) = None"
  "i < length (neighbors adj v) \<Longrightarrow> map_of c (neighbors adj v ! i) = Some White \<Longrightarrow>
     dfs_loop adj c ((v, i) # st) =
       dfs_loop adj (AList.update (neighbors adj v ! i) Gray c) ((neighbors adj v ! i, 0) # (v, i + 1) # st)"
  "i < length (neighbors adj v) \<Longrightarrow> map_of c (neighbors adj v ! i) = Some Black \<Longrightarrow>
     dfs_loop adj c ((v, i) # st) = dfs_loop adj c ((v, i + 1) # st)"
  "\<not> i < length (neighbors adj v) \<Longrightarrow>
     dfs_loop adj c ((v, i) # st) = dfs_loop adj (AList.update v Black c) st"
  by (simp_all add: dfs_loop.simps(2) [of adj c v i st] Let_def)

fun dfs_all ::
  "('v, 'v list) hashmap \<Rightarrow> ('v, color) hashmap \<Rightarrow> 'v list \<Rightarrow> bool" where
  "dfs_all adj color [] = True"
| "dfs_all adj color (start # rest) =
     (if map_of color start \<noteq> Some White then dfs_all adj color rest
      else (case dfs_loop adj (AList.update start Gray color) [(start, 0)] of
              None \<Rightarrow> False
            | Some color' \<Rightarrow> dfs_all adj color' rest))"

definition is_acyclic :: "causal_graph \<Rightarrow> bool" where
  "is_acyclic g =
     (let vs = sorted_list_of_set (all_vertices g)
      in dfs_all (build_adj (map endpoints (edges g))) (map (\<lambda>v. (v, White)) vs) vs)"

section \<open>Correctness of the search\<close>

text \<open>The edge relation the adjacency lists stand for.\<close>

definition adj_rel :: "('v, 'v list) hashmap \<Rightarrow> ('v \<times> 'v) set" where
  "adj_rel adj = {(v, n). n \<in> set (neighbors adj v)}"

text \<open>
  The frames of the stack: every neighbour before the index of a frame is finished, except the
  one the frame above it explores, and that one is a neighbour.
\<close>

fun frames_ok ::
  "('v, 'v list) hashmap \<Rightarrow> ('v \<Rightarrow> bool) \<Rightarrow> 'v option \<Rightarrow> ('v \<times> nat) list \<Rightarrow> bool" where
  "frames_ok adj blk up [] = True"
| "frames_ok adj blk up ((v, i) # st) =
     (i \<le> length (neighbors adj v) \<and>
      (\<forall>j < i. blk (neighbors adj v ! j) \<or> up = Some (neighbors adj v ! j)) \<and>
      (case up of None \<Rightarrow> True | Some u \<Rightarrow> u \<in> set (neighbors adj v)) \<and>
      frames_ok adj blk (Some v) st)"

definition dfs_inv ::
  "('v, 'v list) hashmap \<Rightarrow> 'v set \<Rightarrow> ('v, color) hashmap \<Rightarrow> ('v \<times> nat) list \<Rightarrow> bool" where
  "dfs_inv adj V c st \<longleftrightarrow>
     (\<forall>v. (v \<in> V) = (map_of c v \<noteq> None)) \<and> adj_rel adj \<subseteq> V \<times> V \<and>
     distinct (map fst st) \<and> (\<forall>v. map_of c v = Some Gray \<longleftrightarrow> v \<in> fst ` set st) \<and>
     frames_ok adj (\<lambda>v. map_of c v = Some Black) None st \<and>
     (\<forall>v. map_of c v = Some Black \<longrightarrow>
        (\<forall>n \<in> set (neighbors adj v). map_of c n = Some Black) \<and> (v, v) \<notin> (adj_rel adj)\<^sup>+)"

lemma frames_ok_mono:
  "frames_ok adj blk a st \<Longrightarrow> (\<And>v. blk v \<Longrightarrow> blk' v) \<Longrightarrow> frames_ok adj blk' a st"
  by (induction adj blk a st rule: frames_ok.induct) auto

lemma frames_ok_pop:
  "frames_ok adj blk (Some v) st \<Longrightarrow> blk' v \<Longrightarrow> (\<And>u. blk u \<Longrightarrow> blk' u) \<Longrightarrow>
     frames_ok adj blk' None st"
proof (cases st)
  case (Cons f fs)
  obtain w j where f: "f = (w, j)" by fastforce
  assume *: "frames_ok adj blk (Some v) st" "blk' v" "\<And>u. blk u \<Longrightarrow> blk' u"
  from * Cons f have "frames_ok adj blk' (Some w) fs" by (auto elim: frames_ok_mono)
  moreover have "\<forall>i < j. blk' (neighbors adj w ! i)" "j \<le> length (neighbors adj w)"
    using * Cons f by auto
  ultimately show ?thesis by (simp add: Cons f)
qed simp

text \<open>Every vertex on the stack reaches the top.\<close>

lemma stack_reaches_top:
  "frames_ok adj blk a ((v, i) # st) \<Longrightarrow> u \<in> insert v (fst ` set st) \<Longrightarrow> (u, v) \<in> (adj_rel adj)\<^sup>*"
proof (induction st arbitrary: a v i)
  case (Cons f st)
  obtain w j where f: "f = (w, j)" by fastforce
  show ?case
  proof (cases "u = v")
    case False
    with Cons.prems f have "(u, w) \<in> (adj_rel adj)\<^sup>*" by (intro Cons.IH [of "Some v"]) auto
    moreover have "(w, v) \<in> adj_rel adj" using Cons.prems(1) f by (simp add: adj_rel_def)
    ultimately show ?thesis by (rule rtrancl_into_rtrancl)
  qed simp
qed simp

text \<open>The finished vertices are closed under edges.\<close>

lemma black_closed:
  assumes "\<forall>v. P v \<longrightarrow> (\<forall>n \<in> set (neighbors adj v). P n)" "(u, w) \<in> (adj_rel adj)\<^sup>*" "P u"
  shows "P w"
  using assms(2,3)
proof (induction rule: rtrancl_induct)
  case (step y z)
  then have "z \<in> set (neighbors adj y)" by (simp add: adj_rel_def)
  with step assms(1) show ?case by blast
qed

lemma finish_no_cycle:
  assumes "\<forall>v. P v \<longrightarrow> (\<forall>n \<in> set (neighbors adj v). P n)" "\<forall>n \<in> set (neighbors adj v). P n" "\<not> P v"
  shows "(v, v) \<notin> (adj_rel adj)\<^sup>+"
proof
  assume "(v, v) \<in> (adj_rel adj)\<^sup>+"
  then obtain n where "(v, n) \<in> adj_rel adj" "(n, v) \<in> (adj_rel adj)\<^sup>*" by (auto dest: tranclD)
  moreover from this(1) assms(2) have "P n" by (simp add: adj_rel_def)
  ultimately show False using black_closed [OF assms(1)] assms(3) by blast
qed

lemma dfs_inv_pop:
  assumes "dfs_inv adj V c ((v, i) # st)" "\<not> i < length (neighbors adj v)"
  shows "dfs_inv adj V (AList.update v Black c) st"
proof -
  let ?P = "\<lambda>v. map_of c v = Some Black"
  have i: "i = length (neighbors adj v)" "\<forall>j < i. ?P (neighbors adj v ! j)"
    "frames_ok adj ?P (Some v) st" and g: "map_of c v = Some Gray" "v \<notin> fst ` set st"
    using assms by (auto simp: dfs_inv_def)
  then have n: "\<forall>n \<in> set (neighbors adj v). ?P n" by (metis in_set_conv_nth)
  have cl: "\<forall>v. ?P v \<longrightarrow> (\<forall>n \<in> set (neighbors adj v). ?P n)" using assms(1) by (simp add: dfs_inv_def)
  have "(v, v) \<notin> (adj_rel adj)\<^sup>+" using finish_no_cycle [OF cl n] g(1) by simp
  moreover have "frames_ok adj (\<lambda>u. map_of (AList.update v Black c) u = Some Black) None st"
    using i(3) by (rule frames_ok_pop) auto
  ultimately show ?thesis using assms(1) n g by (auto simp: dfs_inv_def)
qed

lemma dfs_inv_push:
  assumes "dfs_inv adj V c ((v, i) # st)" "i < length (neighbors adj v)"
    and "map_of c (neighbors adj v ! i) = Some White"
  shows "dfs_inv adj V (AList.update (neighbors adj v ! i) Gray c)
    ((neighbors adj v ! i, 0) # (v, i + 1) # st)" (is "dfs_inv adj V ?c ((?n, 0) # _)")
proof -
  have "\<forall>u \<in> insert v (fst ` set st). map_of c u = Some Gray"
    using assms(1) by (simp add: dfs_inv_def)
  with assms(2,3) have n: "?n \<notin> insert v (fst ` set st)" "?n \<in> set (neighbors adj v)"
    by (metis color.distinct(1) option.inject) (simp add: assms(2))
  have blk: "map_of ?c u = Some Black \<longleftrightarrow> map_of c u = Some Black" for u
    using assms(3) by auto
  have "frames_ok adj (\<lambda>u. map_of ?c u = Some Black) None ((?n, 0) # (v, i + 1) # st)"
    using assms(1,2) n(2) unfolding blk by (auto simp: dfs_inv_def less_Suc_eq)
  with assms n show ?thesis unfolding dfs_inv_def blk by auto
qed

lemma dfs_inv_skip:
  assumes "dfs_inv adj V c ((v, i) # st)" "i < length (neighbors adj v)"
    and "map_of c (neighbors adj v ! i) = Some Black"
  shows "dfs_inv adj V c ((v, i + 1) # st)"
  using assms by (auto simp: dfs_inv_def less_Suc_eq)

lemma dfs_back_edge:
  assumes "dfs_inv adj V c ((v, i) # st)" "i < length (neighbors adj v)"
    and "map_of c (neighbors adj v ! i) = Some Gray"
  shows "\<not> acyclic (adj_rel adj)"
proof -
  let ?n = "neighbors adj v ! i"
  have "?n \<in> insert v (fst ` set st)" "frames_ok adj (\<lambda>v. map_of c v = Some Black) None ((v, i) # st)"
    using assms(1,3) by (auto simp: dfs_inv_def)
  then have "(?n, v) \<in> (adj_rel adj)\<^sup>*" using stack_reaches_top by metis
  moreover have "(v, ?n) \<in> adj_rel adj" using assms(2) by (simp add: adj_rel_def)
  ultimately show ?thesis by (meson acyclic_def rtrancl_into_trancl1)
qed

lemma neighbor_colored:
  assumes "dfs_inv adj V c st" "i < length (neighbors adj v)"
  shows "map_of c (neighbors adj v ! i) \<noteq> None"
proof -
  have "(v, neighbors adj v ! i) \<in> adj_rel adj" using assms(2) by (simp add: adj_rel_def)
  then show ?thesis using assms(1) by (auto simp: dfs_inv_def)
qed

lemma neighbor_color_cases:
  assumes "dfs_inv adj V c st" "i < length (neighbors adj v)"
  obtains "map_of c (neighbors adj v ! i) = Some White" | "map_of c (neighbors adj v ! i) = Some Gray"
    | "map_of c (neighbors adj v ! i) = Some Black"
proof -
  from neighbor_colored [OF assms] obtain k where "map_of c (neighbors adj v ! i) = Some k" by blast
  then show thesis using that by (cases k) simp_all
qed

text \<open>What the loop returns: a cycle, or a finished state in which no vertex turned white again.\<close>

definition dfs_result_ok ::
  "('v, 'v list) hashmap \<Rightarrow> 'v set \<Rightarrow> ('v, color) hashmap \<Rightarrow> ('v, color) hashmap option \<Rightarrow> bool" where
  "dfs_result_ok adj V c r \<longleftrightarrow>
     (case r of
        None \<Rightarrow> \<not> acyclic (adj_rel adj)
      | Some c' \<Rightarrow>
          dfs_inv adj V c' [] \<and> (\<forall>v. map_of c' v = Some White \<longrightarrow> map_of c v = Some White))"

lemma dfs_result_ok_update:
  "x \<noteq> White \<Longrightarrow> dfs_result_ok adj V (AList.update v x c) r \<Longrightarrow> dfs_result_ok adj V c r"
  by (auto simp: dfs_result_ok_def split: option.splits if_splits)

lemma dfs_loop_correct: "dfs_inv adj V c st \<Longrightarrow> dfs_result_ok adj V c (dfs_loop adj c st)"
proof (induction adj c st rule: dfs_loop.induct)
  case (1 adj c)
  then show ?case by (simp add: dfs_result_ok_def)
next
  case (2 adj c v i st)
  let ?n = "neighbors adj v ! i"
  have white: ?case if "i < length (neighbors adj v)" "map_of c ?n = Some White"
    unfolding dfs_loop_steps(2) [OF that]
    using 2(2) [OF that(1) refl that(2) refl dfs_inv_push [OF 2(5) that]]
    by (rule dfs_result_ok_update [rotated]) simp
  have gray: ?case if "i < length (neighbors adj v)" "map_of c ?n = Some Gray"
    unfolding dfs_loop_steps(1) [OF that]
    using dfs_back_edge [OF 2(5) that] by (simp add: dfs_result_ok_def)
  have black: ?case if "i < length (neighbors adj v)" "map_of c ?n = Some Black"
    unfolding dfs_loop_steps(3) [OF that]
    by (rule 2(3) [OF that(1) refl that(2) refl dfs_inv_skip [OF 2(5) that]])
  have pop: ?case if "\<not> i < length (neighbors adj v)"
    unfolding dfs_loop_steps(4) [OF that]
    using 2(4) [OF that dfs_inv_pop [OF 2(5) that]]
    by (rule dfs_result_ok_update [rotated]) simp
  show ?case
  proof (cases "i < length (neighbors adj v)")
    case True
    show ?thesis
      by (rule neighbor_color_cases [OF 2(5) True]) (fact white [OF True] gray [OF True] black [OF True])+
  qed (fact pop)
qed

lemma dfs_inv_start:
  assumes "dfs_inv adj V c []" "map_of c s = Some White"
  shows "dfs_inv adj V (AList.update s Gray c) [(s, 0)]"
  using assms by (auto simp: dfs_inv_def)

lemma dfs_done_acyclic:
  assumes "dfs_inv adj V c []" "\<forall>v \<in> V. map_of c v \<noteq> Some White"
  shows "acyclic (adj_rel adj)"
  unfolding acyclic_def
proof (intro allI notI)
  fix v assume cyc: "(v, v) \<in> (adj_rel adj)\<^sup>+"
  then obtain n where "(v, n) \<in> adj_rel adj" by (auto dest: tranclD)
  then have "v \<in> V" using assms(1) by (auto simp: dfs_inv_def)
  then obtain k where k: "map_of c v = Some k" using assms(1) by (auto simp: dfs_inv_def)
  have "k \<noteq> White" "k \<noteq> Gray"
    using assms \<open>v \<in> V\<close> k by (auto simp: dfs_inv_def)
  with k have "map_of c v = Some Black" by (cases k) simp_all
  with assms(1) cyc show False by (simp add: dfs_inv_def)
qed

lemma dfs_all_correct:
  assumes "dfs_inv adj V c []" "\<forall>v \<in> V. v \<in> set vs \<or> map_of c v \<noteq> Some White"
  shows "dfs_all adj c vs \<longleftrightarrow> acyclic (adj_rel adj)"
  using assms
proof (induction vs arbitrary: c)
  case Nil
  then show ?case using dfs_done_acyclic by simp
next
  case (Cons s vs)
  show ?case
  proof (cases "map_of c s = Some White")
    case False
    then have "\<forall>v \<in> V. v \<in> set vs \<or> map_of c v \<noteq> Some White" using Cons.prems(2) by auto
    with Cons.IH [OF Cons.prems(1)] False show ?thesis by simp
  next
    case True
    let ?r = "dfs_loop adj (AList.update s Gray c) [(s, 0)]"
    have r: "dfs_result_ok adj V (AList.update s Gray c) ?r"
      using dfs_inv_start [OF Cons.prems(1) True] by (rule dfs_loop_correct)
    show ?thesis
    proof (cases ?r)
      case None
      with r True show ?thesis by (simp add: dfs_result_ok_def)
    next
      case (Some c')
      with r have c': "dfs_inv adj V c' []"
        "\<And>v. map_of c' v = Some White \<Longrightarrow> v \<noteq> s \<and> map_of c v = Some White"
        by (auto simp: dfs_result_ok_def split: if_splits)
      then have "\<forall>v \<in> V. v \<in> set vs \<or> map_of c' v \<noteq> Some White" using Cons.prems(2) by auto
      with Cons.IH [OF c'(1)] True Some show ?thesis by simp
    qed
  qed
qed

lemma neighbors_add_adj:
  "neighbors (add_adj e adj) v = (if v = fst e then neighbors adj v @ [snd e] else neighbors adj v)"
  by (simp add: neighbors_def add_adj_def)

lemma adj_rel_fold: "adj_rel (fold add_adj es adj) = adj_rel adj \<union> set es"
proof (induction es arbitrary: adj)
  case (Cons e es)
  have "adj_rel (add_adj e adj) = insert e (adj_rel adj)"
    by (cases e) (auto simp: adj_rel_def neighbors_add_adj split: if_splits)
  with Cons show ?case by auto
qed simp

lemma adj_rel_build: "adj_rel (build_adj es) = set es"
  unfolding build_adj_def adj_rel_fold by (simp add: adj_rel_def neighbors_def)

lemma all_vertices_eq:
  "all_vertices g = vertices g \<union> Field (endpoints ` set (edges g))"
proof -
  have "fold (\<lambda>e vs. insert (snd (endpoints e)) (insert (fst (endpoints e)) vs)) es V =
      V \<union> Field (endpoints ` set es)" for es V
  proof (induction es arbitrary: V)
    case (Cons e es)
    have "Field (insert (endpoints e) R) = {fst (endpoints e), snd (endpoints e)} \<union> Field R" for R
      by (cases "endpoints e") (auto simp: Field_def)
    with Cons show ?case by auto
  qed simp
  then show ?thesis by (simp add: all_vertices_def)
qed

lemma is_acyclic_iff:
  assumes "finite (vertices g)"
  shows "is_acyclic g \<longleftrightarrow> acyclic (endpoints ` set (edges g))"
proof -
  let ?V = "all_vertices g" and ?E = "map endpoints (edges g)"
  let ?c = "map (\<lambda>v. (v, White)) (sorted_list_of_set ?V)"
  have fin: "finite ?V" using assms by (simp add: all_vertices_eq finite_Field)
  have c: "map_of ?c v = (if v \<in> ?V then Some White else None)" for v
    using fin by (simp add: map_of_map_restrict restrict_map_def)
  have "adj_rel (build_adj ?E) \<subseteq> ?V \<times> ?V"
    by (auto simp: adj_rel_build all_vertices_eq Field_def)
  then have "dfs_inv (build_adj ?E) ?V ?c []" by (simp add: dfs_inv_def c)
  then have "dfs_all (build_adj ?E) ?c (sorted_list_of_set ?V) \<longleftrightarrow> acyclic (adj_rel (build_adj ?E))"
    by (rule dfs_all_correct) (use fin in simp)
  then show ?thesis by (simp add: is_acyclic_def adj_rel_build Let_def)
qed

section \<open>Properties\<close>

text \<open>
  C22. The cycle check decides acyclicity: on any finite causal graph, \<open>is_acyclic\<close> returns true
  exactly when the relation formed by the endpoints of its edges has no cycle, edges between
  undeclared vertices included. The search always terminates.
\<close>

theorem is_acyclic_correct:
  assumes "finite (vertices g)"
  shows "is_acyclic g \<longleftrightarrow> acyclic (endpoints ` set (edges g))"
  using assms by (rule is_acyclic_iff)

theorem is_acyclic_correct_witness:
  "\<not> is_acyclic (add_edge (add_edge causal_graph_default (CausedBy (VBlock 2) (VBlock 3)))
       (DependsOn (VBlock 3) (VBlock 2)))"
proof -
  let ?g = "add_edge (add_edge causal_graph_default (CausedBy (VBlock 2) (VBlock 3)))
       (DependsOn (VBlock 3) (VBlock 2))"
  have e: "endpoints ` set (edges ?g) = {(VBlock 2, VBlock 3), (VBlock 3, VBlock 2)}"
    by (simp add: add_edge_def causal_graph_default_def)
  have "(VBlock 2, VBlock 2) \<in> {(VBlock 2, VBlock 3), (VBlock 3, VBlock 2)}\<^sup>+"
    by (rule trancl_into_trancl [OF r_into_trancl, of _ "VBlock 3"]) simp_all
  then have "\<not> acyclic (endpoints ` set (edges ?g))" unfolding e acyclic_def by blast
  moreover have "finite (vertices ?g)" by (simp add: add_edge_def causal_graph_default_def)
  ultimately show ?thesis using is_acyclic_correct by blast
qed

end
