(* ===== verification/Scc_Apply.thy ===== *)
theory Scc_Apply
  imports Scc_Balances Scc_Treasury Scc_Causal
begin

text \<open>
  Block application (\<open>crates/sccgub-state/src/apply.rs\<close>): fee collection and rewards, the
  payload transitions, the commitment of changed balances to the trie, the genesis mint, and
  the reconstruction of the ledger from the trie. The lemmas use the ledger through the contract
  \<open>value_ledger\<close> and the trie through \<open>kv_trie\<close>: value moves between accounts and treasury
  without being created or lost, and the trie always holds enough to rebuild the ledger.

  BLAKE3, the canonical encoding of the genesis seal and hex are parameters. An error of
  \<open>apply_block_economics\<close> leaves the ledger and treasury as far as the loop had come.
\<close>

section \<open>Receipts\<close>

record receipt_event =
  event_type :: string
  ev_data :: bytes
  source_tx :: hash

record causal_receipt =
  rc_tx_id :: hash
  rc_verdict :: verdict
  pre_state_root :: hash
  post_state_root :: hash
  read_set :: "hash list"
  write_set :: "hash list"
  causes :: "causal_edge list"
  resource_used :: resource_usage
  emitted_events :: "receipt_event list"
  rc_wh_binding :: wh_binding_resolved
  phi_phase_reached :: nat
  rc_tension_delta :: tension_value

section \<open>Committing balances\<close>

definition commit_balance_account ::
  "hex_encode \<Rightarrow> balance_ledger \<Rightarrow> agent_id \<Rightarrow> managed_world_state \<Rightarrow> managed_world_state" where
  "commit_balance_account hex b a w =
     snd (apply_delta w (single_write (balance_key hex a) (i128_to_le_bytes (balance_of b a))))"

definition commit_balance_accounts ::
  "hex_encode \<Rightarrow> managed_world_state \<Rightarrow> balance_ledger \<Rightarrow> agent_id set \<Rightarrow> managed_world_state" where
  "commit_balance_accounts hex w b changed =
     fold (commit_balance_account hex b) (sorted_list_of_set changed) w"

definition merge_state_deltas :: "state_delta \<Rightarrow> state_delta \<Rightarrow> state_delta" where
  "merge_state_deltas l r =
     \<lparr>writes = writes l @ writes r, deletes = deletes l @ deletes r\<rparr>"

section \<open>Fees and rewards\<close>

definition LEGACY_BLOCK_VERSION :: nat where "LEGACY_BLOCK_VERSION = 1"

definition validator_spend_account ::
  "(bytes \<Rightarrow> hash) \<Rightarrow> (mfidel_atomic_seal \<Rightarrow> bytes) \<Rightarrow> nat \<Rightarrow> hash \<Rightarrow> agent_id" where
  "validator_spend_account B canon block_version pk =
     (if block_version = LEGACY_BLOCK_VERSION then pk
      else blake3_hash_concat B [hash_bytes pk, canon (seal_from_height 0)])"

datatype apply_error =
    InsufficientFeeBalance hash tension_value tension_value tension_value
  | ReceiptCountMismatch nat nat
  | ReceiptTransitionMismatch hash hash
  | ReceiptNotAccepted hash
  | FeeDebitFailed hash agent_id ledger_error
  | DeltaLengthMismatch nat nat
  | MalformedBalanceEntry bytes

definition resolve_fee_payer ::
  "nat \<Rightarrow> balance_ledger \<Rightarrow> symbolic_transition \<Rightarrow> tension_value \<Rightarrow> apply_error + agent_id" where
  "resolve_fee_payer block_version b tx fee =
     (let a = agent_id_of (actor tx); signer = public_key (actor tx)
      in if fee \<le> 0 then Inr a
         else if balance_of b a \<ge> fee then Inr a
         else if block_version = LEGACY_BLOCK_VERSION \<and> signer \<noteq> a \<and> balance_of b signer \<ge> fee
         then Inr signer
         else Inl (InsufficientFeeBalance (tx_id tx) (balance_of b a) (balance_of b signer) fee))"

record block_economics_outcome =
  tx_deltas :: "state_delta list"
  tx_fees :: "tension_value list"
  tx_fee_payers :: "agent_id list"
  total_fees :: tension_value
  actual_reward :: tension_value

text \<open>The accumulators of the fee loop.\<close>

record fee_acc =
  fa_changed :: "agent_id set"
  fa_deltas :: "state_delta list"
  fa_fees :: "tension_value list"
  fa_payers :: "agent_id list"
  fa_total :: tension_value

definition fee_acc_new :: fee_acc where
  "fee_acc_new = \<lparr>fa_changed = {}, fa_deltas = [], fa_fees = [], fa_payers = [], fa_total = 0\<rparr>"

definition receipt_fee :: "causal_receipt \<Rightarrow> tension_value \<Rightarrow> tension_value" where
  "receipt_fee rc gas_price =
     i128_saturating_mul (int (compute_steps (resource_used rc))) gas_price"

definition push_fee :: "fee_acc \<Rightarrow> state_delta \<Rightarrow> tension_value \<Rightarrow> agent_id \<Rightarrow> fee_acc" where
  "push_fee acc d fee payer =
     acc\<lparr>fa_deltas := fa_deltas acc @ [d], fa_fees := fa_fees acc @ [fee],
         fa_payers := fa_payers acc @ [payer]\<rparr>"

definition fee_delta ::
  "hex_encode \<Rightarrow> agent_id \<Rightarrow> balance_ledger \<Rightarrow> treasury \<Rightarrow> state_delta" where
  "fee_delta hex payer b t =
     \<lparr>writes = \<lparr>address = balance_key hex payer, sw_value = i128_to_le_bytes (balance_of b payer)\<rparr>
        # treasury_state_writes t,
      deletes = []\<rparr>"

fun fee_loop ::
  "hex_encode \<Rightarrow> nat \<Rightarrow> tension_value \<Rightarrow> (symbolic_transition \<times> causal_receipt) list \<Rightarrow>
   fee_acc \<Rightarrow> balance_ledger \<Rightarrow> treasury \<Rightarrow> (apply_error + fee_acc) \<times> balance_ledger \<times> treasury" where
  "fee_loop hex ver gas_price [] acc b t = (Inr acc, b, t)"
| "fee_loop hex ver gas_price ((tx, rc) # rest) acc b t =
     (if rc_tx_id rc \<noteq> tx_id tx
      then (Inl (ReceiptTransitionMismatch (tx_id tx) (rc_tx_id rc)), b, t)
      else if \<not> is_accepted (rc_verdict rc) then (Inl (ReceiptNotAccepted (tx_id tx)), b, t)
      else
        let fee = receipt_fee rc gas_price
        in case resolve_fee_payer ver b tx fee of
             Inl e \<Rightarrow> (Inl e, b, t)
           | Inr payer \<Rightarrow>
               if fee > 0 then
                 (case debit b payer fee of
                    Inl e \<Rightarrow> (Inl (FeeDebitFailed (tx_id tx) payer e), b, t)
                  | Inr b' \<Rightarrow>
                      let t' = collect_fee t fee;
                          acc' = acc\<lparr>fa_changed := insert payer (fa_changed acc),
                                     fa_total := tension_add (fa_total acc) fee\<rparr>
                      in fee_loop hex ver gas_price rest
                           (push_fee acc' (fee_delta hex payer b' t') fee payer) b' t')
               else fee_loop hex ver gas_price rest (push_fee acc state_delta_default fee payer) b t)"

definition free_block_acc :: "symbolic_transition list \<Rightarrow> fee_acc" where
  "free_block_acc txs =
     fold (\<lambda>tx acc. push_fee acc state_delta_default 0 (agent_id_of (actor tx))) txs fee_acc_new"

text \<open>The part of the economics after the fee loop: reward, commitment, outcome.\<close>

definition settle_block_economics ::
  "hex_encode \<Rightarrow> agent_id \<Rightarrow> tension_value \<Rightarrow> fee_acc \<Rightarrow> managed_world_state \<Rightarrow> balance_ledger \<Rightarrow>
   treasury \<Rightarrow> block_economics_outcome \<times> managed_world_state \<times> balance_ledger \<times> treasury" where
  "settle_block_economics hex reward_account requested_reward acc w b t =
     (case distribute_reward t requested_reward of
        (reward, t') \<Rightarrow>
          let b' = (if reward > 0 then credit b reward_account reward else b);
              changed = (if reward > 0 then insert reward_account (fa_changed acc) else fa_changed acc);
              w' = commit_balance_accounts hex w b' changed;
              w'' = (if fa_total acc > 0 \<or> reward > 0 \<or> state_has_treasury_keys w'
                     then commit_treasury_state w' t' else w')
          in (\<lparr>tx_deltas = fa_deltas acc, tx_fees = fa_fees acc, tx_fee_payers = fa_payers acc,
               total_fees = fa_total acc, actual_reward = reward\<rparr>, w'', b', t'))"

definition apply_block_economics ::
  "(bytes \<Rightarrow> hash) \<Rightarrow> (mfidel_atomic_seal \<Rightarrow> bytes) \<Rightarrow> hex_encode \<Rightarrow> managed_world_state \<Rightarrow>
   balance_ledger \<Rightarrow> treasury \<Rightarrow> symbolic_transition list \<Rightarrow> causal_receipt list \<Rightarrow> nat \<Rightarrow> hash \<Rightarrow>
   tension_value \<Rightarrow> tension_value \<Rightarrow>
   (apply_error + block_economics_outcome) \<times> managed_world_state \<times> balance_ledger \<times> treasury" where
  "apply_block_economics B canon hex w b t txs rcs ver pk gas_price requested_reward =
     (if rcs \<noteq> [] \<and> length rcs \<noteq> length txs
      then (Inl (ReceiptCountMismatch (length txs) (length rcs)), w, b, t)
      else
        (case (if rcs = [] then (Inr (free_block_acc txs), b, t)
               else fee_loop hex ver gas_price (zip txs rcs) fee_acc_new b t) of
           (Inl e, b', t') \<Rightarrow> (Inl e, w, b', t')
         | (Inr acc, b', t') \<Rightarrow>
             (case settle_block_economics hex (validator_spend_account B canon ver pk)
                     requested_reward acc w b' t' of
                (out, w', b'', t'') \<Rightarrow> (Inr out, w', b'', t''))))"

section \<open>Payload transitions\<close>

record apply_acc =
  aa_world :: managed_world_state
  aa_balances :: balance_ledger
  aa_applied :: "hash set"
  aa_changed :: "agent_id set"
  aa_deltas :: "state_delta list"

definition apply_transition :: "hex_encode \<Rightarrow> symbolic_transition \<Rightarrow> apply_acc \<Rightarrow> apply_acc" where
  "apply_transition hex tx acc =
     (if tx_id tx \<in> aa_applied acc then acc\<lparr>aa_deltas := aa_deltas acc @ [state_delta_default]\<rparr>
      else
        let acc' = acc\<lparr>aa_applied := insert (tx_id tx) (aa_applied acc)\<rparr>
        in case payload tx of
             PWrite k v \<Rightarrow>
               let d = single_write k v
               in acc'\<lparr>aa_world := snd (apply_delta (aa_world acc) d), aa_deltas := aa_deltas acc @ [d]\<rparr>
           | PAssetTransfer src dst amt \<Rightarrow>
               (case transfer (aa_balances acc) src dst amt of
                  Inl _ \<Rightarrow> acc'\<lparr>aa_deltas := aa_deltas acc @ [state_delta_default]\<rparr>
                | Inr b' \<Rightarrow>
                    let d = \<lparr>writes =
                          [\<lparr>address = balance_key hex src,
                            sw_value = i128_to_le_bytes (balance_of b' src)\<rparr>,
                           \<lparr>address = balance_key hex dst,
                            sw_value = i128_to_le_bytes (balance_of b' dst)\<rparr>],
                        deletes = []\<rparr>
                    in acc'\<lparr>aa_balances := b', aa_changed := {src, dst} \<union> aa_changed acc,
                            aa_deltas := aa_deltas acc @ [d]\<rparr>)
           | _ \<Rightarrow> acc'\<lparr>aa_deltas := aa_deltas acc @ [state_delta_default]\<rparr>)"

definition apply_block_transitions ::
  "hex_encode \<Rightarrow> managed_world_state \<Rightarrow> balance_ledger \<Rightarrow> symbolic_transition list \<Rightarrow>
   state_delta list \<times> managed_world_state \<times> balance_ledger" where
  "apply_block_transitions hex w b txs =
     (let acc = fold (apply_transition hex) txs
                  \<lparr>aa_world = w, aa_balances = b, aa_applied = {}, aa_changed = {}, aa_deltas = []\<rparr>
      in (aa_deltas acc,
          commit_balance_accounts hex (aa_world acc) (aa_balances acc) (aa_changed acc),
          aa_balances acc))"

definition combine_receipt_deltas ::
  "state_delta list \<Rightarrow> state_delta list \<Rightarrow> apply_error + state_delta list" where
  "combine_receipt_deltas economics transitions =
     (if length economics \<noteq> length transitions
      then Inl (DeltaLengthMismatch (length economics) (length transitions))
      else Inr (map (\<lambda>(e, t). merge_state_deltas e t) (zip economics transitions)))"

section \<open>Genesis and reconstruction\<close>

definition apply_genesis_mint ::
  "hex_encode \<Rightarrow> managed_world_state \<Rightarrow> balance_ledger \<Rightarrow> agent_id \<Rightarrow>
   managed_world_state \<times> balance_ledger" where
  "apply_genesis_mint hex w b validator =
     (let amt = from_integer 1000000
      in (snd (apply_delta w (single_write (balance_key hex validator) (i128_to_le_bytes amt))),
          credit b validator amt))"

text \<open>\<open>hex::decode\<close> is a parameter; a 32-byte array is read big-endian as a word.\<close>

definition hash_of_bytes :: "bytes \<Rightarrow> hash" where
  "hash_of_bytes bs = word_of_nat (of_le_bytes (rev bs))"

fun balances_from_entries ::
  "(bytes \<Rightarrow> bytes option) \<Rightarrow> (bytes \<times> bytes) list \<Rightarrow> balance_ledger \<Rightarrow> apply_error + balance_ledger" where
  "balances_from_entries hexdec [] b = Inr b"
| "balances_from_entries hexdec ((k, v) # es) b =
     (if starts_with k NS_BALANCE then
        (let suffix = drop (length NS_BALANCE) k
         in if length v \<noteq> 16 then Inl (MalformedBalanceEntry k)
            else case hexdec suffix of
                   None \<Rightarrow> Inl (MalformedBalanceEntry k)
                 | Some agent_bytes \<Rightarrow>
                     if length agent_bytes \<noteq> 32 then Inl (MalformedBalanceEntry k)
                     else balances_from_entries hexdec es
                            (import_balance b (hash_of_bytes agent_bytes) (i128_from_le_bytes v)))
      else balances_from_entries hexdec es b)"

definition balances_from_trie ::
  "(bytes \<Rightarrow> bytes option) \<Rightarrow> managed_world_state \<Rightarrow> apply_error + balance_ledger" where
  "balances_from_trie hexdec w = balances_from_entries hexdec (trie_iter (trie w)) ledger_new"

section \<open>Commitment of balances\<close>

text \<open>What the trie keys rely on: \<open>hex::encode\<close> of 32 bytes is injective and 64 characters long.\<close>

definition hex_ok :: "hex_encode \<Rightarrow> bool" where
  "hex_ok hex \<longleftrightarrow> inj hex \<and> (\<forall>h. length (hex h) = 64)"

definition balance_fits :: "managed_world_state \<Rightarrow> bool" where
  "balance_fits w \<longleftrightarrow> 72 \<le> entry_cap w"

lemma balance_key_inject: "hex_ok hex \<Longrightarrow> balance_key hex a = balance_key hex b \<longleftrightarrow> a = b"
  by (auto simp: hex_ok_def balance_key_def dest: injD)

lemma balance_key_length: "hex_ok hex \<Longrightarrow> length (balance_key hex a) = 72"
  by (simp add: hex_ok_def balance_key_def)

lemma balance_key_prefix [simp]: "starts_with (balance_key hex a) NS_BALANCE"
  by (simp add: balance_key_def NS_BALANCE_def starts_with_def)

lemma balance_fits_delta [simp]: "balance_fits (snd (apply_delta w d)) = balance_fits w"
  by (simp add: balance_fits_def)

lemma commit_account_get:
  assumes "hex_ok hex" "balance_fits w"
  shows "world_get (commit_balance_account hex b a w) k =
    (if k = balance_key hex a then Some (i128_to_le_bytes (balance_of b a)) else world_get w k)"
  using assms by (simp add: commit_balance_account_def apply_delta_single balance_key_length balance_fits_def)

lemma commit_account_frame [simp]:
  "balance_fits (commit_balance_account hex b a w) = balance_fits w"
  by (simp add: commit_balance_account_def)

lemma commit_list_get:
  assumes "hex_ok hex" "balance_fits w"
  shows "world_get (fold (commit_balance_account hex b) as w) (balance_key hex a) =
      (if a \<in> set as then Some (i128_to_le_bytes (balance_of b a)) else world_get w (balance_key hex a))"
    and "(\<And>a. k \<noteq> balance_key hex a) \<Longrightarrow>
      world_get (fold (commit_balance_account hex b) as w) k = world_get w k"
  using assms(2)
  by (induction as arbitrary: w) (auto simp: commit_account_get [OF assms(1)] balance_key_inject [OF assms(1)])

lemma commit_balance_accounts_get:
  assumes "hex_ok hex" "balance_fits w" "finite changed"
  shows "world_get (commit_balance_accounts hex w b changed) (balance_key hex a) =
      (if a \<in> changed then Some (i128_to_le_bytes (balance_of b a)) else world_get w (balance_key hex a))"
    and "(\<And>a. k \<noteq> balance_key hex a) \<Longrightarrow>
      world_get (commit_balance_accounts hex w b changed) k = world_get w k"
  using assms by (simp_all add: commit_balance_accounts_def commit_list_get)

text \<open>
  The trie commits to the ledger: the balance namespace holds nothing but balance entries, each
  is the balance of its agent, and an agent without an entry has balance zero.
\<close>

definition ledger_committed :: "hex_encode \<Rightarrow> managed_world_state \<Rightarrow> balance_ledger \<Rightarrow> bool" where
  "ledger_committed hex w b \<longleftrightarrow>
     (\<forall>k v. world_get w k = Some v \<and> starts_with k NS_BALANCE \<longrightarrow> (\<exists>a. k = balance_key hex a)) \<and>
     (\<forall>a. case world_get w (balance_key hex a) of
            None \<Rightarrow> balance_of b a = 0
          | Some v \<Rightarrow> v = i128_to_le_bytes (balance_of b a))"

lemma ledger_committed_commit:
  assumes "hex_ok hex" "balance_fits w" "finite changed" "ledger_committed hex w b"
    and "\<And>a. a \<notin> changed \<Longrightarrow> balance_of b' a = balance_of b a"
  shows "ledger_committed hex (commit_balance_accounts hex w b' changed) b'"
proof -
  note get = commit_balance_accounts_get [OF assms(1-3)]
  have "\<exists>a. k = balance_key hex a"
    if "world_get (commit_balance_accounts hex w b' changed) k = Some v" "starts_with k NS_BALANCE" for k v
    using that get(2) [of k] assms(4) unfolding ledger_committed_def by metis
  moreover have "case world_get (commit_balance_accounts hex w b' changed) (balance_key hex a) of
      None \<Rightarrow> balance_of b' a = 0 | Some v \<Rightarrow> v = i128_to_le_bytes (balance_of b' a)" for a
  proof (cases "a \<in> changed")
    case False
    then have e: "balance_of b' a = balance_of b a" by (rule assms(5))
    show ?thesis unfolding get(1) e using False assms(4) by (simp add: ledger_committed_def)
  qed (simp add: get(1))
  ultimately show ?thesis by (auto simp: ledger_committed_def)
qed

section \<open>Fees\<close>

text \<open>What the fee loop keeps, as one predicate on the start and the end of the loop.\<close>

definition fee_state_ok :: "balance_ledger \<Rightarrow> treasury \<Rightarrow> bool" where
  "fee_state_ok b t \<longleftrightarrow> ledger_ok b \<and> treasury_ok t \<and>
     total_fees_collected t + ledger_sum b \<le> I128_MAX"

definition fee_move :: "fee_acc \<Rightarrow> balance_ledger \<Rightarrow> treasury \<Rightarrow> fee_acc \<Rightarrow> balance_ledger \<Rightarrow> treasury \<Rightarrow> bool" where
  "fee_move acc b t acc' b' t' \<longleftrightarrow>
     fee_state_ok b' t' \<and>
     ledger_sum b' = ledger_sum b - (fa_total acc' - fa_total acc) \<and>
     pending_fees t' = pending_fees t + (fa_total acc' - fa_total acc) \<and>
     fa_total acc \<le> fa_total acc' \<and>
     (\<forall>a. a \<notin> fa_changed acc' \<longrightarrow> balance_of b' a = balance_of b a) \<and>
     fa_changed acc \<subseteq> fa_changed acc' \<and> (finite (fa_changed acc) \<longrightarrow> finite (fa_changed acc'))"

lemma fee_move_trans:
  assumes "fee_move acc b t acc' b' t'" "fee_move acc' b' t' acc'' b'' t''"
  shows "fee_move acc b t acc'' b'' t''"
  using assms by (auto simp: fee_move_def)

lemma fee_move_refl: "fee_state_ok b t \<Longrightarrow> fee_move acc b t (push_fee acc d fee p) b t"
  by (simp add: fee_move_def push_fee_def)

text \<open>Charging one fee.\<close>

lemma fee_move_charge:
  assumes "fee_state_ok b t" "0 < fee" "debit b p fee = Inr b'"
    and "0 \<le> fa_total acc" "fa_total acc + ledger_sum b \<le> I128_MAX"
  shows "fee_move acc b t
    (push_fee (acc\<lparr>fa_changed := insert p (fa_changed acc),
                  fa_total := tension_add (fa_total acc) fee\<rparr>) d fee p) b' (collect_fee t fee)"
proof -
  from assms(1) have b: "ledger_ok b" "treasury_ok t" "total_fees_collected t + ledger_sum b \<le> I128_MAX"
    by (simp_all add: fee_state_ok_def)
  have d: "ledger_ok b'" "ledger_sum b' = ledger_sum b - fee"
    "\<And>a. balance_of b' a = (if a = p then balance_of b p - fee else balance_of b a)"
    using native.db_ok [OF b(1) _ assms(3)] native.db_total [OF b(1) _ assms(3)]
      native.db_bal [OF b(1) _ assms(3)] assms(2) by simp_all
  have "fee \<le> ledger_sum b" using native.total_nonneg [OF d(1)] d(2) by simp
  then have "total_fees_collected t + max fee 0 \<le> I128_MAX"
    and f: "tension_add (fa_total acc) fee = fa_total acc + fee"
    using b(3) assms(2,4,5) by (simp_all add: tension_add_exact)
  note c = treasury_ok_collect [OF b(2) this(1)]
  have "pending_fees (collect_fee t fee) = pending_fees t + fee"
    using b(2) c(2) assms(2) \<open>total_fees_collected t + max fee 0 \<le> I128_MAX\<close>
    by (simp add: collect_fee_def Let_def tension_add_exact treasury_ok_def)
  with c d f b(3) assms(2) show ?thesis
    by (auto simp: fee_move_def fee_state_ok_def push_fee_def)
qed

lemma fee_loop_moves:
  assumes "fee_loop hex ver g ps acc b t = (Inr acc', b', t')" "fee_state_ok b t"
    and "0 \<le> fa_total acc" "fa_total acc + ledger_sum b \<le> I128_MAX"
  shows "fee_move acc b t acc' b' t'"
  using assms
proof (induction hex ver g ps acc b t rule: fee_loop.induct)
  case (1 hex ver g acc b t)
  then show ?case by (simp add: fee_move_def)
next
  case (2 hex ver g tx rc rest acc b t)
  let ?fee = "receipt_fee rc g"
  from 2(3) obtain p where p: "resolve_fee_payer ver b tx ?fee = Inr p" "rc_tx_id rc = tx_id tx"
    "is_accepted (rc_verdict rc)"
    by (auto simp: Let_def split: if_splits sum.splits)
  show ?case
  proof (cases "0 < ?fee")
    case False
    let ?acc = "push_fee acc state_delta_default ?fee p"
    have run: "fee_loop hex ver g rest ?acc b t = (Inr acc', b', t')"
      using 2(3) p False by (simp add: Let_def)
    have "fee_move ?acc b t acc' b' t'"
      using 2(2) [OF _ _ refl p(1) False run] p(2,3) 2(4-6) by (simp add: push_fee_def)
    with fee_move_refl [OF 2(4)] show ?thesis by (rule fee_move_trans)
  next
    case True
    with 2(3) p obtain b1 where b1: "debit b p ?fee = Inr b1" by (auto simp: Let_def split: sum.splits)
    define t1 where "t1 = collect_fee t ?fee"
    define acc1 where "acc1 = push_fee (acc\<lparr>fa_changed := insert p (fa_changed acc),
        fa_total := tension_add (fa_total acc) ?fee\<rparr>) (fee_delta hex p b1 t1) ?fee p"
    have run: "fee_loop hex ver g rest acc1 b1 t1 = (Inr acc', b', t')"
      using 2(3) p True b1 by (simp add: Let_def acc1_def t1_def)
    have mv: "fee_move acc b t acc1 b1 t1"
      unfolding acc1_def t1_def by (rule fee_move_charge [OF 2(4) True b1 2(5,6)])
    then have "fee_state_ok b1 t1" "0 \<le> fa_total acc1" "fa_total acc1 + ledger_sum b1 \<le> I128_MAX"
      using 2(5,6) by (auto simp: fee_move_def)
    then have "fee_move acc1 b1 t1 acc' b' t'"
      using 2(1) [OF _ _ refl p(1) True b1 refl refl] run p(2,3) by (simp add: acc1_def t1_def)
    with mv show ?thesis by (rule fee_move_trans)
  qed
qed

lemma free_block_acc_facts:
  "fa_total (free_block_acc txs) = 0" "fa_changed (free_block_acc txs) = {}"
proof -
  have "fa_total (fold (\<lambda>tx acc. push_fee acc state_delta_default 0 (agent_id_of (actor tx))) txs acc) = fa_total acc \<and>
      fa_changed (fold (\<lambda>tx acc. push_fee acc state_delta_default 0 (agent_id_of (actor tx))) txs acc) = fa_changed acc" for acc
    by (induction txs arbitrary: acc) (simp_all add: push_fee_def)
  then show "fa_total (free_block_acc txs) = 0" "fa_changed (free_block_acc txs) = {}"
    by (simp_all add: free_block_acc_def fee_acc_new_def)
qed

text \<open>The state after the fees, before the reward, of a block whose economics succeed.\<close>

lemma economics_Inr:
  assumes "apply_block_economics B canon hex w b t txs rcs ver pk g req = (Inr out, w', b', t')"
    and "fee_state_ok b t"
  obtains acc b1 t1 where "fee_move fee_acc_new b t acc b1 t1"
    "settle_block_economics hex (validator_spend_account B canon ver pk) req acc w b1 t1 = (out, w', b', t')"
proof -
  from assms(1) obtain acc b1 t1 where
    l: "(if rcs = [] then (Inr (free_block_acc txs), b, t)
         else fee_loop hex ver g (zip txs rcs) fee_acc_new b t) = (Inr acc, b1, t1)"
    and s: "settle_block_economics hex (validator_spend_account B canon ver pk) req acc w b1 t1 =
      (out, w', b', t')"
    by (auto simp: apply_block_economics_def split: if_splits prod.splits sum.splits)
  have "fee_move fee_acc_new b t acc b1 t1"
  proof (cases "rcs = []")
    case True
    with l assms(2) show ?thesis
      by (auto simp: fee_move_def free_block_acc_facts fee_acc_new_def)
  next
    case False
    have "0 \<le> total_fees_collected t" using assms(2) by (auto simp: fee_state_ok_def treasury_ok_def)
    then show ?thesis
      using fee_loop_moves [of hex ver g "zip txs rcs" fee_acc_new b t acc b1 t1] False l assms(2)
      by (simp add: fee_state_ok_def fee_acc_new_def)
  qed
  with s that show thesis by blast
qed

lemma settle_moves:
  assumes "settle_block_economics hex v req acc w b t = (out, w', b', t')" "fee_state_ok b t"
  shows "ledger_ok b' \<and> treasury_ok t' \<and> total_fees out = fa_total acc \<and> 0 \<le> actual_reward out \<and>
    ledger_sum b' = ledger_sum b + actual_reward out \<and>
    pending_fees t' = pending_fees t - actual_reward out \<and>
    total_fees_collected t' = total_fees_collected t \<and>
    actual_reward out = min (max req 0) (pending_fees t) \<and>
    balance_of b' a = balance_of b a + (if a = v then actual_reward out else 0)"
proof -
  have t: "treasury_ok t" and b: "ledger_ok b" "total_fees_collected t + ledger_sum b \<le> I128_MAX"
    using assms(2) by (simp_all add: fee_state_ok_def)
  note d = distribute_reward_exact [OF t, of req]
  obtain r t2 where r: "distribute_reward t req = (r, t2)" by fastforce
  have r0: "0 \<le> r" "r \<le> pending_fees t" using d(1) r t by (auto simp: treasury_ok_def)
  have "ledger_sum b + r \<le> I128_MAX" using b(2) r0 t by (auto simp: treasury_ok_def)
  then have c: "ledger_ok (credit b v r)" "ledger_sum (credit b v r) = ledger_sum b + r"
    "balance_of (credit b v r) a = (if a = v then balance_of b v + r else balance_of b a)"
    using native.cr_ok [OF b(1) r0(1)] native.cr_total [OF b(1) r0(1)] native.cr_bal [OF b(1) r0(1)]
    by auto
  from assms(1) r have o: "actual_reward out = r" "total_fees out = fa_total acc" "t' = t2"
    "b' = (if r > 0 then credit b v r else b)"
    by (auto simp: settle_block_economics_def Let_def)
  have b': "ledger_ok b'" "ledger_sum b' = ledger_sum b + r"
    "balance_of b' a = balance_of b a + (if a = v then r else 0)"
    using o(4) c b(1) r0(1) by (auto split: if_splits)
  show ?thesis using o(1-3) b' d r r0(1) by simp
qed

section \<open>Transitions\<close>

text \<open>What a transition keeps, in the accumulator of the loop.\<close>

definition acc_ok :: "hex_encode \<Rightarrow> balance_ledger \<Rightarrow> apply_acc \<Rightarrow> bool" where
  "acc_ok hex b acc \<longleftrightarrow>
     ledger_ok (aa_balances acc) \<and> ledger_sum (aa_balances acc) = ledger_sum b \<and>
     finite (aa_changed acc) \<and> balance_fits (aa_world acc) \<and> ledger_committed hex (aa_world acc) b \<and>
     (\<forall>a. a \<notin> aa_changed acc \<longrightarrow> balance_of (aa_balances acc) a = balance_of b a)"

definition writes_balance :: "symbolic_transition \<Rightarrow> bool" where
  "writes_balance tx = (case payload tx of PWrite k _ \<Rightarrow> starts_with k NS_BALANCE | _ \<Rightarrow> False)"

lemma ledger_committed_write:
  assumes "ledger_committed hex w b" "\<not> starts_with k NS_BALANCE"
  shows "ledger_committed hex (snd (apply_delta w (single_write k v))) b"
proof -
  have "k \<noteq> balance_key hex a" for a using assms(2) by auto
  with assms show ?thesis unfolding ledger_committed_def apply_delta_single by auto
qed

lemma apply_transition_ok:
  assumes "acc_ok hex b acc" "\<not> writes_balance tx"
  shows "acc_ok hex b (apply_transition hex tx acc)"
proof (cases "tx_id tx \<in> aa_applied acc")
  case True
  with assms(1) show ?thesis by (simp add: apply_transition_def acc_ok_def)
next
  case False
  show ?thesis
  proof (cases "payload tx")
    case (PWrite k v)
    with assms False show ?thesis
      by (simp add: apply_transition_def acc_ok_def Let_def writes_balance_def ledger_committed_write)
  next
    case (PAssetTransfer src dst amt)
    show ?thesis
    proof (cases "transfer (aa_balances acc) src dst amt")
      case (Inl e)
      with assms(1) False PAssetTransfer show ?thesis
        by (simp add: apply_transition_def acc_ok_def Let_def)
    next
      case (Inr b')
      then obtain m where m: "0 < amt" "src \<noteq> dst" "debit (aa_balances acc) src amt = Inr m"
        "b' = credit m dst amt" by (auto simp: transfer_Inr_iff)
      have ok: "ledger_ok (aa_balances acc)" using assms(1) by (simp add: acc_ok_def)
      have "ledger_ok b'" "ledger_sum b' = ledger_sum (aa_balances acc)"
        using native.db_cr_total [OF ok _ m(3), of dst] m(1,4) by simp_all
      moreover have "balance_of b' a = balance_of (aa_balances acc) a" if "a \<noteq> src" "a \<noteq> dst" for a
        using native.db_cr_bal [OF ok _ m(3) m(2), of a] m(1,4) that by simp
      ultimately show ?thesis
        using assms(1) False PAssetTransfer Inr
        by (simp add: apply_transition_def acc_ok_def Let_def)
    qed
  qed (use assms(1) False in \<open>simp_all add: apply_transition_def acc_ok_def Let_def\<close>)
qed

lemma apply_transitions_ok:
  assumes "acc_ok hex b acc" "\<forall>tx \<in> set txs. \<not> writes_balance tx"
  shows "acc_ok hex b (fold (apply_transition hex) txs acc)"
  using assms by (induction txs arbitrary: acc) (auto simp: apply_transition_ok)

lemma length_apply_transition: "length (aa_deltas (apply_transition hex tx acc)) = Suc (length (aa_deltas acc))"
  by (auto simp: apply_transition_def Let_def split: operation_payload.splits sum.splits)

lemma length_apply_transitions:
  "length (aa_deltas (fold (apply_transition hex) txs acc)) = length (aa_deltas acc) + length txs"
  by (induction txs arbitrary: acc) (simp_all add: length_apply_transition)

section \<open>Reconstruction\<close>

lemma hash_of_hash_bytes [simp]: "hash_of_bytes (hash_bytes h) = h"
proof -
  have "unat h < 256 ^ 32" using unsigned_less [of h] by simp
  then show ?thesis by (simp add: hash_of_bytes_def hash_bytes_def of_le_bytes_le_bytes)
qed

lemma balance_suffix: "drop (length NS_BALANCE) (balance_key hex a) = hex a"
  by (simp add: NS_BALANCE_def balance_key_def)

text \<open>An entry the reader accepts: outside the namespace, or a 16-byte balance of an agent.\<close>

definition balance_entry_ok :: "hex_encode \<Rightarrow> bytes \<times> bytes \<Rightarrow> bool" where
  "balance_entry_ok hex e \<longleftrightarrow>
     (starts_with (fst e) NS_BALANCE \<longrightarrow> (\<exists>a. fst e = balance_key hex a) \<and> length (snd e) = 16)"

lemma balance_of_import [simp]:
  "balance_of (import_balance b a x) c = (if c = a then x else balance_of b c)"
  by (simp add: import_balance_def)

lemma balances_from_entries_correct:
  assumes "hex_ok hex" "\<And>a. hexdec (hex a) = Some (hash_bytes a)"
    and "keys_distinct es" "\<forall>e \<in> set es. balance_entry_ok hex e"
  shows "\<exists>l. balances_from_entries hexdec es b = Inr l \<and>
    (\<forall>a. balance_of l a = (case map_of es (balance_key hex a) of
       Some v \<Rightarrow> i128_from_le_bytes v | None \<Rightarrow> balance_of b a))"
  using assms(3,4)
proof (induction es arbitrary: b)
  case (Cons e es)
  obtain k v where e: "e = (k, v)" by fastforce
  have IH: "\<exists>l. balances_from_entries hexdec es b' = Inr l \<and>
      (\<forall>a. balance_of l a = (case map_of es (balance_key hex a) of
         Some v \<Rightarrow> i128_from_le_bytes v | None \<Rightarrow> balance_of b' a))" for b'
    by (rule Cons.IH) (use Cons.prems in simp_all)
  show ?case
  proof (cases "starts_with k NS_BALANCE")
    case False
    then have "balance_key hex a \<noteq> k" for a by auto
    moreover from IH [of b] obtain l where "balances_from_entries hexdec es b = Inr l"
      "\<forall>a. balance_of l a = (case map_of es (balance_key hex a) of
         Some v \<Rightarrow> i128_from_le_bytes v | None \<Rightarrow> balance_of b a)" by blast
    ultimately show ?thesis using False by (simp add: e)
  next
    case True
    with Cons.prems e obtain c where c: "k = balance_key hex c" "length v = 16"
      by (auto simp: balance_entry_ok_def)
    let ?b = "import_balance b c (i128_from_le_bytes v)"
    from IH [of ?b] obtain l where l: "balances_from_entries hexdec es ?b = Inr l"
      "\<forall>a. balance_of l a = (case map_of es (balance_key hex a) of
         Some v \<Rightarrow> i128_from_le_bytes v | None \<Rightarrow> balance_of ?b a)" by blast
    have "map_of es k = None" using Cons.prems(1) by (simp add: e map_of_eq_None_iff)
    with l(2) have "\<forall>a. balance_of l a = (case map_of (e # es) (balance_key hex a) of
         Some v \<Rightarrow> i128_from_le_bytes v | None \<Rightarrow> balance_of b a)"
      by (auto simp: e c(1) balance_key_inject [OF assms(1)] split: option.splits)
    moreover have "balances_from_entries hexdec (e # es) b = Inr l"
      using True c l(1) assms(2) by (simp add: e balance_suffix Let_def)
    ultimately show ?thesis by blast
  qed
qed simp

lemma balance_of_new [simp]: "balance_of ledger_new a = 0"
  by (simp add: balance_of_def ledger_new_def)

lemma balances_from_trie_committed:
  assumes "hex_ok hex" "\<And>a. hexdec (hex a) = Some (hash_bytes a)"
    and "bt_sorted (store (trie w))" "ledger_committed hex w b" "ledger_ok b"
  shows "\<exists>l. balances_from_trie hexdec w = Inr l \<and> (\<forall>a. balance_of l a = balance_of b a)"
proof -
  have dist: "keys_distinct (store (trie w))" using assms(3) by (rule bt_sorted_distinct)
  have get: "world_get w k = map_of (store (trie w)) k" for k by (simp add: world_get_def trie_get_def)
  have c: "case map_of (store (trie w)) (balance_key hex a) of None \<Rightarrow> balance_of b a = 0
      | Some v \<Rightarrow> v = i128_to_le_bytes (balance_of b a)" for a
    using assms(4) unfolding ledger_committed_def get by blast
  have "balance_entry_ok hex e" if "e \<in> set (store (trie w))" for e
  proof -
    from that dist have m: "map_of (store (trie w)) (fst e) = Some (snd e)" by simp
    show ?thesis
      unfolding balance_entry_ok_def
    proof
      assume "starts_with (fst e) NS_BALANCE"
      then obtain a where a: "fst e = balance_key hex a"
        using assms(4) m unfolding ledger_committed_def get by blast
      with c [of a] m have "snd e = i128_to_le_bytes (balance_of b a)" by simp
      with a show "(\<exists>a. fst e = balance_key hex a) \<and> length (snd e) = 16" by auto
    qed
  qed
  then obtain l where l: "balances_from_trie hexdec w = Inr l"
    "\<forall>a. balance_of l a = (case map_of (store (trie w)) (balance_key hex a) of
       Some v \<Rightarrow> i128_from_le_bytes v | None \<Rightarrow> balance_of ledger_new a)"
    using balances_from_entries_correct [OF assms(1,2) dist, of ledger_new]
    by (auto simp: balances_from_trie_def trie_iter_def)
  have "balance_of l a = balance_of b a" for a
  proof -
    have "is_i128 (balance_of b a)"
      using assms(5) balance_of_range [of b a] by (simp add: ledger_ok_def is_i128_nonneg)
    then show ?thesis
      using c [of a] l(2) by (auto simp: i128_le_bytes_roundtrip balance_of_new split: option.splits)
  qed
  with l(1) show ?thesis by blast
qed

lemma apply_delta_sorted:
  "bt_sorted (store (trie w)) \<Longrightarrow> bt_sorted (store (trie (snd (apply_delta w d))))"
proof -
  have ins: "bt_sorted (store v) \<Longrightarrow> bt_sorted (store (fold (\<lambda>(k, v) t. trie_insert t k v) es v))" for es v
  proof (induction es arbitrary: v)
    case (Cons e es)
    have "bt_sorted (store (trie_insert v (fst e) (snd e)))"
      unfolding store_insert using Cons.prems by (rule bt_sorted_insert)
    from Cons.IH [OF this] show ?case by (simp add: split_beta)
  qed simp
  have del: "bt_sorted (store v) \<Longrightarrow> bt_sorted (store (fold (\<lambda>a t. snd (trie_remove t a)) ds v))" for ds v
  proof (induction ds arbitrary: v)
    case (Cons d ds)
    have "bt_sorted (store (snd (trie_remove v d)))"
      unfolding store_remove using Cons.prems by (rule bt_sorted_remove)
    from Cons.IH [OF this] show ?case by simp
  qed simp
  assume "bt_sorted (store (trie w))"
  then show ?thesis by (simp add: apply_delta_def split_beta apply_writes_trie ins del)
qed

lemma commit_accounts_sorted:
  "bt_sorted (store (trie w)) \<Longrightarrow> bt_sorted (store (trie (commit_balance_accounts hex w b ch)))"
proof -
  have "bt_sorted (store (trie v)) \<Longrightarrow>
      bt_sorted (store (trie (fold (commit_balance_account hex b) as v)))" for as v
  proof (induction as arbitrary: v)
    case (Cons a as)
    have "bt_sorted (store (trie (commit_balance_account hex b a v)))"
      unfolding commit_balance_account_def using Cons.prems by (rule apply_delta_sorted)
    from Cons.IH [OF this] show ?case by simp
  qed simp
  then show "bt_sorted (store (trie w)) \<Longrightarrow> bt_sorted (store (trie (commit_balance_accounts hex w b ch)))"
    by (simp add: commit_balance_accounts_def)
qed

lemma apply_transition_sorted:
  "bt_sorted (store (trie (aa_world acc))) \<Longrightarrow>
     bt_sorted (store (trie (aa_world (apply_transition hex tx acc))))"
proof (cases "payload tx")
  case (PWrite k v)
  assume s: "bt_sorted (store (trie (aa_world acc)))"
  note apply_delta_sorted [OF s, of "single_write k v"]
  with s PWrite show ?thesis by (simp add: apply_transition_def Let_def)
qed (simp_all add: apply_transition_def Let_def split: sum.split)

lemma apply_transitions_sorted:
  "bt_sorted (store (trie (aa_world acc))) \<Longrightarrow>
     bt_sorted (store (trie (aa_world (fold (apply_transition hex) txs acc))))"
proof (induction txs arbitrary: acc)
  case (Cons tx txs)
  from Cons.IH [OF apply_transition_sorted [OF Cons.prems]] show ?case by simp
qed simp

text \<open>Everything the transition loop and the final commit guarantee.\<close>

lemma apply_block_transitions_facts:
  assumes "hex_ok hex" "balance_fits w" "ledger_ok b" "ledger_committed hex w b"
    and "\<forall>tx \<in> set txs. \<not> writes_balance tx"
    and "apply_block_transitions hex w b txs = (ds, w', b')"
  shows "ledger_sum b' = ledger_sum b" "ledger_ok b'" "length ds = length txs"
    "ledger_committed hex w' b'"
    "bt_sorted (store (trie w)) \<Longrightarrow> bt_sorted (store (trie w'))"
proof -
  define acc0 where "acc0 = \<lparr>aa_world = w, aa_balances = b, aa_applied = {}, aa_changed = {}, aa_deltas = []\<rparr>"
  define acc where "acc = fold (apply_transition hex) txs acc0"
  have "acc_ok hex b acc0" using assms(2-4) by (simp add: acc_ok_def acc0_def)
  then have a: "acc_ok hex b acc" unfolding acc_def using assms(5) by (rule apply_transitions_ok)
  have r: "ds = aa_deltas acc" "b' = aa_balances acc"
    "w' = commit_balance_accounts hex (aa_world acc) (aa_balances acc) (aa_changed acc)"
    using assms(6) by (auto simp: apply_block_transitions_def acc_def acc0_def Let_def)
  show "ledger_committed hex w' b'"
    unfolding r using a by (intro ledger_committed_commit [OF assms(1)]) (auto simp: acc_ok_def)
  show "length ds = length txs"
    by (simp add: r acc_def length_apply_transitions acc0_def)
  show "ledger_sum b' = ledger_sum b" "ledger_ok b'" using a by (simp_all add: r acc_ok_def)
  assume s: "bt_sorted (store (trie w))"
  show "bt_sorted (store (trie w'))"
    unfolding r acc_def
    by (intro commit_accounts_sorted apply_transitions_sorted) (simp add: acc0_def s)
qed

section \<open>Properties\<close>

text \<open>
  C6. The block economics move value and never create it: when they succeed, the fees charged
  leave the accounts and enter the treasury, the reward leaves the treasury for the validator's
  account, so balances plus pending fees are what they were, and the reward is the requested one
  capped by the pending fees. Balances stay non-negative and the treasury books balance.
\<close>

theorem block_economics_conserve:
  assumes "apply_block_economics B canon hex w b t txs rcs ver pk gas_price req = (Inr out, w', b', t')"
    and "ledger_ok b" "treasury_ok t" "total_fees_collected t + ledger_sum b \<le> I128_MAX"
  shows "ledger_sum b' = ledger_sum b - total_fees out + actual_reward out \<and>
    net_balance t' = net_balance t + total_fees out - actual_reward out \<and>
    actual_reward out = min (max req 0) (net_balance t + total_fees out) \<and>
    0 \<le> total_fees out \<and> ledger_ok b' \<and> treasury_ok t'"
proof -
  have ok: "fee_state_ok b t" using assms(2-4) by (simp add: fee_state_ok_def)
  obtain acc b1 t1 where m: "fee_move fee_acc_new b t acc b1 t1"
    and s: "settle_block_economics hex (validator_spend_account B canon ver pk) req acc w b1 t1 =
      (out, w', b', t')"
    by (rule economics_Inr [OF assms(1) ok])
  have "fee_state_ok b1 t1" using m by (simp add: fee_move_def)
  from settle_moves [OF s this] m show ?thesis
    by (simp add: fee_move_def fee_acc_new_def net_balance_def)
qed

definition sample_validator_ledger :: balance_ledger where
  "sample_validator_ledger = credit ledger_new 2 500"

lemma sample_validator_ledger_ok:
  "ledger_ok sample_validator_ledger" "ledger_sum sample_validator_ledger = 500"
  using native.cr_ok [of ledger_new 500 2] native.cr_total [of ledger_new 500 2]
  by (simp_all add: sample_validator_ledger_def machine_int)

theorem block_economics_conserve_witness:
  "\<exists>out w' b' t'. apply_block_economics (\<lambda>_. 7) (\<lambda>_. []) (\<lambda>_. []) world_new sample_validator_ledger
     (collect_fee treasury_new 30) [] [] 2 9 1 10 = (Inr out, w', b', t') \<and>
     ledger_sum b' = 500 - total_fees out + actual_reward out \<and> actual_reward out = 10"
proof -
  let ?t = "collect_fee treasury_new 30"
  have t: "treasury_ok ?t" "total_fees_collected ?t = 30" "pending_fees ?t = 30"
    by (simp_all add: treasury_ok_def machine_int collect_fee_def treasury_new_def tension_add_exact)
  obtain out w' b' t' where s: "settle_block_economics (\<lambda>_. [])
      (validator_spend_account (\<lambda>_. 7) (\<lambda>_. []) 2 9) 10 (free_block_acc []) world_new
      sample_validator_ledger ?t = (out, w', b', t')"
    by (rule prod_cases4)
  then have e: "apply_block_economics (\<lambda>_. 7) (\<lambda>_. []) (\<lambda>_. []) world_new
      sample_validator_ledger ?t [] [] 2 9 1 10 = (Inr out, w', b', t')"
    by (simp add: apply_block_economics_def)
  have "total_fees out = 0"
    using s by (auto simp: settle_block_economics_def Let_def free_block_acc_facts split: prod.splits)
  moreover have "total_fees_collected ?t + ledger_sum sample_validator_ledger \<le> I128_MAX"
    using t(2) sample_validator_ledger_ok(2) by (simp add: machine_int)
  note block_economics_conserve [OF e sample_validator_ledger_ok(1) t(1) this]
  ultimately show ?thesis using e t(3) sample_validator_ledger_ok(2) by (simp add: net_balance_def)
qed

text \<open>
  C7. Applying a block's transitions conserves the supply and keeps the trie committed to the
  ledger: transfers move value between accounts only, failed and duplicate transitions change
  nothing, one delta is returned per transition, and afterwards every balance entry of the trie
  is the balance in the ledger. The hypotheses: no transition writes raw data into the balance
  namespace, and hex encoding is injective on 32-byte ids with 64 characters.
\<close>

theorem block_transitions_commit:
  assumes "hex_ok hex" "balance_fits w" "ledger_ok b" "ledger_committed hex w b"
    and "\<forall>tx \<in> set txs. \<not> writes_balance tx"
    and "apply_block_transitions hex w b txs = (ds, w', b')"
  shows "ledger_sum b' = ledger_sum b \<and> ledger_ok b' \<and> length ds = length txs \<and>
    ledger_committed hex w' b'"
  using apply_block_transitions_facts [OF assms] by blast

text \<open>A transition with a given payload, for the examples below.\<close>

definition sample_agent :: agent_identity where
  "sample_agent = \<lparr>agent_id_of = 2, public_key = 3, mfidel_seal = seal_from_height 0,
     registration_block = 0, ag_governance_level = Meaning, norm_set = {},
     responsibility = responsibility_state_default\<rparr>"

definition sample_transition :: "operation_payload \<Rightarrow> symbolic_transition" where
  "sample_transition p =
     \<lparr>tx_id = 11, actor = sample_agent,
      tx_intent = \<lparr>ti_kind = KAssetTransfer, ti_target = ''data/x'', declared_purpose = ''pay''\<rparr>,
      preconditions = [], postconditions = [], payload = p, causal_chain = [],
      wh_binding_intent_of =
        \<lparr>who = 2, wh_when = timestamp_genesis, wh_where = ''data/x'',
         why = \<lparr>invoking_rule = 1, cj_precedence_level = Meaning, causal_ancestors = [],
                constraint_proof = []\<rparr>,
         how = DirectStateWrite, which = {}, what_declared = ''pay''\<rparr>,
      nonce = 1, signature = []\<rparr>"

definition sample_hex :: hex_encode where
  "sample_hex h = hash_bytes h @ replicate 32 (CHR ''0'')"

lemma sample_hex_ok: "hex_ok sample_hex"
  by (auto simp: hex_ok_def sample_hex_def intro!: injI)

lemma world_new_committed:
  "ledger_committed hex world_new ledger_new" "balance_fits world_new"
  "bt_sorted (store (trie world_new))"
  by (simp_all add: ledger_committed_def balance_fits_def world_new_def world_get_def trie_get_def
      trie_new_def consensus_params_default_def)

theorem block_transitions_commit_witness:
  "\<exists>ds w' b'. apply_block_transitions sample_hex world_new ledger_new
     [sample_transition (PAssetTransfer 2 3 5), sample_transition (PWrite ''data/x'' ''v'')] = (ds, w', b') \<and>
     length ds = 2 \<and> ledger_committed sample_hex w' b'"
proof -
  let ?txs = "[sample_transition (PAssetTransfer 2 3 5), sample_transition (PWrite ''data/x'' ''v'')]"
  obtain ds w' b' where r: "apply_block_transitions sample_hex world_new ledger_new ?txs = (ds, w', b')"
    by (rule prod_cases3)
  have "\<forall>tx \<in> set ?txs. \<not> writes_balance tx"
    by (simp add: writes_balance_def sample_transition_def starts_with_def NS_BALANCE_def)
  from block_transitions_commit [OF sample_hex_ok world_new_committed(2) ledger_new_ok(2)
      world_new_committed(1) this r] r show ?thesis by auto
qed

text \<open>
  The trie alone is enough to rebuild the ledger: from a committed state, after applying a
  block's transitions, reading the balance namespace back gives, without error, a ledger in
  which every agent has exactly the balance of the live ledger. A node that replays from the
  trie therefore agrees with one that kept its ledger in memory.
\<close>

theorem ledger_rebuilt_from_trie:
  assumes "hex_ok hex" "\<forall>a. hexdec (hex a) = Some (hash_bytes a)" "balance_fits w"
    and "ledger_ok b" "ledger_committed hex w b" "bt_sorted (store (trie w))"
    and "\<forall>tx \<in> set txs. \<not> writes_balance tx"
    and "apply_block_transitions hex w b txs = (ds, w', b')"
  shows "\<exists>l. balances_from_trie hexdec w' = Inr l \<and> (\<forall>a. balance_of l a = balance_of b' a)"
  using apply_block_transitions_facts [OF assms(1,3,4,5,7,8)] assms(2,6)
    balances_from_trie_committed [OF assms(1), of hexdec w' b'] by simp

theorem ledger_rebuilt_witness:
  "\<exists>ds w' b' l. apply_block_transitions sample_hex world_new ledger_new
     [sample_transition (PWrite ''data/x'' ''v'')] = (ds, w', b') \<and>
     balances_from_trie (\<lambda>bs. Some (take 32 bs)) w' = Inr l \<and> balance_of l 2 = balance_of b' 2"
proof -
  let ?txs = "[sample_transition (PWrite ''data/x'' ''v'')]"
  obtain ds w' b' where r: "apply_block_transitions sample_hex world_new ledger_new ?txs = (ds, w', b')"
    by (rule prod_cases3)
  have n: "\<forall>tx \<in> set ?txs. \<not> writes_balance tx"
    by (simp add: writes_balance_def sample_transition_def starts_with_def NS_BALANCE_def)
  have d: "\<forall>a. Some (take 32 (sample_hex a)) = Some (hash_bytes a)" by (simp add: sample_hex_def)
  from ledger_rebuilt_from_trie [OF sample_hex_ok d world_new_committed(2) ledger_new_ok(2)
      world_new_committed(1,3) n r] r show ?thesis by blast
qed

end
