(* ===== verification/Scc_Protocol.thy ===== *)
theory Scc_Protocol
  imports Scc_Prelude
begin

text \<open>
  The voting protocol (\<open>crates/sccgub-consensus/src/protocol.rs\<close>): one consensus round with two
  vote maps, admission of signed votes, and the evaluation of the \<open>2n/3 + 1\<close> quorum. The
  contract between a set of votes and the agreement it gives is the locale \<open>quorum_system\<close>,
  interpreted on the count-based quorum of the code.

  Ed25519 verification and the canonical encoding of the signed tuple are parameters.
\<close>

section \<open>The round\<close>

datatype vote_type = Prevote | Precommit | Nil_vote

fun vote_type_code :: "vote_type \<Rightarrow> nat" where
  "vote_type_code Prevote = 0"
| "vote_type_code Precommit = 1"
| "vote_type_code Nil_vote = 2"

record vote =
  validator_id :: hash
  v_block_hash :: hash
  v_height :: nat
  v_round :: nat
  vote_type_of :: vote_type
  v_signature :: bytes

datatype consensus_phase = PhPropose | PhPrevote | PhPrecommit | PhCommit | PhAbort

record consensus_round =
  chain_id :: hash
  cr_epoch :: nat
  block_hash :: hash
  cr_height :: nat
  cr_round :: nat
  phase :: consensus_phase
  prevotes :: "(hash, vote) hashmap"
  precommits :: "(hash, vote) hashmap"
  validator_count :: nat
  quorum :: nat
  max_rounds :: nat
  validator_set :: "(hash, hash) hashmap"

datatype next_round_reason =
    NoPrevoteQuorum nat nat | NoPrecommitQuorum nat nat | WaitingForVotes nat nat nat

datatype consensus_result =
    Finalized (fin_block: hash) (fin_prevotes: nat) (fin_precommits: nat)
  | NextRound next_round_reason
  | Aborted nat

datatype vote_error =
    VoteTypeMismatch | VoteHeightRoundMismatch | NotInValidatorSet hash | DuplicateVote
  | SignatureTooShort | SignatureInvalid

type_synonym vote_canon = "hash \<times> nat \<times> hash \<times> nat \<times> nat \<times> nat \<Rightarrow> bytes"
type_synonym sig_verify = "hash \<Rightarrow> bytes \<Rightarrow> bytes \<Rightarrow> bool"

definition usize_as_u32 :: "nat \<Rightarrow> nat" where
  "usize_as_u32 n = min n U32_MAX"

text \<open>The threshold \<open>2n/3 + 1\<close>, computed at 64 bits and capped at 32.\<close>

definition quorum_threshold :: "nat \<Rightarrow> nat" where
  "quorum_threshold n = min (2 * n div 3 + 1) U32_MAX"

definition round_new ::
  "hash \<Rightarrow> nat \<Rightarrow> hash \<Rightarrow> nat \<Rightarrow> nat \<Rightarrow> (hash, hash) hashmap \<Rightarrow> nat \<Rightarrow> consensus_round" where
  "round_new chain ep blk h r vs mx =
     (let n = usize_as_u32 (length vs)
      in \<lparr>chain_id = chain, cr_epoch = ep, block_hash = blk, cr_height = h, cr_round = r,
          phase = PhPropose, prevotes = [], precommits = [], validator_count = n,
          quorum = quorum_threshold n, max_rounds = mx, validator_set = vs\<rparr>)"

definition vote_sign_data ::
  "vote_canon \<Rightarrow> hash \<Rightarrow> nat \<Rightarrow> hash \<Rightarrow> nat \<Rightarrow> nat \<Rightarrow> vote_type \<Rightarrow> bytes" where
  "vote_sign_data canon chain ep blk h r ty = canon (chain, ep, blk, h, r, vote_type_code ty)"

definition verify_vote ::
  "sig_verify \<Rightarrow> vote_canon \<Rightarrow> consensus_round \<Rightarrow> vote \<Rightarrow> vote_type \<Rightarrow> (hash, vote) hashmap \<Rightarrow>
   vote_error + unit" where
  "verify_vote verify_strict canon cr v expected votes =
     (if vote_type_of v \<noteq> expected then Inl VoteTypeMismatch
      else if v_height v \<noteq> cr_height cr \<or> v_round v \<noteq> cr_round cr then Inl VoteHeightRoundMismatch
      else
        (case map_of (validator_set cr) (validator_id v) of
           None \<Rightarrow> Inl (NotInValidatorSet (validator_id v))
         | Some pk \<Rightarrow>
             if map_of votes (validator_id v) \<noteq> None then Inl DuplicateVote
             else if length (v_signature v) < 64 then Inl SignatureTooShort
             else if \<not> verify_strict pk
                    (vote_sign_data canon (chain_id cr) (cr_epoch cr) (v_block_hash v) (v_height v)
                      (v_round v) (vote_type_of v))
                    (v_signature v)
             then Inl SignatureInvalid
             else Inr ()))"

definition add_prevote ::
  "sig_verify \<Rightarrow> vote_canon \<Rightarrow> consensus_round \<Rightarrow> vote \<Rightarrow> vote_error + consensus_round" where
  "add_prevote verify_strict canon cr v =
     bind_result (verify_vote verify_strict canon cr v Prevote (prevotes cr))
       (\<lambda>_. Inr (cr\<lparr>prevotes := AList.update (validator_id v) v (prevotes cr)\<rparr>))"

definition add_precommit ::
  "sig_verify \<Rightarrow> vote_canon \<Rightarrow> consensus_round \<Rightarrow> vote \<Rightarrow> vote_error + consensus_round" where
  "add_precommit verify_strict canon cr v =
     bind_result (verify_vote verify_strict canon cr v Precommit (precommits cr))
       (\<lambda>_. Inr (cr\<lparr>precommits := AList.update (validator_id v) v (precommits cr)\<rparr>))"

definition prevote_count :: "consensus_round \<Rightarrow> nat" where
  "prevote_count cr =
     usize_as_u32 (length (filter (\<lambda>v. v_block_hash v = block_hash cr \<and> vote_type_of v = Prevote)
       (map snd (prevotes cr))))"

definition precommit_count :: "consensus_round \<Rightarrow> nat" where
  "precommit_count cr =
     usize_as_u32 (length (filter (\<lambda>v. v_block_hash v = block_hash cr \<and> vote_type_of v = Precommit)
       (map snd (precommits cr))))"

definition has_prevote_quorum :: "consensus_round \<Rightarrow> bool" where
  "has_prevote_quorum cr \<longleftrightarrow> prevote_count cr \<ge> quorum cr"

definition has_precommit_quorum :: "consensus_round \<Rightarrow> bool" where
  "has_precommit_quorum cr \<longleftrightarrow> precommit_count cr \<ge> quorum cr"

definition round_evaluate :: "consensus_round \<Rightarrow> consensus_result \<times> consensus_round" where
  "round_evaluate cr =
     (if has_prevote_quorum cr \<and> has_precommit_quorum cr
      then (Finalized (block_hash cr) (prevote_count cr) (precommit_count cr), cr\<lparr>phase := PhCommit\<rparr>)
      else if cr_round cr \<ge> max_rounds cr then (Aborted (max_rounds cr), cr\<lparr>phase := PhAbort\<rparr>)
      else
        let total_prevotes = usize_as_u32 (length (prevotes cr));
            total_precommits = usize_as_u32 (length (precommits cr))
        in if total_prevotes \<ge> validator_count cr \<and> \<not> has_prevote_quorum cr
           then (NextRound (NoPrevoteQuorum (prevote_count cr) (quorum cr)), cr)
           else if total_precommits \<ge> validator_count cr \<and> \<not> has_precommit_quorum cr
           then (NextRound (NoPrecommitQuorum (precommit_count cr) (quorum cr)), cr)
           else (NextRound (WaitingForVotes total_prevotes total_precommits (validator_count cr)), cr))"

record equivocation_proof =
  ep_validator_id :: hash
  ep_height :: nat
  ep_round :: nat
  ep_vote_type :: vote_type
  ep_block_hash_a :: hash
  ep_block_hash_b :: hash

fun equivocation_scan ::
  "vote list \<Rightarrow> (hash, hash) btreemap \<Rightarrow> equivocation_proof list" where
  "equivocation_scan [] seen = []"
| "equivocation_scan (v # vs) seen =
     (case map_of seen (validator_id v) of
        Some prev_block \<Rightarrow>
          (if prev_block \<noteq> v_block_hash v
           then [\<lparr>ep_validator_id = validator_id v, ep_height = v_height v, ep_round = v_round v,
                  ep_vote_type = Prevote, ep_block_hash_a = prev_block,
                  ep_block_hash_b = v_block_hash v\<rparr>]
           else []) @ equivocation_scan vs seen
      | None \<Rightarrow> equivocation_scan vs (bt_insert (validator_id v) (v_block_hash v) seen))"

definition detect_equivocation :: "consensus_round \<Rightarrow> equivocation_proof list" where
  "detect_equivocation cr = equivocation_scan (sort_key validator_id (map snd (prevotes cr))) []"

section \<open>Quorum systems\<close>

text \<open>
  What agreement needs of a notion of quorum: a quorum consists of members, and two quorums
  always share a member outside any tolerable set of faulty members.
\<close>

locale quorum_system =
  fixes is_quorum :: "'v set \<Rightarrow> 'v set \<Rightarrow> bool"
    and tolerable :: "'v set \<Rightarrow> 'v set \<Rightarrow> bool"
  assumes quorum_members: "is_quorum V A \<Longrightarrow> A \<subseteq> V"
    and quorum_intersect: "is_quorum V A \<Longrightarrow> is_quorum V B \<Longrightarrow> tolerable V F \<Longrightarrow> \<exists>v. v \<in> A \<inter> B - F"
begin

text \<open>Members outside the faulty set support one value: two quorums support the same one.\<close>

lemma agreement:
  assumes "is_quorum V A" "is_quorum V B" "tolerable V F"
    and "\<And>v. v \<in> A \<Longrightarrow> supports v x" "\<And>v. v \<in> B \<Longrightarrow> supports v y"
    and "\<And>v u w. v \<in> V - F \<Longrightarrow> supports v u \<Longrightarrow> supports v w \<Longrightarrow> u = w"
  shows "x = y"
proof -
  obtain v where "v \<in> A" "v \<in> B" "v \<notin> F" using quorum_intersect [OF assms(1-3)] by blast
  with quorum_members [OF assms(1)] assms(4-6) show ?thesis by (metis DiffI subsetD)
qed

lemma disagreement_exposes_faulty:
  assumes "is_quorum V A" "is_quorum V B"
  shows "\<not> tolerable V (A \<inter> B)"
  using quorum_intersect [OF assms] by blast

end

definition max_byzantine :: "nat \<Rightarrow> nat" where
  "max_byzantine n = (if n < 4 then 0 else (n - 1) div 3)"

definition count_quorum :: "'v set \<Rightarrow> 'v set \<Rightarrow> bool" where
  "count_quorum V A \<longleftrightarrow> finite V \<and> A \<subseteq> V \<and> 2 * card V div 3 + 1 \<le> card A"

definition count_tolerable :: "'v set \<Rightarrow> 'v set \<Rightarrow> bool" where
  "count_tolerable V F \<longleftrightarrow> finite F \<and> card (F \<inter> V) \<le> max_byzantine (card V)"

text \<open>Two quorums overlap in more than a third of the members.\<close>

lemma count_overlap:
  assumes "count_quorum V A" "count_quorum V B"
  shows "card V < 3 * card (A \<inter> B)"
proof -
  have f: "finite A" "finite B" "finite V" "A \<union> B \<subseteq> V"
    using assms by (auto simp: count_quorum_def intro: finite_subset)
  have "card A + card B = card (A \<union> B) + card (A \<inter> B)" using f(1,2) by (rule card_Un_Int)
  moreover have "card (A \<union> B) \<le> card V" using f by (simp add: card_mono)
  moreover have "2 * n < 3 * a" if "2 * n div 3 + 1 \<le> a" for n a :: nat
    using that by presburger
  with assms have "2 * card V < 3 * card A" "2 * card V < 3 * card B"
    by (simp_all add: count_quorum_def)
  ultimately show ?thesis by linarith
qed

interpretation count: quorum_system count_quorum count_tolerable
proof unfold_locales
  fix V A B F :: "'v set"
  show "count_quorum V A \<Longrightarrow> A \<subseteq> V" by (simp add: count_quorum_def)
  assume q: "count_quorum V A" "count_quorum V B" and t: "count_tolerable V F"
  show "\<exists>v. v \<in> A \<inter> B - F"
  proof (rule ccontr)
    assume "\<not> ?thesis"
    then have "A \<inter> B \<subseteq> F \<inter> V" using q(1) by (auto simp: count_quorum_def)
    then have "card (A \<inter> B) \<le> card (F \<inter> V)" using t by (intro card_mono) (auto simp: count_tolerable_def)
    moreover have "3 * max_byzantine n \<le> n" for n
      unfolding max_byzantine_def by presburger
    ultimately show False
      using count_overlap [OF q] t unfolding count_tolerable_def
      by (meson mult_le_mono2 not_less order_trans)
  qed
qed

section \<open>Reachable rounds\<close>

inductive round_step ::
  "sig_verify \<Rightarrow> vote_canon \<Rightarrow> consensus_round \<Rightarrow> consensus_round \<Rightarrow> bool" for verify canon where
  step_prevote: "add_prevote verify canon cr v = Inr cr' \<Longrightarrow> round_step verify canon cr cr'"
| step_precommit: "add_precommit verify canon cr v = Inr cr' \<Longrightarrow> round_step verify canon cr cr'"
| step_evaluate: "round_step verify canon cr (snd (round_evaluate cr))"

text \<open>A round started on a validator map, after any votes and evaluations.\<close>

definition round_run ::
  "sig_verify \<Rightarrow> vote_canon \<Rightarrow> hash \<Rightarrow> nat \<Rightarrow> nat \<Rightarrow> nat \<Rightarrow> (hash, hash) hashmap \<Rightarrow> consensus_round \<Rightarrow> bool" where
  "round_run verify canon chain ep h r vs cr \<longleftrightarrow>
     (\<exists>blk mx. (round_step verify canon)\<^sup>*\<^sup>* (round_new chain ep blk h r vs mx) cr)"

definition vote_ok :: "sig_verify \<Rightarrow> vote_canon \<Rightarrow> consensus_round \<Rightarrow> vote_type \<Rightarrow> vote \<Rightarrow> bool" where
  "vote_ok verify canon cr ty v \<longleftrightarrow>
     vote_type_of v = ty \<and> v_height v = cr_height cr \<and> v_round v = cr_round cr \<and>
     64 \<le> length (v_signature v) \<and>
     (\<exists>pk. map_of (validator_set cr) (validator_id v) = Some pk \<and>
       verify pk (vote_sign_data canon (chain_id cr) (cr_epoch cr) (v_block_hash v)
         (cr_height cr) (cr_round cr) ty) (v_signature v))"

definition votes_ok ::
  "sig_verify \<Rightarrow> vote_canon \<Rightarrow> consensus_round \<Rightarrow> vote_type \<Rightarrow> (hash, vote) hashmap \<Rightarrow> bool" where
  "votes_ok verify canon cr ty votes \<longleftrightarrow>
     keys_distinct votes \<and> (\<forall>(k, v) \<in> set votes. k = validator_id v \<and> vote_ok verify canon cr ty v)"

definition round_ok :: "sig_verify \<Rightarrow> vote_canon \<Rightarrow> consensus_round \<Rightarrow> bool" where
  "round_ok verify canon cr \<longleftrightarrow>
     votes_ok verify canon cr Prevote (prevotes cr) \<and> votes_ok verify canon cr Precommit (precommits cr) \<and>
     validator_count cr = usize_as_u32 (length (validator_set cr)) \<and>
     quorum cr = quorum_threshold (validator_count cr)"

lemma verify_vote_Inr:
  "verify_vote verify canon cr v ty votes = Inr u \<longleftrightarrow>
     vote_ok verify canon cr ty v \<and> map_of votes (validator_id v) = None"
  by (auto simp: verify_vote_def vote_ok_def split: option.splits)

lemma votes_ok_add:
  assumes "votes_ok verify canon cr ty votes" "vote_ok verify canon cr ty v"
  shows "votes_ok verify canon cr ty (AList.update (validator_id v) v votes)"
proof -
  have "set (AList.update k x m) \<subseteq> insert (k, x) (set m)" for k :: hash and x :: vote and m
    by (induction m) auto
  with assms show ?thesis unfolding votes_ok_def by (fastforce simp: distinct_update)
qed

lemma vote_ok_frame [simp]:
  "vote_ok verify canon (cr\<lparr>prevotes := p\<rparr>) = vote_ok verify canon cr"
  "vote_ok verify canon (cr\<lparr>precommits := p\<rparr>) = vote_ok verify canon cr"
  "vote_ok verify canon (cr\<lparr>phase := ph\<rparr>) = vote_ok verify canon cr"
  by (simp_all add: vote_ok_def fun_eq_iff)

lemma round_ok_new: "round_ok verify canon (round_new chain ep blk h r vs mx)"
  by (simp add: round_ok_def round_new_def votes_ok_def Let_def)

lemma phase_unchanged: "\<exists>ph. cr = cr\<lparr>phase := ph\<rparr>" for cr :: consensus_round
  by (rule exI [of _ "phase cr"]) simp

lemma round_evaluate_frame: "\<exists>ph. snd (round_evaluate cr) = cr\<lparr>phase := ph\<rparr>"
  by (auto simp: round_evaluate_def Let_def intro: phase_unchanged)

lemma add_prevote_Inr:
  "add_prevote verify canon cr v = Inr cr' \<longleftrightarrow>
     vote_ok verify canon cr Prevote v \<and> map_of (prevotes cr) (validator_id v) = None \<and>
     cr' = cr\<lparr>prevotes := AList.update (validator_id v) v (prevotes cr)\<rparr>"
  by (auto simp: add_prevote_def bind_result_Inr verify_vote_Inr)

lemma add_precommit_Inr:
  "add_precommit verify canon cr v = Inr cr' \<longleftrightarrow>
     vote_ok verify canon cr Precommit v \<and> map_of (precommits cr) (validator_id v) = None \<and>
     cr' = cr\<lparr>precommits := AList.update (validator_id v) v (precommits cr)\<rparr>"
  by (auto simp: add_precommit_def bind_result_Inr verify_vote_Inr)

lemma round_ok_frame [simp]: "round_ok verify canon (cr\<lparr>phase := ph\<rparr>) = round_ok verify canon cr"
  by (simp add: round_ok_def votes_ok_def)

lemma round_step_ok: "round_step verify canon cr cr' \<Longrightarrow> round_ok verify canon cr \<Longrightarrow> round_ok verify canon cr'"
proof (induction rule: round_step.induct)
  case (step_prevote cr v cr')
  then show ?case
    using votes_ok_add [of verify canon cr Prevote "prevotes cr" v]
    by (simp add: add_prevote_Inr round_ok_def votes_ok_def)
next
  case (step_precommit cr v cr')
  then show ?case
    using votes_ok_add [of verify canon cr Precommit "precommits cr" v]
    by (simp add: add_precommit_Inr round_ok_def votes_ok_def)
next
  case (step_evaluate cr)
  then show ?case using round_evaluate_frame [of cr] by (metis round_ok_frame)
qed

text \<open>What no step changes.\<close>

definition round_frame :: "consensus_round \<Rightarrow> hash \<times> nat \<times> hash \<times> nat \<times> nat \<times> (hash, hash) hashmap" where
  "round_frame cr = (chain_id cr, cr_epoch cr, block_hash cr, cr_height cr, cr_round cr, validator_set cr)"

lemma round_step_frame: "round_step verify canon cr cr' \<Longrightarrow> round_frame cr' = round_frame cr"
proof (induction rule: round_step.induct)
  case (step_evaluate cr)
  obtain ph where "snd (round_evaluate cr) = cr\<lparr>phase := ph\<rparr>" using round_evaluate_frame by blast
  then show ?case by (simp add: round_frame_def)
qed (auto simp: add_prevote_Inr add_precommit_Inr round_frame_def)

lemma round_run_facts:
  assumes "round_run verify canon chain ep h r vs cr"
  shows "round_ok verify canon cr" "chain_id cr = chain" "cr_epoch cr = ep" "cr_height cr = h"
    "cr_round cr = r" "validator_set cr = vs"
proof -
  obtain blk mx where run: "(round_step verify canon)\<^sup>*\<^sup>* (round_new chain ep blk h r vs mx) cr"
    using assms by (auto simp: round_run_def)
  then show "round_ok verify canon cr"
    by (induction rule: rtranclp_induct) (auto intro: round_ok_new round_step_ok)
  from run have "round_frame cr = round_frame (round_new chain ep blk h r vs mx)"
    by (induction rule: rtranclp_induct) (auto dest: round_step_frame)
  then show "chain_id cr = chain" "cr_epoch cr = ep" "cr_height cr = h" "cr_round cr = r"
    "validator_set cr = vs"
    by (simp_all add: round_frame_def round_new_def Let_def)
qed

section \<open>From counts to quorums\<close>

text \<open>The validators whose vote is for the block of the round.\<close>

definition supporters :: "consensus_round \<Rightarrow> (hash, vote) hashmap \<Rightarrow> hash set" where
  "supporters cr votes = fst ` set (filter (\<lambda>(k, v). v_block_hash v = block_hash cr) votes)"

lemma supportersD:
  assumes "votes_ok verify canon cr ty votes" "a \<in> supporters cr votes"
  obtains v :: vote and pk :: hash where "map_of (validator_set cr) a = Some pk" "validator_id v = a"
    "64 \<le> length (v_signature v)"
    "verify pk (vote_sign_data canon (chain_id cr) (cr_epoch cr) (block_hash cr) (cr_height cr)
       (cr_round cr) ty) (v_signature v)"
proof -
  from assms(2) obtain v where v: "(a, v) \<in> set votes" "v_block_hash v = block_hash cr"
    by (auto simp: supporters_def)
  with assms(1) have a: "a = validator_id v" "vote_ok verify canon cr ty v"
    by (auto simp: votes_ok_def)
  then obtain pk where p: "map_of (validator_set cr) a = Some pk" "64 \<le> length (v_signature v)"
    "verify pk (vote_sign_data canon (chain_id cr) (cr_epoch cr) (block_hash cr) (cr_height cr)
       (cr_round cr) ty) (v_signature v)"
    using v(2) by (auto simp: vote_ok_def)
  show thesis by (rule that [OF p(1) a(1) [symmetric] p(2,3)])
qed

lemma card_supporters:
  assumes "keys_distinct votes"
  shows "card (supporters cr votes) =
    length (filter (\<lambda>v. v_block_hash v = block_hash cr) (map snd votes))"
proof -
  let ?f = "filter (\<lambda>(k, v). v_block_hash v = block_hash cr) votes"
  have "distinct (map fst ?f)" using assms by (rule distinct_map_filter)
  from distinct_card [OF this] have "card (supporters cr votes) = length ?f"
    unfolding supporters_def by (simp only: set_map length_map)
  also have "\<dots> = length (filter (\<lambda>v. v_block_hash v = block_hash cr) (map snd votes))"
    by (induction votes) auto
  finally show ?thesis .
qed

lemma filter_vote_type:
  assumes "votes_ok verify canon cr ty votes"
  shows "filter (\<lambda>v. v_block_hash v = block_hash cr \<and> vote_type_of v = ty) (map snd votes) =
    filter (\<lambda>v. v_block_hash v = block_hash cr) (map snd votes)"
  using assms by (intro filter_cong) (auto simp: votes_ok_def vote_ok_def)

lemma quorum_threshold_small: "n \<le> U32_MAX \<Longrightarrow> quorum_threshold n = 2 * n div 3 + 1"
  unfolding quorum_threshold_def U32_MAX_def by presburger

lemma usize_ge_quorum: "quorum_threshold n \<le> usize_as_u32 k \<Longrightarrow> quorum_threshold n \<le> k"
  by (simp add: usize_as_u32_def)

text \<open>A count that reaches the threshold is a quorum of the validator set.\<close>

lemma supporters_quorum:
  assumes "votes_ok verify canon cr ty votes" "keys_distinct (validator_set cr)"
    and "length (validator_set cr) \<le> U32_MAX"
    and "quorum_threshold (usize_as_u32 (length (validator_set cr))) \<le>
      usize_as_u32 (length (filter (\<lambda>v. v_block_hash v = block_hash cr \<and> vote_type_of v = ty) (map snd votes)))"
  shows "count_quorum (fst ` set (validator_set cr)) (supporters cr votes)"
proof -
  have "supporters cr votes \<subseteq> fst ` set (validator_set cr)"
  proof
    fix a assume "a \<in> supporters cr votes"
    with assms(1) obtain pk where "map_of (validator_set cr) a = Some pk" by (rule supportersD)
    then show "a \<in> fst ` set (validator_set cr)" by (force dest!: map_of_SomeD)
  qed
  moreover have n: "card (fst ` set (validator_set cr)) = length (validator_set cr)"
    using assms(2) by (metis distinct_card length_map set_map)
  moreover have "card (supporters cr votes) =
      length (filter (\<lambda>v. v_block_hash v = block_hash cr) (map snd votes))"
    using assms(1) by (intro card_supporters) (simp add: votes_ok_def)
  moreover have "quorum_threshold (length (validator_set cr)) \<le>
      length (filter (\<lambda>v. v_block_hash v = block_hash cr) (map snd votes))"
    using assms(3,4) usize_ge_quorum unfolding filter_vote_type [OF assms(1)]
    by (simp add: usize_as_u32_def)
  ultimately show ?thesis
    using quorum_threshold_small [OF assms(3)] by (simp add: count_quorum_def)
qed

lemma finalized_quorums:
  assumes "round_ok verify canon cr" "keys_distinct (validator_set cr)"
    and "length (validator_set cr) \<le> U32_MAX" "fst (round_evaluate cr) = Finalized b p c"
  shows "b = block_hash cr"
    "count_quorum (fst ` set (validator_set cr)) (supporters cr (prevotes cr))"
    "count_quorum (fst ` set (validator_set cr)) (supporters cr (precommits cr))"
proof -
  have e: "b = block_hash cr" "has_prevote_quorum cr" "has_precommit_quorum cr"
    using assms(4) by (auto simp: round_evaluate_def Let_def split: if_splits)
  then show "b = block_hash cr" by simp
  have ok: "votes_ok verify canon cr Prevote (prevotes cr)" "votes_ok verify canon cr Precommit (precommits cr)"
    using assms(1) by (simp_all add: round_ok_def)
  show "count_quorum (fst ` set (validator_set cr)) (supporters cr (prevotes cr))"
    using supporters_quorum [OF ok(1) assms(2,3)] e(2) assms(1)
    by (simp add: round_ok_def has_prevote_quorum_def prevote_count_def)
  show "count_quorum (fst ` set (validator_set cr)) (supporters cr (precommits cr))"
    using supporters_quorum [OF ok(2) assms(2,3)] e(3) assms(1)
    by (simp add: round_ok_def has_precommit_quorum_def precommit_count_def)
qed

section \<open>Properties\<close>

text \<open>
  A finalized block is backed by two quorums of valid signatures: whenever a round that
  started empty evaluates to \<open>Finalized\<close>, more than two thirds of the validators have a
  signature that verifies, under their registered key, on this chain, epoch, block, height and
  round as a precommit (and the prevotes count as many).
\<close>

theorem finalized_has_quorum:
  assumes "round_run verify canon chain ep h r vs cr" "keys_distinct vs" "length vs \<le> U32_MAX"
    and "fst (round_evaluate cr) = Finalized b p c"
  shows "\<exists>S. S \<subseteq> fst ` set vs \<and> 2 * length vs div 3 + 1 \<le> card S \<and>
    (\<forall>a \<in> S. \<exists>pk sig. map_of vs a = Some pk \<and> 64 \<le> length sig \<and>
       verify pk (vote_sign_data canon chain ep b h r Precommit) sig) \<and>
    2 * length vs div 3 + 1 \<le> card (supporters cr (prevotes cr))"
proof -
  note f = round_run_facts [OF assms(1)]
  have d: "keys_distinct (validator_set cr)" "length (validator_set cr) \<le> U32_MAX"
    using assms(2,3) f(6) by simp_all
  note q = finalized_quorums [OF f(1) d assms(4)]
  have ok: "votes_ok verify canon cr Precommit (precommits cr)" using f(1) by (simp add: round_ok_def)
  have n: "card (fst ` set vs) = length vs" using assms(2) by (metis distinct_card length_map set_map)
  have "\<exists>pk sig. map_of vs a = Some pk \<and> 64 \<le> length sig \<and>
      verify pk (vote_sign_data canon chain ep b h r Precommit) sig"
    if "a \<in> supporters cr (precommits cr)" for a
    using supportersD [OF ok that] f(2-6) q(1) by metis
  with q(2,3) f(6) n show ?thesis unfolding count_quorum_def by metis
qed

text \<open>A round of one validator that finalizes block 5, for the examples below.\<close>

definition sample_verify :: sig_verify where
  "sample_verify pk msg sig \<longleftrightarrow> msg = hash_bytes 5"

definition sample_canon :: vote_canon where
  "sample_canon t = (case t of (c, e, b, h, r, ty) \<Rightarrow> hash_bytes b)"

definition sample_vote :: "vote_type \<Rightarrow> vote" where
  "sample_vote ty = \<lparr>validator_id = 2, v_block_hash = 5, v_height = 7, v_round = 0,
     vote_type_of = ty, v_signature = replicate 64 (CHR ''s'')\<rparr>"

definition sample_round :: consensus_round where
  "sample_round = (round_new 9 1 5 7 0 [(2, 20)] 10)\<lparr>prevotes := [(2, sample_vote Prevote)],
     precommits := [(2, sample_vote Precommit)]\<rparr>"

lemma sample_round_run: "round_run sample_verify sample_canon 9 1 7 0 [(2, 20)] sample_round"
proof -
  let ?r0 = "round_new 9 1 5 7 0 [(2, 20)] 10"
  let ?r1 = "?r0\<lparr>prevotes := [(2, sample_vote Prevote)]\<rparr>"
  have ok: "vote_ok sample_verify sample_canon ?r0 ty (sample_vote ty)" for ty
    by (simp add: vote_ok_def sample_vote_def round_new_def Let_def sample_verify_def
        sample_canon_def vote_sign_data_def)
  have "add_prevote sample_verify sample_canon ?r0 (sample_vote Prevote) = Inr ?r1"
    unfolding add_prevote_Inr using ok [of Prevote] by (simp add: round_new_def Let_def sample_vote_def)
  moreover have "add_precommit sample_verify sample_canon ?r1 (sample_vote Precommit) = Inr sample_round"
    unfolding add_precommit_Inr vote_ok_frame using ok [of Precommit]
    by (simp add: sample_round_def round_new_def Let_def sample_vote_def)
  ultimately have "(round_step sample_verify sample_canon)\<^sup>*\<^sup>* ?r0 sample_round"
    by (meson converse_rtranclp_into_rtranclp r_into_rtranclp step_precommit step_prevote)
  then show ?thesis unfolding round_run_def by blast
qed

lemma sample_round_finalizes: "fst (round_evaluate sample_round) = Finalized 5 1 1"
  by (simp add: round_evaluate_def has_prevote_quorum_def has_precommit_quorum_def prevote_count_def
      precommit_count_def sample_round_def sample_vote_def round_new_def Let_def usize_as_u32_def
      quorum_threshold_def U32_MAX_def)

theorem finalized_has_quorum_witness:
  "\<exists>S. S \<subseteq> fst ` set [(2 :: hash, 20 :: hash)] \<and> 1 \<le> card S \<and>
     (\<forall>a \<in> S. \<exists>pk sig. map_of [(2, 20)] a = Some pk \<and>
        sample_verify pk (vote_sign_data sample_canon 9 1 5 7 0 Precommit) sig)"
proof -
  have "keys_distinct [(2 :: hash, 20 :: hash)]" "length [(2 :: hash, 20 :: hash)] \<le> U32_MAX"
    "2 * length [(2 :: hash, 20 :: hash)] div 3 + 1 = 1"
    by (simp_all add: U32_MAX_def)
  with finalized_has_quorum [OF sample_round_run _ _ sample_round_finalizes] show ?thesis
    by (metis (no_types, lifting))
qed

text \<open>
  C1. Agreement: two rounds of the same chain, epoch, height and round, run by any two nodes on
  the same validator set, never finalize different blocks, as long as at most
  \<open>max_byzantine n\<close> validators are faulty and every other validator has valid precommit
  signatures for at most one block in that round.
\<close>

theorem round_agreement:
  assumes "round_run verify canon chain ep h r vs cr1" "round_run verify canon chain ep h r vs cr2"
    and "keys_distinct vs" "length vs \<le> U32_MAX"
    and "fst (round_evaluate cr1) = Finalized b1 p1 c1" "fst (round_evaluate cr2) = Finalized b2 p2 c2"
    and "finite F" "card F \<le> max_byzantine (length vs)"
    and "\<forall>a pk x y s t. map_of vs a = Some pk \<and> a \<notin> F \<and>
           verify pk (vote_sign_data canon chain ep x h r Precommit) s \<and>
           verify pk (vote_sign_data canon chain ep y h r Precommit) t \<longrightarrow> x = y"
  shows "b1 = b2"
proof -
  note f = round_run_facts [OF assms(1)] and g = round_run_facts [OF assms(2)]
  have d: "keys_distinct (validator_set cr1)" "length (validator_set cr1) \<le> U32_MAX"
    "keys_distinct (validator_set cr2)" "length (validator_set cr2) \<le> U32_MAX"
    using assms(3,4) f(6) g(6) by simp_all
  note q = finalized_quorums [OF f(1) d(1,2) assms(5)] and q' = finalized_quorums [OF g(1) d(3,4) assms(6)]
  have n: "card (fst ` set vs) = length vs" using assms(3) by (metis distinct_card length_map set_map)
  have "card (F \<inter> fst ` set vs) \<le> card F" using assms(7) by (simp add: card_mono)
  then have t: "count_tolerable (fst ` set vs) F" using assms(7,8) n by (simp add: count_tolerable_def)
  define sup where "sup = (\<lambda>a x. \<exists>pk s. map_of vs a = Some pk \<and>
      verify pk (vote_sign_data canon chain ep x h r Precommit) s)"
  have ok: "votes_ok verify canon cr1 Precommit (precommits cr1)"
    "votes_ok verify canon cr2 Precommit (precommits cr2)"
    using f(1) g(1) by (simp_all add: round_ok_def)
  show ?thesis
  proof (rule count.agreement [OF _ _ t])
    show "count_quorum (fst ` set vs) (supporters cr1 (precommits cr1))"
      "count_quorum (fst ` set vs) (supporters cr2 (precommits cr2))"
      using q(3) q'(3) f(6) g(6) by simp_all
    show "sup a b1" if "a \<in> supporters cr1 (precommits cr1)" for a
      using supportersD [OF ok(1) that] f(2-6) q(1) unfolding sup_def by metis
    show "sup a b2" if "a \<in> supporters cr2 (precommits cr2)" for a
      using supportersD [OF ok(2) that] g(2-6) q'(1) unfolding sup_def by metis
    show "x = y" if "a \<in> fst ` set vs - F" "sup a x" "sup a y" for a x y
      using that assms(9) unfolding sup_def by (metis DiffD2 option.inject)
  qed
qed

theorem round_agreement_witness:
  "fst (round_evaluate sample_round) = Finalized 5 1 1 \<and> (5 :: hash) = 5"
proof -
  have u: "\<forall>a pk x y s t. map_of [(2, 20)] a = Some pk \<and> a \<notin> ({} :: hash set) \<and>
      sample_verify pk (vote_sign_data sample_canon 9 1 x 7 0 Precommit) s \<and>
      sample_verify pk (vote_sign_data sample_canon 9 1 y 7 0 Precommit) t \<longrightarrow> x = y"
    by (simp add: sample_verify_def vote_sign_data_def sample_canon_def)
  have "(5 :: hash) = 5"
    by (rule round_agreement [OF sample_round_run sample_round_run _ _ sample_round_finalizes
          sample_round_finalizes _ _ u]) (simp_all add: U32_MAX_def max_byzantine_def)
  with sample_round_finalizes show ?thesis by blast
qed

end
