(* ===== verification/Scc_Safety.thy ===== *)
theory Scc_Safety
  imports Scc_Protocol
begin

text \<open>
  Safety certificates and equivocation evidence (\<open>crates/sccgub-consensus/src/safety.rs\<close>): the
  certificate of a finalized round, its structural and cryptographic verification, the evidence
  store, and the fork analysis of two conflicting certificates. The lemmas show that certificates
  of finalized rounds verify and that a fork exposes more than a third of the validators; two
  further properties record what the verification does not check.

  \<open>HashSet\<close> values are sets; the order in which the code lists their elements is unspecified.
\<close>

section \<open>Certificates\<close>

record safety_certificate =
  sc_chain_id :: hash
  sc_epoch :: nat
  sc_height :: nat
  sc_block_hash :: hash
  sc_round :: nat
  precommit_signatures :: "(hash \<times> bytes) list"
  sc_quorum :: nat
  sc_validator_count :: nat

datatype cert_error =
    QuorumMismatch nat nat | InsufficientSignatures nat nat | DuplicateSigner
  | SignerNotInSet hash | CertSignatureTooShort hash | CertSignatureInvalid hash

definition verify_structure :: "safety_certificate \<Rightarrow> cert_error + unit" where
  "verify_structure c =
     (let expected_quorum = 2 * sc_validator_count c div 3 + 1
      in if sc_quorum c \<noteq> expected_quorum then Inl (QuorumMismatch (sc_quorum c) expected_quorum)
         else if usize_as_u32 (length (precommit_signatures c)) < sc_quorum c
         then Inl (InsufficientSignatures (length (precommit_signatures c)) (sc_quorum c))
         else if card (fst ` set (precommit_signatures c)) \<noteq> length (precommit_signatures c)
         then Inl DuplicateSigner
         else Inr ())"

fun verify_signatures ::
  "sig_verify \<Rightarrow> vote_canon \<Rightarrow> safety_certificate \<Rightarrow> (hash, hash) hashmap \<Rightarrow>
   (hash \<times> bytes) list \<Rightarrow> cert_error + unit" where
  "verify_signatures verify_strict canon c vs [] = Inr ()"
| "verify_signatures verify_strict canon c vs ((vid, sig) # rest) =
     (case map_of vs vid of
        None \<Rightarrow> Inl (SignerNotInSet vid)
      | Some pk \<Rightarrow>
          if length sig < 64 then Inl (CertSignatureTooShort vid)
          else if \<not> verify_strict pk
                 (vote_sign_data canon (sc_chain_id c) (sc_epoch c) (sc_block_hash c) (sc_height c)
                   (sc_round c) Precommit) sig
          then Inl (CertSignatureInvalid vid)
          else verify_signatures verify_strict canon c vs rest)"

definition verify_cryptographic ::
  "sig_verify \<Rightarrow> vote_canon \<Rightarrow> safety_certificate \<Rightarrow> (hash, hash) hashmap \<Rightarrow> cert_error + unit" where
  "verify_cryptographic verify_strict canon c vs =
     bind_result (verify_structure c)
       (\<lambda>_. verify_signatures verify_strict canon c vs (precommit_signatures c))"

definition cert_from_round ::
  "hash \<Rightarrow> nat \<Rightarrow> hash \<Rightarrow> nat \<Rightarrow> nat \<Rightarrow> (hash, vote) hashmap \<Rightarrow> nat \<Rightarrow> safety_certificate" where
  "cert_from_round chain ep blk h r pcs n =
     \<lparr>sc_chain_id = chain, sc_epoch = ep, sc_height = h, sc_block_hash = blk, sc_round = r,
      precommit_signatures =
        map (\<lambda>v. (validator_id v, v_signature v))
          (filter (\<lambda>v. v_block_hash v = blk) (map snd pcs)),
      sc_quorum = quorum_threshold n, sc_validator_count = n\<rparr>"

section \<open>Evidence\<close>

record equivocation_evidence =
  ee_validator_id :: hash
  ee_height :: nat
  round_a :: nat
  round_b :: nat
  block_hash_a :: hash
  block_hash_b :: hash
  signature_a :: bytes
  signature_b :: bytes

datatype evidence_error = SameBlockHash | SignatureAInvalid | SignatureBInvalid

type_synonym evidence_canon = "hash \<times> nat \<times> nat \<times> nat \<Rightarrow> bytes"

definition evidence_verify ::
  "sig_verify \<Rightarrow> evidence_canon \<Rightarrow> equivocation_evidence \<Rightarrow> hash \<Rightarrow> evidence_error + unit" where
  "evidence_verify verify_strict canon4 e pk =
     (if block_hash_a e = block_hash_b e then Inl SameBlockHash
      else if \<not> verify_strict pk (canon4 (block_hash_a e, ee_height e, round_a e, 2)) (signature_a e)
      then Inl SignatureAInvalid
      else if \<not> verify_strict pk (canon4 (block_hash_b e, ee_height e, round_b e, 2)) (signature_b e)
      then Inl SignatureBInvalid
      else Inr ())"

record equivocation_store =
  evidence_map :: "(hash, equivocation_evidence list) hashmap"
  confirmed_equivocators :: "hash set"

definition equivocation_store_new :: equivocation_store where
  "equivocation_store_new = \<lparr>evidence_map = [], confirmed_equivocators = {}\<rparr>"

definition evidence_for :: "equivocation_store \<Rightarrow> hash \<Rightarrow> equivocation_evidence list" where
  "evidence_for s vid = (case map_of (evidence_map s) vid of Some es \<Rightarrow> es | None \<Rightarrow> [])"

definition submit_evidence ::
  "sig_verify \<Rightarrow> evidence_canon \<Rightarrow> equivocation_store \<Rightarrow> equivocation_evidence \<Rightarrow> hash \<Rightarrow>
   evidence_error + (bool \<times> equivocation_store)" where
  "submit_evidence verify_strict canon4 s e pk =
     bind_result (evidence_verify verify_strict canon4 e pk)
       (\<lambda>_. let vid = ee_validator_id e; entries = evidence_for s vid;
                s' = s\<lparr>evidence_map := AList.update vid entries (evidence_map s)\<rparr>;
                duplicate = list_ex (\<lambda>x. ee_height x = ee_height e \<and>
                  block_hash_a x = block_hash_a e \<and> block_hash_b x = block_hash_b e) entries
            in if duplicate then Inr (False, s')
               else Inr (True, s\<lparr>evidence_map := AList.update vid (entries @ [e]) (evidence_map s),
                                 confirmed_equivocators := insert vid (confirmed_equivocators s)\<rparr>))"

definition is_equivocator :: "equivocation_store \<Rightarrow> hash \<Rightarrow> bool" where
  "is_equivocator s vid \<longleftrightarrow> vid \<in> confirmed_equivocators s"

definition equivocator_count :: "equivocation_store \<Rightarrow> nat" where
  "equivocator_count s = card (confirmed_equivocators s)"

text \<open>Collecting pairs into a map keeps the last signature of a repeated signer.\<close>

definition extract_from_fork ::
  "safety_certificate \<Rightarrow> safety_certificate \<Rightarrow> equivocation_evidence list" where
  "extract_from_fork ca cb =
     (if sc_height ca \<noteq> sc_height cb \<or> sc_block_hash ca = sc_block_hash cb then []
      else
        let sigs_a = rev (precommit_signatures ca)
        in concat (map (\<lambda>(vid, sig_b).
             case map_of sigs_a vid of
               None \<Rightarrow> []
             | Some sig_a \<Rightarrow>
                 [\<lparr>ee_validator_id = vid, ee_height = sc_height ca, round_a = sc_round ca,
                   round_b = sc_round cb, block_hash_a = sc_block_hash ca,
                   block_hash_b = sc_block_hash cb, signature_a = sig_a, signature_b = sig_b\<rparr>])
             (precommit_signatures cb)))"

section \<open>Fork analysis\<close>

datatype fork_proof_result =
    DifferentHeights
  | SameBlock
  | EquivocatorsFound (equivocators: "hash set") (fork_height: nat) (fork_block_a: hash)
      (fork_block_b: hash)
  | ImpossibleFork

definition prove_no_fork :: "safety_certificate \<Rightarrow> safety_certificate \<Rightarrow> fork_proof_result" where
  "prove_no_fork ca cb =
     (if sc_height ca \<noteq> sc_height cb then DifferentHeights
      else if sc_validator_count ca \<noteq> sc_validator_count cb then ImpossibleFork
      else if sc_block_hash ca = sc_block_hash cb then SameBlock
      else
        let eq = fst ` set (precommit_signatures ca) \<inter> fst ` set (precommit_signatures cb)
        in if eq = {} then ImpossibleFork
           else EquivocatorsFound eq (sc_height ca) (sc_block_hash ca) (sc_block_hash cb))"

definition check_byzantine_tolerance :: "nat \<Rightarrow> nat \<Rightarrow> nat + unit" where
  "check_byzantine_tolerance n desired =
     (let max_f = max_byzantine n
      in if desired > max_f then Inl (u32_saturating_add (u32_saturating_mul desired 3) 1)
         else Inr ())"

section \<open>Lemmas\<close>

lemma verify_structure_Inr:
  "verify_structure c = Inr u \<longleftrightarrow>
     sc_quorum c = 2 * sc_validator_count c div 3 + 1 \<and>
     sc_quorum c \<le> usize_as_u32 (length (precommit_signatures c)) \<and>
     distinct (map fst (precommit_signatures c))"
proof -
  have "card (fst ` set xs) = length xs \<longleftrightarrow> distinct (map fst xs)" for xs :: "(hash \<times> bytes) list"
    by (metis card_distinct distinct_card length_map set_map)
  then show ?thesis by (auto simp: verify_structure_def Let_def)
qed

lemma verify_signatures_Inr:
  "verify_signatures verify canon c vs xs = Inr u \<longleftrightarrow>
     (\<forall>(vid, sig) \<in> set xs. \<exists>pk. map_of vs vid = Some pk \<and> 64 \<le> length sig \<and>
        verify pk (vote_sign_data canon (sc_chain_id c) (sc_epoch c) (sc_block_hash c) (sc_height c)
          (sc_round c) Precommit) sig)"
  by (induction xs) (auto split: option.splits if_splits)

lemma verify_cryptographic_Inr:
  "verify_cryptographic verify canon c vs = Inr u \<longleftrightarrow>
     verify_structure c = Inr () \<and>
     verify_signatures verify canon c vs (precommit_signatures c) = Inr ()"
  by (simp add: verify_cryptographic_def bind_result_Inr)

text \<open>The signers of a verified certificate form a quorum when its size field is the true size.\<close>

lemma verified_quorum:
  assumes "verify_cryptographic verify canon c vs = Inr ()" "keys_distinct vs"
    and "sc_validator_count c = length vs"
  shows "count_quorum (fst ` set vs) (fst ` set (precommit_signatures c))"
proof -
  have s: "sc_quorum c = 2 * sc_validator_count c div 3 + 1"
    "sc_quorum c \<le> usize_as_u32 (length (precommit_signatures c))"
    "distinct (map fst (precommit_signatures c))"
    and m: "\<forall>(vid, sig) \<in> set (precommit_signatures c). \<exists>pk. map_of vs vid = Some pk"
    using assms(1) by (auto simp: verify_cryptographic_Inr verify_structure_Inr verify_signatures_Inr)
  have "card (fst ` set (precommit_signatures c)) = length (precommit_signatures c)"
    "card (fst ` set vs) = length vs"
    using s(3) assms(2) by (metis distinct_card length_map set_map)+
  moreover have "fst ` set (precommit_signatures c) \<subseteq> fst ` set vs"
    using m by (force dest!: map_of_SomeD)
  ultimately show ?thesis
    using s(1,2) assms(3) by (simp add: count_quorum_def usize_as_u32_def)
qed

section \<open>Properties\<close>

text \<open>
  The certificate built from a finalized round verifies: for any round run on a validator map
  that evaluates to \<open>Finalized\<close>, \<open>from_round\<close> yields a certificate that passes the structural and
  the cryptographic verification against that map.
\<close>

theorem certificate_of_finalized_verifies:
  assumes "round_run verify canon chain ep h r vs cr" "keys_distinct vs" "length vs \<le> U32_MAX"
    and "fst (round_evaluate cr) = Finalized b p c"
  shows "verify_cryptographic verify canon
    (cert_from_round chain ep b h r (precommits cr) (validator_count cr)) vs = Inr ()"
proof -
  note f = round_run_facts [OF assms(1)]
  have d: "keys_distinct (validator_set cr)" "length (validator_set cr) \<le> U32_MAX"
    using assms(2,3) f(6) by simp_all
  note q = finalized_quorums [OF f(1) d assms(4)]
  have ok: "votes_ok verify canon cr Precommit (precommits cr)" using f(1) by (simp add: round_ok_def)
  let ?vs = "filter (\<lambda>v. v_block_hash v = b) (map snd (precommits cr))"
  let ?c = "cert_from_round chain ep b h r (precommits cr) (validator_count cr)"
  have n: "validator_count cr = length vs"
    using f(1,6) assms(3) by (simp add: round_ok_def usize_as_u32_def)
  have key: "map validator_id (map snd (precommits cr)) = map fst (precommits cr)"
    using ok by (auto simp: votes_ok_def)
  have "distinct (map validator_id (map snd (precommits cr)))"
    unfolding key using ok by (simp add: votes_ok_def)
  then have "distinct (map validator_id ?vs)" by (rule distinct_map_filter)
  moreover have "card (fst ` set vs) = length vs"
    using assms(2) by (metis distinct_card length_map set_map)
  then have "2 * length vs div 3 + 1 \<le> card (supporters cr (precommits cr))"
    using q(3) f(6) by (simp add: count_quorum_def)
  then have "2 * length vs div 3 + 1 \<le> length ?vs"
    using card_supporters [of "precommits cr" cr] ok q(1) by (simp add: votes_ok_def)
  moreover have "2 * length vs div 3 + 1 \<le> U32_MAX"
    using assms(3) unfolding U32_MAX_def by presburger
  ultimately have "verify_structure ?c = Inr ()"
    using assms(3) n
    by (simp add: verify_structure_Inr cert_from_round_def quorum_threshold_small usize_as_u32_def comp_def)
  moreover have "verify_signatures verify canon ?c vs (precommit_signatures ?c) = Inr ()"
    using ok f(2-6) by (auto simp: verify_signatures_Inr cert_from_round_def votes_ok_def vote_ok_def)
  ultimately show ?thesis by (simp add: verify_cryptographic_Inr)
qed

theorem certificate_of_finalized_witness:
  "verify_cryptographic sample_verify sample_canon
     (cert_from_round 9 1 5 7 0 (precommits sample_round) (validator_count sample_round)) [(2, 20)] = Inr ()"
  by (rule certificate_of_finalized_verifies [OF sample_round_run _ _ sample_round_finalizes])
    (simp_all add: U32_MAX_def)

text \<open>
  C8. A fork exposes the faulty: when two certificates for different blocks at the same height both
  verify against the same validator map and carry its true size, the fork analysis names more
  than a third of the validators, all of them members whose signatures verify on both blocks; the
  \<open>ImpossibleFork\<close> outcome does not occur, and the named set is never within the tolerated bound.
\<close>

theorem fork_exposes_equivocators:
  assumes "verify_cryptographic verify canon ca vs = Inr ()" "verify_cryptographic verify canon cb vs = Inr ()"
    and "keys_distinct vs" "sc_validator_count ca = length vs" "sc_validator_count cb = length vs"
    and "sc_height ca = sc_height cb" "sc_block_hash ca \<noteq> sc_block_hash cb"
  shows "\<exists>E. prove_no_fork ca cb = EquivocatorsFound E (sc_height ca) (sc_block_hash ca) (sc_block_hash cb) \<and>
    E \<subseteq> fst ` set vs \<and> length vs < 3 * card E \<and> max_byzantine (length vs) < card E \<and>
    (\<forall>a \<in> E. \<exists>pk s t. map_of vs a = Some pk \<and>
       verify pk (vote_sign_data canon (sc_chain_id ca) (sc_epoch ca) (sc_block_hash ca) (sc_height ca)
         (sc_round ca) Precommit) s \<and>
       verify pk (vote_sign_data canon (sc_chain_id cb) (sc_epoch cb) (sc_block_hash cb) (sc_height cb)
         (sc_round cb) Precommit) t)"
proof -
  let ?A = "fst ` set (precommit_signatures ca)" and ?B = "fst ` set (precommit_signatures cb)"
  note qa = verified_quorum [OF assms(1,3,4)] and qb = verified_quorum [OF assms(2,3,5)]
  have n: "card (fst ` set vs) = length vs" using assms(3) by (metis distinct_card length_map set_map)
  have big: "length vs < 3 * card (?A \<inter> ?B)" using count_overlap [OF qa qb] n by simp
  then have "?A \<inter> ?B \<noteq> {}" by auto
  then have "prove_no_fork ca cb =
      EquivocatorsFound (?A \<inter> ?B) (sc_height ca) (sc_block_hash ca) (sc_block_hash cb)"
    using assms(4-7) by (simp add: prove_no_fork_def Let_def)
  moreover have "?A \<inter> ?B \<subseteq> fst ` set vs" using qa by (auto simp: count_quorum_def)
  moreover have "max_byzantine (length vs) < card (?A \<inter> ?B)"
    using big unfolding max_byzantine_def by presburger
  moreover have "\<exists>pk s t. map_of vs a = Some pk \<and>
       verify pk (vote_sign_data canon (sc_chain_id ca) (sc_epoch ca) (sc_block_hash ca) (sc_height ca)
         (sc_round ca) Precommit) s \<and>
       verify pk (vote_sign_data canon (sc_chain_id cb) (sc_epoch cb) (sc_block_hash cb) (sc_height cb)
         (sc_round cb) Precommit) t" if "a \<in> ?A \<inter> ?B" for a
  proof -
    from that obtain s t where "(a, s) \<in> set (precommit_signatures ca)" "(a, t) \<in> set (precommit_signatures cb)"
      by auto
    with assms(1,2) show ?thesis
      unfolding verify_cryptographic_Inr verify_signatures_Inr by fastforce
  qed
  ultimately show ?thesis using big by blast
qed

lemma sample_certificate:
  "verify_cryptographic (\<lambda>pk msg sig. True) (\<lambda>_. [])
     \<lparr>sc_chain_id = 9, sc_epoch = 1, sc_height = 7, sc_block_hash = b, sc_round = 0,
      precommit_signatures = [(2, replicate 64 (CHR ''s''))], sc_quorum = 1, sc_validator_count = 1\<rparr>
     [(2, 20)] = Inr ()"
  by (simp add: verify_cryptographic_Inr verify_structure_Inr usize_as_u32_def U32_MAX_def)

theorem fork_exposes_equivocators_witness:
  "\<exists>E. prove_no_fork
     \<lparr>sc_chain_id = 9, sc_epoch = 1, sc_height = 7, sc_block_hash = 5, sc_round = 0,
      precommit_signatures = [(2, replicate 64 (CHR ''s''))], sc_quorum = 1, sc_validator_count = 1\<rparr>
     \<lparr>sc_chain_id = 9, sc_epoch = 1, sc_height = 7, sc_block_hash = 6, sc_round = 0,
      precommit_signatures = [(2, replicate 64 (CHR ''s''))], sc_quorum = 1, sc_validator_count = 1\<rparr>
     = EquivocatorsFound E 7 5 6 \<and> 1 < 3 * card E"
  using fork_exposes_equivocators [OF sample_certificate [of 5] sample_certificate [of 6]] by auto

text \<open>
  The cryptographic verification takes the validator count from the certificate and never
  compares it with the validator map: a certificate that claims a set of size one and carries
  one valid signature of one member verifies against a map of any size, although it documents a
  single precommit instead of a quorum.
\<close>

theorem undersized_certificate_accepted:
  assumes "map_of vs a = Some pk" "64 \<le> length sig"
    and "verify pk (vote_sign_data canon chain ep b h r Precommit) sig"
  shows "verify_cryptographic verify canon
    \<lparr>sc_chain_id = chain, sc_epoch = ep, sc_height = h, sc_block_hash = b, sc_round = r,
     precommit_signatures = [(a, sig)], sc_quorum = 1, sc_validator_count = 1\<rparr> vs = Inr ()"
  using assms
  by (simp add: verify_cryptographic_Inr verify_structure_Inr usize_as_u32_def U32_MAX_def)

theorem undersized_certificate_witness:
  "verify_cryptographic sample_verify sample_canon
    \<lparr>sc_chain_id = 9, sc_epoch = 1, sc_height = 7, sc_block_hash = 5, sc_round = 0,
     precommit_signatures = [(2, replicate 64 (CHR ''s''))], sc_quorum = 1, sc_validator_count = 1\<rparr>
     [(2, 20), (3, 30), (4, 40), (6, 50)] = Inr ()"
  by (rule undersized_certificate_accepted [where pk = 20])
    (simp_all add: sample_verify_def vote_sign_data_def sample_canon_def)

text \<open>
  Evidence extracted from a genuine fork is rejected by the evidence store: precommits are signed
  over six fields (chain, epoch, block, height, round, type 1), while the evidence is verified
  over four (block, height, round, 2). If the two encodings never coincide and a signature
  verifies for at most one message, no evidence extracted from two verified certificates passes
  \<open>verify\<close>, so no equivocator is ever confirmed from a fork.
\<close>

theorem fork_evidence_never_verifies:
  assumes "verify_cryptographic verify canon ca vs = Inr ()" "verify_cryptographic verify canon cb vs = Inr ()"
    and "e \<in> set (extract_from_fork ca cb)" "map_of vs (ee_validator_id e) = Some pk"
    and "\<forall>x y. canon x \<noteq> canon4 y"
    and "\<forall>m m' s. verify pk m s \<and> verify pk m' s \<longrightarrow> m = m'"
  shows "evidence_verify verify canon4 e pk = Inl SignatureAInvalid \<and>
    submit_evidence verify canon4 store e pk = Inl SignatureAInvalid"
proof -
  from assms(3) obtain vid sa sb where e: "(vid, sb) \<in> set (precommit_signatures cb)"
    "map_of (rev (precommit_signatures ca)) vid = Some sa" "sc_block_hash ca \<noteq> sc_block_hash cb"
    "e = \<lparr>ee_validator_id = vid, ee_height = sc_height ca, round_a = sc_round ca,
      round_b = sc_round cb, block_hash_a = sc_block_hash ca, block_hash_b = sc_block_hash cb,
      signature_a = sa, signature_b = sb\<rparr>"
    by (auto simp: extract_from_fork_def Let_def split: if_splits option.splits)
  from e(2) have "(vid, sa) \<in> set (precommit_signatures ca)" by (auto dest: map_of_SomeD)
  with assms(1,4) e(4) have "verify pk (vote_sign_data canon (sc_chain_id ca) (sc_epoch ca)
      (sc_block_hash ca) (sc_height ca) (sc_round ca) Precommit) sa"
    unfolding verify_cryptographic_Inr verify_signatures_Inr by fastforce
  then have "\<not> verify pk (canon4 (sc_block_hash ca, sc_height ca, sc_round ca, 2)) sa"
    using assms(5,6) unfolding vote_sign_data_def by metis
  then have "evidence_verify verify canon4 e pk = Inl SignatureAInvalid"
    using e(3,4) by (simp add: evidence_verify_def)
  then show ?thesis by (simp add: submit_evidence_def)
qed

definition tagged_verify :: sig_verify where
  "tagged_verify pk msg sig \<longleftrightarrow> sig = msg @ replicate 64 (CHR ''s'')"

definition tagged_canon :: vote_canon where
  "tagged_canon t = (case t of (c, e, b, h, r, ty) \<Rightarrow> CHR ''6'' # hash_bytes b)"

definition tagged_cert :: "hash \<Rightarrow> safety_certificate" where
  "tagged_cert b =
     \<lparr>sc_chain_id = 9, sc_epoch = 1, sc_height = 7, sc_block_hash = b, sc_round = 0,
      precommit_signatures = [(2, (CHR ''6'' # hash_bytes b) @ replicate 64 (CHR ''s''))],
      sc_quorum = 1, sc_validator_count = 1\<rparr>"

lemma tagged_cert_verifies: "verify_cryptographic tagged_verify tagged_canon (tagged_cert b) [(2, 20)] = Inr ()"
  by (simp add: verify_cryptographic_Inr verify_structure_Inr usize_as_u32_def U32_MAX_def tagged_cert_def
      tagged_verify_def tagged_canon_def vote_sign_data_def)

theorem fork_evidence_never_verifies_witness:
  "\<exists>e \<in> set (extract_from_fork (tagged_cert 5) (tagged_cert 6)).
     evidence_verify tagged_verify (\<lambda>_. ''4'') e 20 = Inl SignatureAInvalid"
proof -
  obtain e where e: "e \<in> set (extract_from_fork (tagged_cert 5) (tagged_cert 6))" "ee_validator_id e = 2"
    by (simp add: extract_from_fork_def tagged_cert_def)
  have "\<forall>x y. tagged_canon x \<noteq> (\<lambda>_. ''4'') (y :: hash \<times> nat \<times> nat \<times> nat)"
    by (auto simp: tagged_canon_def)
  moreover have "\<forall>m m' s. tagged_verify 20 m s \<and> tagged_verify 20 m' s \<longrightarrow> m = m'"
    by (simp add: tagged_verify_def)
  ultimately have "evidence_verify tagged_verify (\<lambda>_. ''4'') e 20 = Inl SignatureAInvalid"
    using fork_evidence_never_verifies [OF tagged_cert_verifies tagged_cert_verifies e(1),
        of 20 "\<lambda>_. ''4''" equivocation_store_new] e(2) by simp
  with e(1) show ?thesis by blast
qed

end
