(* ===== verification/Scc_Validator_Set.thy ===== *)
theory Scc_Validator_Set
  imports Scc_World Scc_Protocol "HOL-Library.Product_Lexorder"
begin

text \<open>
  The on-chain validator set: the records and change events of \<open>types/validator_set.rs\<close> and the
  state machine of \<open>state/validator_set_state.rs\<close> that queues admitted changes and applies them
  at their effective height. The bincode encodings are a parameter (\<open>vs_codec\<close>), BLAKE3 is the
  function \<open>B\<close>. A \<open>u128\<close> sum of \<open>u64\<close> powers cannot overflow for fewer than \<open>2^63\<close> records, so
  powers are added as naturals.
\<close>

section \<open>Records and sets\<close>

record validator_record =
  vr_agent_id :: agent_id
  vr_validator_id :: hash
  vr_mfidel_seal :: mfidel_atomic_seal
  voting_power :: nat
  active_from :: nat
  active_until :: "nat option"

definition is_active_at :: "validator_record \<Rightarrow> nat \<Rightarrow> bool" where
  "is_active_at r h =
     (if voting_power r = 0 then False
      else if h < active_from r then False
      else (case active_until r of Some u \<Rightarrow> h \<le> u | None \<Rightarrow> True))"

record validator_set_t =
  vs_records :: "validator_record list"

datatype validator_set_error = DuplicateAgentId agent_id | DuplicateValidatorId hash

text \<open>The loop over \<open>windows(2)\<close>: the first element equal to its successor.\<close>

fun first_repeat :: "'a list \<Rightarrow> 'a option" where
  "first_repeat (x # y # zs) = (if x = y then Some x else first_repeat (y # zs))"
| "first_repeat _ = None"

definition validator_set_new :: "validator_record list \<Rightarrow> validator_set_error + validator_set_t" where
  "validator_set_new records =
     (let recs = sort_key vr_agent_id records
      in case first_repeat (map vr_agent_id recs) of
           Some a \<Rightarrow> Inl (DuplicateAgentId a)
         | None \<Rightarrow>
             (case first_repeat (sort (map vr_validator_id recs)) of
                Some v \<Rightarrow> Inl (DuplicateValidatorId v)
              | None \<Rightarrow> Inr \<lparr>vs_records = recs\<rparr>))"

definition active_at :: "validator_set_t \<Rightarrow> nat \<Rightarrow> validator_record list" where
  "active_at s h = filter (\<lambda>r. is_active_at r h) (vs_records s)"

definition total_power_at :: "validator_set_t \<Rightarrow> nat \<Rightarrow> nat" where
  "total_power_at s h = sum_list (map voting_power (filter (\<lambda>r. is_active_at r h) (vs_records s)))"

definition quorum_power_at :: "validator_set_t \<Rightarrow> nat \<Rightarrow> nat" where
  "quorum_power_at s h = (total_power_at s h * 2) div 3 + 1"

definition find_by_agent :: "validator_set_t \<Rightarrow> agent_id \<Rightarrow> validator_record option" where
  "find_by_agent s a = find (\<lambda>r. vr_agent_id r = a) (vs_records s)"

definition find_active_by_validator_id ::
  "validator_set_t \<Rightarrow> hash \<Rightarrow> nat \<Rightarrow> validator_record option" where
  "find_active_by_validator_id s v h =
     find (\<lambda>r. vr_validator_id r = v \<and> is_active_at r h) (vs_records s)"

section \<open>Change events\<close>

datatype removal_reason = Voluntary | Equivocation | Inactivity | Governance_removal

datatype validator_set_change_kind =
    AddValidator validator_record
  | RemoveValidator agent_id removal_reason nat
  | RotatePower agent_id nat nat
  | RotateKey agent_id hash hash nat

fun effective_height :: "validator_set_change_kind \<Rightarrow> nat" where
  "effective_height (AddValidator r) = active_from r"
| "effective_height (RemoveValidator a reason h) = h"
| "effective_height (RotatePower a p h) = h"
| "effective_height (RotateKey a old new h) = h"

fun target_agent_id :: "validator_set_change_kind \<Rightarrow> agent_id" where
  "target_agent_id (AddValidator r) = vr_agent_id r"
| "target_agent_id (RemoveValidator a reason h) = a"
| "target_agent_id (RotatePower a p h) = a"
| "target_agent_id (RotateKey a old new h) = a"

record validator_set_change =
  change_id :: hash
  vsc_kind :: validator_set_change_kind
  proposed_at :: nat
  quorum_signatures :: "(hash \<times> bytes) list"

text \<open>The canonical encoding of the signed payload is a parameter.\<close>

type_synonym change_canon = "validator_set_change_kind \<times> nat \<Rightarrow> bytes"

definition compute_change_id ::
  "(bytes \<Rightarrow> hash) \<Rightarrow> change_canon \<Rightarrow> validator_set_change_kind \<Rightarrow> nat \<Rightarrow> hash" where
  "compute_change_id B canon k p = B (canon (k, p))"

definition canonicalize_signatures ::
  "validator_set_change \<Rightarrow> (validator_set_error + unit) \<times> validator_set_change" where
  "canonicalize_signatures c =
     (let sigs = sort_key fst (quorum_signatures c); c' = c\<lparr>quorum_signatures := sigs\<rparr>
      in case first_repeat (map fst sigs) of
           Some v \<Rightarrow> (Inl (DuplicateValidatorId v), c')
         | None \<Rightarrow> (Inr (), c'))"

definition change_id_is_consistent :: "(bytes \<Rightarrow> hash) \<Rightarrow> change_canon \<Rightarrow> validator_set_change \<Rightarrow> bool" where
  "change_id_is_consistent B canon c \<longleftrightarrow>
     change_id c = compute_change_id B canon (vsc_kind c) (proposed_at c)"

section \<open>State\<close>

definition VALIDATOR_SET_TRIE_KEY :: bytes where
  "VALIDATOR_SET_TRIE_KEY = ''system/validator_set''"
definition PENDING_VALIDATOR_SET_CHANGES_TRIE_KEY :: bytes where
  "PENDING_VALIDATOR_SET_CHANGES_TRIE_KEY = ''system/pending_validator_set_changes''"
definition VALIDATOR_SET_CHANGE_HISTORY_TRIE_KEY :: bytes where
  "VALIDATOR_SET_CHANGE_HISTORY_TRIE_KEY = ''system/validator_set_change_history''"

text \<open>The bincode encoders and decoders of a set and of a list of changes.\<close>

record vs_codec =
  enc_set :: "validator_set_t \<Rightarrow> bytes"
  dec_set :: "bytes \<Rightarrow> validator_set_t option"
  enc_changes :: "validator_set_change list \<Rightarrow> bytes"
  dec_changes :: "bytes \<Rightarrow> validator_set_change list option"

datatype validator_set_state_error =
    ChangeIdMismatch | DuplicateChangeId | SetNotInitialized | AgentAlreadyPresent
  | ValidatorIdAlreadyInUse | AgentNotPresent | ZeroVotingPower | KeyRotationNoOp
  | OldKeyMismatch | SetRebuildFailed validator_set_error | Storage string

definition commit_validator_set ::
  "vs_codec \<Rightarrow> managed_world_state \<Rightarrow> validator_set_t \<Rightarrow> managed_world_state" where
  "commit_validator_set D w s = snd (apply_delta w (single_write VALIDATOR_SET_TRIE_KEY (enc_set D s)))"

definition validator_set_from_trie ::
  "vs_codec \<Rightarrow> managed_world_state \<Rightarrow> string + validator_set_t option" where
  "validator_set_from_trie D w =
     (case world_get w VALIDATOR_SET_TRIE_KEY of
        Some b \<Rightarrow> (case dec_set D b of Some s \<Rightarrow> Inr (Some s) | None \<Rightarrow> Inl ''ValidatorSet deserialize'')
      | None \<Rightarrow> Inr None)"

definition pending_changes_from_trie ::
  "vs_codec \<Rightarrow> managed_world_state \<Rightarrow> string + validator_set_change list" where
  "pending_changes_from_trie D w =
     (case world_get w PENDING_VALIDATOR_SET_CHANGES_TRIE_KEY of
        Some b \<Rightarrow> (case dec_changes D b of
                     Some cs \<Rightarrow> Inr cs | None \<Rightarrow> Inl ''pending_validator_set_changes deserialize'')
      | None \<Rightarrow> Inr [])"

definition commit_pending_changes ::
  "vs_codec \<Rightarrow> managed_world_state \<Rightarrow> validator_set_change list \<Rightarrow> managed_world_state" where
  "commit_pending_changes D w cs =
     snd (apply_delta w (single_write PENDING_VALIDATOR_SET_CHANGES_TRIE_KEY (enc_changes D cs)))"

definition validator_set_change_history_from_trie ::
  "vs_codec \<Rightarrow> managed_world_state \<Rightarrow> string + validator_set_change list" where
  "validator_set_change_history_from_trie D w =
     (case world_get w VALIDATOR_SET_CHANGE_HISTORY_TRIE_KEY of
        Some b \<Rightarrow> (case dec_changes D b of
                     Some cs \<Rightarrow> Inr cs | None \<Rightarrow> Inl ''validator_set_change_history deserialize'')
      | None \<Rightarrow> Inr [])"

definition commit_history ::
  "vs_codec \<Rightarrow> managed_world_state \<Rightarrow> validator_set_change list \<Rightarrow> managed_world_state" where
  "commit_history D w cs =
     snd (apply_delta w (single_write VALIDATOR_SET_CHANGE_HISTORY_TRIE_KEY (enc_changes D cs)))"

definition append_admission_to_history ::
  "vs_codec \<Rightarrow> managed_world_state \<Rightarrow> validator_set_change \<Rightarrow>
   (validator_set_state_error + unit) \<times> managed_world_state" where
  "append_admission_to_history D w c =
     (case validator_set_change_history_from_trie D w of
        Inl e \<Rightarrow> (Inl (Storage e), w)
      | Inr hist \<Rightarrow>
          (Inr (), if \<exists>x \<in> set hist. change_id x = change_id c then w
                   else commit_history D w (hist @ [c])))"

definition apply_validator_set_change_admission ::
  "vs_codec \<Rightarrow> (bytes \<Rightarrow> hash) \<Rightarrow> change_canon \<Rightarrow> managed_world_state \<Rightarrow> validator_set_change \<Rightarrow>
   (validator_set_state_error + unit) \<times> managed_world_state" where
  "apply_validator_set_change_admission D B canon w c =
     (if \<not> change_id_is_consistent B canon c then (Inl ChangeIdMismatch, w)
      else
        case pending_changes_from_trie D w of
          Inl e \<Rightarrow> (Inl (Storage e), w)
        | Inr pending \<Rightarrow>
            if \<exists>x \<in> set pending. change_id x = change_id c then (Inl DuplicateChangeId, w)
            else
              let pending' = sort_key (\<lambda>x. (effective_height (vsc_kind x), change_id x)) (pending @ [c])
              in append_admission_to_history D (commit_pending_changes D w pending') c)"

text \<open>Update of the first record of an agent, as \<open>iter_mut().find\<close> does.\<close>

fun update_record ::
  "agent_id \<Rightarrow> (validator_record \<Rightarrow> validator_record) \<Rightarrow> validator_record list \<Rightarrow> validator_record list" where
  "update_record a f [] = []"
| "update_record a f (r # rs) =
     (if vr_agent_id r = a then f r # rs else r # update_record a f rs)"

abbreviation has_agent :: "validator_record list \<Rightarrow> agent_id \<Rightarrow> bool" where
  "has_agent recs a \<equiv> \<exists>r \<in> set recs. vr_agent_id r = a"

fun apply_kind_to_records ::
  "validator_record list \<Rightarrow> validator_set_change_kind \<Rightarrow> validator_set_state_error + validator_record list" where
  "apply_kind_to_records recs (AddValidator n) =
     (if has_agent recs (vr_agent_id n) then Inl AgentAlreadyPresent
      else if \<exists>r \<in> set recs. vr_validator_id r = vr_validator_id n then Inl ValidatorIdAlreadyInUse
      else Inr (recs @ [n]))"
| "apply_kind_to_records recs (RemoveValidator a reason h) =
     (if \<not> has_agent recs a then Inl AgentNotPresent
      else Inr (update_record a (\<lambda>r. r\<lparr>active_until := Some (h - 1)\<rparr>) recs))"
| "apply_kind_to_records recs (RotatePower a p h) =
     (if p = 0 then Inl ZeroVotingPower
      else if \<not> has_agent recs a then Inl AgentNotPresent
      else Inr (update_record a (\<lambda>r. r\<lparr>voting_power := p\<rparr>) recs))"
| "apply_kind_to_records recs (RotateKey a old new h) =
     (if old = new then Inl KeyRotationNoOp
      else if \<exists>r \<in> set recs. vr_validator_id r = new \<and> vr_agent_id r \<noteq> a then Inl ValidatorIdAlreadyInUse
      else case find (\<lambda>r. vr_agent_id r = a) recs of
             None \<Rightarrow> Inl AgentNotPresent
           | Some r \<Rightarrow>
               if vr_validator_id r \<noteq> old then Inl OldKeyMismatch
               else Inr (update_record a (\<lambda>r. r\<lparr>vr_validator_id := new\<rparr>) recs))"

definition apply_kind_to_set ::
  "validator_set_t \<Rightarrow> validator_set_change_kind \<Rightarrow> validator_set_state_error + validator_set_t" where
  "apply_kind_to_set s k =
     bind_result (apply_kind_to_records (vs_records s) k)
       (\<lambda>recs. case validator_set_new recs of Inl e \<Rightarrow> Inl (SetRebuildFailed e) | Inr s' \<Rightarrow> Inr s')"

fun apply_changes ::
  "validator_set_t \<Rightarrow> validator_set_change list \<Rightarrow> validator_set_state_error + validator_set_t" where
  "apply_changes s [] = Inr s"
| "apply_changes s (c # cs) = bind_result (apply_kind_to_set s (vsc_kind c)) (\<lambda>s'. apply_changes s' cs)"

definition advance_validator_set_to_height ::
  "vs_codec \<Rightarrow> managed_world_state \<Rightarrow> nat \<Rightarrow>
   (validator_set_state_error + validator_set_change list) \<times> managed_world_state" where
  "advance_validator_set_to_height D w h =
     (case pending_changes_from_trie D w of
        Inl e \<Rightarrow> (Inl (Storage e), w)
      | Inr pending \<Rightarrow>
          if pending = [] then (Inr [], w)
          else case validator_set_from_trie D w of
                 Inl e \<Rightarrow> (Inl (Storage e), w)
               | Inr None \<Rightarrow> (Inl SetNotInitialized, w)
               | Inr (Some s) \<Rightarrow>
                   (case partition (\<lambda>c. effective_height (vsc_kind c) = h) pending of
                      (to_apply, to_keep) \<Rightarrow>
                        (case apply_changes s to_apply of
                           Inl e \<Rightarrow> (Inl e, w)
                         | Inr s' \<Rightarrow>
                             (Inr to_apply,
                              commit_pending_changes D (commit_validator_set D w s') to_keep))))"

section \<open>Canonical sets\<close>

definition canonical_set :: "validator_set_t \<Rightarrow> bool" where
  "canonical_set s \<longleftrightarrow> sorted (map vr_agent_id (vs_records s)) \<and>
     distinct (map vr_agent_id (vs_records s)) \<and> distinct (map vr_validator_id (vs_records s))"

lemma first_repeat_None: "sorted xs \<Longrightarrow> first_repeat xs = None \<longleftrightarrow> distinct xs"
  by (induction xs rule: first_repeat.induct) (auto simp: less_le)

lemma validator_set_new_Inr:
  "validator_set_new recs = Inr s \<longleftrightarrow>
     distinct (map vr_agent_id recs) \<and> distinct (map vr_validator_id recs) \<and>
     s = \<lparr>vs_records = sort_key vr_agent_id recs\<rparr>"
proof -
  have "mset (map vr_agent_id (sort_key vr_agent_id recs)) = mset (map vr_agent_id recs)"
    "mset (map vr_validator_id (sort_key vr_agent_id recs)) = mset (map vr_validator_id recs)"
    by simp_all
  then have "distinct (map vr_agent_id (sort_key vr_agent_id recs)) \<longleftrightarrow> distinct (map vr_agent_id recs)"
    "distinct (map vr_validator_id (sort_key vr_agent_id recs)) \<longleftrightarrow> distinct (map vr_validator_id recs)"
    by (metis mset_eq_imp_distinct_iff)+
  then show ?thesis
    using first_repeat_None [of "map vr_agent_id (sort_key vr_agent_id recs)"]
      first_repeat_None [of "sort (map vr_validator_id (sort_key vr_agent_id recs))"]
    by (auto simp: validator_set_new_def Let_def split: option.splits)
qed

lemma validator_set_new_canonical: "validator_set_new recs = Inr s \<Longrightarrow> canonical_set s"
proof -
  assume n: "validator_set_new recs = Inr s"
  have "mset (map vr_agent_id (sort_key vr_agent_id recs)) = mset (map vr_agent_id recs)"
    "mset (map vr_validator_id (sort_key vr_agent_id recs)) = mset (map vr_validator_id recs)"
    by simp_all
  with n show "canonical_set s"
    unfolding canonical_set_def validator_set_new_Inr
    by (metis mset_eq_imp_distinct_iff sorted_sort_key validator_set_t.select_convs(1))
qed

text \<open>The set as the map from agents to records that it stands for.\<close>

definition members :: "validator_set_t \<Rightarrow> agent_id \<rightharpoonup> validator_record" where
  "members s = map_of (map (\<lambda>r. (vr_agent_id r, r)) (vs_records s))"

abbreviation agent_map :: "validator_record list \<Rightarrow> agent_id \<rightharpoonup> validator_record" where
  "agent_map recs \<equiv> map_of (map (\<lambda>r. (vr_agent_id r, r)) recs)"

text \<open>What a change promises to do to that map.\<close>

fun change_spec ::
  "validator_set_change_kind \<Rightarrow> (agent_id \<rightharpoonup> validator_record) \<Rightarrow> (agent_id \<rightharpoonup> validator_record)" where
  "change_spec (AddValidator r) m = m(vr_agent_id r \<mapsto> r)"
| "change_spec (RemoveValidator a reason h) m =
     m(a := map_option (\<lambda>r. r\<lparr>active_until := Some (h - 1)\<rparr>) (m a))"
| "change_spec (RotatePower a p h) m = m(a := map_option (\<lambda>r. r\<lparr>voting_power := p\<rparr>) (m a))"
| "change_spec (RotateKey a old new h) m = m(a := map_option (\<lambda>r. r\<lparr>vr_validator_id := new\<rparr>) (m a))"

lemma agent_map_None: "agent_map recs a = None \<longleftrightarrow> \<not> has_agent recs a"
  by (force simp: map_of_eq_None_iff)

lemma agent_map_Some: "agent_map recs a = Some r \<Longrightarrow> r \<in> set recs \<and> vr_agent_id r = a"
  by (auto dest: map_of_SomeD)

lemma find_agent: "find (\<lambda>r. vr_agent_id r = a) recs = agent_map recs a"
  by (induction recs) auto

lemma agent_map_update:
  assumes "\<And>r. vr_agent_id (f r) = vr_agent_id r"
  shows "agent_map (update_record a f recs) = (agent_map recs)(a := map_option f (agent_map recs a))"
  by (induction recs) (auto simp: assms fun_eq_iff)

lemma update_record_agents:
  assumes "\<And>r. vr_agent_id (f r) = vr_agent_id r"
  shows "map vr_agent_id (update_record a f recs) = map vr_agent_id recs"
  by (induction recs) (simp_all add: assms)

lemma agent_map_sort:
  assumes "distinct (map vr_agent_id recs)"
  shows "agent_map (sort_key vr_agent_id recs) = agent_map recs"
proof -
  have "mset (map vr_agent_id (sort_key vr_agent_id recs)) = mset (map vr_agent_id recs)" by simp
  with assms have "distinct (map vr_agent_id (sort_key vr_agent_id recs))"
    by (metis mset_eq_imp_distinct_iff)
  with assms show ?thesis by (subst map_of_inject_set) (simp_all add: comp_def)
qed

lemma apply_kind_to_set_Inr:
  "apply_kind_to_set s k = Inr s' \<longleftrightarrow>
     (\<exists>recs. apply_kind_to_records (vs_records s) k = Inr recs \<and> validator_set_new recs = Inr s')"
  by (cases "apply_kind_to_records (vs_records s) k")
    (auto simp: apply_kind_to_set_def split: sum.splits)

lemma apply_kind_canonical: "apply_kind_to_set s k = Inr s' \<Longrightarrow> canonical_set s'"
  using apply_kind_to_set_Inr validator_set_new_canonical by blast

lemma apply_kind_members:
  assumes "apply_kind_to_set s k = Inr s'"
  shows "members s' = change_spec k (members s)"
proof -
  from assms obtain recs where r: "apply_kind_to_records (vs_records s) k = Inr recs"
    "validator_set_new recs = Inr s'" unfolding apply_kind_to_set_Inr by blast
  have "members s' = agent_map recs"
    using r(2) agent_map_sort [of recs] by (auto simp: validator_set_new_Inr members_def)
  also have "\<dots> = change_spec k (members s)"
  proof (cases k)
    case (AddValidator n)
    then show ?thesis using r(1) agent_map_None [of "vs_records s" "vr_agent_id n"]
      by (auto simp: members_def map_add_def fun_eq_iff split: if_splits option.splits)
  qed (use r(1) in \<open>auto simp: members_def agent_map_update split: if_splits option.splits\<close>)
  finally show ?thesis .
qed

lemma apply_changes_spec:
  assumes "apply_changes s cs = Inr s'"
  shows "members s' = fold (\<lambda>c. change_spec (vsc_kind c)) cs (members s) \<and>
    (canonical_set s \<longrightarrow> canonical_set s')"
  using assms
proof (induction cs arbitrary: s)
  case (Cons c cs)
  then obtain t where t: "apply_kind_to_set s (vsc_kind c) = Inr t" "apply_changes t cs = Inr s'"
    by (auto simp: bind_result_Inr)
  with Cons.IH [OF t(2)] apply_kind_members [OF t(1)] apply_kind_canonical [OF t(1)]
  show ?case by simp
qed simp

text \<open>A canonical set can apply a change exactly when the change names a fitting agent and key.\<close>

fun change_applies :: "validator_set_change_kind \<Rightarrow> validator_set_t \<Rightarrow> bool" where
  "change_applies (AddValidator r) s \<longleftrightarrow> members s (vr_agent_id r) = None \<and>
     (\<forall>x \<in> set (vs_records s). vr_validator_id x \<noteq> vr_validator_id r)"
| "change_applies (RemoveValidator a reason h) s \<longleftrightarrow> members s a \<noteq> None"
| "change_applies (RotatePower a p h) s \<longleftrightarrow> 0 < p \<and> members s a \<noteq> None"
| "change_applies (RotateKey a old new h) s \<longleftrightarrow> old \<noteq> new \<and>
     (\<exists>r. members s a = Some r \<and> vr_validator_id r = old) \<and>
     (\<forall>x \<in> set (vs_records s). vr_validator_id x = new \<longrightarrow> vr_agent_id x = a)"

lemma update_record_keep_validators:
  assumes "\<And>r. vr_validator_id (f r) = vr_validator_id r"
  shows "map vr_validator_id (update_record a f recs) = map vr_validator_id recs"
  by (induction recs) (simp_all add: assms)

lemma update_record_new_key:
  assumes "distinct (map vr_agent_id recs)" "distinct (map vr_validator_id recs)"
    and "\<forall>x \<in> set recs. vr_validator_id x = new \<longrightarrow> vr_agent_id x = a"
  shows "distinct (map vr_validator_id (update_record a (\<lambda>r. r\<lparr>vr_validator_id := new\<rparr>) recs))"
  using assms
proof (induction recs)
  case (Cons r rs)
  have sub: "vr_validator_id ` set (update_record a (\<lambda>r. r\<lparr>vr_validator_id := new\<rparr>) xs)
      \<subseteq> insert new (vr_validator_id ` set xs)" for xs
    by (induction xs) auto
  show ?case
  proof (cases "vr_agent_id r = a")
    case True
    with Cons.prems have "new \<notin> vr_validator_id ` set rs" by (auto simp: image_iff)
    with True Cons.prems show ?thesis by simp
  next
    case False
    then have "vr_validator_id r \<noteq> new" using Cons.prems by auto
    with False Cons sub [of rs] show ?thesis by auto
  qed
qed simp

lemma apply_kind_total:
  assumes c: "canonical_set s"
  shows "(\<exists>s'. apply_kind_to_set s k = Inr s') \<longleftrightarrow> change_applies k s"
proof -
  have d: "distinct (map vr_agent_id (vs_records s))" "distinct (map vr_validator_id (vs_records s))"
    using c by (simp_all add: canonical_set_def)
  have r: "(\<exists>s'. apply_kind_to_set s k = Inr s') \<longleftrightarrow>
     (\<exists>recs. apply_kind_to_records (vs_records s) k = Inr recs \<and> distinct (map vr_agent_id recs) \<and>
        distinct (map vr_validator_id recs))"
    unfolding apply_kind_to_set_Inr validator_set_new_Inr by blast
  have h: "has_agent (vs_records s) a \<longleftrightarrow> members s a \<noteq> None" for a
    unfolding members_def using agent_map_None [of "vs_records s" a] by simp
  show ?thesis
  proof (cases k)
    case (AddValidator n)
    with d h [of "vr_agent_id n"] show ?thesis unfolding r by (auto simp: image_iff)
  next
    case (RemoveValidator a x e)
    with d h show ?thesis
      unfolding r by (simp add: update_record_agents update_record_keep_validators)
  next
    case (RotatePower a p e)
    with d h show ?thesis
      unfolding r by (simp add: update_record_agents update_record_keep_validators)
  next
    case (RotateKey a old new e)
    with d update_record_new_key [OF d, of new a] show ?thesis
      unfolding r by (auto simp: find_agent members_def update_record_agents split: option.splits)
  qed
qed

section \<open>Voting power\<close>

text \<open>Quorums by weight: a second notion of quorum with the intersection law.\<close>

definition weight_quorum :: "('v \<Rightarrow> nat) \<Rightarrow> 'v set \<Rightarrow> 'v set \<Rightarrow> bool" where
  "weight_quorum p V A \<longleftrightarrow> finite V \<and> A \<subseteq> V \<and> 2 * sum p V div 3 + 1 \<le> sum p A"

definition weight_tolerable :: "('v \<Rightarrow> nat) \<Rightarrow> 'v set \<Rightarrow> 'v set \<Rightarrow> bool" where
  "weight_tolerable p V F \<longleftrightarrow> finite F \<and> 3 * sum p (F \<inter> V) \<le> sum p V"

lemma weight_overlap:
  assumes "weight_quorum p V A" "weight_quorum p V B"
  shows "sum p V < 3 * sum p (A \<inter> B)"
proof -
  have f: "finite A" "finite B" "finite V" "A \<union> B \<subseteq> V"
    using assms by (auto simp: weight_quorum_def intro: finite_subset)
  have "sum p A + sum p B = sum p (A \<union> B) + sum p (A \<inter> B)"
    using f(1,2) sum.union_inter [of A B p] by simp
  moreover have "sum p (A \<union> B) \<le> sum p V" using f by (intro sum_mono2) auto
  moreover have "2 * n < 3 * a" if "2 * n div 3 + 1 \<le> a" for n a :: nat using that by presburger
  with assms have "2 * sum p V < 3 * sum p A" "2 * sum p V < 3 * sum p B"
    by (simp_all add: weight_quorum_def)
  ultimately show ?thesis by linarith
qed

interpretation weight: quorum_system "weight_quorum p" "weight_tolerable p"
  for p :: "'v \<Rightarrow> nat"
proof unfold_locales
  fix V A B F :: "'v set"
  show "weight_quorum p V A \<Longrightarrow> A \<subseteq> V" by (simp add: weight_quorum_def)
  assume q: "weight_quorum p V A" "weight_quorum p V B" and t: "weight_tolerable p V F"
  show "\<exists>v. v \<in> A \<inter> B - F"
  proof (rule ccontr)
    assume "\<not> ?thesis"
    then have "A \<inter> B \<subseteq> F \<inter> V" using q(1) by (auto simp: weight_quorum_def)
    then have "sum p (A \<inter> B) \<le> sum p (F \<inter> V)"
      using t by (intro sum_mono2) (auto simp: weight_tolerable_def)
    then show False using weight_overlap [OF q] t by (simp add: weight_tolerable_def)
  qed
qed

text \<open>The keys of the active validators of a set, and the power behind each key.\<close>

definition active_keys :: "validator_set_t \<Rightarrow> nat \<Rightarrow> hash set" where
  "active_keys s h = vr_validator_id ` set (active_at s h)"

definition key_power :: "validator_set_t \<Rightarrow> nat \<Rightarrow> hash \<Rightarrow> nat" where
  "key_power s h v =
     (case find_active_by_validator_id s v h of Some r \<Rightarrow> voting_power r | None \<Rightarrow> 0)"

lemma find_active_Some:
  "find_active_by_validator_id s v h = Some r \<Longrightarrow>
     r \<in> set (active_at s h) \<and> vr_validator_id r = v"
  unfolding find_active_by_validator_id_def active_at_def by (auto simp: find_Some_iff)

lemma find_active_iff:
  assumes "canonical_set s"
  shows "find_active_by_validator_id s v h = Some r \<longleftrightarrow>
    r \<in> set (active_at s h) \<and> vr_validator_id r = v"
proof
  assume r: "r \<in> set (active_at s h) \<and> vr_validator_id r = v"
  then have "find_active_by_validator_id s v h \<noteq> None"
    by (auto simp: find_active_by_validator_id_def active_at_def find_None_iff)
  then obtain r' where r': "find_active_by_validator_id s v h = Some r'" by blast
  have "inj_on vr_validator_id (set (vs_records s))"
    using assms by (simp add: canonical_set_def distinct_map)
  with r find_active_Some [OF r'] have "r' = r"
    unfolding active_at_def by (auto dest: inj_onD)
  with r' show "find_active_by_validator_id s v h = Some r" by simp
qed (rule find_active_Some)

lemma total_power_sum:
  assumes "canonical_set s"
  shows "total_power_at s h = sum (key_power s h) (active_keys s h)"
proof -
  have d: "distinct (map vr_validator_id (active_at s h))"
    using assms by (simp add: canonical_set_def active_at_def distinct_map_filter)
  have "voting_power r = key_power s h (vr_validator_id r)" if "r \<in> set (active_at s h)" for r
    using that find_active_iff [OF assms, of "vr_validator_id r" h r] by (simp add: key_power_def)
  then have "map voting_power (active_at s h) = map (key_power s h) (map vr_validator_id (active_at s h))"
    by simp
  then have "total_power_at s h = sum_list (map (key_power s h) (map vr_validator_id (active_at s h)))"
    by (simp only: total_power_at_def active_at_def)
  also have "\<dots> = sum (key_power s h) (set (map vr_validator_id (active_at s h)))"
    using d by (rule sum_list_distinct_conv_sum_set)
  finally show ?thesis by (simp add: active_keys_def)
qed

section \<open>The change queue\<close>

lemma vs_keys_distinct [simp]:
  "VALIDATOR_SET_TRIE_KEY \<noteq> PENDING_VALIDATOR_SET_CHANGES_TRIE_KEY"
  "VALIDATOR_SET_TRIE_KEY \<noteq> VALIDATOR_SET_CHANGE_HISTORY_TRIE_KEY"
  "PENDING_VALIDATOR_SET_CHANGES_TRIE_KEY \<noteq> VALIDATOR_SET_TRIE_KEY"
  "PENDING_VALIDATOR_SET_CHANGES_TRIE_KEY \<noteq> VALIDATOR_SET_CHANGE_HISTORY_TRIE_KEY"
  "VALIDATOR_SET_CHANGE_HISTORY_TRIE_KEY \<noteq> VALIDATOR_SET_TRIE_KEY"
  "VALIDATOR_SET_CHANGE_HISTORY_TRIE_KEY \<noteq> PENDING_VALIDATOR_SET_CHANGES_TRIE_KEY"
  by (simp_all add: VALIDATOR_SET_TRIE_KEY_def PENDING_VALIDATOR_SET_CHANGES_TRIE_KEY_def
      VALIDATOR_SET_CHANGE_HISTORY_TRIE_KEY_def)

definition keys_fit :: "nat \<Rightarrow> bool" where
  "keys_fit cap \<longleftrightarrow> 36 \<le> cap"

lemma keys_fitD:
  assumes "keys_fit cap"
  shows "length VALIDATOR_SET_TRIE_KEY \<le> cap" "length PENDING_VALIDATOR_SET_CHANGES_TRIE_KEY \<le> cap"
    "length VALIDATOR_SET_CHANGE_HISTORY_TRIE_KEY \<le> cap"
  using assms
  by (simp_all add: keys_fit_def VALIDATOR_SET_TRIE_KEY_def VALIDATOR_SET_CHANGE_HISTORY_TRIE_KEY_def
      PENDING_VALIDATOR_SET_CHANGES_TRIE_KEY_def)

text \<open>A value that fits the entry limit and that the decoder reads back.\<close>

definition set_storable :: "vs_codec \<Rightarrow> nat \<Rightarrow> validator_set_t \<Rightarrow> bool" where
  "set_storable D cap s \<longleftrightarrow> length (enc_set D s) \<le> cap \<and> dec_set D (enc_set D s) = Some s"

definition changes_storable :: "vs_codec \<Rightarrow> nat \<Rightarrow> validator_set_change list \<Rightarrow> bool" where
  "changes_storable D cap cs \<longleftrightarrow>
     length (enc_changes D cs) \<le> cap \<and> dec_changes D (enc_changes D cs) = Some cs"

lemmas vs_state_defs =
  commit_validator_set_def commit_pending_changes_def commit_history_def
  validator_set_from_trie_def pending_changes_from_trie_def
  validator_set_change_history_from_trie_def

abbreviation due :: "nat \<Rightarrow> validator_set_change list \<Rightarrow> validator_set_change list" where
  "due h cs \<equiv> filter (\<lambda>c. effective_height (vsc_kind c) = h) cs"

abbreviation later :: "nat \<Rightarrow> validator_set_change list \<Rightarrow> validator_set_change list" where
  "later h cs \<equiv> filter (\<lambda>c. effective_height (vsc_kind c) \<noteq> h) cs"

lemma advance_nonempty:
  assumes "pending_changes_from_trie D w = Inr pending" "pending \<noteq> []"
    and "validator_set_from_trie D w = Inr (Some s)"
  shows "advance_validator_set_to_height D w h =
    (case apply_changes s (due h pending) of
       Inl e \<Rightarrow> (Inl e, w)
     | Inr s' \<Rightarrow> (Inr (due h pending),
          commit_pending_changes D (commit_validator_set D w s') (later h pending)))"
  using assms by (simp add: advance_validator_set_to_height_def comp_def)

abbreviation queue_order :: "validator_set_change \<Rightarrow> nat \<times> hash" where
  "queue_order c \<equiv> (effective_height (vsc_kind c), change_id c)"

lemma admission_result:
  assumes "pending_changes_from_trie D w = Inr pending"
    and "validator_set_change_history_from_trie D w = Inr hist"
    and "change_id_is_consistent B canon c" "\<forall>x \<in> set pending. change_id x \<noteq> change_id c"
    and "\<forall>x \<in> set hist. change_id x \<noteq> change_id c"
  shows "apply_validator_set_change_admission D B canon w c =
    (Inr (), commit_history D (commit_pending_changes D w (sort_key queue_order (pending @ [c]))) (hist @ [c]))"
proof -
  have h: "validator_set_change_history_from_trie D
      (commit_pending_changes D w (sort_key queue_order (pending @ [c]))) = Inr hist"
    using assms(2) by (simp add: vs_state_defs apply_delta_single)
  have "\<not> (\<exists>x \<in> set pending. change_id x = change_id c)" "\<not> (\<exists>x \<in> set hist. change_id x = change_id c)"
    using assms(4,5) by auto
  then show ?thesis
    unfolding apply_validator_set_change_admission_def append_admission_to_history_def Let_def h
    using assms(1,3) by (simp only: h sum.case if_False not_True_eq_False)
qed

section \<open>Properties\<close>

text \<open>
  C25. A validator-set change implements its specification. On a canonical set a change succeeds
  exactly when it names a fitting agent and key; it then acts on the map from agents to records
  as its variant says (insert, close the activity window before the effective height, replace
  power, replace key), touches no other agent, and the rebuilt set is again sorted by agent with
  distinct agents and distinct signing keys.
\<close>

theorem validator_change_refines:
  assumes "canonical_set s"
  shows "((\<exists>s'. apply_kind_to_set s k = Inr s') \<longleftrightarrow> change_applies k s) \<and>
    (\<forall>s'. apply_kind_to_set s k = Inr s' \<longrightarrow>
       canonical_set s' \<and> members s' = change_spec k (members s))"
  using apply_kind_total [OF assms] apply_kind_canonical apply_kind_members by blast

definition sample_validator :: "hash \<Rightarrow> hash \<Rightarrow> nat \<Rightarrow> validator_record" where
  "sample_validator a v p =
     \<lparr>vr_agent_id = a, vr_validator_id = v, vr_mfidel_seal = \<lparr>row = 1, column = 1\<rparr>,
      voting_power = p, active_from = 0, active_until = None\<rparr>"

definition sample_set :: validator_set_t where
  "sample_set = \<lparr>vs_records = [sample_validator 1 10 5, sample_validator 2 20 5]\<rparr>"

lemma canonical_sample_set: "canonical_set sample_set"
  by (simp add: canonical_set_def sample_set_def sample_validator_def)

theorem validator_change_refines_witness:
  "\<exists>s'. apply_kind_to_set sample_set (RotateKey 2 20 30 9) = Inr s' \<and>
     members s' 2 = Some (sample_validator 2 30 5) \<and> members s' 1 = members sample_set 1"
proof -
  note f = validator_change_refines [OF canonical_sample_set, of "RotateKey 2 20 30 9"]
  have "change_applies (RotateKey 2 20 30 9) sample_set"
    by (simp add: sample_set_def members_def sample_validator_def)
  with f obtain s' where s': "apply_kind_to_set sample_set (RotateKey 2 20 30 9) = Inr s'" by blast
  with f have "members s' = change_spec (RotateKey 2 20 30 9) (members sample_set)" by blast
  with s' show ?thesis by (simp add: members_def sample_set_def sample_validator_def)
qed

text \<open>
  C26. The activation sweep applies exactly the due changes. When the sweep at a height succeeds it
  returns the queued changes effective at that height; the stored set is then canonical and is
  the old one with those changes applied in queue order, and the queue keeps every other change
  in order. When it fails the world is unchanged.
\<close>

theorem activation_sweep:
  assumes "keys_fit (entry_cap w)"
    and "pending_changes_from_trie D w = Inr pending" "pending \<noteq> []"
    and "validator_set_from_trie D w = Inr (Some s)" "canonical_set s"
    and "\<forall>s'. apply_changes s (due h pending) = Inr s' \<longrightarrow> set_storable D (entry_cap w) s'"
    and "changes_storable D (entry_cap w) (later h pending)"
  shows "case advance_validator_set_to_height D w h of
     (Inl e, w') \<Rightarrow> w' = w
   | (Inr applied, w') \<Rightarrow> applied = due h pending \<and>
       pending_changes_from_trie D w' = Inr (later h pending) \<and>
       (\<exists>s'. validator_set_from_trie D w' = Inr (Some s') \<and> canonical_set s' \<and>
          members s' = fold (\<lambda>c. change_spec (vsc_kind c)) (due h pending) (members s))"
proof (cases "apply_changes s (due h pending)")
  case (Inl e)
  then show ?thesis using advance_nonempty [OF assms(2-4), of h] by simp
next
  case (Inr s')
  then have "set_storable D (entry_cap w) s'" using assms(6) by blast
  then show ?thesis
    using advance_nonempty [OF assms(2-4), of h] Inr apply_changes_spec [OF Inr] assms(5,7)
      keys_fitD [OF assms(1)]
    by (simp add: vs_state_defs apply_delta_single set_storable_def changes_storable_def)
qed

definition sample_change :: "validator_set_change_kind \<Rightarrow> validator_set_change" where
  "sample_change k = \<lparr>change_id = 77, vsc_kind = k, proposed_at = 3, quorum_signatures = []\<rparr>"

abbreviation sample_power_change :: validator_set_change where
  "sample_power_change \<equiv> sample_change (RotatePower 2 8 9)"

definition sample_set_after :: validator_set_t where
  "sample_set_after = \<lparr>vs_records = [sample_validator 1 10 5, sample_validator 2 20 8]\<rparr>"

definition sample_codec :: vs_codec where
  "sample_codec =
     \<lparr>enc_set = (\<lambda>s. if s = sample_set then ''a'' else ''b''),
      dec_set = (\<lambda>b. if b = ''a'' then Some sample_set else Some sample_set_after),
      enc_changes = (\<lambda>cs. if cs = [] then [] else ''c''),
      dec_changes = (\<lambda>b. if b = [] then Some [] else Some [sample_power_change])\<rparr>"

definition sample_queue_world :: managed_world_state where
  "sample_queue_world =
     commit_pending_changes sample_codec (commit_validator_set sample_codec world_new sample_set)
       [sample_power_change]"

lemma entry_cap_world_new [simp]: "entry_cap world_new = 1048576"
  by (simp add: world_new_def consensus_params_default_def)

lemma sample_queue_facts:
  "keys_fit (entry_cap sample_queue_world)" "entry_cap sample_queue_world = 1048576"
  "pending_changes_from_trie sample_codec sample_queue_world = Inr [sample_power_change]"
  "validator_set_from_trie sample_codec sample_queue_world = Inr (Some sample_set)"
  using keys_fitD [of 1048576]
  by (simp_all add: sample_queue_world_def vs_state_defs keys_fit_def apply_delta_single sample_codec_def)

lemma sample_apply: "apply_changes sample_set [sample_power_change] = Inr sample_set_after"
  by (simp add: sample_change_def apply_kind_to_set_def sample_set_def sample_set_after_def
      sample_validator_def validator_set_new_def)

theorem activation_sweep_witness:
  "\<exists>w'. advance_validator_set_to_height sample_codec sample_queue_world 9 = (Inr [sample_power_change], w') \<and>
     pending_changes_from_trie sample_codec w' = Inr [] \<and>
     validator_set_from_trie sample_codec w' = Inr (Some sample_set_after)"
proof -
  have d: "due 9 [sample_power_change] = [sample_power_change]" "later 9 [sample_power_change] = []"
    by (simp_all add: sample_change_def)
  have n: "sample_set_after \<noteq> sample_set"
    by (simp add: sample_set_after_def sample_set_def sample_validator_def)
  have "case advance_validator_set_to_height sample_codec sample_queue_world 9 of
     (Inl e, w') \<Rightarrow> w' = sample_queue_world
   | (Inr applied, w') \<Rightarrow> applied = due 9 [sample_power_change] \<and>
       pending_changes_from_trie sample_codec w' = Inr (later 9 [sample_power_change]) \<and>
       (\<exists>s'. validator_set_from_trie sample_codec w' = Inr (Some s') \<and> canonical_set s' \<and>
          members s' = fold (\<lambda>c. change_spec (vsc_kind c)) (due 9 [sample_power_change]) (members sample_set))"
  proof (rule activation_sweep [OF sample_queue_facts(1,3) _ sample_queue_facts(4) canonical_sample_set])
    show "\<forall>s'. apply_changes sample_set (due 9 [sample_power_change]) = Inr s' \<longrightarrow>
        set_storable sample_codec (entry_cap sample_queue_world) s'"
      unfolding d sample_apply using n
      by (simp add: set_storable_def sample_queue_facts(2) sample_codec_def)
    show "changes_storable sample_codec (entry_cap sample_queue_world) (later 9 [sample_power_change])"
      unfolding d by (simp add: changes_storable_def sample_queue_facts(2) sample_codec_def)
  qed simp
  then show ?thesis
    using advance_nonempty [OF sample_queue_facts(3) _ sample_queue_facts(4), of 9] n
      keys_fitD [OF sample_queue_facts(1)]
    unfolding d sample_apply
    by (simp add: vs_state_defs apply_delta_single sample_queue_facts(2) sample_codec_def)
qed

text \<open>
  An admitted change is queued and recorded. Admission accepts exactly the changes whose
  identifier matches their content and is not queued yet; the change is then in the queue, which
  stays sorted by effective height and identifier and loses nothing, and it is in the permanent
  history, which only grows. The stored validator set is not touched.
\<close>

theorem admission_recorded:
  assumes "pending_changes_from_trie D w = Inr pending"
    and "validator_set_change_history_from_trie D w = Inr hist"
    and "change_id_is_consistent B canon c" "\<forall>x \<in> set pending. change_id x \<noteq> change_id c"
    and "\<forall>x \<in> set hist. change_id x \<noteq> change_id c"
    and "keys_fit (entry_cap w)"
    and "changes_storable D (entry_cap w) (sort_key queue_order (pending @ [c]))"
    and "changes_storable D (entry_cap w) (hist @ [c])"
  shows "\<exists>w' pending'. apply_validator_set_change_admission D B canon w c = (Inr (), w') \<and>
    pending_changes_from_trie D w' = Inr pending' \<and> mset pending' = add_mset c (mset pending) \<and>
    sorted (map queue_order pending') \<and>
    validator_set_change_history_from_trie D w' = Inr (hist @ [c]) \<and>
    validator_set_from_trie D w' = validator_set_from_trie D w"
proof -
  let ?p = "sort_key queue_order (pending @ [c])"
  let ?w = "commit_history D (commit_pending_changes D w ?p) (hist @ [c])"
  have st: "length (enc_changes D ?p) \<le> entry_cap w" "dec_changes D (enc_changes D ?p) = Some ?p"
    "length (enc_changes D (hist @ [c])) \<le> entry_cap w"
    "dec_changes D (enc_changes D (hist @ [c])) = Some (hist @ [c])"
    using assms(7,8) by (simp_all add: changes_storable_def)
  then have "pending_changes_from_trie D ?w = Inr ?p"
    "validator_set_change_history_from_trie D ?w = Inr (hist @ [c])"
    "validator_set_from_trie D ?w = validator_set_from_trie D w"
    using keys_fitD [OF assms(6)] by (simp_all add: vs_state_defs apply_delta_single)
  with admission_result [OF assms(1-5)] show ?thesis
    by (intro exI [of _ ?w] exI [of _ ?p]) simp
qed

lemma world_new_queues:
  "pending_changes_from_trie D world_new = Inr []"
  "validator_set_change_history_from_trie D world_new = Inr []"
  by (simp_all add: vs_state_defs world_new_def world_get_def trie_get_def trie_new_def)

theorem admission_recorded_witness:
  "\<exists>w'. apply_validator_set_change_admission sample_codec (\<lambda>_. 77) (\<lambda>_. []) world_new
      sample_power_change = (Inr (), w') \<and>
     validator_set_change_history_from_trie sample_codec w' = Inr [sample_power_change]"
proof -
  have "\<exists>w' pending'. apply_validator_set_change_admission sample_codec (\<lambda>_. 77) (\<lambda>_. []) world_new
      sample_power_change = (Inr (), w') \<and>
    pending_changes_from_trie sample_codec w' = Inr pending' \<and>
    mset pending' = add_mset sample_power_change (mset []) \<and> sorted (map queue_order pending') \<and>
    validator_set_change_history_from_trie sample_codec w' = Inr ([] @ [sample_power_change]) \<and>
    validator_set_from_trie sample_codec w' = validator_set_from_trie sample_codec world_new"
    by (rule admission_recorded [OF world_new_queues])
      (simp_all add: keys_fit_def changes_storable_def sample_codec_def sample_change_def
        change_id_is_consistent_def compute_change_id_def)
  then show ?thesis by auto
qed

text \<open>
  The permanent history is kept in one trie entry, and writes over the entry limit are dropped
  without an error: once the encoded history with the new change exceeds the limit, admission
  still reports success and queues the change, but the history stays as it was.
\<close>

theorem oversized_history_drops_change:
  assumes "pending_changes_from_trie D w = Inr pending"
    and "validator_set_change_history_from_trie D w = Inr hist"
    and "change_id_is_consistent B canon c" "\<forall>x \<in> set pending. change_id x \<noteq> change_id c"
    and "\<forall>x \<in> set hist. change_id x \<noteq> change_id c"
    and "keys_fit (entry_cap w)"
    and "changes_storable D (entry_cap w) (sort_key queue_order (pending @ [c]))"
    and "entry_cap w < length (enc_changes D (hist @ [c]))"
  shows "\<exists>w'. apply_validator_set_change_admission D B canon w c = (Inr (), w') \<and>
    pending_changes_from_trie D w' = Inr (sort_key queue_order (pending @ [c])) \<and>
    validator_set_change_history_from_trie D w' = Inr hist"
proof -
  let ?p = "sort_key queue_order (pending @ [c])"
  let ?w = "commit_history D (commit_pending_changes D w ?p) (hist @ [c])"
  have "length (enc_changes D ?p) \<le> entry_cap w" "dec_changes D (enc_changes D ?p) = Some ?p"
    using assms(7) by (simp_all add: changes_storable_def)
  then have "pending_changes_from_trie D ?w = Inr ?p"
    "validator_set_change_history_from_trie D ?w = validator_set_change_history_from_trie D w"
    using keys_fitD [OF assms(6)] assms(8) by (simp_all add: vs_state_defs apply_delta_single)
  with admission_result [OF assms(1-5)] assms(2) show ?thesis by auto
qed

abbreviation sample_next_change :: validator_set_change where
  "sample_next_change \<equiv> sample_power_change\<lparr>change_id := 78\<rparr>"

definition tight_codec :: vs_codec where
  "tight_codec = sample_codec\<lparr>
     enc_changes := (\<lambda>cs. if cs = [sample_power_change] then ''x''
       else if cs = [sample_next_change] then ''y'' else replicate 40 CHR ''z''),
     dec_changes := (\<lambda>b. if b = ''x'' then Some [sample_power_change] else Some [sample_next_change])\<rparr>"

definition tight_world :: managed_world_state where
  "tight_world = commit_history tight_codec
     (with_consensus_params (consensus_params_default\<lparr>max_state_entry_size := 36\<rparr>)) [sample_power_change]"

lemma empty_world:
  "world_get (with_consensus_params p) k = None"
  "entry_cap (with_consensus_params p) = max_state_entry_size p"
  by (simp_all add: with_consensus_params_def world_get_def trie_get_def trie_new_def)

lemma tight_world_facts:
  "entry_cap tight_world = 36"
  "pending_changes_from_trie tight_codec tight_world = Inr []"
  "validator_set_change_history_from_trie tight_codec tight_world = Inr [sample_power_change]"
  using keys_fitD [of 36]
  by (simp_all add: tight_world_def vs_state_defs keys_fit_def apply_delta_single empty_world tight_codec_def)

theorem oversized_history_witness:
  "\<exists>w'. apply_validator_set_change_admission tight_codec (\<lambda>_. 78) (\<lambda>_. []) tight_world
      sample_next_change = (Inr (), w') \<and>
     validator_set_change_history_from_trie tight_codec w' = Inr [sample_power_change]"
proof -
  have "\<exists>w'. apply_validator_set_change_admission tight_codec (\<lambda>_. 78) (\<lambda>_. []) tight_world
      sample_next_change = (Inr (), w') \<and>
     pending_changes_from_trie tight_codec w' = Inr (sort_key queue_order ([] @ [sample_next_change])) \<and>
     validator_set_change_history_from_trie tight_codec w' = Inr [sample_power_change]"
    by (rule oversized_history_drops_change [OF tight_world_facts(2,3)])
      (simp_all add: keys_fit_def changes_storable_def tight_codec_def sample_change_def
        tight_world_facts(1) change_id_is_consistent_def compute_change_id_def)
  then show ?thesis by blast
qed

end
