(* ===== verification/Scc_Admission.thy ===== *)
theory Scc_Admission
  imports Scc_Validator_Set
begin

text \<open>
  Admission of validator-set events: the quorum check of \<open>execution/validator_set.rs\<close>, the
  synthesis of slashing removals from double votes (\<open>consensus/equivocation.rs\<close>), the pairing of
  evidence and removals (\<open>execution/evidence_admission.rs\<close>), the forgery veto
  (\<open>types/forgery_veto.rs\<close>, \<open>execution/forgery_veto.rs\<close>), the submission checks of
  \<open>governance/patch_04.rs\<close> and the gate of the Feedback phase (\<open>execution/phi.rs\<close>) that composes
  them. Ed25519 verification (strict and ordinary), the canonical encodings and BLAKE3 are
  parameters.
\<close>

section \<open>Quorum admission\<close>

definition u128_nat_saturating_add :: "nat \<Rightarrow> nat \<Rightarrow> nat" where
  "u128_nat_saturating_add a b = min (a + b) (2 ^ 128 - 1)"

definition activation_delay :: "nat \<Rightarrow> nat" where
  "activation_delay k =
     (let lower = 2; raw = u64_saturating_add k 1; upper = u64_saturating_add k 8
      in if raw < lower then lower else if upper < raw then upper else raw)"

datatype validator_set_change_rejection =
    ActivationTooSoon nat nat nat nat
  | VscChangeIdMismatch
  | DuplicateSigner
  | SignerNotInActiveSet hash
  | VscSignatureInvalid hash
  | QuorumNotReached nat nat

text \<open>\<open>Valid\<close> and \<open>Invalid\<close> outcomes are the two sides of a sum.\<close>

fun tally_signers ::
  "sig_verify \<Rightarrow> bytes \<Rightarrow> validator_set_t \<Rightarrow> nat \<Rightarrow> nat \<Rightarrow> (hash \<times> bytes) list \<Rightarrow>
   validator_set_change_rejection + nat" where
  "tally_signers verify msg s h pow [] = Inr pow"
| "tally_signers verify msg s h pow ((pk, sig) # rest) =
     (case find_active_by_validator_id s pk h of
        None \<Rightarrow> Inl (SignerNotInActiveSet pk)
      | Some r \<Rightarrow>
          if \<not> verify pk msg sig then Inl (VscSignatureInvalid pk)
          else tally_signers verify msg s h (u128_nat_saturating_add pow (voting_power r)) rest)"

definition validate_validator_set_change ::
  "sig_verify \<Rightarrow> (bytes \<Rightarrow> hash) \<Rightarrow> change_canon \<Rightarrow> validator_set_change \<Rightarrow> validator_set_t \<Rightarrow> nat \<Rightarrow> nat \<Rightarrow>
   validator_set_change_rejection + unit" where
  "validate_validator_set_change verify B canon c s h_admit depth =
     (let effective = effective_height (vsc_kind c);
          delay = activation_delay depth;
          raw_lower = u64_saturating_add h_admit delay
      in if effective < raw_lower then Inl (ActivationTooSoon effective h_admit delay raw_lower)
         else if \<not> change_id_is_consistent B canon c then Inl VscChangeIdMismatch
         else case first_repeat (sort (map fst (quorum_signatures c))) of
                Some v \<Rightarrow> Inl DuplicateSigner
              | None \<Rightarrow>
                  bind_result
                    (tally_signers verify (canon (vsc_kind c, proposed_at c)) s h_admit 0 (quorum_signatures c))
                    (\<lambda>pow. if pow < quorum_power_at s h_admit
                             then Inl (QuorumNotReached pow (quorum_power_at s h_admit))
                             else Inr ()))"

fun validate_all_validator_set_changes ::
  "sig_verify \<Rightarrow> (bytes \<Rightarrow> hash) \<Rightarrow> change_canon \<Rightarrow> validator_set_change list \<Rightarrow> validator_set_t \<Rightarrow> nat \<Rightarrow> nat \<Rightarrow>
   validator_set_change_rejection + unit" where
  "validate_all_validator_set_changes verify B canon [] s h k = Inr ()"
| "validate_all_validator_set_changes verify B canon (c # cs) s h k =
     bind_result (validate_validator_set_change verify B canon c s h k)
       (\<lambda>_. validate_all_validator_set_changes verify B canon cs s h k)"

section \<open>Submission checks\<close>

datatype vsc_submission_rejection =
    InsufficientPrecedence precedence_level precedence_level string
  | SubmissionChangeIdMismatch

fun required_precedence_for_change :: "validator_set_change_kind \<Rightarrow> precedence_level" where
  "required_precedence_for_change (AddValidator r) = Safety"
| "required_precedence_for_change (RemoveValidator a reason h) = Safety"
| "required_precedence_for_change (RotatePower a p h) = Meaning"
| "required_precedence_for_change (RotateKey a old new h) = Meaning"

fun change_kind_name :: "validator_set_change_kind \<Rightarrow> string" where
  "change_kind_name (AddValidator r) = ''Add''"
| "change_kind_name (RemoveValidator a reason h) = ''Remove''"
| "change_kind_name (RotatePower a p h) = ''RotatePower''"
| "change_kind_name (RotateKey a old new h) = ''RotateKey''"

definition validate_validator_set_change_submission ::
  "(bytes \<Rightarrow> hash) \<Rightarrow> change_canon \<Rightarrow> validator_set_change \<Rightarrow> precedence_level \<Rightarrow>
   vsc_submission_rejection + unit" where
  "validate_validator_set_change_submission B canon c submitter_level =
     (if \<not> change_id_is_consistent B canon c then Inl SubmissionChangeIdMismatch
      else
        let required = required_precedence_for_change (vsc_kind c)
        in if precedence_rank submitter_level > precedence_rank required
           then Inl (InsufficientPrecedence submitter_level required (change_kind_name (vsc_kind c)))
           else Inr ())"

section \<open>Slashing evidence\<close>

datatype equivocation_vote_type = EvPrevote | EvPrecommit

fun equivocation_vote_code :: "equivocation_vote_type \<Rightarrow> nat" where
  "equivocation_vote_code EvPrevote = 0"
| "equivocation_vote_code EvPrecommit = 1"

record equivocation_vote =
  ev_validator_id :: hash
  ev_block_hash :: hash
  ev_height :: nat
  ev_round :: nat
  ev_vote_type :: equivocation_vote_type
  ev_signature :: bytes

record vote_equivocation =
  vote_a :: equivocation_vote
  vote_b :: equivocation_vote

definition vote_equivocation_new :: "equivocation_vote \<Rightarrow> equivocation_vote \<Rightarrow> vote_equivocation" where
  "vote_equivocation_new v1 v2 =
     (if ev_signature v1 \<le> ev_signature v2 then \<lparr>vote_a = v1, vote_b = v2\<rparr>
      else \<lparr>vote_a = v2, vote_b = v1\<rparr>)"

definition is_structurally_equivocation :: "vote_equivocation \<Rightarrow> bool" where
  "is_structurally_equivocation e \<longleftrightarrow>
     ev_validator_id (vote_a e) = ev_validator_id (vote_b e) \<and>
     ev_height (vote_a e) = ev_height (vote_b e) \<and>
     ev_round (vote_a e) = ev_round (vote_b e) \<and>
     ev_vote_type (vote_a e) = ev_vote_type (vote_b e) \<and>
     ev_block_hash (vote_a e) \<noteq> ev_block_hash (vote_b e) \<and>
     ev_signature (vote_a e) \<noteq> ev_signature (vote_b e)"

datatype equivocation_synthesis =
    Synthesized validator_set_change
  | NotStructuralEquivocation
  | SynthesisSignatureInvalid
  | SynthesisSignerNotInActiveSet

text \<open>The canonical encoding of \<open>(validator_id, block_hash, height, round, type)\<close>.\<close>

type_synonym ev_canon = "hash \<times> hash \<times> nat \<times> nat \<times> nat \<Rightarrow> bytes"

definition vote_canonical_bytes :: "ev_canon \<Rightarrow> equivocation_vote \<Rightarrow> bytes" where
  "vote_canonical_bytes evc v =
     evc (ev_validator_id v, ev_block_hash v, ev_height v, ev_round v,
          equivocation_vote_code (ev_vote_type v))"

definition synthesize_equivocation_removal ::
  "sig_verify \<Rightarrow> (bytes \<Rightarrow> hash) \<Rightarrow> change_canon \<Rightarrow> ev_canon \<Rightarrow> vote_equivocation \<Rightarrow> validator_set_t \<Rightarrow>
   nat \<Rightarrow> nat \<Rightarrow> equivocation_synthesis" where
  "synthesize_equivocation_removal verify B canon evc e s h_admit delay =
     (if \<not> is_structurally_equivocation e then NotStructuralEquivocation
      else
        let ok = (\<lambda>v. verify (ev_validator_id v) (vote_canonical_bytes evc v) (ev_signature v))
        in if \<not> ok (vote_a e) \<or> \<not> ok (vote_b e) then SynthesisSignatureInvalid
           else case find_active_by_validator_id s (ev_validator_id (vote_a e)) h_admit of
                  None \<Rightarrow> SynthesisSignerNotInActiveSet
                | Some r \<Rightarrow>
                    let kind = RemoveValidator (vr_agent_id r) Equivocation (u64_saturating_add h_admit delay)
                    in Synthesized \<lparr>change_id = compute_change_id B canon kind h_admit, vsc_kind = kind,
                         proposed_at = h_admit, quorum_signatures = []\<rparr>)"

section \<open>Pairing evidence with removals\<close>

datatype evidence_admission_rejection =
    EvidenceSourcedHasQuorumSigs nat
  | OrphanEvidenceSourcedRemove nat
  | EvidenceMissingSyntheticRemove nat
  | SynthesisFailed nat string

fun synthesize_all ::
  "(vote_equivocation \<Rightarrow> equivocation_synthesis) \<Rightarrow> nat \<Rightarrow> vote_equivocation list \<Rightarrow>
   evidence_admission_rejection + (nat \<times> validator_set_change) list" where
  "synthesize_all synth i [] = Inr []"
| "synthesize_all synth i (e # es) =
     (case synth e of
        Synthesized c \<Rightarrow> bind_result (synthesize_all synth (Suc i) es) (\<lambda>rest. Inr ((i, c) # rest))
      | NotStructuralEquivocation \<Rightarrow> Inl (SynthesisFailed i ''not structurally an equivocation'')
      | SynthesisSignatureInvalid \<Rightarrow> Inl (SynthesisFailed i ''vote signature fails verify_strict'')
      | SynthesisSignerNotInActiveSet \<Rightarrow>
          Inl (SynthesisFailed i ''signing validator not in active_set(H_admit)''))"

fun is_remove :: "validator_set_change_kind \<Rightarrow> bool" where
  "is_remove (RemoveValidator a reason h) = True"
| "is_remove _ = False"

abbreviation unsigned_remove :: "validator_set_change \<Rightarrow> bool" where
  "unsigned_remove c \<equiv> quorum_signatures c = [] \<and> is_remove (vsc_kind c)"

definition validate_evidence_admission ::
  "sig_verify \<Rightarrow> (bytes \<Rightarrow> hash) \<Rightarrow> change_canon \<Rightarrow> ev_canon \<Rightarrow> validator_set_change list \<Rightarrow>
   vote_equivocation list \<Rightarrow> validator_set_t \<Rightarrow> nat \<Rightarrow> nat \<Rightarrow> evidence_admission_rejection + unit" where
  "validate_evidence_admission verify B canon evc changes evs s h_admit delay =
     bind_result
       (synthesize_all (\<lambda>e. synthesize_equivocation_removal verify B canon evc e s h_admit delay) 0 evs)
       (\<lambda>expected.
          let evidence_sourced = filter (\<lambda>(i, c). unsigned_remove c) (enumerate 0 changes);
              orphan = find (\<lambda>(i, c). find (\<lambda>(j, x). change_id x = change_id c) expected = None) evidence_sourced;
              missing = find (\<lambda>(j, x). \<not> (\<exists>c \<in> set changes. change_id c = change_id x \<and> unsigned_remove c)) expected;
              smuggled = find (\<lambda>(i, c). quorum_signatures c \<noteq> [] \<and>
                (\<exists>x \<in> snd ` set expected. change_id x = change_id c)) (enumerate 0 changes)
          in case orphan of
               Some (i, c) \<Rightarrow> Inl (OrphanEvidenceSourcedRemove i)
             | None \<Rightarrow>
                 (case missing of
                    Some (j, x) \<Rightarrow> Inl (EvidenceMissingSyntheticRemove j)
                  | None \<Rightarrow>
                      (case smuggled of
                         Some (i, c) \<Rightarrow> Inl (EvidenceSourcedHasQuorumSigs i)
                       | None \<Rightarrow> Inr ())))"

section \<open>The gate of the Feedback phase\<close>

datatype validator_event_rejection =
    ValidatorSetMissing
  | ValidatorSetUnreadable string
  | TooManyChanges nat nat
  | TooMuchEvidence nat nat
  | EvidenceRejected evidence_admission_rejection
  | ChangeRejected validator_set_change_rejection

definition check_validator_events ::
  "vs_codec \<Rightarrow> sig_verify \<Rightarrow> (bytes \<Rightarrow> hash) \<Rightarrow> change_canon \<Rightarrow> ev_canon \<Rightarrow> managed_world_state \<Rightarrow> nat \<Rightarrow>
   validator_set_change list option \<Rightarrow> vote_equivocation list option \<Rightarrow> validator_event_rejection + unit" where
  "check_validator_events D verify B canon evc w h changes_opt evidence_opt =
     (let changes = (case changes_opt of Some cs \<Rightarrow> cs | None \<Rightarrow> []);
          evs = (case evidence_opt of Some es \<Rightarrow> es | None \<Rightarrow> [])
      in if changes = [] \<and> evs = [] then Inr ()
         else case validator_set_from_trie D w of
                Inl e \<Rightarrow> Inl (ValidatorSetUnreadable e)
              | Inr None \<Rightarrow> Inl ValidatorSetMissing
              | Inr (Some s) \<Rightarrow>
                  let max_changes = max_validator_set_changes_per_block_param (consensus_params w);
                      max_evidence = max_equivocation_evidence_per_block_param (consensus_params w);
                      depth = confirmation_depth (consensus_params w)
                  in if length changes > max_changes then Inl (TooManyChanges (length changes) max_changes)
                     else if length evs > max_evidence
                     then Inl (TooMuchEvidence (length evs) max_evidence)
                     else case validate_evidence_admission verify B canon evc changes evs s h
                                 (activation_delay depth) of
                            Inl rej \<Rightarrow> Inl (EvidenceRejected rej)
                          | Inr _ \<Rightarrow>
                              (case validate_all_validator_set_changes verify B canon
                                      (filter (\<lambda>c. quorum_signatures c \<noteq> []) changes) s h depth of
                                 Inl rej \<Rightarrow> Inl (ChangeRejected rej)
                               | Inr _ \<Rightarrow> Inr ()))"

text \<open>The second gate, check 12 of the block validation of \<open>execution/cpog.rs\<close>.\<close>

definition check_validator_set_capture ::
  "vs_codec \<Rightarrow> sig_verify \<Rightarrow> (bytes \<Rightarrow> hash) \<Rightarrow> change_canon \<Rightarrow> managed_world_state \<Rightarrow> nat \<Rightarrow>
   validator_set_change list option \<Rightarrow> validator_event_rejection + unit" where
  "check_validator_set_capture D verify B canon w h changes_opt =
     (case changes_opt of
        None \<Rightarrow> Inr ()
      | Some changes \<Rightarrow>
          if changes = [] then Inr ()
          else case validator_set_from_trie D w of
                 Inl e \<Rightarrow> Inl (ValidatorSetUnreadable e)
               | Inr None \<Rightarrow> Inl ValidatorSetMissing
               | Inr (Some s) \<Rightarrow>
                   (case validate_all_validator_set_changes verify B canon
                           (filter (\<lambda>c. quorum_signatures c \<noteq> []) changes) s h
                           (confirmation_depth (consensus_params w)) of
                      Inl rej \<Rightarrow> Inl (ChangeRejected rej)
                    | Inr _ \<Rightarrow> Inr ()))"

section \<open>Forgery vetoes\<close>

record owned_forgery_proof =
  fp_canonical_bytes :: bytes
  fp_public_key :: hash
  fp_signature_a :: bytes
  fp_signature_b :: bytes

datatype forgery_check_error =
    SignaturesIdentical | SignatureANotValid | SignatureBNotValid | BothPassStrictVerify

definition check_forgery_proof ::
  "sig_verify \<Rightarrow> sig_verify \<Rightarrow> owned_forgery_proof \<Rightarrow> forgery_check_error + unit" where
  "check_forgery_proof verify strict p =
     (if fp_signature_a p = fp_signature_b p then Inl SignaturesIdentical
      else if \<not> verify (fp_public_key p) (fp_canonical_bytes p) (fp_signature_a p) then Inl SignatureANotValid
      else if \<not> verify (fp_public_key p) (fp_canonical_bytes p) (fp_signature_b p) then Inl SignatureBNotValid
      else if strict (fp_public_key p) (fp_canonical_bytes p) (fp_signature_a p) \<and>
              strict (fp_public_key p) (fp_canonical_bytes p) (fp_signature_b p) then Inl BothPassStrictVerify
      else Inr ())"

record veto_attestation =
  va_signer :: hash
  va_signature :: bytes

record forgery_veto =
  fv_proof :: owned_forgery_proof
  target_change_id :: hash
  submitted_at_height :: nat
  attestations :: "veto_attestation list"

type_synonym veto_canon = "owned_forgery_proof \<times> hash \<times> nat \<Rightarrow> bytes"

definition FORGERY_VETO_DOMAIN_SEPARATOR :: bytes where
  "FORGERY_VETO_DOMAIN_SEPARATOR = ''sccgub-forgery-veto-v5''"

definition canonical_veto_bytes :: "veto_canon \<Rightarrow> forgery_veto \<Rightarrow> bytes" where
  "canonical_veto_bytes vcan v = vcan (fv_proof v, target_change_id v, submitted_at_height v)"

definition veto_signing_bytes :: "veto_canon \<Rightarrow> forgery_veto \<Rightarrow> bytes" where
  "veto_signing_bytes vcan v = FORGERY_VETO_DOMAIN_SEPARATOR @ canonical_veto_bytes vcan v"

datatype forgery_veto_error = DuplicateAttester hash

definition canonicalize_attestations :: "forgery_veto \<Rightarrow> (forgery_veto_error + unit) \<times> forgery_veto" where
  "canonicalize_attestations v =
     (let as = sort_key va_signer (attestations v); v' = v\<lparr>attestations := as\<rparr>
      in case first_repeat (map va_signer as) of
           Some x \<Rightarrow> (Inl (DuplicateAttester x), v')
         | None \<Rightarrow> (Inr (), v'))"

datatype forgery_veto_rejection =
    TargetChangeNotFound hash
  | TargetChangeNotSynthetic
  | OutsideActivationWindow nat nat nat
  | ProofInvalid forgery_check_error
  | AttestationSignatureInvalid hash
  | AttesterNotInActiveSet hash nat
  | AttestationsNotCanonical
  | InsufficientAttestationPower nat nat nat

fun is_equivocation_removal :: "validator_set_change_kind \<Rightarrow> bool" where
  "is_equivocation_removal (RemoveValidator a Equivocation h) = True"
| "is_equivocation_removal _ = False"

text \<open>The check over \<open>windows(2)\<close> that signers strictly increase.\<close>

fun strictly_ascending :: "hash list \<Rightarrow> bool" where
  "strictly_ascending (x # y # zs) \<longleftrightarrow> x < y \<and> strictly_ascending (y # zs)"
| "strictly_ascending _ \<longleftrightarrow> True"

fun tally_attestations ::
  "sig_verify \<Rightarrow> bytes \<Rightarrow> validator_set_t \<Rightarrow> nat \<Rightarrow> nat \<Rightarrow> veto_attestation list \<Rightarrow>
   forgery_veto_rejection + nat" where
  "tally_attestations strict msg s h pow [] = Inr pow"
| "tally_attestations strict msg s h pow (a # rest) =
     (case find_active_by_validator_id s (va_signer a) h of
        None \<Rightarrow> Inl (AttesterNotInActiveSet (va_signer a) h)
      | Some r \<Rightarrow>
          if \<not> strict (va_signer a) msg (va_signature a) then Inl (AttestationSignatureInvalid (va_signer a))
          else tally_attestations strict msg s h (u128_nat_saturating_add pow (voting_power r)) rest)"

definition validate_forgery_veto_admission ::
  "sig_verify \<Rightarrow> sig_verify \<Rightarrow> veto_canon \<Rightarrow> forgery_veto \<Rightarrow> validator_set_change option \<Rightarrow> nat \<Rightarrow> nat \<Rightarrow>
   validator_set_t \<Rightarrow> forgery_veto_rejection + unit" where
  "validate_forgery_veto_admission verify strict vcan v target_change h_admit delay s =
     (case target_change of
        None \<Rightarrow> Inl (TargetChangeNotFound (target_change_id v))
      | Some t \<Rightarrow>
          if change_id t \<noteq> target_change_id v then Inl (TargetChangeNotFound (target_change_id v))
          else if \<not> (is_equivocation_removal (vsc_kind t) \<and> quorum_signatures t = [])
          then Inl TargetChangeNotSynthetic
          else
            let upper = u64_saturating_add h_admit delay
            in if submitted_at_height v < h_admit \<or> upper \<le> submitted_at_height v
               then Inl (OutsideActivationWindow (submitted_at_height v) h_admit upper)
               else case check_forgery_proof verify strict (fv_proof v) of
                      Inl e \<Rightarrow> Inl (ProofInvalid e)
                    | Inr _ \<Rightarrow>
                        if \<not> strictly_ascending (map va_signer (attestations v))
                        then Inl AttestationsNotCanonical
                        else bind_result
                          (tally_attestations strict (veto_signing_bytes vcan v) s (submitted_at_height v) 0
                             (attestations v))
                          (\<lambda>pow.
                             let total = total_power_at s (submitted_at_height v); threshold = total div 3 + 1
                             in if pow < threshold
                                then Inl (InsufficientAttestationPower pow threshold total)
                                else Inr ()))"

section \<open>Quorum lemmas\<close>

lemma find_active_key: "find_active_by_validator_id s v h = Some r \<Longrightarrow> v \<in> active_keys s h"
  unfolding active_keys_def by (metis find_active_Some image_eqI)

lemma tally_signers_Inr:
  assumes "tally_signers verify msg s h pow sigs = Inr p"
  shows "(\<forall>(pk, sig) \<in> set sigs. pk \<in> active_keys s h \<and> verify pk msg sig) \<and>
    p \<le> pow + sum_list (map (key_power s h \<circ> fst) sigs)"
  using assms
proof (induction sigs arbitrary: pow)
  case (Cons e sigs)
  obtain pk sig where e: "e = (pk, sig)" by fastforce
  with Cons.prems obtain r where r: "find_active_by_validator_id s pk h = Some r" "verify pk msg sig"
    "tally_signers verify msg s h (u128_nat_saturating_add pow (voting_power r)) sigs = Inr p"
    by (auto split: option.splits if_splits)
  have "pk \<in> active_keys s h" using r(1) by (rule find_active_key)
  moreover have "key_power s h pk = voting_power r" using r(1) by (simp add: key_power_def)
  moreover have "u128_nat_saturating_add pow (voting_power r) \<le> pow + voting_power r"
    by (simp add: u128_nat_saturating_add_def)
  ultimately show ?case using Cons.IH [OF r(3)] r(2) e by auto
qed simp

lemma finite_active_keys [simp]: "finite (active_keys s h)"
  by (simp add: active_keys_def)

lemma first_repeat_sort: "first_repeat (sort xs) = None \<longleftrightarrow> distinct xs"
  using first_repeat_None [of "sort xs"] by simp

lemma valid_change_facts:
  assumes "canonical_set s" "validate_validator_set_change verify B canon c s h k = Inr ()"
  shows "change_id_is_consistent B canon c"
    and "u64_saturating_add h (activation_delay k) \<le> effective_height (vsc_kind c)"
    and "\<forall>(pk, sig) \<in> set (quorum_signatures c).
           pk \<in> active_keys s h \<and> verify pk (canon (vsc_kind c, proposed_at c)) sig"
    and "weight_quorum (key_power s h) (active_keys s h) (fst ` set (quorum_signatures c))"
proof -
  let ?sigs = "quorum_signatures c" and ?msg = "canon (vsc_kind c, proposed_at c)"
  from assms(2) have a: "\<not> effective_height (vsc_kind c) < u64_saturating_add h (activation_delay k)"
    "change_id_is_consistent B canon c" "first_repeat (sort (map fst ?sigs)) = None"
    and "\<exists>p. tally_signers verify ?msg s h 0 ?sigs = Inr p \<and> quorum_power_at s h \<le> p"
    by (auto simp: validate_validator_set_change_def Let_def bind_result_Inr split: if_splits option.splits)
  then obtain p where p: "tally_signers verify ?msg s h 0 ?sigs = Inr p" "quorum_power_at s h \<le> p"
    by blast
  note t = tally_signers_Inr [OF p(1)]
  show "change_id_is_consistent B canon c" by fact
  show "u64_saturating_add h (activation_delay k) \<le> effective_height (vsc_kind c)" using a(1) by simp
  show "\<forall>(pk, sig) \<in> set ?sigs. pk \<in> active_keys s h \<and> verify pk ?msg sig" using t by blast
  have d: "distinct (map fst ?sigs)" using a(3) by (simp only: first_repeat_sort)
  have "sum_list (map (key_power s h) (map fst ?sigs)) = sum (key_power s h) (set (map fst ?sigs))"
    using d by (rule sum_list_distinct_conv_sum_set)
  then have "quorum_power_at s h \<le> sum (key_power s h) (fst ` set ?sigs)"
    using t p(2) by simp
  then have "2 * sum (key_power s h) (active_keys s h) div 3 + 1 \<le> sum (key_power s h) (fst ` set ?sigs)"
    unfolding quorum_power_at_def total_power_sum [OF assms(1)] by (simp add: mult.commute)
  moreover have "fst ` set ?sigs \<subseteq> active_keys s h" using t by auto
  ultimately show "weight_quorum (key_power s h) (active_keys s h) (fst ` set ?sigs)"
    by (simp add: weight_quorum_def)
qed

lemma synthesize_all_Inr:
  assumes "synthesize_all synth i es = Inr xs"
  shows "map synth es = map (Synthesized \<circ> snd) xs"
  using assms
  by (induction es arbitrary: i xs) (auto simp: bind_result_Inr split: equivocation_synthesis.splits)

lemma Synthesized_facts:
  assumes "synthesize_equivocation_removal verify B canon evc e s h d = Synthesized c"
  shows "is_structurally_equivocation e" "quorum_signatures c = []" "change_id_is_consistent B canon c"
    and "\<exists>r \<in> set (active_at s h). vr_validator_id r = ev_validator_id (vote_a e) \<and>
      vsc_kind c = RemoveValidator (vr_agent_id r) Equivocation (u64_saturating_add h d)"
    and "verify (ev_validator_id (vote_a e)) (vote_canonical_bytes evc (vote_a e)) (ev_signature (vote_a e))"
    and "verify (ev_validator_id (vote_b e)) (vote_canonical_bytes evc (vote_b e)) (ev_signature (vote_b e))"
  using assms
  by (auto simp: synthesize_equivocation_removal_def Let_def change_id_is_consistent_def
      split: if_splits option.splits dest: find_active_Some)

lemma evidence_admission_Inr:
  assumes "validate_evidence_admission verify B canon evc changes evs s h d = Inr ()"
  obtains xs :: "(nat \<times> validator_set_change) list" where
    "map (\<lambda>e. synthesize_equivocation_removal verify B canon evc e s h d) evs = map (Synthesized \<circ> snd) xs"
    "\<forall>c \<in> set changes. unsigned_remove c \<longrightarrow> (\<exists>x \<in> snd ` set xs. change_id x = change_id c)"
    "\<forall>x \<in> snd ` set xs. \<exists>c \<in> set changes. change_id c = change_id x \<and> unsigned_remove c"
proof -
  let ?synth = "\<lambda>e. synthesize_equivocation_removal verify B canon evc e s h d"
  from assms obtain xs where xs: "synthesize_all ?synth 0 evs = Inr xs"
    by (auto simp: validate_evidence_admission_def bind_result_Inr)
  let ?orphan = "find (\<lambda>(i, c). find (\<lambda>(j, x). change_id x = change_id c) xs = None)
      (filter (\<lambda>(i, c). unsigned_remove c) (enumerate 0 changes))"
  let ?missing = "find (\<lambda>(j, x). \<not> (\<exists>c \<in> set changes. change_id c = change_id x \<and> unsigned_remove c)) xs"
  from assms xs have none: "?orphan = None" "?missing = None"
    by (auto simp: validate_evidence_admission_def Let_def split: option.splits)
  have n: "\<forall>p \<in> set (enumerate 0 changes). unsigned_remove (snd p) \<longrightarrow>
      \<not> (find (\<lambda>(j, x). change_id x = change_id (snd p)) xs = None)"
    using none(1) by (auto simp: find_None_iff)
  have m: "\<exists>c \<in> set changes. change_id c = change_id (snd p) \<and> unsigned_remove c" if "p \<in> set xs" for p
    using none(2) that by (cases p) (fastforce simp: find_None_iff)
  have "c \<in> snd ` set (enumerate 0 changes)" if "c \<in> set changes" for c
    using that map_snd_enumerate [of 0 changes] by (metis set_map)
  with n have "\<forall>c \<in> set changes. unsigned_remove c \<longrightarrow> (\<exists>x \<in> snd ` set xs. change_id x = change_id c)"
    by (force simp: find_None_iff)
  with m synthesize_all_Inr [OF xs] show ?thesis by (intro that [of xs]) blast+
qed

text \<open>Agents are never dropped from the set, so a second addition of an agent cannot succeed.\<close>

lemma change_spec_dom: "m a \<noteq> None \<Longrightarrow> change_spec k m a \<noteq> None"
  by (cases k) auto

lemma apply_changes_add_present:
  assumes "members s (vr_agent_id r) \<noteq> None" "c \<in> set cs" "vsc_kind c = AddValidator r"
  shows "\<exists>e. apply_changes s cs = Inl e"
  using assms
proof (induction cs arbitrary: s)
  case (Cons x cs)
  show ?case
  proof (cases "apply_kind_to_set s (vsc_kind x)")
    case (Inr s')
    have "has_agent (vs_records s) (vr_agent_id r)"
      using Cons.prems(1) agent_map_None [of "vs_records s" "vr_agent_id r"] by (simp add: members_def)
    with Inr Cons.prems(3) have "x \<noteq> c" by (cases "x = c") (simp_all add: apply_kind_to_set_def)
    moreover have "members s' (vr_agent_id r) \<noteq> None"
      using apply_kind_members [OF Inr] Cons.prems(1) change_spec_dom by metis
    ultimately show ?thesis using Cons.IH [of s'] Cons.prems(2,3) Inr by auto
  qed simp
qed simp

lemma apply_changes_add_twice:
  assumes "c \<in> set cs" "c' \<in> set cs" "c \<noteq> c'"
    and "vsc_kind c = AddValidator r" "vsc_kind c' = AddValidator r'" "vr_agent_id r = vr_agent_id r'"
  shows "\<exists>e. apply_changes s cs = Inl e"
  using assms(1,2)
proof (induction cs arbitrary: s)
  case (Cons x cs)
  show ?case
  proof (cases "apply_kind_to_set s (vsc_kind x)")
    case (Inr s')
    have m: "members s' = change_spec (vsc_kind x) (members s)" using apply_kind_members [OF Inr] .
    consider "x = c" "c' \<in> set cs" | "x = c'" "c \<in> set cs" | "c \<in> set cs" "c' \<in> set cs"
      using Cons.prems assms(3) by auto
    then show ?thesis
    proof cases
      case 1
      then show ?thesis using apply_changes_add_present [of s' r' c' cs] m assms(4-6) Inr by auto
    next
      case 2
      then show ?thesis using apply_changes_add_present [of s' r c cs] m assms(4-6) Inr by auto
    next
      case 3
      then show ?thesis using Cons.IH [of s'] Inr by auto
    qed
  qed simp
qed simp

lemma tally_attestations_Inr:
  assumes "tally_attestations strict msg s h pow as = Inr p"
  shows "(\<forall>a \<in> set as. va_signer a \<in> active_keys s h \<and> strict (va_signer a) msg (va_signature a)) \<and>
    p \<le> pow + sum_list (map (key_power s h \<circ> va_signer) as)"
  using assms
proof (induction as arbitrary: pow)
  case (Cons a as)
  then obtain r where r: "find_active_by_validator_id s (va_signer a) h = Some r"
    "strict (va_signer a) msg (va_signature a)"
    "tally_attestations strict msg s h (u128_nat_saturating_add pow (voting_power r)) as = Inr p"
    by (auto split: option.splits if_splits)
  have "va_signer a \<in> active_keys s h" using r(1) by (rule find_active_key)
  moreover have "key_power s h (va_signer a) = voting_power r" using r(1) by (simp add: key_power_def)
  moreover have "u128_nat_saturating_add pow (voting_power r) \<le> pow + voting_power r"
    by (simp add: u128_nat_saturating_add_def)
  ultimately show ?case using Cons.IH [OF r(3)] r(2) by auto
qed simp

lemma strictly_ascending_distinct: "strictly_ascending xs \<Longrightarrow> distinct xs"
proof -
  have "strictly_ascending xs \<longleftrightarrow> sorted_wrt (<) xs"
    by (induction xs rule: strictly_ascending.induct) (auto dest: less_trans)
  then show "strictly_ascending xs \<Longrightarrow> distinct xs" by (simp add: strict_sorted_iff)
qed

section \<open>Properties\<close>

text \<open>
  C9. No capture by signature. A change admitted at a height carries, for distinct keys active at
  that height in the current set, strict signatures over its canonical payload whose voting power
  exceeds two thirds of the active power, its identifier is the hash of that payload, and it takes
  effect no earlier than the activation delay. Two changes admitted at the same height therefore
  share a signer outside any coalition holding at most a third of the power.
\<close>

theorem admitted_changes_share_honest_signer:
  assumes "canonical_set s"
    and "validate_validator_set_change verify B canon c s h k = Inr ()"
    and "validate_validator_set_change verify B canon c' s h k = Inr ()"
    and "weight_tolerable (key_power s h) (active_keys s h) F"
  shows "u64_saturating_add h (activation_delay k) \<le> effective_height (vsc_kind c) \<and>
    change_id c = B (canon (vsc_kind c, proposed_at c)) \<and>
    (\<exists>v sig sig'. v \<in> active_keys s h - F \<and>
       (v, sig) \<in> set (quorum_signatures c) \<and> verify v (canon (vsc_kind c, proposed_at c)) sig \<and>
       (v, sig') \<in> set (quorum_signatures c') \<and> verify v (canon (vsc_kind c', proposed_at c')) sig')"
proof -
  note f = valid_change_facts [OF assms(1,2)] and g = valid_change_facts [OF assms(1,3)]
  obtain v where "v \<in> fst ` set (quorum_signatures c) \<inter> fst ` set (quorum_signatures c') - F"
    using weight.quorum_intersect [OF f(4) g(4) assms(4)] by blast
  then obtain sig sig' where v: "v \<notin> F" "(v, sig) \<in> set (quorum_signatures c)"
    "(v, sig') \<in> set (quorum_signatures c')" by auto
  moreover have "v \<in> active_keys s h" "verify v (canon (vsc_kind c, proposed_at c)) sig"
    "verify v (canon (vsc_kind c', proposed_at c')) sig'"
    using v f(3) g(3) by blast+
  ultimately show ?thesis
    using f(1,2) unfolding change_id_is_consistent_def compute_change_id_def by blast
qed

definition signed_change :: validator_set_change where
  "signed_change = \<lparr>change_id = 77, vsc_kind = RotatePower 2 8 9, proposed_at = 3,
     quorum_signatures = [(10, ''s''), (20, ''t'')]\<rparr>"

lemma signed_change_valid:
  "validate_validator_set_change (\<lambda>_ _ _. True) (\<lambda>_. 77) (\<lambda>_. []) signed_change sample_set 5 2 = Inr ()"
  by (simp add: validate_validator_set_change_def signed_change_def sample_set_def sample_validator_def
      activation_delay_def u64_saturating_add_def U64_MAX_def change_id_is_consistent_def
      compute_change_id_def find_active_by_validator_id_def is_active_at_def quorum_power_at_def
      total_power_at_def u128_nat_saturating_add_def)

theorem admitted_changes_witness:
  "\<exists>v sig sig'. v \<in> active_keys sample_set 5 - {} \<and>
     (v, sig) \<in> set (quorum_signatures signed_change) \<and> (v, sig') \<in> set (quorum_signatures signed_change)"
proof -
  have t: "weight_tolerable (key_power sample_set 5) (active_keys sample_set 5) {}"
    by (simp add: weight_tolerable_def)
  show ?thesis
    using admitted_changes_share_honest_signer
      [OF canonical_sample_set signed_change_valid signed_change_valid t] by blast
qed

text \<open>
  C24. Slashing is live and grounded. When the evidence check of a block passes, every evidence
  record is a genuine double vote (same validator, height, round and type, different blocks, both
  signatures strict) by a validator active at that height, and the block carries an unsigned
  removal with the identifier synthesized for it; conversely every unsigned removal in the block
  bears the identifier synthesized from one of the block's evidence records.
\<close>

theorem slashing_live_and_grounded:
  assumes "validate_evidence_admission verify B canon evc changes evs s h d = Inr ()"
  shows "(\<forall>e \<in> set evs. is_structurally_equivocation e \<and>
        verify (ev_validator_id (vote_a e)) (vote_canonical_bytes evc (vote_a e)) (ev_signature (vote_a e)) \<and>
        verify (ev_validator_id (vote_b e)) (vote_canonical_bytes evc (vote_b e)) (ev_signature (vote_b e)) \<and>
        (\<exists>r \<in> set (active_at s h). \<exists>c \<in> set changes. vr_validator_id r = ev_validator_id (vote_a e) \<and>
           unsigned_remove c \<and>
           change_id c = B (canon (RemoveValidator (vr_agent_id r) Equivocation (u64_saturating_add h d), h)))) \<and>
    (\<forall>c \<in> set changes. unsigned_remove c \<longrightarrow>
       (\<exists>e \<in> set evs. \<exists>x. synthesize_equivocation_removal verify B canon evc e s h d = Synthesized x \<and>
          change_id x = change_id c))"
proof -
  let ?synth = "\<lambda>e. synthesize_equivocation_removal verify B canon evc e s h d"
  obtain xs :: "(nat \<times> validator_set_change) list" where xs: "map ?synth evs = map (Synthesized \<circ> snd) xs"
    and orphan: "\<forall>c \<in> set changes. unsigned_remove c \<longrightarrow> (\<exists>x \<in> snd ` set xs. change_id x = change_id c)"
    and missing: "\<forall>x \<in> snd ` set xs. \<exists>c \<in> set changes. change_id c = change_id x \<and> unsigned_remove c"
    using evidence_admission_Inr [OF assms] by metis
  have img: "?synth ` set evs = Synthesized ` snd ` set xs"
    using arg_cong [OF xs, of set] by (simp add: image_image)
  have "\<exists>r \<in> set (active_at s h). \<exists>c \<in> set changes. vr_validator_id r = ev_validator_id (vote_a e) \<and>
      unsigned_remove c \<and>
      change_id c = B (canon (RemoveValidator (vr_agent_id r) Equivocation (u64_saturating_add h d), h))"
    and "\<exists>x. ?synth e = Synthesized x" if "e \<in> set evs" for e
  proof -
    from that img obtain x where x: "?synth e = Synthesized x" "x \<in> snd ` set xs" by blast
    then show "\<exists>x. ?synth e = Synthesized x" by blast
    note f = Synthesized_facts [OF x(1)]
    from f(4) obtain r where r: "r \<in> set (active_at s h)" "vr_validator_id r = ev_validator_id (vote_a e)"
      "vsc_kind x = RemoveValidator (vr_agent_id r) Equivocation (u64_saturating_add h d)" by blast
    have "proposed_at x = h"
      using x(1) by (auto simp: synthesize_equivocation_removal_def Let_def split: if_splits option.splits)
    with f(3) r(3) have "change_id x =
        B (canon (RemoveValidator (vr_agent_id r) Equivocation (u64_saturating_add h d), h))"
      by (simp add: change_id_is_consistent_def compute_change_id_def)
    moreover obtain c where "c \<in> set changes" "change_id c = change_id x" "unsigned_remove c"
      using missing x(2) by blast
    ultimately show "\<exists>r \<in> set (active_at s h). \<exists>c \<in> set changes.
      vr_validator_id r = ev_validator_id (vote_a e) \<and> unsigned_remove c \<and>
      change_id c = B (canon (RemoveValidator (vr_agent_id r) Equivocation (u64_saturating_add h d), h))"
      using r(1,2) by auto
  qed
  moreover have "\<exists>e \<in> set evs. \<exists>x. ?synth e = Synthesized x \<and> change_id x = change_id c"
    if "c \<in> set changes" "unsigned_remove c" for c
    using orphan that img by (metis (no_types, lifting) image_iff)
  ultimately show ?thesis using Synthesized_facts by (metis (no_types, lifting))
qed

definition double_vote :: vote_equivocation where
  "double_vote =
     \<lparr>vote_a = \<lparr>ev_validator_id = 20, ev_block_hash = 5, ev_height = 4, ev_round = 0,
                ev_vote_type = EvPrecommit, ev_signature = ''s''\<rparr>,
      vote_b = \<lparr>ev_validator_id = 20, ev_block_hash = 6, ev_height = 4, ev_round = 0,
                ev_vote_type = EvPrecommit, ev_signature = ''t''\<rparr>\<rparr>"

abbreviation sample_removal :: validator_set_change where
  "sample_removal \<equiv> \<lparr>change_id = 77, vsc_kind = RemoveValidator 2 Equivocation 8, proposed_at = 5,
     quorum_signatures = []\<rparr>"

lemma double_vote_admitted:
  "validate_evidence_admission (\<lambda>_ _ _. True) (\<lambda>_. 77) (\<lambda>_. []) (\<lambda>_. []) [sample_removal] [double_vote]
     sample_set 5 3 = Inr ()"
  by (simp add: validate_evidence_admission_def synthesize_equivocation_removal_def double_vote_def
      is_structurally_equivocation_def find_active_by_validator_id_def sample_set_def sample_validator_def
      is_active_at_def u64_saturating_add_def U64_MAX_def compute_change_id_def)

theorem slashing_witness:
  "is_structurally_equivocation double_vote \<and>
   (\<exists>r \<in> set (active_at sample_set 5). vr_validator_id r = 20)"
  using slashing_live_and_grounded [OF double_vote_admitted] by (auto simp: double_vote_def)

text \<open>
  An unsigned change of any other kind is admitted by both gates. The quorum check looks only at
  changes that carry signatures and the evidence check only at removals without signatures, so a
  block whose single validator event is an addition, a power change or a key change with no
  signature at all passes the Feedback phase and the capture-prevention check, whatever the
  validator set, the keys and the activation height; the state layer then queues it.
\<close>

theorem unsigned_change_admitted:
  assumes "validator_set_from_trie D w = Inr (Some s)"
    and "quorum_signatures c = []" "\<not> is_remove (vsc_kind c)"
    and "1 \<le> max_validator_set_changes_per_block_param (consensus_params w)"
    and "change_id_is_consistent B canon c" "pending_changes_from_trie D w = Inr []"
    and "validator_set_change_history_from_trie D w = Inr []"
  shows "check_validator_events D verify B canon evc w h (Some [c]) None = Inr () \<and>
    check_validator_set_capture D verify B canon w h (Some [c]) = Inr () \<and>
    fst (apply_validator_set_change_admission D B canon w c) = Inr ()"
  using assms admission_result [OF assms(6,7,5)]
  by (simp add: check_validator_events_def check_validator_set_capture_def Let_def
      validate_evidence_admission_def)

abbreviation unsigned_addition :: validator_set_change where
  "unsigned_addition \<equiv> \<lparr>change_id = 77, vsc_kind = AddValidator (sample_validator 3 30 1000),
     proposed_at = 0, quorum_signatures = []\<rparr>"

theorem unsigned_change_witness:
  "check_validator_events sample_codec (\<lambda>_ _ _. False) (\<lambda>_. 77) (\<lambda>_. []) (\<lambda>_. [])
     (commit_validator_set sample_codec world_new sample_set) 5 (Some [unsigned_addition]) None = Inr ()"
proof -
  let ?w = "commit_validator_set sample_codec world_new sample_set"
  have "length VALIDATOR_SET_TRIE_KEY \<le> 1048576" using keys_fitD [of 1048576] by (simp add: keys_fit_def)
  then have f: "validator_set_from_trie sample_codec ?w = Inr (Some sample_set)"
    "pending_changes_from_trie sample_codec ?w = Inr []"
    "validator_set_change_history_from_trie sample_codec ?w = Inr []"
    using world_new_queues [of sample_codec]
    by (simp_all add: vs_state_defs apply_delta_single, simp_all add: sample_codec_def)
  have "1 \<le> max_validator_set_changes_per_block_param (consensus_params ?w)"
    by (simp add: commit_validator_set_def world_new_def consensus_params_default_def)
  then show ?thesis
    using unsigned_change_admitted [OF f(1) _ _ _ _ f(2,3), of unsigned_addition "\<lambda>_. 77" "\<lambda>_. []"]
    by (simp add: change_id_is_consistent_def compute_change_id_def)
qed

text \<open>
  Two admitted additions of one agent stop the activation sweep for good. Admission checks
  identifiers and signatures but not whether a change still fits the set, so both can be queued for
  the same height; the sweep at that height then fails and leaves the world, queue included,
  unchanged, so every retry fails in the same way.
\<close>

theorem duplicate_additions_block_sweep:
  assumes "pending_changes_from_trie D w = Inr pending"
    and "validator_set_from_trie D w = Inr (Some s)"
    and "c \<in> set pending" "c' \<in> set pending" "change_id c \<noteq> change_id c'"
    and "vsc_kind c = AddValidator r" "vsc_kind c' = AddValidator r'"
    and "vr_agent_id r = vr_agent_id r'" "active_from r = h" "active_from r' = h"
  shows "\<exists>e. advance_validator_set_to_height D w h = (Inl e, w)"
proof -
  have "\<exists>e. apply_changes s (due h pending) = Inl e"
    using assms(3-10) by (intro apply_changes_add_twice [of c _ c' r r']) auto
  moreover have "pending \<noteq> []" using assms(3) by auto
  ultimately show ?thesis using advance_nonempty [OF assms(1) _ assms(2), of h] by auto
qed

abbreviation addition_of :: "hash \<Rightarrow> hash \<Rightarrow> validator_set_change" where
  "addition_of i v \<equiv> \<lparr>change_id = i, vsc_kind = AddValidator (sample_validator 3 v 1),
     proposed_at = 0, quorum_signatures = []\<rparr>"

definition doubled_codec :: vs_codec where
  "doubled_codec = sample_codec\<lparr>enc_changes := (\<lambda>_. ''q''),
     dec_changes := (\<lambda>_. Some [addition_of 1 30, addition_of 2 40])\<rparr>"

theorem duplicate_additions_witness:
  "\<exists>w e. pending_changes_from_trie doubled_codec w = Inr [addition_of 1 30, addition_of 2 40] \<and>
     advance_validator_set_to_height doubled_codec w 0 = (Inl e, w)"
proof -
  let ?w = "commit_pending_changes doubled_codec (commit_validator_set doubled_codec world_new sample_set)
    [addition_of 1 30, addition_of 2 40]"
  have p: "pending_changes_from_trie doubled_codec ?w = Inr [addition_of 1 30, addition_of 2 40]"
    and q: "validator_set_from_trie doubled_codec ?w = Inr (Some sample_set)"
    using keys_fitD [of 1048576]
    by (simp_all add: vs_state_defs keys_fit_def apply_delta_single doubled_codec_def sample_codec_def)
  have "\<exists>e. advance_validator_set_to_height doubled_codec ?w 0 = (Inl e, ?w)"
    by (rule duplicate_additions_block_sweep [OF p q, where c = "addition_of 1 30" and
          c' = "addition_of 2 40" and r = "sample_validator 3 30 1" and r' = "sample_validator 3 40 1"])
      (simp_all add: sample_validator_def)
  with p show ?thesis by blast
qed

text \<open>
  A veto needs more than a third. An admitted forgery veto names an unsigned equivocation removal
  by its identifier, falls into the removal's activation window, shows two different signatures that
  both verify but not both strictly, and carries strict, domain-separated attestations of distinct
  active validators holding more than a third of the active power: a coalition with at most a third
  cannot veto alone.
\<close>

theorem veto_needs_third:
  assumes "canonical_set s"
    and "validate_forgery_veto_admission verify strict vcan v target h d s = Inr ()"
  shows "\<exists>t. target = Some t \<and> change_id t = target_change_id v \<and>
      is_equivocation_removal (vsc_kind t) \<and> quorum_signatures t = [] \<and>
      h \<le> submitted_at_height v \<and> submitted_at_height v < u64_saturating_add h d \<and>
      check_forgery_proof verify strict (fv_proof v) = Inr () \<and>
      (\<forall>a \<in> set (attestations v). va_signer a \<in> active_keys s (submitted_at_height v) \<and>
         strict (va_signer a) (veto_signing_bytes vcan v) (va_signature a)) \<and>
      total_power_at s (submitted_at_height v) <
        3 * sum (key_power s (submitted_at_height v)) (va_signer ` set (attestations v))"
proof -
  let ?h = "submitted_at_height v" and ?as = "attestations v"
  from assms(2) obtain t where t: "target = Some t" by (cases target) (auto simp: validate_forgery_veto_admission_def)
  with assms(2) have f: "change_id t = target_change_id v" "is_equivocation_removal (vsc_kind t)"
    "quorum_signatures t = []" "h \<le> ?h" "?h < u64_saturating_add h d"
    "check_forgery_proof verify strict (fv_proof v) = Inr ()" "strictly_ascending (map va_signer ?as)"
    and "\<exists>p. tally_attestations strict (veto_signing_bytes vcan v) s ?h 0 ?as = Inr p \<and>
      total_power_at s ?h div 3 + 1 \<le> p"
    by (auto simp: validate_forgery_veto_admission_def Let_def bind_result_Inr not_less not_le
        split: if_splits sum.splits)
  then obtain p where p: "tally_attestations strict (veto_signing_bytes vcan v) s ?h 0 ?as = Inr p"
    "total_power_at s ?h div 3 + 1 \<le> p" by blast
  note a = tally_attestations_Inr [OF p(1)]
  have "distinct (map va_signer ?as)" using f(7) by (rule strictly_ascending_distinct)
  then have "sum_list (map (key_power s ?h) (map va_signer ?as)) = sum (key_power s ?h) (set (map va_signer ?as))"
    by (rule sum_list_distinct_conv_sum_set)
  then have "total_power_at s ?h div 3 + 1 \<le> sum (key_power s ?h) (va_signer ` set ?as)"
    using a p(2) by simp
  then have "total_power_at s ?h < 3 * sum (key_power s ?h) (va_signer ` set ?as)" by presburger
  with t f(1-6) a show ?thesis by blast
qed

abbreviation sample_veto :: forgery_veto where
  "sample_veto \<equiv>
     \<lparr>fv_proof = \<lparr>fp_canonical_bytes = [], fp_public_key = 20, fp_signature_a = ''a'', fp_signature_b = ''b''\<rparr>,
      target_change_id = 77, submitted_at_height = 6,
      attestations = [\<lparr>va_signer = 10, va_signature = ''x''\<rparr>]\<rparr>"

theorem veto_needs_third_witness:
  "total_power_at sample_set 6 < 3 * sum (key_power sample_set 6) {10}"
proof -
  have v: "validate_forgery_veto_admission (\<lambda>_ _ _. True) (\<lambda>_ _ sig. sig \<noteq> ''b'') (\<lambda>_. []) sample_veto
      (Some sample_removal) 5 3 sample_set = Inr ()"
    by (simp add: validate_forgery_veto_admission_def check_forgery_proof_def u64_saturating_add_def U64_MAX_def
        find_active_by_validator_id_def sample_set_def sample_validator_def is_active_at_def
        total_power_at_def u128_nat_saturating_add_def)
  from veto_needs_third [OF canonical_sample_set v] show ?thesis by simp
qed

end
