(* ===== verification/Scc_Proposals.thy ===== *)
theory Scc_Proposals
  imports Scc_Params Scc_Tension
begin

text \<open>
  The lifecycle of governance proposals (\<open>governance/proposals.rs\<close>): submission, voting,
  finalization into a timelock, activation. The registry is an append-only vector with an index by
  identifier. The canonical encoding and BLAKE3 are one parameter, the function from proposer, kind
  and height to the identifier.
\<close>

section \<open>Data\<close>

datatype proposal_kind =
    AddNorm string string tension_value tension_value
  | DeactivateNorm hash
  | ModifyParameter string string
  | ActivateEmergency
  | DeactivateEmergency
  | ModifyConsensusParam consensus_param_field consensus_param_value nat

datatype proposal_status =
  StSubmitted | StVoting | StAccepted | StRejected | StTimelocked | StActivated | StExpired

record governance_proposal =
  gp_id :: hash
  gp_proposer :: agent_id
  gp_kind :: proposal_kind
  gp_status :: proposal_status
  gp_submitted_at :: nat
  votes_for :: nat
  votes_against :: nat
  required_level :: precedence_level
  voting_deadline :: nat
  voters :: "agent_id set"
  timelock_until :: nat

datatype settlement_finality = SoftFinality | EconomicFinality | LegalFinality

fun settlement_required_depth :: "settlement_finality \<Rightarrow> nat" where
  "settlement_required_depth SoftFinality = 0"
| "settlement_required_depth EconomicFinality = 2"
| "settlement_required_depth LegalFinality = 6"

definition MAX_PROPOSALS :: nat where "MAX_PROPOSALS = 10000"

record proposal_registry =
  proposals :: "governance_proposal list"
  proposal_index :: "(hash, nat) hashmap"

definition proposal_registry_default :: proposal_registry where
  "proposal_registry_default = \<lparr>proposals = [], proposal_index = []\<rparr>"

type_synonym proposal_hash = "agent_id \<times> proposal_kind \<times> nat \<Rightarrow> hash"

datatype proposal_error =
    RegistryFull
  | InsufficientAuthority precedence_level precedence_level
  | TypedProposalRejected typed_param_proposal_rejection
  | ProposalNotFound
  | NotInVotingState
  | VotingEnded
  | VoterLacksLevel
  | AlreadyVoted
  | NotTimelocked
  | TimelockActive nat nat

section \<open>Operations\<close>

fun proposal_required_level :: "proposal_kind \<Rightarrow> precedence_level" where
  "proposal_required_level (AddNorm n d f c) = Meaning"
| "proposal_required_level (DeactivateNorm i) = Meaning"
| "proposal_required_level (ModifyParameter k v) = Safety"
| "proposal_required_level ActivateEmergency = Safety"
| "proposal_required_level DeactivateEmergency = Safety"
| "proposal_required_level (ModifyConsensusParam f v h) = Safety"

definition submit ::
  "proposal_hash \<Rightarrow> proposal_registry \<Rightarrow> agent_id \<Rightarrow> precedence_level \<Rightarrow> proposal_kind \<Rightarrow> nat \<Rightarrow> nat \<Rightarrow>
   proposal_error + (hash \<times> proposal_registry)" where
  "submit PH reg proposer proposer_level kind current_height voting_period =
     (if length (proposals reg) \<ge> MAX_PROPOSALS then Inl RegistryFull
      else
        let required = proposal_required_level kind
        in if precedence_rank proposer_level > precedence_rank required
           then Inl (InsufficientAuthority proposer_level required)
           else
             let i = PH (proposer, kind, current_height);
                 p = \<lparr>gp_id = i, gp_proposer = proposer, gp_kind = kind, gp_status = StVoting,
                      gp_submitted_at = current_height, votes_for = 0, votes_against = 0,
                      required_level = required,
                      voting_deadline = u64_saturating_add current_height voting_period,
                      voters = {}, timelock_until = 0\<rparr>;
                 ps = proposals reg @ [p]
             in Inr (i, \<lparr>proposals = ps, proposal_index = AList.update i (length ps - 1) (proposal_index reg)\<rparr>))"

definition submit_typed_consensus_param_proposal ::
  "proposal_hash \<Rightarrow> proposal_registry \<Rightarrow> agent_id \<Rightarrow> precedence_level \<Rightarrow> consensus_params \<Rightarrow>
   constitutional_ceilings \<Rightarrow> consensus_param_field \<Rightarrow> consensus_param_value \<Rightarrow> nat \<Rightarrow> nat \<Rightarrow> nat \<Rightarrow>
   proposal_error + (hash \<times> consensus_params \<times> proposal_registry)" where
  "submit_typed_consensus_param_proposal PH reg proposer lvl params ceilings field new_value
      activation_height current_height voting_period =
     (case validate_typed_param_proposal params ceilings field new_value activation_height current_height of
        Inl e \<Rightarrow> Inl (TypedProposalRejected e)
      | Inr hypothetical \<Rightarrow>
          bind_result
            (submit PH reg proposer lvl (ModifyConsensusParam field new_value activation_height)
               current_height voting_period)
            (\<lambda>(i, reg'). Inr (i, hypothetical, reg')))"

text \<open>Replace the proposal at an index of the vector.\<close>

definition set_proposal :: "proposal_registry \<Rightarrow> nat \<Rightarrow> governance_proposal \<Rightarrow> proposal_registry" where
  "set_proposal reg idx p = reg\<lparr>proposals := (proposals reg)[idx := p]\<rparr>"

definition cast_vote ::
  "proposal_registry \<Rightarrow> hash \<Rightarrow> agent_id \<Rightarrow> precedence_level \<Rightarrow> bool \<Rightarrow> nat \<Rightarrow> proposal_error + proposal_registry" where
  "cast_vote reg pid voter voter_level approve current_height =
     (case map_of (proposal_index reg) pid of
        None \<Rightarrow> Inl ProposalNotFound
      | Some idx \<Rightarrow>
          let p = proposals reg ! idx
          in if gp_status p \<noteq> StVoting then Inl NotInVotingState
             else if current_height > voting_deadline p then Inl VotingEnded
             else if precedence_rank voter_level > precedence_rank (required_level p) then Inl VoterLacksLevel
             else if voter \<in> voters p then Inl AlreadyVoted
             else
               let p' = p\<lparr>voters := insert voter (voters p)\<rparr>;
                   p'' = (if approve then p'\<lparr>votes_for := u32_saturating_add (votes_for p') 1\<rparr>
                          else p'\<lparr>votes_against := u32_saturating_add (votes_against p') 1\<rparr>)
               in Inr (set_proposal reg idx p''))"

fun timelock_duration :: "proposal_kind \<Rightarrow> nat" where
  "timelock_duration (ModifyParameter k v) = TIMELOCK_CONSTITUTIONAL"
| "timelock_duration ActivateEmergency = TIMELOCK_CONSTITUTIONAL"
| "timelock_duration DeactivateEmergency = TIMELOCK_CONSTITUTIONAL"
| "timelock_duration (ModifyConsensusParam f v h) = TIMELOCK_CONSTITUTIONAL"
| "timelock_duration _ = TIMELOCK_ORDINARY"

text \<open>One iteration of the finalization loop: the proposal after it.\<close>

definition finalize_one :: "nat \<Rightarrow> governance_proposal \<Rightarrow> governance_proposal" where
  "finalize_one h p =
     (if gp_status p \<noteq> StVoting then p
      else if h \<le> voting_deadline p then p
      else if votes_for p > votes_against p
      then p\<lparr>timelock_until := u64_saturating_add h (timelock_duration (gp_kind p)), gp_status := StTimelocked\<rparr>
      else p\<lparr>gp_status := StRejected\<rparr>)"

definition finalizes :: "nat \<Rightarrow> governance_proposal \<Rightarrow> bool" where
  "finalizes h p \<longleftrightarrow> gp_status p = StVoting \<and> voting_deadline p < h \<and> votes_against p < votes_for p"

definition finalize :: "proposal_registry \<Rightarrow> nat \<Rightarrow> governance_proposal list \<times> proposal_registry" where
  "finalize reg h =
     (map (finalize_one h) (filter (finalizes h) (proposals reg)),
      reg\<lparr>proposals := map (finalize_one h) (proposals reg)\<rparr>)"

definition activated_norm :: "governance_proposal \<Rightarrow> norm_t option" where
  "activated_norm p =
     (case gp_kind p of
        AddNorm name descr initial_fitness cost \<Rightarrow>
          Some \<lparr>norm_id = gp_id p, norm_name = name, norm_description = descr,
                norm_precedence = required_level p, population_share = SCALE div 10,
                fitness = initial_fitness, enforcement_cost = cost, norm_active = True,
                norm_created_at_height = gp_submitted_at p\<rparr>
      | _ \<Rightarrow> None)"

definition activate ::
  "proposal_registry \<Rightarrow> hash \<Rightarrow> nat \<Rightarrow> proposal_error + (norm_t option \<times> proposal_registry)" where
  "activate reg pid current_height =
     (case map_of (proposal_index reg) pid of
        None \<Rightarrow> Inl ProposalNotFound
      | Some idx \<Rightarrow>
          let p = proposals reg ! idx
          in if gp_status p \<noteq> StTimelocked then Inl NotTimelocked
             else if current_height < timelock_until p
             then Inl (TimelockActive (timelock_until p) current_height)
             else Inr (activated_norm p, set_proposal reg idx (p\<lparr>gp_status := StActivated\<rparr>)))"

definition proposal_active_count :: "proposal_registry \<Rightarrow> nat" where
  "proposal_active_count reg = length (filter (\<lambda>p. gp_status p = StVoting) (proposals reg))"

section \<open>Reachable registries\<close>

text \<open>
  The registry with the height of the last operation; heights never go back.
\<close>

inductive registry_step ::
  "proposal_hash \<Rightarrow> proposal_registry \<times> nat \<Rightarrow> proposal_registry \<times> nat \<Rightarrow> bool" for PH where
  step_submit: "h \<le> h' \<Longrightarrow> submit PH reg a l k h' period = Inr (i, reg') \<Longrightarrow>
     registry_step PH (reg, h) (reg', h')"
| step_vote: "h \<le> h' \<Longrightarrow> cast_vote reg pid a l yes h' = Inr reg' \<Longrightarrow> registry_step PH (reg, h) (reg', h')"
| step_finalize: "h \<le> h' \<Longrightarrow> registry_step PH (reg, h) (snd (finalize reg h'), h')"
| step_activate: "h \<le> h' \<Longrightarrow> activate reg pid h' = Inr (n, reg') \<Longrightarrow>
     registry_step PH (reg, h) (reg', h')"

inductive_cases registry_stepE: "registry_step PH (reg, h) (reg', h')"

definition registry_reachable :: "proposal_hash \<Rightarrow> proposal_registry \<times> nat \<Rightarrow> bool" where
  "registry_reachable PH st \<longleftrightarrow> (\<exists>h0. (registry_step PH)\<^sup>*\<^sup>* (proposal_registry_default, h0) st)"

text \<open>What holds of each proposal at a height.\<close>

definition timelock_ok :: "governance_proposal \<Rightarrow> bool" where
  "timelock_ok p \<longleftrightarrow> votes_against p < votes_for p \<and>
     (\<exists>f. voting_deadline p < f \<and> timelock_until p = u64_saturating_add f (timelock_duration (gp_kind p)))"

definition proposal_ok :: "nat \<Rightarrow> governance_proposal \<Rightarrow> bool" where
  "proposal_ok h p \<longleftrightarrow> finite (voters p) \<and>
     required_level p = proposal_required_level (gp_kind p) \<and>
     (card (voters p) \<le> U32_MAX \<longrightarrow> votes_for p + votes_against p = card (voters p)) \<and>
     gp_status p \<in> {StVoting, StRejected, StTimelocked, StActivated} \<and>
     (gp_status p = StTimelocked \<longrightarrow> timelock_ok p) \<and>
     (gp_status p = StActivated \<longrightarrow> timelock_ok p \<and> timelock_until p \<le> h)"

definition index_ok :: "proposal_registry \<Rightarrow> bool" where
  "index_ok reg \<longleftrightarrow> (\<forall>i idx. map_of (proposal_index reg) i = Some idx \<longrightarrow>
     idx < length (proposals reg) \<and> gp_id (proposals reg ! idx) = i) \<and>
     (\<forall>p \<in> set (proposals reg). map_of (proposal_index reg) (gp_id p) \<noteq> None)"

definition registry_ok :: "proposal_registry \<times> nat \<Rightarrow> bool" where
  "registry_ok st \<longleftrightarrow> (\<forall>p \<in> set (proposals (fst st)). proposal_ok (snd st) p) \<and>
     index_ok (fst st) \<and> length (proposals (fst st)) \<le> MAX_PROPOSALS"

lemma proposal_ok_mono: "proposal_ok h p \<Longrightarrow> h \<le> h' \<Longrightarrow> proposal_ok h' p"
  by (auto simp: proposal_ok_def)

lemma registry_ok_each:
  "registry_ok (reg, h) \<Longrightarrow> h \<le> h' \<Longrightarrow> p \<in> set (proposals reg) \<Longrightarrow> proposal_ok h' p"
  using proposal_ok_mono unfolding registry_ok_def fst_conv snd_conv by blast

lemma set_proposal_simps [simp]:
  "proposals (set_proposal reg i p) = (proposals reg)[i := p]"
  "proposal_index (set_proposal reg i p) = proposal_index reg"
  by (simp_all add: set_proposal_def)

text \<open>Replacing an indexed proposal by a good one of the same identifier keeps the invariant.\<close>

lemma registry_ok_set_proposal:
  assumes "registry_ok (reg, h)" "h \<le> h'" "map_of (proposal_index reg) pid = Some idx"
    and "proposal_ok h' p" "gp_id p = gp_id (proposals reg ! idx)"
  shows "registry_ok (set_proposal reg idx p, h')"
proof -
  have i: "index_ok reg" using assms(1) by (simp add: registry_ok_def)
  then have len: "idx < length (proposals reg)" using assms(3) by (simp add: index_ok_def)
  have "proposal_ok h' q" if "q \<in> set ((proposals reg)[idx := p])" for q
    using that set_update_subset_insert [of "proposals reg" idx p] assms(4)
      registry_ok_each [OF assms(1,2)] by blast
  moreover have "map_of (proposal_index reg) (gp_id q) \<noteq> None" if "q \<in> set ((proposals reg)[idx := p])" for q
    using that set_update_subset_insert [of "proposals reg" idx p] i assms(5) len
    unfolding index_ok_def by (metis insert_iff nth_mem subsetD)
  moreover have "gp_id ((proposals reg)[idx := p] ! j) = gp_id (proposals reg ! j)" for j
    using assms(5) len by (cases "j = idx") auto
  ultimately show ?thesis
    using assms(1) i by (simp add: registry_ok_def index_ok_def)
qed

lemma registry_ok_submit:
  assumes "registry_ok (reg, h)" "h \<le> h'" "submit PH reg a l k h' period = Inr (i, reg')"
  shows "registry_ok (reg', h')"
proof -
  define p where "p = \<lparr>gp_id = PH (a, k, h'), gp_proposer = a, gp_kind = k, gp_status = StVoting,
      gp_submitted_at = h', votes_for = 0, votes_against = 0, required_level = proposal_required_level k,
      voting_deadline = u64_saturating_add h' period, voters = {}, timelock_until = 0\<rparr>"
  from assms(3) have r: "length (proposals reg) < MAX_PROPOSALS"
    "reg' = \<lparr>proposals = proposals reg @ [p],
       proposal_index = AList.update (PH (a, k, h')) (length (proposals reg)) (proposal_index reg)\<rparr>"
    by (auto simp: submit_def Let_def p_def split: if_splits)
  have i: "index_ok reg" using assms(1) by (simp add: registry_ok_def)
  have "gp_id p = PH (a, k, h')" by (simp add: p_def)
  with i have "index_ok reg'"
    unfolding index_ok_def r(2) by (fastforce simp: update_conv' nth_append split: if_splits)
  moreover have "proposal_ok h' p" by (simp add: proposal_ok_def p_def)
  ultimately show ?thesis
    using r registry_ok_each [OF assms(1,2)] by (auto simp: registry_ok_def)
qed

lemma proposal_ok_vote:
  assumes "proposal_ok h p" "gp_status p = StVoting" "a \<notin> voters p"
  shows "proposal_ok h (p\<lparr>voters := insert a (voters p), votes_for := u32_saturating_add (votes_for p) 1\<rparr>)"
    and "proposal_ok h (p\<lparr>voters := insert a (voters p), votes_against := u32_saturating_add (votes_against p) 1\<rparr>)"
  using assms by (auto simp: proposal_ok_def u32_saturating_add_def)

lemma registry_ok_vote:
  assumes "registry_ok (reg, h)" "h \<le> h'" "cast_vote reg pid a l yes h' = Inr reg'"
  shows "registry_ok (reg', h')"
proof -
  from assms(3) obtain idx where idx: "map_of (proposal_index reg) pid = Some idx"
    by (auto simp: cast_vote_def split: option.splits)
  let ?p = "proposals reg ! idx"
  have "idx < length (proposals reg)" using assms(1) idx by (simp add: registry_ok_def index_ok_def)
  then have ok: "proposal_ok h' ?p" using registry_ok_each [OF assms(1,2)] by simp
  from assms(3) idx have v: "gp_status ?p = StVoting" "a \<notin> voters ?p"
    and r: "reg' = set_proposal reg idx
      (if yes then ?p\<lparr>voters := insert a (voters ?p), votes_for := u32_saturating_add (votes_for ?p) 1\<rparr>
       else ?p\<lparr>voters := insert a (voters ?p), votes_against := u32_saturating_add (votes_against ?p) 1\<rparr>)"
    by (auto simp: cast_vote_def Let_def split: if_splits)
  show ?thesis unfolding r
    by (rule registry_ok_set_proposal [OF assms(1,2) idx])
      (use proposal_ok_vote [OF ok v] in simp_all)
qed

lemma finalize_one_id [simp]: "gp_id (finalize_one h p) = gp_id p"
  by (simp add: finalize_one_def)

lemma timelock_ok_finalized:
  "votes_against p < votes_for p \<Longrightarrow> voting_deadline p < h \<Longrightarrow>
   timelock_ok (p\<lparr>timelock_until := u64_saturating_add h (timelock_duration (gp_kind p)), gp_status := StTimelocked\<rparr>)"
  by (auto simp: timelock_ok_def)

lemma proposal_ok_finalize_one: "proposal_ok h p \<Longrightarrow> h \<le> h' \<Longrightarrow> proposal_ok h' (finalize_one h' p)"
  using timelock_ok_finalized [of p h'] proposal_ok_mono [of h p h']
  by (simp add: finalize_one_def proposal_ok_def not_le) blast

lemma registry_ok_finalize:
  assumes "registry_ok (reg, h)" "h \<le> h'"
  shows "registry_ok (snd (finalize reg h'), h')"
  using assms proposal_ok_finalize_one by (fastforce simp: registry_ok_def index_ok_def finalize_def)

lemma activate_Inr:
  "activate reg pid h = Inr (n, reg') \<longleftrightarrow>
     (\<exists>idx. map_of (proposal_index reg) pid = Some idx \<and> gp_status (proposals reg ! idx) = StTimelocked \<and>
        timelock_until (proposals reg ! idx) \<le> h \<and> n = activated_norm (proposals reg ! idx) \<and>
        reg' = set_proposal reg idx ((proposals reg ! idx)\<lparr>gp_status := StActivated\<rparr>))"
  by (auto simp: activate_def Let_def split: option.splits)

lemma registry_ok_activate:
  assumes "registry_ok (reg, h)" "h \<le> h'" "activate reg pid h' = Inr (n, reg')"
  shows "registry_ok (reg', h')"
proof -
  from assms(3) obtain idx where idx: "map_of (proposal_index reg) pid = Some idx"
    "gp_status (proposals reg ! idx) = StTimelocked" "timelock_until (proposals reg ! idx) \<le> h'"
    "reg' = set_proposal reg idx ((proposals reg ! idx)\<lparr>gp_status := StActivated\<rparr>)"
    unfolding activate_Inr by blast
  have "idx < length (proposals reg)" using assms(1) idx(1) by (simp add: registry_ok_def index_ok_def)
  then have "proposal_ok h (proposals reg ! idx)" using assms(1) by (simp add: registry_ok_def)
  then have "proposal_ok h' ((proposals reg ! idx)\<lparr>gp_status := StActivated\<rparr>)"
    using idx(2,3) by (auto simp: proposal_ok_def timelock_ok_def)
  then show ?thesis unfolding idx(4) by (intro registry_ok_set_proposal [OF assms(1,2) idx(1)]) simp_all
qed

lemma registry_ok_step: "registry_step PH st st' \<Longrightarrow> registry_ok st \<Longrightarrow> registry_ok st'"
  by (induction rule: registry_step.induct)
    (auto intro: registry_ok_submit registry_ok_vote registry_ok_finalize registry_ok_activate)

lemma registry_reachable_ok: "registry_reachable PH st \<Longrightarrow> registry_ok st"
proof -
  have "(registry_step PH)\<^sup>*\<^sup>* st0 st \<Longrightarrow> registry_ok st0 \<Longrightarrow> registry_ok st" for st0
    by (induction rule: rtranclp_induct) (auto intro: registry_ok_step)
  moreover have "registry_ok (proposal_registry_default, h0)" for h0
    by (simp add: registry_ok_def index_ok_def proposal_registry_default_def)
  ultimately show "registry_reachable PH st \<Longrightarrow> registry_ok st"
    unfolding registry_reachable_def by blast
qed

lemma cast_vote_props:
  assumes "cast_vote reg pid a l yes h = Inr reg'" "map_of (proposal_index reg) pid = Some idx"
  shows "length (proposals reg') = length (proposals reg)"
  using assms by (auto simp: cast_vote_def Let_def split: if_splits)

lemma registry_step_grows:
  "registry_step PH st st' \<Longrightarrow> length (proposals (fst st)) \<le> length (proposals (fst st'))"
proof (induction rule: registry_step.induct)
  case (step_submit h h' reg a l k period i reg')
  then show ?case by (auto simp: submit_def Let_def split: if_splits)
next
  case (step_vote h h' reg pid a l yes reg')
  then show ?case using cast_vote_props by (fastforce simp: cast_vote_def split: option.splits)
next
  case (step_finalize h h' reg)
  then show ?case by (simp add: finalize_def)
next
  case (step_activate h h' reg pid n reg')
  then show ?case by (auto simp: activate_Inr)
qed

section \<open>Properties\<close>

text \<open>
  C19. Nothing activates early or against the vote. In every registry reachable by submissions,
  votes, finalizations and activations at non-decreasing heights, an activated proposal has more
  votes for than against, one vote per voter, and the current height is past the voting deadline by
  at least the timelock of its class: 200 blocks for parameter and emergency proposals, 50 for the
  others (unless the 64-bit height saturates).
\<close>

theorem activation_respects_timelock:
  assumes "registry_reachable PH (reg, h)" "p \<in> set (proposals reg)" "gp_status p = StActivated"
    and "h < U64_MAX" "card (voters p) \<le> U32_MAX"
  shows "votes_against p < votes_for p \<and> votes_for p + votes_against p = card (voters p) \<and>
    voting_deadline p + timelock_duration (gp_kind p) < h"
proof -
  have ok: "proposal_ok h p" using registry_reachable_ok [OF assms(1)] assms(2) by (simp add: registry_ok_def)
  then obtain f where f: "voting_deadline p < f"
    "timelock_until p = u64_saturating_add f (timelock_duration (gp_kind p))"
    "votes_against p < votes_for p" "timelock_until p \<le> h"
    using assms(3) by (auto simp: proposal_ok_def timelock_ok_def)
  then have "f + timelock_duration (gp_kind p) \<le> h" using assms(4) by (auto simp: u64_saturating_add_def)
  with f ok assms(5) show ?thesis by (auto simp: proposal_ok_def)
qed

abbreviation sample_hash :: proposal_hash where "sample_hash \<equiv> \<lambda>_. 9"

abbreviation sample_proposal :: governance_proposal where
  "sample_proposal \<equiv>
     \<lparr>gp_id = 9, gp_proposer = 1, gp_kind = AddNorm ''n'' ''d'' 5 6, gp_status = StVoting,
      gp_submitted_at = 10, votes_for = 0, votes_against = 0, required_level = Meaning,
      voting_deadline = 15, voters = {}, timelock_until = 0\<rparr>"

abbreviation accepted_proposal :: governance_proposal where
  "accepted_proposal \<equiv> sample_proposal\<lparr>voters := {2}, votes_for := 1, gp_status := StTimelocked, timelock_until := 66\<rparr>"

abbreviation registry_of :: "governance_proposal \<Rightarrow> proposal_registry" where
  "registry_of p \<equiv> \<lparr>proposals = [p], proposal_index = [(9, 0)]\<rparr>"

lemma voted_registry_reachable: "registry_reachable sample_hash (registry_of accepted_proposal, 16)"
proof -
  have "registry_step sample_hash (proposal_registry_default, 10) (registry_of sample_proposal, 10)"
    by (rule step_submit [where a = 1 and l = Meaning and k = "AddNorm ''n'' ''d'' 5 6" and period = 5 and i = 9])
      (simp_all add: submit_def proposal_registry_default_def MAX_PROPOSALS_def u64_saturating_add_def U64_MAX_def)
  moreover have "registry_step sample_hash (registry_of sample_proposal, 10)
      (registry_of (sample_proposal\<lparr>voters := {2}, votes_for := 1\<rparr>), 12)"
    by (rule step_vote [where pid = 9 and a = 2 and l = Meaning and yes = True])
      (simp_all add: cast_vote_def set_proposal_def u32_saturating_add_def U32_MAX_def)
  moreover have "registry_step sample_hash (registry_of (sample_proposal\<lparr>voters := {2}, votes_for := 1\<rparr>), 12)
      (registry_of accepted_proposal, 16)"
    using step_finalize [of 12 16 sample_hash "registry_of (sample_proposal\<lparr>voters := {2}, votes_for := 1\<rparr>)"]
    by (simp add: finalize_def finalize_one_def u64_saturating_add_def U64_MAX_def TIMELOCK_ORDINARY_def)
  ultimately show ?thesis unfolding registry_reachable_def
    by (meson converse_rtranclp_into_rtranclp rtranclp.rtrancl_refl)
qed

lemma sample_run: "registry_reachable sample_hash (registry_of (accepted_proposal\<lparr>gp_status := StActivated\<rparr>), 70)"
proof -
  have "registry_step sample_hash (registry_of accepted_proposal, 16)
      (registry_of (accepted_proposal\<lparr>gp_status := StActivated\<rparr>), 70)"
    by (rule step_activate [where pid = 9]) (simp_all add: activate_Inr set_proposal_def)
  then show ?thesis using voted_registry_reachable unfolding registry_reachable_def
    by (meson rtranclp.rtrancl_into_rtrancl)
qed

theorem activation_respects_timelock_witness:
  "voting_deadline (accepted_proposal\<lparr>gp_status := StActivated\<rparr>) + TIMELOCK_ORDINARY < 70"
  using activation_respects_timelock [OF sample_run, of "accepted_proposal\<lparr>gp_status := StActivated\<rparr>"]
  by (simp add: U64_MAX_def U32_MAX_def)

text \<open>
  A won proposal can always be carried through. When the index leads to a proposal in voting with
  more votes for than against, finalization at any height after the deadline reports it and starts
  its timelock, and activation at any later height past the timelock succeeds and yields the norm of
  an \<open>AddNorm\<close> proposal, with the proposal's identifier and level.
\<close>

theorem won_proposal_activates:
  assumes "map_of (proposal_index reg) pid = Some idx" "idx < length (proposals reg)"
    and "p = proposals reg ! idx" "finalizes h p"
    and "u64_saturating_add h (timelock_duration (gp_kind p)) \<le> h'"
  shows "\<exists>accepted reg1 reg2. finalize reg h = (accepted, reg1) \<and> finalize_one h p \<in> set accepted \<and>
    activate reg1 pid h' = Inr (activated_norm p, reg2) \<and>
    gp_status (proposals reg2 ! idx) = StActivated \<and>
    (\<forall>j < length (proposals reg). j \<noteq> idx \<longrightarrow> proposals reg2 ! j = proposals reg1 ! j)"
proof -
  have fin: "finalize_one h p = p\<lparr>timelock_until := u64_saturating_add h (timelock_duration (gp_kind p)),
      gp_status := StTimelocked\<rparr>"
    using assms(4) by (simp add: finalize_one_def finalizes_def)
  let ?reg1 = "snd (finalize reg h)"
  have at: "proposals ?reg1 ! idx = finalize_one h p" "map_of (proposal_index ?reg1) pid = Some idx"
    "length (proposals ?reg1) = length (proposals reg)"
    using assms(1-3) by (simp_all add: finalize_def)
  have "activated_norm (finalize_one h p) = activated_norm p"
    by (simp add: fin activated_norm_def split: proposal_kind.splits)
  then have "activate ?reg1 pid h' =
      Inr (activated_norm p, set_proposal ?reg1 idx ((finalize_one h p)\<lparr>gp_status := StActivated\<rparr>))"
    using at assms(5) fin by (simp add: activate_def)
  moreover have "finalize_one h p \<in> set (fst (finalize reg h))"
    using assms(2-4) by (simp add: finalize_def)
  ultimately show ?thesis using at assms(2) by (cases "finalize reg h") auto
qed

theorem won_proposal_witness:
  "\<exists>accepted reg1 reg2. finalize (registry_of (sample_proposal\<lparr>voters := {2}, votes_for := 1\<rparr>)) 16 = (accepted, reg1) \<and>
     (\<exists>n. activate reg1 9 70 = Inr (Some n, reg2) \<and> norm_id n = 9)"
  using won_proposal_activates [of "registry_of (sample_proposal\<lparr>voters := {2}, votes_for := 1\<rparr>)" 9 0
      "sample_proposal\<lparr>voters := {2}, votes_for := 1\<rparr>" 16 70]
  by (auto simp: finalizes_def u64_saturating_add_def U64_MAX_def TIMELOCK_ORDINARY_def activated_norm_def)

text \<open>
  A full registry stays full. Proposals are never removed, and the capacity check counts all of
  them, decided ones included: once \<open>MAX_PROPOSALS\<close> have been submitted, every submission fails in
  every later state, whatever is voted, finalized or activated.
\<close>

theorem registry_full_forever:
  assumes "length (proposals (fst st)) = MAX_PROPOSALS" "(registry_step PH)\<^sup>*\<^sup>* st st'"
  shows "submit PH (fst st') a l k h period = Inl RegistryFull"
proof -
  have "length (proposals (fst st)) \<le> length (proposals (fst st'))"
    using assms(2) by (induction rule: rtranclp_induct) (auto dest: registry_step_grows)
  with assms(1) show ?thesis by (simp add: submit_def)
qed

theorem registry_full_witness:
  "submit sample_hash \<lparr>proposals = replicate MAX_PROPOSALS (sample_proposal\<lparr>gp_status := StRejected\<rparr>),
     proposal_index = [(9, 0)]\<rparr> 1 Genesis ActivateEmergency 100 5 = Inl RegistryFull"
  using registry_full_forever [of "(\<lparr>proposals = replicate MAX_PROPOSALS (sample_proposal\<lparr>gp_status := StRejected\<rparr>),
     proposal_index = [(9, 0)]\<rparr>, 100)" sample_hash, OF _ rtranclp.rtrancl_refl] by simp

end
