(* ===== verification/Scc_Fees.thy ===== *)
theory Scc_Fees
  imports Scc_Params
begin

text \<open>
  The fee model of \<open>types/economics.rs\<close>: the tension-scaled fee of the first block versions, the
  median-over-window fee of version 4 and the floored fee of version 5. Division of \<open>i128\<close> values
  truncates towards zero.
\<close>

section \<open>Definitions\<close>

record economic_state =
  base_fee :: tension_value
  econ_alpha :: tension_value
  fees_collected :: tension_value
  rewards_distributed :: tension_value

definition economic_state_default :: economic_state where
  "economic_state_default =
     \<lparr>base_fee = from_integer 1, econ_alpha = SCALE div 10, fees_collected = 0, rewards_distributed = 0\<rparr>"

definition effective_fee :: "economic_state \<Rightarrow> tension_value \<Rightarrow> tension_value \<Rightarrow> tension_value" where
  "effective_fee e prior_block_tension bud =
     (if bud \<le> 0 then base_fee e
      else
        let ratio = i128_div (i128_saturating_mul prior_block_tension SCALE) bud;
            multiplier = tension_add SCALE (mul_fp (econ_alpha e) ratio)
        in mul_fp (base_fee e) multiplier)"

definition record_fee :: "economic_state \<Rightarrow> tension_value \<Rightarrow> economic_state" where
  "record_fee e amount = e\<lparr>fees_collected := tension_add (fees_collected e) amount\<rparr>"

definition econ_distribute_reward :: "economic_state \<Rightarrow> tension_value \<Rightarrow> economic_state" where
  "econ_distribute_reward e amount = e\<lparr>rewards_distributed := tension_add (rewards_distributed e) amount\<rparr>"

definition reset_epoch :: "economic_state \<Rightarrow> economic_state" where
  "reset_epoch e = e\<lparr>fees_collected := 0, rewards_distributed := 0\<rparr>"

definition median_of_tensions :: "tension_value list \<Rightarrow> tension_value" where
  "median_of_tensions vs =
     (let sorted_vs = sort vs; mid = length sorted_vs div 2
      in if length sorted_vs mod 2 = 0 then sorted_vs ! (mid - 1) else sorted_vs ! mid)"

definition effective_fee_median ::
  "economic_state \<Rightarrow> tension_value list \<Rightarrow> tension_value \<Rightarrow> consensus_params \<Rightarrow> tension_value" where
  "effective_fee_median e prior_tensions bud p =
     (if bud \<le> 0 then base_fee e
      else if prior_tensions = [] then base_fee e
      else
        let t_median = median_of_tensions prior_tensions;
            ratio = i128_div (i128_saturating_mul t_median SCALE) bud;
            multiplier = tension_add SCALE (mul_fp (fee_tension_alpha p) ratio)
        in mul_fp (base_fee e) multiplier)"

definition effective_fee_median_floored ::
  "economic_state \<Rightarrow> tension_value list \<Rightarrow> tension_value \<Rightarrow> consensus_params \<Rightarrow> constitutional_ceilings \<Rightarrow>
   tension_value" where
  "effective_fee_median_floored e prior_tensions bud p c =
     (let computed = effective_fee_median e prior_tensions bud p; floor_fee = min_effective_fee_floor c
      in if computed < floor_fee then floor_fee else computed)"

record fee_breakdown =
  compute_fee :: tension_value
  storage_fee :: tension_value
  proof_fee :: tension_value

definition fee_breakdown_total :: "fee_breakdown \<Rightarrow> tension_value" where
  "fee_breakdown_total b = tension_add (tension_add (compute_fee b) (storage_fee b)) (proof_fee b)"

section \<open>The median\<close>

definition median_index :: "nat \<Rightarrow> nat" where
  "median_index n = (if n mod 2 = 0 then n div 2 - 1 else n div 2)"

lemma median_nth: "median_of_tensions vs = sort vs ! median_index (length vs)"
  by (simp add: median_of_tensions_def median_index_def Let_def)

lemma median_index_less: "vs \<noteq> [] \<Longrightarrow> median_index (length vs) < length vs"
  by (cases vs) (auto simp: median_index_def)

lemma median_single [simp]: "median_of_tensions [t] = t"
  by (simp add: median_of_tensions_def)

text \<open>Sorted positions: the elements up to (from) an index bound the count below (above) a value.\<close>

lemma count_below:
  fixes xs :: "int list"
  assumes "sorted xs" "i < length xs" "xs ! i < lo"
  shows "i < length (filter (\<lambda>x. x < lo) xs)"
proof -
  have "x < lo" if x: "x \<in> set (take (Suc i) xs)" for x
  proof -
    from x obtain j where "j < Suc i" "x = xs ! j" by (auto simp: in_set_conv_nth)
    then show ?thesis using sorted_nth_mono [OF assms(1), of j i] assms(2,3) by simp
  qed
  then have "length (filter (\<lambda>x. x < lo) (take (Suc i) xs)) = Suc i" using assms(2) by simp
  moreover have "filter (\<lambda>x. x < lo) xs =
      filter (\<lambda>x. x < lo) (take (Suc i) xs) @ filter (\<lambda>x. x < lo) (drop (Suc i) xs)"
    by (metis append_take_drop_id filter_append)
  ultimately show ?thesis by simp
qed

lemma count_above:
  fixes xs :: "int list"
  assumes "sorted xs" "i < length xs" "hi < xs ! i"
  shows "length xs - i \<le> length (filter (\<lambda>x. hi < x) xs)"
proof -
  have "hi < x" if x: "x \<in> set (drop i xs)" for x
  proof -
    from x obtain j where "j < length xs - i" "x = xs ! (i + j)" by (auto simp: in_set_conv_nth)
    then show ?thesis using sorted_nth_mono [OF assms(1), of i "i + j"] assms(3) by (simp add: less_diff_conv add.commute)
  qed
  then have "length (filter (\<lambda>x. hi < x) (drop i xs)) = length xs - i" by simp
  moreover have "filter (\<lambda>x. hi < x) xs =
      filter (\<lambda>x. hi < x) (take i xs) @ filter (\<lambda>x. hi < x) (drop i xs)"
    by (metis append_take_drop_id filter_append)
  ultimately show ?thesis by simp
qed

abbreviation within :: "int \<Rightarrow> int \<Rightarrow> int \<Rightarrow> bool" where
  "within lo hi x \<equiv> lo \<le> x \<and> x \<le> hi"

lemma length_filter_mono:
  assumes "\<And>x. P x \<Longrightarrow> Q x"
  shows "length (filter P xs) \<le> length (filter Q xs)"
  by (induction xs) (auto dest: assms)

lemma length_filter_sort: "length (filter P (sort xs)) = length (filter P xs)"
  by (metis mset_filter mset_sort size_mset)

lemma majority_arith:
  fixes i x y n :: nat
  shows "i < x \<Longrightarrow> y + x = n \<Longrightarrow> n < 2 * y \<Longrightarrow> n \<le> 2 * (i + 1) \<Longrightarrow> False"
    and "n - i \<le> x \<Longrightarrow> y + x = n \<Longrightarrow> n < 2 * y \<Longrightarrow> n \<le> 2 * (n - i) \<Longrightarrow> False"
  by presburger+

lemma median_within:
  assumes "length vs < 2 * length (filter (within lo hi) vs)"
  shows "within lo hi (median_of_tensions vs)"
proof -
  let ?xs = "sort vs" and ?i = "median_index (length vs)"
  have ne: "vs \<noteq> []" using assms by auto
  have i: "?i < length ?xs" using median_index_less [OF ne] by simp
  have split: "length (filter (within lo hi) vs) + length (filter (\<lambda>x. \<not> within lo hi x) vs) = length vs"
    by (rule sum_length_filter_compl)
  have "length (filter (\<lambda>x. x < lo) ?xs) \<le> length (filter (\<lambda>x. \<not> within lo hi x) ?xs)"
    "length (filter (\<lambda>x. hi < x) ?xs) \<le> length (filter (\<lambda>x. \<not> within lo hi x) ?xs)"
    by (auto intro!: length_filter_mono)
  then have out: "length (filter (\<lambda>x. x < lo) ?xs) \<le> length (filter (\<lambda>x. \<not> within lo hi x) vs)"
    "length (filter (\<lambda>x. hi < x) ?xs) \<le> length (filter (\<lambda>x. \<not> within lo hi x) vs)"
    by (simp_all only: length_filter_sort)
  have idx: "length vs \<le> 2 * (?i + 1)" "length vs \<le> 2 * (length vs - ?i)"
    using ne by (cases vs; simp add: median_index_def; presburger)+
  show ?thesis
  proof (rule ccontr)
    assume "\<not> ?thesis"
    then consider "?xs ! ?i < lo" | "hi < ?xs ! ?i" unfolding median_nth by linarith
    then show False
    proof cases
      case 1
      from less_le_trans [OF count_below [OF sorted_sort i 1] out(1)] split assms idx(1)
      show False by (rule majority_arith(1))
    next
      case 2
      from order_trans [OF count_above [OF sorted_sort i 2] out(2)] split assms idx(2)
      show False by (intro majority_arith(2)) simp_all
    qed
  qed
qed

section \<open>Monotonicity\<close>

lemma mul_fp_nonneg_eq:
  assumes "0 \<le> a" "0 \<le> b"
  shows "mul_fp a b = min (u128_saturating_add (u128_saturating_mul (a div SCALE) b)
    (u128_saturating_mul (a mod SCALE) b div SCALE)) I128_MAX"
proof -
  let ?r = "min (u128_saturating_add (u128_saturating_mul (a div SCALE) b)
    (u128_saturating_mul (a mod SCALE) b div SCALE)) I128_MAX"
  have "0 \<le> a div SCALE * b" "0 \<le> a mod SCALE * b"
    using assms by (simp_all add: pos_imp_zdiv_nonneg_iff)
  then have "0 \<le> ?r"
    by (simp add: u128_saturating_add_def u128_saturating_mul_def pos_imp_zdiv_nonneg_iff)
  moreover have "?r \<le> I128_MAX" by simp
  ultimately have "i128_saturating_mul ?r 1 = ?r" by (rule i128_saturating_mul_sign)
  with assms show ?thesis by (simp add: mul_fp_def Let_def)
qed

lemma mul_fp_nonneg: "0 \<le> a \<Longrightarrow> 0 \<le> b \<Longrightarrow> 0 \<le> mul_fp a b"
  by (simp add: mul_fp_nonneg_eq u128_saturating_add_def u128_saturating_mul_def pos_imp_zdiv_nonneg_iff)

lemma mul_fp_mono:
  assumes "0 \<le> a" "0 \<le> b" "b \<le> c"
  shows "mul_fp a b \<le> mul_fp a c"
proof -
  have m: "u128_saturating_mul k b \<le> u128_saturating_mul k c" if "0 \<le> k" for k
    using mult_left_mono [OF assms(3) that] unfolding u128_saturating_mul_def by linarith
  have "u128_saturating_mul (a mod SCALE) b div SCALE \<le> u128_saturating_mul (a mod SCALE) c div SCALE"
    by (intro zdiv_mono1 m) simp_all
  moreover have "u128_saturating_mul (a div SCALE) b \<le> u128_saturating_mul (a div SCALE) c"
    using assms(1) by (intro m) (simp add: pos_imp_zdiv_nonneg_iff)
  ultimately have "u128_saturating_add (u128_saturating_mul (a div SCALE) b)
      (u128_saturating_mul (a mod SCALE) b div SCALE) \<le>
    u128_saturating_add (u128_saturating_mul (a div SCALE) c) (u128_saturating_mul (a mod SCALE) c div SCALE)"
    unfolding u128_saturating_add_def by linarith
  then show ?thesis using assms by (simp add: mul_fp_nonneg_eq min.coboundedI1)
qed

lemma i128_saturating_mul_mono:
  assumes "0 \<le> t" "t \<le> u" "0 \<le> k"
  shows "0 \<le> i128_saturating_mul t k" "i128_saturating_mul t k \<le> i128_saturating_mul u k"
proof -
  have "0 \<le> t * k" "t * k \<le> u * k" using assms by (simp_all add: mult_right_mono)
  then show "0 \<le> i128_saturating_mul t k" "i128_saturating_mul t k \<le> i128_saturating_mul u k"
    using I128_MIN_le_0 I128_MAX_ge_0 unfolding i128_saturating_mul_def clamp_i128_def by linarith+
qed

text \<open>The fee as a function of one tension value.\<close>

definition fee_at :: "economic_state \<Rightarrow> tension_value \<Rightarrow> tension_value \<Rightarrow> tension_value \<Rightarrow> tension_value" where
  "fee_at e alpha bud t =
     mul_fp (base_fee e) (tension_add SCALE (mul_fp alpha (i128_div (i128_saturating_mul t SCALE) bud)))"

lemma fee_at_mono:
  assumes "0 \<le> base_fee e" "0 \<le> alpha" "0 < bud" "0 \<le> t" "t \<le> u"
  shows "fee_at e alpha bud t \<le> fee_at e alpha bud u"
proof -
  note m = i128_saturating_mul_mono [OF assms(4,5), of SCALE]
  have n: "0 \<le> i128_saturating_mul u SCALE" using m by simp
  have r: "0 \<le> i128_div (i128_saturating_mul t SCALE) bud"
    "i128_div (i128_saturating_mul t SCALE) bud \<le> i128_div (i128_saturating_mul u SCALE) bud"
    using m n assms(3) by (simp_all add: i128_div_pos pos_imp_zdiv_nonneg_iff zdiv_mono1)
  note a = mul_fp_nonneg [OF assms(2) r(1)] mul_fp_mono [OF assms(2) r]
  have "0 \<le> tension_add SCALE (mul_fp alpha (i128_div (i128_saturating_mul t SCALE) bud))"
    using a(1) by (simp add: tension_add_nonneg)
  moreover have "tension_add SCALE (mul_fp alpha (i128_div (i128_saturating_mul t SCALE) bud)) \<le>
    tension_add SCALE (mul_fp alpha (i128_div (i128_saturating_mul u SCALE) bud))"
    using a by (simp add: tension_add_nonneg min.coboundedI1)
  ultimately show ?thesis unfolding fee_at_def by (intro mul_fp_mono [OF assms(1)])
qed

lemma effective_fee_median_at:
  "0 < bud \<Longrightarrow> ts \<noteq> [] \<Longrightarrow>
   effective_fee_median e ts bud p = fee_at e (fee_tension_alpha p) bud (median_of_tensions ts)"
  by (simp add: effective_fee_median_def fee_at_def Let_def)

section \<open>Properties\<close>

text \<open>
  C35. The fee oracle is bounded by the honest majority. If more than half of the window's tensions
  lie in an interval, the median-based fee lies between the fees of the interval's ends, whatever
  values a minority of block producers contribute, and does not depend on the order of the window. The floored fee, the one
  that the validation of a block uses where the ceilings are stored, lies between the floored fees of the interval's ends in the same way, never falls
  below the constitutional floor, and exceeds it only where the fee of the upper end does.
\<close>

theorem fee_oracle_bounded:
  assumes "length ts < 2 * length (filter (within lo hi) ts)" "0 \<le> lo"
    and "0 < bud" "0 \<le> base_fee e" "0 \<le> fee_tension_alpha p"
  shows "effective_fee_median e [lo] bud p \<le> effective_fee_median e ts bud p \<and>
    effective_fee_median e ts bud p \<le> effective_fee_median e [hi] bud p \<and>
    (\<forall>ts'. mset ts' = mset ts \<longrightarrow> effective_fee_median e ts' bud p = effective_fee_median e ts bud p) \<and>
    effective_fee_median_floored e [lo] bud p c \<le> effective_fee_median_floored e ts bud p c \<and>
    effective_fee_median_floored e ts bud p c \<le> effective_fee_median_floored e [hi] bud p c \<and>
    min_effective_fee_floor c \<le> effective_fee_median_floored e ts bud p c \<and>
    effective_fee_median_floored e ts bud p c \<le> max (min_effective_fee_floor c) (effective_fee_median e [hi] bud p)"
proof -
  have ne: "ts \<noteq> []" using assms(1) by auto
  have m: "lo \<le> median_of_tensions ts" "median_of_tensions ts \<le> hi" using median_within [OF assms(1)] by auto
  have "median_of_tensions ts' = median_of_tensions ts" if "mset ts' = mset ts" for ts'
    using that unfolding median_nth by (metis mset_eq_length mset_sort properties_for_sort sorted_sort)
  then have "effective_fee_median e ts' bud p = effective_fee_median e ts bud p" if "mset ts' = mset ts" for ts'
    using that ne assms(3) by (metis effective_fee_median_at mset_zero_iff)
  moreover have "fee_at e (fee_tension_alpha p) bud lo \<le> fee_at e (fee_tension_alpha p) bud (median_of_tensions ts)"
    "fee_at e (fee_tension_alpha p) bud (median_of_tensions ts) \<le> fee_at e (fee_tension_alpha p) bud hi"
    using m assms(2-5) by (auto intro!: fee_at_mono)
  ultimately show ?thesis
    using assms(3) ne by (simp add: effective_fee_median_at effective_fee_median_floored_def Let_def)
qed

theorem fee_oracle_bounded_witness:
  "min_effective_fee_floor constitutional_ceilings_default \<le>
     effective_fee_median_floored economic_state_default [from_integer 10, from_integer 100, from_integer 12]
       (from_integer 1000) consensus_params_default constitutional_ceilings_default \<and>
   effective_fee_median_floored economic_state_default [from_integer 10, from_integer 100, from_integer 12]
       (from_integer 1000) consensus_params_default constitutional_ceilings_default \<le>
     effective_fee_median_floored economic_state_default [from_integer 12] (from_integer 1000) consensus_params_default
       constitutional_ceilings_default"
proof -
  have "0 \<le> from_integer 10" "0 < from_integer 1000" "0 \<le> base_fee economic_state_default"
    "0 \<le> fee_tension_alpha consensus_params_default"
    "length [from_integer 10, from_integer 100, from_integer 12] <
     2 * length (filter (within (from_integer 10) (from_integer 12)) [from_integer 10, from_integer 100, from_integer 12])"
    by (simp_all add: from_integer_def i128_ops machine_int economic_state_default_def consensus_params_default_def)
  from fee_oracle_bounded [OF this(5,1-4)] show ?thesis by blast
qed

text \<open>
  The fee stops responding to load. The ratio of tension to budget is computed by a saturating
  multiplication by the scale before the division, so every tension from 171 units upwards is
  treated as the same value: with a budget of 1000 units the fee at full budget equals the fee at a
  tension of 171 units, below the documented \<open>base_fee * (1 + alpha)\<close>.
\<close>

theorem fee_ratio_saturates:
  "(from_integer 171 \<le> t \<longrightarrow> effective_fee e t bud = effective_fee e (from_integer 171) bud) \<and>
   effective_fee economic_state_default (from_integer 1000) (from_integer 1000) = 1017014118346046923 \<and>
   mul_fp (from_integer 1) (SCALE + SCALE div 10) = 1100000000000000000"
proof -
  have "i128_saturating_mul t SCALE = I128_MAX" if "from_integer 171 \<le> t" for t
  proof -
    have "171 * SCALE * SCALE \<le> t * SCALE"
      using that by (intro mult_right_mono) (simp_all add: from_integer_def i128_ops machine_int)
    then show ?thesis by (simp add: i128_ops machine_int)
  qed
  then have "effective_fee e t bud = effective_fee e (from_integer 171) bud" if "from_integer 171 \<le> t"
    using that by (simp add: effective_fee_def)
  moreover have "effective_fee economic_state_default (from_integer 1000) (from_integer 1000) = 1017014118346046923"
    by code_simp
  moreover have "mul_fp (from_integer 1) (SCALE + SCALE div 10) = 1100000000000000000" by code_simp
  ultimately show ?thesis by blast
qed

theorem fee_ratio_saturates_witness:
  "effective_fee economic_state_default (from_integer 500) (from_integer 1000) =
   effective_fee economic_state_default (from_integer 171) (from_integer 1000)"
proof -
  have "from_integer 171 \<le> from_integer 500" by code_simp
  then show ?thesis using fee_ratio_saturates by blast
qed

end
