(* ===== verification/Scc_Finality.thy ===== *)
theory Scc_Finality
  imports Scc_Prelude "HOL-Library.Product_Lexorder"
begin

text \<open>
  Finality tracking (\<open>consensus/finality.rs\<close>) and the fork-choice rule
  (\<open>consensus/fork_choice.rs\<close>). The finalization loop is a partial function whose value \<open>None\<close>
  is non-termination; that it returns is proved.
\<close>

section \<open>Finality tracker\<close>

record finality_config =
  fc_confirmation_depth :: nat
  max_finality_ms :: nat
  target_block_time_ms :: nat

definition finality_config_default :: finality_config where
  "finality_config_default = \<lparr>fc_confirmation_depth = 2, max_finality_ms = 6000, target_block_time_ms = 2000\<rparr>"

definition expected_finality_ms :: "finality_config \<Rightarrow> nat" where
  "expected_finality_ms c = u64_saturating_mul (fc_confirmation_depth c) (target_block_time_ms c)"

definition meets_sla :: "finality_config \<Rightarrow> bool" where
  "meets_sla c \<longleftrightarrow> expected_finality_ms c \<le> max_finality_ms c"

record finality_certificate =
  fin_block_hash :: hash
  fin_height :: nat
  confirmations :: nat
  fin_attestations :: "hash list"
  finalized_at_ms :: nat

record finality_tracker =
  finalized_height :: nat
  tip_height :: nat
  certificates :: "finality_certificate list"

definition finality_tracker_default :: finality_tracker where
  "finality_tracker_default = \<lparr>finalized_height = 0, tip_height = 0, certificates = []\<rparr>"

definition on_new_block :: "finality_tracker \<Rightarrow> nat \<Rightarrow> finality_tracker" where
  "on_new_block t h = t\<lparr>tip_height := h\<rparr>"

partial_function (option) finality_loop ::
  "nat \<Rightarrow> (nat \<Rightarrow> hash option) \<Rightarrow> finality_tracker \<Rightarrow> finality_certificate list \<Rightarrow>
   (finality_certificate list \<times> finality_tracker) option" where
  "finality_loop depth block_hash_at t new_certs =
     (if u64_saturating_add (finalized_height t) depth \<le> tip_height t
      then let target = u64_saturating_add (finalized_height t) 1
           in case block_hash_at target of
                None \<Rightarrow> Some (new_certs, t)
              | Some bh \<Rightarrow>
                  let cert = \<lparr>fin_block_hash = bh, fin_height = target,
                              confirmations = tip_height t - target, fin_attestations = [],
                              finalized_at_ms = 0\<rparr>
                  in finality_loop depth block_hash_at
                       (t\<lparr>certificates := certificates t @ [cert], finalized_height := target\<rparr>)
                       (new_certs @ [cert])
      else Some (new_certs, t))"

definition check_finality ::
  "finality_config \<Rightarrow> (nat \<Rightarrow> hash option) \<Rightarrow> finality_tracker \<Rightarrow>
   (finality_certificate list \<times> finality_tracker) option" where
  "check_finality c block_hash_at t = finality_loop (fc_confirmation_depth c) block_hash_at t []"

definition finality_gap :: "finality_tracker \<Rightarrow> nat" where
  "finality_gap t = tip_height t - finalized_height t"

section \<open>Fork choice\<close>

record chain_tip =
  ct_block_id :: hash
  ct_height :: nat
  finalized_depth :: nat
  cumulative_voting_power :: nat

datatype ordering = Less_ord | Equal_ord | Greater_ord

definition cmp :: "'a::linorder \<Rightarrow> 'a \<Rightarrow> ordering" where
  "cmp a b = (if a < b then Less_ord else if a = b then Equal_ord else Greater_ord)"

definition score_cmp :: "chain_tip \<Rightarrow> chain_tip \<Rightarrow> ordering" where
  "score_cmp a b =
     (case cmp (finalized_depth a) (finalized_depth b) of
        Equal_ord \<Rightarrow>
          (case cmp (cumulative_voting_power a) (cumulative_voting_power b) of
             Equal_ord \<Rightarrow> cmp (ct_block_id a) (ct_block_id b)
           | ne \<Rightarrow> ne)
      | ne \<Rightarrow> ne)"

datatype fork_choice_outcome = Selected nat | Empty_choice

fun best_tip :: "chain_tip list \<Rightarrow> nat \<Rightarrow> (nat \<times> chain_tip) list \<Rightarrow> nat" where
  "best_tip cands best [] = best"
| "best_tip cands best ((i, tip) # rest) =
     best_tip cands (if score_cmp tip (cands ! best) = Greater_ord then i else best) rest"

definition select_canonical_tip :: "chain_tip list \<Rightarrow> fork_choice_outcome" where
  "select_canonical_tip cands =
     (if cands = [] then Empty_choice
      else Selected (best_tip cands 0 (drop 1 (enumerate 0 cands))))"

datatype reorg_rejection =
    AlternativeDoesNotOutscore
  | RevertPastFinality nat nat nat

definition is_safe_reorg ::
  "chain_tip \<Rightarrow> chain_tip \<Rightarrow> nat \<Rightarrow> nat \<Rightarrow> nat \<Rightarrow> reorg_rejection + unit" where
  "is_safe_reorg current alternative common_ancestor_height deepest depth =
     (if score_cmp alternative current \<noteq> Greater_ord then Inl AlternativeDoesNotOutscore
      else if deepest \<ge> depth then Inl (RevertPastFinality common_ancestor_height deepest depth)
      else Inr ())"

section \<open>The finalization loop\<close>

abbreviation cert_for :: "(nat \<Rightarrow> hash option) \<Rightarrow> nat \<Rightarrow> nat \<Rightarrow> finality_certificate" where
  "cert_for at tip h \<equiv> \<lparr>fin_block_hash = the (at h), fin_height = h, confirmations = tip - h,
     fin_attestations = [], finalized_at_ms = 0\<rparr>"

text \<open>The last height the loop can reach, and where it stops for an unknown block.\<close>

lemma finality_loop_result:
  assumes "tip_height t < U64_MAX" "0 < depth" "n = tip_height t + 1 - depth"
    and "\<forall>h. finalized_height t < h \<and> h \<le> n \<longrightarrow> at h \<noteq> None"
  shows "finality_loop depth at t new =
    (let certs = map (cert_for at (tip_height t)) [Suc (finalized_height t) ..< Suc n]
     in Some (new @ certs, t\<lparr>certificates := certificates t @ certs,
          finalized_height := max (finalized_height t) n\<rparr>))"
  using assms
proof (induction "n - finalized_height t" arbitrary: t new rule: less_induct)
  case less
  let ?f = "finalized_height t" and ?tip = "tip_height t"
  have cond: "u64_saturating_add ?f depth \<le> ?tip \<longleftrightarrow> ?f < n"
    using less.prems(1-3) by (auto simp: u64_saturating_add_def)
  show ?case
  proof (cases "?f < n")
    case False
    then show ?thesis using cond
      by (subst finality_loop.simps) (simp add: max_def)
  next
    case True
    let ?c = "cert_for at ?tip (Suc ?f)"
    let ?t = "t\<lparr>certificates := certificates t @ [?c], finalized_height := Suc ?f\<rparr>"
    have s: "u64_saturating_add ?f 1 = Suc ?f"
      using True less.prems(1-3) by (simp add: u64_saturating_add_def)
    have "\<forall>h. finalized_height ?t < h \<and> h \<le> n \<longrightarrow> at h \<noteq> None" using less.prems(4) by simp
    then have "finality_loop depth at ?t (new @ [?c]) =
      (let certs = map (cert_for at (tip_height ?t)) [Suc (finalized_height ?t) ..< Suc n]
       in Some ((new @ [?c]) @ certs, ?t\<lparr>certificates := certificates ?t @ certs,
            finalized_height := max (finalized_height ?t) n\<rparr>))"
      using True less.prems(1-3) by (intro less.hyps) simp_all
    moreover obtain bh where "at (Suc ?f) = Some bh" using less.prems(4) True by (metis Suc_leI lessI option.exhaust)
    moreover have "[Suc ?f ..< Suc n] = Suc ?f # [Suc (Suc ?f) ..< Suc n]"
      using True by (simp add: upt_conv_Cons del: upt_Suc)
    ultimately show ?thesis
      using True cond s by (subst finality_loop.simps) (simp add: Let_def max_def del: upt_Suc)
  qed
qed

section \<open>The score order\<close>

definition score :: "chain_tip \<Rightarrow> nat \<times> nat \<times> hash" where
  "score t = (finalized_depth t, cumulative_voting_power t, ct_block_id t)"

lemma cmp_simps [simp]:
  "cmp a b = Greater_ord \<longleftrightarrow> b < a" "cmp a b = Equal_ord \<longleftrightarrow> a = b" "cmp a b = Less_ord \<longleftrightarrow> a < b"
  by (auto simp: cmp_def)

lemma score_cmp_Greater: "score_cmp a b = Greater_ord \<longleftrightarrow> score b < score a"
  by (auto simp: score_cmp_def score_def less_prod_def split: ordering.splits)

text \<open>The scan keeps the best of the candidates seen.\<close>

lemma best_tip_best:
  assumes "best < length cands" "\<forall>(i, tip) \<in> set rest. i < length cands \<and> tip = cands ! i"
  shows "best_tip cands best rest < length cands \<and>
    score (cands ! best) \<le> score (cands ! best_tip cands best rest) \<and>
    (\<forall>(i, tip) \<in> set rest. score tip \<le> score (cands ! best_tip cands best rest))"
  using assms
proof (induction cands best rest rule: best_tip.induct)
  case (2 cands best i tip rest)
  let ?b = "if score_cmp tip (cands ! best) = Greater_ord then i else best"
  have "?b < length cands" and t: "tip = cands ! i" using 2(2,3) by auto
  with 2 have ih: "best_tip cands ?b rest < length cands"
    "score (cands ! ?b) \<le> score (cands ! best_tip cands ?b rest)"
    "\<forall>(i, tip) \<in> set rest. score tip \<le> score (cands ! best_tip cands ?b rest)" by auto
  have "score (cands ! best) \<le> score (cands ! ?b)" "score tip \<le> score (cands ! ?b)"
    using t by (auto simp: score_cmp_Greater)
  with ih show ?case by (auto intro: order_trans)
qed simp

lemma select_canonical_tip_best:
  assumes "cands \<noteq> []"
  obtains k where "select_canonical_tip cands = Selected k" "k < length cands"
    "\<forall>t \<in> set cands. score t \<le> score (cands ! k)"
proof -
  let ?rest = "drop 1 (enumerate 0 cands)" and ?k = "best_tip cands 0 (drop 1 (enumerate 0 cands))"
  have "\<forall>(i, tip) \<in> set ?rest. i < length cands \<and> tip = cands ! i"
    using in_set_dropD by (fastforce simp: in_set_enumerate_eq)
  then have b: "?k < length cands" "score (cands ! 0) \<le> score (cands ! ?k)"
    "\<forall>(i, tip) \<in> set ?rest. score tip \<le> score (cands ! ?k)"
    using best_tip_best [of 0 cands ?rest] assms by auto
  have "score t \<le> score (cands ! ?k)" if t: "t \<in> set cands" for t
  proof -
    from t obtain i where i: "i < length cands" "t = cands ! i" by (auto simp: in_set_conv_nth)
    show ?thesis
    proof (cases i)
      case 0
      then show ?thesis using b(2) i by simp
    next
      case (Suc j)
      then have "?rest ! j = (i, t)" "j < length ?rest" using i by (simp_all add: nth_enumerate_eq)
      then have "(i, t) \<in> set ?rest" by (metis nth_mem)
      then show ?thesis using b(3) by blast
    qed
  qed
  with b assms show ?thesis by (intro that [of ?k]) (simp_all add: select_canonical_tip_def)
qed

section \<open>Properties\<close>

text \<open>
  C33. Finality tracking terminates and certifies consecutive blocks. With a positive depth, a tip
  below the 64-bit limit and the chain's blocks known, the loop returns: it certifies exactly the
  blocks after the last finalized one up to height \<open>tip + 1 - depth\<close>, in order, each with the number
  of blocks above it, and advances the finalized height there. A block is thus certified once
  \<open>depth - 1\<close> blocks stand above it, one less than the \<open>k\<close> subsequent blocks of the documented
  definition.
\<close>

theorem check_finality_certifies:
  assumes "tip_height t < U64_MAX" "0 < fc_confirmation_depth c"
    and "n = tip_height t + 1 - fc_confirmation_depth c"
    and "\<forall>h. finalized_height t < h \<and> h \<le> n \<longrightarrow> at h \<noteq> None"
  shows "\<exists>certs t'. check_finality c at t = Some (certs, t') \<and>
    map fin_height certs = [Suc (finalized_height t) ..< Suc n] \<and>
    (\<forall>x \<in> set certs. at (fin_height x) = Some (fin_block_hash x) \<and>
       confirmations x = tip_height t - fin_height x \<and> fc_confirmation_depth c - 1 \<le> confirmations x) \<and>
    (certs \<noteq> [] \<longrightarrow> confirmations (last certs) = fc_confirmation_depth c - 1) \<and>
    certificates t' = certificates t @ certs \<and> finalized_height t' = max (finalized_height t) n \<and>
    tip_height t' = tip_height t"
proof -
  let ?certs = "map (cert_for at (tip_height t)) [Suc (finalized_height t) ..< Suc n]"
  have "check_finality c at t = Some (?certs, t\<lparr>certificates := certificates t @ ?certs,
      finalized_height := max (finalized_height t) n\<rparr>)"
    unfolding check_finality_def
    by (subst finality_loop_result [OF assms]) (simp add: Let_def del: upt_Suc)
  moreover have "map fin_height ?certs = [Suc (finalized_height t) ..< Suc n]"
    by (simp add: comp_def del: upt_Suc)
  moreover have "at (fin_height x) = Some (fin_block_hash x) \<and> confirmations x = tip_height t - fin_height x \<and>
      fc_confirmation_depth c - 1 \<le> confirmations x" if "x \<in> set ?certs" for x
    using that assms(2-4) by (auto simp: less_Suc_eq_le Suc_le_eq simp del: upt_Suc)
  moreover have "confirmations (last ?certs) = fc_confirmation_depth c - 1" if "?certs \<noteq> []"
  proof -
    from that have "finalized_height t < n" by (simp del: upt_Suc)
    then have "last ?certs = cert_for at (tip_height t) n" by (simp add: last_map)
    with \<open>finalized_height t < n\<close> assms(2,3) show ?thesis by simp
  qed
  ultimately obtain certs where "check_finality c at t = Some (certs, t\<lparr>certificates := certificates t @ certs,
      finalized_height := max (finalized_height t) n\<rparr>)"
    "map fin_height certs = [Suc (finalized_height t) ..< Suc n]"
    "\<forall>x \<in> set certs. at (fin_height x) = Some (fin_block_hash x) \<and>
       confirmations x = tip_height t - fin_height x \<and> fc_confirmation_depth c - 1 \<le> confirmations x"
    "certs \<noteq> [] \<longrightarrow> confirmations (last certs) = fc_confirmation_depth c - 1" by blast
  then show ?thesis
    by (intro exI [of _ certs] exI [of _ "t\<lparr>certificates := certificates t @ certs,
      finalized_height := max (finalized_height t) n\<rparr>"] conjI) (assumption | simp)+
qed

theorem check_finality_witness:
  "\<exists>certs t'. check_finality finality_config_default (\<lambda>h. Some (of_nat h))
      (on_new_block finality_tracker_default 2) = Some (certs, t') \<and>
     map fin_height certs = [1] \<and> confirmations (last certs) = 1"
  using check_finality_certifies [of "on_new_block finality_tracker_default 2" finality_config_default 1
      "\<lambda>h. Some (of_nat h)"]
  by (fastforce simp: on_new_block_def finality_tracker_default_def finality_config_default_def U64_MAX_def)

text \<open>
  Fork choice is deterministic. On a non-empty list of candidates whose scores differ, the tip
  selected has the strictly highest score (finalized depth, then voting power, then hash), and
  every other listing of the same candidates selects the same tip. A reorganization is accepted only
  to a strictly better tip and never across a block finalized to the confirmation depth, so no two
  tips are safe reorganizations of each other.
\<close>

theorem fork_choice_deterministic:
  assumes "cands \<noteq> []" "inj_on score (set cands)" "set cands' = set cands"
  shows "\<exists>k k'. select_canonical_tip cands = Selected k \<and> select_canonical_tip cands' = Selected k' \<and>
    cands ! k = cands' ! k' \<and> (\<forall>t \<in> set cands. t \<noteq> cands ! k \<longrightarrow> score t < score (cands ! k)) \<and>
    (\<forall>a b h d e h' d' e'. is_safe_reorg a b h d e = Inr () \<longrightarrow>
       d < e \<and> is_safe_reorg b a h' d' e' \<noteq> Inr ())"
proof -
  from assms have "cands' \<noteq> []" by auto
  with assms obtain k k' where k: "select_canonical_tip cands = Selected k" "k < length cands"
    "\<forall>t \<in> set cands. score t \<le> score (cands ! k)"
    and k': "select_canonical_tip cands' = Selected k'" "k' < length cands'"
    "\<forall>t \<in> set cands'. score t \<le> score (cands' ! k')"
    by (metis select_canonical_tip_best)
  have "cands ! k \<in> set cands" "cands' ! k' \<in> set cands" using k k' assms(3) by (metis nth_mem)+
  moreover have "score (cands ! k) = score (cands' ! k')"
    using k k' assms(3) calculation by (intro antisym) auto
  ultimately have eq: "cands ! k = cands' ! k'" using assms(2) by (auto dest: inj_onD)
  have "\<forall>t \<in> set cands. t \<noteq> cands ! k \<longrightarrow> score t < score (cands ! k)"
    using k \<open>cands ! k \<in> set cands\<close> assms(2) by (metis inj_onD order_le_less)
  moreover have "d < e \<and> is_safe_reorg b a h' d' e' \<noteq> Inr ()" if "is_safe_reorg a b h d e = Inr ()"
    for a b h d e h' d' e'
    using that by (auto simp: is_safe_reorg_def score_cmp_Greater split: if_splits)
  ultimately show ?thesis using k(1) k'(1) eq by blast
qed

abbreviation sample_tip :: "hash \<Rightarrow> nat \<Rightarrow> chain_tip" where
  "sample_tip b d \<equiv> \<lparr>ct_block_id = b, ct_height = 9, finalized_depth = d, cumulative_voting_power = 3\<rparr>"

theorem fork_choice_witness:
  "\<exists>k k'. select_canonical_tip [sample_tip 1 4, sample_tip 2 5] = Selected k \<and>
     select_canonical_tip [sample_tip 2 5, sample_tip 1 4] = Selected k' \<and>
     [sample_tip 1 4, sample_tip 2 5] ! k = [sample_tip 2 5, sample_tip 1 4] ! k'"
proof -
  have "inj_on score (set [sample_tip 1 4, sample_tip 2 5])" by (auto simp: inj_on_def score_def)
  from fork_choice_deterministic [OF _ this, of "[sample_tip 2 5, sample_tip 1 4]"] show ?thesis
    by (simp add: insert_commute) blast
qed

end
