(* ===== verification/Scc_View_Change.thy ===== *)
theory Scc_View_Change
  imports Scc_Validator_Set
begin

text \<open>
  The view-change protocol of \<open>consensus/view_change.rs\<close>: round timeouts, leader selection, and the
  admission of \<open>NewRound\<close> messages up to a quorum of voting power. BLAKE3, Ed25519 and the encoding
  of the signed payload are parameters.
\<close>

section \<open>Definitions\<close>

record new_round_message =
  nr_height :: nat
  nr_round :: nat
  last_prevote :: "hash option"
  nr_signer :: hash
  nr_signature :: bytes

type_synonym new_round_canon = "nat \<times> nat \<times> hash option \<times> hash \<Rightarrow> bytes"

definition payload_bytes :: "new_round_canon \<Rightarrow> new_round_message \<Rightarrow> bytes" where
  "payload_bytes nrc m = nrc (nr_height m, nr_round m, last_prevote m, nr_signer m)"

definition round_timeout_ms :: "nat \<Rightarrow> nat \<Rightarrow> nat \<Rightarrow> nat" where
  "round_timeout_ms base cap round = min (u64_saturating_mul base (2 ^ min round 31)) cap"

text \<open>The loop that reduces the digest byte by byte: \<open>((acc << 8) | byte) % n\<close>.\<close>

fun reduce_digest :: "nat \<Rightarrow> nat \<Rightarrow> bytes \<Rightarrow> nat" where
  "reduce_digest n acc [] = acc"
| "reduce_digest n acc (b # bs) = reduce_digest n ((acc * 256 + of_char b) mod n) bs"

definition u32_to_le_bytes :: "nat \<Rightarrow> bytes" where
  "u32_to_le_bytes n = le_bytes 4 n"

definition select_leader ::
  "(bytes \<Rightarrow> hash) \<Rightarrow> validator_set_t \<Rightarrow> nat \<Rightarrow> nat \<Rightarrow> hash \<Rightarrow> validator_record option" where
  "select_leader B s h round prior =
     (let active = active_at s h
      in if active = [] then None
         else
           let digest = B (hash_bytes prior @ u64_to_le_bytes h @ u32_to_le_bytes round);
               idx = reduce_digest (length active) 0 (hash_bytes digest)
           in Some (active ! idx))"

definition prior_block_hash_for_height :: "nat \<Rightarrow> hash \<Rightarrow> hash" where
  "prior_block_hash_for_height h parent = (if h \<le> 1 then ZERO_HASH else parent)"

record round_advance =
  admitted :: "(hash, new_round_message) btreemap"

definition round_advance_new :: round_advance where
  "round_advance_new = \<lparr>admitted = []\<rparr>"

datatype new_round_rejection =
    NrHeightMismatch nat nat
  | NrRoundMismatch nat nat
  | NrSignerNotInActiveSet hash
  | NrSignatureInvalid hash
  | NrDuplicateSigner hash

definition admitted_count :: "round_advance \<Rightarrow> nat" where
  "admitted_count ra = length (admitted ra)"

text \<open>The sum over the admitted signers, saturating at 128 bits.\<close>

definition admitted_power :: "round_advance \<Rightarrow> validator_set_t \<Rightarrow> nat \<Rightarrow> nat" where
  "admitted_power ra s h =
     fold (\<lambda>v acc. case find_active_by_validator_id s v h of
             Some r \<Rightarrow> min (acc + voting_power r) (2 ^ 128 - 1) | None \<Rightarrow> acc)
       (map fst (admitted ra)) 0"

definition has_quorum :: "round_advance \<Rightarrow> validator_set_t \<Rightarrow> nat \<Rightarrow> bool" where
  "has_quorum ra s h \<longleftrightarrow> quorum_power_at s h \<le> admitted_power ra s h"

definition admit ::
  "sig_verify \<Rightarrow> new_round_canon \<Rightarrow> round_advance \<Rightarrow> new_round_message \<Rightarrow> validator_set_t \<Rightarrow> nat \<Rightarrow> nat \<Rightarrow>
   new_round_rejection + round_advance" where
  "admit verify nrc ra m s target_height target_round =
     (if nr_height m \<noteq> target_height then Inl (NrHeightMismatch (nr_height m) target_height)
      else if nr_round m \<noteq> target_round then Inl (NrRoundMismatch (nr_round m) target_round)
      else if find_active_by_validator_id s (nr_signer m) target_height = None
      then Inl (NrSignerNotInActiveSet (nr_signer m))
      else if \<not> verify (nr_signer m) (payload_bytes nrc m) (nr_signature m)
      then Inl (NrSignatureInvalid (nr_signer m))
      else if map_of (admitted ra) (nr_signer m) \<noteq> None then Inl (NrDuplicateSigner (nr_signer m))
      else Inr (ra\<lparr>admitted := bt_insert (nr_signer m) m (admitted ra)\<rparr>))"

section \<open>Leader selection\<close>

lemma reduce_digest_mod:
  "acc < n \<Longrightarrow> reduce_digest n acc bs = (acc * 256 ^ length bs + of_le_bytes (rev bs)) mod n"
proof (induction n acc bs rule: reduce_digest.induct)
  case (2 n acc b bs)
  have le: "of_le_bytes (xs @ [b]) = of_le_bytes xs + of_char b * 256 ^ length xs" for xs
    by (induction xs) (simp_all add: algebra_simps)
  have "reduce_digest n acc (b # bs) =
      ((acc * 256 + of_char b) mod n * 256 ^ length bs + of_le_bytes (rev bs)) mod n"
    using 2 by simp
  also have "\<dots> = ((acc * 256 + of_char b) * 256 ^ length bs + of_le_bytes (rev bs)) mod n"
    by (metis mod_add_left_eq mod_mult_left_eq)
  finally show ?case by (simp add: le algebra_simps)
qed simp

lemma reduce_digest_hash:
  assumes "0 < n"
  shows "reduce_digest n 0 (hash_bytes d) = unat d mod n"
proof -
  have "unat d < 256 ^ 32" using unsigned_less [of d] by simp
  with assms show ?thesis by (simp add: reduce_digest_mod hash_bytes_def of_le_bytes_le_bytes)
qed

section \<open>Round advancement\<close>

inductive advance_reachable ::
  "sig_verify \<Rightarrow> new_round_canon \<Rightarrow> validator_set_t \<Rightarrow> nat \<Rightarrow> nat \<Rightarrow> round_advance \<Rightarrow> bool"
  for verify nrc s h r where
  advance_start: "advance_reachable verify nrc s h r round_advance_new"
| advance_admit: "advance_reachable verify nrc s h r ra \<Longrightarrow> admit verify nrc ra m s h r = Inr ra' \<Longrightarrow>
    advance_reachable verify nrc s h r ra'"

definition message_ok ::
  "sig_verify \<Rightarrow> new_round_canon \<Rightarrow> validator_set_t \<Rightarrow> nat \<Rightarrow> nat \<Rightarrow> hash \<times> new_round_message \<Rightarrow> bool" where
  "message_ok verify nrc s h r e \<longleftrightarrow> nr_signer (snd e) = fst e \<and> fst e \<in> active_keys s h \<and>
     nr_height (snd e) = h \<and> nr_round (snd e) = r \<and>
     verify (fst e) (payload_bytes nrc (snd e)) (nr_signature (snd e))"

lemma set_bt_insert: "set (bt_insert k v m) \<subseteq> insert (k, v) (set m)"
  by (induction m) auto

lemma admit_Inr:
  "admit verify nrc ra m s h r = Inr ra' \<Longrightarrow>
     ra' = ra\<lparr>admitted := bt_insert (nr_signer m) m (admitted ra)\<rparr> \<and>
     message_ok verify nrc s h r (nr_signer m, m)"
proof -
  assume a: "admit verify nrc ra m s h r = Inr ra'"
  then obtain x where "find_active_by_validator_id s (nr_signer m) h = Some x"
    by (auto simp: admit_def split: if_splits)
  then have "nr_signer m \<in> active_keys s h"
    unfolding active_keys_def by (metis find_active_Some image_eqI)
  with a show ?thesis by (auto simp: admit_def message_ok_def split: if_splits)
qed

lemma advance_invariant:
  "advance_reachable verify nrc s h r ra \<Longrightarrow>
     bt_sorted (admitted ra) \<and> (\<forall>e \<in> set (admitted ra). message_ok verify nrc s h r e)"
proof (induction rule: advance_reachable.induct)
  case advance_start
  then show ?case by (simp add: round_advance_new_def)
next
  case (advance_admit ra m ra')
  then show ?case using admit_Inr [OF advance_admit(2)] set_bt_insert [of "nr_signer m" m "admitted ra"] by auto
qed

lemma admitted_power_le:
  "fold (\<lambda>v acc. case find_active_by_validator_id s v h of
      Some r \<Rightarrow> min (acc + voting_power r) (2 ^ 128 - 1) | None \<Rightarrow> acc) vs acc
   \<le> acc + sum_list (map (key_power s h) vs)"
proof (induction vs arbitrary: acc)
  case (Cons v vs)
  let ?f = "\<lambda>v acc. case find_active_by_validator_id s v h of
      Some r \<Rightarrow> min (acc + voting_power r) (2 ^ 128 - 1) | None \<Rightarrow> acc"
  have "?f v acc \<le> acc + key_power s h v" by (simp add: key_power_def split: option.splits)
  with Cons.IH [of "?f v acc"] show ?case by simp
qed simp

lemma quorum_of_advance:
  assumes "canonical_set s" "advance_reachable verify nrc s h r ra" "has_quorum ra s h"
  shows "weight_quorum (key_power s h) (active_keys s h) (fst ` set (admitted ra))"
proof -
  note i = advance_invariant [OF assms(2)]
  have "distinct (map fst (admitted ra))" using i bt_sorted_distinct by blast
  then have "sum_list (map (key_power s h) (map fst (admitted ra))) = sum (key_power s h) (set (map fst (admitted ra)))"
    by (rule sum_list_distinct_conv_sum_set)
  then have "quorum_power_at s h \<le> sum (key_power s h) (fst ` set (admitted ra))"
    using assms(3) admitted_power_le [of s h "map fst (admitted ra)" 0]
    by (simp add: has_quorum_def admitted_power_def)
  moreover have "fst ` set (admitted ra) \<subseteq> active_keys s h" using i by (auto simp: message_ok_def)
  ultimately show ?thesis
    unfolding weight_quorum_def quorum_power_at_def total_power_sum [OF assms(1)]
    by (simp add: mult.commute active_keys_def)
qed

section \<open>Properties\<close>

text \<open>
  Leader selection is the modular choice it documents: reducing the digest byte by byte equals
  reading it as one 256-bit big-endian number modulo the size of the active set, so the leader is
  the active validator at that position; there is a leader exactly when some validator is active.
  Timeouts never exceed their cap, never shrink from one round to the next, and double until the
  cap.
\<close>

theorem leader_is_digest_mod:
  "select_leader B s h r prior =
     (if active_at s h = [] then None
      else Some (active_at s h !
        (unat (B (hash_bytes prior @ u64_to_le_bytes h @ u32_to_le_bytes r)) mod length (active_at s h)))) \<and>
   (\<forall>v. select_leader B s h r prior = Some v \<longrightarrow> v \<in> set (vs_records s) \<and> is_active_at v h) \<and>
   round_timeout_ms base cap r \<le> cap \<and> round_timeout_ms base cap r \<le> round_timeout_ms base cap (Suc r) \<and>
   (r \<le> 31 \<longrightarrow> base \<le> U32_MAX \<longrightarrow> round_timeout_ms base cap r = min (base * 2 ^ r) cap)"
proof -
  have l: "select_leader B s h r prior = (if active_at s h = [] then None
      else Some (active_at s h !
        (unat (B (hash_bytes prior @ u64_to_le_bytes h @ u32_to_le_bytes r)) mod length (active_at s h))))"
    by (simp add: select_leader_def reduce_digest_hash Let_def)
  have "v \<in> set (active_at s h)" if "select_leader B s h r prior = Some v" for v
    using that unfolding l by (auto split: if_splits)
  then have "\<forall>v. select_leader B s h r prior = Some v \<longrightarrow> v \<in> set (vs_records s) \<and> is_active_at v h"
    by (auto simp: active_at_def)
  moreover have "(2::nat) ^ min r 31 \<le> 2 ^ min (Suc r) 31" by (intro power_increasing) auto
  then have "base * 2 ^ min r 31 \<le> base * 2 ^ min (Suc r) 31" by simp
  then have "round_timeout_ms base cap r \<le> round_timeout_ms base cap (Suc r)"
    unfolding round_timeout_ms_def u64_saturating_mul_def by linarith
  moreover have "base * 2 ^ r \<le> U64_MAX" if "r \<le> 31" "base \<le> U32_MAX"
  proof -
    have "base * 2 ^ r \<le> U32_MAX * 2 ^ 31" using that by (intro mult_le_mono power_increasing) auto
    then show ?thesis by (simp add: machine_int)
  qed
  then have "r \<le> 31 \<longrightarrow> base \<le> U32_MAX \<longrightarrow> round_timeout_ms base cap r = min (base * 2 ^ r) cap"
    by (simp add: round_timeout_ms_def u64_saturating_mul_def)
  ultimately show ?thesis using l by (simp add: round_timeout_ms_def)
qed

theorem leader_is_digest_mod_witness:
  "select_leader (\<lambda>_. 5) sample_set 3 0 0 = Some (sample_validator 2 20 5) \<and>
   round_timeout_ms 1000 60000 5 = 32000"
proof -
  have "active_at sample_set 3 = [sample_validator 1 10 5, sample_validator 2 20 5]"
    by (simp add: active_at_def sample_set_def sample_validator_def is_active_at_def)
  moreover have "(5 :: nat) mod Suc (Suc 0) = Suc 0" by (simp add: numeral_2_eq_2 [symmetric])
  ultimately show ?thesis
    using leader_is_digest_mod [of "\<lambda>_. 5" sample_set 3 0 0]
      leader_is_digest_mod [of "\<lambda>_. 5" sample_set 3 5 0 1000 60000]
    by (simp add: U32_MAX_def)
qed

text \<open>
  A round advances only with a quorum: when the messages admitted for a height and round reach
  quorum, they come from distinct active validators holding more than two thirds of the power, each
  message is for that height and round and strictly signed by its sender; two nodes that advance
  share a sender outside any coalition with at most a third of the power.
\<close>

theorem round_advance_quorum:
  assumes "canonical_set s"
    and "advance_reachable verify nrc s h r ra" "has_quorum ra s h"
    and "advance_reachable verify nrc s h r ra'" "has_quorum ra' s h"
    and "weight_tolerable (key_power s h) (active_keys s h) F"
  shows "(\<forall>(v, m) \<in> set (admitted ra). v \<in> active_keys s h \<and> nr_signer m = v \<and> nr_height m = h \<and>
       nr_round m = r \<and> verify v (payload_bytes nrc m) (nr_signature m)) \<and>
    2 * total_power_at s h < 3 * sum (key_power s h) (fst ` set (admitted ra)) \<and>
    (\<exists>v. v \<in> active_keys s h - F \<and> v \<in> fst ` set (admitted ra) \<and> v \<in> fst ` set (admitted ra'))"
proof -
  have quorum_arith: "2 * n div 3 + 1 \<le> a \<Longrightarrow> 2 * n < 3 * a" for n a :: nat by presburger
  note q = quorum_of_advance [OF assms(1-3)] and q' = quorum_of_advance [OF assms(1,4,5)]
  have "2 * sum (key_power s h) (active_keys s h) < 3 * sum (key_power s h) (fst ` set (admitted ra))"
    using q quorum_arith unfolding weight_quorum_def by blast
  then have "2 * total_power_at s h < 3 * sum (key_power s h) (fst ` set (admitted ra))"
    by (simp only: total_power_sum [OF assms(1)])
  moreover obtain v where "v \<in> fst ` set (admitted ra) \<inter> fst ` set (admitted ra') - F"
    using weight.quorum_intersect [OF q q' assms(6)] by blast
  moreover have "fst ` set (admitted ra) \<subseteq> active_keys s h" using q by (simp add: weight_quorum_def)
  moreover have "\<forall>(v, m) \<in> set (admitted ra). v \<in> active_keys s h \<and> nr_signer m = v \<and> nr_height m = h \<and>
       nr_round m = r \<and> verify v (payload_bytes nrc m) (nr_signature m)"
    using advance_invariant [OF assms(2)] by (auto simp: message_ok_def)
  ultimately show ?thesis by blast
qed

abbreviation new_round_from :: "hash \<Rightarrow> new_round_message" where
  "new_round_from v \<equiv> \<lparr>nr_height = 3, nr_round = 1, last_prevote = None, nr_signer = v, nr_signature = ''s''\<rparr>"

abbreviation sample_advance :: round_advance where
  "sample_advance \<equiv> \<lparr>admitted = [(10, new_round_from 10), (20, new_round_from 20)]\<rparr>"

lemma sample_advance_reachable: "advance_reachable (\<lambda>_ _ _. True) (\<lambda>_. []) sample_set 3 1 sample_advance"
proof -
  have f: "find_active_by_validator_id sample_set 10 3 \<noteq> None" "find_active_by_validator_id sample_set 20 3 \<noteq> None"
    by (simp_all add: find_active_by_validator_id_def sample_set_def sample_validator_def is_active_at_def)
  have "admit (\<lambda>_ _ _. True) (\<lambda>_. []) round_advance_new (new_round_from 10) sample_set 3 1 =
      Inr \<lparr>admitted = [(10, new_round_from 10)]\<rparr>"
    "admit (\<lambda>_ _ _. True) (\<lambda>_. []) \<lparr>admitted = [(10, new_round_from 10)]\<rparr> (new_round_from 20) sample_set 3 1 =
      Inr sample_advance"
    using f by (simp_all add: admit_def round_advance_new_def)
  then show ?thesis by (meson advance_start advance_admit)
qed

theorem round_advance_quorum_witness:
  "2 * total_power_at sample_set 3 < 3 * sum (key_power sample_set 3) (fst ` set (admitted sample_advance))"
proof -
  have q: "has_quorum sample_advance sample_set 3"
    by (simp add: has_quorum_def admitted_power_def quorum_power_at_def total_power_at_def sample_set_def
        sample_validator_def is_active_at_def find_active_by_validator_id_def)
  have t: "weight_tolerable (key_power sample_set 3) (active_keys sample_set 3) {}"
    by (simp add: weight_tolerable_def)
  show ?thesis
    using round_advance_quorum [OF canonical_sample_set sample_advance_reachable q sample_advance_reachable q t]
    by blast
qed

end
