(* ===== verification/Scc_Slashing.thy ===== *)
theory Scc_Slashing
  imports Scc_Protocol Scc_Tension
begin

text \<open>
  The stake penalties of \<open>consensus/slashing.rs\<close>. An engine holds the stakes, the log of slashing
  events, the list of removed validators and the absence counters. Every run of the engine keeps an
  exact account: what a validator has lost is the sum of the penalties logged for it, and no stake
  becomes negative.
\<close>

section \<open>Definitions\<close>

record slashing_config =
  double_sign_penalty_pct :: nat
  divergence_penalty_pct :: nat
  absence_penalty_pct_per_epoch :: nat
  max_absence_epochs :: nat

definition slashing_config_default :: slashing_config where
  "slashing_config_default =
     \<lparr>double_sign_penalty_pct = 32, divergence_penalty_pct = 10, absence_penalty_pct_per_epoch = 1,
      max_absence_epochs = 10\<rparr>"

datatype violation_type = DoubleSigning | LawSetDivergence | Absence (epochs_missed: nat)

datatype slashing_evidence =
    EvEquivocation equivocation_proof
  | EvLawDivergence hash hash
  | EvAbsenceRecord "nat list"

record slashing_event =
  se_validator_id :: hash
  se_violation :: violation_type
  se_penalty :: tension_value
  se_epoch :: nat
  se_evidence :: slashing_evidence

record slashing_engine =
  sl_config :: slashing_config
  stakes :: "(hash, tension_value) hashmap"
  sl_events :: "slashing_event list"
  sl_removed :: "hash list"
  absence_counter :: "(hash, nat) hashmap"

definition slashing_engine_new :: "slashing_config \<Rightarrow> slashing_engine" where
  "slashing_engine_new c =
     \<lparr>sl_config = c, stakes = [], sl_events = [], sl_removed = [], absence_counter = []\<rparr>"

definition set_stake :: "slashing_engine \<Rightarrow> hash \<Rightarrow> tension_value \<Rightarrow> slashing_engine" where
  "set_stake e v s = e\<lparr>stakes := AList.update v s (stakes e)\<rparr>"

text \<open>\<open>i128\<close> division by the literal 100 of a value clamped to be non-negative.\<close>

definition penalty_of :: "nat \<Rightarrow> tension_value \<Rightarrow> tension_value" where
  "penalty_of pct s =
     (let stake_raw = max s 0
      in min (i128_saturating_mul stake_raw (int pct) div 100) stake_raw)"

definition stake_after :: "nat \<Rightarrow> tension_value \<Rightarrow> tension_value" where
  "stake_after pct s = max (i128_saturating_sub s (penalty_of pct s)) 0"

datatype slashing_error = SlashedValidatorNotFound

definition slash_double_sign ::
  "slashing_engine \<Rightarrow> equivocation_proof \<Rightarrow> nat \<Rightarrow> slashing_error + (slashing_event \<times> slashing_engine)" where
  "slash_double_sign e prf ep =
     (let v = ep_validator_id prf
      in case map_of (stakes e) v of
           None \<Rightarrow> Inl SlashedValidatorNotFound
         | Some s \<Rightarrow>
             let pct = double_sign_penalty_pct (sl_config e);
                 new_stake = stake_after pct s;
                 ev = \<lparr>se_validator_id = v, se_violation = DoubleSigning, se_penalty = penalty_of pct s,
                       se_epoch = ep, se_evidence = EvEquivocation prf\<rparr>
             in Inr (ev,
                  e\<lparr>stakes := AList.update v new_stake (stakes e),
                    sl_events := sl_events e @ [ev],
                    sl_removed := (if new_stake \<le> 0 then sl_removed e @ [v] else sl_removed e)\<rparr>))"

definition slash_divergence ::
  "slashing_engine \<Rightarrow> hash \<Rightarrow> hash \<Rightarrow> hash \<Rightarrow> nat \<Rightarrow> slashing_error + (slashing_event \<times> slashing_engine)" where
  "slash_divergence e v validator_law_hash consensus_law_hash ep =
     (case map_of (stakes e) v of
        None \<Rightarrow> Inl SlashedValidatorNotFound
      | Some s \<Rightarrow>
          let pct = divergence_penalty_pct (sl_config e);
              new_stake = stake_after pct s;
              ev = \<lparr>se_validator_id = v, se_violation = LawSetDivergence, se_penalty = penalty_of pct s,
                    se_epoch = ep, se_evidence = EvLawDivergence validator_law_hash consensus_law_hash\<rparr>
          in Inr (ev,
               e\<lparr>stakes := AList.update v new_stake (stakes e),
                 sl_events := sl_events e @ [ev],
                 sl_removed := (if new_stake \<le> 0 then sl_removed e @ [v] else sl_removed e)\<rparr>))"

definition absences :: "slashing_engine \<Rightarrow> hash \<Rightarrow> nat" where
  "absences e v = (case map_of (absence_counter e) v of None \<Rightarrow> 0 | Some n \<Rightarrow> n)"

definition record_absence ::
  "slashing_engine \<Rightarrow> hash \<Rightarrow> nat \<Rightarrow> slashing_event option \<times> slashing_engine" where
  "record_absence e v ep =
     (let counter = u32_saturating_add (absences e v) 1;
          e1 = e\<lparr>absence_counter := AList.update v counter (absence_counter e)\<rparr>
      in case map_of (stakes e) v of
           None \<Rightarrow> (None, e1)
         | Some s \<Rightarrow>
             let pct = absence_penalty_pct_per_epoch (sl_config e);
                 new_stake = stake_after pct s;
                 ev = \<lparr>se_validator_id = v, se_violation = Absence counter, se_penalty = penalty_of pct s,
                       se_epoch = ep, se_evidence = EvAbsenceRecord [ep]\<rparr>
             in (Some ev,
                 e1\<lparr>stakes := AList.update v new_stake (stakes e),
                    sl_events := sl_events e @ [ev],
                    sl_removed := (if max_absence_epochs (sl_config e) \<le> counter
                                   then sl_removed e @ [v] else sl_removed e)\<rparr>))"

definition record_presence :: "slashing_engine \<Rightarrow> hash \<Rightarrow> slashing_engine" where
  "record_presence e v = e\<lparr>absence_counter := AList.delete v (absence_counter e)\<rparr>"

definition sl_is_removed :: "slashing_engine \<Rightarrow> hash \<Rightarrow> bool" where
  "sl_is_removed e v \<longleftrightarrow> v \<in> set (sl_removed e)"

section \<open>Steps of the engine\<close>

inductive slash_step :: "slashing_engine \<Rightarrow> slashing_engine \<Rightarrow> bool" where
  double_sign: "slash_double_sign e p n = Inr (ev, e') \<Longrightarrow> slash_step e e'"
| divergence: "slash_divergence e v a b n = Inr (ev, e') \<Longrightarrow> slash_step e e'"
| absence: "slash_step e (snd (record_absence e v n))"
| presence: "slash_step e (record_presence e v)"

inductive_cases slash_stepE: "slash_step e e'"

abbreviation slash_run :: "slashing_engine \<Rightarrow> slashing_engine \<Rightarrow> bool" where
  "slash_run \<equiv> slash_step\<^sup>*\<^sup>*"

definition stake_of :: "slashing_engine \<Rightarrow> hash \<Rightarrow> tension_value" where
  "stake_of e v = (case map_of (stakes e) v of None \<Rightarrow> 0 | Some s \<Rightarrow> s)"

definition penalties_of :: "hash \<Rightarrow> slashing_event list \<Rightarrow> tension_value" where
  "penalties_of v evs = sum_list (map se_penalty (filter (\<lambda>ev. se_validator_id ev = v) evs))"

definition stakes_ok :: "slashing_engine \<Rightarrow> bool" where
  "stakes_ok e \<longleftrightarrow> (\<forall>v s. map_of (stakes e) v = Some s \<longrightarrow> 0 \<le> s \<and> s \<le> I128_MAX)"

section \<open>Lemmas\<close>

lemma penalty_range:
  assumes "0 \<le> s" "s \<le> I128_MAX"
  shows "0 \<le> penalty_of pct s" "penalty_of pct s \<le> s"
    "stake_after pct s + penalty_of pct s = s" "0 \<le> stake_after pct s" "stake_after pct s \<le> I128_MAX"
proof -
  have sat: "0 \<le> i128_saturating_mul s (int pct)"
    using assms by (simp add: i128_saturating_mul_nonneg)
  show p: "0 \<le> penalty_of pct s" "penalty_of pct s \<le> s"
    using assms sat by (simp_all add: penalty_of_def pos_imp_zdiv_nonneg_iff)
  then show "stake_after pct s + penalty_of pct s = s" "0 \<le> stake_after pct s" "stake_after pct s \<le> I128_MAX"
    using assms by (simp_all add: stake_after_def i128_ops machine_int)
qed

text \<open>A penalty is the stated percentage, rounded down, as long as the product fits.\<close>

lemma penalty_exact:
  assumes "0 \<le> s" "pct \<le> 100" "s * int pct \<le> I128_MAX"
  shows "penalty_of pct s = s * int pct div 100"
proof -
  have "s * int pct \<le> s * 100"
    using assms(1,2) by (intro mult_left_mono) auto
  then have "s * int pct div 100 \<le> s"
    using zdiv_mono1 [of "s * int pct" "s * 100" 100] by simp
  moreover have "i128_saturating_mul s (int pct) = s * int pct"
    using assms by (simp add: i128_saturating_mul_nonneg)
  ultimately show ?thesis using assms(1) by (simp add: penalty_of_def)
qed

lemma penalties_of_append [simp]:
  "penalties_of v (evs @ [ev]) =
     penalties_of v evs + (if se_validator_id ev = v then se_penalty ev else 0)"
  by (simp add: penalties_of_def)

lemmas slash_ops = slash_double_sign_def slash_divergence_def record_absence_def record_presence_def

definition slashed :: "slashing_engine \<Rightarrow> slashing_engine \<Rightarrow> bool" where
  "slashed e e' \<longleftrightarrow>
     (\<exists>v s pct ev. map_of (stakes e) v = Some s \<and> stakes e' = AList.update v (stake_after pct s) (stakes e) \<and>
        sl_events e' = sl_events e @ [ev] \<and> se_validator_id ev = v \<and> se_penalty ev = penalty_of pct s)"

text \<open>Every operation either leaves stakes and log alone or slashes one validator once.\<close>

lemma slash_step_effect:
  assumes "slash_step e e'"
  shows "sl_config e' = sl_config e \<and> set (sl_removed e) \<subseteq> set (sl_removed e') \<and>
    (stakes e' = stakes e \<and> sl_events e' = sl_events e \<or> slashed e e')"
  using assms
proof cases
  case (double_sign p n ev)
  then show ?thesis
    by (auto simp: slash_double_sign_def slashed_def Let_def split: option.splits)
next
  case (divergence v a b n ev)
  then show ?thesis
    by (auto simp: slash_divergence_def slashed_def Let_def split: option.splits)
next
  case (absence v n)
  then show ?thesis
    by (auto simp: record_absence_def slashed_def Let_def split: option.splits)
qed (auto simp: record_presence_def)

lemma slashed_account:
  assumes "slashed e e'" "stakes_ok e"
  shows "stakes_ok e' \<and> stake_of e' v \<le> stake_of e v \<and>
    stake_of e' v + penalties_of v (sl_events e') = stake_of e v + penalties_of v (sl_events e)"
proof -
  from assms(1) obtain u s pct and ev :: slashing_event
    where u: "map_of (stakes e) u = Some s" "stakes e' = AList.update u (stake_after pct s) (stakes e)"
      "sl_events e' = sl_events e @ [ev]" "se_validator_id ev = u" "se_penalty ev = penalty_of pct s"
    unfolding slashed_def by blast
  have s: "0 \<le> s" "s \<le> I128_MAX" using assms(2) u(1) by (auto simp: stakes_ok_def)
  note range = penalty_range [OF s, of pct]
  have "stakes_ok e'" using assms(2) u(2) range(4,5) by (auto simp: stakes_ok_def update_conv')
  moreover have "stake_of e' u = stake_after pct s" "stake_of e u = s"
    "\<And>v. v \<noteq> u \<Longrightarrow> stake_of e' v = stake_of e v"
    using u(1,2) by (simp_all add: stake_of_def update_conv')
  ultimately show ?thesis using u(3,4,5) range by (cases "v = u") auto
qed

lemma slash_run_account:
  assumes "slash_run e e'" "stakes_ok e"
  shows "stakes_ok e' \<and>
    stake_of e' v + penalties_of v (sl_events e') = stake_of e v + penalties_of v (sl_events e) \<and>
    set (sl_removed e) \<subseteq> set (sl_removed e') \<and> stake_of e' v \<le> stake_of e v"
  using assms
proof (induction rule: rtranclp_induct)
  case (step y z)
  then have y: "stakes_ok y" by blast
  have "stakes_ok z \<and> stake_of z v \<le> stake_of y v \<and>
      stake_of z v + penalties_of v (sl_events z) = stake_of y v + penalties_of v (sl_events y)"
    using slash_step_effect [OF step.hyps(2)] y slashed_account [OF _ y]
    by (auto simp: stakes_ok_def stake_of_def)
  then show ?case using step.IH [OF step.prems] slash_step_effect [OF step.hyps(2)] by auto
qed auto

text \<open>Consecutive absences: the counter counts them and the configured number of them removes.\<close>

fun absent_run :: "slashing_engine \<Rightarrow> hash \<Rightarrow> nat list \<Rightarrow> slashing_engine" where
  "absent_run e v [] = e"
| "absent_run e v (n # ns) = absent_run (snd (record_absence e v n)) v ns"

lemma record_absence_counter:
  "absences (snd (record_absence e v n)) v = u32_saturating_add (absences e v) 1"
  "sl_config (snd (record_absence e v n)) = sl_config e"
  "map_of (stakes e) v \<noteq> None \<Longrightarrow> map_of (stakes (snd (record_absence e v n))) v \<noteq> None"
  "set (sl_removed e) \<subseteq> set (sl_removed (snd (record_absence e v n)))"
  "map_of (stakes e) v \<noteq> None \<Longrightarrow> max_absence_epochs (sl_config e) \<le> u32_saturating_add (absences e v) 1 \<Longrightarrow>
   sl_is_removed (snd (record_absence e v n)) v"
  by (auto simp: record_absence_def absences_def sl_is_removed_def Let_def update_conv' split: option.splits)

lemma absent_run_keeps_removed: "sl_is_removed e v \<Longrightarrow> sl_is_removed (absent_run e v ns) v"
proof (induction ns arbitrary: e)
  case (Cons n ns)
  have "sl_is_removed (snd (record_absence e v n)) v"
    using Cons.prems record_absence_counter(4) [of e v n] by (auto simp: sl_is_removed_def)
  then show ?case by (simp add: Cons.IH)
qed simp

lemma absent_run_removes:
  assumes "map_of (stakes e) v \<noteq> None" "ns \<noteq> []"
    "max_absence_epochs (sl_config e) \<le> absences e v + length ns" "max_absence_epochs (sl_config e) \<le> U32_MAX"
  shows "sl_is_removed (absent_run e v ns) v"
  using assms
proof (induction ns arbitrary: e)
  case (Cons n ns)
  let ?e = "snd (record_absence e v n)"
  show ?case
  proof (cases "max_absence_epochs (sl_config e) \<le> u32_saturating_add (absences e v) 1")
    case True
    then show ?thesis using Cons.prems(1) absent_run_keeps_removed record_absence_counter(5) by simp
  next
    case False
    then have "absences ?e v = absences e v + 1"
      using Cons.prems(4) by (simp add: record_absence_counter(1) u32_saturating_add_def)
    moreover have "ns \<noteq> []"
      using False Cons.prems(3,4) by (auto simp: u32_saturating_add_def)
    ultimately show ?thesis
      using Cons.IH [of ?e] Cons.prems record_absence_counter(2,3) by simp
  qed
qed simp

section \<open>Properties\<close>

definition sample_engine :: slashing_engine where
  "sample_engine = set_stake (slashing_engine_new slashing_config_default) 7 1000"

definition sample_proof :: equivocation_proof where
  "sample_proof = \<lparr>ep_validator_id = 7, ep_height = 3, ep_round = 0, ep_vote_type = Prevote,
     ep_block_hash_a = 1, ep_block_hash_b = 2\<rparr>"

lemmas sample_slashing = sample_engine_def sample_proof_def set_stake_def slashing_engine_new_def
  slashing_config_default_def slash_double_sign_def penalty_of_def stake_after_def
  i128_ops machine_int stake_of_def penalties_of_def Let_def

text \<open>
  Slashing is accounted for: from an engine whose stakes are non-negative, through any sequence
  of double-sign, divergence, absence and presence operations, every stake stays in range, never
  grows, and what a validator has lost is exactly the sum of the penalties logged for it; a removed
  validator stays removed.
\<close>

theorem slashing_accounts_for_stake:
  assumes "slash_run e e'" "stakes_ok e" "sl_events e = []"
  shows "stakes_ok e' \<and> stake_of e' v = stake_of e v - penalties_of v (sl_events e') \<and>
    stake_of e' v \<le> stake_of e v \<and> (sl_is_removed e v \<longrightarrow> sl_is_removed e' v)"
  using slash_run_account [OF assms(1,2), of v] assms(3)
  by (auto simp: sl_is_removed_def penalties_of_def)

theorem slashing_accounts_witness:
  "\<exists>e'. slash_run sample_engine e' \<and> stake_of e' 7 = 680 \<and> penalties_of 7 (sl_events e') = 320"
proof -
  obtain ev :: slashing_event and e' :: slashing_engine
    where r: "slash_double_sign sample_engine sample_proof 0 = Inr (ev, e')" and s: "stake_of e' 7 = 680"
    by (auto simp: sample_slashing)
  then have run: "slash_run sample_engine e'" by (blast intro: slash_step.double_sign)
  have "stakes_ok sample_engine" "sl_events sample_engine = []" "stake_of sample_engine 7 = 1000"
    by (auto simp: sample_slashing stakes_ok_def)
  then show ?thesis using slashing_accounts_for_stake [OF run, of 7] s run by auto
qed

text \<open>
  Forced removal happens: a staked validator that is recorded absent in as many consecutive
  epochs as the configuration allows is removed, whatever the epochs, and stays removed.
\<close>

theorem absent_validator_removed:
  assumes "map_of (stakes e) v \<noteq> None" "ns \<noteq> []" "max_absence_epochs (sl_config e) \<le> length ns"
    "max_absence_epochs (sl_config e) \<le> U32_MAX"
  shows "sl_is_removed (absent_run e v ns) v"
  using absent_run_removes assms by simp

theorem absent_validator_witness:
  "sl_is_removed (absent_run sample_engine 7 [1..<11]) 7"
  by (rule absent_validator_removed) (simp_all add: sample_slashing)

text \<open>
  A proof of equivocation is not consumed: submitting the same proof twice slashes twice, so
  a stake of 1000 falls to 680 and then to 463.
\<close>

theorem double_sign_proof_replays:
  "\<exists>ev1 e1 ev2 e2. slash_double_sign sample_engine sample_proof 0 = Inr (ev1, e1) \<and>
     slash_double_sign e1 sample_proof 0 = Inr (ev2, e2) \<and>
     stake_of e1 7 = 680 \<and> stake_of e2 7 = 463"
  by (auto simp: sample_slashing)

end
