(* ===== verification/Scc_Containment.thy ===== *)
theory Scc_Containment
  imports Scc_Types
begin

text \<open>
  Containment of hostile nodes (\<open>governance/containment.rs\<close>) and the emergency mode with its two
  thresholds (\<open>governance/emergency.rs\<close>). Containment keeps one behaviour profile per node and moves
  it along a ladder of four levels. The lemmas give the life of a profile: the climb of a hostile
  node, the time it serves in quarantine, and that a node with no invalid transition never leaves
  the bottom of the ladder.
\<close>

section \<open>Containment\<close>

datatype containment_level =
    Unrestricted
  | ReducedThroughput (max_txs_per_block: nat)
  | IncreasedProofRequirements
  | Quarantine (blocks_remaining: nat)

record node_behavior_profile =
  np_node_id :: hash
  positive_delta :: tension_value
  negative_delta :: tension_value
  containment :: containment_level
  invalid_count :: nat
  valid_count :: nat

record containment_state =
  cs_nodes :: "(hash, node_behavior_profile) hashmap"
  hostility_threshold :: tension_value
  cs_epsilon :: tension_value

definition containment_state_default :: containment_state where
  "containment_state_default = \<lparr>cs_nodes = [], hostility_threshold = from_integer 2, cs_epsilon = 1\<rparr>"

definition node_profile_new :: "hash \<Rightarrow> node_behavior_profile" where
  "node_profile_new n =
     \<lparr>np_node_id = n, positive_delta = 0, negative_delta = 0, containment = Unrestricted,
      invalid_count = 0, valid_count = 0\<rparr>"

definition hostility_index :: "node_behavior_profile \<Rightarrow> tension_value \<Rightarrow> tension_value" where
  "hostility_index p eps =
     (let d = tension_add (positive_delta p) eps
      in if d \<le> 0 then 0
         else
           let n = negative_delta p;
               whole = i128_saturating_mul (i128_div n d) SCALE;
               frac = i128_div (i128_saturating_mul (i128_rem n d) SCALE) d
           in i128_saturating_add whole frac)"

definition MAX_TRACKED_NODES :: nat where
  "MAX_TRACKED_NODES = 10000"

text \<open>The guard and the \<open>entry(..).or_insert_with(..)\<close> update both recorders share.\<close>

definition touch_node ::
  "containment_state \<Rightarrow> hash \<Rightarrow> (node_behavior_profile \<Rightarrow> node_behavior_profile) \<Rightarrow> containment_state" where
  "touch_node c n f =
     (case map_of (cs_nodes c) n of
        None \<Rightarrow>
          if MAX_TRACKED_NODES \<le> length (cs_nodes c) then c
          else c\<lparr>cs_nodes := AList.update n (f (node_profile_new n)) (cs_nodes c)\<rparr>
      | Some p \<Rightarrow> c\<lparr>cs_nodes := AList.update n (f p) (cs_nodes c)\<rparr>)"

definition record_valid :: "containment_state \<Rightarrow> hash \<Rightarrow> tension_value \<Rightarrow> containment_state" where
  "record_valid c n delta =
     touch_node c n (\<lambda>p. p\<lparr>positive_delta := tension_add (positive_delta p) delta,
                           valid_count := u64_saturating_add (valid_count p) 1\<rparr>)"

definition record_invalid :: "containment_state \<Rightarrow> hash \<Rightarrow> tension_value \<Rightarrow> containment_state" where
  "record_invalid c n delta =
     touch_node c n (\<lambda>p. p\<lparr>negative_delta := tension_add (negative_delta p) delta,
                           invalid_count := u64_saturating_add (invalid_count p) 1\<rparr>)"

fun escalate :: "containment_level \<Rightarrow> containment_level" where
  "escalate Unrestricted = ReducedThroughput 1"
| "escalate (ReducedThroughput _) = IncreasedProofRequirements"
| "escalate IncreasedProofRequirements = Quarantine 100"
| "escalate (Quarantine _) = Quarantine 100"

fun deescalate :: "containment_level \<Rightarrow> containment_level" where
  "deescalate (Quarantine _) = IncreasedProofRequirements"
| "deescalate IncreasedProofRequirements = ReducedThroughput 5"
| "deescalate (ReducedThroughput _) = Unrestricted"
| "deescalate Unrestricted = Unrestricted"

definition evaluate_profile ::
  "tension_value \<Rightarrow> tension_value \<Rightarrow> node_behavior_profile \<Rightarrow> node_behavior_profile" where
  "evaluate_profile threshold eps p =
     (let hostility = hostility_index p eps;
          release_threshold = i128_div threshold 2
      in if hostility > threshold then p\<lparr>containment := escalate (containment p)\<rparr>
         else if hostility \<le> release_threshold \<and> containment p \<noteq> Unrestricted
         then p\<lparr>containment := deescalate (containment p)\<rparr>
         else p)"

definition containment_evaluate :: "containment_state \<Rightarrow> containment_state" where
  "containment_evaluate c =
     c\<lparr>cs_nodes := map (\<lambda>(n, p). (n, evaluate_profile (hostility_threshold c) (cs_epsilon c) p)) (cs_nodes c)\<rparr>"

definition node_is_allowed :: "containment_state \<Rightarrow> hash \<Rightarrow> bool" where
  "node_is_allowed c n =
     (case map_of (cs_nodes c) n of
        None \<Rightarrow> True
      | Some p \<Rightarrow> (case containment p of Quarantine _ \<Rightarrow> False | _ \<Rightarrow> True))"

definition tick_profile :: "node_behavior_profile \<Rightarrow> node_behavior_profile" where
  "tick_profile p =
     (let decay = i128_div (negative_delta p) 100;
          p1 = p\<lparr>negative_delta := tension_sub (negative_delta p) decay\<rparr>
      in case containment p of
           Quarantine b \<Rightarrow>
             let b' = (if b > 0 then b - 1 else b)
             in p1\<lparr>containment := (if b' = 0 then ReducedThroughput 1 else Quarantine b')\<rparr>
         | _ \<Rightarrow> p1)"

definition tick_block :: "containment_state \<Rightarrow> containment_state" where
  "tick_block c = c\<lparr>cs_nodes := map (\<lambda>(n, p). (n, tick_profile p)) (cs_nodes c)\<rparr>"

section \<open>Emergency mode\<close>

record emergency_policy =
  activation_threshold :: tension_value
  deactivation_threshold :: tension_value
  emergency_max_txs :: nat
  normal_max_txs :: nat

definition emergency_policy_default :: emergency_policy where
  "emergency_policy_default =
     \<lparr>activation_threshold = from_integer 800, deactivation_threshold = from_integer 400,
      emergency_max_txs = 10, normal_max_txs = 1000\<rparr>"

datatype emergency_policy_error = ThresholdOrder | ZeroEmergencyTxs | ZeroNormalTxs | NormalBelowEmergency

definition emergency_policy_validate :: "emergency_policy \<Rightarrow> emergency_policy_error + unit" where
  "emergency_policy_validate p =
     (if activation_threshold p \<le> deactivation_threshold p then Inl ThresholdOrder
      else if emergency_max_txs p = 0 then Inl ZeroEmergencyTxs
      else if normal_max_txs p = 0 then Inl ZeroNormalTxs
      else if normal_max_txs p < emergency_max_txs p then Inl NormalBelowEmergency
      else Inr ())"

datatype emergency_decision =
    EmNormal nat
  | EmActivate nat
  | EmMaintain tension_value nat
  | EmDeactivate nat

definition evaluate_emergency ::
  "tension_field \<Rightarrow> governance_state \<Rightarrow> emergency_policy \<Rightarrow> emergency_decision" where
  "evaluate_emergency field g p =
     (if emergency_mode g then
        if total field \<le> deactivation_threshold p then EmDeactivate (normal_max_txs p)
        else EmMaintain (total field) (emergency_max_txs p)
      else
        if activation_threshold p \<le> total field then EmActivate (emergency_max_txs p)
        else EmNormal (normal_max_txs p))"

fun decision_max_txs :: "emergency_decision \<Rightarrow> nat" where
  "decision_max_txs (EmNormal n) = n"
| "decision_max_txs (EmActivate n) = n"
| "decision_max_txs (EmMaintain _ n) = n"
| "decision_max_txs (EmDeactivate n) = n"

fun is_emergency :: "emergency_decision \<Rightarrow> bool" where
  "is_emergency (EmActivate _) = True"
| "is_emergency (EmMaintain _ _) = True"
| "is_emergency _ = False"

section \<open>Lemmas on profiles\<close>

lemma map_of_nodes:
  "map_of (map (\<lambda>(n, p). (n, f p)) ns) v = map_option f (map_of ns v)"
  by (simp add: map_of_map)

lemma evaluate_profile_frame [simp]:
  "hostility_index (evaluate_profile t eps p) e = hostility_index p e"
  "negative_delta (evaluate_profile t eps p) = negative_delta p"
  by (simp_all add: evaluate_profile_def hostility_index_def Let_def)

lemma evaluate_hostile:
  "t < hostility_index p eps \<Longrightarrow> containment (evaluate_profile t eps p) = escalate (containment p)"
  by (simp add: evaluate_profile_def)

lemma evaluate_clean:
  assumes "negative_delta p = 0" "containment p = Unrestricted" "0 \<le> t"
  shows "evaluate_profile t eps p = p"
proof -
  have zero: "i128_div 0 d = 0" "i128_rem 0 d = 0" "i128_saturating_mul 0 d = 0"
    "i128_saturating_add 0 0 = 0" for d
    by (simp_all add: i128_div_def i128_rem_def i128_ops)
  have "hostility_index p eps = 0" using assms(1) by (simp add: hostility_index_def Let_def zero)
  then show ?thesis using assms(2,3) by (simp add: evaluate_profile_def)
qed

lemma evaluations_hostile:
  assumes "t < hostility_index p eps" "3 \<le> k"
  shows "containment ((evaluate_profile t eps ^^ k) p) = Quarantine 100"
proof -
  define L where "L j = containment ((evaluate_profile t eps ^^ j) p)" for j
  have frame: "hostility_index ((evaluate_profile t eps ^^ j) p) eps = hostility_index p eps" for j
    by (induction j) simp_all
  have step: "L (Suc j) = escalate (L j)" for j
    using assms(1) frame [of j] by (simp add: L_def evaluate_hostile)
  have "L (3 + j) = Quarantine 100" for j
  proof (induction j)
    case 0
    have "L 3 = escalate (escalate (escalate (L 0)))" by (simp add: numeral_3_eq_3 step)
    then show ?case by (cases "L 0") simp_all
  next
    case (Suc j)
    then show ?case using step [of "3 + j"] by simp
  qed
  from this [of "k - 3"] show ?thesis using assms(2) by (simp add: L_def)
qed

lemma tick_profile_frame [simp]: "np_node_id (tick_profile p) = np_node_id p"
  by (simp add: tick_profile_def Let_def split: containment_level.splits)

lemma tick_containment [simp]:
  "containment (tick_profile p) =
     (case containment p of
        Quarantine b \<Rightarrow> if b \<le> 1 then ReducedThroughput 1 else Quarantine (b - 1)
      | l \<Rightarrow> l)"
  by (auto simp: tick_profile_def Let_def split: containment_level.splits)

lemma ticks_in_quarantine:
  assumes "containment p = Quarantine b"
  shows "k < b \<Longrightarrow> containment ((tick_profile ^^ k) p) = Quarantine (b - k)"
    and "b \<le> k \<Longrightarrow> 0 < k \<Longrightarrow> containment ((tick_profile ^^ k) p) = ReducedThroughput 1"
proof -
  show wait: "k < b \<Longrightarrow> containment ((tick_profile ^^ k) p) = Quarantine (b - k)" for k
  proof (induction k)
    case (Suc k)
    then show ?case by auto
  qed (simp add: assms)
  show "b \<le> k \<Longrightarrow> 0 < k \<Longrightarrow> containment ((tick_profile ^^ k) p) = ReducedThroughput 1"
  proof (induction k)
    case (Suc k)
    show ?case
    proof (cases "b \<le> k \<and> 0 < k")
      case True
      then show ?thesis using Suc.IH by simp
    next
      case False
      then have "k = 0 \<or> k < b" "b \<le> Suc k" using Suc.prems by auto
      then show ?thesis using wait [of k] assms by (cases "k < b") auto
    qed
  qed simp
qed

section \<open>Lemmas on the containment state\<close>

lemma iterate_nodes:
  "map_of (cs_nodes ((containment_evaluate ^^ k) c)) v =
     map_option (evaluate_profile (hostility_threshold c) (cs_epsilon c) ^^ k) (map_of (cs_nodes c) v)"
  "hostility_threshold ((containment_evaluate ^^ k) c) = hostility_threshold c"
  "cs_epsilon ((containment_evaluate ^^ k) c) = cs_epsilon c"
  by (induction k)
    (simp_all add: containment_evaluate_def map_of_nodes option.map_comp comp_def option.map_ident option.map_id)

lemma iterate_ticks:
  "map_of (cs_nodes ((tick_block ^^ k) c)) v = map_option (tick_profile ^^ k) (map_of (cs_nodes c) v)"
  by (induction k) (simp_all add: tick_block_def map_of_nodes option.map_comp comp_def option.map_ident option.map_id)

text \<open>The operations of the containment state; the label is the node an invalid transition is recorded for.\<close>

inductive containment_step :: "containment_state \<Rightarrow> hash option \<Rightarrow> containment_state \<Rightarrow> bool" where
  valid: "containment_step c None (record_valid c n d)"
| invalid: "containment_step c (Some n) (record_invalid c n d)"
| evaluation: "containment_step c None (containment_evaluate c)"
| tick: "containment_step c None (tick_block c)"

inductive_cases containment_stepE: "containment_step c l c'"

inductive containment_run :: "containment_state \<Rightarrow> hash option list \<Rightarrow> containment_state \<Rightarrow> bool" where
  start: "containment_run c [] c"
| extend: "containment_run c ls c' \<Longrightarrow> containment_step c' l c'' \<Longrightarrow> containment_run c (ls @ [l]) c''"

definition clean_node :: "containment_state \<Rightarrow> hash \<Rightarrow> bool" where
  "clean_node c v \<longleftrightarrow>
     (\<forall>p. map_of (cs_nodes c) v = Some p \<longrightarrow> negative_delta p = 0 \<and> containment p = Unrestricted)"

definition nodes_bounded :: "containment_state \<Rightarrow> bool" where
  "nodes_bounded c \<longleftrightarrow> distinct (map fst (cs_nodes c)) \<and> length (cs_nodes c) \<le> MAX_TRACKED_NODES"

lemma touch_node_lookup:
  "map_of (cs_nodes (touch_node c n f)) v =
     (if v = n \<and> (map_of (cs_nodes c) n \<noteq> None \<or> length (cs_nodes c) < MAX_TRACKED_NODES)
      then Some (f (case map_of (cs_nodes c) n of None \<Rightarrow> node_profile_new n | Some p \<Rightarrow> p))
      else map_of (cs_nodes c) v)"
  by (auto simp: touch_node_def update_conv' split: option.splits)

lemma clean_step:
  assumes "containment_step c l c'" "l \<noteq> Some v" "clean_node c v" "0 \<le> hostility_threshold c"
  shows "clean_node c' v \<and> hostility_threshold c' = hostility_threshold c"
  using assms
proof cases
  case (valid n d)
  then show ?thesis using assms(3)
    by (auto simp: record_valid_def clean_node_def touch_node_lookup node_profile_new_def
        touch_node_def split: option.splits)
next
  case (invalid n d)
  then show ?thesis using assms(2,3)
    by (auto simp: record_invalid_def clean_node_def touch_node_lookup touch_node_def split: option.splits)
next
  case evaluation
  then show ?thesis using assms(3,4)
    by (auto simp: containment_evaluate_def clean_node_def map_of_nodes evaluate_clean)
next
  case tick
  then show ?thesis using assms(3)
    by (auto simp: tick_block_def clean_node_def map_of_nodes tick_profile_def i128_div_def tension_ops
        i128_ops machine_int)
qed

lemma clean_run:
  assumes "containment_run c ls c'" "Some v \<notin> set ls" "clean_node c v" "0 \<le> hostility_threshold c"
  shows "clean_node c' v \<and> hostility_threshold c' = hostility_threshold c"
  using assms
proof (induction rule: containment_run.induct)
  case (extend c ls c' l c'')
  then show ?case using clean_step [OF extend.hyps(2), of v] by auto
qed simp

lemma length_alist_update:
  "length (AList.update k v al) = (if map_of al k = None then Suc (length al) else length al)"
  by (induction al) auto

lemma touch_node_bounded: "nodes_bounded c \<Longrightarrow> nodes_bounded (touch_node c n f)"
  by (auto simp: nodes_bounded_def touch_node_def distinct_update length_alist_update
      split: option.splits)

lemma bounded_run: "containment_run c ls c' \<Longrightarrow> nodes_bounded c \<Longrightarrow> nodes_bounded c'"
proof (induction rule: containment_run.induct)
  case (extend c ls c' l c'')
  then have "nodes_bounded c'" by blast
  with extend.hyps(2) show ?case
    by (auto elim!: containment_stepE simp: record_valid_def record_invalid_def touch_node_bounded)
      (auto simp: nodes_bounded_def containment_evaluate_def tick_block_def comp_def case_prod_unfold)
qed

section \<open>Emergency mode over time\<close>

text \<open>The mode of the next block is whether the decision on this block's tension is an emergency.\<close>

fun emergency_run ::
  "emergency_policy \<Rightarrow> governance_state \<Rightarrow> tension_field list \<Rightarrow> governance_state" where
  "emergency_run p g [] = g"
| "emergency_run p g (f # fs) =
     emergency_run p (g\<lparr>emergency_mode := is_emergency (evaluate_emergency f g p)\<rparr>) fs"

lemma emergency_mode_next:
  "is_emergency (evaluate_emergency f g p) \<longleftrightarrow>
     (if emergency_mode g then deactivation_threshold p < total f else activation_threshold p \<le> total f)"
  by (simp add: evaluate_emergency_def)

lemma emergency_run_between:
  assumes "\<forall>f \<in> set fs. deactivation_threshold p < total f \<and> total f < activation_threshold p"
  shows "emergency_mode (emergency_run p g fs) = emergency_mode g"
  using assms
proof (induction fs arbitrary: g)
  case (Cons f fs)
  then show ?case by (simp add: emergency_mode_next)
qed simp

lemma emergency_policy_valid:
  assumes "emergency_policy_validate p = Inr ()"
  shows "deactivation_threshold p < activation_threshold p \<and> 0 < emergency_max_txs p \<and>
    emergency_max_txs p \<le> normal_max_txs p"
  using assms by (auto simp: emergency_policy_validate_def split: if_splits)

section \<open>Properties\<close>

definition sample_hostile :: containment_state where
  "sample_hostile = record_invalid containment_state_default 9 (from_integer 1)"

lemmas sample_containment = sample_hostile_def record_invalid_def record_valid_def touch_node_def
  containment_state_default_def MAX_TRACKED_NODES_def node_profile_new_def from_integer_def
  i128_ops machine_int tension_ops

text \<open>
  Containment reaches a hostile node and lets it go again: while the hostility index of a node
  exceeds the threshold, three evaluations put it in quarantine from whatever level it was at and
  further ones keep it there, so its transitions are refused; with no further evaluation it is
  refused for exactly the next 99 blocks and allowed from the hundredth on.
\<close>

theorem hostile_node_contained:
  assumes "map_of (cs_nodes c) v = Some p" "hostility_threshold c < hostility_index p (cs_epsilon c)" "3 \<le> k"
  shows "node_is_allowed ((tick_block ^^ j) ((containment_evaluate ^^ k) c)) v \<longleftrightarrow> 100 \<le> j"
proof -
  let ?q = "(evaluate_profile (hostility_threshold c) (cs_epsilon c) ^^ k) p"
  have q: "containment ?q = Quarantine 100" using evaluations_hostile assms(2,3) by blast
  have "node_is_allowed ((tick_block ^^ j) ((containment_evaluate ^^ k) c)) v \<longleftrightarrow>
      (case containment ((tick_profile ^^ j) ?q) of Quarantine _ \<Rightarrow> False | _ \<Rightarrow> True)"
    using assms(1) by (simp add: node_is_allowed_def iterate_ticks iterate_nodes)
  then show ?thesis using ticks_in_quarantine [OF q, of j] by (cases "j < 100") auto
qed

theorem hostile_node_witness:
  "\<not> node_is_allowed ((tick_block ^^ 99) ((containment_evaluate ^^ 3) sample_hostile)) 9 \<and>
   node_is_allowed ((tick_block ^^ 100) ((containment_evaluate ^^ 3) sample_hostile)) 9"
proof -
  obtain p :: node_behavior_profile where p: "map_of (cs_nodes sample_hostile) 9 = Some p"
    and h: "hostility_threshold sample_hostile < hostility_index p (cs_epsilon sample_hostile)"
    by (simp add: sample_containment hostility_index_def Let_def i128_div_def i128_rem_def)
  show ?thesis using hostile_node_contained [OF p h, of 3 99] hostile_node_contained [OF p h, of 3 100]
    by simp
qed

text \<open>
  Containment never touches a node that behaved: through any sequence of recordings, evaluations
  and blocks in which no invalid transition is recorded for a node, a node that starts unrestricted
  stays allowed, and the number of tracked profiles stays within its limit.
\<close>

theorem well_behaved_node_allowed:
  assumes "containment_run containment_state_default ls c" "Some v \<notin> set ls"
  shows "node_is_allowed c v \<and> length (cs_nodes c) \<le> MAX_TRACKED_NODES"
proof -
  have "clean_node containment_state_default v" "0 \<le> hostility_threshold containment_state_default"
    "nodes_bounded containment_state_default"
    by (simp_all add: clean_node_def nodes_bounded_def sample_containment)
  then have "clean_node c v" "nodes_bounded c"
    using clean_run [OF assms] bounded_run [OF assms(1)] by blast+
  then show ?thesis by (auto simp: clean_node_def node_is_allowed_def nodes_bounded_def split: option.splits)
qed

theorem well_behaved_witness:
  "\<exists>c. containment_run containment_state_default [Some 9, None] c \<and> node_is_allowed c 4"
proof -
  have "containment_run containment_state_default ([] @ [Some 9]) sample_hostile"
    unfolding sample_hostile_def
    by (rule containment_run.extend [OF containment_run.start containment_step.invalid])
  then have "containment_run containment_state_default (([] @ [Some 9]) @ [None])
      (containment_evaluate sample_hostile)"
    by (rule containment_run.extend [OF _ containment_step.evaluation])
  then have run: "containment_run containment_state_default [Some 9, None] (containment_evaluate sample_hostile)"
    by simp
  then show ?thesis using well_behaved_node_allowed [OF run, of 4] by auto
qed

text \<open>
  Emergency mode has hysteresis: under a validated policy the mode changes only by crossing the
  far threshold. However the tension moves strictly between the two thresholds, the mode stays what
  it was, the throughput limit of every decision is one of the two configured positive limits, and
  the emergency one is not the larger.
\<close>

theorem emergency_hysteresis:
  assumes "emergency_policy_validate p = Inr ()"
    "\<forall>f \<in> set fs. deactivation_threshold p < total f \<and> total f < activation_threshold p"
  shows "emergency_mode (emergency_run p g fs) = emergency_mode g \<and>
    (let d = evaluate_emergency f g p
     in decision_max_txs d = (if is_emergency d then emergency_max_txs p else normal_max_txs p) \<and>
        0 < decision_max_txs d \<and> decision_max_txs d \<le> normal_max_txs p)"
  using emergency_run_between [OF assms(2)] emergency_policy_valid [OF assms(1)]
  by (auto simp: evaluate_emergency_def Let_def)

theorem emergency_hysteresis_witness:
  "emergency_mode (emergency_run emergency_policy_default (governance_state_default\<lparr>emergency_mode := True\<rparr>)
     [tension_field_default\<lparr>total := from_integer 600\<rparr>, tension_field_default\<lparr>total := from_integer 500\<rparr>])"
proof -
  have valid: "emergency_policy_validate emergency_policy_default = Inr ()"
    by (simp add: emergency_policy_validate_def emergency_policy_default_def from_integer_def i128_ops machine_int)
  have between: "\<forall>f \<in> set [tension_field_default\<lparr>total := from_integer 600\<rparr>,
      tension_field_default\<lparr>total := from_integer 500\<rparr>].
      deactivation_threshold emergency_policy_default < total f \<and>
      total f < activation_threshold emergency_policy_default"
    by (simp add: emergency_policy_default_def from_integer_def i128_ops machine_int)
  show ?thesis
    using emergency_hysteresis [OF valid between, of "governance_state_default\<lparr>emergency_mode := True\<rparr>"]
    by simp
qed

end
