(* ===== verification/Scc_Agents.thy ===== *)
theory Scc_Agents
  imports Scc_Types Scc_Merkle
begin

text \<open>
  Who may act: precedence checks (\<open>governance/precedence.rs\<close>), agent registration
  (\<open>governance/registration.rs\<close>), policies of autonomous agents (\<open>governance/agent_policy.rs\<close>),
  proposer selection (\<open>governance/validator.rs\<close>) and the limits against concentration of power
  (\<open>governance/anti_concentration.rs\<close>). BLAKE3 and the canonical bytes of a seal are parameters.
  Unchecked \<open>+\<close> and \<open>-\<close> on unsigned counters wrap, as in a release build.
\<close>

section \<open>Precedence\<close>

definition is_authorized :: "precedence_level \<Rightarrow> precedence_level \<Rightarrow> bool" where
  "is_authorized actor_level required_level \<longleftrightarrow> precedence_rank actor_level \<le> precedence_rank required_level"

datatype governance_change_type =
    NormAddition | NormMutation | ConstraintChange | GovernanceUpgrade | StateSchemaChange
  | EmergencyActivation

fun governance_change_level :: "governance_change_type \<Rightarrow> precedence_level" where
  "governance_change_level NormAddition = Meaning"
| "governance_change_level NormMutation = Meaning"
| "governance_change_level ConstraintChange = Meaning"
| "governance_change_level GovernanceUpgrade = Genesis"
| "governance_change_level StateSchemaChange = Safety"
| "governance_change_level EmergencyActivation = Safety"

datatype authority_error = InsufficientAuthority precedence_level precedence_level

definition check_governance_change ::
  "precedence_level \<Rightarrow> governance_change_type \<Rightarrow> authority_error + unit" where
  "check_governance_change actor_level change =
     (let required = governance_change_level change
      in if is_authorized actor_level required then Inr ()
         else Inl (InsufficientAuthority actor_level required))"

section \<open>Agent registration\<close>

definition REGISTRATION_COST :: int where
  "REGISTRATION_COST = 100 * SCALE"

definition MAX_AGENTS :: nat where
  "MAX_AGENTS = 100000"

record registered_agent =
  ra_identity :: agent_identity
  registered_at :: nat
  ra_active :: bool
  ra_revoked :: bool

record agent_registry =
  agents :: "(agent_id, registered_agent) hashmap"

definition agent_registry_default :: agent_registry where
  "agent_registry_default = \<lparr>agents = []\<rparr>"

datatype registry_error = AgentRegistryFull | AlreadyRegistered agent_id | AgentNotFound

definition canonical_agent_id ::
  "(bytes \<Rightarrow> hash) \<Rightarrow> (mfidel_atomic_seal \<Rightarrow> bytes) \<Rightarrow> hash \<Rightarrow> mfidel_atomic_seal \<Rightarrow> agent_id" where
  "canonical_agent_id B canon pk seal = blake3_hash_concat B [hash_bytes pk, canon seal]"

definition agent_register ::
  "(bytes \<Rightarrow> hash) \<Rightarrow> (mfidel_atomic_seal \<Rightarrow> bytes) \<Rightarrow> agent_registry \<Rightarrow> hash \<Rightarrow> mfidel_atomic_seal \<Rightarrow>
   precedence_level \<Rightarrow> nat \<Rightarrow> registry_error + (agent_id \<times> agent_registry)" where
  "agent_register B canon reg pk seal level block_height =
     (if MAX_AGENTS \<le> length (agents reg) then Inl AgentRegistryFull
      else
        let aid = canonical_agent_id B canon pk seal
        in if map_of (agents reg) aid \<noteq> None then Inl (AlreadyRegistered aid)
           else
             let identity = \<lparr>agent_id_of = aid, public_key = pk, mfidel_seal = seal,
                   registration_block = block_height, ag_governance_level = level, norm_set = {},
                   responsibility = responsibility_state_default\<rparr>
             in Inr (aid, reg\<lparr>agents := AList.update aid
                  \<lparr>ra_identity = identity, registered_at = block_height, ra_active = True, ra_revoked = False\<rparr>
                  (agents reg)\<rparr>))"

definition agent_get :: "agent_registry \<Rightarrow> agent_id \<Rightarrow> registered_agent option" where
  "agent_get reg a = map_of (agents reg) a"

definition agent_is_active :: "agent_registry \<Rightarrow> agent_id \<Rightarrow> bool" where
  "agent_is_active reg a =
     (case map_of (agents reg) a of None \<Rightarrow> False | Some r \<Rightarrow> ra_active r \<and> \<not> ra_revoked r)"

definition agent_revoke :: "agent_registry \<Rightarrow> agent_id \<Rightarrow> registry_error + agent_registry" where
  "agent_revoke reg a =
     (case map_of (agents reg) a of
        None \<Rightarrow> Inl AgentNotFound
      | Some r \<Rightarrow> Inr (reg\<lparr>agents := AList.update a (r\<lparr>ra_active := False, ra_revoked := True\<rparr>) (agents reg)\<rparr>))"

definition registry_active_count :: "agent_registry \<Rightarrow> nat" where
  "registry_active_count reg = length (filter (\<lambda>(_, r). ra_active r \<and> \<not> ra_revoked r) (agents reg))"

section \<open>Policies of autonomous agents\<close>

record agent_policy =
  ap_agent_id :: agent_id
  operator_id :: agent_id
  model_hash :: hash
  max_actions_per_block :: nat
  max_transfer_amount :: tension_value
  allowed_write_prefixes :: "symbol_address list"
  allowed_read_prefixes :: "symbol_address list"
  max_chain_depth :: nat
  require_cosign_above :: "tension_value option"
  ap_active :: bool

definition prefix_allowed :: "agent_policy \<Rightarrow> symbol_address list \<Rightarrow> symbol_address \<Rightarrow> bool" where
  "prefix_allowed p prefixes addr =
     (if \<not> ap_active p then False
      else if prefixes = [] then False
      else \<exists>prefix \<in> set prefixes. starts_with addr prefix)"

definition can_write :: "agent_policy \<Rightarrow> symbol_address \<Rightarrow> bool" where
  "can_write p addr = prefix_allowed p (allowed_write_prefixes p) addr"

definition can_read :: "agent_policy \<Rightarrow> symbol_address \<Rightarrow> bool" where
  "can_read p addr = prefix_allowed p (allowed_read_prefixes p) addr"

datatype policy_error =
    TransferLimitExceeded tension_value tension_value
  | PolicyAlreadyRegistered
  | PolicyRegistryFull
  | NoPolicyForAgent
  | PolicyInactive
  | WriteNotAllowed symbol_address
  | TooManyActions nat nat
  | ChainTooDeep nat nat
  | PolicyNotFound

definition check_transfer_limit :: "agent_policy \<Rightarrow> tension_value \<Rightarrow> policy_error + unit" where
  "check_transfer_limit p amt =
     (if amt > max_transfer_amount p then Inl (TransferLimitExceeded amt (max_transfer_amount p)) else Inr ())"

definition requires_cosign :: "agent_policy \<Rightarrow> tension_value \<Rightarrow> bool" where
  "requires_cosign p amt = (case require_cosign_above p of Some threshold \<Rightarrow> amt > threshold | None \<Rightarrow> False)"

definition MAX_AGENT_POLICIES :: nat where
  "MAX_AGENT_POLICIES = 50000"

record agent_policy_registry =
  policies :: "(agent_id, agent_policy) hashmap"

definition policy_registry_default :: agent_policy_registry where
  "policy_registry_default = \<lparr>policies = []\<rparr>"

definition policy_register ::
  "agent_policy_registry \<Rightarrow> agent_policy \<Rightarrow> policy_error + agent_policy_registry" where
  "policy_register reg p =
     (if map_of (policies reg) (ap_agent_id p) \<noteq> None then Inl PolicyAlreadyRegistered
      else if MAX_AGENT_POLICIES \<le> length (policies reg) then Inl PolicyRegistryFull
      else Inr (reg\<lparr>policies := AList.update (ap_agent_id p) p (policies reg)\<rparr>))"

definition policy_get :: "agent_policy_registry \<Rightarrow> agent_id \<Rightarrow> agent_policy option" where
  "policy_get reg a = map_of (policies reg) a"

definition policy_check_action ::
  "agent_policy_registry \<Rightarrow> agent_id \<Rightarrow> symbol_address \<Rightarrow> tension_value option \<Rightarrow> policy_error + unit" where
  "policy_check_action reg a target transfer_amount =
     (case policy_get reg a of
        None \<Rightarrow> Inl NoPolicyForAgent
      | Some p \<Rightarrow>
          if \<not> ap_active p then Inl PolicyInactive
          else if \<not> can_write p target then Inl (WriteNotAllowed target)
          else case transfer_amount of
                 None \<Rightarrow> Inr ()
               | Some amt \<Rightarrow> check_transfer_limit p amt)"

definition check_action_count :: "agent_policy_registry \<Rightarrow> agent_id \<Rightarrow> nat \<Rightarrow> policy_error + unit" where
  "check_action_count reg a actions_in_block =
     (case policy_get reg a of
        None \<Rightarrow> Inr ()
      | Some p \<Rightarrow>
          if max_actions_per_block p \<le> actions_in_block
          then Inl (TooManyActions actions_in_block (max_actions_per_block p)) else Inr ())"

definition check_chain_depth :: "agent_policy_registry \<Rightarrow> agent_id \<Rightarrow> nat \<Rightarrow> policy_error + unit" where
  "check_chain_depth reg a chain_depth =
     (case policy_get reg a of
        None \<Rightarrow> Inr ()
      | Some p \<Rightarrow>
          if max_chain_depth p < chain_depth then Inl (ChainTooDeep chain_depth (max_chain_depth p)) else Inr ())"

definition policy_deactivate :: "agent_policy_registry \<Rightarrow> agent_id \<Rightarrow> policy_error + agent_policy_registry" where
  "policy_deactivate reg a =
     (case map_of (policies reg) a of
        None \<Rightarrow> Inl PolicyNotFound
      | Some p \<Rightarrow> Inr (reg\<lparr>policies := AList.update a (p\<lparr>ap_active := False\<rparr>) (policies reg)\<rparr>))"

definition policy_active_count :: "agent_policy_registry \<Rightarrow> nat" where
  "policy_active_count reg = length (filter (\<lambda>(_, p). ap_active p) (policies reg))"

section \<open>Proposer selection\<close>

definition validator_score :: "validator_authority \<Rightarrow> tension_value" where
  "validator_score v =
     (let gov_score = from_integer (max (5 - int (precedence_rank (va_governance_level v))) 0)
      in tension_add
           (tension_add (mul_fp (from_integer 4) (norm_compliance v)) (mul_fp (from_integer 3) (causal_reliability v)))
           (mul_fp (from_integer 3) gov_score))"

text \<open>\<open>Iterator::max_by_key\<close>: the last of the elements with the greatest key.\<close>

fun max_by_key :: "('a \<Rightarrow> int) \<Rightarrow> 'a list \<Rightarrow> 'a option" where
  "max_by_key f [] = None"
| "max_by_key f (x # xs) =
     (case max_by_key f xs of
        None \<Rightarrow> Some x
      | Some y \<Rightarrow> if f x > f y then Some x else Some y)"

definition select_validator :: "validator_authority list \<Rightarrow> validator_authority option" where
  "select_validator vs = max_by_key validator_score (filter va_active vs)"

definition round_robin_proposer :: "validator_authority list \<Rightarrow> nat \<Rightarrow> validator_authority option" where
  "round_robin_proposer vs round_no =
     (let active = filter va_active vs
      in if active = [] then None
         else let ordered = sort_key va_node_id active
              in Some (ordered ! (round_no mod length ordered)))"

section \<open>Limits against concentration\<close>

definition u32_wrapping_add :: "nat \<Rightarrow> nat \<Rightarrow> nat" where
  "u32_wrapping_add a b = (a + b) mod 2 ^ 32"

definition u64_wrapping_sub :: "nat \<Rightarrow> nat \<Rightarrow> nat" where
  "u64_wrapping_sub a b = (a + (2 ^ 64 - b)) mod 2 ^ 64"

record governance_limits =
  max_actions_per_agent_pct :: nat
  safety_change_min_signers :: nat
  genesis_change_min_signers :: nat
  max_consecutive_proposals :: nat
  max_authority_term_epochs :: nat
  authority_cooldown_epochs :: nat

definition governance_limits_default :: governance_limits where
  "governance_limits_default =
     \<lparr>max_actions_per_agent_pct = 33, safety_change_min_signers = 3, genesis_change_min_signers = 5,
      max_consecutive_proposals = 3, max_authority_term_epochs = 100, authority_cooldown_epochs = 10\<rparr>"

record governance_power_tracker =
  actions_this_epoch :: "(agent_id, nat) hashmap"
  total_actions_epoch :: nat
  consecutive_proposals :: "(agent_id, nat) hashmap"
  last_proposer :: "agent_id option"
  authority_granted_at :: "(agent_id, nat) hashmap"
  cooldown_until :: "(agent_id, nat) hashmap"

definition power_tracker_default :: governance_power_tracker where
  "power_tracker_default =
     \<lparr>actions_this_epoch = [], total_actions_epoch = 0, consecutive_proposals = [], last_proposer = None,
      authority_granted_at = [], cooldown_until = []\<rparr>"

definition count_or_zero :: "('k, nat) hashmap \<Rightarrow> 'k \<Rightarrow> nat" where
  "count_or_zero m k = (case map_of m k of None \<Rightarrow> 0 | Some n \<Rightarrow> n)"

datatype concentration_error =
    ActionShareReached agent_id nat nat
  | TooManyConsecutive agent_id nat nat
  | InCooldown agent_id nat
  | TermExceeded agent_id nat
  | TooFewSigners precedence_level nat nat

definition tracker_check_action ::
  "governance_power_tracker \<Rightarrow> agent_id \<Rightarrow> governance_limits \<Rightarrow> concentration_error + unit" where
  "tracker_check_action t a limits =
     (if total_actions_epoch t > 0 then
        let pct = count_or_zero (actions_this_epoch t) a * 100 div total_actions_epoch t
        in if max_actions_per_agent_pct limits \<le> pct
           then Inl (ActionShareReached a pct (max_actions_per_agent_pct limits))
           else Inr ()
      else Inr ())"

definition record_action :: "governance_power_tracker \<Rightarrow> agent_id \<Rightarrow> governance_power_tracker" where
  "record_action t a =
     t\<lparr>actions_this_epoch :=
         AList.update a (u32_saturating_add (count_or_zero (actions_this_epoch t) a) 1) (actions_this_epoch t),
       total_actions_epoch := u32_saturating_add (total_actions_epoch t) 1\<rparr>"

definition check_proposal ::
  "governance_power_tracker \<Rightarrow> agent_id \<Rightarrow> governance_limits \<Rightarrow> concentration_error + unit" where
  "check_proposal t v limits =
     (case last_proposer t of
        None \<Rightarrow> Inr ()
      | Some prev \<Rightarrow>
          if prev = v then
            let consecutive = count_or_zero (consecutive_proposals t) v
            in if max_consecutive_proposals limits \<le> consecutive
               then Inl (TooManyConsecutive v consecutive (max_consecutive_proposals limits))
               else Inr ()
          else Inr ())"

definition record_proposal :: "governance_power_tracker \<Rightarrow> agent_id \<Rightarrow> governance_power_tracker" where
  "record_proposal t v =
     (if last_proposer t = Some v then
        t\<lparr>consecutive_proposals :=
            AList.update v (u32_wrapping_add (count_or_zero (consecutive_proposals t) v) 1)
              (consecutive_proposals t)\<rparr>
      else t\<lparr>consecutive_proposals := [(v, 1)], last_proposer := Some v\<rparr>)"

definition check_authority_term ::
  "governance_power_tracker \<Rightarrow> agent_id \<Rightarrow> nat \<Rightarrow> governance_limits \<Rightarrow> concentration_error + unit" where
  "check_authority_term t a current_epoch limits =
     bind_result
       (case map_of (cooldown_until t) a of
          Some cooldown_end \<Rightarrow> if current_epoch < cooldown_end then Inl (InCooldown a cooldown_end) else Inr ()
        | None \<Rightarrow> Inr ())
       (\<lambda>_. case map_of (authority_granted_at t) a of
               Some granted_at \<Rightarrow>
                 if u64_wrapping_sub current_epoch granted_at > max_authority_term_epochs limits
                 then Inl (TermExceeded a (max_authority_term_epochs limits)) else Inr ()
             | None \<Rightarrow> Inr ())"

definition grant_authority :: "governance_power_tracker \<Rightarrow> agent_id \<Rightarrow> nat \<Rightarrow> governance_power_tracker" where
  "grant_authority t a epoch_no = t\<lparr>authority_granted_at := AList.update a epoch_no (authority_granted_at t)\<rparr>"

definition revoke_authority ::
  "governance_power_tracker \<Rightarrow> agent_id \<Rightarrow> nat \<Rightarrow> governance_limits \<Rightarrow> governance_power_tracker" where
  "revoke_authority t a current_epoch limits =
     t\<lparr>authority_granted_at := AList.delete a (authority_granted_at t),
       cooldown_until :=
         AList.update a (u64_wrapping_add current_epoch (authority_cooldown_epochs limits)) (cooldown_until t)\<rparr>"

definition check_multi_sig ::
  "agent_id list \<Rightarrow> precedence_level \<Rightarrow> governance_limits \<Rightarrow> concentration_error + unit" where
  "check_multi_sig signers level limits =
     (let unique = card (set signers);
          required = (case level of
                        Genesis \<Rightarrow> genesis_change_min_signers limits
                      | Safety \<Rightarrow> safety_change_min_signers limits
                      | _ \<Rightarrow> 1)
      in if min unique U32_MAX < required then Inl (TooFewSigners level required unique) else Inr ())"

definition tracker_reset_epoch :: "governance_power_tracker \<Rightarrow> governance_power_tracker" where
  "tracker_reset_epoch t = t\<lparr>actions_this_epoch := [], total_actions_epoch := 0\<rparr>"

section \<open>Registration: revocation is final\<close>

inductive registry_op_step ::
  "(bytes \<Rightarrow> hash) \<Rightarrow> (mfidel_atomic_seal \<Rightarrow> bytes) \<Rightarrow> agent_registry \<Rightarrow> agent_registry \<Rightarrow> bool"
  for B canon where
  reg: "agent_register B canon r pk seal level h = Inr (aid, r') \<Longrightarrow> registry_op_step B canon r r'"
| rev: "agent_revoke r a = Inr r' \<Longrightarrow> registry_op_step B canon r r'"

definition revoked_in :: "agent_registry \<Rightarrow> agent_id \<Rightarrow> bool" where
  "revoked_in r a \<longleftrightarrow> (\<exists>x. map_of (agents r) a = Some x \<and> ra_revoked x)"

definition registry_bound :: "(bytes \<Rightarrow> hash) \<Rightarrow> (mfidel_atomic_seal \<Rightarrow> bytes) \<Rightarrow> agent_registry \<Rightarrow> bool" where
  "registry_bound B canon r \<longleftrightarrow>
     (\<forall>a x. map_of (agents r) a = Some x \<longrightarrow>
        a = agent_id_of (ra_identity x) \<and>
        a = canonical_agent_id B canon (public_key (ra_identity x)) (mfidel_seal (ra_identity x)))"

lemma agent_register_ok:
  assumes "agent_register B canon r pk seal level h = Inr (aid, r')"
  shows "map_of (agents r) aid = None" "aid = canonical_agent_id B canon pk seal"
    "\<exists>x. map_of (agents r') = (map_of (agents r))(aid \<mapsto> x) \<and> agent_id_of (ra_identity x) = aid \<and>
       public_key (ra_identity x) = pk \<and> mfidel_seal (ra_identity x) = seal \<and> ra_active x \<and> \<not> ra_revoked x"
  using assms by (auto simp: agent_register_def Let_def update_conv' split: if_splits)

lemma agent_revoke_ok:
  assumes "agent_revoke r a = Inr r'"
  shows "\<exists>x. map_of (agents r) a = Some x \<and>
    map_of (agents r') = (map_of (agents r))(a \<mapsto> x\<lparr>ra_active := False, ra_revoked := True\<rparr>)"
  using assms by (auto simp: agent_revoke_def update_conv' split: option.splits)

lemma registry_step_keeps:
  assumes "registry_op_step B canon r r'"
  shows "(revoked_in r a \<longrightarrow> revoked_in r' a) \<and> (registry_bound B canon r \<longrightarrow> registry_bound B canon r')"
  using assms
proof cases
  case (reg pk seal level h aid)
  note ok = agent_register_ok [OF reg]
  from ok(3) obtain x where "map_of (agents r') = (map_of (agents r))(aid \<mapsto> x)"
    "agent_id_of (ra_identity x) = aid" "public_key (ra_identity x) = pk" "mfidel_seal (ra_identity x) = seal"
    by blast
  then show ?thesis using ok(1,2) by (auto simp: revoked_in_def registry_bound_def)
next
  case (rev b)
  from agent_revoke_ok [OF rev] obtain x where "map_of (agents r) b = Some x"
    "map_of (agents r') = (map_of (agents r))(b \<mapsto> x\<lparr>ra_active := False, ra_revoked := True\<rparr>)"
    by blast
  then show ?thesis by (auto simp: revoked_in_def registry_bound_def)
qed

lemma registry_run_keeps:
  assumes "(registry_op_step B canon)\<^sup>*\<^sup>* r r'"
  shows "(revoked_in r a \<longrightarrow> revoked_in r' a) \<and> (registry_bound B canon r \<longrightarrow> registry_bound B canon r')"
  using assms
proof (induction rule: rtranclp_induct)
  case (step s t)
  then show ?case using registry_step_keeps [OF step.hyps(2), of a] by blast
qed simp

section \<open>Round robin\<close>

lemma mset_rotate_list: "mset (rotate n xs) = mset xs"
proof (induction n)
  case (Suc n)
  have "mset (rotate1 ys) = mset ys" for ys :: "'a list" by (cases ys) simp_all
  then show ?case using Suc.IH by simp
qed simp

lemma rounds_are_rotation:
  assumes "xs \<noteq> []"
  shows "map (\<lambda>i. xs ! ((r + i) mod length xs)) [0..<length xs] = rotate r xs"
  by (rule nth_equalityI) (simp_all add: nth_rotate)

lemma sort_key_canonical:
  assumes "mset xs = mset ys" "distinct (map f xs)"
  shows "sort_key f xs = sort_key f ys"
proof (rule map_sorted_distinct_set_unique)
  have sets: "set xs = set ys" using assms(1) by (rule mset_eq_setD)
  have inj: "inj_on f (set xs)" using assms(2) by (simp add: distinct_map)
  have "mset (map f xs) = mset (map f ys)" using assms(1) by (simp only: mset_map)
  from mset_eq_imp_distinct_iff [OF this] assms(2) have dy: "distinct (map f ys)" by (rule iffD1)
  show "inj_on f (set (sort_key f xs) \<union> set (sort_key f ys))"
    using inj sets by simp
  show "distinct (map f (sort_key f xs))" "distinct (map f (sort_key f ys))"
    using assms(2) dy by (simp_all add: distinct_map)
  show "set (sort_key f xs) = set (sort_key f ys)" using sets by simp
qed simp_all

section \<open>Gated proposals\<close>

fun proposal_run ::
  "governance_limits \<Rightarrow> governance_power_tracker \<Rightarrow> agent_id list \<Rightarrow> concentration_error + governance_power_tracker" where
  "proposal_run limits t [] = Inr t"
| "proposal_run limits t (v # vs) =
     bind_result (check_proposal t v limits) (\<lambda>_. proposal_run limits (record_proposal t v) vs)"

text \<open>How often the last element of a list is repeated at its end.\<close>

fun tail_run :: "'a list \<Rightarrow> nat" where
  "tail_run [] = 0"
| "tail_run (x # xs) = length (takeWhile (\<lambda>y. y = x) (x # xs))"

definition tracker_follows :: "governance_limits \<Rightarrow> governance_power_tracker \<Rightarrow> agent_id list \<Rightarrow> bool" where
  "tracker_follows limits t past \<longleftrightarrow>
     (case past of
        [] \<Rightarrow> last_proposer t = None
      | v # _ \<Rightarrow> last_proposer t = Some v \<and> count_or_zero (consecutive_proposals t) v = tail_run past \<and>
                tail_run past \<le> max 1 (max_consecutive_proposals limits))"

lemma tracker_follows_bound:
  "tracker_follows limits t past \<Longrightarrow> tail_run past \<le> max 1 (max_consecutive_proposals limits)"
  by (cases past) (simp_all add: tracker_follows_def)

lemma tracker_step:
  assumes "tracker_follows limits t past" "check_proposal t v limits = Inr ()"
    "max_consecutive_proposals limits \<le> U32_MAX"
  shows "tracker_follows limits (record_proposal t v) (v # past)"
proof (cases "last_proposer t = Some v")
  case True
  then obtain rest where past: "past = v # rest"
    using assms(1) by (auto simp: tracker_follows_def split: list.splits)
  have count: "count_or_zero (consecutive_proposals t) v = tail_run past"
    using assms(1) past by (simp add: tracker_follows_def)
  have "tail_run past < max_consecutive_proposals limits"
    using assms(2) True count by (simp add: check_proposal_def Let_def split: if_splits)
  moreover from this have "u32_wrapping_add (tail_run past) 1 = Suc (tail_run past)"
    using assms(3) by (simp add: u32_wrapping_add_def U32_MAX_def)
  ultimately show ?thesis
    using True past count by (simp add: tracker_follows_def record_proposal_def count_or_zero_def update_conv')
next
  case False
  then have "tail_run (v # past) = 1"
    using assms(1) by (auto simp: tracker_follows_def split: list.splits)
  then show ?thesis using False by (simp add: tracker_follows_def record_proposal_def count_or_zero_def)
qed

lemma tracker_run:
  assumes "proposal_run limits t vs = Inr t'" "tracker_follows limits t past"
    "max_consecutive_proposals limits \<le> U32_MAX"
  shows "tracker_follows limits t' (rev vs @ past)"
  using assms
proof (induction vs arbitrary: t past)
  case (Cons v vs)
  then have ok: "check_proposal t v limits = Inr ()" "proposal_run limits (record_proposal t v) vs = Inr t'"
    by (auto simp: bind_result_def split: sum.splits)
  show ?case using Cons.IH [OF ok(2) tracker_step [OF Cons.prems(2) ok(1) Cons.prems(3)] Cons.prems(3)] by simp
qed simp

lemma proposal_run_prefix:
  "proposal_run limits t (as @ bs) = Inr t' \<Longrightarrow> \<exists>s. proposal_run limits t as = Inr s"
  by (induction as arbitrary: t) (auto simp: bind_result_def split: sum.splits)

lemma tail_run_replicate: "k \<le> tail_run (replicate k v @ past)"
proof (cases k)
  case (Suc j)
  have "takeWhile (\<lambda>y. y = v) (replicate k v @ past) = replicate k v @ takeWhile (\<lambda>y. y = v) past"
    by (rule takeWhile_append2) simp
  then show ?thesis using Suc by simp
qed simp

section \<open>Gated governance actions\<close>

fun action_run ::
  "governance_limits \<Rightarrow> governance_power_tracker \<Rightarrow> agent_id list \<Rightarrow> concentration_error + governance_power_tracker" where
  "action_run limits t [] = Inr t"
| "action_run limits t (a # as) =
     bind_result (tracker_check_action t a limits) (\<lambda>_. action_run limits (record_action t a) as)"

definition acted_once :: "governance_power_tracker \<Rightarrow> agent_id list \<Rightarrow> bool" where
  "acted_once t past \<longleftrightarrow> distinct past \<and> total_actions_epoch t = length past \<and>
     (\<forall>a. count_or_zero (actions_this_epoch t) a = count_list past a)"

lemma distinct_counts_one: "distinct xs \<Longrightarrow> a \<in> set xs \<Longrightarrow> count_list xs a = 1"
  by (induction xs) (auto simp: count_list_0_iff)

lemma acted_once_step:
  assumes "acted_once t past" "tracker_check_action t a limits = Inr ()" "set (a # past) \<subseteq> council"
    "finite council" "card council * max_actions_per_agent_pct limits \<le> 100" "card council \<le> 100"
  shows "a \<notin> set past \<and> acted_once (record_action t a) (a # past)"
proof -
  have len: "length past \<le> card council"
    using assms(1,3,4) by (metis acted_once_def card_mono distinct_card le_trans order.refl set_subset_Cons subset_trans)
  have fresh: "a \<notin> set past"
  proof
    assume a: "a \<in> set past"
    then have one: "count_list past a = 1" and pos: "0 < length past"
      using assms(1) by (auto simp: acted_once_def distinct_counts_one)
    have "max_actions_per_agent_pct limits * length past \<le> 100"
      using assms(5) len by (metis le_trans mult.commute mult_le_mono1)
    then have "max_actions_per_agent_pct limits \<le> 100 div length past"
      using pos by (simp add: less_eq_div_iff_mult_less_eq)
    then show False using assms(1,2) one pos by (auto simp: acted_once_def tracker_check_action_def Let_def)
  qed
  have "length past < U32_MAX" using len assms(6) by (simp add: U32_MAX_def)
  then show ?thesis
    using assms(1) fresh
    by (auto simp: acted_once_def record_action_def count_or_zero_def update_conv' u32_saturating_add_def
        U32_MAX_def count_list_0_iff)
qed

lemma acted_once_run:
  assumes "action_run limits t as = Inr t'" "acted_once t past" "set as \<union> set past \<subseteq> council"
    "finite council" "card council * max_actions_per_agent_pct limits \<le> 100" "card council \<le> 100"
  shows "acted_once t' (rev as @ past)"
  using assms
proof (induction as arbitrary: t past)
  case (Cons a as)
  then have ok: "tracker_check_action t a limits = Inr ()" "action_run limits (record_action t a) as = Inr t'"
    by (auto simp: bind_result_def split: sum.splits)
  have "acted_once (record_action t a) (a # past)"
    using acted_once_step [OF Cons.prems(2) ok(1) _ Cons.prems(4-6)] Cons.prems(3) by auto
  then show ?case using Cons.IH [OF ok(2)] Cons.prems(3-6) by auto
qed simp

section \<open>Properties\<close>

definition sample_authority :: "hash \<Rightarrow> bool \<Rightarrow> validator_authority" where
  "sample_authority n act =
     \<lparr>va_node_id = n, va_governance_level = Meaning, norm_compliance = 0, causal_reliability = 0, va_active = act\<rparr>"

text \<open>
  Round-robin proposing is fair and does not depend on how the validator list is ordered: two
  lists with the same validators (with distinct node ids) give the same proposer in every round, and in
  any run of as many consecutive rounds as there are active validators each of them proposes exactly once.
\<close>

theorem round_robin_fair:
  assumes "mset vs = mset vs'" "distinct (map va_node_id (filter va_active vs))" "filter va_active vs \<noteq> []"
  shows "round_robin_proposer vs r = round_robin_proposer vs' r \<and>
    mset (map (\<lambda>i. round_robin_proposer vs (r + i)) [0..<length (filter va_active vs)]) =
      mset (map Some (filter va_active vs))"
proof -
  let ?act = "filter va_active vs" and ?ord = "sort_key va_node_id (filter va_active vs)"
  have same: "mset ?act = mset (filter va_active vs')" using assms(1) by simp
  have "filter va_active vs' \<noteq> []" using same assms(3) by (metis mset_zero_iff)
  moreover have "length (filter va_active vs') = length ?act" using same by (metis size_mset)
  ultimately have first: "round_robin_proposer vs r = round_robin_proposer vs' r"
    using assms(3) sort_key_canonical [OF same assms(2)] by (simp add: round_robin_proposer_def Let_def)
  have "map (\<lambda>i. round_robin_proposer vs (r + i)) [0..<length ?act] =
      map Some (map (\<lambda>i. ?ord ! ((r + i) mod length ?ord)) [0..<length ?ord])"
    using assms(3) by (simp add: round_robin_proposer_def Let_def)
  also have "\<dots> = map Some (rotate r ?ord)"
    using assms(3) by (subst rounds_are_rotation) (auto simp flip: length_greater_0_conv)
  also have "mset \<dots> = mset (map Some ?act)" by (simp only: mset_map mset_rotate_list mset_sort)
  finally show ?thesis using first by simp
qed

theorem round_robin_witness:
  "round_robin_proposer [sample_authority 3 True, sample_authority 1 False, sample_authority 2 True] 4 =
   round_robin_proposer [sample_authority 2 True, sample_authority 3 True, sample_authority 1 False] 4"
  using round_robin_fair [of "[sample_authority 3 True, sample_authority 1 False, sample_authority 2 True]"
      "[sample_authority 2 True, sample_authority 3 True, sample_authority 1 False]" 4]
  by (simp add: sample_authority_def add_mset_commute)

text \<open>
  No proposer monopoly: in any sequence of proposals that each passed the proposal check, no
  validator proposes more consecutive blocks than the limit (one block is always possible).
\<close>

theorem no_proposer_monopoly:
  assumes "proposal_run limits power_tracker_default (pre @ replicate k v @ post) = Inr t"
    "max_consecutive_proposals limits \<le> U32_MAX"
  shows "k \<le> max 1 (max_consecutive_proposals limits)"
proof (cases k)
  case (Suc j)
  obtain s where "proposal_run limits power_tracker_default (pre @ replicate k v) = Inr s"
    using proposal_run_prefix [of limits power_tracker_default "pre @ replicate k v" post] assms(1) by auto
  moreover have "tracker_follows limits power_tracker_default []"
    by (simp add: tracker_follows_def power_tracker_default_def)
  ultimately have "tracker_follows limits s (rev (pre @ replicate k v) @ [])"
    using tracker_run assms(2) by blast
  then have "tail_run (replicate k v @ rev pre) \<le> max 1 (max_consecutive_proposals limits)"
    using tracker_follows_bound by fastforce
  then show ?thesis using tail_run_replicate [of k v "rev pre"] by linarith
qed simp

theorem no_proposer_monopoly_witness:
  "\<exists>t. proposal_run governance_limits_default power_tracker_default [5, 7, 7, 7, 5] = Inr t \<and>
     (3::nat) \<le> max 1 (max_consecutive_proposals governance_limits_default)"
proof -
  obtain t where t: "proposal_run governance_limits_default power_tracker_default [5, 7, 7, 7, 5] = Inr t"
    by (simp add: governance_limits_default_def power_tracker_default_def check_proposal_def
        record_proposal_def bind_result_def count_or_zero_def u32_wrapping_add_def)
  then show ?thesis
    using no_proposer_monopoly [of governance_limits_default "[5]" 3 7 "[5]" t]
    by (simp add: governance_limits_default_def U32_MAX_def numeral_3_eq_3)
qed

text \<open>
  Revocation is final and identities are bound: through any registrations and revocations a
  revoked agent never becomes active again, and every registered identity sits under the identifier
  derived from its own public key and seal.
\<close>

theorem revocation_final:
  assumes "agent_revoke r a = Inr r1" "(registry_op_step B canon)\<^sup>*\<^sup>* r1 r2" "registry_bound B canon r"
  shows "\<not> agent_is_active r2 a \<and> registry_bound B canon r2"
proof -
  have "revoked_in r1 a" using agent_revoke_ok [OF assms(1)] by (auto simp: revoked_in_def)
  moreover have "registry_bound B canon r1"
    using registry_step_keeps registry_op_step.rev [OF assms(1)] assms(3) by blast
  ultimately show ?thesis
    using registry_run_keeps [OF assms(2), of a] by (auto simp: revoked_in_def agent_is_active_def)
qed

theorem revocation_final_witness:
  "\<exists>aid r r1. agent_register (\<lambda>_. 5) (\<lambda>_. []) agent_registry_default 9 (seal_from_height 1) Meaning 1 = Inr (aid, r) \<and>
     agent_is_active r aid \<and> agent_revoke r aid = Inr r1 \<and> \<not> agent_is_active r1 aid"
proof -
  obtain r :: agent_registry where r: "agent_register (\<lambda>_. 5) (\<lambda>_. []) agent_registry_default 9 (seal_from_height 1) Meaning 1 = Inr (5, r)"
    and act: "agent_is_active r 5"
    by (simp add: agent_register_def agent_registry_default_def MAX_AGENTS_def canonical_agent_id_def
        blake3_hash_concat_def agent_is_active_def)
  have "registry_bound (\<lambda>_. 5) (\<lambda>_. []) agent_registry_default"
    by (simp add: registry_bound_def agent_registry_default_def)
  then have bound: "registry_bound (\<lambda>_. 5) (\<lambda>_. []) r"
    using registry_step_keeps registry_op_step.reg [OF r] by blast
  from act obtain r1 :: agent_registry where r1: "agent_revoke r 5 = Inr r1"
    by (auto simp: agent_is_active_def agent_revoke_def split: option.splits)
  show ?thesis using revocation_final [OF r1 rtranclp.rtrancl_refl bound] r r1 act by blast
qed

text \<open>
  The share limit on governance actions stops a small council: when the number of agents times
  the limit in percent is at most one hundred (three agents under the default limit of 33), every
  sequence of actions that passed the check has each agent acting at most once in the epoch.
\<close>

theorem small_council_acts_once:
  assumes "action_run limits power_tracker_default as = Inr t" "set as \<subseteq> council" "finite council"
    "card council * max_actions_per_agent_pct limits \<le> 100" "card council \<le> 100"
  shows "distinct as \<and> length as \<le> card council"
proof -
  have "acted_once power_tracker_default []"
    by (simp add: acted_once_def power_tracker_default_def count_or_zero_def)
  then have "distinct as" using acted_once_run [OF assms(1), of "[]" council] assms(2-5) by (simp add: acted_once_def)
  then show ?thesis using assms(2,3) by (metis card_mono distinct_card)
qed

theorem small_council_witness:
  "\<exists>t. action_run governance_limits_default power_tracker_default [1, 2, 3] = Inr t \<and> distinct [1::hash, 2, 3]"
proof -
  obtain t where t: "action_run governance_limits_default power_tracker_default [1, 2, 3] = Inr t"
    by (simp add: governance_limits_default_def power_tracker_default_def tracker_check_action_def Let_def
        record_action_def bind_result_def count_or_zero_def u32_saturating_add_def U32_MAX_def)
  have "distinct [1::hash, 2, 3] \<and> length [1::hash, 2, 3] \<le> card {1::hash, 2, 3}"
    by (rule small_council_acts_once [OF t]) (simp_all add: governance_limits_default_def)
  then show ?thesis using t by blast
qed

end
