(* ===== verification/Scc_Norms.thy ===== *)
theory Scc_Norms
  imports Scc_Types
begin

text \<open>
  Norm evolution by discrete replicator dynamics (\<open>governance/norms.rs\<close>) and the decaying record of
  contributions (\<open>governance/responsibility.rs\<close>). Both are fixed-point computations; the lemmas show
  that the renormalised shares stay within one raw unit per norm of the whole, and that decay never
  grows a contribution.
\<close>

section \<open>Norm registry\<close>

definition MAX_NORMS :: nat where
  "MAX_NORMS = 10000"

record norm_registry =
  norms :: "(hash, norm_t) hashmap"

definition norm_registry_new :: norm_registry where
  "norm_registry_new = \<lparr>norms = []\<rparr>"

datatype norm_error = NormRegistryFull nat nat

definition norm_register :: "norm_registry \<Rightarrow> norm_t \<Rightarrow> norm_error + norm_registry" where
  "norm_register reg n =
     (if map_of (norms reg) (norm_id n) = None \<and> MAX_NORMS \<le> length (norms reg)
      then Inl (NormRegistryFull (length (norms reg)) MAX_NORMS)
      else Inr (reg\<lparr>norms := AList.update (norm_id n) n (norms reg)\<rparr>))"

definition norm_get :: "norm_registry \<Rightarrow> hash \<Rightarrow> norm_t option" where
  "norm_get reg i = map_of (norms reg) i"

definition active_norm_ids :: "norm_registry \<Rightarrow> hash list" where
  "active_norm_ids reg = map fst (filter (\<lambda>(_, n). norm_active n) (norms reg))"

definition norm_fitness :: "norm_t \<Rightarrow> tension_value" where
  "norm_fitness n = tension_max (tension_sub (fitness n) (enforcement_cost n)) 0"

text \<open>The map of fitness values, one per active norm found in the registry.\<close>

definition norm_fitnesses :: "norm_registry \<Rightarrow> hash list \<Rightarrow> (hash, tension_value) hashmap" where
  "norm_fitnesses reg ids =
     List.map_filter (\<lambda>i. map_option (\<lambda>n. (i, norm_fitness n)) (map_of (norms reg) i)) ids"

definition mean_fitness :: "norm_registry \<Rightarrow> (hash, tension_value) hashmap \<Rightarrow> hash list \<Rightarrow> tension_value" where
  "mean_fitness reg fs ids =
     foldl tension_add 0
       (List.map_filter
          (\<lambda>i. case map_of (norms reg) i of
                 None \<Rightarrow> None
               | Some n \<Rightarrow> map_option (mul_fp (population_share n)) (map_of fs i)) ids)"

definition replicate_share :: "tension_value \<Rightarrow> tension_value \<Rightarrow> norm_t \<Rightarrow> norm_t" where
  "replicate_share mean f n =
     (let numerator = mul_fp (population_share n) f;
          raw = (if mean \<noteq> 0 then
                   i128_saturating_add (i128_saturating_mul (i128_div numerator mean) SCALE)
                     (i128_div (i128_saturating_mul (i128_rem numerator mean) SCALE) mean)
                 else 0)
      in n\<lparr>population_share := max 0 (min SCALE raw)\<rparr>)"

definition replicate_norms ::
  "tension_value \<Rightarrow> (hash, tension_value) hashmap \<Rightarrow> hash list \<Rightarrow> (hash, norm_t) hashmap \<Rightarrow> (hash, norm_t) hashmap" where
  "replicate_norms mean fs ids ns =
     fold (\<lambda>i ns. case map_of fs i of
                    None \<Rightarrow> ns
                  | Some f \<Rightarrow> AList.map_entry i (replicate_share mean f) ns) ids ns"

definition share_total :: "hash list \<Rightarrow> (hash, norm_t) hashmap \<Rightarrow> int" where
  "share_total ids ns =
     sum_list (List.map_filter (\<lambda>i. map_option population_share (map_of ns i)) ids)"

definition renormalize :: "hash list \<Rightarrow> (hash, norm_t) hashmap \<Rightarrow> (hash, norm_t) hashmap" where
  "renormalize ids ns =
     (let tot = share_total ids ns
      in if tot > 0 then
           fold (\<lambda>i. AList.map_entry i
                   (\<lambda>n. n\<lparr>population_share :=
                          max (i128_div (i128_saturating_mul (population_share n) SCALE) tot) 0\<rparr>)) ids ns
         else if ids \<noteq> [] then
           let equal_share = i128_div SCALE (int (length ids))
           in fold (\<lambda>i. AList.map_entry i (\<lambda>n. n\<lparr>population_share := equal_share\<rparr>)) ids ns
         else ns)"

definition evolve_epoch :: "norm_registry \<Rightarrow> norm_registry" where
  "evolve_epoch reg =
     (let ids = active_norm_ids reg
      in if ids = [] then reg
         else
           let fs = norm_fitnesses reg ids; mean = mean_fitness reg fs ids
           in if mean \<le> 0 then reg
              else reg\<lparr>norms := renormalize ids (replicate_norms mean fs ids (norms reg))\<rparr>)"

section \<open>Responsibility\<close>

definition MAX_CONTRIBUTIONS :: nat where
  "MAX_CONTRIBUTIONS = 1000"

function exp_loop :: "tension_value \<Rightarrow> tension_value \<Rightarrow> nat \<Rightarrow> tension_value" where
  "exp_loop result b e =
     (if e > 0 then exp_loop (if e mod 2 = 1 then mul_fp result b else result) (mul_fp b b) (e div 2)
      else result)"
  by pat_completeness auto
termination by (relation "measure (\<lambda>(_, _, e). e)") auto

declare exp_loop.simps [simp del]

definition exp_by_squaring :: "tension_value \<Rightarrow> nat \<Rightarrow> tension_value" where
  "exp_by_squaring b e = (if e = 0 then SCALE else exp_loop SCALE b e)"

definition decay_entry :: "tension_value \<Rightarrow> nat \<Rightarrow> responsibility_entry \<Rightarrow> responsibility_entry" where
  "decay_entry factor current_height e =
     (let age = current_height - re_block_height e
      in if age > 0 then
           e\<lparr>r_value := mul_fp (r_value e) (exp_by_squaring factor (min age 200)),
             re_block_height := current_height\<rparr>
         else e)"

definition cap_contributions :: "responsibility_entry list \<Rightarrow> responsibility_entry list" where
  "cap_contributions es =
     (if length es > MAX_CONTRIBUTIONS then drop (length es - MAX_CONTRIBUTIONS) es else es)"

definition sum_entries :: "responsibility_entry list \<Rightarrow> tension_value" where
  "sum_entries es = foldl tension_add 0 (map r_value es)"

definition apply_decay :: "responsibility_state \<Rightarrow> nat \<Rightarrow> responsibility_state" where
  "apply_decay s current_height =
     (let factor = tension_sub SCALE (decay_factor s);
          keep = (\<lambda>e. \<bar>r_value e\<bar> > 1);
          pos = cap_contributions (filter keep (map (decay_entry factor current_height) (positive_contributions s)));
          neg = cap_contributions (filter keep (map (decay_entry factor current_height) (negative_contributions s)))
      in s\<lparr>positive_contributions := pos, negative_contributions := neg,
           net_responsibility := tension_sub (sum_entries pos) (sum_entries neg)\<rparr>)"

definition record_positive :: "responsibility_state \<Rightarrow> hash \<Rightarrow> tension_value \<Rightarrow> nat \<Rightarrow> responsibility_state" where
  "record_positive s tx v h =
     s\<lparr>positive_contributions := cap_contributions
         (positive_contributions s @ [\<lparr>re_transition_id = tx, r_value = v, re_block_height = h\<rparr>]),
       net_responsibility := tension_add (net_responsibility s) v\<rparr>"

definition record_negative :: "responsibility_state \<Rightarrow> hash \<Rightarrow> tension_value \<Rightarrow> nat \<Rightarrow> responsibility_state" where
  "record_negative s tx v h =
     s\<lparr>negative_contributions := cap_contributions
         (negative_contributions s @ [\<lparr>re_transition_id = tx, r_value = v, re_block_height = h\<rparr>]),
       net_responsibility := tension_sub (net_responsibility s) v\<rparr>"

definition check_responsibility_bound :: "responsibility_state list \<Rightarrow> tension_value \<Rightarrow> bool" where
  "check_responsibility_bound ss max_imbalance =
     (\<bar>foldl tension_add 0 (map net_responsibility ss)\<bar> \<le> \<bar>max_imbalance\<bar>)"

section \<open>Lemmas on norms\<close>

lemma fold_map_entry:
  assumes "distinct ids"
  shows "map_of (fold (\<lambda>i. AList.map_entry i (f i)) ids ns) k =
    (if k \<in> set ids then map_option (f k) (map_of ns k) else map_of ns k)"
  using assms
proof (induction ids arbitrary: ns)
  case (Cons i ids)
  then show ?case by (auto simp: map_of_map_entry split: option.splits)
qed simp

lemma fold_map_entry_keys: "map fst (fold (\<lambda>i. AList.map_entry i (f i)) ids ns) = map fst ns"
proof (induction ids arbitrary: ns)
  case (Cons i ids)
  have "map fst (AList.map_entry i (f i) ns) = map fst ns" by (induction ns) auto
  then show ?case using Cons.IH by simp
qed simp

lemma sum_floor_shares:
  fixes xs :: "int list"
  assumes "0 < t" "sum_list xs = t * w" "xs \<noteq> []"
  shows "w - int (length xs) < sum_list (map (\<lambda>x. x div t) xs)" "sum_list (map (\<lambda>x. x div t) xs) \<le> w"
proof -
  let ?q = "sum_list (map (\<lambda>x. x div t) xs)" and ?r = "sum_list (map (\<lambda>x. x mod t) xs)"
  have "sum_list xs = t * ?q + ?r"
    by (induction xs) (simp_all add: algebra_simps)
  then have eq: "t * (w - ?q) = ?r" using assms(2) by (simp add: algebra_simps)
  have r0: "0 \<le> ?r" using assms(1) by (intro sum_list_nonneg) auto
  have "?r \<le> sum_list (map (\<lambda>_. t - 1) xs)" using assms(1) by (intro sum_list_mono) simp
  also have "\<dots> = int (length xs) * (t - 1)" by (simp add: sum_list_triv)
  also have "\<dots> < int (length xs) * t" using assms(3) by simp
  finally have "t * (w - ?q) < t * int (length xs)" using eq by (simp add: mult.commute)
  then show "w - int (length xs) < ?q" using assms(1) mult_less_cancel_left_pos by fastforce
  have "0 \<le> t * (w - ?q)" using eq r0 by simp
  then show "?q \<le> w" using assms(1) by (simp add: zero_le_mult_iff)
qed

definition share_of :: "(hash, norm_t) hashmap \<Rightarrow> hash \<Rightarrow> int" where
  "share_of ns i = (case map_of ns i of None \<Rightarrow> 0 | Some n \<Rightarrow> population_share n)"

lemma share_total_sum:
  assumes "\<forall>i \<in> set ids. map_of ns i \<noteq> None"
  shows "share_total ids ns = sum_list (map (share_of ns) ids)"
  using assms by (induction ids) (auto simp: share_total_def List.map_filter_simps share_of_def)

lemma active_norms_present:
  assumes "i \<in> set (active_norm_ids reg)" "distinct (map fst (norms reg))"
  shows "\<exists>n. map_of (norms reg) i = Some n \<and> norm_active n"
  using assms by (auto simp: active_norm_ids_def)

lemma active_norms_distinct: "distinct (map fst (norms reg)) \<Longrightarrow> distinct (active_norm_ids reg)"
  by (simp add: active_norm_ids_def distinct_map_filter)

lemma renormalize_present:
  assumes "distinct ids" "\<forall>i \<in> set ids. map_of ns i \<noteq> None"
  shows "\<forall>i \<in> set ids. map_of (renormalize ids ns) i \<noteq> None"
  using assms by (auto simp: renormalize_def Let_def fold_map_entry)

text \<open>Shares of a positive total are scaled down to the whole, each rounded down.\<close>

lemma renormalize_scaled:
  assumes "distinct ids" "i \<in> set ids" "map_of ns i \<noteq> None" "0 < share_total ids ns"
    "0 \<le> share_of ns i" "share_of ns i \<le> SCALE"
  shows "share_of (renormalize ids ns) i = share_of ns i * SCALE div share_total ids ns"
proof -
  have "share_of ns i * SCALE \<le> SCALE * SCALE" using assms(6) by (intro mult_right_mono) simp_all
  then have "share_of ns i * SCALE \<le> I128_MAX" by (simp add: machine_int)
  then have "i128_saturating_mul (share_of ns i) SCALE = share_of ns i * SCALE"
    using assms(5) by (simp add: i128_saturating_mul_nonneg)
  moreover have "0 \<le> share_of ns i * SCALE" using assms(5) by simp
  ultimately show ?thesis
    using assms(1-4)
    by (auto simp: renormalize_def Let_def share_of_def fold_map_entry i128_div_pos
        pos_imp_zdiv_nonneg_iff split: option.splits)
qed

lemma renormalize_positive:
  assumes "distinct ids" "ids \<noteq> []" "\<forall>i \<in> set ids. map_of ns i \<noteq> None"
    "\<forall>i \<in> set ids. 0 \<le> share_of ns i \<and> share_of ns i \<le> SCALE" "0 < share_total ids ns"
  shows "SCALE - int (length ids) < share_total ids (renormalize ids ns) \<and>
    share_total ids (renormalize ids ns) \<le> SCALE \<and> (\<forall>i \<in> set ids. 0 \<le> share_of (renormalize ids ns) i)"
proof -
  let ?tot = "share_total ids ns" and ?xs = "map (\<lambda>j. share_of ns j * SCALE) ids"
  have new: "\<forall>j \<in> set ids. share_of (renormalize ids ns) j = share_of ns j * SCALE div ?tot"
    using renormalize_scaled assms by blast
  have "sum_list ?xs = ?tot * SCALE"
    by (simp add: share_total_sum [OF assms(3)] sum_list_mult_const)
  moreover have "share_total ids (renormalize ids ns) = sum_list (map (\<lambda>x. x div ?tot) ?xs)"
    using new by (simp add: share_total_sum [OF renormalize_present [OF assms(1,3)]] comp_def cong: map_cong)
  ultimately show ?thesis
    using sum_floor_shares [OF assms(5), of ?xs SCALE] assms(2,4,5) new
    by (auto simp: pos_imp_zdiv_nonneg_iff)
qed

lemma renormalize_collapsed:
  assumes "distinct ids" "ids \<noteq> []" "\<forall>i \<in> set ids. map_of ns i \<noteq> None" "\<not> 0 < share_total ids ns"
  shows "SCALE - int (length ids) < share_total ids (renormalize ids ns) \<and>
    share_total ids (renormalize ids ns) \<le> SCALE \<and> (\<forall>i \<in> set ids. 0 \<le> share_of (renormalize ids ns) i)"
proof -
  let ?n = "int (length ids)"
  have len: "0 < ?n" using assms(2) by simp
  have new: "share_of (renormalize ids ns) j = SCALE div ?n" if "j \<in> set ids" for j
    using assms that len
    by (auto simp: renormalize_def Let_def share_of_def fold_map_entry i128_div_pos split: option.splits)
  then have "map (share_of (renormalize ids ns)) ids = map (\<lambda>_. SCALE div ?n) ids" by simp
  then have "share_total ids (renormalize ids ns) = ?n * (SCALE div ?n)"
    by (simp only: share_total_sum [OF renormalize_present [OF assms(1,3)]]) (simp add: sum_list_triv)
  moreover have "?n * (SCALE div ?n) = SCALE - SCALE mod ?n" by (simp add: minus_mod_eq_mult_div)
  moreover have "0 \<le> SCALE mod ?n" "SCALE mod ?n < ?n" using len by simp_all
  ultimately show ?thesis using new len by (auto simp: pos_imp_zdiv_nonneg_iff)
qed

lemma renormalize_shares:
  assumes "distinct ids" "ids \<noteq> []" "\<forall>i \<in> set ids. map_of ns i \<noteq> None"
    "\<forall>i \<in> set ids. 0 \<le> share_of ns i \<and> share_of ns i \<le> SCALE"
  shows "SCALE - int (length ids) < share_total ids (renormalize ids ns) \<and>
    share_total ids (renormalize ids ns) \<le> SCALE \<and> (\<forall>i \<in> set ids. 0 \<le> share_of (renormalize ids ns) i)"
  using renormalize_positive [OF assms] renormalize_collapsed [OF assms(1-3)] by blast

lemma norm_fitnesses_lookup:
  assumes "map_of (norms reg) i = Some n" "i \<in> set ids" "distinct ids"
  shows "map_of (norm_fitnesses reg ids) i = Some (norm_fitness n)"
  using assms(2,3)
proof (induction ids)
  case (Cons j ids)
  then show ?case using assms(1)
    by (auto simp: norm_fitnesses_def List.map_filter_simps split: option.splits)
qed simp

lemma replicate_norms_fold:
  assumes "\<forall>i \<in> set ids. map_of fs i \<noteq> None"
  shows "replicate_norms mean fs ids ns =
    fold (\<lambda>i. AList.map_entry i (replicate_share mean (the (map_of fs i)))) ids ns"
  using assms unfolding replicate_norms_def by (intro fold_cong) auto

lemma replicate_share_range:
  "0 \<le> population_share (replicate_share mean f n)" "population_share (replicate_share mean f n) \<le> SCALE"
  "norm_active (replicate_share mean f n) = norm_active n"
  by (simp_all add: replicate_share_def Let_def)

lemma renormalize_frame:
  assumes "distinct ids"
  shows "k \<notin> set ids \<Longrightarrow> map_of (renormalize ids ns) k = map_of ns k"
    "map_option norm_active (map_of (renormalize ids ns) k) = map_option norm_active (map_of ns k)"
    "map fst (renormalize ids ns) = map fst ns"
  using assms
  by (auto simp: renormalize_def Let_def fold_map_entry fold_map_entry_keys option.map_comp comp_def)

lemma evolve_epoch_effect:
  assumes "distinct (map fst (norms reg))"
    "0 < mean_fitness reg (norm_fitnesses reg (active_norm_ids reg)) (active_norm_ids reg)"
  obtains ns where "norms (evolve_epoch reg) = renormalize (active_norm_ids reg) ns"
    "\<forall>i \<in> set (active_norm_ids reg). map_of ns i \<noteq> None \<and> 0 \<le> share_of ns i \<and> share_of ns i \<le> SCALE"
    "\<forall>k. map_option norm_active (map_of ns k) = map_option norm_active (map_of (norms reg) k)"
    "\<forall>k. k \<notin> set (active_norm_ids reg) \<longrightarrow> map_of ns k = map_of (norms reg) k"
    "map fst ns = map fst (norms reg)" "active_norm_ids reg \<noteq> []"
proof -
  let ?ids = "active_norm_ids reg"
  let ?fs = "norm_fitnesses reg ?ids"
  let ?ns = "replicate_norms (mean_fitness reg ?fs ?ids) ?fs ?ids (norms reg)"
  have d: "distinct ?ids" by (rule active_norms_distinct [OF assms(1)])
  have fs: "\<forall>i \<in> set ?ids. map_of ?fs i \<noteq> None"
    using norm_fitnesses_lookup d active_norms_present assms(1) by fastforce
  have ne: "?ids \<noteq> []" using assms(2) by (auto simp: mean_fitness_def List.map_filter_simps)
  have "norms (evolve_epoch reg) = renormalize ?ids ?ns"
    using assms(2) ne by (simp add: evolve_epoch_def Let_def)
  moreover have "\<forall>i \<in> set ?ids. map_of ?ns i \<noteq> None \<and> 0 \<le> share_of ?ns i \<and> share_of ?ns i \<le> SCALE"
    using active_norms_present [OF _ assms(1)] d
    by (fastforce simp: replicate_norms_fold [OF fs] fold_map_entry share_of_def replicate_share_range)
  moreover have "\<forall>k. map_option norm_active (map_of ?ns k) = map_option norm_active (map_of (norms reg) k)"
    using d by (auto simp: replicate_norms_fold [OF fs] fold_map_entry option.map_comp comp_def replicate_share_range)
  moreover have "\<forall>k. k \<notin> set ?ids \<longrightarrow> map_of ?ns k = map_of (norms reg) k" "map fst ?ns = map fst (norms reg)"
    using d by (simp_all add: replicate_norms_fold [OF fs] fold_map_entry fold_map_entry_keys)
  ultimately show ?thesis using that ne by blast
qed

definition active_in :: "(hash, norm_t) hashmap \<Rightarrow> hash \<Rightarrow> bool" where
  "active_in ns k \<longleftrightarrow> map_option norm_active (map_of ns k) = Some True"

lemma active_norms_keys:
  assumes "distinct (map fst (norms reg))"
  shows "active_norm_ids reg = filter (active_in (norms reg)) (map fst (norms reg))"
proof -
  have "norm_active n = active_in (norms reg) k" if "(k, n) \<in> set (norms reg)" for k n
    using map_of_is_SomeI [OF assms that] by (simp only: active_in_def) simp
  then have "filter (\<lambda>(_, n). norm_active n) (norms reg) = filter (active_in (norms reg) \<circ> fst) (norms reg)"
    by (intro filter_cong) auto
  then show ?thesis by (simp add: active_norm_ids_def filter_map)
qed

section \<open>Lemmas on decay\<close>

lemma mul_fp_fraction:
  assumes "\<bar>a\<bar> \<le> I128_MAX" "0 \<le> b" "b \<le> SCALE"
  shows "mul_fp a b = (if a < 0 then -1 else 1) * (\<bar>a\<bar> * b div SCALE)" "\<bar>a\<bar> * b div SCALE \<le> \<bar>a\<bar>"
    "0 \<le> \<bar>a\<bar> * b div SCALE"
proof -
  have "\<bar>a\<bar> * b \<le> \<bar>a\<bar> * SCALE" using assms(3) by (intro mult_left_mono) simp_all
  then have "\<bar>a\<bar> * b div SCALE \<le> \<bar>a\<bar> * SCALE div SCALE" by (intro zdiv_mono1) simp_all
  then show div: "\<bar>a\<bar> * b div SCALE \<le> \<bar>a\<bar>" by simp
  show "0 \<le> \<bar>a\<bar> * b div SCALE" using assms(2) by (simp add: pos_imp_zdiv_nonneg_iff)
  have "\<bar>a\<bar> mod SCALE \<le> SCALE" using pos_mod_bound [OF SCALE_pos(1), of "\<bar>a\<bar>"] by linarith
  then have "\<bar>a\<bar> mod SCALE * b \<le> SCALE * SCALE" using assms(2,3) by (intro mult_mono) simp_all
  then have "\<bar>a\<bar> mod SCALE * \<bar>b\<bar> \<le> U128_MAX" using assms(2) by (simp add: machine_int)
  moreover have "\<bar>a\<bar> * \<bar>b\<bar> div SCALE \<le> I128_MAX" using div assms(1,2) by simp
  ultimately show "mul_fp a b = (if a < 0 then -1 else 1) * (\<bar>a\<bar> * b div SCALE)"
    using mul_fp_abs_exact [of a b] assms(2) by simp
qed

corollary mul_fp_shrinks:
  assumes "\<bar>a\<bar> \<le> I128_MAX" "0 \<le> b" "b \<le> SCALE"
  shows "\<bar>mul_fp a b\<bar> \<le> \<bar>a\<bar>" "0 \<le> a \<Longrightarrow> 0 \<le> mul_fp a b"
  using mul_fp_fraction [OF assms] by auto

lemma SCALE_le_max: "SCALE \<le> I128_MAX"
  by (simp add: machine_int)

lemma exp_loop_range:
  assumes "0 \<le> r" "r \<le> SCALE" "0 \<le> b" "b \<le> SCALE"
  shows "0 \<le> exp_loop r b e \<and> exp_loop r b e \<le> SCALE"
  using assms
proof (induction r b e rule: exp_loop.induct)
  case (1 r b e)
  have sq: "0 \<le> mul_fp b b" "mul_fp b b \<le> SCALE"
    using mul_fp_shrinks [of b b] 1(4,5) SCALE_le_max by auto
  have rb: "0 \<le> mul_fp r b" "mul_fp r b \<le> SCALE"
    using mul_fp_shrinks [of r b] 1(2-5) SCALE_le_max by auto
  show ?case
  proof (cases "e > 0")
    case True
    have "0 \<le> (if e mod 2 = 1 then mul_fp r b else r)" "(if e mod 2 = 1 then mul_fp r b else r) \<le> SCALE"
      using rb 1(2,3) by simp_all
    from "1.IH" [OF True this sq] show ?thesis using True by (simp add: exp_loop.simps [of r b e])
  next
    case False
    then show ?thesis using 1(2,3) by (simp add: exp_loop.simps [of r b])
  qed
qed

lemma exp_by_squaring_range:
  "0 \<le> b \<Longrightarrow> b \<le> SCALE \<Longrightarrow> 0 \<le> exp_by_squaring b e \<and> exp_by_squaring b e \<le> SCALE"
  using exp_loop_range [of SCALE b e] by (simp add: exp_by_squaring_def)

lemma decay_entry_shrinks:
  assumes "0 \<le> factor" "factor \<le> SCALE" "\<bar>r_value e\<bar> \<le> I128_MAX"
  shows "\<bar>r_value (decay_entry factor h e)\<bar> \<le> \<bar>r_value e\<bar>"
  using mul_fp_shrinks(1) [OF assms(3)] exp_by_squaring_range [OF assms(1,2)]
  by (simp add: decay_entry_def Let_def)

lemma decay_entry_height: "h \<le> re_block_height (decay_entry factor h e)"
  by (simp add: decay_entry_def Let_def)

lemma decay_entry_settled: "h \<le> re_block_height e \<Longrightarrow> decay_entry factor h e = e"
  by (simp add: decay_entry_def)

lemma set_cap: "set (cap_contributions es) \<subseteq> set es"
  by (auto simp: cap_contributions_def dest: in_set_dropD)

lemma length_cap: "length (cap_contributions es) \<le> MAX_CONTRIBUTIONS"
  by (simp add: cap_contributions_def)

lemma cap_small: "length es \<le> MAX_CONTRIBUTIONS \<Longrightarrow> cap_contributions es = es"
  by (simp add: cap_contributions_def)

text \<open>Decaying a list a second time at the same height changes nothing.\<close>

lemma decay_list_settled:
  fixes es :: "responsibility_entry list" and factor h
  defines "ds \<equiv> cap_contributions (filter (\<lambda>e. \<bar>r_value e\<bar> > 1) (map (decay_entry factor h) es))"
  shows "cap_contributions (filter (\<lambda>e. \<bar>r_value e\<bar> > 1) (map (decay_entry factor h) ds)) = ds"
proof -
  have in_ds: "h \<le> re_block_height e \<and> \<bar>r_value e\<bar> > 1" if "e \<in> set ds" for e
  proof -
    have "e \<in> set (filter (\<lambda>e. \<bar>r_value e\<bar> > 1) (map (decay_entry factor h) es))"
      using that set_cap unfolding ds_def by blast
    then show ?thesis using decay_entry_height by auto
  qed
  have "map (decay_entry factor h) ds = ds"
    using in_ds decay_entry_settled by (simp add: map_idI)
  moreover have "filter (\<lambda>e. \<bar>r_value e\<bar> > 1) ds = ds" using in_ds by simp
  moreover have "cap_contributions ds = ds" using length_cap cap_small unfolding ds_def by blast
  ultimately show ?thesis by simp
qed

section \<open>Properties\<close>

definition sample_norm :: "hash \<Rightarrow> int \<Rightarrow> int \<Rightarrow> norm_t" where
  "sample_norm i share fit =
     \<lparr>norm_id = i, norm_name = [], norm_description = [], norm_precedence = Meaning,
      population_share = share, fitness = fit, enforcement_cost = 0, norm_active = True,
      norm_created_at_height = 0\<rparr>"

definition sample_norms :: norm_registry where
  "sample_norms = \<lparr>norms = [(1, sample_norm 1 (SCALE div 2) SCALE), (2, sample_norm 2 (SCALE div 2) (2 * SCALE))]\<rparr>"

text \<open>
  An epoch of norm evolution keeps the shares normalised: when the mean fitness is positive, the
  shares of the active norms after the epoch are non-negative and sum to at most one, falling short
  of one by less than one raw unit per active norm; the set of active norms and every inactive norm
  are unchanged.
\<close>

theorem norm_shares_normalised:
  assumes "distinct (map fst (norms reg))"
    "0 < mean_fitness reg (norm_fitnesses reg (active_norm_ids reg)) (active_norm_ids reg)"
  shows "active_norm_ids (evolve_epoch reg) = active_norm_ids reg \<and>
    SCALE - int (length (active_norm_ids reg)) < share_total (active_norm_ids reg) (norms (evolve_epoch reg)) \<and>
    share_total (active_norm_ids reg) (norms (evolve_epoch reg)) \<le> SCALE \<and>
    (\<forall>i \<in> set (active_norm_ids reg). 0 \<le> share_of (norms (evolve_epoch reg)) i) \<and>
    (\<forall>k. k \<notin> set (active_norm_ids reg) \<longrightarrow> map_of (norms (evolve_epoch reg)) k = map_of (norms reg) k)"
proof -
  let ?ids = "active_norm_ids reg"
  have d: "distinct ?ids" by (rule active_norms_distinct [OF assms(1)])
  from evolve_epoch_effect [OF assms] obtain ns
    where new: "norms (evolve_epoch reg) = renormalize ?ids ns"
      and shares: "\<forall>i \<in> set ?ids. map_of ns i \<noteq> None \<and> 0 \<le> share_of ns i \<and> share_of ns i \<le> SCALE"
      and act: "\<forall>k. map_option norm_active (map_of ns k) = map_option norm_active (map_of (norms reg) k)"
      and frame: "\<forall>k. k \<notin> set ?ids \<longrightarrow> map_of ns k = map_of (norms reg) k"
      and keys: "map fst ns = map fst (norms reg)" and ne: "?ids \<noteq> []"
    by blast
  have "map fst (norms (evolve_epoch reg)) = map fst (norms reg)"
    using renormalize_frame(3) [OF d] keys new by simp
  moreover have "active_in (norms (evolve_epoch reg)) = active_in (norms reg)"
    using renormalize_frame(2) [OF d] act unfolding active_in_def new by presburger
  ultimately have "active_norm_ids (evolve_epoch reg) = ?ids"
    using active_norms_keys [of reg] active_norms_keys [of "evolve_epoch reg"] assms(1) by metis
  then show ?thesis
    using renormalize_shares [OF d ne, of ns] shares renormalize_frame(1) [OF d] frame new by simp
qed

theorem norm_shares_witness:
  "share_total [1, 2] (norms (evolve_epoch sample_norms)) \<le> SCALE \<and>
   SCALE - 2 < share_total [1, 2] (norms (evolve_epoch sample_norms))"
proof -
  have act: "active_norm_ids sample_norms = [1, 2]"
    by (simp add: active_norm_ids_def sample_norms_def sample_norm_def)
  have "0 < mean_fitness sample_norms (norm_fitnesses sample_norms [1, 2]) [1, 2]"
    by code_simp
  then show ?thesis
    using norm_shares_normalised [of sample_norms] act by (simp add: sample_norms_def)
qed

text \<open>
  Decay only forgets: with a decay factor between zero and one, every contribution kept by
  \<open>apply_decay\<close> stems from a recorded one of at least the same magnitude, no list exceeds its
  limit, and applying the decay again at the same height changes nothing.
\<close>

theorem decay_forgets:
  assumes "0 \<le> decay_factor s" "decay_factor s \<le> SCALE"
    "\<forall>e \<in> set (positive_contributions s) \<union> set (negative_contributions s). \<bar>r_value e\<bar> \<le> I128_MAX"
  shows "apply_decay (apply_decay s h) h = apply_decay s h \<and>
    length (positive_contributions (apply_decay s h)) \<le> MAX_CONTRIBUTIONS \<and>
    length (negative_contributions (apply_decay s h)) \<le> MAX_CONTRIBUTIONS \<and>
    (\<forall>d \<in> set (positive_contributions (apply_decay s h)).
       \<exists>e \<in> set (positive_contributions s). re_transition_id e = re_transition_id d \<and> \<bar>r_value d\<bar> \<le> \<bar>r_value e\<bar>) \<and>
    (\<forall>d \<in> set (negative_contributions (apply_decay s h)).
       \<exists>e \<in> set (negative_contributions s). re_transition_id e = re_transition_id d \<and> \<bar>r_value d\<bar> \<le> \<bar>r_value e\<bar>)"
proof -
  have factor: "tension_sub SCALE (decay_factor s) = SCALE - decay_factor s"
    using assms(1,2) by (simp add: tension_ops i128_ops machine_int)
  have origin: "\<exists>e \<in> set es. re_transition_id e = re_transition_id d \<and> \<bar>r_value d\<bar> \<le> \<bar>r_value e\<bar>"
    if d: "d \<in> set (cap_contributions (filter P (map (decay_entry (SCALE - decay_factor s) h) es)))"
      and fits: "\<forall>e \<in> set es. \<bar>r_value e\<bar> \<le> I128_MAX" for d es P
  proof -
    obtain e where "e \<in> set es" "d = decay_entry (SCALE - decay_factor s) h e" using d set_cap by fastforce
    then show ?thesis
      using decay_entry_shrinks [of "SCALE - decay_factor s" e h] assms(1,2) fits
      by (auto simp: decay_entry_def Let_def)
  qed
  show ?thesis
    using origin assms(3)
    by (auto simp: apply_decay_def Let_def factor length_cap decay_list_settled)
qed

theorem decay_forgets_witness:
  "apply_decay (apply_decay (record_positive responsibility_state_default 3 SCALE 1) 9) 9 =
   apply_decay (record_positive responsibility_state_default 3 SCALE 1) 9"
  using decay_forgets [of "record_positive responsibility_state_default 3 SCALE 1" 9]
  by (simp add: record_positive_def responsibility_state_default_def cap_contributions_def MAX_CONTRIBUTIONS_def
      machine_int)

end
