(* ===== verification/Scc_Gas.thy ===== *)
theory Scc_Gas
  imports Scc_Params Scc_Tension
begin

text \<open>
  Gas metering (\<open>execution/gas.rs\<close>). A meter has a limit and a running total that every charge
  increases, also the charge that exceeds the limit; the block meter adds the totals up. The per-kind
  breakdown uses unchecked additions, which wrap in a release build.
\<close>

section \<open>Definitions\<close>

record gas_breakdown =
  gb_compute :: nat
  gb_state_reads :: nat
  gb_state_writes :: nat
  gb_sig_verify :: nat
  gb_hashing :: nat
  gb_proof :: nat

definition gas_breakdown_default :: gas_breakdown where
  "gas_breakdown_default =
     \<lparr>gb_compute = 0, gb_state_reads = 0, gb_state_writes = 0, gb_sig_verify = 0, gb_hashing = 0, gb_proof = 0\<rparr>"

record gas_pricing =
  tx_base :: nat
  compute_step :: nat
  gp_state_read :: nat
  gp_state_write :: nat
  gp_sig_verify :: nat
  hash_op :: nat
  proof_byte :: nat
  payload_byte :: nat

definition gas_pricing_from :: "consensus_params \<Rightarrow> gas_pricing" where
  "gas_pricing_from p =
     \<lparr>tx_base = gas_tx_base p, compute_step = gas_compute_step p, gp_state_read = gas_state_read p,
      gp_state_write = gas_state_write p, gp_sig_verify = gas_sig_verify p, hash_op = gas_hash_op p,
      proof_byte = gas_proof_byte p, payload_byte = gas_payload_byte p\<rparr>"

definition gas_pricing_default :: gas_pricing where
  "gas_pricing_default = gas_pricing_from consensus_params_default"

record gas_meter =
  gas_limit :: nat
  pricing :: gas_pricing
  gas_used :: nat
  breakdown :: gas_breakdown

datatype gas_operation =
  OpCompute | OpStateRead | OpStateWrite | OpSigVerify | OpHash | OpProofData | OpTxBase | OpPayload

datatype gas_error = OutOfGas (oog_used: nat) (oog_limit: nat) (oog_operation: gas_operation)

definition with_pricing :: "nat \<Rightarrow> gas_pricing \<Rightarrow> gas_meter" where
  "with_pricing lim p = \<lparr>gas_limit = lim, pricing = p, gas_used = 0, breakdown = gas_breakdown_default\<rparr>"

definition gas_meter_new :: "nat \<Rightarrow> gas_meter" where
  "gas_meter_new lim = with_pricing lim gas_pricing_default"

definition gas_default_tx :: gas_meter where
  "gas_default_tx =
     with_pricing (default_tx_gas_limit consensus_params_default) (gas_pricing_from consensus_params_default)"

text \<open>The meter after a charge, with the error when the limit is exceeded.\<close>

definition charge :: "gas_meter \<Rightarrow> nat \<Rightarrow> gas_operation \<Rightarrow> (gas_error + unit) \<times> gas_meter" where
  "charge g amt op =
     (let used' = u64_saturating_add (gas_used g) amt; g' = g\<lparr>gas_used := used'\<rparr>
      in if used' > gas_limit g then (Inl (OutOfGas used' (gas_limit g) op), g') else (Inr (), g'))"

definition charge_compute :: "gas_meter \<Rightarrow> nat \<Rightarrow> (gas_error + unit) \<times> gas_meter" where
  "charge_compute g steps =
     (let cost = u64_saturating_mul steps (compute_step (pricing g))
      in charge (g\<lparr>breakdown := (breakdown g)\<lparr>gb_compute := u64_wrapping_add (gb_compute (breakdown g)) cost\<rparr>\<rparr>)
           cost OpCompute)"

definition charge_state_read :: "gas_meter \<Rightarrow> (gas_error + unit) \<times> gas_meter" where
  "charge_state_read g =
     (let cost = gp_state_read (pricing g)
      in charge (g\<lparr>breakdown := (breakdown g)\<lparr>gb_state_reads := u64_wrapping_add (gb_state_reads (breakdown g)) cost\<rparr>\<rparr>)
           cost OpStateRead)"

definition charge_state_write :: "gas_meter \<Rightarrow> (gas_error + unit) \<times> gas_meter" where
  "charge_state_write g =
     (let cost = gp_state_write (pricing g)
      in charge (g\<lparr>breakdown := (breakdown g)\<lparr>gb_state_writes := u64_wrapping_add (gb_state_writes (breakdown g)) cost\<rparr>\<rparr>)
           cost OpStateWrite)"

definition charge_sig_verify :: "gas_meter \<Rightarrow> (gas_error + unit) \<times> gas_meter" where
  "charge_sig_verify g =
     (let cost = gp_sig_verify (pricing g)
      in charge (g\<lparr>breakdown := (breakdown g)\<lparr>gb_sig_verify := u64_wrapping_add (gb_sig_verify (breakdown g)) cost\<rparr>\<rparr>)
           cost OpSigVerify)"

definition charge_hash :: "gas_meter \<Rightarrow> (gas_error + unit) \<times> gas_meter" where
  "charge_hash g =
     (let cost = hash_op (pricing g)
      in charge (g\<lparr>breakdown := (breakdown g)\<lparr>gb_hashing := u64_wrapping_add (gb_hashing (breakdown g)) cost\<rparr>\<rparr>)
           cost OpHash)"

definition charge_proof_bytes :: "gas_meter \<Rightarrow> nat \<Rightarrow> (gas_error + unit) \<times> gas_meter" where
  "charge_proof_bytes g n =
     (let cost = u64_saturating_mul n (proof_byte (pricing g))
      in charge (g\<lparr>breakdown := (breakdown g)\<lparr>gb_proof := u64_wrapping_add (gb_proof (breakdown g)) cost\<rparr>\<rparr>)
           cost OpProofData)"

definition charge_tx_base :: "gas_meter \<Rightarrow> (gas_error + unit) \<times> gas_meter" where
  "charge_tx_base g = charge g (tx_base (pricing g)) OpTxBase"

definition charge_payload :: "gas_meter \<Rightarrow> nat \<Rightarrow> (gas_error + unit) \<times> gas_meter" where
  "charge_payload g n = charge g (u64_saturating_mul n (payload_byte (pricing g))) OpPayload"

definition gas_remaining :: "gas_meter \<Rightarrow> nat" where
  "gas_remaining g = gas_limit g - gas_used g"

definition compute_fee :: "gas_meter \<Rightarrow> tension_value \<Rightarrow> tension_value" where
  "compute_fee g gas_price = i128_saturating_mul (int (gas_used g)) gas_price"

record block_gas_meter =
  bg_limit :: nat
  bg_used :: nat
  tx_count :: nat

definition block_gas_new :: "nat \<Rightarrow> block_gas_meter" where
  "block_gas_new lim = \<lparr>bg_limit = lim, bg_used = 0, tx_count = 0\<rparr>"

definition block_gas_default :: block_gas_meter where
  "block_gas_default = block_gas_new (default_block_gas_limit consensus_params_default)"

definition can_fit :: "block_gas_meter \<Rightarrow> nat \<Rightarrow> bool" where
  "can_fit m tx_gas \<longleftrightarrow> u64_saturating_add (bg_used m) tx_gas \<le> bg_limit m"

definition record_tx :: "block_gas_meter \<Rightarrow> nat \<Rightarrow> block_gas_meter" where
  "record_tx m tx_gas =
     m\<lparr>bg_used := u64_saturating_add (bg_used m) tx_gas, tx_count := u32_saturating_add (tx_count m) 1\<rparr>"

definition block_gas_remaining :: "block_gas_meter \<Rightarrow> nat" where
  "block_gas_remaining m = bg_limit m - bg_used m"

definition utilization_pct :: "block_gas_meter \<Rightarrow> nat" where
  "utilization_pct m = (if bg_limit m = 0 then 100 else min (bg_used m * 100 div bg_limit m) 100)"

section \<open>Lemmas\<close>

lemmas gas_ops = charge_compute_def charge_state_read_def charge_state_write_def charge_sig_verify_def
  charge_hash_def charge_proof_bytes_def charge_tx_base_def charge_payload_def

lemma charge_frame [simp]:
  "gas_limit (snd (charge g amt op)) = gas_limit g" "pricing (snd (charge g amt op)) = pricing g"
  "gas_used (snd (charge g amt op)) = u64_saturating_add (gas_used g) amt"
  by (simp_all add: charge_def Let_def)

lemma charge_ok_iff:
  "fst (charge g amt op) = Inr () \<longleftrightarrow> u64_saturating_add (gas_used g) amt \<le> gas_limit g"
  by (simp add: charge_def Let_def)

lemma u64_add_exact: "u64_saturating_add a b \<le> lim \<Longrightarrow> lim < U64_MAX \<Longrightarrow> u64_saturating_add a b = a + b"
  by (simp add: u64_saturating_add_def min_def split: if_splits)

text \<open>A list of charges, stopped by the first failure as the callers do with \<open>?\<close>.\<close>

fun charge_all :: "gas_meter \<Rightarrow> (nat \<times> gas_operation) list \<Rightarrow> (gas_error + unit) \<times> gas_meter" where
  "charge_all g [] = (Inr (), g)"
| "charge_all g ((amt, op) # cs) =
     (case charge g amt op of (Inl e, g') \<Rightarrow> (Inl e, g') | (Inr _, g') \<Rightarrow> charge_all g' cs)"

lemma charge_all_ok:
  assumes "gas_limit g < U64_MAX"
  shows "gas_used g \<le> gas_limit g \<Longrightarrow>
    fst (charge_all g cs) = Inr () \<longleftrightarrow> gas_used g + sum_list (map fst cs) \<le> gas_limit g"
  using assms
proof (induction g cs rule: charge_all.induct)
  case (2 g amt op cs)
  obtain r g' where c: "charge g amt op = (r, g')" by fastforce
  have g': "gas_limit g' = gas_limit g" "gas_used g' = u64_saturating_add (gas_used g) amt"
    using charge_frame [of g amt op] c by simp_all
  show ?case
  proof (cases r)
    case (Inl e)
    then have "gas_limit g < gas_used g + amt"
      using c "2.prems" by (auto simp: charge_def Let_def u64_saturating_add_def split: if_splits)
    then show ?thesis using c Inl by simp
  next
    case (Inr u)
    then have "u64_saturating_add (gas_used g) amt \<le> gas_limit g"
      using charge_ok_iff [of g amt op] c by simp
    moreover from this have "gas_used g' = gas_used g + amt"
      using u64_add_exact "2.prems"(2) g'(2) by simp
    ultimately show ?thesis using "2.IH" [of r g' u] "2.prems" c Inr g' by (simp add: add.assoc)
  qed
qed simp

lemma charge_all_used:
  assumes "fst (charge_all g cs) = Inr ()" "gas_used g \<le> gas_limit g" "gas_limit g < U64_MAX"
  shows "gas_used (snd (charge_all g cs)) = gas_used g + sum_list (map fst cs)"
  using assms
proof (induction g cs rule: charge_all.induct)
  case (2 g amt op cs)
  obtain r g' where c: "charge g amt op = (r, g')" by fastforce
  with "2.prems"(1) obtain u where r: "r = Inr u" by (cases r) simp_all
  have g': "gas_limit g' = gas_limit g" "gas_used g' = u64_saturating_add (gas_used g) amt"
    using charge_frame [of g amt op] c by simp_all
  have "u64_saturating_add (gas_used g) amt \<le> gas_limit g" using charge_ok_iff [of g amt op] c r by simp
  then have "gas_used g' = gas_used g + amt" using u64_add_exact "2.prems"(3) g'(2) by simp
  then show ?case using "2.IH" [of r g' u] "2.prems" c r g' \<open>u64_saturating_add _ _ \<le> _\<close> by simp
qed simp

section \<open>Properties\<close>

text \<open>
  Metering is exact: with a limit below the largest \<open>u64\<close>, a sequence of charges on a fresh meter
  succeeds exactly when the sum of the amounts fits the limit, and then the meter shows that sum.
\<close>

theorem gas_metering_exact:
  assumes "lim < U64_MAX"
  shows "(fst (charge_all (with_pricing lim p) cs) = Inr () \<longleftrightarrow> sum_list (map fst cs) \<le> lim) \<and>
    (fst (charge_all (with_pricing lim p) cs) = Inr () \<longrightarrow>
       gas_used (snd (charge_all (with_pricing lim p) cs)) = sum_list (map fst cs))"
  using charge_all_ok [of "with_pricing lim p" cs] charge_all_used [of "with_pricing lim p" cs] assms
  by (simp add: with_pricing_def)

theorem gas_metering_witness:
  "fst (charge_all (with_pricing 5000 gas_pricing_default) [(1000, OpTxBase), (3000, OpSigVerify)]) = Inr () \<and>
   fst (charge_all (with_pricing 5000 gas_pricing_default) [(3000, OpSigVerify), (3000, OpSigVerify)]) \<noteq> Inr ()"
  using gas_metering_exact [of 5000 gas_pricing_default "[(1000, OpTxBase), (3000, OpSigVerify)]"]
    gas_metering_exact [of 5000 gas_pricing_default "[(3000, OpSigVerify), (3000, OpSigVerify)]"]
  by (simp add: U64_MAX_def)

end
