(* ===== verification/Scc_Transition_Checks.thy ===== *)
theory Scc_Transition_Checks
  imports Scc_World
begin

text \<open>
  The structural checks a transition passes before it is executed: completeness of its WH binding
  (\<open>execution/wh_check.rs\<close>), the namespaces its kind may touch (\<open>execution/ontology.rs\<close>) and the
  agreement of its payload with its declared intent (\<open>execution/payload_check.rs\<close>). Together they
  confine every raw write to the namespaces of the declared kind.
\<close>

section \<open>WH binding\<close>

datatype wh_error =
    WhoEmpty
  | WhereEmpty
  | WhatEmpty
  | RuleEmpty
  | WhoMismatch hash agent_id
  | WhereMismatch
  | PrecedenceClaim precedence_level precedence_level
  | WhenInconsistent
  | HowMismatch transition_mechanism
  | WhichMismatch "hash set" "hash set"

definition check_wh_binding_intent :: "wh_binding_intent \<Rightarrow> wh_error + unit" where
  "check_wh_binding_intent w =
     (if who w = ZERO_HASH then Inl WhoEmpty
      else if wh_where w = [] then Inl WhereEmpty
      else if what_declared w = [] then Inl WhatEmpty
      else if invoking_rule (why w) = ZERO_HASH then Inl RuleEmpty
      else Inr ())"

fun how_ok :: "transition_mechanism \<Rightarrow> operation_payload \<Rightarrow> bool" where
  "how_ok DirectStateWrite (PWrite _ _) = True"
| "how_ok (ContractExecution _) (PInvokeContract _ _ _) = True"
| "how_ok _ PNoop = True"
| "how_ok GovernanceAction (PProposeNorm _ _) = True"
| "how_ok DirectStateWrite (PAssetTransfer _ _ _) = True"
| "how_ok DirectStateWrite (PRegisterAgent _) = True"
| "how_ok DirectStateWrite (PDeployContract _) = True"
| "how_ok _ _ = False"

definition carried_constraints :: "symbolic_transition \<Rightarrow> hash set" where
  "carried_constraints tx = tc_id ` (set (preconditions tx) \<union> set (postconditions tx))"

definition check_transition_wh :: "symbolic_transition \<Rightarrow> wh_error + unit" where
  "check_transition_wh tx =
     bind_result (check_wh_binding_intent (wh_binding_intent_of tx))
       (\<lambda>_. let w = wh_binding_intent_of tx
            in if who w \<noteq> agent_id_of (actor tx) then Inl (WhoMismatch (who w) (agent_id_of (actor tx)))
               else if wh_where w \<noteq> ti_target (tx_intent tx) then Inl WhereMismatch
               else if precedence_rank (cj_precedence_level (why w)) < precedence_rank (ag_governance_level (actor tx))
               then Inl (PrecedenceClaim (cj_precedence_level (why w)) (ag_governance_level (actor tx)))
               else if lamport_counter (wh_when w) = 0 \<and> causal_depth (wh_when w) > 0 then Inl WhenInconsistent
               else if \<not> how_ok (how w) (payload tx) then Inl (HowMismatch (how w))
               else if carried_constraints tx \<noteq> which w
               then Inl (WhichMismatch (carried_constraints tx - which w) (which w - carried_constraints tx))
               else Inr ())"

section \<open>Ontology\<close>

fun allowed_namespaces :: "transition_kind \<Rightarrow> bytes list" where
  "allowed_namespaces KStateWrite = [NS_DATA]"
| "allowed_namespaces KStateRead = [NS_DATA, NS_BALANCE, NS_NORMS, NS_AGENTS]"
| "allowed_namespaces KAssetTransfer = [NS_BALANCE, NS_ESCROW]"
| "allowed_namespaces KGovernanceUpdate = [NS_NORMS, NS_TREASURY]"
| "allowed_namespaces KNormProposal = [NS_NORMS]"
| "allowed_namespaces KConstraintAddition = [NS_CONSTRAINTS]"
| "allowed_namespaces KAgentRegistration = [NS_AGENTS]"
| "allowed_namespaces KContractDeploy = [NS_CONTRACT]"
| "allowed_namespaces KContractInvoke = [NS_CONTRACT]"
| "allowed_namespaces KDisputeResolution = []"

datatype ontology_result = OntologyAllowed | OntologyRejected transition_kind bytes "bytes list"

definition check_ontology :: "symbolic_transition \<Rightarrow> ontology_result" where
  "check_ontology tx =
     (let target = ti_target (tx_intent tx); kind = ti_kind (tx_intent tx); allowed = allowed_namespaces kind
      in if target = [] then OntologyRejected kind [] allowed
         else if \<exists>ns \<in> set allowed. starts_with target ns then OntologyAllowed
         else OntologyRejected kind target allowed)"

section \<open>Payload consistency\<close>

datatype payload_inconsistency =
    WriteKeyMismatch bytes bytes
  | TransferTargetMismatch bytes bytes
  | RegisterTargetMismatch bytes bytes
  | NormTargetOutside bytes
  | DeployTargetOutside bytes
  | InvokeTargetOutside bytes
  | PayloadKindMismatch string transition_kind

fun payload_variant_name :: "operation_payload \<Rightarrow> string" where
  "payload_variant_name (PWrite _ _) = ''Write''"
| "payload_variant_name (PAssetTransfer _ _ _) = ''AssetTransfer''"
| "payload_variant_name (PRegisterAgent _) = ''RegisterAgent''"
| "payload_variant_name (PProposeNorm _ _) = ''ProposeNorm''"
| "payload_variant_name (PDeployContract _) = ''DeployContract''"
| "payload_variant_name (PInvokeContract _ _ _) = ''InvokeContract''"
| "payload_variant_name PNoop = ''Noop''"

fun payload_fits ::
  "hex_encode \<Rightarrow> bytes \<Rightarrow> operation_payload \<Rightarrow> transition_kind \<Rightarrow> payload_inconsistency + unit" where
  "payload_fits hex target (PWrite key v) kind =
     (if kind = KStateWrite \<or> kind = KContractInvoke \<or> kind = KGovernanceUpdate
      then (if key \<noteq> target then Inl (WriteKeyMismatch key target) else Inr ())
      else Inl (PayloadKindMismatch ''Write'' kind))"
| "payload_fits hex target (PAssetTransfer src dst amt) KAssetTransfer =
     (if target \<noteq> balance_key hex src then Inl (TransferTargetMismatch target (balance_key hex src)) else Inr ())"
| "payload_fits hex target (PRegisterAgent pk) KAgentRegistration =
     (if target \<noteq> agent_key hex pk then Inl (RegisterTargetMismatch target (agent_key hex pk)) else Inr ())"
| "payload_fits hex target (PProposeNorm n d) KNormProposal =
     (if \<not> starts_with target NS_NORMS then Inl (NormTargetOutside target) else Inr ())"
| "payload_fits hex target (PDeployContract c) KContractDeploy =
     (if \<not> starts_with target NS_CONTRACT then Inl (DeployTargetOutside target) else Inr ())"
| "payload_fits hex target (PInvokeContract c m a) KContractInvoke =
     (if \<not> starts_with target NS_CONTRACT \<and> \<not> starts_with target NS_DATA
      then Inl (InvokeTargetOutside target) else Inr ())"
| "payload_fits hex target PNoop kind = Inr ()"
| "payload_fits hex target p kind = Inl (PayloadKindMismatch (payload_variant_name p) kind)"

definition check_payload_consistency :: "hex_encode \<Rightarrow> symbolic_transition \<Rightarrow> payload_inconsistency + unit" where
  "check_payload_consistency hex tx =
     payload_fits hex (ti_target (tx_intent tx)) (payload tx) (ti_kind (tx_intent tx))"

section \<open>Lemmas\<close>

lemma bind_result_ok: "bind_result r f = Inr u \<longleftrightarrow> (\<exists>x. r = Inr x \<and> f x = Inr u)"
  by (cases r) (simp_all add: bind_result_def)

lemma check_transition_wh_ok:
  assumes "check_transition_wh tx = Inr ()"
  shows "who (wh_binding_intent_of tx) = agent_id_of (actor tx) \<and> agent_id_of (actor tx) \<noteq> ZERO_HASH \<and>
    wh_where (wh_binding_intent_of tx) = ti_target (tx_intent tx) \<and> ti_target (tx_intent tx) \<noteq> [] \<and>
    which (wh_binding_intent_of tx) = carried_constraints tx \<and>
    how_ok (how (wh_binding_intent_of tx)) (payload tx) \<and>
    precedence_rank (ag_governance_level (actor tx)) \<le> precedence_rank (cj_precedence_level (why (wh_binding_intent_of tx)))"
  using assms
  by (auto simp: check_transition_wh_def check_wh_binding_intent_def bind_result_ok Let_def split: if_splits)

lemma check_ontology_ok:
  "check_ontology tx = OntologyAllowed \<longleftrightarrow>
     ti_target (tx_intent tx) \<noteq> [] \<and>
     (\<exists>ns \<in> set (allowed_namespaces (ti_kind (tx_intent tx))). starts_with (ti_target (tx_intent tx)) ns)"
  by (auto simp: check_ontology_def Let_def)

lemma payload_fits_write:
  "payload_fits hex target (PWrite k v) kind = Inr () \<longleftrightarrow>
     k = target \<and> kind \<in> {KStateWrite, KContractInvoke, KGovernanceUpdate}"
  by auto

lemma starts_with_disjoint:
  assumes "starts_with bs p" "starts_with bs q" "length p \<le> length q"
  shows "starts_with q p"
  using assms by (auto simp: starts_with_def) (metis min.absorb1 take_take)

lemma starts_with_exclusive:
  assumes "starts_with bs p" "\<not> starts_with p q" "\<not> starts_with q p"
  shows "\<not> starts_with bs q"
  using assms starts_with_disjoint [of bs p q] starts_with_disjoint [of bs q p] by fastforce

lemmas namespaces = NS_SYSTEM_def NS_BALANCE_def NS_ESCROW_def NS_TREASURY_def NS_AGENTS_def NS_NORMS_def
  NS_CONSTRAINTS_def NS_CONTRACT_def NS_DISPUTES_def NS_DATA_def

abbreviation protected_namespaces :: "bytes list" where
  "protected_namespaces \<equiv> [NS_SYSTEM, NS_BALANCE, NS_ESCROW, NS_AGENTS, NS_CONSTRAINTS, NS_DISPUTES]"

lemma writable_not_protected:
  assumes "p \<in> set [NS_DATA, NS_CONTRACT, NS_NORMS, NS_TREASURY]" "q \<in> set protected_namespaces"
    "starts_with k p"
  shows "\<not> starts_with k q"
proof (rule starts_with_exclusive [OF assms(3)])
  show "\<not> starts_with p q" "\<not> starts_with q p"
    using assms(1,2) by (auto simp: namespaces starts_with_def)
qed

lemma raw_write_confined:
  assumes "check_ontology tx = OntologyAllowed" "check_payload_consistency hex tx = Inr ()"
    "payload tx = PWrite k v"
  shows "k = ti_target (tx_intent tx) \<and>
    (\<exists>ns \<in> set [NS_DATA, NS_CONTRACT, NS_NORMS, NS_TREASURY]. starts_with k ns) \<and>
    (\<forall>ns \<in> set protected_namespaces. \<not> starts_with k ns) \<and>
    (ti_kind (tx_intent tx) \<noteq> KGovernanceUpdate \<longrightarrow> \<not> starts_with k NS_NORMS \<and> \<not> starts_with k NS_TREASURY)"
proof -
  have k: "k = ti_target (tx_intent tx)" and kind: "ti_kind (tx_intent tx) \<in> {KStateWrite, KContractInvoke, KGovernanceUpdate}"
    using assms(2,3) unfolding check_payload_consistency_def by (simp_all only: payload_fits_write)
  obtain ns where ns: "ns \<in> set (allowed_namespaces (ti_kind (tx_intent tx)))" "starts_with k ns"
    using assms(1) k by (auto simp: check_ontology_ok)
  have writable: "ns \<in> set [NS_DATA, NS_CONTRACT, NS_NORMS, NS_TREASURY]" using ns(1) kind by auto
  have narrow: "\<not> starts_with k NS_NORMS \<and> \<not> starts_with k NS_TREASURY"
    if "ti_kind (tx_intent tx) \<noteq> KGovernanceUpdate"
  proof -
    have "ns = NS_DATA \<or> ns = NS_CONTRACT" using ns(1) kind that by auto
    then have "\<not> starts_with ns q" "\<not> starts_with q ns" if "q \<in> {NS_NORMS, NS_TREASURY}" for q
      using that by (auto simp: namespaces starts_with_def)
    then show ?thesis using starts_with_exclusive [OF ns(2)] by blast
  qed
  then show ?thesis using k writable ns(2) writable_not_protected by blast
qed

section \<open>Properties\<close>

definition sample_actor :: agent_identity where
  "sample_actor =
     \<lparr>agent_id_of = 7, public_key = 11, mfidel_seal = seal_from_height 1, registration_block = 0,
      ag_governance_level = Optimization, norm_set = {}, responsibility = responsibility_state_default\<rparr>"

definition sample_write :: "transition_kind \<Rightarrow> bytes \<Rightarrow> symbolic_transition" where
  "sample_write kind target =
     \<lparr>tx_id = 1, actor = sample_actor,
      tx_intent = \<lparr>ti_kind = kind, ti_target = target, declared_purpose = ''p''\<rparr>,
      preconditions = [], postconditions = [], payload = PWrite target ''v'', causal_chain = [],
      wh_binding_intent_of = \<lparr>who = 7, wh_when = timestamp_genesis, wh_where = target,
        why = \<lparr>invoking_rule = 5, cj_precedence_level = Optimization, causal_ancestors = [], constraint_proof = []\<rparr>,
        how = DirectStateWrite, which = {}, what_declared = ''w''\<rparr>,
      nonce = 1, signature = replicate 64 (CHR 0x00)\<rparr>"

text \<open>
  Raw writes are confined: a transition that passes the ontology and payload checks and carries a
  raw write writes exactly its declared target, which lies in the data, contract, norms or treasury
  namespace (the last two only for governance updates) and in none of the protected ones.
\<close>

theorem writes_confined:
  assumes "check_ontology tx = OntologyAllowed" "check_payload_consistency hex tx = Inr ()"
    "payload tx = PWrite k v"
  shows "k = ti_target (tx_intent tx) \<and>
    (\<exists>ns \<in> set [NS_DATA, NS_CONTRACT, NS_NORMS, NS_TREASURY]. starts_with k ns) \<and>
    (\<forall>ns \<in> set protected_namespaces. \<not> starts_with k ns) \<and>
    (ti_kind (tx_intent tx) \<noteq> KGovernanceUpdate \<longrightarrow> \<not> starts_with k NS_NORMS \<and> \<not> starts_with k NS_TREASURY)"
  using assms by (rule raw_write_confined)

theorem writes_confined_witness:
  "\<not> starts_with ''data/x'' NS_BALANCE \<and>
   check_ontology (sample_write KStateWrite ''data/x'') = OntologyAllowed"
proof -
  have ok: "check_ontology (sample_write KStateWrite ''data/x'') = OntologyAllowed"
    "check_payload_consistency (\<lambda>_. []) (sample_write KStateWrite ''data/x'') = Inr ()"
    by (simp_all add: sample_write_def check_ontology_def check_payload_consistency_def NS_DATA_def starts_with_def)
  have "payload (sample_write KStateWrite ''data/x'') = PWrite ''data/x'' ''v''" by (simp add: sample_write_def)
  from writes_confined [OF ok this] ok show ?thesis by simp
qed

end
