(* ===== verification/Scc_Key_Rotation.thy ===== *)
theory Scc_Key_Rotation
  imports Scc_World Scc_Protocol "HOL-Library.Product_Lexorder"
begin

text \<open>
  Identity-preserving key rotation: the registry of rotations and the global key index
  (\<open>types/key_rotation.rs\<close>), their replay on the world state (\<open>state/key_rotation_state.rs\<close>), the
  submission check (\<open>governance/patch_04.rs\<close>) and the phase-8 check that a transition is signed by
  the key active for its agent (\<open>execution/key_rotation_check.rs\<close>). The bincode encodings and
  Ed25519 verification are parameters.
\<close>

section \<open>Registry and index\<close>

record key_rotation =
  kr_agent_id :: agent_id
  old_public_key :: hash
  new_public_key :: hash
  rotation_height :: nat
  signature_by_old_key :: bytes
  signature_by_new_key :: bytes

type_synonym rotation_canon = "agent_id \<times> hash \<times> hash \<times> nat \<Rightarrow> bytes"

definition rotation_payload_bytes :: "rotation_canon \<Rightarrow> key_rotation \<Rightarrow> bytes" where
  "rotation_payload_bytes canon r =
     canon (kr_agent_id r, old_public_key r, new_public_key r, rotation_height r)"

record key_rotation_registry =
  rotations :: "key_rotation list"

definition key_rotation_registry_new :: key_rotation_registry where
  "key_rotation_registry_new = \<lparr>rotations = []\<rparr>"

datatype key_rotation_error =
    DuplicateAtHeight agent_id nat
  | KeyAlreadyIndexed hash
  | KeyNotIndexed hash

definition rotation_append ::
  "key_rotation_registry \<Rightarrow> key_rotation \<Rightarrow> key_rotation_error + key_rotation_registry" where
  "rotation_append reg r =
     (if \<exists>x \<in> set (rotations reg). kr_agent_id x = kr_agent_id r \<and> rotation_height x = rotation_height r
      then Inl (DuplicateAtHeight (kr_agent_id r) (rotation_height r))
      else Inr (reg\<lparr>rotations := sort_key (\<lambda>x. (kr_agent_id x, rotation_height x)) (rotations reg @ [r])\<rparr>))"

definition rotations_for_at :: "key_rotation_registry \<Rightarrow> agent_id \<Rightarrow> nat \<Rightarrow> key_rotation list" where
  "rotations_for_at reg a h = filter (\<lambda>r. kr_agent_id r = a \<and> rotation_height r \<le> h) (rotations reg)"

definition active_rotation_at :: "key_rotation_registry \<Rightarrow> agent_id \<Rightarrow> nat \<Rightarrow> key_rotation option" where
  "active_rotation_at reg a h =
     (let rs = rotations_for_at reg a h in if rs = [] then None else Some (last rs))"

record key_index_entry =
  ki_public_key :: hash
  ki_agent_id :: agent_id
  ki_active_from :: nat
  superseded_at :: "nat option"

record key_index =
  ki_entries :: "key_index_entry list"

definition key_index_new :: key_index where
  "key_index_new = \<lparr>ki_entries = []\<rparr>"

definition index_contains_key :: "key_index \<Rightarrow> hash \<Rightarrow> bool" where
  "index_contains_key idx k \<longleftrightarrow> (\<exists>e \<in> set (ki_entries idx). ki_public_key e = k)"

definition index_register :: "key_index \<Rightarrow> hash \<Rightarrow> agent_id \<Rightarrow> nat \<Rightarrow> key_rotation_error + key_index" where
  "index_register idx k a from =
     (if index_contains_key idx k then Inl (KeyAlreadyIndexed k)
      else Inr (idx\<lparr>ki_entries := sort_key (\<lambda>e. (ki_public_key e, ki_active_from e))
             (ki_entries idx @
                [\<lparr>ki_public_key = k, ki_agent_id = a, ki_active_from = from, superseded_at = None\<rparr>])\<rparr>))"

fun supersede_first :: "hash \<Rightarrow> nat \<Rightarrow> key_index_entry list \<Rightarrow> key_index_entry list option" where
  "supersede_first k h [] = None"
| "supersede_first k h (e # es) =
     (if ki_public_key e = k then Some (e\<lparr>superseded_at := Some h\<rparr> # es)
      else map_option (\<lambda>es'. e # es') (supersede_first k h es))"

definition mark_superseded :: "key_index \<Rightarrow> hash \<Rightarrow> nat \<Rightarrow> key_rotation_error + key_index" where
  "mark_superseded idx k h =
     (case supersede_first k h (ki_entries idx) of
        None \<Rightarrow> Inl (KeyNotIndexed k)
      | Some es \<Rightarrow> Inr (idx\<lparr>ki_entries := es\<rparr>))"

definition owning_agent :: "key_index \<Rightarrow> hash \<Rightarrow> agent_id option" where
  "owning_agent idx k = map_option ki_agent_id (find (\<lambda>e. ki_public_key e = k) (ki_entries idx))"

section \<open>Replay on the world state\<close>

definition KEY_ROTATIONS_TRIE_KEY :: bytes where
  "KEY_ROTATIONS_TRIE_KEY = ''system/key_rotations''"

definition KEY_INDEX_TRIE_KEY :: bytes where
  "KEY_INDEX_TRIE_KEY = ''system/key_index''"

record kr_codec =
  enc_rotations :: "key_rotation_registry \<Rightarrow> bytes"
  dec_rotations :: "bytes \<Rightarrow> key_rotation_registry option"
  enc_index :: "key_index \<Rightarrow> bytes"
  dec_index :: "bytes \<Rightarrow> key_index option"

definition key_rotation_registry_from_trie ::
  "kr_codec \<Rightarrow> managed_world_state \<Rightarrow> string + key_rotation_registry" where
  "key_rotation_registry_from_trie D w =
     (case world_get w KEY_ROTATIONS_TRIE_KEY of
        Some b \<Rightarrow> (case dec_rotations D b of Some r \<Rightarrow> Inr r | None \<Rightarrow> Inl ''KeyRotationRegistry deserialize'')
      | None \<Rightarrow> Inr key_rotation_registry_new)"

definition commit_key_rotation_registry ::
  "kr_codec \<Rightarrow> managed_world_state \<Rightarrow> key_rotation_registry \<Rightarrow> managed_world_state" where
  "commit_key_rotation_registry D w reg =
     snd (apply_delta w (single_write KEY_ROTATIONS_TRIE_KEY (enc_rotations D reg)))"

definition key_index_from_trie :: "kr_codec \<Rightarrow> managed_world_state \<Rightarrow> string + key_index" where
  "key_index_from_trie D w =
     (case world_get w KEY_INDEX_TRIE_KEY of
        Some b \<Rightarrow> (case dec_index D b of Some i \<Rightarrow> Inr i | None \<Rightarrow> Inl ''KeyIndex deserialize'')
      | None \<Rightarrow> Inr key_index_new)"

definition commit_key_index :: "kr_codec \<Rightarrow> managed_world_state \<Rightarrow> key_index \<Rightarrow> managed_world_state" where
  "commit_key_index D w idx = snd (apply_delta w (single_write KEY_INDEX_TRIE_KEY (enc_index D idx)))"

datatype key_rotation_state_error =
    KrNoOp
  | OldKeySignatureInvalid
  | NewKeySignatureInvalid
  | KrAgentNotRegistered
  | OldKeyNotCurrent
  | NewKeyAlreadyIndexed
  | RegistryAppend key_rotation_error
  | KeyIndexFailed key_rotation_error
  | KrStorage string

definition register_original_key ::
  "kr_codec \<Rightarrow> managed_world_state \<Rightarrow> agent_id \<Rightarrow> hash \<Rightarrow> nat \<Rightarrow> key_rotation_state_error + managed_world_state" where
  "register_original_key D w a k from =
     (case key_index_from_trie D w of
        Inl e \<Rightarrow> Inl (KrStorage e)
      | Inr idx \<Rightarrow>
          (case index_register idx k a from of
             Inl e \<Rightarrow> Inl (KeyIndexFailed e)
           | Inr idx' \<Rightarrow> Inr (commit_key_index D w idx')))"

text \<open>\<open>Iterator::min_by_key\<close>: the first of the elements with the least key.\<close>

fun min_by_key :: "('a \<Rightarrow> nat) \<Rightarrow> 'a list \<Rightarrow> 'a option" where
  "min_by_key f [] = None"
| "min_by_key f (x # xs) =
     (case min_by_key f xs of None \<Rightarrow> Some x | Some y \<Rightarrow> if f x \<le> f y then Some x else Some y)"

definition live_at :: "agent_id \<Rightarrow> nat \<Rightarrow> key_index_entry \<Rightarrow> bool" where
  "live_at a h e \<longleftrightarrow> ki_agent_id e = a \<and> ki_active_from e \<le> h \<and>
     (case superseded_at e of Some s \<Rightarrow> s > h | None \<Rightarrow> True)"

definition resolve_active_key ::
  "key_index \<Rightarrow> key_rotation_registry \<Rightarrow> agent_id \<Rightarrow> nat \<Rightarrow> hash option" where
  "resolve_active_key idx reg a h =
     (case active_rotation_at reg a h of
        Some r \<Rightarrow> Some (new_public_key r)
      | None \<Rightarrow> map_option ki_public_key (min_by_key ki_active_from (filter (live_at a h) (ki_entries idx))))"

definition rotate_keys ::
  "key_index \<Rightarrow> key_rotation_registry \<Rightarrow> key_rotation \<Rightarrow>
   key_rotation_state_error + (key_rotation_registry \<times> key_index)" where
  "rotate_keys idx reg r =
     (case resolve_active_key idx reg (kr_agent_id r) (rotation_height r) of
        None \<Rightarrow> Inl KrAgentNotRegistered
      | Some current \<Rightarrow>
          if current \<noteq> old_public_key r then Inl OldKeyNotCurrent
          else if index_contains_key idx (new_public_key r) then Inl NewKeyAlreadyIndexed
          else
            case rotation_append reg r of
              Inl e \<Rightarrow> Inl (RegistryAppend e)
            | Inr reg' \<Rightarrow>
                (case mark_superseded idx (old_public_key r) (rotation_height r) of
                   Inl e \<Rightarrow> Inl (KeyIndexFailed e)
                 | Inr idx1 \<Rightarrow>
                     (case index_register idx1 (new_public_key r) (kr_agent_id r) (rotation_height r) of
                        Inl e \<Rightarrow> Inl (KeyIndexFailed e)
                      | Inr idx2 \<Rightarrow> Inr (reg', idx2))))"

definition apply_key_rotation ::
  "kr_codec \<Rightarrow> sig_verify \<Rightarrow> rotation_canon \<Rightarrow> managed_world_state \<Rightarrow> key_rotation \<Rightarrow>
   key_rotation_state_error + managed_world_state" where
  "apply_key_rotation D verify canon w r =
     (if old_public_key r = new_public_key r then Inl KrNoOp
      else if \<not> verify (old_public_key r) (rotation_payload_bytes canon r) (signature_by_old_key r)
      then Inl OldKeySignatureInvalid
      else if \<not> verify (new_public_key r) (rotation_payload_bytes canon r) (signature_by_new_key r)
      then Inl NewKeySignatureInvalid
      else
        case key_rotation_registry_from_trie D w of
          Inl e \<Rightarrow> Inl (KrStorage e)
        | Inr reg \<Rightarrow>
            (case key_index_from_trie D w of
               Inl e \<Rightarrow> Inl (KrStorage e)
             | Inr idx \<Rightarrow>
                 (case rotate_keys idx reg r of
                    Inl e \<Rightarrow> Inl e
                  | Inr (reg', idx') \<Rightarrow>
                      Inr (commit_key_index D (commit_key_rotation_registry D w reg') idx'))))"

definition active_public_key ::
  "kr_codec \<Rightarrow> managed_world_state \<Rightarrow> agent_id \<Rightarrow> nat \<Rightarrow> string + hash option" where
  "active_public_key D w a h =
     bind_result (key_rotation_registry_from_trie D w)
       (\<lambda>reg. bind_result (key_index_from_trie D w) (\<lambda>idx. Inr (resolve_active_key idx reg a h)))"

section \<open>Checks\<close>

datatype superseded_key_check =
    SkOk
  | Superseded (sk_agent: agent_id) (stale_key: hash) (active_key: hash)
  | SkStorageError string

definition check_tx_superseded_key ::
  "kr_codec \<Rightarrow> symbolic_transition \<Rightarrow> managed_world_state \<Rightarrow> nat \<Rightarrow> superseded_key_check" where
  "check_tx_superseded_key D tx w h =
     (case active_public_key D w (agent_id_of (actor tx)) h of
        Inr None \<Rightarrow> SkOk
      | Inr (Some active) \<Rightarrow>
          if active = public_key (actor tx) then SkOk
          else Superseded (agent_id_of (actor tx)) (public_key (actor tx)) active
      | Inl e \<Rightarrow> SkStorageError e)"

datatype key_rotation_submission_rejection =
    RotNoOp
  | RotZeroPublicKey
  | OldSignatureLength nat
  | NewSignatureLength nat

definition validate_key_rotation_submission :: "key_rotation \<Rightarrow> key_rotation_submission_rejection + unit" where
  "validate_key_rotation_submission r =
     (if old_public_key r = new_public_key r then Inl RotNoOp
      else if old_public_key r = ZERO_HASH \<or> new_public_key r = ZERO_HASH then Inl RotZeroPublicKey
      else if length (signature_by_old_key r) \<noteq> 64 then Inl (OldSignatureLength (length (signature_by_old_key r)))
      else if length (signature_by_new_key r) \<noteq> 64 then Inl (NewSignatureLength (length (signature_by_new_key r)))
      else Inr ())"

section \<open>Lemmas\<close>

definition keys_consistent :: "key_index \<Rightarrow> key_rotation_registry \<Rightarrow> bool" where
  "keys_consistent idx reg \<longleftrightarrow>
     distinct (map ki_public_key (ki_entries idx)) \<and>
     sorted (map (\<lambda>e. (ki_public_key e, ki_active_from e)) (ki_entries idx)) \<and>
     sorted (map (\<lambda>r. (kr_agent_id r, rotation_height r)) (rotations reg)) \<and>
     (\<forall>r \<in> set (rotations reg). \<exists>e \<in> set (ki_entries idx).
        ki_public_key e = new_public_key r \<and> ki_agent_id e = kr_agent_id r)"

lemma supersede_first_Some:
  assumes "supersede_first k h es = Some es'" "distinct (map ki_public_key es)"
  shows "\<exists>e pre post. es = pre @ e # post \<and> es' = pre @ e\<lparr>superseded_at := Some h\<rparr> # post \<and> ki_public_key e = k"
  using assms
proof (induction es arbitrary: es')
  case (Cons x xs)
  show ?case
  proof (cases "ki_public_key x = k")
    case True
    then show ?thesis using Cons.prems(1) by (intro exI [of _ x] exI [of _ "[]"] exI [of _ xs]) auto
  next
    case False
    then obtain ys where "supersede_first k h xs = Some ys" "es' = x # ys" using Cons.prems(1) by auto
    with Cons.IH [of ys] Cons.prems(2) obtain e pre post where
      "xs = pre @ e # post" "ys = pre @ e\<lparr>superseded_at := Some h\<rparr> # post" "ki_public_key e = k" by auto
    with \<open>es' = x # ys\<close> show ?thesis by (intro exI [of _ e] exI [of _ "x # pre"] exI [of _ post]) simp
  qed
qed simp

lemma min_by_key_in: "min_by_key f xs = Some x \<Longrightarrow> x \<in> set xs"
  by (induction xs arbitrary: x) (auto split: option.splits if_splits)

lemma rotate_keys_Inr:
  assumes "rotate_keys idx reg r = Inr (reg', idx')"
  shows "resolve_active_key idx reg (kr_agent_id r) (rotation_height r) = Some (old_public_key r)"
    "\<not> index_contains_key idx (new_public_key r)" "rotation_append reg r = Inr reg'"
    "\<exists>idx1. mark_superseded idx (old_public_key r) (rotation_height r) = Inr idx1 \<and>
       index_register idx1 (new_public_key r) (kr_agent_id r) (rotation_height r) = Inr idx'"
  using assms by (auto simp: rotate_keys_def split: option.splits if_splits sum.splits)

text \<open>The key an agent's history resolves to is indexed under that agent.\<close>

lemma resolve_owner:
  assumes "resolve_active_key idx reg a h = Some k" "keys_consistent idx reg"
  shows "\<exists>e \<in> set (ki_entries idx). ki_public_key e = k \<and> ki_agent_id e = a"
proof (cases "active_rotation_at reg a h")
  case None
  then obtain e where "min_by_key ki_active_from (filter (live_at a h) (ki_entries idx)) = Some e" "k = ki_public_key e"
    using assms(1) by (auto simp: resolve_active_key_def)
  then show ?thesis using min_by_key_in by (fastforce simp: live_at_def)
next
  case (Some r)
  then have "r \<in> set (rotations_for_at reg a h)" "k = new_public_key r"
    using assms(1) by (auto simp: resolve_active_key_def active_rotation_at_def Let_def split: if_splits)
  then show ?thesis using assms(2) by (auto simp: keys_consistent_def rotations_for_at_def)
qed

definition fresh_entry :: "key_rotation \<Rightarrow> key_index_entry" where
  "fresh_entry r = \<lparr>ki_public_key = new_public_key r, ki_agent_id = kr_agent_id r,
     ki_active_from = rotation_height r, superseded_at = None\<rparr>"

lemma rotate_keys_shape:
  assumes "rotate_keys idx reg r = Inr (reg', idx')" "keys_consistent idx reg"
  obtains pre e post where "ki_entries idx = pre @ e # post" "ki_public_key e = old_public_key r"
    "ki_agent_id e = kr_agent_id r"
    "ki_entries idx' = sort_key (\<lambda>e. (ki_public_key e, ki_active_from e))
       ((pre @ e\<lparr>superseded_at := Some (rotation_height r)\<rparr> # post) @ [fresh_entry r])"
    "rotations reg' = sort_key (\<lambda>x. (kr_agent_id x, rotation_height x)) (rotations reg @ [r])"
proof -
  note ok = rotate_keys_Inr [OF assms(1)]
  have d: "distinct (map ki_public_key (ki_entries idx))" using assms(2) by (simp add: keys_consistent_def)
  obtain idx1 where one: "mark_superseded idx (old_public_key r) (rotation_height r) = Inr idx1"
    and two: "index_register idx1 (new_public_key r) (kr_agent_id r) (rotation_height r) = Inr idx'"
    using ok(4) by blast
  obtain es where es: "supersede_first (old_public_key r) (rotation_height r) (ki_entries idx) = Some es"
    "idx1 = idx\<lparr>ki_entries := es\<rparr>"
    using one by (auto simp: mark_superseded_def split: option.splits)
  obtain e pre post where split: "ki_entries idx = pre @ e # post"
    "es = pre @ e\<lparr>superseded_at := Some (rotation_height r)\<rparr> # post" "ki_public_key e = old_public_key r"
    using supersede_first_Some [OF es(1) d] by blast
  obtain x where "x \<in> set (ki_entries idx)" "ki_public_key x = old_public_key r" "ki_agent_id x = kr_agent_id r"
    using resolve_owner [OF ok(1) assms(2)] by blast
  moreover from this have "x = e" using d split(1,3) by (auto simp: image_iff)
  ultimately have owner: "ki_agent_id e = kr_agent_id r" by simp
  show ?thesis
    using that [OF split(1,3) owner] two es(2) split(2) ok(3)
    by (auto simp: index_register_def rotation_append_def fresh_entry_def split: if_splits)
qed

lemma distinct_map_sort: "distinct (map f (sort_key g xs)) = distinct (map f xs)"
  by (simp add: distinct_map)

lemma rotate_keys_consistent:
  assumes "rotate_keys idx reg r = Inr (reg', idx')" "keys_consistent idx reg"
  shows "keys_consistent idx' reg'"
proof -
  obtain pre e post where sh: "ki_entries idx = pre @ e # post" "ki_public_key e = old_public_key r"
    "ki_agent_id e = kr_agent_id r"
    "ki_entries idx' = sort_key (\<lambda>e. (ki_public_key e, ki_active_from e))
       ((pre @ e\<lparr>superseded_at := Some (rotation_height r)\<rparr> # post) @ [fresh_entry r])"
    "rotations reg' = sort_key (\<lambda>x. (kr_agent_id x, rotation_height x)) (rotations reg @ [r])"
    by (rule rotate_keys_shape [OF assms])
  have "distinct (map ki_public_key (ki_entries idx'))"
    using assms(2) rotate_keys_Inr(2) [OF assms(1)] sh(1)
    by (simp only: sh(4) distinct_map_sort) (auto simp: keys_consistent_def fresh_entry_def index_contains_key_def image_iff)
  moreover have "\<exists>e \<in> set (ki_entries idx'). ki_public_key e = new_public_key x \<and> ki_agent_id e = kr_agent_id x"
    if x: "x \<in> set (rotations reg')" for x
  proof (cases "x = r")
    case True
    then show ?thesis by (simp add: sh(4) fresh_entry_def)
  next
    case False
    then have "x \<in> set (rotations reg)" using x sh(5) by simp
    then obtain y where "y \<in> set (ki_entries idx)" "ki_public_key y = new_public_key x" "ki_agent_id y = kr_agent_id x"
      using assms(2) unfolding keys_consistent_def by blast
    then show ?thesis using sh(1) by (auto simp: sh(4))
  qed
  ultimately show ?thesis by (simp add: keys_consistent_def sh(4,5))
qed

lemma rotations_after:
  assumes "rotations reg' = sort_key (\<lambda>x. (kr_agent_id x, rotation_height x)) (rotations reg @ [r])"
    "keys_consistent idx reg"
  shows "a \<noteq> kr_agent_id r \<Longrightarrow> rotations_for_at reg' a h = rotations_for_at reg a h"
    and "rotation_height r \<le> h \<Longrightarrow> \<forall>x \<in> set (rotations_for_at reg (kr_agent_id r) h). rotation_height x \<le> rotation_height r \<Longrightarrow>
      rotations_for_at reg' (kr_agent_id r) h = rotations_for_at reg (kr_agent_id r) h @ [r]"
proof -
  let ?k = "\<lambda>x. (kr_agent_id x, rotation_height x)"
  have srt: "sorted (map ?k (filter P (rotations reg)))" for P
    using assms(2) by (simp add: keys_consistent_def sorted_filter)
  have filt: "rotations_for_at reg' b h = sort_key ?k (filter (\<lambda>x. kr_agent_id x = b \<and> rotation_height x \<le> h) (rotations reg @ [r]))" for b
    by (simp only: rotations_for_at_def assms(1) filter_sort)
  show "rotations_for_at reg' a h = rotations_for_at reg a h" if "a \<noteq> kr_agent_id r"
    using that by (subst filt) (simp add: rotations_for_at_def sort_key_id_if_sorted [OF srt])
  show "rotations_for_at reg' (kr_agent_id r) h = rotations_for_at reg (kr_agent_id r) h @ [r]"
    if "rotation_height r \<le> h" "\<forall>x \<in> set (rotations_for_at reg (kr_agent_id r) h). rotation_height x \<le> rotation_height r"
  proof -
    let ?xs = "filter (\<lambda>x. kr_agent_id x = kr_agent_id r \<and> rotation_height x \<le> h) (rotations reg)"
    have "sorted (map ?k (?xs @ [r]))"
      using that(2) srt by (simp add: sorted_append rotations_for_at_def)
    then show ?thesis using that(1) by (subst filt) (simp add: rotations_for_at_def sort_key_id_if_sorted)
  qed
qed

lemma resolve_after:
  assumes "rotate_keys idx reg r = Inr (reg', idx')" "keys_consistent idx reg"
  shows "a \<noteq> kr_agent_id r \<Longrightarrow> resolve_active_key idx' reg' a h = resolve_active_key idx reg a h"
    and "rotation_height r \<le> h \<Longrightarrow> \<forall>x \<in> set (rotations_for_at reg (kr_agent_id r) h). rotation_height x \<le> rotation_height r \<Longrightarrow>
      resolve_active_key idx' reg' (kr_agent_id r) h = Some (new_public_key r)"
proof -
  obtain pre e post where sh: "ki_entries idx = pre @ e # post" "ki_public_key e = old_public_key r"
    "ki_agent_id e = kr_agent_id r"
    "ki_entries idx' = sort_key (\<lambda>e. (ki_public_key e, ki_active_from e))
       ((pre @ e\<lparr>superseded_at := Some (rotation_height r)\<rparr> # post) @ [fresh_entry r])"
    "rotations reg' = sort_key (\<lambda>x. (kr_agent_id x, rotation_height x)) (rotations reg @ [r])"
    by (rule rotate_keys_shape [OF assms])
  note rots = rotations_after [OF sh(5) assms(2)]
  show "resolve_active_key idx' reg' a h = resolve_active_key idx reg a h" if a: "a \<noteq> kr_agent_id r"
  proof -
    have "filter (live_at a h) (ki_entries idx') = filter (live_at a h) (ki_entries idx)"
    proof -
      have "\<not> live_at a h e" "\<not> live_at a h (e\<lparr>superseded_at := Some (rotation_height r)\<rparr>)" "\<not> live_at a h (fresh_entry r)"
        using a sh(3) by (simp_all add: live_at_def fresh_entry_def)
      moreover have "sorted (map (\<lambda>e. (ki_public_key e, ki_active_from e)) (filter (live_at a h) (pre @ post)))"
        using assms(2) sh(1) by (intro sorted_filter) (simp add: keys_consistent_def sorted_append)
      ultimately show ?thesis by (simp add: sh(1,4) filter_sort sort_key_id_if_sorted)
    qed
    then show ?thesis using rots(1) [OF a]
      by (simp add: resolve_active_key_def active_rotation_at_def cong: option.case_cong)
  qed
  show "resolve_active_key idx' reg' (kr_agent_id r) h = Some (new_public_key r)"
    if "rotation_height r \<le> h" "\<forall>x \<in> set (rotations_for_at reg (kr_agent_id r) h). rotation_height x \<le> rotation_height r"
    using rots(2) [OF that] by (simp add: resolve_active_key_def active_rotation_at_def)
qed

definition keys_storable :: "kr_codec \<Rightarrow> managed_world_state \<Rightarrow> key_rotation_registry \<Rightarrow> key_index \<Rightarrow> bool" where
  "keys_storable D w reg idx \<longleftrightarrow>
     dec_rotations D (enc_rotations D reg) = Some reg \<and> dec_index D (enc_index D idx) = Some idx \<and>
     length KEY_ROTATIONS_TRIE_KEY \<le> entry_cap w \<and> length (enc_rotations D reg) \<le> entry_cap w \<and>
     length KEY_INDEX_TRIE_KEY \<le> entry_cap w \<and> length (enc_index D idx) \<le> entry_cap w"

lemma commits_read_back:
  assumes "keys_storable D w reg idx"
  defines "w' \<equiv> commit_key_index D (commit_key_rotation_registry D w reg) idx"
  shows "key_rotation_registry_from_trie D w' = Inr reg" "key_index_from_trie D w' = Inr idx"
proof -
  have ne: "KEY_ROTATIONS_TRIE_KEY \<noteq> KEY_INDEX_TRIE_KEY"
    by (simp add: KEY_ROTATIONS_TRIE_KEY_def KEY_INDEX_TRIE_KEY_def)
  have cap: "entry_cap (commit_key_rotation_registry D w reg) = entry_cap w"
    by (simp add: commit_key_rotation_registry_def)
  have "world_get w' KEY_ROTATIONS_TRIE_KEY = Some (enc_rotations D reg)"
    using assms(1) ne
    by (simp add: w'_def commit_key_index_def commit_key_rotation_registry_def apply_delta_single keys_storable_def)
  then show "key_rotation_registry_from_trie D w' = Inr reg"
    using assms(1) by (simp add: key_rotation_registry_from_trie_def keys_storable_def)
  have "world_get w' KEY_INDEX_TRIE_KEY = Some (enc_index D idx)"
    using assms(1) cap by (simp add: w'_def commit_key_index_def apply_delta_single keys_storable_def)
  then show "key_index_from_trie D w' = Inr idx"
    using assms(1) by (simp add: key_index_from_trie_def keys_storable_def)
qed

section \<open>Properties\<close>

text \<open>A codec that tells apart the two states used in the concrete examples.\<close>

definition sample_rotation :: key_rotation where
  "sample_rotation = \<lparr>kr_agent_id = 1, old_public_key = 10, new_public_key = 11, rotation_height = 100,
     signature_by_old_key = [], signature_by_new_key = []\<rparr>"

definition sample_original_index :: key_index where
  "sample_original_index = \<lparr>ki_entries =
     [\<lparr>ki_public_key = 10, ki_agent_id = 1, ki_active_from = 0, superseded_at = None\<rparr>]\<rparr>"

definition sample_rotated_index :: key_index where
  "sample_rotated_index = \<lparr>ki_entries =
     [\<lparr>ki_public_key = 10, ki_agent_id = 1, ki_active_from = 0, superseded_at = Some 100\<rparr>,
      \<lparr>ki_public_key = 11, ki_agent_id = 1, ki_active_from = 100, superseded_at = None\<rparr>]\<rparr>"

definition sample_kr_codec :: kr_codec where
  "sample_kr_codec = \<lparr>enc_rotations = (\<lambda>_. ''r''), dec_rotations = (\<lambda>_. Some \<lparr>rotations = [sample_rotation]\<rparr>),
     enc_index = (\<lambda>i. if i = sample_original_index then ''o'' else ''n''),
     dec_index = (\<lambda>b. Some (if b = ''o'' then sample_original_index else sample_rotated_index))\<rparr>"

definition sample_key_world :: managed_world_state where
  "sample_key_world = commit_key_index sample_kr_codec world_new sample_original_index"

text \<open>
  C32. A rotation takes effect and touches nobody else: when \<open>apply_key_rotation\<close> succeeds on
  consistent key records, both keys signed the request, the new key was never bound before, the new
  key is the agent's active key from the rotation height on (until a later rotation), every other
  agent's active key is unchanged at every height, and the key records stay consistent.
\<close>

theorem key_rotation_effect:
  assumes "apply_key_rotation D verify canon w r = Inr w'"
    "key_rotation_registry_from_trie D w = Inr reg" "key_index_from_trie D w = Inr idx"
    "keys_consistent idx reg"
    "\<And>reg' idx'. rotate_keys idx reg r = Inr (reg', idx') \<Longrightarrow> keys_storable D w reg' idx'"
  shows "verify (old_public_key r) (rotation_payload_bytes canon r) (signature_by_old_key r) \<and>
    verify (new_public_key r) (rotation_payload_bytes canon r) (signature_by_new_key r) \<and>
    \<not> index_contains_key idx (new_public_key r) \<and>
    (\<forall>h \<ge> rotation_height r.
       (\<forall>x \<in> set (rotations_for_at reg (kr_agent_id r) h). rotation_height x \<le> rotation_height r) \<longrightarrow>
       active_public_key D w' (kr_agent_id r) h = Inr (Some (new_public_key r))) \<and>
    (\<forall>a h. a \<noteq> kr_agent_id r \<longrightarrow> active_public_key D w' a h = active_public_key D w a h) \<and>
    (\<exists>reg' idx'. key_rotation_registry_from_trie D w' = Inr reg' \<and> key_index_from_trie D w' = Inr idx' \<and>
       keys_consistent idx' reg')"
proof -
  from assms(1-3) obtain reg' idx' where rk: "rotate_keys idx reg r = Inr (reg', idx')"
    and w': "w' = commit_key_index D (commit_key_rotation_registry D w reg') idx'"
    and sigs: "verify (old_public_key r) (rotation_payload_bytes canon r) (signature_by_old_key r)"
      "verify (new_public_key r) (rotation_payload_bytes canon r) (signature_by_new_key r)"
    by (auto simp: apply_key_rotation_def split: if_splits sum.splits prod.splits)
  note read = commits_read_back [OF assms(5) [OF rk], folded w']
  have act: "active_public_key D w' a h = Inr (resolve_active_key idx' reg' a h)"
    "active_public_key D w a h = Inr (resolve_active_key idx reg a h)" for a h
    using read assms(2,3) by (simp_all add: active_public_key_def bind_result_def)
  show ?thesis
    using sigs rotate_keys_Inr(2) [OF rk] resolve_after [OF rk assms(4)] act
      read rotate_keys_consistent [OF rk assms(4)] by auto
qed

lemma sample_rotate:
  "rotate_keys sample_original_index key_rotation_registry_new sample_rotation =
     Inr (\<lparr>rotations = [sample_rotation]\<rparr>, sample_rotated_index)"
  by (simp add: rotate_keys_def resolve_active_key_def active_rotation_at_def rotations_for_at_def
      key_rotation_registry_new_def sample_original_index_def sample_rotation_def live_at_def
      index_contains_key_def rotation_append_def mark_superseded_def index_register_def sample_rotated_index_def)

theorem key_rotation_witness:
  "\<exists>w'. apply_key_rotation sample_kr_codec (\<lambda>_ _ _. True) (\<lambda>_. []) sample_key_world sample_rotation = Inr w' \<and>
     active_public_key sample_kr_codec w' 1 100 = Inr (Some 11)"
proof -
  have cap: "entry_cap w = 1048576" if "consensus_params w = consensus_params_default" for w :: managed_world_state
    using that by (simp add: consensus_params_default_def)
  have cp: "consensus_params sample_key_world = consensus_params_default"
    by (simp add: sample_key_world_def commit_key_index_def world_new_def)
  have idx: "key_index_from_trie sample_kr_codec sample_key_world = Inr sample_original_index"
    by (simp add: key_index_from_trie_def sample_key_world_def commit_key_index_def apply_delta_single
        sample_kr_codec_def KEY_INDEX_TRIE_KEY_def world_new_def consensus_params_default_def)
  have reg: "key_rotation_registry_from_trie sample_kr_codec sample_key_world = Inr key_rotation_registry_new"
  proof -
    have "world_get world_new KEY_ROTATIONS_TRIE_KEY = None"
      by (simp add: world_new_def world_get_def trie_get_def trie_new_def)
    then show ?thesis
      by (simp add: key_rotation_registry_from_trie_def sample_key_world_def commit_key_index_def apply_delta_single)
        (simp add: KEY_INDEX_TRIE_KEY_def KEY_ROTATIONS_TRIE_KEY_def)
  qed
  have ok: "keys_consistent sample_original_index key_rotation_registry_new"
    by (simp add: keys_consistent_def sample_original_index_def key_rotation_registry_new_def)
  have "sample_rotated_index \<noteq> sample_original_index"
    by (simp add: sample_rotated_index_def sample_original_index_def)
  then have st: "keys_storable sample_kr_codec sample_key_world \<lparr>rotations = [sample_rotation]\<rparr> sample_rotated_index"
    by (simp add: keys_storable_def sample_kr_codec_def cap [OF cp] KEY_ROTATIONS_TRIE_KEY_def KEY_INDEX_TRIE_KEY_def)
  obtain w' where w': "apply_key_rotation sample_kr_codec (\<lambda>_ _ _. True) (\<lambda>_. []) sample_key_world sample_rotation = Inr w'"
    using reg idx sample_rotate by (simp add: apply_key_rotation_def) (simp add: sample_rotation_def)
  have "active_public_key sample_kr_codec w' (kr_agent_id sample_rotation) 100 = Inr (Some (new_public_key sample_rotation))"
    using key_rotation_effect [OF w' reg idx ok] st sample_rotate
    by (simp add: rotations_for_at_def key_rotation_registry_new_def) (simp add: sample_rotation_def)
  then show ?thesis using w' by (simp add: sample_rotation_def)
qed

text \<open>
  A retired key can still rotate into the past: the key a rotation must come from is looked up at the
  height written in the request, not at the current one. After the agent moved from key 10 to key 11 at
  height 100, the holder of key 10 still gets a rotation dated 50 accepted, which makes its key 12 the
  active key for the heights from 50 to 99.
\<close>

theorem retired_key_rotates_backdated:
  "\<exists>reg' idx'. rotate_keys sample_rotated_index \<lparr>rotations = [sample_rotation]\<rparr>
       (sample_rotation\<lparr>new_public_key := 12, rotation_height := 50\<rparr>) = Inr (reg', idx') \<and>
     resolve_active_key sample_rotated_index \<lparr>rotations = [sample_rotation]\<rparr> 1 99 = Some 10 \<and>
     resolve_active_key idx' reg' 1 99 = Some 12 \<and> resolve_active_key idx' reg' 1 100 = Some 11"
  by (simp add: rotate_keys_def resolve_active_key_def active_rotation_at_def rotations_for_at_def
      sample_rotation_def live_at_def index_contains_key_def rotation_append_def mark_superseded_def
      index_register_def sample_rotated_index_def)

end
