(* ===== verification/Scc_Constraints.thy ===== *)
theory Scc_Constraints
  imports Scc_Transition_Checks
begin

text \<open>
  Constraint predicates (\<open>execution/constraints.rs\<close>), the contract interpreter that parses and
  evaluates them (\<open>execution/contract.rs\<close>) and the constraint walker that propagates them through
  the symbol mesh before a transition is accepted (\<open>execution/scce.rs\<close>). Strings are their UTF-8
  byte sequences; the texts that explain a result are not modelled.
\<close>

section \<open>Predicates\<close>

datatype pred =
    PredExists (pr_key: symbol_address)
  | PredNotExists (pr_key: symbol_address)
  | PredEquals (pr_key: symbol_address) (pr_value: bytes)
  | PredBalanceAtLeast (pr_agent: agent_id) (pr_min_balance: int)
  | PredMinGovernanceLevel (pr_level: nat)
  | PredAnd "pred list"
  | PredOr "pred list"
  | PredNot pred
  | PredTrue
  | PredFalse
  | PredInvalid (pr_reason: string)

definition stored_balance :: "hex_encode \<Rightarrow> managed_world_state \<Rightarrow> agent_id \<Rightarrow> int" where
  "stored_balance hex w a =
     (case trie_get (trie w) (balance_key hex a) of
        Some v \<Rightarrow> if length v = 16 then i128_from_le_bytes v else 0
      | None \<Rightarrow> 0)"

fun evaluate :: "hex_encode \<Rightarrow> pred \<Rightarrow> managed_world_state \<Rightarrow> nat \<Rightarrow> bool" where
  "evaluate hex (PredExists k) w lvl = trie_contains (trie w) k"
| "evaluate hex (PredNotExists k) w lvl = (\<not> trie_contains (trie w) k)"
| "evaluate hex (PredEquals k v) w lvl = (trie_get (trie w) k = Some v)"
| "evaluate hex (PredBalanceAtLeast a m) w lvl = (m \<le> stored_balance hex w a)"
| "evaluate hex (PredMinGovernanceLevel l) w lvl = (lvl \<le> l)"
| "evaluate hex (PredAnd ps) w lvl = list_all (\<lambda>p. evaluate hex p w lvl) ps"
| "evaluate hex (PredOr ps) w lvl = list_ex (\<lambda>p. evaluate hex p w lvl) ps"
| "evaluate hex (PredNot p) w lvl = (\<not> evaluate hex p w lvl)"
| "evaluate hex PredTrue w lvl = True"
| "evaluate hex PredFalse w lvl = False"
| "evaluate hex (PredInvalid r) w lvl = False"

section \<open>Strings\<close>

text \<open>\<open>str::from_utf8\<close>: the well-formed UTF-8 byte sequences.\<close>

definition cont_byte :: "char \<Rightarrow> bool" where
  "cont_byte c \<longleftrightarrow> 128 \<le> (of_char c :: nat) \<and> (of_char c :: nat) \<le> 191"

definition byte_in :: "nat \<Rightarrow> nat \<Rightarrow> char \<Rightarrow> bool" where
  "byte_in lo hi c \<longleftrightarrow> lo \<le> (of_char c :: nat) \<and> (of_char c :: nat) \<le> hi"

definition utf8_second :: "char \<Rightarrow> char \<Rightarrow> bool" where
  "utf8_second a b =
     (if a = CHR 0xE0 then byte_in 160 191 b
      else if a = CHR 0xED then byte_in 128 159 b
      else if a = CHR 0xF0 then byte_in 144 191 b
      else if a = CHR 0xF4 then byte_in 128 143 b
      else cont_byte b)"

fun valid_utf8 :: "bytes \<Rightarrow> bool" where
  "valid_utf8 [] = True"
| "valid_utf8 (a # bs) =
     (if byte_in 0 127 a then valid_utf8 bs
      else if byte_in 194 223 a
      then (case bs of b # r \<Rightarrow> cont_byte b \<and> valid_utf8 r | _ \<Rightarrow> False)
      else if byte_in 224 239 a
      then (case bs of b # c # r \<Rightarrow> utf8_second a b \<and> cont_byte c \<and> valid_utf8 r | _ \<Rightarrow> False)
      else if byte_in 240 244 a
      then (case bs of b # c # d # r \<Rightarrow> utf8_second a b \<and> cont_byte c \<and> cont_byte d \<and> valid_utf8 r | _ \<Rightarrow> False)
      else False)"

declare valid_utf8.simps [simp del]

text \<open>\<open>str::trim\<close>: the characters with the Unicode property \<open>White_Space\<close>, by their encodings.\<close>

definition white_spaces :: "bytes list" where
  "white_spaces =
     [[CHR 0x09], [CHR 0x0A], [CHR 0x0B], [CHR 0x0C], [CHR 0x0D], [CHR 0x20],
      [CHR 0xC2, CHR 0x85], [CHR 0xC2, CHR 0xA0], [CHR 0xE1, CHR 0x9A, CHR 0x80],
      [CHR 0xE2, CHR 0x80, CHR 0x80], [CHR 0xE2, CHR 0x80, CHR 0x81], [CHR 0xE2, CHR 0x80, CHR 0x82],
      [CHR 0xE2, CHR 0x80, CHR 0x83], [CHR 0xE2, CHR 0x80, CHR 0x84], [CHR 0xE2, CHR 0x80, CHR 0x85],
      [CHR 0xE2, CHR 0x80, CHR 0x86], [CHR 0xE2, CHR 0x80, CHR 0x87], [CHR 0xE2, CHR 0x80, CHR 0x88],
      [CHR 0xE2, CHR 0x80, CHR 0x89], [CHR 0xE2, CHR 0x80, CHR 0x8A], [CHR 0xE2, CHR 0x80, CHR 0xA8],
      [CHR 0xE2, CHR 0x80, CHR 0xA9], [CHR 0xE2, CHR 0x80, CHR 0xAF], [CHR 0xE2, CHR 0x81, CHR 0x9F],
      [CHR 0xE3, CHR 0x80, CHR 0x80]]"

definition leading_space :: "bytes list \<Rightarrow> bytes \<Rightarrow> nat option" where
  "leading_space spaces s = map_option length (List.find (starts_with s) spaces)"

fun skip_spaces :: "bytes list \<Rightarrow> nat \<Rightarrow> bytes \<Rightarrow> bytes" where
  "skip_spaces spaces 0 s = s"
| "skip_spaces spaces (Suc n) s =
     (case leading_space spaces s of None \<Rightarrow> s | Some k \<Rightarrow> skip_spaces spaces n (drop k s))"

definition trim :: "bytes \<Rightarrow> bytes" where
  "trim s =
     (let t = skip_spaces white_spaces (length s) s
      in rev (skip_spaces (map rev white_spaces) (length t) (rev t)))"

definition strip_prefix :: "bytes \<Rightarrow> bytes \<Rightarrow> bytes option" where
  "strip_prefix p s = (if starts_with s p then Some (drop (length p) s) else None)"

definition split_once :: "char \<Rightarrow> bytes \<Rightarrow> (bytes \<times> bytes) option" where
  "split_once c s =
     (case dropWhile (\<lambda>x. x \<noteq> c) s of [] \<Rightarrow> None | _ # r \<Rightarrow> Some (takeWhile (\<lambda>x. x \<noteq> c) s, r))"

definition digit_value :: "char \<Rightarrow> nat option" where
  "digit_value c = (if byte_in 48 57 c then Some (of_char c - 48) else None)"

fun parse_digits :: "nat \<Rightarrow> bytes \<Rightarrow> nat option" where
  "parse_digits acc [] = Some acc"
| "parse_digits acc (c # cs) =
     (case digit_value c of
        None \<Rightarrow> None
      | Some d \<Rightarrow> if acc * 10 + d > 255 then None else parse_digits (acc * 10 + d) cs)"

text \<open>\<open>str::parse::<u8>\<close>.\<close>

definition parse_u8 :: "bytes \<Rightarrow> nat option" where
  "parse_u8 s =
     (let ds = (case s of c # r \<Rightarrow> if c = CHR ''+'' then r else s | [] \<Rightarrow> s)
      in if ds = [] then None else parse_digits 0 ds)"

section \<open>Contracts\<close>

definition parse_constraint_expression :: "bytes \<Rightarrow> pred" where
  "parse_constraint_expression input =
     (let expr = trim input
      in if expr = ''true'' \<or> expr = [] then PredTrue
         else if expr = ''false'' then PredFalse
         else case strip_prefix ''exists:'' expr of
             Some key \<Rightarrow> PredExists key
           | None \<Rightarrow>
               (case Option.bind (strip_prefix ''equals:'' expr) (split_once CHR ''='') of
                  Some (key, v) \<Rightarrow> PredEquals key v
                | None \<Rightarrow>
                    (case Option.bind (strip_prefix ''governance:'' expr) parse_u8 of
                       Some l \<Rightarrow> PredMinGovernanceLevel l
                     | None \<Rightarrow> PredInvalid (''unknown expression form: '' @ expr))))"

datatype execution_phase = PreconditionCheck | MethodExecution | PostconditionCheck

datatype contract_rejection =
    CrInsufficientAuthority precedence_level precedence_level
  | CrPreconditionFailed hash
  | CrEmptyMethod
  | CrArgsTooLarge nat
  | CrPostconditionFailed hash
  | CrStepLimit nat execution_phase

record contract_execution_result =
  cx_verdict :: "contract_rejection + unit"
  cx_state_delta :: state_delta
  cx_steps_used :: nat
  cx_tension_delta :: tension_value

abbreviation empty_delta :: state_delta where
  "empty_delta \<equiv> \<lparr>writes = [], deletes = []\<rparr>"

definition reject_with :: "contract_rejection \<Rightarrow> nat \<Rightarrow> contract_execution_result" where
  "reject_with r steps =
     \<lparr>cx_verdict = Inl r, cx_state_delta = empty_delta, cx_steps_used = steps, cx_tension_delta = 0\<rparr>"

definition reject_step_limit :: "nat \<Rightarrow> nat \<Rightarrow> execution_phase \<Rightarrow> contract_execution_result" where
  "reject_step_limit steps lim ph = reject_with (CrStepLimit lim ph) steps"

fun check_laws ::
  "hex_encode \<Rightarrow> managed_world_state \<Rightarrow> nat \<Rightarrow> nat \<Rightarrow> execution_phase \<Rightarrow> (hash \<Rightarrow> contract_rejection) \<Rightarrow>
   tx_constraint list \<Rightarrow> nat \<Rightarrow> contract_execution_result + nat" where
  "check_laws hex w lvl max_steps ph failed [] steps = Inr steps"
| "check_laws hex w lvl max_steps ph failed (law # ls) steps0 =
     (let steps = u64_saturating_add steps0 1
      in if steps > max_steps then Inl (reject_step_limit steps max_steps ph)
         else if \<not> evaluate hex (parse_constraint_expression (expression law)) w lvl
         then Inl (reject_with (failed (tc_id law)) steps)
         else check_laws hex w lvl max_steps ph failed ls steps)"

definition contract_payload ::
  "hex_encode \<Rightarrow> symbolic_causal_contract \<Rightarrow> managed_world_state \<Rightarrow> operation_payload \<Rightarrow> nat \<Rightarrow> nat \<Rightarrow>
   contract_execution_result + (state_delta \<times> nat)" where
  "contract_payload hex c w p max_steps steps0 =
     (case p of
        PInvokeContract cid meth args \<Rightarrow>
          (let steps = u64_saturating_add steps0 1
           in if steps > max_steps then Inl (reject_step_limit steps max_steps MethodExecution)
              else if meth = [] then Inl (reject_with CrEmptyMethod steps)
              else if length args > max_state_entry_size (consensus_params w)
              then Inl (reject_with (CrArgsTooLarge (max_state_entry_size (consensus_params w))) steps)
              else Inr (\<lparr>writes = [\<lparr>address = ''contract/'' @ hex (scc_contract_id c) @ ''/result/'' @ meth,
                                   sw_value = args\<rparr>], deletes = []\<rparr>, steps))
      | PWrite k v \<Rightarrow> Inr (\<lparr>writes = [\<lparr>address = k, sw_value = v\<rparr>], deletes = []\<rparr>, u64_saturating_add steps0 1)
      | _ \<Rightarrow> Inr (empty_delta, steps0))"

definition execute_contract ::
  "hex_encode \<Rightarrow> symbolic_causal_contract \<Rightarrow> symbolic_transition \<Rightarrow> managed_world_state \<Rightarrow> nat \<Rightarrow>
   contract_execution_result" where
  "execute_contract hex c tx w max_steps =
     (let lvl = precedence_rank (ag_governance_level (actor tx))
      in if lvl > precedence_rank (scc_governance_level c)
         then reject_with (CrInsufficientAuthority (ag_governance_level (actor tx)) (scc_governance_level c)) 0
         else
           case check_laws hex w lvl max_steps PreconditionCheck CrPreconditionFailed (laws c) 0 of
             Inl r \<Rightarrow> r
           | Inr steps1 \<Rightarrow>
               (case contract_payload hex c w (payload tx) max_steps steps1 of
                  Inl r \<Rightarrow> r
                | Inr (delta, steps2) \<Rightarrow>
                    (case check_laws hex w lvl max_steps PostconditionCheck CrPostconditionFailed (laws c) steps2 of
                       Inl r \<Rightarrow> r
                     | Inr steps3 \<Rightarrow>
                         \<lparr>cx_verdict = Inr (), cx_state_delta = delta, cx_steps_used = steps3, cx_tension_delta = 0\<rparr>)))"

definition default_max_steps_for_state :: "managed_world_state \<Rightarrow> nat" where
  "default_max_steps_for_state w = default_max_steps (consensus_params w)"

definition execute_contract_with_state_params ::
  "hex_encode \<Rightarrow> symbolic_causal_contract \<Rightarrow> symbolic_transition \<Rightarrow> managed_world_state \<Rightarrow> contract_execution_result" where
  "execute_contract_with_state_params hex c tx w = execute_contract hex c tx w (default_max_steps_for_state w)"

definition verify_contract_id ::
  "(bytes \<Rightarrow> hash) \<Rightarrow> (string \<times> tx_constraint list \<times> hash \<Rightarrow> bytes) \<Rightarrow> symbolic_causal_contract \<Rightarrow> bool" where
  "verify_contract_id B canon c \<longleftrightarrow> scc_contract_id c = B (canon (scc_name c, laws c, deployer c))"

section \<open>The constraint walker\<close>

record constraint_weights =
  attention_threshold :: tension_value
  propagation_decay :: tension_value

datatype scce_verdict =
    ScceAttentionExhausted
  | ScceConflict
  | ScceNotGrounded
  | ScceGovernanceViolation
  | SccePassed

record scce_result =
  scce_detail :: scce_verdict
  scce_tension_delta :: tension_value
  scce_steps_used :: nat

definition scce_valid :: "scce_result \<Rightarrow> bool" where
  "scce_valid r \<longleftrightarrow> scce_detail r = SccePassed"

text \<open>The part of a path before its last separator (\<open>rposition\<close> and \<open>truncate\<close>).\<close>

definition parent_path :: "bytes \<Rightarrow> bytes option" where
  "parent_path p = (if CHR ''/'' \<in> set p then Some (rev (tl (dropWhile (\<lambda>c. c \<noteq> CHR ''/'') (rev p)))) else None)"

lemma parent_path_shorter: "parent_path p = Some q \<Longrightarrow> length q < length p"
proof -
  assume "parent_path p = Some q"
  then have m: "CHR ''/'' \<in> set (rev p)" and q: "q = rev (tl (dropWhile (\<lambda>c. c \<noteq> CHR ''/'') (rev p)))"
    by (auto simp: parent_path_def split: if_splits)
  have "dropWhile (\<lambda>c. c \<noteq> CHR ''/'') (rev p) \<noteq> []" using m by (auto simp: dropWhile_eq_Nil_conv)
  then have "length (tl (dropWhile (\<lambda>c. c \<noteq> CHR ''/'') (rev p))) < length (dropWhile (\<lambda>c. c \<noteq> CHR ''/'') (rev p))"
    by (cases "dropWhile (\<lambda>c. c \<noteq> CHR ''/'') (rev p)") auto
  also have "\<dots> \<le> length p" using length_dropWhile_le by (metis length_rev)
  finally show ?thesis using q by simp
qed

function activate_loop :: "state_trie \<Rightarrow> nat \<Rightarrow> bytes list \<Rightarrow> bytes \<Rightarrow> bytes list" where
  "activate_loop t cap symbols path =
     (if length symbols < cap
      then (case parent_path path of
              None \<Rightarrow> symbols
            | Some p \<Rightarrow>
                activate_loop t cap (if p \<noteq> [] \<and> trie_contains t p then symbols @ [p] else symbols) p)
      else symbols)"
  by pat_completeness auto
termination
  by (relation "measure (\<lambda>(t, cap, symbols, path). length path)") (auto simp: parent_path_shorter)

declare activate_loop.simps [simp del]

definition activate_symbols :: "bytes \<Rightarrow> managed_world_state \<Rightarrow> bytes list" where
  "activate_symbols target w =
     activate_loop (trie w) (max (max_activated_symbols (consensus_params w)) 1) [target] target"

fun scan_entries :: "nat \<Rightarrow> nat \<Rightarrow> 'a list \<Rightarrow> nat \<times> bool" where
  "scan_entries cap n [] = (n, False)"
| "scan_entries cap n (e # es) =
     (let n' = u64_saturating_add n 1 in if cap \<le> n' then (n', True) else scan_entries cap n' es)"

fun scan_symbols :: "state_trie \<Rightarrow> nat \<Rightarrow> nat \<Rightarrow> bytes list \<Rightarrow> nat" where
  "scan_symbols t cap n [] = n"
| "scan_symbols t cap n (s # ss) =
     (case scan_entries cap n (prefix_iter t s) of
        (n', True) \<Rightarrow> n'
      | (n', False) \<Rightarrow> scan_symbols t cap n' ss)"

definition select_relevant_subgraph :: "bytes list \<Rightarrow> managed_world_state \<Rightarrow> constraint_weights \<Rightarrow> nat" where
  "select_relevant_subgraph active w weights =
     scan_symbols (trie w) (u64_saturating_mul (max_scan_per_symbol (consensus_params w)) (length active)) 0 active"

definition CONSTRAINT_PREFIX :: bytes where "CONSTRAINT_PREFIX = ''constraints/''"

definition constraint_key :: "bytes \<Rightarrow> bytes \<Rightarrow> string + bytes" where
  "constraint_key symbol cid =
     (if CHR 0x00 \<in> set symbol then Inl ''symbol addresses must not contain null bytes''
      else Inr (CONSTRAINT_PREFIX @ symbol @ [CHR 0x00] @ cid))"

definition constraint_prefix_for_symbol :: "bytes \<Rightarrow> bytes" where
  "constraint_prefix_for_symbol symbol = CONSTRAINT_PREFIX @ symbol @ [CHR 0x00]"

record propagation_result =
  pg_consistent :: bool
  pg_tension_delta :: tension_value
  pg_steps :: nat

definition propagation_conflict :: "nat \<Rightarrow> tension_value \<Rightarrow> propagation_result" where
  "propagation_conflict steps tension =
     \<lparr>pg_consistent = False, pg_tension_delta = tension, pg_steps = steps\<rparr>"

fun constraint_loop ::
  "hex_encode \<Rightarrow> managed_world_state \<Rightarrow> nat \<Rightarrow> nat \<Rightarrow> nat \<Rightarrow> nat \<Rightarrow> tension_value \<Rightarrow> (bytes \<times> bytes) list \<Rightarrow>
   (nat \<times> tension_value) + (nat \<times> tension_value)" where
  "constraint_loop hex w max_steps depth per steps tension [] = Inr (steps, tension)"
| "constraint_loop hex w max_steps depth per0 steps0 tension ((k, v) # es) =
     (let steps = u64_saturating_add steps0 1; per = u64_saturating_add per0 1
      in if per > max_constraints_per_symbol (consensus_params w) \<or> steps \<ge> max_steps then Inr (steps, tension)
         else if \<not> valid_utf8 v then Inl (steps, tension)
         else if \<not> evaluate hex (parse_constraint_expression v) w 255 then Inl (steps, tension)
         else constraint_loop hex w max_steps depth per steps
                (tension_add tension (from_integer (1 + int depth))) es)"

definition child_symbols :: "state_trie \<Rightarrow> bytes \<Rightarrow> bytes list" where
  "child_symbols t symbol =
     (let child_prefix = symbol @ ''/''
      in filter (\<lambda>k. case strip_prefix child_prefix k of Some rest \<Rightarrow> CHR ''/'' \<notin> set rest | None \<Rightarrow> False)
           (map fst (prefix_iter t child_prefix)))"

lemma child_symbols_keys: "set (child_symbols t s) \<subseteq> fst ` set (store t)"
  by (auto simp: child_symbols_def Let_def prefix_iter_def dest!: set_takeWhileD set_dropWhileD)

function propagate_loop ::
  "hex_encode \<Rightarrow> managed_world_state \<Rightarrow> nat \<Rightarrow> nat \<Rightarrow> (bytes \<times> nat) list \<Rightarrow> bytes set \<Rightarrow> nat \<Rightarrow> tension_value \<Rightarrow>
   propagation_result" where
  "propagate_loop hex w max_depth max_steps [] visited steps tension =
     \<lparr>pg_consistent = True, pg_tension_delta = tension, pg_steps = steps\<rparr>"
| "propagate_loop hex w max_depth max_steps ((symbol, depth) # worklist) visited steps tension =
     (if steps \<ge> max_steps then propagation_conflict steps tension
      else if symbol \<in> visited then propagate_loop hex w max_depth max_steps worklist visited steps tension
      else if depth > max_depth
      then propagate_loop hex w max_depth max_steps worklist (insert symbol visited) steps tension
      else
        case constraint_loop hex w max_steps depth 0 steps tension
               (prefix_iter (trie w) (constraint_prefix_for_symbol symbol)) of
          Inl (s, t) \<Rightarrow> propagation_conflict s t
        | Inr (s, t) \<Rightarrow>
            if s \<ge> max_steps then propagation_conflict s t
            else propagate_loop hex w max_depth max_steps
                   (worklist @ map (\<lambda>c. (c, (depth + 1) mod 2 ^ 32)) (child_symbols (trie w) symbol))
                   (insert symbol visited) s t)"
  by pat_completeness auto
termination
proof (relation "inv_image (less_than <*lex*> less_than)
    (\<lambda>(hex, w, max_depth, max_steps, worklist, visited, steps, tension).
       (card ((fst ` set (store (trie w)) \<union> fst ` set worklist) - visited), length worklist))", goal_cases)
  case 1
  then show ?case by (simp add: wf_inv_image wf_lex_prod)
next
  case (2 hex w max_depth max_steps symbol depth worklist visited steps tension)
  then have "(fst ` set (store (trie w)) \<union> fst ` set ((symbol, depth) # worklist)) - visited =
      (fst ` set (store (trie w)) \<union> fst ` set worklist) - visited" by auto
  then show ?case by simp
next
  case (3 hex w max_depth max_steps symbol depth worklist visited steps tension)
  have "card ((fst ` set (store (trie w)) \<union> fst ` set worklist) - insert symbol visited)
      < card ((fst ` set (store (trie w)) \<union> fst ` set ((symbol, depth) # worklist)) - visited)"
    by (rule psubset_card_mono) (use 3 in auto)
  then show ?case by simp
next
  case (4 hex w max_depth max_steps symbol depth worklist visited steps tension x s t)
  have "card ((fst ` set (store (trie w)) \<union> fst ` set (worklist @ map (\<lambda>c. (c, (depth + 1) mod 2 ^ 32))
        (child_symbols (trie w) symbol))) - insert symbol visited)
      < card ((fst ` set (store (trie w)) \<union> fst ` set ((symbol, depth) # worklist)) - visited)"
    by (rule psubset_card_mono) (use 4 child_symbols_keys [of "trie w" symbol] in \<open>auto simp: image_Un\<close>)
  then show ?case by simp
qed

declare propagate_loop.simps [simp del]

definition propagate_constraints ::
  "hex_encode \<Rightarrow> bytes list \<Rightarrow> managed_world_state \<Rightarrow> nat \<Rightarrow> nat \<Rightarrow> propagation_result" where
  "propagate_constraints hex active w max_depth max_steps =
     propagate_loop hex w max_depth max_steps (map (\<lambda>s. (s, 0)) active) {} 0 0"

definition check_grounding :: "bytes \<Rightarrow> managed_world_state \<Rightarrow> transition_kind \<Rightarrow> bool" where
  "check_grounding target w kind =
     (case kind of KStateRead \<Rightarrow> trie_contains (trie w) target | _ \<Rightarrow> target \<noteq> [])"

definition evaluate_governance_value :: "symbolic_transition \<Rightarrow> bool" where
  "evaluate_governance_value tx =
     (let required = (case ti_kind (tx_intent tx) of
                        KGovernanceUpdate \<Rightarrow> Meaning | KNormProposal \<Rightarrow> Meaning | _ \<Rightarrow> Optimization)
      in precedence_rank (ag_governance_level (actor tx)) \<le> precedence_rank required)"

definition scce_validate ::
  "hex_encode \<Rightarrow> symbolic_transition \<Rightarrow> managed_world_state \<Rightarrow> constraint_weights \<Rightarrow> nat \<Rightarrow> nat \<Rightarrow> scce_result" where
  "scce_validate hex tx w weights max_depth max_steps =
     (let target = ti_target (tx_intent tx);
          active = activate_symbols target w;
          used = u64_saturating_add 1 (select_relevant_subgraph active w weights)
      in if used > max_steps
         then \<lparr>scce_detail = ScceAttentionExhausted, scce_tension_delta = 0, scce_steps_used = used\<rparr>
         else
           let pg = propagate_constraints hex active w max_depth (max_steps - used); used1 = used + pg_steps pg
           in if \<not> pg_consistent pg
              then \<lparr>scce_detail = ScceConflict, scce_tension_delta = pg_tension_delta pg, scce_steps_used = used1\<rparr>
              else
                let td = tension_add 0 (pg_tension_delta pg)
                in if \<not> check_grounding target w (ti_kind (tx_intent tx))
                   then \<lparr>scce_detail = ScceNotGrounded, scce_tension_delta = td, scce_steps_used = u64_wrapping_add used1 1\<rparr>
                   else if \<not> evaluate_governance_value tx
                   then \<lparr>scce_detail = ScceGovernanceViolation, scce_tension_delta = td, scce_steps_used = u64_wrapping_add used1 2\<rparr>
                   else
                     let area = (case map_of (tf_map (ws_tension_field (state w))) target of
                                   Some a \<Rightarrow> a | None \<Rightarrow> 0)
                     in \<lparr>scce_detail = SccePassed,
                         scce_tension_delta =
                           (if area > current_budget (budget (ws_tension_field (state w)))
                            then tension_add td (from_integer 1) else td),
                         scce_steps_used = u64_wrapping_add used1 2\<rparr>)"

section \<open>What the walker has checked\<close>

definition constraint_holds :: "hex_encode \<Rightarrow> managed_world_state \<Rightarrow> bytes \<Rightarrow> bool" where
  "constraint_holds hex w v \<longleftrightarrow> valid_utf8 v \<and> evaluate hex (parse_constraint_expression v) w 255"

text \<open>The constraints of a symbol that the walker looks at: the first ones, up to the limit.\<close>

definition checked_constraints :: "managed_world_state \<Rightarrow> bytes \<Rightarrow> (bytes \<times> bytes) list" where
  "checked_constraints w s =
     take (max_constraints_per_symbol (consensus_params w))
       (prefix_iter (trie w) (constraint_prefix_for_symbol s))"

definition symbol_sound :: "hex_encode \<Rightarrow> managed_world_state \<Rightarrow> bytes \<Rightarrow> bool" where
  "symbol_sound hex w s \<longleftrightarrow> (\<forall>v \<in> snd ` set (checked_constraints w s). constraint_holds hex w v)"

inductive mesh_at :: "state_trie \<Rightarrow> bytes list \<Rightarrow> nat \<Rightarrow> bytes \<Rightarrow> bool" for t active where
  start: "s \<in> set active \<Longrightarrow> mesh_at t active 0 s"
| child: "mesh_at t active n s \<Longrightarrow> c \<in> set (child_symbols t s) \<Longrightarrow> mesh_at t active (Suc n) c"

lemma constraint_loop_sound:
  assumes "constraint_loop hex w ms d per st tn es = Inr (st', tn')" "st' < ms"
  shows "\<forall>v \<in> snd ` set (take (max_constraints_per_symbol (consensus_params w) - per) es). constraint_holds hex w v"
  using assms
proof (induction hex w ms d per st tn es rule: constraint_loop.induct)
  case (2 hex w ms d per0 st0 tn k v es)
  let ?lim = "max_constraints_per_symbol (consensus_params w)" and ?per = "u64_saturating_add per0 1"
  show ?case
  proof (cases "?per > ?lim \<or> u64_saturating_add st0 1 \<ge> ms")
    case True
    then have "?per > ?lim" using 2 by (auto simp: Let_def)
    then have "?lim - per0 = 0" by (simp add: u64_saturating_add_def min_def split: if_splits)
    then show ?thesis by simp
  next
    case False
    then have ok: "constraint_holds hex w v" and rest: "constraint_loop hex w ms d ?per
        (u64_saturating_add st0 1) (tension_add tn (from_integer (1 + int d))) es = Inr (st', tn')"
      using 2(2) by (auto simp: Let_def constraint_holds_def split: if_splits)
    have "\<forall>v \<in> snd ` set (take (?lim - ?per) es). constraint_holds hex w v"
      using 2(1) [OF refl refl _ _ _ rest \<open>st' < ms\<close>] False ok by (auto simp: constraint_holds_def)
    moreover have "set (take (?lim - per0) ((k, v) # es)) \<subseteq> insert (k, v) (set (take (?lim - ?per) es))"
    proof -
      have "?lim - per0 - 1 \<le> ?lim - ?per" by (simp add: u64_saturating_add_def)
      then have "set (take (?lim - per0 - 1) es) \<subseteq> set (take (?lim - ?per) es)"
        by (rule set_take_subset_set_take)
      then show ?thesis by (cases "?lim - per0") auto
    qed
    ultimately show ?thesis using ok by force
  qed
qed simp

lemma constraint_loop_steps:
  "st < ms \<Longrightarrow> (case constraint_loop hex w ms d per st tn es of Inl r \<Rightarrow> fst r | Inr r \<Rightarrow> fst r) \<le> ms"
proof (induction hex w ms d per st tn es rule: constraint_loop.induct)
  case (2 hex w ms d per0 st0 tn k v es)
  have "u64_saturating_add st0 1 \<le> ms" using 2(2) by (simp add: u64_saturating_add_def)
  then show ?case using 2(1) [OF refl refl] by (simp add: Let_def)
qed simp

definition queue_ok :: "(bytes \<times> nat) list \<Rightarrow> bool" where
  "queue_ok wl \<longleftrightarrow> sorted (map snd wl) \<and> (\<forall>x \<in> set wl. snd x \<le> snd (hd wl) + 1)"

definition mesh_closed ::
  "hex_encode \<Rightarrow> managed_world_state \<Rightarrow> nat \<Rightarrow> (bytes \<Rightarrow> nat) \<Rightarrow> bytes set \<Rightarrow> (bytes \<times> nat) set \<Rightarrow> bool" where
  "mesh_closed hex w md D V pending \<longleftrightarrow>
     (\<forall>v \<in> V. D v \<le> md \<longrightarrow> symbol_sound hex w v \<and>
        (\<forall>c \<in> set (child_symbols (trie w) v).
           (c \<in> V \<and> D c \<le> D v + 1) \<or> (\<exists>d \<le> D v + 1. (c, d) \<in> pending)))"

lemma queue_ok_append:
  assumes "queue_ok wl" "\<forall>x \<in> set wl. d \<le> snd x \<and> snd x \<le> d + 1"
  shows "queue_ok (wl @ map (\<lambda>c. (c, d + 1)) cs)"
proof -
  have "sorted (map snd (map (\<lambda>c. (c, d + 1)) cs))" by (simp add: comp_def map_replicate_const)
  then have "sorted (map snd (wl @ map (\<lambda>c. (c, d + 1)) cs))"
    using assms by (auto simp: queue_ok_def sorted_append simp del: map_map)
  moreover have "\<forall>x \<in> set (wl @ map (\<lambda>c. (c, d + 1)) cs). snd x \<le> snd (hd (wl @ map (\<lambda>c. (c, d + 1)) cs)) + 1"
    using assms(2) by (cases wl; cases cs) fastforce+
  ultimately show ?thesis by (simp add: queue_ok_def)
qed

lemma mesh_closed_visit:
  assumes "mesh_closed hex w md D V (insert (s, d) P)" "s \<notin> V"
    "d \<le> md \<Longrightarrow> symbol_sound hex w s \<and> (\<forall>c \<in> set (child_symbols (trie w) s). (c, d + 1) \<in> Q)"
  shows "mesh_closed hex w md (D(s := d)) (insert s V) (P \<union> Q)"
  unfolding mesh_closed_def
proof (intro ballI impI)
  fix v
  assume v: "v \<in> insert s V" "(D(s := d)) v \<le> md"
  show "symbol_sound hex w v \<and> (\<forall>c \<in> set (child_symbols (trie w) v).
      c \<in> insert s V \<and> (D(s := d)) c \<le> (D(s := d)) v + 1 \<or> (\<exists>e \<le> (D(s := d)) v + 1. (c, e) \<in> P \<union> Q))"
  proof (cases "v = s")
    case True
    then show ?thesis using v assms(3) by auto
  next
    case False
    then have "v \<in> V" "D v \<le> md" using v by auto
    then have old: "symbol_sound hex w v" "\<And>c. c \<in> set (child_symbols (trie w) v) \<Longrightarrow>
        c \<in> V \<and> D c \<le> D v + 1 \<or> (\<exists>e \<le> D v + 1. (c, e) = (s, d) \<or> (c, e) \<in> P)"
      using assms(1) unfolding mesh_closed_def by blast+
    show ?thesis using old assms(2) False by (metis (no_types, lifting) Un_iff fun_upd_apply insertCI prod.inject)
  qed
qed

lemma propagate_loop_closed:
  assumes "pg_consistent (propagate_loop hex w md ms wl V st tn)" "md < U32_MAX"
    "queue_ok wl" "\<forall>v \<in> V. \<forall>x \<in> set wl. D v \<le> snd x" "mesh_closed hex w md D V (set wl)"
  shows "\<exists>D' V'. V \<subseteq> V' \<and> (\<forall>v \<in> V. D' v = D v) \<and> (\<forall>(s, d) \<in> set wl. s \<in> V' \<and> D' s \<le> d) \<and>
    mesh_closed hex w md D' V' {}"
  using assms
proof (induction hex w md ms wl V st tn arbitrary: D rule: propagate_loop.induct)
  case (1 hex w md ms V st tn)
  then show ?case by (intro exI [of _ D] exI [of _ V]) simp
next
  case (2 hex w md ms s d wl V st tn)
  let ?wl = "(s, d) # wl"
  have tail: "queue_ok wl" and later: "\<forall>x \<in> set wl. d \<le> snd x \<and> snd x \<le> d + 1"
    using 2(6) by (auto simp: queue_ok_def intro: order_trans) (cases wl; force)
  have run: "st < ms" using 2(4) unfolding propagate_loop.simps(2) by (auto simp: propagation_conflict_def split: if_splits)
  show ?case
  proof (cases "s \<in> V")
    case True
    have "mesh_closed hex w md D V (set wl)"
      using 2(7,8) True unfolding mesh_closed_def by fastforce
    moreover have "pg_consistent (propagate_loop hex w md ms wl V st tn)"
      using 2(4) True run by (simp only: propagate_loop.simps(2)) simp
    ultimately obtain D' V' where "V \<subseteq> V'" "\<forall>v \<in> V. D' v = D v" "\<forall>(s, d) \<in> set wl. s \<in> V' \<and> D' s \<le> d"
        "mesh_closed hex w md D' V' {}"
      using 2(1) [of D] 2(5,7) True run tail by auto
    moreover have "D s \<le> d" using True 2(7) by auto
    ultimately show ?thesis using True by (intro exI [of _ D'] exI [of _ V']) auto
  next
    case new: False
    let ?D = "D(s := d)"
    have more: "\<not> ms \<le> st" using run by simp
    have lift: ?thesis
      if ex: "\<exists>D' V'. insert s V \<subseteq> V' \<and> (\<forall>v \<in> insert s V. D' v = ?D v) \<and>
         (\<forall>(s, d) \<in> set (wl @ q). s \<in> V' \<and> D' s \<le> d) \<and> mesh_closed hex w md D' V' {}" for q
    proof -
      from ex obtain D' V' where "insert s V \<subseteq> V'" "\<forall>v \<in> insert s V. D' v = ?D v"
        "\<forall>(s, d) \<in> set (wl @ q). s \<in> V' \<and> D' s \<le> d" "mesh_closed hex w md D' V' {}" by blast
      then show ?thesis using new by (intro exI [of _ D'] exI [of _ V']) auto
    qed
    show ?thesis
    proof (cases "d > md")
      case True
      have closed: "mesh_closed hex w md ?D (insert s V) (set wl)"
        using mesh_closed_visit [of hex w md D V s d "set wl" "{}"] 2(8) True new by simp
      have rest: "pg_consistent (propagate_loop hex w md ms wl (insert s V) st tn)"
        using 2(4) True run new by (simp only: propagate_loop.simps(2)) simp
      have early: "\<forall>v \<in> insert s V. \<forall>x \<in> set wl. ?D v \<le> snd x" using later 2(7) new by auto
      show ?thesis
        by (rule lift [of "[]", unfolded append_Nil2], rule 2(2) [OF more new True rest 2(5) tail early closed])
    next
      case False
      let ?q = "map (\<lambda>c. (c, d + 1)) (child_symbols (trie w) s)"
      have wrap: "(d + 1) mod 2 ^ 32 = d + 1" using False 2(5) by (simp add: U32_MAX_def)
      obtain st' tn' where loop: "constraint_loop hex w ms d 0 st tn
          (prefix_iter (trie w) (constraint_prefix_for_symbol s)) = Inr (st', tn')" and st': "st' < ms"
        and rest: "pg_consistent (propagate_loop hex w md ms (wl @ ?q) (insert s V) st' tn')"
        using 2(4) run new False wrap unfolding propagate_loop.simps(2)
        by (auto simp: propagation_conflict_def split: sum.splits prod.splits if_splits)
      have "symbol_sound hex w s"
        using constraint_loop_sound [OF loop st'] by (simp add: symbol_sound_def checked_constraints_def)
      then have closed: "mesh_closed hex w md ?D (insert s V) (set (wl @ ?q))"
        using mesh_closed_visit [of hex w md D V s d "set wl" "set ?q"] 2(8) new by simp
      have queue: "queue_ok (wl @ ?q)"
        using tail later by (rule queue_ok_append)
      have early: "\<forall>v \<in> insert s V. \<forall>x \<in> set (wl @ ?q). ?D v \<le> snd x" using later 2(7) new by auto
      have "\<not> ms \<le> st'" using st' by simp
      from 2(3) [OF more new False loop refl this, unfolded wrap, OF rest 2(5) queue early closed]
      show ?thesis by (rule lift)
    qed
  qed
qed

lemma propagate_loop_steps:
  "st \<le> ms \<Longrightarrow> pg_steps (propagate_loop hex w md ms wl V st tn) \<le> ms"
proof (induction hex w md ms wl V st tn rule: propagate_loop.induct)
  case (2 hex w md ms s d wl V st tn)
  show ?case
  proof (cases "constraint_loop hex w ms d 0 st tn (prefix_iter (trie w) (constraint_prefix_for_symbol s))")
    case (Inl r)
    then show ?thesis
      using 2(1,2,4) constraint_loop_steps [of st ms hex w d 0 tn "prefix_iter (trie w) (constraint_prefix_for_symbol s)"]
      unfolding propagate_loop.simps(2) by (auto simp: propagation_conflict_def split: prod.splits)
  next
    case (Inr r)
    then show ?thesis
      using 2 constraint_loop_steps [of st ms hex w d 0 tn "prefix_iter (trie w) (constraint_prefix_for_symbol s)"]
      unfolding propagate_loop.simps(2) by (auto simp: propagation_conflict_def split: prod.splits)
  qed
qed (simp add: propagate_loop.simps)

lemma propagation_covers_mesh:
  assumes "pg_consistent (propagate_constraints hex active w md ms)" "md < U32_MAX"
    "mesh_at (trie w) active n s" "n \<le> md"
  shows "symbol_sound hex w s"
proof -
  obtain D V where start: "\<forall>(s, d) \<in> set (map (\<lambda>s. (s, 0)) active). s \<in> V \<and> D s \<le> d"
    and closed: "mesh_closed hex w md D V {}"
    using propagate_loop_closed [of hex w md ms "map (\<lambda>s. (s, 0)) active" "{}" 0 0 "\<lambda>_. 0"] assms(1,2)
    by (auto simp: propagate_constraints_def queue_ok_def mesh_closed_def comp_def map_replicate_const)
  have "n \<le> md \<Longrightarrow> s \<in> V \<and> D s \<le> n"
    using assms(3)
  proof induction
    case (child n s c)
    then have "s \<in> V" "D s \<le> n" "D s \<le> md" by auto
    then have "c \<in> V \<and> D c \<le> D s + 1" using closed child.hyps(2) unfolding mesh_closed_def by blast
    then show ?case using \<open>D s \<le> n\<close> by auto
  qed (use start in auto)
  then show ?thesis using assms(4) closed unfolding mesh_closed_def by (meson le_trans)
qed

lemma activate_loop_keeps: "set symbols \<subseteq> set (activate_loop t cap symbols path)"
proof (induction t cap symbols path rule: activate_loop.induct)
  case (1 t cap symbols path)
  then show ?case by (subst activate_loop.simps) (auto split: option.splits)
qed

lemma target_active: "target \<in> set (activate_symbols target w)"
  using activate_loop_keeps [of "[target]"] by (simp add: activate_symbols_def)

lemma scce_validE:
  assumes "scce_valid (scce_validate hex tx w weights md ms)"
  obtains used where "used \<le> ms"
    "pg_consistent (propagate_constraints hex (activate_symbols (ti_target (tx_intent tx)) w) w md (ms - used))"
    "check_grounding (ti_target (tx_intent tx)) w (ti_kind (tx_intent tx))" "evaluate_governance_value tx"
    "scce_steps_used (scce_validate hex tx w weights md ms) = u64_wrapping_add
       (used + pg_steps (propagate_constraints hex (activate_symbols (ti_target (tx_intent tx)) w) w md (ms - used))) 2"
  by (rule that [of "u64_saturating_add 1 (select_relevant_subgraph (activate_symbols (ti_target (tx_intent tx)) w) w weights)"])
    (use assms in \<open>simp_all add: scce_validate_def scce_valid_def Let_def split: if_splits\<close>)

section \<open>Contract execution\<close>

lemma check_laws_ok:
  "check_laws hex w lvl ms ph failed ls st = Inr st' \<Longrightarrow>
     (\<forall>l \<in> set ls. evaluate hex (parse_constraint_expression (expression l)) w lvl) \<and> st' \<le> st + length ls \<and>
     (ls \<noteq> [] \<longrightarrow> st' \<le> ms)"
proof (induction hex w lvl ms ph failed ls st rule: check_laws.induct)
  case (2 hex w lvl ms ph failed law ls st)
  have "u64_saturating_add st 1 \<le> st + 1" by (simp add: u64_saturating_add_def)
  moreover have "u64_saturating_add st 1 \<le> ms" "evaluate hex (parse_constraint_expression (expression law)) w lvl"
    "check_laws hex w lvl ms ph failed ls (u64_saturating_add st 1) = Inr st'"
    using 2(2) by (auto simp: Let_def split: if_splits)
  ultimately show ?case using 2(1) [OF refl] by (cases ls) auto
qed simp

lemma check_laws_rejects:
  "check_laws hex w lvl ms ph failed ls st = Inl r \<Longrightarrow>
     (\<exists>l \<in> set ls. cx_verdict r = Inl (failed (tc_id l)) \<and> \<not> evaluate hex (parse_constraint_expression (expression l)) w lvl
        \<or> cx_verdict r = Inl (CrStepLimit ms ph)) \<and> cx_state_delta r = empty_delta \<and> cx_steps_used r \<le> max st ms + 1"
proof (induction hex w lvl ms ph failed ls st rule: check_laws.induct)
  case (2 hex w lvl ms ph failed law ls st)
  have one: "u64_saturating_add st 1 \<le> st + 1" by (simp add: u64_saturating_add_def)
  show ?case
  proof (cases "u64_saturating_add st 1 \<le> ms \<and> evaluate hex (parse_constraint_expression (expression law)) w lvl")
    case True
    then show ?thesis using 2(1) [OF refl] 2(2) by (auto simp: Let_def)
  next
    case False
    then show ?thesis using 2(2) one by (auto simp: Let_def reject_step_limit_def reject_with_def split: if_splits)
  qed
qed simp

lemma contract_payload_ok:
  "contract_payload hex c w p ms st = Inr (delta, st') \<Longrightarrow> st' \<le> st + 1 \<and> deletes delta = [] \<and>
     map address (writes delta) = (case p of PInvokeContract _ meth _ \<Rightarrow> [''contract/'' @ hex (scc_contract_id c) @ ''/result/'' @ meth]
        | PWrite k _ \<Rightarrow> [k] | _ \<Rightarrow> [])"
  by (auto simp: contract_payload_def Let_def u64_saturating_add_def split: operation_payload.splits if_splits)

lemma contract_payload_rejects:
  "contract_payload hex c w p ms st = Inl r \<Longrightarrow> is_ok (cx_verdict r) = False \<and> (\<forall>h. cx_verdict r \<noteq> Inl (CrPostconditionFailed h)) \<and>
     cx_state_delta r = empty_delta \<and> cx_steps_used r \<le> st + 1"
  by (auto simp: contract_payload_def Let_def reject_step_limit_def reject_with_def u64_saturating_add_def is_ok_def
      split: operation_payload.splits if_splits)

section \<open>Properties\<close>

text \<open>
  Samples: a world with one stored constraint on the symbol \<open>data/x\<close>, and one in which the limit on
  constraints per symbol is one and two constraints are stored.
\<close>

definition constrained_world :: "bytes \<Rightarrow> managed_world_state" where
  "constrained_world v =
     world_new\<lparr>trie := trie_insert (trie world_new) (constraint_prefix_for_symbol ''data/x'' @ ''a'') v\<rparr>"

definition no_weights :: constraint_weights where
  "no_weights = \<lparr>attention_threshold = 0, propagation_decay = 0\<rparr>"

definition crowded_world :: managed_world_state where
  "crowded_world =
     \<lparr>state = world_state_default,
      trie = trie_insert (trie_insert trie_new (constraint_prefix_for_symbol ''data/x'' @ ''a'') ''true'')
               (constraint_prefix_for_symbol ''data/x'' @ ''b'') ''false'',
      agent_nonces = [], consensus_params = consensus_params_default\<lparr>max_constraints_per_symbol := 1\<rparr>\<rparr>"

lemma parse_samples:
  "parse_constraint_expression ''true'' = PredTrue" "parse_constraint_expression ''false'' = PredFalse"
  "valid_utf8 ''true''" "valid_utf8 ''false''" "parent_path ''data/x'' = Some ''data''" "parent_path ''data'' = None"
  by code_simp+

lemma sample_stores:
  "store (trie (constrained_world v)) = [(''constraints/data/x'' @ [CHR 0x00] @ ''a'', v)]"
  "store (trie crowded_world) = [(''constraints/data/x'' @ [CHR 0x00] @ ''a'', ''true''),
     (''constraints/data/x'' @ [CHR 0x00] @ ''b'', ''false'')]"
  by (simp_all add: constrained_world_def crowded_world_def constraint_prefix_for_symbol_def CONSTRAINT_PREFIX_def
      world_new_def trie_new_def)

lemma sample_limits:
  "max_activated_symbols (consensus_params (constrained_world v)) = 16"
  "max_activated_symbols (consensus_params crowded_world) = 16"
  "max_constraints_per_symbol (consensus_params (constrained_world v)) = 64"
  "max_constraints_per_symbol (consensus_params crowded_world) = 1"
  by (simp_all add: constrained_world_def crowded_world_def world_new_def consensus_params_default_def)

lemma sample_active:
  assumes "w = constrained_world v \<or> w = crowded_world"
  shows "activate_symbols ''data/x'' w = [''data/x'']" "select_relevant_subgraph [''data/x''] w no_weights = 0"
    "child_symbols (trie w) ''data/x'' = []"
proof -
  have "max_activated_symbols (consensus_params w) = 16" using assms by (auto simp: sample_limits)
  moreover have "\<not> trie_contains (trie w) ''data''" using assms by (auto simp: sample_stores trie_contains_def)
  ultimately show "activate_symbols ''data/x'' w = [''data/x'']"
    unfolding activate_symbols_def
    by (simp add: activate_loop.simps [of _ _ _ "''data/x''"] activate_loop.simps [of _ _ _ "''data''"] parse_samples)
  show "select_relevant_subgraph [''data/x''] w no_weights = 0"
    using assms by (auto simp: select_relevant_subgraph_def prefix_iter_def sample_stores starts_with_def)
  show "child_symbols (trie w) ''data/x'' = []"
    using assms by (auto simp: child_symbols_def prefix_iter_def sample_stores starts_with_def Let_def)
qed

lemma sample_constraints:
  "prefix_iter (trie (constrained_world v)) (constraint_prefix_for_symbol ''data/x'') =
     [(''constraints/data/x'' @ [CHR 0x00] @ ''a'', v)]"
  "prefix_iter (trie crowded_world) (constraint_prefix_for_symbol ''data/x'') =
     [(''constraints/data/x'' @ [CHR 0x00] @ ''a'', ''true''), (''constraints/data/x'' @ [CHR 0x00] @ ''b'', ''false'')]"
  by (simp_all add: prefix_iter_def sample_stores starts_with_def constraint_prefix_for_symbol_def CONSTRAINT_PREFIX_def)

lemma sample_accepted:
  assumes "w = constrained_world ''true'' \<or> w = crowded_world"
  shows "scce_valid (scce_validate hex (sample_write KStateWrite ''data/x'') w no_weights 8 100)"
proof -
  have "\<exists>tn. constraint_loop hex w 99 0 0 0 0 (prefix_iter (trie w) (constraint_prefix_for_symbol ''data/x'')) =
      Inr (length (prefix_iter (trie w) (constraint_prefix_for_symbol ''data/x'')), tn)"
    using assms by (elim disjE) (simp_all add: sample_constraints sample_limits parse_samples u64_saturating_add_def U64_MAX_def)
  then obtain tn where loop: "constraint_loop hex w 99 0 0 0 0 (prefix_iter (trie w) (constraint_prefix_for_symbol ''data/x'')) =
      Inr (length (prefix_iter (trie w) (constraint_prefix_for_symbol ''data/x'')), tn)" by blast
  have "length (prefix_iter (trie w) (constraint_prefix_for_symbol ''data/x'')) < 99"
    using assms by (auto simp: sample_constraints)
  moreover note active = sample_active [OF assms]
  ultimately have "pg_consistent (propagate_constraints hex [''data/x''] w 8 99)"
    by (simp add: propagate_constraints_def propagate_loop.simps loop)
  then show ?thesis
    by (simp add: scce_validate_def scce_valid_def active Let_def u64_saturating_add_def
      U64_MAX_def sample_write_def check_grounding_def evaluate_governance_value_def sample_actor_def)
qed

text \<open>
  C23. A transition that the constraint engine accepts respects the constraint mesh: every symbol within
  the propagation depth of the target or of one of its activated ancestors has all the constraints
  the walker looks at satisfied in the current state, the target itself is among the activated
  symbols, a read targets an existing entry, governance kinds need the authority level \<open>Meaning\<close>,
  and the work done stays within two steps of the budget.
\<close>

theorem scce_validate_sound:
  assumes "scce_valid (scce_validate hex tx w weights md ms)" "md < U32_MAX" "ms + 2 \<le> U64_MAX"
    "mesh_at (trie w) (activate_symbols (ti_target (tx_intent tx)) w) n s" "n \<le> md"
  shows "symbol_sound hex w s \<and>
    ti_target (tx_intent tx) \<in> set (activate_symbols (ti_target (tx_intent tx)) w) \<and>
    (ti_kind (tx_intent tx) = KStateRead \<longrightarrow> trie_contains (trie w) (ti_target (tx_intent tx))) \<and>
    (ti_kind (tx_intent tx) \<in> {KGovernanceUpdate, KNormProposal} \<longrightarrow> ag_governance_level (actor tx) \<le> Meaning) \<and>
    scce_steps_used (scce_validate hex tx w weights md ms) \<le> ms + 2"
proof -
  obtain used where used: "used \<le> ms" and
    pg: "pg_consistent (propagate_constraints hex (activate_symbols (ti_target (tx_intent tx)) w) w md (ms - used))" and
    ground: "check_grounding (ti_target (tx_intent tx)) w (ti_kind (tx_intent tx))" and
    gov: "evaluate_governance_value tx" and
    steps: "scce_steps_used (scce_validate hex tx w weights md ms) = u64_wrapping_add
       (used + pg_steps (propagate_constraints hex (activate_symbols (ti_target (tx_intent tx)) w) w md (ms - used))) 2"
    using assms(1) by (rule scce_validE)
  have "pg_steps (propagate_constraints hex (activate_symbols (ti_target (tx_intent tx)) w) w md (ms - used)) \<le> ms - used"
    unfolding propagate_constraints_def by (rule propagate_loop_steps) simp
  then have "scce_steps_used (scce_validate hex tx w weights md ms) \<le> ms + 2"
    using steps used assms(3) by (simp add: u64_wrapping_add_def U64_MAX_def)
  moreover have "ti_kind (tx_intent tx) \<in> {KGovernanceUpdate, KNormProposal} \<longrightarrow> ag_governance_level (actor tx) \<le> Meaning"
    using gov by (auto simp: evaluate_governance_value_def less_eq_precedence_level_def)
  ultimately show ?thesis
    using propagation_covers_mesh [OF pg assms(2,4,5)] target_active ground by (auto simp: check_grounding_def)
qed

theorem scce_validate_witness:
  "scce_valid (scce_validate (\<lambda>_. []) (sample_write KStateWrite ''data/x'') (constrained_world ''true'') no_weights 8 100) \<and>
   symbol_sound (\<lambda>_. []) (constrained_world ''true'') ''data/x''"
proof -
  let ?tx = "sample_write KStateWrite ''data/x''" and ?w = "constrained_world ''true''"
  have valid: "scce_valid (scce_validate (\<lambda>_. []) ?tx ?w no_weights 8 100)"
    by (rule sample_accepted) simp
  have target: "ti_target (tx_intent ?tx) = ''data/x''" by (simp add: sample_write_def)
  have "mesh_at (trie ?w) (activate_symbols (ti_target (tx_intent ?tx)) ?w) 0 ''data/x''"
    unfolding target by (rule mesh_at.start [OF target_active])
  from scce_validate_sound [OF valid _ _ this] show ?thesis
    using valid by (simp add: U32_MAX_def U64_MAX_def)
qed

text \<open>
  Contract execution is bounded and checks its laws: it never uses more than two steps over the limit,
  a rejected execution changes nothing, and an accepted one was authorised, satisfied every law of the
  contract in the state before the call, and writes exactly the result entry of the called method (or
  the written key), deleting nothing.
\<close>

theorem contract_execution_sound:
  shows "cx_steps_used (execute_contract hex c tx w ms) \<le> ms + 2 \<and>
    (case cx_verdict (execute_contract hex c tx w ms) of
       Inl _ \<Rightarrow> cx_state_delta (execute_contract hex c tx w ms) = empty_delta
     | Inr _ \<Rightarrow>
         ag_governance_level (actor tx) \<le> scc_governance_level c \<and>
         (\<forall>l \<in> set (laws c). evaluate hex (parse_constraint_expression (expression l)) w
            (precedence_rank (ag_governance_level (actor tx)))) \<and>
         deletes (cx_state_delta (execute_contract hex c tx w ms)) = [] \<and>
         map address (writes (cx_state_delta (execute_contract hex c tx w ms))) =
           (case payload tx of
              PInvokeContract _ meth _ \<Rightarrow> [''contract/'' @ hex (scc_contract_id c) @ ''/result/'' @ meth]
            | PWrite k _ \<Rightarrow> [k]
            | _ \<Rightarrow> []))"
proof (cases "precedence_rank (scc_governance_level c) < precedence_rank (ag_governance_level (actor tx))")
  case True
  then show ?thesis by (simp add: execute_contract_def Let_def reject_with_def)
next
  case authorised: False
  let ?lvl = "precedence_rank (ag_governance_level (actor tx))"
  show ?thesis
  proof (cases "check_laws hex w ?lvl ms PreconditionCheck CrPreconditionFailed (laws c) 0")
    case (Inl r)
    then show ?thesis using authorised check_laws_rejects [OF Inl] by (auto simp: execute_contract_def Let_def)
  next
    case pre: (Inr st1)
    show ?thesis
    proof (cases "contract_payload hex c w (payload tx) ms st1")
      case (Inl r)
      then show ?thesis
        using authorised pre contract_payload_rejects [OF Inl] check_laws_ok [OF pre]
        by (cases "laws c") (auto simp: execute_contract_def Let_def is_ok_def split: sum.splits)
    next
      case (Inr q)
      then obtain delta st2 where run: "contract_payload hex c w (payload tx) ms st1 = Inr (delta, st2)" by (cases q) auto
      have small: "st1 \<le> ms" "st2 \<le> ms + 1"
        using check_laws_ok [OF pre] contract_payload_ok [OF run] by (cases "laws c"; auto)+
      show ?thesis
      proof (cases "check_laws hex w ?lvl ms PostconditionCheck CrPostconditionFailed (laws c) st2")
        case (Inl r)
        then show ?thesis
          using authorised pre run small check_laws_rejects [OF Inl] by (auto simp: execute_contract_def Let_def)
      next
        case (Inr st3)
        have "st3 \<le> ms + 1" using check_laws_ok [OF Inr] small by (cases "laws c") auto
        then show ?thesis
          using authorised pre run Inr check_laws_ok [OF pre] contract_payload_ok [OF run]
          by (simp add: execute_contract_def Let_def less_eq_precedence_level_def)
      qed
    qed
  qed
qed

text \<open>
  The postconditions of a contract are vacuous: they are evaluated on the state before the call, on
  which the preconditions were just found true, so no execution is ever rejected for a violated
  postcondition.
\<close>

theorem postconditions_vacuous:
  "cx_verdict (execute_contract hex c tx w ms) \<noteq> Inl (CrPostconditionFailed h)"
  by (auto simp: execute_contract_def Let_def reject_with_def split: sum.splits prod.splits
      dest!: check_laws_ok check_laws_rejects contract_payload_rejects)

text \<open>
  Constraints past the limit are skipped silently: with a limit of one and the constraints \<open>true\<close> and
  \<open>false\<close> stored for the target, the transition is accepted although the second is unsatisfiable.
\<close>

theorem excess_constraints_skipped:
  "scce_valid (scce_validate (\<lambda>_. []) (sample_write KStateWrite ''data/x'') crowded_world no_weights 8 100) \<and>
   map snd (prefix_iter (trie crowded_world) (constraint_prefix_for_symbol ''data/x'')) = [''true'', ''false''] \<and>
   \<not> constraint_holds (\<lambda>_. []) crowded_world ''false''"
  using sample_accepted [of crowded_world] by (simp add: sample_constraints constraint_holds_def parse_samples)

text \<open>
  A stored constraint that demands a governance level locks its symbol for everybody: the walker
  evaluates it for the level 255 instead of the actor's, so a demand for any level below 255 among the
  checked constraints of a reachable symbol rejects every transition.
\<close>

theorem governance_constraint_locks:
  assumes "mesh_at (trie w) (activate_symbols (ti_target (tx_intent tx)) w) n s" "n \<le> md" "md < U32_MAX"
    "v \<in> snd ` set (checked_constraints w s)" "parse_constraint_expression v = PredMinGovernanceLevel l" "l < 255"
  shows "\<not> scce_valid (scce_validate hex tx w weights md ms)"
proof
  assume valid: "scce_valid (scce_validate hex tx w weights md ms)"
  then obtain used where "pg_consistent (propagate_constraints hex
      (activate_symbols (ti_target (tx_intent tx)) w) w md (ms - used))"
    by (rule scce_validE)
  from propagation_covers_mesh [OF this assms(3,1,2)] show False
    using assms(4-6) by (auto simp: symbol_sound_def constraint_holds_def)
qed

theorem governance_constraint_witness:
  "\<not> scce_valid (scce_validate (\<lambda>_. []) (sample_write KStateWrite ''data/x'')
     (constrained_world ''governance:2'') no_weights 8 100)"
proof (rule governance_constraint_locks)
  let ?tx = "sample_write KStateWrite ''data/x''" and ?w = "constrained_world ''governance:2''"
  have target: "ti_target (tx_intent ?tx) = ''data/x''" by (simp add: sample_write_def)
  show "mesh_at (trie ?w) (activate_symbols (ti_target (tx_intent ?tx)) ?w) 0 ''data/x''"
    unfolding target by (rule mesh_at.start [OF target_active])
  show "''governance:2'' \<in> snd ` set (checked_constraints ?w ''data/x'')"
    by (simp add: checked_constraints_def sample_constraints sample_limits)
  show "parse_constraint_expression ''governance:2'' = PredMinGovernanceLevel 2" by code_simp
qed (simp_all add: U32_MAX_def)

end
