(* ===== verification/Scc_Block.thy ===== *)
theory Scc_Block
  imports Scc_Apply Scc_Admission Scc_Fees Scc_Key_Rotation Scc_Constraints Scc_Gas
begin

text \<open>
  Blocks: header, body, causal proof and governance snapshot (\<open>types/block.rs\<close>, \<open>types/proof.rs\<close>,
  the snapshot part of \<open>types/governance.rs\<close>), structural validity, the decoding of headers with the
  fallback to the older schema, and the check that a block's version follows the upgrade history
  (\<open>execution/chain_version_check.rs\<close>). The code outside the sources that block processing calls
  (BLAKE3, hex, Ed25519 and the canonical encodings) is gathered in the record \<open>ext\<close>, an argument of
  every definition that uses it.
\<close>

section \<open>Governance snapshot\<close>

record governance_limits_snapshot =
  gls_max_actions_per_agent_pct :: nat
  gls_safety_change_min_signers :: nat
  gls_genesis_change_min_signers :: nat
  gls_max_consecutive_proposals :: nat
  gls_max_authority_term_epochs :: nat
  gls_authority_cooldown_epochs :: nat

definition governance_limits_snapshot_default :: governance_limits_snapshot where
  "governance_limits_snapshot_default =
     \<lparr>gls_max_actions_per_agent_pct = 33, gls_safety_change_min_signers = 3, gls_genesis_change_min_signers = 5,
      gls_max_consecutive_proposals = 3, gls_max_authority_term_epochs = 100, gls_authority_cooldown_epochs = 10\<rparr>"

record finality_config_snapshot =
  fcs_confirmation_depth :: nat
  fcs_max_finality_ms :: nat
  fcs_target_block_time_ms :: nat

definition finality_config_snapshot_default :: finality_config_snapshot where
  "finality_config_snapshot_default =
     \<lparr>fcs_confirmation_depth = 2, fcs_max_finality_ms = 6000, fcs_target_block_time_ms = 2000\<rparr>"

record governance_snapshot =
  gs_state_hash :: hash
  gs_active_norm_count :: nat
  gs_emergency_mode :: bool
  gs_finality_mode :: finality_mode
  gs_governance_limits :: governance_limits_snapshot
  gs_finality_config :: finality_config_snapshot

section \<open>External functions\<close>

record ext =
  ex_blake3 :: "bytes \<Rightarrow> hash"
  ex_hex :: hex_encode
  ex_hexdec :: "bytes \<Rightarrow> bytes option"
  ex_verify :: sig_verify
  ex_vs :: vs_codec
  ex_kr :: kr_codec
  ex_change_canon :: change_canon
  ex_ev_canon :: ev_canon
  ex_ceilings :: ceilings_decoders
  ex_tension_history :: "bytes \<Rightarrow> tension_value list option"
  ex_seal_bytes :: "mfidel_atomic_seal \<Rightarrow> bytes"
  ex_receipt_bytes :: "causal_receipt \<Rightarrow> bytes"
  ex_edge_bytes :: "causal_edge \<Rightarrow> bytes"
  ex_governance_bytes :: "governance_snapshot \<Rightarrow> bytes"
  ex_payload_bytes :: "operation_payload \<Rightarrow> bytes"
  ex_constraints_bytes :: "tx_constraint list \<Rightarrow> bytes"
  ex_wh_bytes :: "wh_binding_intent \<Rightarrow> bytes"
  ex_chain_bytes :: "hash list \<Rightarrow> bytes"
  ex_tx_bytes :: "agent_id \<times> nat \<times> symbol_address \<times> nat \<times> hash \<times> hash \<times> hash \<times> hash \<times> hash \<Rightarrow> bytes"

section \<open>Causal proofs\<close>

datatype phi_phase =
    Distinction | Constraint | Ontology | Topology | Form | Organization | Module
  | Execution | Body | Architecture | Performance | Feedback | Evolution

definition phi_all :: "phi_phase list" where
  "phi_all = [Distinction, Constraint, Ontology, Topology, Form, Organization, Module,
     Execution, Body, Architecture, Performance, Feedback, Evolution]"

definition is_block_only :: "phi_phase \<Rightarrow> bool" where
  "is_block_only p \<longleftrightarrow> p \<in> {Topology, Body, Architecture, Performance}"

definition is_per_tx :: "phi_phase \<Rightarrow> bool" where
  "is_per_tx p \<longleftrightarrow> \<not> is_block_only p"

text \<open>The texts that explain a phase result are not modelled.\<close>

record phi_phase_result =
  pp_phase :: phi_phase
  pp_passed :: bool

record phi_traversal_log =
  phases_completed :: "phi_phase_result list"
  all_phases_passed :: bool
  total_phases :: nat

definition phi_log_new :: phi_traversal_log where
  "phi_log_new = \<lparr>phases_completed = [], all_phases_passed = False, total_phases = 13\<rparr>"

definition is_all_passed :: "phi_traversal_log \<Rightarrow> bool" where
  "is_all_passed l \<longleftrightarrow> total_phases l \<le> length (phases_completed l) \<and> list_all pp_passed (phases_completed l)"

definition phi_finalize :: "phi_traversal_log \<Rightarrow> phi_traversal_log" where
  "phi_finalize l = l\<lparr>all_phases_passed := is_all_passed l\<rparr>"

record transition_proof =
  tp_transition_id :: hash
  tp_wh_binding :: wh_binding_resolved
  tp_precondition_results :: "(hash \<times> bool) list"
  tp_postcondition_results :: "(hash \<times> bool) list"
  tp_causal_ancestors :: "hash list"
  tp_state_delta_hash :: hash
  tp_governance_auth_level :: nat
  tp_tension_contribution :: tension_value

record causal_proof =
  cp_block_height :: nat
  cp_transitions_proven :: "transition_proof list"
  cp_phi_traversal_log :: phi_traversal_log
  cp_governance_snapshot_hash :: hash
  cp_tension_before :: tension_value
  cp_tension_after :: tension_value
  cp_constraint_results :: "(hash \<times> bool) list"
  cp_recursion_depth :: nat
  cp_validator_signature :: bytes
  cp_causal_hash :: hash

section \<open>Blocks\<close>

definition CANONICAL_AGENT_BLOCK_VERSION :: nat where "CANONICAL_AGENT_BLOCK_VERSION = 2"
definition PATCH_04_BLOCK_VERSION :: nat where "PATCH_04_BLOCK_VERSION = 3"
definition PATCH_05_BLOCK_VERSION :: nat where "PATCH_05_BLOCK_VERSION = 4"
definition CURRENT_BLOCK_VERSION :: nat where "CURRENT_BLOCK_VERSION = CANONICAL_AGENT_BLOCK_VERSION"

definition is_supported_block_version :: "nat \<Rightarrow> bool" where
  "is_supported_block_version v \<longleftrightarrow> v \<in> {LEGACY_BLOCK_VERSION, CANONICAL_AGENT_BLOCK_VERSION,
     PATCH_04_BLOCK_VERSION, PATCH_05_BLOCK_VERSION}"

record block_header =
  bh_chain_id :: hash
  bh_block_id :: hash
  bh_parent_id :: hash
  bh_height :: nat
  bh_timestamp :: causal_timestamp
  bh_state_root :: hash
  bh_transition_root :: hash
  bh_receipt_root :: hash
  bh_causal_root :: hash
  bh_proof_root :: hash
  bh_governance_hash :: hash
  bh_tension_before :: tension_value
  bh_tension_after :: tension_value
  bh_mfidel_seal :: mfidel_atomic_seal
  bh_balance_root :: hash
  bh_validator_id :: hash
  bh_version :: nat
  bh_round_history_root :: hash

record block_body =
  transitions :: "symbolic_transition list"
  transition_count :: nat
  total_tension_delta :: tension_value
  body_constraint_satisfaction :: "(hash \<times> bool) list"
  genesis_consensus_params :: "bytes option"
  validator_set_changes :: "validator_set_change list option"
  body_equivocation_evidence :: "vote_equivocation list option"

record block =
  header :: block_header
  body :: block_body
  receipts :: "causal_receipt list"
  causal_delta :: causal_graph_delta
  causal_proof_of :: causal_proof
  governance :: governance_snapshot

definition is_structurally_valid :: "block \<Rightarrow> bool" where
  "is_structurally_valid b =
     (let h = header b
      in if bh_height h = 0 \<and> bh_parent_id h \<noteq> ZERO_HASH then False
         else if bh_height h > 0 \<and> bh_parent_id h = ZERO_HASH then False
         else if bh_mfidel_seal h \<noteq> seal_from_height (bh_height h) then False
         else if \<not> (length (transitions (body b)) \<le> U32_MAX \<and> length (transitions (body b)) = transition_count (body b))
         then False
         else if bh_height h > 0 \<and> genesis_consensus_params (body b) \<noteq> None then False
         else if receipts b \<noteq> [] \<and> length (receipts b) \<noteq> length (transitions (body b)) then False
         else if \<not> is_supported_block_version (bh_version h) then False
         else True)"

record legacy_block_header_v2 =
  lh_chain_id :: hash
  lh_block_id :: hash
  lh_parent_id :: hash
  lh_height :: nat
  lh_timestamp :: causal_timestamp
  lh_state_root :: hash
  lh_transition_root :: hash
  lh_receipt_root :: hash
  lh_causal_root :: hash
  lh_proof_root :: hash
  lh_governance_hash :: hash
  lh_tension_before :: tension_value
  lh_tension_after :: tension_value
  lh_mfidel_seal :: mfidel_atomic_seal
  lh_balance_root :: hash
  lh_validator_id :: hash
  lh_version :: nat

definition header_from_legacy :: "legacy_block_header_v2 \<Rightarrow> block_header" where
  "header_from_legacy v =
     \<lparr>bh_chain_id = lh_chain_id v, bh_block_id = lh_block_id v, bh_parent_id = lh_parent_id v,
      bh_height = lh_height v, bh_timestamp = lh_timestamp v, bh_state_root = lh_state_root v,
      bh_transition_root = lh_transition_root v, bh_receipt_root = lh_receipt_root v,
      bh_causal_root = lh_causal_root v, bh_proof_root = lh_proof_root v,
      bh_governance_hash = lh_governance_hash v, bh_tension_before = lh_tension_before v,
      bh_tension_after = lh_tension_after v, bh_mfidel_seal = lh_mfidel_seal v,
      bh_balance_root = lh_balance_root v, bh_validator_id = lh_validator_id v,
      bh_version = lh_version v, bh_round_history_root = ZERO_HASH\<rparr>"

definition header_from_canonical_bytes ::
  "(bytes \<Rightarrow> block_header option) \<Rightarrow> (bytes \<Rightarrow> legacy_block_header_v2 option) \<Rightarrow> bytes \<Rightarrow> string + block_header" where
  "header_from_canonical_bytes dec legacy bs =
     (case dec bs of
        Some h \<Rightarrow> Inr h
      | None \<Rightarrow> (case legacy bs of Some v \<Rightarrow> Inr (header_from_legacy v) | None \<Rightarrow> Inl ''BlockHeader deserialize''))"

section \<open>Version alignment\<close>

datatype chain_version_check =
    VersionAligned
  | VersionMisaligned (cv_block_height: nat) (cv_block_version: nat) (cv_active_version: nat) (cv_activation_height: nat)

fun active_version_loop :: "nat \<Rightarrow> nat \<Rightarrow> nat \<Rightarrow> chain_version_transition list \<Rightarrow> nat \<times> nat" where
  "active_version_loop h active eff [] = (active, eff)"
| "active_version_loop h active eff (t # ts) =
     (if cvt_activation_height t \<le> h then active_version_loop h (to_version t) (cvt_activation_height t) ts
      else (active, eff))"

definition verify_block_version_alignment ::
  "nat \<Rightarrow> nat \<Rightarrow> nat \<Rightarrow> chain_version_transition list \<Rightarrow> chain_version_check" where
  "verify_block_version_alignment h ver genesis ts =
     (case active_version_loop h genesis 0 ts of
        (active, eff) \<Rightarrow> if active = ver then VersionAligned else VersionMisaligned h ver active eff)"

section \<open>Lemmas\<close>

lemma active_version_loop_last:
  assumes "sorted (map cvt_activation_height ts)"
  shows "fst (active_version_loop h active eff ts) =
    (case filter (\<lambda>t. cvt_activation_height t \<le> h) ts of [] \<Rightarrow> active | xs \<Rightarrow> to_version (last xs))"
  using assms
proof (induction h active eff ts rule: active_version_loop.induct)
  case (2 h active eff t ts)
  show ?case
  proof (cases "cvt_activation_height t \<le> h")
    case True
    then show ?thesis using 2 by (auto split: list.splits)
  next
    case False
    then have "filter (\<lambda>t. cvt_activation_height t \<le> h) ts = []" using 2(2) by (auto simp: filter_empty_conv)
    then show ?thesis using False by simp
  qed
qed simp

lemma supported_version_iff: "is_supported_block_version v \<longleftrightarrow> 1 \<le> v \<and> v \<le> 4"
  by (auto simp: is_supported_block_version_def LEGACY_BLOCK_VERSION_def
      CANONICAL_AGENT_BLOCK_VERSION_def PATCH_04_BLOCK_VERSION_def PATCH_05_BLOCK_VERSION_def)

lemma structurally_valid_iff:
  "is_structurally_valid b \<longleftrightarrow>
     (bh_height (header b) = 0 \<longleftrightarrow> bh_parent_id (header b) = ZERO_HASH) \<and>
     bh_mfidel_seal (header b) = seal_from_height (bh_height (header b)) \<and>
     transition_count (body b) = length (transitions (body b)) \<and> length (transitions (body b)) \<le> U32_MAX \<and>
     (0 < bh_height (header b) \<longrightarrow> genesis_consensus_params (body b) = None) \<and>
     (receipts b = [] \<or> length (receipts b) = length (transitions (body b))) \<and>
     is_supported_block_version (bh_version (header b))"
  unfolding is_structurally_valid_def Let_def by (cases "bh_height (header b) = 0") (simp_all, metis+)

text \<open>
  Upgrades take effect exactly at their activation height: for a history sorted by activation height,
  the version accepted at a height is the target of the last transition activated at or before that
  height, or the genesis version when there is none.
\<close>

theorem version_follows_history:
  assumes "sorted (map cvt_activation_height ts)"
  shows "verify_block_version_alignment h ver genesis ts = VersionAligned \<longleftrightarrow>
    ver = (case filter (\<lambda>t. cvt_activation_height t \<le> h) ts of [] \<Rightarrow> genesis | xs \<Rightarrow> to_version (last xs))"
  using active_version_loop_last [OF assms, of h genesis 0]
  by (auto simp: verify_block_version_alignment_def split: prod.splits)

theorem version_follows_history_witness:
  "verify_block_version_alignment 10 3 2
     [\<lparr>cvt_activation_height = 10, from_version = 2, to_version = 3, cvt_upgrade_spec_hash = 0, cvt_proposal_id = 0\<rparr>]
     = VersionAligned"
  using version_follows_history
    [of "[\<lparr>cvt_activation_height = 10, from_version = 2, to_version = 3, cvt_upgrade_spec_hash = 0, cvt_proposal_id = 0\<rparr>]" 10 3 2]
  by simp

end
