(* ===== verification/Scc_Phi.thy ===== *)
theory Scc_Phi
  imports Scc_Block
begin

text \<open>
  The thirteen-phase traversal of a block (\<open>execution/phi.rs\<close>) with the ceiling check of phase ten
  (\<open>execution/ceilings.rs\<close>). Phases that concern single transitions go through one shared checker,
  which panics on the other phases: a panic is \<open>None\<close>.
\<close>

section \<open>Ceilings\<close>

datatype ceiling_check =
    CcValid
  | CcNotV3
  | CcCeilingsMissing
  | CcViolation ceiling_violation
  | CcError string

definition ceiling_is_pass :: "ceiling_check \<Rightarrow> bool" where
  "ceiling_is_pass c \<longleftrightarrow> c \<in> {CcValid, CcNotV3}"

definition validate_ceilings_for_block :: "ext \<Rightarrow> managed_world_state \<Rightarrow> block_header \<Rightarrow> ceiling_check" where
  "validate_ceilings_for_block E w h =
     (if bh_version h < PATCH_04_BLOCK_VERSION then CcNotV3
      else case constitutional_ceilings_from_trie (ex_ceilings E) w of
             Inr (Some c) \<Rightarrow> (case ceilings_validate c (consensus_params w) of Inr _ \<Rightarrow> CcValid | Inl v \<Rightarrow> CcViolation v)
           | Inr None \<Rightarrow> CcCeilingsMissing
           | Inl e \<Rightarrow> CcError e)"

section \<open>Single transitions\<close>

definition constraint_weights_default :: constraint_weights where
  "constraint_weights_default = \<lparr>attention_threshold = 0, propagation_decay = 0\<rparr>"

definition phase_form_tx :: "symbolic_transition \<Rightarrow> managed_world_state \<Rightarrow> bool" where
  "phase_form_tx tx w =
     (if length (signature tx) < 64 then False
      else length (ti_target (tx_intent tx)) \<le> max_symbol_address_len (consensus_params w))"

definition phase_organization_tx :: "symbolic_transition \<Rightarrow> bool" where
  "phase_organization_tx tx =
     (if ti_kind (tx_intent tx) \<in> {KGovernanceUpdate, KNormProposal, KConstraintAddition}
      then precedence_rank (ag_governance_level (actor tx)) \<le> precedence_rank Meaning
      else True)"

definition phase_execution_tx :: "ext \<Rightarrow> symbolic_transition \<Rightarrow> managed_world_state \<Rightarrow> bool" where
  "phase_execution_tx E tx w =
     (case check_payload_consistency (ex_hex E) tx of
        Inl _ \<Rightarrow> False
      | Inr _ \<Rightarrow>
          if ti_target (tx_intent tx) = [] then False
          else if nonce tx = 0 then False
          else case check_tx_superseded_key (ex_kr E) tx w (height (state w)) of
                 SkOk \<Rightarrow> True
               | Superseded _ _ _ \<Rightarrow> False
               | SkStorageError _ \<Rightarrow> False)"

fun phi_check_single_tx ::
  "ext \<Rightarrow> phi_phase \<Rightarrow> symbolic_transition \<Rightarrow> managed_world_state \<Rightarrow> phi_phase_result option" where
  "phi_check_single_tx E Distinction tx w = Some \<lparr>pp_phase = Distinction, pp_passed = is_ok (check_transition_wh tx)\<rparr>"
| "phi_check_single_tx E Constraint tx w =
     Some \<lparr>pp_phase = Constraint, pp_passed = scce_valid (scce_validate (ex_hex E) tx w constraint_weights_default
        (max_constraint_propagation_depth (consensus_params w))
        (max_constraint_propagation_steps (consensus_params w)))\<rparr>"
| "phi_check_single_tx E Ontology tx w = Some \<lparr>pp_phase = Ontology, pp_passed = (check_ontology tx = OntologyAllowed)\<rparr>"
| "phi_check_single_tx E Form tx w = Some \<lparr>pp_phase = Form, pp_passed = phase_form_tx tx w\<rparr>"
| "phi_check_single_tx E Organization tx w = Some \<lparr>pp_phase = Organization, pp_passed = phase_organization_tx tx\<rparr>"
| "phi_check_single_tx E Module tx w = Some \<lparr>pp_phase = Module, pp_passed = True\<rparr>"
| "phi_check_single_tx E Execution tx w = Some \<lparr>pp_phase = Execution, pp_passed = phase_execution_tx E tx w\<rparr>"
| "phi_check_single_tx E Topology tx w = None"
| "phi_check_single_tx E Body tx w = None"
| "phi_check_single_tx E Architecture tx w = None"
| "phi_check_single_tx E Performance tx w = None"
| "phi_check_single_tx E Feedback tx w = None"
| "phi_check_single_tx E Evolution tx w = None"

definition is_per_tx_phase :: "phi_phase \<Rightarrow> bool" where
  "is_per_tx_phase p \<longleftrightarrow> p \<in> {Distinction, Constraint, Ontology, Form, Organization, Module, Execution}"

section \<open>Phases of a block\<close>

definition delta_graph :: "causal_graph_delta \<Rightarrow> causal_graph" where
  "delta_graph d = fold (\<lambda>e g. add_edge g e) (new_edges d) (fold (\<lambda>v g. add_vertex g v) (new_vertices d) causal_graph_default)"

definition phase_topology :: "block \<Rightarrow> bool" where
  "phase_topology b \<longleftrightarrow> new_edges (causal_delta b) = [] \<or> is_acyclic (delta_graph (causal_delta b))"

definition phase_body :: "block \<Rightarrow> managed_world_state \<Rightarrow> bool" where
  "phase_body b w \<longleftrightarrow>
     bh_tension_after (header b) \<le> tension_add (bh_tension_before (header b)) (current_budget (budget (ws_tension_field (state w))))"

definition phase_architecture :: "ext \<Rightarrow> block \<Rightarrow> managed_world_state \<Rightarrow> bool" where
  "phase_architecture E b w =
     (let txs = transitions (body b)
      in if bh_validator_id (header b) = ZERO_HASH then False
         else if \<not> is_supported_block_version (bh_version (header b)) then False
         else if \<not> ceiling_is_pass (validate_ceilings_for_block E w (header b)) then False
         else if \<not> (length txs \<le> U32_MAX \<and> length txs = transition_count (body b)) then False
         else if txs \<noteq> [] \<and> receipts b \<noteq> [] \<and> length (receipts b) \<noteq> length txs then False
         else True)"

definition phase_performance :: "ext \<Rightarrow> block \<Rightarrow> bool" where
  "phase_performance E b =
     (let h = header b
      in if bh_mfidel_seal h \<noteq> seal_from_height (bh_height h) then False
         else if bh_version h \<ge> PATCH_05_BLOCK_VERSION
         then list_all (\<lambda>tx. \<not> (ti_kind (tx_intent tx) = KAgentRegistration \<and>
                mfidel_seal (actor tx) \<noteq> seal_from_height_v4 (ex_blake3 E) (bh_height h) (bh_parent_id h)))
                (transitions (body b))
         else True)"

definition tension_swing :: "block \<Rightarrow> tension_value" where
  "tension_swing b =
     (if bh_tension_before (header b) \<le> bh_tension_after (header b)
      then tension_sub (bh_tension_after (header b)) (bh_tension_before (header b))
      else tension_sub (bh_tension_before (header b)) (bh_tension_after (header b)))"

definition phase_feedback :: "ext \<Rightarrow> block \<Rightarrow> managed_world_state \<Rightarrow> bool" where
  "phase_feedback E b w =
     (if tension_swing b > from_integer (max_tension_swing (consensus_params w)) then False
      else if \<not> list_all (\<lambda>r. is_accepted (rc_verdict r)) (receipts b) then False
      else is_ok (check_validator_events (ex_vs E) (ex_verify E) (ex_blake3 E) (ex_change_canon E) (ex_ev_canon E)
                    w (bh_height (header b)) (validator_set_changes (body b)) (body_equivocation_evidence (body b))))"

definition phase_evolution :: "block \<Rightarrow> bool" where
  "phase_evolution b =
     (if bh_height (header b) > 0 \<and> cp_block_height (causal_proof_of b) \<noteq> bh_height (header b) then False
      else list_all (\<lambda>e. case fst (endpoints e) of
               VTransition i \<Rightarrow> list_ex (\<lambda>t. tx_id t = i) (transitions (body b)) \<or> bh_height (header b) = 0
             | _ \<Rightarrow> True) (new_edges (causal_delta b)))"

fun per_tx_loop ::
  "ext \<Rightarrow> phi_phase \<Rightarrow> managed_world_state \<Rightarrow> symbolic_transition list \<Rightarrow> phi_phase_result option" where
  "per_tx_loop E p w [] = Some \<lparr>pp_phase = p, pp_passed = True\<rparr>"
| "per_tx_loop E p w (tx # txs) =
     (case phi_check_single_tx E p tx w of
        None \<Rightarrow> None
      | Some r \<Rightarrow> if \<not> pp_passed r then Some \<lparr>pp_phase = p, pp_passed = False\<rparr> else per_tx_loop E p w txs)"

definition execute_block_phase ::
  "ext \<Rightarrow> phi_phase \<Rightarrow> block \<Rightarrow> managed_world_state \<Rightarrow> phi_phase_result option" where
  "execute_block_phase E p b w =
     (if is_per_tx_phase p then per_tx_loop E p w (transitions (body b))
      else
        let result = (\<lambda>ok. Some \<lparr>pp_phase = p, pp_passed = ok\<rparr>)
        in case p of
             Topology \<Rightarrow> result (phase_topology b)
           | Body \<Rightarrow> result (phase_body b w)
           | Architecture \<Rightarrow> result (phase_architecture E b w)
           | Performance \<Rightarrow> result (phase_performance E b)
           | Feedback \<Rightarrow> result (phase_feedback E b w)
           | Evolution \<Rightarrow> result (phase_evolution b)
           | _ \<Rightarrow> None)"

fun phi_loop ::
  "ext \<Rightarrow> block \<Rightarrow> managed_world_state \<Rightarrow> phi_traversal_log \<Rightarrow> phi_phase list \<Rightarrow> phi_traversal_log option" where
  "phi_loop E b w log [] = Some (phi_finalize log)"
| "phi_loop E b w log (p # ps) =
     (case execute_block_phase E p b w of
        None \<Rightarrow> None
      | Some r \<Rightarrow>
          let log' = log\<lparr>phases_completed := phases_completed log @ [r]\<rparr>
          in if \<not> pp_passed r then Some (phi_finalize log') else phi_loop E b w log' ps)"

definition phi_traversal_block :: "ext \<Rightarrow> block \<Rightarrow> managed_world_state \<Rightarrow> phi_traversal_log option" where
  "phi_traversal_block E b w = phi_loop E b w phi_log_new phi_all"

section \<open>Lemmas\<close>

definition tx_passes :: "ext \<Rightarrow> phi_phase \<Rightarrow> managed_world_state \<Rightarrow> symbolic_transition \<Rightarrow> bool" where
  "tx_passes E p w tx \<longleftrightarrow> (case phi_check_single_tx E p tx w of Some r \<Rightarrow> pp_passed r | None \<Rightarrow> False)"

definition phase_passes :: "ext \<Rightarrow> block \<Rightarrow> managed_world_state \<Rightarrow> phi_phase \<Rightarrow> bool" where
  "phase_passes E b w p \<longleftrightarrow> (case execute_block_phase E p b w of Some r \<Rightarrow> pp_passed r | None \<Rightarrow> False)"

lemma phi_check_defined: "is_per_tx_phase p \<Longrightarrow> \<exists>r. phi_check_single_tx E p tx w = Some r"
  by (auto simp: is_per_tx_phase_def)

lemma per_tx_loop_result:
  assumes "is_per_tx_phase p"
  shows "per_tx_loop E p w txs = Some \<lparr>pp_phase = p, pp_passed = (\<forall>tx \<in> set txs. tx_passes E p w tx)\<rparr>"
proof (induction txs)
  case (Cons tx txs)
  obtain r where "phi_check_single_tx E p tx w = Some r" using phi_check_defined [OF assms] by blast
  then show ?case using Cons by (simp add: tx_passes_def)
qed simp

lemma execute_block_phase_defined: "\<exists>r. execute_block_phase E p b w = Some r"
  by (cases p) (auto simp: execute_block_phase_def is_per_tx_phase_def per_tx_loop_result [unfolded is_per_tx_phase_def])

lemma phase_passes_per_tx:
  "is_per_tx_phase p \<Longrightarrow> phase_passes E b w p \<longleftrightarrow> (\<forall>tx \<in> set (transitions (body b)). tx_passes E p w tx)"
  by (simp add: phase_passes_def execute_block_phase_def per_tx_loop_result)

lemma phi_loop_result:
  assumes "list_all pp_passed (phases_completed log)" "total_phases log = length (phases_completed log) + length ps"
  shows "\<exists>l. phi_loop E b w log ps = Some l \<and> (is_all_passed l \<longleftrightarrow> (\<forall>p \<in> set ps. phase_passes E b w p)) \<and>
    all_phases_passed l = is_all_passed l"
  using assms
proof (induction ps arbitrary: log)
  case Nil
  then show ?case by (simp add: phi_finalize_def is_all_passed_def)
next
  case (Cons p ps)
  obtain r where r: "execute_block_phase E p b w = Some r" using execute_block_phase_defined by blast
  then have pass: "phase_passes E b w p \<longleftrightarrow> pp_passed r" by (simp add: phase_passes_def)
  show ?case
  proof (cases "pp_passed r")
    case True
    then show ?thesis
      using Cons.IH [of "log\<lparr>phases_completed := phases_completed log @ [r]\<rparr>"] Cons.prems r pass by (simp add: Let_def)
  next
    case False
    then show ?thesis using r pass by (simp add: Let_def phi_finalize_def is_all_passed_def)
  qed
qed

lemma phi_traversal_result:
  "\<exists>l. phi_traversal_block E b w = Some l \<and> (is_all_passed l \<longleftrightarrow> (\<forall>p. phase_passes E b w p)) \<and>
     all_phases_passed l = is_all_passed l"
proof -
  have "set phi_all = UNIV" unfolding phi_all_def using phi_phase.exhaust by auto
  moreover have "total_phases phi_log_new = length (phases_completed phi_log_new) + length phi_all"
    by (simp add: phi_log_new_def phi_all_def)
  moreover have "list_all pp_passed (phases_completed phi_log_new)" by (simp add: phi_log_new_def)
  ultimately show ?thesis unfolding phi_traversal_block_def using phi_loop_result [of phi_log_new phi_all E b w] by auto
qed

lemma edges_delta_graph: "edges (delta_graph d) = new_edges d"
  and finite_delta_graph: "finite (vertices (delta_graph d))"
proof -
  have v: "edges (fold (\<lambda>v g. add_vertex g v) vs g) = edges g \<and> (finite (vertices g) \<longrightarrow> finite (vertices (fold (\<lambda>v g. add_vertex g v) vs g)))"
    for vs and g :: causal_graph by (induction vs arbitrary: g) (auto simp: add_vertex_def)
  have e: "edges (fold (\<lambda>e g. add_edge g e) es g) = edges g @ es \<and> vertices (fold (\<lambda>e g. add_edge g e) es g) = vertices g"
    for es and g :: causal_graph by (induction es arbitrary: g) (auto simp: add_edge_def)
  show "edges (delta_graph d) = new_edges d" "finite (vertices (delta_graph d))"
    using v e by (simp_all add: delta_graph_def causal_graph_default_def)
qed

lemma phase_topology_iff: "phase_topology b \<longleftrightarrow> acyclic (endpoints ` set (new_edges (causal_delta b)))"
  by (auto simp: phase_topology_def is_acyclic_iff [OF finite_delta_graph] edges_delta_graph acyclic_def)

lemma tx_passes_phases:
  "tx_passes E Distinction w tx \<longleftrightarrow> is_ok (check_transition_wh tx)"
  "tx_passes E Constraint w tx \<longleftrightarrow> scce_valid (scce_validate (ex_hex E) tx w constraint_weights_default
     (max_constraint_propagation_depth (consensus_params w)) (max_constraint_propagation_steps (consensus_params w)))"
  "tx_passes E Ontology w tx \<longleftrightarrow> check_ontology tx = OntologyAllowed"
  "tx_passes E Form w tx \<longleftrightarrow> phase_form_tx tx w"
  "tx_passes E Organization w tx \<longleftrightarrow> phase_organization_tx tx"
  "tx_passes E Execution w tx \<longleftrightarrow> phase_execution_tx E tx w"
  by (simp_all add: tx_passes_def)

lemma phase_passes_block:
  "phase_passes E b w Topology \<longleftrightarrow> phase_topology b" "phase_passes E b w Body \<longleftrightarrow> phase_body b w"
  "phase_passes E b w Architecture \<longleftrightarrow> phase_architecture E b w"
  "phase_passes E b w Performance \<longleftrightarrow> phase_performance E b"
  "phase_passes E b w Feedback \<longleftrightarrow> phase_feedback E b w" "phase_passes E b w Evolution \<longleftrightarrow> phase_evolution b"
  by (simp_all add: phase_passes_def execute_block_phase_def is_per_tx_phase_def)

lemma is_accepted_iff: "is_accepted v \<longleftrightarrow> v = Accept"
  by (cases v) (simp_all add: is_accepted_def)

lemma wh_checked:
  assumes "is_ok (check_transition_wh tx)"
  shows "who (wh_binding_intent_of tx) = agent_id_of (actor tx)" "wh_where (wh_binding_intent_of tx) = ti_target (tx_intent tx)"
    "carried_constraints tx = which (wh_binding_intent_of tx)"
  using assms by (auto simp: check_transition_wh_def is_ok_iff bind_result_Inr Let_def split: if_splits)

lemma execution_checked:
  assumes "phase_execution_tx E tx w"
  shows "check_payload_consistency (ex_hex E) tx = Inr ()" "nonce tx \<noteq> 0" "ti_target (tx_intent tx) \<noteq> []"
    "\<exists>active. active_public_key (ex_kr E) w (agent_id_of (actor tx)) (height (state w)) = Inr active \<and>
       (active = None \<or> active = Some (public_key (actor tx)))"
proof -
  from assms obtain u where u: "check_payload_consistency (ex_hex E) tx = Inr u" and n: "nonce tx \<noteq> 0"
    and target: "ti_target (tx_intent tx) \<noteq> []"
    and key: "check_tx_superseded_key (ex_kr E) tx w (height (state w)) = SkOk"
    by (auto simp: phase_execution_tx_def split: sum.splits if_splits superseded_key_check.splits)
  show "check_payload_consistency (ex_hex E) tx = Inr ()" "nonce tx \<noteq> 0" "ti_target (tx_intent tx) \<noteq> []"
    using u n target by simp_all
  show "\<exists>active. active_public_key (ex_kr E) w (agent_id_of (actor tx)) (height (state w)) = Inr active \<and>
       (active = None \<or> active = Some (public_key (actor tx)))"
    using key by (auto simp: check_tx_superseded_key_def split: sum.splits option.splits if_splits)
qed

lemma ceilings_passed:
  assumes "ceiling_is_pass (validate_ceilings_for_block E w h)" "3 \<le> bh_version h"
  shows "\<exists>c. constitutional_ceilings_from_trie (ex_ceilings E) w = Inr (Some c) \<and> ceilings_validate c (consensus_params w) = Inr ()"
  using assms
  by (auto simp: ceiling_is_pass_def validate_ceilings_for_block_def PATCH_04_BLOCK_VERSION_def
      split: if_splits sum.splits option.splits)

section \<open>Properties\<close>

text \<open>
  C11. What a block that passes the traversal guarantees. Every transition names its own actor as the
  originator, writes raw keys only at its declared target outside the protected namespaces, is not made
  with a key that its agent has rotated away, and has the authority its kind needs; the causal edges of the
  block form no cycle; the tension stays within the budget; all receipts are acceptances; the validator
  events passed their gate; and on versions with constitutional ceilings the ceilings are present and hold.
\<close>

theorem phi_accepted_block_safe:
  assumes "phi_traversal_block E b w = Some l" "is_all_passed l"
  shows "(\<forall>tx \<in> set (transitions (body b)).
      who (wh_binding_intent_of tx) = agent_id_of (actor tx) \<and> nonce tx \<noteq> 0 \<and>
      (\<forall>k v. payload tx = PWrite k v \<longrightarrow>
         k = ti_target (tx_intent tx) \<and> (\<forall>ns \<in> set protected_namespaces. \<not> starts_with k ns)) \<and>
      (\<exists>active. active_public_key (ex_kr E) w (agent_id_of (actor tx)) (height (state w)) = Inr active \<and>
         (active = None \<or> active = Some (public_key (actor tx)))) \<and>
      (ti_kind (tx_intent tx) \<in> {KGovernanceUpdate, KNormProposal, KConstraintAddition} \<longrightarrow>
         ag_governance_level (actor tx) \<le> Meaning)) \<and>
    acyclic (endpoints ` set (new_edges (causal_delta b))) \<and>
    bh_tension_after (header b) \<le>
      tension_add (bh_tension_before (header b)) (current_budget (budget (ws_tension_field (state w)))) \<and>
    (\<forall>r \<in> set (receipts b). rc_verdict r = Accept) \<and>
    is_ok (check_validator_events (ex_vs E) (ex_verify E) (ex_blake3 E) (ex_change_canon E) (ex_ev_canon E)
      w (bh_height (header b)) (validator_set_changes (body b)) (body_equivocation_evidence (body b))) \<and>
    (3 \<le> bh_version (header b) \<longrightarrow>
      (\<exists>c. constitutional_ceilings_from_trie (ex_ceilings E) w = Inr (Some c) \<and> ceilings_validate c (consensus_params w) = Inr ()))"
proof -
  have all: "phase_passes E b w p" for p using phi_traversal_result [of E b w] assms by auto
  have tx: "tx_passes E p w tx" if "is_per_tx_phase p" "tx \<in> set (transitions (body b))" for p tx
    using all [of p] that by (simp add: phase_passes_per_tx)
  have each: "who (wh_binding_intent_of tx) = agent_id_of (actor tx) \<and> nonce tx \<noteq> 0 \<and>
      (\<forall>k v. payload tx = PWrite k v \<longrightarrow>
         k = ti_target (tx_intent tx) \<and> (\<forall>ns \<in> set protected_namespaces. \<not> starts_with k ns)) \<and>
      (\<exists>active. active_public_key (ex_kr E) w (agent_id_of (actor tx)) (height (state w)) = Inr active \<and>
         (active = None \<or> active = Some (public_key (actor tx)))) \<and>
      (ti_kind (tx_intent tx) \<in> {KGovernanceUpdate, KNormProposal, KConstraintAddition} \<longrightarrow>
         ag_governance_level (actor tx) \<le> Meaning)" if "tx \<in> set (transitions (body b))" for tx
  proof -
    have wh: "is_ok (check_transition_wh tx)" and ont: "check_ontology tx = OntologyAllowed"
      and org: "phase_organization_tx tx" and ex: "phase_execution_tx E tx w"
      using tx [OF _ that, of Distinction] tx [OF _ that, of Ontology] tx [OF _ that, of Organization]
        tx [OF _ that, of Execution] by (simp_all add: is_per_tx_phase_def tx_passes_phases)
    have "\<forall>k v. payload tx = PWrite k v \<longrightarrow>
        k = ti_target (tx_intent tx) \<and> (\<forall>ns \<in> set protected_namespaces. \<not> starts_with k ns)"
      using raw_write_confined [OF ont execution_checked(1) [OF ex]] by blast
    moreover have "ti_kind (tx_intent tx) \<in> {KGovernanceUpdate, KNormProposal, KConstraintAddition} \<longrightarrow>
        ag_governance_level (actor tx) \<le> Meaning"
      using org by (auto simp: phase_organization_tx_def less_eq_precedence_level_def split: if_splits)
    ultimately show ?thesis using wh_checked(1) [OF wh] execution_checked(2,4) [OF ex] by blast
  qed
  have block: "phase_topology b" "phase_body b w" "phase_architecture E b w" "phase_feedback E b w"
    using all [of Topology] all [of Body] all [of Architecture] all [of Feedback] by (simp_all add: phase_passes_block)
  have "\<forall>r \<in> set (receipts b). rc_verdict r = Accept"
    using block(4) by (auto simp: phase_feedback_def list_all_iff is_accepted_iff split: if_splits)
  then show ?thesis
    using each block ceilings_passed [of E w "header b"]
    by (auto simp: phase_topology_iff phase_body_def phase_architecture_def phase_feedback_def Let_def split: if_splits)
qed

text \<open>A block on a fresh world and some external functions, for the witnesses.\<close>

definition sample_ext :: ext where
  "sample_ext =
     \<lparr>ex_blake3 = (\<lambda>_. ZERO_HASH), ex_hex = hash_bytes, ex_hexdec = (\<lambda>_. None), ex_verify = (\<lambda>_ _ _. False),
      ex_vs = sample_codec, ex_kr = sample_kr_codec, ex_change_canon = (\<lambda>_. []), ex_ev_canon = (\<lambda>_. []),
      ex_ceilings = \<lparr>cdec_current = (\<lambda>_. None), cdec_v2 = (\<lambda>_. None), cdec_v1 = (\<lambda>_. None)\<rparr>,
      ex_tension_history = (\<lambda>_. None), ex_seal_bytes = (\<lambda>_. []), ex_receipt_bytes = (\<lambda>_. []),
      ex_edge_bytes = (\<lambda>_. []), ex_governance_bytes = (\<lambda>_. []), ex_payload_bytes = (\<lambda>_. []),
      ex_constraints_bytes = (\<lambda>_. []), ex_wh_bytes = (\<lambda>_. []), ex_chain_bytes = (\<lambda>_. []), ex_tx_bytes = (\<lambda>_. [])\<rparr>"

definition sample_header :: block_header where
  "sample_header =
     \<lparr>bh_chain_id = 1, bh_block_id = 2, bh_parent_id = 9, bh_height = 1, bh_timestamp = timestamp_genesis,
      bh_state_root = ZERO_HASH, bh_transition_root = ZERO_HASH, bh_receipt_root = ZERO_HASH, bh_causal_root = ZERO_HASH,
      bh_proof_root = ZERO_HASH, bh_governance_hash = ZERO_HASH, bh_tension_before = 0, bh_tension_after = 0,
      bh_mfidel_seal = seal_from_height 1, bh_balance_root = ZERO_HASH, bh_validator_id = 5, bh_version = 2,
      bh_round_history_root = ZERO_HASH\<rparr>"

definition sample_block :: "symbolic_transition list \<Rightarrow> block" where
  "sample_block txs =
     \<lparr>header = sample_header,
      body = \<lparr>transitions = txs, transition_count = length txs, total_tension_delta = 0, body_constraint_satisfaction = [],
        genesis_consensus_params = None, validator_set_changes = None, body_equivocation_evidence = None\<rparr>,
      receipts = [], causal_delta = \<lparr>new_vertices = [], new_edges = [], causal_root = ZERO_HASH\<rparr>,
      causal_proof_of = \<lparr>cp_block_height = 1, cp_transitions_proven = [], cp_phi_traversal_log = phi_log_new,
        cp_governance_snapshot_hash = ZERO_HASH, cp_tension_before = 0, cp_tension_after = 0, cp_constraint_results = [],
        cp_recursion_depth = 0, cp_validator_signature = [], cp_causal_hash = ZERO_HASH\<rparr>,
      governance = \<lparr>gs_state_hash = ZERO_HASH, gs_active_norm_count = 0, gs_emergency_mode = False,
        gs_finality_mode = Deterministic, gs_governance_limits = governance_limits_snapshot_default,
        gs_finality_config = finality_config_snapshot_default\<rparr>\<rparr>"

lemmas sample_phase_simps = phase_passes_block phase_topology_def phase_body_def phase_architecture_def
  phase_performance_def phase_feedback_def phase_evolution_def sample_block_def sample_header_def Let_def
  check_validator_events_def validate_ceilings_for_block_def PATCH_04_BLOCK_VERSION_def PATCH_05_BLOCK_VERSION_def
  ceiling_is_pass_def supported_version_iff world_new_def world_state_default_def tension_field_default_def
  tension_budget_default_def consensus_params_default_def tension_swing_def from_integer_def SCALE_def
  tension_ops i128_ops machine_int

lemma sample_block_phases:
  assumes "p \<in> {Topology, Body, Architecture, Performance, Feedback, Evolution}" "length txs \<le> U32_MAX"
  shows "phase_passes E (sample_block txs) world_new p"
  using assms by (auto simp: sample_phase_simps)

theorem phi_accepted_block_witness:
  "\<exists>l. phi_traversal_block sample_ext (sample_block []) world_new = Some l \<and> is_all_passed l \<and>
     acyclic (endpoints ` set (new_edges (causal_delta (sample_block []))))"
proof -
  obtain l where l: "phi_traversal_block sample_ext (sample_block []) world_new = Some l"
    and iff: "is_all_passed l \<longleftrightarrow> (\<forall>p. phase_passes sample_ext (sample_block []) world_new p)"
    using phi_traversal_result by blast
  have "phase_passes sample_ext (sample_block []) world_new p" for p
    using sample_block_phases [of p "[]" sample_ext] phase_passes_per_tx [of p sample_ext "sample_block []" world_new]
    by (cases p) (auto simp: is_per_tx_phase_def sample_block_def)
  then show ?thesis using l iff phi_accepted_block_safe [OF l] by blast
qed

text \<open>
  The two classifications of phases disagree: \<open>PhiPhase::is_per_tx\<close> counts the Feedback and Evolution
  phases as phases of a single transition, but the shared checker panics on them.
\<close>

theorem per_tx_classification_panics:
  "is_per_tx Feedback \<and> is_per_tx Evolution \<and>
   phi_check_single_tx E Feedback tx w = None \<and> phi_check_single_tx E Evolution tx w = None \<and>
   (is_per_tx_phase p \<longrightarrow> is_per_tx p \<and> phi_check_single_tx E p tx w \<noteq> None)"
  by (auto simp: is_per_tx_def is_block_only_def is_per_tx_phase_def)

end
