(* ===== verification/Scc_Validate.thy ===== *)
theory Scc_Validate
  imports Scc_Phi
begin

text \<open>
  Validation of single transitions (\<open>execution/validate.rs\<close>): the cheap admission check of the mempool,
  the full validation with signature, identity, nonce, size and phase checks, and the metered validation
  that turns the outcome into a receipt. The formatting of rejection texts is an argument.
\<close>

section \<open>Receipts\<close>

definition UNSEALED_ROOT :: hash where "UNSEALED_ROOT = - 1"

datatype seal_error = SealRejectedReceipt | AlreadySealed

definition seal_receipt_post_state :: "causal_receipt \<Rightarrow> hash \<Rightarrow> seal_error + causal_receipt" where
  "seal_receipt_post_state r root =
     (if \<not> is_accepted (rc_verdict r) then Inl SealRejectedReceipt
      else if post_state_root r \<noteq> UNSEALED_ROOT then Inl AlreadySealed
      else Inr (r\<lparr>post_state_root := root\<rparr>))"

section \<open>Admission\<close>

definition MAX_FREEFORM_STRING_LEN :: nat where "MAX_FREEFORM_STRING_LEN = 4096"

datatype admit_error =
    AdNonceZero
  | AdNonceOverflow nat
  | AdNonceSequence nat nat
  | AdSignatureShort nat
  | AdTargetTooLong nat nat
  | AdPayloadTooLarge
  | AdCodeTooLarge nat
  | AdArgsTooLarge nat
  | AdWhoZero
  | AdWhereEmpty
  | AdWhatEmpty
  | AdWhatTooLong nat
  | AdPurposeTooLong nat

definition payload_size_error :: "nat \<Rightarrow> operation_payload \<Rightarrow> admit_error option" where
  "payload_size_error lim p =
     (case p of
        PWrite k v \<Rightarrow> if length k > lim \<or> length v > lim then Some AdPayloadTooLarge else None
      | PDeployContract code \<Rightarrow> if length code > lim then Some (AdCodeTooLarge (length code)) else None
      | PInvokeContract _ _ args \<Rightarrow> if length args > lim then Some (AdArgsTooLarge (length args)) else None
      | _ \<Rightarrow> None)"

definition admit_check_structural :: "symbolic_transition \<Rightarrow> managed_world_state \<Rightarrow> admit_error + unit" where
  "admit_check_structural tx w =
     (let target = ti_target (tx_intent tx); wh = wh_binding_intent_of tx;
          max_addr = max_symbol_address_len (consensus_params w)
      in if length (signature tx) < 64 then Inl (AdSignatureShort (length (signature tx)))
         else if length target > max_addr then Inl (AdTargetTooLong (length target) max_addr)
         else case payload_size_error (max_state_entry_size (consensus_params w)) (payload tx) of
                Some e \<Rightarrow> Inl e
              | None \<Rightarrow>
                  if who wh = ZERO_HASH then Inl AdWhoZero
                  else if wh_where wh = [] then Inl AdWhereEmpty
                  else if what_declared wh = [] then Inl AdWhatEmpty
                  else if length (what_declared wh) > MAX_FREEFORM_STRING_LEN
                  then Inl (AdWhatTooLong (length (what_declared wh)))
                  else if length (declared_purpose (tx_intent tx)) > MAX_FREEFORM_STRING_LEN
                  then Inl (AdPurposeTooLong (length (declared_purpose (tx_intent tx))))
                  else Inr ())"

definition admit_check :: "symbolic_transition \<Rightarrow> managed_world_state \<Rightarrow> admit_error + unit" where
  "admit_check tx w =
     (if nonce tx = 0 then Inl AdNonceZero
      else
        let last_n = (case map_of (agent_nonces w) (agent_id_of (actor tx)) of Some k \<Rightarrow> k | None \<Rightarrow> 0)
        in if int (last_n + 1) > U128_MAX then Inl (AdNonceOverflow last_n)
           else if nonce tx \<noteq> last_n + 1 then Inl (AdNonceSequence (last_n + 1) (nonce tx))
           else admit_check_structural tx w)"

section \<open>Full validation\<close>

fun kind_code :: "transition_kind \<Rightarrow> nat" where
  "kind_code KStateWrite = 0"
| "kind_code KStateRead = 1"
| "kind_code KGovernanceUpdate = 2"
| "kind_code KNormProposal = 3"
| "kind_code KConstraintAddition = 4"
| "kind_code KAgentRegistration = 5"
| "kind_code KDisputeResolution = 6"
| "kind_code KAssetTransfer = 7"
| "kind_code KContractDeploy = 8"
| "kind_code KContractInvoke = 9"

definition payload_tag :: "ext \<Rightarrow> operation_payload \<Rightarrow> hash" where
  "payload_tag E p =
     (case p of
        PWrite k v \<Rightarrow> blake3_hash_concat (ex_blake3 E) [k, v]
      | PNoop \<Rightarrow> ZERO_HASH
      | _ \<Rightarrow> ex_blake3 E (ex_payload_bytes E p))"

definition canonical_tx_bytes :: "ext \<Rightarrow> symbolic_transition \<Rightarrow> bytes" where
  "canonical_tx_bytes E tx =
     ex_tx_bytes E
       (agent_id_of (actor tx), kind_code (ti_kind (tx_intent tx)), ti_target (tx_intent tx), nonce tx,
        payload_tag E (payload tx),
        ex_blake3 E (ex_constraints_bytes E (preconditions tx)),
        ex_blake3 E (ex_constraints_bytes E (postconditions tx)),
        ex_blake3 E (ex_wh_bytes E (wh_binding_intent_of tx)),
        ex_blake3 E (ex_chain_bytes E (causal_chain tx)))"

datatype tx_error =
    TxWhBinding wh_error
  | TxRuleNotActive hash
  | TxSignatureShort nat
  | TxSignatureInvalid
  | TxAgentIdMismatch
  | TxNonceZero
  | TxNonceOverflow nat
  | TxNonceSequence nat nat
  | TxTargetTooLong nat nat
  | TxSourceUnauthorised agent_id
  | TxPayloadTooLarge
  | TxPhi phi_phase

definition check_errors :: "bool \<Rightarrow> tx_error \<Rightarrow> tx_error list" where
  "check_errors bad e = (if bad then [e] else [])"

definition phi_tx_errors :: "ext \<Rightarrow> symbolic_transition \<Rightarrow> managed_world_state \<Rightarrow> tx_error list" where
  "phi_tx_errors E tx w =
     concat (map (\<lambda>p. if is_per_tx_phase p
                      then (case phi_check_single_tx E p tx w of
                              Some r \<Rightarrow> check_errors (\<not> pp_passed r) (TxPhi (pp_phase r))
                            | None \<Rightarrow> [])
                      else []) phi_all)"

definition identity_errors :: "ext \<Rightarrow> symbolic_transition \<Rightarrow> managed_world_state \<Rightarrow> tx_error list" where
  "identity_errors E tx w =
     (case check_transition_wh tx of Inl e \<Rightarrow> [TxWhBinding e] | Inr _ \<Rightarrow> []) @
     check_errors (active_norms (ws_governance_state (state w)) \<noteq> [] \<and>
        map_of (active_norms (ws_governance_state (state w))) (invoking_rule (why (wh_binding_intent_of tx))) = None)
       (TxRuleNotActive (invoking_rule (why (wh_binding_intent_of tx)))) @
     check_errors (length (signature tx) < 64) (TxSignatureShort (length (signature tx))) @
     check_errors (length (signature tx) \<ge> 64 \<and>
        \<not> ex_verify E (public_key (actor tx)) (canonical_tx_bytes E tx) (signature tx)) TxSignatureInvalid @
     check_errors (agent_id_of (actor tx) \<noteq> blake3_hash_concat (ex_blake3 E)
        [hash_bytes (public_key (actor tx)), ex_seal_bytes E (mfidel_seal (actor tx))]) TxAgentIdMismatch @
     check_errors (nonce tx = 0) TxNonceZero"

definition size_errors :: "symbolic_transition \<Rightarrow> managed_world_state \<Rightarrow> tx_error list" where
  "size_errors tx w =
     check_errors (length (ti_target (tx_intent tx)) > max_symbol_address_len (consensus_params w))
       (TxTargetTooLong (length (ti_target (tx_intent tx))) (max_symbol_address_len (consensus_params w))) @
     (case payload tx of
        PAssetTransfer src _ _ \<Rightarrow>
          check_errors (src \<noteq> agent_id_of (actor tx) \<and> src \<noteq> public_key (actor tx)) (TxSourceUnauthorised src)
      | _ \<Rightarrow> []) @
     (case payload tx of
        PWrite k v \<Rightarrow>
          check_errors (length k > max_state_entry_size (consensus_params w) \<or>
            length v > max_state_entry_size (consensus_params w)) TxPayloadTooLarge
      | _ \<Rightarrow> [])"

definition validate_transition :: "ext \<Rightarrow> symbolic_transition \<Rightarrow> managed_world_state \<Rightarrow> tx_error list + unit" where
  "validate_transition E tx w =
     (let errs = identity_errors E tx w;
          last_n = (case map_of (agent_nonces w) (agent_id_of (actor tx)) of Some k \<Rightarrow> k | None \<Rightarrow> 0)
      in if int (last_n + 1) > U128_MAX then Inl (errs @ [TxNonceOverflow last_n])
         else
           let all_errs = errs @ check_errors (nonce tx \<noteq> last_n + 1) (TxNonceSequence (last_n + 1) (nonce tx)) @
                 size_errors tx w @ phi_tx_errors E tx w
           in if all_errs = [] then Inr () else Inl all_errs)"

section \<open>Metered validation\<close>

datatype tx_rejection = RjGas gas_error | RjErrors "tx_error list"

definition empty_wh_resolved :: "symbolic_transition \<Rightarrow> wh_binding_resolved" where
  "empty_wh_resolved tx =
     \<lparr>wr_intent = wh_binding_intent_of tx, what_actual = state_delta_default, whether = Valid\<rparr>"

definition extract_write_set :: "ext \<Rightarrow> symbolic_transition \<Rightarrow> hash list" where
  "extract_write_set E tx = (case payload tx of PWrite k _ \<Rightarrow> [ex_blake3 E k] | _ \<Rightarrow> [])"

definition make_reject_receipt :: "symbolic_transition \<Rightarrow> hash \<Rightarrow> string \<Rightarrow> gas_meter \<Rightarrow> causal_receipt" where
  "make_reject_receipt tx root reason gas =
     \<lparr>rc_tx_id = tx_id tx, rc_verdict = Reject reason, pre_state_root = root, post_state_root = root,
      read_set = [], write_set = [], causes = [],
      resource_used = \<lparr>compute_steps = gas_used gas, ru_state_reads = 0, ru_state_writes = 0, proof_size_bytes = 0\<rparr>,
      emitted_events = [], rc_wh_binding = empty_wh_resolved tx, phi_phase_reached = 0, rc_tension_delta = 0\<rparr>"

definition make_accept_receipt :: "ext \<Rightarrow> symbolic_transition \<Rightarrow> hash \<Rightarrow> gas_meter \<Rightarrow> causal_receipt" where
  "make_accept_receipt E tx root gas =
     \<lparr>rc_tx_id = tx_id tx, rc_verdict = Accept, pre_state_root = root, post_state_root = UNSEALED_ROOT,
      read_set = [], write_set = extract_write_set E tx, causes = [],
      resource_used = \<lparr>compute_steps = gas_used gas,
        ru_state_reads = min (gb_state_reads (breakdown gas) div max (gp_state_read (pricing gas)) 1) U32_MAX,
        ru_state_writes = min (gb_state_writes (breakdown gas) div max (gp_state_write (pricing gas)) 1) U32_MAX,
        proof_size_bytes = gb_proof (breakdown gas)\<rparr>,
      emitted_events = [], rc_wh_binding = empty_wh_resolved tx, phi_phase_reached = 13, rc_tension_delta = 0\<rparr>"

text \<open>The gas charges before the validation, in order.\<close>

definition charge_validation :: "nat \<Rightarrow> gas_meter \<Rightarrow> (gas_error + unit) \<times> gas_meter" where
  "charge_validation payload_size g0 =
     (case charge_tx_base g0 of
        (Inl e, g) \<Rightarrow> (Inl e, g)
      | (Inr _, g1) \<Rightarrow>
          (case charge_payload g1 payload_size of
             (Inl e, g) \<Rightarrow> (Inl e, g)
           | (Inr _, g2) \<Rightarrow>
               (case charge_sig_verify g2 of
                  (Inl e, g) \<Rightarrow> (Inl e, g)
                | (Inr _, g3) \<Rightarrow> charge_hash g3)))"

definition validate_transition_metered ::
  "ext \<Rightarrow> (tx_rejection \<Rightarrow> string) \<Rightarrow> symbolic_transition \<Rightarrow> managed_world_state \<Rightarrow> nat \<Rightarrow> causal_receipt \<times> nat" where
  "validate_transition_metered E fmt tx w limit =
     (let root = state_root (ex_blake3 E) w
      in case charge_validation (length (ex_payload_bytes E (payload tx)))
                (with_pricing limit (gas_pricing_from (consensus_params w))) of
           (Inl e, g) \<Rightarrow> (make_reject_receipt tx root (fmt (RjGas e)) g, gas_used g)
         | (Inr _, g) \<Rightarrow>
             (case charge_compute g 13 of
                (Inl e, g') \<Rightarrow> (make_reject_receipt tx root (fmt (RjGas e)) g', gas_used g')
              | (Inr _, g') \<Rightarrow>
                  (case validate_transition E tx w of
                     Inr _ \<Rightarrow> (make_accept_receipt E tx root g', gas_used g')
                   | Inl errs \<Rightarrow> (make_reject_receipt tx root (fmt (RjErrors errs)) g', gas_used g'))))"

section \<open>Lemmas\<close>

lemma check_errors_Nil [simp]: "check_errors bad e = [] \<longleftrightarrow> \<not> bad"
  by (simp add: check_errors_def)

lemma phi_tx_errors_Nil: "phi_tx_errors E tx w = [] \<longleftrightarrow> (\<forall>p. is_per_tx_phase p \<longrightarrow> tx_passes E p w tx)"
proof -
  have "set phi_all = UNIV" unfolding phi_all_def using phi_phase.exhaust by auto
  then have "phi_tx_errors E tx w = [] \<longleftrightarrow> (\<forall>p. is_per_tx_phase p \<longrightarrow>
      (case phi_check_single_tx E p tx w of Some r \<Rightarrow> check_errors (\<not> pp_passed r) (TxPhi (pp_phase r)) | None \<Rightarrow> []) = [])"
    by (auto simp: phi_tx_errors_def)
  also have "\<dots> \<longleftrightarrow> (\<forall>p. is_per_tx_phase p \<longrightarrow> tx_passes E p w tx)"
    using phi_check_defined [of _ E tx w] unfolding tx_passes_def by (metis (no_types, lifting) check_errors_Nil option.simps(5))
  finally show ?thesis .
qed

lemma validate_transition_ok:
  "validate_transition E tx w = Inr () \<longleftrightarrow>
     identity_errors E tx w = [] \<and> int (last_nonce w (agent_id_of (actor tx)) + 1) \<le> U128_MAX \<and>
     nonce tx = last_nonce w (agent_id_of (actor tx)) + 1 \<and> size_errors tx w = [] \<and> phi_tx_errors E tx w = []"
  by (auto simp: validate_transition_def Let_def last_nonce_def)

text \<open>The gas a transition needs to be validated.\<close>

definition validation_gas :: "ext \<Rightarrow> symbolic_transition \<Rightarrow> managed_world_state \<Rightarrow> nat" where
  "validation_gas E tx w =
     (let p = consensus_params w
      in gas_tx_base p + length (ex_payload_bytes E (payload tx)) * gas_payload_byte p + gas_sig_verify p +
         gas_hash_op p + 13 * gas_compute_step p)"

text \<open>One charge of the metered validation: what it adds, and when it succeeds.\<close>

definition charges :: "(gas_error + unit) \<times> gas_meter \<Rightarrow> gas_meter \<Rightarrow> nat \<Rightarrow> bool" where
  "charges r g n \<longleftrightarrow> pricing (snd r) = pricing g \<and> gas_limit (snd r) = gas_limit g \<and>
     (if gas_used g + n \<le> gas_limit g then fst r = Inr () \<and> gas_used (snd r) = gas_used g + n
      else \<exists>e. fst r = Inl e)"

lemma charge_charges:
  assumes "gas_limit g < U64_MAX"
  shows "charges (charge g n op) g n"
proof (cases "gas_used g + n \<le> gas_limit g")
  case True
  then have "u64_saturating_add (gas_used g) n = gas_used g + n"
    using assms by (simp add: u64_saturating_add_def)
  then show ?thesis using True by (simp add: charges_def charge_def Let_def)
next
  case False
  then have "u64_saturating_add (gas_used g) n > gas_limit g" using assms by (auto simp: u64_saturating_add_def)
  then show ?thesis using False by (simp add: charges_def charge_def Let_def)
qed

lemma charge_mul_charges:
  assumes "gas_limit g < U64_MAX"
  shows "charges (charge g (u64_saturating_mul n k) op) g (n * k)"
proof (cases "n * k \<le> U64_MAX")
  case True
  then show ?thesis using charge_charges [OF assms] by (simp add: u64_saturating_mul_def)
next
  case False
  then have "u64_saturating_mul n k = U64_MAX" by (simp add: u64_saturating_mul_def)
  then show ?thesis using charge_charges [OF assms, of U64_MAX op] False assms by (auto simp: charges_def)
qed

lemma charges_breakdown: "charges r (g\<lparr>breakdown := b\<rparr>) n \<longleftrightarrow> charges r g n"
  by (simp add: charges_def)

lemma validation_charges:
  assumes "gas_limit g < U64_MAX"
  shows "charges (charge_tx_base g) g (tx_base (pricing g))" "charges (charge_payload g n) g (n * payload_byte (pricing g))"
    "charges (charge_sig_verify g) g (gp_sig_verify (pricing g))" "charges (charge_hash g) g (hash_op (pricing g))"
    "charges (charge_compute g n) g (n * compute_step (pricing g))"
  using assms charge_charges [of "g\<lparr>breakdown := b\<rparr>" for b] charge_mul_charges [of "g\<lparr>breakdown := b\<rparr>" for b]
    charge_charges [of g] charge_mul_charges [of g]
  by (simp_all add: charge_tx_base_def charge_payload_def charge_sig_verify_def charge_hash_def charge_compute_def
      Let_def charges_breakdown)

lemma charges_then:
  assumes "charges r g m" "\<And>g'. gas_limit g' = gas_limit g \<Longrightarrow> pricing g' = pricing g \<Longrightarrow> charges (f g') g' n"
  shows "charges (case r of (Inl e, g') \<Rightarrow> (Inl e, g') | (Inr _, g') \<Rightarrow> f g') g (m + n)"
proof -
  obtain x g' where r: "r = (x, g')" by fastforce
  have frame: "gas_limit g' = gas_limit g" "pricing g' = pricing g" using assms(1) r by (simp_all add: charges_def)
  show ?thesis
  proof (cases "gas_used g + m \<le> gas_limit g")
    case True
    then have "x = Inr ()" "gas_used g' = gas_used g + m" using assms(1) r by (simp_all add: charges_def)
    then show ?thesis using assms(2) [OF frame] frame r by (simp add: charges_def add.assoc)
  next
    case False
    then obtain e where "x = Inl e" using assms(1) r by (auto simp: charges_def)
    then show ?thesis using False frame r by (simp add: charges_def)
  qed
qed

lemma metered_charge:
  fixes E :: ext
  assumes "limit < U64_MAX" and g: "g = with_pricing limit (gas_pricing_from (consensus_params w))"
  shows "charges (case charge_validation (length (ex_payload_bytes E (payload tx))) g of
      (Inl e, g') \<Rightarrow> (Inl e, g') | (Inr _, g') \<Rightarrow> charge_compute g' 13) g (validation_gas E tx w)"
proof -
  let ?p = "pricing g"
  have lim: "gas_limit g < U64_MAX" using assms by (simp add: with_pricing_def)
  have "charges (charge_validation (length (ex_payload_bytes E (payload tx))) g) g
      (tx_base ?p + (length (ex_payload_bytes E (payload tx)) * payload_byte ?p + (gp_sig_verify ?p + hash_op ?p)))"
    unfolding charge_validation_def
    by (rule charges_then, rule validation_charges(1) [OF lim], rule charges_then, metis lim validation_charges(2),
      rule charges_then, metis lim validation_charges(3), metis lim validation_charges(4))
  then have "charges (case charge_validation (length (ex_payload_bytes E (payload tx))) g of
      (Inl e, g') \<Rightarrow> (Inl e, g') | (Inr _, g') \<Rightarrow> charge_compute g' 13) g
      (tx_base ?p + (length (ex_payload_bytes E (payload tx)) * payload_byte ?p + (gp_sig_verify ?p + hash_op ?p)) +
       13 * compute_step ?p)"
    by (rule charges_then) (metis lim validation_charges(5))
  moreover have "tx_base ?p + (length (ex_payload_bytes E (payload tx)) * payload_byte ?p + (gp_sig_verify ?p + hash_op ?p)) +
      13 * compute_step ?p = validation_gas E tx w"
    by (simp add: g validation_gas_def Let_def with_pricing_def gas_pricing_from_def)
  ultimately show ?thesis by simp
qed

text \<open>On a fresh world no constraint is stored, so the constraint phase only checks grounding and authority.\<close>

lemma activate_loop_fresh: "store t = [] \<Longrightarrow> activate_loop t cap symbols path = symbols"
proof (induction t cap symbols path rule: activate_loop.induct)
  case (1 t cap symbols path)
  then show ?case by (subst activate_loop.simps) (simp add: trie_contains_def split: option.splits)
qed

lemma scce_fresh:
  assumes "store (trie w) = []" "2 < ms" "check_grounding (ti_target (tx_intent tx)) w (ti_kind (tx_intent tx))"
    "evaluate_governance_value tx"
  shows "scce_valid (scce_validate hex tx w weights md ms)"
proof -
  let ?t = "ti_target (tx_intent tx)"
  have none: "prefix_iter (trie w) p = []" for p using assms(1) by (simp add: prefix_iter_def)
  have act: "activate_symbols ?t w = [?t]" using assms(1) by (simp add: activate_symbols_def activate_loop_fresh)
  have sel: "select_relevant_subgraph [?t] w weights = 0" by (simp add: select_relevant_subgraph_def none)
  have "pg_consistent (propagate_constraints hex [?t] w md (ms - 1))"
    using assms(2) by (simp add: propagate_constraints_def propagate_loop.simps none child_symbols_def)
  then show ?thesis
    using assms(2-4) by (simp add: scce_validate_def scce_valid_def Let_def act sel u64_saturating_add_def U64_MAX_def)
qed

lemma keys_fresh:
  assumes "store (trie w) = []"
  shows "check_tx_superseded_key D tx w h = SkOk"
  using assms
  by (simp add: check_tx_superseded_key_def active_public_key_def key_rotation_registry_from_trie_def key_index_from_trie_def
      world_get_def trie_get_def resolve_active_key_def active_rotation_at_def rotations_for_at_def
      key_rotation_registry_new_def key_index_new_def)

text \<open>A signed write on a fresh world, for the witnesses.\<close>

definition signing_ext :: ext where
  "signing_ext = sample_ext\<lparr>ex_blake3 := (\<lambda>_. 7), ex_verify := (\<lambda>_ _ _. True)\<rparr>"

lemma sample_write_fresh:
  "tx_passes E p world_new (sample_write KStateWrite ''data/x'') \<longleftrightarrow> is_per_tx_phase p"
proof (cases "is_per_tx_phase p")
  case True
  let ?tx = "sample_write KStateWrite ''data/x''"
  have empty: "store (trie world_new) = []" by (simp add: world_new_def trie_new_def)
  have wh: "is_ok (check_transition_wh ?tx)"
    by (simp add: check_transition_wh_def check_wh_binding_intent_def sample_write_def sample_actor_def
        carried_constraints_def timestamp_genesis_def Let_def)
  have scce: "scce_valid (scce_validate (ex_hex E) ?tx world_new constraint_weights_default
      (max_constraint_propagation_depth (consensus_params world_new))
      (max_constraint_propagation_steps (consensus_params world_new)))"
    by (rule scce_fresh [OF empty]) (simp_all add: world_new_def consensus_params_default_def sample_write_def
        check_grounding_def evaluate_governance_value_def sample_actor_def)
  have "check_ontology ?tx = OntologyAllowed" "phase_form_tx ?tx world_new" "phase_organization_tx ?tx"
    by (simp_all add: check_ontology_def sample_write_def starts_with_def NS_DATA_def phase_form_tx_def world_new_def
        consensus_params_default_def phase_organization_tx_def Let_def)
  moreover have "phase_execution_tx E ?tx world_new"
    by (simp add: phase_execution_tx_def check_payload_consistency_def sample_write_def keys_fresh [OF empty])
  ultimately show ?thesis
    using True wh scce by (auto simp: is_per_tx_phase_def tx_passes_phases) (simp add: tx_passes_def)
next
  case False
  then show ?thesis by (cases p) (simp_all add: tx_passes_def is_per_tx_phase_def)
qed

lemma sample_write_valid: "validate_transition signing_ext (sample_write KStateWrite ''data/x'') world_new = Inr ()"
proof -
  let ?tx = "sample_write KStateWrite ''data/x''"
  have wh: "check_transition_wh ?tx = Inr ()"
    using sample_write_fresh [of signing_ext Distinction] by (simp add: tx_passes_phases is_per_tx_phase_def is_ok_iff)
  have "identity_errors signing_ext ?tx world_new = []"
    by (simp add: identity_errors_def wh)
      (simp add: sample_write_def sample_actor_def signing_ext_def world_new_def world_state_default_def
        governance_state_default_def blake3_hash_concat_def)
  moreover have "size_errors ?tx world_new = []"
    by (simp add: size_errors_def sample_write_def world_new_def consensus_params_default_def)
  moreover have "phi_tx_errors signing_ext ?tx world_new = []"
    by (simp add: phi_tx_errors_Nil sample_write_fresh)
  ultimately show ?thesis
    by (simp add: validate_transition_ok last_nonce_def) (simp add: world_new_def sample_write_def machine_int)
qed

section \<open>Properties\<close>

text \<open>
  C15. A validated transition is authentic: it carries a strictly verified signature of its actor's key over
  its canonical bytes, the actor's identifier is the hash of that key and seal, its nonce is the next one
  of the agent, an asset transfer spends the actor's own account, its rule is an active norm whenever
  there are any, and it passes every phase that concerns single transitions.
\<close>

theorem validated_transition_authentic:
  assumes "validate_transition E tx w = Inr ()"
  shows "ex_verify E (public_key (actor tx)) (canonical_tx_bytes E tx) (signature tx) \<and>
    agent_id_of (actor tx) = blake3_hash_concat (ex_blake3 E)
      [hash_bytes (public_key (actor tx)), ex_seal_bytes E (mfidel_seal (actor tx))] \<and>
    nonce tx = last_nonce w (agent_id_of (actor tx)) + 1 \<and>
    (\<forall>src dst amt. payload tx = PAssetTransfer src dst amt \<longrightarrow> src \<in> {agent_id_of (actor tx), public_key (actor tx)}) \<and>
    (active_norms (ws_governance_state (state w)) \<noteq> [] \<longrightarrow>
       map_of (active_norms (ws_governance_state (state w))) (invoking_rule (why (wh_binding_intent_of tx))) \<noteq> None) \<and>
    (\<forall>p. is_per_tx_phase p \<longrightarrow> tx_passes E p w tx)"
  using assms
  by (auto simp: validate_transition_ok phi_tx_errors_Nil identity_errors_def size_errors_def
      split: operation_payload.splits)

theorem validated_transition_witness:
  "validate_transition signing_ext (sample_write KStateWrite ''data/x'') world_new = Inr () \<and>
   nonce (sample_write KStateWrite ''data/x'') = last_nonce world_new 7 + 1"
  using validated_transition_authentic [OF sample_write_valid] sample_write_valid
  by (simp add: sample_write_def sample_actor_def)

text \<open>
  Both callers of the shared phase checker agree: the phases of single transitions accept a block
  exactly when the validation of each of its transitions finds no phase error, in the same state.
\<close>

theorem phi_callers_agree:
  "(\<forall>p \<in> {p. is_per_tx_phase p}. phase_passes E b w p) \<longleftrightarrow>
     (\<forall>tx \<in> set (transitions (body b)). phi_tx_errors E tx w = [])"
  using phase_passes_per_tx by (auto simp: phi_tx_errors_Nil)

theorem phi_callers_agree_witness:
  "phase_passes sample_ext (sample_block [sample_write KStateWrite ''data/x'']) world_new Distinction \<and>
   phase_passes sample_ext (sample_block [sample_write KStateWrite ''data/x'']) world_new Execution"
proof -
  have "\<forall>p \<in> {p. is_per_tx_phase p}. phase_passes sample_ext (sample_block [sample_write KStateWrite ''data/x'']) world_new p"
    unfolding phi_callers_agree by (simp add: sample_block_def phi_tx_errors_Nil sample_write_fresh)
  then show ?thesis by (simp add: is_per_tx_phase_def)
qed

text \<open>
  Metered validation accounts exactly: with a limit below the largest \<open>u64\<close> a transition is accepted
  exactly when its validation gas fits the limit and the validation finds no error; an accepted
  transition is charged exactly that gas, a rejected one leaves the state root unchanged, and the receipt
  of an accepted one can be sealed once and only once.
\<close>

theorem metered_validation_exact:
  assumes "limit < U64_MAX" "validate_transition_metered E fmt tx w limit = (r, gas)" "root \<noteq> UNSEALED_ROOT"
  shows "rc_tx_id r = tx_id tx \<and> compute_steps (resource_used r) = gas \<and> pre_state_root r = state_root (ex_blake3 E) w \<and>
    (rc_verdict r = Accept \<longleftrightarrow> validation_gas E tx w \<le> limit \<and> validate_transition E tx w = Inr ()) \<and>
    (rc_verdict r = Accept \<longrightarrow> gas = validation_gas E tx w \<and>
       (\<exists>r'. seal_receipt_post_state r root = Inr r' \<and> post_state_root r' = root \<and>
          seal_receipt_post_state r' root' = Inl AlreadySealed)) \<and>
    (rc_verdict r \<noteq> Accept \<longrightarrow> post_state_root r = pre_state_root r \<and> seal_receipt_post_state r root = Inl SealRejectedReceipt)"
proof -
  let ?g = "with_pricing limit (gas_pricing_from (consensus_params w))"
  let ?c = "case charge_validation (length (ex_payload_bytes E (payload tx))) ?g of
      (Inl e, g') \<Rightarrow> (Inl e, g') | (Inr _, g') \<Rightarrow> charge_compute g' 13"
  have run: "(r, gas) = (case ?c of
      (Inl e, g') \<Rightarrow> (make_reject_receipt tx (state_root (ex_blake3 E) w) (fmt (RjGas e)) g', gas_used g')
    | (Inr _, g') \<Rightarrow>
        (case validate_transition E tx w of
           Inr _ \<Rightarrow> (make_accept_receipt E tx (state_root (ex_blake3 E) w) g', gas_used g')
         | Inl errs \<Rightarrow> (make_reject_receipt tx (state_root (ex_blake3 E) w) (fmt (RjErrors errs)) g', gas_used g')))"
    using assms(2) by (simp add: validate_transition_metered_def Let_def split: prod.splits sum.splits)
  have ch: "charges ?c ?g (validation_gas E tx w)" by (rule metered_charge [OF assms(1) refl])
  obtain x g' where c: "?c = (x, g')" by fastforce
  show ?thesis
  proof (cases "validation_gas E tx w \<le> limit")
    case True
    then have "x = Inr ()" "gas_used g' = validation_gas E tx w" using ch c by (simp_all add: charges_def with_pricing_def)
    then show ?thesis
      using run c True assms(3)
      by (cases "validate_transition E tx w")
        (auto simp: make_accept_receipt_def make_reject_receipt_def seal_receipt_post_state_def is_accepted_def)
  next
    case False
    then obtain e where "x = Inl e" using ch c by (auto simp: charges_def with_pricing_def)
    then show ?thesis
      using run c False by (auto simp: make_reject_receipt_def seal_receipt_post_state_def is_accepted_def)
  qed
qed

theorem metered_validation_witness:
  "rc_verdict (fst (validate_transition_metered signing_ext (\<lambda>_. []) (sample_write KStateWrite ''data/x'') world_new 1000000))
     = Accept"
proof -
  let ?tx = "sample_write KStateWrite ''data/x''"
  obtain r gas where "validate_transition_metered signing_ext (\<lambda>_. []) ?tx world_new 1000000 = (r, gas)" by fastforce
  moreover from metered_validation_exact [OF _ this, of 0 0] have "rc_verdict r = Accept"
    using sample_write_valid
    by (simp add: U64_MAX_def validation_gas_def Let_def UNSEALED_ROOT_def world_new_def consensus_params_default_def
        signing_ext_def sample_ext_def)
  ultimately show ?thesis by simp
qed

text \<open>
  The signed bytes do not cover the authority a transition claims: the actor's governance level and the
  declared purpose can be changed after signing without invalidating the signature.
\<close>

theorem governance_level_unsigned:
  "canonical_tx_bytes E (tx\<lparr>actor := (actor tx)\<lparr>ag_governance_level := l\<rparr>,
       tx_intent := (tx_intent tx)\<lparr>declared_purpose := p\<rparr>\<rparr>) = canonical_tx_bytes E tx"
  by (simp add: canonical_tx_bytes_def)

end
