(* ===== verification/Scc_Cpog.thy ===== *)
theory Scc_Cpog
  imports Scc_Validate
begin

text \<open>
  The validity check of a block, causal proof of governance (\<open>execution/cpog.rs\<close>), and the runtime
  invariant monitor (\<open>execution/invariants.rs\<close>). The check replays the block on a clone of the state; a
  clone shares the durable store of the state it was cloned from, so the model returns, beside the
  result, the state the replay ended in.
\<close>

section \<open>Block validation\<close>

datatype cpog_error =
    CpGenesisParent
  | CpParentMismatch
  | CpSealMismatch
  | CpProofDepth nat nat
  | CpTensionBudget
  | CpTransitionRoot
  | CpTransitionCount
  | CpReceiptRootNonZero
  | CpReceiptRoot
  | CpGovernanceHash
  | CpCausalRootNonZero
  | CpCausalRoot
  | CpTensionBefore
  | CpBalanceTrie apply_error
  | CpTreasuryTrie string
  | CpNonce nonce_error
  | CpTensionHistory string
  | CpEconomics apply_error
  | CpStateRoot
  | CpBalanceRoot
  | CpValidatorSet validator_event_rejection
  | CpPhi phi_phase

datatype cpog_result = CpogValid | CpogInvalid "cpog_error list"

definition cpog_errors :: "bool \<Rightarrow> cpog_error \<Rightarrow> cpog_error list" where
  "cpog_errors bad e = (if bad then [e] else [])"

text \<open>Checks 1 to 9: linkage, seal, proof depth, tension and the roots of the block's parts.\<close>

definition cpog_header_errors :: "ext \<Rightarrow> block \<Rightarrow> managed_world_state \<Rightarrow> hash \<Rightarrow> cpog_error list" where
  "cpog_header_errors E b w parent =
     (let h = header b; txs = transitions (body b); B = ex_blake3 E
      in (if bh_height h = 0 then cpog_errors (bh_parent_id h \<noteq> ZERO_HASH) CpGenesisParent
          else cpog_errors (bh_parent_id h \<noteq> parent) CpParentMismatch) @
         cpog_errors (bh_mfidel_seal h \<noteq> seal_from_height (bh_height h)) CpSealMismatch @
         cpog_errors (cp_recursion_depth (causal_proof_of b) > max_proof_depth (consensus_params w))
           (CpProofDepth (cp_recursion_depth (causal_proof_of b)) (max_proof_depth (consensus_params w))) @
         cpog_errors (bh_tension_after h >
           tension_add (bh_tension_before h) (current_budget (budget (ws_tension_field (state w))))) CpTensionBudget @
         cpog_errors (bh_transition_root h \<noteq> merkle_root_of_bytes B (map (\<lambda>tx. hash_bytes (tx_id tx)) txs)) CpTransitionRoot @
         cpog_errors (\<not> (length txs \<le> U32_MAX \<and> length txs = transition_count (body b))) CpTransitionCount @
         (if receipts b = [] then cpog_errors (bh_receipt_root h \<noteq> ZERO_HASH) CpReceiptRootNonZero
          else cpog_errors (bh_receipt_root h \<noteq> merkle_root_of_bytes B (map (ex_receipt_bytes E) (receipts b))) CpReceiptRoot) @
         cpog_errors (bh_governance_hash h \<noteq> B (ex_governance_bytes E (governance b))) CpGovernanceHash @
         (if new_edges (causal_delta b) = [] then cpog_errors (bh_causal_root h \<noteq> ZERO_HASH) CpCausalRootNonZero
          else cpog_errors (bh_causal_root h \<noteq> merkle_root_of_bytes B (map (ex_edge_bytes E) (new_edges (causal_delta b))))
                 CpCausalRoot))"

definition cpog_gas_price :: "ext \<Rightarrow> block \<Rightarrow> managed_world_state \<Rightarrow> string + tension_value" where
  "cpog_gas_price E b w =
     (let econ = economic_state_default; bud = current_budget (budget (ws_tension_field (state w)))
      in if bh_version (header b) \<ge> PATCH_05_BLOCK_VERSION
         then bind_result (tension_history_from_trie (ex_tension_history E) w)
                (\<lambda>hist. let win = history_window hist (median_tension_window (consensus_params w))
                        in Inr (case constitutional_ceilings_from_trie (ex_ceilings E) w of
                                  Inr (Some c) \<Rightarrow> effective_fee_median_floored econ win bud (consensus_params w) c
                                | _ \<Rightarrow> effective_fee_median econ win bud (consensus_params w)))
         else Inr (effective_fee econ (total (ws_tension_field (state w))) bud))"

text \<open>
  Check 10: the speculative replay. The result is the errors, whether the validation returns at once,
  and the state of the clone at the end.
\<close>

definition cpog_replay :: "ext \<Rightarrow> block \<Rightarrow> managed_world_state \<Rightarrow> cpog_error list \<times> bool \<times> managed_world_state" where
  "cpog_replay E b w =
     (let h = header b; txs = transitions (body b); hex = ex_hex E; B = ex_blake3 E;
          errs = cpog_errors (bh_tension_before h \<noteq> total (ws_tension_field (state w))) CpTensionBefore
      in case balances_from_trie (ex_hexdec E) w of
           Inl e \<Rightarrow> (errs @ [CpBalanceTrie e], True, w)
         | Inr bal \<Rightarrow>
        (case treasury_from_trie w of
           Inl e \<Rightarrow> (errs @ [CpTreasuryTrie e], True, w)
         | Inr tr \<Rightarrow>
        (case validate_nonces w txs of
           (Inl e, w1) \<Rightarrow> (errs @ [CpNonce e], True, w1)
         | (Inr _, w1) \<Rightarrow>
        (case cpog_gas_price E b w of
           Inl e \<Rightarrow> (errs @ [CpTensionHistory e], True, w1)
         | Inr price \<Rightarrow>
        (case apply_block_economics B (ex_seal_bytes E) hex w1 bal tr txs (receipts b) (bh_version h) (bh_validator_id h)
                price default_block_reward of
           (Inl e, w2, _, _) \<Rightarrow> (errs @ [CpEconomics e], True, w2)
         | (Inr _, w2, bal2, tr2) \<Rightarrow>
        (case apply_block_transitions hex w2 bal2 txs of
           (_, w3, bal3) \<Rightarrow>
             let w4 = (if bh_height h mod 100 = 0 then commit_treasury_state w3 (snd (advance_epoch tr2)) else w3)
             in (errs @ cpog_errors (bh_state_root h \<noteq> state_root B w4) CpStateRoot @
                 cpog_errors (bh_balance_root h \<noteq> balance_root B bal3) CpBalanceRoot, False, w4)))))))"

definition validate_cpog :: "ext \<Rightarrow> block \<Rightarrow> managed_world_state \<Rightarrow> hash \<Rightarrow> (cpog_result \<times> managed_world_state) option" where
  "validate_cpog E b w parent =
     (let errs1 = cpog_header_errors E b w parent;
          (errs2, stop, spec) = (if bh_height (header b) > 0 then cpog_replay E b w else ([], False, w))
      in if stop then Some (CpogInvalid (errs1 @ errs2), spec)
         else
           let errs3 = (case check_validator_set_capture (ex_vs E) (ex_verify E) (ex_blake3 E) (ex_change_canon E)
                               w (bh_height (header b)) (validator_set_changes (body b)) of
                          Inl e \<Rightarrow> [CpValidatorSet e]
                        | Inr _ \<Rightarrow> [])
           in case phi_traversal_block E b w of
                None \<Rightarrow> None
              | Some l \<Rightarrow>
                  let errs4 = (if is_all_passed l then []
                               else map (\<lambda>r. CpPhi (pp_phase r)) (filter (\<lambda>r. \<not> pp_passed r) (phases_completed l)));
                      errs = errs1 @ errs2 @ errs3 @ errs4
                  in Some (if errs = [] then CpogValid else CpogInvalid errs, spec))"

section \<open>Invariant monitor\<close>

datatype severity = Critical | High | Warning

datatype invariant_violation =
    SupplyConservation tension_value tension_value
  | StateRootIntegrity hash hash
  | TensionHomeostasis
  | ReceiptCompleteness nat nat
  | ReceiptVerdict nat
  | CausalAcyclicity
  | NonceMonotonicity nat nat nat

fun violation_severity :: "invariant_violation \<Rightarrow> severity" where
  "violation_severity (SupplyConservation _ _) = Critical"
| "violation_severity (StateRootIntegrity _ _) = Critical"
| "violation_severity TensionHomeostasis = Critical"
| "violation_severity (ReceiptCompleteness _ _) = High"
| "violation_severity (ReceiptVerdict _) = Critical"
| "violation_severity CausalAcyclicity = High"
| "violation_severity (NonceMonotonicity _ _ _) = Critical"

fun receipt_verdicts :: "nat \<Rightarrow> causal_receipt list \<Rightarrow> invariant_violation list" where
  "receipt_verdicts i [] = []"
| "receipt_verdicts i (r # rs) =
     (if is_accepted (rc_verdict r) then [] else [ReceiptVerdict i]) @ receipt_verdicts (i + 1) rs"

definition check_invariants ::
  "(bytes \<Rightarrow> hash) \<Rightarrow> block \<Rightarrow> managed_world_state \<Rightarrow> balance_ledger \<Rightarrow> tension_value \<Rightarrow> invariant_violation list" where
  "check_invariants B b w bal expected =
     (let h = header b; txs = transitions (body b); bud = current_budget (budget (ws_tension_field (state w)))
      in (if total_supply bal \<noteq> expected then [SupplyConservation expected (total_supply bal)] else []) @
         (if state_root B w \<noteq> bh_state_root h then [StateRootIntegrity (state_root B w) (bh_state_root h)] else []) @
         (if bh_tension_after h > tension_add (bh_tension_before h) bud then [TensionHomeostasis] else []) @
         (if txs \<noteq> [] \<and> length (receipts b) \<noteq> length txs
          then [ReceiptCompleteness (length txs) (length (receipts b))] else []) @
         receipt_verdicts 0 (receipts b) @
         map (\<lambda>_. CausalAcyclicity) (filter (\<lambda>e. fst (endpoints e) = snd (endpoints e)) (new_edges (causal_delta b))))"

fun nonce_monotonicity_loop ::
  "nat \<Rightarrow> (agent_id, nat) hashmap \<Rightarrow> symbolic_transition list \<Rightarrow> invariant_violation list" where
  "nonce_monotonicity_loop i seen [] = []"
| "nonce_monotonicity_loop i seen (tx # txs) =
     (case map_of seen (agent_id_of (actor tx)) of
        Some prev \<Rightarrow> if nonce tx \<le> prev then [NonceMonotonicity i (nonce tx) prev] else []
      | None \<Rightarrow> []) @
     nonce_monotonicity_loop (i + 1) (AList.update (agent_id_of (actor tx)) (nonce tx) seen) txs"

definition check_nonce_monotonicity :: "block \<Rightarrow> invariant_violation list" where
  "check_nonce_monotonicity b = nonce_monotonicity_loop 0 [] (transitions (body b))"

section \<open>Lemmas\<close>

lemma cpog_errors_Nil [simp]: "cpog_errors bad e = [] \<longleftrightarrow> \<not> bad"
  by (simp add: cpog_errors_def)

lemma phi_loop_failed:
  assumes "phi_loop E b w log ps = Some l" "total_phases log = length (phases_completed log) + length ps"
    "list_all pp_passed (phases_completed log)"
  shows "is_all_passed l \<or> (\<exists>r \<in> set (phases_completed l). \<not> pp_passed r)"
  using assms
proof (induction ps arbitrary: log)
  case Nil
  then show ?case by (auto simp: phi_finalize_def is_all_passed_def)
next
  case (Cons p ps)
  then show ?case by (auto simp: Let_def phi_finalize_def split: option.splits if_splits)
qed

lemma phi_traversal_failed:
  "phi_traversal_block E b w = Some l \<Longrightarrow> is_all_passed l \<or> filter (\<lambda>r. \<not> pp_passed r) (phases_completed l) \<noteq> []"
  using phi_loop_failed [of E b w phi_log_new phi_all l]
  by (auto simp: phi_traversal_block_def phi_log_new_def phi_all_def filter_empty_conv)

lemma validate_cpog_valid:
  assumes "validate_cpog E b w parent = Some (CpogValid, spec)"
  obtains l where "phi_traversal_block E b w = Some l" "is_all_passed l" "cpog_header_errors E b w parent = []"
    "check_validator_set_capture (ex_vs E) (ex_verify E) (ex_blake3 E) (ex_change_canon E) w (bh_height (header b))
       (validator_set_changes (body b)) = Inr ()"
    "bh_height (header b) > 0 \<longrightarrow> cpog_replay E b w = ([], False, spec)"
proof -
  obtain l where l: "phi_traversal_block E b w = Some l" using phi_traversal_result by blast
  show ?thesis
  proof (rule that [OF l])
    show "is_all_passed l" "cpog_header_errors E b w parent = []"
      "check_validator_set_capture (ex_vs E) (ex_verify E) (ex_blake3 E) (ex_change_canon E) w (bh_height (header b))
         (validator_set_changes (body b)) = Inr ()"
      "bh_height (header b) > 0 \<longrightarrow> cpog_replay E b w = ([], False, spec)"
      using assms phi_traversal_failed [OF l]
      by (auto simp: validate_cpog_def l Let_def split: prod.splits if_splits sum.splits)
  qed
qed

lemma cpog_header_ok:
  assumes "cpog_header_errors E b w parent = []"
  shows "bh_parent_id (header b) = (if bh_height (header b) = 0 then ZERO_HASH else parent)"
    "bh_transition_root (header b) = merkle_root_of_bytes (ex_blake3 E) (map (\<lambda>tx. hash_bytes (tx_id tx)) (transitions (body b)))"
    "bh_receipt_root (header b) = (if receipts b = [] then ZERO_HASH
       else merkle_root_of_bytes (ex_blake3 E) (map (ex_receipt_bytes E) (receipts b)))"
    "bh_governance_hash (header b) = ex_blake3 E (ex_governance_bytes E (governance b))"
  using assms by (auto simp: cpog_header_errors_def Let_def split: if_splits)

lemma cpog_replay_ok:
  assumes "cpog_replay E b w = ([], False, spec)"
  shows "bh_tension_before (header b) = total (ws_tension_field (state w))" "nonces_sequential w (transitions (body b))"
    "bh_state_root (header b) = state_root (ex_blake3 E) spec"
proof -
  have seq: "nonces_sequential w (transitions (body b))" if "validate_nonces w (transitions (body b)) = (Inr u, w1)" for u w1
    using that validate_nonces_failed [of w "transitions (body b)"] by force
  show "bh_tension_before (header b) = total (ws_tension_field (state w))" "nonces_sequential w (transitions (body b))"
    "bh_state_root (header b) = state_root (ex_blake3 E) spec"
    using assms seq by (auto simp: cpog_replay_def Let_def split: sum.splits prod.splits)
qed

text \<open>Without validator events no phase calls the signature verification.\<close>

lemma phi_check_verify: "phi_check_single_tx (E\<lparr>ex_verify := v\<rparr>) p tx w = phi_check_single_tx E p tx w"
  by (cases p) (simp_all add: phase_execution_tx_def split: sum.splits)

lemma per_tx_loop_verify: "per_tx_loop (E\<lparr>ex_verify := v\<rparr>) p w txs = per_tx_loop E p w txs"
  by (induction txs) (simp_all add: phi_check_verify split: option.splits)

lemma execute_block_phase_verify:
  assumes "validator_set_changes (body b) = None" "body_equivocation_evidence (body b) = None"
  shows "execute_block_phase (E\<lparr>ex_verify := v\<rparr>) p b w = execute_block_phase E p b w"
  using assms
  by (cases p) (simp_all add: execute_block_phase_def per_tx_loop_verify phase_architecture_def phase_performance_def
      phase_feedback_def validate_ceilings_for_block_def check_validator_events_def)

lemma phi_loop_verify:
  assumes "validator_set_changes (body b) = None" "body_equivocation_evidence (body b) = None"
  shows "phi_loop (E\<lparr>ex_verify := v\<rparr>) b w log ps = phi_loop E b w log ps"
  by (induction ps arbitrary: log) (simp_all add: execute_block_phase_verify [OF assms] Let_def split: option.splits)

lemma cpog_replay_verify: "cpog_replay (E\<lparr>ex_verify := v\<rparr>) b w = cpog_replay E b w"
  unfolding cpog_replay_def cpog_gas_price_def by (cases E) (simp only: ext.simps)

text \<open>Calls to the durable store only accumulate.\<close>

definition store_grows :: "managed_world_state \<Rightarrow> managed_world_state \<Rightarrow> bool" where
  "store_grows w w' \<longleftrightarrow> (\<forall>d. durable (trie w) = Some d \<longrightarrow>
     (\<exists>d'. durable (trie w') = Some d' \<and> set (issued d) \<subseteq> set (issued d')))"

lemma store_grows_refl [simp]: "store_grows w w"
  by (simp add: store_grows_def)

lemma store_grows_trans: "store_grows a b \<Longrightarrow> store_grows b c \<Longrightarrow> store_grows a c"
  unfolding store_grows_def by (meson order_trans)

lemma write_through_grows:
  "durable t = Some d \<Longrightarrow> \<exists>d'. durable (write_through t c) = Some d' \<and> insert c (set (issued d)) \<subseteq> set (issued d')"
  by (auto simp: write_through_def issue_def split: option.splits)

lemma apply_write_grows:
  "durable (trie w) = Some d \<Longrightarrow> \<exists>d'. durable (trie (apply_write w sw)) = Some d' \<and>
     insert (Put (address sw) (sw_value sw)) (set (issued d)) \<subseteq> set (issued d')"
  using write_through_grows [of "(trie w)\<lparr>store := bt_insert (address sw) (sw_value sw) (store (trie w)), cached_root := None\<rparr>" d]
  by (simp add: apply_write_def trie_insert_def Let_def)

lemma apply_writes_grows: "store_grows w (snd (apply_writes w sws))"
proof (induction w sws rule: apply_writes.induct)
  case (2 w sw sws)
  show ?case
  proof (cases "length (address sw) > max_state_entry_size (consensus_params w) \<or>
      length (sw_value sw) > max_state_entry_size (consensus_params w)")
    case True
    then show ?thesis using 2(1) by (auto simp: apply_writes.simps Let_def split: prod.splits)
  next
    case False
    have "store_grows w (apply_write w sw)" using apply_write_grows by (fastforce simp: store_grows_def)
    moreover have "store_grows (apply_write w sw) (snd (apply_writes (apply_write w sw) sws))" using 2(2) False by simp
    moreover have "apply_writes w (sw # sws) = apply_writes (apply_write w sw) sws"
      using False by (simp add: apply_writes.simps Let_def)
    ultimately show ?thesis using store_grows_trans by metis
  qed
qed (simp add: apply_writes.simps)

lemma apply_delete_grows: "store_grows w (apply_delete w a)"
proof -
  have "\<exists>d'. durable (snd (trie_remove (trie w) a)) = Some d' \<and> set (issued d) \<subseteq> set (issued d')"
    if "durable (trie w) = Some d" for d
    using that write_through_grows [of "(trie w)\<lparr>store := bt_remove a (store (trie w)), cached_root := None\<rparr>" d "Delete a"]
    by (cases "map_of (store (trie w)) a") (auto simp: trie_remove_def Let_def)
  then show ?thesis by (simp add: store_grows_def apply_delete_def)
qed

lemma apply_delta_grows: "store_grows w (snd (apply_delta w d))"
proof -
  have "store_grows v (fold (\<lambda>a w. apply_delete w a) ds v)" for ds v
    by (induction ds arbitrary: v) (auto intro: store_grows_trans apply_delete_grows)
  then show ?thesis
    using apply_writes_grows [of w "writes d"] store_grows_trans by (fastforce simp: apply_delta_def split: prod.splits)
qed

lemma commit_balance_accounts_grows: "store_grows w (commit_balance_accounts hex w b ch)"
proof -
  have "store_grows v (fold (commit_balance_account hex b) as v)" for as v
    by (induction as arbitrary: v)
      (auto intro: store_grows_trans [OF apply_delta_grows] simp: commit_balance_account_def)
  then show ?thesis by (simp add: commit_balance_accounts_def)
qed

lemma commit_treasury_grows: "store_grows w (commit_treasury_state w t)"
  by (simp add: commit_treasury_state_def apply_delta_grows)

lemma raw_write_issued:
  assumes "durable (trie w) = Some d" "length k \<le> max_state_entry_size (consensus_params w)"
    "length v \<le> max_state_entry_size (consensus_params w)"
  shows "\<exists>d'. durable (trie (snd (apply_delta w (single_write k v)))) = Some d' \<and> Put k v \<in> set (issued d')"
  using assms apply_write_grows [of w d "\<lparr>address = k, sw_value = v\<rparr>"]
  by (auto simp: apply_delta_def apply_writes.simps Let_def)

text \<open>What the economics of a block without receipts does: nobody pays, nothing fails.\<close>

lemma receiptless_economics:
  "\<exists>out w' b' t'. apply_block_economics B canon hex w b t txs [] ver pk price reward = (Inr out, w', b', t') \<and>
     total_fees out = 0 \<and> store_grows w w' \<and> consensus_params w' = consensus_params w"
proof -
  obtain rw t' where rw: "distribute_reward t reward = (rw, t')" by fastforce
  let ?acc = "free_block_acc txs" and ?a = "validator_spend_account B canon ver pk"
  let ?b = "if rw > 0 then credit b ?a rw else b"
  let ?w = "commit_balance_accounts hex w ?b (if rw > 0 then insert ?a (fa_changed ?acc) else fa_changed ?acc)"
  let ?v = "if fa_total ?acc > 0 \<or> rw > 0 \<or> state_has_treasury_keys ?w then commit_treasury_state ?w t' else ?w"
  have "store_grows w ?v"
    using commit_balance_accounts_grows commit_treasury_grows store_grows_trans by (simp, metis)
  moreover have "consensus_params (commit_balance_accounts hex w c ch) = consensus_params w" for c ch
  proof -
    have "consensus_params (fold (commit_balance_account hex c) as v) = consensus_params v" for as v
      by (induction as arbitrary: v) (simp_all add: commit_balance_account_def)
    then show ?thesis by (simp add: commit_balance_accounts_def)
  qed
  then have "consensus_params ?v = consensus_params w" by (simp add: commit_treasury_state_def)
  ultimately show ?thesis
    by (auto simp: apply_block_economics_def settle_block_economics_def rw Let_def free_block_acc_facts)
qed

lemma sequential_monotone:
  "nonces_sequential w txs \<Longrightarrow> (\<And>a n. map_of seen a = Some n \<Longrightarrow> n \<le> last_nonce w a) \<Longrightarrow>
     nonce_monotonicity_loop i seen txs = []"
proof (induction i seen txs arbitrary: w rule: nonce_monotonicity_loop.induct)
  case (2 i seen tx txs)
  let ?a = "agent_id_of (actor tx)"
  obtain w' where w': "check_nonce w ?a (nonce tx) = Inr w'" and rest: "nonces_sequential w' txs"
    using 2(2) by (auto simp: nonces_sequential_Cons)
  then have n: "nonce tx = last_nonce w ?a + 1" and last: "\<And>b. last_nonce w' b = (if b = ?a then nonce tx else last_nonce w b)"
    by (auto simp: check_nonce_Inr)
  have "\<And>b m. map_of (AList.update ?a (nonce tx) seen) b = Some m \<Longrightarrow> m \<le> last_nonce w' b"
    using 2(3) last by (auto simp: update_conv' split: if_splits)
  then have "nonce_monotonicity_loop (i + 1) (AList.update ?a (nonce tx) seen) txs = []" using 2(1) rest by blast
  then show ?case using n 2(3) [of ?a] by (fastforce split: option.splits)
qed simp

section \<open>A valid block without receipts\<close>

abbreviation fresh_tx :: symbolic_transition where
  "fresh_tx \<equiv> sample_write KStateWrite ''data/x''"

definition receiptless_block :: block where
  "receiptless_block =
     (sample_block [fresh_tx])\<lparr>header := sample_header\<lparr>
        bh_transition_root := merkle_root_of_bytes (\<lambda>_. 7) [hash_bytes 1], bh_governance_hash := 7,
        bh_state_root := state_root (\<lambda>_. 7) (snd (apply_delta world_new (single_write ''data/x'' ''v''))),
        bh_balance_root := balance_root (\<lambda>_. 7) ledger_new\<rparr>\<rparr>"

lemma fresh_world_reads:
  assumes "store (trie w) = []"
  shows "balances_from_trie hexdec w = Inr ledger_new" "treasury_from_trie w = Inr treasury_new"
  using assms by (simp_all add: balances_from_trie_def treasury_from_trie_def trie_iter_def)

lemma fresh_nonce: "agent_nonces w = [] \<Longrightarrow> nonces_sequential w [fresh_tx]"
  using validate_nonces_failed [of w "[fresh_tx]"]
  by (auto simp: validate_nonces_def check_nonce_def sample_write_def machine_int)

lemma fresh_economics:
  assumes "store (trie w) = []"
  shows "\<exists>out t'. apply_block_economics B canon hex w ledger_new treasury_new [fresh_tx] [] ver pk price default_block_reward
      = (Inr out, w, ledger_new, t')"
proof -
  have "fst (distribute_reward treasury_new default_block_reward) = 0"
    by (simp add: distribute_reward_def treasury_new_def default_block_reward_def Let_def from_integer_def SCALE_def i128_ops machine_int)
  then obtain t' where "distribute_reward treasury_new default_block_reward = (0, t')"
    by (metis prod.collapse)
  then show ?thesis
    using assms by (simp add: apply_block_economics_def settle_block_economics_def free_block_acc_facts Let_def
        commit_balance_accounts_def state_has_treasury_keys_def trie_iter_def)
qed

lemma receiptless_block_fields:
  "transitions (body receiptless_block) = [fresh_tx]" "receipts receiptless_block = []"
  "bh_height (header receiptless_block) = 1" "bh_version (header receiptless_block) = 2"
  "validator_set_changes (body receiptless_block) = None" "body_equivocation_evidence (body receiptless_block) = None"
  by (simp_all add: receiptless_block_def sample_block_def sample_header_def)

lemma receiptless_replay:
  "\<exists>spec. cpog_replay signing_ext receiptless_block world_new = ([], False, spec)"
proof -
  have empty: "store (trie world_new) = []" by (simp add: world_new_def trie_new_def)
  obtain w1 where w1: "validate_nonces world_new [fresh_tx] = (Inr (), w1)"
    and same: "trie w1 = trie world_new" "consensus_params w1 = consensus_params world_new"
    using validate_nonces_passed [OF fresh_nonce [of world_new]] nonce_loop_frame
    unfolding validate_nonces_def by (metis managed_world_state.select_convs(3) world_new_def)
  then have "store (trie w1) = []" using empty by simp
  moreover obtain price where price: "cpog_gas_price signing_ext receiptless_block world_new = Inr price"
    by (simp add: cpog_gas_price_def receiptless_block_fields PATCH_05_BLOCK_VERSION_def)
  ultimately obtain out t' where eco: "apply_block_economics (ex_blake3 signing_ext) (ex_seal_bytes signing_ext)
      (ex_hex signing_ext) w1 ledger_new treasury_new [fresh_tx] [] (bh_version (header receiptless_block))
      (bh_validator_id (header receiptless_block)) price default_block_reward = (Inr out, w1, ledger_new, t')"
    using fresh_economics by metis
  have "trie (snd (apply_delta w1 (single_write ''data/x'' ''v''))) = trie (snd (apply_delta world_new (single_write ''data/x'' ''v'')))"
    using same by (simp add: apply_delta_def apply_writes.simps Let_def)
  then have "state_root (\<lambda>_. 7) (snd (apply_delta w1 (single_write ''data/x'' ''v''))) = bh_state_root (header receiptless_block)"
    by (simp add: state_root_def receiptless_block_def)
  moreover have "apply_block_transitions (ex_hex signing_ext) w1 ledger_new [fresh_tx] =
      ([single_write ''data/x'' ''v''], snd (apply_delta w1 (single_write ''data/x'' ''v'')), ledger_new)"
    by (simp add: apply_block_transitions_def apply_transition_def commit_balance_accounts_def Let_def sample_write_def)
  moreover have "bh_tension_before (header receiptless_block) = total (ws_tension_field (state world_new))"
    "bh_balance_root (header receiptless_block) = balance_root (\<lambda>_. 7) ledger_new" "ex_blake3 signing_ext = (\<lambda>_. 7)"
    by (simp_all add: receiptless_block_def sample_header_def world_new_def world_state_default_def tension_field_default_def
        signing_ext_def)
  ultimately show ?thesis
    using w1 price eco by (simp add: cpog_replay_def Let_def fresh_world_reads [OF empty] receiptless_block_fields cpog_errors_def)
qed

lemma receiptless_phases: "phase_passes signing_ext receiptless_block world_new p"
proof (cases "is_per_tx_phase p")
  case True
  then show ?thesis by (simp add: phase_passes_per_tx receiptless_block_fields sample_write_fresh)
next
  case False
  then have "p \<in> {Topology, Body, Architecture, Performance, Feedback, Evolution}" by (cases p) (simp_all add: is_per_tx_phase_def)
  then show ?thesis by (auto simp: receiptless_block_def sample_phase_simps)
qed

lemma receiptless_block_valid: "\<exists>spec. validate_cpog signing_ext receiptless_block world_new 9 = Some (CpogValid, spec)"
proof -
  obtain spec where replay: "cpog_replay signing_ext receiptless_block world_new = ([], False, spec)"
    using receiptless_replay by blast
  obtain l where l: "phi_traversal_block signing_ext receiptless_block world_new = Some l" "is_all_passed l"
    using phi_traversal_result [of signing_ext receiptless_block world_new] receiptless_phases by auto
  have "cpog_header_errors signing_ext receiptless_block world_new 9 = []"
    by (simp add: cpog_header_errors_def receiptless_block_def sample_block_def sample_header_def signing_ext_def
        cpog_errors_def sample_ext_def world_new_def world_state_default_def tension_field_default_def
        tension_budget_default_def sample_write_def U32_MAX_def from_integer_def SCALE_def tension_ops i128_ops machine_int)
  then show ?thesis
    using replay l by (simp add: validate_cpog_def receiptless_block_fields check_validator_set_capture_def)
qed

section \<open>Properties\<close>

text \<open>
  C10. What validity of a block above genesis guarantees: it extends the given parent, its transition and
  receipt roots commit to its contents, the nonces of its transitions continue those of the state in
  order, its tension starts from that of the state, its state root is the root of the state that the
  replay computes, its validator changes were checked against the current set, and all thirteen phases
  of the traversal passed.
\<close>

theorem cpog_valid_block:
  assumes "validate_cpog E b w parent = Some (CpogValid, spec)" "0 < bh_height (header b)"
  shows "bh_parent_id (header b) = parent \<and>
    bh_transition_root (header b) =
      merkle_root_of_bytes (ex_blake3 E) (map (\<lambda>tx. hash_bytes (tx_id tx)) (transitions (body b))) \<and>
    bh_receipt_root (header b) = (if receipts b = [] then ZERO_HASH
      else merkle_root_of_bytes (ex_blake3 E) (map (ex_receipt_bytes E) (receipts b))) \<and>
    nonces_sequential w (transitions (body b)) \<and>
    bh_tension_before (header b) = total (ws_tension_field (state w)) \<and>
    bh_state_root (header b) = state_root (ex_blake3 E) spec \<and>
    is_ok (check_validator_set_capture (ex_vs E) (ex_verify E) (ex_blake3 E) (ex_change_canon E) w
      (bh_height (header b)) (validator_set_changes (body b))) \<and>
    (\<exists>l. phi_traversal_block E b w = Some l \<and> is_all_passed l)"
proof -
  from assms(1) obtain l where "phi_traversal_block E b w = Some l" "is_all_passed l"
    and "cpog_header_errors E b w parent = []"
    and "check_validator_set_capture (ex_vs E) (ex_verify E) (ex_blake3 E) (ex_change_canon E) w (bh_height (header b))
       (validator_set_changes (body b)) = Inr ()"
    and "bh_height (header b) > 0 \<longrightarrow> cpog_replay E b w = ([], False, spec)"
    by (rule validate_cpog_valid)
  then show ?thesis using cpog_header_ok [of E b w parent] cpog_replay_ok [of E b w spec] assms(2) by simp
qed

theorem cpog_valid_block_witness:
  "\<exists>spec. validate_cpog signing_ext receiptless_block world_new 9 = Some (CpogValid, spec) \<and>
     nonces_sequential world_new (transitions (body receiptless_block))"
  using receiptless_block_valid cpog_valid_block [of signing_ext receiptless_block world_new 9] receiptless_block_fields(3)
  by fastforce

text \<open>
  The validity of a block does not depend on the signatures of its transitions: on blocks without
  validator events the result is the same whatever the signature verification answers.
\<close>

theorem cpog_ignores_signatures:
  assumes "validator_set_changes (body b) = None" "body_equivocation_evidence (body b) = None"
  shows "validate_cpog (E\<lparr>ex_verify := v\<rparr>) b w parent = validate_cpog E b w parent"
proof -
  have "phi_traversal_block (E\<lparr>ex_verify := v\<rparr>) b w = phi_traversal_block E b w"
    by (simp add: phi_traversal_block_def phi_loop_verify [OF assms])
  moreover have "cpog_header_errors (E\<lparr>ex_verify := v\<rparr>) b w parent = cpog_header_errors E b w parent"
    unfolding cpog_header_errors_def by (cases E) (simp only: ext.simps)
  ultimately show ?thesis
    using assms
    by (simp add: validate_cpog_def cpog_replay_verify check_validator_set_capture_def Let_def split: prod.splits)
qed

theorem cpog_ignores_signatures_witness:
  "\<exists>spec. validate_cpog (signing_ext\<lparr>ex_verify := (\<lambda>_ _ _. False)\<rparr>) receiptless_block world_new 9 = Some (CpogValid, spec)"
  using receiptless_block_valid cpog_ignores_signatures [of receiptless_block "\<lambda>_ _ _. False" signing_ext world_new 9]
  by (simp add: receiptless_block_fields)

text \<open>
  A block with transitions but no receipts is valid and free: the check of the receipt count is skipped
  when there are no receipts, and then no fee is collected whatever the transitions are; only the
  invariant monitor reports the missing receipt.
\<close>

theorem receiptless_block_free:
  "(\<exists>spec. validate_cpog signing_ext receiptless_block world_new 9 = Some (CpogValid, spec)) \<and>
   length (transitions (body receiptless_block)) = 1 \<and> receipts receiptless_block = [] \<and>
   ReceiptCompleteness 1 0 \<in> set (check_invariants B receiptless_block w b supply) \<and>
   (\<exists>out r. apply_block_economics B canon hex w b t txs [] ver pk price reward = (Inr out, r) \<and> total_fees out = 0)"
  using receiptless_block_valid receiptless_economics [of B canon hex w b t txs ver pk price reward]
  by (fastforce simp: receiptless_block_fields check_invariants_def Let_def)

text \<open>
  The invariant monitor never reports a nonce on a valid block: when a block above genesis passes the
  validation, the nonces of every agent increase strictly within it.
\<close>

theorem valid_block_nonces_monotone:
  assumes "validate_cpog E b w parent = Some (CpogValid, spec)" "0 < bh_height (header b)"
  shows "check_nonce_monotonicity b = []"
proof -
  from assms obtain l where "cpog_replay E b w = ([], False, spec)" by (elim validate_cpog_valid) simp
  then have "nonces_sequential w (transitions (body b))" by (rule cpog_replay_ok)
  then show ?thesis unfolding check_nonce_monotonicity_def by (rule sequential_monotone) simp
qed

theorem valid_block_nonces_witness: "check_nonce_monotonicity receiptless_block = []"
proof -
  obtain spec where "validate_cpog signing_ext receiptless_block world_new 9 = Some (CpogValid, spec)"
    using receiptless_block_valid by blast
  then show ?thesis by (rule valid_block_nonces_monotone) (simp add: receiptless_block_fields)
qed

text \<open>
  Validating a block writes to the durable store: the replay runs on a clone that shares the store
  handle, so the raw write of a block's transition reaches the store although the block is only being
  checked, and also when the block is then rejected for a wrong state root.
\<close>

theorem speculative_replay_persists:
  assumes "0 < bh_height (header b)" "transitions (body b) = [tx]" "payload tx = PWrite k v" "receipts b = []"
    and "balances_from_trie (ex_hexdec E) w = Inr bal" "treasury_from_trie w = Inr tr"
    and "nonces_sequential w [tx]" "cpog_gas_price E b w = Inr price" "durable (trie w) = Some d"
    and "length k \<le> max_state_entry_size (consensus_params w)" "length v \<le> max_state_entry_size (consensus_params w)"
  shows "\<exists>res spec d'. validate_cpog E b w parent = Some (res, spec) \<and> durable (trie spec) = Some d' \<and>
    Put k v \<in> set (issued d') \<and> (bh_state_root (header b) \<noteq> state_root (ex_blake3 E) spec \<longrightarrow> res \<noteq> CpogValid)"
proof -
  obtain w1 where w1: "validate_nonces w [tx] = (Inr (), w1)" and same: "trie w1 = trie w" "consensus_params w1 = consensus_params w"
    using validate_nonces_passed [OF assms(7)] nonce_loop_frame unfolding validate_nonces_def by metis
  obtain out w2 bal2 tr2 where eco: "apply_block_economics (ex_blake3 E) (ex_seal_bytes E) (ex_hex E) w1 bal tr [tx] []
      (bh_version (header b)) (bh_validator_id (header b)) price default_block_reward = (Inr out, w2, bal2, tr2)"
    and grows: "store_grows w1 w2" and params: "consensus_params w2 = consensus_params w1"
    using receiptless_economics by blast
  let ?w3 = "snd (apply_delta w2 (single_write k v))"
  obtain d2 where "durable (trie w2) = Some d2" using grows assms(9) same by (auto simp: store_grows_def)
  then obtain d3 where d3: "durable (trie ?w3) = Some d3" "Put k v \<in> set (issued d3)"
    using raw_write_issued [of w2 d2 k v] assms(10,11) params same by auto
  have trans: "apply_block_transitions (ex_hex E) w2 bal2 [tx] = ([single_write k v], ?w3, bal2)"
    using assms(3) by (simp add: apply_block_transitions_def apply_transition_def commit_balance_accounts_def Let_def)
  let ?w4 = "if bh_height (header b) mod 100 = 0 then commit_treasury_state ?w3 (snd (advance_epoch tr2)) else ?w3"
  have "store_grows ?w3 ?w4" by (simp add: commit_treasury_grows)
  then obtain d4 where d4: "durable (trie ?w4) = Some d4" "Put k v \<in> set (issued d4)"
    using d3 by (auto simp: store_grows_def)
  have replay: "\<exists>errs. cpog_replay E b w = (errs, False, ?w4) \<and>
      (bh_state_root (header b) \<noteq> state_root (ex_blake3 E) ?w4 \<longrightarrow> errs \<noteq> [])"
    using assms(2,4-6,8) by (simp add: cpog_replay_def Let_def w1 eco trans)
  obtain l where l: "phi_traversal_block E b w = Some l" using phi_traversal_result by blast
  have "\<exists>res. validate_cpog E b w parent = Some (res, ?w4) \<and>
      (bh_state_root (header b) \<noteq> state_root (ex_blake3 E) ?w4 \<longrightarrow> res \<noteq> CpogValid)"
    using replay assms(1) by (auto simp: validate_cpog_def l Let_def)
  then show ?thesis using d4 by blast
qed

definition stored_world :: managed_world_state where
  "stored_world = world_new\<lparr>trie := trie_new\<lparr>durable := Some
     \<lparr>issued = [], answer = (\<lambda>_ _. None), iter_all = (\<lambda>_. Inr [])\<rparr>\<rparr>\<rparr>"

theorem speculative_replay_witness:
  "\<exists>res spec d'. validate_cpog signing_ext (sample_block [fresh_tx]) stored_world 9 = Some (res, spec) \<and>
     durable (trie spec) = Some d' \<and> Put ''data/x'' ''v'' \<in> set (issued d')"
proof -
  have empty: "store (trie stored_world) = []" by (simp add: stored_world_def trie_new_def)
  have price: "cpog_gas_price signing_ext (sample_block [fresh_tx]) stored_world =
      Inr (effective_fee economic_state_default 0 (current_budget tension_budget_default))"
    by (simp add: cpog_gas_price_def sample_block_def sample_header_def PATCH_05_BLOCK_VERSION_def stored_world_def
        world_new_def world_state_default_def tension_field_default_def)
  have dur: "durable (trie stored_world) = Some \<lparr>issued = [], answer = (\<lambda>_ _. None), iter_all = (\<lambda>_. Inr [])\<rparr>"
    by (simp add: stored_world_def)
  have cap: "max_state_entry_size (consensus_params stored_world) = 1048576" and nonces: "agent_nonces stored_world = []"
    by (simp_all add: stored_world_def world_new_def consensus_params_default_def)
  have "0 < bh_height (header (sample_block [fresh_tx]))" "transitions (body (sample_block [fresh_tx])) = [fresh_tx]"
    "payload fresh_tx = PWrite ''data/x'' ''v''" "receipts (sample_block [fresh_tx]) = []"
    by (simp_all add: sample_block_def sample_header_def sample_write_def)
  from speculative_replay_persists [OF this fresh_world_reads [OF empty] fresh_nonce [OF nonces] price dur, of 9] show ?thesis
    using cap by auto
qed

end
