(* ===== verification/Scc_Mempool.thy ===== *)
theory Scc_Mempool
  imports Scc_Validate Scc_Containment "HOL-Library.Product_Lexorder"
begin

text \<open>
  The transaction pool of a node (\<open>node/mempool.rs\<close>): admission with duplicate and replay protection,
  the bounded memory of confirmed transactions, and the drain that hands a block producer a batch of
  transitions. The lemmas show that the bookkeeping sets describe the queues, and that a drained batch
  passes the nonce check of the world state it was drained for.
\<close>

section \<open>Operations\<close>

definition MAX_CONFIRMED_IDS :: nat where "MAX_CONFIRMED_IDS = 100000"

record mempool =
  mp_pending :: "symbolic_transition list"
  mp_seen_ids :: "hash set"
  mp_confirmed_ids :: "hash set"
  mp_confirmed_order :: "hash list"
  mp_max_size :: nat
  mp_containment :: containment_state

datatype mempool_error = MpQuarantined | MpDuplicate | MpConfirmed

definition mempool_new :: "nat \<Rightarrow> mempool" where
  "mempool_new n =
     \<lparr>mp_pending = [], mp_seen_ids = {}, mp_confirmed_ids = {}, mp_confirmed_order = [], mp_max_size = n,
      mp_containment = containment_state_default\<rparr>"

text \<open>The two loops of \<open>mark_confirmed\<close>: recording new ids, then forgetting the oldest.\<close>

fun confirm_ids :: "hash list \<Rightarrow> hash set \<times> hash list \<Rightarrow> hash set \<times> hash list" where
  "confirm_ids [] s = s"
| "confirm_ids (i # is) (ids, order) =
     confirm_ids is (if i \<in> ids then (ids, order) else (insert i ids, order @ [i]))"

fun prune_confirmed :: "hash set \<Rightarrow> hash list \<Rightarrow> hash set \<times> hash list" where
  "prune_confirmed ids [] = (ids, [])"
| "prune_confirmed ids (oldest # order) =
     (if card ids > MAX_CONFIRMED_IDS then prune_confirmed (ids - {oldest}) order else (ids, oldest # order))"

definition mark_confirmed :: "mempool \<Rightarrow> hash list \<Rightarrow> mempool" where
  "mark_confirmed p is =
     (case confirm_ids is (mp_confirmed_ids p, mp_confirmed_order p) of
        (ids, order) \<Rightarrow>
          (case prune_confirmed ids order of
             (ids', order') \<Rightarrow> p\<lparr>mp_confirmed_ids := ids', mp_confirmed_order := order'\<rparr>))"

text \<open>A full pool drops its oldest entry to make room.\<close>

definition evict_oldest :: "mempool \<Rightarrow> mempool" where
  "evict_oldest p =
     (if mp_max_size p \<le> length (mp_pending p)
      then case mp_pending p of
             [] \<Rightarrow> p
           | evicted # rest \<Rightarrow> p\<lparr>mp_pending := rest, mp_seen_ids := mp_seen_ids p - {tx_id evicted}\<rparr>
      else p)"

definition mempool_add :: "mempool \<Rightarrow> symbolic_transition \<Rightarrow> mempool_error + mempool" where
  "mempool_add p tx =
     (if \<not> node_is_allowed (mp_containment p) (agent_id_of (actor tx)) then Inl MpQuarantined
      else if tx_id tx \<in> mp_seen_ids p then Inl MpDuplicate
      else if tx_id tx \<in> mp_confirmed_ids p then Inl MpConfirmed
      else
        let p' = evict_oldest p
        in Inr (p'\<lparr>mp_seen_ids := insert (tx_id tx) (mp_seen_ids p'), mp_pending := mp_pending p' @ [tx]\<rparr>))"

definition u128_saturating_succ :: "nat \<Rightarrow> nat" where
  "u128_saturating_succ n = (if int (n + 1) > U128_MAX then nat U128_MAX else n + 1)"

text \<open>
  The loop of \<open>drain_validated\<close> over the pending transitions: the local nonces, the containment state,
  and the transitions it lets through. Every transition it visits is marked for removal.
\<close>

fun drain_loop ::
  "managed_world_state \<Rightarrow> (agent_id, nat) hashmap \<Rightarrow> containment_state \<Rightarrow> symbolic_transition list \<Rightarrow>
   symbolic_transition list \<times> hash list \<times> containment_state" where
  "drain_loop w local c [] = ([], [], c)"
| "drain_loop w local c (tx # txs) =
     (let a = agent_id_of (actor tx);
          committed = (case map_of (agent_nonces w) a of Some k \<Rightarrow> k | None \<Rightarrow> 0);
          expected = u128_saturating_succ (case map_of local a of Some k \<Rightarrow> k | None \<Rightarrow> committed)
      in if nonce tx = 0 \<or> nonce tx \<noteq> expected
         then (case drain_loop w local (record_invalid c a (from_integer 1)) txs of
                 (valid, remove, c') \<Rightarrow> (valid, tx_id tx # remove, c'))
         else case admit_check_structural tx w of
                Inr _ \<Rightarrow>
                  (case drain_loop w (AList.update a (nonce tx) local) (record_valid c a (from_integer 1)) txs of
                     (valid, remove, c') \<Rightarrow> (tx # valid, tx_id tx # remove, c'))
              | Inl _ \<Rightarrow>
                  (case drain_loop w local (record_invalid c a (from_integer 1)) txs of
                     (valid, remove, c') \<Rightarrow> (valid, tx_id tx # remove, c')))"

definition drain_validated :: "mempool \<Rightarrow> managed_world_state \<Rightarrow> symbolic_transition list \<times> mempool" where
  "drain_validated p w =
     (case drain_loop w [] (mp_containment p) (mp_pending p) of
        (valid, remove, c) \<Rightarrow>
          (sort_key (\<lambda>t. (nonce t, tx_id t)) valid,
           p\<lparr>mp_pending := filter (\<lambda>t. tx_id t \<notin> set remove) (mp_pending p),
             mp_seen_ids := mp_seen_ids p - set remove,
             mp_containment := containment_evaluate c\<rparr>))"

definition mempool_len :: "mempool \<Rightarrow> nat" where "mempool_len p = length (mp_pending p)"

definition pending_snapshot :: "mempool \<Rightarrow> symbolic_transition list" where "pending_snapshot p = mp_pending p"

section \<open>The bookkeeping invariant\<close>

definition mempool_ok :: "mempool \<Rightarrow> bool" where
  "mempool_ok p \<longleftrightarrow>
     distinct (map tx_id (mp_pending p)) \<and> mp_seen_ids p = set (map tx_id (mp_pending p)) \<and>
     length (mp_pending p) \<le> max 1 (mp_max_size p) \<and>
     distinct (mp_confirmed_order p) \<and> mp_confirmed_ids p = set (mp_confirmed_order p) \<and>
     length (mp_confirmed_order p) \<le> MAX_CONFIRMED_IDS"

datatype mempool_op =
    MpAdd symbolic_transition
  | MpMark "hash list"
  | MpDrain managed_world_state
  | MpTick

fun run_mempool_op :: "mempool_op \<Rightarrow> mempool \<Rightarrow> mempool" where
  "run_mempool_op (MpAdd tx) p = (case mempool_add p tx of Inl _ \<Rightarrow> p | Inr p' \<Rightarrow> p')"
| "run_mempool_op (MpMark is) p = mark_confirmed p is"
| "run_mempool_op (MpDrain w) p = snd (drain_validated p w)"
| "run_mempool_op MpTick p = p\<lparr>mp_containment := tick_block (mp_containment p)\<rparr>"

lemma mempool_ok_new: "mempool_ok (mempool_new n)"
  by (simp add: mempool_ok_def mempool_new_def)

lemma evict_oldest_ok:
  assumes "mempool_ok p"
  shows "mempool_ok (evict_oldest p)" "length (mp_pending (evict_oldest p)) < max 1 (mp_max_size p)"
    "set (mp_pending (evict_oldest p)) \<subseteq> set (mp_pending p)"
  using assms by (auto simp: mempool_ok_def evict_oldest_def rev_image_eqI split: list.splits)

lemma evict_oldest_frame [simp]:
  "mp_confirmed_ids (evict_oldest p) = mp_confirmed_ids p" "mp_confirmed_order (evict_oldest p) = mp_confirmed_order p"
  "mp_max_size (evict_oldest p) = mp_max_size p" "mp_containment (evict_oldest p) = mp_containment p"
  by (simp_all add: evict_oldest_def split: list.splits)

lemma mempool_add_ok:
  assumes "mempool_ok p" "mempool_add p tx = Inr p'"
  shows "mempool_ok p'"
proof -
  let ?q = "evict_oldest p"
  have q: "mempool_ok ?q" "length (mp_pending ?q) < max 1 (mp_max_size p)" using evict_oldest_ok [OF assms(1)] by auto
  have "tx_id tx \<notin> mp_seen_ids p" and p': "p' = ?q\<lparr>mp_seen_ids := insert (tx_id tx) (mp_seen_ids ?q), mp_pending := mp_pending ?q @ [tx]\<rparr>"
    using assms(2) by (auto simp: mempool_add_def Let_def split: if_splits)
  then have "tx_id tx \<notin> set (map tx_id (mp_pending ?q))"
    using assms(1) evict_oldest_ok(3) [OF assms(1)] by (auto simp: mempool_ok_def)
  then show ?thesis using q unfolding p' by (auto simp: mempool_ok_def)
qed

definition tracks :: "hash set \<times> hash list \<Rightarrow> bool" where
  "tracks s \<longleftrightarrow> distinct (snd s) \<and> fst s = set (snd s)"

lemma confirm_ids_tracks: "tracks s \<Longrightarrow> tracks (confirm_ids is s)"
  by (induction "is" s rule: confirm_ids.induct) (auto simp: tracks_def)

lemma prune_confirmed_drop:
  "distinct order \<Longrightarrow>
   prune_confirmed (set order) order =
     (set (drop (length order - MAX_CONFIRMED_IDS) order), drop (length order - MAX_CONFIRMED_IDS) order)"
proof (induction order)
  case (Cons x order)
  show ?case
  proof (cases "length order + 1 > MAX_CONFIRMED_IDS")
    case True
    then have "length (x # order) - MAX_CONFIRMED_IDS = Suc (length order - MAX_CONFIRMED_IDS)" by simp
    then show ?thesis using Cons True by (simp add: distinct_card)
  next
    case False
    then show ?thesis using Cons.prems by (simp add: card_insert_if distinct_card)
  qed
qed simp

lemma mark_confirmed_tracks:
  assumes "mempool_ok p"
  obtains ids order where "confirm_ids is (mp_confirmed_ids p, mp_confirmed_order p) = (ids, order)" "tracks (ids, order)"
    "mark_confirmed p is =
       p\<lparr>mp_confirmed_ids := set (drop (length order - MAX_CONFIRMED_IDS) order),
         mp_confirmed_order := drop (length order - MAX_CONFIRMED_IDS) order\<rparr>"
proof -
  obtain ids order where c: "confirm_ids is (mp_confirmed_ids p, mp_confirmed_order p) = (ids, order)" by fastforce
  have "tracks (ids, order)"
    using confirm_ids_tracks [of "(mp_confirmed_ids p, mp_confirmed_order p)" "is"] assms
    unfolding c by (simp add: mempool_ok_def tracks_def)
  then show thesis using that [OF c] prune_confirmed_drop [of order] c by (simp add: mark_confirmed_def tracks_def)
qed

lemma mark_confirmed_ok: "mempool_ok p \<Longrightarrow> mempool_ok (mark_confirmed p is)"
proof -
  assume ok: "mempool_ok p"
  obtain ids order where "tracks (ids, order)" "mark_confirmed p is =
       p\<lparr>mp_confirmed_ids := set (drop (length order - MAX_CONFIRMED_IDS) order),
         mp_confirmed_order := drop (length order - MAX_CONFIRMED_IDS) order\<rparr>"
    using mark_confirmed_tracks [OF ok] by metis
  then show ?thesis using ok by (simp add: mempool_ok_def tracks_def)
qed

lemma drain_loop_removes: "drain_loop w local c txs = (valid, remove, c') \<Longrightarrow> remove = map tx_id txs"
  by (induction txs arbitrary: local c valid remove)
    (fastforce simp: Let_def split: if_splits sum.splits prod.splits)+

lemma drain_empties:
  assumes "drain_validated p w = (batch, p')"
  shows "mp_pending p' = []" "mp_seen_ids p' = mp_seen_ids p - set (map tx_id (mp_pending p))"
    "mp_confirmed_ids p' = mp_confirmed_ids p" "mp_confirmed_order p' = mp_confirmed_order p"
proof -
  obtain valid remove c where d: "drain_loop w [] (mp_containment p) (mp_pending p) = (valid, remove, c)" by (metis prod_cases3)
  show "mp_pending p' = []" "mp_seen_ids p' = mp_seen_ids p - set (map tx_id (mp_pending p))"
    "mp_confirmed_ids p' = mp_confirmed_ids p" "mp_confirmed_order p' = mp_confirmed_order p"
    using assms d drain_loop_removes [OF d] by (auto simp: drain_validated_def filter_empty_conv)
qed

lemma drain_ok: "mempool_ok p \<Longrightarrow> mempool_ok (snd (drain_validated p w))"
  using drain_empties [of p w] by (cases "drain_validated p w") (simp add: mempool_ok_def)

lemma run_mempool_ok: "mempool_ok p \<Longrightarrow> mempool_ok (fold run_mempool_op ops p)"
proof (induction ops arbitrary: p)
  case (Cons op ops)
  have "mempool_ok (run_mempool_op op p)"
  proof (cases op)
    case (MpAdd tx)
    then show ?thesis using Cons.prems mempool_add_ok [of p tx] by (auto split: sum.splits)
  next
    case MpTick
    then show ?thesis using Cons.prems by (simp add: mempool_ok_def)
  qed (use Cons.prems mark_confirmed_ok drain_ok in simp_all)
  then show ?case using Cons.IH by simp
qed simp

lemma mp_max_size_op [simp]: "mp_max_size (run_mempool_op op p) = mp_max_size p"
  by (cases op) (auto simp: mempool_add_def mark_confirmed_def drain_validated_def Let_def split: sum.splits prod.splits)

section \<open>The drained batch\<close>

definition local_nonce :: "managed_world_state \<Rightarrow> (agent_id, nat) hashmap \<Rightarrow> agent_id \<Rightarrow> nat" where
  "local_nonce w local a = (case map_of local a of Some k \<Rightarrow> k | None \<Rightarrow> last_nonce w a)"

lemma local_nonce_simps [simp]:
  "local_nonce w [] a = last_nonce w a"
  "local_nonce w (AList.update b n local) a = (if a = b then n else local_nonce w local a)"
  by (simp_all add: local_nonce_def)

definition batch_continues :: "managed_world_state \<Rightarrow> (agent_id, nat) hashmap \<Rightarrow> symbolic_transition list \<Rightarrow> bool" where
  "batch_continues w local txs \<longleftrightarrow> (\<forall>a. continues (local_nonce w local a) (map nonce (txs_of a txs)))"

lemma batch_continues_Nil [simp]: "batch_continues w local []"
  by (simp add: batch_continues_def)

lemma batch_continues_Cons:
  "batch_continues w local (tx # txs) \<longleftrightarrow>
     nonce tx = local_nonce w local (agent_id_of (actor tx)) + 1 \<and> int (nonce tx) \<le> U128_MAX \<and>
     batch_continues w (AList.update (agent_id_of (actor tx)) (nonce tx) local) txs"
proof -
  let ?a = "agent_id_of (actor tx)"
  have "continues (local_nonce w local b) (map nonce (txs_of b (tx # txs))) \<longleftrightarrow>
      (b = ?a \<longrightarrow> nonce tx = local_nonce w local ?a + 1 \<and> int (nonce tx) \<le> U128_MAX) \<and>
      continues (local_nonce w (AList.update ?a (nonce tx) local) b) (map nonce (txs_of b txs))" for b
    by auto
  then show ?thesis unfolding batch_continues_def by blast
qed

text \<open>One turn of the drain in terms of the local nonces.\<close>

definition drains :: "managed_world_state \<Rightarrow> (agent_id, nat) hashmap \<Rightarrow> symbolic_transition \<Rightarrow> bool" where
  "drains w local tx \<longleftrightarrow>
     nonce tx \<noteq> 0 \<and> nonce tx = u128_saturating_succ (local_nonce w local (agent_id_of (actor tx))) \<and>
     admit_check_structural tx w = Inr ()"

lemma drain_loop_valid:
  "fst (drain_loop w local c (tx # txs)) =
     (let a = agent_id_of (actor tx)
      in if drains w local tx
         then tx # fst (drain_loop w (AList.update a (nonce tx) local) (record_valid c a (from_integer 1)) txs)
         else fst (drain_loop w local (record_invalid c a (from_integer 1)) txs))"
proof -
  have "drains w local tx \<longleftrightarrow>
      \<not> (nonce tx = 0 \<or> nonce tx \<noteq> u128_saturating_succ (case map_of local (agent_id_of (actor tx)) of Some k \<Rightarrow> k
         | None \<Rightarrow> (case map_of (agent_nonces w) (agent_id_of (actor tx)) of Some k \<Rightarrow> k | None \<Rightarrow> 0))) \<and>
      (\<exists>u. admit_check_structural tx w = Inr u)"
    unfolding drains_def local_nonce_def last_nonce_def by simp
  then show ?thesis unfolding drain_loop.simps Let_def
    by (cases "admit_check_structural tx w") (auto simp only: if_True if_False sum.case fst_conv split: prod.split if_split)
qed

declare drain_loop.simps(2) [simp del]

lemma drain_loop_sound:
  assumes "\<And>a. int (local_nonce w local a + length txs) \<le> U128_MAX"
  shows "batch_continues w local (fst (drain_loop w local c txs)) \<and> mset (fst (drain_loop w local c txs)) \<subseteq># mset txs \<and>
    (\<forall>tx \<in> set (fst (drain_loop w local c txs)). admit_check_structural tx w = Inr ())"
  using assms
proof (induction txs arbitrary: local c)
  case (Cons tx txs)
  let ?a = "agent_id_of (actor tx)"
  have room: "int (local_nonce w local a + length txs) \<le> U128_MAX" "int (local_nonce w local a + 1) \<le> U128_MAX" for a
    using Cons.prems [of a] by simp_all
  show ?case
  proof (cases "drains w local tx")
    case True
    let ?l = "AList.update ?a (nonce tx) local"
    have n: "nonce tx = local_nonce w local ?a + 1" "int (nonce tx) \<le> U128_MAX"
      using True room(2) [of ?a] by (simp_all add: drains_def u128_saturating_succ_def)
    have "int (local_nonce w ?l a + length txs) \<le> U128_MAX" for a using Cons.prems [of a] n by auto
    moreover have "admit_check_structural tx w = Inr ()" using True by (simp add: drains_def)
    ultimately show ?thesis
      using True n Cons.IH [of ?l "record_valid c ?a (from_integer 1)"] by (simp add: drain_loop_valid Let_def batch_continues_Cons)
  next
    case False
    from Cons.IH [OF room(1), of "record_invalid c ?a (from_integer 1)"] show ?thesis
      using False by (auto simp: drain_loop_valid Let_def intro: subset_mset.order_trans)
  qed
qed simp

lemma drain_loop_complete:
  assumes "batch_continues w local txs" "\<forall>tx \<in> set txs. admit_check_structural tx w = Inr ()"
  shows "fst (drain_loop w local c txs) = txs"
  using assms
proof (induction txs arbitrary: local c)
  case (Cons tx txs)
  have "drains w local tx" using Cons.prems by (simp add: batch_continues_Cons drains_def u128_saturating_succ_def)
  moreover have "batch_continues w (AList.update (agent_id_of (actor tx)) (nonce tx) local) txs"
    using iffD1 [OF batch_continues_Cons Cons.prems(1)] by blast
  ultimately show ?case using Cons.IH Cons.prems(2) by (simp add: drain_loop_valid Let_def)
qed simp

lemma sorted_continues: "continues k ns \<Longrightarrow> sorted ns"
  unfolding continues_def by (metis sorted_upt)

lemma sorted_nonces_of_sort: "sorted (map nonce (txs_of a (sort_key (\<lambda>t. (nonce t, tx_id t)) txs)))"
proof -
  have "sorted (map (\<lambda>t. (nonce t, tx_id t)) (txs_of a (sort_key (\<lambda>t. (nonce t, tx_id t)) txs)))"
    by (rule sorted_filter) simp
  then show ?thesis unfolding sorted_map by (rule sorted_wrt_mono_rel [rotated]) (auto simp: less_eq_prod_def)
qed

lemma batch_continues_sort:
  assumes "batch_continues w local txs"
  shows "batch_continues w local (sort_key (\<lambda>t. (nonce t, tx_id t)) txs)"
proof -
  let ?s = "sort_key (\<lambda>t. (nonce t, tx_id t)) txs"
  have "map nonce (txs_of a ?s) = map nonce (txs_of a txs)" for a
  proof -
    have "mset (txs_of a ?s) = mset (txs_of a txs)" by (simp add: mset_filter)
    then have "mset (map nonce (txs_of a ?s)) = mset (map nonce (txs_of a txs))" by (simp only: mset_map)
    then have "sort (map nonce (txs_of a txs)) = map nonce (txs_of a ?s)"
      using sorted_nonces_of_sort by (rule properties_for_sort)
    moreover have "sorted (map nonce (txs_of a txs))"
      using assms sorted_continues by (auto simp: batch_continues_def)
    ultimately show ?thesis by (simp add: sorted_sort_id)
  qed
  then show ?thesis using assms by (simp add: batch_continues_def)
qed

lemma batch_continues_sequential: "batch_continues w [] txs \<longleftrightarrow> nonces_sequential w txs"
  by (simp add: batch_continues_def nonces_sequential_def)

section \<open>Properties\<close>

text \<open>
  The bookkeeping of the pool describes its queues after any sequence of operations: pending ids are
  distinct and are exactly the seen ids, the pool stays within its size (one entry when it was created with
  size zero), the remembered confirmed ids are distinct, at most 100,000, and a transition whose id is pending
  or remembered as confirmed is refused.
\<close>

theorem mempool_bookkeeping:
  fixes n :: nat and ops :: "mempool_op list"
  defines "p \<equiv> fold run_mempool_op ops (mempool_new n)"
  shows "distinct (map tx_id (mp_pending p)) \<and> mp_seen_ids p = set (map tx_id (mp_pending p)) \<and>
    length (mp_pending p) \<le> max 1 n \<and> distinct (mp_confirmed_order p) \<and>
    mp_confirmed_ids p = set (mp_confirmed_order p) \<and> length (mp_confirmed_order p) \<le> MAX_CONFIRMED_IDS \<and>
    (\<forall>tx. tx_id tx \<in> tx_id ` set (mp_pending p) \<union> set (mp_confirmed_order p) \<longrightarrow> (\<exists>e. mempool_add p tx = Inl e))"
proof -
  have "mp_max_size (fold run_mempool_op ops q) = mp_max_size q" for q
    by (induction ops arbitrary: q) (simp_all add: mp_max_size_op)
  then have "mp_max_size p = n" by (simp add: p_def mempool_new_def)
  moreover have "mempool_ok p" unfolding p_def by (rule run_mempool_ok [OF mempool_ok_new])
  ultimately show ?thesis unfolding mempool_ok_def by (auto simp: mempool_add_def)
qed

theorem mempool_bookkeeping_witness:
  "\<exists>e. mempool_add (fold run_mempool_op [MpAdd (sample_write KStateWrite ''data/x'')] (mempool_new 5))
     (sample_write KStateWrite ''data/x'') = Inl e"
proof -
  have "mp_pending (fold run_mempool_op [MpAdd (sample_write KStateWrite ''data/x'')] (mempool_new 5)) =
      [sample_write KStateWrite ''data/x'']"
    by (simp add: mempool_add_def mempool_new_def node_is_allowed_def containment_state_default_def evict_oldest_def Let_def)
  then show ?thesis
    using mempool_bookkeeping [of "[MpAdd (sample_write KStateWrite ''data/x'')]" 5] by auto
qed

text \<open>
  C28. A drained batch is admissible: it consists of pending transitions that pass the structural check, it is
  ordered by nonce and id, its nonces continue those of the world state agent by agent, so the nonce check of
  the block accepts it, and the pool is empty afterwards. When the pending transitions are sequential in arrival
  order and structurally sound, none of them is lost.
\<close>

theorem drained_batch_admissible:
  assumes "\<forall>a. int (last_nonce w a + length (mp_pending p)) \<le> U128_MAX" "drain_validated p w = (batch, p')"
  shows "(\<exists>w'. validate_nonces w batch = (Inr (), w')) \<and> mset batch \<subseteq># mset (mp_pending p) \<and>
    sorted (map (\<lambda>t. (nonce t, tx_id t)) batch) \<and> (\<forall>tx \<in> set batch. admit_check_structural tx w = Inr ()) \<and>
    mp_pending p' = [] \<and>
    (nonces_sequential w (mp_pending p) \<and> (\<forall>tx \<in> set (mp_pending p). admit_check_structural tx w = Inr ()) \<longrightarrow>
       mset batch = mset (mp_pending p))"
proof -
  obtain valid remove c where d: "drain_loop w [] (mp_containment p) (mp_pending p) = (valid, remove, c)" by (metis prod_cases3)
  have batch: "batch = sort_key (\<lambda>t. (nonce t, tx_id t)) valid" using assms(2) d by (simp add: drain_validated_def)
  have v: "batch_continues w [] valid" "mset valid \<subseteq># mset (mp_pending p)"
    "\<forall>tx \<in> set valid. admit_check_structural tx w = Inr ()"
    using drain_loop_sound [of w "[]" "mp_pending p" "mp_containment p"] assms(1) d by simp_all
  have "nonces_sequential w batch" using batch_continues_sort [OF v(1)] by (simp add: batch batch_continues_sequential)
  moreover have "valid = mp_pending p"
    if "nonces_sequential w (mp_pending p)" "\<forall>tx \<in> set (mp_pending p). admit_check_structural tx w = Inr ()"
    using drain_loop_complete [of w "[]" "mp_pending p" "mp_containment p"] that d by (simp add: batch_continues_sequential)
  ultimately show ?thesis using v validate_nonces_passed drain_empties(1) [OF assms(2)] by (simp add: batch)
qed

text \<open>Two transitions of one agent, for the witnesses.\<close>

definition second_write :: symbolic_transition where
  "second_write = (sample_write KStateWrite ''data/x'')\<lparr>tx_id := 2, nonce := 2\<rparr>"

lemma sample_writes_structural:
  "admit_check_structural (sample_write KStateWrite ''data/x'') world_new = Inr ()"
  "admit_check_structural second_write world_new = Inr ()"
  by (simp_all add: admit_check_structural_def sample_write_def second_write_def payload_size_error_def world_new_def
      consensus_params_default_def MAX_FREEFORM_STRING_LEN_def Let_def)

lemma fresh_last_nonce [simp]: "last_nonce world_new a = 0"
  by (simp add: last_nonce_def world_new_def)

definition pool_of :: "symbolic_transition list \<Rightarrow> mempool" where
  "pool_of txs = fold run_mempool_op (map MpAdd txs) (mempool_new 10)"

lemma pool_of_samples:
  "mp_pending (pool_of [sample_write KStateWrite ''data/x'', second_write]) = [sample_write KStateWrite ''data/x'', second_write]"
  "mp_pending (pool_of [second_write, sample_write KStateWrite ''data/x'']) = [second_write, sample_write KStateWrite ''data/x'']"
  by (simp_all add: pool_of_def mempool_add_def mempool_new_def node_is_allowed_def containment_state_default_def
      evict_oldest_def Let_def second_write_def sample_write_def)

theorem drained_batch_witness:
  "mset (fst (drain_validated (pool_of [sample_write KStateWrite ''data/x'', second_write]) world_new)) =
     {#sample_write KStateWrite ''data/x'', second_write#}"
proof -
  let ?p = "pool_of [sample_write KStateWrite ''data/x'', second_write]"
  have "nonces_sequential world_new (mp_pending ?p)"
    by (simp add: nonces_sequential_def pool_of_samples) (simp add: second_write_def sample_write_def U128_MAX_def)
  then show ?thesis
    using drained_batch_admissible [of world_new ?p "fst (drain_validated ?p world_new)" "snd (drain_validated ?p world_new)"]
    by (simp add: pool_of_samples sample_writes_structural U128_MAX_def)
qed

text \<open>
  The batch depends on the order of arrival, not only on the transitions in the pool: with two
  transitions of one agent, the pool that received them in nonce order drains both, the pool that received
  them in the other order drains the first only and forgets the second.
\<close>

theorem drain_depends_on_arrival:
  "let p = pool_of [sample_write KStateWrite ''data/x'', second_write];
       q = pool_of [second_write, sample_write KStateWrite ''data/x'']
   in set (mp_pending p) = set (mp_pending q) \<and>
      length (fst (drain_validated p world_new)) = 2 \<and>
      fst (drain_validated q world_new) = [sample_write KStateWrite ''data/x''] \<and>
      mp_pending (snd (drain_validated q world_new)) = []"
proof -
  let ?a = "sample_write KStateWrite ''data/x''"
  have f: "fst (drain_validated r w) = sort_key (\<lambda>t. (nonce t, tx_id t)) (fst (drain_loop w [] (mp_containment r) (mp_pending r)))" for r w
    by (simp add: drain_validated_def split: prod.splits)
  have d: "drains world_new [] ?a" "\<not> drains world_new [] second_write"
    "drains world_new [(agent_id_of (actor ?a), nonce ?a)] second_write"
    using sample_writes_structural by (simp_all add: drains_def u128_saturating_succ_def U128_MAX_def local_nonce_def)
      (simp_all add: sample_write_def second_write_def)
  have "fst (drain_loop world_new [] c [?a, second_write]) = [?a, second_write]"
    "fst (drain_loop world_new [] c [second_write, ?a]) = [?a]" for c
    using d by (simp_all add: drain_loop_valid Let_def)
  then show ?thesis using drain_empties(1) [OF prod.collapse [symmetric]]
    by (simp add: Let_def f pool_of_samples insert_commute)
qed

end
