(* ===== verification/Scc_Governance_Replay.thy ===== *)
theory Scc_Governance_Replay
  imports Scc_Block Scc_Proposals Scc_Agents Scc_Finality Scc_Param_Updates
begin

text \<open>
  The governance side of a block (\<open>node/chain.rs\<close>): the transitions of a block submit proposals and
  vote on them, due proposals are finalized and activated, and an activated proposal changes the norms,
  the emergency mode, the limits, the finality settings, the validator set or the consensus parameters.
  Hex decoding and the identifier of a proposal are parameters; the texts of the errors are dropped.
\<close>

section \<open>Numbers\<close>

fun parse_bounded :: "nat \<Rightarrow> nat \<Rightarrow> bytes \<Rightarrow> nat option" where
  "parse_bounded bound acc [] = Some acc"
| "parse_bounded bound acc (c # cs) =
     (case digit_value c of
        None \<Rightarrow> None
      | Some d \<Rightarrow> if acc * 10 + d > bound then None else parse_bounded bound (acc * 10 + d) cs)"

text \<open>\<open>str::parse\<close> for an unsigned type with the given largest value.\<close>

definition parse_unsigned :: "nat \<Rightarrow> bytes \<Rightarrow> nat option" where
  "parse_unsigned bound s =
     (let ds = (case s of c # r \<Rightarrow> if c = CHR ''+'' then r else s | [] \<Rightarrow> s)
      in if ds = [] then None else parse_bounded bound 0 ds)"

text \<open>\<open>to_ascii_lowercase\<close>.\<close>

definition ascii_lower :: "char \<Rightarrow> char" where
  "ascii_lower c = (if byte_in 65 90 c then char_of ((of_char c :: nat) + 32) else c)"

section \<open>Parameters\<close>

datatype param_error = BadNumber | OutOfRange | BadMode | UnknownKey | BadHex | BadKeyLength

definition in_range :: "nat \<Rightarrow> nat \<Rightarrow> nat \<Rightarrow> bytes \<Rightarrow> param_error + nat" where
  "in_range bound lo hi s =
     (case parse_unsigned bound s of
        None \<Rightarrow> Inl BadNumber
      | Some n \<Rightarrow> if lo \<le> n \<and> n \<le> hi then Inr n else Inl OutOfRange)"

definition parse_finality_mode :: "bytes \<Rightarrow> param_error + finality_mode" where
  "parse_finality_mode v =
     (let s = map ascii_lower (trim v)
      in if s = ''deterministic'' then Inr Deterministic
         else case strip_prefix ''bft:'' s of
                Some q \<Rightarrow>
                  (case parse_unsigned U32_MAX q of
                     None \<Rightarrow> Inl BadNumber
                   | Some n \<Rightarrow> if n = 0 then Inl OutOfRange else Inr (BftCertified n))
              | None \<Rightarrow> Inl BadMode)"

text \<open>The settings a parameter proposal can change.\<close>

record governance_settings =
  gx_limits :: governance_limits
  gx_finality :: finality_config
  gx_mode :: finality_mode

definition apply_governance_parameter_static ::
  "governance_settings \<Rightarrow> bytes \<Rightarrow> bytes \<Rightarrow> param_error + governance_settings" where
  "apply_governance_parameter_static s key v =
     (let lims = gx_limits s; fin = gx_finality s
      in if key = ''governance.max_consecutive_proposals''
         then bind_result (in_range U32_MAX 1 U32_MAX v) (\<lambda>n. Inr (s\<lparr>gx_limits := lims\<lparr>max_consecutive_proposals := n\<rparr>\<rparr>))
         else if key = ''governance.max_actions_per_agent_pct''
         then bind_result (in_range U32_MAX 1 100 v) (\<lambda>n. Inr (s\<lparr>gx_limits := lims\<lparr>max_actions_per_agent_pct := n\<rparr>\<rparr>))
         else if key = ''governance.safety_change_min_signers''
         then bind_result (in_range U32_MAX 1 U32_MAX v) (\<lambda>n. Inr (s\<lparr>gx_limits := lims\<lparr>safety_change_min_signers := n\<rparr>\<rparr>))
         else if key = ''governance.genesis_change_min_signers''
         then bind_result (in_range U32_MAX 1 U32_MAX v) (\<lambda>n. Inr (s\<lparr>gx_limits := lims\<lparr>genesis_change_min_signers := n\<rparr>\<rparr>))
         else if key = ''governance.max_authority_term_epochs''
         then bind_result (in_range U64_MAX 1 U64_MAX v) (\<lambda>n. Inr (s\<lparr>gx_limits := lims\<lparr>max_authority_term_epochs := n\<rparr>\<rparr>))
         else if key = ''governance.authority_cooldown_epochs''
         then bind_result (in_range U64_MAX 0 1000 v) (\<lambda>n. Inr (s\<lparr>gx_limits := lims\<lparr>authority_cooldown_epochs := n\<rparr>\<rparr>))
         else if key = ''finality.confirmation_depth''
         then bind_result (in_range U64_MAX 1 U64_MAX v) (\<lambda>n. Inr (s\<lparr>gx_finality := fin\<lparr>fc_confirmation_depth := n\<rparr>\<rparr>))
         else if key = ''finality.max_finality_ms''
         then bind_result (in_range U64_MAX 1 300000 v) (\<lambda>n. Inr (s\<lparr>gx_finality := fin\<lparr>max_finality_ms := n\<rparr>\<rparr>))
         else if key = ''finality.target_block_time_ms''
         then bind_result (in_range U64_MAX 1 U64_MAX v) (\<lambda>n. Inr (s\<lparr>gx_finality := fin\<lparr>target_block_time_ms := n\<rparr>\<rparr>))
         else if key = ''finality.mode''
         then bind_result (parse_finality_mode v) (\<lambda>m. Inr (s\<lparr>gx_mode := m\<rparr>))
         else Inl UnknownKey)"

section \<open>Validators\<close>

definition decode_node_id :: "(bytes \<Rightarrow> bytes option) \<Rightarrow> bytes \<Rightarrow> param_error + hash" where
  "decode_node_id hexdec v =
     (case hexdec (trim v) of
        None \<Rightarrow> Inl BadHex
      | Some pk \<Rightarrow> if length pk \<noteq> 32 then Inl BadKeyLength else Inr (hash_of_bytes pk))"

definition new_authority :: "hash \<Rightarrow> validator_authority" where
  "new_authority n =
     \<lparr>va_node_id = n, va_governance_level = Meaning, norm_compliance = from_integer 1,
      causal_reliability = from_integer 1, va_active = True\<rparr>"

definition apply_validator_change ::
  "(bytes \<Rightarrow> bytes option) \<Rightarrow> validator_authority list \<Rightarrow> bytes \<Rightarrow> bytes \<Rightarrow> param_error + validator_authority list" where
  "apply_validator_change hexdec vs key v =
     (if key = ''validators.add''
      then bind_result (decode_node_id hexdec v)
             (\<lambda>n. Inr (if \<exists>a \<in> set vs. va_node_id a = n then vs else sort_key va_node_id (vs @ [new_authority n])))
      else if key = ''validators.remove''
      then bind_result (decode_node_id hexdec v) (\<lambda>n. Inr (filter (\<lambda>a. va_node_id a \<noteq> n) vs))
      else Inl UnknownKey)"

section \<open>Snapshots\<close>

definition governance_limits_snapshot_from :: "governance_limits \<Rightarrow> governance_limits_snapshot" where
  "governance_limits_snapshot_from l =
     \<lparr>gls_max_actions_per_agent_pct = max_actions_per_agent_pct l,
      gls_safety_change_min_signers = safety_change_min_signers l,
      gls_genesis_change_min_signers = genesis_change_min_signers l,
      gls_max_consecutive_proposals = max_consecutive_proposals l,
      gls_max_authority_term_epochs = max_authority_term_epochs l,
      gls_authority_cooldown_epochs = authority_cooldown_epochs l\<rparr>"

definition governance_limits_from_snapshot :: "governance_limits_snapshot \<Rightarrow> governance_limits" where
  "governance_limits_from_snapshot s =
     \<lparr>max_actions_per_agent_pct = gls_max_actions_per_agent_pct s,
      safety_change_min_signers = gls_safety_change_min_signers s,
      genesis_change_min_signers = gls_genesis_change_min_signers s,
      max_consecutive_proposals = gls_max_consecutive_proposals s,
      max_authority_term_epochs = gls_max_authority_term_epochs s,
      authority_cooldown_epochs = gls_authority_cooldown_epochs s\<rparr>"

definition finality_config_snapshot_from :: "finality_config \<Rightarrow> finality_config_snapshot" where
  "finality_config_snapshot_from c =
     \<lparr>fcs_confirmation_depth = fc_confirmation_depth c, fcs_max_finality_ms = max_finality_ms c,
      fcs_target_block_time_ms = target_block_time_ms c\<rparr>"

definition finality_config_from_snapshot :: "finality_config_snapshot \<Rightarrow> finality_config" where
  "finality_config_from_snapshot s =
     \<lparr>fc_confirmation_depth = fcs_confirmation_depth s, max_finality_ms = fcs_max_finality_ms s,
      target_block_time_ms = fcs_target_block_time_ms s\<rparr>"

section \<open>Replay\<close>

definition parse_governance_param_write :: "bytes \<Rightarrow> (bytes \<times> bytes) option" where
  "parse_governance_param_write v =
     (if \<not> valid_utf8 v then None
      else case split_once (CHR ''='') v of
             None \<Rightarrow> None
           | Some (k, x) \<Rightarrow> if trim k = [] \<or> trim x = [] then None else Some (trim k, trim x))"

text \<open>What the replay reads and changes.\<close>

record governance_context =
  gc_proposals :: proposal_registry
  gc_state :: governance_state
  gc_limits :: governance_limits
  gc_finality :: finality_config
  gc_validators :: "validator_authority list"
  gc_params :: consensus_params
  gc_mutated :: bool

definition submit_or_warn :: "proposal_hash \<Rightarrow> nat \<Rightarrow> symbolic_transition \<Rightarrow> proposal_kind \<Rightarrow> proposal_registry \<Rightarrow> proposal_registry" where
  "submit_or_warn PH h tx kind reg =
     (case submit PH reg (agent_id_of (actor tx)) (ag_governance_level (actor tx)) kind h 5 of
        Inl _ \<Rightarrow> reg
      | Inr (_, reg') \<Rightarrow> reg')"

definition vote_or_warn :: "nat \<Rightarrow> symbolic_transition \<Rightarrow> bytes \<Rightarrow> proposal_registry \<Rightarrow> proposal_registry" where
  "vote_or_warn h tx v reg =
     (if length v \<noteq> 32 then reg
      else case cast_vote reg (hash_of_bytes v) (agent_id_of (actor tx)) (ag_governance_level (actor tx)) True h of
             Inl _ \<Rightarrow> reg
           | Inr reg' \<Rightarrow> reg')"

text \<open>One transition of the block.\<close>

definition replay_transition :: "proposal_hash \<Rightarrow> nat \<Rightarrow> symbolic_transition \<Rightarrow> proposal_registry \<Rightarrow> proposal_registry" where
  "replay_transition PH h tx reg =
     (let reg1 = (case payload tx of
                    PProposeNorm name descr \<Rightarrow>
                      submit_or_warn PH h tx (AddNorm name descr (from_integer 5) (from_integer 1)) reg
                  | _ \<Rightarrow> reg)
      in if ti_kind (tx_intent tx) \<noteq> KGovernanceUpdate then reg1
         else case payload tx of
                PWrite k v \<Rightarrow>
                  let reg2 = (if starts_with k ''norms/governance/params/propose''
                              then (case parse_governance_param_write v of
                                      Some (pk, pv) \<Rightarrow> submit_or_warn PH h tx (ModifyParameter pk pv) reg1
                                    | None \<Rightarrow> reg1)
                              else reg1)
                  in if starts_with k ''governance/proposals/'' \<or> starts_with k ''norms/governance/proposals/''
                     then vote_or_warn h tx v reg2 else reg2
              | _ \<Rightarrow> reg1)"

text \<open>The closure that applies a typed parameter change, with the ceilings read before the replay.\<close>

datatype typed_apply_error = TaType typed_param_apply_error | TaCeiling ceiling_violation | TaBounds string

definition apply_consensus_params_change ::
  "constitutional_ceilings option \<Rightarrow> consensus_params \<Rightarrow> consensus_param_field \<Rightarrow> consensus_param_value \<Rightarrow>
   typed_apply_error + consensus_params" where
  "apply_consensus_params_change ceilings p f x =
     (case apply_typed_param p f x of
        Inl e \<Rightarrow> Inl (TaType e)
      | Inr hypothetical \<Rightarrow>
          (case (case ceilings of None \<Rightarrow> Inr () | Some c \<Rightarrow> ceilings_validate c hypothetical) of
             Inl v \<Rightarrow> Inl (TaCeiling v)
           | Inr _ \<Rightarrow>
               (case consensus_params_validate hypothetical of
                  Inl m \<Rightarrow> Inl (TaBounds m)
                | Inr _ \<Rightarrow> Inr hypothetical)))"

text \<open>The effect of an activated proposal that yields no norm.\<close>

definition activation_effect ::
  "(bytes \<Rightarrow> bytes option) \<Rightarrow> constitutional_ceilings option \<Rightarrow> proposal_kind \<Rightarrow> governance_context \<Rightarrow> governance_context" where
  "activation_effect hexdec ceilings kind c =
     (case kind of
        DeactivateNorm i \<Rightarrow>
          (case map_of (active_norms (gc_state c)) i of
             None \<Rightarrow> c
           | Some n \<Rightarrow>
               c\<lparr>gc_state := (gc_state c)\<lparr>active_norms := AList.update i (n\<lparr>norm_active := False\<rparr>) (active_norms (gc_state c))\<rparr>\<rparr>)
      | ModifyParameter key v \<Rightarrow>
          if starts_with key ''validators.''
          then (case apply_validator_change hexdec (gc_validators c) key v of
                  Inl _ \<Rightarrow> c
                | Inr vs \<Rightarrow> c\<lparr>gc_validators := vs\<rparr>)
          else (case apply_governance_parameter_static
                       \<lparr>gx_limits = gc_limits c, gx_finality = gc_finality c, gx_mode = gov_finality_mode (gc_state c)\<rparr> key v of
                  Inl _ \<Rightarrow> c
                | Inr s \<Rightarrow> c\<lparr>gc_limits := gx_limits s, gc_finality := gx_finality s,
                              gc_state := (gc_state c)\<lparr>gov_finality_mode := gx_mode s\<rparr>\<rparr>)
      | ActivateEmergency \<Rightarrow> c\<lparr>gc_state := (gc_state c)\<lparr>emergency_mode := True\<rparr>\<rparr>
      | DeactivateEmergency \<Rightarrow> c\<lparr>gc_state := (gc_state c)\<lparr>emergency_mode := False\<rparr>\<rparr>
      | AddNorm _ _ _ _ \<Rightarrow> c
      | ModifyConsensusParam f x _ \<Rightarrow>
          (case apply_consensus_params_change ceilings (gc_params c) f x of
             Inl _ \<Rightarrow> c
           | Inr p \<Rightarrow> c\<lparr>gc_params := p, gc_mutated := True\<rparr>))"

text \<open>One turn of the activation loop, for a proposal of the vector as it was before the loop.\<close>

definition activate_due ::
  "(bytes \<Rightarrow> bytes option) \<Rightarrow> constitutional_ceilings option \<Rightarrow> nat \<Rightarrow> governance_proposal \<Rightarrow> governance_context \<Rightarrow>
   governance_context" where
  "activate_due hexdec ceilings h p c =
     (if gp_status p = StTimelocked \<and> timelock_until p \<le> h
      then case activate (gc_proposals c) (gp_id p) h of
             Inl _ \<Rightarrow> c
           | Inr (Some n, reg) \<Rightarrow>
               c\<lparr>gc_proposals := reg,
                 gc_state := (gc_state c)\<lparr>active_norms := AList.update (norm_id n) n (active_norms (gc_state c))\<rparr>\<rparr>
           | Inr (None, reg) \<Rightarrow> activation_effect hexdec ceilings (gp_kind p) (c\<lparr>gc_proposals := reg\<rparr>)
      else c)"

definition replay_governance_from_transitions ::
  "proposal_hash \<Rightarrow> (bytes \<Rightarrow> bytes option) \<Rightarrow> constitutional_ceilings option \<Rightarrow> symbolic_transition list \<Rightarrow> nat \<Rightarrow>
   governance_context \<Rightarrow> governance_context" where
  "replay_governance_from_transitions PH hexdec ceilings txs h c =
     (let reg = snd (finalize (fold (replay_transition PH h) txs (gc_proposals c)) h)
      in fold (activate_due hexdec ceilings h) (proposals reg) (c\<lparr>gc_proposals := reg\<rparr>))"

section \<open>The registry follows its life cycle\<close>

abbreviation registry_steps :: "proposal_hash \<Rightarrow> proposal_registry \<times> nat \<Rightarrow> proposal_registry \<times> nat \<Rightarrow> bool" where
  "registry_steps PH \<equiv> (registry_step PH)\<^sup>*\<^sup>*"

lemma registry_steps_ok: "registry_steps PH st st' \<Longrightarrow> registry_ok st \<Longrightarrow> registry_ok st'"
  by (induction rule: rtranclp_induct) (auto intro: registry_ok_step)

lemma submit_or_warn_steps: "registry_steps PH (reg, h) (submit_or_warn PH h tx k reg, h)"
  by (auto simp: submit_or_warn_def split: sum.splits intro: step_submit)

lemma vote_or_warn_steps: "registry_steps PH (reg, h) (vote_or_warn h tx v reg, h)"
  by (auto simp: vote_or_warn_def split: sum.splits intro: step_vote)

lemma replay_transition_steps: "registry_steps PH (reg, h) (replay_transition PH h tx reg, h)"
  unfolding replay_transition_def Let_def
  by (auto split: operation_payload.splits option.splits prod.splits
      intro: submit_or_warn_steps vote_or_warn_steps rtranclp_trans [OF submit_or_warn_steps vote_or_warn_steps])

lemma replay_transitions_steps: "registry_steps PH (reg, h) (fold (replay_transition PH h) txs reg, h)"
  by (induction txs arbitrary: reg) (auto intro: rtranclp_trans [OF replay_transition_steps])

lemma activation_effect_registry [simp]: "gc_proposals (activation_effect hexdec ceilings k c) = gc_proposals c"
  by (simp add: activation_effect_def split: proposal_kind.splits option.splits sum.splits)

lemma activate_due_steps: "registry_steps PH (gc_proposals c, h) (gc_proposals (activate_due hexdec ceilings h p c), h)"
proof -
  have "registry_steps PH (gc_proposals c, h) (reg, h)" if "activate (gc_proposals c) i h = Inr (n, reg)" for i n reg
    using that by (auto intro: step_activate)
  then show ?thesis by (auto simp: activate_due_def split: sum.splits option.splits)
qed

lemma activate_all_steps:
  "registry_steps PH (gc_proposals c, h) (gc_proposals (fold (activate_due hexdec ceilings h) ps c), h)"
  by (induction ps arbitrary: c) (auto intro: rtranclp_trans [OF activate_due_steps])

lemma steps_from_earlier:
  assumes "registry_steps PH (reg, h) (reg', h')" "h0 \<le> h"
  shows "registry_steps PH (reg, h0) (reg', h') \<or> reg' = reg \<and> h' = h"
  using assms(1)
proof (cases rule: converse_rtranclpE)
  case (step y)
  obtain r k where y: "y = (r, k)" by fastforce
  have "registry_step PH (reg, h0) y" using step(1) assms(2) unfolding y
    by (cases rule: registry_step.cases) (auto intro: registry_step.intros)
  then show ?thesis using step(2) converse_rtranclp_into_rtranclp by metis
qed simp

lemma replay_governance_steps:
  assumes "h0 \<le> h"
  shows "registry_steps PH (gc_proposals c, h0)
    (gc_proposals (replay_governance_from_transitions PH hexdec ceilings txs h c), h)"
proof -
  let ?r = "fold (replay_transition PH h) txs (gc_proposals c)"
  have "registry_steps PH (gc_proposals c, h0) (snd (finalize ?r h), h)"
    using steps_from_earlier [OF replay_transitions_steps assms, of PH "gc_proposals c" txs]
  proof
    assume "registry_steps PH (gc_proposals c, h0) (?r, h)"
    then show ?thesis by (rule rtranclp.rtrancl_into_rtrancl) (rule step_finalize, simp)
  next
    assume "?r = gc_proposals c \<and> h = h"
    then show ?thesis using step_finalize [OF assms] by auto
  qed
  then show ?thesis
    using activate_all_steps [of PH "c\<lparr>gc_proposals := snd (finalize ?r h)\<rparr>" h hexdec ceilings]
    unfolding replay_governance_from_transitions_def Let_def by (auto intro: rtranclp_trans)
qed

section \<open>Settings stay in bounds\<close>

definition limits_ok :: "governance_limits \<Rightarrow> bool" where
  "limits_ok l \<longleftrightarrow> 1 \<le> max_actions_per_agent_pct l \<and> max_actions_per_agent_pct l \<le> 100 \<and>
     1 \<le> safety_change_min_signers l \<and> 1 \<le> genesis_change_min_signers l \<and> 1 \<le> max_consecutive_proposals l \<and>
     1 \<le> max_authority_term_epochs l \<and> authority_cooldown_epochs l \<le> 1000"

definition finality_ok :: "finality_config \<Rightarrow> bool" where
  "finality_ok c \<longleftrightarrow> 1 \<le> fc_confirmation_depth c \<and> 1 \<le> max_finality_ms c \<and> max_finality_ms c \<le> 300000 \<and>
     1 \<le> target_block_time_ms c"

definition validators_ok :: "validator_authority list \<Rightarrow> bool" where
  "validators_ok vs \<longleftrightarrow> sorted (map va_node_id vs) \<and> distinct (map va_node_id vs)"

definition params_ok :: "constitutional_ceilings option \<Rightarrow> consensus_params \<Rightarrow> bool" where
  "params_ok ceilings p \<longleftrightarrow> consensus_params_validate p = Inr () \<and>
     (\<forall>c. ceilings = Some c \<longrightarrow> ceilings_validate c p = Inr ())"

definition context_ok :: "constitutional_ceilings option \<Rightarrow> governance_context \<Rightarrow> bool" where
  "context_ok ceilings c \<longleftrightarrow> limits_ok (gc_limits c) \<and> finality_ok (gc_finality c) \<and>
     finality_mode_validate (gov_finality_mode (gc_state c)) = Inr () \<and> validators_ok (gc_validators c) \<and>
     params_ok ceilings (gc_params c) \<and> (\<forall>i n. map_of (active_norms (gc_state c)) i = Some n \<longrightarrow> norm_id n = i)"

lemma in_range_Inr: "in_range bound lo hi v = Inr n \<Longrightarrow> lo \<le> n \<and> n \<le> hi"
  by (simp add: in_range_def split: option.splits if_splits)

lemma parse_finality_mode_ok: "parse_finality_mode v = Inr m \<Longrightarrow> finality_mode_validate m = Inr ()"
  by (auto simp: parse_finality_mode_def finality_mode_validate_def Let_def split: if_splits option.splits)

lemma parameter_ok:
  assumes "apply_governance_parameter_static s key v = Inr s'"
    "limits_ok (gx_limits s)" "finality_ok (gx_finality s)" "finality_mode_validate (gx_mode s) = Inr ()"
  shows "limits_ok (gx_limits s') \<and> finality_ok (gx_finality s') \<and> finality_mode_validate (gx_mode s') = Inr ()"
  using assms unfolding apply_governance_parameter_static_def Let_def
  by (auto simp: bind_result_Inr limits_ok_def finality_ok_def dest!: in_range_Inr parse_finality_mode_ok split: if_splits)

lemma validator_change_ok:
  assumes "apply_validator_change hexdec vs key v = Inr vs'" "validators_ok vs"
  shows "validators_ok vs'"
proof -
  have "validators_ok (filter P vs)" for P
    using assms(2) sorted_filter distinct_map_filter by (auto simp: validators_ok_def)
  moreover have "validators_ok (sort_key va_node_id (vs @ [new_authority n]))"
    if "\<not> (\<exists>a \<in> set vs. va_node_id a = n)" for n
  proof -
    have "distinct (map va_node_id (vs @ [new_authority n]))"
      using assms(2) that by (auto simp: validators_ok_def new_authority_def)
    then show ?thesis by (simp only: validators_ok_def distinct_map_sort sorted_sort_key)
  qed
  ultimately show ?thesis
    using assms by (auto simp: apply_validator_change_def bind_result_Inr split: if_splits)
qed

text \<open>The bounds hold relative to the ceilings the replay uses, and so without any.\<close>

lemma params_change_ok: "apply_consensus_params_change ceilings p f x = Inr p' \<Longrightarrow> C \<in> {ceilings, None} \<Longrightarrow> params_ok C p'"
  by (auto simp: apply_consensus_params_change_def params_ok_def split: sum.splits option.splits)

lemma activation_effect_ok:
  assumes "context_ok C c" "C \<in> {ceilings, None}"
  shows "context_ok C (activation_effect hexdec ceilings k c)"
proof (cases k)
  case (ModifyParameter key v)
  show ?thesis
  proof (cases "starts_with key ''validators.''")
    case True
    then show ?thesis using assms ModifyParameter validator_change_ok [of hexdec "gc_validators c" key v]
      by (auto simp: activation_effect_def context_ok_def split: sum.splits)
  next
    case False
    then show ?thesis
      using assms ModifyParameter parameter_ok [of "\<lparr>gx_limits = gc_limits c, gx_finality = gc_finality c,
          gx_mode = gov_finality_mode (gc_state c)\<rparr>" key v]
      by (auto simp: activation_effect_def context_ok_def split: sum.splits)
  qed
next
  case (ModifyConsensusParam f x a)
  then show ?thesis
    using assms(1) params_change_ok [OF _ assms(2), of "gc_params c" f x]
    by (auto simp: activation_effect_def context_ok_def split: sum.splits)
qed (use assms in \<open>auto simp: activation_effect_def context_ok_def split: option.splits\<close>)

lemma activate_due_ok: "context_ok C c \<Longrightarrow> C \<in> {ceilings, None} \<Longrightarrow> context_ok C (activate_due hexdec ceilings h p c)"
  using activation_effect_ok [of C "c\<lparr>gc_proposals := reg\<rparr>" ceilings for reg]
  by (auto simp: activate_due_def context_ok_def split: sum.splits option.splits)

lemma activate_all_ok:
  "context_ok C c \<Longrightarrow> C \<in> {ceilings, None} \<Longrightarrow> context_ok C (fold (activate_due hexdec ceilings h) ps c)"
  by (induction ps arbitrary: c) (simp_all del: insert_iff add: activate_due_ok)

lemma replay_governance_ok:
  "context_ok C c \<Longrightarrow> C \<in> {ceilings, None} \<Longrightarrow>
   context_ok C (replay_governance_from_transitions PH hexdec ceilings txs h c)"
  unfolding replay_governance_from_transitions_def Let_def by (rule activate_all_ok) (simp_all add: context_ok_def)

section \<open>No vote against\<close>

definition unopposed :: "proposal_registry \<Rightarrow> bool" where
  "unopposed reg \<longleftrightarrow> (\<forall>p \<in> set (proposals reg). votes_against p = 0)"

lemma unopposed_set: "unopposed reg \<Longrightarrow> votes_against p = 0 \<Longrightarrow> unopposed (set_proposal reg i p)"
  using set_update_subset_insert [of "proposals reg" i p] by (auto simp: unopposed_def)

lemma unopposed_nth:
  assumes "unopposed reg" "registry_ok (reg, h)" "map_of (proposal_index reg) i = Some idx"
  shows "votes_against (proposals reg ! idx) = 0"
  using assms by (auto simp: unopposed_def registry_ok_def index_ok_def)

lemma unopposed_submit: "unopposed reg \<Longrightarrow> unopposed (submit_or_warn PH h tx k reg)"
  by (auto simp: submit_or_warn_def submit_def unopposed_def Let_def split: sum.splits if_splits)

lemma unopposed_vote:
  assumes "unopposed reg" "registry_ok (reg, h)"
  shows "unopposed (vote_or_warn h tx v reg)"
proof (cases "cast_vote reg (hash_of_bytes v) (agent_id_of (actor tx)) (ag_governance_level (actor tx)) True h")
  case (Inr reg')
  then obtain idx where idx: "map_of (proposal_index reg) (hash_of_bytes v) = Some idx"
    by (auto simp: cast_vote_def split: option.splits)
  show ?thesis
    using Inr idx unopposed_nth [OF assms idx] assms(1)
    by (auto simp: vote_or_warn_def cast_vote_def Let_def split: if_splits intro!: unopposed_set)
qed (simp add: vote_or_warn_def assms)

lemma unopposed_transition:
  assumes "unopposed reg" "registry_ok (reg, h)"
  shows "unopposed (replay_transition PH h tx reg)"
proof -
  have "unopposed (submit_or_warn PH h tx k reg)" "registry_ok (submit_or_warn PH h tx k reg, h)" for k
    using unopposed_submit [OF assms(1)] registry_steps_ok [OF submit_or_warn_steps assms(2)] by auto
  then show ?thesis
    using assms unopposed_vote unfolding replay_transition_def Let_def
    by (auto split: operation_payload.split option.split prod.split)
qed

lemma unopposed_transitions:
  "unopposed reg \<Longrightarrow> registry_ok (reg, h) \<Longrightarrow> unopposed (fold (replay_transition PH h) txs reg)"
proof (induction txs arbitrary: reg)
  case (Cons tx txs)
  from Cons.IH [OF unopposed_transition [OF Cons.prems] registry_steps_ok [OF replay_transition_steps Cons.prems(2)]]
  show ?case by simp
qed simp

lemma unopposed_finalize: "unopposed reg \<Longrightarrow> unopposed (snd (finalize reg h))"
  by (auto simp: unopposed_def finalize_def finalize_one_def)

lemma unopposed_activate_due:
  assumes "unopposed (gc_proposals c)" "registry_ok (gc_proposals c, h)"
  shows "unopposed (gc_proposals (activate_due hexdec ceilings h p c))"
proof -
  have "unopposed reg" if act: "activate (gc_proposals c) i h = Inr (n, reg)" for i n reg
  proof -
    obtain idx where idx: "map_of (proposal_index (gc_proposals c)) i = Some idx"
      "reg = set_proposal (gc_proposals c) idx ((proposals (gc_proposals c) ! idx)\<lparr>gp_status := StActivated\<rparr>)"
      using act unfolding activate_Inr by blast
    then show ?thesis using unopposed_nth [OF assms idx(1)] assms(1) by (simp add: unopposed_set)
  qed
  then show ?thesis using assms by (auto simp: activate_due_def split: sum.splits option.splits)
qed

lemma unopposed_activate_all:
  "unopposed (gc_proposals c) \<Longrightarrow> registry_ok (gc_proposals c, h) \<Longrightarrow>
   unopposed (gc_proposals (fold (activate_due hexdec ceilings h) ps c))"
proof (induction ps arbitrary: c)
  case (Cons p ps)
  from Cons.IH [OF unopposed_activate_due [OF Cons.prems] registry_steps_ok [OF activate_due_steps Cons.prems(2)]]
  show ?case by simp
qed simp

lemma replay_stages:
  fixes PH h txs and c :: governance_context
  assumes "registry_ok (gc_proposals c, h0)" "h0 \<le> h"
  defines "reg \<equiv> fold (replay_transition PH h) txs (gc_proposals c)"
  shows "registry_ok (gc_proposals c, h)" "registry_ok (snd (finalize reg h), h)"
proof -
  show "registry_ok (gc_proposals c, h)"
    using registry_ok_each [OF assms(1,2)] assms(1) by (auto simp: registry_ok_def)
  then have "registry_ok (reg, h)" unfolding reg_def by (rule registry_steps_ok [OF replay_transitions_steps])
  then show "registry_ok (snd (finalize reg h), h)" by (rule registry_ok_finalize) simp
qed

section \<open>Changes come from activated proposals\<close>

definition settings_of ::
  "governance_context \<Rightarrow> governance_state \<times> governance_limits \<times> finality_config \<times> validator_authority list \<times> consensus_params" where
  "settings_of c = (gc_state c, gc_limits c, gc_finality c, gc_validators c, gc_params c)"

text \<open>The positions of the activated proposals.\<close>

definition activated_at :: "proposal_registry \<Rightarrow> nat set" where
  "activated_at reg = {i. i < length (proposals reg) \<and> gp_status (proposals reg ! i) = StActivated}"

lemma activated_at_set:
  "gp_status (proposals reg ! i) \<noteq> StActivated \<Longrightarrow> gp_status p \<noteq> StActivated \<Longrightarrow>
   activated_at (set_proposal reg i p) = activated_at reg"
proof -
  assume a: "gp_status (proposals reg ! i) \<noteq> StActivated" "gp_status p \<noteq> StActivated"
  have "gp_status ((proposals reg)[i := p] ! j) = StActivated \<longleftrightarrow> gp_status (proposals reg ! j) = StActivated"
    if "j < length (proposals reg)" for j
    using that a by (cases "j = i") auto
  then show ?thesis by (auto simp: activated_at_def)
qed

lemma activated_at_submit: "activated_at (submit_or_warn PH h tx k reg) = activated_at reg"
  by (auto simp: submit_or_warn_def submit_def activated_at_def Let_def nth_append split: sum.splits if_splits)

lemma activated_at_vote: "activated_at (vote_or_warn h tx v reg) = activated_at reg"
proof (cases "cast_vote reg (hash_of_bytes v) (agent_id_of (actor tx)) (ag_governance_level (actor tx)) True h")
  case (Inr reg')
  then have "activated_at reg' = activated_at reg"
    by (auto simp: cast_vote_def Let_def split: option.splits if_splits intro!: activated_at_set)
  then show ?thesis using Inr by (auto simp: vote_or_warn_def)
qed (simp add: vote_or_warn_def)

lemma activated_at_transitions: "activated_at (fold (replay_transition PH h) txs reg) = activated_at reg"
proof -
  have "activated_at (replay_transition PH h tx r) = activated_at r" for tx r
    unfolding replay_transition_def Let_def
    by (auto simp: activated_at_submit activated_at_vote split: operation_payload.split option.split prod.split)
  then show ?thesis by (induction txs arbitrary: reg) simp_all
qed

lemma activated_at_finalize: "activated_at (snd (finalize reg h)) = activated_at reg"
  by (auto simp: activated_at_def finalize_def finalize_one_def split: if_splits)

lemma activate_due_settings:
  assumes "registry_ok (gc_proposals c, h)"
  shows "settings_of (activate_due hexdec ceilings h p c) = settings_of c \<and>
      activated_at (gc_proposals (activate_due hexdec ceilings h p c)) = activated_at (gc_proposals c) \<or>
    activated_at (gc_proposals c) \<subset> activated_at (gc_proposals (activate_due hexdec ceilings h p c))"
proof -
  have "activated_at (gc_proposals c) \<subset> activated_at reg" if act: "activate (gc_proposals c) i h = Inr (n, reg)" for i n reg
  proof -
    obtain idx where idx: "map_of (proposal_index (gc_proposals c)) i = Some idx" "gp_status (proposals (gc_proposals c) ! idx) = StTimelocked"
      "reg = set_proposal (gc_proposals c) idx ((proposals (gc_proposals c) ! idx)\<lparr>gp_status := StActivated\<rparr>)"
      using act unfolding activate_Inr by blast
    then have "idx < length (proposals (gc_proposals c))" using assms by (simp add: registry_ok_def index_ok_def)
    then have "activated_at reg = insert idx (activated_at (gc_proposals c))" "idx \<notin> activated_at (gc_proposals c)"
      using idx by (auto simp: activated_at_def nth_list_update)
    then show ?thesis by blast
  qed
  then show ?thesis by (auto simp: activate_due_def split: sum.splits option.splits)
qed

lemma activate_all_settings:
  assumes "registry_ok (gc_proposals c, h)"
  shows "settings_of (fold (activate_due hexdec ceilings h) ps c) = settings_of c \<and>
      activated_at (gc_proposals (fold (activate_due hexdec ceilings h) ps c)) = activated_at (gc_proposals c) \<or>
    activated_at (gc_proposals c) \<subset> activated_at (gc_proposals (fold (activate_due hexdec ceilings h) ps c))"
  using assms
proof (induction ps rule: rev_induct)
  case (snoc p ps)
  let ?c = "fold (activate_due hexdec ceilings h) ps c"
  have "registry_ok (gc_proposals ?c, h)"
    by (rule registry_steps_ok [OF activate_all_steps snoc.prems])
  from activate_due_settings [OF this, of hexdec ceilings p] snoc show ?case by auto
qed simp

text \<open>What activating one proposal does to the settings.\<close>

definition proposal_effect ::
  "(bytes \<Rightarrow> bytes option) \<Rightarrow> constitutional_ceilings option \<Rightarrow> governance_proposal \<Rightarrow> governance_context \<Rightarrow> governance_context" where
  "proposal_effect hexdec ceilings p c =
     (case activated_norm p of
        Some n \<Rightarrow> c\<lparr>gc_state := (gc_state c)\<lparr>active_norms := AList.update (norm_id n) n (active_norms (gc_state c))\<rparr>\<rparr>
      | None \<Rightarrow> activation_effect hexdec ceilings (gp_kind p) c)"

text \<open>The proposals that are activated in the second registry and were not in the first, in the order of submission.\<close>

definition newly_activated :: "proposal_registry \<Rightarrow> proposal_registry \<Rightarrow> governance_proposal list" where
  "newly_activated reg reg' =
     map ((!) (proposals reg')) (filter (\<lambda>i. i \<in> activated_at reg' - activated_at reg) [0..<length (proposals reg')])"

definition is_due :: "nat \<Rightarrow> governance_proposal \<Rightarrow> bool" where
  "is_due h p \<longleftrightarrow> gp_status p = StTimelocked \<and> timelock_until p \<le> h"

abbreviation mark_activated :: "governance_proposal \<Rightarrow> governance_proposal" where
  "mark_activated p \<equiv> p\<lparr>gp_status := StActivated\<rparr>"

lemma activation_effect_cong:
  "settings_of a = settings_of b \<Longrightarrow>
   settings_of (activation_effect hexdec ceilings k a) = settings_of (activation_effect hexdec ceilings k b)"
  by (cases a; cases b; cases k) (auto simp: settings_of_def activation_effect_def split: option.split sum.split)

lemma proposal_effect_cong:
  "settings_of a = settings_of b \<Longrightarrow> settings_of (proposal_effect hexdec ceilings p a) = settings_of (proposal_effect hexdec ceilings p b)"
proof (cases "activated_norm p")
  case None
  then show "settings_of a = settings_of b \<Longrightarrow> ?thesis"
    unfolding proposal_effect_def by (auto intro: activation_effect_cong)
qed (simp add: proposal_effect_def settings_of_def)

lemma proposal_effects_cong:
  "settings_of a = settings_of b \<Longrightarrow>
   settings_of (fold (proposal_effect hexdec ceilings) ps a) = settings_of (fold (proposal_effect hexdec ceilings) ps b)"
proof (induction ps arbitrary: a b)
  case (Cons p ps)
  from Cons.IH [OF proposal_effect_cong [OF Cons.prems]] show ?case by simp
qed simp

lemma proposal_effect_activated: "proposal_effect hexdec ceilings (mark_activated p) = proposal_effect hexdec ceilings p"
  by (intro ext) (simp add: proposal_effect_def activated_norm_def split: proposal_kind.split)

text \<open>A turn of the activation loop for the proposal at a position, when no other proposal has its identifier.\<close>

lemma activate_due_at:
  assumes "index_ok (gc_proposals c)" "distinct (map gp_id (proposals (gc_proposals c)))"
    and "i < length (proposals (gc_proposals c))" "proposals (gc_proposals c) ! i = p"
  shows "settings_of (activate_due hexdec ceilings h p c) = settings_of (if is_due h p then proposal_effect hexdec ceilings p c else c) \<and>
    gc_proposals (activate_due hexdec ceilings h p c) = (if is_due h p then set_proposal (gc_proposals c) i (mark_activated p) else gc_proposals c)"
proof -
  obtain j where j: "map_of (proposal_index (gc_proposals c)) (gp_id p) = Some j"
    using assms unfolding index_ok_def by (metis nth_mem option.exhaust)
  then have "j < length (proposals (gc_proposals c))" "gp_id (proposals (gc_proposals c) ! j) = gp_id p"
    using assms(1) by (auto simp: index_ok_def)
  then have "j = i" using assms(2-4) nth_eq_iff_index_eq [OF assms(2), of j i] by simp
  then have act: "is_due h p \<Longrightarrow> activate (gc_proposals c) (gp_id p) h = Inr (activated_norm p, set_proposal (gc_proposals c) i (mark_activated p))"
    using j assms(4) unfolding activate_Inr is_due_def by blast
  have "settings_of (activation_effect hexdec ceilings k (c\<lparr>gc_proposals := r\<rparr>)) = settings_of (activation_effect hexdec ceilings k c)" for k r
    by (rule activation_effect_cong) (simp add: settings_of_def)
  then show ?thesis
    using act by (auto simp: activate_due_def is_due_def proposal_effect_def settings_of_def split: option.split)
qed

lemma index_ok_ids:
  assumes "index_ok reg" "proposal_index reg' = proposal_index reg" "map gp_id (proposals reg') = map gp_id (proposals reg)"
  shows "index_ok reg'"
proof -
  have "length (proposals reg') = length (proposals reg)" using assms(3) by (metis length_map)
  moreover have "gp_id (proposals reg' ! j) = gp_id (proposals reg ! j)" if "j < length (proposals reg)" for j
    using that assms(3) by (metis calculation nth_map)
  moreover have "map_of (proposal_index reg) (gp_id p) \<noteq> None" if "p \<in> set (proposals reg')" for p
  proof -
    have "gp_id p \<in> set (map gp_id (proposals reg))" unfolding assms(3) [symmetric] using that by simp
    then show ?thesis using assms(1) by (auto simp: index_ok_def)
  qed
  ultimately show ?thesis using assms(1,2) by (simp add: index_ok_def)
qed

lemma activate_prefix:
  fixes hexdec ceilings h and c :: governance_context
  defines "ps \<equiv> proposals (gc_proposals c)"
  defines "run k \<equiv> fold (activate_due hexdec ceilings h) (take k ps) c"
  assumes ok: "index_ok (gc_proposals c)" "distinct (map gp_id ps)" and "k \<le> length ps"
  shows "settings_of (run k) = settings_of (fold (proposal_effect hexdec ceilings) (filter (is_due h) (take k ps)) c) \<and>
    proposals (gc_proposals (run k)) = map (\<lambda>p. if is_due h p then mark_activated p else p) (take k ps) @ drop k ps \<and>
    proposal_index (gc_proposals (run k)) = proposal_index (gc_proposals c)"
  using assms(5)
proof (induction k)
  case (Suc k)
  let ?p = "ps ! k" and ?g = "\<lambda>p. if is_due h p then mark_activated p else p" and ?r = "gc_proposals (run k)"
  have k: "k < length ps" using Suc by simp
  note IH = Suc(1) [OF less_imp_le [OF k]]
  have run: "run (Suc k) = activate_due hexdec ceilings h ?p (run k)"
    using k by (simp add: run_def take_Suc_conv_app_nth)
  have ids: "map gp_id (proposals ?r) = map gp_id ps"
  proof -
    have g: "map gp_id (map ?g qs) = map gp_id qs" for qs by (induction qs) simp_all
    have "map gp_id (map ?g (take k ps) @ drop k ps) = map gp_id (take k ps @ drop k ps)" unfolding map_append g ..
    then show ?thesis using IH by (simp only: append_take_drop_id)
  qed
  then have len: "length (proposals ?r) = length ps" by (metis length_map)
  have "index_ok ?r" using index_ok_ids [OF ok(1), of ?r] ids IH by (simp add: ps_def)
  moreover have at: "proposals ?r ! k = ?p" using IH k by (simp add: nth_append)
  ultimately have turn: "settings_of (run (Suc k)) = settings_of (if is_due h ?p then proposal_effect hexdec ceilings ?p (run k) else run k)"
    "gc_proposals (run (Suc k)) = (if is_due h ?p then set_proposal ?r k (mark_activated ?p) else ?r)"
    using activate_due_at [of "run k" k ?p hexdec ceilings h] ids ok(2) k len run by simp_all
  have "settings_of (proposal_effect hexdec ceilings ?p (run k)) =
      settings_of (proposal_effect hexdec ceilings ?p (fold (proposal_effect hexdec ceilings) (filter (is_due h) (take k ps)) c))"
    by (rule proposal_effect_cong) (use IH in blast)
  then have "settings_of (run (Suc k)) = settings_of (fold (proposal_effect hexdec ceilings) (filter (is_due h) (take (Suc k) ps)) c)"
    using turn(1) IH k by (simp add: take_Suc_conv_app_nth)
  moreover have "proposals (gc_proposals (run (Suc k))) = map ?g (take (Suc k) ps) @ drop (Suc k) ps"
    using turn(2) IH k at by (simp add: take_Suc_conv_app_nth Cons_nth_drop_Suc [symmetric] list_update_append)
  moreover have "proposal_index (gc_proposals (run (Suc k))) = proposal_index (gc_proposals c)"
    using turn(2) IH by simp
  ultimately show ?case by blast
qed (simp add: run_def ps_def)

lemma newly_activated_due:
  assumes "proposals reg' = map (\<lambda>p. if is_due h p then mark_activated p else p) (proposals reg)" "activated_at reg = activated_at reg0"
  shows "newly_activated reg0 reg' = map mark_activated (filter (is_due h) (proposals reg))"
proof -
  let ?ps = "proposals reg"
  have "i \<in> activated_at reg' - activated_at reg0 \<longleftrightarrow> is_due h (?ps ! i)" if "i < length ?ps" for i
    using that assms(1) unfolding assms(2) [symmetric] by (auto simp: activated_at_def is_due_def)
  then have "filter (\<lambda>i. i \<in> activated_at reg' - activated_at reg0) [0..<length ?ps] = filter (\<lambda>i. is_due h (?ps ! i)) [0..<length ?ps]"
    by (intro filter_cong) auto
  then have "newly_activated reg0 reg' = map ((!) (proposals reg')) (filter (\<lambda>i. is_due h (?ps ! i)) [0..<length ?ps])"
    using assms(1) by (simp add: newly_activated_def)
  also have "\<dots> = map (\<lambda>i. mark_activated (?ps ! i)) (filter (\<lambda>i. is_due h (?ps ! i)) [0..<length ?ps])"
    using assms(1) by (intro map_cong) auto
  also have "\<dots> = map mark_activated (filter (is_due h) (map ((!) ?ps) [0..<length ?ps]))"
    by (simp add: filter_map o_def)
  finally show ?thesis by (simp add: map_nth)
qed

lemma newly_activated_some: "activated_at reg \<subset> activated_at reg' \<Longrightarrow> newly_activated reg reg' \<noteq> []"
  by (auto simp: newly_activated_def filter_empty_conv activated_at_def)

lemma newly_activated_won:
  assumes "registry_ok (reg', h)" "p \<in> set (newly_activated reg reg')" "h < U64_MAX"
  shows "gp_status p = StActivated \<and> votes_against p < votes_for p \<and> voting_deadline p + timelock_duration (gp_kind p) < h"
proof -
  have p: "p \<in> set (proposals reg')" "gp_status p = StActivated"
    using assms(2) by (auto simp: newly_activated_def activated_at_def)
  then have "proposal_ok h p" using assms(1) by (auto simp: registry_ok_def)
  then obtain f where "voting_deadline p < f" "votes_against p < votes_for p"
    "u64_saturating_add f (timelock_duration (gp_kind p)) \<le> h"
    using p(2) by (auto simp: proposal_ok_def timelock_ok_def)
  then show ?thesis using assms(3) p(2) by (auto simp: u64_saturating_add_def split: if_splits)
qed

lemma same_ids: "map gp_id (ps[i := mark_activated (ps ! i)]) = map gp_id ps"
  by (cases "i < length ps") (simp_all add: map_update list_update_same_conv list_update_beyond)

lemma activate_all_ids:
  "map gp_id (proposals (gc_proposals (fold (activate_due hexdec ceilings h) ps c))) = map gp_id (proposals (gc_proposals c))"
proof (induction ps arbitrary: c)
  case (Cons p ps)
  have "map gp_id (proposals reg) = map gp_id (proposals (gc_proposals c))"
    if "activate (gc_proposals c) i h = Inr (n, reg)" for i n reg
    using that unfolding activate_Inr by (auto simp: same_ids)
  then have "map gp_id (proposals (gc_proposals (activate_due hexdec ceilings h p c))) = map gp_id (proposals (gc_proposals c))"
    by (auto simp: activate_due_def split: sum.splits option.splits)
  then show ?case using Cons.IH by simp
qed simp

lemma replay_effects:
  fixes PH hexdec ceilings txs h and c :: governance_context
  defines "c' \<equiv> replay_governance_from_transitions PH hexdec ceilings txs h c"
  assumes "registry_ok (gc_proposals c, h0)" "h0 \<le> h" "distinct (map gp_id (proposals (gc_proposals c')))"
  shows "settings_of c' = settings_of (fold (proposal_effect hexdec ceilings) (newly_activated (gc_proposals c) (gc_proposals c')) c)"
proof -
  define r where "r = snd (finalize (fold (replay_transition PH h) txs (gc_proposals c)) h)"
  let ?c = "c\<lparr>gc_proposals := r\<rparr>"
  have c': "c' = fold (activate_due hexdec ceilings h) (proposals r) ?c"
    by (simp add: c'_def r_def replay_governance_from_transitions_def Let_def)
  have ok: "index_ok r" using replay_stages(2) [OF assms(2,3)] by (simp add: registry_ok_def r_def)
  have at: "activated_at r = activated_at (gc_proposals c)"
    by (simp add: r_def activated_at_finalize activated_at_transitions)
  have "distinct (map gp_id (proposals r))"
    using assms(4) activate_all_ids [of hexdec ceilings h "proposals r" ?c] unfolding c' by simp
  then have run: "settings_of c' = settings_of (fold (proposal_effect hexdec ceilings) (filter (is_due h) (proposals r)) ?c)"
    "proposals (gc_proposals c') = map (\<lambda>p. if is_due h p then mark_activated p else p) (proposals r)"
    using activate_prefix [of ?c "length (proposals r)" hexdec ceilings h] ok unfolding c' by simp_all
  have "settings_of ?c = settings_of c" by (simp add: settings_of_def)
  then show ?thesis
    using run(1) proposal_effects_cong [of ?c c] newly_activated_due [OF run(2) at]
    by (simp add: fold_map o_def proposal_effect_activated)
qed

section \<open>Properties\<close>

text \<open>
  C21. Governance keeps its settings in bounds and its registry in order: whatever transitions a block
  carries, replaying them keeps every limit, the finality settings, the finality mode, the validator set (sorted,
  without duplicates), the consensus parameters (valid, and within the ceilings when these are readable) and the norms
  (filed under their identifiers) well-formed, and the registry remains one that the proposal life cycle reaches.
\<close>

theorem governance_replay_safe:
  assumes "context_ok ceilings c" "registry_reachable PH (gc_proposals c, h0)" "h0 \<le> h"
  shows "context_ok ceilings (replay_governance_from_transitions PH hexdec ceilings txs h c) \<and>
    registry_reachable PH (gc_proposals (replay_governance_from_transitions PH hexdec ceilings txs h c), h)"
  using replay_governance_ok [OF assms(1), of ceilings] assms(2) replay_governance_steps [OF assms(3)]
  unfolding registry_reachable_def by (blast intro: rtranclp_trans)

definition fresh_context :: governance_context where
  "fresh_context =
     \<lparr>gc_proposals = proposal_registry_default, gc_state = governance_state_default, gc_limits = governance_limits_default,
      gc_finality = finality_config_default, gc_validators = [], gc_params = consensus_params_default, gc_mutated = False\<rparr>"

lemma fresh_context_ok: "context_ok (Some constitutional_ceilings_default) fresh_context"
  "registry_reachable PH (gc_proposals fresh_context, 0)"
  using defaults_valid defaults_within_ceilings
  by (auto simp: context_ok_def fresh_context_def limits_ok_def governance_limits_default_def finality_ok_def
      finality_config_default_def finality_mode_validate_def governance_state_default_def validators_ok_def params_ok_def
      registry_reachable_def)

theorem governance_replay_witness:
  "context_ok (Some constitutional_ceilings_default)
     (replay_governance_from_transitions (\<lambda>_. 9) Some (Some constitutional_ceilings_default)
        [sample_transition (PProposeNorm ''n'' ''d'')] 4 fresh_context)"
  using governance_replay_safe [OF fresh_context_ok, of 4 "\<lambda>_. 9" Some "[sample_transition (PProposeNorm ''n'' ''d'')]"] by simp

text \<open>
  C20. A block changes a governance setting only by activating a proposal in this very block: every proposal that is activated
  after the replay of the block and was not before had more votes for than against, and its voting period and
  timelock both ended before the block; when the norms, the emergency mode, the limits, the finality settings, the validator set
  or the consensus parameters differ after the replay, there is such a proposal; and as long as no two proposals
  have the same identifier, the settings after the block are exactly those before it with the effects of
  these newly activated proposals applied once, in the order of submission.
\<close>

theorem governance_change_authorised:
  assumes "registry_reachable PH (gc_proposals c, h0)" "h0 \<le> h" "h < U64_MAX"
  shows "let c' = replay_governance_from_transitions PH hexdec ceilings txs h c;
             new = newly_activated (gc_proposals c) (gc_proposals c')
    in (\<forall>p \<in> set new. gp_status p = StActivated \<and> votes_against p < votes_for p \<and>
          voting_deadline p + timelock_duration (gp_kind p) < h) \<and>
       (settings_of c' \<noteq> settings_of c \<longrightarrow> new \<noteq> []) \<and>
       (distinct (map gp_id (proposals (gc_proposals c'))) \<longrightarrow>
          settings_of c' = settings_of (fold (proposal_effect hexdec ceilings) new c))"
proof -
  let ?r = "snd (finalize (fold (replay_transition PH h) txs (gc_proposals c)) h)"
  let ?c = "c\<lparr>gc_proposals := ?r\<rparr>" and ?c' = "replay_governance_from_transitions PH hexdec ceilings txs h c"
  note ok0 = registry_reachable_ok [OF assms(1)]
  have ok: "registry_ok (?r, h)" using replay_stages(2) [OF ok0 assms(2)] .
  have "settings_of ?c = settings_of c" "activated_at ?r = activated_at (gc_proposals c)"
    by (simp_all add: settings_of_def activated_at_finalize activated_at_transitions)
  then have "settings_of ?c' \<noteq> settings_of c \<longrightarrow> newly_activated (gc_proposals c) (gc_proposals ?c') \<noteq> []"
    using activate_all_settings [of ?c h hexdec ceilings "proposals ?r"] ok newly_activated_some
    by (auto simp: replay_governance_from_transitions_def Let_def)
  moreover have "registry_ok (gc_proposals ?c', h)"
    by (rule registry_steps_ok [OF replay_governance_steps [OF assms(2)] ok0])
  ultimately show ?thesis
    using newly_activated_won [of "gc_proposals ?c'" h _ "gc_proposals c"] replay_effects [OF ok0 assms(2)] assms(3)
    unfolding Let_def by blast
qed

definition accepted_context :: governance_context where
  "accepted_context = fresh_context\<lparr>gc_proposals := registry_of accepted_proposal\<rparr>"

lemma accepted_context_replay:
  "gc_proposals (replay_governance_from_transitions sample_hash Some None [] 70 accepted_context) = registry_of (mark_activated accepted_proposal)"
  by (simp add: accepted_context_def replay_governance_from_transitions_def finalize_def finalize_one_def
      activate_due_def activate_def activated_norm_def set_proposal_def fresh_context_def Let_def)

theorem governance_change_authorised_witness:
  "let c' = replay_governance_from_transitions sample_hash Some None [] 70 accepted_context
   in newly_activated (gc_proposals accepted_context) (gc_proposals c') = [mark_activated accepted_proposal] \<and>
      voting_deadline accepted_proposal + timelock_duration (gp_kind accepted_proposal) < 70 \<and>
      settings_of c' = settings_of (proposal_effect Some None accepted_proposal accepted_context) \<and>
      settings_of c' \<noteq> settings_of accepted_context"
proof -
  let ?c' = "replay_governance_from_transitions sample_hash Some None [] 70 accepted_context"
  have new: "newly_activated (gc_proposals accepted_context) (gc_proposals ?c') = [mark_activated accepted_proposal]"
    unfolding accepted_context_replay by (simp add: accepted_context_def newly_activated_def activated_at_def)
  have "registry_reachable sample_hash (gc_proposals accepted_context, 16)"
    using voted_registry_reachable by (simp add: accepted_context_def)
  note c20 = governance_change_authorised [OF this, of 70 Some None "[]", unfolded Let_def new]
  have "settings_of ?c' = settings_of (proposal_effect Some None (mark_activated accepted_proposal) accepted_context)"
    "voting_deadline accepted_proposal + timelock_duration (gp_kind accepted_proposal) < 70"
    using c20 unfolding accepted_context_replay by (simp_all add: U64_MAX_def)
  moreover have "settings_of (proposal_effect Some None accepted_proposal accepted_context) \<noteq> settings_of accepted_context"
    by (simp add: accepted_context_def settings_of_def proposal_effect_def activated_norm_def fresh_context_def governance_state_default_def)
  ultimately show ?thesis using new unfolding proposal_effect_activated Let_def by metis
qed

text \<open>
  A transition can only vote in favour: in a registry that the chain has built up, no proposal ever
  has a vote against it, so one vote of sufficient level is enough to carry a proposal and nobody can oppose it.
\<close>

theorem votes_are_never_against:
  assumes "registry_ok (gc_proposals c, h0)" "h0 \<le> h" "\<forall>p \<in> set (proposals (gc_proposals c)). votes_against p = 0"
  shows "\<forall>p \<in> set (proposals (gc_proposals (replay_governance_from_transitions PH hexdec ceilings txs h c))).
    votes_against p = 0"
proof -
  let ?r = "fold (replay_transition PH h) txs (gc_proposals c)"
  have "unopposed (snd (finalize ?r h))"
    using assms(3) unopposed_transitions [OF _ replay_stages(1) [OF assms(1,2)]] by (intro unopposed_finalize) (simp add: unopposed_def)
  then have "unopposed (gc_proposals (replay_governance_from_transitions PH hexdec ceilings txs h c))"
    unfolding replay_governance_from_transitions_def Let_def
    using replay_stages(2) [OF assms(1,2), of PH txs] by (intro unopposed_activate_all) simp_all
  then show ?thesis by (simp add: unopposed_def)
qed

theorem votes_are_never_against_witness:
  "list_all (\<lambda>p. votes_against p = 0) (proposals (gc_proposals (replay_governance_from_transitions sample_hash Some None
     [sample_transition (PProposeNorm ''n'' ''d'')] 4 fresh_context)))"
  using votes_are_never_against [of fresh_context 0 4 sample_hash Some None "[sample_transition (PProposeNorm ''n'' ''d'')]"]
    registry_reachable_ok [OF fresh_context_ok(2)]
  by (simp add: fresh_context_def proposal_registry_default_def list_all_iff)

text \<open>
  Snapshots carry the settings unchanged into a block and back.
\<close>

lemma snapshot_roundtrip:
  "governance_limits_from_snapshot (governance_limits_snapshot_from l) = l"
  "finality_config_from_snapshot (finality_config_snapshot_from f) = f"
  by (simp_all add: governance_limits_from_snapshot_def governance_limits_snapshot_from_def
      finality_config_from_snapshot_def finality_config_snapshot_from_def)

end
