(* ===== verification/Scc_Chain.thy ===== *)
theory Scc_Chain
  imports Scc_Cpog Scc_Mempool Scc_Governance_Replay Scc_Slashing Scc_Norms Scc_Safety
begin

text \<open>
  The chain of a node (\<open>node/chain.rs\<close>, with the events of \<open>types/events.rs\<close>): validation and import of
  blocks, block production, fork choice, slashing and the records of evidence and certificates. A
  result \<open>None\<close> of an operation is a panic inside block validation. The clones that validation and production
  work on share the durable store of the chain's state; \<open>share_store\<close> carries their writes back. The bridge to
  the API server and the log output are left out. The functions of other packages that only the chain calls are
  gathered in the record \<open>node_ext\<close>.
\<close>

section \<open>Data\<close>

datatype governance_action =
    ProposalSubmitted | ProposalVoted bool | ProposalAccepted | ProposalRejected | ProposalTimelocked nat
  | ProposalActivated | EmergencyActivated | EmergencyDeactivated

datatype chain_event =
    EvStateWrite hash bytes agent_id
  | EvTransfer hash agent_id agent_id tension_value string
  | EvFeeCharged hash agent_id tension_value nat
  | EvRewardDistributed nat agent_id tension_value
  | EvEscrowCreated hash agent_id agent_id tension_value
  | EvEscrowReleased hash agent_id tension_value
  | EvEscrowRefunded hash agent_id tension_value
  | EvGovernanceChange hash governance_action agent_id nat
  | EvValidatorSlashed agent_id string tension_value
  | EvBlockFinalized nat hash string
  | EvInvariantViolation string string nat
  | EvArtifactRegistered hash hash hash string
  | EvAttestationCreated hash hash hash string
  | EvLineageEdgeRecorded hash hash string hash
  | EvAccessGrantCreated hash hash hash
  | EvAccessGrantRevoked hash hash
  | EvSessionLifecycle hash string nat
  | EvDisputeLifecycle hash hash string nat
  | EvValidatorSetChanged hash string agent_id nat nat
  | EvKeyRotated agent_id hash hash nat

record chain =
  ch_blocks :: "block list"
  ch_block_version :: nat
  ch_state :: managed_world_state
  ch_mempool :: mempool
  ch_chain_id :: hash
  ch_validator_key :: hash
  ch_economics :: economic_state
  ch_balances :: balance_ledger
  ch_treasury :: treasury
  ch_governance_limits :: governance_limits
  ch_power_tracker :: governance_power_tracker
  ch_proposals :: proposal_registry
  ch_finality :: finality_tracker
  ch_finality_config :: finality_config
  ch_slashing :: slashing_engine
  ch_equivocation_records :: "(equivocation_proof \<times> nat) list"
  ch_safety_certificates :: "safety_certificate list"
  ch_validator_set :: "validator_authority list"
  ch_latest_events :: "chain_event list"
  ch_latest_rejected_receipts :: "causal_receipt list"
  ch_responsibility :: "(agent_id, responsibility_state) hashmap"

datatype production_rejection =
    RjNonce nat agent_id
  | RjFeeSolvency apply_error
  | RjFeeDebit ledger_error
  | RjTransfer ledger_error
  | RjNonceDrift nonce_error

record node_ext =
  nx_public :: "hash \<Rightarrow> hash"
  nx_sign :: "hash \<Rightarrow> bytes \<Rightarrow> bytes"
  nx_proposal_hash :: proposal_hash
  nx_header_bytes :: "block_header \<Rightarrow> bytes"
  nx_signing_bytes :: "block_header \<times> causal_proof \<Rightarrow> bytes"
  nx_timestamp_bytes :: "causal_timestamp \<Rightarrow> bytes"
  nx_governance_state_bytes :: "governance_state \<Rightarrow> bytes"
  nx_vertex_bytes :: "hash \<times> nat \<Rightarrow> bytes"
  nx_genesis_bytes :: "hash \<Rightarrow> bytes"
  nx_params_bytes :: "consensus_params \<Rightarrow> bytes"
  nx_params_dec :: params_decoders
  nx_history_bytes :: "tension_value list \<Rightarrow> bytes"
  nx_versions_dec :: "bytes \<Rightarrow> chain_version_transition list option"
  nx_fmt :: "tx_rejection \<Rightarrow> string"
  nx_reason :: "production_rejection \<Rightarrow> string"

datatype chain_error =
    ChNoBlocks
  | ChHeight nat nat
  | ChParent
  | ChChainId
  | ChVersionAlignment chain_version_check
  | ChVersion
  | ChNoProposer
  | ChProposer hash hash
  | ChProposerUnknown hash
  | ChSignatureShort nat
  | ChZeroValidator
  | ChSignatureInvalid
  | ChCpog "cpog_error list"
  | ChNonce nonce_error
  | ChEconomics apply_error
  | ChNotProposer nat
  | ChConcentration concentration_error
  | ChReceiptDeltas apply_error
  | ChSeal seal_error
  | ChMempool mempool_error

definition share_store :: "managed_world_state \<Rightarrow> managed_world_state \<Rightarrow> managed_world_state" where
  "share_store w clone =
     (case durable (trie w) of
        None \<Rightarrow> w
      | Some _ \<Rightarrow> w\<lparr>trie := (trie w)\<lparr>durable := durable (trie clone)\<rparr>\<rparr>)"

section \<open>Small operations\<close>

definition latest_block :: "chain \<Rightarrow> block option" where
  "latest_block c = (if ch_blocks c = [] then None else Some (last (ch_blocks c)))"

definition block_at :: "chain \<Rightarrow> nat \<Rightarrow> block option" where
  "block_at c h = (if h < length (ch_blocks c) then Some (ch_blocks c ! h) else None)"

definition chain_height :: "chain \<Rightarrow> nat" where
  "chain_height c = (case latest_block c of None \<Rightarrow> 0 | Some b \<Rightarrow> bh_height (header b))"

definition block_hash_at :: "block list \<Rightarrow> nat \<Rightarrow> hash option" where
  "block_hash_at bs h = (if h < length bs then Some (bh_block_id (header (bs ! h))) else None)"

definition set_validator_set :: "chain \<Rightarrow> validator_authority list \<Rightarrow> chain" where
  "set_validator_set c vs = c\<lparr>ch_validator_set := sort_key va_node_id vs\<rparr>"

definition set_validator_key :: "chain \<Rightarrow> hash \<Rightarrow> chain" where
  "set_validator_key c k = c\<lparr>ch_validator_key := k\<rparr>"

definition local_validator_id :: "node_ext \<Rightarrow> chain \<Rightarrow> hash" where
  "local_validator_id X c = nx_public X (ch_validator_key c)"

definition is_proposer_for_height :: "node_ext \<Rightarrow> chain \<Rightarrow> nat \<Rightarrow> bool" where
  "is_proposer_for_height X c h =
     (if ch_validator_set c = [] then True
      else case round_robin_proposer (ch_validator_set c) h of
             Some a \<Rightarrow> va_node_id a = local_validator_id X c
           | None \<Rightarrow> False)"

definition is_deterministic :: "chain \<Rightarrow> bool" where
  "is_deterministic c \<longleftrightarrow> gov_finality_mode (ws_governance_state (state (ch_state c))) = Deterministic"

definition submit_transition :: "chain \<Rightarrow> symbolic_transition \<Rightarrow> chain_error + chain" where
  "submit_transition c tx =
     (case mempool_add (ch_mempool c) tx of
        Inl e \<Rightarrow> Inl (ChMempool e)
      | Inr p \<Rightarrow> Inr (c\<lparr>ch_mempool := p\<rparr>))"

section \<open>Slashing and records\<close>

definition execute_slashing_penalty :: "chain \<Rightarrow> hash \<Rightarrow> tension_value \<Rightarrow> tension_value \<times> chain" where
  "execute_slashing_penalty c v penalty =
     (let available = balance_of (ch_balances c) v;
          actual = (if penalty > available then available else penalty)
      in if actual > 0
         then case debit (ch_balances c) v actual of
                Inl _ \<Rightarrow> (0, c)
              | Inr b \<Rightarrow>
                  let t = collect_fee (ch_treasury c) actual
                  in (actual, c\<lparr>ch_balances := b,
                        ch_treasury := (case treasury_burn t actual of Inl _ \<Rightarrow> t | Inr t' \<Rightarrow> t')\<rparr>)
         else (actual, c))"

definition MAX_EQUIVOCATION_RECORDS :: nat where "MAX_EQUIVOCATION_RECORDS = 8192"

definition ordered_hashes :: "equivocation_proof \<Rightarrow> hash \<times> hash" where
  "ordered_hashes p =
     (if ep_block_hash_a p \<le> ep_block_hash_b p then (ep_block_hash_a p, ep_block_hash_b p)
      else (ep_block_hash_b p, ep_block_hash_a p))"

definition same_equivocation :: "equivocation_proof \<times> nat \<Rightarrow> equivocation_proof \<times> nat \<Rightarrow> bool" where
  "same_equivocation x y \<longleftrightarrow> snd x = snd y \<and> ep_validator_id (fst x) = ep_validator_id (fst y) \<and>
     ep_height (fst x) = ep_height (fst y) \<and> ep_round (fst x) = ep_round (fst y) \<and>
     ep_vote_type (fst x) = ep_vote_type (fst y) \<and> ordered_hashes (fst x) = ordered_hashes (fst y)"

definition record_equivocation :: "chain \<Rightarrow> equivocation_proof \<Rightarrow> nat \<Rightarrow> chain" where
  "record_equivocation c p ep =
     (if \<exists>r \<in> set (ch_equivocation_records c). same_equivocation r (p, ep) then c
      else
        let (a, b) = ordered_hashes p;
            rs = ch_equivocation_records c @ [(p\<lparr>ep_block_hash_a := a, ep_block_hash_b := b\<rparr>, ep)]
        in c\<lparr>ch_equivocation_records :=
               (if length rs > MAX_EQUIVOCATION_RECORDS then drop (length rs - MAX_EQUIVOCATION_RECORDS) rs else rs)\<rparr>)"

definition MAX_SAFETY_CERTIFICATES :: nat where "MAX_SAFETY_CERTIFICATES = 10000"

definition cert_key :: "safety_certificate \<Rightarrow> nat \<times> nat \<times> hash" where
  "cert_key s = (sc_height s, sc_round s, sc_block_hash s)"

definition record_safety_certificate :: "chain \<Rightarrow> safety_certificate \<Rightarrow> chain" where
  "record_safety_certificate c cert =
     (if \<exists>s \<in> set (ch_safety_certificates c). sc_height s = sc_height cert \<and> sc_block_hash s = sc_block_hash cert \<and>
           sc_round s = sc_round cert then c
      else
        let certs = ch_safety_certificates c @ [cert];
            kept = (if length certs > MAX_SAFETY_CERTIFICATES
                    then drop (length certs - MAX_SAFETY_CERTIFICATES) (sort_key cert_key certs) else certs);
            c1 = c\<lparr>ch_safety_certificates := kept\<rparr>
        in if \<not> is_deterministic c \<and> sc_height cert > finalized_height (ch_finality c)
           then c1\<lparr>ch_finality := (ch_finality c)\<lparr>finalized_height := sc_height cert\<rparr>,
                   ch_latest_events := ch_latest_events c @ [EvBlockFinalized (sc_height cert) (sc_block_hash cert) ''bft'']\<rparr>
           else c1)"

fun merge_certificates :: "(nat \<times> nat \<times> hash) set \<Rightarrow> safety_certificate list \<Rightarrow> safety_certificate list" where
  "merge_certificates seen [] = []"
| "merge_certificates seen (s # ss) =
     (if cert_key s \<in> seen then merge_certificates seen ss
      else s # merge_certificates (insert (cert_key s) seen) ss)"

definition restore_safety_certificates :: "chain \<Rightarrow> safety_certificate list \<Rightarrow> chain" where
  "restore_safety_certificates c certs =
     (if certs = [] then c
      else
        let merged = merge_certificates {} (ch_safety_certificates c @ certs);
            c1 = c\<lparr>ch_safety_certificates := merged\<rparr>
        in if is_deterministic c \<or> merged = [] then c1
           else
             let m = Max (set (map sc_height merged))
             in if m > finalized_height (ch_finality c)
                then c1\<lparr>ch_finality := (ch_finality c)\<lparr>finalized_height := m\<rparr>\<rparr> else c1)"

section \<open>Fork choice\<close>

definition chain_tip_of :: "chain \<Rightarrow> chain_tip" where
  "chain_tip_of c =
     \<lparr>ct_block_id = (case latest_block c of None \<Rightarrow> ZERO_HASH | Some b \<Rightarrow> bh_block_id (header b)),
      ct_height = chain_height c, finalized_depth = finalized_height (ch_finality c),
      cumulative_voting_power = chain_height c\<rparr>"

definition should_switch_to :: "chain \<Rightarrow> chain \<Rightarrow> bool" where
  "should_switch_to c other =
     (if ch_chain_id other \<noteq> ch_chain_id c then False
      else
        let both_deterministic = is_deterministic c \<and> is_deterministic other;
            self_tip = chain_tip_of c; other_tip = chain_tip_of other
        in case score_cmp other_tip self_tip of
             Greater_ord \<Rightarrow> \<not> (\<not> both_deterministic \<and> finalized_depth self_tip = finalized_depth other_tip)
           | _ \<Rightarrow> False)"

section \<open>Validation and import\<close>

definition block_signing_payload :: "ext \<Rightarrow> node_ext \<Rightarrow> block_header \<Rightarrow> causal_proof \<Rightarrow> hash" where
  "block_signing_payload E X h p = ex_blake3 E (nx_signing_bytes X (h, p\<lparr>cp_validator_signature := []\<rparr>))"

definition verify_producer_signature :: "ext \<Rightarrow> node_ext \<Rightarrow> block \<Rightarrow> chain_error + unit" where
  "verify_producer_signature E X b =
     (let sig = cp_validator_signature (causal_proof_of b); pk = bh_validator_id (header b)
      in if length sig < 64 then Inl (ChSignatureShort (length sig))
         else if pk = ZERO_HASH then Inl ChZeroValidator
         else if \<not> ex_verify E pk (hash_bytes (block_signing_payload E X (header b) (causal_proof_of b))) sig
         then Inl ChSignatureInvalid
         else Inr ())"

text \<open>The checks before the proof of governance.\<close>

definition check_block_version :: "node_ext \<Rightarrow> chain \<Rightarrow> block \<Rightarrow> chain_error + unit" where
  "check_block_version X c b =
     (let ts = (case chain_version_history_from_trie (nx_versions_dec X) (ch_state c) of Inl _ \<Rightarrow> [] | Inr ts \<Rightarrow> ts)
      in if ts \<noteq> []
         then (case verify_block_version_alignment (bh_height (header b)) (bh_version (header b)) (ch_block_version c) ts of
                 VersionAligned \<Rightarrow> Inr ()
               | m \<Rightarrow> Inl (ChVersionAlignment m))
         else if bh_version (header b) \<noteq> ch_block_version c then Inl ChVersion
         else Inr ())"

definition check_proposer :: "chain \<Rightarrow> block \<Rightarrow> nat option \<Rightarrow> chain_error + unit" where
  "check_proposer c b round_no =
     (let v = bh_validator_id (header b)
      in if ch_validator_set c = [] then Inr ()
         else case round_no of
                Some r \<Rightarrow>
                  (case round_robin_proposer (ch_validator_set c) (u64_saturating_add (bh_height (header b)) r) of
                     None \<Rightarrow> Inl ChNoProposer
                   | Some a \<Rightarrow> if va_node_id a \<noteq> v then Inl (ChProposer (va_node_id a) v) else Inr ())
              | None \<Rightarrow>
                  if \<exists>a \<in> set (ch_validator_set c). va_node_id a = v then Inr () else Inl (ChProposerUnknown v))"

definition validate_candidate_block_for_round ::
  "ext \<Rightarrow> node_ext \<Rightarrow> chain \<Rightarrow> block \<Rightarrow> nat option \<Rightarrow> ((chain_error + unit) \<times> chain) option" where
  "validate_candidate_block_for_round E X c b round_no =
     (case latest_block c of
        None \<Rightarrow> Some (Inl ChNoBlocks, c)
      | Some parent \<Rightarrow>
          let expected = u64_saturating_add (bh_height (header parent)) 1;
              static = (if bh_height (header b) \<noteq> expected then Inl (ChHeight expected (bh_height (header b)))
                        else if bh_parent_id (header b) \<noteq> bh_block_id (header parent) then Inl ChParent
                        else if bh_chain_id (header b) \<noteq> ch_chain_id c then Inl ChChainId
                        else bind_result (check_block_version X c b)
                               (\<lambda>_. bind_result (check_proposer c b round_no)
                                      (\<lambda>_. verify_producer_signature E X b)))
          in case static of
               Inl e \<Rightarrow> Some (Inl e, c)
             | Inr _ \<Rightarrow>
                 (case validate_cpog E b (ch_state c) (bh_block_id (header parent)) of
                    None \<Rightarrow> None
                  | Some (r, spec) \<Rightarrow>
                      Some (case r of CpogValid \<Rightarrow> Inr () | CpogInvalid errs \<Rightarrow> Inl (ChCpog errs),
                            c\<lparr>ch_state := share_store (ch_state c) spec\<rparr>)))"

definition validate_candidate_block ::
  "ext \<Rightarrow> node_ext \<Rightarrow> chain \<Rightarrow> block \<Rightarrow> ((chain_error + unit) \<times> chain) option" where
  "validate_candidate_block E X c b = validate_candidate_block_for_round E X c b None"

definition governance_context_of :: "chain \<Rightarrow> governance_context" where
  "governance_context_of c =
     \<lparr>gc_proposals = ch_proposals c, gc_state = ws_governance_state (state (ch_state c)), gc_limits = ch_governance_limits c,
      gc_finality = ch_finality_config c, gc_validators = ch_validator_set c,
      gc_params = consensus_params (ch_state c), gc_mutated = False\<rparr>"

definition readable_ceilings :: "ext \<Rightarrow> managed_world_state \<Rightarrow> constitutional_ceilings option" where
  "readable_ceilings E w = (case constitutional_ceilings_from_trie (ex_ceilings E) w of Inl _ \<Rightarrow> None | Inr x \<Rightarrow> x)"

text \<open>What the replay of governance leaves in the world state.\<close>

definition governed_world :: "node_ext \<Rightarrow> governance_context \<Rightarrow> managed_world_state \<Rightarrow> managed_world_state" where
  "governed_world X g w =
     (let w1 = w\<lparr>state := (state w)\<lparr>ws_governance_state := gc_state g\<rparr>, consensus_params := gc_params g\<rparr>
      in if gc_mutated g then commit_consensus_params (nx_params_bytes X) w1 else w1)"

definition replay_governance_transitions ::
  "ext \<Rightarrow> node_ext \<Rightarrow> chain \<Rightarrow> symbolic_transition list \<Rightarrow> nat \<Rightarrow> chain" where
  "replay_governance_transitions E X c txs h =
     (let g = replay_governance_from_transitions (nx_proposal_hash X) (ex_hexdec E) (readable_ceilings E (ch_state c)) txs h
                (governance_context_of c)
      in c\<lparr>ch_proposals := gc_proposals g, ch_governance_limits := gc_limits g, ch_finality_config := gc_finality g,
           ch_validator_set := gc_validators g, ch_state := governed_world X g (ch_state c)\<rparr>)"

text \<open>The finality tracker after a new block, \<open>None\<close> when the loop does not return.\<close>

definition update_finality :: "chain \<Rightarrow> nat \<Rightarrow> finality_tracker option" where
  "update_finality c h =
     (let t = on_new_block (ch_finality c) h
      in if is_deterministic c
         then map_option snd (check_finality (ch_finality_config c) (block_hash_at (ch_blocks c)) t)
         else Some t)"

definition spot_gas_price :: "chain \<Rightarrow> tension_value" where
  "spot_gas_price c =
     (let f = ws_tension_field (state (ch_state c))
      in effective_fee (ch_economics c) (total f) (current_budget (budget f)))"

text \<open>The state part of an import: nonces, economics, transitions, epoch, tension history, height.\<close>

definition import_state ::
  "ext \<Rightarrow> node_ext \<Rightarrow> chain \<Rightarrow> block \<Rightarrow> (chain_error + unit) \<times> managed_world_state \<times> balance_ledger \<times> treasury" where
  "import_state E X c b =
     (let txs = transitions (body b); h = header b
      in case validate_nonces (ch_state c) txs of
           (Inl e, w1) \<Rightarrow> (Inl (ChNonce e), w1, ch_balances c, ch_treasury c)
         | (Inr _, w1) \<Rightarrow>
             (case apply_block_economics (ex_blake3 E) (ex_seal_bytes E) (ex_hex E) w1 (ch_balances c) (ch_treasury c) txs
                     (receipts b) (ch_block_version c) (bh_validator_id h) (spot_gas_price c) default_block_reward of
                (Inl e, w2, b2, t2) \<Rightarrow> (Inl (ChEconomics e), w2, b2, t2)
              | (Inr _, w2, b2, t2) \<Rightarrow>
                  (case apply_block_transitions (ex_hex E) w2 b2 txs of
                     (_, w3, b3) \<Rightarrow>
                       let t3 = (if bh_height h mod 100 = 0 then snd (advance_epoch t2) else t2);
                           w4 = (if bh_height h mod 100 = 0 then commit_treasury_state w3 t3 else w3);
                           w5 = (if bh_version h \<ge> PATCH_05_BLOCK_VERSION
                                 then (case append_and_trim (nx_history_bytes X) (ex_tension_history E) w4 (bh_tension_after h) of
                                         Inl _ \<Rightarrow> w4
                                       | Inr (_, w') \<Rightarrow> w')
                                 else w4)
                       in (Inr (), set_height w5 (bh_height h), b3, t3))))"

definition import_block :: "ext \<Rightarrow> node_ext \<Rightarrow> chain \<Rightarrow> block \<Rightarrow> ((chain_error + unit) \<times> chain) option" where
  "import_block E X c0 b =
     (case validate_candidate_block E X c0 b of
        None \<Rightarrow> None
      | Some (Inl e, c) \<Rightarrow> Some (Inl e, c)
      | Some (Inr _, c) \<Rightarrow>
          (case import_state E X c b of
             (Inl e, w, bal, tr) \<Rightarrow> Some (Inl e, c\<lparr>ch_state := w, ch_balances := bal, ch_treasury := tr\<rparr>)
           | (Inr _, w, bal, tr) \<Rightarrow>
               let h = bh_height (header b); v = bh_validator_id (header b); txs = transitions (body b);
                   tracker = record_proposal (ch_power_tracker c) v;
                   c1 = c\<lparr>ch_state := w, ch_balances := bal, ch_treasury := tr,
                          ch_mempool := mark_confirmed (ch_mempool c) (map tx_id txs),
                          ch_power_tracker := (if h mod 100 = 0 then tracker_reset_epoch tracker else tracker),
                          ch_economics := (if h mod 100 = 0 then reset_epoch (ch_economics c) else ch_economics c)\<rparr>
               in case update_finality c1 h of
                    None \<Rightarrow> None
                  | Some fin \<Rightarrow>
                      let c2 = c1\<lparr>ch_finality := fin, ch_slashing := record_presence (ch_slashing c1) v\<rparr>;
                          c3 = replay_governance_transitions E X c2 txs h
                      in Some (Inr (), c3\<lparr>ch_blocks := ch_blocks c3 @ [b]\<rparr>)))"

section \<open>Building a block\<close>

definition transition_edges :: "causal_vertex \<Rightarrow> symbolic_transition \<Rightarrow> causal_edge list" where
  "transition_edges block_vertex tx =
     [ContainedBy (VTransition (tx_id tx)) block_vertex, AuthorizedBy (VTransition (tx_id tx)) (VActor (agent_id_of (actor tx)))] @
     map (\<lambda>a. CausedBy (VTransition (tx_id tx)) (VTransition a)) (causal_chain tx)"

definition governance_snapshot_of ::
  "ext \<Rightarrow> node_ext \<Rightarrow> managed_world_state \<Rightarrow> governance_limits \<Rightarrow> finality_config \<Rightarrow> governance_snapshot" where
  "governance_snapshot_of E X w limits fin =
     (let g = ws_governance_state (state w)
      in \<lparr>gs_state_hash = ex_blake3 E (nx_governance_state_bytes X g),
          gs_active_norm_count = min (length (active_norms g)) U32_MAX,
          gs_emergency_mode = emergency_mode g, gs_finality_mode = gov_finality_mode g,
          gs_governance_limits = governance_limits_snapshot_from limits,
          gs_finality_config = finality_config_snapshot_from fin\<rparr>)"

text \<open>The arguments of \<open>build_block\<close> that vary with the block; \<open>now\<close> is the clock.\<close>

definition build_header ::
  "ext \<Rightarrow> node_ext \<Rightarrow> chain \<Rightarrow> block \<Rightarrow> nat \<Rightarrow> symbolic_transition list \<Rightarrow> causal_receipt list \<Rightarrow>
   causal_edge list \<Rightarrow> governance_snapshot \<Rightarrow> managed_world_state \<Rightarrow> hash \<Rightarrow> block_header" where
  "build_header E X c parent now txs rcs es gov w balroot =
     (let B = ex_blake3 E; h = u64_saturating_add (bh_height (header parent)) 1; v = local_validator_id X c;
          pts = bh_timestamp (header parent); t = total (ws_tension_field (state w));
          hd0 = \<lparr>bh_chain_id = ch_chain_id c, bh_block_id = ZERO_HASH, bh_parent_id = bh_block_id (header parent),
                 bh_height = h, bh_timestamp = timestamp_successor pts v (B (nx_timestamp_bytes X pts)) now,
                 bh_state_root = state_root B w,
                 bh_transition_root = merkle_root_of_bytes B (map (\<lambda>tx. hash_bytes (tx_id tx)) txs),
                 bh_receipt_root = merkle_root_of_bytes B (map (ex_receipt_bytes E) rcs),
                 bh_causal_root = (if es = [] then ZERO_HASH else merkle_root_of_bytes B (map (ex_edge_bytes E) es)),
                 bh_proof_root = ZERO_HASH, bh_governance_hash = B (ex_governance_bytes E gov),
                 bh_tension_before = t, bh_tension_after = t, bh_mfidel_seal = seal_from_height h,
                 bh_balance_root = balroot, bh_validator_id = v, bh_version = ch_block_version c,
                 bh_round_history_root = ZERO_HASH\<rparr>
      in hd0\<lparr>bh_block_id := B (nx_header_bytes X hd0)\<rparr>)"

definition build_block ::
  "ext \<Rightarrow> node_ext \<Rightarrow> chain \<Rightarrow> block \<Rightarrow> nat \<Rightarrow> symbolic_transition list \<Rightarrow> causal_receipt list \<Rightarrow>
   managed_world_state \<Rightarrow> hash \<Rightarrow> block" where
  "build_block E X c parent now txs rcs w balroot =
     (let B = ex_blake3 E; h = u64_saturating_add (bh_height (header parent)) 1;
          bv = VBlock (B (nx_vertex_bytes X (ch_chain_id c, h)));
          es = concat (map (transition_edges bv) txs);
          gov = governance_snapshot_of E X w (ch_governance_limits c) (ch_finality_config c);
          hdr = build_header E X c parent now txs rcs es gov w balroot;
          proof0 = \<lparr>cp_block_height = h, cp_transitions_proven = [], cp_phi_traversal_log = phi_log_new,
                    cp_governance_snapshot_hash = bh_governance_hash hdr, cp_tension_before = bh_tension_before hdr,
                    cp_tension_after = bh_tension_before hdr, cp_constraint_results = [], cp_recursion_depth = 0,
                    cp_validator_signature = [],
                    cp_causal_hash = blake3_hash_concat B
                      [hash_bytes (bh_block_id (header parent)), hash_bytes (bh_transition_root hdr)]\<rparr>;
          sig = nx_sign X (ch_validator_key c) (hash_bytes (block_signing_payload E X hdr proof0))
      in \<lparr>header = hdr,
          body = \<lparr>transitions = txs, transition_count = min (length txs) U32_MAX, total_tension_delta = 0,
                  body_constraint_satisfaction = [], genesis_consensus_params = None,
                  validator_set_changes = None, body_equivocation_evidence = None\<rparr>,
          receipts = rcs,
          causal_delta = \<lparr>new_vertices = bv # map (\<lambda>tx. VTransition (tx_id tx)) txs, new_edges = es,
                          causal_root = bh_causal_root hdr\<rparr>,
          causal_proof_of = proof0\<lparr>cp_validator_signature := sig\<rparr>,
          governance = gov\<rparr>)"

section \<open>Production\<close>

definition invalid_receipt :: "string \<Rightarrow> causal_receipt \<Rightarrow> causal_receipt" where
  "invalid_receipt reason r =
     r\<lparr>rc_verdict := Reject reason, post_state_root := pre_state_root r, write_set := [], emitted_events := [],
       rc_wh_binding := (rc_wh_binding r)\<lparr>what_actual := state_delta_default, whether := Invalid reason\<rparr>\<rparr>"

definition make_prefilter_reject_receipt :: "symbolic_transition \<Rightarrow> hash \<Rightarrow> string \<Rightarrow> causal_receipt" where
  "make_prefilter_reject_receipt tx root reason =
     \<lparr>rc_tx_id = tx_id tx, rc_verdict = Reject reason, pre_state_root = root, post_state_root = root,
      read_set = [], write_set = [], causes = [],
      resource_used = \<lparr>compute_steps = 0, ru_state_reads = 0, ru_state_writes = 0, proof_size_bytes = 0\<rparr>,
      emitted_events = [],
      rc_wh_binding = \<lparr>wr_intent = wh_binding_intent_of tx, what_actual = state_delta_default, whether = Invalid reason\<rparr>,
      phi_phase_reached = 0, rc_tension_delta = 0\<rparr>"

text \<open>The state of the admission loop.\<close>

record admission =
  ad_gas :: block_gas_meter
  ad_world :: managed_world_state
  ad_balances :: balance_ledger
  ad_accepted :: "symbolic_transition list"
  ad_receipts :: "causal_receipt list"
  ad_rejected :: "causal_receipt list"

definition push_rejected :: "admission \<Rightarrow> causal_receipt \<Rightarrow> admission" where
  "push_rejected a r = a\<lparr>ad_rejected := ad_rejected a @ [r]\<rparr>"

text \<open>Whether the fee and the payload of an accepted transition can be paid, and the ledger after both.\<close>

definition pay_for ::
  "nat \<Rightarrow> balance_ledger \<Rightarrow> symbolic_transition \<Rightarrow> tension_value \<Rightarrow> production_rejection + balance_ledger" where
  "pay_for ver bal tx fee =
     (case resolve_fee_payer ver bal tx fee of
        Inl e \<Rightarrow> Inl (RjFeeSolvency e)
      | Inr payer \<Rightarrow>
          (case (if fee > 0 then debit bal payer fee else Inr bal) of
             Inl e \<Rightarrow> Inl (RjFeeDebit e)
           | Inr bal1 \<Rightarrow>
               (case payload tx of
                  PAssetTransfer src dst amt \<Rightarrow>
                    (case transfer bal1 src dst amt of Inl e \<Rightarrow> Inl (RjTransfer e) | Inr bal2 \<Rightarrow> Inr bal2)
                | _ \<Rightarrow> Inr bal1)))"

text \<open>One turn of the loop; \<open>None\<close> when the block is full and the loop breaks.\<close>

definition admit_one ::
  "ext \<Rightarrow> node_ext \<Rightarrow> chain \<Rightarrow> tension_value \<Rightarrow> admission \<Rightarrow> symbolic_transition \<Rightarrow> admission option" where
  "admit_one E X c price a tx =
     (let last_n = (case map_of (agent_nonces (ad_world a)) (agent_id_of (actor tx)) of Some k \<Rightarrow> k | None \<Rightarrow> 0);
          root = state_root (ex_blake3 E) (ch_state c)
      in if nonce tx = 0 \<or> int (last_n + 1) > U128_MAX \<or> nonce tx \<noteq> last_n + 1
         then Some (push_rejected a (make_prefilter_reject_receipt tx root
                (nx_reason X (RjNonce (nonce tx) (agent_id_of (actor tx))))))
         else case validate_transition_metered E (nx_fmt X) tx (ad_world a) (default_tx_gas_limit (consensus_params (ad_world a))) of
                (r, gas) \<Rightarrow>
                  if \<not> can_fit (ad_gas a) gas then None
                  else if \<not> is_accepted (rc_verdict r) then Some (push_rejected a r)
                  else case pay_for (ch_block_version c) (ad_balances a) tx (i128_saturating_mul (int gas) price) of
                         Inl e \<Rightarrow> Some (push_rejected a (invalid_receipt (nx_reason X e) r))
                       | Inr bal \<Rightarrow>
                           let a1 = a\<lparr>ad_gas := record_tx (ad_gas a) gas, ad_balances := bal\<rparr>
                           in case check_nonce (ad_world a) (agent_id_of (actor tx)) (nonce tx) of
                                Inl e \<Rightarrow> Some (push_rejected a1 (make_prefilter_reject_receipt tx root
                                           (nx_reason X (RjNonceDrift e))))
                              | Inr w \<Rightarrow> Some (a1\<lparr>ad_world := w, ad_accepted := ad_accepted a @ [tx],
                                                   ad_receipts := ad_receipts a @ [r]\<rparr>))"

fun admit_loop ::
  "ext \<Rightarrow> node_ext \<Rightarrow> chain \<Rightarrow> tension_value \<Rightarrow> admission \<Rightarrow> symbolic_transition list \<Rightarrow> admission" where
  "admit_loop E X c price a [] = a"
| "admit_loop E X c price a (tx # txs) =
     (case admit_one E X c price a tx of None \<Rightarrow> a | Some a' \<Rightarrow> admit_loop E X c price a' txs)"

definition admission_new :: "chain \<Rightarrow> admission" where
  "admission_new c =
     \<lparr>ad_gas = block_gas_new (default_block_gas_limit (consensus_params (ch_state c))), ad_world = ch_state c,
      ad_balances = ch_balances c, ad_accepted = [], ad_receipts = [], ad_rejected = []\<rparr>"

fun seal_all :: "hash \<Rightarrow> causal_receipt list \<Rightarrow> seal_error + causal_receipt list" where
  "seal_all root [] = Inr []"
| "seal_all root (r # rs) =
     bind_result (seal_receipt_post_state r root) (\<lambda>r'. bind_result (seal_all root rs) (\<lambda>rs'. Inr (r' # rs')))"

definition set_actual :: "causal_receipt \<Rightarrow> state_delta \<Rightarrow> causal_receipt" where
  "set_actual r d = r\<lparr>rc_wh_binding := (rc_wh_binding r)\<lparr>what_actual := d\<rparr>\<rparr>"

text \<open>\<open>iter_mut().zip(..)\<close>: receipts beyond the deltas stay as they are.\<close>

fun set_actuals :: "causal_receipt list \<Rightarrow> state_delta list \<Rightarrow> causal_receipt list" where
  "set_actuals (r # rs) (d # ds) = set_actual r d # set_actuals rs ds"
| "set_actuals rs _ = rs"

text \<open>The outcome of the speculative application.\<close>

record speculation =
  sp_block :: block
  sp_outcome :: block_economics_outcome
  sp_world :: managed_world_state
  sp_balances :: balance_ledger
  sp_treasury :: treasury
  sp_rejected :: "causal_receipt list"

definition production_gas_price :: "chain \<Rightarrow> tension_value" where
  "production_gas_price c =
     effective_fee (ch_economics c)
       (case latest_block c of Some b \<Rightarrow> bh_tension_after (header b) | None \<Rightarrow> 0)
       (current_budget (budget (ws_tension_field (state (ch_state c)))))"

text \<open>From the drained transitions to the signed block; an error also returns the clone.\<close>

definition speculate ::
  "ext \<Rightarrow> node_ext \<Rightarrow> chain \<Rightarrow> block \<Rightarrow> nat \<Rightarrow> symbolic_transition list \<Rightarrow> chain_error \<times> managed_world_state + speculation" where
  "speculate E X c parent now drained =
     (let B = ex_blake3 E; price = production_gas_price c; h = u64_saturating_add (bh_height (header parent)) 1;
          a = admit_loop E X c price (admission_new c) drained; txs = ad_accepted a;
          w1 = snd (validate_nonces (ch_state c) txs)
      in case apply_block_economics B (ex_seal_bytes E) (ex_hex E) w1 (ch_balances c) (ch_treasury c) txs (ad_receipts a)
                (ch_block_version c) (local_validator_id X c) price default_block_reward of
           (Inl e, w2, _, _) \<Rightarrow> Inl (ChEconomics e, w2)
         | (Inr out, w2, b2, t2) \<Rightarrow>
             (case apply_block_transitions (ex_hex E) w2 b2 txs of
                (ds, w3, b3) \<Rightarrow>
                  let t3 = (if h mod 100 = 0 then snd (advance_epoch t2) else t2);
                      w4 = set_height (if h mod 100 = 0 then commit_treasury_state w3 t3 else w3) h
                  in case combine_receipt_deltas (tx_deltas out) ds of
                       Inl e \<Rightarrow> Inl (ChReceiptDeltas e, w4)
                     | Inr actual \<Rightarrow>
                         (case seal_all (state_root B w4) (set_actuals (ad_receipts a) actual) of
                            Inl e \<Rightarrow> Inl (ChSeal e, w4)
                          | Inr rcs \<Rightarrow>
                              Inr \<lparr>sp_block = build_block E X c parent now txs rcs w4 (balance_root B b3),
                                   sp_outcome = out, sp_world = w4, sp_balances = b3, sp_treasury = t3,
                                   sp_rejected = ad_rejected a\<rparr>)))"

definition payload_events :: "symbolic_transition \<Rightarrow> chain_event list" where
  "payload_events tx =
     (case payload tx of
        PWrite k _ \<Rightarrow> [EvStateWrite (tx_id tx) k (agent_id_of (actor tx))]
      | PAssetTransfer src dst amt \<Rightarrow> [EvTransfer (tx_id tx) src dst amt (declared_purpose (tx_intent tx))]
      | _ \<Rightarrow> [])"

definition fee_events :: "block \<Rightarrow> block_economics_outcome \<Rightarrow> chain_event list" where
  "fee_events b out =
     map (\<lambda>((tx, r), (payer, fee)). EvFeeCharged (tx_id tx) payer fee (compute_steps (resource_used r)))
       (filter (\<lambda>(_, (_, fee)). fee > 0)
          (zip (zip (transitions (body b)) (receipts b)) (zip (tx_fee_payers out) (tx_fees out))))"

definition is_governance_action :: "symbolic_transition \<Rightarrow> bool" where
  "is_governance_action tx \<longleftrightarrow> ti_kind (tx_intent tx) \<in> {KGovernanceUpdate, KNormProposal, KConstraintAddition}"

definition credit_contribution ::
  "nat \<Rightarrow> symbolic_transition \<Rightarrow> (agent_id, responsibility_state) hashmap \<Rightarrow> (agent_id, responsibility_state) hashmap" where
  "credit_contribution h tx m =
     (let a = agent_id_of (actor tx);
          r = (case map_of m a of Some r \<Rightarrow> r | None \<Rightarrow> responsibility_state_default)
      in AList.update a (record_positive r (tx_id tx) (from_integer 1) h) m)"

text \<open>What a valid block commits to the chain, up to the finality update.\<close>

definition commit_produced :: "ext \<Rightarrow> node_ext \<Rightarrow> chain \<Rightarrow> nat \<Rightarrow> speculation \<Rightarrow> managed_world_state \<Rightarrow> chain" where
  "commit_produced E X c h sp clone =
     (let b = sp_block sp; out = sp_outcome sp; txs = transitions (body b); v = local_validator_id X c;
          pool = mark_confirmed (ch_mempool c) (map tx_id txs);
          c1 = c\<lparr>ch_mempool := pool\<lparr>mp_containment := tick_block (mp_containment pool)\<rparr>,
                 ch_power_tracker := record_proposal (ch_power_tracker c) v,
                 ch_state := share_store (sp_world sp) clone, ch_balances := sp_balances sp, ch_treasury := sp_treasury sp,
                 ch_economics := econ_distribute_reward (record_fee (ch_economics c) (total_fees out)) (actual_reward out),
                 ch_blocks := ch_blocks c @ [b]\<rparr>;
          c2 = replay_governance_transitions E X c1 txs h;
          tracker = fold (\<lambda>tx t. record_action t (agent_id_of (actor tx))) (filter is_governance_action txs) (ch_power_tracker c2)
      in c2\<lparr>ch_power_tracker := (if h mod 100 = 0 then tracker_reset_epoch tracker else tracker),
            ch_economics := (if h mod 100 = 0 then reset_epoch (ch_economics c2) else ch_economics c2)\<rparr>)"

definition finality_events :: "chain \<Rightarrow> nat \<Rightarrow> finality_tracker \<Rightarrow> chain_event list" where
  "finality_events c prev fin =
     (if finalized_height fin > prev
      then [EvBlockFinalized (finalized_height fin)
              (case block_hash_at (ch_blocks c) (finalized_height fin) of Some i \<Rightarrow> i | None \<Rightarrow> 0) ''economic'']
      else [])"

definition finish_produced :: "node_ext \<Rightarrow> chain \<Rightarrow> nat \<Rightarrow> speculation \<Rightarrow> finality_tracker \<Rightarrow> chain" where
  "finish_produced X c h sp fin =
     (let b = sp_block sp; out = sp_outcome sp; txs = transitions (body b); v = local_validator_id X c
      in c\<lparr>ch_finality := fin, ch_slashing := record_presence (ch_slashing c) v,
           ch_latest_events := concat (map payload_events txs) @ fee_events b out @
             (if actual_reward out > 0 then [EvRewardDistributed h v (actual_reward out)] else []) @
             finality_events c (finalized_height (ch_finality c)) fin,
           ch_latest_rejected_receipts := sp_rejected sp,
           ch_responsibility := map (\<lambda>(a, r). (a, apply_decay r h)) (fold (credit_contribution h) txs (ch_responsibility c))\<rparr>)"

definition produce_block ::
  "ext \<Rightarrow> node_ext \<Rightarrow> nat \<Rightarrow> chain \<Rightarrow> ((chain_error + block) \<times> chain) option" where
  "produce_block E X now c =
     (case latest_block c of
        None \<Rightarrow> Some (Inl ChNoBlocks, c)
      | Some parent \<Rightarrow>
          let h = u64_saturating_add (bh_height (header parent)) 1; v = local_validator_id X c
          in if \<not> is_proposer_for_height X c h then Some (Inl (ChNotProposer h), c)
             else case check_proposal (ch_power_tracker c) v (ch_governance_limits c) of
                    Inl e \<Rightarrow> Some (Inl (ChConcentration e), c)
                  | Inr _ \<Rightarrow>
                      (case drain_validated (ch_mempool c) (ch_state c) of
                         (drained, pool) \<Rightarrow>
                           let c1 = c\<lparr>ch_mempool := pool\<rparr>
                           in case speculate E X c1 parent now drained of
                                Inl (e, clone) \<Rightarrow> Some (Inl e, c1\<lparr>ch_state := share_store (ch_state c1) clone\<rparr>)
                              | Inr sp \<Rightarrow>
                                  (case validate_cpog E (sp_block sp) (share_store (ch_state c1) (sp_world sp)) (bh_block_id (header parent)) of
                                     None \<Rightarrow> None
                                   | Some (CpogInvalid errs, clone) \<Rightarrow>
                                       Some (Inl (ChCpog errs), c1\<lparr>ch_state := share_store (ch_state c1) clone\<rparr>)
                                   | Some (CpogValid, clone) \<Rightarrow>
                                       let c2 = commit_produced E X c1 h sp clone
                                       in case update_finality c2 h of
                                            None \<Rightarrow> None
                                          | Some fin \<Rightarrow> Some (Inr (sp_block sp), finish_produced X c2 h sp fin))))"

text \<open>A candidate is produced on a clone of the chain, which shares the durable store.\<close>

definition on_scratch :: "chain \<Rightarrow> (('a \<times> chain) option) \<Rightarrow> ('a \<times> chain) option" where
  "on_scratch c res =
     map_option (\<lambda>(x, scratch). (x, c\<lparr>ch_state := share_store (ch_state c) (ch_state scratch)\<rparr>)) res"

definition build_candidate_block :: "ext \<Rightarrow> node_ext \<Rightarrow> nat \<Rightarrow> chain \<Rightarrow> ((chain_error + block) \<times> chain) option" where
  "build_candidate_block E X now c = on_scratch c (produce_block E X now c)"

definition build_candidate_block_unchecked :: "ext \<Rightarrow> node_ext \<Rightarrow> nat \<Rightarrow> chain \<Rightarrow> ((chain_error + block) \<times> chain) option" where
  "build_candidate_block_unchecked E X now c = on_scratch c (produce_block E X now (c\<lparr>ch_validator_set := []\<rparr>))"

section \<open>Frames\<close>

lemma share_store_None [simp]: "durable (trie w) = None \<Longrightarrow> share_store w clone = w"
  by (simp add: share_store_def)

lemma share_store_frame [simp]:
  "state (share_store w v) = state w" "agent_nonces (share_store w v) = agent_nonces w"
  "consensus_params (share_store w v) = consensus_params w" "store (trie (share_store w v)) = store (trie w)"
  by (simp_all add: share_store_def split: option.splits)

lemma replay_governance_frame [simp]:
  "ch_blocks (replay_governance_transitions E X c txs h) = ch_blocks c"
  "ch_chain_id (replay_governance_transitions E X c txs h) = ch_chain_id c"
  "ch_block_version (replay_governance_transitions E X c txs h) = ch_block_version c"
  "ch_balances (replay_governance_transitions E X c txs h) = ch_balances c"
  "ch_treasury (replay_governance_transitions E X c txs h) = ch_treasury c"
  "ch_economics (replay_governance_transitions E X c txs h) = ch_economics c"
  "ch_finality (replay_governance_transitions E X c txs h) = ch_finality c"
  "ch_mempool (replay_governance_transitions E X c txs h) = ch_mempool c"
  "ch_validator_key (replay_governance_transitions E X c txs h) = ch_validator_key c"
  "ch_slashing (replay_governance_transitions E X c txs h) = ch_slashing c"
  "ch_power_tracker (replay_governance_transitions E X c txs h) = ch_power_tracker c"
  by (simp_all add: replay_governance_transitions_def Let_def)

text \<open>
  The parts of a world that applying a block leaves alone: the tension field, the governance state, the
  consensus parameters, and the absence of a durable store.
\<close>

definition block_frame :: "managed_world_state \<Rightarrow> managed_world_state \<Rightarrow> bool" where
  "block_frame w w' \<longleftrightarrow> (durable (trie w) = None \<longrightarrow> durable (trie w') = None) \<and>
     ws_tension_field (state w') = ws_tension_field (state w) \<and>
     ws_governance_state (state w') = ws_governance_state (state w) \<and> consensus_params w' = consensus_params w"

lemma block_frame_refl [simp]: "block_frame w w"
  by (simp add: block_frame_def)

lemma block_frame_trans: "block_frame u v \<Longrightarrow> block_frame v w \<Longrightarrow> block_frame u w"
  by (simp add: block_frame_def)

lemma block_frame_apply_delta: "block_frame w (snd (apply_delta w d))"
proof -
  have wr: "block_frame v (apply_write v sw)" for v sw
    by (simp add: block_frame_def apply_write_def trie_insert_def write_through_def Let_def)
  have "block_frame v (snd (apply_writes v sws))" for v sws
  proof (induction v sws rule: apply_writes.induct)
    case (2 v sw sws)
    show ?case
    proof (cases "length (address sw) > max_state_entry_size (consensus_params v) \<or>
        length (sw_value sw) > max_state_entry_size (consensus_params v)")
      case True
      with 2(1) show ?thesis by (simp add: apply_writes.simps(2) Let_def split: prod.split) force
    next
      case False
      with 2(2) have "block_frame (apply_write v sw) (snd (apply_writes (apply_write v sw) sws))" by simp
      from block_frame_trans [OF wr this] show ?thesis using False by (simp add: apply_writes.simps(2) Let_def)
    qed
  qed (simp add: apply_writes.simps)
  moreover have "block_frame v (apply_delete v a)" for v a
    by (simp add: block_frame_def apply_delete_def trie_remove_def write_through_def Let_def split: option.split)
  then have "block_frame v (fold (\<lambda>a w. apply_delete w a) ds v)" for v ds
    by (induction ds arbitrary: v) (auto intro: block_frame_trans)
  ultimately have "block_frame w (fold (\<lambda>a w. apply_delete w a) (deletes d) (snd (apply_writes w (writes d))))"
    by (blast intro: block_frame_trans)
  then show ?thesis by (cases "apply_writes w (writes d)") (simp add: apply_delta_def)
qed

lemma block_frame_commit_balances: "block_frame w (commit_balance_accounts hex w b as)"
proof -
  have "block_frame v (fold (commit_balance_account hex b) xs v)" for v xs
  proof (induction xs arbitrary: v)
    case (Cons a xs)
    from block_frame_trans [OF block_frame_apply_delta Cons] show ?case by (simp add: commit_balance_account_def)
  qed simp
  then show ?thesis by (simp add: commit_balance_accounts_def)
qed

lemma block_frame_treasury: "block_frame w (commit_treasury_state w t)"
  by (simp add: commit_treasury_state_def block_frame_apply_delta)

lemma block_frame_settle:
  assumes "settle_block_economics hex acct reward acc w b t = (out, w', b', t')"
  shows "block_frame w w'"
proof -
  obtain got t1 where d: "distribute_reward t reward = (got, t1)" by fastforce
  let ?w = "\<lambda>b as. commit_balance_accounts hex w b as"
  have "block_frame w (?w x y)" "block_frame w (commit_treasury_state (?w x y) z)" for x y z
    using block_frame_commit_balances block_frame_trans [OF block_frame_commit_balances block_frame_treasury] by blast+
  then show ?thesis using assms by (auto simp: settle_block_economics_def d Let_def split: if_splits)
qed

lemma block_frame_economics:
  assumes "apply_block_economics B canon hex w b t txs rcs ver pk price reward = (r, w', b', t')"
  shows "block_frame w w'"
  using assms block_frame_settle [of hex _ reward _ w]
  by (auto simp: apply_block_economics_def split: if_splits prod.splits sum.splits)

lemma block_frame_transitions:
  assumes "apply_block_transitions hex w b txs = (ds, w', b')"
  shows "block_frame w w'"
proof -
  have "block_frame (aa_world acc) (aa_world (apply_transition hex tx acc))" for tx acc
    by (auto simp: apply_transition_def Let_def block_frame_apply_delta split: operation_payload.splits sum.splits)
  then have "block_frame (aa_world acc) (aa_world (fold (apply_transition hex) txs acc))" for acc
    by (induction txs arbitrary: acc) (auto intro: block_frame_trans)
  from this [of "\<lparr>aa_world = w, aa_balances = b, aa_applied = {}, aa_changed = {}, aa_deltas = []\<rparr>"] show ?thesis
    using assms block_frame_trans [OF _ block_frame_commit_balances] by (auto simp: apply_block_transitions_def Let_def)
qed

lemma block_frame_nonces: "block_frame w (snd (validate_nonces w txs))"
  using nonce_loop_frame [of "agent_nonces w" w txs] by (cases "validate_nonces w txs") (simp add: validate_nonces_def block_frame_def)

lemma block_frame_set_height: "block_frame w (set_height w h)"
  by (simp add: block_frame_def set_height_def)

lemma validate_candidate_frame:
  assumes "validate_candidate_block_for_round E X c b r = Some (res, c')"
  shows "\<exists>w. c' = c\<lparr>ch_state := share_store (ch_state c) w\<rparr> \<or> c' = c"
  using assms by (auto simp: validate_candidate_block_for_round_def Let_def split: option.splits sum.splits prod.splits)

section \<open>Sealing keeps what fees depend on\<close>

definition same_charge :: "causal_receipt \<Rightarrow> causal_receipt \<Rightarrow> bool" where
  "same_charge r s \<longleftrightarrow> rc_tx_id r = rc_tx_id s \<and> rc_verdict r = rc_verdict s \<and> resource_used r = resource_used s"

lemma same_charge_refl [simp]: "same_charge r r"
  by (simp add: same_charge_def)

lemma same_charge_trans: "same_charge r s \<Longrightarrow> same_charge s t \<Longrightarrow> same_charge r t"
  by (simp add: same_charge_def)

lemma set_actuals_charges: "list_all2 same_charge rs (set_actuals rs ds)"
  by (induction rs ds rule: set_actuals.induct)
    (simp_all add: set_actual_def same_charge_def list_all2_same)

lemma seal_all_charges: "seal_all root rs = Inr rs' \<Longrightarrow> list_all2 same_charge rs rs'"
  by (induction rs arbitrary: rs')
    (auto simp: bind_result_Inr seal_receipt_post_state_def same_charge_def split: if_splits)

lemma fee_loop_charges:
  "list_all2 same_charge rs rs' \<Longrightarrow>
   fee_loop hex ver price (zip txs rs) acc b t = fee_loop hex ver price (zip txs rs') acc b t"
proof (induction txs arbitrary: rs rs' acc b t)
  case (Cons tx txs)
  show ?case
  proof (cases rs)
    case Nil
    then show ?thesis using Cons.prems by simp
  next
    case rs: (Cons r xs)
    then obtain r' ys where ys: "rs' = r' # ys" "same_charge r r'" "list_all2 same_charge xs ys"
      using Cons.prems by (auto simp: list_all2_Cons1)
    then have eq: "rc_tx_id r' = rc_tx_id r" "rc_verdict r' = rc_verdict r" "receipt_fee r' price = receipt_fee r price"
      by (simp_all add: same_charge_def receipt_fee_def)
    show ?thesis unfolding rs ys(1) zip_Cons_Cons fee_loop.simps Let_def eq by (simp only: Cons.IH [OF ys(3)])
  qed
qed simp

lemma economics_charges:
  assumes "list_all2 same_charge rs rs'"
  shows "apply_block_economics B canon hex w b t txs rs ver pk price reward =
    apply_block_economics B canon hex w b t txs rs' ver pk price reward"
proof -
  have "length rs = length rs'" "rs = [] \<longleftrightarrow> rs' = []" using assms by (auto dest: list_all2_lengthD)
  then show ?thesis unfolding apply_block_economics_def fee_loop_charges [OF assms] by simp
qed

section \<open>Finality returns\<close>

lemma finality_loop_returns:
  assumes "length bs \<le> U64_MAX"
  shows "\<exists>certs t'. finality_loop depth (block_hash_at bs) t new = Some (certs, t') \<and>
    finalized_height t \<le> finalized_height t' \<and> tip_height t' = tip_height t \<and>
    (finalized_height t' = finalized_height t \<or> finalized_height t' < length bs)"
proof (induction "length bs - finalized_height t" arbitrary: t new rule: less_induct)
  case less
  let ?f = "finalized_height t"
  show ?case
  proof (cases "u64_saturating_add ?f depth \<le> tip_height t \<and> ?f + 1 < length bs")
    case True
    then have target: "u64_saturating_add ?f (Suc 0) = Suc ?f" using assms by (simp add: u64_saturating_add_def)
    let ?cert = "\<lparr>fin_block_hash = bh_block_id (header (bs ! (?f + 1))), fin_height = ?f + 1,
        confirmations = tip_height t - (?f + 1), fin_attestations = [], finalized_at_ms = 0\<rparr>"
    let ?t = "t\<lparr>certificates := certificates t @ [?cert], finalized_height := ?f + 1\<rparr>"
    have "finality_loop depth (block_hash_at bs) t new = finality_loop depth (block_hash_at bs) ?t (new @ [?cert])"
      using True by (subst finality_loop.simps) (simp add: target block_hash_at_def Let_def)
    moreover have "length bs - finalized_height ?t < length bs - ?f" using True by (simp add: diff_less_mono2)
    note less.hyps [OF this, of "new @ [?cert]"]
    ultimately show ?thesis using True by auto
  next
    case False
    then have "finality_loop depth (block_hash_at bs) t new = Some (new, t)"
      using assms by (subst finality_loop.simps) (auto simp: block_hash_at_def Let_def u64_saturating_add_def)
    then show ?thesis by simp
  qed
qed

lemma update_finality_returns:
  assumes "length (ch_blocks c) \<le> U64_MAX"
  obtains fin where "update_finality c h = Some fin" "finalized_height (ch_finality c) \<le> finalized_height fin" "tip_height fin = h"
    "finalized_height fin = finalized_height (ch_finality c) \<or> finalized_height fin < length (ch_blocks c)"
proof (cases "is_deterministic c")
  case True
  obtain certs t' where "finality_loop (fc_confirmation_depth (ch_finality_config c)) (block_hash_at (ch_blocks c))
      (on_new_block (ch_finality c) h) [] = Some (certs, t')"
    "finalized_height (ch_finality c) \<le> finalized_height t'" "tip_height t' = h"
    "finalized_height t' = finalized_height (ch_finality c) \<or> finalized_height t' < length (ch_blocks c)"
    using finality_loop_returns [OF assms, of "fc_confirmation_depth (ch_finality_config c)" "on_new_block (ch_finality c) h" "[]"]
    by (auto simp: on_new_block_def)
  then show thesis using that True by (simp add: update_finality_def check_finality_def)
next
  case False
  then show thesis using that [of "on_new_block (ch_finality c) h"] by (simp add: update_finality_def on_new_block_def)
qed

section \<open>Replicas\<close>

text \<open>The part of a chain that every node of the network holds alike.\<close>

definition same_replica :: "chain \<Rightarrow> chain \<Rightarrow> bool" where
  "same_replica c d \<longleftrightarrow> ch_blocks c = ch_blocks d \<and> ch_block_version c = ch_block_version d \<and> ch_state c = ch_state d \<and>
     ch_chain_id c = ch_chain_id d \<and> ch_balances c = ch_balances d \<and> ch_treasury c = ch_treasury d \<and>
     base_fee (ch_economics c) = base_fee (ch_economics d) \<and> econ_alpha (ch_economics c) = econ_alpha (ch_economics d) \<and>
     ch_governance_limits c = ch_governance_limits d \<and> ch_finality_config c = ch_finality_config d \<and>
     ch_proposals c = ch_proposals d \<and> ch_validator_set c = ch_validator_set d"

definition tension_settled :: "chain \<Rightarrow> bool" where
  "tension_settled c \<longleftrightarrow> ch_blocks c \<noteq> [] \<and>
     bh_tension_after (header (last (ch_blocks c))) = total (ws_tension_field (state (ch_state c)))"

lemma effective_fee_cong:
  "base_fee e = base_fee f \<Longrightarrow> econ_alpha e = econ_alpha f \<Longrightarrow> effective_fee e t b = effective_fee f t b"
  by (simp add: effective_fee_def)

lemma gas_prices_agree:
  assumes "tension_settled c" "same_replica c d"
  shows "production_gas_price c = spot_gas_price d"
proof -
  have "production_gas_price c = effective_fee (ch_economics c) (total (ws_tension_field (state (ch_state d))))
      (current_budget (budget (ws_tension_field (state (ch_state d)))))"
    using assms by (simp add: production_gas_price_def tension_settled_def latest_block_def same_replica_def)
  also have "\<dots> = spot_gas_price d"
    unfolding spot_gas_price_def Let_def by (rule effective_fee_cong) (use assms(2) in \<open>simp_all add: same_replica_def\<close>)
  finally show ?thesis .
qed

lemma governance_agrees:
  assumes "same_replica c d"
  shows "same_replica (replay_governance_transitions E X c txs h) (replay_governance_transitions E X d txs h)"
proof -
  have "governance_context_of c = governance_context_of d" "readable_ceilings E (ch_state c) = readable_ceilings E (ch_state d)"
    using assms by (simp_all add: same_replica_def governance_context_of_def)
  then show ?thesis using assms by (simp add: same_replica_def replay_governance_transitions_def Let_def)
qed

lemma round_robin_member: "round_robin_proposer vs h = Some a \<Longrightarrow> a \<in> set vs"
proof -
  assume r: "round_robin_proposer vs h = Some a"
  let ?o = "sort_key va_node_id (filter va_active vs)"
  have "filter va_active vs \<noteq> []" "a = ?o ! (h mod length ?o)"
    using r by (auto simp: round_robin_proposer_def Let_def split: if_splits)
  then have "a \<in> set ?o" by (metis length_sort length_greater_0_conv mod_less_divisor nth_mem)
  then show "a \<in> set vs" by simp
qed

text \<open>What Ed25519 gives a signer: its signatures have 64 bytes and verify under its public key.\<close>

definition key_signs :: "ext \<Rightarrow> node_ext \<Rightarrow> hash \<Rightarrow> bool" where
  "key_signs E X k \<longleftrightarrow> nx_public X k \<noteq> 0 \<and>
     (\<forall>m. length (nx_sign X k m) = 64 \<and> ex_verify E (nx_public X k) m (nx_sign X k m))"

lemma build_block_fields:
  fixes E X c parent now txs rcs w r
  defines "b \<equiv> build_block E X c parent now txs rcs w r"
  shows "bh_height (header b) = u64_saturating_add (bh_height (header parent)) 1"
    "bh_parent_id (header b) = bh_block_id (header parent)" "bh_chain_id (header b) = ch_chain_id c"
    "bh_version (header b) = ch_block_version c" "bh_validator_id (header b) = local_validator_id X c"
    "transitions (body b) = txs" "receipts b = rcs"
    "bh_tension_after (header b) = total (ws_tension_field (state w))"
    "bh_state_root (header b) = state_root (ex_blake3 E) w" "bh_balance_root (header b) = r"
  by (simp_all add: b_def build_block_def build_header_def Let_def)

lemma build_block_signed:
  assumes "key_signs E X (ch_validator_key c)"
  shows "verify_producer_signature E X (build_block E X c parent now txs rcs w r) = Inr ()"
  using assms
  by (simp add: verify_producer_signature_def build_block_def Let_def key_signs_def block_signing_payload_def
      local_validator_id_def build_header_def)

lemma speculate_block:
  assumes "speculate E X c parent now drained = Inr sp"
  obtains txs rcs where "sp_block sp = build_block E X c parent now txs rcs (sp_world sp) (balance_root (ex_blake3 E) (sp_balances sp))"
  using assms by (auto simp: speculate_def Let_def split: prod.splits sum.splits)

lemma speculate_frame:
  assumes "speculate E X c parent now drained = Inr sp"
  shows "block_frame (ch_state c) (sp_world sp)"
proof -
  let ?price = "production_gas_price c" and ?h = "u64_saturating_add (bh_height (header parent)) 1"
  let ?a = "admit_loop E X c ?price (admission_new c) drained"
  let ?w1 = "snd (validate_nonces (ch_state c) (ad_accepted ?a))"
  obtain r w2 b2 t2 where e: "apply_block_economics (ex_blake3 E) (ex_seal_bytes E) (ex_hex E) ?w1 (ch_balances c) (ch_treasury c)
      (ad_accepted ?a) (ad_receipts ?a) (ch_block_version c) (local_validator_id X c) ?price default_block_reward = (r, w2, b2, t2)"
    by (metis prod_cases4)
  obtain ds w3 b3 where t: "apply_block_transitions (ex_hex E) w2 b2 (ad_accepted ?a) = (ds, w3, b3)" by (metis prod_cases3)
  have "block_frame (ch_state c) w3"
    by (rule block_frame_trans [OF block_frame_trans [OF block_frame_nonces block_frame_economics [OF e]] block_frame_transitions [OF t]])
  then have "block_frame (ch_state c) (if ?h mod 100 = 0 then commit_treasury_state w3 x else w3)" for x
    using block_frame_trans [OF _ block_frame_treasury] by simp
  then have "block_frame (ch_state c) (set_height (if ?h mod 100 = 0 then commit_treasury_state w3 x else w3) ?h)" for x
    by (rule block_frame_trans [OF _ block_frame_set_height])
  then show ?thesis using assms unfolding speculate_def Let_def
    by (simp add: e t split: sum.splits) (auto split: sum.splits)
qed

lemma speculate_import:
  assumes "speculate E X c parent now drained = Inr sp" "same_replica c d" "tension_settled c"
    "ch_block_version c < PATCH_05_BLOCK_VERSION" "nonces_sequential (ch_state c) (transitions (body (sp_block sp)))"
  shows "import_state E X d (sp_block sp) = (Inr (), sp_world sp, sp_balances sp, sp_treasury sp)"
proof -
  let ?B = "ex_blake3 E" and ?price = "production_gas_price c" and ?h = "u64_saturating_add (bh_height (header parent)) 1"
  let ?a = "admit_loop E X c ?price (admission_new c) drained"
  let ?txs = "ad_accepted ?a" and ?w1 = "snd (validate_nonces (ch_state c) (ad_accepted ?a))"
  obtain r w2 b2 t2 where e: "apply_block_economics ?B (ex_seal_bytes E) (ex_hex E) ?w1 (ch_balances c) (ch_treasury c)
      ?txs (ad_receipts ?a) (ch_block_version c) (local_validator_id X c) ?price default_block_reward = (r, w2, b2, t2)"
    by (metis prod_cases4)
  obtain ds w3 b3 where t: "apply_block_transitions (ex_hex E) w2 b2 ?txs = (ds, w3, b3)" by (metis prod_cases3)
  let ?t3 = "if ?h mod 100 = 0 then snd (advance_epoch t2) else t2"
  let ?w4 = "set_height (if ?h mod 100 = 0 then commit_treasury_state w3 ?t3 else w3) ?h"
  obtain out actual rcs where o: "r = Inr out" "combine_receipt_deltas (tx_deltas out) ds = Inr actual"
    "seal_all (state_root ?B ?w4) (set_actuals (ad_receipts ?a) actual) = Inr rcs"
    and sp: "sp_block sp = build_block E X c parent now ?txs rcs ?w4 (balance_root ?B b3)"
      "sp_world sp = ?w4" "sp_balances sp = b3" "sp_treasury sp = ?t3"
    using assms(1) unfolding speculate_def Let_def
    by (simp add: e t split: sum.splits) (auto split: sum.splits)
  have "list_all2 same_charge (ad_receipts ?a) rcs"
    using same_charge_trans set_actuals_charges seal_all_charges [OF o(3)] by (rule list_all2_trans)
  note charge = economics_charges [OF this]
  note block = build_block_fields [of E X c parent now ?txs rcs ?w4 "balance_root ?B b3", folded sp(1)]
  have txs: "transitions (body (sp_block sp)) = ?txs" "receipts (sp_block sp) = rcs"
    "bh_height (header (sp_block sp)) = ?h" "bh_version (header (sp_block sp)) = ch_block_version c"
    "bh_validator_id (header (sp_block sp)) = local_validator_id X c"
    using block by simp_all
  have "validate_nonces (ch_state d) ?txs = (Inr (), ?w1)"
    using validate_nonces_passed [OF assms(5)] assms(2) by (auto simp: txs same_replica_def)
  moreover have "apply_block_economics ?B (ex_seal_bytes E) (ex_hex E) ?w1 (ch_balances d) (ch_treasury d) ?txs rcs
      (ch_block_version d) (local_validator_id X c) (spot_gas_price d) default_block_reward = (Inr out, w2, b2, t2)"
    using e [unfolded charge] o(1) gas_prices_agree [OF assms(3,2)] assms(2) by (simp add: same_replica_def)
  ultimately show ?thesis
    using assms(4) by (simp add: import_state_def txs t sp(2-4) Let_def)
qed

text \<open>A production that succeeds, taken apart.\<close>

lemma produce_block_Inr:
  assumes "produce_block E X now c = Some (Inr b, c')" "durable (trie (ch_state c)) = None"
  obtains parent h drained pool sp clone fin where
    "latest_block c = Some parent" "h = u64_saturating_add (bh_height (header parent)) 1" "is_proposer_for_height X c h"
    "speculate E X (c\<lparr>ch_mempool := pool\<rparr>) parent now drained = Inr sp" "b = sp_block sp"
    "validate_cpog E b (ch_state c) (bh_block_id (header parent)) = Some (CpogValid, clone)"
    "update_finality (commit_produced E X (c\<lparr>ch_mempool := pool\<rparr>) h sp clone) h = Some fin"
    "c' = finish_produced X (commit_produced E X (c\<lparr>ch_mempool := pool\<rparr>) h sp clone) h sp fin"
  using assms by (auto simp: produce_block_def Let_def split: option.splits prod.splits sum.splits if_splits cpog_result.splits)

lemma candidate_passes:
  assumes "latest_block d = Some parent" "bh_height (header b) = u64_saturating_add (bh_height (header parent)) 1"
    "bh_parent_id (header b) = bh_block_id (header parent)" "bh_chain_id (header b) = ch_chain_id d"
    "check_block_version X d b = Inr ()" "check_proposer d b None = Inr ()" "verify_producer_signature E X b = Inr ()"
    "validate_cpog E b (ch_state d) (bh_block_id (header parent)) = Some (CpogValid, clone)" "durable (trie (ch_state d)) = None"
  shows "validate_candidate_block E X d b = Some (Inr (), d)"
  using assms by (simp add: validate_candidate_block_def validate_candidate_block_for_round_def Let_def)

lemma proposer_accepted:
  assumes "is_proposer_for_height X c h" "bh_validator_id (header b) = local_validator_id X c"
    "ch_validator_set d = ch_validator_set c"
  shows "check_proposer d b None = Inr ()"
  using assms round_robin_member [of "ch_validator_set c" h]
  by (auto simp: check_proposer_def is_proposer_for_height_def Let_def split: if_splits option.splits)

lemma governed_world_tension [simp]:
  "ws_tension_field (state (governed_world X g w)) = ws_tension_field (state w)"
  using block_frame_apply_delta by (simp add: governed_world_def commit_consensus_params_def block_frame_def Let_def)

text \<open>The replicated part of the chain after a production and after an import.\<close>

definition adopt :: "ext \<Rightarrow> node_ext \<Rightarrow> chain \<Rightarrow> block \<Rightarrow> managed_world_state \<Rightarrow> balance_ledger \<Rightarrow> treasury \<Rightarrow> chain" where
  "adopt E X c b w bal tr =
     (replay_governance_transitions E X (c\<lparr>ch_state := w, ch_balances := bal, ch_treasury := tr\<rparr>)
        (transitions (body b)) (bh_height (header b)))\<lparr>ch_blocks := ch_blocks c @ [b]\<rparr>"

lemma adopt_agrees: "same_replica c d \<Longrightarrow> same_replica (adopt E X c b w bal tr) (adopt E X d b w bal tr)"
  using governance_agrees [of "c\<lparr>ch_state := w, ch_balances := bal, ch_treasury := tr\<rparr>"
      "d\<lparr>ch_state := w, ch_balances := bal, ch_treasury := tr\<rparr>" E X "transitions (body b)" "bh_height (header b)"]
  by (simp add: adopt_def same_replica_def)

lemma same_replica_sym: "same_replica c d \<Longrightarrow> same_replica d c"
  by (simp add: same_replica_def)

lemma same_replica_trans: "same_replica c d \<Longrightarrow> same_replica d e \<Longrightarrow> same_replica c e"
  by (simp add: same_replica_def)

lemma replay_replica_cong:
  assumes "same_replica (c\<lparr>ch_blocks := []\<rparr>) (d\<lparr>ch_blocks := []\<rparr>)"
  shows "same_replica (replay_governance_transitions E X c txs h\<lparr>ch_blocks := bs\<rparr>)
    (replay_governance_transitions E X d txs h\<lparr>ch_blocks := bs\<rparr>)"
proof -
  have "governance_context_of c = governance_context_of d" "readable_ceilings E (ch_state c) = readable_ceilings E (ch_state d)"
    using assms by (simp_all add: same_replica_def governance_context_of_def)
  then show ?thesis using assms by (simp add: same_replica_def replay_governance_transitions_def Let_def)
qed

lemma produced_adopts:
  assumes "durable (trie (sp_world sp)) = None" "h = bh_height (header (sp_block sp))"
  shows "same_replica (finish_produced X (commit_produced E X c h sp clone) h sp fin)
    (adopt E X c (sp_block sp) (sp_world sp) (sp_balances sp) (sp_treasury sp))"
  using assms
  by (simp add: finish_produced_def commit_produced_def adopt_def same_replica_def replay_governance_transitions_def
      governance_context_of_def Let_def record_fee_def econ_distribute_reward_def reset_epoch_def)

lemma import_adopts:
  assumes "validate_candidate_block E X d b = Some (Inr (), d)" "import_state E X d b = (Inr (), w, bal, tr)"
    "length (ch_blocks d) \<le> U64_MAX"
  obtains d' where "import_block E X d b = Some (Inr (), d')" "same_replica (adopt E X d b w bal tr) d'"
proof -
  let ?h = "bh_height (header b)" and ?v = "bh_validator_id (header b)" and ?txs = "transitions (body b)"
  let ?tracker = "record_proposal (ch_power_tracker d) ?v"
  let ?c1 = "d\<lparr>ch_state := w, ch_balances := bal, ch_treasury := tr,
      ch_mempool := mark_confirmed (ch_mempool d) (map tx_id ?txs),
      ch_power_tracker := (if ?h mod 100 = 0 then tracker_reset_epoch ?tracker else ?tracker),
      ch_economics := (if ?h mod 100 = 0 then reset_epoch (ch_economics d) else ch_economics d)\<rparr>"
  obtain fin where fin: "update_finality ?c1 ?h = Some fin" using update_finality_returns [of ?c1 ?h] assms(3) by auto
  let ?c2 = "?c1\<lparr>ch_finality := fin, ch_slashing := record_presence (ch_slashing ?c1) ?v\<rparr>"
  let ?c3 = "replay_governance_transitions E X ?c2 ?txs ?h"
  have "import_block E X d b = Some (Inr (), ?c3\<lparr>ch_blocks := ch_blocks ?c3 @ [b]\<rparr>)"
    by (simp only: import_block_def assms(1,2) option.case prod.case sum.case Let_def fin)
  moreover have "same_replica (adopt E X d b w bal tr) (?c3\<lparr>ch_blocks := ch_blocks ?c3 @ [b]\<rparr>)"
    by (simp add: adopt_def same_replica_def replay_governance_transitions_def governance_context_of_def Let_def reset_epoch_def)
  ultimately show thesis using that by blast
qed

section \<open>Properties\<close>

text \<open>
  C2. Producers and importers agree. When a node produces a block, every node with the same replicated
  state imports it without error, and afterwards both hold the same blocks, world state, ledger, treasury,
  proposals, limits, finality settings and validator set; the block carries the roots of the state and the ledger it was
  built from. The hypotheses: blocks of a version before 4, no durable store, no recorded version upgrade, a tension
  field that the last block recorded (kept by the step), and a key whose signatures verify.
\<close>

theorem produced_block_imports:
  assumes "produce_block E X now c = Some (Inr b, c')" "same_replica c d" "tension_settled c"
    and "durable (trie (ch_state c)) = None" "ch_block_version c < PATCH_05_BLOCK_VERSION"
    and "chain_version_history_from_trie (nx_versions_dec X) (ch_state c) = Inr []"
    and "key_signs E X (ch_validator_key c)" "length (ch_blocks c) \<le> U64_MAX"
  shows "\<exists>d'. import_block E X d b = Some (Inr (), d') \<and> same_replica c' d' \<and> tension_settled c' \<and>
    ch_blocks c' = ch_blocks c @ [b] \<and>
    (\<exists>w. bh_state_root (header b) = state_root (ex_blake3 E) w \<and> block_frame (ch_state c) w) \<and>
    bh_balance_root (header b) = balance_root (ex_blake3 E) (ch_balances c')"
proof -
  obtain parent h drained pool sp clone fin where
    p: "latest_block c = Some parent" "h = u64_saturating_add (bh_height (header parent)) 1" "is_proposer_for_height X c h"
    "speculate E X (c\<lparr>ch_mempool := pool\<rparr>) parent now drained = Inr sp" "b = sp_block sp"
    "validate_cpog E b (ch_state c) (bh_block_id (header parent)) = Some (CpogValid, clone)"
    "c' = finish_produced X (commit_produced E X (c\<lparr>ch_mempool := pool\<rparr>) h sp clone) h sp fin"
    by (rule produce_block_Inr [OF assms(1,4)])
  let ?c = "c\<lparr>ch_mempool := pool\<rparr>"
  have d: "same_replica ?c d" using assms(2) by (simp add: same_replica_def)
  obtain txs rcs where blk: "b = build_block E X ?c parent now txs rcs (sp_world sp) (balance_root (ex_blake3 E) (sp_balances sp))"
    using speculate_block [OF p(4)] p(5) by metis
  note f = build_block_fields [of E X ?c parent now txs rcs "sp_world sp" "balance_root (ex_blake3 E) (sp_balances sp)", folded blk]
  have h: "bh_height (header b) = h" "0 < bh_height (header b)" using f(1) p(2) by (simp_all add: u64_saturating_add_def U64_MAX_def)
  have frame: "block_frame (ch_state c) (sp_world sp)" using speculate_frame [OF p(4)] by simp
  have "cpog_replay E b (ch_state c) = ([], False, clone)" using validate_cpog_valid [OF p(6)] h(2) by metis
  then have "nonces_sequential (ch_state ?c) (transitions (body (sp_block sp)))" using cpog_replay_ok(2) p(5) by simp
  then have imp: "import_state E X d b = (Inr (), sp_world sp, sp_balances sp, sp_treasury sp)"
    using speculate_import [OF p(4) d] assms(3,5) p(5) by (simp add: tension_settled_def)
  have "check_block_version X d b = Inr ()"
    using assms(2,6) f(4) by (simp add: check_block_version_def same_replica_def)
  moreover have "check_proposer d b None = Inr ()"
    using proposer_accepted [OF p(3)] f(5) assms(2) by (simp add: same_replica_def local_validator_id_def)
  moreover have "verify_producer_signature E X b = Inr ()"
    unfolding blk by (rule build_block_signed) (simp add: assms(7))
  ultimately have "validate_candidate_block E X d b = Some (Inr (), d)"
    using assms(2,4) p(1,6) f(1,2,3) by (intro candidate_passes [where parent = parent]) (auto simp: same_replica_def latest_block_def)
  then obtain d' where d': "import_block E X d b = Some (Inr (), d')"
    "same_replica (adopt E X d b (sp_world sp) (sp_balances sp) (sp_treasury sp)) d'"
    using import_adopts [OF _ imp] assms(2,8) by (metis same_replica_def)
  have made: "same_replica c' (adopt E X ?c b (sp_world sp) (sp_balances sp) (sp_treasury sp))"
    unfolding p(7) using produced_adopts [of sp h] frame assms(4) h(1) p(5) by (simp add: block_frame_def)
  have "same_replica c' d'" by (rule same_replica_trans [OF same_replica_trans [OF made adopt_agrees [OF d]] d'(2)])
  moreover have "ch_blocks c' = ch_blocks c @ [b]" "ch_balances c' = sp_balances sp"
    "ws_tension_field (state (ch_state c')) = ws_tension_field (state (sp_world sp))"
    using made by (simp_all add: same_replica_def adopt_def replay_governance_transitions_def Let_def)
  ultimately show ?thesis using d'(1) f(8-10) frame by (auto simp: tension_settled_def)
qed

text \<open>A small chain, for the witnesses.\<close>

definition sample_node :: node_ext where
  "sample_node =
     \<lparr>nx_public = (\<lambda>k. k), nx_sign = (\<lambda>_ _. replicate 64 (CHR 0x00)), nx_proposal_hash = (\<lambda>_. 9), nx_header_bytes = (\<lambda>_. []),
      nx_signing_bytes = (\<lambda>_. []), nx_timestamp_bytes = (\<lambda>_. []), nx_governance_state_bytes = (\<lambda>_. []),
      nx_vertex_bytes = (\<lambda>_. []), nx_genesis_bytes = (\<lambda>_. []), nx_params_bytes = (\<lambda>_. []),
      nx_params_dec = \<lparr>dec_current = (\<lambda>_. None), dec_v4 = (\<lambda>_. None), dec_v3 = (\<lambda>_. None), dec_v2 = (\<lambda>_. None), dec_v1 = (\<lambda>_. None)\<rparr>,
      nx_history_bytes = (\<lambda>_. []), nx_versions_dec = (\<lambda>_. None), nx_fmt = (\<lambda>_. []), nx_reason = (\<lambda>_. [])\<rparr>"

definition sample_chain :: chain where
  "sample_chain =
     \<lparr>ch_blocks = [sample_block []], ch_block_version = 2, ch_state = world_new, ch_mempool = mempool_new 10, ch_chain_id = 1,
      ch_validator_key = 5, ch_economics = economic_state_default, ch_balances = ledger_new, ch_treasury = treasury_new,
      ch_governance_limits = governance_limits_default, ch_power_tracker = power_tracker_default,
      ch_proposals = proposal_registry_default, ch_finality = finality_tracker_default,
      ch_finality_config = finality_config_default, ch_slashing = slashing_engine_new slashing_config_default,
      ch_equivocation_records = [], ch_safety_certificates = [], ch_validator_set = [], ch_latest_events = [],
      ch_latest_rejected_receipts = [], ch_responsibility = []\<rparr>"

lemma empty_economics:
  assumes "store (trie w) = []"
  shows "\<exists>t'. apply_block_economics B canon hex w ledger_new treasury_new [] [] ver pk price default_block_reward
      = (Inr \<lparr>tx_deltas = [], tx_fees = [], tx_fee_payers = [], total_fees = 0, actual_reward = 0\<rparr>, w, ledger_new, t')"
proof -
  have "fst (distribute_reward treasury_new default_block_reward) = 0"
    by (simp add: distribute_reward_def treasury_new_def default_block_reward_def Let_def from_integer_def SCALE_def i128_ops machine_int)
  then obtain t' where "distribute_reward treasury_new default_block_reward = (0, t')"
    by (metis prod.collapse)
  then show ?thesis
    using assms by (simp add: apply_block_economics_def settle_block_economics_def free_block_acc_def fee_acc_new_def Let_def
        commit_balance_accounts_def state_has_treasury_keys_def trie_iter_def)
qed

lemma empty_transitions: "apply_block_transitions hex w b [] = ([], w, b)"
  by (simp add: apply_block_transitions_def commit_balance_accounts_def)

definition sample_produced :: block where
  "sample_produced =
     build_block signing_ext sample_node sample_chain (sample_block []) 1000 [] [] (set_height world_new 2)
       (balance_root (ex_blake3 signing_ext) ledger_new)"

lemma sample_speculates:
  "\<exists>sp. speculate signing_ext sample_node (sample_chain\<lparr>ch_mempool := pool\<rparr>) (sample_block []) 1000 [] = Inr sp \<and> sp_block sp = sample_produced"
proof -
  have empty: "store (trie world_new) = []" by (simp add: world_new_def trie_new_def)
  have h: "u64_saturating_add (bh_height (header (sample_block []))) (Suc 0) = 2"
    by (simp add: sample_block_def sample_header_def u64_saturating_add_def U64_MAX_def)
  obtain t' where "apply_block_economics (ex_blake3 signing_ext) (ex_seal_bytes signing_ext) (ex_hex signing_ext) world_new ledger_new
      treasury_new [] [] 2 (local_validator_id sample_node (sample_chain\<lparr>ch_mempool := pool\<rparr>))
      (production_gas_price (sample_chain\<lparr>ch_mempool := pool\<rparr>)) default_block_reward
      = (Inr \<lparr>tx_deltas = [], tx_fees = [], tx_fee_payers = [], total_fees = 0, actual_reward = 0\<rparr>, world_new, ledger_new, t')"
    using empty_economics [OF empty] by blast
  moreover have "ch_state (sample_chain\<lparr>ch_mempool := pool\<rparr>) = world_new" "ch_balances (sample_chain\<lparr>ch_mempool := pool\<rparr>) = ledger_new"
    "ch_treasury (sample_chain\<lparr>ch_mempool := pool\<rparr>) = treasury_new" "ch_block_version (sample_chain\<lparr>ch_mempool := pool\<rparr>) = 2"
    by (simp_all add: sample_chain_def)
  moreover have "build_block E X (c\<lparr>ch_mempool := pool\<rparr>) p n txs rcs w r = build_block E X c p n txs rcs w r" for E X c p n txs rcs w r
    by (simp add: build_block_def build_header_def local_validator_id_def Let_def)
  ultimately show ?thesis
    by (simp add: speculate_def admission_new_def validate_nonces_def empty_transitions combine_receipt_deltas_def
        sample_produced_def Let_def h)
qed

lemma sample_produced_valid: "\<exists>clone. validate_cpog signing_ext sample_produced world_new 2 = Some (CpogValid, clone)"
proof -
  note f = build_block_fields [of signing_ext sample_node sample_chain "sample_block []" 1000 "[]" "[]" "set_height world_new 2"
      "balance_root (ex_blake3 signing_ext) ledger_new", folded sample_produced_def]
  have empty: "store (trie world_new) = []" by (simp add: world_new_def trie_new_def)
  have h: "bh_height (header sample_produced) = 2"
    by (simp add: f(1) sample_block_def sample_header_def u64_saturating_add_def U64_MAX_def)
  have root: "state_root B (set_height world_new 2) = state_root B world_new" for B
    by (simp add: state_root_def set_height_def)
  have v: "bh_version (header sample_produced) = 2" using f(4) by (simp add: sample_chain_def)
  obtain price where price: "cpog_gas_price signing_ext sample_produced world_new = Inr price"
    by (simp add: cpog_gas_price_def v PATCH_05_BLOCK_VERSION_def)
  obtain t' out where eco: "apply_block_economics (ex_blake3 signing_ext) (ex_seal_bytes signing_ext) (ex_hex signing_ext) world_new
      ledger_new treasury_new [] [] 2 (bh_validator_id (header sample_produced)) price default_block_reward = (Inr out, world_new, ledger_new, t')"
    using empty_economics [OF empty] by blast
  have "bh_tension_before (header sample_produced) = total (ws_tension_field (state world_new))"
    by (simp add: sample_produced_def build_block_def build_header_def set_height_def Let_def)
  then have "cpog_replay signing_ext sample_produced world_new = ([], False, world_new)"
    using price eco h v f(6,7,9,10)
    by (simp add: cpog_replay_def Let_def fresh_world_reads [OF empty] validate_nonces_def cpog_errors_def empty_transitions root)
  moreover have "cpog_header_errors signing_ext sample_produced world_new 2 = []"
    by (simp add: cpog_header_errors_def h f(6,7) Let_def)
      (simp add: sample_produced_def build_block_def build_header_def sample_block_def sample_header_def world_new_def set_height_def
        world_state_default_def tension_field_default_def tension_budget_default_def consensus_params_default_def merkle_root_of_bytes_def
        u64_saturating_add_def tension_ops i128_ops machine_int from_integer_def SCALE_def Let_def
        compute_merkle_root_def numeral_2_eq_2)
  moreover have "phase_passes signing_ext sample_produced world_new q" for q
  proof (cases "is_per_tx_phase q")
    case True
    then show ?thesis by (simp add: phase_passes_per_tx f(6))
  next
    case False
    then have "q \<in> {Topology, Body, Architecture, Performance, Feedback, Evolution}" by (cases q) (simp_all add: is_per_tx_phase_def)
    then show ?thesis
      by (auto simp: sample_produced_def build_block_def build_header_def sample_chain_def sample_phase_simps set_height_def
          u64_saturating_add_def governance_snapshot_of_def local_validator_id_def sample_node_def)
  qed
  then obtain l where "phi_traversal_block signing_ext sample_produced world_new = Some l" "is_all_passed l"
    using phi_traversal_result [of signing_ext sample_produced world_new] by auto
  moreover have "validator_set_changes (body sample_produced) = None" by (simp add: sample_produced_def build_block_def Let_def)
  ultimately show ?thesis using h by (simp add: validate_cpog_def check_validator_set_capture_def)
qed

lemma sample_chain_produces:
  "\<exists>b c'. produce_block signing_ext sample_node 1000 sample_chain = Some (Inr b, c')"
proof -
  obtain drained pool where d: "drain_validated (mempool_new 10) world_new = (drained, pool)" by fastforce
  then have "drained = []" by (simp add: drain_validated_def mempool_new_def)
  then obtain sp where sp: "speculate signing_ext sample_node (sample_chain\<lparr>ch_mempool := pool\<rparr>) (sample_block []) 1000 drained = Inr sp"
    "sp_block sp = sample_produced"
    using sample_speculates by blast
  have st: "ch_state (sample_chain\<lparr>ch_mempool := pool\<rparr>) = world_new" "ch_mempool sample_chain = mempool_new 10" "ch_state sample_chain = world_new"
    "latest_block sample_chain = Some (sample_block [])" "durable (trie world_new) = None" "bh_block_id (header (sample_block [])) = 2"
    by (simp_all add: sample_chain_def latest_block_def world_new_def trie_new_def sample_block_def sample_header_def)
  obtain clone where clone: "validate_cpog signing_ext sample_produced world_new 2 = Some (CpogValid, clone)"
    using sample_produced_valid by blast
  let ?c = "commit_produced signing_ext sample_node (sample_chain\<lparr>ch_mempool := pool\<rparr>) 2 sp clone"
  have "ch_blocks ?c = [sample_block [], sp_block sp]" by (simp add: commit_produced_def Let_def) (simp add: sample_chain_def)
  then obtain fin where fin: "update_finality ?c 2 = Some fin" using update_finality_returns [of ?c 2] by (auto simp: U64_MAX_def)
  have h: "u64_saturating_add (bh_height (header (sample_block []))) (Suc 0) = 2"
    by (simp add: sample_block_def sample_header_def u64_saturating_add_def U64_MAX_def)
  have "is_proposer_for_height sample_node sample_chain 2"
    "check_proposal (ch_power_tracker sample_chain) v (ch_governance_limits sample_chain) = Inr ()" for v
    by (simp_all add: is_proposer_for_height_def sample_chain_def check_proposal_def power_tracker_default_def)
  then show ?thesis using sp clone fin d st by (simp add: produce_block_def h Let_def)
qed

theorem produced_block_imports_witness:
  "\<exists>b c' d'. produce_block signing_ext sample_node 1000 sample_chain = Some (Inr b, c') \<and>
     import_block signing_ext sample_node (sample_chain\<lparr>ch_validator_key := 6\<rparr>) b = Some (Inr (), d') \<and> same_replica c' d'"
proof -
  obtain b c' where p: "produce_block signing_ext sample_node 1000 sample_chain = Some (Inr b, c')" using sample_chain_produces by blast
  have "same_replica sample_chain (sample_chain\<lparr>ch_validator_key := 6\<rparr>)" "tension_settled sample_chain"
    "durable (trie (ch_state sample_chain)) = None" "ch_block_version sample_chain < PATCH_05_BLOCK_VERSION"
    "chain_version_history_from_trie (nx_versions_dec sample_node) (ch_state sample_chain) = Inr []"
    "key_signs signing_ext sample_node (ch_validator_key sample_chain)" "length (ch_blocks sample_chain) \<le> U64_MAX"
    by (simp_all add: same_replica_def tension_settled_def sample_chain_def sample_block_def sample_header_def world_new_def
        world_state_default_def tension_field_default_def trie_new_def PATCH_05_BLOCK_VERSION_def chain_version_history_from_trie_def
        world_get_def trie_get_def key_signs_def sample_node_def signing_ext_def U64_MAX_def)
  from produced_block_imports [OF p this] p show ?thesis by blast
qed

end
