(* ===== verification/Scc_Chain_Safety.thy ===== *)
theory Scc_Chain_Safety
  imports Scc_Chain "HOL-Library.Sublist"
begin

text \<open>
  What holds of a chain (\<open>node/chain.rs\<close>) along every sequence of its operations: the history is linked, signed and
  only grows, finality never moves back, and the settings, the mempool and the records of evidence stay within their
  bounds.
\<close>

section \<open>Records of evidence\<close>

lemma record_equivocation_bound:
  "length (ch_equivocation_records c) \<le> MAX_EQUIVOCATION_RECORDS \<Longrightarrow>
   length (ch_equivocation_records (record_equivocation c p ep)) \<le> MAX_EQUIVOCATION_RECORDS"
  by (simp add: record_equivocation_def MAX_EQUIVOCATION_RECORDS_def Let_def split: prod.split)

lemma merge_certificates_keys:
  "distinct (map cert_key (merge_certificates seen ss)) \<and>
   cert_key ` set (merge_certificates seen ss) = cert_key ` set ss - seen"
  by (induction seen ss rule: merge_certificates.induct) (auto simp: image_iff)

lemma record_certificate_keys:
  assumes "distinct (map cert_key (ch_safety_certificates c))"
  shows "distinct (map cert_key (ch_safety_certificates (record_safety_certificate c s)))"
proof -
  have drop: "distinct (map cert_key (drop n (sort_key cert_key xs)))" if "distinct (map cert_key xs)" for n xs
    using that distinct_drop [of "map cert_key (sort_key cert_key xs)" n] by (simp add: drop_map distinct_map_sort)
  show ?thesis
  proof (cases "\<exists>x \<in> set (ch_safety_certificates c). sc_height x = sc_height s \<and> sc_block_hash x = sc_block_hash s \<and> sc_round x = sc_round s")
    case True
    then show ?thesis using assms by (simp add: record_safety_certificate_def)
  next
    case False
    then have "distinct (map cert_key (ch_safety_certificates c @ [s]))" using assms by (auto simp: cert_key_def)
    with drop [OF this] False show ?thesis by (auto simp: record_safety_certificate_def Let_def)
  qed
qed

lemma restore_certificate_keys:
  "distinct (map cert_key (ch_safety_certificates c)) \<Longrightarrow>
   distinct (map cert_key (ch_safety_certificates (restore_safety_certificates c ss)))"
  using merge_certificates_keys [of "{}"] by (simp add: restore_safety_certificates_def Let_def)

section \<open>Governance settings\<close>

lemma context_frame:
  assumes "ws_governance_state (state w) = ws_governance_state (state (ch_state c))" "consensus_params w = consensus_params (ch_state c)"
  shows "governance_context_of (c\<lparr>ch_state := w\<rparr>) = governance_context_of c"
  using assms by (simp add: governance_context_of_def)

lemma governed_world_settings:
  "ws_governance_state (state (governed_world X g w)) = gc_state g" "consensus_params (governed_world X g w) = gc_params g"
  using block_frame_apply_delta by (simp_all add: governed_world_def commit_consensus_params_def block_frame_def Let_def)

lemma replay_settings_ok:
  assumes "context_ok None (governance_context_of c)"
  shows "context_ok None (governance_context_of (replay_governance_transitions E X c txs h))"
proof -
  let ?g = "replay_governance_from_transitions (nx_proposal_hash X) (ex_hexdec E) (readable_ceilings E (ch_state c)) txs h
      (governance_context_of c)"
  have "context_ok None ?g" using replay_governance_ok [OF assms] by simp
  moreover have "governance_context_of (replay_governance_transitions E X c txs h) = ?g\<lparr>gc_mutated := False\<rparr>"
    by (simp add: replay_governance_transitions_def governance_context_of_def governed_world_settings Let_def)
  ultimately show ?thesis by (simp add: context_ok_def)
qed

section \<open>The operations taken apart\<close>

lemma share_store_block_frame: "block_frame w (share_store w v)"
  by (auto simp: block_frame_def share_store_def split: option.split)

lemma import_state_frame:
  assumes "import_state E X c b = (r, w, bal, tr)"
  shows "block_frame (ch_state c) w"
proof -
  let ?txs = "transitions (body b)"
  obtain n w1 where n: "validate_nonces (ch_state c) ?txs = (n, w1)" by fastforce
  have f1: "block_frame (ch_state c) w1" using block_frame_nonces [of "ch_state c" ?txs] n by simp
  obtain o2 w2 b2 t2 where e: "apply_block_economics (ex_blake3 E) (ex_seal_bytes E) (ex_hex E) w1 (ch_balances c) (ch_treasury c) ?txs
      (receipts b) (ch_block_version c) (bh_validator_id (header b)) (spot_gas_price c) default_block_reward = (o2, w2, b2, t2)"
    by (metis prod_cases4)
  have f2: "block_frame (ch_state c) w2" by (rule block_frame_trans [OF f1 block_frame_economics [OF e]])
  obtain ds w3 b3 where t: "apply_block_transitions (ex_hex E) w2 b2 ?txs = (ds, w3, b3)" by (metis prod_cases3)
  have f3: "block_frame (ch_state c) w3" by (rule block_frame_trans [OF f2 block_frame_transitions [OF t]])
  have f4: "block_frame (ch_state c) (if bh_height (header b) mod 100 = 0 then commit_treasury_state w3 x else w3)" for x
    using f3 block_frame_trans [OF f3 block_frame_treasury] by simp
  have "block_frame v (case append_and_trim enc dec v x of Inl _ \<Rightarrow> v | Inr (_, w') \<Rightarrow> w')" for v enc dec x
    by (auto simp: append_and_trim_def bind_result_def commit_tension_history_def block_frame_apply_delta Let_def split: sum.split)
  then have "block_frame (ch_state c) (if bh_version (header b) \<ge> PATCH_05_BLOCK_VERSION
      then (case append_and_trim enc dec v x of Inl _ \<Rightarrow> v | Inr (_, w') \<Rightarrow> w') else v)" if "block_frame (ch_state c) v" for v enc dec x
    using that block_frame_trans by auto
  note f5 = this [OF f4]
  show ?thesis
  proof (cases n)
    case (Inl x)
    then show ?thesis using assms n f1 by (auto simp: import_state_def Let_def)
  next
    case (Inr u)
    then show ?thesis
    proof (cases o2)
      case Inl
      then show ?thesis using assms n \<open>n = Inr u\<close> e f2 by (auto simp: import_state_def Let_def)
    next
      case (Inr out)
      then show ?thesis using assms n \<open>n = Inr u\<close> e t block_frame_trans [OF f5 block_frame_set_height]
        by (auto simp: import_state_def Let_def)
    qed
  qed
qed

lemma validated_candidate:
  assumes "validate_candidate_block_for_round E X c b rd = Some (Inr u, c')"
  obtains parent clone where "latest_block c = Some parent"
    "bh_height (header b) = u64_saturating_add (bh_height (header parent)) 1"
    "bh_parent_id (header b) = bh_block_id (header parent)" "bh_chain_id (header b) = ch_chain_id c"
    "check_block_version X c b = Inr ()" "check_proposer c b rd = Inr ()" "verify_producer_signature E X b = Inr ()"
    "validate_cpog E b (ch_state c) (bh_block_id (header parent)) = Some (CpogValid, clone)"
    "c' = c\<lparr>ch_state := share_store (ch_state c) clone\<rparr>"
  using assms
  by (auto simp: validate_candidate_block_for_round_def Let_def bind_result_Inr
      split: option.splits sum.splits prod.splits if_splits cpog_result.splits)

section \<open>Histories\<close>

text \<open>A block that follows another: the next height, the parent's identifier, the chain's identifier, a signature that verifies.\<close>

definition links_to :: "ext \<Rightarrow> node_ext \<Rightarrow> hash \<Rightarrow> block \<Rightarrow> block \<Rightarrow> bool" where
  "links_to E X cid parent b \<longleftrightarrow> bh_height (header b) = u64_saturating_add (bh_height (header parent)) 1 \<and>
     bh_parent_id (header b) = bh_block_id (header parent) \<and> bh_chain_id (header b) = cid \<and>
     verify_producer_signature E X b = Inr ()"

definition chain_ok :: "ext \<Rightarrow> node_ext \<Rightarrow> chain \<Rightarrow> bool" where
  "chain_ok E X c \<longleftrightarrow> ch_blocks c \<noteq> [] \<and> successively (links_to E X (ch_chain_id c)) (ch_blocks c) \<and>
     key_signs E X (ch_validator_key c) \<and> mempool_ok (ch_mempool c) \<and> context_ok None (governance_context_of c) \<and>
     length (ch_equivocation_records c) \<le> MAX_EQUIVOCATION_RECORDS \<and>
     distinct (map cert_key (ch_safety_certificates c))"

text \<open>
  One operation on a chain. A vector has fewer than \<open>2^64\<close> elements; the keys a node signs with are Ed25519
  keys and a configured validator set names no validator twice.
\<close>

inductive chain_step :: "ext \<Rightarrow> node_ext \<Rightarrow> chain \<Rightarrow> chain \<Rightarrow> bool" for E X where
  step_import: "import_block E X c b = Some (r, c') \<Longrightarrow> length (ch_blocks c) < U64_MAX \<Longrightarrow> chain_step E X c c'"
| step_produce: "produce_block E X now c = Some (r, c') \<Longrightarrow> length (ch_blocks c) < U64_MAX \<Longrightarrow> chain_step E X c c'"
| step_submit: "submit_transition c tx = Inr c' \<Longrightarrow> chain_step E X c c'"
| step_slash: "chain_step E X c (snd (execute_slashing_penalty c v penalty))"
| step_equivocation: "chain_step E X c (record_equivocation c p ep)"
| step_certificate: "chain_step E X c (record_safety_certificate c s)"
| step_restore: "chain_step E X c (restore_safety_certificates c ss)"
| step_validators: "distinct (map va_node_id vs) \<Longrightarrow> chain_step E X c (set_validator_set c vs)"
| step_key: "key_signs E X k \<Longrightarrow> chain_step E X c (set_validator_key c k)"

text \<open>
  What an operation on blocks does: it appends the blocks \<open>bs\<close> and keeps the rest well-formed. The finalized height
  does not move back either, as long as the vector of blocks is shorter than \<open>2^64\<close>.
\<close>

definition extends :: "ext \<Rightarrow> node_ext \<Rightarrow> chain \<Rightarrow> block list \<Rightarrow> chain \<Rightarrow> bool" where
  "extends E X c bs c' \<longleftrightarrow> ch_blocks c' = ch_blocks c @ bs \<and>
     successively (links_to E X (ch_chain_id c)) (last (ch_blocks c) # bs) \<and>
     ch_chain_id c' = ch_chain_id c \<and> ch_validator_key c' = ch_validator_key c \<and>
     ch_equivocation_records c' = ch_equivocation_records c \<and> ch_safety_certificates c' = ch_safety_certificates c \<and>
     (mempool_ok (ch_mempool c) \<longrightarrow> mempool_ok (ch_mempool c')) \<and>
     (context_ok None (governance_context_of c) \<longrightarrow> context_ok None (governance_context_of c'))"

definition advances :: "ext \<Rightarrow> node_ext \<Rightarrow> chain \<Rightarrow> block list \<Rightarrow> chain \<Rightarrow> bool" where
  "advances E X c bs c' \<longleftrightarrow> extends E X c bs c' \<and> finalized_height (ch_finality c) \<le> finalized_height (ch_finality c')"

lemma chain_ok_extends: "chain_ok E X c \<Longrightarrow> extends E X c bs c' \<Longrightarrow> chain_ok E X c'"
  by (cases bs) (auto simp: chain_ok_def extends_def successively_append_iff)

lemma chain_ok_advances: "chain_ok E X c \<Longrightarrow> advances E X c bs c' \<Longrightarrow> chain_ok E X c'"
  unfolding advances_def using chain_ok_extends by blast

lemma replay_frame_more [simp]:
  "ch_equivocation_records (replay_governance_transitions E X c txs h) = ch_equivocation_records c"
  "ch_safety_certificates (replay_governance_transitions E X c txs h) = ch_safety_certificates c"
  by (simp_all add: replay_governance_transitions_def Let_def)

lemma advances_rejected:
  assumes "block_frame (ch_state c) w" "mempool_ok (ch_mempool c) \<longrightarrow> mempool_ok pool"
  shows "advances E X c [] (c\<lparr>ch_mempool := pool, ch_state := w, ch_balances := bal, ch_treasury := tr\<rparr>)"
  using assms by (simp add: advances_def extends_def governance_context_of_def block_frame_def)

lemma import_outcome:
  assumes "import_block E X c b = Some (r, c')"
  shows "extends E X c (if isl r then [] else [b]) c' \<and>
    (ch_finality c' = ch_finality c \<or>
     (\<exists>d h. update_finality d h = Some (ch_finality c') \<and> ch_finality d = ch_finality c \<and> ch_blocks d = ch_blocks c))"
proof -
  obtain v c1 where v: "validate_candidate_block E X c b = Some (v, c1)"
    using assms by (cases "validate_candidate_block E X c b") (auto simp: import_block_def)
  have "c = c\<lparr>ch_state := ch_state c\<rparr>" by simp
  then obtain w0 where w0: "c1 = c\<lparr>ch_state := w0\<rparr>" "block_frame (ch_state c) w0"
    using validate_candidate_frame [OF v [unfolded validate_candidate_block_def]] share_store_block_frame block_frame_refl by metis
  show ?thesis
  proof (cases v)
    case (Inl e)
    then have "r = Inl e" "c' = c1" using assms v by (simp_all add: import_block_def)
    then show ?thesis using advances_rejected [OF w0(2), where pool = "ch_mempool c" and bal = "ch_balances c" and tr = "ch_treasury c"] w0(1)
      by (simp add: advances_def)
  next
    case (Inr u)
    obtain s w bal tr where s: "import_state E X c1 b = (s, w, bal, tr)" by (metis prod_cases4)
    have w: "block_frame (ch_state c) w" using block_frame_trans [OF w0(2)] import_state_frame [OF s] w0(1) by simp
    show ?thesis
    proof (cases s)
      case (Inl e)
      then have "r = Inl e" "c' = c1\<lparr>ch_state := w, ch_balances := bal, ch_treasury := tr\<rparr>"
        using assms v \<open>v = Inr u\<close> s by (simp_all add: import_block_def)
      then show ?thesis using advances_rejected [OF w, where pool = "ch_mempool c" and bal = bal and tr = tr] w0(1)
        by (simp add: advances_def)
    next
      case (Inr u')
      let ?h = "bh_height (header b)" and ?v = "bh_validator_id (header b)" and ?txs = "transitions (body b)"
      let ?tracker = "record_proposal (ch_power_tracker c1) ?v"
      let ?c1 = "c1\<lparr>ch_state := w, ch_balances := bal, ch_treasury := tr,
          ch_mempool := mark_confirmed (ch_mempool c1) (map tx_id ?txs),
          ch_power_tracker := (if ?h mod 100 = 0 then tracker_reset_epoch ?tracker else ?tracker),
          ch_economics := (if ?h mod 100 = 0 then reset_epoch (ch_economics c1) else ch_economics c1)\<rparr>"
      note def = assms [unfolded import_block_def v s \<open>v = Inr u\<close> Inr option.case prod.case sum.case Let_def]
      obtain fin where fin: "update_finality ?c1 ?h = Some fin"
        using def by (cases "update_finality ?c1 ?h") simp_all
      let ?c2 = "?c1\<lparr>ch_finality := fin, ch_slashing := record_presence (ch_slashing ?c1) ?v\<rparr>"
      let ?c3 = "replay_governance_transitions E X ?c2 ?txs ?h"
      have c': "r = Inr ()" "c' = ?c3\<lparr>ch_blocks := ch_blocks ?c3 @ [b]\<rparr>"
        using def by (simp_all only: fin option.case) auto
      have "governance_context_of ?c2 = governance_context_of c"
        using w w0(1) by (simp add: governance_context_of_def block_frame_def)
      then have ctx: "context_ok None (governance_context_of c')" if "context_ok None (governance_context_of c)"
        using replay_settings_ok [of ?c2 E X ?txs ?h] that c'(2) by (simp add: governance_context_of_def)
      obtain parent where "latest_block c = Some parent" "links_to E X (ch_chain_id c) parent b"
        using validated_candidate [of E X c b None u c1] v \<open>v = Inr u\<close>
        unfolding validate_candidate_block_def links_to_def by metis
      then have "links_to E X (ch_chain_id c) (last (ch_blocks c)) b" by (simp add: latest_block_def split: if_splits)
      then have ext: "extends E X c [b] c'" using c' ctx w0(1) mark_confirmed_ok by (simp add: extends_def)
      have "update_finality ?c1 ?h = Some (ch_finality c')" "ch_finality ?c1 = ch_finality c" "ch_blocks ?c1 = ch_blocks c"
        using fin c'(2) w0(1) by simp_all
      then have "\<exists>d h. update_finality d h = Some (ch_finality c') \<and> ch_finality d = ch_finality c \<and> ch_blocks d = ch_blocks c"
        by (intro exI conjI)
      then show ?thesis using c'(1) ext by simp
    qed
  qed
qed

lemma import_advances:
  assumes "import_block E X c b = Some (r, c')" "length (ch_blocks c) < U64_MAX"
  shows "advances E X c (if isl r then [] else [b]) c'"
proof -
  have "finalized_height (ch_finality c) \<le> finalized_height fin"
    if "update_finality d h = Some fin" "ch_finality d = ch_finality c" "ch_blocks d = ch_blocks c" for d h fin
    using update_finality_returns [of d h] that assms(2) by (metis less_imp_le option.inject)
  then show ?thesis using import_outcome [OF assms(1)] unfolding advances_def by (metis order_refl)
qed

lemma sp_block_links:
  assumes "speculate E X c parent now drained = Inr sp" "latest_block c = Some parent" "key_signs E X (ch_validator_key c)"
  shows "links_to E X (ch_chain_id c) (last (ch_blocks c)) (sp_block sp)"
proof -
  obtain txs rcs where b: "sp_block sp = build_block E X c parent now txs rcs (sp_world sp) (balance_root (ex_blake3 E) (sp_balances sp))"
    by (rule speculate_block [OF assms(1)])
  have "parent = last (ch_blocks c)" using assms(2) by (simp add: latest_block_def split: if_splits)
  then show ?thesis unfolding links_to_def b using build_block_fields(1-3) build_block_signed [OF assms(3)] by simp
qed

lemma produce_block_outcome:
  assumes "produce_block E X now c = Some (r, c')"
  obtains (early) e where "r = Inl e" "c' = c"
    | (late) e clone where "r = Inl e"
        "c' = c\<lparr>ch_mempool := snd (drain_validated (ch_mempool c) (ch_state c)), ch_state := share_store (ch_state c) clone\<rparr>"
    | (made) parent and sp :: speculation and clone fin h pool where "r = Inr (sp_block sp)" "latest_block c = Some parent"
        "pool = snd (drain_validated (ch_mempool c) (ch_state c))"
        "speculate E X (c\<lparr>ch_mempool := pool\<rparr>) parent now (fst (drain_validated (ch_mempool c) (ch_state c))) = Inr sp"
        "update_finality (commit_produced E X (c\<lparr>ch_mempool := pool\<rparr>) h sp clone) h = Some fin"
        "c' = finish_produced X (commit_produced E X (c\<lparr>ch_mempool := pool\<rparr>) h sp clone) h sp fin"
proof (cases "latest_block c")
  case None
  then show thesis using assms early by (auto simp: produce_block_def)
next
  case (Some parent)
  let ?h = "u64_saturating_add (bh_height (header parent)) 1" and ?v = "local_validator_id X c"
  note def = assms [unfolded produce_block_def Some option.case Let_def]
  show thesis
  proof (cases "is_proposer_for_height X c ?h \<and> check_proposal (ch_power_tracker c) ?v (ch_governance_limits c) = Inr ()")
    case False
    then show thesis using def early by (auto split: if_splits sum.splits)
  next
    case True
    obtain drained pool where d: "drain_validated (ch_mempool c) (ch_state c) = (drained, pool)" by fastforce
    let ?c = "c\<lparr>ch_mempool := pool\<rparr>"
    note def = def [unfolded conjunct2 [OF True] d sum.case prod.case, simplified conjunct1 [OF True] not_True_eq_False if_False]
    show thesis
    proof (cases "speculate E X ?c parent now drained")
      case (Inl x)
      then show thesis using def True d late by (cases x) auto
    next
      case (Inr sp)
      note def = def [unfolded Inr sum.case]
      show thesis
      proof (cases "validate_cpog E (sp_block sp) (share_store (ch_state ?c) (sp_world sp)) (bh_block_id (header parent))")
        case None
        then show thesis using def True by simp
      next
        case (Some x)
        obtain res clone where x: "x = (res, clone)" by fastforce
        show thesis
        proof (cases res)
          case (CpogInvalid errs)
          then show thesis using def True d Some x late by auto
        next
          case CpogValid
          then show thesis using def True d Some x Inr \<open>latest_block c = Some parent\<close> made [of sp parent pool ?h clone]
            by (auto split: option.splits)
        qed
      qed
    qed
  qed
qed

lemma produce_advances:
  assumes "produce_block E X now c = Some (r, c')" "length (ch_blocks c) < U64_MAX" "key_signs E X (ch_validator_key c)"
  shows "advances E X c (case r of Inl _ \<Rightarrow> [] | Inr b \<Rightarrow> [b]) c'"
proof -
  note rejected = advances_rejected [where c = c and bal = "ch_balances c" and tr = "ch_treasury c" and E = E and X = X]
  have pool: "mempool_ok (ch_mempool c) \<longrightarrow> mempool_ok (snd (drain_validated (ch_mempool c) (ch_state c)))" using drain_ok by blast
  from assms(1) show ?thesis
  proof (cases rule: produce_block_outcome)
    case early
    then show ?thesis using rejected [OF block_frame_refl, of "ch_mempool c"] by simp
  next
    case late
    then show ?thesis using rejected [OF share_store_block_frame pool] by simp
  next
    case (made parent sp clone fin h pool)
    let ?c = "c\<lparr>ch_mempool := pool\<rparr>" and ?b = "sp_block sp"
    let ?c2 = "commit_produced E X ?c h sp clone"
    have w: "block_frame (ch_state c) (share_store (sp_world sp) clone)"
      using block_frame_trans [OF speculate_frame [OF made(4)] share_store_block_frame] by simp
    have links: "links_to E X (ch_chain_id c) (last (ch_blocks c)) ?b"
      using sp_block_links [OF made(4)] made(2) assms(3) by (simp add: latest_block_def split: if_splits)
    have blocks: "ch_blocks ?c2 = ch_blocks c @ [?b]" "finalized_height (ch_finality ?c2) = finalized_height (ch_finality c)"
      by (simp_all add: commit_produced_def Let_def)
    have "finalized_height (ch_finality c) \<le> finalized_height fin"
      using update_finality_returns [of ?c2 h] blocks made(5) assms(2) by (metis Suc_leI length_append_singleton option.inject)
    moreover have "context_ok None (governance_context_of ?c2)" if "context_ok None (governance_context_of c)"
    proof -
      have "context_ok None (governance_context_of (?c\<lparr>ch_state := share_store (sp_world sp) clone\<rparr>))"
        using that w by (simp add: governance_context_of_def block_frame_def)
      then show ?thesis
        using replay_settings_ok by (simp add: commit_produced_def governance_context_of_def Let_def)
    qed
    moreover have "mempool_ok (ch_mempool ?c2)" if "mempool_ok (ch_mempool c)"
      using that pool made(3) mark_confirmed_ok [of pool] by (simp add: commit_produced_def mempool_ok_def Let_def)
    ultimately show ?thesis
      using made(1,6) links blocks by (simp add: advances_def extends_def finish_produced_def commit_produced_def governance_context_of_def Let_def)
  qed
qed

section \<open>Every operation keeps the chain well-formed\<close>

lemma slashing_frame:
  fixes c v p
  defines "d \<equiv> snd (execute_slashing_penalty c v p)"
  shows "ch_blocks d = ch_blocks c" "ch_chain_id d = ch_chain_id c" "ch_validator_key d = ch_validator_key c" "ch_mempool d = ch_mempool c"
    "ch_state d = ch_state c" "governance_context_of d = governance_context_of c" "ch_finality d = ch_finality c"
    "ch_equivocation_records d = ch_equivocation_records c" "ch_safety_certificates d = ch_safety_certificates c"
  unfolding d_def by (simp_all add: execute_slashing_penalty_def governance_context_of_def Let_def split: sum.split)

lemma record_frame:
  "ch_blocks (record_safety_certificate c s) = ch_blocks c" "ch_chain_id (record_safety_certificate c s) = ch_chain_id c"
  "ch_validator_key (record_safety_certificate c s) = ch_validator_key c" "ch_mempool (record_safety_certificate c s) = ch_mempool c"
  "governance_context_of (record_safety_certificate c s) = governance_context_of c"
  "ch_equivocation_records (record_safety_certificate c s) = ch_equivocation_records c"
  "finalized_height (ch_finality c) \<le> finalized_height (ch_finality (record_safety_certificate c s))"
  by (simp_all add: record_safety_certificate_def governance_context_of_def Let_def)

lemma restore_frame:
  "ch_blocks (restore_safety_certificates c ss) = ch_blocks c" "ch_chain_id (restore_safety_certificates c ss) = ch_chain_id c"
  "ch_validator_key (restore_safety_certificates c ss) = ch_validator_key c" "ch_mempool (restore_safety_certificates c ss) = ch_mempool c"
  "governance_context_of (restore_safety_certificates c ss) = governance_context_of c"
  "ch_equivocation_records (restore_safety_certificates c ss) = ch_equivocation_records c"
  "finalized_height (ch_finality c) \<le> finalized_height (ch_finality (restore_safety_certificates c ss))"
  by (simp_all add: restore_safety_certificates_def governance_context_of_def Let_def)

lemma equivocation_frame:
  fixes c p ep
  defines "d \<equiv> record_equivocation c p ep"
  shows "ch_blocks d = ch_blocks c" "ch_chain_id d = ch_chain_id c" "ch_validator_key d = ch_validator_key c" "ch_mempool d = ch_mempool c"
    "governance_context_of d = governance_context_of c" "ch_finality d = ch_finality c" "ch_safety_certificates d = ch_safety_certificates c"
  unfolding d_def by (simp_all add: record_equivocation_def governance_context_of_def Let_def split: prod.split)

definition grows :: "chain \<Rightarrow> chain \<Rightarrow> bool" where
  "grows c c' \<longleftrightarrow> prefix (ch_blocks c) (ch_blocks c') \<and> ch_chain_id c' = ch_chain_id c \<and>
     finalized_height (ch_finality c) \<le> finalized_height (ch_finality c')"

lemma grows_refl [simp]: "grows c c"
  by (simp add: grows_def)

lemma grows_trans: "grows c d \<Longrightarrow> grows d e \<Longrightarrow> grows c e"
  by (auto simp: grows_def intro: prefix_order.trans)

lemma advances_grows: "advances E X c bs c' \<Longrightarrow> grows c c'"
  by (simp add: advances_def extends_def grows_def)

lemma chain_step_ok:
  assumes "chain_step E X c c'" "chain_ok E X c"
  shows "chain_ok E X c' \<and> grows c c'"
  using assms
proof (induction rule: chain_step.induct)
  case (step_import c b r c')
  then show ?case using import_advances chain_ok_advances advances_grows by blast
next
  case (step_produce now c r c')
  moreover have "key_signs E X (ch_validator_key c)" using step_produce by (simp add: chain_ok_def)
  ultimately show ?case using produce_advances chain_ok_advances advances_grows by blast
next
  case (step_submit c tx c')
  then show ?case using mempool_add_ok [of "ch_mempool c" tx]
    by (auto simp: submit_transition_def chain_ok_def grows_def governance_context_of_def split: sum.splits)
next
  case (step_slash c v penalty)
  then show ?case by (simp add: chain_ok_def grows_def slashing_frame)
next
  case (step_equivocation c p ep)
  then show ?case using record_equivocation_bound [of c p ep] by (simp add: chain_ok_def grows_def equivocation_frame)
next
  case (step_certificate c s)
  then show ?case using record_certificate_keys [of c s] by (simp add: chain_ok_def grows_def record_frame)
next
  case (step_restore c ss)
  then show ?case using restore_certificate_keys [of c ss] by (simp add: chain_ok_def grows_def restore_frame)
next
  case (step_validators vs c)
  then have "validators_ok (sort_key va_node_id vs)" by (simp add: validators_ok_def distinct_map_sort)
  with step_validators show ?case
    by (auto simp: chain_ok_def grows_def set_validator_set_def governance_context_of_def context_ok_def)
next
  case (step_key k c)
  then show ?case by (simp add: chain_ok_def grows_def set_validator_key_def governance_context_of_def)
qed

lemma chain_steps_ok: "(chain_step E X)\<^sup>*\<^sup>* c c' \<Longrightarrow> chain_ok E X c \<Longrightarrow> chain_ok E X c' \<and> grows c c'"
proof (induction rule: rtranclp_induct)
  case (step d e)
  then show ?case using chain_step_ok [of E X d e] grows_trans [of c d e] by blast
qed simp

lemma linked_heights:
  assumes "successively (links_to E X cid) bs" "i < length bs" "bh_height (header (hd bs)) \<le> U64_MAX"
  shows "bh_height (header (bs ! i)) = min (bh_height (header (hd bs)) + i) U64_MAX"
  using assms
proof (induction i)
  case 0
  then show ?case by (cases bs) simp_all
next
  case (Suc i)
  then have "links_to E X cid (bs ! i) (bs ! Suc i)" by (simp add: successively_conv_nth)
  then show ?case using Suc by (auto simp: links_to_def u64_saturating_add_def)
qed

section \<open>Properties\<close>

text \<open>
  C3. The history of a node. Starting from a well-formed chain, after any sequence of imports, productions,
  submissions, slashings, recorded evidence, restored certificates and changed keys or validator sets, whether they
  succeed or fail: blocks have only been appended, every block follows its predecessor (height, parent,
  chain identifier) under a signature of its proposer, heights count up from the first block, the finalized height has not
  moved back, and the mempool, the governance settings, the validator set and the records of evidence are within their bounds.
\<close>

theorem chain_history_grows:
  assumes "(chain_step E X)\<^sup>*\<^sup>* c c'" "chain_ok E X c" "bh_height (header (hd (ch_blocks c))) \<le> U64_MAX"
  shows "chain_ok E X c' \<and> prefix (ch_blocks c) (ch_blocks c') \<and>
    finalized_height (ch_finality c) \<le> finalized_height (ch_finality c') \<and>
    (\<forall>i < length (ch_blocks c'). bh_height (header (ch_blocks c' ! i)) = min (bh_height (header (hd (ch_blocks c))) + i) U64_MAX) \<and>
    (\<forall>i. Suc i < length (ch_blocks c') \<longrightarrow>
       bh_parent_id (header (ch_blocks c' ! Suc i)) = bh_block_id (header (ch_blocks c' ! i)) \<and>
       bh_chain_id (header (ch_blocks c' ! Suc i)) = ch_chain_id c \<and>
       verify_producer_signature E X (ch_blocks c' ! Suc i) = Inr ())"
proof -
  have s: "chain_ok E X c'" "grows c c'" using chain_steps_ok [OF assms(1,2)] by blast+
  have "ch_blocks c \<noteq> []" using assms(2) by (simp add: chain_ok_def)
  then have first: "hd (ch_blocks c') = hd (ch_blocks c)" using s(2) by (auto simp: grows_def prefix_def)
  have l: "successively (links_to E X (ch_chain_id c)) (ch_blocks c')" using s by (simp add: chain_ok_def grows_def)
  have "bh_height (header (ch_blocks c' ! i)) = min (bh_height (header (hd (ch_blocks c))) + i) U64_MAX"
    if "i < length (ch_blocks c')" for i
    using linked_heights [OF l that] first assms(3) by simp
  moreover have "links_to E X (ch_chain_id c) (ch_blocks c' ! i) (ch_blocks c' ! Suc i)" if "Suc i < length (ch_blocks c')" for i
    using l that by (simp add: successively_conv_nth)
  ultimately show ?thesis using s by (auto simp: grows_def links_to_def)
qed

lemma sample_chain_ok: "chain_ok signing_ext sample_node sample_chain"
proof -
  have "context_ok None (governance_context_of sample_chain)"
    using fresh_context_ok(1)
    by (simp add: context_ok_def fresh_context_def governance_context_of_def sample_chain_def params_ok_def world_new_def
        world_state_default_def)
  moreover have "key_signs signing_ext sample_node (ch_validator_key sample_chain)"
    by (simp add: key_signs_def sample_node_def sample_chain_def signing_ext_def)
  ultimately show ?thesis
    by (simp add: chain_ok_def mempool_ok_new) (simp add: sample_chain_def mempool_ok_new)
qed

theorem chain_history_grows_witness:
  "\<exists>b c'. produce_block signing_ext sample_node 1000 sample_chain = Some (Inr b, c') \<and>
     chain_ok signing_ext sample_node (snd (execute_slashing_penalty c' 5 10)) \<and>
     prefix (ch_blocks sample_chain) (ch_blocks (snd (execute_slashing_penalty c' 5 10)))"
proof -
  obtain b c' where p: "produce_block signing_ext sample_node 1000 sample_chain = Some (Inr b, c')" using sample_chain_produces by blast
  have "chain_step signing_ext sample_node sample_chain c'"
    by (rule step_produce [OF p]) (simp add: sample_chain_def U64_MAX_def)
  then have "(chain_step signing_ext sample_node)\<^sup>*\<^sup>* sample_chain (snd (execute_slashing_penalty c' 5 10))"
    using step_slash by (meson converse_rtranclp_into_rtranclp r_into_rtranclp)
  moreover have "bh_height (header (hd (ch_blocks sample_chain))) \<le> U64_MAX"
    by (simp add: sample_chain_def sample_block_def sample_header_def U64_MAX_def)
  ultimately show ?thesis using chain_history_grows [OF _ sample_chain_ok] p by blast
qed

end
