(* ===== verification/Scc_Chain_Outcomes.thy ===== *)
theory Scc_Chain_Outcomes
  imports Scc_Chain_Safety
begin

text \<open>
  What single operations of a chain (\<open>node/chain.rs\<close>) do: block production with every transition of a drained
  batch, a slashing penalty with the ledger and the state, an import with the identifier of a block.
\<close>

section \<open>Admission to a block\<close>

lemma metered_receipt:
  assumes "validate_transition_metered E fmt tx w limit = (r, gas)"
  shows "rc_tx_id r = tx_id tx" "compute_steps (resource_used r) = gas"
  using assms
  by (auto simp: validate_transition_metered_def make_accept_receipt_def make_reject_receipt_def Let_def
      split: prod.splits sum.splits)

lemma nonce_loop_append:
  "nonce_loop snap w xs = (Inr (), w') \<Longrightarrow> nonce_loop snap w (xs @ ys) = nonce_loop snap w' ys"
  by (induction xs arbitrary: w) (auto split: sum.splits)

text \<open>The books of the admission loop after the transitions \<open>handled\<close>.\<close>

definition books_balance :: "chain \<Rightarrow> symbolic_transition list \<Rightarrow> admission \<Rightarrow> bool" where
  "books_balance c handled a \<longleftrightarrow>
     mset (map tx_id (ad_accepted a)) + mset (map rc_tx_id (ad_rejected a)) = mset (map tx_id handled) \<and>
     subseq (ad_accepted a) handled \<and> map rc_tx_id (ad_receipts a) = map tx_id (ad_accepted a) \<and>
     list_all (\<lambda>r. is_accepted (rc_verdict r)) (ad_receipts a) \<and> list_all (\<lambda>r. \<not> is_accepted (rc_verdict r)) (ad_rejected a) \<and>
     validate_nonces (ch_state c) (ad_accepted a) = (Inr (), ad_world a) \<and>
     bg_limit (ad_gas a) = default_block_gas_limit (consensus_params (ch_state c)) \<and>
     bg_used (ad_gas a) = sum_list (map (\<lambda>r. compute_steps (resource_used r)) (ad_receipts a)) \<and>
     bg_used (ad_gas a) \<le> bg_limit (ad_gas a)"

lemma books_rejected:
  assumes "books_balance c handled a" "rc_tx_id r = tx_id tx" "\<not> is_accepted (rc_verdict r)"
  shows "books_balance c (handled @ [tx]) (push_rejected a r)"
  using assms by (auto simp: books_balance_def push_rejected_def)

lemma books_accepted:
  assumes "books_balance c handled a" "rc_tx_id r = tx_id tx" "is_accepted (rc_verdict r)" "compute_steps (resource_used r) = gas"
    and "check_nonce (ad_world a) (agent_id_of (actor tx)) (nonce tx) = Inr w" "can_fit (ad_gas a) gas"
    and "default_block_gas_limit (consensus_params (ch_state c)) < U64_MAX"
  shows "books_balance c (handled @ [tx]) (a\<lparr>ad_gas := record_tx (ad_gas a) gas, ad_balances := bal, ad_world := w,
      ad_accepted := ad_accepted a @ [tx], ad_receipts := ad_receipts a @ [r]\<rparr>)"
proof -
  have "validate_nonces (ch_state c) (ad_accepted a @ [tx]) = (Inr (), w)"
    using assms(1,5) nonce_loop_append [of "agent_nonces (ch_state c)" "ch_state c" "ad_accepted a" "ad_world a" "[tx]"]
    by (simp add: books_balance_def validate_nonces_def)
  moreover have "u64_saturating_add (bg_used (ad_gas a)) gas = bg_used (ad_gas a) + gas" "bg_used (ad_gas a) + gas \<le> bg_limit (ad_gas a)"
    using assms(1,6,7) by (auto simp: books_balance_def can_fit_def u64_saturating_add_def)
  ultimately show ?thesis using assms(1-4) by (auto simp: books_balance_def record_tx_def intro: list_emb_append_mono)
qed

lemma admit_one_books:
  assumes "admit_one E X c price a tx = Some a'" "books_balance c handled a"
    and "default_block_gas_limit (consensus_params (ch_state c)) < U64_MAX"
  shows "books_balance c (handled @ [tx]) a'"
proof -
  let ?ag = "agent_id_of (actor tx)"
  let ?last = "case map_of (agent_nonces (ad_world a)) ?ag of Some k \<Rightarrow> k | None \<Rightarrow> 0"
  obtain r gas where v: "validate_transition_metered E (nx_fmt X) tx (ad_world a) (default_tx_gas_limit (consensus_params (ad_world a))) = (r, gas)"
    by fastforce
  note r = metered_receipt [OF v]
  have pre: "rc_tx_id (make_prefilter_reject_receipt tx root s) = tx_id tx" "\<not> is_accepted (rc_verdict (make_prefilter_reject_receipt tx root s))"
    "rc_tx_id (invalid_receipt s r) = rc_tx_id r" "\<not> is_accepted (rc_verdict (invalid_receipt s r))" for root s
    by (simp_all add: make_prefilter_reject_receipt_def invalid_receipt_def is_accepted_def)
  note rejected = books_rejected [OF assms(2) pre(1,2)] books_rejected [OF assms(2), of r tx] books_rejected [OF assms(2), of "invalid_receipt s r" tx for s]
  show ?thesis
  proof (cases "nonce tx = 0 \<or> int (?last + 1) > U128_MAX \<or> nonce tx \<noteq> ?last + 1")
    case True
    then show ?thesis using assms(1) rejected(1) by (auto simp: admit_one_def)
  next
    case nonce: False
    then obtain w where w: "check_nonce (ad_world a) ?ag (nonce tx) = Inr w" by (auto simp: check_nonce_def Let_def)
    have fit: "can_fit (ad_gas a) gas" using assms(1) nonce v by (auto simp: admit_one_def Let_def split: if_splits)
    show ?thesis
    proof (cases "is_accepted (rc_verdict r)")
      case False
      then show ?thesis using assms(1) nonce v fit rejected(2) r by (simp add: admit_one_def Let_def)
    next
      case True
      then show ?thesis
        using assms(1) nonce v fit w rejected(3) r pre(3,4) books_accepted [OF assms(2) r(1) True r(2) w fit assms(3)]
        by (auto simp: admit_one_def Let_def split: sum.splits)
    qed
  qed
qed

lemma admit_loop_books:
  assumes "books_balance c handled a" "default_block_gas_limit (consensus_params (ch_state c)) < U64_MAX"
  shows "\<exists>n \<le> length txs. books_balance c (handled @ take n txs) (admit_loop E X c price a txs) \<and>
    (n < length txs \<longrightarrow> admit_one E X c price (admit_loop E X c price a txs) (txs ! n) = None)"
  using assms
proof (induction txs arbitrary: handled a)
  case (Cons tx txs)
  show ?case
  proof (cases "admit_one E X c price a tx")
    case None
    then show ?thesis using Cons.prems by (auto intro!: exI [of _ 0])
  next
    case (Some a')
    obtain n where "n \<le> length txs" "books_balance c ((handled @ [tx]) @ take n txs) (admit_loop E X c price a' txs)"
      "n < length txs \<longrightarrow> admit_one E X c price (admit_loop E X c price a' txs) (txs ! n) = None"
      using Cons.IH [OF admit_one_books [OF Some Cons.prems] Cons.prems(2)] by blast
    then show ?thesis using Some by (auto intro!: exI [of _ "Suc n"])
  qed
qed simp

lemma admit_one_None:
  "admit_one E X c price a tx = None \<Longrightarrow>
   \<not> can_fit (ad_gas a) (snd (validate_transition_metered E (nx_fmt X) tx (ad_world a) (default_tx_gas_limit (consensus_params (ad_world a)))))"
  by (auto simp: admit_one_def Let_def split: if_splits prod.splits sum.splits)

section \<open>Block identifiers and governance snapshots\<close>

text \<open>The same block under another identifier and with another governance snapshot, signed again by its proposer.\<close>

definition reissue :: "ext \<Rightarrow> node_ext \<Rightarrow> hash \<Rightarrow> hash \<Rightarrow> governance_snapshot \<Rightarrow> block \<Rightarrow> block" where
  "reissue E X k x g b =
     (let h = (header b)\<lparr>bh_block_id := x, bh_governance_hash := ex_blake3 E (ex_governance_bytes E g)\<rparr>
      in b\<lparr>header := h, governance := g, causal_proof_of := (causal_proof_of b)\<lparr>cp_validator_signature :=
             nx_sign X k (hash_bytes (block_signing_payload E X h (causal_proof_of b)))\<rparr>\<rparr>)"

lemma reissue_simps [simp]:
  "header (reissue E X k x g b) = (header b)\<lparr>bh_block_id := x, bh_governance_hash := ex_blake3 E (ex_governance_bytes E g)\<rparr>"
  "body (reissue E X k x g b) = body b"
  "receipts (reissue E X k x g b) = receipts b" "causal_delta (reissue E X k x g b) = causal_delta b"
  "governance (reissue E X k x g b) = g"
  "cp_block_height (causal_proof_of (reissue E X k x g b)) = cp_block_height (causal_proof_of b)"
  "cp_recursion_depth (causal_proof_of (reissue E X k x g b)) = cp_recursion_depth (causal_proof_of b)"
  by (simp_all add: reissue_def Let_def)

lemma reissue_header [simp]:
  "bh_height (header (reissue E X k x g b)) = bh_height (header b)" "bh_version (header (reissue E X k x g b)) = bh_version (header b)"
  "bh_validator_id (header (reissue E X k x g b)) = bh_validator_id (header b)"
  "bh_tension_before (header (reissue E X k x g b)) = bh_tension_before (header b)"
  "bh_tension_after (header (reissue E X k x g b)) = bh_tension_after (header b)"
  "bh_state_root (header (reissue E X k x g b)) = bh_state_root (header b)"
  "bh_balance_root (header (reissue E X k x g b)) = bh_balance_root (header b)"
  by simp_all

lemma phase_evolution_reissue: "phase_evolution (reissue E X k x g b) = phase_evolution b"
  unfolding phase_evolution_def reissue_header reissue_simps(2-7) ..

lemma phi_reissue: "phi_traversal_block E (reissue E X k x g b) w = phi_traversal_block E b w"
proof -
  have "execute_block_phase E p (reissue E X k x g b) w = execute_block_phase E p b w" for p
    by (cases p) (simp_all add: execute_block_phase_def phase_topology_def phase_body_def phase_architecture_def
        phase_performance_def phase_feedback_def tension_swing_def validate_ceilings_for_block_def phase_evolution_reissue Let_def)
  then have "phi_loop E (reissue E X k x g b) w log ps = phi_loop E b w log ps" for log ps
    by (induction ps arbitrary: log) (simp_all add: Let_def split: option.splits)
  then show ?thesis by (simp add: phi_traversal_block_def)
qed

lemma cpog_reissue:
  assumes "validate_cpog E b w parent = Some (CpogValid, clone)"
  shows "validate_cpog E (reissue E X k x g b) w parent = Some (CpogValid, clone)"
proof -
  have "cpog_header_errors E b w parent = []" by (rule validate_cpog_valid [OF assms])
  moreover from this have "cpog_header_errors E (reissue E X k x g b) w parent = []"
    by (simp add: cpog_header_errors_def Let_def cong: if_cong)
  moreover have "cpog_gas_price E (reissue E X k x g b) w = cpog_gas_price E b w" 
    unfolding cpog_gas_price_def reissue_header ..
  then have "cpog_replay E (reissue E X k x g b) w = cpog_replay E b w"
    unfolding cpog_replay_def Let_def reissue_header reissue_simps(2,3) by (simp only:)
  ultimately have "validate_cpog E (reissue E X k x g b) w parent = validate_cpog E b w parent"
    unfolding validate_cpog_def phi_reissue reissue_header reissue_simps(2) by (simp only:)
  then show ?thesis using assms by simp
qed

lemma candidate_reissue:
  assumes "validate_candidate_block_for_round E X c b rd = Some (Inr u, c')" "key_signs E X k" "bh_validator_id (header b) = nx_public X k"
  shows "validate_candidate_block_for_round E X c (reissue E X k x g b) rd = Some (Inr (), c')"
  using assms(1)
proof (rule validated_candidate)
  fix parent clone
  assume p: "latest_block c = Some parent" "bh_height (header b) = u64_saturating_add (bh_height (header parent)) 1"
    "bh_parent_id (header b) = bh_block_id (header parent)" "bh_chain_id (header b) = ch_chain_id c"
    "check_block_version X c b = Inr ()" "check_proposer c b rd = Inr ()"
    "validate_cpog E b (ch_state c) (bh_block_id (header parent)) = Some (CpogValid, clone)"
    "c' = c\<lparr>ch_state := share_store (ch_state c) clone\<rparr>"
  have "verify_producer_signature E X (reissue E X k x g b) = Inr ()"
    using assms(2,3) by (simp add: verify_producer_signature_def key_signs_def block_signing_payload_def reissue_def Let_def)
  moreover have "check_block_version X c (reissue E X k x g b) = Inr ()" 
    using p(5) unfolding check_block_version_def reissue_header .
  moreover have "check_proposer c (reissue E X k x g b) rd = Inr ()" 
    using p(6) unfolding check_proposer_def reissue_header .
  ultimately show ?thesis
    using p(1-4,8) cpog_reissue [OF p(7)] by (simp add: validate_candidate_block_for_round_def bind_result_def Let_def)
qed

section \<open>Slashing penalties\<close>

lemma ledger_entries_differ:
  assumes "ledger_committed hex w b" "ledger_ok b" "ledger_ok b'" "balance_of b' v \<noteq> balance_of b v" "balance_of b v \<noteq> 0"
  shows "\<not> ledger_committed hex w b'"
proof
  assume c': "ledger_committed hex w b'"
  have "case world_get w (balance_key hex v) of None \<Rightarrow> balance_of l v = 0 | Some x \<Rightarrow> x = i128_to_le_bytes (balance_of l v)"
    if "ledger_committed hex w l" for l
    using that by (simp add: ledger_committed_def)
  from this [OF assms(1)] this [OF c'] assms(5) have "i128_to_le_bytes (balance_of b v) = i128_to_le_bytes (balance_of b' v)"
    by (cases "world_get w (balance_key hex v)") auto
  moreover have "is_i128 (balance_of l v)" if "ledger_ok l" for l
    using that balance_of_range [of l v] by (simp add: ledger_ok_def is_i128_nonneg)
  ultimately show False using assms(2-4) i128_le_bytes_roundtrip by metis
qed

lemma penalty_effect:
  fixes c v penalty
  defines "amount \<equiv> min penalty (balance_of (ch_balances c) v)"
  assumes "ledger_ok (ch_balances c)" "treasury_ok (ch_treasury c)" "total_fees_collected (ch_treasury c) + max penalty 0 \<le> I128_MAX" "0 < amount"
  obtains b t where "execute_slashing_penalty c v penalty = (amount, c\<lparr>ch_balances := b, ch_treasury := t\<rparr>)"
    "debit (ch_balances c) v amount = Inr b" "treasury_ok t" "total_burned t = total_burned (ch_treasury c) + amount"
    "pending_fees t = pending_fees (ch_treasury c)"
proof -
  let ?T = "collect_fee (ch_treasury c) amount"
  have amount: "amount \<le> balance_of (ch_balances c) v" "amount \<le> penalty" by (simp_all add: amount_def)
  then obtain b where b: "debit (ch_balances c) v amount = Inr b" by (auto simp: debit_Inr_iff)
  have "total_fees_collected (ch_treasury c) + max amount 0 \<le> I128_MAX" using assms(4,5) amount by simp
  note T = treasury_ok_collect [OF assms(3) this]
  have pend: "pending_fees ?T = pending_fees (ch_treasury c) + amount" "total_burned ?T = total_burned (ch_treasury c)"
    using assms(3-5) amount by (simp_all add: collect_fee_def treasury_ok_def tension_add_exact)
  moreover have "0 \<le> pending_fees (ch_treasury c)" using assms(3) by (simp add: treasury_ok_def)
  ultimately obtain t where t: "treasury_burn ?T amount = Inr t" using assms(5) by (auto simp: treasury_burn_def)
  have "execute_slashing_penalty c v penalty = (amount, c\<lparr>ch_balances := b, ch_treasury := t\<rparr>)"
    using b t assms(5) by (auto simp: execute_slashing_penalty_def amount_def min_def Let_def split: if_splits)
  moreover note treasury_burn_exact [OF T(1) t] pend
  ultimately show thesis using that b by simp
qed

section \<open>Properties\<close>

text \<open>
  C16. Block production accounts for the batch it drained. There is a first part of the batch, the whole batch
  unless the next transition does not fit into the gas of the block, such that every transition of it was
  either accepted or has a rejection receipt; accepted transitions keep their order, each has its receipt, their nonces continue those of
  the chain state (so the later nonce check succeeds), and the gas they used is within the limit of the block. What follows
  that part is neither accepted nor has a receipt.
\<close>

theorem production_accounts_for_batch:
  assumes "default_block_gas_limit (consensus_params (ch_state c)) < U64_MAX"
    and "a = admit_loop E X c price (admission_new c) batch"
  shows "\<exists>n \<le> length batch.
    mset (map tx_id (ad_accepted a)) + mset (map rc_tx_id (ad_rejected a)) = mset (map tx_id (take n batch)) \<and>
    subseq (ad_accepted a) (take n batch) \<and> map rc_tx_id (ad_receipts a) = map tx_id (ad_accepted a) \<and>
    list_all (\<lambda>r. is_accepted (rc_verdict r)) (ad_receipts a) \<and> list_all (\<lambda>r. \<not> is_accepted (rc_verdict r)) (ad_rejected a) \<and>
    nonces_sequential (ch_state c) (ad_accepted a) \<and>
    sum_list (map (\<lambda>r. compute_steps (resource_used r)) (ad_receipts a)) \<le> default_block_gas_limit (consensus_params (ch_state c)) \<and>
    (n < length batch \<longrightarrow> \<not> can_fit (ad_gas a) (snd (validate_transition_metered E (nx_fmt X) (batch ! n) (ad_world a)
       (default_tx_gas_limit (consensus_params (ad_world a))))))"
proof -
  have "books_balance c [] (admission_new c)"
    by (simp add: books_balance_def admission_new_def validate_nonces_def block_gas_new_def)
  from admit_loop_books [OF this assms(1), of batch E X price] obtain n where
    n: "n \<le> length batch" "books_balance c (take n batch) a" "n < length batch \<longrightarrow> admit_one E X c price a (batch ! n) = None"
    unfolding assms(2) by auto
  moreover have "nonces_sequential (ch_state c) (ad_accepted a)"
    using n(2) validate_nonces_failed [of "ch_state c" "ad_accepted a"] by (auto simp: books_balance_def)
  ultimately show ?thesis using admit_one_None unfolding books_balance_def by (intro exI [of _ n]) auto
qed

text \<open>
  C36. The identifier of a block and its governance snapshot are not checked. When a node imports a block, it also imports the
  same block under any other identifier and with any other governance snapshot that its proposer chooses and signs, to the
  same state. Votes, certificates and parent links name blocks by this identifier, which the builder computes as a hash of the header;
  a node that restarts takes the governance limits and the finality settings from the snapshot of the last block.
\<close>

theorem block_identifier_unchecked:
  assumes "import_block E X c b = Some (Inr (), c')" "key_signs E X k" "bh_validator_id (header b) = nx_public X k"
  shows "\<exists>d. import_block E X c (reissue E X k x g b) = Some (Inr (), d) \<and>
    last (ch_blocks d) = reissue E X k x g b \<and> bh_block_id (header (last (ch_blocks d))) = x \<and>
    governance (last (ch_blocks d)) = g \<and> transitions (body (last (ch_blocks d))) = transitions (body b) \<and>
    ch_state d = ch_state c' \<and> ch_balances d = ch_balances c'"
proof -
  obtain c1 where v: "validate_candidate_block E X c b = Some (Inr (), c1)"
    using assms(1) by (auto simp: import_block_def split: option.splits sum.splits prod.splits)
  then have v': "validate_candidate_block E X c (reissue E X k x g b) = Some (Inr (), c1)"
    using candidate_reissue [OF _ assms(2,3)] by (simp add: validate_candidate_block_def)
  have s: "import_state E X c1 (reissue E X k x g b) = import_state E X c1 b"
    unfolding import_state_def Let_def reissue_header reissue_simps(2,3) ..
  obtain r w bal tr where st: "import_state E X c1 b = (r, w, bal, tr)" by (metis prod_cases4)
  then obtain u where r: "r = Inr u" using assms(1) v by (cases r) (auto simp: import_block_def)
  show ?thesis
    using assms(1)
    by (simp only: import_block_def v v' s st r option.case prod.case sum.case Let_def reissue_header reissue_simps(2))
      (auto split: option.splits split del: if_split)
qed

text \<open>
  A slashing penalty takes exactly the smaller of the penalty and the balance from the account it names, leaves
  every other account alone, and burns the amount. It does not touch the world state: when it takes anything, the balances
  in the state trie are no longer those of the ledger, so that block validation, which rebuilds the ledger
  from the trie, and the node disagree from then on.
\<close>

theorem slashing_penalty_outcome:
  assumes "ledger_ok (ch_balances c)" "treasury_ok (ch_treasury c)" "total_fees_collected (ch_treasury c) + max penalty 0 \<le> I128_MAX"
    and "ledger_committed hex (ch_state c) (ch_balances c)" "execute_slashing_penalty c v penalty = (amount, c')"
  shows "amount = min penalty (balance_of (ch_balances c) v) \<and> ledger_ok (ch_balances c') \<and> treasury_ok (ch_treasury c') \<and>
    (\<forall>a. balance_of (ch_balances c') a = balance_of (ch_balances c) a - (if a = v then max amount 0 else 0)) \<and>
    ledger_sum (ch_balances c') = ledger_sum (ch_balances c) - max amount 0 \<and>
    total_burned (ch_treasury c') = total_burned (ch_treasury c) + max amount 0 \<and>
    pending_fees (ch_treasury c') = pending_fees (ch_treasury c) \<and> ch_state c' = ch_state c \<and>
    (ledger_committed hex (ch_state c') (ch_balances c') \<longleftrightarrow> amount \<le> 0)"
proof (cases "0 < min penalty (balance_of (ch_balances c) v)")
  case False
  then have "amount = min penalty (balance_of (ch_balances c) v)" "c' = c"
    using assms(5) by (auto simp: execute_slashing_penalty_def min_def Let_def split: if_splits)
  then show ?thesis using False assms(1,2,4) by auto
next
  case True
  obtain b t where s: "execute_slashing_penalty c v penalty =
      (min penalty (balance_of (ch_balances c) v), c\<lparr>ch_balances := b, ch_treasury := t\<rparr>)"
    "debit (ch_balances c) v (min penalty (balance_of (ch_balances c) v)) = Inr b" "treasury_ok t"
    "total_burned t = total_burned (ch_treasury c) + min penalty (balance_of (ch_balances c) v)"
    "pending_fees t = pending_fees (ch_treasury c)"
    using penalty_effect [OF assms(1-3) True] by blast
  then have d: "debit (ch_balances c) v amount = Inr b" "0 < amount" "c' = c\<lparr>ch_balances := b, ch_treasury := t\<rparr>"
    "amount = min penalty (balance_of (ch_balances c) v)"
    using assms(5) True by simp_all
  then have b: "ledger_ok b" "balance_of b a = (if a = v then balance_of (ch_balances c) v - amount else balance_of (ch_balances c) a)"
    "ledger_sum b = ledger_sum (ch_balances c) - amount" for a
    using native.db_ok [OF assms(1) _ d(1)] native.db_bal [OF assms(1) _ d(1)] native.db_total [OF assms(1) _ d(1)] by simp_all
  have "\<not> ledger_committed hex (ch_state c) b"
  proof (rule ledger_entries_differ [OF assms(4,1) b(1)])
    show "balance_of b v \<noteq> balance_of (ch_balances c) v" using b(2) [of v] d(2) by simp
  qed (use d(2,4) in simp)
  then show ?thesis using s(3-5) d b by auto
qed

text \<open>
  A rejected import leaves the chain as it was, with one exception: an error of the economics. The nonce check that
  follows the validation never fails. On an error of the economics the blocks, the mempool, the governance state and the records
  are still untouched, but the ledger, the treasury and the nonces may have moved.
\<close>

theorem rejected_import_outcome:
  assumes "import_block E X c b = Some (Inl e, c')" "durable (trie (ch_state c)) = None"
  shows "c' = c \<or> (\<exists>x w bal tr. e = ChEconomics x \<and> validate_candidate_block E X c b = Some (Inr (), c) \<and>
    c' = c\<lparr>ch_state := w, ch_balances := bal, ch_treasury := tr\<rparr> \<and> block_frame (ch_state c) w)"
proof -
  obtain v c1 where v: "validate_candidate_block E X c b = Some (v, c1)"
    using assms(1) by (cases "validate_candidate_block E X c b") (auto simp: import_block_def)
  have c1: "c1 = c"
    using validate_candidate_frame [OF v [unfolded validate_candidate_block_def]] assms(2) by auto
  show ?thesis
  proof (cases v)
    case (Inl x)
    then show ?thesis using assms(1) v c1 by (simp add: import_block_def)
  next
    case (Inr u)
    obtain r w bal tr where s: "import_state E X c b = (r, w, bal, tr)" by (metis prod_cases4)
    have "validate_candidate_block_for_round E X c b None = Some (Inr u, c1)" using v Inr by (simp add: validate_candidate_block_def)
    then obtain parent :: block and clone where p: "validate_cpog E b (ch_state c) (bh_block_id (header parent)) = Some (CpogValid, clone)"
      "bh_height (header b) = u64_saturating_add (bh_height (header parent)) 1"
      by (rule validated_candidate) blast
    then have "cpog_replay E b (ch_state c) = ([], False, clone)"
      by (auto elim: validate_cpog_valid simp: u64_saturating_add_def U64_MAX_def)
    then have "nonces_sequential (ch_state c) (transitions (body b))" by (rule cpog_replay_ok)
    then obtain w1 where "validate_nonces (ch_state c) (transitions (body b)) = (Inr (), w1)" using validate_nonces_passed by blast
    then have r: "r = Inr () \<or> (\<exists>x. r = Inl (ChEconomics x))"
      using s by (auto simp: import_state_def Let_def split: prod.splits sum.splits)
    show ?thesis
    proof (cases r)
      case (Inl x)
      then have "e = x" "c' = c\<lparr>ch_state := w, ch_balances := bal, ch_treasury := tr\<rparr>"
        using assms(1) v c1 \<open>v = Inr u\<close> s by (simp_all add: import_block_def)
      then show ?thesis using r Inl v \<open>v = Inr u\<close> c1 import_state_frame [OF s] by auto
    next
      case (Inr u')
      then show ?thesis using assms(1) v c1 \<open>v = Inr u\<close> s by (auto simp: import_block_def Let_def split: option.splits)
    qed
  qed
qed

text \<open>Applications to the sample chain.\<close>

theorem production_accounts_for_batch_witness:
  "\<exists>n \<le> 1. mset (map tx_id (ad_accepted (admit_loop signing_ext sample_node sample_chain 1 (admission_new sample_chain) [fresh_tx]))) +
     mset (map rc_tx_id (ad_rejected (admit_loop signing_ext sample_node sample_chain 1 (admission_new sample_chain) [fresh_tx]))) =
     mset (map tx_id (take n [fresh_tx]))"
proof -
  have "default_block_gas_limit (consensus_params (ch_state sample_chain)) < U64_MAX"
    by (simp add: sample_chain_def world_new_def consensus_params_default_def U64_MAX_def)
  from production_accounts_for_batch [OF this refl, where E = signing_ext and X = sample_node and price = 1 and batch = "[fresh_tx]"] show ?thesis by auto
qed

lemma sample_produced_imports: "\<exists>c'. import_block signing_ext sample_node sample_chain sample_produced = Some (Inr (), c')"
proof -
  note f = build_block_fields [of signing_ext sample_node sample_chain "sample_block []" 1000 "[]" "[]" "set_height world_new 2"
      "balance_root (ex_blake3 signing_ext) ledger_new", folded sample_produced_def]
  have c: "ch_state sample_chain = world_new" "ch_balances sample_chain = ledger_new" "ch_treasury sample_chain = treasury_new"
    "ch_block_version sample_chain = 2" "ch_validator_set sample_chain = []" "latest_block sample_chain = Some (sample_block [])"
    "bh_block_id (header (sample_block [])) = 2" "durable (trie world_new) = None" "length (ch_blocks sample_chain) = 1"
    "key_signs signing_ext sample_node (ch_validator_key sample_chain)"
    by (simp_all add: sample_chain_def latest_block_def sample_block_def sample_header_def world_new_def trie_new_def
        key_signs_def sample_node_def signing_ext_def)
  have h: "bh_height (header sample_produced) = 2"
    by (simp add: f(1) sample_block_def sample_header_def u64_saturating_add_def U64_MAX_def)
  have v: "bh_version (header sample_produced) = 2" using f(4) c(4) by simp
  have "chain_version_history_from_trie dec world_new = Inr []" for dec
    by (simp add: chain_version_history_from_trie_def world_get_def trie_get_def world_new_def trie_new_def)
  then have "check_block_version sample_node sample_chain sample_produced = Inr ()" by (simp add: check_block_version_def c v)
  moreover have "check_proposer sample_chain sample_produced None = Inr ()" by (simp add: check_proposer_def c)
  moreover have "verify_producer_signature signing_ext sample_node sample_produced = Inr ()"
    unfolding sample_produced_def by (rule build_block_signed [OF c(10)])
  moreover obtain clone where "validate_cpog signing_ext sample_produced world_new 2 = Some (CpogValid, clone)"
    using sample_produced_valid by blast
  ultimately have "validate_candidate_block signing_ext sample_node sample_chain sample_produced = Some (Inr (), sample_chain)"
    using c f(1-3) by (intro candidate_passes [where parent = "sample_block []" and clone = clone]) simp_all
  moreover have "store (trie world_new) = []" by (simp add: world_new_def trie_new_def)
  from empty_economics [OF this] obtain out t' where "apply_block_economics (ex_blake3 signing_ext) (ex_seal_bytes signing_ext)
      (ex_hex signing_ext) world_new ledger_new treasury_new [] [] 2 (bh_validator_id (header sample_produced)) (spot_gas_price sample_chain)
      default_block_reward = (Inr out, world_new, ledger_new, t')"
    by blast
  then have "import_state signing_ext sample_node sample_chain sample_produced = (Inr (), set_height world_new 2, ledger_new, t')"
    by (simp add: import_state_def c f(6,7) h v validate_nonces_def empty_transitions PATCH_05_BLOCK_VERSION_def)
  ultimately show ?thesis using import_adopts c(9) by (metis One_nat_def U64_MAX_def le_numeral_extra(4) one_le_numeral)
qed

theorem block_identifier_unchecked_witness:
  "\<exists>d. import_block signing_ext sample_node sample_chain (reissue signing_ext sample_node 5 77 (governance sample_produced) sample_produced) = Some (Inr (), d) \<and>
     bh_block_id (header (last (ch_blocks d))) = 77 \<and> bh_block_id (header sample_produced) = 7"
proof -
  obtain c' where i: "import_block signing_ext sample_node sample_chain sample_produced = Some (Inr (), c')"
    using sample_produced_imports by blast
  have "bh_validator_id (header sample_produced) = nx_public sample_node 5" "bh_block_id (header sample_produced) = 7"
    "key_signs signing_ext sample_node 5"
    by (simp_all add: sample_produced_def build_block_def build_header_def local_validator_id_def sample_chain_def sample_node_def
        signing_ext_def key_signs_def Let_def)
  with block_identifier_unchecked [OF i, of 5 77] show ?thesis by blast
qed

definition rich_ledger :: balance_ledger where "rich_ledger = credit ledger_new 5 100"

definition rich_chain :: chain where
  "rich_chain = sample_chain\<lparr>ch_balances := rich_ledger, ch_state := commit_balance_accounts sample_hex world_new rich_ledger {5}\<rparr>"

theorem slashing_penalty_outcome_witness:
  "fst (execute_slashing_penalty rich_chain 5 30) = 30 \<and>
     \<not> ledger_committed sample_hex (ch_state (snd (execute_slashing_penalty rich_chain 5 30)))
         (ch_balances (snd (execute_slashing_penalty rich_chain 5 30)))"
proof -
  have l: "ledger_ok rich_ledger" "balance_of rich_ledger a = (if a = 5 then 100 else 0)" for a
    using native.cr_ok [of ledger_new 100 5] native.cr_bal [of ledger_new 100 5 a] by (simp_all add: rich_ledger_def I128_MAX_def)
  then have "ledger_committed sample_hex (ch_state rich_chain) (ch_balances rich_chain)"
    using ledger_committed_commit [OF sample_hex_ok world_new_committed(2) _ world_new_committed(1), of "{5}" rich_ledger]
    by (simp add: rich_chain_def)
  moreover have "treasury_ok (ch_treasury rich_chain)" "total_fees_collected (ch_treasury rich_chain) + max 30 0 \<le> I128_MAX"
    "ch_balances rich_chain = rich_ledger"
    by (simp_all add: rich_chain_def sample_chain_def) (simp add: treasury_new_def I128_MAX_def)
  moreover obtain amount d where d: "execute_slashing_penalty rich_chain 5 30 = (amount, d)" by fastforce
  ultimately show ?thesis
    using slashing_penalty_outcome [of rich_chain 30 sample_hex 5 amount d] l by auto
qed

theorem rejected_import_outcome_witness:
  "import_block signing_ext sample_node sample_chain (sample_block []) = Some (Inl (ChHeight 2 1), sample_chain)"
proof -
  have r: "\<exists>c'. import_block signing_ext sample_node sample_chain (sample_block []) = Some (Inl (ChHeight 2 1), c')"
    by (simp add: import_block_def validate_candidate_block_def validate_candidate_block_for_round_def latest_block_def sample_chain_def
        sample_block_def sample_header_def u64_saturating_add_def U64_MAX_def)
  moreover have "durable (trie (ch_state sample_chain)) = None" by (simp add: sample_chain_def world_new_def trie_new_def)
  ultimately show ?thesis using rejected_import_outcome [of signing_ext sample_node sample_chain "sample_block []" "ChHeight 2 1"] by blast
qed

end
