(* ===== verification/Scc_Chain_Replay.thy ===== *)
theory Scc_Chain_Replay
  imports Scc_Chain_Safety
begin

text \<open>
  Creating a chain and rebuilding it (\<open>node/chain.rs\<close>): the genesis block, the replay of a list of blocks on start-up,
  and state snapshots. The main results: replaying the blocks of a live node gives the state it has, and
  what a snapshot keeps and loses.
\<close>

section \<open>Genesis\<close>

definition initialize_genesis_state ::
  "ext \<Rightarrow> node_ext \<Rightarrow> nat \<Rightarrow> hash \<Rightarrow> consensus_params \<Rightarrow> finality_mode \<Rightarrow> managed_world_state \<times> balance_ledger" where
  "initialize_genesis_state E X ver pk params fmode =
     (let w0 = with_consensus_params params;
          w1 = w0\<lparr>state := (state w0)\<lparr>ws_governance_state := governance_state_default\<lparr>gov_finality_mode := fmode\<rparr>\<rparr>\<rparr>;
          w2 = commit_consensus_params (nx_params_bytes X) w1;
          acct = validator_spend_account (ex_blake3 E) (ex_seal_bytes E) ver pk
      in case apply_genesis_mint (ex_hex E) w2 ledger_new acct of (w3, b) \<Rightarrow> (set_height w3 0, b))"

definition build_genesis_block ::
  "ext \<Rightarrow> node_ext \<Rightarrow> hash \<Rightarrow> hash \<Rightarrow> nat \<Rightarrow> hash \<Rightarrow> hash \<Rightarrow> hash \<Rightarrow> bytes option \<Rightarrow> block" where
  "build_genesis_block E X cid v ver key sroot broot params =
     (let B = ex_blake3 E;
          gov = \<lparr>gs_state_hash = ZERO_HASH, gs_active_norm_count = 0, gs_emergency_mode = False, gs_finality_mode = Deterministic,
                 gs_governance_limits = governance_limits_snapshot_default, gs_finality_config = finality_config_snapshot_default\<rparr>;
          hdr = \<lparr>bh_chain_id = cid, bh_block_id = B (nx_genesis_bytes X cid), bh_parent_id = ZERO_HASH, bh_height = 0,
                 bh_timestamp = timestamp_genesis, bh_state_root = sroot, bh_transition_root = ZERO_HASH,
                 bh_receipt_root = ZERO_HASH, bh_causal_root = ZERO_HASH, bh_proof_root = ZERO_HASH,
                 bh_governance_hash = B (ex_governance_bytes E gov), bh_tension_before = 0, bh_tension_after = 0,
                 bh_mfidel_seal = seal_from_height 0, bh_balance_root = broot, bh_validator_id = v, bh_version = ver,
                 bh_round_history_root = ZERO_HASH\<rparr>;
          proof0 = \<lparr>cp_block_height = 0, cp_transitions_proven = [], cp_phi_traversal_log = phi_log_new,
                    cp_governance_snapshot_hash = bh_governance_hash hdr, cp_tension_before = 0, cp_tension_after = 0,
                    cp_constraint_results = [], cp_recursion_depth = 0, cp_validator_signature = [],
                    cp_causal_hash = B ''genesis-proof''\<rparr>;
          sig = nx_sign X key (hash_bytes (block_signing_payload E X hdr proof0))
      in \<lparr>header = hdr,
          body = \<lparr>transitions = [], transition_count = 0, total_tension_delta = 0, body_constraint_satisfaction = [],
                  genesis_consensus_params = params, validator_set_changes = None, body_equivocation_evidence = None\<rparr>,
          receipts = [], causal_delta = \<lparr>new_vertices = [], new_edges = [], causal_root = ZERO_HASH\<rparr>, causal_proof_of = proof0\<lparr>cp_validator_signature := sig\<rparr>,
          governance = gov\<rparr>)"

text \<open>The chain around a list of blocks and the state they lead to; a new key is an argument.\<close>

definition chain_around ::
  "block list \<Rightarrow> nat \<Rightarrow> managed_world_state \<Rightarrow> hash \<Rightarrow> hash \<Rightarrow> balance_ledger \<Rightarrow> treasury \<Rightarrow> slashing_engine \<Rightarrow> chain" where
  "chain_around bs ver w cid key b t sl =
     \<lparr>ch_blocks = bs, ch_block_version = ver, ch_state = w, ch_mempool = mempool_new 10000, ch_chain_id = cid,
      ch_validator_key = key, ch_economics = economic_state_default, ch_balances = b, ch_treasury = t,
      ch_governance_limits = governance_limits_default, ch_power_tracker = power_tracker_default,
      ch_proposals = proposal_registry_default, ch_finality = finality_tracker_default,
      ch_finality_config = finality_config_default, ch_slashing = sl, ch_equivocation_records = [],
      ch_safety_certificates = [], ch_validator_set = [], ch_latest_events = [], ch_latest_rejected_receipts = [],
      ch_responsibility = []\<rparr>"

text \<open>\<open>None\<close> is the failed assertion on the block version.\<close>

definition init_with_consensus_params_and_finality ::
  "ext \<Rightarrow> node_ext \<Rightarrow> hash \<Rightarrow> nat \<Rightarrow> consensus_params \<Rightarrow> finality_mode \<Rightarrow> chain option" where
  "init_with_consensus_params_and_finality E X key ver params fmode =
     (if \<not> is_supported_block_version ver then None
      else
        let v = nx_public X key; cid = ex_blake3 E ''sccgub-genesis-chain'';
            (w, b) = initialize_genesis_state E X ver v params fmode;
            genesis = build_genesis_block E X cid v ver key (state_root (ex_blake3 E) w) (balance_root (ex_blake3 E) b)
                        (Some (nx_params_bytes X params));
            sl = set_stake (slashing_engine_new slashing_config_default) v (from_integer 100000)
        in Some (chain_around [genesis] ver (set_height w 0) cid key b treasury_new sl))"

definition init_with_consensus_params :: "ext \<Rightarrow> node_ext \<Rightarrow> hash \<Rightarrow> nat \<Rightarrow> consensus_params \<Rightarrow> chain option" where
  "init_with_consensus_params E X key ver params = init_with_consensus_params_and_finality E X key ver params Deterministic"

definition init_with_version :: "ext \<Rightarrow> node_ext \<Rightarrow> hash \<Rightarrow> nat \<Rightarrow> chain option" where
  "init_with_version E X key ver = init_with_consensus_params E X key ver consensus_params_default"

definition init_with_finality_mode :: "ext \<Rightarrow> node_ext \<Rightarrow> hash \<Rightarrow> finality_mode \<Rightarrow> chain option" where
  "init_with_finality_mode E X key fmode =
     init_with_consensus_params_and_finality E X key CURRENT_BLOCK_VERSION consensus_params_default fmode"

definition chain_init :: "ext \<Rightarrow> node_ext \<Rightarrow> hash \<Rightarrow> chain option" where
  "chain_init E X key = init_with_version E X key CURRENT_BLOCK_VERSION"

section \<open>Replay of a block list\<close>

datatype import_error =
    IeEmpty
  | IeFirstBlockNotGenesis
  | IeMissingGenesisConsensusParams
  | IeGenesisConsensusParams string
  | IeGenesisStateMismatch
  | IeGenesisSignature chain_error
  | IeProducerSignature nat chain_error
  | IeChainIdMismatch nat
  | IeVersionMismatch nat nat nat
  | IeCpog nat "cpog_error list"
  | IeEconomicsViolation nat apply_error
  | IeNonceViolation nat nonce_error
  | IeSnapshotMismatch nat
  | IePostSnapshotReplay nat chain_error

definition load_genesis_consensus_params :: "node_ext \<Rightarrow> block \<Rightarrow> import_error + consensus_params" where
  "load_genesis_consensus_params X genesis =
     (case genesis_consensus_params (body genesis) of
        Some bytes \<Rightarrow>
          (case consensus_params_from_canonical_bytes (nx_params_dec X) bytes of
             Inl e \<Rightarrow> Inl (IeGenesisConsensusParams e) | Inr p \<Rightarrow> Inr p)
      | None \<Rightarrow> Inr consensus_params_default)"

text \<open>What the replay carries from block to block.\<close>

record replayed =
  rp_state :: managed_world_state
  rp_balances :: balance_ledger
  rp_treasury :: treasury
  rp_limits :: governance_limits
  rp_finality :: finality_config
  rp_proposals :: proposal_registry

text \<open>
  The genesis checks of the replay. The governance replay runs without a validator set: a change of it
  is dropped.
\<close>

definition replay_genesis :: "ext \<Rightarrow> node_ext \<Rightarrow> block \<Rightarrow> (import_error + replayed) option" where
  "replay_genesis E X genesis =
     (if bh_height (header genesis) \<noteq> 0 then Some (Inl IeFirstBlockNotGenesis)
      else case verify_producer_signature E X genesis of
             Inl e \<Rightarrow> Some (Inl (IeGenesisSignature e))
           | Inr _ \<Rightarrow>
               (case load_genesis_consensus_params X genesis of
                  Inl e \<Rightarrow> Some (Inl e)
                | Inr params \<Rightarrow>
                    let w0 = with_consensus_params params;
                        empty = w0\<lparr>state := (state w0)\<lparr>ws_governance_state := governance_state_default\<lparr>gov_finality_mode := Deterministic\<rparr>\<rparr>\<rparr>
                    in (case validate_cpog E genesis empty ZERO_HASH of
                          None \<Rightarrow> None
                        | Some (CpogInvalid errs, _) \<Rightarrow> Some (Inl (IeCpog 0 errs))
                        | Some (CpogValid, _) \<Rightarrow>
                            (case initialize_genesis_state E X (bh_version (header genesis)) (bh_validator_id (header genesis)) params Deterministic of
                               (w, b) \<Rightarrow>
                                 let roots = (case genesis_consensus_params (body genesis) of
                                       Some _ \<Rightarrow>
                                         if bh_state_root (header genesis) \<noteq> state_root (ex_blake3 E) w then Inl IeGenesisStateMismatch
                                         else if bh_balance_root (header genesis) \<noteq> balance_root (ex_blake3 E) b
                                         then Inl IeGenesisStateMismatch else Inr ()
                                     | None \<Rightarrow>
                                         if bh_state_root (header genesis) \<noteq> ZERO_HASH \<or> bh_balance_root (header genesis) \<noteq> ZERO_HASH
                                         then Inl IeMissingGenesisConsensusParams else Inr ())
                                 in Some (bind_result roots (\<lambda>_. Inr
                                      \<lparr>rp_state = set_height w 0, rp_balances = b, rp_treasury = treasury_new,
                                       rp_limits = governance_limits_default, rp_finality = finality_config_default,
                                       rp_proposals = proposal_registry_default\<rparr>))))))"

definition replay_governance :: "ext \<Rightarrow> node_ext \<Rightarrow> symbolic_transition list \<Rightarrow> nat \<Rightarrow> replayed \<Rightarrow> replayed" where
  "replay_governance E X txs h rp =
     (let w = rp_state rp;
          g = replay_governance_from_transitions (nx_proposal_hash X) (ex_hexdec E) (readable_ceilings E w) txs h
                \<lparr>gc_proposals = rp_proposals rp, gc_state = ws_governance_state (state w), gc_limits = rp_limits rp,
                 gc_finality = rp_finality rp, gc_validators = [], gc_params = consensus_params w, gc_mutated = False\<rparr>
      in rp\<lparr>rp_proposals := gc_proposals g, rp_limits := gc_limits g, rp_finality := gc_finality g,
            rp_state := governed_world X g w\<rparr>)"

definition replay_block ::
  "ext \<Rightarrow> node_ext \<Rightarrow> nat \<Rightarrow> hash \<Rightarrow> hash \<Rightarrow> replayed \<Rightarrow> block \<Rightarrow> (import_error + replayed) option" where
  "replay_block E X ver cid parent rp b =
     (let hd = header b; h = bh_height hd; w = rp_state rp; txs = transitions (body b); f = ws_tension_field (state w)
      in case verify_producer_signature E X b of
           Inl e \<Rightarrow> Some (Inl (IeProducerSignature h e))
         | Inr _ \<Rightarrow>
             if bh_chain_id hd \<noteq> cid then Some (Inl (IeChainIdMismatch h))
             else if bh_version hd \<noteq> ver then Some (Inl (IeVersionMismatch h ver (bh_version hd)))
             else case validate_cpog E b w parent of
                    None \<Rightarrow> None
                  | Some (CpogInvalid errs, _) \<Rightarrow> Some (Inl (IeCpog h errs))
                  | Some (CpogValid, _) \<Rightarrow>
                      (case validate_nonces w txs of
                         (Inl e, _) \<Rightarrow> Some (Inl (IeNonceViolation h e))
                       | (Inr _, w1) \<Rightarrow>
                           (case apply_block_economics (ex_blake3 E) (ex_seal_bytes E) (ex_hex E) w1 (rp_balances rp) (rp_treasury rp) txs
                                   (receipts b) ver (bh_validator_id hd)
                                   (effective_fee economic_state_default (total f) (current_budget (budget f))) default_block_reward of
                              (Inl e, _) \<Rightarrow> Some (Inl (IeEconomicsViolation h e))
                            | (Inr _, w2, b2, t2) \<Rightarrow>
                                (case apply_block_transitions (ex_hex E) w2 b2 txs of
                                   (_, w3, b3) \<Rightarrow>
                                     let t3 = (if h mod 100 = 0 then snd (advance_epoch t2) else t2);
                                         w4 = (if h mod 100 = 0 then commit_treasury_state w3 t3 else w3)
                                     in Some (Inr (replay_governance E X txs h
                                          (rp\<lparr>rp_state := set_height w4 h, rp_balances := b3, rp_treasury := t3\<rparr>)))))))"

fun replay_blocks ::
  "ext \<Rightarrow> node_ext \<Rightarrow> nat \<Rightarrow> hash \<Rightarrow> hash \<Rightarrow> replayed \<Rightarrow> block list \<Rightarrow> (import_error + replayed) option" where
  "replay_blocks E X ver cid parent rp [] = Some (Inr rp)"
| "replay_blocks E X ver cid parent rp (b # bs) =
     (case replay_block E X ver cid parent rp b of
        None \<Rightarrow> None
      | Some (Inl e) \<Rightarrow> Some (Inl e)
      | Some (Inr rp') \<Rightarrow> replay_blocks E X ver cid (bh_block_id (header b)) rp' bs)"

text \<open>The finality tracker of a rebuilt chain, \<open>None\<close> when its loop does not return.\<close>

definition rebuilt_finality :: "block list \<Rightarrow> managed_world_state \<Rightarrow> finality_config \<Rightarrow> finality_tracker option" where
  "rebuilt_finality bs w config =
     (let t = on_new_block finality_tracker_default (bh_height (header (last bs)))
      in if gov_finality_mode (ws_governance_state (state w)) = Deterministic
         then map_option snd (check_finality config (block_hash_at bs) t)
         else Some t)"

definition from_blocks :: "ext \<Rightarrow> node_ext \<Rightarrow> hash \<Rightarrow> block list \<Rightarrow> (import_error + chain) option" where
  "from_blocks E X key bs =
     (case bs of
        [] \<Rightarrow> Some (Inl IeEmpty)
      | genesis # rest \<Rightarrow>
          let cid = bh_chain_id (header genesis); ver = bh_version (header genesis)
          in case replay_genesis E X genesis of
               None \<Rightarrow> None
             | Some (Inl e) \<Rightarrow> Some (Inl e)
             | Some (Inr rp0) \<Rightarrow>
                 (case replay_blocks E X ver cid (bh_block_id (header genesis)) rp0 rest of
                    None \<Rightarrow> None
                  | Some (Inl e) \<Rightarrow> Some (Inl e)
                  | Some (Inr rp) \<Rightarrow>
                      let limits = governance_limits_from_snapshot (gs_governance_limits (governance (last bs)));
                          config = finality_config_from_snapshot (gs_finality_config (governance (last bs)))
                      in (case rebuilt_finality bs (rp_state rp) config of
                            None \<Rightarrow> None
                          | Some fin \<Rightarrow>
                              Some (Inr ((chain_around bs ver (rp_state rp) cid key (rp_balances rp) (rp_treasury rp)
                                  (slashing_engine_new slashing_config_default))
                                \<lparr>ch_governance_limits := limits, ch_finality_config := config, ch_proposals := rp_proposals rp,
                                 ch_finality := fin\<rparr>)))))"

section \<open>Snapshots\<close>

record state_snapshot =
  ss_height :: nat
  ss_state_root :: hash
  ss_trie_entries :: "(bytes \<times> bytes) list"
  ss_agent_nonces :: "(agent_id \<times> nat) list"
  ss_balances :: "(agent_id \<times> int) list"
  ss_treasury_pending :: int
  ss_treasury_collected :: int
  ss_treasury_distributed :: int
  ss_treasury_burned :: int
  ss_treasury_epoch :: nat
  ss_finalized_height :: nat
  ss_slashing_events :: "slashing_event list"
  ss_slashing_stakes :: "(hash \<times> int) list"
  ss_slashing_removed :: "hash list"
  ss_slashing_absence :: "(hash \<times> nat) list"
  ss_equivocation_records :: "(equivocation_proof \<times> nat) list"
  ss_safety_certificates :: "safety_certificate list"
  ss_validator_set :: "validator_authority list"
  ss_governance_limits :: governance_limits
  ss_finality_config :: finality_config
  ss_finality_mode :: finality_mode
  ss_proposals :: "governance_proposal list"

definition create_snapshot :: "ext \<Rightarrow> chain \<Rightarrow> state_snapshot" where
  "create_snapshot E c =
     \<lparr>ss_height = height (state (ch_state c)), ss_state_root = state_root (ex_blake3 E) (ch_state c),
      ss_trie_entries = trie_iter (trie (ch_state c)), ss_agent_nonces = agent_nonces (ch_state c),
      ss_balances = balances (ch_balances c), ss_treasury_pending = pending_fees (ch_treasury c),
      ss_treasury_collected = total_fees_collected (ch_treasury c),
      ss_treasury_distributed = total_rewards_distributed (ch_treasury c), ss_treasury_burned = total_burned (ch_treasury c),
      ss_treasury_epoch = epoch (ch_treasury c), ss_finalized_height = finalized_height (ch_finality c),
      ss_slashing_events = sl_events (ch_slashing c), ss_slashing_stakes = stakes (ch_slashing c),
      ss_slashing_removed = sl_removed (ch_slashing c), ss_slashing_absence = absence_counter (ch_slashing c),
      ss_equivocation_records = ch_equivocation_records c, ss_safety_certificates = ch_safety_certificates c,
      ss_validator_set = ch_validator_set c, ss_governance_limits = ch_governance_limits c,
      ss_finality_config = ch_finality_config c, ss_finality_mode = gov_finality_mode (ws_governance_state (state (ch_state c))),
      ss_proposals = proposals (ch_proposals c)\<rparr>"

datatype snapshot_error = SnapshotRootMismatch hash hash | SnapshotStore string

definition snapshot_ledger :: "state_snapshot \<Rightarrow> balance_ledger" where
  "snapshot_ledger s = fold (\<lambda>(a, x) b. import_balance b a x) (ss_balances s) ledger_new"

text \<open>On an error the state has already been replaced.\<close>

definition restore_from_snapshot ::
  "ext \<Rightarrow> node_ext \<Rightarrow> chain \<Rightarrow> state_snapshot \<Rightarrow> (snapshot_error + unit) \<times> chain" where
  "restore_from_snapshot E X c s =
     (let w0 = world_new\<lparr>state := (state world_new)\<lparr>ws_governance_state :=
                 governance_state_default\<lparr>gov_finality_mode := ss_finality_mode s\<rparr>\<rparr>\<rparr>;
          (root, t) = trie_root (ex_blake3 E) (fold (\<lambda>(k, v) t. trie_insert t k v) (ss_trie_entries s) (trie w0));
          w1 = w0\<lparr>trie := t\<rparr>
      in if root \<noteq> ss_state_root s then (Inl (SnapshotRootMismatch root (ss_state_root s)), c\<lparr>ch_state := w1\<rparr>)
         else
           let params = (case consensus_params_from_trie (nx_params_dec X) w1 of Inr (Some p) \<Rightarrow> p | _ \<Rightarrow> consensus_params_default);
               w2 = set_height (w1\<lparr>consensus_params := params,
                      agent_nonces := fold (\<lambda>(a, n) m. AList.update a n m) (ss_agent_nonces s) (agent_nonces w1)\<rparr>) (ss_height s);
               tr = (case treasury_from_trie w2 of
                       Inr t \<Rightarrow> t
                     | Inl _ \<Rightarrow> treasury_new\<lparr>pending_fees := ss_treasury_pending s, total_fees_collected := ss_treasury_collected s,
                                 total_rewards_distributed := ss_treasury_distributed s, total_burned := ss_treasury_burned s,
                                 epoch := ss_treasury_epoch s, epoch_fees := 0, epoch_rewards := 0\<rparr>);
               sl = fold (\<lambda>(v, x) e. set_stake e v x) (ss_slashing_stakes s) (slashing_engine_new slashing_config_default)
           in (Inr (), c\<lparr>ch_state := w2, ch_balances := snapshot_ledger s, ch_treasury := tr,
                 ch_finality := (on_new_block finality_tracker_default (ss_height s))\<lparr>finalized_height := ss_finalized_height s\<rparr>,
                 ch_slashing := sl\<lparr>sl_events := ss_slashing_events s, sl_removed := ss_slashing_removed s,
                   absence_counter := fold (\<lambda>(v, n) m. AList.update v n m) (ss_slashing_absence s) []\<rparr>,
                 ch_equivocation_records := ss_equivocation_records s, ch_safety_certificates := ss_safety_certificates s,
                 ch_validator_set := ss_validator_set s, ch_governance_limits := ss_governance_limits s,
                 ch_finality_config := ss_finality_config s,
                 ch_proposals := (ch_proposals c)\<lparr>proposals := ss_proposals s\<rparr>\<rparr>))"

definition restore_from_snapshot_with_store ::
  "ext \<Rightarrow> node_ext \<Rightarrow> chain \<Rightarrow> state_snapshot \<Rightarrow> durable_store \<Rightarrow> (snapshot_error + unit) \<times> chain" where
  "restore_from_snapshot_with_store E X c s d =
     (case restore_from_snapshot E X c s of
        (Inl e, c') \<Rightarrow> (Inl e, c')
      | (Inr _, c') \<Rightarrow>
          (case bind_store (ch_state c') d of
             (Inl e, w, _) \<Rightarrow> (Inl (SnapshotStore e), c'\<lparr>ch_state := w\<rparr>)
           | (Inr _, w, _) \<Rightarrow> (Inr (), c'\<lparr>ch_state := w\<rparr>)))"

text \<open>The blocks after the snapshot go through the import of the live node.\<close>

fun import_rest :: "ext \<Rightarrow> node_ext \<Rightarrow> chain \<Rightarrow> block list \<Rightarrow> (import_error + chain) option" where
  "import_rest E X c [] = Some (Inr c)"
| "import_rest E X c (b # bs) =
     (case import_block E X c b of
        None \<Rightarrow> None
      | Some (Inl e, _) \<Rightarrow> Some (Inl (IePostSnapshotReplay (bh_height (header b)) e))
      | Some (Inr _, c') \<Rightarrow> import_rest E X c' bs)"

definition from_blocks_with_snapshot ::
  "ext \<Rightarrow> node_ext \<Rightarrow> hash \<Rightarrow> block list \<Rightarrow> state_snapshot \<Rightarrow> durable_store option \<Rightarrow> (import_error + chain) option" where
  "from_blocks_with_snapshot E X key bs s st =
     (let mismatch = Some (Inl (IeSnapshotMismatch (ss_height s)))
      in if bs = [] then Some (Inl IeEmpty)
         else if \<not> ss_height s < length bs then mismatch
         else
           let boundary = header (bs ! ss_height s)
           in if bh_height boundary \<noteq> ss_height s \<or> ss_state_root s \<noteq> bh_state_root boundary \<or>
                 balance_root (ex_blake3 E) (snapshot_ledger s) \<noteq> bh_balance_root boundary then mismatch
              else case from_blocks E X key (take (ss_height s + 1) bs) of
                     None \<Rightarrow> None
                   | Some (Inl e) \<Rightarrow> Some (Inl e)
                   | Some (Inr c) \<Rightarrow>
                       (case (case st of Some d \<Rightarrow> restore_from_snapshot_with_store E X c s d
                                       | None \<Rightarrow> restore_from_snapshot E X c s) of
                          (Inl _, _) \<Rightarrow> mismatch
                        | (Inr _, c') \<Rightarrow> import_rest E X c' (drop (ss_height s + 1) bs)))"

section \<open>Replay follows import\<close>

definition same_settings :: "governance_context \<Rightarrow> governance_context \<Rightarrow> bool" where
  "same_settings c d \<longleftrightarrow> gc_proposals c = gc_proposals d \<and> gc_state c = gc_state d \<and> gc_limits c = gc_limits d \<and>
     gc_finality c = gc_finality d \<and> gc_params c = gc_params d \<and> gc_mutated c = gc_mutated d"

lemma activation_effect_settings:
  "same_settings c d \<Longrightarrow> same_settings (activation_effect hexdec ceilings k c) (activation_effect hexdec ceilings k d)"
  by (cases k) (auto simp: activation_effect_def same_settings_def split: sum.split option.split)

lemma activate_due_settings_cong:
  assumes "same_settings c d"
  shows "same_settings (activate_due hexdec ceilings h p c) (activate_due hexdec ceilings h p d)"
proof -
  have "same_settings (c\<lparr>gc_proposals := reg\<rparr>) (d\<lparr>gc_proposals := reg\<rparr>)" for reg using assms by (simp add: same_settings_def)
  from activation_effect_settings [OF this] show ?thesis
    using assms by (auto simp: activate_due_def same_settings_def split: sum.split option.split prod.split)
qed

lemma replay_settings_cong:
  assumes "same_settings c d"
  shows "same_settings (replay_governance_from_transitions PH hexdec ceilings txs h c)
    (replay_governance_from_transitions PH hexdec ceilings txs h d)"
proof -
  have "same_settings c' d' \<Longrightarrow> same_settings (fold (activate_due hexdec ceilings h) ps c') (fold (activate_due hexdec ceilings h) ps d')" for ps c' d'
    by (induction ps arbitrary: c' d') (simp_all add: activate_due_settings_cong)
  then show ?thesis using assms by (simp add: replay_governance_from_transitions_def same_settings_def Let_def)
qed

text \<open>A replay that has reached the state of a live chain.\<close>

definition cold :: "replayed \<Rightarrow> chain \<Rightarrow> bool" where
  "cold rp c \<longleftrightarrow> rp_state rp = ch_state c \<and> rp_balances rp = ch_balances c \<and> rp_treasury rp = ch_treasury c \<and>
     rp_limits rp = ch_governance_limits c \<and> rp_finality rp = ch_finality_config c \<and> rp_proposals rp = ch_proposals c"

lemma governance_cold:
  assumes "cold rp c"
  shows "cold (replay_governance E X txs h rp) (replay_governance_transitions E X c txs h)"
proof -
  let ?rp = "\<lparr>gc_proposals = rp_proposals rp, gc_state = ws_governance_state (state (rp_state rp)), gc_limits = rp_limits rp,
       gc_finality = rp_finality rp, gc_validators = [], gc_params = consensus_params (rp_state rp), gc_mutated = False\<rparr>"
  let ?r = "replay_governance_from_transitions (nx_proposal_hash X) (ex_hexdec E) (readable_ceilings E (ch_state c)) txs h"
  have "same_settings (?r ?rp) (?r (governance_context_of c))"
    using assms by (intro replay_settings_cong) (simp add: same_settings_def cold_def governance_context_of_def)
  moreover from this have "governed_world X (?r ?rp) w = governed_world X (?r (governance_context_of c)) w" for w
    by (simp add: same_settings_def governed_world_def)
  ultimately show ?thesis
    using assms by (simp add: replay_governance_def replay_governance_transitions_def cold_def same_settings_def Let_def)
qed

lemma import_success:
  assumes "import_block E X c b = Some (Inr (), c')" "durable (trie (ch_state c)) = None" "length (ch_blocks c) \<le> U64_MAX"
  obtains parent clone w bal tr where "latest_block c = Some parent" "bh_chain_id (header b) = ch_chain_id c"
    "verify_producer_signature E X b = Inr ()"
    "validate_cpog E b (ch_state c) (bh_block_id (header parent)) = Some (CpogValid, clone)"
    "import_state E X c b = (Inr (), w, bal, tr)" "same_replica (adopt E X c b w bal tr) c'"
proof -
  obtain c1 where v: "validate_candidate_block E X c b = Some (Inr (), c1)"
    using assms(1) by (auto simp: import_block_def split: option.splits sum.splits prod.splits)
  then have v0: "validate_candidate_block_for_round E X c b None = Some (Inr (), c1)" by (simp add: validate_candidate_block_def)
  have c1: "c1 = c" using validate_candidate_frame [OF v0] assms(2) by auto
  obtain r w bal tr where s: "import_state E X c b = (r, w, bal, tr)" by (metis prod_cases4)
  then have r: "r = Inr ()" using assms(1) v c1 by (cases r) (auto simp: import_block_def)
  obtain d where "import_block E X c b = Some (Inr (), d)" "same_replica (adopt E X c b w bal tr) d"
    using import_adopts [OF v [unfolded c1] s [unfolded r] assms(3)] by blast
  then have "same_replica (adopt E X c b w bal tr) c'" using assms(1) by simp
  then show thesis using that [OF _ _ _ _ s [unfolded r]] v0 by (auto elim: validated_candidate)
qed

text \<open>What replay relies on of the live chain.\<close>

definition live_ok :: "nat \<Rightarrow> hash \<Rightarrow> chain \<Rightarrow> bool" where
  "live_ok ver cid c \<longleftrightarrow> durable (trie (ch_state c)) = None \<and> ch_block_version c = ver \<and> ch_chain_id c = cid \<and>
     base_fee (ch_economics c) = base_fee economic_state_default \<and> econ_alpha (ch_economics c) = econ_alpha economic_state_default"

lemma governed_world_durable: "durable (trie w) = None \<Longrightarrow> durable (trie (governed_world X g w)) = None"
  using block_frame_apply_delta [of "w\<lparr>state := (state w)\<lparr>ws_governance_state := gc_state g\<rparr>, consensus_params := gc_params g\<rparr>"]
  by (simp add: governed_world_def commit_consensus_params_def block_frame_def Let_def)

lemma replay_block_cold:
  assumes "verify_producer_signature E X b = Inr ()" "bh_chain_id (header b) = cid" "bh_version (header b) = ver"
    and "validate_cpog E b (ch_state c) parent = Some (CpogValid, clone)" "import_state E X c b = (Inr (), w, bal, tr)"
    and "cold rp c" "live_ok ver cid c" "ver < PATCH_05_BLOCK_VERSION"
  shows "replay_block E X ver cid parent rp b =
    Some (Inr (replay_governance E X (transitions (body b)) (bh_height (header b)) (rp\<lparr>rp_state := w, rp_balances := bal, rp_treasury := tr\<rparr>)))"
proof -
  let ?txs = "transitions (body b)" and ?h = "bh_height (header b)" and ?f = "ws_tension_field (state (ch_state c))"
  have price: "spot_gas_price c = effective_fee economic_state_default (total ?f) (current_budget (budget ?f))"
    using assms(7) unfolding spot_gas_price_def Let_def by (intro effective_fee_cong) (simp_all add: live_ok_def)
  obtain n w1 where n: "validate_nonces (ch_state c) ?txs = (n, w1)" by fastforce
  obtain r w2 b2 t2 where e: "apply_block_economics (ex_blake3 E) (ex_seal_bytes E) (ex_hex E) w1 (ch_balances c) (ch_treasury c) ?txs
      (receipts b) (ch_block_version c) (bh_validator_id (header b)) (spot_gas_price c) default_block_reward = (r, w2, b2, t2)"
    by (metis prod_cases4)
  obtain ds w3 b3 where d: "apply_block_transitions (ex_hex E) w2 b2 ?txs = (ds, w3, b3)" by (metis prod_cases3)
  let ?t3 = "if ?h mod 100 = 0 then snd (advance_epoch t2) else t2"
  have u: "n = Inr ()" "\<exists>out. r = Inr out"
    using assms(5) n e by (auto simp: import_state_def Let_def split: sum.splits)
  then obtain out where out: "r = Inr out" by blast
  have st: "w = set_height (if ?h mod 100 = 0 then commit_treasury_state w3 ?t3 else w3) ?h" "bal = b3" "tr = ?t3"
    using assms(3,5,8) n e u(1) out d by (auto simp: import_state_def Let_def)
  have rp: "rp_state rp = ch_state c" "rp_balances rp = ch_balances c" "rp_treasury rp = ch_treasury c" "ch_block_version c = ver"
    using assms(6,7) by (simp_all add: cold_def live_ok_def)
  show ?thesis
    using n e d out u(1) by (simp add: replay_block_def rp assms(1-4) price st Let_def)
qed

lemma cold_step:
  assumes "import_block E X c b = Some (Inr (), c')" "cold rp c" "live_ok ver cid c" "ver < PATCH_05_BLOCK_VERSION"
    and "bh_version (header b) = ver" "length (ch_blocks c) \<le> U64_MAX"
  shows "\<exists>rp'. replay_block E X ver cid (bh_block_id (header (last (ch_blocks c)))) rp b = Some (Inr rp') \<and> cold rp' c' \<and>
    live_ok ver cid c' \<and> ch_blocks c' = ch_blocks c @ [b]"
proof -
  have "durable (trie (ch_state c)) = None" using assms(3) by (simp add: live_ok_def)
  from import_success [OF assms(1) this assms(6)] obtain parent clone w bal tr where
    i: "latest_block c = Some parent" "bh_chain_id (header b) = ch_chain_id c" "verify_producer_signature E X b = Inr ()"
    "validate_cpog E b (ch_state c) (bh_block_id (header parent)) = Some (CpogValid, clone)"
    "import_state E X c b = (Inr (), w, bal, tr)" "same_replica (adopt E X c b w bal tr) c'" by blast
  let ?rp = "rp\<lparr>rp_state := w, rp_balances := bal, rp_treasury := tr\<rparr>" and ?c = "c\<lparr>ch_state := w, ch_balances := bal, ch_treasury := tr\<rparr>"
  let ?txs = "transitions (body b)" and ?h = "bh_height (header b)"
  have "bh_chain_id (header b) = cid" using i(2) assms(3) by (simp add: live_ok_def)
  note r = replay_block_cold [OF i(3) this assms(5) i(4,5) assms(2,3,4)]
  have "cold ?rp ?c" using assms(2) by (simp add: cold_def)
  then have "cold (replay_governance E X ?txs ?h ?rp) (adopt E X c b w bal tr)"
    using governance_cold [of ?rp ?c E X ?txs ?h] by (simp add: cold_def adopt_def)
  then have "cold (replay_governance E X ?txs ?h ?rp) c'" using i(6) by (simp add: cold_def same_replica_def)
  moreover have "durable (trie w) = None" using import_state_frame [OF i(5)] assms(3) by (simp add: live_ok_def block_frame_def)
  then have "live_ok ver cid (adopt E X c b w bal tr)"
    using assms(3) by (simp add: live_ok_def adopt_def replay_governance_transitions_def governed_world_durable Let_def)
  then have "live_ok ver cid c'" using i(6) by (simp add: live_ok_def same_replica_def)
  moreover have "ch_blocks c' = ch_blocks c @ [b]" using i(6) by (simp add: same_replica_def adopt_def)
  moreover have "parent = last (ch_blocks c)" using i(1) by (simp add: latest_block_def split: if_splits)
  ultimately show ?thesis using r by auto
qed

text \<open>A live node that imports one block after the other.\<close>

fun import_all :: "ext \<Rightarrow> node_ext \<Rightarrow> chain \<Rightarrow> block list \<Rightarrow> chain option" where
  "import_all E X c [] = Some c"
| "import_all E X c (b # bs) =
     (case import_block E X c b of Some (Inr _, c') \<Rightarrow> import_all E X c' bs | _ \<Rightarrow> None)"

lemma cold_run:
  assumes "import_all E X c bs = Some c'" "cold rp c" "live_ok ver cid c" "ver < PATCH_05_BLOCK_VERSION"
    and "\<forall>b \<in> set bs. bh_version (header b) = ver" "length (ch_blocks c) + length bs \<le> U64_MAX"
  shows "\<exists>rp'. replay_blocks E X ver cid (bh_block_id (header (last (ch_blocks c)))) rp bs = Some (Inr rp') \<and> cold rp' c' \<and>
    live_ok ver cid c' \<and> ch_blocks c' = ch_blocks c @ bs"
  using assms
proof (induction bs arbitrary: c rp)
  case (Cons b bs)
  obtain c1 where c1: "import_block E X c b = Some (Inr (), c1)" "import_all E X c1 bs = Some c'"
    using Cons.prems(1) by (auto split: option.splits prod.splits sum.splits)
  obtain rp1 where s: "replay_block E X ver cid (bh_block_id (header (last (ch_blocks c)))) rp b = Some (Inr rp1)" "cold rp1 c1"
    "live_ok ver cid c1" "ch_blocks c1 = ch_blocks c @ [b]"
    using cold_step [OF c1(1) Cons.prems(2-4)] Cons.prems(5,6) by auto
  then show ?case using Cons.IH [OF c1(2) s(2,3) Cons.prems(4)] Cons.prems(5,6) by auto
qed simp

section \<open>The genesis block\<close>

lemma genesis_valid:
  assumes "ver < PATCH_04_BLOCK_VERSION" "is_supported_block_version ver" "v \<noteq> 0" "0 \<le> max_tension_swing params"
  shows "\<exists>clone. validate_cpog E (build_genesis_block E X cid v ver key sr br ps)
    ((with_consensus_params params)\<lparr>state := (state (with_consensus_params params))\<lparr>ws_governance_state := g\<rparr>\<rparr>) ZERO_HASH = Some (CpogValid, clone)"
proof -
  let ?b = "build_genesis_block E X cid v ver key sr br ps"
  let ?w = "(with_consensus_params params)\<lparr>state := (state (with_consensus_params params))\<lparr>ws_governance_state := g\<rparr>\<rparr>"
  have "cpog_header_errors E ?b ?w ZERO_HASH = []"
    by (simp add: cpog_header_errors_def build_genesis_block_def with_consensus_params_def world_state_default_def
        tension_field_default_def tension_budget_default_def merkle_root_of_bytes_def compute_merkle_root_def
        tension_ops i128_ops machine_int from_integer_def SCALE_def Let_def)
  moreover have "phase_passes E ?b ?w q" for q
  proof (cases "is_per_tx_phase q")
    case True
    then show ?thesis by (simp add: phase_passes_per_tx build_genesis_block_def Let_def)
  next
    case False
    have sw: "0 \<le> from_integer (max_tension_swing params)"
      using assms(4) by (simp add: from_integer_def SCALE_def i128_ops machine_int)
    from False have "q \<in> {Topology, Body, Architecture, Performance, Feedback, Evolution}" by (cases q) (simp_all add: is_per_tx_phase_def)
    then show ?thesis using assms sw
      by (auto simp: build_genesis_block_def with_consensus_params_def sample_phase_simps is_ok_def)
  qed
  then obtain l where "phi_traversal_block E ?b ?w = Some l" "is_all_passed l"
    using phi_traversal_result [of E ?b ?w] by auto
  moreover have "validator_set_changes (body ?b) = None" "bh_height (header ?b) = 0" by (simp_all add: build_genesis_block_def Let_def)
  ultimately show ?thesis by (simp add: validate_cpog_def check_validator_set_capture_def)
qed

lemma readable_swing: "consensus_params_from_canonical_bytes D bytes = Inr p \<Longrightarrow> 0 \<le> max_tension_swing p"
  by (auto simp: consensus_params_from_canonical_bytes_def bind_result_Inr consensus_params_validate_def split: option.splits if_splits)

lemma genesis_signed:
  assumes "key_signs E X key"
  shows "verify_producer_signature E X (build_genesis_block E X cid (nx_public X key) ver key sr br ps) = Inr ()"
  using assms by (simp add: verify_producer_signature_def build_genesis_block_def Let_def key_signs_def block_signing_payload_def)

lemma genesis_fields:
  fixes E X cid v ver key sr br ps
  defines "b \<equiv> build_genesis_block E X cid v ver key sr br ps"
  shows "bh_height (header b) = 0" "bh_version (header b) = ver" "bh_validator_id (header b) = v" "bh_chain_id (header b) = cid"
    "bh_state_root (header b) = sr" "bh_balance_root (header b) = br" "genesis_consensus_params (body b) = ps"
    "gs_governance_limits (governance b) = governance_limits_snapshot_default" "gs_finality_config (governance b) = finality_config_snapshot_default"
  by (simp_all add: b_def build_genesis_block_def Let_def)

lemma genesis_state_durable:
  assumes "initialize_genesis_state E X ver v params fmode = (w, b)"
  shows "durable (trie w) = None"
proof -
  let ?w = "(with_consensus_params params)\<lparr>state := (state (with_consensus_params params))\<lparr>ws_governance_state := governance_state_default\<lparr>gov_finality_mode := fmode\<rparr>\<rparr>\<rparr>"
  have "block_frame ?w (commit_consensus_params (nx_params_bytes X) ?w)" by (simp add: commit_consensus_params_def block_frame_apply_delta)
  from block_frame_trans [OF this block_frame_apply_delta] have "block_frame ?w w"
    using assms block_frame_trans [OF _ block_frame_set_height]
    by (auto simp: initialize_genesis_state_def apply_genesis_mint_def Let_def)
  then show ?thesis by (simp add: block_frame_def with_consensus_params_def trie_new_def)
qed

lemma genesis_cold:
  assumes "init_with_consensus_params_and_finality E X key ver params Deterministic = Some c" "ver < PATCH_04_BLOCK_VERSION"
    and "key_signs E X key" "consensus_params_from_canonical_bytes (nx_params_dec X) (nx_params_bytes X params) = Inr params"
  obtains genesis rp where "ch_blocks c = [genesis]" "replay_genesis E X genesis = Some (Inr rp)" "cold rp c"
    "live_ok ver (bh_chain_id (header genesis)) c" "bh_version (header genesis) = ver"
proof -
  let ?cid = "ex_blake3 E ''sccgub-genesis-chain''" and ?v = "nx_public X key"
  obtain w b where i: "initialize_genesis_state E X ver ?v params Deterministic = (w, b)" by fastforce
  let ?g = "build_genesis_block E X ?cid ?v ver key (state_root (ex_blake3 E) w) (balance_root (ex_blake3 E) b) (Some (nx_params_bytes X params))"
  let ?rp = "\<lparr>rp_state = set_height w 0, rp_balances = b, rp_treasury = treasury_new, rp_limits = governance_limits_default,
      rp_finality = finality_config_default, rp_proposals = proposal_registry_default\<rparr>"
  have sup: "is_supported_block_version ver" and
    c: "c = chain_around [?g] ver (set_height w 0) ?cid key b treasury_new (set_stake (slashing_engine_new slashing_config_default) ?v (from_integer 100000))"
    using assms(1) i by (auto simp: init_with_consensus_params_and_finality_def Let_def split: if_splits)
  have "?v \<noteq> 0" using assms(3) by (simp add: key_signs_def)
  from genesis_valid [OF assms(2) sup this readable_swing [OF assms(4)]] obtain clone where
    "validate_cpog E ?g ((with_consensus_params params)\<lparr>state := (state (with_consensus_params params))
       \<lparr>ws_governance_state := governance_state_default\<lparr>gov_finality_mode := Deterministic\<rparr>\<rparr>\<rparr>) ZERO_HASH = Some (CpogValid, clone)" by blast
  then have "replay_genesis E X ?g = Some (Inr ?rp)"
    using i genesis_signed [OF assms(3)] assms(4)
    by (simp add: replay_genesis_def load_genesis_consensus_params_def genesis_fields Let_def bind_result_def)
  moreover have "cold ?rp c" by (simp add: c cold_def chain_around_def)
  moreover have "live_ok ver ?cid c"
    using genesis_state_durable [OF i] by (simp add: c live_ok_def chain_around_def set_height_def)
  ultimately show thesis using that [of ?g ?rp] by (simp add: c chain_around_def genesis_fields)
qed

lemma rebuilt_finality_returns:
  assumes "length bs \<le> U64_MAX"
  shows "\<exists>fin. rebuilt_finality bs w config = Some fin"
proof -
  let ?t = "on_new_block finality_tracker_default (bh_height (header (last bs)))"
  obtain certs t' where "finality_loop (fc_confirmation_depth config) (block_hash_at bs) ?t [] = Some (certs, t')"
    using finality_loop_returns [OF assms, of "fc_confirmation_depth config" ?t "[]"] by auto
  then show ?thesis by (simp add: rebuilt_finality_def check_finality_def Let_def)
qed

lemma genesis_unsupported:
  assumes "PATCH_04_BLOCK_VERSION \<le> ver"
  shows "\<exists>errs clone. validate_cpog E (build_genesis_block E X cid v ver key sr br ps)
    ((with_consensus_params params)\<lparr>state := (state (with_consensus_params params))\<lparr>ws_governance_state := g\<rparr>\<rparr>) ZERO_HASH = Some (CpogInvalid errs, clone)"
proof -
  let ?b = "build_genesis_block E X cid v ver key sr br ps"
  let ?w = "(with_consensus_params params)\<lparr>state := (state (with_consensus_params params))\<lparr>ws_governance_state := g\<rparr>\<rparr>"
  have "constitutional_ceilings_from_trie D ?w = Inr None" for D
    by (simp add: constitutional_ceilings_from_trie_def world_get_def trie_get_def with_consensus_params_def trie_new_def)
  then have arch: "\<not> phase_passes E ?b ?w Architecture"
    using assms by (simp add: phase_passes_block phase_architecture_def validate_ceilings_for_block_def ceiling_is_pass_def genesis_fields Let_def)
  obtain r clone where r: "validate_cpog E ?b ?w ZERO_HASH = Some (r, clone)"
    using phi_traversal_result [of E ?b ?w] by (auto simp: validate_cpog_def genesis_fields Let_def)
  show ?thesis
  proof (cases r)
    case CpogValid
    from validate_cpog_valid [OF r [unfolded CpogValid]] obtain l where "phi_traversal_block E ?b ?w = Some l" "is_all_passed l" by metis
    then have "phase_passes E ?b ?w Architecture" using phi_traversal_result [of E ?b ?w] by auto
    with arch show ?thesis by blast
  qed (use r in simp)
qed

section \<open>Rebuilding maps from their entries\<close>

lemma fold_trie_insert:
  "store (fold (\<lambda>(k, v) t. trie_insert t k v) es t) = fold (\<lambda>(k, v). bt_insert k v) es (store t)"
  "trie_ok B t \<Longrightarrow> trie_ok B (fold (\<lambda>(k, v) t. trie_insert t k v) es t)"
  by (induction es arbitrary: t) auto

lemma rebuild_sorted: "bt_sorted m \<Longrightarrow> fold (\<lambda>(k, v). bt_insert k v) m [] = m"
  by (rule bt_sorted_ext) (simp_all add: fold_bt_insert_sorted fold_bt_insert_map map_of_rev_distinct bt_sorted_distinct)

lemma rebuild_map: "map_of (fold (\<lambda>(k, v) m. AList.update k v m) es m) = map_of m ++ map_of (rev es)"
  by (induction es arbitrary: m) (auto simp: update_conv' map_add_def split: option.splits)

lemma rebuild_balances: "balances (fold (\<lambda>(a, x) b. import_balance b a x) es b) = fold (\<lambda>(k, v) m. AList.update k v m) es (balances b)"
  by (induction es arbitrary: b) (auto simp: import_balance_def)

lemma rebuild_stakes: "stakes (fold (\<lambda>(v, x) e. set_stake e v x) es e) = fold (\<lambda>(k, v) m. AList.update k v m) es (stakes e)"
  by (induction es arbitrary: e) (auto simp: set_stake_def)

lemma restored_trie:
  assumes "trie_ok B t"
  obtains t' where "trie_root B (fold (\<lambda>(k, v) t. trie_insert t k v) (trie_iter t) trie_new) = (root_readonly B t, t')"
    "store t' = store t" "root_readonly B t' = root_readonly B t" "durable t' = None"
proof -
  let ?f = "fold (\<lambda>(k, v) t. trie_insert t k v) (trie_iter t) trie_new"
  have st: "store ?f = store t"
    using assms by (simp add: fold_trie_insert trie_iter_def trie_new_def rebuild_sorted trie_ok_def)
  have ok: "trie_ok B ?f" by (simp add: fold_trie_insert(2))
  have root: "fst (trie_root B ?f) = root_readonly B t"
    using ok assms st by (simp add: fst_trie_root root_readonly_ok compute_root_def)
  have st': "store (snd (trie_root B ?f)) = store t" using st by (auto simp: trie_root_def Let_def split: option.splits)
  moreover have "root_readonly B (snd (trie_root B ?f)) = root_readonly B t"
    using trie_ok_root [OF ok] assms st' by (simp add: root_readonly_ok compute_root_def)
  moreover have "durable (fold (\<lambda>(k, v) t. trie_insert t k v) es u) = durable u" if "durable u = None" for es u
    using that by (induction es arbitrary: u) (auto simp: trie_insert_def write_through_def)
  then have "durable (snd (trie_root B ?f)) = None" by (auto simp: trie_root_def trie_new_def Let_def split: option.splits)
  ultimately show thesis using that [of "snd (trie_root B ?f)"] root by (metis prod.collapse)
qed

section \<open>Properties\<close>

text \<open>
  C5. Cold replay agrees with the live node. A node that starts from its genesis block and imports blocks one by one
  can be rebuilt from its block list: the replay accepts every block and ends in the same world state, ledger,
  treasury and proposals. The hypotheses: blocks of one version before 3, finality mode deterministic, an encoding of the consensus
  parameters that can be read back, and a key whose signatures verify.
\<close>

theorem cold_replay_matches_live:
  assumes "init_with_consensus_params_and_finality E X key ver params Deterministic = Some c0" "import_all E X c0 bs = Some c"
    and "ver < PATCH_04_BLOCK_VERSION" "\<forall>b \<in> set bs. bh_version (header b) = ver" "length bs < U64_MAX"
    and "key_signs E X key" "consensus_params_from_canonical_bytes (nx_params_dec X) (nx_params_bytes X params) = Inr params"
  shows "\<exists>c'. from_blocks E X key' (ch_blocks c) = Some (Inr c') \<and> ch_blocks c' = ch_blocks c \<and> ch_state c' = ch_state c \<and>
    ch_balances c' = ch_balances c \<and> ch_treasury c' = ch_treasury c \<and> ch_proposals c' = ch_proposals c \<and>
    ch_chain_id c' = ch_chain_id c \<and> ch_block_version c' = ch_block_version c"
proof -
  obtain genesis rp0 where g: "ch_blocks c0 = [genesis]" "replay_genesis E X genesis = Some (Inr rp0)" "cold rp0 c0"
    "live_ok ver (bh_chain_id (header genesis)) c0" "bh_version (header genesis) = ver"
    using genesis_cold [OF assms(1,3,6,7)] by blast
  have "ver < PATCH_05_BLOCK_VERSION" using assms(3) by (simp add: PATCH_04_BLOCK_VERSION_def PATCH_05_BLOCK_VERSION_def)
  from cold_run [OF assms(2) g(3,4) this assms(4)] obtain rp where
    r: "replay_blocks E X ver (bh_chain_id (header genesis)) (bh_block_id (header genesis)) rp0 bs = Some (Inr rp)" "cold rp c"
    "live_ok ver (bh_chain_id (header genesis)) c" "ch_blocks c = genesis # bs"
    using g(1) assms(5) by auto
  let ?config = "finality_config_from_snapshot (gs_finality_config (governance (last (genesis # bs))))"
  obtain fin where "rebuilt_finality (genesis # bs) (rp_state rp) ?config = Some fin"
    using rebuilt_finality_returns [of "genesis # bs"] assms(5) by force
  then show ?thesis using g r by (simp add: from_blocks_def cold_def live_ok_def chain_around_def Let_def)
qed

definition replay_node :: node_ext where
  "replay_node = sample_node\<lparr>nx_params_dec := (nx_params_dec sample_node)\<lparr>dec_current := (\<lambda>_. Some consensus_params_default)\<rparr>\<rparr>"

lemma init_supported: "is_supported_block_version ver \<Longrightarrow> \<exists>c. init_with_consensus_params_and_finality E X key ver params fmode = Some c"
  by (cases "initialize_genesis_state E X ver (nx_public X key) params fmode") (simp add: init_with_consensus_params_and_finality_def Let_def)

lemma replay_node_reads:
  "consensus_params_from_canonical_bytes (nx_params_dec replay_node) bytes = Inr consensus_params_default"
  "key_signs signing_ext replay_node 5"
  by (simp_all add: replay_node_def consensus_params_from_canonical_bytes_def params_decode_def defaults_valid
      key_signs_def sample_node_def signing_ext_def)

theorem cold_replay_matches_live_witness:
  "\<exists>c c'. init_with_consensus_params_and_finality signing_ext replay_node 5 2 consensus_params_default Deterministic = Some c \<and>
     from_blocks signing_ext replay_node 6 (ch_blocks c) = Some (Inr c') \<and> ch_state c' = ch_state c"
proof -
  obtain c where c: "init_with_consensus_params_and_finality signing_ext replay_node 5 2 consensus_params_default Deterministic = Some c"
    using init_supported [of 2 signing_ext replay_node 5 consensus_params_default Deterministic] by (auto simp: supported_version_iff)
  have "import_all signing_ext replay_node c [] = Some c" "2 < PATCH_04_BLOCK_VERSION"
    "\<forall>b \<in> set []. bh_version (header b) = 2" "length [] < U64_MAX"
    by (simp_all add: PATCH_04_BLOCK_VERSION_def U64_MAX_def)
  from cold_replay_matches_live [OF c this replay_node_reads(2,1)] c show ?thesis by blast
qed

text \<open>
  A chain of block version 3 or later cannot be rebuilt from its own genesis block. Creating it never commits the
  constitutional ceilings, and the replay validates the genesis block against a state without them, in which the Architecture
  phase of such a version fails.
\<close>

theorem genesis_needs_ceilings:
  assumes "init_with_consensus_params_and_finality E X key ver params fmode = Some c" "PATCH_04_BLOCK_VERSION \<le> ver"
    and "key_signs E X key" "consensus_params_from_canonical_bytes (nx_params_dec X) (nx_params_bytes X params) = Inr params"
  shows "\<exists>errs. from_blocks E X key' (ch_blocks c) = Some (Inl (IeCpog 0 errs))"
proof -
  let ?cid = "ex_blake3 E ''sccgub-genesis-chain''" and ?v = "nx_public X key"
  obtain w b where i: "initialize_genesis_state E X ver ?v params fmode = (w, b)" by fastforce
  let ?g = "build_genesis_block E X ?cid ?v ver key (state_root (ex_blake3 E) w) (balance_root (ex_blake3 E) b) (Some (nx_params_bytes X params))"
  have "ch_blocks c = [?g]"
    using assms(1) i by (auto simp: init_with_consensus_params_and_finality_def chain_around_def Let_def split: if_splits)
  moreover obtain errs clone where "validate_cpog E ?g ((with_consensus_params params)\<lparr>state := (state (with_consensus_params params))
       \<lparr>ws_governance_state := governance_state_default\<lparr>gov_finality_mode := Deterministic\<rparr>\<rparr>\<rparr>) ZERO_HASH = Some (CpogInvalid errs, clone)"
    using genesis_unsupported [OF assms(2)] by blast
  then have "replay_genesis E X ?g = Some (Inl (IeCpog 0 errs))"
    using genesis_signed [OF assms(3)] assms(4)
    by (simp add: replay_genesis_def load_genesis_consensus_params_def genesis_fields Let_def)
  ultimately show ?thesis by (simp add: from_blocks_def)
qed

theorem genesis_needs_ceilings_witness:
  "\<exists>c errs. init_with_version signing_ext replay_node 5 3 = Some c \<and>
     from_blocks signing_ext replay_node 6 (ch_blocks c) = Some (Inl (IeCpog 0 errs))"
proof -
  obtain c where c: "init_with_consensus_params_and_finality signing_ext replay_node 5 3 consensus_params_default Deterministic = Some c"
    using init_supported [of 3 signing_ext replay_node 5 consensus_params_default Deterministic] by (auto simp: supported_version_iff)
  have "PATCH_04_BLOCK_VERSION \<le> 3" by (simp add: PATCH_04_BLOCK_VERSION_def)
  from genesis_needs_ceilings [OF c this replay_node_reads(2,1)] c show ?thesis
    by (auto simp: init_with_version_def init_with_consensus_params_def)
qed

text \<open>
  C30. A snapshot can be restored, into any chain: for every field that the snapshot has, the restored chain has
  the value of the chain the snapshot was taken of. These are the trie and its root, the nonces, the consensus parameters (in the trie), the
  height, the balances, the treasury, the finalized height, the slashing events, stakes, removed validators and absence
  counters, the records of evidence, the safety certificates, the validator set, the limits, the finality settings and mode
  and the proposals. Norms and the emergency mode are not in the snapshot: the restored governance state has
  no norm and is not in emergency mode, whatever the chain had.
\<close>

theorem state_snapshot_restores:
  assumes "trie_ok (ex_blake3 E) (trie (ch_state c))" "keys_distinct (agent_nonces (ch_state c))" "keys_distinct (balances (ch_balances c))"
    and "keys_distinct (stakes (ch_slashing c))" "keys_distinct (absence_counter (ch_slashing c))"
    and "treasury_from_trie (ch_state c) = Inr (ch_treasury c)"
    and "consensus_params_from_trie (nx_params_dec X) (ch_state c) = Inr (Some (consensus_params (ch_state c)))"
  shows "\<exists>c'. restore_from_snapshot E X d (create_snapshot E c) = (Inr (), c') \<and>
    store (trie (ch_state c')) = store (trie (ch_state c)) \<and>
    state_root (ex_blake3 E) (ch_state c') = state_root (ex_blake3 E) (ch_state c) \<and>
    map_of (agent_nonces (ch_state c')) = map_of (agent_nonces (ch_state c)) \<and>
    consensus_params (ch_state c') = consensus_params (ch_state c) \<and> height (state (ch_state c')) = height (state (ch_state c)) \<and>
    (\<forall>a. balance_of (ch_balances c') a = balance_of (ch_balances c) a) \<and> ch_treasury c' = ch_treasury c \<and>
    finalized_height (ch_finality c') = finalized_height (ch_finality c) \<and>
    sl_events (ch_slashing c') = sl_events (ch_slashing c) \<and> map_of (stakes (ch_slashing c')) = map_of (stakes (ch_slashing c)) \<and>
    sl_removed (ch_slashing c') = sl_removed (ch_slashing c) \<and>
    map_of (absence_counter (ch_slashing c')) = map_of (absence_counter (ch_slashing c)) \<and>
    ch_equivocation_records c' = ch_equivocation_records c \<and> ch_safety_certificates c' = ch_safety_certificates c \<and>
    ch_validator_set c' = ch_validator_set c \<and> ch_governance_limits c' = ch_governance_limits c \<and>
    ch_finality_config c' = ch_finality_config c \<and> proposals (ch_proposals c') = proposals (ch_proposals c) \<and>
    gov_finality_mode (ws_governance_state (state (ch_state c'))) = gov_finality_mode (ws_governance_state (state (ch_state c))) \<and>
    active_norms (ws_governance_state (state (ch_state c'))) = [] \<and> \<not> emergency_mode (ws_governance_state (state (ch_state c')))"
proof -
  let ?s = "create_snapshot E c" and ?B = "ex_blake3 E"
  obtain t where t: "trie_root ?B (fold (\<lambda>(k, v) t. trie_insert t k v) (trie_iter (trie (ch_state c))) trie_new) =
      (root_readonly ?B (trie (ch_state c)), t)" "store t = store (trie (ch_state c))"
    "root_readonly ?B t = root_readonly ?B (trie (ch_state c))" "durable t = None"
    by (rule restored_trie [OF assms(1)])
  let ?w = "world_new\<lparr>state := (state world_new)\<lparr>ws_governance_state :=
      governance_state_default\<lparr>gov_finality_mode := ss_finality_mode ?s\<rparr>\<rparr>, trie := t\<rparr>"
  have params: "consensus_params_from_trie (nx_params_dec X) w = Inr (Some (consensus_params (ch_state c)))"
    "treasury_from_trie w = Inr (ch_treasury c)" if "store (trie w) = store (trie (ch_state c))" for w
    using that assms(6,7) by (simp_all add: consensus_params_from_trie_def world_get_def trie_get_def treasury_from_trie_def trie_iter_def)
  have led: "balance_of (snapshot_ledger ?s) a = balance_of (ch_balances c) a" for a
    using assms(3) by (simp add: snapshot_ledger_def balance_of_def rebuild_balances rebuild_map map_of_rev_distinct create_snapshot_def ledger_new_def)
  have "trie world_new = trie_new" "agent_nonces world_new = []" by (simp_all add: world_new_def)
  then show ?thesis
    using t assms(2,4,5) params led
    by (simp add: restore_from_snapshot_def create_snapshot_def state_root_def set_height_def rebuild_stakes rebuild_map map_of_rev_distinct
        slashing_engine_new_def governance_state_default_def on_new_block_def Let_def)
qed

definition emergency_chain :: chain where
  "emergency_chain = sample_chain\<lparr>ch_state :=
     commit_consensus_params (\<lambda>_. []) (world_new\<lparr>state := (state world_new)\<lparr>ws_governance_state := governance_state_default\<lparr>emergency_mode := True\<rparr>\<rparr>\<rparr>),
     ch_slashing := (slashing_engine_new slashing_config_default)\<lparr>stakes := [(7, 50)], sl_removed := [7], absence_counter := [(7, 3), (8, 1)]\<rparr>\<rparr>"

theorem state_snapshot_restores_witness:
  "emergency_mode (ws_governance_state (state (ch_state emergency_chain))) \<and>
   (\<exists>c'. restore_from_snapshot signing_ext replay_node sample_chain (create_snapshot signing_ext emergency_chain) = (Inr (), c') \<and>
     store (trie (ch_state c')) = store (trie (ch_state emergency_chain)) \<and> sl_removed (ch_slashing c') = [7] \<and>
     map_of (absence_counter (ch_slashing c')) 8 = Some 1 \<and>
     \<not> emergency_mode (ws_governance_state (state (ch_state c'))))"
proof -
  have e: "store (trie (ch_state emergency_chain)) = [(PARAMS_TRIE_KEY, [])]" "cached_root (trie (ch_state emergency_chain)) = None"
    "agent_nonces (ch_state emergency_chain) = []" "consensus_params (ch_state emergency_chain) = consensus_params_default"
    "emergency_mode (ws_governance_state (state (ch_state emergency_chain)))"
    by (simp_all add: emergency_chain_def commit_consensus_params_def apply_delta_def apply_writes.simps apply_write_def world_new_def
        trie_new_def PARAMS_TRIE_KEY_def consensus_params_default_def Let_def governance_state_default_def)
  then have "trie_ok (ex_blake3 signing_ext) (trie (ch_state emergency_chain))" by (simp add: trie_ok_def)
  moreover have sl: "ch_balances emergency_chain = ledger_new" "stakes (ch_slashing emergency_chain) = [(7, 50)]" "ch_treasury emergency_chain = treasury_new"
    "sl_removed (ch_slashing emergency_chain) = [7]" "absence_counter (ch_slashing emergency_chain) = [(7, 3), (8, 1)]"
    by (simp_all add: emergency_chain_def sample_chain_def slashing_engine_new_def)
  moreover have "treasury_from_trie (ch_state emergency_chain) = Inr treasury_new"
    by (simp add: treasury_from_trie_def trie_iter_def e PARAMS_TRIE_KEY_def load_treasury_entry_def NS_TREASURY_def starts_with_def)
  moreover have "consensus_params_from_trie (nx_params_dec replay_node) (ch_state emergency_chain) = Inr (Some (consensus_params (ch_state emergency_chain)))"
    by (simp add: consensus_params_from_trie_def world_get_def trie_get_def e replay_node_reads)
  ultimately show ?thesis
    using state_snapshot_restores [of signing_ext emergency_chain replay_node sample_chain] e by (auto simp: ledger_new_def)
qed

end
