(* ===== verification/Scc_Audit.thy ===== *)
theory Scc_Audit
  imports Scc_World
begin

text \<open>
  The live-upgrade proposals of \<open>types/upgrade.rs\<close> and the external audit tool (\<open>sccgub-audit\<close>): the
  list of ceiling fields (\<open>field.rs\<close>), the read-only view of a chain (\<open>chain_state.rs\<close>), the violations
  (\<open>violation.rs\<close>) and the verifier that compares the ceilings at every version transition
  with those of genesis (\<open>verifier.rs\<close>). The texts inside errors are arguments or left out.
\<close>

section \<open>Upgrade proposals\<close>

definition UPGRADE_PROPOSAL_DOMAIN_SEPARATOR :: bytes where
  "UPGRADE_PROPOSAL_DOMAIN_SEPARATOR = ''sccgub-upgrade-proposal-v5''"

definition DEFAULT_MIN_UPGRADE_LEAD_TIME :: nat where
  "DEFAULT_MIN_UPGRADE_LEAD_TIME = 14400"

record upgrade_proposal =
  up_proposal_id :: hash
  up_target_chain_version :: nat
  up_activation_height :: nat
  up_upgrade_spec_hash :: hash
  up_submitted_at :: nat
  up_quorum_signatures :: "(hash \<times> bytes) list"

type_synonym upgrade_encoding = "nat \<times> nat \<times> hash \<times> nat \<Rightarrow> bytes"

definition canonical_upgrade_bytes :: "upgrade_encoding \<Rightarrow> nat \<Rightarrow> nat \<Rightarrow> hash \<Rightarrow> nat \<Rightarrow> bytes" where
  "canonical_upgrade_bytes enc v h spec s = enc (v, h, spec, s)"

definition compute_upgrade_proposal_id ::
  "(bytes \<Rightarrow> hash) \<Rightarrow> upgrade_encoding \<Rightarrow> nat \<Rightarrow> nat \<Rightarrow> hash \<Rightarrow> nat \<Rightarrow> hash" where
  "compute_upgrade_proposal_id blake3 enc v h spec s =
     blake3 (UPGRADE_PROPOSAL_DOMAIN_SEPARATOR @ canonical_upgrade_bytes enc v h spec s)"

definition upgrade_proposal_id_is_consistent ::
  "(bytes \<Rightarrow> hash) \<Rightarrow> upgrade_encoding \<Rightarrow> upgrade_proposal \<Rightarrow> bool" where
  "upgrade_proposal_id_is_consistent blake3 enc p \<longleftrightarrow>
     up_proposal_id p = compute_upgrade_proposal_id blake3 enc (up_target_chain_version p)
       (up_activation_height p) (up_upgrade_spec_hash p) (up_submitted_at p)"

definition upgrade_signing_bytes :: "upgrade_encoding \<Rightarrow> upgrade_proposal \<Rightarrow> bytes" where
  "upgrade_signing_bytes enc p =
     UPGRADE_PROPOSAL_DOMAIN_SEPARATOR @ canonical_upgrade_bytes enc (up_target_chain_version p)
       (up_activation_height p) (up_upgrade_spec_hash p) (up_submitted_at p)"

datatype upgrade_proposal_rejection =
    LeadTimeTooShort nat nat nat nat
  | NonAdjacentVersion nat nat
  | ProposalIdInconsistent

text \<open>The next version is a \<open>u32\<close> addition, which wraps in a release build.\<close>

definition validate_upgrade_proposal_structure ::
  "(bytes \<Rightarrow> hash) \<Rightarrow> upgrade_encoding \<Rightarrow> upgrade_proposal \<Rightarrow> nat \<Rightarrow> nat \<Rightarrow>
   upgrade_proposal_rejection + unit" where
  "validate_upgrade_proposal_structure blake3 enc p current lead =
     (if \<not> upgrade_proposal_id_is_consistent blake3 enc p then Inl ProposalIdInconsistent
      else if up_target_chain_version p \<noteq> (current + 1) mod 2 ^ 32
      then Inl (NonAdjacentVersion (up_target_chain_version p) current)
      else let required = u64_saturating_add (up_submitted_at p) lead in
        if up_activation_height p < required
        then Inl (LeadTimeTooShort (up_activation_height p) (up_submitted_at p) lead required)
        else Inr ())"

section \<open>Ceiling fields\<close>

datatype ceiling_field_id =
    MaxProofDepth | MaxTxGas | MaxBlockGas | MaxContractSteps | MaxAddressLength
  | MaxStateEntrySize | MaxTensionSwing | MaxBlockBytes | MaxActiveProposals
  | MaxViewChangeBaseTimeoutMs | MaxViewChangeMaxTimeoutMs | MaxValidatorSetSize
  | MaxValidatorSetChangesPerBlock | MaxFeeTensionAlpha | MaxMedianTensionWindow
  | MaxConfirmationDepth | MaxEquivocationEvidencePerBlock | MinEffectiveFeeFloor
  | MaxForgeryVetoesPerBlock

definition ALL_ceiling_fields :: "ceiling_field_id list" where
  "ALL_ceiling_fields =
     [MaxProofDepth, MaxTxGas, MaxBlockGas, MaxContractSteps, MaxAddressLength,
      MaxStateEntrySize, MaxTensionSwing, MaxBlockBytes, MaxActiveProposals,
      MaxViewChangeBaseTimeoutMs, MaxViewChangeMaxTimeoutMs, MaxValidatorSetSize,
      MaxValidatorSetChangesPerBlock, MaxFeeTensionAlpha, MaxMedianTensionWindow,
      MaxConfirmationDepth, MaxEquivocationEvidencePerBlock, MinEffectiveFeeFloor,
      MaxForgeryVetoesPerBlock]"

fun ceiling_field_as_str :: "ceiling_field_id \<Rightarrow> string" where
  "ceiling_field_as_str MaxProofDepth = ''max_proof_depth_ceiling''"
| "ceiling_field_as_str MaxTxGas = ''max_tx_gas_ceiling''"
| "ceiling_field_as_str MaxBlockGas = ''max_block_gas_ceiling''"
| "ceiling_field_as_str MaxContractSteps = ''max_contract_steps_ceiling''"
| "ceiling_field_as_str MaxAddressLength = ''max_address_length_ceiling''"
| "ceiling_field_as_str MaxStateEntrySize = ''max_state_entry_size_ceiling''"
| "ceiling_field_as_str MaxTensionSwing = ''max_tension_swing_ceiling''"
| "ceiling_field_as_str MaxBlockBytes = ''max_block_bytes_ceiling''"
| "ceiling_field_as_str MaxActiveProposals = ''max_active_proposals_ceiling''"
| "ceiling_field_as_str MaxViewChangeBaseTimeoutMs = ''max_view_change_base_timeout_ms''"
| "ceiling_field_as_str MaxViewChangeMaxTimeoutMs = ''max_view_change_max_timeout_ms''"
| "ceiling_field_as_str MaxValidatorSetSize = ''max_validator_set_size_ceiling''"
| "ceiling_field_as_str MaxValidatorSetChangesPerBlock = ''max_validator_set_changes_per_block''"
| "ceiling_field_as_str MaxFeeTensionAlpha = ''max_fee_tension_alpha_ceiling''"
| "ceiling_field_as_str MaxMedianTensionWindow = ''max_median_tension_window_ceiling''"
| "ceiling_field_as_str MaxConfirmationDepth = ''max_confirmation_depth_ceiling''"
| "ceiling_field_as_str MaxEquivocationEvidencePerBlock = ''max_equivocation_evidence_per_block''"
| "ceiling_field_as_str MinEffectiveFeeFloor = ''min_effective_fee_floor''"
| "ceiling_field_as_str MaxForgeryVetoesPerBlock = ''max_forgery_vetoes_per_block_ceiling''"

datatype ceiling_value = CvU32 nat | CvU64 nat | CvI64 int | CvI128 int

fun field_value :: "constitutional_ceilings \<Rightarrow> ceiling_field_id \<Rightarrow> ceiling_value" where
  "field_value c MaxProofDepth = CvU32 (max_proof_depth_ceiling c)"
| "field_value c MaxTxGas = CvU64 (max_tx_gas_ceiling c)"
| "field_value c MaxBlockGas = CvU64 (max_block_gas_ceiling c)"
| "field_value c MaxContractSteps = CvU64 (max_contract_steps_ceiling c)"
| "field_value c MaxAddressLength = CvU32 (max_address_length_ceiling c)"
| "field_value c MaxStateEntrySize = CvU32 (max_state_entry_size_ceiling c)"
| "field_value c MaxTensionSwing = CvI64 (max_tension_swing_ceiling c)"
| "field_value c MaxBlockBytes = CvU32 (max_block_bytes_ceiling c)"
| "field_value c MaxActiveProposals = CvU32 (max_active_proposals_ceiling c)"
| "field_value c MaxViewChangeBaseTimeoutMs = CvU32 (max_view_change_base_timeout_ms c)"
| "field_value c MaxViewChangeMaxTimeoutMs = CvU32 (max_view_change_max_timeout_ms c)"
| "field_value c MaxValidatorSetSize = CvU32 (max_validator_set_size_ceiling c)"
| "field_value c MaxValidatorSetChangesPerBlock = CvU32 (max_validator_set_changes_per_block c)"
| "field_value c MaxFeeTensionAlpha = CvI128 (max_fee_tension_alpha_ceiling c)"
| "field_value c MaxMedianTensionWindow = CvU32 (max_median_tension_window_ceiling c)"
| "field_value c MaxConfirmationDepth = CvU64 (max_confirmation_depth_ceiling c)"
| "field_value c MaxEquivocationEvidencePerBlock = CvU32 (max_equivocation_evidence_per_block c)"
| "field_value c MinEffectiveFeeFloor = CvI128 (min_effective_fee_floor c)"
| "field_value c MaxForgeryVetoesPerBlock = CvU32 (max_forgery_vetoes_per_block_ceiling c)"

section \<open>Views of a chain\<close>

datatype chain_state_error =
    GenesisCeilingsMissing string
  | GenesisCeilingsMalformed string
  | CeilingsMissingAtHeight nat
  | ChainStateIo string

text \<open>The trait \<open>ChainStateView\<close>: what an implementation answers to the four reads.\<close>

record chain_state_view =
  view_genesis_block_hash :: hash
  view_genesis_ceilings :: "chain_state_error + constitutional_ceilings"
  view_version_history :: "chain_state_error + chain_version_transition list"
  view_ceilings_at :: "nat \<Rightarrow> chain_state_error + constitutional_ceilings"

record json_chain_state_fixture =
  fx_genesis_block_hash :: hash
  fx_genesis_ceilings :: constitutional_ceilings
  fx_chain_version_history :: "chain_version_transition list"
  fx_ceilings_by_height :: "(nat \<times> constitutional_ceilings) list"

fun preserved_heights :: "constitutional_ceilings \<Rightarrow> chain_version_transition list \<Rightarrow> (nat \<times> constitutional_ceilings) list" where
  "preserved_heights c [] = []"
| "preserved_heights c (t # ts) =
     (if 0 < cvt_activation_height t then [(cvt_activation_height t - 1, c)] else []) @
     (cvt_activation_height t, c) # preserved_heights c ts"

definition genesis_preserved ::
  "hash \<Rightarrow> constitutional_ceilings \<Rightarrow> chain_version_transition list \<Rightarrow> json_chain_state_fixture" where
  "genesis_preserved h c ts =
     \<lparr>fx_genesis_block_hash = h, fx_genesis_ceilings = c, fx_chain_version_history = ts,
      fx_ceilings_by_height = preserved_heights c ts\<rparr>"

fun fixture_ceilings_at ::
  "(nat \<times> constitutional_ceilings) list \<Rightarrow> nat \<Rightarrow> chain_state_error + constitutional_ceilings" where
  "fixture_ceilings_at [] at = Inl (CeilingsMissingAtHeight at)"
| "fixture_ceilings_at ((h, c) # rest) at =
     (if h = at then Inr c else fixture_ceilings_at rest at)"

definition fixture_view :: "json_chain_state_fixture \<Rightarrow> chain_state_view" where
  "fixture_view f =
     \<lparr>view_genesis_block_hash = fx_genesis_block_hash f,
      view_genesis_ceilings = Inr (fx_genesis_ceilings f),
      view_version_history = Inr (fx_chain_version_history f),
      view_ceilings_at = fixture_ceilings_at (fx_ceilings_by_height f)\<rparr>"

section \<open>The verifier\<close>

text \<open>The text of \<open>HistoryStructurallyInvalid\<close> names one of two defects.\<close>

datatype history_defect = HistoryUnreadable chain_state_error | HistoryOutOfOrder nat nat

datatype audit_violation =
    FieldValueChanged nat ceiling_field_id ceiling_value ceiling_value
  | GenesisCeilingsUnreadable chain_state_error
  | CeilingsUnreadableAtTransition nat chain_state_error
  | HistoryStructurallyInvalid history_defect

fun check_history_order :: "chain_version_transition list \<Rightarrow> audit_violation + unit" where
  "check_history_order (a # b # rest) =
     (if cvt_activation_height a > cvt_activation_height b
      then Inl (HistoryStructurallyInvalid (HistoryOutOfOrder (cvt_activation_height b) (cvt_activation_height a)))
      else check_history_order (b # rest))"
| "check_history_order _ = Inr ()"

fun compare_fields ::
  "nat \<Rightarrow> constitutional_ceilings \<Rightarrow> constitutional_ceilings \<Rightarrow> ceiling_field_id list \<Rightarrow> audit_violation + unit" where
  "compare_fields h g c [] = Inr ()"
| "compare_fields h g c (f # fs) =
     (if field_value g f \<noteq> field_value c f
      then Inl (FieldValueChanged h f (field_value g f) (field_value c f))
      else compare_fields h g c fs)"

definition check_height ::
  "chain_state_view \<Rightarrow> constitutional_ceilings \<Rightarrow> nat \<Rightarrow> nat \<Rightarrow> audit_violation + unit" where
  "check_height v g h at =
     (case view_ceilings_at v at of
        Inl e \<Rightarrow> Inl (CeilingsUnreadableAtTransition h e)
      | Inr c \<Rightarrow> compare_fields h g c ALL_ceiling_fields)"

fun check_transitions ::
  "chain_state_view \<Rightarrow> constitutional_ceilings \<Rightarrow> chain_version_transition list \<Rightarrow> audit_violation + unit" where
  "check_transitions v g [] = Inr ()"
| "check_transitions v g (t # ts) =
     (let h = cvt_activation_height t in
      bind_result (if h > 0 then check_height v g h (h - 1) else Inr ()) (\<lambda>_.
      bind_result (check_height v g h h) (\<lambda>_. check_transitions v g ts)))"

definition verify_ceilings_unchanged_since_genesis :: "chain_state_view \<Rightarrow> audit_violation + unit" where
  "verify_ceilings_unchanged_since_genesis v =
     (case view_genesis_ceilings v of
        Inl e \<Rightarrow> Inl (GenesisCeilingsUnreadable e)
      | Inr genesis \<Rightarrow>
          (case view_version_history v of
             Inl e \<Rightarrow> Inl (HistoryStructurallyInvalid (HistoryUnreadable e))
           | Inr ts \<Rightarrow>
               bind_result (check_history_order ts) (\<lambda>_.
               if ts = [] then Inr () else check_transitions v genesis ts)))"


section \<open>What a verdict means\<close>

lemma all_fields: "f \<in> set ALL_ceiling_fields"
  by (cases f) (simp_all add: ALL_ceiling_fields_def)

text \<open>The listed fields determine the ceilings: no field can drift unseen.\<close>

lemma fields_determine_ceilings:
  fixes g c :: constitutional_ceilings
  assumes same: "\<And>f. field_value g f = field_value c f"
  shows "g = c"
  using same [of MaxProofDepth] same [of MaxTxGas] same [of MaxBlockGas] same [of MaxContractSteps]
    same [of MaxAddressLength] same [of MaxStateEntrySize] same [of MaxTensionSwing]
    same [of MaxBlockBytes] same [of MaxActiveProposals] same [of MaxViewChangeBaseTimeoutMs]
    same [of MaxViewChangeMaxTimeoutMs] same [of MaxValidatorSetSize]
    same [of MaxValidatorSetChangesPerBlock] same [of MaxFeeTensionAlpha]
    same [of MaxMedianTensionWindow] same [of MaxConfirmationDepth]
    same [of MaxEquivocationEvidencePerBlock] same [of MinEffectiveFeeFloor]
    same [of MaxForgeryVetoesPerBlock]
  by (cases g; cases c) simp

lemma compare_fields_ok:
  "compare_fields h g c fs = Inr () \<longleftrightarrow> (\<forall>f \<in> set fs. field_value g f = field_value c f)"
  by (induction fs) auto

lemma compare_all_ok: "compare_fields h g c ALL_ceiling_fields = Inr () \<longleftrightarrow> g = c"
  using all_fields fields_determine_ceilings by (auto simp: compare_fields_ok)

lemma compare_fields_error:
  assumes "compare_fields h g c fs = Inl e"
  obtains f where "e = FieldValueChanged h f (field_value g f) (field_value c f)"
    "field_value g f \<noteq> field_value c f"
  using assms by (induction fs) (auto split: if_splits)

lemma check_height_ok: "check_height v g h at = Inr () \<longleftrightarrow> view_ceilings_at v at = Inr g"
  by (auto simp: check_height_def compare_all_ok split: sum.splits)

lemma check_history_order_ok:
  "check_history_order ts = Inr () \<longleftrightarrow> sorted (map cvt_activation_height ts)"
proof (induction ts rule: check_history_order.induct)
  case (1 a b rest)
  then show ?case by (auto simp: sorted2)
qed simp_all

definition preserved_at :: "chain_state_view \<Rightarrow> constitutional_ceilings \<Rightarrow> nat \<Rightarrow> bool" where
  "preserved_at v g h \<longleftrightarrow> view_ceilings_at v (h - 1) = Inr g \<and> view_ceilings_at v h = Inr g"

lemma check_transitions_ok:
  "check_transitions v g ts = Inr () \<longleftrightarrow>
   list_all (preserved_at v g) (map cvt_activation_height ts)"
proof (induction ts)
  case (Cons t ts)
  then show ?case
    by (cases "cvt_activation_height t")
       (auto simp: Let_def bind_result_Inr check_height_ok preserved_at_def)
qed simp

lemma unit_result: "r = Inr () \<longleftrightarrow> is_ok (r :: 'e + unit)"
  by (cases r) simp_all

text \<open>
  C29. The audit accepts a chain exactly when its genesis ceilings and its version history can be read, the
  heights of the history never decrease, and at every transition the complete ceilings
  record (all nineteen fields) of the activation height and of the height before it is the one
  of genesis. A transition at height zero has no earlier height (\<open>0 - 1 = 0\<close> on naturals).
\<close>

theorem audit_verdict_exact:
  "verify_ceilings_unchanged_since_genesis v = Inr () \<longleftrightarrow>
   (\<exists>g ts. view_genesis_ceilings v = Inr g \<and> view_version_history v = Inr ts \<and>
      sorted (map cvt_activation_height ts) \<and> list_all (preserved_at v g) (map cvt_activation_height ts))"
proof (cases "view_genesis_ceilings v")
  case (Inr g)
  then show ?thesis
    by (cases "view_version_history v")
       (auto simp: verify_ceilings_unchanged_since_genesis_def bind_result_Inr
          check_history_order_ok check_transitions_ok split: if_splits)
qed (simp add: verify_ceilings_unchanged_since_genesis_def)

text \<open>A reported change is real: the value at the transition, or just before it, differs from genesis.\<close>

lemma check_height_change:
  assumes "check_height v g h at = Inl (FieldValueChanged k f b a)"
  shows "k = h \<and> (\<exists>c. view_ceilings_at v at = Inr c \<and> field_value g f = b \<and> field_value c f = a \<and> b \<noteq> a)"
  using assms by (auto simp: check_height_def split: sum.splits elim!: compare_fields_error)

lemma check_transitions_change:
  assumes "check_transitions v g ts = Inl (FieldValueChanged h f b a)"
  shows "h \<in> set (map cvt_activation_height ts) \<and>
    (\<exists>at c. (at = h \<or> at + 1 = h) \<and> view_ceilings_at v at = Inr c \<and>
       field_value g f = b \<and> field_value c f = a \<and> b \<noteq> a)"
  using assms
proof (induction ts)
  case (Cons t ts)
  let ?h = "cvt_activation_height t"
  consider (pre) "0 < ?h" "check_height v g ?h (?h - 1) = Inl (FieldValueChanged h f b a)"
    | (post) "check_height v g ?h ?h = Inl (FieldValueChanged h f b a)"
    | (later) "check_transitions v g ts = Inl (FieldValueChanged h f b a)"
    using Cons.prems by (auto simp: Let_def bind_result_def split: sum.splits if_splits)
  then show ?case
  proof cases
    case pre
    then show ?thesis using check_height_change [OF pre(2)] by (auto intro: exI [of _ "?h - 1"])
  next
    case post
    then show ?thesis using check_height_change [OF post] by auto
  next
    case later
    then show ?thesis using Cons.IH by auto
  qed
qed simp

lemma history_order_defect:
  "check_history_order ts = Inl e \<Longrightarrow> \<exists>x y. e = HistoryStructurallyInvalid (HistoryOutOfOrder x y)"
  by (induction ts rule: check_history_order.induct) (auto split: if_splits)

lemma audit_report_grounded:
  assumes "verify_ceilings_unchanged_since_genesis v = Inl (FieldValueChanged h f b a)"
  shows "\<exists>g ts at c. view_genesis_ceilings v = Inr g \<and> view_version_history v = Inr ts \<and>
    h \<in> set (map cvt_activation_height ts) \<and> (at = h \<or> at + 1 = h) \<and>
    view_ceilings_at v at = Inr c \<and> field_value g f = b \<and> field_value c f = a \<and> b \<noteq> a"
proof -
  from assms obtain g ts where r: "view_genesis_ceilings v = Inr g" "view_version_history v = Inr ts"
    and "check_transitions v g ts = Inl (FieldValueChanged h f b a)"
    by (auto simp: verify_ceilings_unchanged_since_genesis_def bind_result_def
        dest!: history_order_defect split: sum.splits if_splits)
  from check_transitions_change [OF this(3)] r show ?thesis by blast
qed

text \<open>The fixture of an undisturbed chain passes exactly when its history is in order.\<close>

lemma fixture_lookup:
  "fixture_ceilings_at m h = (case map_of m h of Some c \<Rightarrow> Inr c | None \<Rightarrow> Inl (CeilingsMissingAtHeight h))"
  by (induction m h rule: fixture_ceilings_at.induct) auto

lemma preserved_heights_ceilings: "c' \<in> snd ` set (preserved_heights c ts) \<Longrightarrow> c' = c"
  by (induction ts) (auto split: if_splits)

lemma preserved_heights_cover:
  assumes "t \<in> set ts"
  shows "cvt_activation_height t \<in> fst ` set (preserved_heights c ts)"
    "cvt_activation_height t - 1 \<in> fst ` set (preserved_heights c ts)"
  using assms by (induction ts) force+

lemma fixture_preserved:
  assumes "h \<in> fst ` set (preserved_heights c ts)"
  shows "fixture_ceilings_at (preserved_heights c ts) h = Inr c"
proof -
  obtain x where x: "map_of (preserved_heights c ts) h = Some x"
    using assms by (metis map_of_eq_None_iff option.exhaust)
  then have "x = c" using map_of_SomeD preserved_heights_ceilings by (metis image_eqI snd_conv)
  with x show ?thesis by (simp add: fixture_lookup)
qed

lemma genesis_preserved_verdict:
  "verify_ceilings_unchanged_since_genesis (fixture_view (genesis_preserved h c ts)) = Inr () \<longleftrightarrow>
   sorted (map cvt_activation_height ts)"
proof -
  have "list_all (preserved_at (fixture_view (genesis_preserved h c ts)) c) (map cvt_activation_height ts)"
    using fixture_preserved preserved_heights_cover
    by (simp add: list_all_iff preserved_at_def fixture_view_def genesis_preserved_def)
  then show ?thesis
    by (auto simp: verify_ceilings_unchanged_since_genesis_def fixture_view_def genesis_preserved_def
        bind_result_Inr check_history_order_ok check_transitions_ok split: if_splits)
qed

text \<open>
  The audit samples the transitions only: a chain without a version transition passes whatever its later
  ceilings are.
\<close>

lemma audit_without_transitions:
  assumes "view_genesis_ceilings v = Inr g" "view_version_history v = Inr []"
  shows "verify_ceilings_unchanged_since_genesis v = Inr ()"
  using assms by (simp add: verify_ceilings_unchanged_since_genesis_def)

section \<open>What an admitted upgrade satisfies\<close>

lemma upgrade_structure_ok:
  assumes "validate_upgrade_proposal_structure blake3 enc p current lead = Inr ()"
    and "current < U32_MAX" "up_submitted_at p + lead \<le> U64_MAX"
  shows "up_target_chain_version p = current + 1 \<and>
    up_submitted_at p + lead \<le> up_activation_height p \<and>
    up_proposal_id p = blake3 (upgrade_signing_bytes enc p)"
  using assms
  by (auto simp: validate_upgrade_proposal_structure_def Let_def u64_saturating_add_def machine_int
      upgrade_proposal_id_is_consistent_def compute_upgrade_proposal_id_def upgrade_signing_bytes_def
      split: if_splits)

text \<open>At the largest version the successor wraps, so an upgrade back to version zero has the expected number.\<close>

lemma upgrade_version_wraps:
  "(U32_MAX + 1) mod 2 ^ 32 = 0"
  by (simp add: machine_int)

end
