(* ===== verification/Scc_Delegation.thy ===== *)
theory Scc_Delegation
  imports Scc_Tension
begin

text \<open>
  Bounded authority for agents: capability leases, missions, autonomy budgets and safety modes
  (\<open>types/delegation.rs\<close>), and the tagged signatures, session keys and circuit breakers of
  \<open>types/future.rs\<close>. Each budget is an \<open>i128\<close> amount with a saturating sum; counters wrap.
\<close>

section \<open>Capability leases\<close>

datatype operation_type =
    OpStateWrite | OpAssetTransfer | OpContractInvoke | OpMissionSubmit | OpEvidenceCommit | OpEscrowCreate

record capability_scope =
  write_prefixes :: "bytes list"
  read_prefixes :: "bytes list"
  allowed_operations :: "operation_type list"
  zone_constraints :: "bytes list"

record capability_lease =
  lease_id :: hash
  delegator :: agent_id
  delegate :: agent_id
  lease_scope :: capability_scope
  valid_from :: nat
  valid_until :: nat
  lease_budget :: tension_value
  lease_spent :: tension_value
  max_actions :: nat
  actions_taken :: nat
  lease_revoked :: bool
  require_cosign :: bool

definition lease_is_valid :: "capability_lease \<Rightarrow> nat \<Rightarrow> bool" where
  "lease_is_valid l h \<longleftrightarrow>
     \<not> lease_revoked l \<and> h \<ge> valid_from l \<and> (valid_until l = 0 \<or> h \<le> valid_until l)"

definition has_budget :: "capability_lease \<Rightarrow> tension_value \<Rightarrow> bool" where
  "has_budget l x \<longleftrightarrow> i128_saturating_add (lease_spent l) x \<le> lease_budget l"

definition has_actions :: "capability_lease \<Rightarrow> bool" where
  "has_actions l \<longleftrightarrow> max_actions l = 0 \<or> actions_taken l < max_actions l"

definition allows_operation :: "capability_lease \<Rightarrow> operation_type \<Rightarrow> bool" where
  "allows_operation l op \<longleftrightarrow>
     allowed_operations (lease_scope l) = [] \<or> op \<in> set (allowed_operations (lease_scope l))"

definition allows_write :: "capability_lease \<Rightarrow> bytes \<Rightarrow> bool" where
  "allows_write l target \<longleftrightarrow>
     (if write_prefixes (lease_scope l) = [] then False
      else list_ex (starts_with target) (write_prefixes (lease_scope l)))"

datatype lease_error =
    LeaseInvalid
  | LeaseActionLimit
  | LeaseBudgetExceeded tension_value tension_value tension_value

definition lease_record_spend ::
  "capability_lease \<Rightarrow> nat \<Rightarrow> tension_value \<Rightarrow> lease_error + capability_lease" where
  "lease_record_spend l h x =
     (if \<not> lease_is_valid l h then Inl LeaseInvalid
      else if \<not> has_actions l then Inl LeaseActionLimit
      else if \<not> has_budget l x then Inl (LeaseBudgetExceeded (lease_spent l) x (lease_budget l))
      else Inr (l\<lparr>lease_spent := tension_add (lease_spent l) x,
                  actions_taken := u64_wrapping_add (actions_taken l) 1\<rparr>))"

section \<open>Missions\<close>

datatype mission_state =
    MsProposed | MsAccepted | MsExecuting | MsDegraded | MsPaused | MsRecovered | MsCompleted
  | MsFailed | MsDisputed | MsSettled | MsCancelled

fun can_transition_to :: "mission_state \<Rightarrow> mission_state \<Rightarrow> bool" where
  "can_transition_to MsProposed MsAccepted = True"
| "can_transition_to MsProposed MsCancelled = True"
| "can_transition_to MsAccepted MsExecuting = True"
| "can_transition_to MsAccepted MsCancelled = True"
| "can_transition_to MsExecuting MsDegraded = True"
| "can_transition_to MsExecuting MsPaused = True"
| "can_transition_to MsExecuting MsCompleted = True"
| "can_transition_to MsExecuting MsFailed = True"
| "can_transition_to MsDegraded MsPaused = True"
| "can_transition_to MsDegraded MsRecovered = True"
| "can_transition_to MsDegraded MsFailed = True"
| "can_transition_to MsPaused MsExecuting = True"
| "can_transition_to MsPaused MsCancelled = True"
| "can_transition_to MsRecovered MsExecuting = True"
| "can_transition_to MsCompleted MsDisputed = True"
| "can_transition_to MsCompleted MsSettled = True"
| "can_transition_to MsFailed MsDisputed = True"
| "can_transition_to MsFailed MsSettled = True"
| "can_transition_to MsDisputed MsSettled = True"
| "can_transition_to _ _ = False"

section \<open>Autonomy budgets and safety modes\<close>

record autonomy_budget =
  ab_agent_id :: agent_id
  max_unconfirmed_spend :: tension_value
  max_unconfirmed_actions :: nat
  pending_spend :: tension_value
  pending_actions :: nat
  last_settled_height :: nat

definition can_act_locally :: "autonomy_budget \<Rightarrow> tension_value \<Rightarrow> bool" where
  "can_act_locally b x \<longleftrightarrow>
     i128_saturating_add (pending_spend b) x \<le> max_unconfirmed_spend b \<and>
     (max_unconfirmed_actions b = 0 \<or> pending_actions b < max_unconfirmed_actions b)"

definition record_local_action :: "autonomy_budget \<Rightarrow> tension_value \<Rightarrow> unit + autonomy_budget" where
  "record_local_action b x =
     (if \<not> can_act_locally b x then Inl ()
      else Inr (b\<lparr>pending_spend := tension_add (pending_spend b) x,
                  pending_actions := u64_wrapping_add (pending_actions b) 1\<rparr>))"

definition autonomy_settle :: "autonomy_budget \<Rightarrow> nat \<Rightarrow> autonomy_budget" where
  "autonomy_settle b h = b\<lparr>pending_spend := 0, pending_actions := 0, last_settled_height := h\<rparr>"

datatype safety_mode =
    SmNormal | SmReadOnly | SmNoSpend | SmShadow | SmOperatorOnly | SmSafeReturn | SmQuarantine

definition mode_can_write :: "safety_mode \<Rightarrow> bool" where
  "mode_can_write m \<longleftrightarrow> m = SmNormal \<or> m = SmNoSpend"

definition mode_can_spend :: "safety_mode \<Rightarrow> bool" where
  "mode_can_spend m \<longleftrightarrow> m = SmNormal"

definition mode_commits_state :: "safety_mode \<Rightarrow> bool" where
  "mode_commits_state m \<longleftrightarrow> \<not> (m = SmShadow \<or> m = SmQuarantine)"

definition mode_requires_operator :: "safety_mode \<Rightarrow> bool" where
  "mode_requires_operator m \<longleftrightarrow> m = SmOperatorOnly \<or> m = SmSafeReturn"

section \<open>Tagged signatures and session keys\<close>

datatype signature_algorithm =
    SaEd25519 | SaMlDsa44 | SaMlDsa65 | SaMlDsa87 | SaSlhDsaShake128s | SaHybridEd25519MlDsa65

record tagged_signature =
  ts_algorithm :: signature_algorithm
  ts_signature_bytes :: bytes
  ts_secondary_bytes :: "bytes option"

fun signature_min_length :: "signature_algorithm \<Rightarrow> nat" where
  "signature_min_length SaEd25519 = 64"
| "signature_min_length SaMlDsa44 = 2420"
| "signature_min_length SaMlDsa65 = 3293"
| "signature_min_length SaMlDsa87 = 4595"
| "signature_min_length SaSlhDsaShake128s = 7856"
| "signature_min_length SaHybridEd25519MlDsa65 = 64"

datatype tagged_signature_error = SigTooShort nat nat | SecondaryTooShort nat | SecondaryMissing

definition tagged_signature_validate :: "tagged_signature \<Rightarrow> tagged_signature_error + unit" where
  "tagged_signature_validate s =
     (if length (ts_signature_bytes s) < signature_min_length (ts_algorithm s)
      then Inl (SigTooShort (length (ts_signature_bytes s)) (signature_min_length (ts_algorithm s)))
      else if ts_algorithm s = SaHybridEd25519MlDsa65 then
        (case ts_secondary_bytes s of
           Some sec \<Rightarrow> if length sec \<ge> 3293 then Inr () else Inl (SecondaryTooShort (length sec))
         | None \<Rightarrow> Inl SecondaryMissing)
      else Inr ())"

record session_key =
  sk_session_id :: hash
  sk_master_account :: agent_id
  sk_session_public_key :: hash
  sk_allowed_operations :: "string list"
  sk_max_spend_per_tx :: tension_value
  sk_max_total_spend :: tension_value
  sk_spent :: tension_value
  sk_max_transactions :: nat
  sk_transactions_used :: nat
  sk_expires_at_block :: nat
  sk_revoked :: bool

definition session_is_valid :: "session_key \<Rightarrow> nat \<Rightarrow> bool" where
  "session_is_valid k h \<longleftrightarrow>
     \<not> sk_revoked k \<and> h \<le> sk_expires_at_block k \<and>
     (sk_max_transactions k = 0 \<or> sk_transactions_used k < sk_max_transactions k)"

definition session_can_spend :: "session_key \<Rightarrow> tension_value \<Rightarrow> bool" where
  "session_can_spend k x \<longleftrightarrow>
     x \<le> sk_max_spend_per_tx k \<and> i128_saturating_add (sk_spent k) x \<le> sk_max_total_spend k"

definition session_record_use :: "session_key \<Rightarrow> tension_value \<Rightarrow> unit + session_key" where
  "session_record_use k x =
     (if \<not> session_can_spend k x then Inl ()
      else Inr (k\<lparr>sk_spent := tension_add (sk_spent k) x,
                  sk_transactions_used := u64_wrapping_add (sk_transactions_used k) 1\<rparr>))"

section \<open>Circuit breakers\<close>

datatype circuit_breaker_state = CbClosed | CbOpen nat | CbHalfOpen nat

record agent_circuit_breaker =
  cb_agent_id :: agent_id
  cb_state :: circuit_breaker_state
  cb_failure_threshold :: nat
  cb_failure_count :: nat
  cb_max_spend_rate :: tension_value
  cb_current_block_spend :: tension_value
  cb_cooldown_blocks :: nat
  cb_test_blocks :: nat

definition breaker_record_success :: "agent_circuit_breaker \<Rightarrow> agent_circuit_breaker" where
  "breaker_record_success b =
     (let b1 = b\<lparr>cb_failure_count := 0\<rparr> in
      case cb_state b1 of
        CbHalfOpen t \<Rightarrow>
          (let t' = (if t > 0 then t - 1 else t) in
           b1\<lparr>cb_state := (if t' = 0 then CbClosed else CbHalfOpen t')\<rparr>)
      | _ \<Rightarrow> b1)"

definition breaker_record_failure :: "agent_circuit_breaker \<Rightarrow> nat \<Rightarrow> agent_circuit_breaker" where
  "breaker_record_failure b h =
     (let b1 = b\<lparr>cb_failure_count := (cb_failure_count b + 1) mod 2 ^ 32\<rparr> in
      if cb_failure_count b1 \<ge> cb_failure_threshold b1 then b1\<lparr>cb_state := CbOpen h\<rparr> else b1)"

definition breaker_record_spend ::
  "agent_circuit_breaker \<Rightarrow> tension_value \<Rightarrow> nat \<Rightarrow> agent_circuit_breaker" where
  "breaker_record_spend b x h =
     (let b1 = b\<lparr>cb_current_block_spend := tension_add (cb_current_block_spend b) x\<rparr> in
      if cb_current_block_spend b1 > cb_max_spend_rate b1 then b1\<lparr>cb_state := CbOpen h\<rparr> else b1)"

definition breaker_can_act :: "agent_circuit_breaker \<Rightarrow> bool" where
  "breaker_can_act b \<longleftrightarrow> (case cb_state b of CbOpen _ \<Rightarrow> False | _ \<Rightarrow> True)"

definition breaker_try_recover :: "agent_circuit_breaker \<Rightarrow> nat \<Rightarrow> agent_circuit_breaker" where
  "breaker_try_recover b h =
     (case cb_state b of
        CbOpen t \<Rightarrow>
          if h \<ge> u64_wrapping_add t (cb_cooldown_blocks b)
          then b\<lparr>cb_state := CbHalfOpen (cb_test_blocks b), cb_failure_count := 0, cb_current_block_spend := 0\<rparr>
          else b
      | _ \<Rightarrow> b)"

definition breaker_new_block :: "agent_circuit_breaker \<Rightarrow> agent_circuit_breaker" where
  "breaker_new_block b = b\<lparr>cb_current_block_spend := 0\<rparr>"

section \<open>A lease is never overdrawn\<close>

definition lease_ok :: "capability_lease \<Rightarrow> bool" where
  "lease_ok l \<longleftrightarrow> is_i128 (lease_spent l) \<and> lease_spent l \<le> lease_budget l \<and>
     (max_actions l = 0 \<or> actions_taken l \<le> max_actions l) \<and> max_actions l \<le> U64_MAX"

text \<open>Along any sequence of accepted and refused spends the budget and the number of actions hold.\<close>

fun lease_spends :: "capability_lease \<Rightarrow> (nat \<times> tension_value) list \<Rightarrow> capability_lease" where
  "lease_spends l [] = l"
| "lease_spends l ((h, x) # rest) =
     lease_spends (case lease_record_spend l h x of Inr l' \<Rightarrow> l' | Inl _ \<Rightarrow> l) rest"

lemma lease_spend_ok:
  assumes "lease_ok l" "lease_record_spend l h x = Inr l'"
  shows "lease_ok l'" "lease_budget l' = lease_budget l" "max_actions l' = max_actions l"
    "lease_revoked l' = lease_revoked l"
  using assms
  by (auto simp: lease_record_spend_def lease_ok_def has_budget_def has_actions_def tension_add_def
      u64_wrapping_add_def machine_int split: if_splits)

lemma lease_spends_ok: "lease_ok l \<Longrightarrow> lease_ok (lease_spends l xs)"
  by (induction l xs rule: lease_spends.induct) (auto split: sum.splits dest: lease_spend_ok)

lemma revoked_lease_frozen: "lease_revoked l \<Longrightarrow> lease_spends l xs = l"
  by (induction l xs rule: lease_spends.induct)
     (auto simp: lease_record_spend_def lease_is_valid_def)

text \<open>A negative amount is a spend too: it gives budget back.\<close>

lemma negative_spend_refills:
  assumes "lease_is_valid l h" "has_actions l" "lease_ok l" "x < 0" "is_i128 (lease_spent l + x)"
  shows "\<exists>l'. lease_record_spend l h x = Inr l' \<and> lease_spent l' < lease_spent l"
  using assms
  by (auto simp: lease_record_spend_def has_budget_def lease_ok_def tension_add_def i128_saturating_add_def)

section \<open>Missions end settled or cancelled\<close>

abbreviation mission_steps :: "mission_state \<Rightarrow> mission_state \<Rightarrow> bool" where
  "mission_steps \<equiv> can_transition_to\<^sup>*\<^sup>*"

lemma mission_terminal:
  assumes "m \<in> {MsSettled, MsCancelled}"
  shows "\<not> can_transition_to m n"
  using assms by (cases n) auto

lemma mission_never_returns_to_proposed: "\<not> can_transition_to m MsProposed"
  by (cases m) simp_all

fun mission_distance :: "mission_state \<Rightarrow> nat" where
  "mission_distance MsSettled = 0"
| "mission_distance MsCancelled = 0"
| "mission_distance MsDisputed = 1"
| "mission_distance MsCompleted = 1"
| "mission_distance MsFailed = 1"
| "mission_distance MsExecuting = 2"
| "mission_distance MsDegraded = 2"
| "mission_distance MsAccepted = 1"
| "mission_distance MsPaused = 1"
| "mission_distance MsRecovered = 3"
| "mission_distance MsProposed = 1"

text \<open>From every state an end state can be reached, and only outcomes are settled.\<close>

lemma mission_can_end: "\<exists>e \<in> {MsSettled, MsCancelled}. mission_steps m e"
proof (induction "mission_distance m" arbitrary: m rule: less_induct)
  case less
  have "m \<in> {MsSettled, MsCancelled} \<or> (\<exists>n. can_transition_to m n \<and> mission_distance n < mission_distance m)"
    by (cases m) (auto intro: exI [of _ MsSettled] exI [of _ MsCancelled] exI [of _ MsCompleted]
        exI [of _ MsPaused] exI [of _ MsExecuting])
  then show ?case
    using less converse_rtranclp_into_rtranclp [of can_transition_to m] by blast
qed

lemma mission_settled_from:
  assumes "mission_steps MsProposed MsSettled"
    and "can_transition_to m MsSettled"
  shows "m \<in> {MsCompleted, MsFailed, MsDisputed}"
  using assms(2) by (cases m) auto

section \<open>Autonomy, sessions and breakers\<close>

definition autonomy_ok :: "autonomy_budget \<Rightarrow> bool" where
  "autonomy_ok b \<longleftrightarrow> pending_spend b \<le> max_unconfirmed_spend b \<and>
     (max_unconfirmed_actions b = 0 \<or> pending_actions b \<le> max_unconfirmed_actions b) \<and>
     max_unconfirmed_actions b \<le> U64_MAX"

lemma autonomy_action_ok:
  "autonomy_ok b \<Longrightarrow> record_local_action b x = Inr b' \<Longrightarrow> autonomy_ok b'"
  by (auto simp: autonomy_ok_def record_local_action_def can_act_locally_def tension_add_def
      u64_wrapping_add_def machine_int split: if_splits)

lemma autonomy_settle_ok: "autonomy_ok b \<Longrightarrow> 0 \<le> max_unconfirmed_spend b \<Longrightarrow> autonomy_ok (autonomy_settle b h)"
  by (simp add: autonomy_ok_def autonomy_settle_def)

lemma mode_spend_implies_write: "mode_can_spend m \<Longrightarrow> mode_can_write m \<and> mode_commits_state m \<and> \<not> mode_requires_operator m"
  by (simp add: mode_can_spend_def mode_can_write_def mode_commits_state_def mode_requires_operator_def)

text \<open>Recording the use of a session key checks its amounts only: a revoked or expired key still spends.\<close>

lemma revoked_session_spends:
  assumes "sk_revoked k" "session_can_spend k x"
  shows "\<exists>k'. session_record_use k x = Inr k' \<and> \<not> session_is_valid k h \<and> sk_spent k' = tension_add (sk_spent k) x"
  using assms by (simp add: session_record_use_def session_is_valid_def)

lemma session_spend_bounded:
  "session_record_use k x = Inr k' \<Longrightarrow> sk_spent k' \<le> sk_max_total_spend k' \<and> x \<le> sk_max_spend_per_tx k'"
  by (auto simp: session_record_use_def session_can_spend_def tension_add_def split: if_splits)

text \<open>An open breaker stays open under any reports until its cooldown is over; enough failures in a row open it.\<close>

lemma open_breaker_stays:
  assumes "cb_state b = CbOpen t" "h < t + cb_cooldown_blocks b" "t + cb_cooldown_blocks b \<le> U64_MAX"
  shows "\<not> breaker_can_act (breaker_record_success b)" "\<not> breaker_can_act (breaker_try_recover b h)"
    "\<not> breaker_can_act (breaker_record_failure b h)" "\<not> breaker_can_act (breaker_record_spend b x h)"
    "\<not> breaker_can_act (breaker_new_block b)"
  using assms
  by (simp_all add: breaker_can_act_def breaker_record_success_def breaker_try_recover_def
      breaker_record_failure_def breaker_record_spend_def breaker_new_block_def u64_wrapping_add_def
      machine_int Let_def)

lemma failure_count_iterate:
  assumes "cb_failure_count b + n < 2 ^ 32" "0 < n" "cb_failure_threshold b \<le> cb_failure_count b + n"
  shows "\<not> breaker_can_act (((\<lambda>b. breaker_record_failure b h) ^^ n) b)"
  using assms
proof (induction n arbitrary: b)
  case (Suc n)
  let ?b = "breaker_record_failure b h"
  have c: "cb_failure_count ?b = cb_failure_count b + 1" "cb_failure_threshold ?b = cb_failure_threshold b"
    using Suc.prems(1) by (simp_all add: breaker_record_failure_def Let_def)
  show ?case
  proof (cases n)
    case 0
    then show ?thesis using Suc.prems by (simp add: breaker_record_failure_def breaker_can_act_def Let_def)
  next
    case (Suc k)
    with Suc.IH [of ?b] Suc.prems c have "\<not> breaker_can_act (((\<lambda>b. breaker_record_failure b h) ^^ n) ?b)"
      by simp
    then show ?thesis by (simp only: funpow_Suc_right comp_apply not_False_eq_True)
  qed
qed simp

text \<open>A half-open breaker closes again after as many successes as it has test blocks.\<close>

lemma half_open_closes:
  assumes "cb_state b = CbHalfOpen t" "0 < t"
  shows "cb_state ((breaker_record_success ^^ t) b) = CbClosed"
  using assms
proof (induction t arbitrary: b)
  case (Suc t)
  have s: "cb_state (breaker_record_success b) = (if t = 0 then CbClosed else CbHalfOpen t)"
    using Suc.prems by (simp add: breaker_record_success_def Let_def)
  then show ?case
    using Suc.IH [of "breaker_record_success b"] by (cases "t = 0") (simp_all add: funpow_swap1)
qed simp

end
