(* ===== verification/Scc_Pruning.thy ===== *)
theory Scc_Pruning
  imports Scc_Validator_Set
begin

text \<open>
  Identification of prunable state (\<open>state/pruning.rs\<close>): admission records of the validator set that
  a newer record of the same agent supersedes, and old receipts. The execution of pruning is a stub in the code that
  always returns an error.
\<close>

datatype prunable_namespace = NsValidatorSetChangeHistory | NsKeyIndex | NsBlockReceipts | NsSnapshots

record prunable_entry =
  pe_namespace :: prunable_namespace
  pe_key :: hash
  pe_superseded_by :: "hash option"

record pruning_receipt =
  pr_tip_height :: nat
  pr_pruning_depth :: nat
  pr_namespaces :: "(prunable_namespace \<times> nat) list"
  pr_pre_root :: hash
  pr_post_root :: hash

definition state_root_preserved :: "pruning_receipt \<Rightarrow> bool" where
  "state_root_preserved r \<longleftrightarrow> pr_pre_root r = pr_post_root r"

text \<open>The scan runs over the reversed history and keeps the first entry it meets for an agent.\<close>

fun newest_scan :: "validator_set_change list \<Rightarrow> (agent_id, hash \<times> nat) btreemap \<Rightarrow> (agent_id, hash \<times> nat) btreemap" where
  "newest_scan [] m = m"
| "newest_scan (c # cs) m =
     newest_scan cs
       (if map_of m (target_agent_id (vsc_kind c)) = None
        then bt_insert (target_agent_id (vsc_kind c)) (change_id c, proposed_at c) m else m)"

fun prunable_scan ::
  "(agent_id, hash \<times> nat) btreemap \<Rightarrow> nat \<Rightarrow> nat \<Rightarrow> validator_set_change list \<Rightarrow> prunable_entry list" where
  "prunable_scan m tip depth [] = []"
| "prunable_scan m tip depth (c # cs) =
     (case map_of m (target_agent_id (vsc_kind c)) of
        None \<Rightarrow> prunable_scan m tip depth cs
      | Some (newest, _) \<Rightarrow>
          if change_id c = newest then prunable_scan m tip depth cs
          else if tip - proposed_at c \<ge> depth
          then \<lparr>pe_namespace = NsValidatorSetChangeHistory, pe_key = change_id c, pe_superseded_by = Some newest\<rparr>
               # prunable_scan m tip depth cs
          else prunable_scan m tip depth cs)"

definition identify_prunable_admission_history ::
  "validator_set_change list \<Rightarrow> nat \<Rightarrow> nat \<Rightarrow> prunable_entry list" where
  "identify_prunable_admission_history hist tip depth =
     prunable_scan (newest_scan (rev hist) []) tip depth hist"

definition is_receipt_prunable :: "nat \<Rightarrow> nat \<Rightarrow> nat \<Rightarrow> bool" where
  "is_receipt_prunable h tip depth \<longleftrightarrow> tip - h \<ge> depth"

datatype pruning_error = NotYetWired

definition perform_pruning :: "nat \<Rightarrow> nat \<Rightarrow> pruning_error + pruning_receipt" where
  "perform_pruning tip depth = Inl NotYetWired"


section \<open>What may be pruned\<close>

abbreviation agent_of :: "validator_set_change \<Rightarrow> agent_id" where
  "agent_of c \<equiv> target_agent_id (vsc_kind c)"

text \<open>The last record of an agent in the history.\<close>

definition newest_of :: "validator_set_change list \<Rightarrow> agent_id \<Rightarrow> validator_set_change option" where
  "newest_of hist a = find (\<lambda>c. agent_of c = a) (rev hist)"

lemma newest_scan_lookup:
  "map_of (newest_scan cs m) a =
   (case map_of m a of Some x \<Rightarrow> Some x
    | None \<Rightarrow> map_option (\<lambda>c. (change_id c, proposed_at c)) (find (\<lambda>c. agent_of c = a) cs))"
  by (induction cs arbitrary: m) (auto split: option.splits)

lemma newest_scan_newest:
  "map_of (newest_scan (rev hist) []) a = map_option (\<lambda>c. (change_id c, proposed_at c)) (newest_of hist a)"
  by (simp add: newest_scan_lookup newest_of_def)

lemma find_member: "find P xs = Some x \<Longrightarrow> P x \<and> x \<in> set xs"
  by (induction xs) (auto split: if_splits)

lemma newest_of_Some: "newest_of hist a = Some c \<Longrightarrow> c \<in> set hist \<and> agent_of c = a"
  unfolding newest_of_def by (drule find_member) simp

lemma prunable_scan_keys:
  "pe_key ` set (prunable_scan m tip depth cs) =
   {change_id c | c. c \<in> set cs \<and> depth \<le> tip - proposed_at c \<and>
      (\<exists>n t. map_of m (agent_of c) = Some (n, t) \<and> change_id c \<noteq> n)}"
  by (induction cs) (auto split: option.splits if_splits)

lemma prunable_entry_grounded:
  assumes "e \<in> set (identify_prunable_admission_history hist tip depth)"
  shows "\<exists>c n. c \<in> set hist \<and> newest_of hist (agent_of c) = Some n \<and> change_id c \<noteq> change_id n \<and>
    depth \<le> tip - proposed_at c \<and> pe_key e = change_id c \<and> pe_superseded_by e = Some (change_id n)"
proof -
  have scan: "e \<in> set (prunable_scan m tip depth cs) \<Longrightarrow>
    \<exists>c n t. c \<in> set cs \<and> map_of m (agent_of c) = Some (n, t) \<and> change_id c \<noteq> n \<and>
      depth \<le> tip - proposed_at c \<and> pe_key e = change_id c \<and> pe_superseded_by e = Some n" for m cs
    by (induction cs) (auto split: option.splits if_splits)
  from scan [OF assms [unfolded identify_prunable_admission_history_def]]
  show ?thesis by (auto simp: newest_scan_newest)
qed

lemma find_filter_kept:
  "(\<And>x. find P xs = Some x \<Longrightarrow> Q x) \<Longrightarrow> find P (filter Q xs) = find P xs"
  by (induction xs) (auto split: if_splits)

text \<open>
  Dropping every identified record leaves the newest record of each agent in place, when records have their own
  identifiers; so the latest admission of every validator survives.
\<close>

lemma pruning_keeps_newest:
  assumes "distinct (map change_id hist)"
  shows "newest_of (filter (\<lambda>c. change_id c \<notin> pe_key ` set (identify_prunable_admission_history hist tip depth)) hist) a =
    newest_of hist a"
proof -
  let ?K = "pe_key ` set (identify_prunable_admission_history hist tip depth)"
  have "change_id c \<notin> ?K" if c: "newest_of hist a = Some c" for c
  proof
    assume "change_id c \<in> ?K"
    then obtain c' n t where c': "change_id c = change_id c'" "c' \<in> set hist"
      "map_of (newest_scan (rev hist) []) (agent_of c') = Some (n, t)" "change_id c' \<noteq> n"
      unfolding identify_prunable_admission_history_def prunable_scan_keys by auto
    with assms newest_of_Some [OF c] have "c = c'" by (metis distinct_map inj_onD)
    with c c' newest_of_Some [OF c] show False by (simp add: newest_scan_newest)
  qed
  then show ?thesis
    unfolding newest_of_def rev_filter by (intro find_filter_kept)
qed

end
