(* ===== verification/Scc_Peers.thy ===== *)
theory Scc_Peers
  imports Scc_Protocol
begin

text \<open>
  What a node knows of the other validators: the registry of peers with scores, bans and the subnet diversity
  check (\<open>network/peer.rs\<close>), the detection of network partitions (\<open>consensus/partition.rs\<close>) and the agreement
  on a law set (\<open>consensus/law_sync.rs\<close>). Times are arguments. \<open>i32\<close> sums wrap as in a release build.
\<close>

section \<open>Addresses\<close>

text \<open>\<open>str::split\<close> on a character and \<open>join\<close> on the parts.\<close>

fun split_char :: "char \<Rightarrow> string \<Rightarrow> string list" where
  "split_char c [] = [[]]"
| "split_char c (x # xs) =
     (if x = c then [] # split_char c xs
      else (case split_char c xs of [] \<Rightarrow> [[x]] | p # ps \<Rightarrow> (x # p) # ps))"

fun join_char :: "char \<Rightarrow> string list \<Rightarrow> string" where
  "join_char c [] = []"
| "join_char c [p] = p"
| "join_char c (p # ps) = p @ c # join_char c ps"

lemma split_char_not_Nil [simp]: "split_char c xs \<noteq> []"
  by (induction xs) (auto split: list.splits)

lemma join_split_char: "join_char c (split_char c xs) = xs"
proof (induction xs)
  case (Cons x xs)
  show ?case
  proof (cases "split_char c xs")
    case (Cons p ps)
    with Cons.IH show ?thesis by (cases ps) auto
  qed simp
qed simp

section \<open>The peer registry\<close>

datatype peer_state = Discovered | Connected | Disconnected | Banned

record peer_info =
  pi_validator_id :: hash
  pi_address :: string
  pi_current_height :: nat
  pi_finalized_height :: nat
  pi_protocol_version :: nat
  pi_last_seen_ms :: nat
  pi_score :: int
  pi_violations :: nat
  pi_last_score_decay_ms :: nat
  pi_last_violation_forgive_ms :: nat
  pi_state :: peer_state

type_synonym peer_registry = "(hash, peer_info) hashmap"

definition MIN_CONNECTED_PEERS :: nat where "MIN_CONNECTED_PEERS = 3"
definition MAX_SAME_SUBNET_PCT :: nat where "MAX_SAME_SUBNET_PCT = 50"
definition MAX_PEERS :: nat where "MAX_PEERS = 1000"

definition registry_upsert :: "peer_registry \<Rightarrow> peer_info \<Rightarrow> (nat \<times> nat) + peer_registry" where
  "registry_upsert reg info =
     (case map_of reg (pi_validator_id info) of
        Some existing \<Rightarrow>
          (let updated = info
             \<lparr>pi_score := pi_score existing, pi_violations := pi_violations existing,
              pi_last_score_decay_ms := pi_last_score_decay_ms existing,
              pi_last_violation_forgive_ms := pi_last_violation_forgive_ms existing\<rparr>
           in Inr (AList.update (pi_validator_id updated) updated reg))
      | None \<Rightarrow>
          if length reg \<ge> MAX_PEERS then Inl (length reg, MAX_PEERS)
          else Inr (AList.update (pi_validator_id info) info reg))"

definition connected_peers :: "peer_registry \<Rightarrow> peer_info list" where
  "connected_peers reg = filter (\<lambda>p. pi_state p = Connected) (map snd reg)"

definition active_peer_count :: "peer_registry \<Rightarrow> nat" where
  "active_peer_count reg = length (connected_peers reg)"

text \<open>\<open>Iterator::max_by_key\<close> returns the last of several maximal elements.\<close>

fun max_by_height :: "('a \<Rightarrow> nat) \<Rightarrow> 'a list \<Rightarrow> 'a option" where
  "max_by_height f [] = None"
| "max_by_height f (x # xs) =
     (case max_by_height f xs of None \<Rightarrow> Some x | Some y \<Rightarrow> if f x > f y then Some x else Some y)"

definition highest_peer :: "peer_registry \<Rightarrow> peer_info option" where
  "highest_peer reg = max_by_height pi_current_height (connected_peers reg)"

definition registry_ban :: "peer_registry \<Rightarrow> hash \<Rightarrow> peer_registry" where
  "registry_ban reg vid =
     (case map_of reg vid of
        Some p \<Rightarrow> AList.update vid (p\<lparr>pi_state := Banned\<rparr>) reg
      | None \<Rightarrow> reg)"

definition needs_sync :: "peer_registry \<Rightarrow> nat \<Rightarrow> bool" where
  "needs_sync reg h \<longleftrightarrow> (\<exists>p \<in> snd ` set reg. pi_state p = Connected \<and> pi_current_height p > h)"

definition subnet_of :: "string \<Rightarrow> string" where
  "subnet_of addr =
     join_char CHR ''.'' (take 2 (split_char CHR ''.'' (hd (split_char CHR '':'' addr))))"

fun count_subnets :: "peer_info list \<Rightarrow> (string, nat) hashmap \<Rightarrow> (string, nat) hashmap" where
  "count_subnets [] m = m"
| "count_subnets (p # ps) m =
     (let s = subnet_of (pi_address p);
          n = (case map_of m s of Some k \<Rightarrow> k | None \<Rightarrow> 0)
      in count_subnets ps (AList.update s (n + 1) m))"

datatype diversity_error =
    InsufficientPeers nat nat
  | SubnetConcentration string nat nat

definition subnet_pct :: "nat \<Rightarrow> nat \<Rightarrow> nat" where
  "subnet_pct connected n =
     (if connected > 0 then ((n mod 2 ^ 32) * 100) mod 2 ^ 32 div (connected mod 2 ^ 32) else 0)"

definition check_diversity_with :: "peer_registry \<Rightarrow> nat \<Rightarrow> nat \<Rightarrow> diversity_error + unit" where
  "check_diversity_with reg min_peers max_pct =
     (let connected = active_peer_count reg in
      if connected < min_peers then Inl (InsufficientPeers connected min_peers)
      else case find (\<lambda>(s, n). subnet_pct connected n > max_pct)
             (count_subnets (connected_peers reg) []) of
          Some (s, n) \<Rightarrow> Inl (SubnetConcentration s (subnet_pct connected n) max_pct)
        | None \<Rightarrow> Inr ())"

definition check_diversity :: "peer_registry \<Rightarrow> diversity_error + unit" where
  "check_diversity reg = check_diversity_with reg MIN_CONNECTED_PEERS MAX_SAME_SUBNET_PCT"

text \<open>A stable sort by decreasing height.\<close>

definition sync_candidates :: "peer_registry \<Rightarrow> nat \<Rightarrow> peer_info list" where
  "sync_candidates reg h =
     sort_key (\<lambda>p. - int (pi_current_height p))
       (filter (\<lambda>p. pi_current_height p > h) (connected_peers reg))"

definition i32_wrap :: "int \<Rightarrow> int" where
  "i32_wrap x = (x + 2 ^ 31) mod 2 ^ 32 - 2 ^ 31"

definition decay_peer :: "nat \<Rightarrow> nat \<Rightarrow> int \<Rightarrow> int \<Rightarrow> nat \<Rightarrow> peer_info \<Rightarrow> peer_info" where
  "decay_peer now interval amount max_score forgive p =
     (if pi_state p \<noteq> Connected then p
      else
        let p1 = (if now - pi_last_score_decay_ms p \<ge> interval
                  then p\<lparr>pi_score := min (i32_wrap (pi_score p + amount)) max_score,
                         pi_last_score_decay_ms := now\<rparr>
                  else p)
        in if now - pi_last_violation_forgive_ms p1 \<ge> forgive \<and> pi_violations p1 > 0
           then p1\<lparr>pi_violations := pi_violations p1 - 1, pi_last_violation_forgive_ms := now\<rparr>
           else p1)"

definition decay_scores ::
  "peer_registry \<Rightarrow> nat \<Rightarrow> nat \<Rightarrow> int \<Rightarrow> int \<Rightarrow> nat \<Rightarrow> peer_registry" where
  "decay_scores reg now interval amount max_score forgive =
     map (\<lambda>(k, p). (k, decay_peer now interval amount max_score forgive p)) reg"

section \<open>Partitions\<close>

record partition_config =
  divergence_threshold :: nat
  max_rollback_depth :: nat

definition partition_config_default :: partition_config where
  "partition_config_default = \<lparr>divergence_threshold = 10, max_rollback_depth = 100\<rparr>"

type_synonym partition_detector = "(hash, nat) btreemap"

record validator_group =
  vg_validators :: "hash list"
  vg_max_height :: nat
  vg_block_hash_at_max :: "hash option"

datatype partition_status =
    Healthy nat nat
  | Partitioned "validator_group list" nat

definition report_height :: "partition_detector \<Rightarrow> hash \<Rightarrow> nat \<Rightarrow> partition_detector" where
  "report_height d v h = bt_insert v h d"

definition empty_group :: validator_group where
  "empty_group = \<lparr>vg_validators = [], vg_max_height = 0, vg_block_hash_at_max = None\<rparr>"

definition push_member :: "hash \<Rightarrow> nat \<Rightarrow> validator_group \<Rightarrow> validator_group" where
  "push_member v h g =
     g\<lparr>vg_validators := vg_validators g @ [v], vg_max_height := max (vg_max_height g) h\<rparr>"

fun split_groups ::
  "nat \<Rightarrow> (hash \<times> nat) list \<Rightarrow> validator_group \<Rightarrow> validator_group \<Rightarrow> validator_group \<times> validator_group" where
  "split_groups mid [] low high = (low, high)"
| "split_groups mid ((v, h) # rest) low high =
     (if h \<le> mid then split_groups mid rest (push_member v h low) high
      else split_groups mid rest low (push_member v h high))"

definition detect_partition :: "partition_detector \<Rightarrow> partition_config \<Rightarrow> partition_status" where
  "detect_partition d cfg =
     (if d = [] then Healthy 0 0
      else let lo = Min (set (map snd d)); hi = Max (set (map snd d)) in
        if hi - lo \<le> divergence_threshold cfg then Healthy lo hi
        else let mid = u64_wrapping_add lo hi div 2;
                 (low, high) = split_groups mid d empty_group empty_group;
                 canonical = (if length (vg_validators low) \<ge> length (vg_validators high) then 0 else 1)
             in Partitioned [low, high] canonical)"

datatype recovery_action =
    NoRecovery
  | Rollback "hash list" nat
  | ManualIntervention nat nat "hash list" "hash list"

text \<open>Indexing outside the vector of groups panics, as does \<open>1 - index\<close> for a larger index in the lookup.\<close>

definition plan_recovery :: "partition_status \<Rightarrow> partition_config \<Rightarrow> nat \<Rightarrow> recovery_action option" where
  "plan_recovery status cfg finalized =
     (case status of
        Healthy _ _ \<Rightarrow> Some NoRecovery
      | Partitioned groups i \<Rightarrow>
          if i < length groups \<and> i \<le> 1 \<and> 1 - i < length groups then
            let canonical = groups ! i; minority = groups ! (1 - i);
                gap = max (vg_max_height canonical) (vg_max_height minority)
                      - min (vg_max_height canonical) (vg_max_height minority)
            in if gap > max_rollback_depth cfg
               then Some (ManualIntervention gap (max_rollback_depth cfg)
                 (vg_validators minority) (vg_validators canonical))
               else Some (Rollback (vg_validators minority) finalized)
          else None)"

section \<open>Law synchronization\<close>

record law_sync_round =
  ls_height :: nat
  ls_proposals :: "(hash, hash) btreemap"
  ls_quorum :: nat
  ls_validator_count :: nat

datatype law_sync_result =
    LawConsensus hash nat "hash list"
  | NoLawConsensus "(hash, nat) btreemap"

definition law_sync_new :: "nat \<Rightarrow> nat \<Rightarrow> law_sync_round" where
  "law_sync_new h n =
     \<lparr>ls_height = h, ls_proposals = [], ls_quorum = min (2 * n div 3 + 1) U32_MAX, ls_validator_count = n\<rparr>"

definition law_submit :: "law_sync_round \<Rightarrow> hash \<Rightarrow> hash \<Rightarrow> unit + law_sync_round" where
  "law_submit r v law =
     (if map_of (ls_proposals r) v \<noteq> None then Inl ()
      else Inr (r\<lparr>ls_proposals := bt_insert v law (ls_proposals r)\<rparr>))"

fun count_laws :: "hash list \<Rightarrow> (hash, nat) btreemap \<Rightarrow> (hash, nat) btreemap" where
  "count_laws [] m = m"
| "count_laws (l # ls) m =
     count_laws ls (bt_insert l ((case map_of m l of Some n \<Rightarrow> n | None \<Rightarrow> 0) + 1) m)"

definition law_evaluate :: "law_sync_round \<Rightarrow> law_sync_result" where
  "law_evaluate r =
     (let votes = count_laws (map snd (ls_proposals r)) [] in
      case find (\<lambda>(l, n). n \<ge> ls_quorum r) votes of
        Some (l, n) \<Rightarrow>
          LawConsensus l n (map fst (filter (\<lambda>(v, l'). l' \<noteq> l) (ls_proposals r)))
      | None \<Rightarrow> NoLawConsensus votes)"

definition law_is_complete :: "law_sync_round \<Rightarrow> bool" where
  "law_is_complete r \<longleftrightarrow> min (length (ls_proposals r)) U32_MAX \<ge> ls_validator_count r"


section \<open>The registry stays bounded and keyed by validator\<close>

definition peers_ok :: "peer_registry \<Rightarrow> bool" where
  "peers_ok reg \<longleftrightarrow> keys_distinct reg \<and> length reg \<le> MAX_PEERS \<and>
     list_all (\<lambda>(k, p). pi_validator_id p = k) reg"

lemma length_update_known: "map_of m k \<noteq> None \<Longrightarrow> length (AList.update k v m) = length m"
  by (induction m) (auto split: if_splits)

lemma length_update_le: "length (AList.update k v m) \<le> Suc (length m)"
  by (induction m) auto

lemma list_all_update: "list_all P m \<Longrightarrow> P (k, v) \<Longrightarrow> list_all P (AList.update k v m)"
  by (induction m) auto

lemma peers_ok_new [simp]: "peers_ok []"
  by (simp add: peers_ok_def)

lemma peers_ok_update:
  assumes "peers_ok reg" "map_of reg k \<noteq> None" "pi_validator_id p = k"
  shows "peers_ok (AList.update k p reg)"
  using assms unfolding peers_ok_def by (simp add: length_update_known list_all_update)

lemma peers_ok_upsert:
  assumes "peers_ok reg" "registry_upsert reg info = Inr reg'"
  shows "peers_ok reg'"
proof (cases "map_of reg (pi_validator_id info)")
  case None
  then have "length reg < MAX_PEERS" "reg' = AList.update (pi_validator_id info) info reg"
    using assms(2) by (auto simp: registry_upsert_def split: if_splits)
  then show ?thesis
    using assms(1) length_update_le [of "pi_validator_id info" info reg]
    by (simp add: peers_ok_def list_all_update)
next
  case (Some p)
  then show ?thesis using assms by (auto simp: registry_upsert_def Let_def intro!: peers_ok_update)
qed

lemma registry_member_key:
  "peers_ok reg \<Longrightarrow> map_of reg k = Some p \<Longrightarrow> pi_validator_id p = k"
  by (auto simp: peers_ok_def list_all_iff dest: map_of_SomeD)

lemma peers_ok_ban: "peers_ok reg \<Longrightarrow> peers_ok (registry_ban reg v)"
  by (auto simp: registry_ban_def registry_member_key intro!: peers_ok_update split: option.splits)

lemma decay_peer_id [simp]: "pi_validator_id (decay_peer n i a m f p) = pi_validator_id p"
  by (simp add: decay_peer_def Let_def)

lemma peers_ok_decay: "peers_ok reg \<Longrightarrow> peers_ok (decay_scores reg n i a m f)"
  by (auto simp: peers_ok_def decay_scores_def list_all_iff case_prod_unfold comp_def)

text \<open>Re-registration keeps what a peer has earned, but takes the connection state of the newcomer.\<close>

lemma upsert_keeps_reputation:
  assumes "map_of reg (pi_validator_id info) = Some old" "registry_upsert reg info = Inr reg'"
  obtains p where "map_of reg' (pi_validator_id info) = Some p" "pi_score p = pi_score old"
    "pi_violations p = pi_violations old" "pi_state p = pi_state info" "pi_address p = pi_address info"
  using assms by (auto simp: registry_upsert_def Let_def)

lemma decay_bounds:
  assumes "pi_score p \<le> m"
  shows "pi_score (decay_peer n i a m f p) \<le> m" "pi_violations (decay_peer n i a m f p) \<le> pi_violations p"
    "pi_state (decay_peer n i a m f p) = pi_state p"
  using assms by (simp_all add: decay_peer_def Let_def)

section \<open>Synchronization sources\<close>

lemma max_by_key_Some:
  assumes "max_by_height f xs = Some y"
  shows "y \<in> set xs \<and> (\<forall>x \<in> set xs. f x \<le> f y)"
  using assms
proof (induction xs arbitrary: y)
  case (Cons x xs)
  show ?case
  proof (cases "max_by_height f xs")
    case None
    then have "xs = []" by (cases xs) (auto split: option.splits if_splits)
    with Cons.prems show ?thesis by simp
  next
    case (Some z)
    then have "z \<in> set xs" "\<forall>w \<in> set xs. f w \<le> f z" using Cons.IH by auto
    with Some Cons.prems show ?thesis by (auto split: if_splits intro: order_trans)
  qed
qed simp

lemma max_by_key_None: "max_by_height f xs = None \<longleftrightarrow> xs = []"
  by (cases xs) (auto split: option.splits if_splits)

lemma needs_sync_candidates: "needs_sync reg h \<longleftrightarrow> sync_candidates reg h \<noteq> []"
proof -
  have "sync_candidates reg h = [] \<longleftrightarrow> set (sync_candidates reg h) = {}" by simp
  then show ?thesis by (auto simp: needs_sync_def sync_candidates_def connected_peers_def)
qed

text \<open>The first source that a lagging node asks has the greatest height among the connected peers.\<close>

lemma first_candidate_highest:
  assumes "sync_candidates reg h = p # ps" "highest_peer reg = Some q"
  shows "pi_current_height p = pi_current_height q"
proof -
  let ?c = "sync_candidates reg h"
  have p: "p \<in> set (connected_peers reg)" "h < pi_current_height p"
    using arg_cong [OF assms(1), of set] by (auto simp: sync_candidates_def)
  have q: "q \<in> set (connected_peers reg)" "\<forall>x \<in> set (connected_peers reg). pi_current_height x \<le> pi_current_height q"
    using max_by_key_Some [OF assms(2) [unfolded highest_peer_def]] by auto
  then have "q \<in> set ?c" using p by (force simp: sync_candidates_def)
  moreover have "sorted (map (\<lambda>p. - int (pi_current_height p)) ?c)"
    by (simp add: sync_candidates_def)
  ultimately have "pi_current_height q \<le> pi_current_height p"
    using assms(1) by auto
  with q(2) p(1) show ?thesis by (simp add: le_antisym)
qed

section \<open>Subnet diversity\<close>

definition subnet_members :: "peer_registry \<Rightarrow> string \<Rightarrow> nat" where
  "subnet_members reg s = length (filter (\<lambda>p. subnet_of (pi_address p) = s) (connected_peers reg))"

abbreviation count_in :: "('k, nat) hashmap \<Rightarrow> 'k \<Rightarrow> nat" where
  "count_in m k \<equiv> case map_of m k of Some n \<Rightarrow> n | None \<Rightarrow> 0"

lemma count_subnets_distinct: "keys_distinct m \<Longrightarrow> keys_distinct (count_subnets ps m)"
  by (induction ps arbitrary: m) (auto simp: Let_def)

lemma count_subnets_count:
  "count_in (count_subnets ps m) s = count_in m s + length (filter (\<lambda>p. subnet_of (pi_address p) = s) ps)"
  by (induction ps arbitrary: m) (auto simp: Let_def)

lemma subnet_pct_exact:
  assumes "n \<le> connected" "connected \<le> MAX_PEERS"
  shows "subnet_pct connected n = n * 100 div connected"
  using assms by (simp add: subnet_pct_def MAX_PEERS_def)

lemma diversity_exact:
  assumes "peers_ok reg"
  shows "check_diversity_with reg m pct = Inr () \<longleftrightarrow>
    m \<le> active_peer_count reg \<and> (\<forall>s. subnet_members reg s * 100 div active_peer_count reg \<le> pct)"
proof -
  let ?c = "count_subnets (connected_peers reg) []"
  have d: "keys_distinct ?c" by (rule count_subnets_distinct) simp
  have n: "count_in ?c s = subnet_members reg s" for s
    by (simp add: count_subnets_count subnet_members_def)
  have le: "subnet_members reg s \<le> active_peer_count reg" for s
    by (simp add: subnet_members_def active_peer_count_def)
  have "active_peer_count reg \<le> length reg"
    unfolding active_peer_count_def connected_peers_def using length_filter_le by (metis length_map)
  with assms have cap: "active_peer_count reg \<le> MAX_PEERS" by (simp add: peers_ok_def)
  have "find (\<lambda>(s, n). pct < subnet_pct (active_peer_count reg) n) ?c = None \<longleftrightarrow>
      (\<forall>s. subnet_members reg s * 100 div active_peer_count reg \<le> pct)"
  proof
    assume "find (\<lambda>(s, n). pct < subnet_pct (active_peer_count reg) n) ?c = None"
    then have *: "subnet_pct (active_peer_count reg) k \<le> pct" if "map_of ?c s = Some k" for s k
      using map_of_SomeD [OF that] by (force simp: find_None_iff)
    show "\<forall>s. subnet_members reg s * 100 div active_peer_count reg \<le> pct"
    proof
      fix s
      show "subnet_members reg s * 100 div active_peer_count reg \<le> pct"
        using *[of s] n [of s] subnet_pct_exact [OF le [of s] cap] by (cases "map_of ?c s") auto
    qed
  next
    assume a: "\<forall>s. subnet_members reg s * 100 div active_peer_count reg \<le> pct"
    have "subnet_pct (active_peer_count reg) k \<le> pct" if "(s, k) \<in> set ?c" for s k
      using that d n [of s] a subnet_pct_exact [OF le [of s] cap] by auto
    then show "find (\<lambda>(s, n). pct < subnet_pct (active_peer_count reg) n) ?c = None"
      by (auto simp: find_None_iff not_less)
  qed
  then show ?thesis by (auto simp: check_diversity_with_def Let_def split: option.splits)
qed

section \<open>Partitions\<close>

lemma split_groups_members:
  assumes "split_groups mid d low high = (l, h)"
  shows "vg_validators l = vg_validators low @ map fst (filter (\<lambda>e. snd e \<le> mid) d)"
    "vg_validators h = vg_validators high @ map fst (filter (\<lambda>e. mid < snd e) d)"
  using assms
  by (induction d arbitrary: low high) (auto simp: push_member_def case_prod_unfold split: if_splits)

text \<open>
  With heights below \<open>2^63\<close> a detected partition splits the validators at the midpoint of the extreme heights, both
  groups are non-empty, and the canonical one is at least as large as the other.
\<close>

lemma partition_exact:
  assumes "detect_partition d cfg = Partitioned gs i" "\<And>h. h \<in> snd ` set d \<Longrightarrow> h < 2 ^ 63"
  obtains low high mid where "gs = [low, high]" "i \<le> 1"
    "vg_validators low = map fst (filter (\<lambda>e. snd e \<le> mid) d)"
    "vg_validators high = map fst (filter (\<lambda>e. mid < snd e) d)"
    "vg_validators low \<noteq> []" "vg_validators high \<noteq> []"
    "length (vg_validators (gs ! (1 - i))) \<le> length (vg_validators (gs ! i))"
proof -
  let ?lo = "Min (snd ` set d)" and ?hi = "Max (snd ` set d)"
  have ne: "d \<noteq> []" and gap: "divergence_threshold cfg < ?hi - ?lo"
    using assms(1) by (auto simp: detect_partition_def Let_def split: if_splits)
  from ne have lo: "?lo \<in> snd ` set d" and hi: "?hi \<in> snd ` set d" by (auto intro!: Min_in Max_in)
  let ?mid = "(?lo + ?hi) div 2"
  have mid: "u64_wrapping_add ?lo ?hi div 2 = ?mid"
    using assms(2) [OF lo] assms(2) [OF hi] by (simp add: u64_wrapping_add_def)
  obtain l h where s: "split_groups ?mid d empty_group empty_group = (l, h)" by fastforce
  have m: "vg_validators l = map fst (filter (\<lambda>e. snd e \<le> ?mid) d)"
    "vg_validators h = map fst (filter (\<lambda>e. ?mid < snd e) d)"
    using split_groups_members [OF s] by (simp_all add: empty_group_def)
  have r: "gs = [l, h] \<and> i = (if length (vg_validators l) \<ge> length (vg_validators h) then 0 else 1)"
    using assms(1) ne gap s mid by (auto simp: detect_partition_def Let_def split: if_splits)
  have "?lo \<le> ?mid" "?mid < ?hi" using gap by linarith+
  then have "vg_validators l \<noteq> []" "vg_validators h \<noteq> []"
    using lo hi by (auto simp: m filter_empty_conv intro: bexI [rotated])
  with m r show thesis by (intro that [of l h ?mid]) (auto split: if_splits)
qed

text \<open>A detected partition always has a recovery plan: the minority rolls back, or the gap is for an operator.\<close>

lemma plan_recovery_total:
  assumes "detect_partition d cfg = st"
  shows "\<exists>a. plan_recovery st cfg f = Some a"
proof (cases st)
  case (Partitioned gs i)
  then have "length gs = 2" "i \<le> 1"
    using assms by (auto simp: detect_partition_def Let_def case_prod_unfold split: if_splits)
  with Partitioned show ?thesis by (auto simp: plan_recovery_def Let_def)
qed (simp add: plan_recovery_def)

section \<open>Agreement on laws\<close>

definition law_supporters :: "law_sync_round \<Rightarrow> hash \<Rightarrow> hash set" where
  "law_supporters r l = {v. map_of (ls_proposals r) v = Some l}"

inductive law_run :: "nat \<Rightarrow> nat \<Rightarrow> law_sync_round \<Rightarrow> bool" for h n where
  law_start: "law_run h n (law_sync_new h n)"
| law_next: "law_run h n r \<Longrightarrow> law_submit r v l = Inr r' \<Longrightarrow> law_run h n r'"

lemma law_run_invariant:
  assumes "law_run h n r"
  shows "bt_sorted (ls_proposals r) \<and> ls_quorum r = min (2 * n div 3 + 1) U32_MAX \<and> ls_validator_count r = n \<and> ls_height r = h"
  using assms
  by induction (auto simp: law_sync_new_def law_submit_def split: if_splits intro: bt_sorted_insert)

lemma count_laws_sorted: "bt_sorted m \<Longrightarrow> bt_sorted (count_laws ls m)"
  by (induction ls arbitrary: m) (auto intro: bt_sorted_insert)

lemma count_laws_count: "count_in (count_laws ls m) l = count_in m l + count_list ls l"
  by (induction ls arbitrary: m) auto

lemma law_supporters_card:
  assumes "keys_distinct m"
  shows "count_list (map snd m) l = card {v. map_of m v = Some l}" "finite {v. map_of m v = Some l}"
proof -
  have fin: "finite {v. map_of m v = Some l}" for m :: "('a \<times> 'b) list"
    by (rule finite_subset [OF _ finite_dom_map_of [of m]]) auto
  show "finite {v. map_of m v = Some l}" by (rule fin)
  show "count_list (map snd m) l = card {v. map_of m v = Some l}"
    using assms
  proof (induction m)
    case (Cons e m)
    then have none: "map_of m (fst e) = None" by (simp add: map_of_eq_None_iff)
    have "{v. map_of (e # m) v = Some l} =
        (if snd e = l then insert (fst e) {v. map_of m v = Some l} else {v. map_of m v = Some l})"
      using none by (auto split: if_splits)
    moreover have "fst e \<notin> {v. map_of m v = Some l}" using none by simp
    ultimately show ?case using Cons fin [of m] by (simp del: map_of.simps)
  qed simp
qed

lemma law_consensus_quorum:
  assumes "law_run h n r" "law_evaluate r = LawConsensus l k ds" "n \<le> U32_MAX"
  shows "k = card (law_supporters r l)" "2 * n div 3 + 1 \<le> card (law_supporters r l)"
    "set ds = dom (map_of (ls_proposals r)) - law_supporters r l"
proof -
  let ?votes = "count_laws (map snd (ls_proposals r)) []"
  have inv: "bt_sorted (ls_proposals r)" "ls_quorum r = min (2 * n div 3 + 1) U32_MAX"
    using law_run_invariant [OF assms(1)] by auto
  then have d: "keys_distinct (ls_proposals r)" by (simp add: bt_sorted_distinct)
  have "find (\<lambda>(l, n). ls_quorum r \<le> n) ?votes = Some (l, k)"
    and ds: "ds = map fst (filter (\<lambda>(v, l'). l' \<noteq> l) (ls_proposals r))"
    using assms(2) by (auto simp: law_evaluate_def Let_def split: option.splits)
  then have "(l, k) \<in> set ?votes" and q: "ls_quorum r \<le> k" by (auto simp: find_Some_iff in_set_conv_nth)
  moreover have "keys_distinct ?votes" by (intro bt_sorted_distinct count_laws_sorted) simp
  ultimately have "count_in ?votes l = k" by simp
  then show k: "k = card (law_supporters r l)"
    by (simp add: count_laws_count law_supporters_card [OF d] law_supporters_def)
  have "2 * n div 3 + 1 \<le> U32_MAX" using assms(3) by (simp add: machine_int)
  with q inv(2) k show "2 * n div 3 + 1 \<le> card (law_supporters r l)" by simp
  show "set ds = dom (map_of (ls_proposals r)) - law_supporters r l"
    using d by (force simp: ds law_supporters_def dom_def image_iff dest: eq_key_imp_eq_value)
qed

text \<open>
  C27. Law synchronization agrees: two nodes that each reach consensus in a round over the same \<open>n\<close> validators, with
  submissions from those validators only, settle on the same law set, as long as the validators
  that submit different laws to the two nodes are at most the tolerated third.
\<close>

theorem law_sync_agreement:
  assumes "law_run h n r" "law_run h n r'" "n \<le> U32_MAX"
    and "finite V" "card V = n" "dom (map_of (ls_proposals r)) \<subseteq> V" "dom (map_of (ls_proposals r')) \<subseteq> V"
    and "count_tolerable V F"
    and honest: "\<And>v l l'. v \<in> V - F \<Longrightarrow> map_of (ls_proposals r) v = Some l \<Longrightarrow>
      map_of (ls_proposals r') v = Some l' \<Longrightarrow> l = l'"
    and "law_evaluate r = LawConsensus l k ds" "law_evaluate r' = LawConsensus l' k' ds'"
  shows "l = l'"
proof -
  have q: "count_quorum V (law_supporters r l)" "count_quorum V (law_supporters r' l')"
    using assms law_consensus_quorum(2) [of h n r l k ds] law_consensus_quorum(2) [of h n r' l' k' ds']
    by (auto simp: count_quorum_def law_supporters_def)
  obtain v where "v \<in> law_supporters r l" "v \<in> law_supporters r' l'" "v \<notin> F"
    using count.quorum_intersect [OF q assms(8)] by auto
  moreover then have "v \<in> V" using q(1) by (auto simp: count_quorum_def)
  ultimately show ?thesis using honest by (auto simp: law_supporters_def)
qed

theorem law_sync_agreement_witness:
  "\<exists>r r' ds ds'. law_run 5 4 r \<and> law_run 5 4 r' \<and> map_of (ls_proposals r) 103 = Some 7 \<and> map_of (ls_proposals r') 103 = Some 8 \<and>
     law_evaluate r = LawConsensus 7 3 ds \<and> law_evaluate r' = LawConsensus 7 3 ds' \<and> ds \<noteq> ds' \<and> (7 :: hash) = 7"
proof -
  let ?r = "law_sync_new 5 4\<lparr>ls_proposals := [(101, 7), (102, 7), (103, 7)]\<rparr>"
  let ?r' = "law_sync_new 5 4\<lparr>ls_proposals := [(101, 7), (102, 7), (103, 8), (104, 7)]\<rparr>"
  have sub: "law_run 5 4 (law_sync_new 5 4\<lparr>ls_proposals := q\<rparr>)"
    if "law_run 5 4 (law_sync_new 5 4\<lparr>ls_proposals := p\<rparr>)" "map_of p v = None" "q = bt_insert v l p" for p q v l
    using law_next [OF that(1), of v l] that(2,3) by (simp add: law_submit_def law_sync_new_def)
  have start: "law_run 5 4 (law_sync_new 5 4\<lparr>ls_proposals := []\<rparr>)" using law_start [of 5 4] by (simp add: law_sync_new_def)
  have two: "law_run 5 4 (law_sync_new 5 4\<lparr>ls_proposals := [(101, 7), (102, 7)]\<rparr>)"
    by (rule sub [OF sub [OF start, of 101 "[(101, 7)]" 7], of 102 _ 7]) simp_all
  have r: "law_run 5 4 ?r" by (rule sub [OF two, of 103 _ 7]) simp_all
  have r': "law_run 5 4 ?r'"
    by (rule sub [OF sub [OF two, of 103 "[(101, 7), (102, 7), (103, 8)]" 8], of 104 _ 7]) simp_all
  have e: "law_evaluate ?r = LawConsensus 7 3 []" "law_evaluate ?r' = LawConsensus 7 3 [103]"
    by (simp_all add: law_sync_new_def law_evaluate_def machine_int)
  have "(7 :: hash) = 7"
    by (rule law_sync_agreement [OF r r', where V = "{101, 102, 103, 104}" and F = "{103}", OF _ _ _ _ _ _ _ e])
      (auto simp: machine_int count_tolerable_def max_byzantine_def law_sync_new_def split: if_splits)
  with r r' e show ?thesis by (intro exI [of _ ?r] exI [of _ ?r'] exI [of _ "[]"] exI [of _ "[103]"]) simp
qed

text \<open>
  The round does not check who submits: identities outside the validator set can reach the quorum, even for
  a law that no validator has submitted.
\<close>

lemma law_sync_unchecked_identity:
  "law_evaluate (fold (\<lambda>v r. case law_submit r v 7 of Inr r' \<Rightarrow> r' | Inl _ \<Rightarrow> r) [101, 102, 103] (law_sync_new 1 4)) =
   LawConsensus 7 3 []"
  by (simp add: law_sync_new_def law_submit_def law_evaluate_def machine_int)

end
