(* ===== verification/Scc_Persistence.thy ===== *)
theory Scc_Persistence
  imports Scc_Governance_Replay
begin

text \<open>
  The files in which a node keeps its consensus state over a restart (\<open>ChainStore\<close> of \<open>node/persistence.rs\<close>): the rounds
  it tracks and the blocks that wait for votes. A file is written to a temporary name and renamed, so
  that a write that fails leaves the old contents. The operating system answers every file operation: the store carries the
  list of its next answers. The JSON encoding is a parameter: a \<open>Value\<close> is its text.
\<close>

section \<open>Files\<close>

definition MAX_PERSISTED_CONSENSUS_ROUNDS :: nat where "MAX_PERSISTED_CONSENSUS_ROUNDS = 10000"
definition MAX_PERSISTED_PENDING_BLOCKS :: nat where "MAX_PERSISTED_PENDING_BLOCKS = 64"

datatype io_error = IoFailed | IoEncode | IoParse | IoTooMany nat nat | IoBadHeight string | IoBadBlock nat

record chain_store =
  cs_rounds :: "string option"
  cs_pending :: "string option"
  cs_answers :: "bool list"

text \<open>The functions of \<open>serde_json\<close> for the two files; \<open>None\<close> is an error.\<close>

record json_ext =
  js_rounds_text :: "(string, string) hashmap \<Rightarrow> string option"
  js_rounds_parse :: "string \<Rightarrow> (string, string) hashmap option"
  js_blocks_text :: "block list \<Rightarrow> string option"
  js_blocks_parse :: "string \<Rightarrow> block list option"

text \<open>Whether the next file operation succeeds; operations beyond the list do.\<close>

fun next_answer :: "chain_store \<Rightarrow> bool \<times> chain_store" where
  "next_answer st = (case cs_answers st of [] \<Rightarrow> (True, st) | a # as \<Rightarrow> (a, st\<lparr>cs_answers := as\<rparr>))"

definition replace_file ::
  "((string option \<Rightarrow> string option) \<Rightarrow> chain_store \<Rightarrow> chain_store) \<Rightarrow> string option \<Rightarrow> chain_store \<Rightarrow>
   (io_error + unit) \<times> chain_store" where
  "replace_file upd f st =
     (case next_answer st of
        (True, st') \<Rightarrow> (Inr (), upd (\<lambda>_. f) st')
      | (False, st') \<Rightarrow> (Inl IoFailed, st'))"

definition read_to_string :: "string \<Rightarrow> chain_store \<Rightarrow> (io_error + string) \<times> chain_store" where
  "read_to_string t st =
     (case next_answer st of (True, st') \<Rightarrow> (Inr t, st') | (False, st') \<Rightarrow> (Inl IoFailed, st'))"

section \<open>Heights as keys\<close>

definition digit_char :: "nat \<Rightarrow> char" where
  "digit_char d = char_of (48 + d)"

text \<open>\<open>to_string\<close> of an unsigned integer.\<close>

fun u64_to_string :: "nat \<Rightarrow> string" where
  "u64_to_string n = (if n < 10 then [digit_char n] else u64_to_string (n div 10) @ [digit_char (n mod 10)])"

declare u64_to_string.simps [simp del]

section \<open>Rounds\<close>

definition save_consensus_state ::
  "json_ext \<Rightarrow> (nat, string) hashmap \<Rightarrow> chain_store \<Rightarrow> (io_error + unit) \<times> chain_store" where
  "save_consensus_state J rounds st =
     (case js_rounds_text J (fold (\<lambda>(k, v). AList.update (u64_to_string k) v) rounds []) of
        None \<Rightarrow> (Inl IoEncode, st)
      | Some t \<Rightarrow> replace_file cs_rounds_update (Some t) st)"

fun insert_heights :: "(string, string) hashmap \<Rightarrow> (nat, string) hashmap \<Rightarrow> io_error + (nat, string) hashmap" where
  "insert_heights [] parsed = Inr parsed"
| "insert_heights ((key, v) # raw) parsed =
     (case parse_unsigned U64_MAX key of
        None \<Rightarrow> Inl (IoBadHeight key)
      | Some h \<Rightarrow> insert_heights raw (AList.update h v parsed))"

definition decode_rounds :: "json_ext \<Rightarrow> string \<Rightarrow> io_error + (nat, string) hashmap" where
  "decode_rounds J t =
     (case js_rounds_parse J t of
        None \<Rightarrow> Inl IoParse
      | Some raw \<Rightarrow>
          if length raw > MAX_PERSISTED_CONSENSUS_ROUNDS then Inl (IoTooMany (length raw) MAX_PERSISTED_CONSENSUS_ROUNDS)
          else insert_heights raw [])"

definition load_consensus_state :: "json_ext \<Rightarrow> chain_store \<Rightarrow> (io_error + (nat, string) hashmap) \<times> chain_store" where
  "load_consensus_state J st =
     (case cs_rounds st of
        None \<Rightarrow> (Inr [], st)
      | Some t \<Rightarrow> (case read_to_string t st of (r, st') \<Rightarrow> (bind_result r (decode_rounds J), st')))"

definition clear_consensus_state :: "chain_store \<Rightarrow> (io_error + unit) \<times> chain_store" where
  "clear_consensus_state st =
     (if cs_rounds st = None then (Inr (), st) else replace_file cs_rounds_update None st)"

section \<open>Pending blocks\<close>

definition save_pending_blocks ::
  "json_ext \<Rightarrow> (hash, block) hashmap \<Rightarrow> chain_store \<Rightarrow> (io_error + unit) \<times> chain_store" where
  "save_pending_blocks J pending st =
     (case js_blocks_text J (map snd pending) of
        None \<Rightarrow> (Inl IoEncode, st)
      | Some t \<Rightarrow> replace_file cs_pending_update (Some t) st)"

fun insert_blocks :: "block list \<Rightarrow> (hash, block) hashmap \<Rightarrow> io_error + (hash, block) hashmap" where
  "insert_blocks [] pending = Inr pending"
| "insert_blocks (b # bs) pending =
     (if \<not> is_structurally_valid b then Inl (IoBadBlock (bh_height (header b)))
      else insert_blocks bs (AList.update (bh_block_id (header b)) b pending))"

definition decode_blocks :: "json_ext \<Rightarrow> string \<Rightarrow> io_error + (hash, block) hashmap" where
  "decode_blocks J t =
     (case js_blocks_parse J t of
        None \<Rightarrow> Inl IoParse
      | Some bs \<Rightarrow>
          if length bs > MAX_PERSISTED_PENDING_BLOCKS then Inl (IoTooMany (length bs) MAX_PERSISTED_PENDING_BLOCKS)
          else insert_blocks bs [])"

definition load_pending_blocks :: "json_ext \<Rightarrow> chain_store \<Rightarrow> (io_error + (hash, block) hashmap) \<times> chain_store" where
  "load_pending_blocks J st =
     (case cs_pending st of
        None \<Rightarrow> (Inr [], st)
      | Some t \<Rightarrow> (case read_to_string t st of (r, st') \<Rightarrow> (bind_result r (decode_blocks J), st')))"

definition clear_pending_blocks :: "chain_store \<Rightarrow> (io_error + unit) \<times> chain_store" where
  "clear_pending_blocks st =
     (if cs_pending st = None then (Inr (), st) else replace_file cs_pending_update None st)"

section \<open>Maps with printed keys\<close>

lemma update_new_key: "k \<notin> fst ` set m \<Longrightarrow> AList.update k v m = m @ [(k, v)]"
  by (induction m) auto

lemma fold_update_distinct:
  assumes "keys_distinct (m @ es)"
  shows "fold (\<lambda>(k, v). AList.update k v) es m = m @ es"
  using assms
proof (induction es arbitrary: m)
  case (Cons e es)
  have "AList.update (fst e) (snd e) m = m @ [e]"
    using Cons(2) by (auto simp: update_new_key)
  then show ?case using Cons(1) [of "m @ [e]"] Cons(2) by (simp add: case_prod_unfold)
qed simp

locale key_codec =
  fixes show_key :: "'k \<Rightarrow> string" and parse_key :: "string \<Rightarrow> 'k option" and valid_key :: "'k \<Rightarrow> bool"
  assumes parse_show: "valid_key k \<Longrightarrow> parse_key (show_key k) = Some k"
begin

lemma show_inj: "valid_key a \<Longrightarrow> valid_key b \<Longrightarrow> show_key a = show_key b \<longleftrightarrow> a = b"
  by (metis parse_show option.inject)

lemma shown_map:
  assumes "keys_distinct m" "list_all (valid_key \<circ> fst) m"
  shows "fold (\<lambda>(k, v). AList.update (show_key k) v) m [] = map (\<lambda>(k, v). (show_key k, v)) m"
proof -
  have "inj_on show_key (set (map fst m))"
    using assms(2) by (auto simp: inj_on_def list_all_iff show_inj)
  moreover have "map fst (map (\<lambda>(k, v). (show_key k, v)) m) = map show_key (map fst m)" by (simp add: o_def case_prod_unfold)
  ultimately have "keys_distinct (map (\<lambda>(k, v). (show_key k, v)) m)"
    using assms(1) by (simp only: distinct_map [of show_key "map fst m"])
  then have "fold (\<lambda>(k, v). AList.update k v) (map (\<lambda>(k, v). (show_key k, v)) m) [] = map (\<lambda>(k, v). (show_key k, v)) m"
    by (rule fold_update_distinct [of "[]", unfolded append_Nil])
  then show ?thesis by (simp add: fold_map o_def case_prod_unfold)
qed

end

lemma digit_value_char [simp]: "d < 10 \<Longrightarrow> digit_value (digit_char d) = Some d"
  by (simp add: digit_value_def digit_char_def byte_in_def of_char_mod_256)

lemma parse_bounded_snoc:
  "parse_bounded bound acc (cs @ [c]) =
     (case parse_bounded bound acc cs of None \<Rightarrow> None | Some a \<Rightarrow> parse_bounded bound a [c])"
  by (induction bound acc cs rule: parse_bounded.induct) (auto split: option.split)

lemma parse_printed: "n \<le> bound \<Longrightarrow> parse_bounded bound 0 (u64_to_string n) = Some n"
proof (induction n rule: u64_to_string.induct)
  case (1 n)
  then show ?case
    by (cases "n < 10") (simp_all add: u64_to_string.simps [of n] parse_bounded_snoc)
qed

lemma printed_first: "\<exists>d cs. u64_to_string n = digit_char d # cs \<and> d < 10"
proof (induction n rule: u64_to_string.induct)
  case (1 n)
  then show ?case by (cases "n < 10") (auto simp: u64_to_string.simps [of n])
qed

lemma u64_string_roundtrip: "n \<le> U64_MAX \<Longrightarrow> parse_unsigned U64_MAX (u64_to_string n) = Some n"
proof -
  assume n: "n \<le> U64_MAX"
  obtain d cs where d: "u64_to_string n = digit_char d # cs" "d < 10" using printed_first by blast
  have "digit_char d \<noteq> CHR ''+''" using digit_value_char [OF d(2)] by (auto simp: digit_value_def byte_in_def)
  then show ?thesis using parse_printed [OF n] d(1) by (simp add: parse_unsigned_def)
qed

interpretation hk: key_codec u64_to_string "parse_unsigned U64_MAX" "\<lambda>n. n \<le> U64_MAX"
  by unfold_locales (rule u64_string_roundtrip)

section \<open>What is saved is read again\<close>

lemma insert_heights_printed:
  assumes "list_all ((\<lambda>n. n \<le> U64_MAX) \<circ> fst) m"
  shows "insert_heights (map (\<lambda>(k, v). (u64_to_string k, v)) m) acc = Inr (fold (\<lambda>(k, v). AList.update k v) m acc)"
  using assms by (induction m arbitrary: acc) (auto simp: hk.parse_show)

lemma insert_blocks_valid:
  "list_all is_structurally_valid bs \<Longrightarrow>
   insert_blocks bs acc = Inr (fold (\<lambda>b. AList.update (bh_block_id (header b)) b) bs acc)"
  by (induction bs arbitrary: acc) auto

lemma insert_blocks_invalid: "\<not> list_all is_structurally_valid bs \<Longrightarrow> \<exists>e. insert_blocks bs acc = Inl e"
  by (induction bs arbitrary: acc) auto

lemma insert_blocks_keyed:
  assumes "keys_distinct m" "list_all (\<lambda>(k, b). bh_block_id (header b) = k) m"
    and "list_all is_structurally_valid (map snd m)"
  shows "insert_blocks (map snd m) [] = Inr m"
proof -
  have "fold (\<lambda>b. AList.update (bh_block_id (header b)) b) (map snd m) [] = fold (\<lambda>(k, b). AList.update k b) m []"
    unfolding fold_map using assms(2) by (intro fold_cong) (auto simp: list_all_iff)
  then show ?thesis using insert_blocks_valid [OF assms(3)] fold_update_distinct [of "[]" m] assms(1) by simp
qed

text \<open>A store none of whose operations fails.\<close>

abbreviation healthy :: "chain_store \<Rightarrow> bool" where
  "healthy st \<equiv> list_all id (cs_answers st)"

lemma next_answer_healthy: "healthy st \<Longrightarrow> next_answer st = (True, st\<lparr>cs_answers := tl (cs_answers st)\<rparr>)"
  by (cases st; cases "cs_answers st") auto

lemma replace_file_healthy:
  assumes "healthy st"
  shows "replace_file cs_rounds_update f st = (Inr (), st\<lparr>cs_rounds := f, cs_answers := tl (cs_answers st)\<rparr>)"
    and "replace_file cs_pending_update f st = (Inr (), st\<lparr>cs_pending := f, cs_answers := tl (cs_answers st)\<rparr>)"
  unfolding replace_file_def next_answer_healthy [OF assms] by simp_all

lemma read_healthy: "healthy st \<Longrightarrow> read_to_string t st = (Inr t, st\<lparr>cs_answers := tl (cs_answers st)\<rparr>)"
  unfolding read_to_string_def by (simp only: next_answer_healthy prod.case bool.case)

lemma save_load_rounds:
  assumes "healthy st" "keys_distinct m" "list_all ((\<lambda>n. n \<le> U64_MAX) \<circ> fst) m"
    and "length m \<le> MAX_PERSISTED_CONSENSUS_ROUNDS"
    and "js_rounds_text J (map (\<lambda>(k, v). (u64_to_string k, v)) m) = Some t"
    and "js_rounds_parse J t = Some (map (\<lambda>(k, v). (u64_to_string k, v)) m)"
  shows "save_consensus_state J m st = (Inr (), st\<lparr>cs_rounds := Some t, cs_answers := tl (cs_answers st)\<rparr>)"
    and "decode_rounds J t = Inr m"
  using assms replace_file_healthy(1) [OF assms(1), of "Some t"]
  by (simp_all add: save_consensus_state_def hk.shown_map decode_rounds_def insert_heights_printed fold_update_distinct)

lemma save_load_blocks:
  assumes "healthy st" "keys_distinct m" "list_all (\<lambda>(k, b). bh_block_id (header b) = k) m"
    and "length m \<le> MAX_PERSISTED_PENDING_BLOCKS"
    and "js_blocks_text J (map snd m) = Some t" "js_blocks_parse J t = Some (map snd m)"
  shows "save_pending_blocks J m st = (Inr (), st\<lparr>cs_pending := Some t, cs_answers := tl (cs_answers st)\<rparr>)"
    and "list_all is_structurally_valid (map snd m) \<Longrightarrow> decode_blocks J t = Inr m"
    and "\<not> list_all is_structurally_valid (map snd m) \<Longrightarrow> \<exists>e. decode_blocks J t = Inl e"
  using assms replace_file_healthy(2) [OF assms(1), of "Some t"]
  by (simp_all add: save_pending_blocks_def decode_blocks_def insert_blocks_keyed insert_blocks_invalid)

end
