(* ===== verification/Scc_Network.thy ===== *)
theory Scc_Network
  imports Scc_Chain Scc_Peers Scc_Persistence
begin

text \<open>
  The network runtime of a node (\<open>node/network.rs\<close>, with the messages of \<open>network/messages.rs\<close>): peers,
  limits, gossip, block proposals, votes, certificates, equivocation evidence and the periodic tasks. The
  runtime's locks and channels become one state record and each handler or timer tick one atomic step; a handler
  reads the clock once, as an argument. A message sent is an entry of the outbox. The bridge to the API
  server, log output, and the saving of blocks and snapshots are left out; the files of the consensus state
  (\<open>Scc_Persistence\<close>) are part of the record, because a restart reads them. A result \<open>None\<close> is a panic of the task.
\<close>

section \<open>Messages\<close>

record hello_message =
  hm_validator_id :: hash
  hm_chain_id :: hash
  hm_current_height :: nat
  hm_finalized_height :: nat
  hm_protocol_version :: nat
  hm_epoch :: nat
  hm_known_peers :: "string list"
  hm_timestamp_ms :: nat
  hm_signature :: bytes

record block_proposal_message =
  bp_proposer_id :: hash
  bp_block :: block
  bp_round :: nat
  bp_signature :: bytes

record equivocation_evidence_message =
  ee_vote_a :: vote
  ee_vote_b :: vote
  ee_epoch :: nat

record transaction_gossip_message =
  tg_sender_id :: hash
  tg_transaction :: symbolic_transition

record block_request_message =
  rq_requester_id :: hash
  rq_height :: nat

record block_response_message =
  rp_responder_id :: hash
  rp_block :: "block option"
  rp_height :: nat

record law_sync_message =
  lm_validator_id :: hash
  lm_height :: nat
  lm_law_set_hash :: hash
  lm_protocol_version :: nat
  lm_signature :: bytes

record heartbeat_message =
  hb_validator_id :: hash
  hb_current_height :: nat
  hb_protocol_version :: nat
  hb_epoch :: nat
  hb_timestamp_ms :: nat

datatype network_message =
    Hello hello_message
  | BlockProposal block_proposal_message
  | ConsensusVote vote
  | EquivocationEvidence equivocation_evidence_message
  | TransactionGossip transaction_gossip_message
  | BlockRequest block_request_message
  | BlockResponse block_response_message
  | LawSync law_sync_message
  | FinalityCertificate safety_certificate
  | Heartbeat heartbeat_message

fun message_type :: "network_message \<Rightarrow> string" where
  "message_type (Hello _) = ''Hello''"
| "message_type (BlockProposal _) = ''BlockProposal''"
| "message_type (ConsensusVote _) = ''ConsensusVote''"
| "message_type (EquivocationEvidence _) = ''EquivocationEvidence''"
| "message_type (TransactionGossip _) = ''TransactionGossip''"
| "message_type (BlockRequest _) = ''BlockRequest''"
| "message_type (BlockResponse _) = ''BlockResponse''"
| "message_type (LawSync _) = ''LawSync''"
| "message_type (FinalityCertificate _) = ''FinalityCertificate''"
| "message_type (Heartbeat _) = ''Heartbeat''"

section \<open>The runtime\<close>

definition MAX_SEED_PEERS :: nat where "MAX_SEED_PEERS = 256"
definition CONNECT_BACKOFF_MS :: nat where "CONNECT_BACKOFF_MS = 5000"
definition MAX_RATE_LIMIT_ENTRIES :: nat where "MAX_RATE_LIMIT_ENTRIES = 4096"
definition MAX_BANDWIDTH_ENTRIES :: nat where "MAX_BANDWIDTH_ENTRIES = 4096"
definition HELLO_MAX_SKEW_MS :: nat where "HELLO_MAX_SKEW_MS = 30000"
definition MAX_EQUIVOCATION_DEDUP :: nat where "MAX_EQUIVOCATION_DEDUP = 8192"
definition MAX_PENDING_BLOCKS :: nat where "MAX_PENDING_BLOCKS = 64"

record network_config =
  nc_enable :: bool
  nc_self_addr :: string
  nc_peers :: "string list"
  nc_allowed_peers :: "string list"
  nc_validators :: "string list"
  nc_round_timeout_ms :: nat
  nc_max_rounds :: nat
  nc_protocol_version :: nat
  nc_inbound_msg_window_ms :: nat
  nc_inbound_msg_limit :: nat
  nc_peer_score_initial :: int
  nc_peer_score_penalty :: int
  nc_peer_score_ban_threshold :: int
  nc_peer_max_violations :: nat
  nc_peer_score_decay_interval_ms :: nat
  nc_peer_score_decay_amount :: int
  nc_peer_violation_forgive_interval_ms :: nat
  nc_bandwidth_window_ms :: nat
  nc_inbound_bytes_limit :: nat
  nc_outbound_bytes_limit :: nat
  nc_min_connected_peers :: nat
  nc_max_same_subnet_pct :: nat

record round_state =
  rs_round :: consensus_round
  rs_last_round_ms :: nat

record persisted_consensus_round =
  pc_chain_id :: hash
  pc_epoch :: nat
  pc_block_hash :: hash
  pc_height :: nat
  pc_round :: nat
  pc_phase :: consensus_phase
  pc_prevotes :: "vote list"
  pc_precommits :: "vote list"
  pc_validator_set :: "(hash \<times> hash) list"
  pc_quorum :: nat
  pc_max_rounds :: nat

record persisted_round_state =
  ps_round :: persisted_consensus_round
  ps_last_round_ms :: nat

record rate_state =
  rt_window_start_ms :: nat
  rt_count :: nat
  rt_violations :: nat

record bandwidth_state =
  bw_inbound_bytes :: nat
  bw_outbound_bytes :: nat
  bw_window_start_ms :: nat

record equivocation_key =
  ek_validator_id :: hash
  ek_height :: nat
  ek_round :: nat
  ek_vote_type :: nat
  ek_block_hash_a :: hash
  ek_block_hash_b :: hash
  ek_epoch :: nat

text \<open>A connection is open as long as its writer task is running.\<close>

record network_runtime =
  nr_chain :: chain
  nr_config :: network_config
  nr_store :: "chain_store option"
  nr_registry :: peer_registry
  nr_connections :: "(string, bool) hashmap"
  nr_rounds :: "(nat, round_state) hashmap"
  nr_pending :: "(hash, block) hashmap"
  nr_equivocations :: "equivocation_key list"
  nr_equivocations_order :: "equivocation_key list"
  nr_rate_limits :: "(string, rate_state) hashmap"
  nr_bandwidth :: "(string, bandwidth_state) hashmap"
  nr_peer_seeds :: "string list"
  nr_backoff :: "(string, nat) hashmap"
  nr_validator_set :: "(hash, hash) hashmap"
  nr_validator_key :: hash
  nr_validator_id :: hash
  nr_chain_id :: hash
  nr_outbox :: "(string \<times> network_message) list"

text \<open>
  Functions of other packages: the strict verification and vote encoding of the protocol, the encoding of messages,
  whether the text of a failed block validation has one of the phrases that are penalised, and the JSON encoding of a round
  and of the files.
\<close>

record net_ext =
  nt_verify_strict :: sig_verify
  nt_vote_canon :: vote_canon
  nt_message_bytes :: "network_message \<Rightarrow> bytes"
  nt_cpog_blamed :: "cpog_error list \<Rightarrow> bool"
  nt_round_to_value :: "persisted_round_state \<Rightarrow> string option"
  nt_round_from_value :: "string \<Rightarrow> persisted_round_state option"
  nt_json :: json_ext

datatype net_error =
    NeDisconnectRate | NeRate | NeDisconnectBandwidth | NeBandwidth | NeDisconnectViolation
  | NeHelloChainId | NeHelloVersion | NeHelloEpoch | NeHelloTimestamp nat nat | NeHelloSignature
  | NeHelloUnauthorized | NeHelloAddress | NeRegistryFull nat nat
  | NeHeartbeatUnauthorized | NeHeartbeatVersion | NeHeartbeatEpoch | NeHeartbeatAddress
  | NeTxSignatureShort | NeTxSignature
  | NeLawSignature | NeLawVersion
  | NeProposalSignature | NeProposerMismatch | NeProposerUnauthorized | NeProposerExpected hash nat nat
  | NeCandidate chain_error | NePendingFull | NeConsensusEpoch | NeConsensusRound nat nat | NeOtherBlock
  | NeOwnVote vote_error | NeDiversity diversity_error | NeSend
  | NeVoteUnauthorized hash | NeVoteSignatureShort | NeVoteSignature
  | NeCertificate cert_error | NeCertificateUnknown

section \<open>Sequencing\<close>

text \<open>A handler that fails keeps the changes it has made so far.\<close>

type_synonym 'a net = "network_runtime \<Rightarrow> ((net_error + 'a) \<times> network_runtime) option"

definition nret :: "'a \<Rightarrow> 'a net" where
  "nret x s = Some (Inr x, s)"

definition nfail :: "net_error \<Rightarrow> 'a net" where
  "nfail e s = Some (Inl e, s)"

definition nbind :: "'a net \<Rightarrow> ('a \<Rightarrow> 'b net) \<Rightarrow> 'b net" where
  "nbind m k s =
     (case m s of
        None \<Rightarrow> None
      | Some (Inl e, s') \<Rightarrow> Some (Inl e, s')
      | Some (Inr x, s') \<Rightarrow> k x s')"

definition nget :: "(network_runtime \<Rightarrow> 'a) \<Rightarrow> 'a net" where
  "nget f s = Some (Inr (f s), s)"

definition nmod :: "(network_runtime \<Rightarrow> network_runtime) \<Rightarrow> unit net" where
  "nmod f s = Some (Inr (), f s)"

definition nthen :: "unit net \<Rightarrow> 'b net \<Rightarrow> 'b net" where
  "nthen m k = nbind m (\<lambda>_. k)"

definition nwhen :: "bool \<Rightarrow> unit net \<Rightarrow> unit net" where
  "nwhen b m = (if b then m else nret ())"

definition nreject :: "bool \<Rightarrow> net_error \<Rightarrow> unit net" where
  "nreject b e = (if b then nfail e else nret ())"

definition nlift :: "'e + 'a \<Rightarrow> ('e \<Rightarrow> net_error) \<Rightarrow> 'a net" where
  "nlift r f = (case r of Inl e \<Rightarrow> nfail (f e) | Inr x \<Rightarrow> nret x)"

text \<open>A call whose error is only logged.\<close>

definition nignore :: "unit net \<Rightarrow> unit net" where
  "nignore m s = (case m s of None \<Rightarrow> None | Some (_, s') \<Rightarrow> Some (Inr (), s'))"

section \<open>Set-up\<close>

definition hashmap_eq :: "('k, 'v) hashmap \<Rightarrow> ('k, 'v) hashmap \<Rightarrow> bool" where
  "hashmap_eq a b \<longleftrightarrow> length a = length b \<and> list_all (\<lambda>(k, v). map_of b k = Some v) a"

definition active_validator_map :: "validator_authority list \<Rightarrow> (hash, hash) hashmap" where
  "active_validator_map vs =
     fold (\<lambda>v m. AList.update (va_node_id v) (va_node_id v) m) (filter va_active vs) []"

datatype setup_error = BadValidatorHex | BadValidatorKeyLength nat

definition decode_validator_key :: "ext \<Rightarrow> string \<Rightarrow> setup_error + hash" where
  "decode_validator_key E entry =
     (case ex_hexdec E (trim entry) of
        None \<Rightarrow> Inl BadValidatorHex
      | Some bs \<Rightarrow> if length bs \<noteq> 32 then Inl (BadValidatorKeyLength (length bs)) else Inr (hash_of_bytes bs))"

definition authority_for :: "hash \<Rightarrow> validator_authority" where
  "authority_for v =
     \<lparr>va_node_id = v, va_governance_level = Safety, norm_compliance = from_integer 1,
      causal_reliability = from_integer 1, va_active = True\<rparr>"

fun decode_validators :: "ext \<Rightarrow> string list \<Rightarrow> setup_error + hash list" where
  "decode_validators E [] = Inr []"
| "decode_validators E (e # es) =
     bind_result (decode_validator_key E e) (\<lambda>k. bind_result (decode_validators E es) (\<lambda>ks. Inr (k # ks)))"

definition validators_from_config :: "ext \<Rightarrow> network_config \<Rightarrow> setup_error + validator_authority list" where
  "validators_from_config E cfg =
     bind_result (decode_validators E (nc_validators cfg))
       (\<lambda>ks. Inr (sort_key va_node_id (map authority_for ks)))"

definition validator_set_map :: "ext \<Rightarrow> network_config \<Rightarrow> setup_error + (hash, hash) hashmap" where
  "validator_set_map E cfg =
     bind_result (decode_validators E (nc_validators cfg))
       (\<lambda>ks. Inr (fold (\<lambda>k m. AList.update k k m) ks []))"

definition runtime_new :: "ext \<Rightarrow> node_ext \<Rightarrow> chain \<Rightarrow> network_config \<Rightarrow> setup_error + network_runtime" where
  "runtime_new E X c cfg =
     (let vid = local_validator_id X c; chain_validators = ch_validator_set c in
      bind_result (if nc_validators cfg = [] then Inr c
                   else bind_result (validators_from_config E cfg) (\<lambda>vs. Inr (set_validator_set c vs)))
        (\<lambda>c'. bind_result (validator_set_map E cfg)
          (\<lambda>vs. let vs1 = (if vs = [] then active_validator_map chain_validators else vs);
                    vs2 = (if vs1 = [] then [(vid, vid)] else vs1)
                in Inr \<lparr>nr_chain = c', nr_config = cfg, nr_store = None, nr_registry = [], nr_connections = [],
                        nr_rounds = [], nr_pending = [], nr_equivocations = [], nr_equivocations_order = [],
                        nr_rate_limits = [], nr_bandwidth = [], nr_peer_seeds = remdups (nc_peers cfg), nr_backoff = [],
                        nr_validator_set = vs2, nr_validator_key = ch_validator_key c, nr_validator_id = vid,
                        nr_chain_id = ch_chain_id c, nr_outbox = []\<rparr>)))"

definition with_persistence :: "network_runtime \<Rightarrow> chain_store \<Rightarrow> network_runtime" where
  "with_persistence s st = s\<lparr>nr_store := Some st\<rparr>"

definition sync_validator_set_from_chain_if_unconfigured :: "unit net" where
  "sync_validator_set_from_chain_if_unconfigured = nmod (\<lambda>s.
     if nc_validators (nr_config s) \<noteq> [] then s
     else
       let next = active_validator_map (ch_validator_set (nr_chain s));
           next' = (if next = [] then [(nr_validator_id s, nr_validator_id s)] else next)
       in if hashmap_eq (nr_validator_set s) next' then s else s\<lparr>nr_validator_set := next'\<rparr>)"

section \<open>Saved consensus state\<close>

definition round_state_to_persisted :: "round_state \<Rightarrow> persisted_round_state" where
  "round_state_to_persisted rs =
     (let r = rs_round rs in
      \<lparr>ps_round = \<lparr>pc_chain_id = chain_id r, pc_epoch = cr_epoch r, pc_block_hash = block_hash r,
         pc_height = cr_height r, pc_round = cr_round r, pc_phase = phase r,
         pc_prevotes = map snd (prevotes r), pc_precommits = map snd (precommits r),
         pc_validator_set = validator_set r, pc_quorum = quorum r, pc_max_rounds = max_rounds r\<rparr>,
       ps_last_round_ms = rs_last_round_ms rs\<rparr>)"

definition votes_by_validator :: "vote list \<Rightarrow> (hash, vote) hashmap" where
  "votes_by_validator vs = fold (\<lambda>v m. AList.update (validator_id v) v m) vs []"

definition persisted_to_round_state :: "persisted_round_state \<Rightarrow> round_state" where
  "persisted_to_round_state p =
     (let r = ps_round p; vs = fold (\<lambda>(k, v) m. AList.update k v m) (pc_validator_set r) [] in
      \<lparr>rs_round = \<lparr>chain_id = pc_chain_id r, cr_epoch = pc_epoch r, block_hash = pc_block_hash r,
         cr_height = pc_height r, cr_round = pc_round r, phase = pc_phase r,
         prevotes = votes_by_validator (pc_prevotes r), precommits = votes_by_validator (pc_precommits r),
         validator_count = usize_as_u32 (length vs), quorum = pc_quorum r,
         max_rounds = pc_max_rounds r, validator_set = vs\<rparr>,
       rs_last_round_ms = ps_last_round_ms p\<rparr>)"

text \<open>A round that cannot be encoded is left out.\<close>

definition saved_rounds :: "net_ext \<Rightarrow> (nat, round_state) hashmap \<Rightarrow> (nat, string) hashmap" where
  "saved_rounds N rounds =
     List.map_filter (\<lambda>(h, rs). map_option (Pair h) (nt_round_to_value N (round_state_to_persisted rs))) rounds"

text \<open>An error of the store is only logged: the two files are written one after the other whatever happens to the first.\<close>

definition save_consensus :: "net_ext \<Rightarrow> network_runtime \<Rightarrow> network_runtime" where
  "save_consensus N s =
     (case nr_store s of
        None \<Rightarrow> s
      | Some st \<Rightarrow>
          let st1 = snd (save_consensus_state (nt_json N) (saved_rounds N (nr_rounds s)) st);
              st2 = snd (save_pending_blocks (nt_json N) (nr_pending s) st1)
          in s\<lparr>nr_store := Some st2\<rparr>)"

definition persist_consensus_state :: "net_ext \<Rightarrow> unit net" where
  "persist_consensus_state N = nmod (save_consensus N)"

definition clear_saved :: "network_runtime \<Rightarrow> network_runtime" where
  "clear_saved s =
     (case nr_store s of
        None \<Rightarrow> s
      | Some st \<Rightarrow> s\<lparr>nr_store := Some (snd (clear_pending_blocks (snd (clear_consensus_state st))))\<rparr>)"

text \<open>One saved round: its restored form, \<open>None\<close> if it is dropped, and whether the saved state has to be rewritten.\<close>

definition restore_round ::
  "net_ext \<Rightarrow> nat \<Rightarrow> (hash, block) hashmap \<Rightarrow> nat \<times> string \<Rightarrow> round_state option \<times> bool" where
  "restore_round N expected blocks entry =
     (if fst entry \<noteq> expected then (None, True)
      else case nt_round_from_value N (snd entry) of
        None \<Rightarrow> (None, True)
      | Some p \<Rightarrow>
          let rs = persisted_to_round_state p; r = rs_round rs in
          if block_hash r \<noteq> ZERO_HASH \<and> map_of blocks (block_hash r) = None
          then (Some (rs\<lparr>rs_round := r\<lparr>block_hash := ZERO_HASH, prevotes := [], precommits := [], phase := PhPropose\<rparr>\<rparr>), True)
          else (Some rs, False))"

fun restore_rounds ::
  "net_ext \<Rightarrow> nat \<Rightarrow> (hash, block) hashmap \<Rightarrow> (nat \<times> string) list \<Rightarrow>
   (nat, round_state) hashmap \<Rightarrow> bool \<Rightarrow> (nat, round_state) hashmap \<times> bool" where
  "restore_rounds N expected blocks [] rounds cleaned = (rounds, cleaned)"
| "restore_rounds N expected blocks (e # es) rounds cleaned =
     (case restore_round N expected blocks e of
        (Some rs, c) \<Rightarrow> restore_rounds N expected blocks es (AList.update (fst e) rs rounds) (cleaned \<or> c)
      | (None, c) \<Rightarrow> restore_rounds N expected blocks es rounds (cleaned \<or> c))"

definition restored_hashes :: "(nat, round_state) hashmap \<Rightarrow> hash list" where
  "restored_hashes rounds =
     filter (\<lambda>h. h \<noteq> ZERO_HASH) (map (block_hash \<circ> rs_round \<circ> snd) rounds)"

text \<open>The rounds and the blocks that are taken over, once both files have been read.\<close>

definition restore_consensus ::
  "net_ext \<Rightarrow> (nat, string) hashmap \<Rightarrow> (hash, block) hashmap \<Rightarrow> network_runtime \<Rightarrow> network_runtime" where
  "restore_consensus N saved blocks s =
     (let expected = u64_saturating_add (chain_height (nr_chain s)) 1;
          (rounds, cleaned) = restore_rounds N expected blocks saved (nr_rounds s) False;
          restored = filter (\<lambda>e. fst e = expected \<and> nt_round_from_value N (snd e) \<noteq> None) saved;
          hashes = restored_hashes (fst (restore_rounds N expected blocks saved [] False));
          kept = filter (\<lambda>e. fst e \<in> set hashes) blocks;
          pending = (if restored = [] then [] else kept);
          cleaned' = (cleaned \<or> (if restored = [] then kept \<noteq> [] else length kept \<noteq> length blocks));
          s1 = s\<lparr>nr_rounds := rounds, nr_pending := pending\<rparr>
      in if cleaned' then save_consensus N s1 else s1)"

definition load_persisted_consensus_state :: "net_ext \<Rightarrow> network_runtime \<Rightarrow> network_runtime" where
  "load_persisted_consensus_state N s =
     (case nr_store s of
        None \<Rightarrow> s
      | Some st \<Rightarrow>
          (case load_consensus_state (nt_json N) st of
             (Inl _, st1) \<Rightarrow> s\<lparr>nr_store := Some st1\<rparr>
           | (Inr saved, st1) \<Rightarrow>
               if saved = [] then s\<lparr>nr_pending := [], nr_store := Some (snd (clear_pending_blocks st1))\<rparr>
               else
                 (case load_pending_blocks (nt_json N) st1 of
                    (Inl _, st2) \<Rightarrow> restore_consensus N saved [] (s\<lparr>nr_store := Some st2\<rparr>)
                  | (Inr blocks, st2) \<Rightarrow> restore_consensus N saved blocks (s\<lparr>nr_store := Some st2\<rparr>))))"

section \<open>Sending\<close>

definition send_to_peer :: "string \<Rightarrow> network_message \<Rightarrow> unit net" where
  "send_to_peer addr msg s =
     (case map_of (nr_connections s) addr of
        None \<Rightarrow> nret () s
      | Some True \<Rightarrow> nret () (s\<lparr>nr_outbox := nr_outbox s @ [(addr, msg)]\<rparr>)
      | Some False \<Rightarrow> nfail NeSend s)"

definition collect_broadcast_targets :: "network_runtime \<Rightarrow> string list" where
  "collect_broadcast_targets s =
     (let connected = map fst (nr_connections s) in
      if connected = [] then []
      else if nr_validator_set s = [] then sort (remdups connected)
      else sort (remdups (map pi_address (filter (\<lambda>p. pi_state p = Connected \<and>
             map_of (nr_validator_set s) (pi_validator_id p) \<noteq> None \<and> pi_address p \<in> set connected)
             (map snd (nr_registry s))))))"

fun send_all :: "string list \<Rightarrow> network_message \<Rightarrow> unit net" where
  "send_all [] msg = nret ()"
| "send_all (a # as) msg = nthen (nignore (send_to_peer a msg)) (send_all as msg)"

definition broadcast :: "network_message \<Rightarrow> unit net" where
  "broadcast msg = nbind (nget collect_broadcast_targets) (\<lambda>peers. send_all peers msg)"

section \<open>Peers and limits\<close>

definition is_peer_allowed :: "network_config \<Rightarrow> string \<Rightarrow> bool" where
  "is_peer_allowed cfg addr =
     (if nc_allowed_peers cfg = [] then True
      else let host = hd (split_char CHR '':'' addr) in
        list_ex (\<lambda>e. let e = trim e in e \<noteq> [] \<and> (e = addr \<or> e = host)) (nc_allowed_peers cfg))"

fun add_seed_candidates :: "network_config \<Rightarrow> string \<Rightarrow> string list \<Rightarrow> string list \<Rightarrow> string list" where
  "add_seed_candidates cfg addr [] seeds = seeds"
| "add_seed_candidates cfg addr (c # cs) seeds =
     (if length seeds \<ge> MAX_SEED_PEERS then seeds
      else let e = trim c in
        if e = [] \<or> length e > 128 \<or> CHR '':'' \<notin> set e \<or> e = addr \<or> e = nc_self_addr cfg \<or>
           \<not> is_peer_allowed cfg e
        then add_seed_candidates cfg addr cs seeds
        else add_seed_candidates cfg addr cs (List.insert e seeds))"

definition update_peer_seeds :: "string \<Rightarrow> string list \<Rightarrow> unit net" where
  "update_peer_seeds addr candidates = nmod (\<lambda>s.
     let seeds = nr_peer_seeds s;
         seeds1 = (if length seeds < MAX_SEED_PEERS then List.insert addr seeds else seeds)
     in s\<lparr>nr_peer_seeds := add_seed_candidates (nr_config s) addr candidates seeds1\<rparr>)"

definition seed_peers_snapshot :: "network_runtime \<Rightarrow> string list" where
  "seed_peers_snapshot s = take 32 (sort (nr_peer_seeds s))"

definition validator_id_for_addr :: "network_runtime \<Rightarrow> string \<Rightarrow> hash option" where
  "validator_id_for_addr s addr =
     map_option pi_validator_id (find (\<lambda>p. pi_address p = addr) (map snd (nr_registry s)))"

definition i32_saturating_sub :: "int \<Rightarrow> int \<Rightarrow> int" where
  "i32_saturating_sub a b = max (- (2 ^ 31)) (min (2 ^ 31 - 1) (a - b))"

definition penalised :: "network_config \<Rightarrow> peer_info \<Rightarrow> peer_info" where
  "penalised cfg p =
     p\<lparr>pi_score := max (i32_saturating_sub (pi_score p) (nc_peer_score_penalty cfg))
                      (i32_saturating_sub (nc_peer_score_ban_threshold cfg) 1),
       pi_violations := u32_saturating_add (pi_violations p) 1\<rparr>"

text \<open>Returns whether the peer is banned now.\<close>

definition record_peer_violation :: "string \<Rightarrow> bool net" where
  "record_peer_violation addr s =
     (case validator_id_for_addr s addr of
        None \<Rightarrow> nret False s
      | Some vid \<Rightarrow>
          (case map_of (nr_registry s) vid of
             None \<Rightarrow> nret False s
           | Some p \<Rightarrow>
               let p1 = penalised (nr_config s) p in
               if pi_score p1 \<le> nc_peer_score_ban_threshold (nr_config s) \<or>
                  pi_violations p1 \<ge> nc_peer_max_violations (nr_config s)
               then nret True (s\<lparr>nr_registry := AList.update vid (p1\<lparr>pi_state := Banned\<rparr>) (nr_registry s)\<rparr>)
               else nret False (s\<lparr>nr_registry := AList.update vid p1 (nr_registry s)\<rparr>)))"

text \<open>Eviction: first the stale entries, then the oldest until there is room.\<close>

fun oldest_key :: "('v \<Rightarrow> nat) \<Rightarrow> ('k, 'v) hashmap \<Rightarrow> 'k option" where
  "oldest_key f [] = None"
| "oldest_key f (e # es) =
     (case oldest_key f es of
        None \<Rightarrow> Some (fst e)
      | Some k \<Rightarrow> (case map_of es k of
          Some v \<Rightarrow> if f (snd e) \<le> f v then Some (fst e) else Some k
        | None \<Rightarrow> Some (fst e)))"

lemma oldest_key_member: "oldest_key f m = Some k \<Longrightarrow> k \<in> fst ` set m"
  by (induction m) (auto split: option.splits if_splits)

lemma oldest_key_None [simp]: "oldest_key f m = None \<longleftrightarrow> m = []"
  by (cases m) (auto split: option.splits)

lemma length_delete_member: "k \<in> fst ` set m \<Longrightarrow> length (AList.delete k m) < length m"
  unfolding AList.delete_eq by (induction m) (auto intro: le_imp_less_Suc)

function evict_oldest_entries :: "nat \<Rightarrow> ('v \<Rightarrow> nat) \<Rightarrow> ('k, 'v) hashmap \<Rightarrow> ('k, 'v) hashmap" where
  "evict_oldest_entries cap f m =
     (if length m \<ge> cap then
        (case oldest_key f m of None \<Rightarrow> m | Some k \<Rightarrow> evict_oldest_entries cap f (AList.delete k m))
      else m)"
  by pat_completeness auto
termination
  by (relation "measure (\<lambda>(cap, f, m). length m)") (auto intro: length_delete_member oldest_key_member)

declare evict_oldest_entries.simps [simp del]

definition make_room :: "nat \<Rightarrow> nat \<Rightarrow> nat \<Rightarrow> ('v \<Rightarrow> nat) \<Rightarrow> string \<Rightarrow> (string, 'v) hashmap \<Rightarrow> (string, 'v) hashmap" where
  "make_room cap win now f addr m =
     (if map_of m addr = None \<and> length m \<ge> cap
      then evict_oldest_entries cap f (filter (\<lambda>e. now - f (snd e) < u64_saturating_mul win 2) m)
      else m)"

definition check_rate_limit :: "nat \<Rightarrow> string \<Rightarrow> bool \<Rightarrow> unit net" where
  "check_rate_limit now addr priority s =
     (let cfg = nr_config s;
          limits = make_room MAX_RATE_LIMIT_ENTRIES (nc_inbound_msg_window_ms cfg) now rt_window_start_ms addr (nr_rate_limits s);
          e0 = (case map_of limits addr of Some e \<Rightarrow> e | None \<Rightarrow> \<lparr>rt_window_start_ms = now, rt_count = 0, rt_violations = 0\<rparr>);
          e1 = (if now - rt_window_start_ms e0 \<ge> nc_inbound_msg_window_ms cfg
                then e0\<lparr>rt_window_start_ms := now, rt_count := 0\<rparr> else e0);
          e2 = e1\<lparr>rt_count := u32_saturating_add (rt_count e1) 1\<rparr>;
          limit = (if priority then u32_saturating_mul (nc_inbound_msg_limit cfg) 2 else nc_inbound_msg_limit cfg)
      in if rt_count e2 > limit
         then let e3 = e2\<lparr>rt_violations := u32_saturating_add (rt_violations e2) 1\<rparr> in
           nbind (record_peer_violation addr)
             (\<lambda>banned. if banned \<or> rt_violations e3 \<ge> nc_peer_max_violations cfg then nfail NeDisconnectRate
                        else nfail NeRate)
             (s\<lparr>nr_rate_limits := AList.update addr e3 limits\<rparr>)
         else nret () (s\<lparr>nr_rate_limits := AList.update addr e2 limits\<rparr>))"

definition bandwidth_entry :: "nat \<Rightarrow> string \<Rightarrow> (string, bandwidth_state) hashmap \<Rightarrow> bandwidth_state" where
  "bandwidth_entry now addr m =
     (case map_of m addr of
        Some e \<Rightarrow> e
      | None \<Rightarrow> \<lparr>bw_inbound_bytes = 0, bw_outbound_bytes = 0, bw_window_start_ms = now\<rparr>)"

definition check_bandwidth_limit :: "nat \<Rightarrow> string \<Rightarrow> unit net" where
  "check_bandwidth_limit now addr s =
     (let cfg = nr_config s;
          usage = make_room MAX_BANDWIDTH_ENTRIES (nc_bandwidth_window_ms cfg) now bw_window_start_ms addr (nr_bandwidth s);
          e0 = bandwidth_entry now addr usage;
          e1 = (if now - bw_window_start_ms e0 \<ge> nc_bandwidth_window_ms cfg
                then \<lparr>bw_inbound_bytes = 0, bw_outbound_bytes = 0, bw_window_start_ms = now\<rparr> else e0);
          s1 = s\<lparr>nr_bandwidth := AList.update addr e1 usage\<rparr>
      in if bw_inbound_bytes e1 > nc_inbound_bytes_limit cfg \<or> bw_outbound_bytes e1 > nc_outbound_bytes_limit cfg
         then nbind (record_peer_violation addr)
                (\<lambda>banned. nfail (if banned then NeDisconnectBandwidth else NeBandwidth)) s1
         else nret () s1)"

definition record_bandwidth :: "nat \<Rightarrow> string \<Rightarrow> nat \<Rightarrow> nat \<Rightarrow> unit net" where
  "record_bandwidth now addr inbound outbound = nmod (\<lambda>s.
     let m = nr_bandwidth s;
         m1 = (if map_of m addr = None \<and> length m \<ge> MAX_BANDWIDTH_ENTRIES
               then (case oldest_key bw_window_start_ms m of Some k \<Rightarrow> AList.delete k m | None \<Rightarrow> m) else m);
         e = bandwidth_entry now addr m1
     in s\<lparr>nr_bandwidth := AList.update addr
            (e\<lparr>bw_inbound_bytes := u64_saturating_add (bw_inbound_bytes e) inbound,
               bw_outbound_bytes := u64_saturating_add (bw_outbound_bytes e) outbound\<rparr>) m1\<rparr>)"

definition current_epoch :: "network_runtime \<Rightarrow> nat" where
  "current_epoch s = epoch (ch_treasury (nr_chain s))"

definition authorised :: "network_runtime \<Rightarrow> hash \<Rightarrow> bool" where
  "authorised s v \<longleftrightarrow> nr_validator_set s = [] \<or> map_of (nr_validator_set s) v \<noteq> None"

section \<open>Hello and heartbeat\<close>

definition signed_hello :: "node_ext \<Rightarrow> net_ext \<Rightarrow> hash \<Rightarrow> hello_message \<Rightarrow> hello_message" where
  "signed_hello X N key msg =
     msg\<lparr>hm_signature := nx_sign X key (nt_message_bytes N (Hello (msg\<lparr>hm_signature := []\<rparr>)))\<rparr>"

definition verify_hello_signature :: "ext \<Rightarrow> net_ext \<Rightarrow> hello_message \<Rightarrow> bool" where
  "verify_hello_signature E N msg \<longleftrightarrow>
     64 \<le> length (hm_signature msg) \<and>
     ex_verify E (hm_validator_id msg) (nt_message_bytes N (Hello (msg\<lparr>hm_signature := []\<rparr>))) (hm_signature msg)"

definition send_hello :: "node_ext \<Rightarrow> net_ext \<Rightarrow> nat \<Rightarrow> string \<Rightarrow> unit net" where
  "send_hello X N now addr s =
     send_to_peer addr (Hello (signed_hello X N (nr_validator_key s)
       \<lparr>hm_validator_id = nr_validator_id s, hm_chain_id = nr_chain_id s,
        hm_current_height = chain_height (nr_chain s), hm_finalized_height = finalized_height (ch_finality (nr_chain s)),
        hm_protocol_version = nc_protocol_version (nr_config s), hm_epoch = current_epoch s,
        hm_known_peers = seed_peers_snapshot s, hm_timestamp_ms = now, hm_signature = []\<rparr>)) s"

definition upsert_peer :: "peer_info \<Rightarrow> unit net" where
  "upsert_peer info s =
     (case registry_upsert (nr_registry s) info of
        Inl (n, cap) \<Rightarrow> nfail (NeRegistryFull n cap) s
      | Inr reg \<Rightarrow> nret () (s\<lparr>nr_registry := reg\<rparr>))"

definition address_taken :: "network_runtime \<Rightarrow> hash \<Rightarrow> string \<Rightarrow> bool" where
  "address_taken s v addr \<longleftrightarrow>
     (case map_of (nr_registry s) v of
        Some p \<Rightarrow> pi_address p \<noteq> addr \<and> pi_state p = Connected
      | None \<Rightarrow> False)"

definition abs_diff :: "nat \<Rightarrow> nat \<Rightarrow> nat" where
  "abs_diff a b = (if a \<ge> b then a - b else b - a)"

definition handle_hello :: "ext \<Rightarrow> net_ext \<Rightarrow> nat \<Rightarrow> hello_message \<Rightarrow> string \<Rightarrow> unit net" where
  "handle_hello E N now msg addr s =
     (nthen (nreject (hm_chain_id msg \<noteq> nr_chain_id s) NeHelloChainId)
     (nthen (nreject (hm_protocol_version msg \<noteq> nc_protocol_version (nr_config s)) NeHelloVersion)
     (nthen (nreject (hm_epoch msg \<noteq> current_epoch s) NeHelloEpoch)
     (nthen (nreject (hm_timestamp_ms msg = 0 \<or> abs_diff now (hm_timestamp_ms msg) > HELLO_MAX_SKEW_MS)
               (NeHelloTimestamp now (hm_timestamp_ms msg)))
     (nthen (nreject (\<not> verify_hello_signature E N msg) NeHelloSignature)
     (nthen (nreject (\<not> authorised s (hm_validator_id msg)) NeHelloUnauthorized)
     (nthen (nreject (address_taken s (hm_validator_id msg) addr) NeHelloAddress)
     (nthen (update_peer_seeds addr (hm_known_peers msg))
       (upsert_peer
         \<lparr>pi_validator_id = hm_validator_id msg, pi_address = addr, pi_current_height = hm_current_height msg,
          pi_finalized_height = hm_finalized_height msg, pi_protocol_version = hm_protocol_version msg,
          pi_last_seen_ms = now, pi_score = nc_peer_score_initial (nr_config s), pi_violations = 0,
          pi_last_score_decay_ms = now, pi_last_violation_forgive_ms = now, pi_state = Connected\<rparr>)))))))) s)"

definition handle_heartbeat :: "heartbeat_message \<Rightarrow> string \<Rightarrow> unit net" where
  "handle_heartbeat msg addr s =
     (let v = hb_validator_id msg in
      nthen (nreject (\<not> authorised s v) NeHeartbeatUnauthorized)
     (nthen (nreject (hb_protocol_version msg \<noteq> nc_protocol_version (nr_config s)) NeHeartbeatVersion)
     (nthen (nreject (hb_epoch msg \<noteq> current_epoch s) NeHeartbeatEpoch)
       (case map_of (nr_registry s) v of
          Some p \<Rightarrow>
            nthen (nreject (pi_address p \<noteq> addr \<and> pi_state p = Connected) NeHeartbeatAddress)
              (nmod (\<lambda>s. s\<lparr>nr_registry := AList.update v
                 (p\<lparr>pi_current_height := hb_current_height msg, pi_last_seen_ms := hb_timestamp_ms msg,
                    pi_state := Connected\<rparr>) (nr_registry s)\<rparr>))
        | None \<Rightarrow>
            upsert_peer
              \<lparr>pi_validator_id = v, pi_address = addr, pi_current_height = hb_current_height msg,
               pi_finalized_height = hb_current_height msg - 2, pi_protocol_version = nc_protocol_version (nr_config s),
               pi_last_seen_ms = hb_timestamp_ms msg, pi_score = nc_peer_score_initial (nr_config s), pi_violations = 0,
               pi_last_score_decay_ms = hb_timestamp_ms msg, pi_last_violation_forgive_ms = hb_timestamp_ms msg,
               pi_state = Connected\<rparr>))) s)"

definition collect_peer_targets :: "network_runtime \<Rightarrow> string list" where
  "collect_peer_targets s =
     sort (remdups (nr_peer_seeds s @
       map pi_address (filter (\<lambda>p. pi_state p \<noteq> Banned \<and> authorised s (pi_validator_id p)) (map snd (nr_registry s)))))"

text \<open>The addresses that a tick of the connection loop dials.\<close>

definition dial_targets :: "nat \<Rightarrow> network_runtime \<Rightarrow> string list" where
  "dial_targets now s =
     filter (\<lambda>a. a \<noteq> nc_self_addr (nr_config s) \<and> map_of (nr_connections s) a = None \<and>
       now \<ge> u64_saturating_add (case map_of (nr_backoff s) a of Some t \<Rightarrow> t | None \<Rightarrow> 0) CONNECT_BACKOFF_MS)
       (collect_peer_targets s)"

definition dial_failed :: "nat \<Rightarrow> string \<Rightarrow> network_runtime \<Rightarrow> network_runtime" where
  "dial_failed now addr s = s\<lparr>nr_backoff := AList.update addr now (nr_backoff s)\<rparr>"

definition dial_succeeded :: "string \<Rightarrow> network_runtime \<Rightarrow> network_runtime" where
  "dial_succeeded addr s = s\<lparr>nr_backoff := AList.delete addr (nr_backoff s)\<rparr>"

definition proposer_for_height_round :: "network_runtime \<Rightarrow> nat \<Rightarrow> nat \<Rightarrow> hash option" where
  "proposer_for_height_round s h r =
     (if nr_validator_set s = [] then Some (nr_validator_id s)
      else map_option va_node_id
        (round_robin_proposer (sort_key va_node_id (map (authority_for \<circ> fst) (nr_validator_set s)))
          (u64_saturating_add h r)))"

definition is_proposer_for_height_round :: "network_runtime \<Rightarrow> nat \<Rightarrow> nat \<Rightarrow> bool" where
  "is_proposer_for_height_round s h r \<longleftrightarrow> proposer_for_height_round s h r = Some (nr_validator_id s)"

definition effective_min_peers :: "network_runtime \<Rightarrow> nat" where
  "effective_min_peers s = min (nc_min_connected_peers (nr_config s)) (length (nr_validator_set s) - 1)"

definition proposer_diversity_gate_allows :: "network_runtime \<Rightarrow> bool" where
  "proposer_diversity_gate_allows s =
     (if \<not> nc_enable (nr_config s) then True
      else if effective_min_peers s = 0 then True
      else is_ok (check_diversity_with (nr_registry s) (effective_min_peers s) (nc_max_same_subnet_pct (nr_config s))))"

fun disconnect_first :: "string \<Rightarrow> peer_registry \<Rightarrow> peer_registry" where
  "disconnect_first addr [] = []"
| "disconnect_first addr ((k, p) # rest) =
     (if pi_address p = addr \<and> pi_state p = Connected then (k, p\<lparr>pi_state := Disconnected\<rparr>) # rest
      else (k, p) # disconnect_first addr rest)"

definition mark_peer_disconnected :: "string \<Rightarrow> network_runtime \<Rightarrow> network_runtime" where
  "mark_peer_disconnected addr s = s\<lparr>nr_registry := disconnect_first addr (nr_registry s)\<rparr>"

definition open_connection :: "node_ext \<Rightarrow> net_ext \<Rightarrow> nat \<Rightarrow> string \<Rightarrow> unit net" where
  "open_connection X N now addr =
     nthen (nmod (\<lambda>s. s\<lparr>nr_connections := AList.update addr True (nr_connections s)\<rparr>))
       (nignore (send_hello X N now addr))"

definition close_connection :: "string \<Rightarrow> network_runtime \<Rightarrow> network_runtime" where
  "close_connection addr s =
     mark_peer_disconnected addr (s\<lparr>nr_connections := AList.delete addr (nr_connections s)\<rparr>)"


section \<open>Gossip, requests and law synchronization\<close>

definition handle_tx_gossip :: "ext \<Rightarrow> transaction_gossip_message \<Rightarrow> unit net" where
  "handle_tx_gossip E msg =
     (let tx = tg_transaction msg in
      nthen (nreject (length (signature tx) < 64) NeTxSignatureShort)
     (nthen (nreject (\<not> ex_verify E (public_key (actor tx)) (canonical_tx_bytes E tx) (signature tx)) NeTxSignature)
       (nmod (\<lambda>s. case submit_transition (nr_chain s) tx of
                     Inl _ \<Rightarrow> s
                   | Inr c \<Rightarrow> s\<lparr>nr_chain := c\<rparr>))))"

definition verify_law_sync_signature :: "ext \<Rightarrow> net_ext \<Rightarrow> law_sync_message \<Rightarrow> bool" where
  "verify_law_sync_signature E N msg \<longleftrightarrow>
     64 \<le> length (lm_signature msg) \<and>
     ex_verify E (lm_validator_id msg) (nt_message_bytes N (LawSync (msg\<lparr>lm_signature := []\<rparr>))) (lm_signature msg)"

definition handle_law_sync :: "ext \<Rightarrow> net_ext \<Rightarrow> law_sync_message \<Rightarrow> unit net" where
  "handle_law_sync E N msg s =
     nthen (nreject (\<not> verify_law_sync_signature E N msg) NeLawSignature)
       (nreject (lm_protocol_version msg \<noteq> nc_protocol_version (nr_config s)) NeLawVersion) s"

definition handle_block_request :: "block_request_message \<Rightarrow> string \<Rightarrow> unit net" where
  "handle_block_request msg addr s =
     send_to_peer addr (BlockResponse \<lparr>rp_responder_id = nr_validator_id s,
       rp_block = block_at (nr_chain s) (rq_height msg), rp_height = rq_height msg\<rparr>) s"

definition flush_chain :: "chain \<Rightarrow> chain" where
  "flush_chain c = c\<lparr>ch_state := snd (flush_store (ch_state c))\<rparr>"

definition drop_height :: "hash \<Rightarrow> nat \<Rightarrow> network_runtime \<Rightarrow> network_runtime" where
  "drop_height blk h s = s\<lparr>nr_pending := AList.delete blk (nr_pending s), nr_rounds := AList.delete h (nr_rounds s)\<rparr>"

definition handle_block_response :: "ext \<Rightarrow> node_ext \<Rightarrow> net_ext \<Rightarrow> block_response_message \<Rightarrow> unit net" where
  "handle_block_response E X N msg s =
     (case rp_block msg of
        None \<Rightarrow> nret () s
      | Some b \<Rightarrow>
          (case import_block E X (nr_chain s) b of
             None \<Rightarrow> None
           | Some (Inl _, c) \<Rightarrow> nret () (s\<lparr>nr_chain := c\<rparr>)
           | Some (Inr _, c) \<Rightarrow>
               nthen (nmod (drop_height (bh_block_id (header b)) (bh_height (header b)))) (persist_consensus_state N)
                 (s\<lparr>nr_chain := flush_chain c\<rparr>)))"

section \<open>Votes and rounds\<close>

definition sign_vote_with_epoch ::
  "node_ext \<Rightarrow> net_ext \<Rightarrow> network_runtime \<Rightarrow> nat \<Rightarrow> hash \<Rightarrow> nat \<Rightarrow> nat \<Rightarrow> vote_type \<Rightarrow> vote" where
  "sign_vote_with_epoch X N s ep blk h r ty =
     \<lparr>validator_id = nr_validator_id s, v_block_hash = blk, v_height = h, v_round = r, vote_type_of = ty,
      v_signature = nx_sign X (nr_validator_key s) (vote_sign_data (nt_vote_canon N) (nr_chain_id s) ep blk h r ty)\<rparr>"

definition is_local_validator_active :: "network_runtime \<Rightarrow> bool" where
  "is_local_validator_active s \<longleftrightarrow> map_of (nr_validator_set s) (nr_validator_id s) \<noteq> None"

definition consensus_quorum :: "network_runtime \<Rightarrow> nat" where
  "consensus_quorum s =
     (let n = usize_as_u32 (length (nr_validator_set s)) in
      case gov_finality_mode (ws_governance_state (state (ch_state (nr_chain s)))) of
        BftCertified t \<Rightarrow> (let q = max t 1 in if n > 0 \<and> q > n then n else q)
      | Deterministic \<Rightarrow> 1)"

definition verify_vote_signature :: "ext \<Rightarrow> net_ext \<Rightarrow> vote \<Rightarrow> nat \<Rightarrow> unit net" where
  "verify_vote_signature E N v ep s =
     (case map_of (nr_validator_set s) (validator_id v) of
        None \<Rightarrow> nfail (NeVoteUnauthorized (validator_id v)) s
      | Some pk \<Rightarrow>
          if length (v_signature v) < 64 then nfail NeVoteSignatureShort s
          else if \<not> ex_verify E pk (vote_sign_data (nt_vote_canon N) (nr_chain_id s) ep (v_block_hash v) (v_height v)
                 (v_round v) (vote_type_of v)) (v_signature v)
          then nfail NeVoteSignature s
          else nret () s)"

definition set_round :: "nat \<Rightarrow> consensus_round \<Rightarrow> network_runtime \<Rightarrow> network_runtime" where
  "set_round h r s =
     (case map_of (nr_rounds s) h of
        None \<Rightarrow> s
      | Some rs \<Rightarrow> s\<lparr>nr_rounds := AList.update h (rs\<lparr>rs_round := r\<rparr>) (nr_rounds s)\<rparr>)"

text \<open>The round of a height, created with the quorum of the finality mode when there is none.\<close>

definition ensure_round :: "nat \<Rightarrow> nat \<Rightarrow> hash \<Rightarrow> nat \<Rightarrow> network_runtime \<Rightarrow> network_runtime" where
  "ensure_round now h blk r s =
     (case map_of (nr_rounds s) h of
        Some _ \<Rightarrow> s
      | None \<Rightarrow> s\<lparr>nr_rounds := AList.update h
          \<lparr>rs_round = (round_new (nr_chain_id s) (current_epoch s) blk h r (nr_validator_set s)
              (nc_max_rounds (nr_config s)))\<lparr>quorum := consensus_quorum s\<rparr>,
           rs_last_round_ms = now\<rparr> (nr_rounds s)\<rparr>)"

definition round_at :: "network_runtime \<Rightarrow> nat \<Rightarrow> consensus_round option" where
  "round_at s h = map_option rs_round (map_of (nr_rounds s) h)"

section \<open>Advancing a height\<close>

definition cast_precommit :: "node_ext \<Rightarrow> net_ext \<Rightarrow> nat \<Rightarrow> consensus_round \<Rightarrow> consensus_round net" where
  "cast_precommit X N h r s =
     (if has_prevote_quorum r \<and> map_of (precommits r) (nr_validator_id s) = None \<and> is_local_validator_active s
      then let v = sign_vote_with_epoch X N s (cr_epoch r) (block_hash r) h (cr_round r) Precommit;
               r' = (case add_precommit (nt_verify_strict N) (nt_vote_canon N) r v of Inr r' \<Rightarrow> r' | Inl _ \<Rightarrow> r)
           in nthen (broadcast (ConsensusVote v)) (nret r') s
      else nret r s)"

definition finalize_pending :: "ext \<Rightarrow> node_ext \<Rightarrow> hash \<Rightarrow> safety_certificate \<Rightarrow> unit net" where
  "finalize_pending E X blk cert s =
     (case map_of (nr_pending s) blk of
        None \<Rightarrow> nret () s
      | Some b \<Rightarrow>
          let s1 = s\<lparr>nr_pending := AList.delete blk (nr_pending s)\<rparr> in
          (case import_block E X (nr_chain s1) b of
             None \<Rightarrow> None
           | Some (Inl _, c) \<Rightarrow> nret () (s1\<lparr>nr_chain := c\<rparr>)
           | Some (Inr _, c) \<Rightarrow>
               broadcast (FinalityCertificate cert)
                 (s1\<lparr>nr_chain := flush_chain (record_safety_certificate c cert)\<rparr>)))"

definition settle_round ::
  "ext \<Rightarrow> node_ext \<Rightarrow> net_ext \<Rightarrow> nat \<Rightarrow> bool \<Rightarrow> consensus_result \<times> consensus_round \<Rightarrow> unit net" where
  "settle_round E X N h had_quorum res =
     (let r = snd res in
      case fst res of
        Finalized _ _ _ \<Rightarrow>
          nthen (nmod (set_round h r))
         (nbind (nget (\<lambda>s. cert_from_round (nr_chain_id s) (cr_epoch r) (block_hash r) h (cr_round r) (precommits r) (validator_count r)))
            (\<lambda>cert. nthen (finalize_pending E X (block_hash r) cert)
               (nmod (\<lambda>s. clear_saved (s\<lparr>nr_rounds := AList.delete h (nr_rounds s)\<rparr>)))))
      | NextRound _ \<Rightarrow>
          nmod (set_round h (r\<lparr>phase := (if had_quorum then PhPrecommit else PhPrevote)\<rparr>))
      | Aborted _ \<Rightarrow>
          nthen (nmod (\<lambda>s. let s1 = s\<lparr>nr_rounds := AList.delete h (nr_rounds s)\<rparr>
                            in if block_hash r \<noteq> ZERO_HASH then s1\<lparr>nr_pending := AList.delete (block_hash r) (nr_pending s1)\<rparr> else s1))
            (persist_consensus_state N))"

definition maybe_advance_consensus :: "ext \<Rightarrow> node_ext \<Rightarrow> net_ext \<Rightarrow> nat \<Rightarrow> unit net" where
  "maybe_advance_consensus E X N h s =
     nthen (if nc_enable (nr_config s)
            then nlift (check_diversity_with (nr_registry s) (effective_min_peers s) (nc_max_same_subnet_pct (nr_config s))) NeDiversity
            else nret ())
       (case round_at s h of
          None \<Rightarrow> nret ()
        | Some r \<Rightarrow>
            nbind (cast_precommit X N h r)
              (\<lambda>r'. settle_round E X N h (has_prevote_quorum r) (round_evaluate r'))) s"

section \<open>Block proposals\<close>

definition signed_block_proposal :: "node_ext \<Rightarrow> net_ext \<Rightarrow> hash \<Rightarrow> block_proposal_message \<Rightarrow> block_proposal_message" where
  "signed_block_proposal X N key msg =
     msg\<lparr>bp_signature := nx_sign X key (nt_message_bytes N (BlockProposal (msg\<lparr>bp_signature := []\<rparr>)))\<rparr>"

definition verify_block_proposal_signature :: "ext \<Rightarrow> net_ext \<Rightarrow> block_proposal_message \<Rightarrow> bool" where
  "verify_block_proposal_signature E N msg \<longleftrightarrow>
     64 \<le> length (bp_signature msg) \<and>
     ex_verify E (bp_proposer_id msg) (nt_message_bytes N (BlockProposal (msg\<lparr>bp_signature := []\<rparr>))) (bp_signature msg)"

definition check_candidate :: "ext \<Rightarrow> node_ext \<Rightarrow> block \<Rightarrow> nat \<Rightarrow> unit net" where
  "check_candidate E X b r s =
     (case validate_candidate_block_for_round E X (nr_chain s) b (Some r) of
        None \<Rightarrow> None
      | Some (Inl e, c) \<Rightarrow> nfail (NeCandidate e) (s\<lparr>nr_chain := c\<rparr>)
      | Some (Inr _, c) \<Rightarrow> nret () (s\<lparr>nr_chain := c\<rparr>))"

definition store_pending :: "block \<Rightarrow> unit net" where
  "store_pending b s =
     (let k = bh_block_id (header b) in
      if map_of (nr_pending s) k = None \<and> length (nr_pending s) \<ge> MAX_PENDING_BLOCKS
      then nfail NePendingFull s
      else nret () (s\<lparr>nr_pending := AList.update k b (nr_pending s)\<rparr>))"

text \<open>Matching a proposal against the round of its height, and the own prevote.\<close>

definition join_round :: "node_ext \<Rightarrow> net_ext \<Rightarrow> nat \<Rightarrow> hash \<Rightarrow> nat \<Rightarrow> unit net" where
  "join_round X N h blk r s =
     (case round_at s h of
        None \<Rightarrow> nret () s
      | Some cr \<Rightarrow>
          if cr_epoch cr \<noteq> current_epoch s then nfail NeConsensusEpoch s
          else if cr_round cr \<noteq> r then nfail (NeConsensusRound (cr_round cr) r) s
          else if block_hash cr \<noteq> ZERO_HASH \<and> block_hash cr \<noteq> blk then nfail NeOtherBlock s
          else
            let cr1 = cr\<lparr>block_hash := blk\<rparr>; s1 = set_round h cr1 s in
            if map_of (prevotes cr1) (nr_validator_id s1) = None \<and> is_local_validator_active s1
            then let v = sign_vote_with_epoch X N s1 (current_epoch s1) blk h r Prevote in
              (case add_prevote (nt_verify_strict N) (nt_vote_canon N) cr1 v of
                 Inl e \<Rightarrow> nfail (NeOwnVote e) s1
               | Inr cr2 \<Rightarrow> broadcast (ConsensusVote v) (set_round h cr2 s1))
            else nret () s1)"

definition check_proposer_id :: "block_proposal_message \<Rightarrow> unit net" where
  "check_proposer_id msg s =
     (let h = bh_height (header (bp_block msg)) in
      nthen (nreject (\<not> authorised s (bp_proposer_id msg)) NeProposerUnauthorized)
        (case proposer_for_height_round s h (bp_round msg) of
           Some expected \<Rightarrow> nreject (expected \<noteq> bp_proposer_id msg) (NeProposerExpected expected h (bp_round msg))
         | None \<Rightarrow> nret ()) s)"

definition handle_block_proposal :: "ext \<Rightarrow> node_ext \<Rightarrow> net_ext \<Rightarrow> nat \<Rightarrow> block_proposal_message \<Rightarrow> unit net" where
  "handle_block_proposal E X N now msg =
     (let b = bp_block msg; h = bh_height (header b); blk = bh_block_id (header b); r = bp_round msg in
      nthen (nreject (\<not> verify_block_proposal_signature E N msg) NeProposalSignature)
     (nthen sync_validator_set_from_chain_if_unconfigured
     (nthen (nreject (bp_proposer_id msg \<noteq> bh_validator_id (header b)) NeProposerMismatch)
     (nthen (check_proposer_id msg)
     (nthen (check_candidate E X b r)
     (nthen (store_pending b)
     (nthen (nmod (ensure_round now h blk r))
     (nthen (join_round X N h blk r)
     (nthen (persist_consensus_state N)
     (nthen (maybe_advance_consensus E X N h)
       (nbind (nget nr_validator_id)
         (\<lambda>vid. nwhen (bp_proposer_id msg \<noteq> vid) (broadcast (BlockProposal msg))))))))))))))"

section \<open>Equivocation\<close>

fun evict_keys :: "equivocation_key list \<Rightarrow> equivocation_key list \<Rightarrow> equivocation_key list \<times> equivocation_key list" where
  "evict_keys seen [] = (seen, [])"
| "evict_keys seen (k # order) =
     (if length seen \<ge> MAX_EQUIVOCATION_DEDUP then evict_keys (removeAll k seen) order else (seen, k # order))"

definition equivocation_key_of :: "vote \<Rightarrow> vote \<Rightarrow> nat \<Rightarrow> equivocation_key" where
  "equivocation_key_of a b ep =
     \<lparr>ek_validator_id = validator_id a, ek_height = v_height a, ek_round = v_round a,
      ek_vote_type = vote_type_code (vote_type_of a),
      ek_block_hash_a = min (v_block_hash a) (v_block_hash b), ek_block_hash_b = max (v_block_hash a) (v_block_hash b),
      ek_epoch = ep\<rparr>"

definition proof_of_votes :: "vote \<Rightarrow> vote \<Rightarrow> equivocation_proof" where
  "proof_of_votes a b =
     \<lparr>ep_validator_id = validator_id a, ep_height = v_height a, ep_round = v_round a, ep_vote_type = vote_type_of a,
      ep_block_hash_a = min (v_block_hash a) (v_block_hash b), ep_block_hash_b = max (v_block_hash a) (v_block_hash b)\<rparr>"

definition slash_and_record :: "equivocation_proof \<Rightarrow> nat \<Rightarrow> chain \<Rightarrow> chain" where
  "slash_and_record prf ep c =
     (let c1 = (case slash_double_sign (ch_slashing c) prf ep of
                  Inr (ev, eng) \<Rightarrow> snd (execute_slashing_penalty (c\<lparr>ch_slashing := eng\<rparr>) (se_validator_id ev) (se_penalty ev))
                | Inl _ \<Rightarrow> c)
      in record_equivocation c1 prf ep)"

definition conflicting :: "vote \<Rightarrow> vote \<Rightarrow> bool" where
  "conflicting a b \<longleftrightarrow> validator_id a = validator_id b \<and> v_height a = v_height b \<and> v_round a = v_round b \<and>
     vote_type_of a = vote_type_of b \<and> v_block_hash a \<noteq> v_block_hash b"

definition net_record_equivocation :: "ext \<Rightarrow> net_ext \<Rightarrow> vote \<Rightarrow> vote \<Rightarrow> nat \<Rightarrow> bool \<Rightarrow> unit net" where
  "net_record_equivocation E N a b ep do_broadcast s =
     (if \<not> conflicting a b then nret () s
      else
        nthen (verify_vote_signature E N a ep)
       (nthen (verify_vote_signature E N b ep)
         (let key = equivocation_key_of a b ep in
          if key \<in> set (nr_equivocations s) then nret ()
          else
            nthen (nmod (\<lambda>s. let (seen, order) = evict_keys (nr_equivocations s) (nr_equivocations_order s) in
                     s\<lparr>nr_equivocations := seen @ [key], nr_equivocations_order := order @ [key],
                       nr_chain := slash_and_record (proof_of_votes a b) ep (nr_chain s)\<rparr>))
              (nwhen do_broadcast (broadcast (EquivocationEvidence \<lparr>ee_vote_a = a, ee_vote_b = b, ee_epoch = ep\<rparr>))))) s)"

definition handle_equivocation_evidence :: "ext \<Rightarrow> net_ext \<Rightarrow> equivocation_evidence_message \<Rightarrow> unit net" where
  "handle_equivocation_evidence E N msg =
     net_record_equivocation E N (ee_vote_a msg) (ee_vote_b msg) (ee_epoch msg) False"

section \<open>Consensus votes\<close>

text \<open>Adding a vote: a conflicting earlier vote of the same validator, or whether the vote was added.\<close>

definition tally_vote :: "net_ext \<Rightarrow> consensus_round \<Rightarrow> vote \<Rightarrow> vote option \<times> consensus_round option" where
  "tally_vote N cr v =
     (case vote_type_of v of
        Prevote \<Rightarrow>
          (case map_of (prevotes cr) (validator_id v) of
             Some old \<Rightarrow> (if v_block_hash old \<noteq> v_block_hash v then Some old else None, None)
           | None \<Rightarrow> (None, case add_prevote (nt_verify_strict N) (nt_vote_canon N) cr v of Inr r \<Rightarrow> Some r | Inl _ \<Rightarrow> None))
      | Precommit \<Rightarrow>
          (case map_of (precommits cr) (validator_id v) of
             Some old \<Rightarrow> (if v_block_hash old \<noteq> v_block_hash v then Some old else None, None)
           | None \<Rightarrow> (None, case add_precommit (nt_verify_strict N) (nt_vote_canon N) cr v of Inr r \<Rightarrow> Some r | Inl _ \<Rightarrow> None))
      | Nil_vote \<Rightarrow> (None, None))"

definition process_vote :: "ext \<Rightarrow> node_ext \<Rightarrow> net_ext \<Rightarrow> vote \<Rightarrow> unit net" where
  "process_vote E X N v s =
     (case round_at s (v_height v) of
        None \<Rightarrow> nret () s
      | Some cr \<Rightarrow>
          if cr_epoch cr \<noteq> current_epoch s \<or> block_hash cr = ZERO_HASH \<or> v_block_hash v \<noteq> block_hash cr then nret () s
          else case tally_vote N cr v of
            (existing, added) \<Rightarrow>
              nthen (case added of
                       None \<Rightarrow> nret ()
                     | Some cr' \<Rightarrow>
                         nthen (nmod (set_round (v_height v) cr'))
                        (nthen (persist_consensus_state N)
                          (nwhen (validator_id v \<noteq> nr_validator_id s) (broadcast (ConsensusVote v)))))
                (case existing of
                   Some old \<Rightarrow> net_record_equivocation E N old v (current_epoch s) True
                 | None \<Rightarrow> maybe_advance_consensus E X N (v_height v)) s)"

definition handle_consensus_vote :: "ext \<Rightarrow> node_ext \<Rightarrow> net_ext \<Rightarrow> nat \<Rightarrow> vote \<Rightarrow> unit net" where
  "handle_consensus_vote E X N now v =
     (if v_height v = 0 then nret ()
      else
        nthen sync_validator_set_from_chain_if_unconfigured
       (nbind (nget (\<lambda>s. map_of (nr_pending s) (v_block_hash v)))
         (\<lambda>pending.
            if pending = None then nret ()
            else
              nbind (nget current_epoch) (\<lambda>ep.
              nthen (verify_vote_signature E N v ep)
             (nthen (nmod (ensure_round now (v_height v) (v_block_hash v) (v_round v)))
                (process_vote E X N v))))))"

definition handle_finality_certificate :: "net_ext \<Rightarrow> safety_certificate \<Rightarrow> unit net" where
  "handle_finality_certificate N cert =
     nthen sync_validator_set_from_chain_if_unconfigured
    (nbind (nget nr_validator_set) (\<lambda>vs.
     nthen (nlift (verify_cryptographic (nt_verify_strict N) (nt_vote_canon N) cert vs) NeCertificate)
    (nbind (nget (\<lambda>s. case block_at (nr_chain s) (sc_height cert) of
                        Some b \<Rightarrow> bh_block_id (header b) = sc_block_hash cert
                      | None \<Rightarrow> False)) (\<lambda>known.
     nthen (nreject (\<not> known) NeCertificateUnknown)
    (nthen (nmod (\<lambda>s. drop_height (sc_block_hash cert) (sc_height cert)
              (s\<lparr>nr_chain := flush_chain (record_safety_certificate (nr_chain s) cert)\<rparr>)))
       (persist_consensus_state N))))))"


section \<open>Dispatch\<close>

definition is_priority :: "network_message \<Rightarrow> bool" where
  "is_priority m \<longleftrightarrow>
     (case m of ConsensusVote _ \<Rightarrow> True | BlockProposal _ \<Rightarrow> True | FinalityCertificate _ \<Rightarrow> True | LawSync _ \<Rightarrow> True | _ \<Rightarrow> False)"

text \<open>
  The code looks for five phrases in the text of an error. These are the errors whose text has one of them; of
  the errors of block validation only that of the proof check can quote other texts.
\<close>

fun should_penalize_error :: "net_ext \<Rightarrow> net_error \<Rightarrow> bool" where
  "should_penalize_error N NeHelloVersion = True"
| "should_penalize_error N NeHelloEpoch = True"
| "should_penalize_error N NeHelloSignature = True"
| "should_penalize_error N NeHelloUnauthorized = True"
| "should_penalize_error N NeHeartbeatUnauthorized = True"
| "should_penalize_error N NeHeartbeatVersion = True"
| "should_penalize_error N NeHeartbeatEpoch = True"
| "should_penalize_error N NeLawSignature = True"
| "should_penalize_error N NeLawVersion = True"
| "should_penalize_error N NeProposalSignature = True"
| "should_penalize_error N NeProposerMismatch = True"
| "should_penalize_error N NeProposerUnauthorized = True"
| "should_penalize_error N (NeProposerExpected _ _ _) = True"
| "should_penalize_error N (NeCandidate (ChProposerUnknown _)) = True"
| "should_penalize_error N (NeCandidate (ChCpog es)) = nt_cpog_blamed N es"
| "should_penalize_error N NeConsensusEpoch = True"
| "should_penalize_error N (NeOwnVote (NotInValidatorSet _)) = True"
| "should_penalize_error N (NeVoteUnauthorized _) = True"
| "should_penalize_error N _ = False"

definition dispatch :: "ext \<Rightarrow> node_ext \<Rightarrow> net_ext \<Rightarrow> nat \<Rightarrow> network_message \<Rightarrow> string \<Rightarrow> unit net" where
  "dispatch E X N now m addr =
     (case m of
        Hello msg \<Rightarrow> handle_hello E N now msg addr
      | Heartbeat msg \<Rightarrow> handle_heartbeat msg addr
      | TransactionGossip msg \<Rightarrow> handle_tx_gossip E msg
      | BlockProposal msg \<Rightarrow> handle_block_proposal E X N now msg
      | BlockRequest msg \<Rightarrow> handle_block_request msg addr
      | BlockResponse msg \<Rightarrow> handle_block_response E X N msg
      | ConsensusVote v \<Rightarrow> handle_consensus_vote E X N now v
      | EquivocationEvidence msg \<Rightarrow> handle_equivocation_evidence E N msg
      | FinalityCertificate cert \<Rightarrow> handle_finality_certificate N cert
      | LawSync msg \<Rightarrow> handle_law_sync E N msg)"

definition penalise_failure :: "net_ext \<Rightarrow> string \<Rightarrow> net_error \<Rightarrow> unit net" where
  "penalise_failure N addr e =
     (if should_penalize_error N e
      then nbind (record_peer_violation addr) (\<lambda>banned. nfail (if banned then NeDisconnectViolation else e))
      else nfail e)"

definition handle_message :: "ext \<Rightarrow> node_ext \<Rightarrow> net_ext \<Rightarrow> nat \<Rightarrow> network_message \<Rightarrow> string \<Rightarrow> unit net" where
  "handle_message E X N now m addr =
     nthen (check_rate_limit now addr (is_priority m))
    (nthen (check_bandwidth_limit now addr)
      (\<lambda>s. case dispatch E X N now m addr s of
             None \<Rightarrow> None
           | Some (Inl e, s') \<Rightarrow> penalise_failure N addr e s'
           | Some (Inr u, s') \<Rightarrow> Some (Inr u, s')))"

definition is_disconnect :: "net_error \<Rightarrow> bool" where
  "is_disconnect e \<longleftrightarrow> e \<in> {NeDisconnectRate, NeDisconnectBandwidth, NeDisconnectViolation}"

text \<open>A frame that arrives on a connection: its size is recorded, a disconnect error closes the connection.\<close>

definition receive_message :: "ext \<Rightarrow> node_ext \<Rightarrow> net_ext \<Rightarrow> nat \<Rightarrow> string \<Rightarrow> nat \<Rightarrow> network_message \<Rightarrow> unit net" where
  "receive_message E X N now addr n m s =
     (case nthen (record_bandwidth now addr n 0) (handle_message E X N now m addr) s of
        None \<Rightarrow> None
      | Some (Inl e, s') \<Rightarrow> Some (Inl e, if is_disconnect e then close_connection addr s' else s')
      | Some (Inr u, s') \<Rightarrow> Some (Inr u, s'))"

section \<open>Frames\<close>

definition MAX_FRAME :: nat where "MAX_FRAME = 8 * 1024 * 1024"

definition u32_to_be_bytes :: "nat \<Rightarrow> bytes" where
  "u32_to_be_bytes n = rev (le_bytes 4 n)"

definition u32_from_be_bytes :: "bytes \<Rightarrow> nat" where
  "u32_from_be_bytes bs = of_le_bytes (rev bs)"

definition write_frame :: "bytes \<Rightarrow> nat + bytes" where
  "write_frame bs =
     (let n = length bs in
      if n = 0 \<or> n > MAX_FRAME then Inl n else Inr (u32_to_be_bytes n @ bs))"

datatype frame_error = FrameHeaderShort | FrameLength nat | FramePayloadShort

text \<open>Reading a frame from the bytes of a stream gives the payload and the bytes that follow.\<close>

definition read_frame :: "bytes \<Rightarrow> frame_error + (bytes \<times> bytes)" where
  "read_frame bs =
     (if length bs < 4 then Inl FrameHeaderShort
      else
        let n = u32_from_be_bytes (take 4 bs); rest = drop 4 bs in
        if n = 0 \<or> n > MAX_FRAME then Inl (FrameLength n)
        else if length rest < n then Inl FramePayloadShort
        else Inr (take n rest, drop n rest))"

section \<open>Periodic tasks\<close>

definition advance_round_if_timed_out :: "network_config \<Rightarrow> nat \<Rightarrow> round_state \<Rightarrow> (hash \<times> round_state) option" where
  "advance_round_if_timed_out cfg now rs =
     (if now - rs_last_round_ms rs < nc_round_timeout_ms cfg then None
      else
        let r = rs_round rs; old = block_hash r in
        if cr_round r \<ge> nc_max_rounds cfg
        then Some (old, rs\<lparr>rs_round := r\<lparr>phase := PhAbort\<rparr>\<rparr>)
        else Some (old, rs\<lparr>rs_round := r\<lparr>cr_round := u32_saturating_add (cr_round r) 1, phase := PhPropose,
                                         prevotes := [], precommits := [], block_hash := ZERO_HASH\<rparr>,
                          rs_last_round_ms := now\<rparr>))"

text \<open>One sweep over the rounds: the rounds that stay, the blocks to forget, whether anything changed.\<close>

fun timeout_sweep ::
  "network_config \<Rightarrow> nat \<Rightarrow> nat \<Rightarrow> (nat, round_state) hashmap \<Rightarrow>
   (nat, round_state) hashmap \<times> hash list \<times> bool" where
  "timeout_sweep cfg now ep [] = ([], [], False)"
| "timeout_sweep cfg now ep ((h, rs) # rest) =
     (case timeout_sweep cfg now ep rest of (kept, stale, changed) \<Rightarrow>
        if cr_epoch (rs_round rs) \<noteq> ep
        then (kept, (if block_hash (rs_round rs) \<noteq> ZERO_HASH then [block_hash (rs_round rs)] else []) @ stale, True)
        else case advance_round_if_timed_out cfg now rs of
            None \<Rightarrow> ((h, rs) # kept, stale, changed)
          | Some (old, rs') \<Rightarrow> ((h, rs') # kept, (if old \<noteq> ZERO_HASH then [old] else []) @ stale, True))"

definition consensus_timeout_tick :: "net_ext \<Rightarrow> nat \<Rightarrow> network_runtime \<Rightarrow> network_runtime" where
  "consensus_timeout_tick N now s =
     (let (rounds, stale, changed) = timeout_sweep (nr_config s) now (current_epoch s) (nr_rounds s);
          s1 = s\<lparr>nr_rounds := rounds, nr_pending := fold AList.delete stale (nr_pending s)\<rparr>
      in if changed then save_consensus N s1 else s1)"

definition heartbeat_tick :: "nat \<Rightarrow> unit net" where
  "heartbeat_tick now s =
     broadcast (Heartbeat \<lparr>hb_validator_id = nr_validator_id s, hb_current_height = chain_height (nr_chain s),
       hb_protocol_version = nc_protocol_version (nr_config s), hb_epoch = current_epoch s, hb_timestamp_ms = now\<rparr>) s"

definition decay_tick :: "nat \<Rightarrow> network_runtime \<Rightarrow> network_runtime" where
  "decay_tick now s =
     (let cfg = nr_config s in
      s\<lparr>nr_registry := decay_scores (nr_registry s) now (nc_peer_score_decay_interval_ms cfg)
          (nc_peer_score_decay_amount cfg) (nc_peer_score_initial cfg) (nc_peer_violation_forgive_interval_ms cfg)\<rparr>)"

definition enforce_validator_set_on_registry :: "(hash, hash) hashmap \<Rightarrow> network_runtime \<Rightarrow> network_runtime" where
  "enforce_validator_set_on_registry vs s =
     (if vs = [] then s
      else
        let gone = map (pi_address \<circ> snd) (filter (\<lambda>(k, p). map_of vs k = None) (nr_registry s))
        in s\<lparr>nr_registry := map (\<lambda>(k, p). (k, if map_of vs k = None then p\<lparr>pi_state := Banned\<rparr> else p)) (nr_registry s),
             nr_connections := fold AList.delete gone (nr_connections s)\<rparr>)"

definition validator_set_refresh_tick :: "net_ext \<Rightarrow> network_runtime \<Rightarrow> network_runtime" where
  "validator_set_refresh_tick N s =
     (let vs = active_validator_map (ch_validator_set (nr_chain s)) in
      if nc_validators (nr_config s) \<noteq> [] \<or> ch_validator_set (nr_chain s) = [] \<or> vs = [] then s
      else if length (nr_validator_set s) = length vs \<and> list_all (\<lambda>(k, _). map_of vs k \<noteq> None) (nr_validator_set s) then s
      else save_consensus N (clear_saved
        ((enforce_validator_set_on_registry vs (s\<lparr>nr_validator_set := vs\<rparr>))\<lparr>nr_rounds := [], nr_pending := []\<rparr>)))"

definition sync_tick :: "unit net" where
  "sync_tick s =
     (let h = chain_height (nr_chain s) in
      if \<not> needs_sync (nr_registry s) h then nret () s
      else case sync_candidates (nr_registry s) h of
          [] \<Rightarrow> nret () s
        | p # _ \<Rightarrow> nignore (send_to_peer (pi_address p)
            (BlockRequest \<lparr>rq_requester_id = nr_validator_id s, rq_height = u64_saturating_add h 1\<rparr>)) s)"

definition proposal_round :: "network_runtime \<Rightarrow> nat \<Rightarrow> nat \<times> consensus_phase \<times> hash option" where
  "proposal_round s h =
     (case round_at s h of
        Some r \<Rightarrow> (cr_round r, phase r, if block_hash r = ZERO_HASH then None else Some (block_hash r))
      | None \<Rightarrow> (0, PhPropose, None))"

definition propose :: "ext \<Rightarrow> node_ext \<Rightarrow> net_ext \<Rightarrow> nat \<Rightarrow> nat \<Rightarrow> block \<Rightarrow> unit net" where
  "propose E X N now r b s =
     (let msg = BlockProposal (signed_block_proposal X N (nr_validator_key s)
                  \<lparr>bp_proposer_id = nr_validator_id s, bp_block = b, bp_round = r, bp_signature = []\<rparr>)
      in nthen (nignore (handle_message E X N now msg ''local'')) (broadcast msg) s)"

definition candidate_for :: "ext \<Rightarrow> node_ext \<Rightarrow> nat \<Rightarrow> hash option \<Rightarrow> block option net" where
  "candidate_for E X now existing s =
     (case existing of
        Some k \<Rightarrow> nret (map_of (nr_pending s) k) s
      | None \<Rightarrow>
          (case build_candidate_block E X now (nr_chain s) of
             None \<Rightarrow> None
           | Some (Inl _, c) \<Rightarrow> nret None (s\<lparr>nr_chain := c\<rparr>)
           | Some (Inr b, c) \<Rightarrow> nret (Some b) (s\<lparr>nr_chain := c\<rparr>)))"

definition proposer_tick :: "ext \<Rightarrow> node_ext \<Rightarrow> net_ext \<Rightarrow> nat \<Rightarrow> unit net" where
  "proposer_tick E X N now =
     nthen sync_validator_set_from_chain_if_unconfigured (\<lambda>s.
       let h = u64_saturating_add (chain_height (nr_chain s)) 1 in
       if \<not> proposer_diversity_gate_allows s then nret () s
       else case proposal_round s h of (r, ph, existing) \<Rightarrow>
         if \<not> is_proposer_for_height_round s h r \<or> ph \<noteq> PhPropose then nret () s
         else nbind (candidate_for E X now existing)
                (\<lambda>b. case b of None \<Rightarrow> nret () | Some b \<Rightarrow> propose E X N now r b) s)"

end
