(* ===== verification/Scc_Network_Safety.thy ===== *)
theory Scc_Network_Safety
  imports Scc_Network Scc_Chain_Safety
begin

text \<open>
  What holds of the network runtime (\<open>node/network.rs\<close>) along every sequence of messages, connections and timer
  ticks: its buffers stay bounded, the tracked rounds hold verified votes for the block of the round only, and the chain
  behind it stays well-formed and only grows. A handler is followed through a preorder on
  runtimes, whose rules are those of the locale \<open>net_preorder\<close>.
\<close>

section \<open>Following a handler\<close>

definition keeps :: "(network_runtime \<Rightarrow> network_runtime \<Rightarrow> bool) \<Rightarrow> network_runtime \<Rightarrow> ('r \<times> network_runtime) option \<Rightarrow> bool" where
  "keeps R s res \<longleftrightarrow> (\<forall>r s'. res = Some (r, s') \<longrightarrow> R s s')"

lemma keepsD: "keeps R s res \<Longrightarrow> res = Some (r, s') \<Longrightarrow> R s s'"
  by (auto simp: keeps_def)

lemma keepsI: "(\<And>r s'. res = Some (r, s') \<Longrightarrow> R s s') \<Longrightarrow> keeps R s res"
  by (auto simp: keeps_def)

lemma keeps_simps [simp]: "keeps R s None" "keeps R s (Some (r, s')) \<longleftrightarrow> R s s'"
  by (simp_all add: keeps_def)

locale net_preorder =
  fixes R :: "network_runtime \<Rightarrow> network_runtime \<Rightarrow> bool"
  assumes R_refl: "R s s"
    and R_trans: "R s t \<Longrightarrow> R t u \<Longrightarrow> R s u"
begin

lemma k_ret: "keeps R s (nret x s)"
  by (simp add: nret_def R_refl)

lemma k_fail: "keeps R s (nfail e s)"
  by (simp add: nfail_def R_refl)

lemma k_get: "keeps R s (nget f s)"
  by (simp add: nget_def R_refl)

lemma k_mod: "R s (f s) \<Longrightarrow> keeps R s (nmod f s)"
  by (simp add: nmod_def)

lemma k_after: "R s t \<Longrightarrow> keeps R t res \<Longrightarrow> keeps R s res"
  unfolding keeps_def using R_trans by blast

lemma k_bind:
  assumes "keeps R s (m s)" "\<And>x t. m s = Some (Inr x, t) \<Longrightarrow> keeps R t (k x t)"
  shows "keeps R s (nbind m k s)"
proof (cases "m s")
  case (Some res)
  then obtain r t where t: "m s = Some (r, t)" by (cases res) auto
  have "R s t" using keepsD [OF assms(1) t] .
  then show ?thesis using t assms(2) k_after by (cases r) (simp_all add: nbind_def)
qed (simp add: nbind_def)

lemma k_then: "keeps R s (m s) \<Longrightarrow> (\<And>t. m s = Some (Inr (), t) \<Longrightarrow> keeps R t (k t)) \<Longrightarrow> keeps R s (nthen m k s)"
  unfolding nthen_def by (rule k_bind) auto

lemma k_when: "(b \<Longrightarrow> keeps R s (m s)) \<Longrightarrow> keeps R s (nwhen b m s)"
  by (simp add: nwhen_def k_ret)

lemma k_reject: "keeps R s (nreject b e s)"
  by (simp add: nreject_def k_ret k_fail)

lemma k_lift: "keeps R s (nlift r f s)"
  by (simp add: nlift_def k_ret k_fail split: sum.split)

lemma k_ignore: "keeps R s (m s) \<Longrightarrow> keeps R s (nignore m s)"
  by (auto simp: keeps_def nignore_def split: option.splits)

lemma k_if: "(b \<Longrightarrow> keeps R s (m s)) \<Longrightarrow> (\<not> b \<Longrightarrow> keeps R s (k s)) \<Longrightarrow> keeps R s ((if b then m else k) s)"
  by simp

lemma k_ifv: "(b \<Longrightarrow> keeps R s x) \<Longrightarrow> (\<not> b \<Longrightarrow> keeps R s y) \<Longrightarrow> keeps R s (if b then x else y)"
  by simp

lemma k_option: "(z = None \<Longrightarrow> keeps R s (m s)) \<Longrightarrow> (\<And>x. z = Some x \<Longrightarrow> keeps R s (k x s)) \<Longrightarrow>
    keeps R s ((case z of None \<Rightarrow> m | Some x \<Rightarrow> k x) s)"
  by (cases z) auto

lemma k_optionv: "(z = None \<Longrightarrow> keeps R s x) \<Longrightarrow> (\<And>y. z = Some y \<Longrightarrow> keeps R s (k y)) \<Longrightarrow>
    keeps R s (case z of None \<Rightarrow> x | Some y \<Rightarrow> k y)"
  by (cases z) auto

lemmas k_rules = k_ret k_fail k_get k_bind k_then k_when k_reject k_lift k_ignore k_if k_ifv k_option k_optionv

end

text \<open>Reading the start state, checks and broadcasts change nothing but the outbox.\<close>

lemma nbind_get: "nbind (nget f) k s = k (f s) s"
  by (simp add: nbind_def nget_def)

lemma nthen_mod: "nthen (nmod f) k s = k (f s)"
  by (simp add: nthen_def nbind_def nmod_def)

lemma nthen_reject: "nthen (nreject b e) k s = (if b then Some (Inl e, s) else k s)"
  by (simp add: nthen_def nbind_def nreject_def nret_def nfail_def)

definition only_outbox :: "network_runtime \<Rightarrow> network_runtime \<Rightarrow> bool" where
  "only_outbox s s' \<longleftrightarrow> (\<exists>x. s' = s\<lparr>nr_outbox := x\<rparr>)"

interpretation ob: net_preorder only_outbox
proof unfold_locales
  show "only_outbox s s" for s by (auto simp: only_outbox_def intro!: exI [of _ "nr_outbox s"])
qed (auto simp: only_outbox_def)

lemma send_to_peer_outbox: "keeps only_outbox s (send_to_peer a m s)"
proof (rule keepsI)
  fix r s' assume "send_to_peer a m s = Some (r, s')"
  then have "s' = s \<or> (\<exists>x. s' = s\<lparr>nr_outbox := x\<rparr>)"
    by (auto simp: send_to_peer_def nret_def nfail_def split: option.splits bool.splits)
  then show "only_outbox s s'" using ob.R_refl by (auto simp: only_outbox_def)
qed

lemma send_all_outbox: "keeps only_outbox s (send_all as m s)"
  by (induction as arbitrary: s) (simp_all add: ob.k_ret ob.k_then ob.k_ignore send_to_peer_outbox)

lemma broadcast_outbox: "keeps only_outbox s (broadcast m s)"
  unfolding broadcast_def by (intro ob.k_bind ob.k_get send_all_outbox)

lemma send_hello_outbox: "keeps only_outbox s (send_hello X N now a s)"
  using send_to_peer_outbox unfolding send_hello_def keeps_def by blast

lemma send_all_returns: "\<exists>x. send_all as m s = Some (Inr (), s\<lparr>nr_outbox := x\<rparr>)"
proof (induction as arbitrary: s)
  case Nil
  show ?case by (auto simp: nret_def intro!: exI [of _ "nr_outbox s"])
next
  case (Cons a as)
  have "\<exists>r t. send_to_peer a m s = Some (r, t)"
    by (auto simp: send_to_peer_def nret_def nfail_def split: option.split bool.split)
  then obtain r t where t: "send_to_peer a m s = Some (r, t)" by blast
  then obtain x where "t = s\<lparr>nr_outbox := x\<rparr>"
    using keepsD [OF send_to_peer_outbox] unfolding only_outbox_def by blast
  then show ?case using Cons [of t] t by (auto simp: nthen_def nbind_def nignore_def)
qed

lemma broadcast_returns: "\<exists>x. broadcast m s = Some (Inr (), s\<lparr>nr_outbox := x\<rparr>)"
  using send_all_returns by (simp add: broadcast_def nbind_get)

lemma broadcast_rounds: "broadcast m s = Some (r, t) \<Longrightarrow> nr_rounds t = nr_rounds s"
  using keepsD [OF broadcast_outbox [of s m]] by (auto simp: only_outbox_def)

lemma verify_vote_signature_reads:
  "verify_vote_signature E N v ep s = Some (r, s') \<Longrightarrow> s' = s"
  by (auto simp: verify_vote_signature_def nret_def nfail_def split: option.splits if_splits)


section \<open>The invariant\<close>

definition round_votes_for :: "hash \<Rightarrow> (hash, vote) hashmap \<Rightarrow> bool" where
  "round_votes_for blk votes \<longleftrightarrow> list_all (\<lambda>(k, v). v_block_hash v \<in> {blk, ZERO_HASH}) votes"

text \<open>
  A tracked round: verified votes for the block of the round. The code takes the all-zero hash as a round without a
  block, and nothing keeps a proposed block from having this identifier, so votes for it may be left from an earlier proposal.
\<close>

definition tracked_ok :: "net_ext \<Rightarrow> nat \<Rightarrow> consensus_round \<Rightarrow> bool" where
  "tracked_ok N h cr \<longleftrightarrow> cr_height cr = h \<and> 1 \<le> quorum cr \<and> keys_distinct (validator_set cr) \<and>
     validator_count cr = usize_as_u32 (length (validator_set cr)) \<and>
     votes_ok (nt_verify_strict N) (nt_vote_canon N) cr Prevote (prevotes cr) \<and>
     votes_ok (nt_verify_strict N) (nt_vote_canon N) cr Precommit (precommits cr) \<and>
     round_votes_for (block_hash cr) (prevotes cr) \<and> round_votes_for (block_hash cr) (precommits cr)"

definition rounds_ok :: "net_ext \<Rightarrow> (nat, round_state) hashmap \<Rightarrow> bool" where
  "rounds_ok N rounds \<longleftrightarrow> keys_distinct rounds \<and> list_all (\<lambda>(h, rs). tracked_ok N h (rs_round rs)) rounds"

definition pending_ok :: "(hash, block) hashmap \<Rightarrow> bool" where
  "pending_ok m \<longleftrightarrow> keys_distinct m \<and> length m \<le> MAX_PENDING_BLOCKS \<and>
     list_all (\<lambda>(k, b). bh_block_id (header b) = k) m"

definition bounded_map :: "nat \<Rightarrow> ('k, 'v) hashmap \<Rightarrow> bool" where
  "bounded_map cap m \<longleftrightarrow> keys_distinct m \<and> length m \<le> cap"

definition dedup_ok :: "equivocation_key list \<Rightarrow> equivocation_key list \<Rightarrow> bool" where
  "dedup_ok seen order \<longleftrightarrow> distinct seen \<and> distinct order \<and> set seen = set order \<and>
     length seen \<le> MAX_EQUIVOCATION_DEDUP"

definition net_ok :: "net_ext \<Rightarrow> network_runtime \<Rightarrow> bool" where
  "net_ok N s \<longleftrightarrow> peers_ok (nr_registry s) \<and> keys_distinct (nr_validator_set s) \<and> pending_ok (nr_pending s) \<and>
     bounded_map MAX_RATE_LIMIT_ENTRIES (nr_rate_limits s) \<and> bounded_map MAX_BANDWIDTH_ENTRIES (nr_bandwidth s) \<and>
     dedup_ok (nr_equivocations s) (nr_equivocations_order s) \<and> rounds_ok N (nr_rounds s)"

text \<open>A step keeps the invariant, and the chain behind the runtime well-formed and growing.\<close>

definition chain_sound :: "ext \<Rightarrow> node_ext \<Rightarrow> chain \<Rightarrow> chain \<Rightarrow> bool" where
  "chain_sound E X c c' \<longleftrightarrow> (chain_ok E X c \<longrightarrow>
     chain_ok E X c' \<and> prefix (ch_blocks c) (ch_blocks c') \<and> ch_chain_id c' = ch_chain_id c)"

definition sound :: "ext \<Rightarrow> node_ext \<Rightarrow> net_ext \<Rightarrow> network_runtime \<Rightarrow> network_runtime \<Rightarrow> bool" where
  "sound E X N s s' \<longleftrightarrow> (net_ok N s \<longrightarrow> net_ok N s') \<and> chain_sound E X (nr_chain s) (nr_chain s')"

lemma chain_sound_refl [simp]: "chain_sound E X c c"
  by (simp add: chain_sound_def)

lemma chain_sound_trans: "chain_sound E X c d \<Longrightarrow> chain_sound E X d e \<Longrightarrow> chain_sound E X c e"
  by (auto simp: chain_sound_def intro: prefix_order.trans)

interpretation sd: net_preorder "sound E X N" for E X N
proof unfold_locales
  show "sound E X N s s" for s by (simp add: sound_def)
  show "sound E X N s u" if "sound E X N s t" "sound E X N t u" for s t u
    using that chain_sound_trans unfolding sound_def by blast
qed

text \<open>Single updates.\<close>

lemma sound_outbox: "sound E X N s (s\<lparr>nr_outbox := x\<rparr>)"
  and sound_connections: "sound E X N s (s\<lparr>nr_connections := y\<rparr>)"
  and sound_seeds: "sound E X N s (s\<lparr>nr_peer_seeds := z\<rparr>)"
  and sound_backoff: "sound E X N s (s\<lparr>nr_backoff := t\<rparr>)"
  and sound_validators: "keys_distinct vs \<Longrightarrow> sound E X N s (s\<lparr>nr_validator_set := vs\<rparr>)"
  and sound_store: "sound E X N s (s\<lparr>nr_store := st\<rparr>)"
  by (simp_all add: sound_def net_ok_def)

lemma sound_save: "sound E X N s (save_consensus N s)" and sound_clear: "sound E X N s (clear_saved s)"
  by (simp_all add: save_consensus_def clear_saved_def sound_store sd.R_refl Let_def split: option.split)

lemma sound_registry: "(peers_ok (nr_registry s) \<Longrightarrow> peers_ok reg) \<Longrightarrow> sound E X N s (s\<lparr>nr_registry := reg\<rparr>)"
  and sound_pending: "(pending_ok (nr_pending s) \<Longrightarrow> pending_ok m) \<Longrightarrow> sound E X N s (s\<lparr>nr_pending := m\<rparr>)"
  and sound_rounds: "(rounds_ok N (nr_rounds s) \<Longrightarrow> rounds_ok N rs) \<Longrightarrow> sound E X N s (s\<lparr>nr_rounds := rs\<rparr>)"
  and sound_chain: "chain_sound E X (nr_chain s) c \<Longrightarrow> sound E X N s (s\<lparr>nr_chain := c\<rparr>)"
  by (simp_all add: sound_def net_ok_def)

lemma only_outbox_sound: "keeps only_outbox s res \<Longrightarrow> keeps (sound E X N) s res"
  unfolding keeps_def only_outbox_def using sound_outbox by blast

lemmas k_send = send_to_peer_outbox [THEN only_outbox_sound] broadcast_outbox [THEN only_outbox_sound]
  send_hello_outbox [THEN only_outbox_sound]

lemma k_persist: "keeps (sound E X N) s (persist_consensus_state N s)"
  unfolding persist_consensus_state_def by (rule sd.k_mod, rule sound_save)

lemma keys_distinct_fold: "keys_distinct m \<Longrightarrow> keys_distinct (fold (\<lambda>x. AList.update (f x) (g x)) xs m)"
  by (induction xs arbitrary: m) (simp_all add: distinct_update)

lemma active_validator_map_distinct: "keys_distinct (active_validator_map vs)"
  unfolding active_validator_map_def by (rule keys_distinct_fold) simp

lemma k_sync_validators: "keeps (sound E X N) s (sync_validator_set_from_chain_if_unconfigured s)"
  unfolding sync_validator_set_from_chain_if_unconfigured_def
  by (rule sd.k_mod) (simp add: Let_def sound_validators sd.R_refl active_validator_map_distinct)

lemma k_verify_vote: "keeps (sound E X N) s (verify_vote_signature E' N' v ep s)"
  using verify_vote_signature_reads sd.R_refl unfolding keeps_def by blast

section \<open>Maps of bounded size\<close>

lemma list_all_delete: "list_all P m \<Longrightarrow> list_all P (AList.delete k m)"
  by (induction m) (auto simp: AList.delete_eq)

lemma keys_distinct_delete: "keys_distinct m \<Longrightarrow> keys_distinct (AList.delete k m)"
  by (rule distinct_delete)

lemma length_delete_map: "length (AList.delete k m) \<le> length m"
  by (rule AList.length_delete_le)

lemma bounded_map_filter: "bounded_map cap m \<Longrightarrow> bounded_map cap (filter P m)"
  unfolding bounded_map_def
  by (metis distinct_map_filter length_filter_le le_trans)

lemma bounded_map_delete: "bounded_map cap m \<Longrightarrow> bounded_map cap (AList.delete k m)"
  unfolding bounded_map_def using distinct_delete length_delete_map le_trans by metis

lemma bounded_map_update:
  assumes "bounded_map cap m" "map_of m k \<noteq> None \<or> length m < cap"
  shows "bounded_map cap (AList.update k v m)"
  using assms length_update_le [of k v m] by (auto simp: bounded_map_def length_update_known)

lemma evict_oldest_bounded:
  assumes "bounded_map cap m" "0 < cap"
  shows "bounded_map cap (evict_oldest_entries cap f m)" "length (evict_oldest_entries cap f m) < cap"
proof -
  have "bounded_map cap (evict_oldest_entries cap f m) \<and> length (evict_oldest_entries cap f m) < cap"
    using assms
  proof (induction cap f m rule: evict_oldest_entries.induct)
    case (1 cap f m)
    show ?case
    proof (cases "length m \<ge> cap")
      case True
      then obtain k where "oldest_key f m = Some k" using 1(3) by (cases "oldest_key f m") auto
      then show ?thesis using 1(1) [OF True] bounded_map_delete [OF 1(2), of k] True 1(3) by (subst (1 2) evict_oldest_entries.simps) simp
    next
      case False
      then show ?thesis using 1(2) by (subst (1 2) evict_oldest_entries.simps) simp
    qed
  qed
  then show "bounded_map cap (evict_oldest_entries cap f m)" "length (evict_oldest_entries cap f m) < cap" by auto
qed

lemma make_room_bounded:
  assumes "bounded_map cap m" "0 < cap"
  shows "bounded_map cap (AList.update a v (make_room cap win now f a m))"
proof (cases "map_of m a = None \<and> length m \<ge> cap")
  case True
  then show ?thesis
    using evict_oldest_bounded [OF bounded_map_filter [OF assms(1)] assms(2)] by (simp add: make_room_def bounded_map_update)
next
  case False
  then show ?thesis using assms by (auto simp: make_room_def intro!: bounded_map_update)
qed

lemma pending_ok_delete: "pending_ok m \<Longrightarrow> pending_ok (AList.delete k m)"
  unfolding pending_ok_def by (meson distinct_delete length_delete_map le_trans list_all_delete)

lemma pending_ok_deletes: "pending_ok m \<Longrightarrow> pending_ok (fold AList.delete ks m)"
  by (induction ks arbitrary: m) (simp_all add: pending_ok_delete)

lemma rounds_ok_delete: "rounds_ok N m \<Longrightarrow> rounds_ok N (AList.delete k m)"
  unfolding rounds_ok_def by (meson distinct_delete list_all_delete)

lemma rounds_ok_Nil [simp]: "rounds_ok N []" and pending_ok_Nil [simp]: "pending_ok []"
  by (simp_all add: rounds_ok_def pending_ok_def)

lemma rounds_ok_lookup: "rounds_ok N m \<Longrightarrow> map_of m h = Some rs \<Longrightarrow> tracked_ok N h (rs_round rs)"
  by (auto simp: rounds_ok_def list_all_iff dest: map_of_SomeD)

lemma rounds_ok_update: "rounds_ok N m \<Longrightarrow> tracked_ok N h (rs_round rs) \<Longrightarrow> rounds_ok N (AList.update h rs m)"
  by (simp add: rounds_ok_def list_all_update)

section \<open>Peers and limits\<close>

lemma bounded_sound:
  "(bounded_map MAX_RATE_LIMIT_ENTRIES (nr_rate_limits s) \<Longrightarrow> bounded_map MAX_RATE_LIMIT_ENTRIES a) \<Longrightarrow> sound E X N s (s\<lparr>nr_rate_limits := a\<rparr>)"
  "(bounded_map MAX_BANDWIDTH_ENTRIES (nr_bandwidth s) \<Longrightarrow> bounded_map MAX_BANDWIDTH_ENTRIES b) \<Longrightarrow> sound E X N s (s\<lparr>nr_bandwidth := b\<rparr>)"
  by (simp_all add: sound_def net_ok_def)

lemma peers_ok_touch:
  assumes "peers_ok reg" "map_of reg v = Some p" "pi_validator_id q = pi_validator_id p"
  shows "peers_ok (AList.update v q reg)"
  using assms registry_member_key [OF assms(1,2)] by (intro peers_ok_update) auto

lemma k_violation: "keeps (sound E X N) s (record_peer_violation a s)"
proof -
  have upd: "keeps (sound E X N) s (nret b (s\<lparr>nr_registry := AList.update v q (nr_registry s)\<rparr>) :: ((net_error + bool) \<times> network_runtime) option)"
    if "map_of (nr_registry s) v = Some p" "pi_validator_id q = pi_validator_id p" for b v p q
    using that by (auto simp: nret_def intro!: sound_registry peers_ok_touch)
  show ?thesis
    unfolding record_peer_violation_def Let_def
    by (intro sd.k_optionv sd.k_ifv sd.k_ret) (auto intro: upd simp: penalised_def)
qed

lemma k_rate: "keeps (sound E X N) s (check_rate_limit now a pr s)"
proof -
  let ?limits = "make_room MAX_RATE_LIMIT_ENTRIES (nc_inbound_msg_window_ms (nr_config s)) now rt_window_start_ms a (nr_rate_limits s)"
  have upd: "sound E X N s (s\<lparr>nr_rate_limits := AList.update a e ?limits\<rparr>)" for e
    by (rule bounded_sound(1)) (simp add: make_room_bounded MAX_RATE_LIMIT_ENTRIES_def)
  have rest: "keeps (sound E X N) t (nbind (record_peer_violation a) (\<lambda>b. if b \<or> c then nfail e1 else nfail e2 :: unit net) t)" for c e1 e2 t
    by (intro sd.k_rules k_violation)
  show ?thesis unfolding check_rate_limit_def Let_def nret_def
    by (rule sd.k_ifv) (rule sd.k_after [OF upd rest], simp only: keeps_simps upd)
qed

lemma k_bandwidth: "keeps (sound E X N) s (check_bandwidth_limit now a s)"
proof -
  let ?usage = "make_room MAX_BANDWIDTH_ENTRIES (nc_bandwidth_window_ms (nr_config s)) now bw_window_start_ms a (nr_bandwidth s)"
  have upd: "sound E X N s (s\<lparr>nr_bandwidth := AList.update a e ?usage\<rparr>)" for e
    by (rule bounded_sound(2)) (simp add: make_room_bounded MAX_BANDWIDTH_ENTRIES_def)
  have rest: "keeps (sound E X N) t (nbind (record_peer_violation a) (\<lambda>b. nfail (if b then e1 else e2) :: unit net) t)" for e1 e2 t
    by (intro sd.k_rules k_violation)
  show ?thesis unfolding check_bandwidth_limit_def Let_def nret_def
    by (rule sd.k_ifv) (rule sd.k_after [OF upd rest], simp only: keeps_simps upd)
qed

lemma k_record_bandwidth: "keeps (sound E X N) s (record_bandwidth now a i out s)"
  unfolding record_bandwidth_def
proof (rule sd.k_mod, unfold Let_def, rule bounded_sound(2))
  assume b: "bounded_map MAX_BANDWIDTH_ENTRIES (nr_bandwidth s)"
  let ?m = "if map_of (nr_bandwidth s) a = None \<and> MAX_BANDWIDTH_ENTRIES \<le> length (nr_bandwidth s)
    then case oldest_key bw_window_start_ms (nr_bandwidth s) of None \<Rightarrow> nr_bandwidth s | Some k \<Rightarrow> AList.delete k (nr_bandwidth s)
    else nr_bandwidth s"
  have "bounded_map MAX_BANDWIDTH_ENTRIES ?m" using b bounded_map_delete by (auto split: option.split)
  moreover have "map_of ?m a \<noteq> None \<or> length ?m < MAX_BANDWIDTH_ENTRIES"
  proof (cases "map_of (nr_bandwidth s) a = None \<and> MAX_BANDWIDTH_ENTRIES \<le> length (nr_bandwidth s)")
    case True
    then obtain k where k: "oldest_key bw_window_start_ms (nr_bandwidth s) = Some k"
      by (cases "oldest_key bw_window_start_ms (nr_bandwidth s)") (auto simp: MAX_BANDWIDTH_ENTRIES_def)
    have "length (AList.delete k (nr_bandwidth s)) < length (nr_bandwidth s)"
      by (rule length_delete_member [OF oldest_key_member [OF k]])
    then show ?thesis using True k b by (simp add: bounded_map_def)
  qed auto
  ultimately show "bounded_map MAX_BANDWIDTH_ENTRIES (AList.update a v ?m)" for v by (rule bounded_map_update)
qed

lemma disconnect_first_ok: "peers_ok reg \<Longrightarrow> peers_ok (disconnect_first a reg)"
proof -
  have "map fst (disconnect_first a reg) = map fst reg" "length (disconnect_first a reg) = length reg"
    by (induction a reg rule: disconnect_first.induct) auto
  moreover have "list_all (\<lambda>(k, p). pi_validator_id p = k) reg \<Longrightarrow> list_all (\<lambda>(k, p). pi_validator_id p = k) (disconnect_first a reg)"
    by (induction a reg rule: disconnect_first.induct) auto
  ultimately show "peers_ok reg \<Longrightarrow> peers_ok (disconnect_first a reg)" by (simp add: peers_ok_def)
qed

lemma sound_close: "sound E X N s (close_connection a s)"
  unfolding close_connection_def mark_peer_disconnected_def
  by (rule sd.R_trans [OF sound_connections sound_registry]) (simp add: disconnect_first_ok)

lemma k_open: "keeps (sound E X N) s (open_connection X' N now a s)"
  unfolding open_connection_def by (intro sd.k_rules sd.k_mod k_send sound_connections)

lemma k_seeds: "keeps (sound E X N) s (update_peer_seeds a cs s)"
  unfolding update_peer_seeds_def by (rule sd.k_mod) (simp add: Let_def sound_seeds)

lemma k_upsert: "keeps (sound E X N) s (upsert_peer info s)"
  by (rule keepsI)
    (auto simp: upsert_peer_def nret_def nfail_def sd.R_refl split: sum.splits intro!: sound_registry dest: peers_ok_upsert)

lemma k_hello: "keeps (sound E X N) s (handle_hello E N now msg a s)"
  unfolding handle_hello_def by (intro sd.k_rules k_seeds k_upsert)

lemma k_heartbeat: "keeps (sound E X N) s (handle_heartbeat msg a s)"
proof -
  have touch: "keeps (sound E X N) t (nmod (\<lambda>u. u\<lparr>nr_registry := AList.update v (q p) (nr_registry u)\<rparr>) t)"
    if "map_of (nr_registry s) v = Some p" "t = s" "pi_validator_id (q p) = pi_validator_id p" for t v p q
    using that by (intro sd.k_mod sound_registry) (auto intro: peers_ok_touch)
  have same: "nreject b e t = Some (r, u) \<Longrightarrow> u = t" for b e t r u
    by (auto simp: nreject_def nret_def nfail_def split: if_splits)
  show ?thesis
    unfolding handle_heartbeat_def Let_def
    by (intro sd.k_rules k_upsert touch) (auto dest: same)
qed

section \<open>Chain operations\<close>

lemma chain_sound_import: "import_block E X c b = Some (r, c') \<Longrightarrow> chain_sound E X c c'"
  using import_outcome [of E X c b r c'] chain_ok_extends [of E X c _ c'] unfolding chain_sound_def extends_def by auto

lemma chain_ok_state: "block_frame (ch_state c) w \<Longrightarrow> chain_ok E X (c\<lparr>ch_state := w\<rparr>) = chain_ok E X c"
  by (simp add: chain_ok_def governance_context_of_def block_frame_def)

lemma chain_sound_state: "block_frame (ch_state c) w \<Longrightarrow> chain_sound E X c (c\<lparr>ch_state := w\<rparr>)"
  by (simp add: chain_sound_def chain_ok_state)

lemma chain_sound_flush: "chain_sound E X c (flush_chain c)"
  unfolding flush_chain_def by (rule chain_sound_state) (auto simp: block_frame_def flush_store_def flush_durable_def split: prod.splits option.splits)

lemma chain_sound_step:
  assumes "chain_step E X c c'"
  shows "chain_sound E X c c'"
  using chain_step_ok [OF assms] by (auto simp: chain_sound_def grows_def)

lemma chain_sound_certificate: "chain_sound E X c (flush_chain (record_safety_certificate c cert))"
  using chain_sound_trans [OF chain_sound_step [OF step_certificate] chain_sound_flush] .

lemma chain_sound_submit: "submit_transition c tx = Inr c' \<Longrightarrow> chain_sound E X c c'"
  by (rule chain_sound_step [OF step_submit])

lemma chain_sound_candidate: "validate_candidate_block_for_round E X c b rd = Some (r, c') \<Longrightarrow> chain_sound E X c c'"
  using validate_candidate_frame [of E X c b rd r c'] chain_sound_state share_store_block_frame by fastforce

lemma chain_sound_scratch: "on_scratch c res = Some (r, c') \<Longrightarrow> chain_sound E X c c'"
  by (auto simp: on_scratch_def intro!: chain_sound_state share_store_block_frame)

lemma chain_sound_slash: "chain_sound E X c (slash_and_record prf ep c)"
proof -
  have eng: "chain_sound E X c (c\<lparr>ch_slashing := eng\<rparr>)" for c eng
    by (simp add: chain_sound_def chain_ok_def governance_context_of_def)
  have "chain_sound E X c (case slash_double_sign (ch_slashing c) prf ep of
      Inr (ev, eng) \<Rightarrow> snd (execute_slashing_penalty (c\<lparr>ch_slashing := eng\<rparr>) (se_validator_id ev) (se_penalty ev)) | Inl _ \<Rightarrow> c)"
    by (auto split: sum.split intro: chain_sound_trans [OF eng chain_sound_step [OF step_slash]])
  then show ?thesis
    unfolding slash_and_record_def Let_def by (rule chain_sound_trans) (rule chain_sound_step [OF step_equivocation])
qed

section \<open>Gossip and requests\<close>

lemma sound_drop: "sound E X N s (drop_height blk h s)"
  unfolding drop_height_def by (simp add: sound_def net_ok_def pending_ok_delete rounds_ok_delete)

lemma k_tx_gossip: "keeps (sound E X N) s (handle_tx_gossip E msg s)"
  unfolding handle_tx_gossip_def Let_def
  by (intro sd.k_rules sd.k_mod) (auto split: sum.split intro: sd.R_refl sound_chain chain_sound_submit)

lemma k_law_sync: "keeps (sound E X N) s (handle_law_sync E N msg s)"
  unfolding handle_law_sync_def by (intro sd.k_rules)

lemma k_block_request: "keeps (sound E X N) s (handle_block_request msg a s)"
  unfolding handle_block_request_def by (rule k_send)

lemma k_block_response: "keeps (sound E X N) s (handle_block_response E X N msg s)"
proof (cases "rp_block msg")
  case (Some b)
  have rest: "keeps (sound E X N) s (nthen (nmod (drop_height blk h)) (persist_consensus_state N) (s\<lparr>nr_chain := flush_chain c\<rparr>))"
    if "import_block E X (nr_chain s) b = Some (r, c)" for blk h c r
    by (rule sd.k_after [OF sound_chain [OF chain_sound_trans [OF chain_sound_import [OF that] chain_sound_flush]]])
      (intro sd.k_rules sd.k_mod sound_drop k_persist)
  show ?thesis
    using Some rest by (auto simp: handle_block_response_def nret_def intro: sound_chain chain_sound_import split: option.split sum.split)
qed (simp add: handle_block_response_def sd.k_ret)

lemma k_certificate: "keeps (sound E X N) s (handle_finality_certificate N cert s)"
  unfolding handle_finality_certificate_def
  by (intro sd.k_rules sd.k_mod k_sync_validators k_persist) (rule sd.R_trans [OF sound_chain [OF chain_sound_certificate] sound_drop])

section \<open>Rounds\<close>

lemma round_votes_update: "round_votes_for blk m \<Longrightarrow> v_block_hash v = blk \<Longrightarrow> round_votes_for blk (AList.update k v m)"
  by (simp add: round_votes_for_def list_all_update)

lemma tracked_ok_phase [simp]: "tracked_ok N h (cr\<lparr>phase := ph\<rparr>) = tracked_ok N h cr"
  by (simp add: tracked_ok_def votes_ok_def)

lemma tracked_ok_evaluate: "tracked_ok N h cr \<Longrightarrow> tracked_ok N h (snd (round_evaluate cr))"
  using round_evaluate_frame [of cr] by (metis tracked_ok_phase)

lemma tracked_ok_prevote:
  assumes "tracked_ok N h cr" "add_prevote (nt_verify_strict N) (nt_vote_canon N) cr v = Inr cr'"
    and "v_block_hash v = block_hash cr"
  shows "tracked_ok N h cr'"
  using assms votes_ok_add [of "nt_verify_strict N" "nt_vote_canon N" cr Prevote "prevotes cr" v]
  by (simp add: add_prevote_Inr tracked_ok_def round_votes_update votes_ok_def)

lemma tracked_ok_precommit:
  assumes "tracked_ok N h cr" "add_precommit (nt_verify_strict N) (nt_vote_canon N) cr v = Inr cr'"
    and "v_block_hash v = block_hash cr"
  shows "tracked_ok N h cr'"
  using assms votes_ok_add [of "nt_verify_strict N" "nt_vote_canon N" cr Precommit "precommits cr" v]
  by (simp add: add_precommit_Inr tracked_ok_def round_votes_update votes_ok_def)

lemma tracked_ok_new: "1 \<le> q \<Longrightarrow> keys_distinct vs \<Longrightarrow> tracked_ok N h ((round_new cid ep blk h r vs mx)\<lparr>quorum := q\<rparr>)"
  by (simp add: tracked_ok_def round_new_def votes_ok_def round_votes_for_def Let_def)

lemma tracked_ok_block:
  assumes "tracked_ok N h cr" "block_hash cr = ZERO_HASH \<or> block_hash cr = blk"
  shows "tracked_ok N h (cr\<lparr>block_hash := blk\<rparr>)"
proof -
  have "vote_ok v c (cr\<lparr>block_hash := blk\<rparr>) ty = vote_ok v c cr ty" for v c ty by (simp add: vote_ok_def fun_eq_iff)
  then show ?thesis using assms by (auto simp: tracked_ok_def votes_ok_def round_votes_for_def list_all_iff)
qed

lemma consensus_quorum_pos: "1 \<le> consensus_quorum s"
  by (auto simp: consensus_quorum_def Let_def split: finality_mode.split)

lemma sound_set_round:
  assumes "rounds_ok N (nr_rounds s) \<Longrightarrow> tracked_ok N h cr"
  shows "sound E X N s (set_round h cr s)"
  using assms by (auto simp: set_round_def sd.R_refl split: option.split intro!: sound_rounds rounds_ok_update)

lemma sound_ensure: "sound E X N s (ensure_round now h blk r s)"
  by (auto simp: ensure_round_def sound_def net_ok_def split: option.split intro!: rounds_ok_update tracked_ok_new consensus_quorum_pos)

lemma round_at_tracked: "rounds_ok N (nr_rounds s) \<Longrightarrow> round_at s h = Some cr \<Longrightarrow> tracked_ok N h cr"
  by (auto simp: round_at_def dest: rounds_ok_lookup)

lemma cast_precommit_outcome:
  assumes "cast_precommit X N h cr s = Some (Inr cr', t)"
  shows "nr_rounds t = nr_rounds s" "tracked_ok N h cr \<Longrightarrow> tracked_ok N h cr'"
proof -
  show "nr_rounds t = nr_rounds s"
    using assms
    by (auto simp: cast_precommit_def Let_def nthen_def nbind_def nret_def dest: broadcast_rounds split: if_splits option.splits prod.splits sum.splits)
  show "tracked_ok N h cr'" if "tracked_ok N h cr"
    using assms that
    by (auto simp: cast_precommit_def Let_def nthen_def nbind_def nret_def sign_vote_with_epoch_def
        split: if_splits option.splits prod.splits sum.splits intro: tracked_ok_precommit)
qed

lemma k_cast_precommit: "keeps (sound E X N) s (cast_precommit X' N h cr s)"
  unfolding cast_precommit_def Let_def by (intro sd.k_rules k_send)

lemma k_finalize: "keeps (sound E X N) s (finalize_pending E X blk cert s)"
proof (cases "map_of (nr_pending s) blk")
  case (Some b)
  let ?s1 = "s\<lparr>nr_pending := AList.delete blk (nr_pending s)\<rparr>"
  have s1: "sound E X N s ?s1" by (rule sound_pending) (rule pending_ok_delete)
  have bc: "keeps (sound E X N) s (broadcast m (?s1\<lparr>nr_chain := flush_chain (record_safety_certificate c cert)\<rparr>))"
    if "import_block E X (nr_chain ?s1) b = Some (r, c)" for m c r
    by (rule sd.k_after [OF sd.R_trans [OF s1 sound_chain] k_send(2)])
      (rule chain_sound_trans [OF chain_sound_import [OF that] chain_sound_certificate])
  have "sound E X N s (?s1\<lparr>nr_chain := c\<rparr>)" if "import_block E X (nr_chain ?s1) b = Some (r, c)" for c r
    by (rule sd.R_trans [OF s1 sound_chain [OF chain_sound_import [OF that]]])
  then show ?thesis
    using bc by (auto simp: finalize_pending_def Some Let_def nret_def simp del: network_runtime.simps split: option.split sum.split)
qed (simp add: finalize_pending_def sd.k_ret)

lemma k_settle:
  assumes "rounds_ok N (nr_rounds s) \<Longrightarrow> tracked_ok N h (snd res)"
  shows "keeps (sound E X N) s (settle_round E X N h q res s)"
proof -
  have fin: "sound E X N t (clear_saved (t\<lparr>nr_rounds := AList.delete h (nr_rounds t)\<rparr>))" for t
    by (rule sd.R_trans [OF sound_rounds sound_clear]) (rule rounds_ok_delete)
  have ab: "sound E X N s (if blk \<noteq> ZERO_HASH then s\<lparr>nr_rounds := AList.delete h (nr_rounds s), nr_pending := AList.delete blk (nr_pending (s\<lparr>nr_rounds := AList.delete h (nr_rounds s)\<rparr>))\<rparr>
      else s\<lparr>nr_rounds := AList.delete h (nr_rounds s)\<rparr>)" for blk
    by (simp add: sound_def net_ok_def rounds_ok_delete pending_ok_delete)
  show ?thesis
  proof (cases "fst res")
    case Finalized
    show ?thesis unfolding settle_round_def Let_def Finalized consensus_result.case
      by (intro sd.k_rules sd.k_mod sound_set_round assms k_finalize fin)
  next
    case NextRound
    show ?thesis unfolding settle_round_def Let_def NextRound consensus_result.case
      by (intro sd.k_mod sound_set_round) (simp add: assms)
  next
    case Aborted
    show ?thesis unfolding settle_round_def Let_def Aborted consensus_result.case
      by (intro sd.k_then sd.k_mod ab k_persist)
  qed
qed

lemma k_advance: "keeps (sound E X N) s (maybe_advance_consensus E X N h s)"
proof -
  have same: "(if b then nlift r f else nret ()) u = Some (Inr (), t) \<Longrightarrow> t = u" for b f t u and r :: "diversity_error + unit"
    by (auto simp: nlift_def nret_def nfail_def split: if_splits sum.splits)
  have "rounds_ok N (nr_rounds u) \<Longrightarrow> tracked_ok N h (snd (round_evaluate cr'))"
    if "round_at s h = Some cr" "cast_precommit X N h cr s = Some (Inr cr', u)" for cr cr' u
    using cast_precommit_outcome [OF that(2)] round_at_tracked [OF _ that(1)] tracked_ok_evaluate by auto
  then show ?thesis
    unfolding maybe_advance_consensus_def
    by (intro sd.k_rules k_cast_precommit k_settle) (auto dest: same)
qed

section \<open>Proposals\<close>

lemma k_check_proposer: "keeps (sound E X N) s (check_proposer_id msg s)"
  unfolding check_proposer_id_def Let_def by (intro sd.k_rules)

lemma k_candidate: "keeps (sound E X N) s (check_candidate E X b r s)"
  by (auto simp: check_candidate_def nret_def nfail_def intro!: sound_chain chain_sound_candidate split: option.split sum.split)

lemma k_store_pending: "keeps (sound E X N) s (store_pending b s)"
proof -
  have "pending_ok (AList.update (bh_block_id (header b)) b m)"
    if "pending_ok m" "\<not> (map_of m (bh_block_id (header b)) = None \<and> MAX_PENDING_BLOCKS \<le> length m)" for m
    using that length_update_le [of "bh_block_id (header b)" b m]
    by (auto simp: pending_ok_def list_all_update length_update_known)
  then show ?thesis by (simp add: store_pending_def Let_def sd.k_fail nret_def sound_pending)
qed

lemma k_join: "keeps (sound E X N) s (join_round X' N h blk r s)"
proof (cases "round_at s h")
  case (Some cr)
  let ?cr = "cr\<lparr>block_hash := blk\<rparr>" and ?v = "\<lambda>t. sign_vote_with_epoch X' N t (current_epoch t) blk h r Prevote"
  show ?thesis
  proof (cases "block_hash cr \<noteq> ZERO_HASH \<and> block_hash cr \<noteq> blk")
    case False
    then have one: "rounds_ok N (nr_rounds s) \<Longrightarrow> tracked_ok N h ?cr"
      using round_at_tracked [OF _ Some] tracked_ok_block by blast
    then have s1: "sound E X N s (set_round h ?cr s)" by (rule sound_set_round)
    have two: "sound E X N s (set_round h cr2 (set_round h ?cr s))"
      if "add_prevote (nt_verify_strict N) (nt_vote_canon N) ?cr (?v t) = Inr cr2" for cr2 t
    proof -
      have "set_round h cr2 (set_round h ?cr s) = set_round h cr2 s"
        by (auto simp: set_round_def split: option.split)
      moreover have "tracked_ok N h cr2" if "rounds_ok N (nr_rounds s)"
        using tracked_ok_prevote [OF one [OF that]] \<open>add_prevote _ _ _ _ = _\<close> by (simp add: sign_vote_with_epoch_def)
      ultimately show ?thesis using sound_set_round by simp
    qed
    have bc: "keeps (sound E X N) s (broadcast m (set_round h cr2 (set_round h ?cr s)))"
      if "add_prevote (nt_verify_strict N) (nt_vote_canon N) ?cr (?v t) = Inr cr2" for cr2 t m
      by (rule sd.k_after [OF two [OF that] k_send(2)])
    show ?thesis
      using s1 bc by (auto simp: join_round_def Some Let_def nret_def nfail_def sd.R_refl split: sum.split)
  qed (simp add: join_round_def Some sd.k_fail)
qed (simp add: join_round_def sd.k_ret)

lemma k_proposal: "keeps (sound E X N) s (handle_block_proposal E X N now msg s)"
  unfolding handle_block_proposal_def Let_def
  by (intro sd.k_rules sd.k_mod k_sync_validators k_check_proposer k_candidate k_store_pending sound_ensure k_join k_persist k_advance k_send)

section \<open>Evidence and votes\<close>

lemma evict_keys_ok:
  assumes "dedup_ok seen order" "evict_keys seen order = (seen', order')"
  shows "dedup_ok seen' order' \<and> length seen' < MAX_EQUIVOCATION_DEDUP \<and> set seen' \<subseteq> set seen"
  using assms
proof (induction seen order rule: evict_keys.induct)
  case (2 seen k order)
  show ?case
  proof (cases "length seen \<ge> MAX_EQUIVOCATION_DEDUP")
    case True
    have "length (removeAll k seen) \<le> length seen" by simp
    also have "\<dots> \<le> MAX_EQUIVOCATION_DEDUP" using 2(2) by (simp add: dedup_ok_def)
    finally have "dedup_ok (removeAll k seen) order"
      using 2(2) by (auto simp: dedup_ok_def distinct_removeAll)
    then show ?thesis using 2 True by auto
  qed (use 2 in auto)
qed (auto simp: dedup_ok_def MAX_EQUIVOCATION_DEDUP_def)

lemma sound_evidence:
  assumes "key \<notin> set (nr_equivocations s)"
  shows "sound E X N s (let (seen, order) = evict_keys (nr_equivocations s) (nr_equivocations_order s) in
    s\<lparr>nr_equivocations := seen @ [key], nr_equivocations_order := order @ [key], nr_chain := slash_and_record prf ep (nr_chain s)\<rparr>)"
proof -
  obtain seen order where ev: "evict_keys (nr_equivocations s) (nr_equivocations_order s) = (seen, order)" by fastforce
  have "dedup_ok (seen @ [key]) (order @ [key])" if "dedup_ok (nr_equivocations s) (nr_equivocations_order s)"
    using evict_keys_ok [OF that ev] assms by (auto simp: dedup_ok_def)
  then show ?thesis by (simp add: ev sound_def net_ok_def chain_sound_slash)
qed

lemma k_record_equivocation: "keeps (sound E X N) s (net_record_equivocation E' N a b ep bc s)"
proof -
  have "keeps (sound E X N) t ((let key = equivocation_key_of a b ep in
          if key \<in> set (nr_equivocations s) then nret ()
          else
            nthen (nmod (\<lambda>s. let (seen, order) = evict_keys (nr_equivocations s) (nr_equivocations_order s) in
                     s\<lparr>nr_equivocations := seen @ [key], nr_equivocations_order := order @ [key],
                       nr_chain := slash_and_record (proof_of_votes a b) ep (nr_chain s)\<rparr>))
              (nwhen bc (broadcast (EquivocationEvidence \<lparr>ee_vote_a = a, ee_vote_b = b, ee_epoch = ep\<rparr>)))) t)"
    if "t = s" for t
    unfolding Let_def [of "equivocation_key_of a b ep"] that
    by (intro sd.k_rules sd.k_mod sound_evidence k_send)
  then show ?thesis
    unfolding net_record_equivocation_def
    by (intro sd.k_rules k_verify_vote) (auto dest: verify_vote_signature_reads)
qed

lemma k_evidence: "keeps (sound E X N) s (handle_equivocation_evidence E' N msg s)"
  unfolding handle_equivocation_evidence_def by (rule k_record_equivocation)

lemma tally_vote_ok:
  assumes "tally_vote N cr v = (old, Some cr')" "tracked_ok N h cr" "v_block_hash v = block_hash cr"
  shows "tracked_ok N h cr'"
  using assms
  by (auto simp: tally_vote_def split: vote_type.splits option.splits sum.splits intro: tracked_ok_prevote tracked_ok_precommit)

lemma k_process_vote: "keeps (sound E X N) s (process_vote E X N v s)"
proof (cases "round_at s (v_height v)")
  case (Some cr)
  obtain old new where tv: "tally_vote N cr v = (old, new)" by fastforce
  have set: "sound E X N s (set_round (v_height v) cr' s)" if "new = Some cr'" "v_block_hash v = block_hash cr" for cr'
    by (rule sound_set_round) (use tally_vote_ok [OF tv [unfolded that(1)] _ that(2)] round_at_tracked [OF _ Some] in blast)
  show ?thesis
    unfolding process_vote_def Some option.case tv prod.case
    by (intro sd.k_rules sd.k_mod k_persist k_send k_record_equivocation k_advance set) auto
qed (simp add: process_vote_def sd.k_ret)

lemma k_vote: "keeps (sound E X N) s (handle_consensus_vote E X N now v s)"
  unfolding handle_consensus_vote_def
  by (intro sd.k_rules sd.k_mod k_sync_validators k_verify_vote sound_ensure k_process_vote)

section \<open>Messages and periodic tasks\<close>

lemma k_dispatch: "keeps (sound E X N) s (dispatch E X N now m a s)"
  unfolding dispatch_def
  by (cases m)
    (simp_all add: k_hello k_heartbeat k_tx_gossip k_proposal k_block_request k_block_response k_vote k_evidence k_certificate k_law_sync)

lemma k_penalise: "keeps (sound E X N) s (penalise_failure N a e s)"
  unfolding penalise_failure_def by (intro sd.k_rules k_violation)

lemma k_message: "keeps (sound E X N) s (handle_message E X N now m a s)"
proof -
  have body: "keeps (sound E X N) t (case dispatch E X N now m a t of None \<Rightarrow> None
      | Some (Inl e, s') \<Rightarrow> penalise_failure N a e s' | Some (Inr u, s') \<Rightarrow> Some (Inr u, s'))" for t
    using k_dispatch [of E X N t now m a] sd.k_after [OF _ k_penalise]
    by (auto split: option.split sum.split simp: keeps_def)
  show ?thesis unfolding handle_message_def by (intro sd.k_then k_rate k_bandwidth body)
qed

lemma k_receive: "keeps (sound E X N) s (receive_message E X N now a n m s)"
proof -
  have "keeps (sound E X N) s (nthen (record_bandwidth now a n 0) (handle_message E X N now m a) s)"
    by (intro sd.k_then k_record_bandwidth k_message)
  then show ?thesis
    unfolding receive_message_def using sd.R_trans [OF _ sound_close]
    by (auto split: option.split sum.split simp: keeps_def)
qed

lemma timeout_sweep_ok:
  assumes "timeout_sweep cfg now ep m = (kept, stale, ch)" "rounds_ok N m"
  shows "rounds_ok N kept \<and> fst ` set kept \<subseteq> fst ` set m"
  using assms
proof (induction cfg now ep m arbitrary: kept stale ch rule: timeout_sweep.induct)
  case (2 cfg now ep h rs rest)
  obtain k st c where rec: "timeout_sweep cfg now ep rest = (k, st, c)" by (metis prod_cases3)
  have ok: "tracked_ok N h (rs_round rs)" "h \<notin> fst ` set rest" "rounds_ok N rest" using 2(3) by (auto simp: rounds_ok_def)
  have ih: "rounds_ok N k" "fst ` set k \<subseteq> fst ` set rest" using 2(1) [OF rec ok(3)] by auto
  have adv: "tracked_ok N h (rs_round rs')" if "advance_round_if_timed_out cfg now rs = Some (old, rs')" for old rs'
    using that ok(1)
    by (auto simp: advance_round_if_timed_out_def Let_def tracked_ok_def votes_ok_def round_votes_for_def split: if_splits)
  have cons: "rounds_ok N ((h, r) # k)" if "tracked_ok N h (rs_round r)" for r
    using that ih ok(2) by (auto simp: rounds_ok_def)
  have "kept = k \<or> (\<exists>r. kept = (h, r) # k \<and> rounds_ok N ((h, r) # k))"
    using 2(2) rec cons [OF ok(1)] cons [OF adv] by (auto split: if_splits option.splits)
  then show ?case
  proof (elim disjE exE conjE)
    show ?case if "kept = k" using ih that by auto
    show ?case if "kept = (h, r) # k" "rounds_ok N ((h, r) # k)" for r using ih(2) that by auto
  qed
qed simp

lemma sound_timeout: "sound E X N s (consensus_timeout_tick N now s)"
proof -
  obtain kept stale ch where sw: "timeout_sweep (nr_config s) now (current_epoch s) (nr_rounds s) = (kept, stale, ch)"
    by (metis prod_cases3)
  have "sound E X N s (s\<lparr>nr_rounds := kept, nr_pending := fold AList.delete stale (nr_pending s)\<rparr>)"
    using timeout_sweep_ok [OF sw] by (simp add: sound_def net_ok_def pending_ok_deletes)
  then show ?thesis using sd.R_trans [OF _ sound_save] by (simp add: consensus_timeout_tick_def sw Let_def)
qed

lemma sound_decay: "sound E X N s (decay_tick now s)"
  unfolding decay_tick_def Let_def by (rule sound_registry) (rule peers_ok_decay)

lemma sound_enforce: "sound E X N s (enforce_validator_set_on_registry vs s)"
proof -
  have "peers_ok (map (\<lambda>(k, p). (k, if map_of vs k = None then p\<lparr>pi_state := Banned\<rparr> else p)) reg)" if "peers_ok reg" for reg
    using that by (auto simp: peers_ok_def list_all_iff case_prod_unfold comp_def)
  then show ?thesis by (simp add: enforce_validator_set_on_registry_def Let_def sound_def net_ok_def)
qed

lemma sound_refresh: "sound E X N s (validator_set_refresh_tick N s)"
proof -
  have "sound E X N s (save_consensus N (clear_saved ((enforce_validator_set_on_registry vs (s\<lparr>nr_validator_set := vs\<rparr>))\<lparr>nr_rounds := [], nr_pending := []\<rparr>)))"
    if "keys_distinct vs" for vs
  proof -
    have clear: "sound E X N t (t\<lparr>nr_rounds := [], nr_pending := []\<rparr>)" for t by (simp add: sound_def net_ok_def)
    show ?thesis
      by (rule sd.R_trans [OF sd.R_trans [OF sd.R_trans [OF sd.R_trans [OF sound_validators [OF that] sound_enforce] clear] sound_clear] sound_save])
  qed
  then show ?thesis by (simp add: validator_set_refresh_tick_def Let_def sd.R_refl active_validator_map_distinct)
qed

lemma k_heartbeat_tick: "keeps (sound E X N) s (heartbeat_tick now s)"
  unfolding heartbeat_tick_def by (rule k_send)

lemma k_sync_tick: "keeps (sound E X N) s (sync_tick s)"
  unfolding sync_tick_def Let_def by (auto intro!: sd.k_rules k_send split: list.split)

lemma k_propose: "keeps (sound E X N) s (propose E X N now r b s)"
  unfolding propose_def Let_def by (intro sd.k_rules k_message k_send)

lemma k_candidate_for: "keeps (sound E X N) s (candidate_for E X now old s)"
  by (auto simp: candidate_for_def build_candidate_block_def nret_def sd.R_refl
      intro!: sound_chain chain_sound_scratch split: option.split sum.split)

lemma k_proposer_tick: "keeps (sound E X N) s (proposer_tick E X N now s)"
proof -
  have "keeps (sound E X N) t (let h = u64_saturating_add (chain_height (nr_chain t)) 1 in
       if \<not> proposer_diversity_gate_allows t then nret () t
       else case proposal_round t h of (r, ph, existing) \<Rightarrow>
         if \<not> is_proposer_for_height_round t h r \<or> ph \<noteq> PhPropose then nret () t
         else nbind (candidate_for E X now existing)
                (\<lambda>b. case b of None \<Rightarrow> nret () | Some b \<Rightarrow> propose E X N now r b) t)" for t
    unfolding Let_def case_prod_unfold by (intro sd.k_rules k_candidate_for k_propose)
  then show ?thesis unfolding proposer_tick_def by (intro sd.k_then k_sync_validators)
qed

section \<open>Runs\<close>

text \<open>
  One step of the runtime: a message that arrives, a connection that opens or closes, the bytes that a writer
  task has sent, the outcome of dialling, or one round of a periodic task.
\<close>

inductive net_step :: "ext \<Rightarrow> node_ext \<Rightarrow> net_ext \<Rightarrow> network_runtime \<Rightarrow> network_runtime \<Rightarrow> bool" for E X N where
  ns_receive: "receive_message E X N now addr n msg s = Some (r, s') \<Longrightarrow> net_step E X N s s'"
| ns_open: "open_connection X N now addr s = Some (r, s') \<Longrightarrow> net_step E X N s s'"
| ns_close: "net_step E X N s (close_connection addr s)"
| ns_sent: "record_bandwidth now addr 0 n s = Some (r, s') \<Longrightarrow> net_step E X N s s'"
| ns_dial_failed: "net_step E X N s (dial_failed now addr s)"
| ns_dial_ok: "net_step E X N s (dial_succeeded addr s)"
| ns_timeout: "net_step E X N s (consensus_timeout_tick N now s)"
| ns_heartbeat: "heartbeat_tick now s = Some (r, s') \<Longrightarrow> net_step E X N s s'"
| ns_decay: "net_step E X N s (decay_tick now s)"
| ns_refresh: "net_step E X N s (validator_set_refresh_tick N s)"
| ns_sync: "sync_tick s = Some (r, s') \<Longrightarrow> net_step E X N s s'"
| ns_propose: "proposer_tick E X N now s = Some (r, s') \<Longrightarrow> net_step E X N s s'"

lemma net_step_sound: "net_step E X N s s' \<Longrightarrow> sound E X N s s'"
proof (induction rule: net_step.induct)
  case (ns_receive now addr n msg s r s') then show ?case by (rule keepsD [OF k_receive])
next
  case (ns_open now addr s r s') then show ?case by (rule keepsD [OF k_open])
next
  case (ns_sent now addr n s r s') then show ?case by (rule keepsD [OF k_record_bandwidth])
next
  case (ns_heartbeat now s r s') then show ?case by (rule keepsD [OF k_heartbeat_tick])
next
  case (ns_sync s r s') then show ?case by (rule keepsD [OF k_sync_tick])
next
  case (ns_propose now s r s') then show ?case by (rule keepsD [OF k_proposer_tick])
qed (simp_all add: sound_close dial_failed_def dial_succeeded_def sound_backoff sound_timeout sound_decay sound_refresh)

lemma net_steps_sound: "(net_step E X N)\<^sup>*\<^sup>* s s' \<Longrightarrow> sound E X N s s'"
  by (induction rule: rtranclp_induct) (auto intro: sd.R_refl sd.R_trans net_step_sound)

lemma runtime_new_ok: "runtime_new E X c cfg = Inr s \<Longrightarrow> net_ok N s"
  using keys_distinct_fold [of "[]"] active_validator_map_distinct
  by (auto simp: runtime_new_def validator_set_map_def Let_def bind_result_Inr net_ok_def bounded_map_def dedup_ok_def split: if_splits)

text \<open>
  C4. The node stays within its bounds and its chain stays sound, whatever the network does. Starting from a
  runtime as it is set up, after any sequence of messages from any peers, connections that open and close,
  sent bytes and rounds of the periodic tasks: the peer registry, the pending blocks, the rate and bandwidth tables and the
  evidence cache are within their limits and keyed without duplicates, every tracked round holds verified votes of
  its validators for its own block, and the chain is well-formed and has only been appended to.
\<close>

theorem network_run_invariant:
  assumes "runtime_new E X c cfg = Inr s" "(net_step E X N)\<^sup>*\<^sup>* s s'" "chain_ok E X (nr_chain s)"
  shows "net_ok N s' \<and> chain_ok E X (nr_chain s') \<and> prefix (ch_blocks c) (ch_blocks (nr_chain s')) \<and>
    length (nr_registry s') \<le> 1000 \<and> length (nr_pending s') \<le> 64 \<and> length (nr_rate_limits s') \<le> 4096 \<and>
    length (nr_bandwidth s') \<le> 4096 \<and> length (nr_equivocations s') \<le> 8192"
proof -
  have "ch_blocks (nr_chain s) = ch_blocks c"
    using assms(1) by (auto simp: runtime_new_def Let_def bind_result_Inr set_validator_set_def split: if_splits)
  moreover have "net_ok N s'" "chain_ok E X (nr_chain s')" "prefix (ch_blocks (nr_chain s)) (ch_blocks (nr_chain s'))"
    using net_steps_sound [OF assms(2)] runtime_new_ok [OF assms(1)] assms(3) by (auto simp: sound_def chain_sound_def)
  ultimately show ?thesis
    by (simp add: net_ok_def peers_ok_def MAX_PEERS_def pending_ok_def MAX_PENDING_BLOCKS_def bounded_map_def
        MAX_RATE_LIMIT_ENTRIES_def MAX_BANDWIDTH_ENTRIES_def dedup_ok_def MAX_EQUIVOCATION_DEDUP_def)
qed

definition sample_config :: network_config where
  "sample_config =
     \<lparr>nc_enable = True, nc_self_addr = ''127.0.0.1:9000'', nc_peers = [], nc_allowed_peers = [], nc_validators = [],
      nc_round_timeout_ms = 5000, nc_max_rounds = 5, nc_protocol_version = 1, nc_inbound_msg_window_ms = 1000,
      nc_inbound_msg_limit = 100, nc_peer_score_initial = 100, nc_peer_score_penalty = 10, nc_peer_score_ban_threshold = 0,
      nc_peer_max_violations = 5, nc_peer_score_decay_interval_ms = 1000, nc_peer_score_decay_amount = 1,
      nc_peer_violation_forgive_interval_ms = 1000, nc_bandwidth_window_ms = 1000, nc_inbound_bytes_limit = 1000000,
      nc_outbound_bytes_limit = 1000000, nc_min_connected_peers = 0, nc_max_same_subnet_pct = 100\<rparr>"

definition sample_net :: net_ext where
  "sample_net =
     \<lparr>nt_verify_strict = (\<lambda>_ _ _. True), nt_vote_canon = (\<lambda>_. []), nt_message_bytes = (\<lambda>_. []), nt_cpog_blamed = (\<lambda>_. False),
      nt_round_to_value = (\<lambda>_. None), nt_round_from_value = (\<lambda>_. None),
      nt_json = \<lparr>js_rounds_text = (\<lambda>_. None), js_rounds_parse = (\<lambda>_. None), js_blocks_text = (\<lambda>_. None), js_blocks_parse = (\<lambda>_. None)\<rparr>\<rparr>"

definition sample_heartbeat :: heartbeat_message where
  "sample_heartbeat =
     \<lparr>hb_validator_id = 5, hb_current_height = 9, hb_protocol_version = 1, hb_epoch = 0, hb_timestamp_ms = 70\<rparr>"

definition sample_runtime :: network_runtime where
  "sample_runtime =
     \<lparr>nr_chain = sample_chain, nr_config = sample_config, nr_store = None, nr_registry = [], nr_connections = [],
      nr_rounds = [], nr_pending = [], nr_equivocations = [], nr_equivocations_order = [], nr_rate_limits = [],
      nr_bandwidth = [], nr_peer_seeds = [], nr_backoff = [], nr_validator_set = [(5, 5)], nr_validator_key = 5,
      nr_validator_id = 5, nr_chain_id = 1, nr_outbox = []\<rparr>"

lemma sample_chain_fields:
  "ch_validator_set sample_chain = []" "ch_chain_id sample_chain = 1" "ch_validator_key sample_chain = 5"
  "epoch (ch_treasury sample_chain) = 0"
  by (simp_all add: sample_chain_def treasury_new_def)

lemma sample_runtime_new: "runtime_new signing_ext sample_node sample_chain sample_config = Inr sample_runtime"
  by (simp add: runtime_new_def sample_runtime_def sample_config_def validator_set_map_def active_validator_map_def Let_def
      local_validator_id_def sample_node_def sample_chain_fields)

lemma sample_runtime_limits:
  "record_bandwidth now addr n 0 sample_runtime = Some (Inr (), sample_runtime\<lparr>nr_bandwidth := [(addr, \<lparr>bw_inbound_bytes = min n U64_MAX, bw_outbound_bytes = 0, bw_window_start_ms = now\<rparr>)]\<rparr>)"
  "check_rate_limit now addr False (sample_runtime\<lparr>nr_bandwidth := bw\<rparr>) =
     Some (Inr (), sample_runtime\<lparr>nr_bandwidth := bw, nr_rate_limits := [(addr, \<lparr>rt_window_start_ms = now, rt_count = 1, rt_violations = 0\<rparr>)]\<rparr>)"
  by (simp_all add: record_bandwidth_def nmod_def check_rate_limit_def make_room_def bandwidth_entry_def nret_def Let_def
      sample_runtime_def sample_config_def MAX_RATE_LIMIT_ENTRIES_def MAX_BANDWIDTH_ENTRIES_def u64_saturating_add_def u32_saturating_add_def machine_int)

lemma sample_receive:
  "\<exists>s'. receive_message signing_ext sample_node sample_net 60 ''10.0.0.2:9000'' 40 (Heartbeat sample_heartbeat) sample_runtime = Some (Inr (), s') \<and>
     map fst (nr_registry s') = [5]"
proof -
  let ?e = "\<lparr>bw_inbound_bytes = 40, bw_outbound_bytes = 0, bw_window_start_ms = 60\<rparr>"
  let ?s = "sample_runtime\<lparr>nr_bandwidth := [(''10.0.0.2:9000'', ?e)], nr_rate_limits := [(''10.0.0.2:9000'', \<lparr>rt_window_start_ms = 60, rt_count = 1, rt_violations = 0\<rparr>)]\<rparr>"
  have bw: "check_bandwidth_limit 60 ''10.0.0.2:9000'' ?s = Some (Inr (), ?s)"
    by (simp add: check_bandwidth_limit_def make_room_def bandwidth_entry_def nret_def Let_def sample_runtime_def sample_config_def)
  have "\<exists>p. handle_heartbeat sample_heartbeat ''10.0.0.2:9000'' ?s = Some (Inr (), ?s\<lparr>nr_registry := [(5, p)]\<rparr>)"
    by (simp add: handle_heartbeat_def nthen_reject upsert_peer_def registry_upsert_def authorised_def current_epoch_def nret_def
        sample_runtime_def sample_config_def sample_heartbeat_def sample_chain_fields Let_def MAX_PEERS_def)
  then obtain p where "handle_heartbeat sample_heartbeat ''10.0.0.2:9000'' ?s = Some (Inr (), ?s\<lparr>nr_registry := [(5, p)]\<rparr>)" by blast
  then have "handle_message signing_ext sample_node sample_net 60 (Heartbeat sample_heartbeat) ''10.0.0.2:9000''
      (sample_runtime\<lparr>nr_bandwidth := [(''10.0.0.2:9000'', ?e)]\<rparr>) = Some (Inr (), ?s\<lparr>nr_registry := [(5, p)]\<rparr>)"
    by (simp only: handle_message_def nthen_def nbind_def is_priority_def network_message.case sample_runtime_limits(2) option.case prod.case sum.case bw dispatch_def)
  moreover have "record_bandwidth 60 ''10.0.0.2:9000'' 40 0 sample_runtime = Some (Inr (), sample_runtime\<lparr>nr_bandwidth := [(''10.0.0.2:9000'', ?e)]\<rparr>)"
    by (simp add: sample_runtime_limits(1) U64_MAX_def)
  ultimately have "receive_message signing_ext sample_node sample_net 60 ''10.0.0.2:9000'' 40 (Heartbeat sample_heartbeat) sample_runtime
      = Some (Inr (), ?s\<lparr>nr_registry := [(5, p)]\<rparr>)"
    by (simp only: receive_message_def nthen_def nbind_def option.case prod.case sum.case)
  then show ?thesis by simp
qed

theorem network_run_invariant_witness:
  "\<exists>s'. (net_step signing_ext sample_node sample_net)\<^sup>*\<^sup>* sample_runtime s' \<and> map fst (nr_registry s') = [5] \<and>
     net_ok sample_net s' \<and> chain_ok signing_ext sample_node (nr_chain s') \<and> prefix (ch_blocks sample_chain) (ch_blocks (nr_chain s'))"
proof -
  obtain s' where s': "receive_message signing_ext sample_node sample_net 60 ''10.0.0.2:9000'' 40 (Heartbeat sample_heartbeat) sample_runtime = Some (Inr (), s') \<and>
    map fst (nr_registry s') = [5]" using sample_receive by (rule exE)
  have step: "(net_step signing_ext sample_node sample_net)\<^sup>*\<^sup>* sample_runtime s'" by (rule r_into_rtranclp, rule ns_receive, rule conjunct1 [OF s'])
  have "chain_ok signing_ext sample_node (nr_chain sample_runtime)" using sample_chain_ok by (simp add: sample_runtime_def)
  note inv = network_run_invariant [OF sample_runtime_new step this]
  show ?thesis using inv step conjunct2 [OF s'] by (intro exI [of _ s']) simp
qed

end
