(* ===== verification/Scc_Network_Outcomes.thy ===== *)
theory Scc_Network_Outcomes
  imports Scc_Network_Safety Scc_Chain_Outcomes
begin

text \<open>
  What single handlers of the network runtime (\<open>node/network.rs\<close>) achieve: frames on the wire, the consensus state over
  a restart, the admission of proposals, and the places where the code falls short of what it
  means to do: blocks that bypass the vote, rounds nobody can propose in, evidence that is punished twice.
\<close>

section \<open>Frames\<close>

lemma le_bytes_of_le_bytes: "le_bytes (length bs) (of_le_bytes bs) = bs"
  by (induction bs) simp_all

lemma u32_be_length [simp]: "length (u32_to_be_bytes n) = 4"
  by (simp add: u32_to_be_bytes_def)

lemma u32_be_decode: "n < 2 ^ 32 \<Longrightarrow> u32_from_be_bytes (u32_to_be_bytes n) = n"
  by (simp add: u32_to_be_bytes_def u32_from_be_bytes_def of_le_bytes_le_bytes)

lemma u32_be_encode: "length bs = 4 \<Longrightarrow> u32_to_be_bytes (u32_from_be_bytes bs) = bs"
  using le_bytes_of_le_bytes [of "rev bs"] by (simp add: u32_to_be_bytes_def u32_from_be_bytes_def)

text \<open>
  C37. Frames: reading a stream gives a payload and the bytes after it exactly when the stream starts with the frame that
  is written for this payload. So what one node writes the next one reads, frame by frame, and
  nothing else is taken for a frame.
\<close>

theorem frame_exact: "read_frame bs = Inr (p, rest) \<longleftrightarrow> (\<exists>fr. write_frame p = Inr fr \<and> bs = fr @ rest)"
proof
  assume read: "read_frame bs = Inr (p, rest)"
  let ?n = "u32_from_be_bytes (take 4 bs)"
  have l: "4 \<le> length bs" "?n \<noteq> 0" "?n \<le> MAX_FRAME" "?n \<le> length (drop 4 bs)"
    and p: "p = take ?n (drop 4 bs)" "rest = drop ?n (drop 4 bs)"
    using read by (auto simp: read_frame_def Let_def split: if_splits)
  have n: "length p = ?n" using p(1) l(4) by simp
  have "u32_to_be_bytes (length p) = take 4 bs" unfolding n using l(1) by (simp add: u32_be_encode)
  moreover have "bs = take 4 bs @ p @ rest" unfolding p by (simp only: append_take_drop_id)
  ultimately show "\<exists>fr. write_frame p = Inr fr \<and> bs = fr @ rest"
    using l n by (simp add: write_frame_def Let_def)
next
  assume "\<exists>fr. write_frame p = Inr fr \<and> bs = fr @ rest"
  then have w: "length p \<noteq> 0" "length p \<le> MAX_FRAME" "bs = u32_to_be_bytes (length p) @ p @ rest"
    by (auto simp: write_frame_def Let_def split: if_splits)
  have "u32_from_be_bytes (take 4 bs) = length p"
    using w(2,3) by (simp add: u32_be_decode MAX_FRAME_def)
  then show "read_frame bs = Inr (p, rest)" using w by (simp add: read_frame_def Let_def)
qed

section \<open>Restart\<close>

lemma votes_by_validator_id:
  assumes "votes_ok verify canon cr ty m"
  shows "votes_by_validator (map snd m) = m"
proof -
  have "fold (\<lambda>v m. AList.update (validator_id v) v m) (map snd m) [] = fold (\<lambda>(k, v). AList.update k v) m []"
    unfolding fold_map using assms by (intro fold_cong) (auto simp: votes_ok_def)
  then show ?thesis
    using fold_update_distinct [of "[]" m] assms by (simp add: votes_by_validator_def votes_ok_def)
qed

lemma persisted_round:
  assumes "tracked_ok N h (rs_round rs)"
  shows "persisted_to_round_state (round_state_to_persisted rs) = rs"
proof -
  have "fold (\<lambda>(k, v) m. AList.update k v m) (validator_set (rs_round rs)) [] = validator_set (rs_round rs)"
    using fold_update_distinct [of "[]" "validator_set (rs_round rs)"] assms by (simp add: tracked_ok_def)
  moreover have "votes_by_validator (map snd (prevotes (rs_round rs))) = prevotes (rs_round rs)"
    "votes_by_validator (map snd (precommits (rs_round rs))) = precommits (rs_round rs)"
    using assms by (auto simp: tracked_ok_def intro: votes_by_validator_id)
  ultimately show ?thesis
    using assms by (simp add: persisted_to_round_state_def round_state_to_persisted_def tracked_ok_def Let_def)
qed

text \<open>The form of a round whose block is not among the blocks that could be read.\<close>

definition without_block :: "round_state \<Rightarrow> round_state" where
  "without_block rs =
     rs\<lparr>rs_round := (rs_round rs)\<lparr>block_hash := ZERO_HASH, prevotes := [], precommits := [], phase := PhPropose\<rparr>\<rparr>"

lemma restore_rounds_skip: "e \<notin> fst ` set es \<Longrightarrow> fst (restore_rounds N e bl es acc c) = acc"
  by (induction es arbitrary: c) (auto simp: restore_round_def)

lemma restore_rounds_hit:
  assumes "keys_distinct es" "map_of es e = Some v" "nt_round_from_value N v = Some p" "persisted_to_round_state p = rs"
    and "block_hash (rs_round rs) \<noteq> ZERO_HASH"
  shows "fst (restore_rounds N e bl es [] c) = [(e, if map_of bl (block_hash (rs_round rs)) = None then without_block rs else rs)]"
  using assms(1,2)
proof (induction es arbitrary: c)
  case (Cons x es)
  show ?case
  proof (cases "fst x = e")
    case True
    then have "snd x = v" "e \<notin> fst ` set es" using Cons(2,3) by (auto simp: image_iff map_of_eq_None_iff)
    then show ?thesis
      using True assms(3-5) by (auto simp: restore_round_def Let_def restore_rounds_skip without_block_def)
  next
    case False
    then have "fst (restore_rounds N e bl (x # es) [] c) = fst (restore_rounds N e bl es [] True)"
      by (simp add: restore_round_def)
    then show ?thesis using Cons False by (cases x) auto
  qed
qed simp

lemma filter_key: "keys_distinct m \<Longrightarrow> map_of m k = Some v \<Longrightarrow> filter (\<lambda>x. fst x = k) m = [(k, v)]"
proof (induction m)
  case (Cons x m)
  then show ?case by (cases "fst x = k") (auto simp: filter_empty_conv rev_image_eqI)
qed simp

lemma save_frame [simp]:
  "nr_chain (save_consensus N s) = nr_chain s" "nr_rounds (save_consensus N s) = nr_rounds s" "nr_pending (save_consensus N s) = nr_pending s"
  by (simp_all add: save_consensus_def Let_def split: option.split)

lemma restore_consensus_hit:
  assumes "keys_distinct es" "map_of es e = Some v" "nt_round_from_value N v = Some p" "persisted_to_round_state p = rs"
    and k: "block_hash (rs_round rs) = k" "k \<noteq> ZERO_HASH" and "keys_distinct bl" "nr_rounds s = []"
    and e: "u64_saturating_add (chain_height (nr_chain s)) 1 = e"
  shows "nr_rounds (restore_consensus N es bl s) = [(e, if map_of bl k = None then without_block rs else rs)] \<and>
    nr_pending (restore_consensus N es bl s) = (case map_of bl k of Some b \<Rightarrow> [(k, b)] | None \<Rightarrow> [])"
proof -
  have hit: "fst (restore_rounds N e bl es [] False) = [(e, if map_of bl k = None then without_block rs else rs)]"
    using restore_rounds_hit [OF assms(1-4)] k by simp
  obtain rounds c where rr: "restore_rounds N e bl es [] False = (rounds, c)" by fastforce
  have "(e, v) \<in> set es" using assms(2) by (rule map_of_SomeD)
  then have ne: "filter (\<lambda>x. fst x = e \<and> nt_round_from_value N (snd x) \<noteq> None) es \<noteq> []"
    using assms(3) by (force simp: filter_empty_conv)
  have kept: "filter (\<lambda>x. fst x \<in> set (restored_hashes rounds)) bl = (case map_of bl k of Some b \<Rightarrow> [(k, b)] | None \<Rightarrow> [])"
    using hit rr k filter_key [OF assms(7), of k] by (simp add: restored_hashes_def without_block_def split: option.split)
  show ?thesis
    using hit rr ne kept unfolding restore_consensus_def Let_def e assms(8) by simp
qed

text \<open>The JSON encoding reads back what it has written for the state of this node.\<close>

definition keyed :: "(nat, string) hashmap \<Rightarrow> (string, string) hashmap" where
  "keyed m = map (\<lambda>(h, v). (u64_to_string h, v)) m"

definition json_reads_back :: "net_ext \<Rightarrow> network_runtime \<Rightarrow> bool" where
  "json_reads_back N s \<longleftrightarrow>
     (\<forall>rs \<in> snd ` set (nr_rounds s). \<exists>v. nt_round_to_value N (round_state_to_persisted rs) = Some v \<and>
        nt_round_from_value N v = Some (round_state_to_persisted rs)) \<and>
     (\<exists>t. js_rounds_text (nt_json N) (keyed (saved_rounds N (nr_rounds s))) = Some t \<and>
        js_rounds_parse (nt_json N) t = Some (keyed (saved_rounds N (nr_rounds s)))) \<and>
     (\<exists>t. js_blocks_text (nt_json N) (map snd (nr_pending s)) = Some t \<and>
        js_blocks_parse (nt_json N) t = Some (map snd (nr_pending s)))"

lemma saved_rounds_entries:
  assumes "\<forall>rs \<in> snd ` set m. \<exists>v. nt_round_to_value N (round_state_to_persisted rs) = Some v"
  shows "map fst (saved_rounds N m) = map fst m \<and>
    map_of (saved_rounds N m) e = Option.bind (map_of m e) (\<lambda>rs. nt_round_to_value N (round_state_to_persisted rs))"
  using assms by (induction m) (auto simp: saved_rounds_def List.map_filter_simps)

lemma list_all_tl: "list_all P xs \<Longrightarrow> list_all P (tl xs)"
  by (cases xs) simp_all

lemma saved_store:
  assumes "nr_store s = Some st" "healthy st" "net_ok N s" "json_reads_back N s"
    and "list_all ((\<lambda>h. h \<le> U64_MAX) \<circ> fst) (nr_rounds s)" "length (nr_rounds s) \<le> MAX_PERSISTED_CONSENSUS_ROUNDS"
  shows "\<exists>t u st'. nr_store (save_consensus N s) = Some st' \<and> healthy st' \<and> cs_rounds st' = Some t \<and> cs_pending st' = Some u \<and>
    decode_rounds (nt_json N) t = Inr (saved_rounds N (nr_rounds s)) \<and>
    (if list_all is_structurally_valid (map snd (nr_pending s)) then decode_blocks (nt_json N) u = Inr (nr_pending s)
     else \<exists>x. decode_blocks (nt_json N) u = Inl x)"
proof -
  let ?m = "saved_rounds N (nr_rounds s)" and ?p = "nr_pending s"
  obtain t u where t: "js_rounds_text (nt_json N) (keyed ?m) = Some t" "js_rounds_parse (nt_json N) t = Some (keyed ?m)"
    and u: "js_blocks_text (nt_json N) (map snd ?p) = Some u" "js_blocks_parse (nt_json N) u = Some (map snd ?p)"
    using assms(4) unfolding json_reads_back_def by blast
  have keys: "map fst ?m = map fst (nr_rounds s)"
    using saved_rounds_entries [of "nr_rounds s" N] assms(4) unfolding json_reads_back_def by blast
  then have "keys_distinct ?m" and len: "length ?m = length (nr_rounds s)" and "list_all ((\<lambda>h. h \<le> U64_MAX) \<circ> fst) ?m"
    using assms(3,5) by (simp_all add: net_ok_def rounds_ok_def, metis length_map, metis list.pred_map)
  note r = save_load_rounds [OF assms(2) this(1,3) _ t [unfolded keyed_def]]
  let ?st = "st\<lparr>cs_rounds := Some t, cs_answers := tl (cs_answers st)\<rparr>"
  have h: "healthy ?st" "healthy (?st\<lparr>cs_pending := Some u, cs_answers := tl (tl (cs_answers st))\<rparr>)"
    using assms(2) by (simp_all add: list_all_tl)
  have p: "keys_distinct ?p" "list_all (\<lambda>(k, b). bh_block_id (header b) = k) ?p" "length ?p \<le> MAX_PERSISTED_PENDING_BLOCKS"
    using assms(3) by (simp_all add: net_ok_def pending_ok_def MAX_PENDING_BLOCKS_def MAX_PERSISTED_PENDING_BLOCKS_def)
  note b = save_load_blocks [OF h(1) p u]
  have "nr_store (save_consensus N s) = Some (?st\<lparr>cs_pending := Some u, cs_answers := tl (tl (cs_answers st))\<rparr>)"
    using assms(1,6) len r(1) b(1) by (simp add: save_consensus_def Let_def)
  moreover have "decode_rounds (nt_json N) t = Inr ?m" using assms(6) len r(2) by simp
  ultimately show ?thesis
    using h(2) b(2,3) by (intro exI [of _ t] exI [of _ u] exI [of _ "?st\<lparr>cs_pending := Some u, cs_answers := tl (tl (cs_answers st))\<rparr>"]) simp
qed

text \<open>
  C18. A restart does not lose the vote, provided that the pending blocks are structurally valid. A node saves its consensus
  state, no file operation fails, the JSON encoding reads back what it wrote, and there are at most 10,000 rounds: when the
  node starts again, it tracks the round of the next height exactly as before, with its number, phase, block and every vote it
  had recorded, still has the block of that round, and has forgotten every other pending block and round. If a single one of
  the pending blocks is not structurally valid (which the validation of proposals does not check), none is read back, and
  the round goes on without its block and without any vote.
\<close>

theorem consensus_state_survives_restart:
  assumes "net_ok N s" "nr_store s = Some st" "healthy st" "json_reads_back N s" "nr_store s' = nr_store (save_consensus N s)"
    and "list_all ((\<lambda>h. h \<le> U64_MAX) \<circ> fst) (nr_rounds s)" "length (nr_rounds s) \<le> MAX_PERSISTED_CONSENSUS_ROUNDS"
    and "nr_rounds s' = []" "e = u64_saturating_add (chain_height (nr_chain s')) 1" "map_of (nr_rounds s) e = Some rs"
    and "block_hash (rs_round rs) \<noteq> ZERO_HASH" "map_of (nr_pending s) (block_hash (rs_round rs)) = Some b"
  shows "let s'' = load_persisted_consensus_state N s'
    in if list_all is_structurally_valid (map snd (nr_pending s))
       then nr_rounds s'' = [(e, rs)] \<and> nr_pending s'' = [(block_hash (rs_round rs), b)]
       else nr_rounds s'' = [(e, without_block rs)] \<and> nr_pending s'' = []"
proof -
  let ?m = "saved_rounds N (nr_rounds s)" and ?k = "block_hash (rs_round rs)"
  obtain t u st' where st: "nr_store s' = Some st'" "healthy st'" "cs_rounds st' = Some t" "cs_pending st' = Some u"
    "decode_rounds (nt_json N) t = Inr ?m"
    and dec: "if list_all is_structurally_valid (map snd (nr_pending s)) then decode_blocks (nt_json N) u = Inr (nr_pending s)
      else \<exists>x. decode_blocks (nt_json N) u = Inl x"
    using saved_store [OF assms(2,3,1,4,6,7)] unfolding assms(5) by blast
  have ok: "rounds_ok N (nr_rounds s)" "keys_distinct (nr_pending s)" using assms(1) by (simp_all add: net_ok_def pending_ok_def)
  have "rs \<in> snd ` set (nr_rounds s)" using map_of_SomeD [OF assms(10)] by force
  then obtain v where v: "nt_round_to_value N (round_state_to_persisted rs) = Some v"
    "nt_round_from_value N v = Some (round_state_to_persisted rs)"
    using assms(4) unfolding json_reads_back_def by blast
  have "\<forall>rs \<in> snd ` set (nr_rounds s). \<exists>v. nt_round_to_value N (round_state_to_persisted rs) = Some v"
    using assms(4) unfolding json_reads_back_def by blast
  then have m: "keys_distinct ?m" "map_of ?m e = Some v"
    using saved_rounds_entries [of "nr_rounds s" N e] assms(10) ok(1) v(1) by (simp_all add: rounds_ok_def)
  note hit = restore_consensus_hit [OF m v(2) persisted_round [OF rounds_ok_lookup [OF ok(1) assms(10)]] refl assms(11)]
  let ?st1 = "st'\<lparr>cs_answers := tl (cs_answers st')\<rparr>" and ?st2 = "st'\<lparr>cs_answers := tl (tl (cs_answers st'))\<rparr>"
  have h1: "healthy ?st1" using st(2) by (simp add: list_all_tl)
  have load: "load_consensus_state (nt_json N) st' = (Inr ?m, ?st1)"
    "load_pending_blocks (nt_json N) ?st1 = (decode_blocks (nt_json N) u, ?st2)"
    using st read_healthy [OF st(2)] read_healthy [OF h1] by (simp_all add: load_consensus_state_def load_pending_blocks_def)
  have "?m \<noteq> []" using m(2) by auto
  then have "load_persisted_consensus_state N s' = restore_consensus N ?m
      (case decode_blocks (nt_json N) u of Inl _ \<Rightarrow> [] | Inr bl \<Rightarrow> bl) (s'\<lparr>nr_store := Some ?st2\<rparr>)"
    using st(1) load by (simp add: load_persisted_consensus_state_def split: sum.split)
  then show ?thesis
    using dec hit [of "nr_pending s" "s'\<lparr>nr_store := Some ?st2\<rparr>"] hit [of "[]" "s'\<lparr>nr_store := Some ?st2\<rparr>"] ok(2) assms(8,9,12)
    by (cases "decode_blocks (nt_json N) u") (auto simp: Let_def split: if_splits)
qed

text \<open>
  A round with one verified vote and its block, saved and read again; with genesis parameters in the block, which is above
  genesis, the vote and the block are gone.
\<close>

definition voted_round :: round_state where
  "voted_round = \<lparr>rs_round = (round_new 1 0 9 2 0 [(5, 5)] 5)\<lparr>quorum := 1, phase := PhPrevote,
     prevotes := [(5, \<lparr>validator_id = 5, v_block_hash = 9, v_height = 2, v_round = 0, vote_type_of = Prevote, v_signature = replicate 64 (CHR 0x00)\<rparr>)]\<rparr>,
     rs_last_round_ms = 50\<rparr>"

definition voted_block :: "bytes option \<Rightarrow> block" where
  "voted_block g = (sample_block [])\<lparr>header := sample_header\<lparr>bh_block_id := 9, bh_height := 2, bh_mfidel_seal := seal_from_height 2\<rparr>,
     body := (body (sample_block []))\<lparr>genesis_consensus_params := g\<rparr>\<rparr>"

definition voting_runtime :: "bytes option \<Rightarrow> network_runtime" where
  "voting_runtime g = sample_runtime\<lparr>nr_store := Some \<lparr>cs_rounds = None, cs_pending = None, cs_answers = [True]\<rparr>,
     nr_rounds := [(2, voted_round)], nr_pending := [(9, voted_block g)]\<rparr>"

definition json_net :: "bytes option \<Rightarrow> net_ext" where
  "json_net g = sample_net\<lparr>nt_round_to_value := (\<lambda>_. Some ''round''),
     nt_round_from_value := (\<lambda>_. Some (round_state_to_persisted voted_round)),
     nt_json := \<lparr>js_rounds_text = (\<lambda>_. Some ''rounds''), js_rounds_parse = (\<lambda>_. Some [(''2'', ''round'')]),
       js_blocks_text = (\<lambda>_. Some ''blocks''), js_blocks_parse = (\<lambda>_. Some [voted_block g])\<rparr>\<rparr>"

lemma voting_runtime_ok: "net_ok (json_net g) (voting_runtime g)"
proof -
  have "tracked_ok (json_net g) 2 (rs_round voted_round)"
    by (simp add: tracked_ok_def voted_round_def round_new_def votes_ok_def vote_ok_def round_votes_for_def json_net_def sample_net_def Let_def)
  then show ?thesis
    by (simp add: net_ok_def voting_runtime_def sample_runtime_def rounds_ok_def pending_ok_def bounded_map_def dedup_ok_def
        MAX_PENDING_BLOCKS_def voted_block_def)
qed

lemma voting_json: "json_reads_back (json_net g) (voting_runtime g)"
proof -
  have "u64_to_string 2 = ''2''" by code_simp
  then show ?thesis
    by (simp add: json_reads_back_def voting_runtime_def json_net_def saved_rounds_def List.map_filter_simps keyed_def)
qed

lemma voted_block_valid: "is_structurally_valid (voted_block g) \<longleftrightarrow> g = None"
  by (simp add: is_structurally_valid_def voted_block_def sample_block_def sample_header_def supported_version_iff Let_def U32_MAX_def)

theorem consensus_state_survives_restart_witness:
  "let restart = (\<lambda>g. load_persisted_consensus_state (json_net g) (sample_runtime\<lparr>nr_store := nr_store (save_consensus (json_net g) (voting_runtime g))\<rparr>))
   in nr_rounds (restart None) = [(2, voted_round)] \<and> nr_pending (restart None) = [(9, voted_block None)] \<and>
      nr_rounds (restart (Some [])) = [(2, without_block voted_round)] \<and> nr_pending (restart (Some [])) = []"
proof -
  let ?s' = "\<lambda>g. sample_runtime\<lparr>nr_store := nr_store (save_consensus (json_net g) (voting_runtime g))\<rparr>"
  have h: "chain_height (nr_chain (?s' g)) = 1" for g
    by (simp add: sample_runtime_def sample_chain_def chain_height_def latest_block_def sample_block_def sample_header_def)
  have "let s'' = load_persisted_consensus_state (json_net g) (?s' g)
    in if list_all is_structurally_valid (map snd (nr_pending (voting_runtime g)))
       then nr_rounds s'' = [(2, voted_round)] \<and> nr_pending s'' = [(block_hash (rs_round voted_round), voted_block g)]
       else nr_rounds s'' = [(2, without_block voted_round)] \<and> nr_pending s'' = []" for g
  proof (rule consensus_state_survives_restart [where st = "\<lparr>cs_rounds = None, cs_pending = None, cs_answers = [True]\<rparr>", OF voting_runtime_ok _ _ voting_json])
    show "2 = u64_saturating_add (chain_height (nr_chain (?s' g))) 1" unfolding h by (simp add: u64_saturating_add_def U64_MAX_def)
  qed (simp_all add: voting_runtime_def sample_runtime_def voted_round_def round_new_def Let_def U64_MAX_def MAX_PERSISTED_CONSENSUS_ROUNDS_def)
  from this [of None] this [of "Some []"] show ?thesis
    by (simp add: voting_runtime_def voted_block_valid voted_round_def round_new_def Let_def)
qed

section \<open>Admission of proposals\<close>

definition synced :: "network_runtime \<Rightarrow> network_runtime" where
  "synced s = (case sync_validator_set_from_chain_if_unconfigured s of Some (_, t) \<Rightarrow> t | None \<Rightarrow> s)"

lemma nthen_synced: "nthen sync_validator_set_from_chain_if_unconfigured k s = k (synced s)"
  by (simp add: synced_def sync_validator_set_from_chain_if_unconfigured_def nthen_mod) (simp add: nmod_def)

lemma synced_frame [simp]:
  "nr_pending (synced s) = nr_pending s" "nr_rounds (synced s) = nr_rounds s" "nr_chain (synced s) = nr_chain s"
  "nr_outbox (synced s) = nr_outbox s" "nr_config (synced s) = nr_config s" "nr_validator_id (synced s) = nr_validator_id s"
  by (simp_all add: synced_def sync_validator_set_from_chain_if_unconfigured_def nmod_def Let_def)

lemma proposer_exists: "proposer_for_height_round s h r \<noteq> None"
proof (cases "nr_validator_set s = []")
  case False
  have "filter va_active (map (authority_for \<circ> fst) vs) = map (authority_for \<circ> fst) vs" for vs :: "(hash, hash) hashmap"
    by (induction vs) (simp_all add: authority_for_def)
  then have "length (filter va_active (sort_key va_node_id (map (authority_for \<circ> fst) (nr_validator_set s)))) = length (nr_validator_set s)"
    by (simp add: filter_sort)
  then have "filter va_active (sort_key va_node_id (map (authority_for \<circ> fst) (nr_validator_set s))) \<noteq> []" using False by auto
  then show ?thesis using False by (simp add: proposer_for_height_round_def round_robin_proposer_def Let_def)
qed (simp add: proposer_for_height_round_def)

text \<open>
  C17. Only the proposer whose turn it is gets a block into a node: whenever the handler of block proposals stores a block, touches
  a round or appends to the chain, the message carries a signature that verifies under the proposer's key, the
  block names that proposer, the proposer belongs to the validator set and is the one chosen for this height and
  round, and the block passes the validation of candidates on the node's own chain.
\<close>

theorem proposal_admission:
  assumes "handle_block_proposal E X N now msg s = Some (r, s')"
    and "nr_pending s' \<noteq> nr_pending s \<or> nr_rounds s' \<noteq> nr_rounds s \<or> ch_blocks (nr_chain s') \<noteq> ch_blocks (nr_chain s)"
  shows "verify_block_proposal_signature E N msg \<and> bp_proposer_id msg = bh_validator_id (header (bp_block msg)) \<and>
    authorised (synced s) (bp_proposer_id msg) \<and>
    proposer_for_height_round (synced s) (bh_height (header (bp_block msg))) (bp_round msg) = Some (bp_proposer_id msg) \<and>
    (\<exists>c. validate_candidate_block_for_round E X (nr_chain s) (bp_block msg) (Some (bp_round msg)) = Some (Inr (), c))"
proof -
  let ?b = "bp_block msg" and ?t = "synced s"
  let ?h = "bh_height (header ?b)"
  have sig: "verify_block_proposal_signature E N msg" "bp_proposer_id msg = bh_validator_id (header ?b)"
    using assms by (auto simp: handle_block_proposal_def Let_def nthen_reject nthen_synced split: if_splits)
  define K where "K = (nthen (store_pending ?b)
     (nthen (nmod (ensure_round now ?h (bh_block_id (header ?b)) (bp_round msg)))
     (nthen (join_round X N ?h (bh_block_id (header ?b)) (bp_round msg))
     (nthen (persist_consensus_state N)
     (nthen (maybe_advance_consensus E X N ?h)
       (nbind (nget nr_validator_id)
         (\<lambda>vid. nwhen (bp_proposer_id msg \<noteq> vid) (broadcast (BlockProposal msg)))))))))"
  have h: "nthen (check_proposer_id msg) (nthen (check_candidate E X ?b (bp_round msg)) K) ?t = Some (r, s')"
    using assms(1) sig by (simp add: handle_block_proposal_def Let_def nthen_reject nthen_synced K_def)
  obtain q where q: "proposer_for_height_round ?t ?h (bp_round msg) = Some q" using proposer_exists by blast
  have "authorised ?t (bp_proposer_id msg) \<and> q = bp_proposer_id msg"
    using h assms(2) q
    by (auto simp: check_proposer_id_def nthen_def nbind_def nreject_def nret_def nfail_def Let_def split: if_splits)
  moreover from this have "nthen (check_candidate E X ?b (bp_round msg)) K ?t = Some (r, s')"
    using h q by (auto simp: check_proposer_id_def nthen_def nbind_def nreject_def nret_def nfail_def Let_def split: if_splits)
  then have "\<exists>c. validate_candidate_block_for_round E X (nr_chain s) ?b (Some (bp_round msg)) = Some (Inr (), c)"
  proof (cases "validate_candidate_block_for_round E X (nr_chain s) ?b (Some (bp_round msg))")
    case (Some x)
    obtain v c where x: "x = (v, c)" by fastforce
    have "ch_blocks c = ch_blocks (nr_chain s)" using validate_candidate_frame [OF Some [unfolded x]] by auto
    then show ?thesis
      using \<open>nthen _ K ?t = _\<close> Some x assms(2)
      by (cases v) (auto simp: check_candidate_def nthen_def nbind_def nret_def nfail_def)
  qed (simp add: check_candidate_def nthen_def nbind_def)
  ultimately show ?thesis using sig q by simp
qed

text \<open>A proposal that is stored although its round has moved on.\<close>

definition ahead_runtime :: network_runtime where
  "ahead_runtime = sample_runtime\<lparr>nr_rounds := [(2, \<lparr>rs_round = round_new 1 0 ZERO_HASH 2 7 [(5, 5)] 9, rs_last_round_ms = 90\<rparr>)]\<rparr>"

definition late_proposal :: block_proposal_message where
  "late_proposal = \<lparr>bp_proposer_id = 5, bp_block = sample_produced, bp_round = 0, bp_signature = replicate 64 (CHR 0x00)\<rparr>"

lemma sample_produced_header: "bh_height (header sample_produced) = 2" "bh_validator_id (header sample_produced) = 5"
proof -
  note f = build_block_fields [of signing_ext sample_node sample_chain "sample_block []" 1000 "[]" "[]" "set_height world_new 2"
      "balance_root (ex_blake3 signing_ext) ledger_new", folded sample_produced_def]
  show "bh_height (header sample_produced) = 2" "bh_validator_id (header sample_produced) = 5"
    by (simp_all add: f(1,5) sample_block_def sample_header_def u64_saturating_add_def U64_MAX_def local_validator_id_def sample_node_def sample_chain_fields)
qed

lemma late_proposal_stored:
  "\<exists>s'. handle_block_proposal signing_ext sample_node sample_net 100 late_proposal ahead_runtime = Some (Inl (NeConsensusRound 7 0), s') \<and>
     nr_pending s' \<noteq> nr_pending ahead_runtime"
proof -
  obtain d where "import_block signing_ext sample_node sample_chain sample_produced = Some (Inr (), d)" using sample_produced_imports by blast
  then have "\<exists>c. validate_candidate_block signing_ext sample_node sample_chain sample_produced = Some (Inr (), c)"
    by (auto simp: import_block_def split: option.splits prod.splits sum.splits)
  moreover have "check_proposer sample_chain sample_produced rd = Inr ()" for rd by (simp add: check_proposer_def sample_chain_fields)
  then have "validate_candidate_block signing_ext sample_node sample_chain sample_produced =
      validate_candidate_block_for_round signing_ext sample_node sample_chain sample_produced (Some 0)"
    by (simp only: validate_candidate_block_def validate_candidate_block_for_round_def)
  ultimately obtain c where c: "validate_candidate_block_for_round signing_ext sample_node sample_chain sample_produced (Some 0) = Some (Inr (), c)"
    by auto
  then have ep: "epoch (ch_treasury c) = 0" using validate_candidate_frame [OF c] sample_chain_fields(4) by auto
  have sync: "synced ahead_runtime = ahead_runtime"
    by (simp add: synced_def sync_validator_set_from_chain_if_unconfigured_def nmod_def ahead_runtime_def sample_runtime_def sample_config_def
        active_validator_map_def sample_chain_fields hashmap_eq_def Let_def)
  have id: "check_proposer_id late_proposal ahead_runtime = Some (Inr (), ahead_runtime)"
    by (simp add: check_proposer_id_def nthen_def nbind_def late_proposal_def sample_produced_header authorised_def ahead_runtime_def sample_runtime_def
        proposer_for_height_round_def round_robin_proposer_def authority_for_def nreject_def nret_def Let_def)
  have ver: "verify_block_proposal_signature signing_ext sample_net late_proposal"
    by (simp add: verify_block_proposal_signature_def late_proposal_def signing_ext_def)
  let ?s1 = "ahead_runtime\<lparr>nr_chain := c, nr_pending := [(bh_block_id (header sample_produced), sample_produced)]\<rparr>"
  have cand: "check_candidate signing_ext sample_node sample_produced 0 ahead_runtime = Some (Inr (), ahead_runtime\<lparr>nr_chain := c\<rparr>)"
    by (simp add: check_candidate_def c ahead_runtime_def sample_runtime_def nret_def)
  have pend: "store_pending sample_produced (ahead_runtime\<lparr>nr_chain := c\<rparr>) = Some (Inr (), ?s1)"
    by (simp add: store_pending_def ahead_runtime_def sample_runtime_def nret_def MAX_PENDING_BLOCKS_def Let_def)
  have ens: "ensure_round 100 2 blk 0 ?s1 = ?s1" for blk by (simp add: ensure_round_def ahead_runtime_def)
  have join: "join_round sample_node sample_net 2 blk 0 ?s1 = Some (Inl (NeConsensusRound 7 0), ?s1)" for blk
    by (simp add: join_round_def round_at_def ahead_runtime_def round_new_def current_epoch_def ep nfail_def Let_def)
  have "handle_block_proposal signing_ext sample_node sample_net 100 late_proposal ahead_runtime = Some (Inl (NeConsensusRound 7 0), ?s1)"
    using ver unfolding handle_block_proposal_def Let_def
    by (simp add: nthen_reject nthen_synced sync late_proposal_def sample_produced_header)
      (simp add: nthen_def [of "check_proposer_id _"] nthen_def [of "check_candidate _ _ _ _"] nthen_def [of "store_pending _"] nthen_mod
        nthen_def [of "join_round _ _ _ _ _"] nbind_def id [unfolded late_proposal_def] cand pend ens join)
  then show ?thesis by (simp add: ahead_runtime_def sample_runtime_def)
qed

theorem proposal_admission_witness:
  "\<exists>s'. handle_block_proposal signing_ext sample_node sample_net 100 late_proposal ahead_runtime = Some (Inl (NeConsensusRound 7 0), s') \<and>
     proposer_for_height_round (synced ahead_runtime) 2 0 = Some 5"
proof -
  obtain s' where s': "handle_block_proposal signing_ext sample_node sample_net 100 late_proposal ahead_runtime = Some (Inl (NeConsensusRound 7 0), s')"
    "nr_pending s' \<noteq> nr_pending ahead_runtime" using late_proposal_stored by blast
  note admitted = proposal_admission [OF s'(1) disjI1 [OF s'(2)]]
  then have "proposer_for_height_round (synced ahead_runtime) 2 0 = Some 5" by (simp add: late_proposal_def sample_produced_header)
  then show ?thesis using s'(1) by blast
qed

section \<open>Blocks without a vote\<close>

text \<open>
  C39. A block enters the chain without a vote: whoever sends a block response, asked for or not, gets its block imported when it
  passes validation, whatever rounds, votes or pending blocks the node has. The block is appended, no safety
  certificate is recorded for it, and the round in progress for this height is dropped.
\<close>

theorem response_bypasses_vote:
  assumes "rp_block msg = Some b" "import_block E X (nr_chain s) b = Some (Inr (), c)"
  shows "\<exists>s'. handle_block_response E X N msg s = Some (Inr (), s') \<and> ch_blocks (nr_chain s') = ch_blocks (nr_chain s) @ [b] \<and>
    ch_safety_certificates (nr_chain s') = ch_safety_certificates (nr_chain s) \<and>
    map_of (nr_rounds s') (bh_height (header b)) = None \<and> map_of (nr_pending s') (bh_block_id (header b)) = None"
proof -
  have "extends E X (nr_chain s) [b] c" using import_outcome [OF assms(2)] by simp
  then have c: "ch_blocks c = ch_blocks (nr_chain s) @ [b]" "ch_safety_certificates c = ch_safety_certificates (nr_chain s)"
    by (simp_all add: extends_def)
  show ?thesis
    using assms c
    by (simp add: handle_block_response_def nthen_mod persist_consensus_state_def nmod_def drop_height_def flush_chain_def delete_conv)
qed

theorem response_bypasses_vote_witness:
  "\<exists>b s'. handle_block_response signing_ext sample_node sample_net \<lparr>rp_responder_id = 8, rp_block = Some b, rp_height = 2\<rparr> (voting_runtime None) = Some (Inr (), s') \<and>
     length (ch_blocks (nr_chain s')) = 2 \<and> ch_safety_certificates (nr_chain s') = []"
proof -
  let ?b = sample_produced
  obtain d where d: "import_block signing_ext sample_node sample_chain ?b = Some (Inr (), d)" using sample_produced_imports by blast
  let ?msg = "\<lparr>rp_responder_id = 8, rp_block = Some ?b, rp_height = 2\<rparr>"
  have "nr_chain (voting_runtime None) = sample_chain" by (simp add: voting_runtime_def sample_runtime_def)
  then obtain s' where "handle_block_response signing_ext sample_node sample_net ?msg (voting_runtime None) = Some (Inr (), s')"
    "ch_blocks (nr_chain s') = ch_blocks sample_chain @ [?b]" "ch_safety_certificates (nr_chain s') = ch_safety_certificates sample_chain"
    using response_bypasses_vote [of ?msg ?b signing_ext sample_node "voting_runtime None" d sample_net] d by auto
  moreover have "length (ch_blocks sample_chain) = 1" "ch_safety_certificates sample_chain = []" by (simp_all add: sample_chain_def)
  ultimately show ?thesis by (intro exI [of _ ?b] exI [of _ s']) simp
qed

section \<open>Rounds without a proposer\<close>

text \<open>The chain's proposer of a height is its proposer of round 0.\<close>

lemma sorted_ids_unique:
  assumes "distinct (map va_node_id xs)" "distinct (map va_node_id ys)" "va_node_id ` set xs = va_node_id ` set ys"
  shows "map va_node_id (sort_key va_node_id xs) = map va_node_id (sort_key va_node_id ys)"
  using assms by (intro sorted_distinct_set_unique) (simp_all add: distinct_map_sort)

lemma round_robin_id:
  assumes "filter va_active vs \<noteq> []"
  shows "map_option va_node_id (round_robin_proposer vs n) =
    Some (map va_node_id (sort_key va_node_id (filter va_active vs)) ! (n mod length (filter va_active vs)))"
  using assms by (simp add: round_robin_proposer_def Let_def)

lemma proposer_rotates:
  assumes "distinct ids" "ids \<noteq> []" "(r :: nat) mod length ids \<noteq> 0"
  shows "ids ! ((h + r) mod length ids) \<noteq> ids ! (h mod length ids)"
proof
  assume "ids ! ((h + r) mod length ids) = ids ! (h mod length ids)"
  then have "(h + r) mod length ids = h mod length ids"
    using assms(1,2) by (simp add: nth_eq_iff_index_eq)
  then have "length ids dvd r" using mod_eq_dvd_iff_nat [of h "h + r" "length ids"] by simp
  then show False using assms(3) by simp
qed

definition active_ids :: "chain \<Rightarrow> hash list" where
  "active_ids c = map va_node_id (sort_key va_node_id (filter va_active (ch_validator_set c)))"

lemma keys_update: "fst ` set (AList.update k v m) = insert k (fst ` set m)"
  by (induction m) auto

lemma active_map_keys: "fst ` set (active_validator_map vs) = va_node_id ` set (filter va_active vs)"
proof -
  have "fst ` set (fold (\<lambda>v m. AList.update (va_node_id v) (va_node_id v) m) xs m) = va_node_id ` set xs \<union> fst ` set m"
    for xs :: "validator_authority list" and m
    by (induction xs arbitrary: m) (auto simp: keys_update)
  then show ?thesis by (simp add: active_validator_map_def)
qed

lemma hashmap_eq_keys:
  assumes "hashmap_eq a b" "keys_distinct a" "keys_distinct b"
  shows "fst ` set a = fst ` set b"
proof (rule card_subset_eq)
  show "fst ` set a \<subseteq> fst ` set b"
    using assms(1) by (force simp: hashmap_eq_def list_all_iff dest: map_of_SomeD)
  show "card (fst ` set a) = card (fst ` set b)"
    using assms distinct_card [of "map fst a"] distinct_card [of "map fst b"] by (simp add: hashmap_eq_def)
qed simp

lemma synced_validators:
  assumes "nc_validators (nr_config s) = []" "keys_distinct (nr_validator_set s)" "active_ids (nr_chain s) \<noteq> []"
  shows "keys_distinct (nr_validator_set (synced s))" "fst ` set (nr_validator_set (synced s)) = set (active_ids (nr_chain s))"
proof -
  let ?next = "active_validator_map (ch_validator_set (nr_chain s))"
  have keys: "fst ` set ?next = set (active_ids (nr_chain s))" by (simp add: active_map_keys active_ids_def)
  then have "?next \<noteq> []" using assms(3) by auto
  then have s: "nr_validator_set (synced s) = (if hashmap_eq (nr_validator_set s) ?next then nr_validator_set s else ?next)"
    using assms(1) by (simp add: synced_def sync_validator_set_from_chain_if_unconfigured_def nmod_def Let_def)
  show "keys_distinct (nr_validator_set (synced s))" using s assms(2) active_validator_map_distinct by simp
  show "fst ` set (nr_validator_set (synced s)) = set (active_ids (nr_chain s))"
    using s keys hashmap_eq_keys [OF _ assms(2) active_validator_map_distinct] by auto
qed

lemma round_proposer:
  assumes "nc_validators (nr_config s) = []" "keys_distinct (nr_validator_set s)" "active_ids (nr_chain s) \<noteq> []" "distinct (active_ids (nr_chain s))"
  shows "proposer_for_height_round (synced s) h r =
    Some (active_ids (nr_chain s) ! (u64_saturating_add h r mod length (active_ids (nr_chain s))))"
proof -
  let ?vs = "sort_key va_node_id (map (authority_for \<circ> fst) (nr_validator_set (synced s)))"
  note v = synced_validators [OF assms(1-3)]
  have act: "filter va_active (map (authority_for \<circ> fst) m) = map (authority_for \<circ> fst) m" for m :: "(hash, hash) hashmap"
    by (induction m) (simp_all add: authority_for_def)
  then have all: "filter va_active ?vs = ?vs" by (simp add: filter_sort)
  have ids: "map va_node_id (map (authority_for \<circ> fst) m) = map fst m" for m :: "(hash, hash) hashmap"
    by (simp add: authority_for_def)
  have ne: "nr_validator_set (synced s) \<noteq> []" using v(2) assms(3) by auto
  have "length ?vs = length (nr_validator_set (synced s))" by simp
  then have ne': "?vs \<noteq> []" using ne by (metis length_0_conv)
  have "map va_node_id (sort_key va_node_id ?vs) = active_ids (nr_chain s)"
  proof (rule sorted_distinct_set_unique)
    have "set (map va_node_id (sort_key va_node_id ?vs)) = set (map va_node_id (map (authority_for \<circ> fst) (nr_validator_set (synced s))))" by (simp only: set_map set_sort)
    also have "\<dots> = set (active_ids (nr_chain s))" unfolding ids using v(2) by simp
    finally show "set (map va_node_id (sort_key va_node_id ?vs)) = set (active_ids (nr_chain s))" .
    have "distinct (map va_node_id (map (authority_for \<circ> fst) (nr_validator_set (synced s))))" unfolding ids using v(1) by simp
    then show "distinct (map va_node_id (sort_key va_node_id ?vs))" by (simp add: distinct_map_sort)
  qed (use assms(4) in \<open>simp_all add: active_ids_def\<close>)
  moreover from this have "length ?vs = length (active_ids (nr_chain s))" by (metis length_map length_sort)
  ultimately show ?thesis
    using ne ne' round_robin_id [of ?vs "u64_saturating_add h r"] all by (simp add: proposer_for_height_round_def)
qed

text \<open>
  C38. A round that was lost stays lost: once a height has gone to a round that is not a multiple of the number of validators,
  no node sends a proposal for it. The proposer loop picks the proposer by height and round, but
  the block it asks for is only built by the proposer of the height alone, and these are never the same validator.
\<close>

theorem later_round_silent:
  assumes "nc_validators (nr_config s) = []" "keys_distinct (nr_validator_set s)"
    and "distinct (active_ids (nr_chain s))" "active_ids (nr_chain s) \<noteq> []"
    and "nr_validator_id s = local_validator_id X (nr_chain s)"
    and "h = u64_saturating_add (chain_height (nr_chain s)) 1" "round_at s h = Some cr" "block_hash cr = ZERO_HASH"
    and "cr_round cr mod length (active_ids (nr_chain s)) \<noteq> 0" "h + cr_round cr \<le> U64_MAX"
  shows "\<exists>s'. proposer_tick E X N now s = Some (Inr (), s') \<and> nr_outbox s' = nr_outbox s \<and>
    nr_rounds s' = nr_rounds s \<and> nr_pending s' = nr_pending s \<and> ch_blocks (nr_chain s') = ch_blocks (nr_chain s)"
proof -
  let ?c = "nr_chain s" and ?r = "cr_round cr" and ?t = "synced s"
  let ?ids = "active_ids ?c"
  have pr: "proposer_for_height_round ?t h ?r = Some (?ids ! ((h + ?r) mod length ?ids))"
    using round_proposer [OF assms(1,2,4,3)] assms(10) by (simp add: u64_saturating_add_def)
  have silent: "\<exists>x. build_candidate_block E X now ?c = Some (Inl x, ?c\<lparr>ch_state := share_store (ch_state ?c) (ch_state ?c)\<rparr>)"
    if "is_proposer_for_height_round ?t h ?r"
  proof (cases "latest_block ?c")
    case None
    then show ?thesis by (simp add: build_candidate_block_def produce_block_def on_scratch_def)
  next
    case (Some parent)
    have "local_validator_id X ?c = ?ids ! ((h + ?r) mod length ?ids)"
      using that pr assms(5) by (simp add: is_proposer_for_height_round_def)
    then have "local_validator_id X ?c \<noteq> ?ids ! (h mod length ?ids)"
      using proposer_rotates [OF assms(3,4,9)] by metis
    moreover have "filter va_active (ch_validator_set ?c) \<noteq> []" using assms(4) by (auto simp: active_ids_def)
    then have "map_option va_node_id (round_robin_proposer (ch_validator_set ?c) h) = Some (?ids ! (h mod length ?ids))"
      using round_robin_id by (simp add: active_ids_def)
    ultimately have "\<not> is_proposer_for_height X ?c h"
      using assms(4) by (auto simp: is_proposer_for_height_def active_ids_def)
    then show ?thesis using Some assms(6)
      by (simp add: build_candidate_block_def produce_block_def on_scratch_def chain_height_def Let_def)
  qed
  have "proposal_round ?t h = (?r, phase cr, None)"
    using assms(7,8) by (auto simp: proposal_round_def round_at_def)
  then show ?thesis
    using silent assms(6)
    by (auto simp: proposer_tick_def nthen_synced nret_def nbind_def candidate_for_def Let_def)
qed

text \<open>Two validators, of which the second is the proposer of height 2, round 1.\<close>

definition two_chain :: chain where
  "two_chain = sample_chain\<lparr>ch_validator_set := [authority_for 4, authority_for 5]\<rparr>"

definition stalled_runtime :: network_runtime where
  "stalled_runtime = sample_runtime\<lparr>nr_chain := two_chain, nr_validator_set := [(4, 4), (5, 5)],
     nr_rounds := [(2, \<lparr>rs_round = round_new 1 0 ZERO_HASH 2 1 [(4, 4), (5, 5)] 5, rs_last_round_ms = 90\<rparr>)]\<rparr>"

theorem later_round_silent_witness:
  "is_proposer_for_height_round (synced stalled_runtime) 2 1 \<and>
   (\<exists>s'. proposer_tick signing_ext sample_node sample_net 1000 stalled_runtime = Some (Inr (), s') \<and> nr_outbox s' = [] \<and> nr_pending s' = [])"
proof -
  have ids: "active_ids two_chain = [4, 5]" by (simp add: active_ids_def two_chain_def authority_for_def)
  have h: "2 = u64_saturating_add (chain_height (nr_chain stalled_runtime)) 1"
    by (simp add: stalled_runtime_def two_chain_def sample_chain_def chain_height_def latest_block_def sample_block_def sample_header_def u64_saturating_add_def U64_MAX_def)
  have c: "nr_chain stalled_runtime = two_chain" "nc_validators (nr_config stalled_runtime) = []" "keys_distinct (nr_validator_set stalled_runtime)"
    "nr_validator_id stalled_runtime = local_validator_id sample_node two_chain" "nr_outbox stalled_runtime = []" "nr_pending stalled_runtime = []"
    by (simp_all add: stalled_runtime_def sample_runtime_def sample_config_def local_validator_id_def sample_node_def two_chain_def sample_chain_def)
  have "round_at stalled_runtime 2 = Some (round_new 1 0 ZERO_HASH 2 1 [(4, 4), (5, 5)] 5)" by (simp add: round_at_def stalled_runtime_def)
  note silent = later_round_silent [OF c(2,3) _ _ _ h this, unfolded c(1) ids, OF _ _ c(4)]
  have "proposer_for_height_round (synced stalled_runtime) 2 1 = Some 5"
    using round_proposer [OF c(2,3), unfolded c(1) ids, of 2 1] by (simp add: u64_saturating_add_def U64_MAX_def numeral_2_eq_2 [symmetric])
  then have "is_proposer_for_height_round (synced stalled_runtime) 2 1"
    by (simp add: is_proposer_for_height_round_def stalled_runtime_def sample_runtime_def)
  moreover have "\<exists>s'. proposer_tick signing_ext sample_node sample_net 1000 stalled_runtime = Some (Inr (), s') \<and> nr_outbox s' = [] \<and> nr_pending s' = []"
    using silent [where E = signing_ext and N = sample_net and now = 1000]
    by (auto simp: round_new_def Let_def U64_MAX_def c(5,6))
  ultimately show ?thesis by blast
qed

section \<open>Evidence\<close>

text \<open>What processing verified evidence does, given that the cache of the runtime does not have it.\<close>

lemma evidence_outcome:
  assumes "conflicting a b" "verify_vote_signature E N a ep s = Some (Inr (), s)" "verify_vote_signature E N b ep s = Some (Inr (), s)"
    and "equivocation_key_of a b ep \<notin> set (nr_equivocations s)"
  shows "\<exists>s'. net_record_equivocation E N a b ep False s = Some (Inr (), s') \<and>
    nr_chain s' = slash_and_record (proof_of_votes a b) ep (nr_chain s) \<and> nr_validator_set s' = nr_validator_set s \<and> nr_chain_id s' = nr_chain_id s"
  using assms
  by (simp add: net_record_equivocation_def nthen_def [of "verify_vote_signature _ _ _ _"] nbind_def Let_def nthen_mod nwhen_def nret_def
      split: prod.split)

lemma slash_and_record_stake:
  assumes "map_of (stakes (ch_slashing c)) (ep_validator_id prf) = Some st"
  shows "map_of (stakes (ch_slashing (slash_and_record prf ep c))) (ep_validator_id prf) =
      Some (stake_after (double_sign_penalty_pct (sl_config (ch_slashing c))) st)"
    "sl_config (ch_slashing (slash_and_record prf ep c)) = sl_config (ch_slashing c)"
    "length (sl_events (ch_slashing (slash_and_record prf ep c))) = Suc (length (sl_events (ch_slashing c)))"
proof -
  have frame: "ch_slashing (snd (execute_slashing_penalty d v p)) = ch_slashing d" for d v p
    by (simp add: execute_slashing_penalty_def Let_def split: sum.split)
  have rec: "ch_slashing (record_equivocation d p e) = ch_slashing d" for d p e
    by (simp add: record_equivocation_def Let_def split: prod.split)
  show "map_of (stakes (ch_slashing (slash_and_record prf ep c))) (ep_validator_id prf) =
      Some (stake_after (double_sign_penalty_pct (sl_config (ch_slashing c))) st)"
    "sl_config (ch_slashing (slash_and_record prf ep c)) = sl_config (ch_slashing c)"
    "length (sl_events (ch_slashing (slash_and_record prf ep c))) = Suc (length (sl_events (ch_slashing c)))"
    using assms by (simp_all add: slash_and_record_def slash_double_sign_def frame rec Let_def)
qed

lemma verify_vote_signature_frame:
  assumes "verify_vote_signature E N v ep s = Some (Inr (), s)" "nr_validator_set t = nr_validator_set s" "nr_chain_id t = nr_chain_id s"
  shows "verify_vote_signature E N v ep t = Some (Inr (), t)"
  using assms by (auto simp: verify_vote_signature_def nret_def nfail_def split: option.splits if_splits)

lemma equivocation_recorded: "\<exists>r \<in> set (ch_equivocation_records (record_equivocation c p ep)). same_equivocation r (p, ep)"
proof (cases "\<exists>r \<in> set (ch_equivocation_records c). same_equivocation r (p, ep)")
  case False
  obtain x y where o: "ordered_hashes p = (x, y)" by fastforce
  let ?q = "(p\<lparr>ep_block_hash_a := x, ep_block_hash_b := y\<rparr>, ep)"
  have "same_equivocation ?q (p, ep)" using o by (auto simp: same_equivocation_def ordered_hashes_def split: if_splits)
  moreover have "?q \<in> set (ch_equivocation_records (record_equivocation c p ep))"
    using False o by (simp add: record_equivocation_def MAX_EQUIVOCATION_RECORDS_def Let_def)
  ultimately show ?thesis by blast
qed (simp add: record_equivocation_def)

lemma slash_and_record_known:
  "ch_equivocation_records (slash_and_record prf ep (slash_and_record prf ep c)) = ch_equivocation_records (slash_and_record prf ep c)"
proof -
  obtain d where d: "slash_and_record prf ep c = record_equivocation d prf ep" by (simp add: slash_and_record_def Let_def)
  obtain d' where d': "slash_and_record prf ep (slash_and_record prf ep c) = record_equivocation d' prf ep"
    "ch_equivocation_records d' = ch_equivocation_records (slash_and_record prf ep c)"
    by (rule that [OF slash_and_record_def [THEN trans, unfolded Let_def, OF refl]])
      (simp add: slashing_frame split: sum.split prod.split)
  have "\<exists>r \<in> set (ch_equivocation_records d'). same_equivocation r (prf, ep)"
    unfolding d'(2) d by (rule equivocation_recorded)
  then show ?thesis using d' by (simp add: record_equivocation_def)
qed

definition restarted :: "network_runtime \<Rightarrow> network_runtime" where
  "restarted s = s\<lparr>nr_equivocations := [], nr_equivocations_order := []\<rparr>"

text \<open>
  C40. The same evidence is punished again: the runtime's cache of evidence is empty after a restart (and forgets
  its oldest entries), and the stake is reduced before the chain's own record is consulted. Evidence that is
  replayed to a restarted node takes a second share of the stake, although the chain already has it on record.
\<close>

theorem replayed_evidence_slashes_again:
  assumes "conflicting a b" "verify_vote_signature E N a ep s = Some (Inr (), s)" "verify_vote_signature E N b ep s = Some (Inr (), s)"
    and "equivocation_key_of a b ep \<notin> set (nr_equivocations s)"
    and "map_of (stakes (ch_slashing (nr_chain s))) (validator_id a) = Some st"
    and "pct = double_sign_penalty_pct (sl_config (ch_slashing (nr_chain s)))"
    and "msg = \<lparr>ee_vote_a = a, ee_vote_b = b, ee_epoch = ep\<rparr>"
  shows "\<exists>s1 s2. handle_equivocation_evidence E N msg s = Some (Inr (), s1) \<and>
    handle_equivocation_evidence E N msg (restarted s1) = Some (Inr (), s2) \<and>
    map_of (stakes (ch_slashing (nr_chain s1))) (validator_id a) = Some (stake_after pct st) \<and>
    map_of (stakes (ch_slashing (nr_chain s2))) (validator_id a) = Some (stake_after pct (stake_after pct st)) \<and>
    ch_equivocation_records (nr_chain s2) = ch_equivocation_records (nr_chain s1)"
proof -
  let ?pf = "proof_of_votes a b"
  have v: "ep_validator_id ?pf = validator_id a" by (simp add: proof_of_votes_def)
  obtain s1 where s1: "net_record_equivocation E N a b ep False s = Some (Inr (), s1)" "nr_chain s1 = slash_and_record ?pf ep (nr_chain s)"
    "nr_validator_set s1 = nr_validator_set s" "nr_chain_id s1 = nr_chain_id s"
    using evidence_outcome [OF assms(1-4)] by blast
  have "verify_vote_signature E N a ep (restarted s1) = Some (Inr (), restarted s1)"
    "verify_vote_signature E N b ep (restarted s1) = Some (Inr (), restarted s1)"
    using s1(3,4) verify_vote_signature_frame assms(2,3) by (simp_all add: restarted_def)
  then obtain s2 where s2: "net_record_equivocation E N a b ep False (restarted s1) = Some (Inr (), s2)"
    "nr_chain s2 = slash_and_record ?pf ep (nr_chain (restarted s1))"
    using evidence_outcome [OF assms(1), of E N ep "restarted s1"] by (auto simp: restarted_def)
  have c2: "nr_chain s2 = slash_and_record ?pf ep (nr_chain s1)" using s2(2) by (simp add: restarted_def)
  note st = slash_and_record_stake [of "nr_chain s" ?pf st ep, unfolded v, OF assms(5), folded s1(2) assms(6)]
  have "map_of (stakes (ch_slashing (nr_chain s2))) (validator_id a) = Some (stake_after pct (stake_after pct st))"
    using slash_and_record_stake(1) [of "nr_chain s1" ?pf _ ep, unfolded v, OF st(1), folded c2] st(2) assms(6) by simp
  moreover have "ch_equivocation_records (nr_chain s2) = ch_equivocation_records (nr_chain s1)"
    using slash_and_record_known [of ?pf ep "nr_chain s"] c2 s1(2) by simp
  ultimately show ?thesis
    using s1(1) s2(1) st(1) assms(7) by (auto simp: handle_equivocation_evidence_def)
qed

definition evidence_vote :: "hash \<Rightarrow> vote" where
  "evidence_vote blk = \<lparr>validator_id = 5, v_block_hash = blk, v_height = 2, v_round = 0, vote_type_of = Precommit, v_signature = replicate 64 (CHR 0x00)\<rparr>"

definition staked_runtime :: network_runtime where
  "staked_runtime = sample_runtime\<lparr>nr_chain := sample_chain\<lparr>ch_slashing := (slashing_engine_new slashing_config_default)\<lparr>stakes := [(5, 1000)]\<rparr>\<rparr>\<rparr>"

theorem replayed_evidence_slashes_again_witness:
  "\<exists>s1 s2. handle_equivocation_evidence signing_ext sample_net \<lparr>ee_vote_a = evidence_vote 7, ee_vote_b = evidence_vote 8, ee_epoch = 0\<rparr> staked_runtime = Some (Inr (), s1) \<and>
     handle_equivocation_evidence signing_ext sample_net \<lparr>ee_vote_a = evidence_vote 7, ee_vote_b = evidence_vote 8, ee_epoch = 0\<rparr> (restarted s1) = Some (Inr (), s2) \<and>
     map_of (stakes (ch_slashing (nr_chain s2))) 5 = Some (stake_after (double_sign_penalty_pct slashing_config_default) (stake_after (double_sign_penalty_pct slashing_config_default) 1000))"
proof -
  have "conflicting (evidence_vote 7) (evidence_vote 8)" by (simp add: conflicting_def evidence_vote_def)
  moreover have "verify_vote_signature signing_ext sample_net (evidence_vote blk) 0 staked_runtime = Some (Inr (), staked_runtime)" for blk
    by (simp add: verify_vote_signature_def evidence_vote_def staked_runtime_def sample_runtime_def signing_ext_def nret_def)
  moreover have "equivocation_key_of (evidence_vote 7) (evidence_vote 8) 0 \<notin> set (nr_equivocations staked_runtime)"
    "map_of (stakes (ch_slashing (nr_chain staked_runtime))) (validator_id (evidence_vote 7)) = Some 1000"
    "double_sign_penalty_pct slashing_config_default = double_sign_penalty_pct (sl_config (ch_slashing (nr_chain staked_runtime)))"
    by (simp_all add: staked_runtime_def sample_runtime_def evidence_vote_def slashing_engine_new_def)
  ultimately show ?thesis
    using replayed_evidence_slashes_again [of "evidence_vote 7" "evidence_vote 8" signing_ext sample_net 0 staked_runtime 1000 _ _]
    by (simp add: evidence_vote_def) blast
qed

section \<open>Further shortfalls\<close>

text \<open>
  The vote handler looks for a conflicting vote only among the votes of its round, which are for the block of the
  incoming vote. So it never meets two votes for different blocks, except where a block had the all-zero identifier.
\<close>

lemma vote_handler_conflict:
  assumes "net_ok N s" "round_at s h = Some cr" "v_block_hash v = block_hash cr" "tally_vote N cr v = (Some old, x)"
  shows "v_block_hash old = ZERO_HASH"
proof -
  have "tracked_ok N h cr" using round_at_tracked [OF _ assms(2)] assms(1) by (simp add: net_ok_def)
  then show ?thesis
    using assms(3,4)
    by (auto simp: tally_vote_def tracked_ok_def round_votes_for_def list_all_iff split: vote_type.splits option.splits if_splits
        dest: map_of_SomeD)
qed

text \<open>A heartbeat carries no signature, and lifts the ban of the validator it names.\<close>

lemma heartbeat_lifts_ban:
  assumes "map_of (nr_registry s) (hb_validator_id msg) = Some p" "pi_state p = Banned" "authorised s (hb_validator_id msg)"
    and "hb_protocol_version msg = nc_protocol_version (nr_config s)" "hb_epoch msg = current_epoch s"
  shows "\<exists>s' q. handle_heartbeat msg addr s = Some (Inr (), s') \<and> map_of (nr_registry s') (hb_validator_id msg) = Some q \<and> pi_state q = Connected"
  using assms by (simp add: handle_heartbeat_def nthen_reject nmod_def Let_def update_conv)

text \<open>In the deterministic mode one vote finalizes.\<close>

lemma deterministic_quorum:
  "gov_finality_mode (ws_governance_state (state (ch_state (nr_chain s)))) = Deterministic \<Longrightarrow> consensus_quorum s = 1"
  by (simp add: consensus_quorum_def Let_def)

end
