(* ===== verification/Spec2Isabelle.thy ===== *)
theory Spec2Isabelle
  imports Scc_Param_Updates Scc_Escrow Scc_Assets Scc_Apply Scc_Safety Scc_Admission
    Scc_Proposals Scc_Fees Scc_Finality Scc_View_Change Scc_Slashing Scc_Containment Scc_Agents
    Scc_Norms Scc_Gas Scc_Transition_Checks Scc_Key_Rotation Scc_Constraints Scc_Cpog Scc_Mempool
    Scc_Governance_Replay Scc_Chain_Outcomes Scc_Chain_Replay Scc_Audit Scc_Delegation Scc_Pruning
    Scc_Network_Outcomes
begin

text \<open>
  SCCGUB is a governed blockchain kernel written in Rust (\<open>src/crates/\<close>). A node drains a pool of
  signed state transitions, validates and executes them, and seals them into a block with a causal
  graph, receipts and a governance snapshot. Other nodes check such a block by replaying it. Blocks
  are voted on in two rounds, and finality, slashing, governance proposals and validator-set changes
  follow from the blocks and the votes. This development models that program from the data types up
  to the chain object and the network runtime of a node, and proves what makes it correct.

  \<^bold>\<open>How the parts interact.\<close> \<open>sccgub-types\<close> holds data and pure checks. \<open>sccgub-state\<close> holds the
  world state: a trie of key/value bytes, from which every balance, escrow, treasury figure and
  system record can be read back. \<open>sccgub-governance\<close> decides who may change what and when.
  \<open>sccgub-consensus\<close> turns votes into certificates, evidence, view changes and finality.
  \<open>sccgub-execution\<close> decides whether a transition or a block is valid. \<open>sccgub-node\<close> composes them:
  \<open>Chain::produce_block\<close> and \<open>Chain::import_block\<close> in \<open>chain.rs\<close> call every other part, and the
  handlers of \<open>network.rs\<close> drive them from the messages of \<open>sccgub-network\<close>. \<open>sccgub-audit\<close> checks a
  chain from outside.

  \<^bold>\<open>Theories and sources.\<close>

  \<^item> Shared vocabulary. \<open>Scc_Prelude\<close>: byte strings, Rust's ordered and hashed maps, checked,
    saturating and wrapping arithmetic, and the collections of lemmas that the other theories use.
  \<^item> Data. \<open>Scc_Types\<close> (\<open>types/mfidel.rs\<close>, \<open>timestamp.rs\<close>, \<open>transition.rs\<close>, \<open>receipt.rs\<close>,
    \<open>contract.rs\<close>, \<open>state.rs\<close>, \<open>governance.rs\<close>, \<open>agent.rs\<close>), \<open>Scc_Tension\<close> (\<open>types/tension.rs\<close>,
    \<open>state/tension.rs\<close>), \<open>Scc_Causal\<close> (\<open>types/causal.rs\<close>), \<open>Scc_Block\<close> (\<open>types/block.rs\<close>,
    \<open>types/proof.rs\<close>, \<open>execution/chain_version_check.rs\<close>), \<open>Scc_Params\<close> and \<open>Scc_Param_Updates\<close>
    (\<open>types/consensus_params.rs\<close>, \<open>constitutional_ceilings.rs\<close>, \<open>typed_params.rs\<close>), \<open>Scc_Fees\<close>
    (\<open>types/economics.rs\<close>), \<open>Scc_Merkle\<close> (\<open>crypto/hash.rs\<close>, \<open>crypto/merkle.rs\<close>).
  \<^item> State. \<open>Scc_Trie\<close> (\<open>state/trie.rs\<close>, \<open>state/store.rs\<close>), \<open>Scc_World\<close> (\<open>state/world.rs\<close>,
    \<open>tension_history.rs\<close>, \<open>constitutional_ceilings_state.rs\<close>, \<open>chain_version_history_state.rs\<close>),
    \<open>Scc_Balances\<close>, \<open>Scc_Assets\<close>, \<open>Scc_Treasury\<close>, \<open>Scc_Escrow\<close>, \<open>Scc_Apply\<close> (the files of the
    same names), \<open>Scc_Validator_Set\<close> (\<open>types/validator_set.rs\<close>, \<open>state/validator_set_state.rs\<close>),
    \<open>Scc_Key_Rotation\<close> (\<open>types/key_rotation.rs\<close>, \<open>state/key_rotation_state.rs\<close>,
    \<open>execution/key_rotation_check.rs\<close>), \<open>Scc_Pruning\<close> (\<open>state/pruning.rs\<close>), \<open>Scc_Delegation\<close>
    (\<open>types/delegation.rs\<close>, \<open>types/future.rs\<close>).
  \<^item> Governance. \<open>Scc_Proposals\<close> (\<open>governance/proposals.rs\<close>), \<open>Scc_Agents\<close> (\<open>precedence.rs\<close>,
    \<open>registration.rs\<close>, \<open>agent_policy.rs\<close>, \<open>validator.rs\<close>, \<open>anti_concentration.rs\<close>),
    \<open>Scc_Containment\<close> (\<open>containment.rs\<close>, \<open>emergency.rs\<close>), \<open>Scc_Norms\<close> (\<open>norms.rs\<close>,
    \<open>responsibility.rs\<close>), \<open>Scc_Admission\<close> (\<open>patch_04.rs\<close>, \<open>execution/validator_set.rs\<close>,
    \<open>consensus/equivocation.rs\<close>, \<open>execution/evidence_admission.rs\<close>, both \<open>forgery_veto.rs\<close>).
  \<^item> Consensus. \<open>Scc_Protocol\<close> (\<open>consensus/protocol.rs\<close>), \<open>Scc_Safety\<close> (\<open>safety.rs\<close>),
    \<open>Scc_Finality\<close> (\<open>finality.rs\<close>, \<open>fork_choice.rs\<close>), \<open>Scc_View_Change\<close> (\<open>view_change.rs\<close>),
    \<open>Scc_Slashing\<close> (\<open>slashing.rs\<close>), \<open>Scc_Peers\<close> (\<open>partition.rs\<close>, \<open>law_sync.rs\<close>, and the peer
    registry \<open>network/peer.rs\<close>).
  \<^item> Execution. \<open>Scc_Gas\<close>, \<open>Scc_Transition_Checks\<close> (\<open>wh_check.rs\<close>, \<open>ontology.rs\<close>,
    \<open>payload_check.rs\<close>), \<open>Scc_Constraints\<close> (\<open>constraints.rs\<close>, \<open>contract.rs\<close>, \<open>scce.rs\<close>),
    \<open>Scc_Validate\<close> (\<open>validate.rs\<close>), \<open>Scc_Phi\<close> (\<open>phi.rs\<close>, \<open>ceilings.rs\<close>), \<open>Scc_Cpog\<close> (\<open>cpog.rs\<close>,
    \<open>invariants.rs\<close>).
  \<^item> Node. \<open>Scc_Mempool\<close> (\<open>node/mempool.rs\<close>), \<open>Scc_Governance_Replay\<close> (the governance side of a
    block in \<open>node/chain.rs\<close>), \<open>Scc_Chain\<close> (validation, import, production, fork choice, evidence,
    certificates), \<open>Scc_Chain_Safety\<close> and \<open>Scc_Chain_Outcomes\<close> (properties of those operations),
    \<open>Scc_Chain_Replay\<close> (genesis, cold replay, snapshots), \<open>Scc_Persistence\<close> (the files of the consensus state in
    \<open>node/persistence.rs\<close>), \<open>Scc_Network\<close> (\<open>node/network.rs\<close>, \<open>network/messages.rs\<close>: the message handlers,
    limits, rounds, restart and periodic tasks),
    \<open>Scc_Network_Safety\<close> and \<open>Scc_Network_Outcomes\<close> (properties of the runtime).
  \<^item> Tools. \<open>Scc_Audit\<close> (\<open>types/upgrade.rs\<close>, \<open>sccgub-audit\<close>).

  Each Rust struct is a record, each enum a datatype, each function or method a definition of the
  same name (with a prefix or suffix where two modules use one name). A method that mutates its
  receiver returns the updated record; one that can fail returns a sum whose left part has a
  constructor per error branch.

  \<^bold>\<open>What the lemma groups show.\<close>

  \<^item> Consensus safety. Two quorums of one round support one block unless more than the tolerated
    share of members signs twice; two certificates of one height name the members that
    equivocated; a finalized block has a quorum; the rule for choosing forks depends on the
    candidates only. The quorum arguments are made once in a locale for a weighted family of
    members, which both the counting quorum of \<open>protocol.rs\<close> and the power quorum of the validator
    set interpret.
  \<^item> Value. Credits, debits and transfers of the native ledger and of each asset satisfy one ledger
    interface, whose totals are exact; treasury, escrow and the economics of a block neither create
    nor lose value; ledger and treasury can be rebuilt from the trie.
  \<^item> State. The trie is a map with a cached root, the durable store mirrors it, the symbol store and
    the trie of a world agree, and the Merkle root binds its leaves.
  \<^item> Governance. Every activated proposal passed its vote and its time lock; a block changes the settings by exactly the
    proposals that it activates; parameters stay within
    bounds and ceilings; validator changes and key rotations have their specified effect and are
    authorised by the signatures the code asks for.
  \<^item> Execution. The cycle check is exact, the constraint walker is sound, a block that passes
    all thirteen phases or the full validity check has the stated properties.
  \<^item> Chain. A produced block is accepted by an importing node in the same state; any sequence of
    operations keeps the chain linked and in bounds and only extends its history; replaying
    the blocks of a live chain from genesis rebuilds its state; a state snapshot restores it.
  \<^item> Network. Whatever messages arrive and whichever timers fire, the buffers of a node stay bounded,
    its rounds hold verified votes only and its chain stays sound: every handler is followed through the
    locale of preorders on runtimes, interpreted on the invariant and on changes of the outbox alone.
    Only the proposer whose turn it is gets a block into a node, frames are read as they were written, and the
    consensus state survives a restart as long as its files can be written and its pending blocks are structurally
    valid; the heights that are the keys of its file are printed and parsed through a locale of key codecs.
  \<^item> Diagnostics. Law synchronization settles on one law set; the audit of the ceilings is exact for the
    heights it reads.
  \<^item> Limits of the code. Some theorems state what the checks do not cover: an identifier of a block
    that no check compares, an admission that does not ask for the stated signature, a validity
    check that verifies no signature, a block response that needs no vote, rounds in which nobody can
    propose, evidence that is punished twice, votes that a restart forgets.

  \<^bold>\<open>Termination, bounds and fuel.\<close> No definition uses fuel. Loops over data are structural
  recursions. The worklist loops of the cycle check, of the constraint walker, of the mempool trim
  and of the eviction from rate tables are functions with a termination measure. The loop that advances finality runs until its lookup fails
  or its quorum is missing, so it is a partial function with \<open>None\<close> for divergence, and it is proved
  to return. \<open>u32\<close>, \<open>u64\<close> and \<open>u128\<close> are natural numbers and \<open>i128\<close> are integers, with the
  checked, saturating or wrapping operation of the source written out; plain arithmetic wraps, as in a
  release build. Vectors are shorter than \<open>2^64\<close>.

  \<^bold>\<open>Parameters.\<close> BLAKE3, Ed25519, hex, bincode, serde_json and redb are not part of the repository. They are
  function arguments of the definitions, or fields of the records \<open>ext\<close>, \<open>node_ext\<close>, \<open>net_ext\<close> and \<open>json_ext\<close>, and a
  property that relies on them states what it needs, for instance that a decoder inverts its
  encoder or that a hash has no collision among the given inputs. Keys, random identifiers and the
  clock are arguments; the answers of the file system are part of the store. A panic is \<open>None\<close>. Texts of errors and log lines are replaced by
  constructors or by an argument that formats them. A clone of a world shares the durable
  store of the original; the model passes the store on explicitly.

  \<^bold>\<open>Concurrency.\<close> The locks and channels of the network runtime become one state, each handler and
  each tick of a timer one atomic step that reads the clock once, and a sent message an entry of the
  outbox. Interleavings are sequences of such steps; a deadlock between locks is outside the model.

  \<^bold>\<open>Not modelled.\<close> The socket tasks that call the handlers of \<open>network.rs\<close>, the command line, most of the
  configuration, logging and the files of blocks, snapshots and keys of the node, the API bridge and the HTTP API
  (\<open>sccgub-api\<close>, read access), the bincode encodings, wrappers of cryptographic libraries
  (\<open>crypto/keys.rs\<close>, \<open>keystore.rs\<close>), the redb back end, and data types that no other code uses.
\<close>

end
